(* ===== verification/Prelude.thy ===== *)
theory Prelude
  imports Main "HOL-Library.Word" "HOL-Library.AList" "HOL-Library.Char_ord"
    "HOL-Library.List_Lexorder" "HOL-Library.Product_Lexorder"
begin

text \<open>
  Shared vocabulary of the development: machine integers at their Rust width, the
  \<open>Result\<close> type as a sum, big-endian byte strings (\<open>to_be_bytes\<close> /
  \<open>from_be_bytes\<close>), \<open>HashMap\<close> as an association list with distinct keys, the
  sharded \<open>HashMap\<close>s that \<open>affinity.rs\<close> and \<open>server.rs\<close> use, and the
  clocks (\<open>Instant\<close>, \<open>Duration\<close>, epoch milliseconds).

  The interface \<open>map_store\<close> states what a key/value store promises; it is
  interpreted by the plain \<open>HashMap\<close> here and by the sharded one in \<open>Sharded\<close>, and the client
  lemmas proved in it once are used by every component that keeps such a table.
\<close>

unbundle bit_operations_syntax

named_theorems hm_simps \<open>rewriting of hash map operations to partial functions\<close>
named_theorems be_simps \<open>big-endian encoding and decoding\<close>
named_theorems time_simps \<open>definitions of the clock operations\<close>

section \<open>Machine integers and results\<close>

type_synonym u8 = "8 word"
type_synonym u16 = "16 word"
type_synonym u32 = "32 word"
type_synonym u64 = "64 word"
type_synonym u128 = "128 word"

definition bind_res :: "'e + 'a \<Rightarrow> ('a \<Rightarrow> 'e + 'b) \<Rightarrow> 'e + 'b" where
  "bind_res m f = (case m of Inl e \<Rightarrow> Inl e | Inr x \<Rightarrow> f x)"

lemma bind_res_simps [simp]:
  "bind_res (Inl e) f = Inl e"
  "bind_res (Inr x) f = f x"
  by (simp_all add: bind_res_def)

lemma bind_res_Inr_iff: "bind_res m f = Inr y \<longleftrightarrow> (\<exists>x. m = Inr x \<and> f x = Inr y)"
  by (cases m) auto

lemma bind_res_Inl_iff:
  "bind_res m f = Inl e \<longleftrightarrow> m = Inl e \<or> (\<exists>x. m = Inr x \<and> f x = Inl e)"
  by (cases m) auto

text \<open>\<open>iter().map(f).collect::<Result<Vec<_>>>()\<close>: the first error wins.\<close>

fun collect_res :: "('a \<Rightarrow> 'e + 'b) \<Rightarrow> 'a list \<Rightarrow> 'e + 'b list" where
  "collect_res f [] = Inr []"
| "collect_res f (x # xs) = bind_res (f x) (\<lambda>y. bind_res (collect_res f xs) (\<lambda>ys. Inr (y # ys)))"

lemma collect_res_Inr_iff:
  "collect_res f xs = Inr ys \<longleftrightarrow> list_all2 (\<lambda>x y. f x = Inr y) xs ys"
proof (induction xs arbitrary: ys)
  case Nil
  then show ?case by auto
next
  case (Cons x xs)
  then show ?case by (cases ys) (auto simp: bind_res_Inr_iff)
qed

text \<open>
  Validation code: \<open>if c { bail!(e) }\<close>, a sequence of such statements and a loop of
  them, each left at the first error; \<open>with_context\<close> wraps the error.
\<close>

definition bail_if :: "bool \<Rightarrow> 'e \<Rightarrow> 'e + unit" where
  "bail_if c e = (if c then Inl e else Inr ())"

fun seq_res :: "('e + unit) list \<Rightarrow> 'e + unit" where
  "seq_res [] = Inr ()"
| "seq_res (x # xs) = bind_res x (\<lambda>_. seq_res xs)"

definition for_each :: "('a \<Rightarrow> 'e + unit) \<Rightarrow> 'a list \<Rightarrow> 'e + unit" where
  "for_each f xs = seq_res (map f xs)"

definition with_context :: "('e \<Rightarrow> 'f) \<Rightarrow> 'e + 'a \<Rightarrow> 'f + 'a" where
  "with_context f m = (case m of Inl e \<Rightarrow> Inl (f e) | Inr x \<Rightarrow> Inr x)"

lemma bail_if_Inr [simp]: "bail_if c e = Inr u \<longleftrightarrow> \<not> c"
  by (simp add: bail_if_def)

lemma bail_if_Inl [simp]: "bail_if c e = Inl e' \<longleftrightarrow> c \<and> e' = e"
  by (auto simp: bail_if_def)

lemma seq_res_Inr [simp]: "seq_res xs = Inr u \<longleftrightarrow> (\<forall>x \<in> set xs. x = Inr ())"
  by (induction xs) (auto simp: bind_res_Inr_iff)

declare seq_res.simps [simp del]

lemma for_each_Inr [simp]: "for_each f xs = Inr u \<longleftrightarrow> (\<forall>x \<in> set xs. f x = Inr ())"
  by (auto simp: for_each_def)

lemma with_context_Inr [simp]: "with_context f m = Inr x \<longleftrightarrow> m = Inr x"
  by (cases m) (simp_all add: with_context_def)

lemma with_context_Inl: "with_context f m = Inl e \<longleftrightarrow> (\<exists>e'. m = Inl e' \<and> e = f e')"
  by (cases m) (auto simp: with_context_def)

section \<open>Big-endian byte strings\<close>

fun nat_be :: "nat \<Rightarrow> nat \<Rightarrow> u8 list" where
  "nat_be 0 v = []"
| "nat_be (Suc n) v = nat_be n (v div 256) @ [word_of_nat v]"

definition be_nat :: "u8 list \<Rightarrow> nat" where
  "be_nat bs = foldl (\<lambda>a b. a * 256 + unat b) 0 bs"

lemma length_nat_be [simp]: "length (nat_be n v) = n"
  by (induction n arbitrary: v) auto

lemma be_nat_Nil [simp]: "be_nat [] = 0"
  by (simp add: be_nat_def)

lemma be_nat_snoc [simp]: "be_nat (bs @ [b]) = be_nat bs * 256 + unat b"
  by (simp add: be_nat_def)

lemma be_nat_nat_be: "be_nat (nat_be n v) = v mod 256 ^ n"
proof (induction n arbitrary: v)
  case 0
  then show ?case by simp
next
  case (Suc n)
  have "be_nat (nat_be (Suc n) v) = (v div 256) mod 256 ^ n * 256 + v mod 256"
    by (simp add: Suc unat_of_nat)
  also have "\<dots> = v mod (256 * 256 ^ n)"
    by (simp add: mod_mult2_eq mult.commute)
  finally show ?case by simp
qed

lemma be_nat_less: "be_nat bs < 256 ^ length bs"
proof (induction bs rule: rev_induct)
  case Nil
  then show ?case by simp
next
  case (snoc b bs)
  have "unat b < 256"
    using unsigned_less [of b] by simp
  with snoc have "be_nat bs * 256 + unat b < (be_nat bs + 1) * 256"
    by simp
  also have "\<dots> \<le> 256 ^ length bs * 256"
    using snoc by (intro mult_le_mono) auto
  finally show ?case by simp
qed

lemma nat_be_be_nat: "nat_be (length bs) (be_nat bs) = bs"
proof (induction bs rule: rev_induct)
  case Nil
  then show ?case by simp
next
  case (snoc b bs)
  have "unat b < 256"
    using unsigned_less [of b] by simp
  then have "(be_nat bs * 256 + unat b) div 256 = be_nat bs"
    by simp
  moreover have "word_of_nat (be_nat bs * 256 + unat b) = b"
  proof -
    have "(256 :: u8) = 0" by simp
    then have "(word_of_nat (be_nat bs * 256) :: u8) = 0"
      by (simp only: of_nat_mult of_nat_numeral mult_zero_right)
    then show ?thesis by (simp only: of_nat_add) simp
  qed
  ultimately show ?case using snoc by simp
qed

definition to_be :: "nat \<Rightarrow> 'n::len word \<Rightarrow> u8 list" where
  "to_be n w = nat_be n (unat w)"

definition from_be :: "u8 list \<Rightarrow> 'n::len word" where
  "from_be bs = word_of_nat (be_nat bs)"

lemma length_to_be [simp]: "length (to_be n w) = n"
  by (simp add: to_be_def)

lemma from_be_to_be [be_simps]:
  fixes w :: "'n::len word"
  assumes "LENGTH('n) \<le> 8 * n"
  shows "from_be (to_be n w) = w"
proof -
  have "unat w < 2 ^ LENGTH('n)" by (rule unsigned_less)
  also have "\<dots> \<le> 2 ^ (8 * n)" using assms by (simp add: power_increasing)
  also have "\<dots> = 256 ^ n" by (simp add: power_mult)
  finally show ?thesis
    by (simp add: from_be_def to_be_def be_nat_nat_be)
qed

lemma to_be_from_be:
  assumes "8 * length bs \<le> LENGTH('n::len)"
  shows "to_be (length bs) (from_be bs :: 'n word) = bs"
proof -
  have "be_nat bs < 256 ^ length bs" by (rule be_nat_less)
  also have "256 ^ length bs = (2::nat) ^ (8 * length bs)" by (simp add: power_mult)
  also have "\<dots> \<le> 2 ^ LENGTH('n)" using assms by (simp add: power_increasing)
  finally show ?thesis
    by (simp add: to_be_def from_be_def unat_of_nat nat_be_be_nat)
qed

lemma to_be_inject:
  fixes v w :: "'n::len word"
  assumes "LENGTH('n) \<le> 8 * n"
  shows "to_be n v = to_be n w \<longleftrightarrow> v = w"
  using assms by (metis from_be_to_be)

section \<open>Hash maps\<close>

text \<open>
  A \<open>HashMap\<close> is an association list with distinct keys; the order of the list stands
  for the map's unspecified iteration order, and no property depends on it.
\<close>

type_synonym ('k, 'v) hmap = "('k \<times> 'v) list"

definition hm_inv :: "('k, 'v) hmap \<Rightarrow> bool" where
  "hm_inv m \<longleftrightarrow> distinct (map fst m)"

definition hm_empty :: "('k, 'v) hmap" where
  "hm_empty = []"

definition hm_get :: "('k, 'v) hmap \<Rightarrow> 'k \<Rightarrow> 'v option" where
  "hm_get m k = map_of m k"

definition hm_insert :: "'k \<Rightarrow> 'v \<Rightarrow> ('k, 'v) hmap \<Rightarrow> ('k, 'v) hmap" where
  "hm_insert k v m = AList.update k v m"

definition hm_remove :: "'k \<Rightarrow> ('k, 'v) hmap \<Rightarrow> ('k, 'v) hmap" where
  "hm_remove k m = AList.delete k m"

definition hm_retain :: "('k \<Rightarrow> 'v \<Rightarrow> bool) \<Rightarrow> ('k, 'v) hmap \<Rightarrow> ('k, 'v) hmap" where
  "hm_retain P m = filter (\<lambda>(k, v). P k v) m"

definition hm_len :: "('k, 'v) hmap \<Rightarrow> nat" where
  "hm_len m = length m"

definition keep_if :: "('k \<Rightarrow> 'v \<Rightarrow> bool) \<Rightarrow> 'k \<Rightarrow> 'v option \<Rightarrow> 'v option" where
  "keep_if P k r = (case r of None \<Rightarrow> None | Some v \<Rightarrow> if P k v then Some v else None)"

lemma keep_if_simps [simp]:
  "keep_if P k None = None"
  "keep_if P k (Some v) = (if P k v then Some v else None)"
  by (simp_all add: keep_if_def)

lemma keep_if_eq_Some: "keep_if P k r = Some v \<longleftrightarrow> r = Some v \<and> P k v"
  by (cases r) auto

lemma map_of_filter_distinct:
  "distinct (map fst m) \<Longrightarrow> map_of (filter (\<lambda>(k, v). P k v) m) k = keep_if P k (map_of m k)"
proof (induction m)
  case Nil
  then show ?case by simp
next
  case (Cons a m)
  then show ?case
    by (cases a) (auto simp: map_of_eq_None_iff image_iff split: if_splits)
qed

subsection \<open>What a store promises\<close>

locale map_store =
  fixes get :: "'m \<Rightarrow> 'k \<Rightarrow> 'v option"
    and insert :: "'k \<Rightarrow> 'v \<Rightarrow> 'm \<Rightarrow> 'm"
    and remove :: "'k \<Rightarrow> 'm \<Rightarrow> 'm"
    and retain :: "('k \<Rightarrow> 'v \<Rightarrow> bool) \<Rightarrow> 'm \<Rightarrow> 'm"
    and len :: "'m \<Rightarrow> nat"
    and inv :: "'m \<Rightarrow> bool"
  assumes inv_insert: "inv m \<Longrightarrow> inv (insert k v m)"
    and inv_remove: "inv m \<Longrightarrow> inv (remove k m)"
    and inv_retain: "inv m \<Longrightarrow> inv (retain P m)"
    and get_insert: "inv m \<Longrightarrow> get (insert k v m) = (get m)(k \<mapsto> v)"
    and get_remove: "inv m \<Longrightarrow> get (remove k m) = (get m)(k := None)"
    and get_retain: "inv m \<Longrightarrow> get (retain P m) k = keep_if P k (get m k)"
    and finite_dom: "inv m \<Longrightarrow> finite (dom (get m))"
    and len_card: "inv m \<Longrightarrow> len m = card (dom (get m))"
begin

lemmas get_simps = get_insert get_remove get_retain
lemmas inv_intros = inv_insert inv_remove inv_retain

lemma get_retain_SomeD:
  "inv m \<Longrightarrow> get (retain P m) k = Some v \<Longrightarrow> get m k = Some v \<and> P k v"
  by (simp add: get_retain keep_if_eq_Some)

lemma len_retain_le: "inv m \<Longrightarrow> len (retain P m) \<le> len m"
  by (auto simp: len_card inv_retain finite_dom get_retain keep_if_eq_Some intro!: card_mono)

lemma len_insert:
  assumes "inv m"
  shows "len (insert k v m) = (if get m k = None then Suc (len m) else len m)"
proof -
  have "dom (get (insert k v m)) = Set.insert k (dom (get m))"
    using assms by (simp add: get_insert)
  then show ?thesis
    using assms by (auto simp: len_card inv_insert finite_dom card_insert_if domIff)
qed

lemma len_remove:
  assumes "inv m"
  shows "len (remove k m) = (if get m k = None then len m else len m - 1)"
proof -
  have "dom (get (remove k m)) = dom (get m) - {k}"
    using assms by (simp add: get_remove)
  then show ?thesis
    using assms by (auto simp: len_card inv_remove finite_dom card_Diff_singleton_if domIff)
qed

lemma len_remove_Some:
  assumes "inv m" "get m k = Some v"
  shows "Suc (len (remove k m)) = len m"
proof -
  have "0 < card (dom (get m))"
    using assms by (auto simp: card_gt_0_iff finite_dom)
  then show ?thesis
    using assms by (simp add: len_remove len_card)
qed

lemma retain_all: "inv m \<Longrightarrow> (\<And>k v. get m k = Some v \<Longrightarrow> P k v) \<Longrightarrow> get (retain P m) = get m"
proof (rule ext)
  fix k
  assume "inv m" "\<And>k v. get m k = Some v \<Longrightarrow> P k v"
  then show "get (retain P m) k = get m k"
    by (cases "get m k") (auto simp: get_retain)
qed

end

lemma hm_inv_empty [simp]: "hm_inv hm_empty"
  by (simp add: hm_inv_def hm_empty_def)

lemma hm_get_empty [simp]: "hm_get hm_empty k = None"
  by (simp add: hm_get_def hm_empty_def)

lemma hm_get_map_of: "hm_get m = map_of m"
  by (simp add: fun_eq_iff hm_get_def)

lemma hm_inv_retain: "hm_inv m \<Longrightarrow> hm_inv (hm_retain P m)"
  by (simp add: hm_inv_def hm_retain_def distinct_map_filter)

lemma hm_len_card: "hm_inv m \<Longrightarrow> hm_len m = card (dom (hm_get m))"
proof -
  assume "hm_inv m"
  then have "card (set (map fst m)) = length (map fst m)"
    by (simp only: hm_inv_def distinct_card)
  then show ?thesis
    by (simp add: hm_len_def hm_get_map_of dom_map_of_conv_image_fst)
qed

interpretation hm: map_store hm_get hm_insert hm_remove hm_retain hm_len hm_inv
proof unfold_locales
  fix m :: "('a, 'b) hmap" and k v
  assume m: "hm_inv m"
  show "hm_inv (hm_insert k v m)"
    using m by (simp add: hm_inv_def hm_insert_def distinct_update)
  show "hm_inv (hm_remove k m)"
    using m by (simp add: hm_inv_def hm_remove_def distinct_delete)
  show "hm_get (hm_insert k v m) = (hm_get m)(k \<mapsto> v)"
    by (simp add: hm_get_def hm_insert_def fun_eq_iff update_conv)
  show "hm_get (hm_remove k m) = (hm_get m)(k := None)"
    by (simp add: hm_get_def hm_remove_def fun_eq_iff delete_conv)
  show "finite (dom (hm_get m))"
    by (simp add: hm_get_map_of finite_dom_map_of)
  show "hm_len m = card (dom (hm_get m))"
    using m by (rule hm_len_card)
next
  fix m :: "('a, 'b) hmap" and P
  assume m: "hm_inv m"
  then show "hm_inv (hm_retain P m)" by (rule hm_inv_retain)
  fix k
  show "hm_get (hm_retain P m) k = keep_if P k (hm_get m k)"
    using m by (simp add: hm_get_def hm_retain_def hm_inv_def map_of_filter_distinct)
qed

lemmas hm_get_ops [hm_simps] = hm.get_insert hm.get_remove hm.get_retain
lemmas hm_inv_ops [hm_simps, intro] = hm.inv_insert hm.inv_remove hm.inv_retain

lemma hm_get_insert: "hm_get (hm_insert k v m) x = (if x = k then Some v else hm_get m x)"
  by (simp add: hm_get_def hm_insert_def update_conv)

lemma hm_mem_iff: "hm_inv m \<Longrightarrow> (k, v) \<in> set m \<longleftrightarrow> hm_get m k = Some v"
  by (simp add: hm_get_def hm_inv_def map_of_eq_Some_iff)

end
