(* ===== verification/Rust_Std.thy ===== *)
theory Rust_Std
  imports Prelude
begin

text \<open>
  The parts of the Rust standard library the proxy's logic rests on, as executable
  definitions: clocks, decimal and hexadecimal rendering and parsing of integers, and the
  \<open>str\<close> operations (trimming, splitting, prefix and substring tests, ASCII case).

  A \<open>str\<close> is the list of its UTF-8 bytes (\<open>string\<close>, one \<open>char\<close> per byte).
  Whitespace is Unicode's \<open>White_Space\<close> as \<open>char::is_whitespace\<close> has it, recognised
  in its UTF-8 encoding.
\<close>

section \<open>Clocks\<close>

text \<open>
  An \<open>Instant\<close> is the number of nanoseconds since the monotonic clock's origin, a
  \<open>Duration\<close> a number of nanoseconds.  On the supported platform an \<open>Instant\<close> holds
  its seconds in an \<open>i64\<close>: an addition that leaves that range fails in
  \<open>checked_add\<close> and panics in \<open>+\<close>.  \<open>duration_since\<close> saturates at zero.
\<close>

type_synonym instant = nat
type_synonym duration = nat

definition from_secs :: "nat \<Rightarrow> duration" where
  "from_secs n = n * 1000000000"

definition from_millis :: "nat \<Rightarrow> duration" where
  "from_millis n = n * 1000000"

definition as_millis :: "duration \<Rightarrow> nat" where
  "as_millis d = d div 1000000"

definition instant_limit :: nat where
  "instant_limit = 2 ^ 63 * 1000000000"

definition instant_checked_add :: "instant \<Rightarrow> duration \<Rightarrow> instant option" where
  "instant_checked_add t d = (if t + d < instant_limit then Some (t + d) else None)"

definition duration_since :: "instant \<Rightarrow> instant \<Rightarrow> duration" where
  "duration_since now earlier = now - earlier"

lemmas [time_simps] = from_secs_def from_millis_def as_millis_def instant_limit_def
  instant_checked_add_def duration_since_def

lemma instant_checked_add_Some:
  "instant_checked_add t d = Some u \<Longrightarrow> u = t + d"
  by (auto simp: instant_checked_add_def split: if_splits)

section \<open>Integers as text\<close>

definition digit_char :: "nat \<Rightarrow> char" where
  "digit_char d = char_of (if d < 10 then 48 + d else 87 + d)"

fun radix_str :: "nat \<Rightarrow> nat \<Rightarrow> string" where
  "radix_str b n = (if n < b \<or> b < 2 then [digit_char n] else radix_str b (n div b) @ [digit_char (n mod b)])"

declare radix_str.simps [simp del]

abbreviation dec_str :: "nat \<Rightarrow> string" where
  "dec_str n \<equiv> radix_str 10 n"

abbreviation hex_str :: "nat \<Rightarrow> string" where
  "hex_str n \<equiv> radix_str 16 n"

definition is_digit :: "char \<Rightarrow> bool" where
  "is_digit c \<longleftrightarrow> 48 \<le> (of_char c :: nat) \<and> (of_char c :: nat) \<le> 57"

definition digit_val :: "char \<Rightarrow> nat" where
  "digit_val c = of_char c - 48"

definition dec_val :: "string \<Rightarrow> nat" where
  "dec_val s = foldl (\<lambda>a c. a * 10 + digit_val c) 0 s"

text \<open>\<open>str::parse\<close> at an unsigned integer type whose largest value is \<open>limit\<close>.\<close>

definition parse_uint :: "nat \<Rightarrow> string \<Rightarrow> nat option" where
  "parse_uint limit s =
     (let ds = (case s of [] \<Rightarrow> [] | c # r \<Rightarrow> if c = CHR ''+'' then r else s)
      in if ds = [] \<or> \<not> list_all is_digit ds then None
         else if dec_val ds \<le> limit then Some (dec_val ds) else None)"

lemma dec_val_Nil [simp]: "dec_val [] = 0"
  by (simp add: dec_val_def)

lemma dec_val_snoc [simp]: "dec_val (s @ [c]) = dec_val s * 10 + digit_val c"
  by (simp add: dec_val_def)

lemma digit_char_props:
  assumes "d < 10"
  shows "is_digit (digit_char d)" and "digit_val (digit_char d) = d"
  using assms by (simp_all add: is_digit_def digit_val_def digit_char_def)

lemma radix_str_nonempty [simp]: "radix_str b n \<noteq> []"
  by (subst radix_str.simps) simp

lemma dec_str_digits: "list_all is_digit (dec_str n)"
proof (induction "10::nat" n rule: radix_str.induct)
  case (1 n)
  then show ?case
    by (subst radix_str.simps) (auto simp: digit_char_props)
qed

lemma dec_val_dec_str: "dec_val (dec_str n) = n"
proof (induction "10::nat" n rule: radix_str.induct)
  case (1 n)
  show ?case
  proof (cases "n < 10")
    case True
    then have "dec_str n = [] @ [digit_char n]"
      by (subst radix_str.simps) simp
    then show ?thesis
      using True by (simp only: dec_val_snoc) (simp add: digit_char_props)
  next
    case False
    then have "dec_str n = dec_str (n div 10) @ [digit_char (n mod 10)]"
      by (subst radix_str.simps) simp
    moreover have "dec_val (dec_str (n div 10)) = n div 10"
      using False by (intro 1) simp
    ultimately show ?thesis
      by (simp add: digit_char_props)
  qed
qed

lemma parse_uint_dec_str: "n \<le> limit \<Longrightarrow> parse_uint limit (dec_str n) = Some n"
proof -
  assume n: "n \<le> limit"
  obtain c r where cr: "dec_str n = c # r"
    by (cases "dec_str n") auto
  with dec_str_digits [of n] have "is_digit c" by simp
  then have "c \<noteq> CHR ''+''" by (auto simp: is_digit_def)
  with cr n show ?thesis
    using dec_str_digits [of n] dec_val_dec_str [of n] by (simp add: parse_uint_def Let_def)
qed

lemma dec_str_inject: "dec_str m = dec_str n \<longleftrightarrow> m = n"
  by (metis dec_val_dec_str)

lemma parse_uint_bound: "parse_uint limit s = Some n \<Longrightarrow> n \<le> limit"
  by (auto simp: parse_uint_def Let_def split: if_splits)

subsection \<open>Text order and numeric order\<close>

text \<open>
  Decimal texts of equal length are ordered as their values are.
\<close>

lemma dec_val_append:
  "dec_val (s @ t) = dec_val s * 10 ^ length t + dec_val t"
proof (induction t rule: rev_induct)
  case Nil
  then show ?case by simp
next
  case (snoc c t)
  have "dec_val (s @ t @ [c]) = dec_val (s @ t) * 10 + digit_val c"
    by (metis append_assoc dec_val_snoc)
  with snoc show ?case by (simp add: algebra_simps)
qed

lemma dec_val_less: "list_all is_digit s \<Longrightarrow> dec_val s < 10 ^ length s"
proof (induction s rule: rev_induct)
  case Nil
  then show ?case by simp
next
  case (snoc c s)
  then have "is_digit c" by simp
  then have "digit_val c < 10" unfolding is_digit_def digit_val_def by linarith
  with snoc have "dec_val s * 10 + digit_val c < (dec_val s + 1) * 10" by simp
  also have "\<dots> \<le> 10 ^ length s * 10"
    using snoc by (intro mult_le_mono) auto
  finally show ?case by simp
qed

lemma digit_less_iff:
  "is_digit c \<Longrightarrow> is_digit d \<Longrightarrow> c < d \<longleftrightarrow> digit_val c < digit_val d"
  by (auto simp: less_char_def is_digit_def digit_val_def)

lemma digit_eq_iff:
  "is_digit c \<Longrightarrow> is_digit d \<Longrightarrow> c = d \<longleftrightarrow> digit_val c = digit_val d"
  by (metis digit_less_iff neq_iff)

lemma dec_text_less_iff:
  assumes "length s = length t" "list_all is_digit s" "list_all is_digit t"
  shows "s < t \<longleftrightarrow> dec_val s < dec_val t"
  using assms
proof (induction s t rule: list_induct2)
  case Nil
  then show ?case by simp
next
  case (Cons c s d t)
  let ?n = "length t"
  have val: "dec_val (x # u) = digit_val x * 10 ^ length u + dec_val u" for x u
    using dec_val_append [of "[x]" u] by (simp add: dec_val_def)
  have bounds: "dec_val s < 10 ^ ?n" "dec_val t < 10 ^ ?n"
    using Cons.prems dec_val_less [of s] dec_val_less [of t] Cons.hyps by auto
  have dig: "is_digit c" "is_digit d" using Cons.prems by auto
  consider "digit_val c < digit_val d" | "digit_val d < digit_val c" | "digit_val c = digit_val d"
    by linarith
  then show ?case
  proof cases
    case 1
    then have "(digit_val c + 1) * 10 ^ ?n \<le> digit_val d * 10 ^ ?n"
      by (intro mult_le_mono1) simp
    with bounds 1 dig Cons.hyps show ?thesis
      by (simp add: val digit_less_iff)
  next
    case 2
    then have "(digit_val d + 1) * 10 ^ ?n \<le> digit_val c * 10 ^ ?n"
      by (intro mult_le_mono1) simp
    with bounds 2 dig Cons.hyps show ?thesis
      by (auto simp: val digit_less_iff digit_eq_iff)
  next
    case 3
    with dig have "c = d" by (simp add: digit_eq_iff)
    with Cons show ?thesis by (simp add: val)
  qed
qed

section \<open>Strings\<close>

definition to_ascii_lower :: "char \<Rightarrow> char" where
  "to_ascii_lower c = (let n = of_char c :: nat in if 65 \<le> n \<and> n \<le> 90 then char_of (n + 32) else c)"

definition to_ascii_upper :: "char \<Rightarrow> char" where
  "to_ascii_upper c = (let n = of_char c :: nat in if 97 \<le> n \<and> n \<le> 122 then char_of (n - 32) else c)"

definition is_ascii_alpha :: "char \<Rightarrow> bool" where
  "is_ascii_alpha c = (let n = of_char c :: nat in (65 \<le> n \<and> n \<le> 90) \<or> (97 \<le> n \<and> n \<le> 122))"

definition eq_ignore_ascii_case :: "string \<Rightarrow> string \<Rightarrow> bool" where
  "eq_ignore_ascii_case s t \<longleftrightarrow> map to_ascii_lower s = map to_ascii_lower t"

definition starts_with :: "string \<Rightarrow> string \<Rightarrow> bool" where
  "starts_with s p \<longleftrightarrow> take (length p) s = p"

fun contains_str :: "string \<Rightarrow> string \<Rightarrow> bool" where
  "contains_str [] p = (p = [])"
| "contains_str (c # s) p = (starts_with (c # s) p \<or> contains_str s p)"

fun split_once :: "char \<Rightarrow> string \<Rightarrow> (string \<times> string) option" where
  "split_once d [] = None"
| "split_once d (c # s) =
     (if c = d then Some ([], s)
      else map_option (\<lambda>(a, b). (c # a, b)) (split_once d s))"

fun split_on :: "(char \<Rightarrow> bool) \<Rightarrow> string \<Rightarrow> string list" where
  "split_on P [] = [[]]"
| "split_on P (c # s) =
     (if P c then [] # split_on P s
      else case split_on P s of [] \<Rightarrow> [[c]] | w # ws \<Rightarrow> (c # w) # ws)"

text \<open>\<open>splitn(n, d)\<close>: at most \<open>n\<close> pieces, the last one holding the rest.\<close>

fun splitn :: "nat \<Rightarrow> char \<Rightarrow> string \<Rightarrow> string list" where
  "splitn 0 d s = []"
| "splitn (Suc 0) d s = [s]"
| "splitn (Suc (Suc n)) d s =
     (case split_once d s of None \<Rightarrow> [s] | Some (a, b) \<Rightarrow> a # splitn (Suc n) d b)"

text \<open>
  The number of bytes of the whitespace character a text starts with, 0 if it starts with
  none: ASCII whitespace (one byte), U+0085 and U+00A0 (two bytes), U+1680,
  U+2000--U+200A, U+2028, U+2029, U+202F, U+205F and U+3000 (three bytes).
\<close>

definition ws_bytes :: "nat list \<Rightarrow> nat" where
  "ws_bytes bs =
     (case bs of [] \<Rightarrow> 0
      | a # r \<Rightarrow>
          if (9 \<le> a \<and> a \<le> 13) \<or> a = 32 then 1
          else (case r of [] \<Rightarrow> 0
            | b # r' \<Rightarrow>
                if a = 194 \<and> (b = 133 \<or> b = 160) then 2
                else (case r' of [] \<Rightarrow> 0
                  | c # _ \<Rightarrow>
                      if (a = 225 \<and> b = 154 \<and> c = 128)
                        \<or> (a = 226 \<and> b = 128 \<and> (128 \<le> c \<and> c \<le> 138 \<or> c = 168 \<or> c = 169 \<or> c = 175))
                        \<or> (a = 226 \<and> b = 129 \<and> c = 159)
                        \<or> (a = 227 \<and> b = 128 \<and> c = 128)
                      then 3 else 0)))"

definition ws_prefix :: "string \<Rightarrow> nat" where
  "ws_prefix s = ws_bytes (map of_char (take 3 s))"

definition ws_suffix :: "string \<Rightarrow> nat" where
  "ws_suffix s =
     (let n = length s;
          one = ws_prefix (drop (n - 1) s);
          two = ws_prefix (drop (n - 2) s);
          three = ws_prefix (drop (n - 3) s)
      in if n \<ge> 1 \<and> one = 1 then 1
         else if n \<ge> 2 \<and> two = 2 then 2
         else if n \<ge> 3 \<and> three = 3 then 3 else 0)"

lemma ws_bytes_le: "ws_bytes bs \<le> length bs"
  by (auto simp: ws_bytes_def split: list.split)

lemma ws_prefix_le: "ws_prefix s \<le> length s"
  using ws_bytes_le [of "map of_char (take 3 s)"] by (simp add: ws_prefix_def)

lemma ws_suffix_le: "ws_suffix s \<le> length s"
  by (simp add: ws_suffix_def Let_def)

function trim_start :: "string \<Rightarrow> string" where
  "trim_start s = (if ws_prefix s = 0 then s else trim_start (drop (ws_prefix s) s))"
  by pat_completeness auto
termination
proof (relation "measure length")
  fix s
  assume "ws_prefix s \<noteq> 0"
  then show "(drop (ws_prefix s) s, s) \<in> measure length"
    using ws_prefix_le [of s] by simp
qed simp

function trim_end :: "string \<Rightarrow> string" where
  "trim_end s = (if ws_suffix s = 0 then s else trim_end (take (length s - ws_suffix s) s))"
  by pat_completeness auto
termination
proof (relation "measure length")
  fix s
  assume "ws_suffix s \<noteq> 0"
  then show "(take (length s - ws_suffix s) s, s) \<in> measure length"
    using ws_suffix_le [of s] by simp
qed simp

declare trim_start.simps [simp del] trim_end.simps [simp del]

definition trim :: "string \<Rightarrow> string" where
  "trim s = trim_end (trim_start s)"

text \<open>\<open>split_whitespace\<close>: the maximal runs of non-whitespace.\<close>

function split_whitespace_acc :: "string \<Rightarrow> string \<Rightarrow> string list" where
  "split_whitespace_acc acc s =
     (case s of
        [] \<Rightarrow> if acc = [] then [] else [rev acc]
      | c # r \<Rightarrow>
          if ws_prefix s = 0 then split_whitespace_acc (c # acc) r
          else (if acc = [] then [] else [rev acc]) @ split_whitespace_acc [] (drop (ws_prefix s) s))"
  by pat_completeness auto
termination
proof (relation "measure (length \<circ> snd)")
  fix acc s :: string and c r
  assume "s = c # r" "ws_prefix s \<noteq> 0"
  then show "(([], drop (ws_prefix s) s), acc, s) \<in> measure (length \<circ> snd)"
    using ws_prefix_le [of s] by simp
qed auto

declare split_whitespace_acc.simps [simp del]

definition split_whitespace :: "string \<Rightarrow> string list" where
  "split_whitespace s = split_whitespace_acc [] s"

text \<open>\<open>str::lines\<close>: split at line feeds, drop one carriage return before each, and no
  empty line after a final line feed.\<close>

definition strip_cr :: "string \<Rightarrow> string" where
  "strip_cr s = (if s \<noteq> [] \<and> last s = CHR 0x0D then butlast s else s)"

definition str_lines :: "string \<Rightarrow> string list" where
  "str_lines s =
     (let ls = split_on (\<lambda>c. c = CHR 0x0A) s
      in map strip_cr (butlast ls) @ (if last ls = [] then [] else [last ls]))"

text \<open>\<open>trim_matches\<close> of one character.\<close>

definition trim_matches :: "(char \<Rightarrow> bool) \<Rightarrow> string \<Rightarrow> string" where
  "trim_matches P s = rev (dropWhile P (rev (dropWhile P s)))"

lemma split_once_Some:
  "split_once d s = Some (a, b) \<longleftrightarrow> s = a @ d # b \<and> d \<notin> set a"
proof (induction s arbitrary: a)
  case Nil
  then show ?case by simp
next
  case (Cons c s)
  then show ?case by (cases a) auto
qed

lemma split_once_None: "split_once d s = None \<longleftrightarrow> d \<notin> set s"
  by (induction s) auto

lemma split_on_nonempty [simp]: "split_on P s \<noteq> []"
  by (induction s) (auto split: list.split)

lemma starts_with_append [simp]: "starts_with (p @ s) p"
  by (simp add: starts_with_def)

lemma starts_with_iff: "starts_with s p \<longleftrightarrow> (\<exists>r. s = p @ r)"
  by (metis append_eq_conv_conj starts_with_def)

lemma contains_str_iff: "contains_str s p \<longleftrightarrow> (\<exists>a b. s = a @ p @ b)"
proof (induction s)
  case Nil
  then show ?case by simp
next
  case (Cons c s)
  have "(\<exists>a b. c # s = a @ p @ b) \<longleftrightarrow> (\<exists>b. c # s = p @ b) \<or> (\<exists>a b. s = a @ p @ b)"
    by (metis append_Cons append_Nil list.inject neq_Nil_conv)
  with Cons show ?case by (simp add: starts_with_iff)
qed

text \<open>Well-formed UTF-8, as \<open>std::str::from_utf8\<close> checks it.\<close>

definition tail_byte :: "nat \<Rightarrow> bool" where
  "tail_byte b \<longleftrightarrow> 128 \<le> b \<and> b \<le> 191"

fun valid_utf8 :: "nat list \<Rightarrow> bool" where
  "valid_utf8 [] = True"
| "valid_utf8 (a # s) =
     (if a < 128 then valid_utf8 s
      else if 194 \<le> a \<and> a \<le> 223 then (case s of b # r \<Rightarrow> tail_byte b \<and> valid_utf8 r | _ \<Rightarrow> False)
      else if 224 \<le> a \<and> a \<le> 239 then
        (case s of b # c # r \<Rightarrow>
           (if a = 224 then 160 \<le> b \<and> b \<le> 191 else if a = 237 then 128 \<le> b \<and> b \<le> 159 else tail_byte b)
           \<and> tail_byte c \<and> valid_utf8 r
         | _ \<Rightarrow> False)
      else if 240 \<le> a \<and> a \<le> 244 then
        (case s of b # c # d # r \<Rightarrow>
           (if a = 240 then 144 \<le> b \<and> b \<le> 191 else if a = 244 then 128 \<le> b \<and> b \<le> 143 else tail_byte b)
           \<and> tail_byte c \<and> tail_byte d \<and> valid_utf8 r
         | _ \<Rightarrow> False)
      else False)"

end
