(* ===== verification/Net.thy ===== *)
theory Net
  imports Rust_Std
begin

text \<open>
  \<open>std::net\<close> addresses as the proxy uses them: \<open>IpAddr\<close> and \<open>SocketAddr\<close> with
  their orders, their text form and its parser, and the CIDR matcher of
  \<open>server.rs\<close> (\<open>Cidr\<close>) with the range computations of \<open>geo.rs\<close> and
  \<open>threat.rs\<close>.  The theory shows that masking, range and numeric-interval views of a
  prefix agree, so that the user-space filters of the three modules accept the same
  addresses.
\<close>

section \<open>Addresses\<close>

datatype ip_addr = V4 u32 | V6 u128

text \<open>\<open>SocketAddrV6\<close> carries a flow label and a scope id beside address and port.\<close>

datatype sock_addr = SockV4 u32 u16 | SockV6 u128 u16 u32 u32

fun sock_ip :: "sock_addr \<Rightarrow> ip_addr" where
  "sock_ip (SockV4 a p) = V4 a"
| "sock_ip (SockV6 a p f s) = V6 a"

fun sock_port :: "sock_addr \<Rightarrow> u16" where
  "sock_port (SockV4 a p) = p"
| "sock_port (SockV6 a p f s) = p"

definition sock_new :: "ip_addr \<Rightarrow> u16 \<Rightarrow> sock_addr" where
  "sock_new ip port = (case ip of V4 a \<Rightarrow> SockV4 a port | V6 a \<Rightarrow> SockV6 a port 0 0)"

fun is_ipv6 :: "ip_addr \<Rightarrow> bool" where
  "is_ipv6 (V4 _) = False"
| "is_ipv6 (V6 _) = True"

lemma sock_new_simps [simp]:
  "sock_ip (sock_new ip p) = ip" "sock_port (sock_new ip p) = p"
  by (cases ip; simp add: sock_new_def)+

text \<open>The derived orders: IPv4 before IPv6, then field by field.\<close>

instantiation ip_addr :: linorder
begin

definition ip_rank :: "ip_addr \<Rightarrow> nat \<times> nat" where
  "ip_rank a = (case a of V4 w \<Rightarrow> (0, unat w) | V6 w \<Rightarrow> (1, unat w))"

definition less_eq_ip_addr :: "ip_addr \<Rightarrow> ip_addr \<Rightarrow> bool" where
  "less_eq_ip_addr a b \<longleftrightarrow> ip_rank a \<le> ip_rank b"

definition less_ip_addr :: "ip_addr \<Rightarrow> ip_addr \<Rightarrow> bool" where
  "less_ip_addr a b \<longleftrightarrow> ip_rank a < ip_rank b"

lemma ip_rank_inject: "ip_rank a = ip_rank b \<longleftrightarrow> a = b"
  by (auto simp: ip_rank_def word_unat_eq_iff split: ip_addr.splits)

instance
  by standard (auto simp: less_eq_ip_addr_def less_ip_addr_def simp flip: ip_rank_inject)

end

instantiation sock_addr :: linorder
begin

definition sock_rank :: "sock_addr \<Rightarrow> nat \<times> nat \<times> nat \<times> nat \<times> nat" where
  "sock_rank a = (case a of
       SockV4 w p \<Rightarrow> (0, unat w, unat p, 0, 0)
     | SockV6 w p f s \<Rightarrow> (1, unat w, unat p, unat f, unat s))"

definition less_eq_sock_addr :: "sock_addr \<Rightarrow> sock_addr \<Rightarrow> bool" where
  "less_eq_sock_addr a b \<longleftrightarrow> sock_rank a \<le> sock_rank b"

definition less_sock_addr :: "sock_addr \<Rightarrow> sock_addr \<Rightarrow> bool" where
  "less_sock_addr a b \<longleftrightarrow> sock_rank a < sock_rank b"

lemma sock_rank_inject: "sock_rank a = sock_rank b \<longleftrightarrow> a = b"
  by (auto simp: sock_rank_def word_unat_eq_iff split: sock_addr.splits)

instance
  by standard (auto simp: less_eq_sock_addr_def less_sock_addr_def simp flip: sock_rank_inject)

end

section \<open>Text form\<close>

definition join_with :: "char \<Rightarrow> string list \<Rightarrow> string" where
  "join_with d ws = (case ws of [] \<Rightarrow> [] | w # r \<Rightarrow> w @ concat (map (\<lambda>x. d # x) r))"

definition ipv4_octets :: "u32 \<Rightarrow> u8 list" where
  "ipv4_octets w = to_be 4 w"

definition show_ipv4 :: "u32 \<Rightarrow> string" where
  "show_ipv4 w = join_with (CHR ''.'') (map (\<lambda>b. dec_str (unat b)) (ipv4_octets w))"

definition ipv6_segments :: "u128 \<Rightarrow> nat list" where
  "ipv6_segments w = map (\<lambda>i. unat (drop_bit (112 - 16 * i) w) mod 65536) [0..<8]"

text \<open>The first longest run of zero segments, as start and length.\<close>

fun zero_run :: "nat \<Rightarrow> nat list \<Rightarrow> nat \<times> nat \<Rightarrow> nat \<times> nat \<Rightarrow> nat \<times> nat" where
  "zero_run i [] cur best = best"
| "zero_run i (x # xs) cur best =
     (if x = 0
      then let cur' = (if snd cur = 0 then (i, 1) else (fst cur, Suc (snd cur)))
           in zero_run (Suc i) xs cur' (if snd best < snd cur' then cur' else best)
      else zero_run (Suc i) xs (0, 0) best)"

definition show_ipv6 :: "u128 \<Rightarrow> string" where
  "show_ipv6 w =
     (let segs = ipv6_segments w
      in if take 6 segs = [0, 0, 0, 0, 0, 65535]
         then ''::ffff:'' @ show_ipv4 (ucast w)
         else let (start, len) = zero_run 0 segs (0, 0) (0, 0)
              in if len > 1
                 then join_with (CHR '':'') (map hex_str (take start segs)) @ ''::''
                      @ join_with (CHR '':'') (map hex_str (drop (start + len) segs))
                 else join_with (CHR '':'') (map hex_str segs))"

fun show_ip :: "ip_addr \<Rightarrow> string" where
  "show_ip (V4 a) = show_ipv4 a"
| "show_ip (V6 a) = show_ipv6 a"

fun show_sock :: "sock_addr \<Rightarrow> string" where
  "show_sock (SockV4 a p) = show_ipv4 a @ '':'' @ dec_str (unat p)"
| "show_sock (SockV6 a p f s) =
     (if s = 0 then ''['' @ show_ipv6 a @ '']:'' @ dec_str (unat p)
      else ''['' @ show_ipv6 a @ ''%'' @ dec_str (unat s) @ '']:'' @ dec_str (unat p))"

section \<open>Parser\<close>

text \<open>
  The recursive-descent parser of \<open>std::net\<close>: every reader returns a value and the
  unread rest, or \<open>None\<close> with nothing consumed.
\<close>

type_synonym 'a reader = "string \<Rightarrow> ('a \<times> string) option"

definition hex_digit_val :: "nat \<Rightarrow> char \<Rightarrow> nat option" where
  "hex_digit_val radix c =
     (let n = of_char c :: nat;
          v = (if 48 \<le> n \<and> n \<le> 57 then n - 48
               else if 97 \<le> n \<and> n \<le> 102 then n - 87
               else if 65 \<le> n \<and> n \<le> 70 then n - 55 else 99)
      in if v < radix then Some v else None)"

fun read_digits :: "nat \<Rightarrow> string \<Rightarrow> nat list \<times> string" where
  "read_digits radix [] = ([], [])"
| "read_digits radix (c # s) =
     (case hex_digit_val radix c of
        None \<Rightarrow> ([], c # s)
      | Some d \<Rightarrow> let (ds, r) = read_digits radix s in (d # ds, r))"

text \<open>
  \<open>read_number(radix, Some(max_digits), allow_zero_prefix)\<close> at a type of largest value
  \<open>limit\<close>: more digits than \<open>max_digits\<close>, an overflow or a forbidden leading zero
  make it fail.
\<close>

definition read_number :: "nat \<Rightarrow> nat \<Rightarrow> bool \<Rightarrow> nat \<Rightarrow> nat reader" where
  "read_number radix max_digits allow_zero_prefix limit s =
     (let (ds, r) = read_digits radix s;
          v = foldl (\<lambda>a d. a * radix + d) 0 ds
      in if ds = [] \<or> length ds > max_digits \<or> v > limit
           \<or> (\<not> allow_zero_prefix \<and> hd ds = 0 \<and> length ds > 1)
         then None else Some (v, r))"

definition read_char :: "char \<Rightarrow> unit reader" where
  "read_char c s = (case s of [] \<Rightarrow> None | d # r \<Rightarrow> if d = c then Some ((), r) else None)"

definition read_separator :: "char \<Rightarrow> nat \<Rightarrow> 'a reader \<Rightarrow> 'a reader" where
  "read_separator sep index inner s =
     (if index > 0 then Option.bind (read_char sep s) (\<lambda>(_, r). inner r) else inner s)"

definition read_octet :: "nat reader" where
  "read_octet = read_number 10 3 False 255"

fun read_octets :: "nat \<Rightarrow> nat \<Rightarrow> nat list reader" where
  "read_octets i 0 s = Some ([], s)"
| "read_octets i (Suc n) s =
     Option.bind (read_separator (CHR ''.'') i read_octet s) (\<lambda>(o1, r).
       Option.bind (read_octets (Suc i) n r) (\<lambda>(os, r'). Some (o1 # os, r')))"

definition read_ipv4 :: "u32 reader" where
  "read_ipv4 s =
     map_option (\<lambda>(os, r). (word_of_nat (foldl (\<lambda>a d. a * 256 + d) 0 os), r)) (read_octets 0 4 s)"

text \<open>
  \<open>read_groups\<close>: up to \<open>limit\<close> hexadecimal groups from position \<open>i\<close>; an embedded
  IPv4 address counts as two and ends the list.
\<close>

fun read_groups :: "nat \<Rightarrow> nat \<Rightarrow> string \<Rightarrow> nat list \<times> bool \<times> string" where
  "read_groups i 0 s = ([], False, s)"
| "read_groups i (Suc left) s =
     (case (if left > 0 then read_separator (CHR '':'') i read_ipv4 s else None) of
        Some (a, r) \<Rightarrow> ([unat a div 65536, unat a mod 65536], True, r)
      | None \<Rightarrow>
          (case read_separator (CHR '':'') i (read_number 16 4 True 65535) s of
             None \<Rightarrow> ([], False, s)
           | Some (g, r) \<Rightarrow>
               let (gs, v4, r') = read_groups (Suc i) left r in (g # gs, v4, r')))"

definition segments_to_ipv6 :: "nat list \<Rightarrow> u128" where
  "segments_to_ipv6 segs = word_of_nat (foldl (\<lambda>a d. a * 65536 + d) 0 segs)"

definition read_ipv6 :: "u128 reader" where
  "read_ipv6 s =
     (let (head, head_ipv4, r) = read_groups 0 8 s
      in if length head = 8 then Some (segments_to_ipv6 head, r)
         else if head_ipv4 then None
         else Option.bind (read_char (CHR '':'') r) (\<lambda>(_, r1).
           Option.bind (read_char (CHR '':'') r1) (\<lambda>(_, r2).
             let (tail, _, r3) = read_groups 0 (8 - (length head + 1)) r2
             in Some (segments_to_ipv6
                        (head @ replicate (8 - length head - length tail) 0 @ tail), r3))))"

definition read_ip :: "ip_addr reader" where
  "read_ip s = (case read_ipv4 s of
       Some (a, r) \<Rightarrow> Some (V4 a, r)
     | None \<Rightarrow> map_option (\<lambda>(a, r). (V6 a, r)) (read_ipv6 s))"

text \<open>A parse succeeds only when it reads the whole text.\<close>

definition parse_all :: "'a reader \<Rightarrow> string \<Rightarrow> 'a option" where
  "parse_all p s = (case p s of Some (a, []) \<Rightarrow> Some a | _ \<Rightarrow> None)"

definition parse_ip :: "string \<Rightarrow> ip_addr option" where
  "parse_ip s = parse_all read_ip s"

definition read_port :: "u16 reader" where
  "read_port s =
     Option.bind (read_char (CHR '':'') s) (\<lambda>(_, r).
       map_option (\<lambda>(n, r'). (word_of_nat n, r')) (read_number 10 (length r) True 65535 r))"

definition read_scope :: "u32 reader" where
  "read_scope s =
     (case Option.bind (read_char (CHR ''%'') s) (\<lambda>(_, r). read_number 10 (length r) True 4294967295 r) of
        None \<Rightarrow> Some (0, s)
      | Some (n, r) \<Rightarrow> Some (word_of_nat n, r))"

definition read_sock :: "sock_addr reader" where
  "read_sock s =
     (case Option.bind (read_ipv4 s) (\<lambda>(a, r). map_option (\<lambda>(p, r'). (SockV4 a p, r')) (read_port r)) of
        Some x \<Rightarrow> Some x
      | None \<Rightarrow>
          Option.bind (read_char (CHR ''['') s) (\<lambda>(_, r1).
            Option.bind (read_ipv6 r1) (\<lambda>(a, r2).
              Option.bind (read_scope r2) (\<lambda>(sc, r3).
                Option.bind (read_char (CHR '']'') r3) (\<lambda>(_, r4).
                  map_option (\<lambda>(p, r5). (SockV6 a p 0 sc, r5)) (read_port r4))))))"

definition parse_sock :: "string \<Rightarrow> sock_addr option" where
  "parse_sock s = parse_all read_sock s"

text \<open>
  Rules to evaluate the parser on a concrete text with the simplifier: numerals as
  successors for the two recursive readers, and weak congruences that keep the
  continuations untouched until their argument is known.
\<close>

lemmas read_octets_numeral =
  read_octets.simps(2) [of i "pred_numeral k" s for i k s, folded numeral_eq_Suc]
lemmas read_groups_numeral =
  read_groups.simps(2) [of i "pred_numeral k" s for i k s, folded numeral_eq_Suc]
lemmas replicate_numeral_unfold =
  replicate_Suc [of "pred_numeral k" x for k x, folded numeral_eq_Suc]

lemma bind_cong_weak: "m = m' \<Longrightarrow> Option.bind m f = Option.bind m' f"
  by simp

lemma map_option_cong_weak: "m = m' \<Longrightarrow> map_option f m = map_option f m'"
  by simp

lemmas net_eval = read_octets_numeral read_groups_numeral replicate_numeral_unfold parse_ip_def
  parse_sock_def parse_all_def read_ip_def read_sock_def read_port_def read_scope_def
  read_ipv4_def read_ipv6_def segments_to_ipv6_def read_octet_def read_number_def
  read_separator_def read_char_def hex_digit_val_def Let_def
lemmas net_cong = bind_cong_weak map_option_cong_weak let_weak_cong

lemma parse_ip_Nil [simp]: "parse_ip [] = None"
  by (simp add: net_eval cong: net_cong)

section \<open>Prefixes\<close>

text \<open>
  The mask \<open>MAX << (width - prefix)\<close> and the first and last address of a prefix, as
  \<open>geo.rs\<close> (\<open>ipv4_range\<close>), \<open>threat.rs\<close> (\<open>prefix_range_v4\<close>) and
  \<open>server.rs\<close> (\<open>Cidr::contains\<close>) compute them.  The code writes each twice, for
  \<open>u32\<close> and \<open>u128\<close>; here the width is the type parameter.
\<close>

definition prefix_mask :: "nat \<Rightarrow> 'n::len word" where
  "prefix_mask prefix = push_bit (LENGTH('n) - prefix) (- 1)"

definition mask_range :: "'n::len word \<Rightarrow> 'n word \<Rightarrow> 'n word \<times> 'n word" where
  "mask_range addr m = (let start = addr AND m in (start, start OR NOT m))"

lemma and_prefix_mask:
  fixes a :: "'n::len word"
  assumes "prefix \<le> LENGTH('n)"
  shows "unat (a AND prefix_mask prefix) = unat a div 2 ^ (LENGTH('n) - prefix) * 2 ^ (LENGTH('n) - prefix)"
proof -
  let ?k = "LENGTH('n) - prefix"
  have "a AND prefix_mask prefix = push_bit ?k (drop_bit ?k a)"
    by (rule bit_word_eqI) (auto simp: prefix_mask_def bit_simps)
  then have "unat (a AND prefix_mask prefix) = take_bit LENGTH('n) (push_bit ?k (drop_bit ?k (unat a)))"
    by (simp add: unsigned_push_bit_eq unsigned_drop_bit_eq take_bit_nat_eq_self)
  also have "\<dots> = push_bit ?k (drop_bit ?k (unat a))"
  proof -
    have "push_bit ?k (drop_bit ?k (unat a)) \<le> unat a"
      by (simp add: push_bit_eq_mult drop_bit_eq_div)
    also have "unat a < 2 ^ LENGTH('n)" by (rule unsigned_less)
    finally show ?thesis by (simp add: take_bit_nat_eq_self)
  qed
  finally show ?thesis by (simp add: push_bit_eq_mult drop_bit_eq_div)
qed

lemma unat_mask_eq_local:
  assumes "k \<le> LENGTH('n::len)"
  shows "unat (mask k :: 'n word) = 2 ^ k - 1"
proof -
  have m: "(mask k :: 'n word) = word_of_nat (mask k)"
    by (simp add: of_nat_mask_eq)
  have "unat (mask k :: 'n word) = take_bit LENGTH('n) (mask k)"
    unfolding m by (rule unsigned_of_nat [where 'a = nat, simplified])
  also have "\<dots> = mask k"
  proof -
    have "(2::nat) ^ k \<le> 2 ^ LENGTH('n)" using assms by (simp add: power_increasing)
    moreover have "(0::nat) < 2 ^ k" by simp
    ultimately have "(2::nat) ^ k - 1 < 2 ^ LENGTH('n)" by linarith
    then show ?thesis by (simp add: mask_eq_exp_minus_1 take_bit_nat_eq_self)
  qed
  finally show ?thesis by (simp add: mask_eq_exp_minus_1)
qed

lemma or_not_prefix_mask:
  fixes a :: "'n::len word"
  assumes "prefix \<le> LENGTH('n)"
  shows "unat (a AND prefix_mask prefix OR NOT (prefix_mask prefix)) =
    unat (a AND prefix_mask prefix) + (2 ^ (LENGTH('n) - prefix) - 1)"
proof -
  let ?k = "LENGTH('n) - prefix" and ?m = "prefix_mask prefix :: 'n word"
  have "NOT ?m = mask ?k"
    by (rule bit_word_eqI) (auto simp: prefix_mask_def bit_simps)
  moreover have "(a AND ?m) AND mask ?k = 0"
    by (rule bit_word_eqI) (auto simp: prefix_mask_def bit_simps)
  ultimately have eq: "a AND ?m OR NOT ?m = (a AND ?m) + mask ?k"
    by (simp add: disjunctive_add_eq_or)
  have msk: "unat (mask ?k :: 'n word) = 2 ^ ?k - 1"
    by (simp add: unat_mask_eq_local)
  have q: "unat (a AND ?m) = unat a div 2 ^ ?k * 2 ^ ?k"
    by (rule and_prefix_mask [OF assms])
  have "unat a div 2 ^ ?k < 2 ^ prefix"
  proof -
    have "unat a < 2 ^ (prefix + ?k)"
      using unsigned_less [of a] assms by simp
    then show ?thesis by (simp add: power_add less_mult_imp_div_less)
  qed
  then have "(unat a div 2 ^ ?k + 1) * 2 ^ ?k \<le> 2 ^ prefix * 2 ^ ?k"
    by (intro mult_le_mono1) simp
  also have "\<dots> = (2::nat) ^ LENGTH('n)"
    using assms by (simp flip: power_add)
  finally have "unat a div 2 ^ ?k * 2 ^ ?k + 2 ^ ?k \<le> 2 ^ LENGTH('n)"
    by (simp add: algebra_simps)
  moreover have "(0::nat) < 2 ^ ?k" by simp
  ultimately have "unat (a AND ?m) + (2 ^ ?k - 1) < 2 ^ LENGTH('n)"
    unfolding q by linarith
  then show ?thesis
    unfolding eq by (subst unat_add_lem [THEN iffD1]) (simp_all add: msk)
qed

text \<open>
  The three views of prefix membership agree: equal masked bits, equal quotients by the
  block size, and lying between the first and the last address.
\<close>

lemma mask_eq_iff_div:
  fixes a x :: "'n::len word"
  assumes "prefix \<le> LENGTH('n)"
  shows "a AND prefix_mask prefix = x AND prefix_mask prefix \<longleftrightarrow>
    unat a div 2 ^ (LENGTH('n) - prefix) = unat x div 2 ^ (LENGTH('n) - prefix)"
  unfolding word_unat_eq_iff and_prefix_mask [OF assms] by simp

lemma between_block_iff:
  fixes q x k :: nat
  shows "q * 2 ^ k \<le> x \<and> x \<le> q * 2 ^ k + (2 ^ k - 1) \<longleftrightarrow> q = x div 2 ^ k"
proof
  assume h: "q * 2 ^ k \<le> x \<and> x \<le> q * 2 ^ k + (2 ^ k - 1)"
  moreover have "(0::nat) < 2 ^ k" by simp
  ultimately have "x < q * 2 ^ k + 2 ^ k" by linarith
  then have "x < (q + 1) * 2 ^ k" by (simp add: algebra_simps)
  then have "x div 2 ^ k < q + 1" by (simp add: less_mult_imp_div_less)
  moreover have "q \<le> x div 2 ^ k" using h by (simp add: less_eq_div_iff_mult_less_eq)
  ultimately show "q = x div 2 ^ k" by simp
next
  assume "q = x div 2 ^ k"
  then have "q * 2 ^ k + x mod 2 ^ k = x" by (simp only: div_mult_mod_eq)
  moreover have "x mod 2 ^ k < 2 ^ k" by simp
  ultimately show "q * 2 ^ k \<le> x \<and> x \<le> q * 2 ^ k + (2 ^ k - 1)" by linarith
qed

lemma mask_range_iff:
  fixes a x :: "'n::len word"
  assumes "prefix \<le> LENGTH('n)" "mask_range a (prefix_mask prefix) = (s, e)"
  shows "s \<le> x \<and> x \<le> e \<longleftrightarrow> a AND prefix_mask prefix = x AND prefix_mask prefix"
proof -
  have "s = a AND prefix_mask prefix" "e = s OR NOT (prefix_mask prefix)"
    using assms(2) by (auto simp: mask_range_def Let_def)
  then show ?thesis
    unfolding mask_eq_iff_div [OF assms(1)]
    using between_block_iff [of "unat a div 2 ^ (LENGTH('n) - prefix)" "LENGTH('n) - prefix" "unat x"]
    by (simp add: word_le_nat_alt or_not_prefix_mask [OF assms(1)] and_prefix_mask [OF assms(1)])
qed

lemma mask_range_le:
  fixes a :: "'n::len word"
  assumes "prefix \<le> LENGTH('n)" "mask_range a (prefix_mask prefix) = (s, e)"
  shows "s \<le> e"
  using mask_range_iff [OF assms, of a] by auto

section \<open>The CIDR matcher of the server\<close>

record cidr =
  cidr_addr :: ip_addr
  cidr_prefix :: u8

datatype cidr_error = InvalidCidrAddress string | InvalidCidrPrefix string | CidrPrefixTooLong string nat

definition parse_u8 :: "string \<Rightarrow> u8 option" where
  "parse_u8 s = map_option word_of_nat (parse_uint 255 s)"

definition max_prefix :: "ip_addr \<Rightarrow> u8" where
  "max_prefix a = (case a of V4 _ \<Rightarrow> 32 | V6 _ \<Rightarrow> 128)"

definition cidr_parse :: "string \<Rightarrow> cidr_error + cidr" where
  "cidr_parse v =
     (let value = trim v
      in bind_res
        (case split_once (CHR ''/'') value of
           Some (addr, prefix) \<Rightarrow>
             (case parse_ip addr of
                None \<Rightarrow> Inl (InvalidCidrAddress value)
              | Some a \<Rightarrow>
                  (case parse_u8 prefix of
                     None \<Rightarrow> Inl (InvalidCidrPrefix value)
                   | Some p \<Rightarrow> Inr (a, Some p)))
         | None \<Rightarrow>
             (case parse_ip value of
                None \<Rightarrow> Inl (InvalidCidrAddress value)
              | Some a \<Rightarrow> Inr (a, None)))
        (\<lambda>(addr, prefix).
           let p = (case prefix of Some p \<Rightarrow> p | None \<Rightarrow> max_prefix addr)
           in if p > max_prefix addr then Inl (CidrPrefixTooLong value (unat (max_prefix addr)))
              else Inr \<lparr>cidr_addr = addr, cidr_prefix = p\<rparr>))"

definition masked_eq :: "'n::len word \<Rightarrow> 'n word \<Rightarrow> u8 \<Rightarrow> bool" where
  "masked_eq network ip prefix \<longleftrightarrow>
     prefix = 0 \<or> network AND prefix_mask (unat prefix) = ip AND prefix_mask (unat prefix)"

fun cidr_contains_addr :: "ip_addr \<Rightarrow> u8 \<Rightarrow> ip_addr \<Rightarrow> bool" where
  "cidr_contains_addr (V4 network) prefix (V4 ip) = masked_eq network ip prefix"
| "cidr_contains_addr (V6 network) prefix (V6 ip) = masked_eq network ip prefix"
| "cidr_contains_addr _ _ _ = False"

definition cidr_contains :: "cidr \<Rightarrow> ip_addr \<Rightarrow> bool" where
  "cidr_contains c ip = cidr_contains_addr (cidr_addr c) (cidr_prefix c) ip"

definition parse_cidrs :: "string list \<Rightarrow> cidr_error + cidr list" where
  "parse_cidrs values = collect_res cidr_parse values"

definition cidr_wf :: "cidr \<Rightarrow> bool" where
  "cidr_wf c \<longleftrightarrow> cidr_prefix c \<le> max_prefix (cidr_addr c)"

lemma cidr_parse_wf: "cidr_parse s = Inr c \<Longrightarrow> cidr_wf c"
  unfolding cidr_parse_def Let_def bind_res_Inr_iff cidr_wf_def
  by (elim exE conjE, split prod.splits, simp split: if_splits) (auto simp: not_less)

text \<open>The numeric meaning of a matcher: the addresses of its block.\<close>

fun in_block :: "ip_addr \<Rightarrow> nat \<Rightarrow> ip_addr \<Rightarrow> bool" where
  "in_block (V4 n) p (V4 x) \<longleftrightarrow> unat n div 2 ^ (32 - p) = unat x div 2 ^ (32 - p)"
| "in_block (V6 n) p (V6 x) \<longleftrightarrow> unat n div 2 ^ (128 - p) = unat x div 2 ^ (128 - p)"
| "in_block _ _ _ \<longleftrightarrow> False"

lemma masked_eq_iff:
  fixes n x :: "'n::len word"
  assumes "unat p \<le> LENGTH('n)"
  shows "masked_eq n x p \<longleftrightarrow> unat n div 2 ^ (LENGTH('n) - unat p) = unat x div 2 ^ (LENGTH('n) - unat p)"
proof (cases "p = 0")
  case True
  have "unat n < 2 ^ LENGTH('n)" "unat x < 2 ^ LENGTH('n)" by (rule unsigned_less)+
  with True show ?thesis by (simp add: masked_eq_def)
next
  case False
  then show ?thesis by (simp add: masked_eq_def mask_eq_iff_div [OF assms])
qed

lemma cidr_contains_iff:
  assumes "cidr_wf c"
  shows "cidr_contains c ip \<longleftrightarrow> in_block (cidr_addr c) (unat (cidr_prefix c)) ip"
proof -
  have "unat (cidr_prefix c) \<le> unat (max_prefix (cidr_addr c))"
    using assms by (simp add: cidr_wf_def word_le_nat_alt)
  then show ?thesis
    by (cases "cidr_addr c"; cases ip)
      (simp_all add: cidr_contains_def max_prefix_def masked_eq_iff)
qed

end
