(* ===== verification/Config.thy ===== *)
theory Config
  imports Net
begin

text \<open>
  The data of \<open>config.rs\<close>: the configuration structs as records (one field per struct
  field; each record has its own field prefix because record fields are global names), the
  defaults, the security presets and the layering of the security settings (preset,
  \<open>proxy.security\<close>, listener override) that \<open>effective_security_for_listener\<close>
  computes.  Reading the TOML text is the job of the \<open>toml\<close> and \<open>serde\<close> crates and is
  not modelled; the configuration is an argument of everything that follows.

  The lemmas show that the layering is field-wise override with reset by a preset:
  applying a layer twice changes nothing, a later layer absorbs an earlier copy of itself,
  and a listener preset makes the global section irrelevant.
\<close>

type_synonym usize = "64 word"

section \<open>Enumerations\<close>

datatype proxy_threat_intel_format = FormatCidr | FormatIps | FormatIpsum | FormatSpamhausDrop
datatype proxy_geo_provider = Ipdeny
datatype proxy_geo_startup_refresh = Blocking | Background | RefreshDisabled
datatype proxy_geo_unknown_country_policy = UnknownAllow | UnknownDeny
datatype proxy_security_preset = PresetOff | PresetTrusted | PresetPublic | PresetStrict
datatype proxy_registered_invite_source_match = MatchIp | MatchIpPort
datatype register_routing_mode = RoutePath | ContactRewrite
datatype proxy_affinity_key = DialogId | CallId | RequestUri
datatype sip_transport = Udp | Tcp | TcpUdp
datatype upstream_mode = RoundRobin
datatype ha_initial_role = InitialActive | InitialStandby

fun register_routing_mode_as_str :: "register_routing_mode \<Rightarrow> string" where
  "register_routing_mode_as_str RoutePath = ''path''"
| "register_routing_mode_as_str ContactRewrite = ''contact-rewrite''"

fun sip_transport_as_str :: "sip_transport \<Rightarrow> string" where
  "sip_transport_as_str Udp = ''udp''"
| "sip_transport_as_str Tcp = ''tcp''"
| "sip_transport_as_str TcpUdp = ''tcp_udp''"

fun sip_via_token :: "sip_transport \<Rightarrow> string" where
  "sip_via_token Udp = ''UDP''"
| "sip_via_token Tcp = ''TCP''"
| "sip_via_token TcpUdp = ''TCP_UDP''"

fun concrete_transports :: "sip_transport \<Rightarrow> sip_transport list" where
  "concrete_transports Udp = [Udp]"
| "concrete_transports Tcp = [Tcp]"
| "concrete_transports TcpUdp = [Udp, Tcp]"

section \<open>Security sections and their effective values\<close>

record proxy_geo_country_list_config =
  gl_countries :: "string list option"

record proxy_threat_intel_source_config =
  ts_name :: string
  ts_url :: string
  ts_format :: proxy_threat_intel_format
  ts_min_score :: "u32 option"
  ts_enabled :: "bool option"

record effective_proxy_threat_intel_source_config =
  es_name :: string
  es_url :: string
  es_format :: proxy_threat_intel_format
  es_min_score :: "u32 option"

record proxy_geo_security_config =
  gc_enabled :: "bool option"
  gc_provider :: "proxy_geo_provider option"
  gc_provider_base_url :: "string option"
  gc_cache_dir :: "string option"
  gc_refresh_interval_seconds :: "u64 option"
  gc_startup_refresh :: "proxy_geo_startup_refresh option"
  gc_fail_open :: "bool option"
  gc_unknown_country :: "proxy_geo_unknown_country_policy option"
  gc_request_timeout_seconds :: "u64 option"
  gc_request_retries :: "u32 option"
  gc_allow_partial :: "bool option"
  gc_allow :: proxy_geo_country_list_config
  gc_deny :: proxy_geo_country_list_config

record effective_proxy_geo_security_config =
  ge_enabled :: bool
  ge_provider :: proxy_geo_provider
  ge_provider_base_url :: string
  ge_cache_dir :: string
  ge_refresh_interval_seconds :: u64
  ge_startup_refresh :: proxy_geo_startup_refresh
  ge_fail_open :: bool
  ge_unknown_country :: proxy_geo_unknown_country_policy
  ge_request_timeout_seconds :: u64
  ge_request_retries :: u32
  ge_allow_partial :: bool
  ge_allow_countries :: "string list"
  ge_deny_countries :: "string list"

record proxy_threat_intel_security_config =
  tc_enabled :: "bool option"
  tc_cache_dir :: "string option"
  tc_refresh_interval_seconds :: "u64 option"
  tc_startup_refresh :: "proxy_geo_startup_refresh option"
  tc_fail_open :: "bool option"
  tc_request_timeout_seconds :: "u64 option"
  tc_request_retries :: "u32 option"
  tc_allow_partial :: "bool option"
  tc_sources :: "proxy_threat_intel_source_config list option"

record effective_proxy_threat_intel_security_config =
  te_enabled :: bool
  te_cache_dir :: string
  te_refresh_interval_seconds :: u64
  te_startup_refresh :: proxy_geo_startup_refresh
  te_fail_open :: bool
  te_request_timeout_seconds :: u64
  te_request_retries :: u32
  te_allow_partial :: bool
  te_sources :: "effective_proxy_threat_intel_source_config list"

record proxy_dynamic_ban_config =
  bc_enabled :: "bool option"
  bc_ban_seconds :: "u64 option"
  bc_invalid_packets_per_minute :: "u64 option"
  bc_parse_errors_per_minute :: "u64 option"
  bc_sip_rate_violations_per_minute :: "u64 option"

record effective_proxy_dynamic_ban_config =
  be_enabled :: bool
  be_ban_seconds :: u64
  be_invalid_packets_per_minute :: u64
  be_parse_errors_per_minute :: u64
  be_sip_rate_violations_per_minute :: u64

record proxy_flood_security_config =
  fc_enabled :: "bool option"
  fc_udp_packets_per_second :: "u64 option"
  fc_udp_burst :: "u64 option"
  fc_tcp_packets_per_second :: "u64 option"
  fc_tcp_burst :: "u64 option"
  fc_tcp_syn_packets_per_second :: "u64 option"
  fc_tcp_syn_burst :: "u64 option"
  fc_tcp_ack_packets_per_second :: "u64 option"
  fc_tcp_ack_burst :: "u64 option"
  fc_icmp_packets_per_second :: "u64 option"
  fc_icmp_burst :: "u64 option"
  fc_block_seconds :: "u64 option"

record effective_proxy_flood_security_config =
  fe_enabled :: bool
  fe_udp_packets_per_second :: u64
  fe_udp_burst :: u64
  fe_tcp_packets_per_second :: u64
  fe_tcp_burst :: u64
  fe_tcp_syn_packets_per_second :: u64
  fe_tcp_syn_burst :: u64
  fe_tcp_ack_packets_per_second :: u64
  fe_tcp_ack_burst :: u64
  fe_icmp_packets_per_second :: u64
  fe_icmp_burst :: u64
  fe_block_seconds :: u64

record proxy_security_prefilter_config =
  pc_enabled :: "bool option"
  pc_drop_invalid_start_line :: "bool option"
  pc_drop_non_sip_methods :: "bool option"
  pc_log_invalid_packets :: "bool option"
  pc_invalid_log_sample_per_minute :: "u64 option"

record effective_proxy_security_prefilter_config =
  pe_enabled :: bool
  pe_drop_invalid_start_line :: bool
  pe_drop_non_sip_methods :: bool
  pe_log_invalid_packets :: bool
  pe_invalid_log_sample_per_minute :: u64

record proxy_ip_rate_limit_config =
  ic_enabled :: "bool option"
  ic_packets_per_second :: "u64 option"
  ic_burst :: "u64 option"
  ic_parse_errors_per_minute :: "u64 option"
  ic_block_seconds :: "u64 option"

record effective_proxy_ip_rate_limit_config =
  ie_enabled :: bool
  ie_packets_per_second :: u64
  ie_burst :: u64
  ie_parse_errors_per_minute :: u64
  ie_block_seconds :: u64

record proxy_sip_rate_limit_config =
  rc_enabled :: "bool option"
  rc_register_per_minute_per_aor :: "u64 option"
  rc_invite_per_minute_per_aor :: "u64 option"
  rc_block_seconds :: "u64 option"

record effective_proxy_sip_rate_limit_config =
  re_enabled :: bool
  re_register_per_minute_per_aor :: u64
  re_invite_per_minute_per_aor :: u64
  re_block_seconds :: u64

record proxy_sip_policy_config =
  yc_require_registered_invite_source :: "bool option"
  yc_registered_invite_source_match :: "proxy_registered_invite_source_match option"

record effective_proxy_sip_policy_config =
  ye_require_registered_invite_source :: bool
  ye_registered_invite_source_match :: proxy_registered_invite_source_match

record proxy_xdp_security_config =
  xc_enabled :: "bool option"
  xc_interfaces :: "string list option"
  xc_detach_stale :: "bool option"
  xc_fail_open :: "bool option"
  xc_sync_dynamic_ban :: "bool option"
  xc_cidr_filter :: "bool option"
  xc_geo_filter :: "bool option"
  xc_threat_intel :: "bool option"
  xc_ip_rate_limit :: "bool option"
  xc_auto_size_maps :: "bool option"
  xc_max_deny_cidrs_entries :: "u32 option"
  xc_max_geo_cidrs_entries :: "u32 option"

record effective_proxy_xdp_security_config =
  xe_enabled :: bool
  xe_interfaces :: "string list"
  xe_detach_stale :: bool
  xe_fail_open :: bool
  xe_sync_dynamic_ban :: bool
  xe_cidr_filter :: bool
  xe_geo_filter :: bool
  xe_threat_intel :: bool
  xe_ip_rate_limit :: bool
  xe_auto_size_maps :: bool
  xe_max_deny_cidrs_entries :: u32
  xe_max_geo_cidrs_entries :: u32

record proxy_security_config =
  sc_preset :: "proxy_security_preset option"
  sc_trusted_cidrs :: "string list option"
  sc_allow_cidrs :: "string list option"
  sc_deny_cidrs :: "string list option"
  sc_prefilter :: proxy_security_prefilter_config
  sc_geo :: proxy_geo_security_config
  sc_threat_intel :: proxy_threat_intel_security_config
  sc_dynamic_ban :: proxy_dynamic_ban_config
  sc_flood :: proxy_flood_security_config
  sc_ip_rate_limit :: proxy_ip_rate_limit_config
  sc_sip_rate_limit :: proxy_sip_rate_limit_config
  sc_sip_policy :: proxy_sip_policy_config
  sc_xdp :: proxy_xdp_security_config

record effective_proxy_security_config =
  se_preset :: proxy_security_preset
  se_trusted_cidrs :: "string list"
  se_allow_cidrs :: "string list"
  se_deny_cidrs :: "string list"
  se_prefilter :: effective_proxy_security_prefilter_config
  se_geo :: effective_proxy_geo_security_config
  se_threat_intel :: effective_proxy_threat_intel_security_config
  se_dynamic_ban :: effective_proxy_dynamic_ban_config
  se_flood :: effective_proxy_flood_security_config
  se_ip_rate_limit :: effective_proxy_ip_rate_limit_config
  se_sip_rate_limit :: effective_proxy_sip_rate_limit_config
  se_sip_policy :: effective_proxy_sip_policy_config
  se_xdp :: effective_proxy_xdp_security_config

section \<open>Defaults and presets\<close>

definition default_threat_sources :: "effective_proxy_threat_intel_source_config list" where
  "default_threat_sources =
     [\<lparr>es_name = ''ipsum'',
       es_url = ''https://raw.githubusercontent.com/stamparm/ipsum/master/ipsum.txt'',
       es_format = FormatIpsum, es_min_score = Some 3\<rparr>,
      \<lparr>es_name = ''spamhaus-drop'', es_url = ''https://www.spamhaus.org/drop/drop.txt'',
       es_format = FormatSpamhausDrop, es_min_score = None\<rparr>]"

definition default_geo :: effective_proxy_geo_security_config where
  "default_geo = \<lparr>
     ge_enabled = False, ge_provider = Ipdeny,
     ge_provider_base_url = ''http://www.ipdeny.com/ipblocks/data/countries/{country}.zone'',
     ge_cache_dir = ''/var/lib/sigproxy-rs/geo'', ge_refresh_interval_seconds = 86400,
     ge_startup_refresh = RefreshDisabled, ge_fail_open = True, ge_unknown_country = UnknownAllow,
     ge_request_timeout_seconds = 10, ge_request_retries = 3, ge_allow_partial = True,
     ge_allow_countries = [], ge_deny_countries = []\<rparr>"

definition default_threat_intel :: effective_proxy_threat_intel_security_config where
  "default_threat_intel = \<lparr>
     te_enabled = False, te_cache_dir = ''/var/lib/sigproxy-rs/threat'',
     te_refresh_interval_seconds = 86400, te_startup_refresh = RefreshDisabled,
     te_fail_open = True, te_request_timeout_seconds = 10, te_request_retries = 3,
     te_allow_partial = True, te_sources = default_threat_sources\<rparr>"

definition default_dynamic_ban :: effective_proxy_dynamic_ban_config where
  "default_dynamic_ban = \<lparr>
     be_enabled = False, be_ban_seconds = 0, be_invalid_packets_per_minute = 0,
     be_parse_errors_per_minute = 0, be_sip_rate_violations_per_minute = 0\<rparr>"

definition default_flood :: effective_proxy_flood_security_config where
  "default_flood = \<lparr>
     fe_enabled = False, fe_udp_packets_per_second = 0, fe_udp_burst = 0,
     fe_tcp_packets_per_second = 0, fe_tcp_burst = 0, fe_tcp_syn_packets_per_second = 0,
     fe_tcp_syn_burst = 0, fe_tcp_ack_packets_per_second = 0, fe_tcp_ack_burst = 0,
     fe_icmp_packets_per_second = 0, fe_icmp_burst = 0, fe_block_seconds = 0\<rparr>"

definition default_sip_policy :: effective_proxy_sip_policy_config where
  "default_sip_policy = \<lparr>
     ye_require_registered_invite_source = False, ye_registered_invite_source_match = MatchIp\<rparr>"

definition default_xdp :: effective_proxy_xdp_security_config where
  "default_xdp = \<lparr>
     xe_enabled = False, xe_interfaces = [], xe_detach_stale = True, xe_fail_open = True,
     xe_sync_dynamic_ban = True, xe_cidr_filter = True, xe_geo_filter = True,
     xe_threat_intel = True, xe_ip_rate_limit = True, xe_auto_size_maps = True,
     xe_max_deny_cidrs_entries = 262144, xe_max_geo_cidrs_entries = 1048576\<rparr>"

text \<open>
  The four arms of \<open>for_preset\<close> differ in numbers only; \<open>preset_security\<close> is their
  common struct literal.
\<close>

definition preset_security ::
  "proxy_security_preset \<Rightarrow> effective_proxy_security_prefilter_config
   \<Rightarrow> effective_proxy_dynamic_ban_config \<Rightarrow> effective_proxy_ip_rate_limit_config
   \<Rightarrow> effective_proxy_sip_rate_limit_config \<Rightarrow> effective_proxy_security_config" where
  "preset_security preset prefilter dynamic_ban ip_rate_limit sip_rate_limit = \<lparr>
     se_preset = preset, se_trusted_cidrs = [], se_allow_cidrs = [], se_deny_cidrs = [],
     se_prefilter = prefilter, se_geo = default_geo, se_threat_intel = default_threat_intel,
     se_dynamic_ban = dynamic_ban, se_flood = default_flood, se_ip_rate_limit = ip_rate_limit,
     se_sip_rate_limit = sip_rate_limit, se_sip_policy = default_sip_policy, se_xdp = default_xdp\<rparr>"

fun for_preset :: "proxy_security_preset \<Rightarrow> effective_proxy_security_config" where
  "for_preset PresetOff = preset_security PresetOff
     \<lparr>pe_enabled = False, pe_drop_invalid_start_line = False, pe_drop_non_sip_methods = False,
      pe_log_invalid_packets = True, pe_invalid_log_sample_per_minute = 10\<rparr>
     default_dynamic_ban
     \<lparr>ie_enabled = False, ie_packets_per_second = 0, ie_burst = 0, ie_parse_errors_per_minute = 0,
      ie_block_seconds = 0\<rparr>
     \<lparr>re_enabled = False, re_register_per_minute_per_aor = 0, re_invite_per_minute_per_aor = 0,
      re_block_seconds = 0\<rparr>"
| "for_preset PresetTrusted = preset_security PresetTrusted
     \<lparr>pe_enabled = True, pe_drop_invalid_start_line = True, pe_drop_non_sip_methods = True,
      pe_log_invalid_packets = True, pe_invalid_log_sample_per_minute = 20\<rparr>
     \<lparr>be_enabled = True, be_ban_seconds = 60, be_invalid_packets_per_minute = 60,
      be_parse_errors_per_minute = 60, be_sip_rate_violations_per_minute = 30\<rparr>
     \<lparr>ie_enabled = True, ie_packets_per_second = 200, ie_burst = 400,
      ie_parse_errors_per_minute = 60, ie_block_seconds = 60\<rparr>
     \<lparr>re_enabled = True, re_register_per_minute_per_aor = 60, re_invite_per_minute_per_aor = 120,
      re_block_seconds = 60\<rparr>"
| "for_preset PresetPublic = preset_security PresetPublic
     \<lparr>pe_enabled = True, pe_drop_invalid_start_line = True, pe_drop_non_sip_methods = True,
      pe_log_invalid_packets = True, pe_invalid_log_sample_per_minute = 10\<rparr>
     \<lparr>be_enabled = True, be_ban_seconds = 300, be_invalid_packets_per_minute = 30,
      be_parse_errors_per_minute = 20, be_sip_rate_violations_per_minute = 10\<rparr>
     \<lparr>ie_enabled = True, ie_packets_per_second = 50, ie_burst = 100,
      ie_parse_errors_per_minute = 20, ie_block_seconds = 300\<rparr>
     \<lparr>re_enabled = True, re_register_per_minute_per_aor = 20, re_invite_per_minute_per_aor = 60,
      re_block_seconds = 300\<rparr>"
| "for_preset PresetStrict = preset_security PresetStrict
     \<lparr>pe_enabled = True, pe_drop_invalid_start_line = True, pe_drop_non_sip_methods = True,
      pe_log_invalid_packets = True, pe_invalid_log_sample_per_minute = 5\<rparr>
     \<lparr>be_enabled = True, be_ban_seconds = 900, be_invalid_packets_per_minute = 10,
      be_parse_errors_per_minute = 5, be_sip_rate_violations_per_minute = 5\<rparr>
     \<lparr>ie_enabled = True, ie_packets_per_second = 15, ie_burst = 30,
      ie_parse_errors_per_minute = 5, ie_block_seconds = 900\<rparr>
     \<lparr>re_enabled = True, re_register_per_minute_per_aor = 10, re_invite_per_minute_per_aor = 30,
      re_block_seconds = 900\<rparr>"

definition default_security :: effective_proxy_security_config where
  "default_security = (for_preset PresetOff)\<lparr>se_dynamic_ban :=
     \<lparr>be_enabled = True, be_ban_seconds = 3600, be_invalid_packets_per_minute = 30,
      be_parse_errors_per_minute = 20, be_sip_rate_violations_per_minute = 10\<rparr>\<rparr>"

definition security_enabled :: "effective_proxy_security_config \<Rightarrow> bool" where
  "security_enabled e \<longleftrightarrow>
     pe_enabled (se_prefilter e) \<or> ge_enabled (se_geo e) \<or> te_enabled (se_threat_intel e)
     \<or> be_enabled (se_dynamic_ban e) \<or> fe_enabled (se_flood e) \<or> ie_enabled (se_ip_rate_limit e)
     \<or> re_enabled (se_sip_rate_limit e) \<or> ye_require_registered_invite_source (se_sip_policy e)"

section \<open>Layering\<close>

text \<open>\<open>if let Some(v) = self.field { effective.field = v }\<close> as the new value of the field.\<close>

definition overlay :: "'a option \<Rightarrow> 'a \<Rightarrow> 'a" where
  "overlay v old = (case v of None \<Rightarrow> old | Some new \<Rightarrow> new)"

definition normalize_country_codes :: "string list \<Rightarrow> string list" where
  "normalize_country_codes values = map (\<lambda>v. map to_ascii_upper (trim v)) values"

definition source_from_config ::
  "proxy_threat_intel_source_config \<Rightarrow> effective_proxy_threat_intel_source_config" where
  "source_from_config c = \<lparr>es_name = trim (ts_name c), es_url = trim (ts_url c),
     es_format = ts_format c, es_min_score = ts_min_score c\<rparr>"

definition effective_sources ::
  "proxy_threat_intel_source_config list \<Rightarrow> effective_proxy_threat_intel_source_config list" where
  "effective_sources ss = map source_from_config (filter (\<lambda>s. overlay (ts_enabled s) True) ss)"

definition apply_geo :: "proxy_geo_security_config \<Rightarrow> effective_proxy_geo_security_config \<Rightarrow> effective_proxy_geo_security_config" where
  "apply_geo c e = e\<lparr>
     ge_enabled := overlay (gc_enabled c) (ge_enabled e),
     ge_provider := overlay (gc_provider c) (ge_provider e),
     ge_provider_base_url := overlay (gc_provider_base_url c) (ge_provider_base_url e),
     ge_cache_dir := overlay (gc_cache_dir c) (ge_cache_dir e),
     ge_refresh_interval_seconds := overlay (gc_refresh_interval_seconds c) (ge_refresh_interval_seconds e),
     ge_startup_refresh := overlay (gc_startup_refresh c) (ge_startup_refresh e),
     ge_fail_open := overlay (gc_fail_open c) (ge_fail_open e),
     ge_unknown_country := overlay (gc_unknown_country c) (ge_unknown_country e),
     ge_request_timeout_seconds := overlay (gc_request_timeout_seconds c) (ge_request_timeout_seconds e),
     ge_request_retries := overlay (gc_request_retries c) (ge_request_retries e),
     ge_allow_partial := overlay (gc_allow_partial c) (ge_allow_partial e),
     ge_allow_countries := overlay (map_option normalize_country_codes (gl_countries (gc_allow c))) (ge_allow_countries e),
     ge_deny_countries := overlay (map_option normalize_country_codes (gl_countries (gc_deny c))) (ge_deny_countries e)\<rparr>"

definition apply_threat_intel :: "proxy_threat_intel_security_config \<Rightarrow> effective_proxy_threat_intel_security_config \<Rightarrow> effective_proxy_threat_intel_security_config" where
  "apply_threat_intel c e = e\<lparr>
     te_enabled := overlay (tc_enabled c) (te_enabled e),
     te_cache_dir := overlay (tc_cache_dir c) (te_cache_dir e),
     te_refresh_interval_seconds := overlay (tc_refresh_interval_seconds c) (te_refresh_interval_seconds e),
     te_startup_refresh := overlay (tc_startup_refresh c) (te_startup_refresh e),
     te_fail_open := overlay (tc_fail_open c) (te_fail_open e),
     te_request_timeout_seconds := overlay (tc_request_timeout_seconds c) (te_request_timeout_seconds e),
     te_request_retries := overlay (tc_request_retries c) (te_request_retries e),
     te_allow_partial := overlay (tc_allow_partial c) (te_allow_partial e),
     te_sources := overlay (map_option effective_sources (tc_sources c)) (te_sources e)\<rparr>"

definition apply_dynamic_ban :: "proxy_dynamic_ban_config \<Rightarrow> effective_proxy_dynamic_ban_config \<Rightarrow> effective_proxy_dynamic_ban_config" where
  "apply_dynamic_ban c e = e\<lparr>
     be_enabled := overlay (bc_enabled c) (be_enabled e),
     be_ban_seconds := overlay (bc_ban_seconds c) (be_ban_seconds e),
     be_invalid_packets_per_minute := overlay (bc_invalid_packets_per_minute c) (be_invalid_packets_per_minute e),
     be_parse_errors_per_minute := overlay (bc_parse_errors_per_minute c) (be_parse_errors_per_minute e),
     be_sip_rate_violations_per_minute := overlay (bc_sip_rate_violations_per_minute c) (be_sip_rate_violations_per_minute e)\<rparr>"

definition apply_flood :: "proxy_flood_security_config \<Rightarrow> effective_proxy_flood_security_config \<Rightarrow> effective_proxy_flood_security_config" where
  "apply_flood c e = e\<lparr>
     fe_enabled := overlay (fc_enabled c) (fe_enabled e),
     fe_udp_packets_per_second := overlay (fc_udp_packets_per_second c) (fe_udp_packets_per_second e),
     fe_udp_burst := overlay (fc_udp_burst c) (fe_udp_burst e),
     fe_tcp_packets_per_second := overlay (fc_tcp_packets_per_second c) (fe_tcp_packets_per_second e),
     fe_tcp_burst := overlay (fc_tcp_burst c) (fe_tcp_burst e),
     fe_tcp_syn_packets_per_second := overlay (fc_tcp_syn_packets_per_second c) (fe_tcp_syn_packets_per_second e),
     fe_tcp_syn_burst := overlay (fc_tcp_syn_burst c) (fe_tcp_syn_burst e),
     fe_tcp_ack_packets_per_second := overlay (fc_tcp_ack_packets_per_second c) (fe_tcp_ack_packets_per_second e),
     fe_tcp_ack_burst := overlay (fc_tcp_ack_burst c) (fe_tcp_ack_burst e),
     fe_icmp_packets_per_second := overlay (fc_icmp_packets_per_second c) (fe_icmp_packets_per_second e),
     fe_icmp_burst := overlay (fc_icmp_burst c) (fe_icmp_burst e),
     fe_block_seconds := overlay (fc_block_seconds c) (fe_block_seconds e)\<rparr>"

definition apply_prefilter :: "proxy_security_prefilter_config \<Rightarrow> effective_proxy_security_prefilter_config \<Rightarrow> effective_proxy_security_prefilter_config" where
  "apply_prefilter c e = e\<lparr>
     pe_enabled := overlay (pc_enabled c) (pe_enabled e),
     pe_drop_invalid_start_line := overlay (pc_drop_invalid_start_line c) (pe_drop_invalid_start_line e),
     pe_drop_non_sip_methods := overlay (pc_drop_non_sip_methods c) (pe_drop_non_sip_methods e),
     pe_log_invalid_packets := overlay (pc_log_invalid_packets c) (pe_log_invalid_packets e),
     pe_invalid_log_sample_per_minute := overlay (pc_invalid_log_sample_per_minute c) (pe_invalid_log_sample_per_minute e)\<rparr>"

definition apply_ip_rate_limit :: "proxy_ip_rate_limit_config \<Rightarrow> effective_proxy_ip_rate_limit_config \<Rightarrow> effective_proxy_ip_rate_limit_config" where
  "apply_ip_rate_limit c e = e\<lparr>
     ie_enabled := overlay (ic_enabled c) (ie_enabled e),
     ie_packets_per_second := overlay (ic_packets_per_second c) (ie_packets_per_second e),
     ie_burst := overlay (ic_burst c) (ie_burst e),
     ie_parse_errors_per_minute := overlay (ic_parse_errors_per_minute c) (ie_parse_errors_per_minute e),
     ie_block_seconds := overlay (ic_block_seconds c) (ie_block_seconds e)\<rparr>"

definition apply_sip_rate_limit :: "proxy_sip_rate_limit_config \<Rightarrow> effective_proxy_sip_rate_limit_config \<Rightarrow> effective_proxy_sip_rate_limit_config" where
  "apply_sip_rate_limit c e = e\<lparr>
     re_enabled := overlay (rc_enabled c) (re_enabled e),
     re_register_per_minute_per_aor := overlay (rc_register_per_minute_per_aor c) (re_register_per_minute_per_aor e),
     re_invite_per_minute_per_aor := overlay (rc_invite_per_minute_per_aor c) (re_invite_per_minute_per_aor e),
     re_block_seconds := overlay (rc_block_seconds c) (re_block_seconds e)\<rparr>"

definition apply_sip_policy :: "proxy_sip_policy_config \<Rightarrow> effective_proxy_sip_policy_config \<Rightarrow> effective_proxy_sip_policy_config" where
  "apply_sip_policy c e = e\<lparr>
     ye_require_registered_invite_source := overlay (yc_require_registered_invite_source c) (ye_require_registered_invite_source e),
     ye_registered_invite_source_match := overlay (yc_registered_invite_source_match c) (ye_registered_invite_source_match e)\<rparr>"

definition apply_xdp :: "proxy_xdp_security_config \<Rightarrow> effective_proxy_xdp_security_config \<Rightarrow> effective_proxy_xdp_security_config" where
  "apply_xdp c e = e\<lparr>
     xe_enabled := overlay (xc_enabled c) (xe_enabled e),
     xe_interfaces := overlay (xc_interfaces c) (xe_interfaces e),
     xe_detach_stale := overlay (xc_detach_stale c) (xe_detach_stale e),
     xe_fail_open := overlay (xc_fail_open c) (xe_fail_open e),
     xe_sync_dynamic_ban := overlay (xc_sync_dynamic_ban c) (xe_sync_dynamic_ban e),
     xe_cidr_filter := overlay (xc_cidr_filter c) (xe_cidr_filter e),
     xe_geo_filter := overlay (xc_geo_filter c) (xe_geo_filter e),
     xe_threat_intel := overlay (xc_threat_intel c) (xe_threat_intel e),
     xe_ip_rate_limit := overlay (xc_ip_rate_limit c) (xe_ip_rate_limit e),
     xe_auto_size_maps := overlay (xc_auto_size_maps c) (xe_auto_size_maps e),
     xe_max_deny_cidrs_entries := overlay (xc_max_deny_cidrs_entries c) (xe_max_deny_cidrs_entries e),
     xe_max_geo_cidrs_entries := overlay (xc_max_geo_cidrs_entries c) (xe_max_geo_cidrs_entries e)\<rparr>"

definition apply_security ::
  "proxy_security_config \<Rightarrow> effective_proxy_security_config \<Rightarrow> effective_proxy_security_config" where
  "apply_security c e0 =
     (let e = (case sc_preset c of None \<Rightarrow> e0 | Some preset \<Rightarrow> for_preset preset)
      in e\<lparr>
        se_trusted_cidrs := overlay (sc_trusted_cidrs c) (se_trusted_cidrs e),
        se_allow_cidrs := overlay (sc_allow_cidrs c) (se_allow_cidrs e),
        se_deny_cidrs := overlay (sc_deny_cidrs c) (se_deny_cidrs e),
        se_prefilter := apply_prefilter (sc_prefilter c) (se_prefilter e),
        se_geo := apply_geo (sc_geo c) (se_geo e),
        se_threat_intel := apply_threat_intel (sc_threat_intel c) (se_threat_intel e),
        se_dynamic_ban := apply_dynamic_ban (sc_dynamic_ban c) (se_dynamic_ban e),
        se_flood := apply_flood (sc_flood c) (se_flood e),
        se_ip_rate_limit := apply_ip_rate_limit (sc_ip_rate_limit c) (se_ip_rate_limit e),
        se_sip_rate_limit := apply_sip_rate_limit (sc_sip_rate_limit c) (se_sip_rate_limit e),
        se_sip_policy := apply_sip_policy (sc_sip_policy c) (se_sip_policy e),
        se_xdp := apply_xdp (sc_xdp c) (se_xdp e)\<rparr>)"

section \<open>Listeners, routes and the other sections\<close>

record proxy_listener_config =
  l_bind :: string
  l_transport :: sip_transport
  l_upstream_group :: string
  l_security :: "proxy_security_config option"

definition listener_key :: "proxy_listener_config \<Rightarrow> string" where
  "listener_key l = sip_transport_as_str (l_transport l) @ ''/'' @ l_bind l"

definition with_transport :: "proxy_listener_config \<Rightarrow> sip_transport \<Rightarrow> proxy_listener_config" where
  "with_transport l t = l\<lparr>l_transport := t\<rparr>"

definition concrete_listeners :: "proxy_listener_config \<Rightarrow> proxy_listener_config list" where
  "concrete_listeners l = map (with_transport l) (concrete_transports (l_transport l))"

datatype upstream_health_probe_config =
    ProbeOptions sip_transport string "u16 list" bool
  | ProbeTcpConnect

record upstream_health_check_config =
  hc_enabled :: bool
  hc_interval_ms :: u64
  hc_timeout_ms :: u64
  hc_success_threshold :: usize
  hc_failure_threshold :: usize
  hc_probe :: upstream_health_probe_config

definition default_probe :: upstream_health_probe_config where
  "default_probe = ProbeOptions Udp ''sip:healthcheck@localhost'' [200, 202, 405, 481] False"

definition default_health_check :: upstream_health_check_config where
  "default_health_check = \<lparr>hc_enabled = False, hc_interval_ms = 5000, hc_timeout_ms = 1000,
     hc_success_threshold = 2, hc_failure_threshold = 3, hc_probe = default_probe\<rparr>"

record upstream_group_config =
  ug_name :: string
  ug_mode :: upstream_mode
  ug_health_check :: upstream_health_check_config
  ug_servers :: "string list"

record route_config =
  rt_name :: string
  rt_listener :: "string option"
  rt_domain :: "string option"
  rt_prefix :: "string option"
  rt_upstream_group :: string

record proxy_socket_config =
  k_reuse_port :: bool
  k_workers_per_listener :: usize
  k_udp_handler_workers_per_socket :: usize
  k_udp_handler_queue_size :: usize
  k_recv_buffer_bytes :: "usize option"
  k_send_buffer_bytes :: "usize option"
  k_tcp_nodelay :: bool

definition default_socket :: proxy_socket_config where
  "default_socket = \<lparr>k_reuse_port = False, k_workers_per_listener = 1,
     k_udp_handler_workers_per_socket = 0, k_udp_handler_queue_size = 4096,
     k_recv_buffer_bytes = None, k_send_buffer_bytes = None, k_tcp_nodelay = True\<rparr>"

text \<open>\<open>parallelism\<close> is \<open>available_parallelism()\<close>, \<open>None\<close> when it is an error.\<close>

definition resolved_workers_per_listener :: "usize option \<Rightarrow> proxy_socket_config \<Rightarrow> usize" where
  "resolved_workers_per_listener parallelism k =
     (if k_workers_per_listener k = 0 then overlay parallelism 1 else k_workers_per_listener k)"

definition resolved_udp_handler_workers_per_socket ::
  "usize option \<Rightarrow> proxy_socket_config \<Rightarrow> usize" where
  "resolved_udp_handler_workers_per_socket parallelism k =
     (if k_udp_handler_workers_per_socket k = 0 then min 16 (max 1 (overlay parallelism 1))
      else k_udp_handler_workers_per_socket k)"

record proxy_affinity_config =
  af_enabled :: bool
  af_key :: proxy_affinity_key
  af_ttl_seconds :: u64

definition default_affinity :: proxy_affinity_config where
  "default_affinity = \<lparr>af_enabled = True, af_key = DialogId, af_ttl_seconds = 3600\<rparr>"

record proxy_metrics_config =
  me_enabled :: bool
  me_bind_addr :: string

record sip_config =
  sip_external_addr :: "string option"
  sip_public_addr :: "string option"
  sip_internal_addr :: "string option"
  sip_public_stun_server :: "string option"
  sip_internal_probe_addr :: string
  sip_max_message_bytes :: usize

record persistence_config =
  ps_enabled :: bool
  ps_path :: string
  ps_required :: bool
  ps_event_retention_seconds :: u64
  ps_cleanup_interval_ms :: u64

datatype ha_addon_config = AddonNoop | AddonCommand "string option" "string option" u64

record ha_config =
  ha_enabled :: bool
  ha_leader_check_interval_ms :: u64
  ha_initial_role :: ha_initial_role
  ha_heartbeat_bind :: string
  ha_peer_heartbeat_addr :: "string option"
  ha_heartbeat_interval_ms :: u64
  ha_failover_timeout_ms :: u64
  ha_replication_bind_addr :: string
  ha_peer_replication_addr :: "string option"
  ha_replication_pull_interval_ms :: u64
  ha_replication_request_timeout_ms :: u64
  ha_addon :: ha_addon_config

record ha_active_standby_config =
  as_enabled :: bool
  as_initial_role :: ha_initial_role
  as_heartbeat_bind :: string
  as_peer_heartbeat_addr :: "string option"
  as_heartbeat_interval_ms :: u64
  as_failover_timeout_ms :: u64

record ha_replication_config =
  rp_enabled :: bool
  rp_bind_addr :: string
  rp_peer_addr :: "string option"
  rp_pull_interval_ms :: u64
  rp_request_timeout_ms :: u64

definition active_standby_config :: "ha_config \<Rightarrow> ha_active_standby_config" where
  "active_standby_config h = \<lparr>as_enabled = ha_enabled h, as_initial_role = ha_initial_role h,
     as_heartbeat_bind = ha_heartbeat_bind h, as_peer_heartbeat_addr = ha_peer_heartbeat_addr h,
     as_heartbeat_interval_ms = ha_heartbeat_interval_ms h,
     as_failover_timeout_ms = ha_failover_timeout_ms h\<rparr>"

definition replication_config :: "ha_config \<Rightarrow> ha_replication_config" where
  "replication_config h = \<lparr>rp_enabled = ha_enabled h, rp_bind_addr = ha_replication_bind_addr h,
     rp_peer_addr = ha_peer_replication_addr h,
     rp_pull_interval_ms = ha_replication_pull_interval_ms h,
     rp_request_timeout_ms = ha_replication_request_timeout_ms h\<rparr>"

definition default_ha :: ha_config where
  "default_ha = \<lparr>ha_enabled = False, ha_leader_check_interval_ms = 1000,
     ha_initial_role = InitialStandby, ha_heartbeat_bind = ''127.0.0.1:7900'',
     ha_peer_heartbeat_addr = None, ha_heartbeat_interval_ms = 1000,
     ha_failover_timeout_ms = 5000, ha_replication_bind_addr = ''127.0.0.1:7901'',
     ha_peer_replication_addr = None, ha_replication_pull_interval_ms = 10000,
     ha_replication_request_timeout_ms = 2000, ha_addon = AddonNoop\<rparr>"

definition default_sip :: sip_config where
  "default_sip = \<lparr>sip_external_addr = None, sip_public_addr = None, sip_internal_addr = None,
     sip_public_stun_server = None, sip_internal_probe_addr = ''8.8.8.8:53'',
     sip_max_message_bytes = 65535\<rparr>"

definition default_persistence :: persistence_config where
  "default_persistence = \<lparr>ps_enabled = False, ps_path = ''/var/lib/sigproxy-rs/ha/state.db'',
     ps_required = False, ps_event_retention_seconds = 3600, ps_cleanup_interval_ms = 60000\<rparr>"

definition default_metrics :: proxy_metrics_config where
  "default_metrics = \<lparr>me_enabled = False, me_bind_addr = ''127.0.0.1:9100''\<rparr>"

record proxy_config =
  px_record_route :: bool
  px_register_routing :: "register_routing_mode option"
  px_rewrite_register_contact :: bool
  px_udp_client_transaction_cache_entries :: usize
  px_socket :: proxy_socket_config
  px_metrics :: proxy_metrics_config
  px_affinity :: proxy_affinity_config
  px_security :: proxy_security_config
  px_listeners :: "proxy_listener_config list"
  px_upstream_source_cidrs :: "string list"
  px_upstream_groups :: "upstream_group_config list"
  px_routes :: "route_config list"

definition effective_register_routing :: "proxy_config \<Rightarrow> register_routing_mode" where
  "effective_register_routing px = overlay (px_register_routing px)
     (if px_rewrite_register_contact px then ContactRewrite else RoutePath)"

definition effective_security_for_listener ::
  "proxy_config \<Rightarrow> proxy_listener_config \<Rightarrow> effective_proxy_security_config" where
  "effective_security_for_listener px l =
     (let e = apply_security (px_security px) default_security
      in case l_security l of None \<Rightarrow> e | Some sec \<Rightarrow> apply_security sec e)"

text \<open>\<open>Default::default()\<close> of the raw sections: nothing set.\<close>

definition empty_security :: proxy_security_config where
  "empty_security = \<lparr>sc_preset = None, sc_trusted_cidrs = None, sc_allow_cidrs = None,
     sc_deny_cidrs = None,
     sc_prefilter = \<lparr>pc_enabled = None, pc_drop_invalid_start_line = None,
       pc_drop_non_sip_methods = None, pc_log_invalid_packets = None,
       pc_invalid_log_sample_per_minute = None\<rparr>,
     sc_geo = \<lparr>gc_enabled = None, gc_provider = None, gc_provider_base_url = None,
       gc_cache_dir = None, gc_refresh_interval_seconds = None, gc_startup_refresh = None,
       gc_fail_open = None, gc_unknown_country = None, gc_request_timeout_seconds = None,
       gc_request_retries = None, gc_allow_partial = None, gc_allow = \<lparr>gl_countries = None\<rparr>,
       gc_deny = \<lparr>gl_countries = None\<rparr>\<rparr>,
     sc_threat_intel = \<lparr>tc_enabled = None, tc_cache_dir = None, tc_refresh_interval_seconds = None,
       tc_startup_refresh = None, tc_fail_open = None, tc_request_timeout_seconds = None,
       tc_request_retries = None, tc_allow_partial = None, tc_sources = None\<rparr>,
     sc_dynamic_ban = \<lparr>bc_enabled = None, bc_ban_seconds = None,
       bc_invalid_packets_per_minute = None, bc_parse_errors_per_minute = None,
       bc_sip_rate_violations_per_minute = None\<rparr>,
     sc_flood = \<lparr>fc_enabled = None, fc_udp_packets_per_second = None, fc_udp_burst = None,
       fc_tcp_packets_per_second = None, fc_tcp_burst = None, fc_tcp_syn_packets_per_second = None,
       fc_tcp_syn_burst = None, fc_tcp_ack_packets_per_second = None, fc_tcp_ack_burst = None,
       fc_icmp_packets_per_second = None, fc_icmp_burst = None, fc_block_seconds = None\<rparr>,
     sc_ip_rate_limit = \<lparr>ic_enabled = None, ic_packets_per_second = None, ic_burst = None,
       ic_parse_errors_per_minute = None, ic_block_seconds = None\<rparr>,
     sc_sip_rate_limit = \<lparr>rc_enabled = None, rc_register_per_minute_per_aor = None,
       rc_invite_per_minute_per_aor = None, rc_block_seconds = None\<rparr>,
     sc_sip_policy = \<lparr>yc_require_registered_invite_source = None,
       yc_registered_invite_source_match = None\<rparr>,
     sc_xdp = \<lparr>xc_enabled = None, xc_interfaces = None, xc_detach_stale = None,
       xc_fail_open = None, xc_sync_dynamic_ban = None, xc_cidr_filter = None,
       xc_geo_filter = None, xc_threat_intel = None, xc_ip_rate_limit = None,
       xc_auto_size_maps = None, xc_max_deny_cidrs_entries = None, xc_max_geo_cidrs_entries = None\<rparr>\<rparr>"

definition default_proxy :: proxy_config where
  "default_proxy = \<lparr>px_record_route = True, px_register_routing = None,
     px_rewrite_register_contact = False, px_udp_client_transaction_cache_entries = 65536,
     px_socket = default_socket, px_metrics = default_metrics, px_affinity = default_affinity,
     px_security = empty_security,
     px_listeners = [\<lparr>l_bind = ''0.0.0.0:5060'', l_transport = Udp,
       l_upstream_group = ''default'', l_security = None\<rparr>],
     px_upstream_source_cidrs = [],
     px_upstream_groups = [\<lparr>ug_name = ''default'', ug_mode = RoundRobin,
       ug_health_check = default_health_check, ug_servers = [''127.0.0.1:5080'']\<rparr>],
     px_routes = []\<rparr>"

record node_config =
  node_id :: u64

record config =
  c_node :: node_config
  c_sip :: sip_config
  c_proxy :: proxy_config
  c_persistence :: persistence_config
  c_ha :: ha_config

definition default_config :: config where
  "default_config = \<lparr>c_node = \<lparr>node_id = 1\<rparr>, c_sip = default_sip, c_proxy = default_proxy,
     c_persistence = default_persistence, c_ha = default_ha\<rparr>"

section \<open>Laws of the layering\<close>

text \<open>
  What a settings layer promises: applying it again changes nothing, and a later copy of a
  layer makes an earlier one redundant.
\<close>

locale layer =
  fixes app :: "'c \<Rightarrow> 'e \<Rightarrow> 'e"
  assumes idem: "app c (app c e) = app c e"
    and absorb: "app c (app d (app c e)) = app c (app d e)"
begin

lemma foldr_absorb: "app c (foldr app ds (app c e)) = app c (foldr app ds e)"
proof (induction ds arbitrary: e rule: rev_induct)
  case Nil
  then show ?case by (simp add: idem)
next
  case (snoc d ds)
  have "app c (foldr app ds (app d (app c e))) = app c (foldr app ds (app c (app d (app c e))))"
    by (simp only: snoc)
  also have "\<dots> = app c (foldr app ds (app d e))"
    by (simp only: absorb snoc)
  finally show ?case by simp
qed

end

lemma overlay_simps [simp]:
  "overlay None x = x" "overlay (Some y) x = y"
  "overlay a (overlay a x) = overlay a x"
  "overlay a (overlay b (overlay a x)) = overlay a (overlay b x)"
  by (simp_all add: overlay_def split: option.split)

lemmas apply_section_defs = apply_prefilter_def apply_geo_def apply_threat_intel_def
  apply_dynamic_ban_def apply_flood_def apply_ip_rate_limit_def apply_sip_rate_limit_def
  apply_sip_policy_def apply_xdp_def

lemma apply_sections_idem [simp]:
  "apply_prefilter pf (apply_prefilter pf p) = apply_prefilter pf p"
  "apply_geo ge (apply_geo ge g) = apply_geo ge g"
  "apply_threat_intel ti (apply_threat_intel ti t) = apply_threat_intel ti t"
  "apply_dynamic_ban db (apply_dynamic_ban db b) = apply_dynamic_ban db b"
  "apply_flood fl (apply_flood fl f) = apply_flood fl f"
  "apply_ip_rate_limit il (apply_ip_rate_limit il i) = apply_ip_rate_limit il i"
  "apply_sip_rate_limit sl (apply_sip_rate_limit sl s) = apply_sip_rate_limit sl s"
  "apply_sip_policy sp (apply_sip_policy sp y) = apply_sip_policy sp y"
  "apply_xdp xc (apply_xdp xc x) = apply_xdp xc x"
  by (simp_all add: apply_section_defs)

lemma apply_sections_absorb [simp]:
  "apply_prefilter pf (apply_prefilter pf' (apply_prefilter pf p)) = apply_prefilter pf (apply_prefilter pf' p)"
  "apply_geo ge (apply_geo ge' (apply_geo ge g)) = apply_geo ge (apply_geo ge' g)"
  "apply_threat_intel ti (apply_threat_intel ti' (apply_threat_intel ti t)) = apply_threat_intel ti (apply_threat_intel ti' t)"
  "apply_dynamic_ban db (apply_dynamic_ban db' (apply_dynamic_ban db b)) = apply_dynamic_ban db (apply_dynamic_ban db' b)"
  "apply_flood fl (apply_flood fl' (apply_flood fl f)) = apply_flood fl (apply_flood fl' f)"
  "apply_ip_rate_limit il (apply_ip_rate_limit il' (apply_ip_rate_limit il i)) = apply_ip_rate_limit il (apply_ip_rate_limit il' i)"
  "apply_sip_rate_limit sl (apply_sip_rate_limit sl' (apply_sip_rate_limit sl s)) = apply_sip_rate_limit sl (apply_sip_rate_limit sl' s)"
  "apply_sip_policy sp (apply_sip_policy sp' (apply_sip_policy sp y)) = apply_sip_policy sp (apply_sip_policy sp' y)"
  "apply_xdp xc (apply_xdp xc' (apply_xdp xc x)) = apply_xdp xc (apply_xdp xc' x)"
  by (simp_all add: apply_section_defs)

lemma apply_security_preset: "sc_preset c = Some p \<Longrightarrow> apply_security c e = apply_security c e'"
  by (simp add: apply_security_def)

interpretation security_layer: layer apply_security
proof
  fix c d e
  show "apply_security c (apply_security c e) = apply_security c e"
    by (cases "sc_preset c") (simp_all add: apply_security_def Let_def)
  show "apply_security c (apply_security d (apply_security c e)) = apply_security c (apply_security d e)"
    by (cases "sc_preset c"; cases "sc_preset d") (simp_all add: apply_security_def Let_def)
qed

end
