(* ===== verification/Config_Validate.thy ===== *)
theory Config_Validate
  imports Config
begin

text \<open>
  \<open>Config::load\<close> after the TOML parser: the expansion of environment placeholders and
  \<open>Config::validate\<close> with all its checks, in the order of the code.  Errors are values
  of \<open>config_error\<close>; a constructor says which kind of check failed and carries the
  configuration path or the names the message prints.  The SIP URI parser of
  \<open>rsipstack\<close> is the argument \<open>uri_scheme\<close>: \<open>None\<close> when the text does not parse,
  otherwise the scheme of the parsed URI.

  The main results: a validated configuration has no dangling reference, no duplicate
  listener, no upstream that is one of the proxy's own addresses, and every CIDR it holds
  is accepted by the matcher the server builds from it.
\<close>

section \<open>Errors\<close>

datatype config_error =
    MustBePositive string
  | MustNotBeEmpty string
  | MissingValue string
  | BadAddress string
  | BadCidr string string
  | BadCountry string string
  | Conflict string
  | DuplicateName string string
  | UnknownName string string
  | BadProbe string string
  | ForwardingLoop string string string string
  | UnclosedPlaceholder string
  | InvalidEnvName string
  | EnvNotSet string

section \<open>Environment placeholders\<close>

definition is_ascii_digit :: "char \<Rightarrow> bool" where
  "is_ascii_digit c \<longleftrightarrow> is_digit c"

definition is_env_name_start :: "char \<Rightarrow> bool" where
  "is_env_name_start c \<longleftrightarrow> c = CHR ''_'' \<or> is_ascii_alpha c"

definition is_env_name_continue :: "char \<Rightarrow> bool" where
  "is_env_name_continue c \<longleftrightarrow> c = CHR ''_'' \<or> is_ascii_alpha c \<or> is_ascii_digit c"

definition is_valid_env_name :: "string \<Rightarrow> bool" where
  "is_valid_env_name name =
     (case name of [] \<Rightarrow> False | c # cs \<Rightarrow> is_env_name_start c \<and> list_all is_env_name_continue cs)"

definition lookup_env_required ::
  "(string \<Rightarrow> string option) \<Rightarrow> string \<Rightarrow> config_error + string" where
  "lookup_env_required lookup name =
     (if \<not> is_valid_env_name name then Inl (InvalidEnvName name)
      else case lookup name of None \<Rightarrow> Inl (EnvNotSet name) | Some v \<Rightarrow> Inr v)"

text \<open>\<open>split_once(":-")\<close>\<close>

fun split_default :: "string \<Rightarrow> (string \<times> string) option" where
  "split_default (c # d # s) =
     (if c = CHR '':'' \<and> d = CHR ''-'' then Some ([], s)
      else map_option (\<lambda>(a, b). (c # a, b)) (split_default (d # s)))"
| "split_default s = None"

definition resolve_env_expression ::
  "(string \<Rightarrow> string option) \<Rightarrow> string \<Rightarrow> config_error + string" where
  "resolve_env_expression lookup expression =
     (let (name, dflt) = (case split_default expression of
             None \<Rightarrow> (expression, None) | Some (name, d) \<Rightarrow> (name, Some d))
      in if \<not> is_valid_env_name name then Inl (InvalidEnvName name)
         else case lookup name of
             Some v \<Rightarrow>
               if v \<noteq> [] then Inr v
               else (case dflt of None \<Rightarrow> Inr v | Some d \<Rightarrow> Inr d)
           | None \<Rightarrow>
               (case dflt of None \<Rightarrow> lookup_env_required lookup name | Some d \<Rightarrow> Inr d))"

function expand_env_placeholders_with ::
  "(string \<Rightarrow> string option) \<Rightarrow> string \<Rightarrow> config_error + string" where
  "expand_env_placeholders_with lookup [] = Inr []"
| "expand_env_placeholders_with lookup (c # s) =
     (if c \<noteq> CHR ''$'' then bind_res (expand_env_placeholders_with lookup s) (\<lambda>t. Inr (c # t))
      else case s of
          [] \<Rightarrow> Inr [CHR ''$'']
        | d # s' \<Rightarrow>
            if d = CHR ''{'' then
              (case split_once (CHR ''}'') s' of
                 None \<Rightarrow> Inl (UnclosedPlaceholder s')
               | Some (expression, rest) \<Rightarrow>
                   bind_res (resolve_env_expression lookup expression) (\<lambda>v.
                     bind_res (expand_env_placeholders_with lookup rest) (\<lambda>t. Inr (v @ t))))
            else if is_env_name_start d then
              bind_res (lookup_env_required lookup (takeWhile is_env_name_continue s)) (\<lambda>v.
                bind_res (expand_env_placeholders_with lookup (dropWhile is_env_name_continue s))
                  (\<lambda>t. Inr (v @ t)))
            else bind_res (expand_env_placeholders_with lookup s) (\<lambda>t. Inr (CHR ''$'' # t)))"
  by pat_completeness auto
termination
proof (relation "measure (\<lambda>(lookup, s). length s)", goal_cases)
  case 1
  then show ?case by simp
next
  case (2 lookup c s)
  then show ?case by simp
next
  case (3 lookup c s d s' p expression rest v)
  then show ?case by (auto simp: split_once_Some)
next
  case (4 lookup c s d s' v)
  then show ?case
    using length_dropWhile_le [of is_env_name_continue s] by simp
next
  case (5 lookup c s d s')
  then show ?case by simp
qed

section \<open>Addresses and CIDRs\<close>

datatype host_port_error = MissingPort | MissingHost | InvalidPort
datatype cidr_check_error = CidrEmpty | CidrInvalidAddress | CidrInvalidPrefix | CidrPrefixAtMost nat

definition rsplit_once :: "char \<Rightarrow> string \<Rightarrow> (string \<times> string) option" where
  "rsplit_once d s = map_option (\<lambda>(a, b). (rev b, rev a)) (split_once d (rev s))"

definition parse_u16 :: "string \<Rightarrow> u16 option" where
  "parse_u16 s = map_option word_of_nat (parse_uint 65535 s)"

definition validate_host_port :: "string \<Rightarrow> host_port_error + unit" where
  "validate_host_port v =
     (if parse_sock v \<noteq> None then Inr ()
      else case rsplit_once (CHR '':'') v of
          None \<Rightarrow> Inl MissingPort
        | Some (host, port) \<Rightarrow>
            if trim host = [] then Inl MissingHost
            else if parse_u16 port = None then Inl InvalidPort else Inr ())"

definition split_host_port :: "string \<Rightarrow> (string \<times> string) option" where
  "split_host_port v =
     (if starts_with v ''['' then
        (case split_once (CHR '']'') v of
           None \<Rightarrow> None
         | Some (a, r) \<Rightarrow>
             (case r of [] \<Rightarrow> None
              | c # port \<Rightarrow> if c = CHR '':'' then Some (a @ '']'', port) else None))
      else if length (filter (\<lambda>c. c = CHR '':'') v) = 1 then rsplit_once (CHR '':'') v
      else None)"

definition validate_advertised_addr :: "string \<Rightarrow> host_port_error + unit" where
  "validate_advertised_addr v =
     (if trim v = [] then Inl MissingHost
      else if parse_sock v \<noteq> None then Inr ()
      else case split_host_port v of
          None \<Rightarrow> Inr ()
        | Some (host, port) \<Rightarrow>
            if trim host = [] then Inl MissingHost
            else if parse_u16 port = None then Inl InvalidPort else Inr ())"

definition validate_cidr :: "string \<Rightarrow> cidr_check_error + unit" where
  "validate_cidr v0 =
     (let v = trim v0
      in if v = [] then Inl CidrEmpty
         else case split_once (CHR ''/'') v of
             None \<Rightarrow> if parse_ip v = None then Inl CidrInvalidAddress else Inr ()
           | Some (addr, prefix) \<Rightarrow>
               (case parse_ip addr of
                  None \<Rightarrow> Inl CidrInvalidAddress
                | Some a \<Rightarrow>
                    (case parse_u8 prefix of
                       None \<Rightarrow> Inl CidrInvalidPrefix
                     | Some p \<Rightarrow>
                         if p > max_prefix a then Inl (CidrPrefixAtMost (unat (max_prefix a)))
                         else Inr ())))"

definition validate_country_code :: "string \<Rightarrow> unit + unit" where
  "validate_country_code v0 =
     (let v = trim v0 in if length v \<noteq> 2 \<or> \<not> list_all is_ascii_alpha v then Inl () else Inr ())"

section \<open>Security sections\<close>

definition set_to_zero :: "'n::len word option \<Rightarrow> bool" where
  "set_to_zero v \<longleftrightarrow> v = Some 0"

definition set_to_blank :: "string option \<Rightarrow> bool" where
  "set_to_blank v = (case v of None \<Rightarrow> False | Some s \<Rightarrow> trim s = [])"

definition check_zero :: "string \<Rightarrow> 'n::len word option \<Rightarrow> config_error + unit" where
  "check_zero path v = bail_if (set_to_zero v) (MustBePositive path)"

definition check_blank :: "string \<Rightarrow> string option \<Rightarrow> config_error + unit" where
  "check_blank path v = bail_if (set_to_blank v) (MustNotBeEmpty path)"

definition check_cidrs :: "string \<Rightarrow> string list \<Rightarrow> config_error + unit" where
  "check_cidrs path cs = for_each (\<lambda>c. with_context (\<lambda>_. BadCidr path c) (validate_cidr c)) cs"

definition check_countries :: "string \<Rightarrow> string list \<Rightarrow> config_error + unit" where
  "check_countries path cs =
     for_each (\<lambda>c. with_context (\<lambda>_. BadCountry path c) (validate_country_code c)) cs"

definition opt_list :: "'a list option \<Rightarrow> 'a list" where
  "opt_list v = (case v of None \<Rightarrow> [] | Some xs \<Rightarrow> xs)"

definition validate_xdp_security_config :: "proxy_xdp_security_config \<Rightarrow> string \<Rightarrow> config_error + unit" where
  "validate_xdp_security_config c path = seq_res
     [for_each (\<lambda>i. bail_if (trim i = []) (MustNotBeEmpty (path @ ''.interfaces''))) (opt_list (xc_interfaces c)),
      check_zero (path @ ''.max_deny_cidrs_entries'') (xc_max_deny_cidrs_entries c),
      check_zero (path @ ''.max_geo_cidrs_entries'') (xc_max_geo_cidrs_entries c)]"

definition validate_geo_security_config :: "proxy_geo_security_config \<Rightarrow> string \<Rightarrow> config_error + unit" where
  "validate_geo_security_config c path = seq_res
     [check_blank (path @ ''.provider_base_url'') (gc_provider_base_url c),
      check_blank (path @ ''.cache_dir'') (gc_cache_dir c),
      check_zero (path @ ''.refresh_interval_seconds'') (gc_refresh_interval_seconds c),
      check_zero (path @ ''.request_timeout_seconds'') (gc_request_timeout_seconds c),
      check_zero (path @ ''.request_retries'') (gc_request_retries c),
      check_countries (path @ ''.allow.countries'') (opt_list (gl_countries (gc_allow c))),
      check_countries (path @ ''.deny.countries'') (opt_list (gl_countries (gc_deny c)))]"

definition validate_threat_source ::
  "string \<Rightarrow> proxy_threat_intel_source_config \<Rightarrow> config_error + unit" where
  "validate_threat_source path s = seq_res
     [bail_if (trim (ts_name s) = []) (MustNotBeEmpty (path @ ''.name'')),
      bail_if (trim (ts_url s) = []) (MustNotBeEmpty (path @ ''.url'')),
      check_zero (path @ ''.min_score'') (ts_min_score s)]"

definition validate_threat_intel_security_config ::
  "proxy_threat_intel_security_config \<Rightarrow> string \<Rightarrow> config_error + unit" where
  "validate_threat_intel_security_config c path = seq_res
     [check_blank (path @ ''.cache_dir'') (tc_cache_dir c),
      check_zero (path @ ''.refresh_interval_seconds'') (tc_refresh_interval_seconds c),
      check_zero (path @ ''.request_timeout_seconds'') (tc_request_timeout_seconds c),
      check_zero (path @ ''.request_retries'') (tc_request_retries c),
      for_each (\<lambda>(i, s). validate_threat_source (path @ ''.sources['' @ dec_str i @ '']'') s)
        (enumerate 0 (opt_list (tc_sources c)))]"

definition validate_dynamic_ban_config :: "proxy_dynamic_ban_config \<Rightarrow> string \<Rightarrow> config_error + unit" where
  "validate_dynamic_ban_config c path = seq_res
     [check_zero (path @ ''.ban_seconds'') (bc_ban_seconds c),
      check_zero (path @ ''.invalid_packets_per_minute'') (bc_invalid_packets_per_minute c),
      check_zero (path @ ''.parse_errors_per_minute'') (bc_parse_errors_per_minute c),
      check_zero (path @ ''.sip_rate_violations_per_minute'') (bc_sip_rate_violations_per_minute c)]"

definition validate_flood_security_config :: "proxy_flood_security_config \<Rightarrow> string \<Rightarrow> config_error + unit" where
  "validate_flood_security_config c path = for_each (\<lambda>(field, v). check_zero (path @ ''.'' @ field) v)
     [(''udp_packets_per_second'', fc_udp_packets_per_second c), (''udp_burst'', fc_udp_burst c),
      (''tcp_packets_per_second'', fc_tcp_packets_per_second c), (''tcp_burst'', fc_tcp_burst c),
      (''tcp_syn_packets_per_second'', fc_tcp_syn_packets_per_second c),
      (''tcp_syn_burst'', fc_tcp_syn_burst c),
      (''tcp_ack_packets_per_second'', fc_tcp_ack_packets_per_second c),
      (''tcp_ack_burst'', fc_tcp_ack_burst c),
      (''icmp_packets_per_second'', fc_icmp_packets_per_second c), (''icmp_burst'', fc_icmp_burst c),
      (''block_seconds'', fc_block_seconds c)]"

definition validate_security_config :: "proxy_security_config \<Rightarrow> string \<Rightarrow> config_error + unit" where
  "validate_security_config c path = seq_res
     [check_cidrs (path @ ''.trusted_cidrs'') (opt_list (sc_trusted_cidrs c)),
      check_cidrs (path @ ''.allow_cidrs'') (opt_list (sc_allow_cidrs c)),
      check_cidrs (path @ ''.deny_cidrs'') (opt_list (sc_deny_cidrs c)),
      check_zero (path @ ''.prefilter.invalid_log_sample_per_minute'')
        (pc_invalid_log_sample_per_minute (sc_prefilter c)),
      validate_geo_security_config (sc_geo c) (path @ ''.geo''),
      validate_threat_intel_security_config (sc_threat_intel c) (path @ ''.threat_intel''),
      validate_dynamic_ban_config (sc_dynamic_ban c) (path @ ''.dynamic_ban''),
      validate_flood_security_config (sc_flood c) (path @ ''.flood''),
      validate_xdp_security_config (sc_xdp c) (path @ ''.xdp''),
      check_zero (path @ ''.ip_rate_limit.packets_per_second'') (ic_packets_per_second (sc_ip_rate_limit c)),
      check_zero (path @ ''.ip_rate_limit.burst'') (ic_burst (sc_ip_rate_limit c)),
      check_zero (path @ ''.ip_rate_limit.parse_errors_per_minute'')
        (ic_parse_errors_per_minute (sc_ip_rate_limit c)),
      check_zero (path @ ''.sip_rate_limit.register_per_minute_per_aor'')
        (rc_register_per_minute_per_aor (sc_sip_rate_limit c)),
      check_zero (path @ ''.sip_rate_limit.invite_per_minute_per_aor'')
        (rc_invite_per_minute_per_aor (sc_sip_rate_limit c))]"

section \<open>Upstream targets and the proxy's own addresses\<close>

definition upstream_groups_used_by_listener ::
  "proxy_config \<Rightarrow> proxy_listener_config \<Rightarrow> proxy_listener_config \<Rightarrow> string list" where
  "upstream_groups_used_by_listener px configured l =
     remdups (l_upstream_group l # map rt_upstream_group (filter (\<lambda>r.
       case rt_listener r of None \<Rightarrow> True
       | Some rl \<Rightarrow> rl = listener_key l \<or> rl = listener_key configured) (px_routes px)))"

definition listener_port :: "proxy_listener_config \<Rightarrow> u16" where
  "listener_port l = (case parse_sock (l_bind l) of None \<Rightarrow> 5060 | Some a \<Rightarrow> sock_port a)"

definition is_bracket :: "char \<Rightarrow> bool" where
  "is_bracket c \<longleftrightarrow> c = CHR ''['' \<or> c = CHR '']''"

definition parse_ip_socket_addr :: "string \<Rightarrow> u16 \<Rightarrow> sock_addr option" where
  "parse_ip_socket_addr v0 default_port =
     (let v = trim v0
      in if v = [] then None
         else case parse_sock v of
             Some a \<Rightarrow> Some a
           | None \<Rightarrow>
               (case split_host_port v of
                  Some (host, port) \<Rightarrow>
                    Option.bind (parse_ip (trim_matches is_bracket host)) (\<lambda>ip.
                      map_option (sock_new ip) (parse_u16 port))
                | None \<Rightarrow>
                    map_option (\<lambda>ip. sock_new ip default_port)
                      (parse_ip (trim_matches is_bracket v))))"

fun is_unspecified :: "ip_addr \<Rightarrow> bool" where
  "is_unspecified (V4 a) \<longleftrightarrow> a = 0"
| "is_unspecified (V6 a) \<longleftrightarrow> a = 0"

definition proxy_self_addrs_for_listener ::
  "sip_config \<Rightarrow> proxy_listener_config \<Rightarrow> (string \<times> sock_addr) list" where
  "proxy_self_addrs_for_listener sip l =
     List.map_filter (\<lambda>(source, v).
       Option.bind v (\<lambda>v. map_option (Pair source) (parse_ip_socket_addr v (listener_port l))))
       [(''sip.external_addr'', sip_external_addr sip), (''sip.public_addr'', sip_public_addr sip),
        (''sip.internal_addr'', sip_internal_addr sip)]
     @ (case parse_sock (l_bind l) of
          None \<Rightarrow> []
        | Some bind \<Rightarrow> if is_unspecified (sock_ip bind) then [] else [(''listener.bind'', bind)])"

definition check_server_loop ::
  "(string \<times> sock_addr) list \<Rightarrow> string \<Rightarrow> string \<Rightarrow> string \<Rightarrow> config_error + unit" where
  "check_server_loop self_addrs key grp server =
     (case parse_sock server of
        None \<Rightarrow> Inr ()
      | Some a \<Rightarrow>
          (case List.find (\<lambda>(_, s). s = a) self_addrs of
             None \<Rightarrow> Inr ()
           | Some (source, _) \<Rightarrow> Inl (ForwardingLoop grp server key source)))"

definition check_group_loop ::
  "upstream_group_config list \<Rightarrow> (string \<times> sock_addr) list \<Rightarrow> string \<Rightarrow> string \<Rightarrow> config_error + unit" where
  "check_group_loop groups self_addrs key group_name =
     (case List.find (\<lambda>g. ug_name g = group_name) groups of
        None \<Rightarrow> Inr ()
      | Some g \<Rightarrow> for_each (check_server_loop self_addrs key (ug_name g)) (ug_servers g))"

definition validate_upstream_targets_do_not_loop_to_proxy :: "config \<Rightarrow> config_error + unit" where
  "validate_upstream_targets_do_not_loop_to_proxy c =
     for_each (\<lambda>configured. for_each (\<lambda>l.
         for_each (check_group_loop (px_upstream_groups (c_proxy c))
                    (proxy_self_addrs_for_listener (c_sip c) l) (listener_key l))
           (upstream_groups_used_by_listener (c_proxy c) configured l))
       (concrete_listeners configured)) (px_listeners (c_proxy c))"

section \<open>The whole configuration\<close>

datatype uri_scheme = SchemeSip | SchemeSips | SchemeOther

definition validate_probe ::
  "(string \<Rightarrow> uri_scheme option option) \<Rightarrow> string \<Rightarrow> upstream_health_probe_config \<Rightarrow> config_error + unit" where
  "validate_probe parse_uri grp probe =
     (case probe of
        ProbeTcpConnect \<Rightarrow> Inr ()
      | ProbeOptions transport uri success_codes _ \<Rightarrow> seq_res
          [bail_if (transport = TcpUdp) (BadProbe grp ''transport''),
           bail_if (parse_uri uri = None) (BadProbe grp ''uri''),
           bail_if (parse_uri uri \<noteq> Some (Some SchemeSip) \<and> parse_uri uri \<noteq> Some (Some SchemeSips))
             (BadProbe grp ''uri scheme''),
           for_each (\<lambda>code. bail_if (\<not> (100 \<le> code \<and> code \<le> 699)) (BadProbe grp ''success_codes''))
             success_codes])"

definition validate_health_check ::
  "(string \<Rightarrow> uri_scheme option option) \<Rightarrow> upstream_group_config \<Rightarrow> config_error + unit" where
  "validate_health_check parse_uri g =
     (let h = ug_health_check g in
      if hc_enabled h then seq_res
        [bail_if (hc_interval_ms h = 0) (BadProbe (ug_name g) ''interval_ms''),
         bail_if (hc_timeout_ms h = 0) (BadProbe (ug_name g) ''timeout_ms''),
         bail_if (hc_success_threshold h = 0) (BadProbe (ug_name g) ''success_threshold''),
         bail_if (hc_failure_threshold h = 0) (BadProbe (ug_name g) ''failure_threshold''),
         validate_probe parse_uri (ug_name g) (hc_probe h)]
      else Inr ())"

text \<open>The loop over the groups returns the set of their names.\<close>

fun validate_groups ::
  "(string \<Rightarrow> uri_scheme option option) \<Rightarrow> string list \<Rightarrow> upstream_group_config list
   \<Rightarrow> config_error + string list" where
  "validate_groups parse_uri names [] = Inr names"
| "validate_groups parse_uri names (g # gs) =
     bind_res (seq_res
       [bail_if (ug_name g \<in> set names) (DuplicateName ''upstream group'' (ug_name g)),
        bail_if (ug_servers g = []) (MustNotBeEmpty (ug_name g)),
        validate_health_check parse_uri g,
        for_each (\<lambda>s. with_context (\<lambda>_. BadAddress (ug_name g)) (validate_host_port s)) (ug_servers g)])
     (\<lambda>_. validate_groups parse_uri (ug_name g # names) gs)"

fun insert_listener_keys :: "string list \<Rightarrow> string list \<Rightarrow> config_error + string list" where
  "insert_listener_keys keys [] = Inr keys"
| "insert_listener_keys keys (k # ks) =
     (if k \<in> set keys then Inl (DuplicateName ''listener'' k) else insert_listener_keys (k # keys) ks)"

text \<open>The loop over the listeners keeps the concrete keys and the keys a route may name.\<close>

fun validate_listeners ::
  "string list \<Rightarrow> string list \<Rightarrow> string list \<Rightarrow> proxy_listener_config list
   \<Rightarrow> config_error + (string list \<times> string list)" where
  "validate_listeners groups keys route_keys [] = Inr (keys, route_keys)"
| "validate_listeners groups keys route_keys (l # ls) =
     bind_res (seq_res
       [bail_if (parse_sock (l_bind l) = None) (BadAddress (l_bind l)),
        bail_if (l_upstream_group l \<notin> set groups) (UnknownName (listener_key l) (l_upstream_group l)),
        (case l_security l of None \<Rightarrow> Inr ()
         | Some sec \<Rightarrow> validate_security_config sec (listener_key l @ '' security''))])
     (\<lambda>_. bind_res (insert_listener_keys keys (map listener_key (concrete_listeners l)))
       (\<lambda>keys'. validate_listeners groups keys'
          (map listener_key (concrete_listeners l) @ listener_key l # route_keys) ls))"

definition validate_routes ::
  "string list \<Rightarrow> string list \<Rightarrow> route_config list \<Rightarrow> config_error + unit" where
  "validate_routes groups route_keys routes = for_each (\<lambda>r. seq_res
     [bail_if (rt_upstream_group r \<notin> set groups) (UnknownName (rt_name r) (rt_upstream_group r)),
      (case rt_listener r of None \<Rightarrow> Inr ()
       | Some l \<Rightarrow> bail_if (l \<notin> set route_keys) (UnknownName (rt_name r) l))]) routes"

definition check_sock :: "string \<Rightarrow> string \<Rightarrow> config_error + unit" where
  "check_sock path v = bail_if (parse_sock v = None) (BadAddress path)"

definition check_required_sock :: "string \<Rightarrow> string option \<Rightarrow> config_error + unit" where
  "check_required_sock path v =
     (case v of None \<Rightarrow> Inl (MissingValue path) | Some a \<Rightarrow> check_sock path a)"

definition validate_sip :: "sip_config \<Rightarrow> config_error + unit" where
  "validate_sip sip = seq_res
     [bail_if (sip_max_message_bytes sip = 0) (MustBePositive ''sip.max_message_bytes''),
      for_each (\<lambda>(name, v). case v of None \<Rightarrow> Inr ()
          | Some a \<Rightarrow> if trim a = [] then Inr ()
                      else with_context (\<lambda>_. BadAddress name) (validate_advertised_addr a))
        [(''sip.external_addr'', sip_external_addr sip), (''sip.public_addr'', sip_public_addr sip),
         (''sip.internal_addr'', sip_internal_addr sip)],
      (case sip_public_stun_server sip of None \<Rightarrow> Inr ()
       | Some a \<Rightarrow> if trim a = [] then Inr ()
                   else with_context (\<lambda>_. BadAddress ''sip.public_stun_server'') (validate_host_port a)),
      (if trim (sip_internal_probe_addr sip) = [] then Inr ()
       else with_context (\<lambda>_. BadAddress ''sip.internal_probe_addr'')
              (validate_host_port (sip_internal_probe_addr sip)))]"

definition validate_proxy_basics :: "proxy_config \<Rightarrow> config_error + unit" where
  "validate_proxy_basics px = (let k = px_socket px in seq_res
     [bail_if (px_listeners px = []) (MustNotBeEmpty ''proxy.listeners''),
      bail_if (px_upstream_groups px = []) (MustNotBeEmpty ''proxy.upstream_groups''),
      bail_if (px_udp_client_transaction_cache_entries px = 0)
        (MustBePositive ''proxy.udp_client_transaction_cache_entries''),
      bail_if (k_workers_per_listener k = 0 \<and> \<not> k_reuse_port k) (Conflict ''proxy.socket.reuse_port auto''),
      bail_if (k_workers_per_listener k > 1 \<and> \<not> k_reuse_port k) (Conflict ''proxy.socket.reuse_port''),
      check_zero ''proxy.socket.recv_buffer_bytes'' (k_recv_buffer_bytes k),
      check_zero ''proxy.socket.send_buffer_bytes'' (k_send_buffer_bytes k),
      bail_if (k_udp_handler_queue_size k = 0) (MustBePositive ''proxy.socket.udp_handler_queue_size''),
      (if me_enabled (px_metrics px) then check_sock ''proxy.metrics.bind_addr'' (me_bind_addr (px_metrics px))
       else Inr ()),
      bail_if (af_enabled (px_affinity px) \<and> af_ttl_seconds (px_affinity px) = 0)
        (MustBePositive ''proxy.affinity.ttl_seconds''),
      check_cidrs ''proxy.upstream_source_cidrs'' (px_upstream_source_cidrs px),
      validate_security_config (px_security px) ''proxy.security'',
      bail_if (px_register_routing px = Some RoutePath \<and> px_rewrite_register_contact px)
        (Conflict ''proxy.register_routing'')])"

definition validate_persistence :: "persistence_config \<Rightarrow> config_error + unit" where
  "validate_persistence p =
     (if ps_enabled p then seq_res
        [bail_if (trim (ps_path p) = []) (MustNotBeEmpty ''persistence.path''),
         bail_if (ps_cleanup_interval_ms p = 0) (MustBePositive ''persistence.cleanup_interval_ms''),
         bail_if (ps_event_retention_seconds p = 0) (MustBePositive ''persistence.event_retention_seconds'')]
      else Inr ())"

definition validate_ha :: "ha_config \<Rightarrow> config_error + unit" where
  "validate_ha h = (let a = active_standby_config h; r = replication_config h in seq_res
     [(if as_enabled a then seq_res
         [check_sock ''ha.heartbeat_bind'' (as_heartbeat_bind a),
          check_required_sock ''ha.peer_heartbeat_addr'' (as_peer_heartbeat_addr a),
          bail_if (as_heartbeat_interval_ms a = 0) (MustBePositive ''ha.heartbeat_interval_ms''),
          bail_if (as_failover_timeout_ms a \<le> as_heartbeat_interval_ms a)
            (Conflict ''ha.failover_timeout_ms'')]
       else Inr ()),
      (if rp_enabled r then seq_res
         [check_sock ''ha.replication_bind_addr'' (rp_bind_addr r),
          check_required_sock ''ha.peer_replication_addr'' (rp_peer_addr r),
          bail_if (rp_pull_interval_ms r = 0) (MustBePositive ''ha.replication_pull_interval_ms''),
          bail_if (rp_request_timeout_ms r = 0) (MustBePositive ''ha.replication_request_timeout_ms'')]
       else Inr ())])"

definition validate :: "(string \<Rightarrow> uri_scheme option option) \<Rightarrow> config \<Rightarrow> config_error + unit" where
  "validate parse_uri c = (let px = c_proxy c in
     bind_res (seq_res
       [bail_if (node_id (c_node c) = 0) (MustBePositive ''node.id''),
        validate_sip (c_sip c),
        validate_proxy_basics px])
     (\<lambda>_. bind_res (validate_groups parse_uri [] (px_upstream_groups px)) (\<lambda>groups.
       bind_res (validate_listeners groups [] [] (px_listeners px)) (\<lambda>(keys, route_keys).
         seq_res
           [validate_routes groups route_keys (px_routes px),
            validate_upstream_targets_do_not_loop_to_proxy c,
            bail_if (ha_leader_check_interval_ms (c_ha c) = 0) (MustBePositive ''ha.leader_check_interval_ms''),
            validate_persistence (c_persistence c),
            validate_ha (c_ha c)]))))"

section \<open>What validation establishes\<close>

lemma validate_cidr_iff: "validate_cidr s = Inr u \<longleftrightarrow> (\<exists>c. cidr_parse s = Inr c)"
proof (cases "split_once (CHR ''/'') (trim s)")
  case None
  then show ?thesis
    by (cases "parse_ip (trim s)") (auto simp add: validate_cidr_def cidr_parse_def Let_def)
next
  case (Some ap)
  then obtain a p where ap: "split_once (CHR ''/'') (trim s) = Some (a, p)" by (cases ap) auto
  then have "trim s \<noteq> []" by (auto simp: split_once_Some)
  with ap show ?thesis
    by (cases "parse_ip a"; cases "parse_u8 p") (simp_all add: validate_cidr_def cidr_parse_def Let_def)
qed

lemma check_cidrs_parse:
  assumes "check_cidrs path cs = Inr u"
  shows "\<exists>ms. parse_cidrs cs = Inr ms"
proof -
  have "\<forall>c \<in> set cs. \<exists>m. cidr_parse c = Inr m"
    using assms by (simp add: check_cidrs_def validate_cidr_iff)
  then obtain f where f: "\<forall>c \<in> set cs. cidr_parse c = Inr (f c)" by metis
  then have "parse_cidrs cs = Inr (map f cs)"
    by (simp add: parse_cidrs_def collect_res_Inr_iff list_all2_map2 list_all2_same)
  then show ?thesis by blast
qed

lemma validate_security_cidrs:
  assumes "validate_security_config c path = Inr u"
  shows "\<exists>ms. parse_cidrs (opt_list (sc_trusted_cidrs c)) = Inr ms"
    and "\<exists>ms. parse_cidrs (opt_list (sc_allow_cidrs c)) = Inr ms"
    and "\<exists>ms. parse_cidrs (opt_list (sc_deny_cidrs c)) = Inr ms"
  using assms by (auto simp: validate_security_config_def intro: check_cidrs_parse)

lemma validate_groups_Inr:
  "validate_groups parse_uri names gs = Inr names' \<Longrightarrow>
     set names' = set names \<union> ug_name ` set gs \<and> (distinct names \<longrightarrow> distinct (map ug_name gs)) \<and>
     set names \<inter> ug_name ` set gs = {} \<and>
     (\<forall>g \<in> set gs. ug_servers g \<noteq> [] \<and> validate_health_check parse_uri g = Inr ())"
proof (induction gs arbitrary: names)
  case Nil
  then show ?case by simp
next
  case (Cons g gs)
  then have g: "ug_name g \<notin> set names" "ug_servers g \<noteq> []" "validate_health_check parse_uri g = Inr ()"
    and rec: "validate_groups parse_uri (ug_name g # names) gs = Inr names'"
    by (auto simp: bind_res_Inr_iff)
  from Cons.IH [OF rec] g show ?case by auto
qed

lemma insert_listener_keys_Inr:
  "insert_listener_keys keys ks = Inr keys' \<Longrightarrow>
     keys' = rev ks @ keys \<and> distinct ks \<and> set ks \<inter> set keys = {}"
  by (induction ks arbitrary: keys) (fastforce split: if_splits)+

lemma validate_listeners_Inr:
  "validate_listeners groups keys rks ls = Inr (keys', rks') \<Longrightarrow>
     distinct (concat (map (\<lambda>l. map listener_key (concrete_listeners l)) ls)) \<and>
     set keys \<inter> (\<Union>l \<in> set ls. listener_key ` set (concrete_listeners l)) = {} \<and>
     set rks' = set rks \<union> (\<Union>l \<in> set ls. insert (listener_key l) (listener_key ` set (concrete_listeners l))) \<and>
     (\<forall>l \<in> set ls. l_upstream_group l \<in> set groups \<and> parse_sock (l_bind l) \<noteq> None \<and>
        (\<forall>sec. l_security l = Some sec \<longrightarrow>
           validate_security_config sec (listener_key l @ '' security'') = Inr ()))"
proof (induction ls arbitrary: keys rks)
  case Nil
  then show ?case by simp
next
  case (Cons l ls)
  let ?ks = "map listener_key (concrete_listeners l)"
  from Cons.prems obtain keys1 where l: "parse_sock (l_bind l) \<noteq> None" "l_upstream_group l \<in> set groups"
      "(case l_security l of None \<Rightarrow> Inr ()
        | Some sec \<Rightarrow> validate_security_config sec (listener_key l @ '' security'')) = Inr ()"
    and ks: "insert_listener_keys keys ?ks = Inr keys1"
    and rec: "validate_listeners groups keys1 (?ks @ listener_key l # rks) ls = Inr (keys', rks')"
    by (auto simp: bind_res_Inr_iff)
  have sec: "\<forall>sec. l_security l = Some sec \<longrightarrow>
      validate_security_config sec (listener_key l @ '' security'') = Inr ()"
    using l(3) by auto
  let ?rest = "\<Union>l \<in> set ls. listener_key ` set (concrete_listeners l)"
  have keys1: "keys1 = rev ?ks @ keys" "distinct ?ks" "set ?ks \<inter> set keys = {}"
    using insert_listener_keys_Inr [OF ks] by auto
  note IH = Cons.IH [OF rec]
  have "(set ?ks \<union> set keys) \<inter> ?rest = {}"
    using IH by (simp add: keys1(1))
  then have "set ?ks \<inter> ?rest = {}" "set keys \<inter> ?rest = {}" by blast+
  moreover have "set (concat (map (\<lambda>l. map listener_key (concrete_listeners l)) ls)) = ?rest" by simp
  ultimately have "distinct (concat (map (\<lambda>l. map listener_key (concrete_listeners l)) (l # ls)))"
    and "set keys \<inter> (\<Union>l \<in> set (l # ls). listener_key ` set (concrete_listeners l)) = {}"
    using IH keys1(2,3) by (simp_all del: set_concat add: Int_Un_distrib Int_commute)
  with IH l(1,2) sec show ?case by (simp add: Un_ac)
qed

lemma check_group_loop_Inr:
  assumes "check_group_loop groups self_addrs key (ug_name g) = Inr u" "distinct (map ug_name groups)"
    "g \<in> set groups" "s \<in> set (ug_servers g)" "parse_sock s = Some a"
  shows "a \<notin> snd ` set self_addrs"
proof -
  have "List.find (\<lambda>h. ug_name h = ug_name g) groups = Some g"
    using assms(2,3) by (induction groups) auto
  with assms have "check_server_loop self_addrs key (ug_name g) s = Inr ()"
    by (simp add: check_group_loop_def)
  then have "List.find (\<lambda>(_, s). s = a) self_addrs = None"
    using assms(5) by (auto simp: check_server_loop_def split: option.splits)
  then show ?thesis by (auto simp: find_None_iff)
qed

lemma validate_parts:
  assumes "validate parse_uri c = Inr u"
  obtains groups keys route_keys where
    "validate_proxy_basics (c_proxy c) = Inr ()"
    "validate_groups parse_uri [] (px_upstream_groups (c_proxy c)) = Inr groups"
    "validate_listeners groups [] [] (px_listeners (c_proxy c)) = Inr (keys, route_keys)"
    "validate_routes groups route_keys (px_routes (c_proxy c)) = Inr ()"
    "validate_upstream_targets_do_not_loop_to_proxy c = Inr ()"
    "validate_ha (c_ha c) = Inr ()"
  using assms by (auto simp: validate_def Let_def bind_res_Inr_iff)

section \<open>Facts about the text functions\<close>

lemma expand_literal:
  "CHR ''$'' \<notin> set a \<Longrightarrow> expand_env_placeholders_with lookup (a @ s) =
     bind_res (expand_env_placeholders_with lookup s) (\<lambda>t. Inr (a @ t))"
proof (induction a)
  case Nil
  then show ?case by (cases "expand_env_placeholders_with lookup s") simp_all
next
  case (Cons x a)
  then show ?case by (cases "expand_env_placeholders_with lookup s") auto
qed

lemma expand_placeholder:
  assumes "CHR ''}'' \<notin> set e"
  shows "expand_env_placeholders_with lookup (''${'' @ e @ ''}'' @ s) =
    bind_res (resolve_env_expression lookup e) (\<lambda>v.
      bind_res (expand_env_placeholders_with lookup s) (\<lambda>t. Inr (v @ t)))"
proof -
  have "split_once (CHR ''}'') (e @ ''}'' @ s) = Some (e, s)"
    using assms by (simp add: split_once_Some)
  then show ?thesis by simp
qed

lemma split_default_name:
  "CHR '':'' \<notin> set n \<Longrightarrow> split_default (n @ '':-'' @ d) = Some (n, d)"
proof (induction n)
  case Nil
  then show ?case by simp
next
  case (Cons c n)
  then show ?case by (cases n) auto
qed

lemma split_default_None: "CHR '':'' \<notin> set n \<Longrightarrow> split_default n = None"
  by (induction n rule: split_default.induct) auto

lemma env_name_no_colon: "is_valid_env_name n \<Longrightarrow> CHR '':'' \<notin> set n \<and> CHR ''}'' \<notin> set n"
proof -
  have "\<not> is_env_name_continue (CHR '':'')" "\<not> is_env_name_continue (CHR ''}'')"
    "\<not> is_env_name_start (CHR '':'')" "\<not> is_env_name_start (CHR ''}'')"
    by code_simp+
  then show "is_valid_env_name n \<Longrightarrow> CHR '':'' \<notin> set n \<and> CHR ''}'' \<notin> set n"
    by (auto simp: is_valid_env_name_def list_all_iff split: list.splits)
qed

lemma as_str_no_slash: "CHR ''/'' \<notin> set (sip_transport_as_str t)"
  by (cases t) auto

lemma as_str_inject [simp]: "sip_transport_as_str t = sip_transport_as_str t' \<longleftrightarrow> t = t'"
  by (cases t; cases t') auto

lemma listener_key_inject:
  "listener_key l = listener_key l' \<longleftrightarrow> l_transport l = l_transport l' \<and> l_bind l = l_bind l'"
proof
  assume "listener_key l = listener_key l'"
  then have "split_once (CHR ''/'') (listener_key l) = split_once (CHR ''/'') (listener_key l')" by simp
  moreover have "split_once (CHR ''/'') (listener_key x) =
      Some (sip_transport_as_str (l_transport x), l_bind x)" for x
    by (simp add: listener_key_def split_once_Some as_str_no_slash)
  ultimately show "l_transport l = l_transport l' \<and> l_bind l = l_bind l'" by simp
qed (simp add: listener_key_def)

section \<open>The default configuration is valid\<close>

lemma trim_probe_addr: "trim ''8.8.8.8:53'' = ''8.8.8.8:53''"
  by code_simp

lemma parse_default_bind: "parse_sock ''0.0.0.0:5060'' = Some (SockV4 0 5060)"
  and parse_default_server: "parse_sock ''127.0.0.1:5080'' = Some (SockV4 2130706433 5080)"
  by (simp_all add: net_eval cong: net_cong)

lemmas validate_section_defs = validate_security_config_def validate_geo_security_config_def
  validate_threat_intel_security_config_def validate_dynamic_ban_config_def
  validate_flood_security_config_def validate_xdp_security_config_def check_cidrs_def
  check_countries_def check_zero_def check_blank_def set_to_zero_def set_to_blank_def opt_list_def

lemma validate_empty_security: "validate_security_config empty_security path = Inr ()"
  by (simp add: validate_section_defs empty_security_def)

lemma validate_default_sip: "validate_sip default_sip = Inr ()"
  by (simp add: validate_sip_def default_sip_def trim_probe_addr validate_host_port_def net_eval
      cong: net_cong)

lemma validate_default_proxy_basics: "validate_proxy_basics default_proxy = Inr ()"
  by (simp add: validate_proxy_basics_def default_proxy_def default_socket_def default_metrics_def
      default_affinity_def validate_empty_security check_cidrs_def check_zero_def set_to_zero_def)

lemma validate_default_ha: "validate_ha default_ha = Inr ()"
  by (simp add: validate_ha_def default_ha_def active_standby_config_def replication_config_def)

lemma validate_default_config: "validate parse_uri default_config = Inr ()"
proof -
  note loop_defs = validate_upstream_targets_do_not_loop_to_proxy_def
    upstream_groups_used_by_listener_def check_group_loop_def check_server_loop_def
    proxy_self_addrs_for_listener_def map_filter_def
  note defs = default_proxy_def validate_health_check_def default_health_check_def
    validate_host_port_def parse_default_bind parse_default_server concrete_listeners_def
    listener_key_def with_transport_def validate_routes_def default_sip_def
    validate_persistence_def default_persistence_def default_ha_def bail_if_def bind_res_Inr_iff
  show ?thesis
    by (simp add: validate_def default_config_def validate_default_sip validate_default_proxy_basics
        validate_default_ha bind_res_Inr_iff) (simp add: defs loop_defs)
qed

text \<open>
  The same proxy with one UDP listener on \<open>bind\<close> and one upstream server. It validates for
  \<open>bind\<close> on the loopback address and a server on another port, and also for the wildcard
  \<open>bind\<close> and a server on the listener's own port of the loopback address: the loop check only
  compares a server with the bind address when that is not the wildcard.
\<close>

definition single_config :: "string \<Rightarrow> string \<Rightarrow> config" where
  "single_config bind server = default_config\<lparr>c_proxy := default_proxy\<lparr>
     px_listeners := [\<lparr>l_bind = bind, l_transport = Udp, l_upstream_group = ''default'', l_security = None\<rparr>],
     px_upstream_groups := [\<lparr>ug_name = ''default'', ug_mode = RoundRobin,
       ug_health_check = default_health_check, ug_servers = [server]\<rparr>]\<rparr>\<rparr>"

lemma parse_local_sip: "parse_sock ''127.0.0.1:5060'' = Some (SockV4 2130706433 5060)"
  by (simp add: net_eval cong: net_cong)

lemma validate_single_config:
  assumes "parse_sock bind = Some b" "parse_sock server = Some a" "is_unspecified (sock_ip b) \<or> a \<noteq> b"
  shows "validate parse_uri (single_config bind server) = Inr ()"
proof -
  note loop_defs = validate_upstream_targets_do_not_loop_to_proxy_def
    upstream_groups_used_by_listener_def check_group_loop_def check_server_loop_def
    proxy_self_addrs_for_listener_def map_filter_def
  note defs = default_proxy_def validate_health_check_def default_health_check_def
    validate_host_port_def concrete_listeners_def
    listener_key_def with_transport_def validate_routes_def default_sip_def
    validate_persistence_def default_persistence_def default_ha_def bail_if_def bind_res_Inr_iff
  have basics: "validate_proxy_basics (c_proxy (single_config bind server)) = Inr ()"
    by (simp add: single_config_def validate_proxy_basics_def default_proxy_def default_socket_def
        default_metrics_def default_affinity_def validate_empty_security check_cidrs_def check_zero_def
        set_to_zero_def)
  show ?thesis
    using basics assms
    by (simp add: single_config_def validate_def default_config_def validate_default_sip
        validate_default_ha bind_res_Inr_iff) (auto simp: defs loop_defs)
qed

lemma wildcard_bind_hides_loop:
  "validate parse_uri (single_config ''0.0.0.0:5060'' ''127.0.0.1:5060'') = Inr ()"
  by (rule validate_single_config [OF parse_default_bind parse_local_sip]) simp

lemma map_filter_sources:
  "snd ` set (List.map_filter (\<lambda>(source, v). Option.bind v (\<lambda>v. map_option (Pair source) (f v))) xs)
     = {a. \<exists>v. Some v \<in> snd ` set xs \<and> f v = Some a}"
proof (induction xs)
  case (Cons x xs)
  obtain source v where x: "x = (source, v)" by (cases x)
  show ?case
  proof (cases "Option.bind v f")
    case None
    then show ?thesis
      using Cons by (cases v) (auto simp: x map_filter_def)
  next
    case (Some a)
    then obtain u where "v = Some u" "f u = Some a" by (cases v) auto
    then show ?thesis
      using Cons by (auto simp: x map_filter_def)
  qed
qed (simp add: map_filter_def)

lemma self_addrs_iff:
  "a \<notin> snd ` set (proxy_self_addrs_for_listener sip l) \<longleftrightarrow>
     (\<forall>v. Some v \<in> {sip_external_addr sip, sip_public_addr sip, sip_internal_addr sip} \<longrightarrow>
          parse_ip_socket_addr v (listener_port l) \<noteq> Some a)
     \<and> (\<forall>b. parse_sock (l_bind l) = Some b \<and> \<not> is_unspecified (sock_ip b) \<longrightarrow> a \<noteq> b)"
proof -
  have bind: "a \<notin> snd ` set (case parse_sock (l_bind l) of None \<Rightarrow> []
      | Some b \<Rightarrow> if is_unspecified (sock_ip b) then [] else [(''listener.bind'', b)]) \<longleftrightarrow>
    (\<forall>b. parse_sock (l_bind l) = Some b \<and> \<not> is_unspecified (sock_ip b) \<longrightarrow> a \<noteq> b)"
    by (cases "parse_sock (l_bind l)") simp_all
  show ?thesis
    unfolding proxy_self_addrs_for_listener_def set_append image_Un Un_iff de_Morgan_disj bind
      map_filter_sources by (simp only: list.set image_insert image_empty snd_conv mem_Collect_eq) blast
qed

section \<open>Properties\<close>

text \<open>
  C1: a configuration that passes \<open>validate\<close> is closed, and the loop check holds for it.
  Upstream group names are distinct and every group has a server; every listener and every
  route names an existing group; the concrete listeners (after splitting \<open>tcp_udp\<close>) have
  distinct keys; a route that names a listener names a configured or a concrete one. No server
  that is written as a literal address, in a group that a concrete listener can route to, is the
  bind address of that same listener (unless that is the wildcard) or one of the configured
  \<open>sip.external_addr\<close>, \<open>sip.public_addr\<close> and \<open>sip.internal_addr\<close> with the listener's port as
  default. The check says nothing of a wildcard listener (\<open>wildcard_bind_hides_loop\<close>), of the
  bind address of another listener, nor of a server written as a host name.
\<close>

theorem validated_config_closed_and_loop_free:
  assumes "validate parse_uri c = Inr ()"
  defines "px \<equiv> c_proxy c"
  shows "distinct (map ug_name (px_upstream_groups px))
    \<and> (\<forall>g \<in> set (px_upstream_groups px). ug_servers g \<noteq> [])
    \<and> (\<forall>l \<in> set (px_listeners px). l_upstream_group l \<in> ug_name ` set (px_upstream_groups px))
    \<and> (\<forall>r \<in> set (px_routes px). rt_upstream_group r \<in> ug_name ` set (px_upstream_groups px))
    \<and> distinct (concat (map (\<lambda>l. map listener_key (concrete_listeners l)) (px_listeners px)))
    \<and> (\<forall>r \<in> set (px_routes px). \<forall>k. rt_listener r = Some k \<longrightarrow>
         (\<exists>l \<in> set (px_listeners px). k = listener_key l \<or> k \<in> listener_key ` set (concrete_listeners l)))
    \<and> (\<forall>configured \<in> set (px_listeners px). \<forall>l \<in> set (concrete_listeners configured).
         \<forall>g \<in> set (px_upstream_groups px). ug_name g \<in> set (upstream_groups_used_by_listener px configured l) \<longrightarrow>
           (\<forall>s \<in> set (ug_servers g). \<forall>a. parse_sock s = Some a \<longrightarrow>
              (\<forall>b. parse_sock (l_bind l) = Some b \<and> \<not> is_unspecified (sock_ip b) \<longrightarrow> a \<noteq> b)
              \<and> (\<forall>v. Some v \<in> {sip_external_addr (c_sip c), sip_public_addr (c_sip c), sip_internal_addr (c_sip c)}
                   \<longrightarrow> parse_ip_socket_addr v (listener_port l) \<noteq> Some a)))"
proof -
  from assms(1) obtain groups keys rks where
    g: "validate_groups parse_uri [] (px_upstream_groups px) = Inr groups"
    and l: "validate_listeners groups [] [] (px_listeners px) = Inr (keys, rks)"
    and r: "validate_routes groups rks (px_routes px) = Inr ()"
    and loop: "validate_upstream_targets_do_not_loop_to_proxy c = Inr ()"
    unfolding px_def by (rule validate_parts)
  note G = validate_groups_Inr [OF g] and L = validate_listeners_Inr [OF l]
  have groups: "set groups = ug_name ` set (px_upstream_groups px)" using G by simp
  have D: "distinct (map ug_name (px_upstream_groups px))" using G by simp
  have R: "rt_upstream_group x \<in> set groups \<and> (\<forall>k. rt_listener x = Some k \<longrightarrow> k \<in> set rks)"
    if "x \<in> set (px_routes px)" for x
    using r that by (auto simp: validate_routes_def split: option.splits)
  have loopfree: "a \<notin> snd ` set (proxy_self_addrs_for_listener (c_sip c) l)"
    if "conf \<in> set (px_listeners px)" "l \<in> set (concrete_listeners conf)" "g \<in> set (px_upstream_groups px)"
      "ug_name g \<in> set (upstream_groups_used_by_listener px conf l)" "s \<in> set (ug_servers g)"
      "parse_sock s = Some a" for conf l g s a
  proof (rule check_group_loop_Inr [OF _ D that(3,5,6)])
    show "check_group_loop (px_upstream_groups px) (proxy_self_addrs_for_listener (c_sip c) l)
        (listener_key l) (ug_name g) = Inr ()"
      using loop that by (simp add: validate_upstream_targets_do_not_loop_to_proxy_def px_def)
  qed
  have RL: "\<exists>l \<in> set (px_listeners px). k = listener_key l \<or> k \<in> listener_key ` set (concrete_listeners l)"
    if "x \<in> set (px_routes px)" "rt_listener x = Some k" for x k
  proof -
    have "k \<in> set rks" using R [OF that(1)] that(2) by simp
    then show ?thesis using L by auto
  qed
  show ?thesis
    using G L R RL D loopfree unfolding groups self_addrs_iff by simp
qed

theorem validated_config_closed_and_loop_free_witness:
  "validate (\<lambda>_. None) (single_config ''127.0.0.1:5060'' ''127.0.0.1:5080'') = Inr ()
   \<and> distinct (map ug_name (px_upstream_groups (c_proxy (single_config ''127.0.0.1:5060'' ''127.0.0.1:5080''))))
   \<and> parse_sock ''127.0.0.1:5060'' = Some (SockV4 2130706433 5060)
   \<and> parse_sock ''127.0.0.1:5080'' \<noteq> Some (SockV4 2130706433 5060)"
proof -
  let ?c = "single_config ''127.0.0.1:5060'' ''127.0.0.1:5080''"
  let ?l = "\<lparr>l_bind = ''127.0.0.1:5060'', l_transport = Udp, l_upstream_group = ''default'', l_security = None\<rparr>"
  have v: "validate (\<lambda>_. None) ?c = Inr ()"
    by (rule validate_single_config [OF parse_local_sip parse_default_server]) simp
  note ok = validated_config_closed_and_loop_free [OF v]
  have "\<forall>a. parse_sock ''127.0.0.1:5080'' = Some a \<longrightarrow>
      (\<forall>b. parse_sock (l_bind ?l) = Some b \<and> \<not> is_unspecified (sock_ip b) \<longrightarrow> a \<noteq> b)"
    using ok by (simp add: single_config_def default_proxy_def with_transport_def concrete_listeners_def
        upstream_groups_used_by_listener_def)
  moreover have "distinct (map ug_name (px_upstream_groups (c_proxy ?c)))" using ok by blast
  ultimately show ?thesis using v parse_local_sip by auto
qed

text \<open>
  The CIDR checker of the configuration and the CIDR parser of the server agree, so a
  validated configuration never fails when the runtime builds its address matchers: the
  trusted, allowed and denied lists of every listener's effective security settings parse.
\<close>

lemma validated_security_cidrs_parse:
  assumes "validate parse_uri c = Inr ()" "l \<in> set (px_listeners (c_proxy c))"
  shows "\<exists>t a d. parse_cidrs (se_trusted_cidrs (effective_security_for_listener (c_proxy c) l)) = Inr t
    \<and> parse_cidrs (se_allow_cidrs (effective_security_for_listener (c_proxy c) l)) = Inr a
    \<and> parse_cidrs (se_deny_cidrs (effective_security_for_listener (c_proxy c) l)) = Inr d"
proof -
  let ?ok = "\<lambda>e. (\<exists>t. parse_cidrs (se_trusted_cidrs e) = Inr t) \<and>
    (\<exists>a. parse_cidrs (se_allow_cidrs e) = Inr a) \<and> (\<exists>d. parse_cidrs (se_deny_cidrs e) = Inr d)"
  have preset: "?ok (for_preset p)" for p
    by (cases p) (simp_all add: preset_security_def parse_cidrs_def)
  have step: "?ok (apply_security s e)" if "?ok e" "validate_security_config s path = Inr ()" for s e path
    using validate_security_cidrs [OF that(2)] that(1) preset
    by (cases "sc_preset s"; cases "sc_trusted_cidrs s"; cases "sc_allow_cidrs s"; cases "sc_deny_cidrs s")
      (simp_all add: apply_security_def Let_def opt_list_def)
  from assms(1) obtain groups keys rks where
    v: "validate_proxy_basics (c_proxy c) = Inr ()"
      "validate_listeners groups [] [] (px_listeners (c_proxy c)) = Inr (keys, rks)"
    by (rule validate_parts)
  then have "validate_security_config (px_security (c_proxy c)) ''proxy.security'' = Inr ()"
    by (simp add: validate_proxy_basics_def Let_def)
  moreover have "?ok default_security"
    by (simp add: default_security_def preset_security_def parse_cidrs_def)
  ultimately have "?ok (apply_security (px_security (c_proxy c)) default_security)"
    using step by blast
  moreover have "\<forall>sec. l_security l = Some sec \<longrightarrow>
      validate_security_config sec (listener_key l @ '' security'') = Inr ()"
    using validate_listeners_Inr [OF v(2)] assms(2) by blast
  ultimately have "?ok (effective_security_for_listener (c_proxy c) l)"
    using step by (cases "l_security l") (simp_all add: effective_security_for_listener_def)
  then show ?thesis by blast
qed

text \<open>
  The security settings of a listener.  Without a listener section the global section
  over the defaults applies; a listener preset makes the global section and the defaults
  irrelevant; without presets each address list is the listener's if it sets one, else the
  global one, else empty; and layering is stable: applying the listener section again, or
  having applied it before the global one, changes nothing.
\<close>

lemma listener_security_layering:
  fixes px l
  defines "base \<equiv> apply_security (px_security px) default_security"
    and "eff \<equiv> effective_security_for_listener px l"
  shows "(l_security l = None \<longrightarrow> eff = base) \<and>
    (\<forall>s. l_security l = Some s \<longrightarrow>
       (\<forall>p. sc_preset s = Some p \<longrightarrow> eff = apply_security s (for_preset p)) \<and>
       (sc_preset s = None \<longrightarrow> sc_preset (px_security px) = None \<longrightarrow>
          se_deny_cidrs eff =
            (case sc_deny_cidrs s of Some ds \<Rightarrow> ds | None \<Rightarrow> opt_list (sc_deny_cidrs (px_security px)))) \<and>
       apply_security s eff = eff \<and>
       apply_security s (apply_security (px_security px) (apply_security s default_security)) = eff)"
proof (intro conjI impI allI)
  show "l_security l = None \<Longrightarrow> eff = base"
    by (simp add: effective_security_for_listener_def base_def eff_def)
  fix s p
  assume s: "l_security l = Some s"
  then have eff: "eff = apply_security s base"
    by (simp add: effective_security_for_listener_def base_def eff_def)
  show "sc_preset s = Some p \<Longrightarrow> eff = apply_security s (for_preset p)"
    using eff apply_security_preset by metis
  show "apply_security s eff = eff"
    by (simp add: eff security_layer.idem)
  show "apply_security s (apply_security (px_security px) (apply_security s default_security)) = eff"
    by (simp add: eff base_def security_layer.absorb)
  assume "sc_preset s = None" "sc_preset (px_security px) = None"
  then show "se_deny_cidrs eff =
      (case sc_deny_cidrs s of Some ds \<Rightarrow> ds | None \<Rightarrow> opt_list (sc_deny_cidrs (px_security px)))"
    by (cases "sc_deny_cidrs s"; cases "sc_deny_cidrs (px_security px)")
      (simp_all add: eff base_def apply_security_def default_security_def preset_security_def opt_list_def)
qed

text \<open>
  Environment placeholders.  Text without a dollar sign is copied; \<open>${NAME}\<close> and
  \<open>${NAME:-default}\<close> with a valid name are replaced by the variable if it is set to a
  non-empty value, by the default if there is one, by the empty value if the variable is
  set and empty, and otherwise the expansion fails naming the variable; the rest of the
  text is expanded the same way.
\<close>

lemma env_placeholder_expansion:
  assumes "CHR ''$'' \<notin> set pre" "is_valid_env_name n" "CHR ''}'' \<notin> set d"
  shows "expand_env_placeholders_with env pre = Inr pre \<and>
    expand_env_placeholders_with env (pre @ ''${'' @ n @ '':-'' @ d @ ''}'' @ post) =
      bind_res (expand_env_placeholders_with env post) (\<lambda>t. Inr (pre @
        (case env n of Some v \<Rightarrow> (if v = [] then d else v) | None \<Rightarrow> d) @ t)) \<and>
    expand_env_placeholders_with env (pre @ ''${'' @ n @ ''}'' @ post) =
      (case env n of None \<Rightarrow> Inl (EnvNotSet n)
       | Some v \<Rightarrow> bind_res (expand_env_placeholders_with env post) (\<lambda>t. Inr (pre @ v @ t)))"
proof (intro conjI)
  have nd: "CHR ''}'' \<notin> set (n @ '':-'' @ d)" "CHR ''}'' \<notin> set n" "CHR '':'' \<notin> set n"
    using env_name_no_colon [OF assms(2)] assms(3) by auto
  show "expand_env_placeholders_with env pre = Inr pre"
    using expand_literal [OF assms(1), of env "[]"] by simp
  have "resolve_env_expression env (n @ '':-'' @ d) =
      Inr (case env n of Some v \<Rightarrow> (if v = [] then d else v) | None \<Rightarrow> d)"
    by (simp only: resolve_env_expression_def split_default_name [OF nd(3)])
      (simp add: assms(2) split: option.split)
  then show "expand_env_placeholders_with env (pre @ ''${'' @ n @ '':-'' @ d @ ''}'' @ post) =
      bind_res (expand_env_placeholders_with env post) (\<lambda>t. Inr (pre @
        (case env n of Some v \<Rightarrow> (if v = [] then d else v) | None \<Rightarrow> d) @ t))"
    using expand_placeholder [OF nd(1), of env post]
    unfolding expand_literal [OF assms(1)]
    by (cases "expand_env_placeholders_with env post") simp_all
  have "resolve_env_expression env n = (case env n of None \<Rightarrow> Inl (EnvNotSet n) | Some v \<Rightarrow> Inr v)"
    by (simp add: resolve_env_expression_def split_default_None [OF nd(3)] lookup_env_required_def
        assms(2) split: option.split)
  then show "expand_env_placeholders_with env (pre @ ''${'' @ n @ ''}'' @ post) =
      (case env n of None \<Rightarrow> Inl (EnvNotSet n)
       | Some v \<Rightarrow> bind_res (expand_env_placeholders_with env post) (\<lambda>t. Inr (pre @ v @ t)))"
    unfolding expand_literal [OF assms(1)] expand_placeholder [OF nd(2)]
    by (cases "env n"; cases "expand_env_placeholders_with env post") simp_all
qed

end
