(* ===== verification/Ranges.thy ===== *)
theory Ranges
  imports Net
begin

text \<open>
  Tables of address ranges as \<open>geo.rs\<close> and \<open>threat.rs\<close> keep them: the binary search
  of \<open>lookup_v4\<close>/\<open>lookup_v6\<close>, the overlap check, and the sweep that merges a sorted
  table.  The two modules have their own range structs; the code is the same but for what
  a range carries.  The interface \<open>range_table\<close> abstracts the struct (its bounds, the
  label two ranges must share to be merged, and the update of the upper bound); each
  module interprets it on its own record.
\<close>

section \<open>Binary search\<close>

function range_search ::
  "('r \<Rightarrow> 'w::linorder) \<Rightarrow> ('r \<Rightarrow> 'w) \<Rightarrow> 'r list \<Rightarrow> 'w \<Rightarrow> nat \<Rightarrow> nat \<Rightarrow> 'r option" where
  "range_search st en ranges ip low high =
     (if low < high
      then let mid = low + (high - low) div 2; rng = ranges ! mid
           in if ip < st rng then range_search st en ranges ip low mid
              else if ip > en rng then range_search st en ranges ip (mid + 1) high
              else Some rng
      else None)"
  by pat_completeness auto
termination
  by (relation "measure (\<lambda>(st, en, ranges, ip, low, high). high - low)") auto

declare range_search.simps [simp del]

fun non_overlapping :: "('r \<Rightarrow> 'w::linorder) \<Rightarrow> ('r \<Rightarrow> 'w) \<Rightarrow> 'r list \<Rightarrow> bool" where
  "non_overlapping st en (a # b # rs) \<longleftrightarrow> en a < st b \<and> non_overlapping st en (b # rs)"
| "non_overlapping st en rs \<longleftrightarrow> True"

text \<open>\<open>last.end.saturating_add(1)\<close>\<close>

definition saturating_succ :: "'n::len word \<Rightarrow> 'n word" where
  "saturating_succ w = (if w = - 1 then w else w + 1)"

definition merge_push ::
  "('r \<Rightarrow> 'n::len word) \<Rightarrow> ('r \<Rightarrow> 'n word) \<Rightarrow> ('r \<Rightarrow> 'n word \<Rightarrow> 'r) \<Rightarrow> ('r \<Rightarrow> 'r \<Rightarrow> bool)
   \<Rightarrow> 'r list \<Rightarrow> 'r \<Rightarrow> 'r list" where
  "merge_push st en set_en same acc rng =
     (if acc \<noteq> [] \<and> same (last acc) rng \<and> st rng \<le> saturating_succ (en (last acc))
      then butlast acc @ [set_en (last acc) (max (en (last acc)) (en rng))]
      else acc @ [rng])"

definition in_range :: "('r \<Rightarrow> 'w::linorder) \<Rightarrow> ('r \<Rightarrow> 'w) \<Rightarrow> 'w \<Rightarrow> 'r \<Rightarrow> bool" where
  "in_range st en x r \<longleftrightarrow> st r \<le> x \<and> x \<le> en r"

definition wf_ranges :: "('r \<Rightarrow> 'w::linorder) \<Rightarrow> ('r \<Rightarrow> 'w) \<Rightarrow> 'r list \<Rightarrow> bool" where
  "wf_ranges st en rs \<longleftrightarrow> (\<forall>r \<in> set rs. st r \<le> en r) \<and> non_overlapping st en rs"

section \<open>What the search and the sweep guarantee\<close>

locale range_table =
  fixes st :: "'r \<Rightarrow> 'n::len word"
    and en :: "'r \<Rightarrow> 'n word"
    and set_en :: "'r \<Rightarrow> 'n word \<Rightarrow> 'r"
    and label :: "'r \<Rightarrow> 'l"
  assumes st_set_en: "st (set_en r e) = st r"
    and en_set_en: "en (set_en r e) = e"
    and label_set_en: "label (set_en r e) = label r"
begin

abbreviation wf_table :: "'r list \<Rightarrow> bool" where
  "wf_table \<equiv> wf_ranges st en"

abbreviation covers :: "'r list \<Rightarrow> 'l \<Rightarrow> 'n word \<Rightarrow> bool" where
  "covers rs l x \<equiv> \<exists>r \<in> set rs. label r = l \<and> in_range st en x r"

abbreviation push :: "'r list \<Rightarrow> 'r \<Rightarrow> 'r list" where
  "push \<equiv> merge_push st en set_en (\<lambda>a b. label a = label b)"

lemma non_overlapping_head:
  assumes "non_overlapping st en (a # rs)" "\<forall>r \<in> set (a # rs). st r \<le> en r" "r \<in> set rs"
  shows "en a < st r"
  using assms
proof (induction rs arbitrary: a)
  case Nil
  then show ?case by simp
next
  case (Cons b rs)
  show ?case
  proof (cases "r = b")
    case True
    with Cons.prems show ?thesis by simp
  next
    case False
    with Cons have "en b < st r" by simp
    moreover have "en a < st b" "st b \<le> en b" using Cons.prems by auto
    ultimately show ?thesis by order
  qed
qed

lemma wf_table_ConsD: "wf_table (a # rs) \<Longrightarrow> wf_table rs"
  by (cases rs) (auto simp: wf_ranges_def)

lemma wf_table_sorted: "wf_table rs \<Longrightarrow> sorted_wrt (\<lambda>a b. en a < st b) rs"
proof (induction rs)
  case Nil
  then show ?case by simp
next
  case (Cons a rs)
  then show ?case
    using non_overlapping_head [of a rs] wf_table_ConsD [of a rs] by (auto simp: wf_ranges_def)
qed

lemma wf_table_nth:
  assumes "wf_table rs" "i < j" "j < length rs"
  shows "en (rs ! i) < st (rs ! j)"
  using wf_table_sorted [OF assms(1)] assms(2,3) by (rule sorted_wrt_nth_less)

text \<open>The search finds the range that holds the address, and nothing else.\<close>

lemma range_search_Some:
  "range_search st en rs x low high = Some r \<Longrightarrow> high \<le> length rs \<Longrightarrow>
     r \<in> set rs \<and> in_range st en x r"
proof (induction st en rs x low high rule: range_search.induct)
  case (1 st en rs x low high)
  let ?mid = "low + (high - low) div 2"
  show ?case
  proof (cases "low < high")
    case True
    then have mid: "?mid < high" "?mid < length rs" using "1.prems" by auto
    consider "x < st (rs ! ?mid)" | "\<not> x < st (rs ! ?mid)" "en (rs ! ?mid) < x"
      | "\<not> x < st (rs ! ?mid)" "\<not> en (rs ! ?mid) < x" by blast
    then show ?thesis
    proof cases
      case 1
      with "1.IH"(1) [OF True refl refl] "1.prems" True mid show ?thesis
        by (simp add: range_search.simps [of st en rs x low high] Let_def)
    next
      case 2
      with "1.IH"(2) [OF True refl refl] "1.prems" True show ?thesis
        by (simp add: range_search.simps [of st en rs x low high] Let_def)
    next
      case 3
      with "1.prems" True mid show ?thesis
        by (auto simp: range_search.simps [of st en rs x low high] Let_def in_range_def not_less)
    qed
  next
    case False
    with "1.prems" show ?thesis by (simp add: range_search.simps [of st en rs x low high])
  qed
qed

lemma range_search_finds:
  assumes "wf_table rs"
  shows "low \<le> i \<Longrightarrow> i < high \<Longrightarrow> high \<le> length rs \<Longrightarrow> in_range st en x (rs ! i) \<Longrightarrow>
     range_search st en rs x low high = Some (rs ! i)"
proof (induction "high - low" arbitrary: low high rule: less_induct)
  case less
  let ?mid = "low + (high - low) div 2"
  have lt: "low < high" using less.prems by simp
  have mid: "low \<le> ?mid" "?mid < high" "?mid < length rs" using lt less.prems by auto
  have wf: "st r \<le> en r" if "r \<in> set rs" for r using assms that by (simp add: wf_ranges_def)
  have x: "st (rs ! i) \<le> x" "x \<le> en (rs ! i)" using less.prems by (auto simp: in_range_def)
  consider "i < ?mid" | "i = ?mid" | "?mid < i" by linarith
  then show ?case
  proof cases
    case 1
    then have "x < st (rs ! ?mid)" using wf_table_nth [OF assms 1 mid(3)] x by order
    moreover have "range_search st en rs x low ?mid = Some (rs ! i)"
      using 1 less.prems mid by (intro less.hyps) auto
    ultimately show ?thesis
      using lt by (simp add: range_search.simps [of st en rs x low high] Let_def)
  next
    case 2
    with x have "\<not> x < st (rs ! ?mid)" "\<not> en (rs ! ?mid) < x" by auto
    with 2 lt show ?thesis
      by (simp add: range_search.simps [of st en rs x low high] Let_def)
  next
    case 3
    have "en (rs ! ?mid) < x"
      using wf_table_nth [OF assms 3] less.prems x by (meson order_less_le_trans)
    moreover have "st (rs ! ?mid) \<le> en (rs ! ?mid)" using mid by (intro wf) simp
    ultimately have "\<not> x < st (rs ! ?mid)" "en (rs ! ?mid) < x" by order+
    moreover have "range_search st en rs x (?mid + 1) high = Some (rs ! i)"
      using 3 less.prems mid by (intro less.hyps) auto
    ultimately show ?thesis
      using lt by (simp add: range_search.simps [of st en rs x low high] Let_def)
  qed
qed

lemma range_search_iff:
  assumes "wf_table rs"
  shows "range_search st en rs x 0 (length rs) = Some r \<longleftrightarrow> r \<in> set rs \<and> in_range st en x r"
proof
  assume "range_search st en rs x 0 (length rs) = Some r"
  then show "r \<in> set rs \<and> in_range st en x r" using range_search_Some by blast
next
  assume "r \<in> set rs \<and> in_range st en x r"
  then obtain i where "i < length rs" "r = rs ! i" "in_range st en x (rs ! i)"
    by (metis in_set_conv_nth)
  then show "range_search st en rs x 0 (length rs) = Some r"
    using range_search_finds [OF assms, of 0 i "length rs"] by simp
qed

text \<open>The sweep keeps the covered addresses of every label.\<close>

lemma saturating_succ_le:
  fixes e x s :: "'n word"
  assumes "s \<le> saturating_succ e" "e < x"
  shows "s \<le> x"
proof -
  have "e \<noteq> - 1" using assms(2) word_order.extremum_strict [of x] by auto
  with assms(1) have "s \<le> e + 1" by (simp add: saturating_succ_def)
  also have "e + 1 \<le> x" using assms(2) by (rule inc_le)
  finally show ?thesis .
qed

lemma le_saturating_succ: "e \<le> saturating_succ (e :: 'n word)"
proof (cases "e = - 1")
  case True
  then show ?thesis by (simp add: saturating_succ_def)
next
  case False
  then have "1 + e \<noteq> 0" by (metis add.commute eq_neg_iff_add_eq_0)
  then have "unat (1 + e) = Suc (unat e)" by (rule unatSuc)
  with False show ?thesis by (simp add: saturating_succ_def word_le_nat_alt add.commute)
qed

lemma covers_append: "covers (rs @ ss) l x \<longleftrightarrow> covers rs l x \<or> covers ss l x"
  by auto

lemma push_merge_eq:
  assumes "acc = bs @ [b]" "label b = label r" "st r \<le> saturating_succ (en b)"
  shows "push acc r = bs @ [set_en b (max (en b) (en r))]"
  using assms by (simp add: merge_push_def)

lemma push_covers:
  assumes "acc \<noteq> [] \<Longrightarrow> st (last acc) \<le> st r"
  shows "covers (push acc r) l x \<longleftrightarrow> covers acc l x \<or> covers [r] l x"
proof (cases "acc \<noteq> [] \<and> label (last acc) = label r \<and> st r \<le> saturating_succ (en (last acc))")
  case True
  then obtain bs b where acc: "acc = bs @ [b]" by (metis append_butlast_last_id)
  with True assms have b: "label b = label r" "st r \<le> saturating_succ (en b)" "st b \<le> st r"
    by auto
  have "in_range st en x (set_en b (max (en b) (en r))) \<longleftrightarrow> in_range st en x b \<or> in_range st en x r"
    using b(3) saturating_succ_le [OF b(2), of x]
    by (cases "en b < x") (auto simp: in_range_def st_set_en en_set_en le_max_iff_disj not_less)
  then show ?thesis
    unfolding acc push_merge_eq [OF refl b(1,2)] covers_append
    using b(1) by (simp add: label_set_en) blast
next
  case False
  then have "push acc r = acc @ [r]" by (auto simp: merge_push_def)
  then show ?thesis by (simp add: covers_append) blast
qed

lemma st_last_push:
  assumes "acc \<noteq> [] \<Longrightarrow> st (last acc) \<le> st r"
  shows "push acc r \<noteq> [] \<and> st (last (push acc r)) \<le> st r"
  using assms by (auto simp: merge_push_def st_set_en)

lemma foldl_push_covers:
  "sorted_wrt (\<lambda>a b. st a \<le> st b) rs \<Longrightarrow> (acc \<noteq> [] \<Longrightarrow> \<forall>r \<in> set rs. st (last acc) \<le> st r) \<Longrightarrow>
     covers (foldl push acc rs) l x \<longleftrightarrow> covers acc l x \<or> covers rs l x"
proof (induction rs arbitrary: acc)
  case Nil
  then show ?case by simp
next
  case (Cons r rs)
  have head: "acc \<noteq> [] \<Longrightarrow> st (last acc) \<le> st r" using Cons.prems by simp
  have "\<forall>q \<in> set rs. st (last (push acc r)) \<le> st q"
    using st_last_push [OF head] Cons.prems(1) by (auto intro: order_trans)
  then have "covers (foldl push (push acc r) rs) l x \<longleftrightarrow> covers (push acc r) l x \<or> covers rs l x"
    using Cons.prems(1) by (intro Cons.IH) auto
  then show ?case using push_covers [OF head] by auto
qed

lemma push_bounds:
  "\<forall>q \<in> set acc. st q \<le> en q \<Longrightarrow> st r \<le> en r \<Longrightarrow> q \<in> set (push acc r) \<Longrightarrow> st q \<le> en q"
proof -
  assume h: "\<forall>q \<in> set acc. st q \<le> en q" "st r \<le> en r" "q \<in> set (push acc r)"
  show "st q \<le> en q"
  proof (cases "acc \<noteq> [] \<and> label (last acc) = label r \<and> st r \<le> saturating_succ (en (last acc))")
    case True
    then have "q \<in> set (butlast acc) \<or> q = set_en (last acc) (max (en (last acc)) (en r))"
      using h(3) by (simp add: merge_push_def) blast
    then show ?thesis
    proof
      assume "q \<in> set (butlast acc)"
      with h(1) show ?thesis by (blast dest: in_set_butlastD)
    next
      assume "q = set_en (last acc) (max (en (last acc)) (en r))"
      moreover have "st (last acc) \<le> en (last acc)" using True h(1) by simp
      ultimately show ?thesis by (simp add: st_set_en en_set_en le_max_iff_disj)
    qed
  next
    case False
    then have "push acc r = acc @ [r]" by (auto simp: merge_push_def)
    with h show ?thesis by auto
  qed
qed

lemma foldl_push_bounds:
  "\<forall>q \<in> set acc. st q \<le> en q \<Longrightarrow> \<forall>r \<in> set rs. st r \<le> en r \<Longrightarrow>
     \<forall>q \<in> set (foldl push acc rs). st q \<le> en q"
proof (induction rs arbitrary: acc)
  case Nil
  then show ?case by simp
next
  case (Cons r rs)
  have "\<forall>q \<in> set (push acc r). st q \<le> en q"
  proof
    fix q
    assume "q \<in> set (push acc r)"
    moreover have "st r \<le> en r" using Cons.prems(2) by simp
    ultimately show "st q \<le> en q" using Cons.prems(1) push_bounds by blast
  qed
  moreover have "\<forall>r \<in> set rs. st r \<le> en r" using Cons.prems(2) by simp
  ultimately show ?case unfolding foldl_Cons by (rule Cons.IH)
qed

text \<open>When every two ranges share the label, the sweep also separates them.\<close>

lemma non_overlapping_snoc:
  "non_overlapping st en (rs @ [a, b]) \<longleftrightarrow> non_overlapping st en (rs @ [a]) \<and> en a < st b"
  by (induction rs rule: induct_list012) auto

lemma non_overlapping_set_last:
  "non_overlapping st en (bs @ [set_en b e]) \<longleftrightarrow> non_overlapping st en (bs @ [b])"
  by (cases bs rule: rev_cases) (simp_all add: non_overlapping_snoc st_set_en)

lemma push_non_overlapping:
  assumes "\<And>a b. label a = label b" "non_overlapping st en acc"
  shows "non_overlapping st en (push acc r)"
proof (cases acc rule: rev_cases)
  case Nil
  then show ?thesis by (simp add: merge_push_def)
next
  case (snoc bs b)
  show ?thesis
  proof (cases "st r \<le> saturating_succ (en b)")
    case True
    with snoc assms(2) show ?thesis
      using push_merge_eq [OF snoc assms(1) True] by (simp add: non_overlapping_set_last)
  next
    case False
    then have "en b < st r"
      using le_saturating_succ [of "en b"] by order
    with False snoc assms(2) show ?thesis
      by (simp add: merge_push_def non_overlapping_snoc)
  qed
qed

lemma foldl_push_non_overlapping:
  assumes "\<And>a b. label a = label b" "non_overlapping st en acc"
  shows "non_overlapping st en (foldl push acc rs)"
  using assms(2)
proof (induction rs arbitrary: acc)
  case Nil
  then show ?case by simp
next
  case (Cons r rs)
  have "non_overlapping st en (push acc r)"
    using assms(1) Cons.prems by (rule push_non_overlapping)
  then show ?case using Cons.IH by (simp only: foldl_Cons)
qed

end

end
