(* ===== verification/Geo.thy ===== *)
theory Geo
  imports Ranges Config "HOL-Library.Multiset"
begin

text \<open>
  \<open>geo.rs\<close>: the country table, its construction from the downloaded zone files, its
  binary cache format, the lookup, the policy decision and the prefixes handed to the XDP
  filter.  \<open>IpRangeV4\<close> and \<open>IpRangeV6\<close> are one record with the address type as
  parameter; the code is duplicated for the two widths.  Downloads (\<open>reqwest\<close>) are an
  argument: the results in the order in which the tasks finish.  The file system is an
  argument too: what reading the cache file returns.  Log output is left out.

  Shown here: the lookup finds exactly the range that holds the address; building,
  merging and validating the table keeps for every address the countries the zone files
  give it, and does not depend on the order in which downloads finish; the cache format
  round-trips in both directions; the XDP prefixes cover exactly the ranges; and the
  decision follows the policy.
\<close>

section \<open>Data\<close>

record 'w geo_range =
  g_start :: 'w
  g_end :: 'w
  g_country :: u16

record geo_snapshot =
  gs_created_at_epoch_seconds :: u64
  gs_ipv4 :: "u32 geo_range list"
  gs_ipv6 :: "u128 geo_range list"

record geo_ip_prefix =
  gp_addr :: ip_addr
  gp_prefix :: u8
  gp_country :: u16

datatype geo_error =
    GeoInvalidMagic
  | GeoUnsupportedVersion u16
  | GeoTruncated
  | GeoTrailingBytes
  | GeoOverlapV4
  | GeoOverlapV6
  | GeoInvalidCountry
  | GeoInvalidAddress
  | GeoInvalidPrefix
  | GeoPrefixTooLong nat
  | GeoTaskFailed
  | GeoFetchFailed
  | GeoNothingFetched
  | GeoNoCountrySelected
  | GeoConfigsDiffer
  | GeoWriteFailed

interpretation geo_table: range_table g_start g_end "\<lambda>r e. r\<lparr>g_end := e\<rparr>" g_country
  by unfold_locales simp_all

section \<open>Country codes\<close>

definition encode_country :: "string \<Rightarrow> geo_error + u16" where
  "encode_country v =
     (let t = trim v
      in if length t \<noteq> 2 \<or> \<not> list_all is_ascii_alpha t then Inl GeoInvalidCountry
         else Inr (from_be (map (\<lambda>c. of_char (to_ascii_upper c)) t)))"

text \<open>
  \<open>String::from_utf8_lossy\<close> of the two bytes; the codes the program decodes are two
  ASCII letters, on which it is the identity.
\<close>

definition decode_country :: "u16 \<Rightarrow> string" where
  "decode_country v = map (\<lambda>b. char_of (unat b)) (to_be 2 v)"

section \<open>Lookup\<close>

definition geo_lookup :: "'n word geo_range list \<Rightarrow> 'n::len word \<Rightarrow> u16 option" where
  "geo_lookup ranges ip =
     map_option g_country (range_search g_start g_end ranges ip 0 (length ranges))"

fun lookup_country :: "geo_snapshot \<Rightarrow> ip_addr \<Rightarrow> u16 option" where
  "lookup_country s (V4 ip) = geo_lookup (gs_ipv4 s) ip"
| "lookup_country s (V6 ip) = geo_lookup (gs_ipv6 s) ip"

section \<open>Building the table\<close>

definition range_key :: "'n word geo_range \<Rightarrow> 'n::len word \<times> 'n word \<times> u16" where
  "range_key r = (g_start r, g_end r, g_country r)"

definition normalize_ranges :: "'n word geo_range list \<Rightarrow> 'n::len word geo_range list" where
  "normalize_ranges ranges =
     foldl (merge_push g_start g_end (\<lambda>r e. r\<lparr>g_end := e\<rparr>) (\<lambda>a b. g_country a = g_country b)) []
       (sort_key range_key ranges)"

definition validate_non_overlapping :: "geo_error \<Rightarrow> 'n::len word geo_range list \<Rightarrow> geo_error + unit" where
  "validate_non_overlapping e ranges = bail_if (\<not> non_overlapping g_start g_end ranges) (e :: geo_error)"

definition parse_cidr_parts :: "string \<Rightarrow> geo_error + (ip_addr \<times> u8)" where
  "parse_cidr_parts v =
     (case split_once (CHR ''/'') v of
        Some (addr, prefix) \<Rightarrow>
          (case parse_ip addr of
             None \<Rightarrow> Inl GeoInvalidAddress
           | Some a \<Rightarrow>
               (case parse_u8 prefix of None \<Rightarrow> Inl GeoInvalidPrefix | Some p \<Rightarrow> Inr (a, p)))
      | None \<Rightarrow>
          (case parse_ip v of None \<Rightarrow> Inl GeoInvalidAddress | Some a \<Rightarrow> Inr (a, max_prefix a)))"

definition ip_range :: "'n::len word \<Rightarrow> u8 \<Rightarrow> geo_error + ('n word \<times> 'n word)" where
  "ip_range addr prefix =
     (if unat prefix > LENGTH('n) then Inl (GeoPrefixTooLong LENGTH('n))
      else if prefix = 0 then Inr (0, - 1)
      else Inr (mask_range addr (prefix_mask (unat prefix))))"

type_synonym geo_tables = "u32 geo_range list \<times> u128 geo_range list"

definition push_country_line :: "u16 \<Rightarrow> string \<Rightarrow> geo_tables \<Rightarrow> geo_error + geo_tables" where
  "push_country_line country line0 tables =
     (let line = trim line0
      in if line = [] \<or> starts_with line ''#'' then Inr tables
         else bind_res (parse_cidr_parts line) (\<lambda>(addr, prefix).
           case addr of
             V4 a \<Rightarrow> bind_res (ip_range a prefix) (\<lambda>(s, e).
               Inr (fst tables @ [\<lparr>g_start = s, g_end = e, g_country = country\<rparr>], snd tables))
           | V6 a \<Rightarrow> bind_res (ip_range a prefix) (\<lambda>(s, e).
               Inr (fst tables, snd tables @ [\<lparr>g_start = s, g_end = e, g_country = country\<rparr>]))))"

text \<open>
  The vectors are passed by mutable reference: when a line does not parse, the ranges of
  the lines before it have already been pushed.
\<close>

fun push_country_lines ::
  "u16 \<Rightarrow> string list \<Rightarrow> geo_tables \<Rightarrow> (geo_error + unit) \<times> geo_tables" where
  "push_country_lines country [] tables = (Inr (), tables)"
| "push_country_lines country (line # rest) tables =
     (case push_country_line country line tables of
        Inl e \<Rightarrow> (Inl e, tables)
      | Inr tables' \<Rightarrow> push_country_lines country rest tables')"

definition append_country_ranges ::
  "string \<Rightarrow> string \<Rightarrow> geo_tables \<Rightarrow> (geo_error + unit) \<times> geo_tables" where
  "append_country_ranges country body tables =
     (case encode_country country of
        Inl e \<Rightarrow> (Inl e, tables)
      | Inr code \<Rightarrow> push_country_lines code (str_lines body) tables)"

text \<open>What \<open>join_next\<close> delivers for one country.\<close>

datatype fetch_result = JoinFailed | FetchFailed | Fetched string string

fun collect_fetched ::
  "bool \<Rightarrow> fetch_result list \<Rightarrow> nat \<Rightarrow> geo_tables \<Rightarrow> geo_error + (nat \<times> geo_tables)" where
  "collect_fetched allow_partial [] loaded tables = Inr (loaded, tables)"
| "collect_fetched allow_partial (r # rs) loaded tables =
     (case r of
        JoinFailed \<Rightarrow> Inl GeoTaskFailed
      | FetchFailed \<Rightarrow>
          if allow_partial then collect_fetched allow_partial rs loaded tables else Inl GeoFetchFailed
      | Fetched country body \<Rightarrow>
          (case append_country_ranges country body tables of
             (Inr _, tables') \<Rightarrow> collect_fetched allow_partial rs (Suc loaded) tables'
           | (Inl e, tables') \<Rightarrow>
               if allow_partial then collect_fetched allow_partial rs loaded tables' else Inl e))"

definition build_geo_snapshot :: "u64 \<Rightarrow> geo_tables \<Rightarrow> geo_error + geo_snapshot" where
  "build_geo_snapshot now tables =
     (let v4 = normalize_ranges (fst tables); v6 = normalize_ranges (snd tables)
      in bind_res (validate_non_overlapping GeoOverlapV4 v4) (\<lambda>_.
         bind_res (validate_non_overlapping GeoOverlapV6 v6) (\<lambda>_.
           Inr \<lparr>gs_created_at_epoch_seconds = now, gs_ipv4 = v4, gs_ipv6 = v6\<rparr>)))"

definition fetch_geo_snapshot ::
  "u64 \<Rightarrow> bool \<Rightarrow> string list \<Rightarrow> fetch_result list \<Rightarrow> geo_error + geo_snapshot" where
  "fetch_geo_snapshot now allow_partial countries results =
     bind_res (collect_fetched allow_partial results 0 ([], [])) (\<lambda>(loaded, tables).
       if loaded = 0 \<and> countries \<noteq> [] then Inl GeoNothingFetched
       else build_geo_snapshot now tables)"

section \<open>Binary cache\<close>

text \<open>The reader's state is the unread suffix; \<open>take\<close> fails when too few bytes are left.\<close>

definition cache_magic :: "u8 list" where
  "cache_magic = [0x53, 0x47, 0x45, 0x4F]"

definition cache_version :: u16 where
  "cache_version = 1"

definition embedded_geo_cache :: "u8 list" where
  "embedded_geo_cache = [0x53, 0x47, 0x45, 0x4F, 0, 1, 0, 0, 0, 0, 0, 0, 0, 0, 0, 0, 0, 0, 0, 0, 0, 0]"

definition take_bytes :: "nat \<Rightarrow> u8 list \<Rightarrow> geo_error + (u8 list \<times> u8 list)" where
  "take_bytes len bs = (if len > length bs then Inl GeoTruncated else Inr (take len bs, drop len bs))"

definition read_be :: "nat \<Rightarrow> u8 list \<Rightarrow> geo_error + ('n::len word \<times> u8 list)" where
  "read_be n bs = bind_res (take_bytes n bs) (\<lambda>(b, r). Inr (from_be b, r))"

definition encode_range :: "nat \<Rightarrow> 'n::len word geo_range \<Rightarrow> u8 list" where
  "encode_range w r = to_be w (g_start r) @ to_be w (g_end r) @ to_be 2 (g_country r)"

definition read_range :: "nat \<Rightarrow> u8 list \<Rightarrow> geo_error + ('n::len word geo_range \<times> u8 list)" where
  "read_range w bs =
     bind_res (read_be w bs) (\<lambda>(s, r1).
       bind_res (read_be w r1) (\<lambda>(e, r2).
         bind_res (read_be 2 r2) (\<lambda>(c, r3).
           Inr (\<lparr>g_start = s, g_end = e, g_country = c\<rparr>, r3))))"

fun read_ranges :: "nat \<Rightarrow> nat \<Rightarrow> u8 list \<Rightarrow> geo_error + ('n::len word geo_range list \<times> u8 list)" where
  "read_ranges w 0 bs = Inr ([], bs)"
| "read_ranges w (Suc n) bs =
     bind_res (read_range w bs) (\<lambda>(x, r).
       bind_res (read_ranges w n r) (\<lambda>(xs, r'). Inr (x # xs, r')))"

definition encode_cache :: "geo_snapshot \<Rightarrow> u8 list" where
  "encode_cache s = cache_magic @ to_be 2 cache_version @ to_be 8 (gs_created_at_epoch_seconds s)
     @ to_be 4 (word_of_nat (length (gs_ipv4 s)) :: u32) @ to_be 4 (word_of_nat (length (gs_ipv6 s)) :: u32)
     @ concat (map (encode_range 4) (gs_ipv4 s)) @ concat (map (encode_range 16) (gs_ipv6 s))"

definition decode_cache :: "u8 list \<Rightarrow> geo_error + geo_snapshot" where
  "decode_cache bytes =
     bind_res (take_bytes 4 bytes) (\<lambda>(magic, r0).
       if magic \<noteq> cache_magic then Inl GeoInvalidMagic
       else bind_res (read_be 2 r0) (\<lambda>(version, r1).
         if version \<noteq> cache_version then Inl (GeoUnsupportedVersion version)
         else bind_res (read_be 8 r1) (\<lambda>(created, r2).
           bind_res (read_be 4 r2) (\<lambda>(v4_count :: u32, r3).
             bind_res (read_be 4 r3) (\<lambda>(v6_count :: u32, r4).
               bind_res (read_ranges 4 (unat v4_count) r4) (\<lambda>(ipv4, r5).
                 bind_res (read_ranges 16 (unat v6_count) r5) (\<lambda>(ipv6, r6).
                   if r6 \<noteq> [] then Inl GeoTrailingBytes
                   else bind_res (validate_non_overlapping GeoOverlapV4 ipv4) (\<lambda>_.
                     bind_res (validate_non_overlapping GeoOverlapV6 ipv6) (\<lambda>_.
                       Inr \<lparr>gs_created_at_epoch_seconds = created, gs_ipv4 = ipv4,
                            gs_ipv6 = ipv6\<rparr>)))))))))"

text \<open>\<open>fs::read\<close> of the cache file: its bytes, or \<open>None\<close> for any I/O error.\<close>

definition load_cache_or_embedded :: "u8 list option \<Rightarrow> geo_error + geo_snapshot" where
  "load_cache_or_embedded file =
     (case file of
        Some bytes \<Rightarrow>
          (case decode_cache bytes of
             Inr s \<Rightarrow> Inr s
           | Inl _ \<Rightarrow> decode_cache embedded_geo_cache)
      | None \<Rightarrow> decode_cache embedded_geo_cache)"

section \<open>Prefixes for the XDP filter\<close>

definition trailing_zeros :: "'n::len word \<Rightarrow> nat" where
  "trailing_zeros w = length (takeWhile (\<lambda>i. \<not> bit w i) [0..<LENGTH('n)])"

definition prefix_block_end :: "u128 \<Rightarrow> nat \<Rightarrow> u128" where
  "prefix_block_end start block_bits =
     (if block_bits = 128 then - 1 else start + (push_bit block_bits 1 - 1))"

definition prefix_addr :: "u128 \<Rightarrow> nat \<Rightarrow> ip_addr" where
  "prefix_addr v bits = (if bits = 32 then V4 (ucast v) else V6 v)"

text \<open>
  The inner loop, by its block size \<open>bits - prefix\<close>: it tries smaller blocks until one
  ends inside the range; a block of one address always does, because \<open>start \<le> end\<close>.
\<close>

fun fit_block :: "u128 \<Rightarrow> u128 \<Rightarrow> nat \<Rightarrow> nat" where
  "fit_block start stop block_bits =
     (if prefix_block_end start block_bits \<le> stop \<or> block_bits = 0 then block_bits
      else fit_block start stop (block_bits - 1))"

declare fit_block.simps [simp del]

definition aligned_bits :: "u128 \<Rightarrow> nat \<Rightarrow> nat" where
  "aligned_bits start bits = (if start = 0 then bits else min (trailing_zeros start) bits)"

lemma bits_clear_dvd: "(\<And>i. i < k \<Longrightarrow> \<not> bit w i) \<Longrightarrow> 2 ^ k dvd unat (w :: 'n::len word)"
proof -
  assume "\<And>i. i < k \<Longrightarrow> \<not> bit w i"
  then have "take_bit k w = 0"
    by (intro bit_word_eqI) (auto simp: bit_simps)
  then have "take_bit k (unat w) = 0"
    by (metis unsigned_take_bit_eq unsigned_0)
  then show ?thesis by (simp add: take_bit_eq_mod dvd_eq_mod_eq_0)
qed

lemma trailing_zeros_clear: "i < trailing_zeros w \<Longrightarrow> \<not> bit w i"
proof -
  assume i: "i < trailing_zeros w"
  let ?xs = "takeWhile (\<lambda>i. \<not> bit w i) [0..<LENGTH('a)]"
  have "?xs ! i \<in> set ?xs" using i by (simp add: trailing_zeros_def)
  moreover have "?xs ! i = i"
    using i takeWhile_nth [of i "\<lambda>i. \<not> bit w i" "[0..<LENGTH('a)]"]
      length_takeWhile_le [of "\<lambda>i. \<not> bit w i" "[0..<LENGTH('a)]"]
    by (simp add: trailing_zeros_def)
  ultimately show ?thesis by (metis set_takeWhileD)
qed

lemma aligned_bits_dvd: "k \<le> aligned_bits s bits \<Longrightarrow> 2 ^ k dvd unat s"
  using bits_clear_dvd [of k s] trailing_zeros_clear [of _ s]
  by (auto simp: aligned_bits_def split: if_splits)

lemma aligned_bits_le: "aligned_bits s bits \<le> bits"
  by (simp add: aligned_bits_def)

lemma fit_block_le: "fit_block s e k \<le> k"
  by (induction s e k rule: fit_block.induct) (subst fit_block.simps, auto)

lemma aligned_block_bound:
  assumes "2 ^ k dvd unat s" "k \<le> 128"
  shows "unat (s :: u128) + (2 ^ k - 1) < 2 ^ 128"
proof -
  obtain q where q: "unat s = 2 ^ k * q" using assms(1) by (auto simp: dvd_def)
  have split: "(2::nat) ^ 128 = 2 ^ k * 2 ^ (128 - k)"
    using assms(2) by (simp flip: power_add)
  have "2 ^ k * q < 2 ^ k * (2::nat) ^ (128 - k)"
    using unsigned_less [of s] unfolding q [symmetric] split [symmetric] by simp
  then have "q + 1 \<le> 2 ^ (128 - k)" by simp
  then have "2 ^ k * (q + 1) \<le> (2::nat) ^ 128"
    unfolding split by (rule mult_le_mono2)
  then have "unat s + 2 ^ k \<le> 2 ^ 128" by (simp add: q)
  moreover have "(0::nat) < 2 ^ k" by simp
  ultimately show ?thesis by linarith
qed

lemma unat_prefix_block_end:
  assumes "2 ^ k dvd unat s" "k \<le> 128"
  shows "unat (prefix_block_end s k) = unat s + (2 ^ k - 1)"
proof (cases "k = 128")
  case True
  have "unat s < 2 ^ 128" using unsigned_less [of s] by simp
  with assms(1) True have "unat s = 0" by (metis dvd_imp_le not_le gr_zeroI)
  moreover have "unat (- 1 :: u128) = 2 ^ 128 - 1" by (simp add: unsigned_minus_1_eq_mask mask_eq_exp_minus_1)
  ultimately show ?thesis using True by (simp only: prefix_block_end_def refl if_True add_0)
next
  case False
  then have k: "k < 128" using assms(2) by simp
  have "push_bit k 1 - 1 = (mask k :: u128)"
    by (simp add: mask_eq_decr_exp push_bit_eq_mult)
  moreover have "unat (mask k :: u128) = 2 ^ k - 1"
    using k by (simp add: unat_mask_eq_local)
  ultimately show ?thesis
    using False aligned_block_bound [OF assms]
    by (simp add: prefix_block_end_def unat_word_ariths(1))
qed

lemma block_end_ge:
  assumes "k \<le> aligned_bits s bits"
  shows "s \<le> prefix_block_end s k"
proof (cases "s = 0")
  case False
  then have "bit s i \<Longrightarrow> i < 128" for i by (auto dest: bit_imp_le_length)
  moreover have "\<exists>i. bit s i" using False bit_word_eqI [of s 0] by auto
  ultimately have "trailing_zeros s \<le> 127"
  proof -
    obtain i where "bit s i" using \<open>\<exists>i. bit s i\<close> by blast
    then have "\<not> i < trailing_zeros s" "i < 128"
      using trailing_zeros_clear \<open>\<And>i. bit s i \<Longrightarrow> i < 128\<close> by blast+
    then show ?thesis by simp
  qed
  with assms False have "k \<le> 128" by (simp add: aligned_bits_def)
  with aligned_bits_dvd [OF assms] show ?thesis
    unfolding word_le_nat_alt by (simp only: unat_prefix_block_end le_add1)
qed simp

function range_blocks :: "u128 \<Rightarrow> u128 \<Rightarrow> nat \<Rightarrow> (u128 \<times> nat) list" where
  "range_blocks start stop bits =
     (if start \<le> stop
      then let k = fit_block start stop (aligned_bits start bits);
               block_end = prefix_block_end start k
           in (start, k) # (if block_end = - 1 then [] else range_blocks (block_end + 1) stop bits)
      else [])"
  by pat_completeness auto
termination
proof (relation "measure (\<lambda>(start, stop, bits). 2 ^ 128 - unat start)", goal_cases)
  case 1
  show ?case by simp
next
  case (2 start stop bits k block_end)
  then have ge: "start \<le> block_end" "block_end \<noteq> - 1"
    using block_end_ge [OF fit_block_le] by auto
  then have "1 + block_end \<noteq> 0" by (metis add.commute eq_neg_iff_add_eq_0)
  then have "unat (block_end + 1) = Suc (unat block_end)" by (simp add: unatSuc add.commute)
  with ge(1) have "unat start < unat (block_end + 1)" by (simp add: word_le_nat_alt)
  moreover have "unat start < 2 ^ 128" using unsigned_less [of start] by simp
  ultimately show ?case by simp
qed

declare range_blocks.simps [simp del]

definition append_range_prefixes ::
  "u128 \<Rightarrow> u128 \<Rightarrow> nat \<Rightarrow> u16 \<Rightarrow> geo_ip_prefix list \<Rightarrow> geo_ip_prefix list" where
  "append_range_prefixes start stop bits country prefixes =
     prefixes @ map (\<lambda>(s, k). \<lparr>gp_addr = prefix_addr s bits, gp_prefix = word_of_nat (bits - k),
       gp_country = country\<rparr>) (range_blocks start stop bits)"

definition xdp_prefixes :: "geo_snapshot \<Rightarrow> geo_ip_prefix list" where
  "xdp_prefixes s =
     (let v4 = foldl (\<lambda>ps r. append_range_prefixes (ucast (g_start r)) (ucast (g_end r)) 32 (g_country r) ps)
                 [] (gs_ipv4 s)
      in foldl (\<lambda>ps r. append_range_prefixes (g_start r) (g_end r) 128 (g_country r) ps) v4 (gs_ipv6 s))"

section \<open>Policy and runtime\<close>

record geo_policy =
  gpol_enabled :: bool
  gpol_fail_open :: bool
  gpol_unknown_country_allows :: bool
  gpol_allow_countries :: "u16 list"
  gpol_deny_countries :: "u16 list"

datatype geo_decision = GeoAllow | GeoDrop string

definition encode_countries :: "string list \<Rightarrow> u16 list" where
  "encode_countries cs =
     List.map_filter (\<lambda>c. case encode_country c of Inl _ \<Rightarrow> None | Inr v \<Rightarrow> Some v) cs"

definition geo_policy_from_config :: "effective_proxy_geo_security_config \<Rightarrow> geo_policy" where
  "geo_policy_from_config c = \<lparr>gpol_enabled = ge_enabled c, gpol_fail_open = ge_fail_open c,
     gpol_unknown_country_allows = (ge_unknown_country c = UnknownAllow),
     gpol_allow_countries = encode_countries (ge_allow_countries c),
     gpol_deny_countries = encode_countries (ge_deny_countries c)\<rparr>"

definition evaluate_geo_policy :: "geo_policy \<Rightarrow> geo_snapshot option \<Rightarrow> ip_addr \<Rightarrow> geo_decision" where
  "evaluate_geo_policy policy runtime ip =
     (if \<not> gpol_enabled policy then GeoAllow
      else case runtime of
          None \<Rightarrow> if gpol_fail_open policy then GeoAllow else GeoDrop ''geo-unavailable''
        | Some snapshot \<Rightarrow>
            (case lookup_country snapshot ip of
               None \<Rightarrow> if gpol_unknown_country_allows policy then GeoAllow
                       else GeoDrop ''geo-unknown-country''
             | Some country \<Rightarrow>
                 if country \<in> set (gpol_deny_countries policy) then GeoDrop ''geo-deny-country''
                 else if gpol_allow_countries policy \<noteq> [] \<and> country \<notin> set (gpol_allow_countries policy)
                 then GeoDrop ''geo-not-allowed-country'' else GeoAllow))"

record geo_source_config =
  gsrc_provider :: proxy_geo_provider
  gsrc_provider_base_url :: string
  gsrc_cache_path :: string
  gsrc_refresh_interval :: duration
  gsrc_startup_refresh :: proxy_geo_startup_refresh
  gsrc_request_timeout :: duration
  gsrc_request_retries :: u32
  gsrc_allow_partial :: bool
  gsrc_countries :: "string list"

definition same_geo_source ::
  "effective_proxy_geo_security_config \<Rightarrow> effective_proxy_geo_security_config \<Rightarrow> bool" where
  "same_geo_source c s \<longleftrightarrow>
     ge_provider c = ge_provider s \<and> ge_provider_base_url c = ge_provider_base_url s
     \<and> ge_cache_dir c = ge_cache_dir s \<and> ge_refresh_interval_seconds c = ge_refresh_interval_seconds s
     \<and> ge_startup_refresh c = ge_startup_refresh s
     \<and> ge_request_timeout_seconds c = ge_request_timeout_seconds s
     \<and> ge_request_retries c = ge_request_retries s \<and> ge_allow_partial c = ge_allow_partial s"

text \<open>
  \<open>configs[0]\<close> panics on an empty slice; \<open>GeoRuntime::new\<close> calls it with at least one.
  \<open>PathBuf::join\<close> of the cache directory and the file name is \<open>join\<close>.
\<close>

definition geo_source_from_configs ::
  "(string \<Rightarrow> string \<Rightarrow> string) \<Rightarrow> effective_proxy_geo_security_config list
   \<Rightarrow> geo_error + geo_source_config" where
  "geo_source_from_configs join configs =
     (let source = hd configs
      in if list_ex (\<lambda>c. \<not> same_geo_source c source) (tl configs) then Inl GeoConfigsDiffer
         else Inr \<lparr>gsrc_provider = ge_provider source,
           gsrc_provider_base_url = ge_provider_base_url source,
           gsrc_cache_path = join (ge_cache_dir source) ''geo.sgeo'',
           gsrc_refresh_interval = from_secs (unat (ge_refresh_interval_seconds source)),
           gsrc_startup_refresh = ge_startup_refresh source,
           gsrc_request_timeout = from_secs (unat (ge_request_timeout_seconds source)),
           gsrc_request_retries = ge_request_retries source,
           gsrc_allow_partial = ge_allow_partial source,
           gsrc_countries = sort (remdups
             (concat (map (\<lambda>c. ge_allow_countries c @ ge_deny_countries c) configs)))\<rparr>)"

record geo_runtime =
  gr_source :: geo_source_config
  gr_snapshot :: geo_snapshot

definition geo_runtime_new ::
  "(string \<Rightarrow> string \<Rightarrow> string) \<Rightarrow> (string \<Rightarrow> u8 list option)
   \<Rightarrow> effective_proxy_security_config list \<Rightarrow> geo_error + geo_runtime option" where
  "geo_runtime_new join read_file configs =
     (let enabled = filter ge_enabled (map se_geo configs)
      in if enabled = [] then Inr None
         else bind_res (geo_source_from_configs join enabled) (\<lambda>source.
           bind_res (load_cache_or_embedded (read_file (gsrc_cache_path source))) (\<lambda>snapshot.
             Inr (Some \<lparr>gr_source = source, gr_snapshot = snapshot\<rparr>))))"

text \<open>
  One refresh: the downloads' results and whether the cache file could be replaced are
  given.  Every failure leaves the snapshot as it was; the cache file is rewritten, as
  \<open>Some bytes\<close>, before the snapshot is swapped.
\<close>

definition refresh_once ::
  "u64 \<Rightarrow> fetch_result list \<Rightarrow> bool \<Rightarrow> geo_runtime \<Rightarrow> (geo_error + unit) \<times> u8 list option \<times> geo_runtime" where
  "refresh_once now results write_ok rt =
     (if gsrc_countries (gr_source rt) = [] then (Inr (), None, rt)
      else case fetch_geo_snapshot now (gsrc_allow_partial (gr_source rt)) (gsrc_countries (gr_source rt)) results of
          Inl e \<Rightarrow> (Inl e, None, rt)
        | Inr snapshot \<Rightarrow>
            if write_ok
            then (Inr (), Some (encode_cache snapshot), rt\<lparr>gr_snapshot := snapshot\<rparr>)
            else (Inl GeoWriteFailed, None, rt))"

definition all_countries :: "string list" where
  "all_countries = [
     ''AD'', ''AE'', ''AF'', ''AG'', ''AI'', ''AL'', ''AM'', ''AO'', ''AR'', ''AS'', ''AT'', ''AU'',
     ''AW'', ''AX'', ''AZ'', ''BA'', ''BB'', ''BD'', ''BE'', ''BF'', ''BG'', ''BH'', ''BI'', ''BJ'',
     ''BM'', ''BN'', ''BO'', ''BQ'', ''BR'', ''BS'', ''BT'', ''BW'', ''BY'', ''BZ'', ''CA'', ''CD'',
     ''CF'', ''CG'', ''CH'', ''CI'', ''CK'', ''CL'', ''CM'', ''CN'', ''CO'', ''CR'', ''CU'', ''CV'',
     ''CW'', ''CY'', ''CZ'', ''DE'', ''DJ'', ''DK'', ''DM'', ''DO'', ''DZ'', ''EC'', ''EE'', ''EG'',
     ''ER'', ''ES'', ''ET'', ''FI'', ''FJ'', ''FK'', ''FM'', ''FO'', ''FR'', ''GA'', ''GB'', ''GD'',
     ''GE'', ''GF'', ''GG'', ''GH'', ''GI'', ''GL'', ''GM'', ''GN'', ''GP'', ''GQ'', ''GR'', ''GT'',
     ''GU'', ''GW'', ''GY'', ''HK'', ''HN'', ''HR'', ''HT'', ''HU'', ''ID'', ''IE'', ''IL'', ''IM'',
     ''IN'', ''IO'', ''IQ'', ''IR'', ''IS'', ''IT'', ''JE'', ''JM'', ''JO'', ''JP'', ''KE'', ''KG'',
     ''KH'', ''KI'', ''KM'', ''KN'', ''KP'', ''KR'', ''KW'', ''KY'', ''KZ'', ''LA'', ''LB'', ''LC'',
     ''LI'', ''LK'', ''LR'', ''LS'', ''LT'', ''LU'', ''LV'', ''LY'', ''MA'', ''MC'', ''MD'', ''ME'',
     ''MF'', ''MG'', ''MH'', ''MK'', ''ML'', ''MM'', ''MN'', ''MO'', ''MP'', ''MQ'', ''MR'', ''MS'',
     ''MT'', ''MU'', ''MV'', ''MW'', ''MX'', ''MY'', ''MZ'', ''NA'', ''NC'', ''NE'', ''NF'', ''NG'',
     ''NI'', ''NL'', ''NO'', ''NP'', ''NR'', ''NU'', ''NZ'', ''OM'', ''PA'', ''PE'', ''PF'', ''PG'',
     ''PH'', ''PK'', ''PL'', ''PM'', ''PR'', ''PS'', ''PT'', ''PW'', ''PY'', ''QA'', ''RE'', ''RO'',
     ''RS'', ''RU'', ''RW'', ''SA'', ''SB'', ''SC'', ''SD'', ''SE'', ''SG'', ''SI'', ''SK'', ''SL'',
     ''SM'', ''SN'', ''SO'', ''SR'', ''SS'', ''ST'', ''SV'', ''SX'', ''SY'', ''SZ'', ''TC'', ''TD'',
     ''TG'', ''TH'', ''TJ'', ''TK'', ''TL'', ''TM'', ''TN'', ''TO'', ''TR'', ''TT'', ''TV'', ''TW'',
     ''TZ'', ''UA'', ''UG'', ''US'', ''UY'', ''UZ'', ''VA'', ''VC'', ''VE'', ''VG'', ''VI'', ''VN'',
     ''VU'', ''WS'', ''YE'', ''YT'', ''ZA'', ''ZM'', ''ZW'']"

fun country_tokens :: "string list \<Rightarrow> geo_error + string list" where
  "country_tokens [] = Inr []"
| "country_tokens (t # ts) =
     (if t = [] then country_tokens ts
      else if eq_ignore_ascii_case t ''all''
      then bind_res (country_tokens ts) (\<lambda>cs. Inr (all_countries @ cs))
      else bind_res (encode_country t) (\<lambda>c.
        bind_res (country_tokens ts) (\<lambda>cs. Inr (decode_country c # cs))))"

definition expand_country_selection :: "string list \<Rightarrow> geo_error + string list" where
  "expand_country_selection values =
     bind_res (country_tokens
        (concat (map (\<lambda>v. map trim (split_on (\<lambda>c. c = CHR '','') v)) values))) (\<lambda>cs.
       let countries = sort (remdups cs)
       in if countries = [] then Inl GeoNoCountrySelected else Inr countries)"

section \<open>From zone files to the lookup\<close>

text \<open>
  The reference meaning of a zone file: which lines are well formed, and which addresses a
  line lists.
\<close>

definition ignored_line :: "string \<Rightarrow> bool" where
  "ignored_line line \<longleftrightarrow> trim line = [] \<or> starts_with (trim line) ''#''"

definition zone_block :: "string \<Rightarrow> (ip_addr \<times> u8) option" where
  "zone_block line = (case parse_cidr_parts (trim line) of
       Inr (a, p) \<Rightarrow> if p \<le> max_prefix a then Some (a, p) else None | Inl _ \<Rightarrow> None)"

definition line_ok :: "string \<Rightarrow> bool" where
  "line_ok line \<longleftrightarrow> ignored_line line \<or> zone_block line \<noteq> None"

definition line_lists :: "string \<Rightarrow> ip_addr \<Rightarrow> bool" where
  "line_lists line ip \<longleftrightarrow> \<not> ignored_line line \<and>
     (case zone_block line of None \<Rightarrow> False | Some (a, p) \<Rightarrow> in_block a (unat p) ip)"

definition zone_lists :: "string \<Rightarrow> ip_addr \<Rightarrow> bool" where
  "zone_lists body ip \<longleftrightarrow> (\<exists>line \<in> set (takeWhile line_ok (str_lines body)). line_lists line ip)"

fun in_tables :: "geo_tables \<Rightarrow> u16 \<Rightarrow> ip_addr \<Rightarrow> bool" where
  "in_tables t c (V4 x) \<longleftrightarrow> (\<exists>r \<in> set (fst t). g_country r = c \<and> in_range g_start g_end x r)"
| "in_tables t c (V6 x) \<longleftrightarrow> (\<exists>r \<in> set (snd t). g_country r = c \<and> in_range g_start g_end x r)"

definition tables_wf :: "geo_tables \<Rightarrow> bool" where
  "tables_wf t \<longleftrightarrow> (\<forall>r \<in> set (fst t). g_start r \<le> g_end r) \<and> (\<forall>r \<in> set (snd t). g_start r \<le> g_end r)"

definition append_tables :: "geo_tables \<Rightarrow> geo_tables \<Rightarrow> geo_tables" where
  "append_tables t u = (fst t @ fst u, snd t @ snd u)"

lemma in_tables_append [simp]: "in_tables (append_tables t u) c ip \<longleftrightarrow> in_tables t c ip \<or> in_tables u c ip"
  by (cases ip) (auto simp: append_tables_def)

lemma tables_wf_append [simp]: "tables_wf (append_tables t u) \<longleftrightarrow> tables_wf t \<and> tables_wf u"
  by (auto simp: tables_wf_def append_tables_def)

lemma append_tables_empty [simp]: "append_tables t ([], []) = t" "append_tables ([], []) t = t"
  by (simp_all add: append_tables_def)

lemma append_tables_assoc: "append_tables (append_tables t u) v = append_tables t (append_tables u v)"
  by (simp add: append_tables_def)

lemma in_tables_empty [simp]: "\<not> in_tables ([], []) c ip"
  by (cases ip) simp_all

lemma tables_wf_empty [simp]: "tables_wf ([], [])"
  by (simp add: tables_wf_def)

lemma ip_range_Inr:
  fixes a x :: "'n::len word"
  assumes "ip_range a p = Inr (s, e)"
  shows "s \<le> e" "unat p \<le> LENGTH('n)"
    "s \<le> x \<and> x \<le> e \<longleftrightarrow> unat a div 2 ^ (LENGTH('n) - unat p) = unat x div 2 ^ (LENGTH('n) - unat p)"
proof -
  show p: "unat p \<le> LENGTH('n)" using assms by (auto simp: ip_range_def split: if_splits)
  show "s \<le> x \<and> x \<le> e \<longleftrightarrow> unat a div 2 ^ (LENGTH('n) - unat p) = unat x div 2 ^ (LENGTH('n) - unat p)" for x
  proof (cases "p = 0")
    case True
    then have "s = 0" "e = - 1" using assms p by (auto simp: ip_range_def)
    then show ?thesis using True by (simp add: unsigned_less)
  next
    case False
    with assms p have "mask_range a (prefix_mask (unat p)) = (s, e)"
      by (auto simp: ip_range_def split: if_splits)
    from mask_range_iff [OF p this] show ?thesis by (simp add: mask_eq_iff_div [OF p])
  qed
  from this [of a] show "s \<le> e" by auto
qed

lemma ip_range_Inl: "ip_range (a :: 'n::len word) p = Inl e \<longleftrightarrow> unat p > LENGTH('n) \<and> e = GeoPrefixTooLong LENGTH('n)"
  by (auto simp: ip_range_def)

text \<open>What one line adds.\<close>

definition line_tables :: "u16 \<Rightarrow> string \<Rightarrow> geo_tables" where
  "line_tables c line = (case push_country_line c line ([], []) of Inl _ \<Rightarrow> ([], []) | Inr t \<Rightarrow> t)"

definition line_spec :: "u16 \<Rightarrow> string \<Rightarrow> geo_tables \<Rightarrow> bool" where
  "line_spec c line t =
     (if line_ok line
      then push_country_line c line t = Inr (append_tables t (line_tables c line))
        \<and> tables_wf (line_tables c line)
        \<and> (\<forall>d ip. in_tables (line_tables c line) d ip \<longleftrightarrow> d = c \<and> line_lists line ip)
      else (\<exists>e. push_country_line c line t = Inl e))"

lemma push_line_V4:
  assumes "\<not> ignored_line line" "parse_cidr_parts (trim line) = Inr (V4 w, p)"
  shows "line_spec c line t"
proof (cases "ip_range w p")
  case (Inl e)
  then have "32 < unat p" by (simp add: ip_range_Inl)
  with Inl assms show ?thesis
    by (simp add: line_spec_def push_country_line_def line_ok_def ignored_line_def zone_block_def
        max_prefix_def word_le_nat_alt)
next
  case (Inr se)
  obtain st en where se: "se = (st, en)" by (cases se)
  note r = ip_range_Inr [of w p st en, OF Inr [unfolded se]]
  have lt: "line_tables c line = ([\<lparr>g_start = st, g_end = en, g_country = c\<rparr>], [])"
    using assms Inr se by (simp add: line_tables_def push_country_line_def ignored_line_def)
  have ok: "zone_block line = Some (V4 w, p)"
    using assms(2) r(2) by (simp add: zone_block_def max_prefix_def word_le_nat_alt)
  have "in_tables (line_tables c line) d ip \<longleftrightarrow> d = c \<and> line_lists line ip" for d ip
    using r(3) assms(1) by (cases ip) (auto simp: lt line_lists_def ok in_range_def)
  then show ?thesis
    using r(1) assms Inr se
    by (simp add: line_spec_def lt line_ok_def ok push_country_line_def ignored_line_def
        append_tables_def tables_wf_def)
qed

lemma push_line_V6:
  assumes "\<not> ignored_line line" "parse_cidr_parts (trim line) = Inr (V6 w, p)"
  shows "line_spec c line t"
proof (cases "ip_range w p")
  case (Inl e)
  then have "128 < unat p" by (simp add: ip_range_Inl)
  with Inl assms show ?thesis
    by (simp add: line_spec_def push_country_line_def line_ok_def ignored_line_def zone_block_def
        max_prefix_def word_le_nat_alt)
next
  case (Inr se)
  obtain st en where se: "se = (st, en)" by (cases se)
  note r = ip_range_Inr [of w p st en, OF Inr [unfolded se]]
  have lt: "line_tables c line = ([], [\<lparr>g_start = st, g_end = en, g_country = c\<rparr>])"
    using assms Inr se by (simp add: line_tables_def push_country_line_def ignored_line_def)
  have ok: "zone_block line = Some (V6 w, p)"
    using assms(2) r(2) by (simp add: zone_block_def max_prefix_def word_le_nat_alt)
  have "in_tables (line_tables c line) d ip \<longleftrightarrow> d = c \<and> line_lists line ip" for d ip
    using r(3) assms(1) by (cases ip) (auto simp: lt line_lists_def ok in_range_def)
  then show ?thesis
    using r(1) assms Inr se
    by (simp add: line_spec_def lt line_ok_def ok push_country_line_def ignored_line_def
        append_tables_def tables_wf_def)
qed

lemma push_country_line_spec: "line_spec c line t"
proof (cases "ignored_line line")
  case True
  then show ?thesis
    by (auto simp: line_spec_def line_ok_def line_tables_def push_country_line_def ignored_line_def
        line_lists_def)
next
  case False
  show ?thesis
  proof (cases "parse_cidr_parts (trim line)")
    case (Inl e)
    with False show ?thesis
      by (simp add: line_spec_def push_country_line_def line_ok_def zone_block_def ignored_line_def)
  next
    case (Inr ap)
    then obtain a p where "parse_cidr_parts (trim line) = Inr (a, p)" by (cases ap) auto
    with False show ?thesis
      by (cases a) (auto intro: push_line_V4 push_line_V6)
  qed
qed

text \<open>What one body adds: the tables of its lines up to the first malformed one.\<close>

abbreviation lines_added :: "u16 \<Rightarrow> string list \<Rightarrow> geo_tables" where
  "lines_added c lines \<equiv> snd (push_country_lines c lines ([], []))"

abbreviation lines_result :: "u16 \<Rightarrow> string list \<Rightarrow> geo_error + unit" where
  "lines_result c lines \<equiv> fst (push_country_lines c lines ([], []))"

lemma push_country_line_Inl:
  assumes "push_country_line c l t = Inl e"
  shows "push_country_line c l u = Inl e"
  using assms by (auto simp: push_country_line_def Let_def bind_res_Inl_iff split: if_splits ip_addr.splits)

lemma push_country_lines_append:
  "push_country_lines c lines t = (lines_result c lines, append_tables t (lines_added c lines))"
proof (induction lines arbitrary: t)
  case Nil
  show ?case by simp
next
  case (Cons l lines)
  show ?case
  proof (cases "line_ok l")
    case True
    then have "push_country_line c l t' = Inr (append_tables t' (line_tables c l))" for t'
      using push_country_line_spec [of c l t'] by (simp add: line_spec_def)
    then show ?thesis
      by (simp add: Cons [of "append_tables t (line_tables c l)"] Cons [of "line_tables c l"]
          append_tables_assoc)
  next
    case False
    then obtain e where "push_country_line c l t = Inl e"
      using push_country_line_spec [of c l t] by (auto simp: line_spec_def)
    with push_country_line_Inl [OF this, of "([], [])"] show ?thesis by simp
  qed
qed

lemma lines_added_spec:
  "tables_wf (lines_added c lines) \<and> (\<forall>d ip. in_tables (lines_added c lines) d ip \<longleftrightarrow>
     d = c \<and> (\<exists>l \<in> set (takeWhile line_ok lines). line_lists l ip))"
proof (induction lines)
  case Nil
  show ?case by simp
next
  case (Cons l lines)
  show ?case
  proof (cases "line_ok l")
    case True
    with push_country_line_spec [of c l "([], [])"] Cons show ?thesis
      by (auto simp: line_spec_def push_country_lines_append [of c lines "line_tables c l"])
  next
    case False
    then obtain e where "push_country_line c l ([], []) = Inl e"
      using push_country_line_spec [of c l "([], [])"] by (auto simp: line_spec_def)
    with False show ?thesis by simp
  qed
qed

text \<open>What one download result contributes, and when it ends the whole fetch.\<close>

definition contribution :: "fetch_result \<Rightarrow> (geo_error + unit) \<times> geo_tables" where
  "contribution r = (case r of Fetched country body \<Rightarrow> append_country_ranges country body ([], [])
     | JoinFailed \<Rightarrow> (Inl GeoTaskFailed, ([], [])) | FetchFailed \<Rightarrow> (Inl GeoFetchFailed, ([], [])))"

definition tolerated :: "bool \<Rightarrow> fetch_result \<Rightarrow> bool" where
  "tolerated allow_partial r \<longleftrightarrow> r \<noteq> JoinFailed \<and> (allow_partial \<or> fst (contribution r) = Inr ())"

lemma append_country_ranges_append:
  "append_country_ranges country body t =
     (fst (append_country_ranges country body ([], [])),
      append_tables t (snd (append_country_ranges country body ([], []))))"
  by (cases "encode_country country")
    (simp_all add: append_country_ranges_def push_country_lines_append [of _ _ t])

definition added_tables :: "fetch_result list \<Rightarrow> geo_tables" where
  "added_tables rs = (concat (map (fst \<circ> snd \<circ> contribution) rs), concat (map (snd \<circ> snd \<circ> contribution) rs))"

definition loaded_count :: "fetch_result list \<Rightarrow> nat" where
  "loaded_count rs = length (filter (\<lambda>r. fst (contribution r) = Inr ()) rs)"

lemma added_tables_Cons: "added_tables (r # rs) = append_tables (snd (contribution r)) (added_tables rs)"
  by (simp add: added_tables_def append_tables_def)

lemma collect_fetched_Inr:
  "collect_fetched ap rs n t = Inr y \<longleftrightarrow> list_all (tolerated ap) rs \<and>
     y = (n + loaded_count rs, append_tables t (added_tables rs))"
proof (induction rs arbitrary: n t)
  case Nil
  show ?case by (auto simp: loaded_count_def added_tables_def append_tables_def)
next
  case (Cons r rs)
  show ?case
  proof (cases r)
    case JoinFailed
    then show ?thesis by (simp add: tolerated_def)
  next
    case FetchFailed
    then have "contribution r = (Inl GeoFetchFailed, ([], []))" by (simp add: contribution_def)
    with FetchFailed Cons show ?thesis
      by (cases ap) (simp_all add: tolerated_def loaded_count_def added_tables_Cons)
  next
    case (Fetched country body)
    then have c: "contribution r = append_country_ranges country body ([], [])"
      by (simp add: contribution_def)
    have "append_country_ranges country body t =
        (fst (contribution r), append_tables t (snd (contribution r)))"
      unfolding c by (rule append_country_ranges_append)
    with Fetched Cons show ?thesis
      by (cases ap; cases "fst (contribution r)")
        (simp_all add: tolerated_def loaded_count_def added_tables_Cons append_tables_assoc)
  qed
qed

lemma contribution_spec:
  "tables_wf (snd (contribution r)) \<and> (\<forall>c ip. in_tables (snd (contribution r)) c ip \<longleftrightarrow>
     (\<exists>country body. r = Fetched country body \<and> encode_country country = Inr c \<and> zone_lists body ip))"
proof (cases r)
  case (Fetched country body)
  then show ?thesis
    using lines_added_spec [of _ "str_lines body"]
    by (cases "encode_country country")
      (auto simp: contribution_def append_country_ranges_def zone_lists_def)
qed (auto simp: contribution_def)

lemma added_tables_spec:
  "tables_wf (added_tables rs) \<and> (\<forall>c ip. in_tables (added_tables rs) c ip \<longleftrightarrow>
     (\<exists>country body. Fetched country body \<in> set rs \<and> encode_country country = Inr c \<and> zone_lists body ip))"
proof (induction rs)
  case Nil
  show ?case by (simp add: added_tables_def)
next
  case (Cons r rs)
  then show ?case using contribution_spec [of r] by (auto simp: added_tables_Cons)
qed

text \<open>Sorting and merging keep what is covered.\<close>

lemma range_key_inject: "range_key a = range_key b \<longleftrightarrow> a = (b :: 'n::len word geo_range)"
  by (cases a; cases b) (simp add: range_key_def)

lemma sorted_by_start: "sorted_wrt (\<lambda>a b. g_start a \<le> g_start b) (sort_key range_key rs)"
proof -
  have "sorted (map range_key (sort_key range_key rs))" by simp
  then have "sorted_wrt (\<lambda>a b. range_key a \<le> range_key b) (sort_key range_key rs)"
    by (simp add: sorted_wrt_map)
  then show ?thesis
    by (rule sorted_wrt_mono_rel [rotated]) (auto simp: range_key_def less_eq_prod_def less_prod_def
        intro: order_less_imp_le)
qed

lemma normalize_covers:
  "(\<exists>r \<in> set (normalize_ranges rs). g_country r = c \<and> in_range g_start g_end x r) \<longleftrightarrow>
   (\<exists>r \<in> set rs. g_country r = c \<and> in_range g_start g_end x r)"
  using geo_table.foldl_push_covers [OF sorted_by_start [of rs], of "[]" c x]
  by (simp add: normalize_ranges_def)

lemma normalize_bounds:
  assumes "\<forall>r \<in> set rs. g_start r \<le> g_end r"
  shows "\<forall>r \<in> set (normalize_ranges rs). g_start r \<le> g_end r"
  using geo_table.foldl_push_bounds [of "[]" "sort_key range_key rs"] assms
  by (simp add: normalize_ranges_def)

lemma geo_lookup_iff:
  assumes "wf_ranges g_start g_end rs"
  shows "geo_lookup rs x = Some c \<longleftrightarrow> (\<exists>r \<in> set rs. g_country r = c \<and> in_range g_start g_end x r)"
  using geo_table.range_search_iff [OF assms, of x] by (auto simp: geo_lookup_def)

definition snapshot_wf :: "geo_snapshot \<Rightarrow> bool" where
  "snapshot_wf s \<longleftrightarrow> wf_ranges g_start g_end (gs_ipv4 s) \<and> wf_ranges g_start g_end (gs_ipv6 s)"

lemma lookup_country_iff:
  assumes "snapshot_wf s"
  shows "lookup_country s ip = Some c \<longleftrightarrow> in_tables (gs_ipv4 s, gs_ipv6 s) c ip"
  using assms by (cases ip) (simp_all add: snapshot_wf_def geo_lookup_iff)

lemma build_geo_snapshot_Inr:
  assumes "build_geo_snapshot now t = Inr s" "tables_wf t"
  shows "snapshot_wf s" "in_tables (gs_ipv4 s, gs_ipv6 s) c ip \<longleftrightarrow> in_tables t c ip"
proof -
  have s: "s = \<lparr>gs_created_at_epoch_seconds = now, gs_ipv4 = normalize_ranges (fst t),
      gs_ipv6 = normalize_ranges (snd t)\<rparr>"
    and no: "non_overlapping g_start g_end (normalize_ranges (fst t))"
      "non_overlapping g_start g_end (normalize_ranges (snd t))"
    using assms(1)
    by (auto simp: build_geo_snapshot_def Let_def bind_res_Inr_iff validate_non_overlapping_def)
  show "snapshot_wf s"
    using assms(2) no normalize_bounds [of "fst t"] normalize_bounds [of "snd t"]
    by (simp add: s snapshot_wf_def wf_ranges_def tables_wf_def)
  show "in_tables (gs_ipv4 s, gs_ipv6 s) c ip \<longleftrightarrow> in_tables t c ip"
    by (cases ip) (simp_all add: s normalize_covers)
qed

lemma fetch_geo_snapshot_Inr:
  "fetch_geo_snapshot now ap countries rs = Inr s \<longleftrightarrow> list_all (tolerated ap) rs \<and>
     (loaded_count rs \<noteq> 0 \<or> countries = []) \<and> build_geo_snapshot now (added_tables rs) = Inr s"
  by (auto simp: fetch_geo_snapshot_def bind_res_Inr_iff collect_fetched_Inr)

section \<open>Cache format\<close>

lemmas nat_be_numeral = nat_be.simps(2) [of "pred_numeral k" v for k v, folded numeral_eq_Suc]

lemma read_be_Inr:
  assumes "LENGTH('n) = 8 * n"
  shows "read_be n bs = Inr (w :: 'n::len word, r) \<longleftrightarrow> bs = to_be n w @ r"
proof
  assume "read_be n bs = Inr (w, r)"
  then have "n \<le> length bs" "w = from_be (take n bs)" "r = drop n bs"
    by (auto simp: read_be_def take_bytes_def split: if_splits)
  moreover from this have "to_be n w = take n bs"
    using to_be_from_be [where 'n = 'n, of "take n bs"] assms by (simp add: min_absorb2)
  ultimately show "bs = to_be n w @ r" by simp
next
  assume "bs = to_be n w @ r"
  then show "read_be n bs = Inr (w, r)"
    using assms by (simp add: read_be_def take_bytes_def from_be_to_be)
qed

lemma take_bytes_Inr: "take_bytes n bs = Inr (b, r) \<longleftrightarrow> bs = b @ r \<and> length b = n"
  by (auto simp: take_bytes_def split: if_splits)

lemma read_range_Inr:
  assumes "LENGTH('n) = 8 * w"
  shows "read_range w bs = Inr (x :: 'n::len word geo_range, r) \<longleftrightarrow> bs = encode_range w x @ r"
  by (cases x)
    (auto simp: read_range_def bind_res_Inr_iff encode_range_def read_be_Inr [OF assms]
      read_be_Inr [where 'n = 16])

lemma read_ranges_Inr:
  assumes "LENGTH('n) = 8 * w"
  shows "read_ranges w n bs = Inr (xs :: 'n::len word geo_range list, r) \<longleftrightarrow>
    length xs = n \<and> bs = concat (map (encode_range w) xs) @ r"
proof (induction n arbitrary: bs xs)
  case 0
  show ?case by auto
next
  case (Suc n)
  show ?case
    by (cases xs) (auto simp: bind_res_Inr_iff read_range_Inr [OF assms] Suc)
qed

lemmas read_words_Inr = read_be_Inr [where 'n = 16 and n = 2] read_be_Inr [where 'n = 32 and n = 4]
  read_be_Inr [where 'n = 64 and n = 8]

lemma decode_cache_Inr_iff:
  "decode_cache b = Inr s \<longleftrightarrow> b = encode_cache s \<and>
     length (gs_ipv4 s) < 2 ^ 32 \<and> length (gs_ipv6 s) < 2 ^ 32 \<and>
     non_overlapping g_start g_end (gs_ipv4 s) \<and> non_overlapping g_start g_end (gs_ipv6 s)"
proof
  assume "decode_cache b = Inr s"
  then obtain magic r0 r1 created r2 r3 r4 r5 v4c v6c ipv4 ipv6 where
    d: "take_bytes 4 b = Inr (magic, r0)" "magic = cache_magic"
      "read_be 2 r0 = Inr (cache_version, r1)" "read_be 8 r1 = Inr (created, r2)"
      "read_be 4 r2 = Inr (v4c :: u32, r3)" "read_be 4 r3 = Inr (v6c :: u32, r4)"
      "read_ranges 4 (unat v4c) r4 = Inr (ipv4, r5)" "read_ranges 16 (unat v6c) r5 = Inr (ipv6, [])"
    and v: "non_overlapping g_start g_end ipv4" "non_overlapping g_start g_end ipv6"
    and s: "s = \<lparr>gs_created_at_epoch_seconds = created, gs_ipv4 = ipv4, gs_ipv6 = ipv6\<rparr>"
    by (auto simp: decode_cache_def bind_res_Inr_iff validate_non_overlapping_def split: if_splits)
  have len: "length ipv4 = unat v4c" "length ipv6 = unat v6c"
    and r: "r4 = concat (map (encode_range 4) ipv4) @ r5" "r5 = concat (map (encode_range 16) ipv6)"
    using d(7,8) by (simp_all add: read_ranges_Inr)
  have "unat v4c < 2 ^ 32" "unat v6c < 2 ^ 32"
    using unsigned_less [of v4c] unsigned_less [of v6c] by simp_all
  then show "b = encode_cache s \<and> length (gs_ipv4 s) < 2 ^ 32 \<and> length (gs_ipv6 s) < 2 ^ 32 \<and>
     non_overlapping g_start g_end (gs_ipv4 s) \<and> non_overlapping g_start g_end (gs_ipv6 s)"
    using d(1-6) v by (simp add: s encode_cache_def take_bytes_Inr read_words_Inr r len)
next
  assume h: "b = encode_cache s \<and> length (gs_ipv4 s) < 2 ^ 32 \<and> length (gs_ipv6 s) < 2 ^ 32 \<and>
     non_overlapping g_start g_end (gs_ipv4 s) \<and> non_overlapping g_start g_end (gs_ipv6 s)"
  let ?v4 = "concat (map (encode_range 4) (gs_ipv4 s))"
  let ?v6 = "concat (map (encode_range 16) (gs_ipv6 s))"
  let ?n4 = "word_of_nat (length (gs_ipv4 s)) :: u32" and ?n6 = "word_of_nat (length (gs_ipv6 s)) :: u32"
  have n: "unat ?n4 = length (gs_ipv4 s)" "unat ?n6 = length (gs_ipv6 s)"
    using h by (simp_all add: unat_of_nat)
  have "take_bytes 4 b = Inr (cache_magic, to_be 2 cache_version @ to_be 8 (gs_created_at_epoch_seconds s)
      @ to_be 4 ?n4 @ to_be 4 ?n6 @ ?v4 @ ?v6)"
    using h by (simp add: take_bytes_Inr encode_cache_def cache_magic_def)
  moreover have "read_be 2 (to_be 2 cache_version @ r) = Inr (cache_version, r)"
    "read_be 8 (to_be 8 (gs_created_at_epoch_seconds s) @ r) = Inr (gs_created_at_epoch_seconds s, r)"
    "read_be 4 (to_be 4 ?n4 @ r) = Inr (?n4, r)" "read_be 4 (to_be 4 ?n6 @ r) = Inr (?n6, r)" for r
    by (simp_all add: read_words_Inr)
  moreover have "read_ranges 4 (unat ?n4) (?v4 @ r) = Inr (gs_ipv4 s, r)"
    "read_ranges 16 (unat ?n6) ?v6 = Inr (gs_ipv6 s, [])" for r
    by (simp_all only: n) (simp_all add: read_ranges_Inr)
  ultimately show "decode_cache b = Inr s"
    using h by (simp add: decode_cache_def validate_non_overlapping_def bail_if_def)
qed

section \<open>Coverage of the XDP prefixes\<close>

lemma fit_block_fits: "s \<le> e \<Longrightarrow> prefix_block_end s (fit_block s e k) \<le> e"
proof (induction s e k rule: fit_block.induct)
  case (1 s e k)
  show ?case
  proof (cases "prefix_block_end s k \<le> e \<or> k = 0")
    case True
    then show ?thesis using 1(2) by (subst fit_block.simps) (auto simp: prefix_block_end_def)
  next
    case False
    then show ?thesis using 1 by (subst fit_block.simps) simp
  qed
qed

text \<open>
  The blocks are aligned, no longer than the address, and together hold exactly the
  addresses from \<open>start\<close> to \<open>stop\<close>.
\<close>

lemma range_blocks_cover:
  "bits \<le> 128 \<Longrightarrow>
     (\<forall>(s, k) \<in> set (range_blocks start stop bits). 2 ^ k dvd unat s \<and> k \<le> bits \<and> s \<le> stop) \<and>
     (\<forall>x. (\<exists>(s, k) \<in> set (range_blocks start stop bits). unat s div 2 ^ k = x div 2 ^ k) \<longleftrightarrow>
        unat start \<le> x \<and> x \<le> unat stop)"
proof (induction start stop bits rule: range_blocks.induct)
  case (1 start stop bits)
  define k where "k = fit_block start stop (aligned_bits start bits)"
  define be where "be = prefix_block_end start k"
  show ?case
  proof (cases "start \<le> stop")
    case False
    then show ?thesis by (subst (1 2) range_blocks.simps) (auto simp: word_le_nat_alt)
  next
    case True
    have k: "k \<le> aligned_bits start bits" "k \<le> bits"
      using fit_block_le [of start stop "aligned_bits start bits"] aligned_bits_le [of start bits]
      by (simp_all add: k_def)
    then have dvd: "2 ^ k dvd unat start" and "k \<le> 128"
      using "1.prems" by (auto intro: aligned_bits_dvd)
    then have be: "unat be = unat start + (2 ^ k - 1)" by (simp add: be_def unat_prefix_block_end)
    have "be \<le> stop" using fit_block_fits [OF True] by (simp add: be_def k_def)
    then have be_le: "unat be \<le> unat stop" by (simp add: word_le_nat_alt)
    have block: "unat start div 2 ^ k = x div 2 ^ k \<longleftrightarrow> unat start \<le> x \<and> x \<le> unat be" for x
      using between_block_iff [of "unat start div 2 ^ k" k x] dvd by (simp only: be dvd_div_mult_self)
    have unfold: "range_blocks start stop bits =
        (start, k) # (if be = - 1 then [] else range_blocks (be + 1) stop bits)"
      using True by (subst range_blocks.simps) (simp add: k_def be_def Let_def)
    show ?thesis
    proof (cases "be = - 1")
      case be1: True
      then have "stop = - 1" using \<open>be \<le> stop\<close> by (simp add: word_order.extremum_unique)
      with be1 show ?thesis
        using True k(2) dvd block unfolding unfold by auto
    next
      case False
      then have "1 + be \<noteq> 0" by (metis add.commute eq_neg_iff_add_eq_0)
      then have succ: "unat (be + 1) = Suc (unat be)" by (simp add: unatSuc add.commute)
      have IH: "(\<forall>(s, k) \<in> set (range_blocks (be + 1) stop bits). 2 ^ k dvd unat s \<and> k \<le> bits \<and> s \<le> stop) \<and>
          (\<forall>x. (\<exists>(s, k) \<in> set (range_blocks (be + 1) stop bits). unat s div 2 ^ k = x div 2 ^ k) \<longleftrightarrow>
             Suc (unat be) \<le> x \<and> x \<le> unat stop)"
        using "1.IH" [OF True k_def be_def False "1.prems"] unfolding succ .
      have "(unat start \<le> x \<and> x \<le> unat be) \<or> (Suc (unat be) \<le> x \<and> x \<le> unat stop) \<longleftrightarrow>
          unat start \<le> x \<and> x \<le> unat stop" for x
        using be be_le by auto
      with IH block show ?thesis
        using True k(2) dvd False unfolding unfold by auto
    qed
  qed
qed

definition prefix_matches :: "geo_ip_prefix list \<Rightarrow> u16 \<Rightarrow> ip_addr \<Rightarrow> bool" where
  "prefix_matches ps c ip \<longleftrightarrow>
     (\<exists>p \<in> set ps. gp_country p = c \<and> in_block (gp_addr p) (unat (gp_prefix p)) ip)"

lemma prefix_matches_append [simp]:
  "prefix_matches (ps @ qs) c ip \<longleftrightarrow> prefix_matches ps c ip \<or> prefix_matches qs c ip"
  by (auto simp: prefix_matches_def)

lemma prefix_matches_Nil [simp]: "\<not> prefix_matches [] c ip"
  by (simp add: prefix_matches_def)

lemma prefix_matches_concat [simp]:
  "prefix_matches (concat pss) c ip \<longleftrightarrow> (\<exists>ps \<in> set pss. prefix_matches ps c ip)"
  by (auto simp: prefix_matches_def)

lemma foldl_append_range_prefixes:
  "foldl (\<lambda>ps r. append_range_prefixes (f r) (g r) b (h r) ps) ps rs =
     ps @ concat (map (\<lambda>r. append_range_prefixes (f r) (g r) b (h r) []) rs)"
  by (induction rs arbitrary: ps) (simp_all add: append_range_prefixes_def)

lemma unat_prefix_len:
  assumes "k \<le> bits" "bits \<le> 128"
  shows "unat (word_of_nat (bits - k) :: u8) = bits - k"
  using assms by (subst unat_of_nat) simp

lemma block_matches_v4:
  assumes "b \<le> ucast (e :: u32)" "k \<le> 32"
  shows "in_block (prefix_addr b 32) (unat (word_of_nat (32 - k) :: u8)) ip \<longleftrightarrow>
    (case ip of V4 x \<Rightarrow> unat b div 2 ^ k = unat x div 2 ^ k | V6 _ \<Rightarrow> False)"
proof -
  have "unat e < 2 ^ 32" using unsigned_less [of e] by simp
  then have "unat b < 2 ^ 32"
    using assms(1) by (simp add: word_le_nat_alt unsigned_ucast_eq take_bit_nat_eq_self)
  then have "unat (ucast b :: u32) = unat b"
    by (simp add: unsigned_ucast_eq take_bit_nat_eq_self)
  then show ?thesis
    using assms(2) unat_prefix_len [of k 32]
    by (cases ip) (simp_all add: prefix_addr_def)
qed

lemma block_matches_v6:
  assumes "k \<le> 128"
  shows "in_block (prefix_addr b 128) (unat (word_of_nat (128 - k) :: u8)) ip \<longleftrightarrow>
    (case ip of V6 x \<Rightarrow> unat b div 2 ^ k = unat x div 2 ^ k | V4 _ \<Rightarrow> False)"
  using assms unat_prefix_len [of k 128] by (cases ip) (simp_all add: prefix_addr_def)

lemma append_range_prefixes_matches:
  assumes "\<And>b k. (b, k) \<in> set (range_blocks s e bits) \<Longrightarrow>
    in_block (prefix_addr b bits) (unat (word_of_nat (bits - k) :: u8)) ip \<longleftrightarrow> Q b k"
  shows "prefix_matches (append_range_prefixes s e bits d []) c ip \<longleftrightarrow>
    d = c \<and> (\<exists>(b, k) \<in> set (range_blocks s e bits). Q b k)"
proof -
  have "prefix_matches (append_range_prefixes s e bits d []) c ip \<longleftrightarrow>
      d = c \<and> (\<exists>(b, k) \<in> set (range_blocks s e bits).
        in_block (prefix_addr b bits) (unat (word_of_nat (bits - k) :: u8)) ip)"
    by (auto simp: prefix_matches_def append_range_prefixes_def simp del: of_nat_diff split: prod.splits)
  also have "\<dots> \<longleftrightarrow> d = c \<and> (\<exists>(b, k) \<in> set (range_blocks s e bits). Q b k)"
    using assms by blast
  finally show ?thesis .
qed

lemma append_range_prefixes_v4:
  "prefix_matches (append_range_prefixes (ucast s) (ucast (e :: u32)) 32 d []) c ip \<longleftrightarrow>
     d = c \<and> (case ip of V4 x \<Rightarrow> (s :: u32) \<le> x \<and> x \<le> e | V6 _ \<Rightarrow> False)"
proof -
  note bl = range_blocks_cover [of 32 "ucast s" "ucast e"]
  have un: "unat (ucast w :: u128) = unat w" for w :: u32
  proof -
    have "unat w < 2 ^ 32" using unsigned_less [of w] by simp
    then show ?thesis by (simp add: unsigned_ucast_eq take_bit_nat_eq_self)
  qed
  have "prefix_matches (append_range_prefixes (ucast s) (ucast e) 32 d []) c ip \<longleftrightarrow>
      d = c \<and> (\<exists>(b, k) \<in> set (range_blocks (ucast s) (ucast e) 32).
        case ip of V4 x \<Rightarrow> unat b div 2 ^ k = unat x div 2 ^ k | V6 _ \<Rightarrow> False)"
    using bl block_matches_v4 [of _ e _ ip] by (intro append_range_prefixes_matches) auto
  then show ?thesis
    using bl by (cases ip) (auto simp: word_le_nat_alt un)
qed

lemma append_range_prefixes_v6:
  "prefix_matches (append_range_prefixes s e 128 d []) c ip \<longleftrightarrow>
     d = c \<and> (case ip of V6 x \<Rightarrow> s \<le> x \<and> x \<le> e | V4 _ \<Rightarrow> False)"
proof -
  note bl = range_blocks_cover [of 128 s e]
  have "prefix_matches (append_range_prefixes s e 128 d []) c ip \<longleftrightarrow>
      d = c \<and> (\<exists>(b, k) \<in> set (range_blocks s e 128).
        case ip of V6 x \<Rightarrow> unat b div 2 ^ k = unat x div 2 ^ k | V4 _ \<Rightarrow> False)"
    using bl block_matches_v6 [of _ _ ip] by (intro append_range_prefixes_matches) auto
  then show ?thesis
    using bl by (cases ip) (auto simp: word_le_nat_alt)
qed

lemma xdp_prefixes_match:
  "prefix_matches (xdp_prefixes s) c ip \<longleftrightarrow> in_tables (gs_ipv4 s, gs_ipv6 s) c ip"
  by (cases ip)
    (auto simp: xdp_prefixes_def Let_def foldl_append_range_prefixes append_range_prefixes_v4
      append_range_prefixes_v6 in_range_def)

section \<open>Properties\<close>

text \<open>
  C18: from the downloaded zone files to the lookup.  When a refresh builds a snapshot, the
  lookup answers country \<open>c\<close> for an address exactly when some downloaded file of a
  country with code \<open>c\<close> has, among its lines before the first malformed one, a line
  whose CIDR block holds the address.  So sorting, merging and the binary search lose and
  invent nothing, and a file that is skipped as malformed still contributes the lines
  before the error.
\<close>

theorem geo_fetch_lookup:
  assumes "fetch_geo_snapshot now allow_partial countries results = Inr s"
  shows "lookup_country s ip = Some c \<longleftrightarrow>
    (\<exists>country body. Fetched country body \<in> set results \<and> encode_country country = Inr c \<and> zone_lists body ip)"
proof -
  have b: "build_geo_snapshot now (added_tables results) = Inr s"
    using assms by (simp add: fetch_geo_snapshot_Inr)
  have wf: "tables_wf (added_tables results)" using added_tables_spec by blast
  show ?thesis
    using lookup_country_iff [OF build_geo_snapshot_Inr(1) [OF b wf]]
      build_geo_snapshot_Inr(2) [OF b wf] added_tables_spec [of results] by simp
qed

text \<open>
  A concrete run for the witness: a file whose second line is malformed, downloaded with
  \<open>allow_partial\<close>, next to a well-formed one.
\<close>

lemma us_body:
  "str_lines ''1.2.3.0/24
bogus'' = [''1.2.3.0/24'', ''bogus'']"
  "trim ''1.2.3.0/24'' = ''1.2.3.0/24''" "trim ''bogus'' = ''bogus''"
  "str_lines ''9.0.0.0/8'' = [''9.0.0.0/8'']" "trim ''9.0.0.0/8'' = ''9.0.0.0/8''"
  by code_simp+

lemma us_codes: "encode_country ''us'' = Inr 0x5553" "encode_country ''DE'' = Inr 0x4445"
proof -
  have "trim ''us'' = ''us''" "trim ''DE'' = ''DE''"
    "list_all is_ascii_alpha ''us''" "list_all is_ascii_alpha ''DE''"
    "map to_ascii_upper ''us'' = ''US''" "map to_ascii_upper ''DE'' = ''DE''" by code_simp+
  then show "encode_country ''us'' = Inr 0x5553" "encode_country ''DE'' = Inr 0x4445"
    by (simp_all add: encode_country_def from_be_def be_nat_def)
qed

lemma us_parse:
  "parse_u8 ''24'' = Some 24" "parse_u8 ''8'' = Some 8" "parse_ip ''bogus'' = None"
  "parse_ip ''1.2.3.0'' = Some (V4 0x01020300)" "parse_ip ''9.0.0.0'' = Some (V4 0x09000000)"
proof -
  have "parse_uint 255 ''24'' = Some 24" "parse_uint 255 ''8'' = Some 8" by code_simp+
  then show "parse_u8 ''24'' = Some 24" "parse_u8 ''8'' = Some 8" by (simp_all add: parse_u8_def)
qed (simp_all add: net_eval cong: net_cong)

lemma us_ranges:
  "ip_range (0x01020300 :: u32) 24 = Inr (0x01020300, 0x010203FF)"
  "ip_range (0x09000000 :: u32) 8 = Inr (0x09000000, 0x09FFFFFF)"
  by (simp_all add: ip_range_def mask_range_def prefix_mask_def mask_eq_exp_minus_1)

lemma us_de_fetch:
  "\<exists>s. fetch_geo_snapshot 7 True [''DE'', ''US'']
     [Fetched ''us'' ''1.2.3.0/24
bogus'', Fetched ''DE'' ''9.0.0.0/8''] = Inr s"
  by (simp add: fetch_geo_snapshot_def build_geo_snapshot_def normalize_ranges_def
      validate_non_overlapping_def bail_if_def append_country_ranges_def us_body us_codes us_parse
      push_country_line_def starts_with_def parse_cidr_parts_def us_ranges range_key_def
      merge_push_def saturating_succ_def)

theorem geo_fetch_lookup_witness:
  "\<exists>s. fetch_geo_snapshot 7 True [''DE'', ''US'']
     [Fetched ''us'' ''1.2.3.0/24
bogus'', Fetched ''DE'' ''9.0.0.0/8''] = Inr s \<and> lookup_country s (V4 0x01020304) = Some 0x5553"
proof -
  obtain s where s: "fetch_geo_snapshot 7 True [''DE'', ''US'']
     [Fetched ''us'' ''1.2.3.0/24
bogus'', Fetched ''DE'' ''9.0.0.0/8''] = Inr s"
    using us_de_fetch by blast
  have "zone_lists ''1.2.3.0/24
bogus'' (V4 0x01020304)"
    by (simp add: zone_lists_def us_body line_ok_def line_lists_def ignored_line_def zone_block_def
        parse_cidr_parts_def us_parse starts_with_def max_prefix_def)
  then have "lookup_country s (V4 0x01020304) = Some 0x5553"
    using geo_fetch_lookup [OF s, of "V4 0x01020304" "0x5553"] us_codes by simp blast
  with s show ?thesis by blast
qed

text \<open>
  The order in which downloads finish is irrelevant: any permutation of the results
  builds the same snapshot.
\<close>

lemma geo_fetch_order_independent:
  assumes "mset results' = mset results"
    and "fetch_geo_snapshot now allow_partial countries results = Inr s"
  shows "fetch_geo_snapshot now allow_partial countries results' = Inr s"
proof -
  have sort: "sort_key range_key (concat (map f results')) = sort_key range_key (concat (map f results))"
    for f :: "fetch_result \<Rightarrow> 'n::len word geo_range list"
  proof (rule sort_key_inj_key_eq)
    have "mset (concat (map f rs)) = \<Sum>\<^sub># (image_mset (mset \<circ> f) (mset rs))" for rs
      by (induction rs) auto
    then show "mset (concat (map f results')) = mset (sort_key range_key (concat (map f results)))"
      using assms(1) by simp
    show "inj_on range_key (set (concat (map f results')))"
      by (rule inj_onI) (simp add: range_key_inject)
  qed simp
  have build: "build_geo_snapshot now (added_tables results') = build_geo_snapshot now (added_tables results)"
    by (simp add: build_geo_snapshot_def normalize_ranges_def added_tables_def sort)
  have "set results' = set results" using assms(1) by (rule mset_eq_setD)
  moreover have "loaded_count results' = loaded_count results"
    using assms(1) unfolding loaded_count_def by (metis mset_filter size_mset)
  ultimately show ?thesis
    using assms(2) by (simp add: fetch_geo_snapshot_Inr list_all_iff build)
qed

text \<open>
  C21: the binary cache.  A byte string decodes to a snapshot exactly when it is that
  snapshot's encoding, the tables have at most \<open>2 ^ 32 - 1\<close> entries (the counters are 32
  bits wide) and neither table overlaps: encoding round-trips, decoding is injective, and
  every other byte string is rejected.
\<close>

theorem geo_cache_roundtrip:
  "decode_cache b = Inr s \<longleftrightarrow> b = encode_cache s \<and>
     length (gs_ipv4 s) < 2 ^ 32 \<and> length (gs_ipv6 s) < 2 ^ 32 \<and>
     non_overlapping g_start g_end (gs_ipv4 s) \<and> non_overlapping g_start g_end (gs_ipv6 s)"
  by (rule decode_cache_Inr_iff)

text \<open>
  The prefixes given to the XDP filter agree with the user-space lookup: on a
  well-formed snapshot an address matches a prefix labelled with country \<open>c\<close> exactly when
  the lookup answers \<open>c\<close>.
\<close>

lemma geo_xdp_prefixes_agree:
  assumes "snapshot_wf s"
  shows "(\<exists>p \<in> set (xdp_prefixes s). gp_country p = c \<and> in_block (gp_addr p) (unat (gp_prefix p)) ip) \<longleftrightarrow>
    lookup_country s ip = Some c"
  using xdp_prefixes_match [of s c ip] lookup_country_iff [OF assms, of ip c]
  by (simp add: prefix_matches_def)

text \<open>
  Start-up never fails on the cache file: whatever the file holds, or if it cannot be
  read, a snapshot is loaded; it is the file's snapshot if the file is a valid cache and the
  empty snapshot otherwise, and the empty snapshot answers no address.
\<close>

lemma geo_load_total:
  "load_cache_or_embedded file =
     Inr (case file of
            Some b \<Rightarrow> (case decode_cache b of Inr s \<Rightarrow> s
              | Inl _ \<Rightarrow> \<lparr>gs_created_at_epoch_seconds = 0, gs_ipv4 = [], gs_ipv6 = []\<rparr>)
          | None \<Rightarrow> \<lparr>gs_created_at_epoch_seconds = 0, gs_ipv4 = [], gs_ipv6 = []\<rparr>) \<and>
   lookup_country \<lparr>gs_created_at_epoch_seconds = 0, gs_ipv4 = [], gs_ipv6 = []\<rparr> ip = None"
proof -
  let ?e = "\<lparr>gs_created_at_epoch_seconds = 0, gs_ipv4 = [], gs_ipv6 = []\<rparr> :: geo_snapshot"
  have "encode_cache ?e = embedded_geo_cache"
    by (simp add: encode_cache_def embedded_geo_cache_def cache_magic_def cache_version_def to_be_def
        nat_be_numeral)
  then have "decode_cache embedded_geo_cache = Inr ?e" by (simp add: decode_cache_Inr_iff)
  moreover have "lookup_country ?e ip = None"
    by (cases ip) (simp_all add: geo_lookup_def range_search.simps)
  ultimately show ?thesis
    by (simp add: load_cache_or_embedded_def split: option.split sum.split)
qed

end
