(* ===== verification/Threat.thy ===== *)
theory Threat
  imports Ranges Config "HOL-Library.Multiset"
begin

text \<open>
  \<open>threat.rs\<close>: the threat-intelligence feeds, their parsers, the deduplicated and merged
  table, its binary cache and the policy decision.  The downloads are an argument, in the
  order in which they finish; the JSON parser of \<open>serde_json\<close> is the argument
  \<open>parse_json\<close> over the value type of that crate.

  Shown here: the lookup drops exactly the addresses of the loaded prefixes, the same ones
  the XDP filter is given; the table does not depend on order or repetition; and what is
  written to the cache is what is read back.
\<close>

section \<open>Data\<close>

record threat_ip_prefix =
  tp_addr :: ip_addr
  tp_prefix :: u8

record 'w threat_range =
  t_start :: 'w
  t_end :: 'w

record threat_snapshot =
  th_created_at_epoch_seconds :: u64
  th_prefixes :: "threat_ip_prefix list"
  th_ipv4 :: "u32 threat_range list"
  th_ipv6 :: "u128 threat_range list"

datatype threat_error =
    ThreatBadAddress
  | ThreatBadPrefix
  | ThreatPrefixTooLong nat
  | ThreatTaskFailed
  | ThreatFetchFailed
  | ThreatAllFailed
  | ThreatTooShort
  | ThreatInvalidMagic
  | ThreatUnsupportedVersion u16
  | ThreatInvalidLength nat nat
  | ThreatInvalidFamily u8
  | ThreatConfigsDiffer
  | ThreatWriteFailed

datatype json = JsonArray "json list" | JsonObject "(string \<times> json) list" | JsonString string | JsonOther

interpretation threat_table: range_table t_start t_end "\<lambda>r e. r\<lparr>t_end := e\<rparr>" "\<lambda>_. ()"
  by unfold_locales simp_all

section \<open>Feed parsers\<close>

definition strip_comment :: "string \<Rightarrow> string" where
  "strip_comment line = trim (hd (split_on (\<lambda>c. c = CHR ''#'' \<or> c = CHR '';'') line))"

definition first_prefix_token :: "string \<Rightarrow> string option" where
  "first_prefix_token line =
     List.find (\<lambda>t. parse_ip t \<noteq> None \<or> CHR ''/'' \<in> set t) (split_whitespace (strip_comment line))"

definition validate_prefix :: "ip_addr \<Rightarrow> u8 \<Rightarrow> threat_error + unit" where
  "validate_prefix addr prefix =
     (case addr of
        V4 _ \<Rightarrow> if prefix \<le> 32 then Inr () else Inl (ThreatPrefixTooLong 32)
      | V6 _ \<Rightarrow> if prefix \<le> 128 then Inr () else Inl (ThreatPrefixTooLong 128))"

definition parse_prefix :: "string \<Rightarrow> threat_error + threat_ip_prefix option" where
  "parse_prefix token0 =
     (let token = trim_matches (\<lambda>c. c = CHR 0x22) (trim_matches (\<lambda>c. c = CHR '','') (trim token0))
      in if token = [] then Inr None
         else case split_once (CHR ''/'') token of
             Some (a, p) \<Rightarrow>
               (case parse_ip a of
                  None \<Rightarrow> Inl ThreatBadAddress
                | Some addr \<Rightarrow>
                    (case parse_u8 p of
                       None \<Rightarrow> Inl ThreatBadPrefix
                     | Some prefix \<Rightarrow>
                         bind_res (validate_prefix addr prefix) (\<lambda>_.
                           Inr (Some \<lparr>tp_addr = addr, tp_prefix = prefix\<rparr>))))
           | None \<Rightarrow>
               (case parse_ip token of
                  None \<Rightarrow> Inl ThreatBadAddress
                | Some addr \<Rightarrow> Inr (Some \<lparr>tp_addr = addr, tp_prefix = max_prefix addr\<rparr>)))"

text \<open>\<open>if let Some(prefix) = parse_prefix(..)? { prefixes.push(prefix) }\<close>\<close>

definition push_some :: "'a list \<Rightarrow> 'a option \<Rightarrow> 'a list" where
  "push_some xs r = (case r of None \<Rightarrow> xs | Some x \<Rightarrow> xs @ [x])"

fun parse_lines ::
  "string list \<Rightarrow> threat_ip_prefix list \<Rightarrow> threat_error + threat_ip_prefix list" where
  "parse_lines [] prefixes = Inr prefixes"
| "parse_lines (line # lines) prefixes =
     (case first_prefix_token line of
        None \<Rightarrow> parse_lines lines prefixes
      | Some token \<Rightarrow> bind_res (parse_prefix token) (\<lambda>r.
          parse_lines lines (push_some prefixes r)))"

definition parse_line_prefixes :: "string \<Rightarrow> threat_error + threat_ip_prefix list" where
  "parse_line_prefixes body = parse_lines (str_lines body) []"

definition parse_u32 :: "string \<Rightarrow> u32 option" where
  "parse_u32 s = map_option word_of_nat (parse_uint 4294967295 s)"

definition ipsum_score :: "string list \<Rightarrow> u32" where
  "ipsum_score parts = (case parts of [] \<Rightarrow> 1
     | s # _ \<Rightarrow> (case parse_u32 s of None \<Rightarrow> 1 | Some v \<Rightarrow> v))"

fun parse_ipsum_lines ::
  "u32 \<Rightarrow> string list \<Rightarrow> threat_ip_prefix list \<Rightarrow> threat_error + threat_ip_prefix list" where
  "parse_ipsum_lines min_score [] prefixes = Inr prefixes"
| "parse_ipsum_lines min_score (line # lines) prefixes =
     (case split_whitespace (strip_comment line) of
        [] \<Rightarrow> parse_ipsum_lines min_score lines prefixes
      | ip # parts \<Rightarrow>
          if ipsum_score parts < min_score then parse_ipsum_lines min_score lines prefixes
          else bind_res (parse_prefix ip) (\<lambda>r.
            parse_ipsum_lines min_score lines (push_some prefixes r)))"

definition parse_ipsum :: "string \<Rightarrow> u32 \<Rightarrow> threat_error + threat_ip_prefix list" where
  "parse_ipsum body min_score = parse_ipsum_lines min_score (str_lines body) []"

definition json_cidr :: "(string \<times> json) list \<Rightarrow> string option" where
  "json_cidr m =
     (case (case map_of m ''cidr'' of Some v \<Rightarrow> Some v | None \<Rightarrow> map_of m ''prefix'') of
        Some (JsonString c) \<Rightarrow> Some c | _ \<Rightarrow> None)"

fun collect_json_cidrs :: "json \<Rightarrow> threat_ip_prefix list \<Rightarrow> threat_error + threat_ip_prefix list"
  and collect_json_items :: "json list \<Rightarrow> threat_ip_prefix list \<Rightarrow> threat_error + threat_ip_prefix list"
where
  "collect_json_cidrs (JsonArray items) prefixes = collect_json_items items prefixes"
| "collect_json_cidrs (JsonObject m) prefixes =
     (case json_cidr m of
        None \<Rightarrow> Inr prefixes
      | Some c \<Rightarrow> bind_res (parse_prefix c) (\<lambda>r.
          Inr (push_some prefixes r)))"
| "collect_json_cidrs (JsonString s) prefixes = Inr prefixes"
| "collect_json_cidrs JsonOther prefixes = Inr prefixes"
| "collect_json_items [] prefixes = Inr prefixes"
| "collect_json_items (j # js) prefixes =
     bind_res (collect_json_cidrs j prefixes) (collect_json_items js)"

definition parse_spamhaus_drop ::
  "(string \<Rightarrow> json option) \<Rightarrow> string \<Rightarrow> threat_error + threat_ip_prefix list" where
  "parse_spamhaus_drop parse_json body =
     (case parse_json body of
        None \<Rightarrow> parse_line_prefixes body
      | Some v \<Rightarrow> bind_res (collect_json_cidrs v []) (\<lambda>ps.
          if ps \<noteq> [] then Inr ps else parse_line_prefixes body))"

definition parse_threat_feed ::
  "(string \<Rightarrow> json option) \<Rightarrow> effective_proxy_threat_intel_source_config \<Rightarrow> string
   \<Rightarrow> threat_error + threat_ip_prefix list" where
  "parse_threat_feed parse_json feed body =
     (case es_format feed of
        FormatCidr \<Rightarrow> parse_line_prefixes body
      | FormatIps \<Rightarrow> parse_line_prefixes body
      | FormatIpsum \<Rightarrow> parse_ipsum body (overlay (es_min_score feed) 1)
      | FormatSpamhausDrop \<Rightarrow> parse_spamhaus_drop parse_json body)"

section \<open>The table\<close>

definition prefix_range :: "'n::len word \<Rightarrow> u8 \<Rightarrow> 'n word \<times> 'n word" where
  "prefix_range v prefix =
     mask_range v (if prefix = 0 then 0 else prefix_mask (unat prefix))"

definition normalize_prefix :: "threat_ip_prefix \<Rightarrow> threat_ip_prefix" where
  "normalize_prefix p =
     (case tp_addr p of
        V4 a \<Rightarrow> \<lparr>tp_addr = V4 (fst (prefix_range a (tp_prefix p))), tp_prefix = tp_prefix p\<rparr>
      | V6 a \<Rightarrow> \<lparr>tp_addr = V6 (fst (prefix_range a (tp_prefix p))), tp_prefix = tp_prefix p\<rparr>)"

fun ip_to_u128 :: "ip_addr \<Rightarrow> u128" where
  "ip_to_u128 (V4 a) = ucast a"
| "ip_to_u128 (V6 a) = a"

definition prefix_key :: "threat_ip_prefix \<Rightarrow> bool \<times> u128 \<times> u8" where
  "prefix_key p = (is_ipv6 (tp_addr p), ip_to_u128 (tp_addr p), tp_prefix p)"

text \<open>The loop with the \<open>HashSet\<close> keeps the first of each.\<close>

fun push_unique :: "threat_ip_prefix list \<Rightarrow> threat_ip_prefix list \<Rightarrow> threat_ip_prefix list" where
  "push_unique [] acc = acc"
| "push_unique (p # ps) acc =
     push_unique ps (if normalize_prefix p \<in> set acc then acc else acc @ [normalize_prefix p])"

definition merge_ranges :: "'n::len word threat_range list \<Rightarrow> 'n word threat_range list" where
  "merge_ranges ranges =
     foldl (merge_push t_start t_end (\<lambda>r e. r\<lparr>t_end := e\<rparr>) (\<lambda>a b. True)) []
       (sort_key (\<lambda>r. (t_start r, t_end r)) ranges)"

definition ranges_v4 :: "threat_ip_prefix list \<Rightarrow> u32 threat_range list" where
  "ranges_v4 ps = List.map_filter (\<lambda>p. case tp_addr p of
       V4 a \<Rightarrow> Some (let (s, e) = prefix_range a (tp_prefix p) in \<lparr>t_start = s, t_end = e\<rparr>)
     | V6 _ \<Rightarrow> None) ps"

definition ranges_v6 :: "threat_ip_prefix list \<Rightarrow> u128 threat_range list" where
  "ranges_v6 ps = List.map_filter (\<lambda>p. case tp_addr p of
       V6 a \<Rightarrow> Some (let (s, e) = prefix_range a (tp_prefix p) in \<lparr>t_start = s, t_end = e\<rparr>)
     | V4 _ \<Rightarrow> None) ps"

definition build_snapshot :: "u64 \<Rightarrow> threat_ip_prefix list \<Rightarrow> threat_snapshot" where
  "build_snapshot now prefixes =
     (let normalized = sort_key prefix_key (push_unique prefixes [])
      in \<lparr>th_created_at_epoch_seconds = now, th_prefixes = normalized,
          th_ipv4 = merge_ranges (ranges_v4 normalized), th_ipv6 = merge_ranges (ranges_v6 normalized)\<rparr>)"

definition threat_lookup :: "'n::len word threat_range list \<Rightarrow> 'n word \<Rightarrow> bool" where
  "threat_lookup ranges ip \<longleftrightarrow> range_search t_start t_end ranges ip 0 (length ranges) \<noteq> None"

fun threat_contains :: "threat_snapshot \<Rightarrow> ip_addr \<Rightarrow> bool" where
  "threat_contains s (V4 ip) = threat_lookup (th_ipv4 s) ip"
| "threat_contains s (V6 ip) = threat_lookup (th_ipv6 s) ip"

definition threat_xdp_prefixes :: "threat_snapshot \<Rightarrow> threat_ip_prefix list" where
  "threat_xdp_prefixes s = th_prefixes s"

section \<open>Downloads\<close>

datatype feed_result =
    FeedJoinFailed
  | FeedFetchFailed
  | FeedFetched effective_proxy_threat_intel_source_config string

fun collect_feeds ::
  "(string \<Rightarrow> json option) \<Rightarrow> bool \<Rightarrow> feed_result list \<Rightarrow> nat \<Rightarrow> nat \<Rightarrow> threat_ip_prefix list
   \<Rightarrow> threat_error + (nat \<times> nat \<times> threat_ip_prefix list)" where
  "collect_feeds parse_json allow_partial [] loaded skipped prefixes = Inr (loaded, skipped, prefixes)"
| "collect_feeds parse_json allow_partial (r # rs) loaded skipped prefixes =
     (case r of
        FeedJoinFailed \<Rightarrow> Inl ThreatTaskFailed
      | FeedFetchFailed \<Rightarrow>
          if allow_partial then collect_feeds parse_json allow_partial rs loaded (Suc skipped) prefixes
          else Inl ThreatFetchFailed
      | FeedFetched feed body \<Rightarrow>
          (case parse_threat_feed parse_json feed body of
             Inr parsed \<Rightarrow>
               collect_feeds parse_json allow_partial rs (Suc loaded) skipped (prefixes @ parsed)
           | Inl e \<Rightarrow>
               if allow_partial then collect_feeds parse_json allow_partial rs loaded (Suc skipped) prefixes
               else Inl e))"

definition fetch_threat_snapshot ::
  "(string \<Rightarrow> json option) \<Rightarrow> u64 \<Rightarrow> bool \<Rightarrow> feed_result list \<Rightarrow> threat_error + threat_snapshot" where
  "fetch_threat_snapshot parse_json now allow_partial results =
     bind_res (collect_feeds parse_json allow_partial results 0 0 []) (\<lambda>(loaded, skipped, prefixes).
       if loaded = 0 \<and> skipped > 0 then Inl ThreatAllFailed else Inr (build_snapshot now prefixes))"

section \<open>Binary cache\<close>

definition threat_cache_magic :: "u8 list" where
  "threat_cache_magic = [0x53, 0x54, 0x48, 0x52]"

definition threat_cache_version :: u16 where
  "threat_cache_version = 1"

definition embedded_threat_cache :: "u8 list" where
  "embedded_threat_cache = [0x53, 0x54, 0x48, 0x52, 0, 1, 0, 0, 0, 0, 0, 0, 0, 0, 0, 0, 0, 0]"

definition encode_prefix :: "threat_ip_prefix \<Rightarrow> u8 list" where
  "encode_prefix p =
     (case tp_addr p of
        V4 a \<Rightarrow> [4, tp_prefix p] @ to_be 16 (ucast a :: u128)
      | V6 a \<Rightarrow> [6, tp_prefix p] @ to_be 16 a)"

definition threat_encode_cache :: "threat_snapshot \<Rightarrow> u8 list" where
  "threat_encode_cache s = threat_cache_magic @ to_be 2 threat_cache_version
     @ to_be 8 (th_created_at_epoch_seconds s)
     @ to_be 4 (word_of_nat (length (th_prefixes s)) :: u32)
     @ concat (map encode_prefix (th_prefixes s))"

definition slice :: "u8 list \<Rightarrow> nat \<Rightarrow> nat \<Rightarrow> u8 list" where
  "slice bytes i j = take (j - i) (drop i bytes)"

definition decode_prefix :: "u8 list \<Rightarrow> nat \<Rightarrow> threat_error + threat_ip_prefix" where
  "decode_prefix bytes offset =
     (let family = bytes ! offset;
          prefix = bytes ! (offset + 1);
          v = from_be (slice bytes (offset + 2) (offset + 18)) :: u128
      in if family = 4
         then bind_res (validate_prefix (V4 0) prefix) (\<lambda>_. Inr \<lparr>tp_addr = V4 (ucast v), tp_prefix = prefix\<rparr>)
         else if family = 6
         then bind_res (validate_prefix (V6 0) prefix) (\<lambda>_. Inr \<lparr>tp_addr = V6 v, tp_prefix = prefix\<rparr>)
         else Inl (ThreatInvalidFamily family))"

fun decode_prefixes :: "u8 list \<Rightarrow> nat \<Rightarrow> nat \<Rightarrow> threat_error + threat_ip_prefix list" where
  "decode_prefixes bytes offset 0 = Inr []"
| "decode_prefixes bytes offset (Suc n) =
     bind_res (decode_prefix bytes offset) (\<lambda>p.
       bind_res (decode_prefixes bytes (offset + 18) n) (\<lambda>ps. Inr (p # ps)))"

definition threat_decode_cache :: "u8 list \<Rightarrow> threat_error + threat_snapshot" where
  "threat_decode_cache bytes =
     (if length bytes < 18 then Inl ThreatTooShort
      else if slice bytes 0 4 \<noteq> threat_cache_magic then Inl ThreatInvalidMagic
      else let version = from_be (slice bytes 4 6) :: u16
           in if version \<noteq> threat_cache_version then Inl (ThreatUnsupportedVersion version)
              else let created = from_be (slice bytes 6 14) :: u64;
                       count = unat (from_be (slice bytes 14 18) :: u32);
                       expected = 18 + count * 18
                   in if length bytes \<noteq> expected then Inl (ThreatInvalidLength (length bytes) expected)
                      else bind_res (decode_prefixes bytes 18 count) (\<lambda>prefixes.
                        Inr ((build_snapshot 0 prefixes)\<lparr>th_created_at_epoch_seconds := created\<rparr>)))"

text \<open>The file's bytes, or \<open>None\<close> when it cannot be read.\<close>

definition threat_load_cache_or_embedded :: "u8 list option \<Rightarrow> threat_error + threat_snapshot" where
  "threat_load_cache_or_embedded file =
     (case file of Some bytes \<Rightarrow> threat_decode_cache bytes
      | None \<Rightarrow> threat_decode_cache embedded_threat_cache)"

section \<open>Policy and runtime\<close>

record threat_policy =
  tpol_enabled :: bool
  tpol_fail_open :: bool

datatype threat_decision = ThreatAllow | ThreatDrop string

definition threat_policy_from_config :: "effective_proxy_threat_intel_security_config \<Rightarrow> threat_policy" where
  "threat_policy_from_config c = \<lparr>tpol_enabled = te_enabled c, tpol_fail_open = te_fail_open c\<rparr>"

definition evaluate_threat_policy ::
  "threat_policy \<Rightarrow> threat_snapshot option \<Rightarrow> ip_addr \<Rightarrow> threat_decision" where
  "evaluate_threat_policy policy runtime ip =
     (if \<not> tpol_enabled policy then ThreatAllow
      else case runtime of
          None \<Rightarrow> if tpol_fail_open policy then ThreatAllow else ThreatDrop ''threat-intel-unavailable''
        | Some s \<Rightarrow> if threat_contains s ip then ThreatDrop ''threat-intel'' else ThreatAllow)"

record threat_source_config =
  tsrc_cache_path :: string
  tsrc_refresh_interval :: duration
  tsrc_startup_refresh :: proxy_geo_startup_refresh
  tsrc_request_timeout :: duration
  tsrc_request_retries :: u32
  tsrc_allow_partial :: bool
  tsrc_sources :: "effective_proxy_threat_intel_source_config list"

definition same_threat_source ::
  "effective_proxy_threat_intel_security_config \<Rightarrow> effective_proxy_threat_intel_security_config \<Rightarrow> bool" where
  "same_threat_source c s \<longleftrightarrow>
     te_cache_dir c = te_cache_dir s \<and> te_refresh_interval_seconds c = te_refresh_interval_seconds s
     \<and> te_startup_refresh c = te_startup_refresh s
     \<and> te_request_timeout_seconds c = te_request_timeout_seconds s
     \<and> te_request_retries c = te_request_retries s \<and> te_allow_partial c = te_allow_partial s
     \<and> te_sources c = te_sources s"

definition threat_source_from_configs ::
  "(string \<Rightarrow> string \<Rightarrow> string) \<Rightarrow> effective_proxy_threat_intel_security_config list
   \<Rightarrow> threat_error + threat_source_config" where
  "threat_source_from_configs join configs =
     (let source = hd configs
      in if list_ex (\<lambda>c. \<not> same_threat_source c source) (tl configs) then Inl ThreatConfigsDiffer
         else Inr \<lparr>tsrc_cache_path = join (te_cache_dir source) ''threat.sthr'',
           tsrc_refresh_interval = from_secs (unat (te_refresh_interval_seconds source)),
           tsrc_startup_refresh = te_startup_refresh source,
           tsrc_request_timeout = from_secs (unat (te_request_timeout_seconds source)),
           tsrc_request_retries = te_request_retries source,
           tsrc_allow_partial = te_allow_partial source,
           tsrc_sources = te_sources source\<rparr>)"

record threat_runtime =
  thr_source :: threat_source_config
  thr_snapshot :: threat_snapshot

definition threat_runtime_new ::
  "(string \<Rightarrow> string \<Rightarrow> string) \<Rightarrow> (string \<Rightarrow> u8 list option)
   \<Rightarrow> effective_proxy_security_config list \<Rightarrow> threat_error + threat_runtime option" where
  "threat_runtime_new join read_file configs =
     (let enabled = filter te_enabled (map se_threat_intel configs)
      in if enabled = [] then Inr None
         else bind_res (threat_source_from_configs join enabled) (\<lambda>source.
           bind_res (threat_load_cache_or_embedded (read_file (tsrc_cache_path source))) (\<lambda>snapshot.
             Inr (Some \<lparr>thr_source = source, thr_snapshot = snapshot\<rparr>))))"

definition threat_refresh_once ::
  "(string \<Rightarrow> json option) \<Rightarrow> u64 \<Rightarrow> feed_result list \<Rightarrow> bool \<Rightarrow> threat_runtime
   \<Rightarrow> (threat_error + unit) \<times> u8 list option \<times> threat_runtime" where
  "threat_refresh_once parse_json now results write_ok rt =
     (if tsrc_sources (thr_source rt) = [] then (Inr (), None, rt)
      else case fetch_threat_snapshot parse_json now (tsrc_allow_partial (thr_source rt)) results of
          Inl e \<Rightarrow> (Inl e, None, rt)
        | Inr snapshot \<Rightarrow>
            if write_ok then (Inr (), Some (threat_encode_cache snapshot), rt\<lparr>thr_snapshot := snapshot\<rparr>)
            else (Inl ThreatWriteFailed, None, rt))"

section \<open>Parsers produce valid prefixes\<close>

definition tp_valid :: "threat_ip_prefix \<Rightarrow> bool" where
  "tp_valid p \<longleftrightarrow> tp_prefix p \<le> max_prefix (tp_addr p)"

lemma parse_prefix_valid: "parse_prefix t = Inr (Some p) \<Longrightarrow> tp_valid p"
  by (auto simp: parse_prefix_def Let_def tp_valid_def validate_prefix_def max_prefix_def
      bind_res_Inr_iff split: if_splits option.splits ip_addr.splits)

lemma push_some_valid:
  "parse_prefix t = Inr r \<Longrightarrow> list_all tp_valid acc \<Longrightarrow> list_all tp_valid (push_some acc r)"
  by (auto simp: push_some_def parse_prefix_valid split: option.split)

lemma parse_lines_valid:
  "parse_lines ls acc = Inr ps \<Longrightarrow> list_all tp_valid acc \<Longrightarrow> list_all tp_valid ps"
proof (induction ls arbitrary: acc)
  case (Cons l ls)
  then show ?case
    by (cases "first_prefix_token l") (auto simp: bind_res_Inr_iff intro: push_some_valid)
qed simp

lemma parse_ipsum_lines_valid:
  "parse_ipsum_lines m ls acc = Inr ps \<Longrightarrow> list_all tp_valid acc \<Longrightarrow> list_all tp_valid ps"
proof (induction ls arbitrary: acc)
  case (Cons l ls)
  then show ?case
    by (auto simp: bind_res_Inr_iff intro: push_some_valid split: list.splits if_splits)
qed simp

lemma collect_json_valid:
  "collect_json_cidrs j acc = Inr ps \<Longrightarrow> list_all tp_valid acc \<Longrightarrow> list_all tp_valid ps"
  "collect_json_items js acc = Inr ps \<Longrightarrow> list_all tp_valid acc \<Longrightarrow> list_all tp_valid ps"
proof (induction j acc and js acc arbitrary: ps and ps rule: collect_json_cidrs_collect_json_items.induct)
  case (2 m prefixes)
  then show ?case
    by (auto simp: bind_res_Inr_iff intro: push_some_valid split: option.splits)
qed (auto simp: bind_res_Inr_iff)

lemma parse_threat_feed_valid:
  assumes "parse_threat_feed pj feed body = Inr ps"
  shows "list_all tp_valid ps"
proof -
  have lines: "parse_line_prefixes body = Inr ps \<Longrightarrow> list_all tp_valid ps"
    using parse_lines_valid [of "str_lines body" "[]"] by (simp add: parse_line_prefixes_def)
  have ipsum: "parse_ipsum body m = Inr ps \<Longrightarrow> list_all tp_valid ps" for m
    using parse_ipsum_lines_valid [of m "str_lines body" "[]"] by (simp add: parse_ipsum_def)
  have "parse_spamhaus_drop pj body = Inr ps \<Longrightarrow> list_all tp_valid ps"
    using lines collect_json_valid(1) [of _ "[]"]
    by (auto simp: parse_spamhaus_drop_def bind_res_Inr_iff split: option.splits if_splits)
  with assms lines ipsum show ?thesis
    by (auto simp: parse_threat_feed_def split: proxy_threat_intel_format.splits)
qed

section \<open>Blocks, ranges and normal form\<close>

lemma prefix_range_iff:
  fixes a x :: "'n::len word"
  assumes "unat p \<le> LENGTH('n)" "prefix_range a p = (s, e)"
  shows "s \<le> x \<and> x \<le> e \<longleftrightarrow> unat a div 2 ^ (LENGTH('n) - unat p) = unat x div 2 ^ (LENGTH('n) - unat p)"
proof (cases "p = 0")
  case True
  with assms(2) have "s = 0" "e = - 1" by (auto simp: prefix_range_def mask_range_def)
  then show ?thesis using True by (simp add: unsigned_less)
next
  case False
  with assms(2) have "mask_range a (prefix_mask (unat p)) = (s, e)" by (simp add: prefix_range_def)
  from mask_range_iff [OF assms(1) this] show ?thesis by (simp add: mask_eq_iff_div [OF assms(1)])
qed

lemma prefix_range_le:
  fixes a :: "'n::len word"
  assumes "unat p \<le> LENGTH('n)" "prefix_range a p = (s, e)"
  shows "s \<le> e"
  using prefix_range_iff [OF assms, of a] by auto

lemma prefix_range_start:
  fixes a :: "'n::len word"
  assumes "unat p \<le> LENGTH('n)"
  shows "unat (fst (prefix_range a p)) div 2 ^ (LENGTH('n) - unat p) = unat a div 2 ^ (LENGTH('n) - unat p)"
    and "fst (prefix_range (fst (prefix_range a p)) p) = fst (prefix_range a p)"
proof -
  obtain s e where se: "prefix_range a p = (s, e)" by (cases "prefix_range a p")
  show "unat (fst (prefix_range a p)) div 2 ^ (LENGTH('n) - unat p) = unat a div 2 ^ (LENGTH('n) - unat p)"
    using prefix_range_iff [OF assms se, of s] prefix_range_le [OF assms se] by (simp add: se)
  show "fst (prefix_range (fst (prefix_range a p)) p) = fst (prefix_range a p)"
    by (simp add: prefix_range_def mask_range_def Let_def and.assoc)
qed

definition tp_matches :: "threat_ip_prefix \<Rightarrow> ip_addr \<Rightarrow> bool" where
  "tp_matches p ip \<longleftrightarrow> in_block (tp_addr p) (unat (tp_prefix p)) ip"

lemma tp_valid_bounds:
  "tp_valid p \<Longrightarrow> tp_addr p = V4 a \<Longrightarrow> unat (tp_prefix p) \<le> 32"
  "tp_valid p \<Longrightarrow> tp_addr p = V6 b \<Longrightarrow> unat (tp_prefix p) \<le> 128"
  by (simp_all add: tp_valid_def max_prefix_def word_le_nat_alt)

lemma normalize_prefix_valid [simp]: "tp_valid (normalize_prefix p) \<longleftrightarrow> tp_valid p"
  by (auto simp: tp_valid_def normalize_prefix_def max_prefix_def split: ip_addr.split)

lemma normalize_prefix_matches:
  assumes "tp_valid p"
  shows "tp_matches (normalize_prefix p) ip \<longleftrightarrow> tp_matches p ip"
  using tp_valid_bounds [OF assms]
    prefix_range_start(1) [of "tp_prefix p" a for a :: u32] prefix_range_start(1) [of "tp_prefix p" a for a :: u128]
  by (cases "tp_addr p"; cases ip) (simp_all add: tp_matches_def normalize_prefix_def)

lemma normalize_prefix_idem:
  assumes "tp_valid p"
  shows "normalize_prefix (normalize_prefix p) = normalize_prefix p"
  using tp_valid_bounds [OF assms]
    prefix_range_start(2) [of "tp_prefix p" a for a :: u32] prefix_range_start(2) [of "tp_prefix p" a for a :: u128]
  by (cases "tp_addr p") (simp_all add: normalize_prefix_def)

lemma set_push_unique: "set (push_unique ps acc) = set acc \<union> normalize_prefix ` set ps"
  by (induction ps arbitrary: acc) auto

lemma distinct_push_unique: "distinct acc \<Longrightarrow> distinct (push_unique ps acc)"
  by (induction ps arbitrary: acc) auto

lemma push_unique_normal:
  "distinct (acc @ ps) \<Longrightarrow> \<forall>p \<in> set ps. normalize_prefix p = p \<Longrightarrow> push_unique ps acc = acc @ ps"
  by (induction ps arbitrary: acc) auto

lemma ucast_32_128_inject: "(ucast (a :: u32) :: u128) = ucast b \<longleftrightarrow> a = b"
proof -
  have "unat (ucast w :: u128) = unat w" for w :: u32
  proof -
    have "unat w < 2 ^ 32" using unsigned_less [of w] by simp
    then show ?thesis by (simp add: unsigned_ucast_eq take_bit_nat_eq_self)
  qed
  then show ?thesis by (metis word_unat_eq_iff)
qed

lemma prefix_key_inject: "prefix_key p = prefix_key q \<longleftrightarrow> p = q"
  by (cases "tp_addr p"; cases "tp_addr q"; cases p; cases q)
    (auto simp: prefix_key_def ucast_32_128_inject)

lemma normalized_set_eq:
  assumes "set ps = set qs"
  shows "sort_key prefix_key (push_unique ps []) = sort_key prefix_key (push_unique qs [])"
proof (rule sort_key_inj_key_eq)
  show "mset (push_unique ps []) = mset (sort_key prefix_key (push_unique qs []))"
    using assms by (simp add: set_eq_iff_mset_eq_distinct [symmetric] distinct_push_unique set_push_unique)
  show "inj_on prefix_key (set (push_unique ps []))"
    by (rule inj_onI) (simp add: prefix_key_inject)
qed simp

section \<open>The merged tables\<close>

lemma merge_ranges_push:
  "merge_ranges rs = foldl (merge_push t_start t_end (\<lambda>r e. r\<lparr>t_end := e\<rparr>) (\<lambda>a b. () = ())) []
     (sort_key (\<lambda>r. (t_start r, t_end r)) rs)"
  by (simp add: merge_ranges_def)

lemma threat_sorted_by_start:
  "sorted_wrt (\<lambda>a b. t_start a \<le> t_start b) (sort_key (\<lambda>r. (t_start r, t_end r)) rs)"
proof -
  have "sorted (map (\<lambda>r. (t_start r, t_end r)) (sort_key (\<lambda>r. (t_start r, t_end r)) rs))" by simp
  then show ?thesis
    unfolding sorted_map
    by (rule sorted_wrt_mono_rel [rotated]) (auto simp: less_eq_prod_def less_prod_def intro: order_less_imp_le)
qed

lemma merge_ranges_lookup:
  assumes "\<forall>r \<in> set rs. t_start r \<le> t_end r"
  shows "threat_lookup (merge_ranges rs) x \<longleftrightarrow> (\<exists>r \<in> set rs. t_start r \<le> x \<and> x \<le> t_end r)"
proof -
  have covers: "(\<exists>r \<in> set (merge_ranges rs). in_range t_start t_end x r) \<longleftrightarrow>
      (\<exists>r \<in> set rs. in_range t_start t_end x r)"
    using threat_table.foldl_push_covers [OF threat_sorted_by_start [of rs], of "[]" "()" x]
    by (simp add: merge_ranges_push)
  have "wf_ranges t_start t_end (merge_ranges rs)"
    unfolding wf_ranges_def
  proof
    show "\<forall>r \<in> set (merge_ranges rs). t_start r \<le> t_end r"
      using threat_table.foldl_push_bounds [of "[]" "sort_key (\<lambda>r. (t_start r, t_end r)) rs"] assms
      by (simp add: merge_ranges_push)
    show "non_overlapping t_start t_end (merge_ranges rs)"
      using threat_table.foldl_push_non_overlapping [of "[]" "sort_key (\<lambda>r. (t_start r, t_end r)) rs"]
      by (simp add: merge_ranges_push)
  qed
  from threat_table.range_search_iff [OF this, of x]
  have "threat_lookup (merge_ranges rs) x \<longleftrightarrow> (\<exists>r \<in> set (merge_ranges rs). in_range t_start t_end x r)"
    by (auto simp: threat_lookup_def)
  with covers show ?thesis by (simp add: in_range_def)
qed

lemma set_ranges_v4:
  "set (ranges_v4 ps) = {\<lparr>t_start = s, t_end = e\<rparr> | s e p a. p \<in> set ps \<and> tp_addr p = V4 a \<and>
     prefix_range a (tp_prefix p) = (s, e)}"
  by (auto simp: ranges_v4_def map_filter_def image_iff split: ip_addr.splits prod.splits) force+

lemma set_ranges_v6:
  "set (ranges_v6 ps) = {\<lparr>t_start = s, t_end = e\<rparr> | s e p a. p \<in> set ps \<and> tp_addr p = V6 a \<and>
     prefix_range a (tp_prefix p) = (s, e)}"
  by (auto simp: ranges_v6_def map_filter_def image_iff split: ip_addr.splits prod.splits) force+

lemma ranges_bounds:
  assumes "list_all tp_valid ps"
  shows "\<forall>r \<in> set (ranges_v4 ps). t_start r \<le> t_end r" "\<forall>r \<in> set (ranges_v6 ps). t_start r \<le> t_end r"
proof -
  have "s \<le> e" if "p \<in> set ps" "tp_addr p = V4 a" "prefix_range a (tp_prefix p) = (s, e)" for p a s e
    using prefix_range_le [of "tp_prefix p" a s e] tp_valid_bounds(1) [of p a] that assms
    by (simp add: list_all_iff)
  then show "\<forall>r \<in> set (ranges_v4 ps). t_start r \<le> t_end r" by (auto simp: set_ranges_v4)
  have "s \<le> e" if "p \<in> set ps" "tp_addr p = V6 a" "prefix_range a (tp_prefix p) = (s, e)" for p a s e
    using prefix_range_le [of "tp_prefix p" a s e] tp_valid_bounds(2) [of p a] that assms
    by (simp add: list_all_iff)
  then show "\<forall>r \<in> set (ranges_v6 ps). t_start r \<le> t_end r" by (auto simp: set_ranges_v6)
qed

lemma ranges_match:
  assumes "list_all tp_valid ps"
  shows "(\<exists>r \<in> set (ranges_v4 ps). t_start r \<le> x \<and> x \<le> t_end r) \<longleftrightarrow> (\<exists>p \<in> set ps. tp_matches p (V4 x))"
    and "(\<exists>r \<in> set (ranges_v6 ps). t_start r \<le> y \<and> y \<le> t_end r) \<longleftrightarrow> (\<exists>p \<in> set ps. tp_matches p (V6 y))"
proof -
  have "(\<exists>s e. prefix_range a (tp_prefix p) = (s, e) \<and> s \<le> x \<and> x \<le> e) \<longleftrightarrow> tp_matches p (V4 x)"
    if "p \<in> set ps" "tp_addr p = V4 a" for p a
    using prefix_range_iff [of "tp_prefix p" a _ _ x] tp_valid_bounds(1) [of p a] that assms
    by (cases "prefix_range a (tp_prefix p)") (simp add: list_all_iff tp_matches_def)
  then have v4: "(\<exists>a s e. tp_addr p = V4 a \<and> prefix_range a (tp_prefix p) = (s, e) \<and> s \<le> x \<and> x \<le> e) \<longleftrightarrow>
      tp_matches p (V4 x)" if "p \<in> set ps" for p
    using that by (cases "tp_addr p") (auto simp: tp_matches_def)
  have "(\<exists>r \<in> set (ranges_v4 ps). t_start r \<le> x \<and> x \<le> t_end r) \<longleftrightarrow>
      (\<exists>p \<in> set ps. \<exists>a s e. tp_addr p = V4 a \<and> prefix_range a (tp_prefix p) = (s, e) \<and> s \<le> x \<and> x \<le> e)"
    unfolding set_ranges_v4 by fastforce
  with v4 show "(\<exists>r \<in> set (ranges_v4 ps). t_start r \<le> x \<and> x \<le> t_end r) \<longleftrightarrow> (\<exists>p \<in> set ps. tp_matches p (V4 x))"
    by simp
  have "(\<exists>s e. prefix_range a (tp_prefix p) = (s, e) \<and> s \<le> y \<and> y \<le> e) \<longleftrightarrow> tp_matches p (V6 y)"
    if "p \<in> set ps" "tp_addr p = V6 a" for p a
    using prefix_range_iff [of "tp_prefix p" a _ _ y] tp_valid_bounds(2) [of p a] that assms
    by (cases "prefix_range a (tp_prefix p)") (simp add: list_all_iff tp_matches_def)
  then have v6: "(\<exists>a s e. tp_addr p = V6 a \<and> prefix_range a (tp_prefix p) = (s, e) \<and> s \<le> y \<and> y \<le> e) \<longleftrightarrow>
      tp_matches p (V6 y)" if "p \<in> set ps" for p
    using that by (cases "tp_addr p") (auto simp: tp_matches_def)
  have "(\<exists>r \<in> set (ranges_v6 ps). t_start r \<le> y \<and> y \<le> t_end r) \<longleftrightarrow>
      (\<exists>p \<in> set ps. \<exists>a s e. tp_addr p = V6 a \<and> prefix_range a (tp_prefix p) = (s, e) \<and> s \<le> y \<and> y \<le> e)"
    unfolding set_ranges_v6 by fastforce
  with v6 show "(\<exists>r \<in> set (ranges_v6 ps). t_start r \<le> y \<and> y \<le> t_end r) \<longleftrightarrow> (\<exists>p \<in> set ps. tp_matches p (V6 y))"
    by simp
qed

lemma normalized_prefixes:
  assumes "list_all tp_valid ps"
  shows "list_all tp_valid (sort_key prefix_key (push_unique ps []))"
    and "(\<exists>p \<in> set (sort_key prefix_key (push_unique ps [])). tp_matches p ip) \<longleftrightarrow> (\<exists>p \<in> set ps. tp_matches p ip)"
  using assms by (auto simp: list_all_iff set_push_unique normalize_prefix_matches)

lemma build_snapshot_contains:
  assumes "list_all tp_valid ps"
  shows "threat_contains (build_snapshot now ps) ip \<longleftrightarrow> (\<exists>p \<in> set ps. tp_matches p ip)"
proof -
  note n = normalized_prefixes(1) [OF assms]
  show ?thesis
    unfolding normalized_prefixes(2) [OF assms, of ip, symmetric]
    by (cases ip) (simp_all add: build_snapshot_def Let_def merge_ranges_lookup ranges_bounds [OF n]
        ranges_match [OF n])
qed

text \<open>Collecting the feeds.\<close>

lemma collect_feeds_Inr:
  "collect_feeds pj ap rs l k acc = Inr (l', k', ps) \<Longrightarrow> list_all tp_valid acc \<Longrightarrow>
     list_all tp_valid ps \<and> (\<forall>p. p \<in> set ps \<longleftrightarrow> p \<in> set acc \<or>
       (\<exists>feed body fs. FeedFetched feed body \<in> set rs \<and> parse_threat_feed pj feed body = Inr fs \<and> p \<in> set fs))"
proof (induction rs arbitrary: l k acc)
  case Nil
  then show ?case by simp
next
  case (Cons r rs)
  show ?case
  proof (cases r)
    case FeedJoinFailed
    with Cons.prems show ?thesis by simp
  next
    case FeedFetchFailed
    with Cons.prems have "collect_feeds pj ap rs l (Suc k) acc = Inr (l', k', ps)"
      by (simp split: if_splits)
    from Cons.IH [OF this Cons.prems(2)] FeedFetchFailed show ?thesis by auto
  next
    case (FeedFetched feed body)
    show ?thesis
    proof (cases "parse_threat_feed pj feed body")
      case (Inl e)
      with FeedFetched Cons.prems have "collect_feeds pj ap rs l (Suc k) acc = Inr (l', k', ps)"
        by (simp split: if_splits)
      from Cons.IH [OF this Cons.prems(2)] FeedFetched Inl show ?thesis by auto
    next
      case (Inr fs)
      with FeedFetched Cons.prems have "collect_feeds pj ap rs (Suc l) k (acc @ fs) = Inr (l', k', ps)"
        by simp
      from Cons.IH [OF this] Cons.prems(2) parse_threat_feed_valid [OF Inr] FeedFetched Inr
      show ?thesis by auto
    qed
  qed
qed

section \<open>Cache format\<close>

lemma length_encode_prefix [simp]: "length (encode_prefix p) = 18"
  by (simp add: encode_prefix_def split: ip_addr.split)

lemma slice_append: "slice (h @ bs) (length h + i) (length h + j) = slice bs i j"
  by (simp add: slice_def)

lemma decode_encode_prefix:
  assumes "tp_valid p"
  shows "decode_prefix (h @ encode_prefix p @ r) (length h) = Inr p"
proof -
  have ucast_id: "ucast (ucast a :: u128) = a" for a :: u32
    using ucast_32_128_inject by (simp add: ucast_up_ucast_id is_up)
  have nth: "(h @ f # q # xs) ! Suc (length h) = q" for xs :: "u8 list" and f q by (simp add: nth_append)
  have at: "(h @ xs) ! length h = xs ! 0" for xs :: "u8 list" by (simp add: nth_append)
  have sl: "slice (h @ [f, q] @ to_be 16 w @ r) (length h + 2) (length h + 18) = to_be 16 w" for f q and w :: u128
    using slice_append [of h "[f, q] @ to_be 16 w @ r" 2 18] by (simp add: slice_def)
  show ?thesis
    using assms sl
    by (cases p; cases "tp_addr p")
      (simp_all add: decode_prefix_def encode_prefix_def at nth validate_prefix_def tp_valid_def max_prefix_def
        from_be_to_be ucast_id)
qed

lemma decode_encode_prefixes:
  "list_all tp_valid ps \<Longrightarrow>
     decode_prefixes (h @ concat (map encode_prefix ps)) (length h) (length ps) = Inr ps"
proof (induction ps arbitrary: h)
  case Nil
  show ?case by simp
next
  case (Cons p ps)
  have "decode_prefixes ((h @ encode_prefix p) @ concat (map encode_prefix ps)) (length (h @ encode_prefix p))
      (length ps) = Inr ps"
    using Cons by (intro Cons.IH) simp
  with Cons.prems decode_encode_prefix [of p h "concat (map encode_prefix ps)"] show ?case by simp
qed

lemma threat_decode_encode:
  assumes "list_all tp_valid (th_prefixes s)" "length (th_prefixes s) < 2 ^ 32"
  shows "threat_decode_cache (threat_encode_cache s) =
    Inr ((build_snapshot 0 (th_prefixes s))\<lparr>th_created_at_epoch_seconds := th_created_at_epoch_seconds s\<rparr>)"
proof -
  let ?n = "word_of_nat (length (th_prefixes s)) :: u32"
  let ?c = "concat (map encode_prefix (th_prefixes s))"
  let ?h = "threat_cache_magic @ to_be 2 threat_cache_version @ to_be 8 (th_created_at_epoch_seconds s) @ to_be 4 ?n"
  have n: "unat ?n = length (th_prefixes s)" using assms(2) by (simp add: unat_of_nat)
  have h: "length ?h = 18" by (simp add: threat_cache_magic_def)
  have enc: "threat_encode_cache s = ?h @ ?c" by (simp add: threat_encode_cache_def)
  have lenc: "length ?c = length (th_prefixes s) * 18"
    by (simp add: length_concat comp_def sum_list_triv)
  have "slice (?h @ ?c) 0 4 = threat_cache_magic"
    "slice (?h @ ?c) 4 6 = to_be 2 threat_cache_version"
    "slice (?h @ ?c) 6 14 = to_be 8 (th_created_at_epoch_seconds s)"
    "slice (?h @ ?c) 14 18 = to_be 4 ?n"
    by (simp_all add: slice_def threat_cache_magic_def)
  moreover have "decode_prefixes (?h @ ?c) 18 (length (th_prefixes s)) = Inr (th_prefixes s)"
    using decode_encode_prefixes [OF assms(1), of ?h] by (simp only: h)
  ultimately show ?thesis
    unfolding enc threat_decode_cache_def
    using h lenc by (simp only: from_be_to_be len_num1 len_bit0 len_num0 n) (simp add: from_be_to_be n)
qed

lemma rebuild_normalized:
  assumes "list_all tp_valid ps"
  shows "(build_snapshot 0 (th_prefixes (build_snapshot now ps)))\<lparr>th_created_at_epoch_seconds := now\<rparr> =
    build_snapshot now ps"
proof -
  let ?N = "sort_key prefix_key (push_unique ps [])"
  have "\<forall>p \<in> set ?N. normalize_prefix p = p"
    using assms by (auto simp: set_push_unique list_all_iff normalize_prefix_idem)
  then have "push_unique ?N [] = ?N"
    by (simp add: push_unique_normal distinct_push_unique)
  then have "sort_key prefix_key (push_unique ?N []) = ?N"
    by (simp add: sort_key_id_if_sorted)
  then show ?thesis by (simp add: build_snapshot_def Let_def)
qed

section \<open>Properties\<close>

text \<open>
  C19: what the threat filter drops.  When a refresh succeeds and the policy is enabled, a
  packet is dropped exactly when its source lies in a CIDR block that some downloaded,
  parseable feed lists; the XDP filter is given prefixes that match exactly the same
  addresses.
\<close>

theorem threat_fetch_decision:
  assumes "fetch_threat_snapshot parse_json now allow_partial results = Inr s" "tpol_enabled policy"
  shows "(evaluate_threat_policy policy (Some s) ip = ThreatDrop ''threat-intel'' \<longleftrightarrow>
      (\<exists>feed body ps p. FeedFetched feed body \<in> set results \<and> parse_threat_feed parse_json feed body = Inr ps \<and>
         p \<in> set ps \<and> in_block (tp_addr p) (unat (tp_prefix p)) ip)) \<and>
    (evaluate_threat_policy policy (Some s) ip = ThreatDrop ''threat-intel'' \<longleftrightarrow>
      (\<exists>p \<in> set (threat_xdp_prefixes s). in_block (tp_addr p) (unat (tp_prefix p)) ip))"
proof -
  obtain l k ps where c: "collect_feeds parse_json allow_partial results 0 0 [] = Inr (l, k, ps)"
    and s: "s = build_snapshot now ps"
    using assms(1) by (auto simp: fetch_threat_snapshot_def bind_res_Inr_iff split: if_splits)
  note cf = collect_feeds_Inr [OF c, simplified]
  have dec: "evaluate_threat_policy policy (Some s) ip = ThreatDrop ''threat-intel'' \<longleftrightarrow>
      (\<exists>p \<in> set ps. tp_matches p ip)"
    using assms(2) cf by (simp add: evaluate_threat_policy_def s build_snapshot_contains)
  moreover have "(\<exists>p \<in> set (threat_xdp_prefixes s). tp_matches p ip) \<longleftrightarrow> (\<exists>p \<in> set ps. tp_matches p ip)"
    using cf normalized_prefixes(2) [of ps ip]
    by (simp add: threat_xdp_prefixes_def s build_snapshot_def Let_def)
  ultimately show ?thesis
    using cf unfolding tp_matches_def by blast
qed

lemma feed_example:
  "str_lines ''# feed
10.0.0.0/8 ; x
'' = [''# feed'', ''10.0.0.0/8 ; x'']"
  "split_whitespace (strip_comment ''# feed'') = []"
  "split_whitespace (strip_comment ''10.0.0.0/8 ; x'') = [''10.0.0.0/8'']"
  "trim_matches (\<lambda>c. c = CHR 0x22) (trim_matches (\<lambda>c. c = CHR '','') (trim ''10.0.0.0/8'')) = ''10.0.0.0/8''"
  by code_simp+

lemma feed_example_parse:
  "parse_prefix ''10.0.0.0/8'' = Inr (Some \<lparr>tp_addr = V4 0x0A000000, tp_prefix = 8\<rparr>)"
proof -
  have "parse_uint 255 ''8'' = Some 8" by code_simp
  moreover have "parse_ip ''10.0.0.0'' = Some (V4 0x0A000000)" by (simp add: net_eval cong: net_cong)
  ultimately show ?thesis
    by (simp add: parse_prefix_def feed_example parse_u8_def validate_prefix_def)
qed

lemma feed_example_feed:
  "parse_threat_feed (\<lambda>_. None)
     \<lparr>es_name = ''f'', es_url = ''u'', es_format = FormatCidr, es_min_score = None\<rparr> ''# feed
10.0.0.0/8 ; x
'' = Inr [\<lparr>tp_addr = V4 0x0A000000, tp_prefix = 8\<rparr>]"
  by (simp add: parse_threat_feed_def parse_line_prefixes_def feed_example first_prefix_token_def
      feed_example_parse push_some_def)

theorem threat_fetch_decision_witness:
  "\<exists>s. fetch_threat_snapshot (\<lambda>_. None) 7 True
      [FeedFetchFailed, FeedFetched \<lparr>es_name = ''f'', es_url = ''u'', es_format = FormatCidr, es_min_score = None\<rparr>
       ''# feed
10.0.0.0/8 ; x
''] = Inr s \<and>
    evaluate_threat_policy \<lparr>tpol_enabled = True, tpol_fail_open = True\<rparr> (Some s) (V4 0x0A010203) =
      ThreatDrop ''threat-intel''"
proof -
  let ?rs = "[FeedFetchFailed, FeedFetched \<lparr>es_name = ''f'', es_url = ''u'', es_format = FormatCidr, es_min_score = None\<rparr>
       ''# feed
10.0.0.0/8 ; x
'']"
  let ?p = "\<lparr>tp_addr = V4 0x0A000000, tp_prefix = 8\<rparr> :: threat_ip_prefix"
  have f: "fetch_threat_snapshot (\<lambda>_. None) 7 True ?rs = Inr (build_snapshot 7 [?p])"
    by (simp add: fetch_threat_snapshot_def feed_example_feed)
  have "in_block (tp_addr ?p) (unat (tp_prefix ?p)) (V4 0x0A010203)" by simp
  then have "evaluate_threat_policy \<lparr>tpol_enabled = True, tpol_fail_open = True\<rparr>
      (Some (build_snapshot 7 [?p])) (V4 0x0A010203) = ThreatDrop ''threat-intel''"
    using threat_fetch_decision [OF f, of "\<lparr>tpol_enabled = True, tpol_fail_open = True\<rparr>" "V4 0x0A010203"]
      feed_example_feed by simp
  with f show ?thesis by blast
qed

text \<open>
  The threat table is a function of the set of prefixes: neither the order in which the
  feeds arrive nor repeated entries change the snapshot.
\<close>

lemma threat_build_set_only:
  assumes "set ps = set qs"
  shows "build_snapshot now ps = build_snapshot now qs"
  using normalized_set_eq [OF assms] by (simp add: build_snapshot_def)

text \<open>
  What a refresh writes to the threat cache is what the next start reads: for valid
  prefixes and at most \<open>2 ^ 32 - 1\<close> entries after deduplication, decoding the encoding of
  a built snapshot gives the same snapshot, tables included.
\<close>

lemma threat_cache_roundtrip:
  assumes "list_all tp_valid ps" "length (th_prefixes (build_snapshot now ps)) < 2 ^ 32"
  shows "threat_load_cache_or_embedded (Some (threat_encode_cache (build_snapshot now ps))) =
    Inr (build_snapshot now ps)"
proof -
  have "list_all tp_valid (th_prefixes (build_snapshot now ps))"
    using normalized_prefixes(1) [OF assms(1)] by (simp add: build_snapshot_def Let_def)
  then show ?thesis
    using threat_decode_encode [OF _ assms(2)] rebuild_normalized [OF assms(1), of now]
    by (simp add: threat_load_cache_or_embedded_def build_snapshot_def Let_def)
qed

text \<open>
  Unlike the country cache, a threat cache file that exists but does not decode is an
  error: it is passed on by \<open>ThreatRuntime::new\<close>, so start-up fails whenever threat
  intelligence is enabled and its file is corrupt, instead of using the embedded table.
\<close>

lemma threat_corrupt_cache_fails:
  assumes "te_enabled (se_threat_intel c)"
    and "read_file (join (te_cache_dir (se_threat_intel c)) ''threat.sthr'') = Some b"
    and "threat_decode_cache b = Inl e"
  shows "threat_runtime_new join read_file [c] = Inl e"
  using assms by (simp add: threat_runtime_new_def threat_source_from_configs_def Let_def
      threat_load_cache_or_embedded_def)

end
