(* ===== verification/Sharded.thy ===== *)
theory Sharded
  imports Prelude
begin

text \<open>
  The sharded hash maps of \<open>server.rs\<close> (\<open>ShardedStringMap\<close>) and of
  \<open>affinity.rs\<close> (\<open>ShardedAffinityBindings\<close>): a vector of \<open>HashMap\<close>s, each
  behind its own lock, with a key living in the shard its hash selects.  The hash
  (\<open>DefaultHasher\<close>, whose algorithm its documentation leaves unspecified) is the
  parameter \<open>h\<close> of every operation.  The theory shows that, whatever the hash, the
  sharded map keeps the contract \<open>map_store\<close> of a single map: sharding is invisible.
\<close>

section \<open>Operations\<close>

type_synonym ('k, 'v) shards = "('k, 'v) hmap list"

definition sharded_new :: "nat \<Rightarrow> ('k, 'v) shards" where
  "sharded_new shards = replicate (max shards 1) hm_empty"

definition string_shard_index :: "('k \<Rightarrow> nat) \<Rightarrow> 'k \<Rightarrow> nat \<Rightarrow> nat" where
  "string_shard_index h key shards = h key mod shards"

definition shard_for_key :: "('k \<Rightarrow> nat) \<Rightarrow> ('k, 'v) shards \<Rightarrow> 'k \<Rightarrow> ('k, 'v) hmap" where
  "shard_for_key h s key = s ! string_shard_index h key (length s)"

text \<open>
  A critical section on the shard of \<open>key\<close>: lock it, replace its map by \<open>f\<close> of it.
\<close>

definition with_shard ::
  "('k \<Rightarrow> nat) \<Rightarrow> 'k \<Rightarrow> (('k, 'v) hmap \<Rightarrow> ('k, 'v) hmap) \<Rightarrow> ('k, 'v) shards \<Rightarrow> ('k, 'v) shards" where
  "with_shard h key f s =
     (let i = string_shard_index h key (length s) in s[i := f (s ! i)])"

definition sharded_get :: "('k \<Rightarrow> nat) \<Rightarrow> ('k, 'v) shards \<Rightarrow> 'k \<Rightarrow> 'v option" where
  "sharded_get h s key = hm_get (shard_for_key h s key) key"

definition sharded_insert :: "('k \<Rightarrow> nat) \<Rightarrow> 'k \<Rightarrow> 'v \<Rightarrow> ('k, 'v) shards \<Rightarrow> ('k, 'v) shards" where
  "sharded_insert h key v s = with_shard h key (hm_insert key v) s"

definition sharded_remove :: "('k \<Rightarrow> nat) \<Rightarrow> 'k \<Rightarrow> ('k, 'v) shards \<Rightarrow> ('k, 'v) shards" where
  "sharded_remove h key s = with_shard h key (hm_remove key) s"

definition sharded_retain :: "('k \<Rightarrow> 'v \<Rightarrow> bool) \<Rightarrow> ('k, 'v) shards \<Rightarrow> ('k, 'v) shards" where
  "sharded_retain f s = map (hm_retain f) s"

definition sharded_total :: "('k, 'v) shards \<Rightarrow> nat" where
  "sharded_total s = sum_list (map hm_len s)"

definition len_after_retain ::
  "('k \<Rightarrow> 'v \<Rightarrow> bool) \<Rightarrow> ('k, 'v) shards \<Rightarrow> nat \<times> ('k, 'v) shards" where
  "len_after_retain f s = (let s' = sharded_retain f s in (sharded_total s', s'))"

definition sharded_entries :: "('k, 'v) shards \<Rightarrow> ('k \<times> 'v) list" where
  "sharded_entries s = concat s"

section \<open>Invariant and contract\<close>

definition sharded_inv :: "('k \<Rightarrow> nat) \<Rightarrow> ('k, 'v) shards \<Rightarrow> bool" where
  "sharded_inv h s \<longleftrightarrow> s \<noteq> [] \<and>
     (\<forall>i < length s. hm_inv (s ! i) \<and>
        (\<forall>k \<in> dom (hm_get (s ! i)). string_shard_index h k (length s) = i))"

lemma sharded_inv_new: "sharded_inv h (sharded_new n)"
  by (auto simp: sharded_inv_def sharded_new_def)

lemma sharded_get_new [simp]: "sharded_get h (sharded_new n) k = None"
  by (simp add: sharded_get_def shard_for_key_def sharded_new_def string_shard_index_def)

lemma index_bound: "s \<noteq> [] \<Longrightarrow> string_shard_index h k (length s) < length s"
  by (simp add: string_shard_index_def)

lemma length_with_shard [simp]: "length (with_shard h k f s) = length s"
  by (simp add: with_shard_def Let_def)

lemma nth_with_shard:
  "i < length s \<Longrightarrow> with_shard h k f s ! i =
     (if i = string_shard_index h k (length s) then f (s ! i) else s ! i)"
  by (simp add: with_shard_def Let_def nth_list_update)

lemma sharded_inv_nonempty: "sharded_inv h s \<Longrightarrow> s \<noteq> []"
  by (simp add: sharded_inv_def)

lemma sharded_inv_shard: "sharded_inv h s \<Longrightarrow> i < length s \<Longrightarrow> hm_inv (s ! i)"
  by (simp add: sharded_inv_def)

lemma sharded_inv_index:
  "sharded_inv h s \<Longrightarrow> i < length s \<Longrightarrow> hm_get (s ! i) k = Some v \<Longrightarrow>
     string_shard_index h k (length s) = i"
  by (auto simp: sharded_inv_def)

text \<open>
  An update of one shard keeps the invariant when it keeps the shard's own invariant and
  adds no key but the locked one.
\<close>

lemma sharded_inv_with_shard:
  assumes inv: "sharded_inv h s"
    and f_inv: "\<And>m. hm_inv m \<Longrightarrow> hm_inv (f m)"
    and f_dom: "\<And>m. hm_inv m \<Longrightarrow> dom (hm_get (f m)) \<subseteq> insert k (dom (hm_get m))"
  shows "sharded_inv h (with_shard h k f s)"
  unfolding sharded_inv_def
proof (intro conjI allI impI ballI)
  show "with_shard h k f s \<noteq> []"
    using inv sharded_inv_nonempty by (metis length_with_shard length_0_conv)
next
  fix i
  assume i: "i < length (with_shard h k f s)"
  then have i': "i < length s" by simp
  then have m: "hm_inv (s ! i)" using inv by (rule sharded_inv_shard [rotated])
  show "hm_inv (with_shard h k f s ! i)"
    using m i' by (auto simp: nth_with_shard f_inv)
  fix x
  assume x: "x \<in> dom (hm_get (with_shard h k f s ! i))"
  show "string_shard_index h x (length (with_shard h k f s)) = i"
  proof (cases "i = string_shard_index h k (length s)")
    case True
    with x i' f_dom [OF m] have "x = k \<or> x \<in> dom (hm_get (s ! i))"
      by (auto simp: nth_with_shard)
    then show ?thesis
      using True inv i' by (auto simp: sharded_inv_index)
  next
    case False
    with x i' inv show ?thesis
      by (auto simp: nth_with_shard sharded_inv_index)
  qed
qed

lemma sharded_get_with_shard_other:
  assumes "sharded_inv h s" "\<And>m. hm_inv m \<Longrightarrow> hm_get (f m) x = hm_get m x"
  shows "sharded_get h (with_shard h k f s) x = sharded_get h s x"
  using assms index_bound [OF sharded_inv_nonempty [OF assms(1)], of h x]
  by (auto simp: sharded_get_def shard_for_key_def nth_with_shard sharded_inv_shard)

lemma sharded_get_with_shard_same:
  assumes "sharded_inv h s"
  shows "sharded_get h (with_shard h k f s) k = hm_get (f (shard_for_key h s k)) k"
  using index_bound [OF sharded_inv_nonempty [OF assms], of h k]
  by (simp add: sharded_get_def shard_for_key_def nth_with_shard)

lemma sharded_get_at:
  assumes "sharded_inv h s" "i < length s" "hm_get (s ! i) k = Some v"
  shows "sharded_get h s k = Some v"
  using assms sharded_inv_index [OF assms] by (simp add: sharded_get_def shard_for_key_def)

lemma shard_for_key_inv: "sharded_inv h s \<Longrightarrow> hm_inv (shard_for_key h s k)"
  by (simp add: shard_for_key_def sharded_inv_shard index_bound sharded_inv_nonempty)

lemma sharded_get_insert:
  assumes "sharded_inv h s"
  shows "sharded_get h (sharded_insert h k v s) = (sharded_get h s)(k \<mapsto> v)"
proof (rule ext)
  fix x
  show "sharded_get h (sharded_insert h k v s) x = ((sharded_get h s)(k \<mapsto> v)) x"
    using assms shard_for_key_inv [OF assms, of k]
    by (cases "x = k")
      (simp_all add: sharded_insert_def sharded_get_with_shard_same hm_simps
        sharded_get_with_shard_other [OF assms])
qed

lemma sharded_get_remove:
  assumes "sharded_inv h s"
  shows "sharded_get h (sharded_remove h k s) = (sharded_get h s)(k := None)"
proof (rule ext)
  fix x
  show "sharded_get h (sharded_remove h k s) x = ((sharded_get h s)(k := None)) x"
    using assms shard_for_key_inv [OF assms, of k]
    by (cases "x = k")
      (simp_all add: sharded_remove_def sharded_get_with_shard_same hm_simps
        sharded_get_with_shard_other [OF assms])
qed

lemma sharded_inv_retain:
  assumes "sharded_inv h s"
  shows "sharded_inv h (sharded_retain P s)"
  unfolding sharded_inv_def
proof (intro conjI allI impI ballI)
  show "sharded_retain P s \<noteq> []"
    using sharded_inv_nonempty [OF assms] by (simp add: sharded_retain_def)
next
  fix i
  assume "i < length (sharded_retain P s)"
  then have i: "i < length s" by (simp add: sharded_retain_def)
  with assms have m: "hm_inv (s ! i)" by (simp add: sharded_inv_shard)
  then show "hm_inv (sharded_retain P s ! i)"
    using i by (simp add: sharded_retain_def hm_simps)
  fix k
  assume "k \<in> dom (hm_get (sharded_retain P s ! i))"
  then have "hm_get (s ! i) k \<noteq> None"
    using i m by (auto simp: sharded_retain_def hm_simps keep_if_eq_Some)
  then show "string_shard_index h k (length (sharded_retain P s)) = i"
    using assms i by (auto simp: sharded_retain_def sharded_inv_index)
qed

lemma sharded_get_retain:
  assumes "sharded_inv h s"
  shows "sharded_get h (sharded_retain P s) k = keep_if P k (sharded_get h s k)"
proof -
  have "shard_for_key h (sharded_retain P s) k = hm_retain P (shard_for_key h s k)"
    using index_bound [OF sharded_inv_nonempty [OF assms], of h k]
    by (simp add: shard_for_key_def sharded_retain_def)
  then show ?thesis
    using shard_for_key_inv [OF assms, of k] by (simp add: sharded_get_def hm_simps)
qed

lemma sharded_dom:
  assumes "sharded_inv h s"
  shows "dom (sharded_get h s) = (\<Union>i < length s. dom (hm_get (s ! i)))"
proof (intro equalityI subsetI)
  fix k
  assume "k \<in> dom (sharded_get h s)"
  then show "k \<in> (\<Union>i < length s. dom (hm_get (s ! i)))"
    using index_bound [OF sharded_inv_nonempty [OF assms], of h k]
    by (auto simp: sharded_get_def shard_for_key_def intro!: bexI)
next
  fix k
  assume "k \<in> (\<Union>i < length s. dom (hm_get (s ! i)))"
  then show "k \<in> dom (sharded_get h s)"
    using sharded_get_at [OF assms] by blast
qed

lemma sharded_total_card:
  assumes "sharded_inv h s"
  shows "sharded_total s = card (dom (sharded_get h s))"
proof -
  have "card (\<Union>i < length s. dom (hm_get (s ! i))) = (\<Sum>i < length s. card (dom (hm_get (s ! i))))"
  proof (rule card_UN_disjoint)
    show "\<forall>i\<in>{..<length s}. finite (dom (hm_get (s ! i)))"
      using assms by (auto simp: sharded_inv_shard hm.finite_dom)
    show "\<forall>i\<in>{..<length s}. \<forall>j\<in>{..<length s}. i \<noteq> j \<longrightarrow>
        dom (hm_get (s ! i)) \<inter> dom (hm_get (s ! j)) = {}"
    proof (intro ballI impI)
      fix i j
      assume "i \<in> {..<length s}" "j \<in> {..<length s}" "i \<noteq> j"
      then show "dom (hm_get (s ! i)) \<inter> dom (hm_get (s ! j)) = {}"
        using sharded_inv_index [OF assms, of i] sharded_inv_index [OF assms, of j] by fastforce
    qed
  qed simp
  also have "\<dots> = (\<Sum>i < length s. hm_len (s ! i))"
    using assms by (intro sum.cong) (auto simp: sharded_inv_shard hm.len_card)
  also have "\<dots> = sharded_total s"
    by (simp add: sharded_total_def sum_list_sum_nth lessThan_atLeast0)
  finally show ?thesis
    by (simp add: sharded_dom [OF assms])
qed

interpretation sharded: map_store "sharded_get h" "sharded_insert h" "sharded_remove h"
  sharded_retain sharded_total "sharded_inv h"
  for h :: "'k \<Rightarrow> nat"
proof unfold_locales
  fix s :: "('k, 'v) shards" and k v
  assume s: "sharded_inv h s"
  show "sharded_inv h (sharded_insert h k v s)"
    unfolding sharded_insert_def by (rule sharded_inv_with_shard [OF s]) (auto simp: hm_simps)
  show "sharded_inv h (sharded_remove h k s)"
    unfolding sharded_remove_def
    by (rule sharded_inv_with_shard [OF s]) (auto simp: hm_simps split: if_splits)
  show "sharded_get h (sharded_insert h k v s) = (sharded_get h s)(k \<mapsto> v)"
    using s by (rule sharded_get_insert)
  show "sharded_get h (sharded_remove h k s) = (sharded_get h s)(k := None)"
    using s by (rule sharded_get_remove)
  show "finite (dom (sharded_get h s))"
    using s by (auto simp: sharded_dom sharded_inv_shard hm.finite_dom)
  show "sharded_total s = card (dom (sharded_get h s))"
    using s by (rule sharded_total_card)
next
  fix s :: "('k, 'v) shards" and P
  assume s: "sharded_inv h s"
  then show "sharded_inv h (sharded_retain P s)" by (rule sharded_inv_retain)
  fix k
  show "sharded_get h (sharded_retain P s) k = keep_if P k (sharded_get h s k)"
    using s by (rule sharded_get_retain)
qed

text \<open>
  Pruning only the locked shard: the entry of the locked key is pruned, entries of other
  shards may stay although they no longer satisfy the predicate.
\<close>

definition prune_shard ::
  "('k \<Rightarrow> nat) \<Rightarrow> 'k \<Rightarrow> ('k \<Rightarrow> 'v \<Rightarrow> bool) \<Rightarrow> ('k, 'v) shards \<Rightarrow> ('k, 'v) shards" where
  "prune_shard h key P s = with_shard h key (hm_retain P) s"

lemma sharded_inv_prune: "sharded_inv h s \<Longrightarrow> sharded_inv h (prune_shard h k P s)"
  unfolding prune_shard_def
  by (rule sharded_inv_with_shard) (auto simp: hm_simps keep_if_eq_Some)

lemma sharded_get_prune:
  assumes "sharded_inv h s"
  shows "sharded_get h (prune_shard h k P s) x =
    (if string_shard_index h x (length s) = string_shard_index h k (length s)
     then keep_if P x (sharded_get h s x) else sharded_get h s x)"
  using assms index_bound [OF sharded_inv_nonempty [OF assms], of h x]
  by (auto simp: prune_shard_def sharded_get_def shard_for_key_def nth_with_shard
      sharded_inv_shard hm_simps)

lemma sharded_get_prune_same:
  "sharded_inv h s \<Longrightarrow> sharded_get h (prune_shard h k P s) k = keep_if P k (sharded_get h s k)"
  by (simp add: sharded_get_prune)

lemma sharded_get_prune_le:
  "sharded_inv h s \<Longrightarrow> sharded_get h (prune_shard h k P s) x = Some v \<Longrightarrow> sharded_get h s x = Some v"
  by (auto simp: sharded_get_prune keep_if_eq_Some split: if_splits)

lemma sharded_total_with_shard:
  assumes "sharded_inv h s"
  shows "sharded_total (with_shard h k f s) + hm_len (shard_for_key h s k) =
    sharded_total s + hm_len (f (shard_for_key h s k))"
proof -
  let ?i = "string_shard_index h k (length s)"
  have i: "?i < length s"
    using assms by (simp add: index_bound sharded_inv_nonempty)
  then have "s = take ?i s @ s ! ?i # drop (Suc ?i) s"
    by (rule id_take_nth_drop)
  moreover have "with_shard h k f s = take ?i s @ f (s ! ?i) # drop (Suc ?i) s"
    using i by (simp add: with_shard_def Let_def upd_conv_take_nth_drop)
  ultimately have "sharded_total s =
      sharded_total (take ?i s) + hm_len (s ! ?i) + sharded_total (drop (Suc ?i) s)"
    and "sharded_total (with_shard h k f s) =
      sharded_total (take ?i s) + hm_len (f (s ! ?i)) + sharded_total (drop (Suc ?i) s)"
    by (metis (no_types) add.assoc list.simps(9) map_append sharded_total_def sum_list.Cons
        sum_list.append)+
  then show ?thesis by (simp add: shard_for_key_def)
qed

lemma set_sharded_entries:
  assumes "sharded_inv h s"
  shows "(k, v) \<in> set (sharded_entries s) \<longleftrightarrow> sharded_get h s k = Some v"
proof
  assume "(k, v) \<in> set (sharded_entries s)"
  then obtain m where "m \<in> set s" "(k, v) \<in> set m"
    by (auto simp: sharded_entries_def)
  then obtain i where "i < length s" "(k, v) \<in> set (s ! i)"
    by (metis in_set_conv_nth)
  then show "sharded_get h s k = Some v"
    using assms sharded_inv_shard by (metis hm_mem_iff sharded_get_at)
next
  assume "sharded_get h s k = Some v"
  then have "(k, v) \<in> set (shard_for_key h s k)"
    using assms by (simp add: sharded_get_def hm_mem_iff shard_for_key_inv)
  then show "(k, v) \<in> set (sharded_entries s)"
    using index_bound [OF sharded_inv_nonempty [OF assms], of h k]
    by (auto simp: sharded_entries_def shard_for_key_def)
qed

end
