(* ===== verification/Affinity.thy ===== *)
theory Affinity
  imports Sharded Config
begin

text \<open>
  \<open>affinity.rs\<close>: the table that keeps a dialog on the upstream that first served it.
  The table is sharded; a separate counter (a \<open>usize\<close>, here a 64-bit word with its
  wrap-around) caches its size.  \<open>Instant::now()\<close> and the epoch clock are arguments of
  each operation; the result \<open>None\<close> stands for the panic of \<open>Instant + Duration\<close> on
  overflow.  The hash function is an argument, no result depends on it.  What
  \<open>rsipstack\<close> reads from a request is the record \<open>affinity_view\<close>: the request URI,
  the Call-ID value if the header is there, and the From and To tags if the headers are
  there, parse, and carry one; a message that is not a request has no view.

  Shown here: every sequence of operations keeps the counter equal to the number of
  bindings; a lookup answers with an unexpired binding of the first key that has one;
  a remembered target is found until it expires; the dialog key is the same in both
  directions; and a snapshot taken on one node and installed on another keeps the
  bindings, shortening none by a millisecond or more.
\<close>

section \<open>Data\<close>

record affinity_target =
  at_addr :: sock_addr
  at_transport :: sip_transport

type_synonym affinity_key = string

record affinity_binding_snapshot =
  abs_key :: affinity_key
  abs_target :: affinity_target
  abs_expires_at_epoch_ms :: nat

record affinity_binding =
  ab_target :: affinity_target
  ab_expires_at :: instant

record affinity_table =
  tab_config :: proxy_affinity_config
  tab_bindings :: "(affinity_key, affinity_binding) shards"
  tab_len :: usize

record affinity_view =
  av_uri :: string
  av_call_id :: "string option"
  av_from_tag :: "string option"
  av_to_tag :: "string option"

datatype affinity_error = MissingCallId

definition affinity_shards :: nat where
  "affinity_shards = 64"

definition affinity_table_new :: "proxy_affinity_config \<Rightarrow> affinity_table" where
  "affinity_table_new config =
     \<lparr>tab_config = config, tab_bindings = sharded_new affinity_shards, tab_len = 0\<rparr>"

section \<open>Keys\<close>

definition call_id_key :: "affinity_view \<Rightarrow> affinity_error + affinity_key" where
  "call_id_key v = (case av_call_id v of None \<Rightarrow> Inl MissingCallId | Some c \<Rightarrow> Inr (''call-id:'' @ trim c))"

definition dialog_key :: "affinity_view \<Rightarrow> affinity_error + affinity_key option" where
  "dialog_key v =
     (case av_call_id v of
        None \<Rightarrow> Inl MissingCallId
      | Some c \<Rightarrow>
          Inr (case (av_from_tag v, av_to_tag v) of
                 (Some f, Some t) \<Rightarrow>
                   (let tags = sort [f, t]
                    in Some (''dialog-id:'' @ trim c @ '':'' @ tags ! 0 @ '':'' @ tags ! 1))
               | _ \<Rightarrow> None))"

definition affinity_keys ::
  "affinity_view option \<Rightarrow> proxy_affinity_key \<Rightarrow> affinity_error + affinity_key list" where
  "affinity_keys msg strategy =
     (case msg of
        None \<Rightarrow> Inr []
      | Some v \<Rightarrow>
          (case strategy of
             DialogId \<Rightarrow>
               bind_res (dialog_key v) (\<lambda>d. bind_res (call_id_key v) (\<lambda>c.
                 Inr ((case d of None \<Rightarrow> [] | Some k \<Rightarrow> [k]) @ [c])))
           | CallId \<Rightarrow> bind_res (call_id_key v) (\<lambda>c. Inr [c])
           | RequestUri \<Rightarrow> Inr [''request-uri:'' @ av_uri v]))"

section \<open>Counter and pruning\<close>

definition add_len :: "nat \<Rightarrow> affinity_table \<Rightarrow> affinity_table" where
  "add_len count t = t\<lparr>tab_len := tab_len t + word_of_nat count\<rparr>"

definition subtract_len :: "nat \<Rightarrow> affinity_table \<Rightarrow> affinity_table" where
  "subtract_len count t = (if count > 0 then t\<lparr>tab_len := tab_len t - word_of_nat count\<rparr> else t)"

definition unexpired :: "instant \<Rightarrow> affinity_key \<Rightarrow> affinity_binding \<Rightarrow> bool" where
  "unexpired now k b \<longleftrightarrow> ab_expires_at b > now"

text \<open>Prune one shard and subtract what was removed, as every reader does first.\<close>

definition prune_affinity ::
  "(affinity_key \<Rightarrow> nat) \<Rightarrow> instant \<Rightarrow> affinity_key \<Rightarrow> affinity_table \<Rightarrow> affinity_table" where
  "prune_affinity h now key t =
     (let before = hm_len (shard_for_key h (tab_bindings t) key);
          bindings = prune_shard h key (unexpired now) (tab_bindings t);
          after = hm_len (shard_for_key h bindings key)
      in subtract_len (before - after) (t\<lparr>tab_bindings := bindings\<rparr>))"

definition binding_get ::
  "(affinity_key \<Rightarrow> nat) \<Rightarrow> affinity_table \<Rightarrow> affinity_key \<Rightarrow> affinity_binding option" where
  "binding_get h t key = sharded_get h (tab_bindings t) key"

definition insert_binding ::
  "(affinity_key \<Rightarrow> nat) \<Rightarrow> affinity_key \<Rightarrow> affinity_binding \<Rightarrow> affinity_table \<Rightarrow> affinity_table" where
  "insert_binding h key b t =
     (let t' = t\<lparr>tab_bindings := sharded_insert h key b (tab_bindings t)\<rparr>
      in if binding_get h t key = None then add_len 1 t' else t')"

definition remove_key :: "(affinity_key \<Rightarrow> nat) \<Rightarrow> affinity_key \<Rightarrow> affinity_table \<Rightarrow> affinity_table" where
  "remove_key h key t =
     (let t' = t\<lparr>tab_bindings := sharded_remove h key (tab_bindings t)\<rparr>
      in if binding_get h t key \<noteq> None then subtract_len 1 t' else t')"

section \<open>Operations\<close>

fun lookup_keys ::
  "(affinity_key \<Rightarrow> nat) \<Rightarrow> instant \<Rightarrow> affinity_key list \<Rightarrow> affinity_table
   \<Rightarrow> affinity_target option \<times> affinity_table" where
  "lookup_keys h now [] t = (None, t)"
| "lookup_keys h now (key # keys) t =
     (let t' = prune_affinity h now key t
      in case binding_get h t' key of
           Some b \<Rightarrow> (Some (ab_target b), t')
         | None \<Rightarrow> lookup_keys h now keys t')"

definition affinity_lookup ::
  "(affinity_key \<Rightarrow> nat) \<Rightarrow> instant \<Rightarrow> affinity_view option \<Rightarrow> affinity_table
   \<Rightarrow> (affinity_error + affinity_target option) \<times> affinity_table" where
  "affinity_lookup h now msg t =
     (if \<not> af_enabled (tab_config t) then (Inr None, t)
      else case affinity_keys msg (af_key (tab_config t)) of
          Inl e \<Rightarrow> (Inl e, t)
        | Inr keys \<Rightarrow> (let (r, t') = lookup_keys h now keys t in (Inr r, t')))"

definition lookup_key ::
  "(affinity_key \<Rightarrow> nat) \<Rightarrow> instant \<Rightarrow> affinity_key \<Rightarrow> affinity_table
   \<Rightarrow> affinity_target option \<times> affinity_table" where
  "lookup_key h now key t =
     (if \<not> af_enabled (tab_config t) then (None, t)
      else let t' = prune_affinity h now key t in (map_option ab_target (binding_get h t' key), t'))"

definition remember ::
  "(affinity_key \<Rightarrow> nat) \<Rightarrow> instant \<Rightarrow> nat \<Rightarrow> affinity_view option \<Rightarrow> affinity_target \<Rightarrow> affinity_table
   \<Rightarrow> ((affinity_error + affinity_binding_snapshot list) \<times> affinity_table) option" where
  "remember h now now_ms msg target t =
     (if \<not> af_enabled (tab_config t) then Some (Inr [], t)
      else case affinity_keys msg (af_key (tab_config t)) of
          Inl e \<Rightarrow> Some (Inl e, t)
        | Inr keys \<Rightarrow>
            if keys = [] then Some (Inr [], t)
            else let ttl = unat (af_ttl_seconds (tab_config t)) in
              (case instant_checked_add now (from_secs ttl) of
                 None \<Rightarrow> None
               | Some expires_at \<Rightarrow>
                   Some (Inr (map (\<lambda>key. \<lparr>abs_key = key, abs_target = target,
                            abs_expires_at_epoch_ms = now_ms + ttl * 1000\<rparr>) keys),
                         fold (\<lambda>key. insert_binding h key
                            \<lparr>ab_target = target, ab_expires_at = expires_at\<rparr>) keys t)))"

definition remember_key ::
  "(affinity_key \<Rightarrow> nat) \<Rightarrow> instant \<Rightarrow> nat \<Rightarrow> affinity_key \<Rightarrow> affinity_target \<Rightarrow> duration \<Rightarrow> affinity_table
   \<Rightarrow> (affinity_binding_snapshot list \<times> affinity_table) option" where
  "remember_key h now now_ms key target ttl t =
     (if \<not> af_enabled (tab_config t) \<or> ttl = 0 then Some ([], t)
      else case instant_checked_add now ttl of
          None \<Rightarrow> None
        | Some expires_at \<Rightarrow>
            Some ([\<lparr>abs_key = key, abs_target = target,
                    abs_expires_at_epoch_ms = now_ms + as_millis ttl\<rparr>],
                  insert_binding h key \<lparr>ab_target = target, ab_expires_at = expires_at\<rparr> t))"

text \<open>Every shard is pruned in turn, and the counter follows.\<close>

definition prune_at :: "instant \<Rightarrow> affinity_table \<Rightarrow> nat \<Rightarrow> affinity_table" where
  "prune_at now t i =
     (let m = tab_bindings t ! i; m' = hm_retain (unexpired now) m
      in subtract_len (hm_len m - hm_len m') (t\<lparr>tab_bindings := (tab_bindings t)[i := m']\<rparr>))"

definition prune_all :: "instant \<Rightarrow> affinity_table \<Rightarrow> affinity_table" where
  "prune_all now t = foldl (prune_at now) t [0..<length (tab_bindings t)]"

definition affinity_snapshot ::
  "instant \<Rightarrow> nat \<Rightarrow> affinity_table \<Rightarrow> affinity_binding_snapshot list \<times> affinity_table" where
  "affinity_snapshot now now_ms t =
     (let t' = prune_all now t
      in (map (\<lambda>(key, b). \<lparr>abs_key = key, abs_target = ab_target b,
            abs_expires_at_epoch_ms = now_ms + as_millis (duration_since (ab_expires_at b) now)\<rparr>)
            (sharded_entries (tab_bindings t')), t'))"

text \<open>\<open>now + Duration::from_millis(ttl_ms as u64)\<close>: the cast keeps 64 bits.\<close>

definition snapshot_expiry :: "instant \<Rightarrow> nat \<Rightarrow> affinity_binding_snapshot \<Rightarrow> instant option" where
  "snapshot_expiry now now_ms s =
     instant_checked_add now (from_millis ((abs_expires_at_epoch_ms s - now_ms) mod 2 ^ 64))"

fun install_bindings ::
  "(affinity_key \<Rightarrow> nat) \<Rightarrow> instant \<Rightarrow> nat \<Rightarrow> affinity_binding_snapshot list
   \<Rightarrow> (affinity_key, affinity_binding) shards \<Rightarrow> (affinity_key, affinity_binding) shards option" where
  "install_bindings h now now_ms [] m = Some m"
| "install_bindings h now now_ms (s # ss) m =
     (if abs_expires_at_epoch_ms s \<le> now_ms then install_bindings h now now_ms ss m
      else case snapshot_expiry now now_ms s of
          None \<Rightarrow> None
        | Some e \<Rightarrow> install_bindings h now now_ms ss
            (sharded_insert h (abs_key s) \<lparr>ab_target = abs_target s, ab_expires_at = e\<rparr> m))"

definition affinity_install_snapshot ::
  "(affinity_key \<Rightarrow> nat) \<Rightarrow> instant \<Rightarrow> nat \<Rightarrow> affinity_binding_snapshot list \<Rightarrow> affinity_table
   \<Rightarrow> affinity_table option" where
  "affinity_install_snapshot h now now_ms snapshot t =
     map_option (\<lambda>m. t\<lparr>tab_bindings := m, tab_len := word_of_nat (sharded_total m)\<rparr>)
       (install_bindings h now now_ms snapshot (replicate (length (tab_bindings t)) hm_empty))"

fun upsert_snapshot_bindings ::
  "(affinity_key \<Rightarrow> nat) \<Rightarrow> instant \<Rightarrow> nat \<Rightarrow> affinity_binding_snapshot list \<Rightarrow> affinity_table
   \<Rightarrow> affinity_table option" where
  "upsert_snapshot_bindings h now now_ms [] t = Some t"
| "upsert_snapshot_bindings h now now_ms (s # ss) t =
     (if abs_expires_at_epoch_ms s \<le> now_ms
      then upsert_snapshot_bindings h now now_ms ss (remove_key h (abs_key s) t)
      else case snapshot_expiry now now_ms s of
          None \<Rightarrow> None
        | Some e \<Rightarrow> upsert_snapshot_bindings h now now_ms ss
            (insert_binding h (abs_key s) \<lparr>ab_target = abs_target s, ab_expires_at = e\<rparr> t))"

definition active_len :: "instant \<Rightarrow> affinity_table \<Rightarrow> usize \<times> affinity_table" where
  "active_len now t = (let t' = prune_all now t in (tab_len t', t'))"

definition binding_len :: "affinity_table \<Rightarrow> usize" where
  "binding_len t = tab_len t"

section \<open>Sequences of operations\<close>

datatype affinity_op =
    OpLookup instant "affinity_view option"
  | OpLookupKey instant affinity_key
  | OpRemember instant nat "affinity_view option" affinity_target
  | OpRememberKey instant nat affinity_key affinity_target duration
  | OpSnapshot instant nat
  | OpInstall instant nat "affinity_binding_snapshot list"
  | OpUpsert instant nat "affinity_binding_snapshot list"
  | OpRemove affinity_key
  | OpActiveLen instant

fun affinity_step :: "(affinity_key \<Rightarrow> nat) \<Rightarrow> affinity_op \<Rightarrow> affinity_table \<Rightarrow> affinity_table option" where
  "affinity_step h (OpLookup now msg) t = Some (snd (affinity_lookup h now msg t))"
| "affinity_step h (OpLookupKey now key) t = Some (snd (lookup_key h now key t))"
| "affinity_step h (OpRemember now ms msg target) t = map_option snd (remember h now ms msg target t)"
| "affinity_step h (OpRememberKey now ms key target ttl) t =
     map_option snd (remember_key h now ms key target ttl t)"
| "affinity_step h (OpSnapshot now ms) t = Some (snd (affinity_snapshot now ms t))"
| "affinity_step h (OpInstall now ms s) t = affinity_install_snapshot h now ms s t"
| "affinity_step h (OpUpsert now ms s) t = upsert_snapshot_bindings h now ms s t"
| "affinity_step h (OpRemove key) t = Some (remove_key h key t)"
| "affinity_step h (OpActiveLen now) t = Some (snd (active_len now t))"

fun affinity_run :: "(affinity_key \<Rightarrow> nat) \<Rightarrow> affinity_op list \<Rightarrow> affinity_table \<Rightarrow> affinity_table option" where
  "affinity_run h [] t = Some t"
| "affinity_run h (op # ops) t = Option.bind (affinity_step h op t) (affinity_run h ops)"

definition affinity_inv :: "(affinity_key \<Rightarrow> nat) \<Rightarrow> affinity_table \<Rightarrow> bool" where
  "affinity_inv h t \<longleftrightarrow> sharded_inv h (tab_bindings t) \<and>
     tab_len t = word_of_nat (sharded_total (tab_bindings t))"

section \<open>The invariant\<close>

lemma table_len_simps [simp]:
  "tab_bindings (add_len n t) = tab_bindings t" "tab_config (add_len n t) = tab_config t"
  "tab_len (add_len n t) = tab_len t + word_of_nat n"
  "tab_bindings (subtract_len n t) = tab_bindings t" "tab_config (subtract_len n t) = tab_config t"
  "tab_len (subtract_len n t) = tab_len t - word_of_nat n"
  by (simp_all add: add_len_def subtract_len_def)

lemma subtract_len_eq: "subtract_len n t = t\<lparr>tab_len := tab_len t - word_of_nat n\<rparr>"
  by (simp add: subtract_len_def)

lemma affinity_inv_new: "affinity_inv h (affinity_table_new cfg)"
proof -
  have "sharded_total (sharded_new n :: (affinity_key, affinity_binding) shards) = 0" for n
    by (simp add: sharded_total_def sharded_new_def hm_len_def hm_empty_def sum_list_replicate)
  then show ?thesis by (simp add: affinity_inv_def affinity_table_new_def sharded_inv_new)
qed

lemma of_nat_shrink: "a + b = c + d \<Longrightarrow> d \<le> b \<Longrightarrow> (word_of_nat c :: 'n::len word) - word_of_nat (b - d) = word_of_nat a"
proof -
  assume "a + b = c + d" "d \<le> b"
  then have "c = a + (b - d)" by simp
  then have "(word_of_nat c :: 'n word) = word_of_nat a + word_of_nat (b - d)" by (metis of_nat_add)
  then show ?thesis by simp
qed

lemma affinity_inv_prune:
  assumes "affinity_inv h t"
  shows "affinity_inv h (prune_affinity h now key t)"
proof -
  let ?s = "tab_bindings t" and ?s' = "prune_shard h key (unexpired now) (tab_bindings t)"
  have inv: "sharded_inv h ?s" using assms by (simp add: affinity_inv_def)
  have shard: "shard_for_key h ?s' key = hm_retain (unexpired now) (shard_for_key h ?s key)"
    using index_bound [OF sharded_inv_nonempty [OF inv], of h key]
    by (simp add: prune_shard_def shard_for_key_def nth_with_shard)
  have "hm_len (shard_for_key h ?s' key) \<le> hm_len (shard_for_key h ?s key)"
    unfolding shard by (rule hm.len_retain_le) (rule shard_for_key_inv [OF inv])
  moreover have "sharded_total ?s' + hm_len (shard_for_key h ?s key) =
      sharded_total ?s + hm_len (shard_for_key h ?s' key)"
    using sharded_total_with_shard [OF inv, of key "hm_retain (unexpired now)"]
    by (simp add: prune_shard_def shard [unfolded prune_shard_def])
  ultimately show ?thesis
    using assms sharded_inv_prune [OF inv]
    by (simp add: affinity_inv_def prune_affinity_def Let_def of_nat_shrink del: of_nat_diff)
qed

lemma affinity_inv_insert:
  assumes "affinity_inv h t"
  shows "affinity_inv h (insert_binding h key b t)"
  using assms
  by (simp add: affinity_inv_def insert_binding_def binding_get_def Let_def sharded.inv_insert sharded.len_insert)

lemma affinity_inv_remove:
  assumes "affinity_inv h t"
  shows "affinity_inv h (remove_key h key t)"
proof (cases "binding_get h t key")
  case None
  with assms show ?thesis
    by (simp add: affinity_inv_def remove_key_def binding_get_def Let_def sharded.inv_remove sharded.len_remove)
next
  case (Some b)
  have inv: "sharded_inv h (tab_bindings t)" using assms by (simp add: affinity_inv_def)
  have "sharded_total (tab_bindings t) = Suc (sharded_total (sharded_remove h key (tab_bindings t)))"
    using sharded.len_remove_Some [OF inv] Some by (simp add: binding_get_def)
  with assms Some show ?thesis
    by (simp add: affinity_inv_def remove_key_def Let_def sharded.inv_remove)
qed

lemma foldl_prune_at:
  assumes "n \<le> length (tab_bindings t)" "tab_len t = word_of_nat (sharded_total (tab_bindings t))"
  shows "foldl (prune_at now) t [0..<n] =
    t\<lparr>tab_bindings := map (hm_retain (unexpired now)) (take n (tab_bindings t)) @ drop n (tab_bindings t),
      tab_len := word_of_nat (sharded_total (map (hm_retain (unexpired now)) (take n (tab_bindings t)) @ drop n (tab_bindings t)))\<rparr>"
  using assms(1)
proof (induction n)
  case 0
  with assms(2) show ?case by simp
next
  case (Suc n)
  let ?bs = "tab_bindings t" and ?f = "hm_retain (unexpired now)"
  let ?m = "?bs ! n"
  let ?pre = "map ?f (take n ?bs)" and ?post = "drop (Suc n) ?bs"
  have n: "n < length ?bs" using Suc.prems by simp
  have drop: "drop n ?bs = ?m # ?post" using n by (simp add: Cons_nth_drop_Suc)
  have take: "map ?f (take (Suc n) ?bs) = ?pre @ [?f ?m]" using n by (simp add: take_Suc_conv_app_nth)
  have "hm_len (?f ?m) \<le> hm_len ?m" by (simp add: hm_len_def hm_retain_def)
  then have "(word_of_nat (sharded_total (?pre @ ?m # ?post)) :: usize) - word_of_nat (hm_len ?m - hm_len (?f ?m)) =
      word_of_nat (sharded_total (?pre @ ?f ?m # ?post))"
    by (intro of_nat_shrink) (simp_all add: sharded_total_def)
  moreover have "(?pre @ ?m # ?post) ! n = ?m" "(?pre @ ?m # ?post)[n := ?f ?m] = ?pre @ ?f ?m # ?post"
    using n by (simp_all add: nth_append list_update_append)
  ultimately show ?case
    using Suc n by (simp add: drop take prune_at_def Let_def subtract_len_eq del: of_nat_diff)
qed

lemma prune_all_eq:
  assumes "affinity_inv h t"
  shows "prune_all now t = t\<lparr>tab_bindings := sharded_retain (unexpired now) (tab_bindings t),
    tab_len := word_of_nat (sharded_total (sharded_retain (unexpired now) (tab_bindings t)))\<rparr>"
  using foldl_prune_at [of "length (tab_bindings t)" t now] assms
  by (simp add: prune_all_def affinity_inv_def sharded_retain_def)

lemma affinity_inv_prune_all: "affinity_inv h t \<Longrightarrow> affinity_inv h (prune_all now t)"
  by (simp add: prune_all_eq) (simp add: affinity_inv_def sharded_inv_retain)

lemma affinity_inv_lookup_keys: "affinity_inv h t \<Longrightarrow> affinity_inv h (snd (lookup_keys h now keys t))"
proof (induction keys arbitrary: t)
  case (Cons k ks)
  then show ?case using affinity_inv_prune [OF Cons.prems, of now k]
    by (auto simp: Let_def split: option.split)
qed simp

lemma affinity_inv_fold_insert:
  "affinity_inv h t \<Longrightarrow> affinity_inv h (fold (\<lambda>k. insert_binding h k b) ks t)"
  by (induction ks arbitrary: t) (auto intro: affinity_inv_insert)

lemma sharded_inv_empty_shards: "0 < n \<Longrightarrow> sharded_inv h (replicate n hm_empty)"
  using sharded_inv_new [of h n] by (simp add: sharded_new_def max_absorb1)

lemma install_bindings_inv:
  "install_bindings h now ms ss m = Some m' \<Longrightarrow> sharded_inv h m \<Longrightarrow> sharded_inv h m'"
  by (induction h now ms ss m rule: install_bindings.induct)
    (auto simp: sharded.inv_insert split: if_splits option.splits)

lemma upsert_inv:
  "upsert_snapshot_bindings h now ms ss t = Some t' \<Longrightarrow> affinity_inv h t \<Longrightarrow> affinity_inv h t'"
  by (induction h now ms ss t rule: upsert_snapshot_bindings.induct)
    (auto simp: affinity_inv_insert affinity_inv_remove split: if_splits option.splits)

lemma affinity_step_inv:
  assumes "affinity_step h op t = Some t'" "affinity_inv h t"
  shows "affinity_inv h t'"
proof (cases op)
  case (OpLookup now msg)
  with assms affinity_inv_lookup_keys [OF assms(2), of now] show ?thesis
    by (auto simp: affinity_lookup_def split: if_splits sum.splits prod.splits) (metis snd_conv)
next
  case (OpLookupKey now key)
  with assms affinity_inv_prune [OF assms(2)] show ?thesis
    by (auto simp: lookup_key_def Let_def split: if_splits)
next
  case (OpRemember now ms msg target)
  with assms affinity_inv_fold_insert [OF assms(2)] show ?thesis
    by (auto simp: remember_def Let_def split: if_splits sum.splits option.splits)
next
  case (OpRememberKey now ms key target ttl)
  with assms affinity_inv_insert [OF assms(2)] show ?thesis
    by (auto simp: remember_key_def split: if_splits option.splits)
next
  case (OpInstall now ms s)
  have "0 < length (tab_bindings t)"
    using assms(2) sharded_inv_nonempty by (auto simp: affinity_inv_def)
  with OpInstall assms install_bindings_inv [OF _ sharded_inv_empty_shards] show ?thesis
    by (auto simp: affinity_install_snapshot_def affinity_inv_def)
next
  case (OpUpsert now ms s)
  with assms upsert_inv show ?thesis by simp
next
  case (OpRemove key)
  with assms affinity_inv_remove show ?thesis by auto
qed (use assms affinity_inv_prune_all in \<open>auto simp: affinity_snapshot_def active_len_def Let_def\<close>)

lemma affinity_run_inv: "affinity_run h ops t = Some t' \<Longrightarrow> affinity_inv h t \<Longrightarrow> affinity_inv h t'"
  by (induction ops arbitrary: t) (auto simp: bind_eq_Some_conv dest: affinity_step_inv)

section \<open>What operations do to the live bindings\<close>

definition live ::
  "(affinity_key \<Rightarrow> nat) \<Rightarrow> instant \<Rightarrow> affinity_table \<Rightarrow> affinity_key \<Rightarrow> affinity_binding option" where
  "live h now t k = keep_if (unexpired now) k (binding_get h t k)"

fun first_live ::
  "(affinity_key \<Rightarrow> nat) \<Rightarrow> instant \<Rightarrow> affinity_table \<Rightarrow> affinity_key list \<Rightarrow> affinity_target option" where
  "first_live h now t [] = None"
| "first_live h now t (k # ks) =
     (case live h now t k of Some b \<Rightarrow> Some (ab_target b) | None \<Rightarrow> first_live h now t ks)"

lemma first_live_cong: "live h now t = live h now t' \<Longrightarrow> first_live h now t ks = first_live h now t' ks"
  by (induction ks) (auto split: option.split)

lemma first_live_None: "(\<And>k. k \<in> set ks \<Longrightarrow> live h now t k = None) \<Longrightarrow> first_live h now t ks = None"
  by (induction ks) auto

lemma affinity_inv_sharded: "affinity_inv h t \<Longrightarrow> sharded_inv h (tab_bindings t)"
  by (simp add: affinity_inv_def)

lemma prune_affinity_simps [simp]:
  "tab_config (prune_affinity h now key t) = tab_config t"
  "tab_bindings (prune_affinity h now key t) = prune_shard h key (unexpired now) (tab_bindings t)"
  by (simp_all add: prune_affinity_def Let_def)

lemma binding_get_prune_same:
  "affinity_inv h t \<Longrightarrow> binding_get h (prune_affinity h now k t) k = live h now t k"
  by (simp add: binding_get_def live_def sharded_get_prune_same affinity_inv_sharded)

lemma live_prune:
  assumes "affinity_inv h t" "now \<le> now'"
  shows "live h now' (prune_affinity h now key t) k = live h now' t k"
  using assms
  by (cases "sharded_get h (tab_bindings t) k")
    (auto simp: live_def binding_get_def sharded_get_prune affinity_inv_sharded unexpired_def)

lemma lookup_keys_spec:
  "affinity_inv h t \<Longrightarrow> fst (lookup_keys h now keys t) = first_live h now t keys \<and>
     (\<forall>now' k. now \<le> now' \<longrightarrow> live h now' (snd (lookup_keys h now keys t)) k = live h now' t k)"
proof (induction keys arbitrary: t)
  case Nil
  then show ?case by simp
next
  case (Cons key keys)
  let ?t = "prune_affinity h now key t"
  have inv: "affinity_inv h ?t" using Cons.prems by (rule affinity_inv_prune)
  have same: "first_live h now ?t keys = first_live h now t keys"
    using live_prune [OF Cons.prems, of now now key] by (intro first_live_cong) (simp add: fun_eq_iff)
  show ?case
  proof (cases "live h now t key")
    case None
    then have "binding_get h ?t key = None" using binding_get_prune_same [OF Cons.prems] by simp
    with None Cons.IH [OF inv] same live_prune [OF Cons.prems] show ?thesis
      by (simp add: Let_def)
  next
    case (Some b)
    then have "binding_get h ?t key = Some b" using binding_get_prune_same [OF Cons.prems] by simp
    with Some live_prune [OF Cons.prems] show ?thesis by (simp add: Let_def)
  qed
qed

lemma binding_get_insert:
  "affinity_inv h t \<Longrightarrow> binding_get h (insert_binding h key b t) k = (if k = key then Some b else binding_get h t k)"
  by (simp add: binding_get_def insert_binding_def Let_def sharded.get_insert affinity_inv_sharded)

lemma insert_binding_config [simp]: "tab_config (insert_binding h key b t) = tab_config t"
  by (simp add: insert_binding_def Let_def)

lemma fold_insert_binding:
  "affinity_inv h t \<Longrightarrow>
     binding_get h (fold (\<lambda>k. insert_binding h k b) ks t) k = (if k \<in> set ks then Some b else binding_get h t k) \<and>
     tab_config (fold (\<lambda>k. insert_binding h k b) ks t) = tab_config t"
  by (induction ks arbitrary: t) (auto simp: affinity_inv_insert binding_get_insert)

lemma install_bindings_spec:
  "install_bindings h now ms ss m = Some m' \<Longrightarrow> sharded_inv h m \<Longrightarrow>
   inj_on abs_key (set ss) \<Longrightarrow>
     (\<forall>s \<in> set ss. abs_expires_at_epoch_ms s > ms \<longrightarrow>
        sharded_get h m' (abs_key s) =
          Some \<lparr>ab_target = abs_target s, ab_expires_at = the (snapshot_expiry now ms s)\<rparr>) \<and>
     (\<forall>k. (\<forall>s \<in> set ss. abs_key s = k \<longrightarrow> abs_expires_at_epoch_ms s \<le> ms) \<longrightarrow>
        sharded_get h m' k = sharded_get h m k)"
proof (induction ss arbitrary: m)
  case Nil
  then show ?case by simp
next
  case (Cons s ss)
  have uniq: "inj_on abs_key (set ss)" using Cons.prems(3) by simp
  show ?case
  proof (cases "abs_expires_at_epoch_ms s \<le> ms")
    case True
    with Cons.prems have "install_bindings h now ms ss m = Some m'" by simp
    note IH = Cons.IH [OF this Cons.prems(2) uniq]
    show ?thesis
    proof (intro conjI ballI impI allI)
      fix x
      assume "x \<in> set (s # ss)" "ms < abs_expires_at_epoch_ms x"
      with True have "x \<in> set ss" by auto
      with \<open>ms < abs_expires_at_epoch_ms x\<close> IH
      show "sharded_get h m' (abs_key x) =
          Some \<lparr>ab_target = abs_target x, ab_expires_at = the (snapshot_expiry now ms x)\<rparr>" by blast
    next
      fix k
      assume "\<forall>x \<in> set (s # ss). abs_key x = k \<longrightarrow> abs_expires_at_epoch_ms x \<le> ms"
      then have "\<forall>x \<in> set ss. abs_key x = k \<longrightarrow> abs_expires_at_epoch_ms x \<le> ms" by simp
      with IH show "sharded_get h m' k = sharded_get h m k" by blast
    qed
  next
    case False
    with Cons.prems obtain e where e: "snapshot_expiry now ms s = Some e"
      and rec: "install_bindings h now ms ss
        (sharded_insert h (abs_key s) \<lparr>ab_target = abs_target s, ab_expires_at = e\<rparr> m) = Some m'"
      by (auto split: option.splits)
    note IH = Cons.IH [OF rec sharded.inv_insert [OF Cons.prems(2)] uniq]
    have here: "sharded_get h m' (abs_key s) = Some \<lparr>ab_target = abs_target s, ab_expires_at = e\<rparr>"
    proof (cases "\<exists>s' \<in> set ss. abs_key s' = abs_key s")
      case True
      then have "s \<in> set ss" using Cons.prems(3) by (auto simp: inj_on_def)
      with IH False e show ?thesis by (metis linorder_not_le option.sel)
    next
      case no: False
      then have "sharded_get h m' (abs_key s) =
          sharded_get h (sharded_insert h (abs_key s) \<lparr>ab_target = abs_target s, ab_expires_at = e\<rparr> m) (abs_key s)"
        using IH by blast
      then show ?thesis using Cons.prems(2) by (simp add: sharded.get_insert)
    qed
    show ?thesis
    proof (intro conjI ballI impI allI)
      fix x
      assume "x \<in> set (s # ss)" "ms < abs_expires_at_epoch_ms x"
      then show "sharded_get h m' (abs_key x) =
          Some \<lparr>ab_target = abs_target x, ab_expires_at = the (snapshot_expiry now ms x)\<rparr>"
        using IH here e by (cases "x = s") auto
    next
      fix k
      assume k: "\<forall>x \<in> set (s # ss). abs_key x = k \<longrightarrow> abs_expires_at_epoch_ms x \<le> ms"
      then have "abs_key s \<noteq> k" using False by auto
      moreover have "sharded_get h m' k =
          sharded_get h (sharded_insert h (abs_key s) \<lparr>ab_target = abs_target s, ab_expires_at = e\<rparr> m) k"
        using IH k by simp
      ultimately show "sharded_get h m' k = sharded_get h m k"
        using Cons.prems(2) by (simp add: sharded.get_insert)
    qed
  qed
qed

lemma install_expiry:
  "install_bindings h now ms ss m = Some m' \<Longrightarrow> s \<in> set ss \<Longrightarrow> ms < abs_expires_at_epoch_ms s \<Longrightarrow>
     snapshot_expiry now ms s \<noteq> None"
  by (induction h now ms ss m rule: install_bindings.induct) (auto split: if_splits option.splits)

lemma affinity_keys_swap:
  "affinity_keys (Some (v\<lparr>av_from_tag := av_to_tag v, av_to_tag := av_from_tag v\<rparr>)) strategy =
   affinity_keys (Some v) strategy"
proof -
  have sw: "sort [f, t] = sort [t, f]" for f t :: string by auto
  have "dialog_key (v\<lparr>av_from_tag := av_to_tag v, av_to_tag := av_from_tag v\<rparr>) = dialog_key v"
    using sw by (auto simp: dialog_key_def Let_def simp del: sort_key_simps split: option.split)
  then show ?thesis
    by (simp add: affinity_keys_def call_id_key_def split: proxy_affinity_key.split)
qed

section \<open>Properties\<close>

text \<open>
  Whatever sequence of lookups, insertions, replications and removals a new table goes
  through, with any clock readings, the cached counter is the number of stored bindings
  (as a \<open>usize\<close>), and every binding is in the shard its key hashes to.
\<close>

lemma affinity_counter_exact:
  assumes "affinity_run h ops (affinity_table_new cfg) = Some t"
  shows "binding_len t = word_of_nat (card (dom (binding_get h t))) \<and> sharded_inv h (tab_bindings t)"
proof -
  have "affinity_inv h t" using affinity_run_inv [OF assms affinity_inv_new] .
  then show ?thesis
    using sharded.len_card [of h "tab_bindings t"]
    by (simp add: affinity_inv_def binding_len_def binding_get_def dom_def)
qed

text \<open>
  A lookup answers with the target of the first of the message's keys that has an
  unexpired binding, never with an expired one; and pruning on the way hides no binding
  from a later lookup.
\<close>

lemma affinity_lookup_unexpired:
  assumes "affinity_inv h t" "af_enabled (tab_config t)"
    and "affinity_keys msg (af_key (tab_config t)) = Inr keys"
  shows "fst (affinity_lookup h now msg t) = Inr (first_live h now t keys) \<and>
    (\<forall>now' k. now \<le> now' \<longrightarrow> live h now' (snd (affinity_lookup h now msg t)) k = live h now' t k)"
  using lookup_keys_spec [OF assms(1), of now keys] assms(2,3)
  by (cases "lookup_keys h now keys t") (simp add: affinity_lookup_def)

text \<open>
  C20: affinity sticks.  After \<open>remember\<close> for a request, a lookup for the same request, or
  for a request in the opposite direction of the dialog (From and To tags exchanged),
  answers the remembered target at every time before the configured lifetime has passed
  and finds none of these bindings afterwards.
\<close>

theorem affinity_remember_then_lookup:
  assumes "affinity_inv h t" "af_enabled (tab_config t)"
    and "remember h now ms (Some v) target t = Some (Inr snapshots, t')" "snapshots \<noteq> []"
    and "w = v \<or> w = v\<lparr>av_from_tag := av_to_tag v, av_to_tag := av_from_tag v\<rparr>"
  shows "fst (affinity_lookup h now' (Some w) t') =
    Inr (if now' < now + from_secs (unat (af_ttl_seconds (tab_config t))) then Some target else None)"
proof -
  let ?e = "now + from_secs (unat (af_ttl_seconds (tab_config t)))"
  obtain keys where keys: "affinity_keys (Some v) (af_key (tab_config t)) = Inr keys" "keys \<noteq> []"
    and t': "t' = fold (\<lambda>k. insert_binding h k \<lparr>ab_target = target, ab_expires_at = ?e\<rparr>) keys t"
    using assms(2,3,4)
    by (auto simp: remember_def Let_def dest: instant_checked_add_Some split: sum.splits if_splits option.splits)
  have inv: "affinity_inv h t'" unfolding t' by (rule affinity_inv_fold_insert [OF assms(1)])
  have cfg: "tab_config t' = tab_config t" unfolding t' using fold_insert_binding [OF assms(1)] by blast
  have w: "affinity_keys (Some w) (af_key (tab_config t')) = Inr keys"
    using assms(5) keys(1) affinity_keys_swap [of v] by (auto simp: cfg)
  have live: "live h now' t' k = (if now' < ?e then Some \<lparr>ab_target = target, ab_expires_at = ?e\<rparr> else None)"
    if "k \<in> set keys" for k
    using fold_insert_binding [OF assms(1), of "\<lparr>ab_target = target, ab_expires_at = ?e\<rparr>" keys k] that
    by (simp add: live_def t' unexpired_def)
  have "first_live h now' t' keys = (if now' < ?e then Some target else None)"
    using keys(2) live first_live_None [of keys h now' t'] by (cases keys) auto
  moreover have "fst (affinity_lookup h now' (Some w) t') = Inr (first_live h now' t' keys)"
    using lookup_keys_spec [OF inv, of now' keys] assms(2) w
    by (cases "lookup_keys h now' keys t'") (simp add: affinity_lookup_def cfg)
  ultimately show ?thesis by simp
qed

theorem affinity_remember_then_lookup_witness:
  "\<exists>snapshots t'. remember length 0 0
      (Some \<lparr>av_uri = ''sip:a'', av_call_id = Some ''c1'', av_from_tag = Some ''x'', av_to_tag = Some ''b''\<rparr>)
      \<lparr>at_addr = SockV4 1 5060, at_transport = Udp\<rparr> (affinity_table_new default_affinity) = Some (Inr snapshots, t') \<and>
    fst (affinity_lookup length 7
      (Some \<lparr>av_uri = ''sip:a'', av_call_id = Some ''c1'', av_from_tag = Some ''b'', av_to_tag = Some ''x''\<rparr>) t') =
      Inr (Some \<lparr>at_addr = SockV4 1 5060, at_transport = Udp\<rparr>)"
proof -
  let ?v = "\<lparr>av_uri = ''sip:a'', av_call_id = Some ''c1'', av_from_tag = Some ''x'', av_to_tag = Some ''b''\<rparr>"
  let ?w = "\<lparr>av_uri = ''sip:a'', av_call_id = Some ''c1'', av_from_tag = Some ''b'', av_to_tag = Some ''x''\<rparr>"
  let ?t = "affinity_table_new default_affinity" and ?target = "\<lparr>at_addr = SockV4 1 5060, at_transport = Udp\<rparr>"
  obtain keys where k: "affinity_keys (Some ?v) (af_key (tab_config ?t)) = Inr keys" "keys \<noteq> []"
    by (simp add: affinity_keys_def dialog_key_def call_id_key_def affinity_table_new_def default_affinity_def Let_def)
  have en: "af_enabled (tab_config ?t)" and ttl: "unat (af_ttl_seconds (tab_config ?t)) = 3600"
    by (simp_all add: affinity_table_new_def default_affinity_def)
  obtain ss t' where r: "remember length 0 0 (Some ?v) ?target ?t = Some (Inr ss, t')" "ss \<noteq> []"
    using k en by (simp add: remember_def Let_def ttl time_simps)
  have "fst (affinity_lookup length 7 (Some ?w) t') = Inr (Some ?target)"
    using affinity_remember_then_lookup [OF affinity_inv_new en r, of ?w 7] by (simp add: ttl time_simps)
  with r show ?thesis by blast
qed

text \<open>
  State transfer.  A snapshot taken by one node and installed by another, each with its
  own clocks and hash function, gives the second node exactly the bindings that were live
  on the first and, by the epoch clock, have at least a millisecond left, with the same
  targets and the remaining lifetime rounded down to milliseconds; nothing of the second
  node's old table survives.  The remaining lifetime in milliseconds must fit the
  \<open>u64\<close> it is cast to.
\<close>

lemma affinity_snapshot_transfer:
  assumes "affinity_inv h t" "affinity_inv h2 t2"
    and "affinity_snapshot now ms t = (ss, t')"
    and "affinity_install_snapshot h2 now2 ms2 ss t2 = Some t2'"
    and "\<forall>k b. binding_get h t k = Some b \<longrightarrow> ms + as_millis (ab_expires_at b - now) < ms2 + 2 ^ 64"
  shows "binding_get h2 t2' k =
    (case live h now t k of
       None \<Rightarrow> None
     | Some b \<Rightarrow>
         let e = ms + as_millis (ab_expires_at b - now)
         in if e \<le> ms2 then None
            else Some \<lparr>ab_target = ab_target b, ab_expires_at = now2 + from_millis (e - ms2)\<rparr>)"
proof -
  let ?snap = "\<lambda>k b. \<lparr>abs_key = k, abs_target = ab_target b,
      abs_expires_at_epoch_ms = ms + as_millis (ab_expires_at b - now)\<rparr>"
  have t': "tab_bindings t' = sharded_retain (unexpired now) (tab_bindings t)"
    and ss: "ss = map (\<lambda>(k, b). ?snap k b) (sharded_entries (tab_bindings t'))"
    using assms(1,3) by (auto simp: affinity_snapshot_def Let_def prune_all_eq duration_since_def)
  have inv: "sharded_inv h (tab_bindings t')"
    using assms(1) by (simp add: t' sharded_inv_retain affinity_inv_sharded)
  have entry: "(k, b) \<in> set (sharded_entries (tab_bindings t')) \<longleftrightarrow> live h now t k = Some b" for k b
    using set_sharded_entries [OF inv] assms(1)
    by (simp add: t' sharded_get_retain affinity_inv_sharded live_def binding_get_def)
  have mem: "s \<in> set ss \<longleftrightarrow> (\<exists>k b. live h now t k = Some b \<and> s = ?snap k b)" for s
  proof -
    have "s \<in> set ss \<longleftrightarrow> (\<exists>x \<in> set (sharded_entries (tab_bindings t')). s = (case x of (k, b) \<Rightarrow> ?snap k b))"
      by (simp add: ss image_iff)
    then show ?thesis by (simp add: Bex_def entry)
  qed
  have inj: "inj_on abs_key (set ss)" by (rule inj_onI) (auto simp: mem)
  obtain m where m: "install_bindings h2 now2 ms2 ss (replicate (length (tab_bindings t2)) hm_empty) = Some m"
    and t2': "tab_bindings t2' = m"
    using assms(4) by (auto simp: affinity_install_snapshot_def)
  have pos: "0 < length (tab_bindings t2)"
    using assms(2) affinity_inv_sharded sharded_inv_nonempty by auto
  have empty: "sharded_get h2 (replicate (length (tab_bindings t2)) hm_empty) k = None" for k
    using pos by (simp add: sharded_get_def shard_for_key_def string_shard_index_def)
  note spec = install_bindings_spec [OF m sharded_inv_empty_shards [OF pos] inj]
  show ?thesis
  proof (cases "live h now t k")
    case None
    then have "\<forall>s \<in> set ss. abs_key s = k \<longrightarrow> abs_expires_at_epoch_ms s \<le> ms2" by (auto simp: mem)
    with spec None show ?thesis by (simp add: binding_get_def t2' empty)
  next
    case (Some b)
    let ?e = "ms + as_millis (ab_expires_at b - now)"
    have in_ss: "?snap k b \<in> set ss" using Some by (auto simp: mem)
    have fits: "?e < ms2 + 2 ^ 64"
      using assms(5) Some by (auto simp: live_def keep_if_eq_Some)
    show ?thesis
    proof (cases "?e \<le> ms2")
      case True
      then have "\<forall>s \<in> set ss. abs_key s = k \<longrightarrow> abs_expires_at_epoch_ms s \<le> ms2" using Some by (auto simp: mem)
      with spec Some True show ?thesis by (simp add: binding_get_def t2' empty)
    next
      case False
      have "the (snapshot_expiry now2 ms2 (?snap k b)) = now2 + from_millis (?e - ms2)"
      proof -
        have "snapshot_expiry now2 ms2 (?snap k b) \<noteq> None"
          using install_expiry [OF m in_ss] False by simp
        then show ?thesis
          using fits by (auto simp: snapshot_expiry_def dest: instant_checked_add_Some)
      qed
      moreover have "sharded_get h2 m k =
          Some \<lparr>ab_target = ab_target b, ab_expires_at = the (snapshot_expiry now2 ms2 (?snap k b))\<rparr>"
        using spec in_ss False by force
      ultimately show ?thesis using Some False by (simp add: binding_get_def t2' Let_def)
    qed
  qed
qed

text \<open>
  An enabled table panics exactly on a non-zero lifetime that takes the clock past its
  range.  The range ends at \<open>2 ^ 63\<close> seconds, so a 64-bit \<open>Expires\<close> value can do it.
\<close>

lemma affinity_remember_key_overflow:
  "remember_key h now ms key target ttl t = None \<longleftrightarrow>
     af_enabled (tab_config t) \<and> ttl \<noteq> 0 \<and> instant_limit \<le> now + ttl"
  by (auto simp: remember_key_def instant_checked_add_def)

end
