(* ===== verification/Routing.thy ===== *)
theory Routing
  imports Config_Validate
begin

text \<open>
  The route table of \<open>proxy/routing.rs\<close>: \<open>RouteTable::new\<close> expands the listener aliases of
  the configured routes (a \<open>tcp_udp\<close> listener stands for its two concrete listeners), and
  \<open>RouteTable::select\<close> picks the most specific entry that matches a request.  The SIP URI
  parser of \<open>rsipstack\<close> is the parameter \<open>uri_host\<close>: the host of a URI as text, or
  \<open>None\<close> when the text is not a URI.  The theory shows which configured route is chosen
  and that, in a validated configuration, the chosen group is one the loop check covered.
\<close>

section \<open>Data\<close>

record selected_route =
  sr_name :: string
  sr_upstream_group :: string

record route_entry =
  re_name :: string
  re_listener :: "string option"
  re_domain :: "string option"
  re_prefix :: "string option"
  re_upstream_group :: string

record route_table =
  tbl_routes :: "route_entry list"

section \<open>Operations\<close>

definition try_from_with_listener :: "route_config \<Rightarrow> string option \<Rightarrow> route_entry" where
  "try_from_with_listener r listener = \<lparr>re_name = rt_name r, re_listener = listener,
     re_domain = rt_domain r, re_prefix = rt_prefix r, re_upstream_group = rt_upstream_group r\<rparr>"

definition insert_listener_alias ::
  "proxy_listener_config \<Rightarrow> (string, string list) hmap \<Rightarrow> (string, string list) hmap" where
  "insert_listener_alias l aliases =
     (let concrete_keys = map listener_key (concrete_listeners l)
      in foldl (\<lambda>m key. hm_insert key [key] m) (hm_insert (listener_key l) concrete_keys aliases) concrete_keys)"

definition listener_route_aliases :: "proxy_config \<Rightarrow> (string, string list) hmap" where
  "listener_route_aliases px = foldl (\<lambda>m l. insert_listener_alias l m) hm_empty (px_listeners px)"

definition expand_route_listeners ::
  "route_config \<Rightarrow> (string, string list) hmap \<Rightarrow> route_entry list" where
  "expand_route_listeners r aliases =
     (case rt_listener r of
        Some listener \<Rightarrow>
          map (\<lambda>l. try_from_with_listener r (Some l))
            (case hm_get aliases listener of Some ls \<Rightarrow> ls | None \<Rightarrow> [listener])
      | None \<Rightarrow> [try_from_with_listener r None])"

definition route_table_new :: "proxy_config \<Rightarrow> route_table" where
  "route_table_new px =
     \<lparr>tbl_routes = concat (map (\<lambda>r. expand_route_listeners r (listener_route_aliases px)) (px_routes px))\<rparr>"

definition uri_host_matches :: "(string \<Rightarrow> string option) \<Rightarrow> string \<Rightarrow> string \<Rightarrow> bool" where
  "uri_host_matches uri_host uri domain \<longleftrightarrow>
     (case uri_host uri of None \<Rightarrow> False | Some host \<Rightarrow> eq_ignore_ascii_case host domain)"

definition is_none_or :: "('a \<Rightarrow> bool) \<Rightarrow> 'a option \<Rightarrow> bool" where
  "is_none_or P v \<longleftrightarrow> (case v of None \<Rightarrow> True | Some x \<Rightarrow> P x)"

definition route_matches :: "(string \<Rightarrow> string option) \<Rightarrow> route_entry \<Rightarrow> string \<Rightarrow> string \<Rightarrow> bool" where
  "route_matches uri_host r key uri \<longleftrightarrow>
     is_none_or (\<lambda>l. l = key) (re_listener r)
     \<and> is_none_or (uri_host_matches uri_host uri) (re_domain r)
     \<and> is_none_or (starts_with uri) (re_prefix r)"

definition specificity :: "route_entry \<Rightarrow> nat" where
  "specificity r = of_bool (re_listener r \<noteq> None) + of_bool (re_domain r \<noteq> None) + of_bool (re_prefix r \<noteq> None)"

text \<open>\<open>Iterator::max_by_key\<close> keeps the later of two equal elements.\<close>

fun max_by_key :: "('a \<Rightarrow> nat) \<Rightarrow> 'a list \<Rightarrow> 'a option" where
  "max_by_key f [] = None"
| "max_by_key f (x # xs) = Some (foldl (\<lambda>best y. if f best > f y then best else y) x xs)"

definition route_select :: "(string \<Rightarrow> string option) \<Rightarrow> route_table \<Rightarrow> string \<Rightarrow> string \<Rightarrow> selected_route option" where
  "route_select uri_host t key uri =
     map_option (\<lambda>r. \<lparr>sr_name = re_name r, sr_upstream_group = re_upstream_group r\<rparr>)
       (max_by_key specificity (filter (\<lambda>r. route_matches uri_host r key uri) (tbl_routes t)))"

section \<open>The last best element\<close>

definition last_best :: "('a \<Rightarrow> nat) \<Rightarrow> 'a list \<Rightarrow> 'a \<Rightarrow> bool" where
  "last_best f xs x \<longleftrightarrow> (\<exists>pre post. xs = pre @ x # post \<and>
     (\<forall>y \<in> set pre. f y \<le> f x) \<and> (\<forall>y \<in> set post. f y < f x))"

lemma last_best_snoc:
  "last_best f (xs @ [y]) x \<longleftrightarrow>
     (x = y \<and> (\<forall>z \<in> set xs. f z \<le> f y)) \<or> (last_best f xs x \<and> f y < f x)"
proof
  assume "last_best f (xs @ [y]) x"
  then obtain pre post where s: "xs @ [y] = pre @ x # post"
    and b: "\<forall>y \<in> set pre. f y \<le> f x" "\<forall>y \<in> set post. f y < f x"
    by (auto simp: last_best_def)
  show "(x = y \<and> (\<forall>z \<in> set xs. f z \<le> f y)) \<or> (last_best f xs x \<and> f y < f x)"
    using s b by (cases post rule: rev_cases) (auto simp: last_best_def)
next
  assume "(x = y \<and> (\<forall>z \<in> set xs. f z \<le> f y)) \<or> (last_best f xs x \<and> f y < f x)"
  then show "last_best f (xs @ [y]) x"
  proof
    assume "x = y \<and> (\<forall>z \<in> set xs. f z \<le> f y)"
    then have "xs @ [y] = xs @ x # [] \<and> (\<forall>z \<in> set xs. f z \<le> f x) \<and> (\<forall>z \<in> set []. f z < f x)" by simp
    then show ?thesis unfolding last_best_def by blast
  next
    assume a: "last_best f xs x \<and> f y < f x"
    then obtain pre post where "xs = pre @ x # post" "\<forall>y \<in> set pre. f y \<le> f x" "\<forall>y \<in> set post. f y < f x"
      by (auto simp: last_best_def)
    with a have "xs @ [y] = pre @ x # (post @ [y]) \<and> (\<forall>z \<in> set pre. f z \<le> f x) \<and>
        (\<forall>z \<in> set (post @ [y]). f z < f x)" by simp
    then show ?thesis unfolding last_best_def by blast
  qed
qed

lemma last_best_le: "last_best f xs x \<Longrightarrow> y \<in> set xs \<Longrightarrow> f y \<le> f x"
  by (fastforce simp: last_best_def)

lemma last_best_unique: "last_best f xs x \<Longrightarrow> last_best f xs y \<Longrightarrow> x = y"
proof (induction xs rule: rev_induct)
  case Nil
  then show ?case by (simp add: last_best_def)
next
  case (snoc z xs)
  then show ?case by (auto simp: last_best_snoc dest: last_best_le) (auto simp: last_best_def)
qed

lemma foldl_best: "last_best f (x # xs) (foldl (\<lambda>best y. if f best > f y then best else y) x xs)"
proof (induction xs rule: rev_induct)
  case Nil
  show ?case by (auto simp: last_best_def intro!: exI [of _ "[]"])
next
  case (snoc y xs)
  let ?b = "foldl (\<lambda>best y. if f best > f y then best else y) x xs"
  have "last_best f ((x # xs) @ [y]) (if f ?b > f y then ?b else y)"
  proof (cases "f ?b > f y")
    case True
    then show ?thesis unfolding last_best_snoc using snoc by simp
  next
    case False
    then have "f z \<le> f y" if "z \<in> set (x # xs)" for z
      using last_best_le [OF snoc that] by simp
    with False show ?thesis unfolding last_best_snoc by simp
  qed
  then show ?case by simp
qed

lemma max_by_key_iff: "max_by_key f xs = Some x \<longleftrightarrow> last_best f xs x"
proof (cases xs)
  case Nil
  then show ?thesis by (simp add: last_best_def)
next
  case (Cons y ys)
  then show ?thesis using foldl_best [of f y ys] last_best_unique by auto
qed

lemma max_by_key_map: "max_by_key f (map g xs) = map_option g (max_by_key (\<lambda>x. f (g x)) xs)"
proof (cases xs)
  case Nil
  then show ?thesis by simp
next
  case (Cons y ys)
  have "foldl (\<lambda>best z. if f best > f z then best else z) (g y) (map g ys) =
      g (foldl (\<lambda>best z. if f (g best) > f (g z) then best else z) y ys)"
    by (induction ys arbitrary: y) simp_all
  with Cons show ?thesis by simp
qed

lemma max_by_key_None: "max_by_key f xs = None \<longleftrightarrow> xs = []"
  by (cases xs) simp_all

section \<open>What the aliases expand to\<close>

abbreviation concrete_keys :: "proxy_listener_config \<Rightarrow> string list" where
  "concrete_keys l \<equiv> map listener_key (concrete_listeners l)"

definition expansion :: "proxy_config \<Rightarrow> string \<Rightarrow> string list" where
  "expansion px listener =
     (case hm_get (listener_route_aliases px) listener of Some ls \<Rightarrow> ls | None \<Rightarrow> [listener])"

lemma concrete_keys_cases:
  "l_transport l \<noteq> TcpUdp \<Longrightarrow> concrete_keys l = [listener_key l]"
  by (cases "l_transport l") (simp_all add: concrete_listeners_def with_transport_def listener_key_def)

lemma concrete_key_not_alias:
  "k \<in> set (concrete_keys l) \<Longrightarrow> l_transport l' = TcpUdp \<Longrightarrow> k \<noteq> listener_key l'"
  by (cases "l_transport l")
    (auto simp: concrete_listeners_def with_transport_def listener_key_inject)

lemma concrete_keys_eq: "listener_key l = listener_key l' \<Longrightarrow> concrete_keys l = concrete_keys l'"
  unfolding listener_key_inject
  by (simp add: concrete_listeners_def with_transport_def listener_key_def)

lemma distinct_concrete_keys: "distinct (concrete_keys l)"
  by (cases "l_transport l")
    (auto simp: concrete_listeners_def with_transport_def listener_key_inject)

lemma distinct_concat_same:
  "distinct (concat (map f xs)) \<Longrightarrow> x \<in> set xs \<Longrightarrow> y \<in> set xs \<Longrightarrow> z \<in> set (f x) \<Longrightarrow> z \<in> set (f y) \<Longrightarrow> x = y"
  by (induction xs) auto

lemma self_alias_fold:
  "hm_inv m \<Longrightarrow> hm_inv (foldl (\<lambda>m key. hm_insert key [key] m) m ks) \<and>
     hm_get (foldl (\<lambda>m key. hm_insert key [key] m) m ks) k = (if k \<in> set ks then Some [k] else hm_get m k)"
  by (induction ks arbitrary: m) (auto simp: hm_simps)

lemma insert_listener_alias_get:
  "hm_inv m \<Longrightarrow> hm_inv (insert_listener_alias l m) \<and>
     hm_get (insert_listener_alias l m) k =
       (if k \<in> set (concrete_keys l) then Some [k]
        else if k = listener_key l then Some (concrete_keys l) else hm_get m k)"
  using self_alias_fold [of "hm_insert (listener_key l) (concrete_keys l) m" "concrete_keys l" k]
  by (simp add: insert_listener_alias_def Let_def hm_simps)

lemma aliases_fold:
  assumes "hm_inv m"
  shows "hm_inv (foldl (\<lambda>m l. insert_listener_alias l m) m ls) \<and>
    (case hm_get (foldl (\<lambda>m l. insert_listener_alias l m) m ls) k of
       None \<Rightarrow> hm_get m k = None \<and> (\<forall>l \<in> set ls. k \<notin> set (concrete_keys l) \<and> k \<noteq> listener_key l)
     | Some ks \<Rightarrow> hm_get m k = Some ks \<or> (\<exists>l \<in> set ls. k \<in> set (concrete_keys l) \<and> ks = [k]
         \<or> k \<notin> set (concrete_keys l) \<and> k = listener_key l \<and> ks = concrete_keys l))"
  using assms
proof (induction ls rule: rev_induct)
  case Nil
  then show ?case by (simp split: option.splits)
next
  case (snoc l ls)
  then show ?case
    by (auto simp: insert_listener_alias_get split: option.splits if_splits)
qed

lemma aliases_Some:
  assumes "hm_get (listener_route_aliases px) k = Some ks"
  shows "\<exists>l \<in> set (px_listeners px). k \<in> set (concrete_keys l) \<and> ks = [k]
    \<or> k \<notin> set (concrete_keys l) \<and> k = listener_key l \<and> ks = concrete_keys l"
  using aliases_fold [OF hm_inv_empty, of "px_listeners px" k] assms
  by (simp add: listener_route_aliases_def)

lemma aliases_None:
  assumes "hm_get (listener_route_aliases px) k = None" "l \<in> set (px_listeners px)"
  shows "k \<notin> set (concrete_keys l) \<and> k \<noteq> listener_key l"
  using aliases_fold [OF hm_inv_empty, of "px_listeners px" k] assms
  by (simp add: listener_route_aliases_def)

lemma distinct_expansion: "distinct (expansion px k)"
  using aliases_Some [of px k] distinct_concrete_keys
  by (auto simp: expansion_def split: option.splits)

lemma expansion_iff:
  assumes D: "distinct (concat (map concrete_keys (px_listeners px)))"
    and l: "l \<in> set (px_listeners px)" and k: "k \<in> set (concrete_keys l)"
  shows "k \<in> set (expansion px rl) \<longleftrightarrow> rl = k \<or> rl = listener_key l"
proof (cases "hm_get (listener_route_aliases px) rl")
  case None
  then have "rl \<notin> set (concrete_keys l) \<and> rl \<noteq> listener_key l"
    using l by (rule aliases_None)
  with None k show ?thesis by (auto simp: expansion_def)
next
  case (Some ks)
  then have e: "expansion px rl = ks" by (simp add: expansion_def)
  from aliases_Some [OF Some] obtain l' where l': "l' \<in> set (px_listeners px)" and
    "rl \<in> set (concrete_keys l') \<and> ks = [rl]
     \<or> rl \<notin> set (concrete_keys l') \<and> rl = listener_key l' \<and> ks = concrete_keys l'" by blast
  then consider (self) "rl \<in> set (concrete_keys l')" "ks = [rl]"
    | (both) "rl \<notin> set (concrete_keys l')" "rl = listener_key l'" "ks = concrete_keys l'" by blast
  then show ?thesis
  proof cases
    case self
    then have "l_transport l \<noteq> TcpUdp" if "rl = listener_key l"
      using that concrete_key_not_alias by blast
    then have "rl = k" if "rl = listener_key l" using that k concrete_keys_cases [of l] by auto
    with self e show ?thesis by auto
  next
    case both
    then have t: "l_transport l' = TcpUdp" using concrete_keys_cases [of l'] by fastforce
    then have "rl \<noteq> k" using concrete_key_not_alias [OF k t] both(2) by simp
    moreover have "k \<in> set (concrete_keys l') \<longleftrightarrow> rl = listener_key l"
    proof
      assume "k \<in> set (concrete_keys l')"
      then have "l = l'" using distinct_concat_same [OF D l l' k] by simp
      then show "rl = listener_key l" using both(2) by simp
    next
      assume "rl = listener_key l"
      then have "concrete_keys l' = concrete_keys l" using both(2) concrete_keys_eq by metis
      then show "k \<in> set (concrete_keys l')" using k by simp
    qed
    ultimately show ?thesis using both e by simp
  qed
qed

section \<open>Configured routes\<close>

definition route_applies ::
  "(string \<Rightarrow> string option) \<Rightarrow> proxy_listener_config \<Rightarrow> string \<Rightarrow> string \<Rightarrow> route_config \<Rightarrow> bool" where
  "route_applies uri_host l key uri r \<longleftrightarrow>
     is_none_or (\<lambda>rl. rl = key \<or> rl = listener_key l) (rt_listener r)
     \<and> is_none_or (uri_host_matches uri_host uri) (rt_domain r)
     \<and> is_none_or (starts_with uri) (rt_prefix r)"

definition route_specificity :: "route_config \<Rightarrow> nat" where
  "route_specificity r = specificity (try_from_with_listener r (rt_listener r))"

lemma filter_eq_distinct: "distinct xs \<Longrightarrow> filter (\<lambda>x. x = k) xs = (if k \<in> set xs then [k] else [])"
  by (induction xs) auto

definition entry_for :: "string \<Rightarrow> route_config \<Rightarrow> route_entry" where
  "entry_for key r = try_from_with_listener r (map_option (\<lambda>_. key) (rt_listener r))"

lemma filter_expanded:
  assumes "distinct (concat (map concrete_keys (px_listeners px)))"
    and "l \<in> set (px_listeners px)" and "k \<in> set (concrete_keys l)"
  shows "filter (\<lambda>e. route_matches uri_host e k uri) (expand_route_listeners r (listener_route_aliases px)) =
    (if route_applies uri_host l k uri r then [entry_for k r] else [])"
proof (cases "rt_listener r")
  case None
  then show ?thesis
    by (simp add: expand_route_listeners_def route_applies_def route_matches_def entry_for_def
        try_from_with_listener_def is_none_or_def)
next
  case (Some rl)
  let ?d = "is_none_or (uri_host_matches uri_host uri) (rt_domain r) \<and> is_none_or (starts_with uri) (rt_prefix r)"
  have "filter (\<lambda>e. route_matches uri_host e k uri) (expand_route_listeners r (listener_route_aliases px)) =
      map (\<lambda>l. try_from_with_listener r (Some l)) (filter (\<lambda>x. x = k \<and> ?d) (expansion px rl))"
    using Some by (simp add: expand_route_listeners_def expansion_def filter_map comp_def route_matches_def
        try_from_with_listener_def is_none_or_def)
  also have "\<dots> = (if k \<in> set (expansion px rl) \<and> ?d then [try_from_with_listener r (Some k)] else [])"
    using filter_eq_distinct [OF distinct_expansion, of k px rl] by (cases ?d) simp_all
  finally show ?thesis
    using Some expansion_iff [OF assms, of rl] by (auto simp: route_applies_def is_none_or_def entry_for_def)
qed

lemma filter_concat_single:
  "(\<And>x. x \<in> set xs \<Longrightarrow> filter P (g x) = (if Q x then [h x] else [])) \<Longrightarrow>
     filter P (concat (map g xs)) = map h (filter Q xs)"
  by (induction xs) auto

lemma select_configured:
  assumes "distinct (concat (map concrete_keys (px_listeners px)))"
    and "l \<in> set (px_listeners px)" and "k \<in> set (concrete_keys l)"
  shows "route_select uri_host (route_table_new px) k uri =
    map_option (\<lambda>r. \<lparr>sr_name = rt_name r, sr_upstream_group = rt_upstream_group r\<rparr>)
      (max_by_key route_specificity (filter (route_applies uri_host l k uri) (px_routes px)))"
proof -
  have "filter (\<lambda>e. route_matches uri_host e k uri) (tbl_routes (route_table_new px)) =
      map (entry_for k) (filter (route_applies uri_host l k uri) (px_routes px))"
    unfolding route_table_new_def by (simp, rule filter_concat_single) (rule filter_expanded [OF assms])
  moreover have "(\<lambda>r. specificity (entry_for k r)) = route_specificity"
    by (auto simp: fun_eq_iff route_specificity_def entry_for_def specificity_def try_from_with_listener_def)
  ultimately show ?thesis
    by (simp add: route_select_def max_by_key_map option.map_comp comp_def entry_for_def
        try_from_with_listener_def)
qed

lemma last_best_filter:
  "last_best f (filter P xs) x \<Longrightarrow> \<exists>pre post. xs = pre @ x # post \<and> P x \<and>
     (\<forall>y \<in> set pre. P y \<longrightarrow> f y \<le> f x) \<and> (\<forall>y \<in> set post. P y \<longrightarrow> f y < f x)"
proof (induction xs rule: rev_induct)
  case Nil
  then show ?case by (simp add: last_best_def)
next
  case (snoc z xs)
  show ?case
  proof (cases "P z \<and> x = z \<and> (\<forall>y \<in> set (filter P xs). f y \<le> f z)")
    case True
    then have "xs @ [z] = xs @ x # [] \<and> P x \<and> (\<forall>y \<in> set xs. P y \<longrightarrow> f y \<le> f x) \<and>
        (\<forall>y \<in> set []. P y \<longrightarrow> f y < f x)" by simp
    then show ?thesis by blast
  next
    case False
    then have "last_best f (filter P xs) x" and z: "P z \<longrightarrow> f z < f x"
      using snoc.prems by (auto simp: last_best_snoc split: if_splits)
    from snoc.IH [OF this(1)] obtain pre post where
      "xs = pre @ x # post" "P x" "\<forall>y \<in> set pre. P y \<longrightarrow> f y \<le> f x" "\<forall>y \<in> set post. P y \<longrightarrow> f y < f x" by blast
    with z have "xs @ [z] = pre @ x # (post @ [z]) \<and> P x \<and> (\<forall>y \<in> set pre. P y \<longrightarrow> f y \<le> f x) \<and>
        (\<forall>y \<in> set (post @ [z]). P y \<longrightarrow> f y < f x)" by simp
    then show ?thesis by blast
  qed
qed

lemma validated_listener_keys:
  assumes "validate parse_uri c = Inr u"
  shows "distinct (concat (map concrete_keys (px_listeners (c_proxy c))))"
    and "rt \<in> set (px_routes (c_proxy c)) \<Longrightarrow>
      rt_upstream_group rt \<in> ug_name ` set (px_upstream_groups (c_proxy c))"
    and "l \<in> set (px_listeners (c_proxy c)) \<Longrightarrow>
      l_upstream_group l \<in> ug_name ` set (px_upstream_groups (c_proxy c))"
proof -
  from assms obtain groups keys rks where
    g: "validate_groups parse_uri [] (px_upstream_groups (c_proxy c)) = Inr groups"
    and l: "validate_listeners groups [] [] (px_listeners (c_proxy c)) = Inr (keys, rks)"
    and r: "validate_routes groups rks (px_routes (c_proxy c)) = Inr ()"
    by (rule validate_parts)
  have set_groups: "set groups = ug_name ` set (px_upstream_groups (c_proxy c))"
    using validate_groups_Inr [OF g] by simp
  show "distinct (concat (map concrete_keys (px_listeners (c_proxy c))))"
    using validate_listeners_Inr [OF l] by simp
  show "l \<in> set (px_listeners (c_proxy c)) \<Longrightarrow>
      l_upstream_group l \<in> ug_name ` set (px_upstream_groups (c_proxy c))"
    using validate_listeners_Inr [OF l] set_groups by simp
  show "rt \<in> set (px_routes (c_proxy c)) \<Longrightarrow>
      rt_upstream_group rt \<in> ug_name ` set (px_upstream_groups (c_proxy c))"
    using r set_groups by (auto simp: validate_routes_def)
qed

lemma route_applies_used:
  assumes "route_applies uri_host l (listener_key cl) uri r" "r \<in> set (px_routes px)"
  shows "rt_upstream_group r \<in> set (upstream_groups_used_by_listener px l cl)"
  using assms by (auto simp: upstream_groups_used_by_listener_def route_applies_def is_none_or_def
      split: option.splits)

section \<open>A configuration with routes\<close>

text \<open>One \<open>tcp_udp\<close> listener, a route for it by alias to a group of its own, and a more general route after it.\<close>

definition routed_config :: config where
  "routed_config = default_config\<lparr>c_proxy := default_proxy\<lparr>
     px_listeners := [\<lparr>l_bind = ''0.0.0.0:5060'', l_transport = TcpUdp,
       l_upstream_group = ''default'', l_security = None\<rparr>],
     px_upstream_groups := px_upstream_groups default_proxy @ [\<lparr>ug_name = ''carrier'', ug_mode = RoundRobin,
       ug_health_check = default_health_check, ug_servers = [''127.0.0.1:5081'']\<rparr>],
     px_routes :=
       [\<lparr>rt_name = ''trunk'', rt_listener = Some ''tcp_udp/0.0.0.0:5060'', rt_domain = None,
         rt_prefix = Some ''sip:9'', rt_upstream_group = ''carrier''\<rparr>,
        \<lparr>rt_name = ''rest'', rt_listener = None, rt_domain = None, rt_prefix = None,
         rt_upstream_group = ''default''\<rparr>]\<rparr>\<rparr>"

lemma parse_carrier_server: "parse_sock ''127.0.0.1:5081'' = Some (SockV4 2130706433 5081)"
  by (simp add: net_eval cong: net_cong)

lemma validate_routed_config: "validate parse_uri routed_config = Inr ()"
proof -
  note loop_defs = validate_upstream_targets_do_not_loop_to_proxy_def
    upstream_groups_used_by_listener_def check_group_loop_def check_server_loop_def
    proxy_self_addrs_for_listener_def map_filter_def
  note defs = default_proxy_def validate_health_check_def default_health_check_def
    validate_host_port_def parse_default_bind parse_default_server parse_carrier_server concrete_listeners_def
    listener_key_def with_transport_def validate_routes_def default_sip_def
    validate_persistence_def default_persistence_def default_ha_def bail_if_def bind_res_Inr_iff
  have "validate_proxy_basics (c_proxy routed_config) = Inr ()"
    using validate_default_proxy_basics
    by (simp add: validate_proxy_basics_def routed_config_def default_proxy_def Let_def split: if_splits)
  then show ?thesis
    by (simp add: validate_def default_config_def routed_config_def validate_default_sip
        validate_default_ha bind_res_Inr_iff) (simp add: defs loop_defs)
qed

section \<open>Properties\<close>

text \<open>
  C22: which route a request takes.  In a validated configuration, for every listener, every
  concrete listener it stands for and every request URI, \<open>select\<close> on the expanded table
  answers \<open>None\<close> exactly when no configured route applies, and otherwise the configured
  route that applies, is at least as specific as every applicable route before it and
  strictly more specific than every one after it (the last among the most specific); a
  route naming a \<open>tcp_udp\<close> listener applies to both of its transports.  The chosen group
  exists and is among the groups the loop check examined for that listener.
\<close>

theorem route_selection:
  assumes "validate parse_uri c = Inr ()"
    and "l \<in> set (px_listeners (c_proxy c))" and "cl \<in> set (concrete_listeners l)"
  shows "case route_select uri_host (route_table_new (c_proxy c)) (listener_key cl) uri of
      None \<Rightarrow> \<forall>r \<in> set (px_routes (c_proxy c)). \<not> route_applies uri_host l (listener_key cl) uri r
    | Some s \<Rightarrow> \<exists>pre r post. px_routes (c_proxy c) = pre @ r # post
        \<and> s = \<lparr>sr_name = rt_name r, sr_upstream_group = rt_upstream_group r\<rparr>
        \<and> route_applies uri_host l (listener_key cl) uri r
        \<and> (\<forall>y \<in> set pre. route_applies uri_host l (listener_key cl) uri y \<longrightarrow>
              route_specificity y \<le> route_specificity r)
        \<and> (\<forall>y \<in> set post. route_applies uri_host l (listener_key cl) uri y \<longrightarrow>
              route_specificity y < route_specificity r)
        \<and> sr_upstream_group s \<in> ug_name ` set (px_upstream_groups (c_proxy c))
        \<and> sr_upstream_group s \<in> set (upstream_groups_used_by_listener (c_proxy c) l cl)"
proof -
  let ?px = "c_proxy c" and ?A = "route_applies uri_host l (listener_key cl) uri"
  have k: "listener_key cl \<in> set (concrete_keys l)" using assms(3) by simp
  note sel = select_configured [OF validated_listener_keys(1) [OF assms(1)] assms(2) k, of uri_host uri]
  show ?thesis
  proof (cases "max_by_key route_specificity (filter ?A (px_routes ?px))")
    case None
    then show ?thesis by (simp add: sel max_by_key_None filter_empty_conv)
  next
    case (Some r)
    then have "last_best route_specificity (filter ?A (px_routes ?px)) r" by (simp add: max_by_key_iff)
    from last_best_filter [OF this] obtain pre post where
      r: "px_routes ?px = pre @ r # post" "?A r" "\<forall>y \<in> set pre. ?A y \<longrightarrow> route_specificity y \<le> route_specificity r"
        "\<forall>y \<in> set post. ?A y \<longrightarrow> route_specificity y < route_specificity r" by blast
    then have "r \<in> set (px_routes ?px)" by simp
    then have "rt_upstream_group r \<in> ug_name ` set (px_upstream_groups ?px)"
      "rt_upstream_group r \<in> set (upstream_groups_used_by_listener ?px l cl)"
      using validated_listener_keys(2) [OF assms(1)] route_applies_used [OF r(2)] by simp_all
    with r Some show ?thesis by (auto simp: sel)
  qed
qed

theorem route_selection_witness:
  "validate (\<lambda>_. None) routed_config = Inr () \<and>
   (\<exists>s. route_select (\<lambda>_. None) (route_table_new (c_proxy routed_config)) ''tcp/0.0.0.0:5060'' ''sip:911@x'' = Some s
     \<and> sr_name s = ''trunk'' \<and> sr_upstream_group s \<in> ug_name ` set (px_upstream_groups (c_proxy routed_config)))"
proof -
  let ?l = "\<lparr>l_bind = ''0.0.0.0:5060'', l_transport = TcpUdp, l_upstream_group = ''default'', l_security = None\<rparr>"
  let ?cl = "with_transport ?l Tcp"
  have "?l \<in> set (px_listeners (c_proxy routed_config))" by (simp add: routed_config_def)
  moreover have "?cl \<in> set (concrete_listeners ?l)" by (simp add: concrete_listeners_def)
  moreover have "listener_key ?cl = ''tcp/0.0.0.0:5060''" by (simp add: listener_key_def with_transport_def)
  ultimately have *: "case route_select (\<lambda>_. None) (route_table_new (c_proxy routed_config)) ''tcp/0.0.0.0:5060'' ''sip:911@x'' of
      None \<Rightarrow> True | Some s \<Rightarrow> sr_upstream_group s \<in> ug_name ` set (px_upstream_groups (c_proxy routed_config))"
    using route_selection [OF validate_routed_config [of "\<lambda>_. None"], of ?l ?cl "\<lambda>_. None" "''sip:911@x''"]
    by (auto split: option.splits)
  have "route_select (\<lambda>_. None) (route_table_new (c_proxy routed_config)) ''tcp/0.0.0.0:5060'' ''sip:911@x'' =
      Some \<lparr>sr_name = ''trunk'', sr_upstream_group = ''carrier''\<rparr>"
    by code_simp
  with * validate_routed_config show ?thesis by simp
qed

end
