(* ===== verification/Expiring.thy ===== *)
theory Expiring
  imports Sharded
begin

text \<open>
  Tables whose entries expire.  Most of the proxy's state (contacts, UDP branches, client
  transactions, INVITE transactions, pending registrations) is a map whose entries carry a
  deadline; readers prune dead entries when they get hold of the lock.  The locale
  \<open>expiring_store\<close> extends the store contract by a notion of being alive that time can only
  end, and relates every operation to the view of the entries still alive: pruning is
  invisible in that view.
\<close>

locale expiring_store = map_store get insert remove retain len inv
  for get :: "'m \<Rightarrow> 'k \<Rightarrow> 'v option"
    and insert :: "'k \<Rightarrow> 'v \<Rightarrow> 'm \<Rightarrow> 'm"
    and remove :: "'k \<Rightarrow> 'm \<Rightarrow> 'm"
    and retain :: "('k \<Rightarrow> 'v \<Rightarrow> bool) \<Rightarrow> 'm \<Rightarrow> 'm"
    and len :: "'m \<Rightarrow> nat"
    and inv :: "'m \<Rightarrow> bool" +
  fixes alive :: "nat \<Rightarrow> 'v \<Rightarrow> bool"
  assumes alive_antimono: "t \<le> t' \<Longrightarrow> alive t' v \<Longrightarrow> alive t v"
begin

definition view :: "nat \<Rightarrow> 'm \<Rightarrow> 'k \<Rightarrow> 'v option" where
  "view now m k = keep_if (\<lambda>_. alive now) k (get m k)"

lemma view_SomeD: "view now m k = Some v \<Longrightarrow> get m k = Some v \<and> alive now v"
  by (simp add: view_def keep_if_eq_Some)

lemma view_insert:
  "inv m \<Longrightarrow> view now (insert k v m) = (if alive now v then (view now m)(k \<mapsto> v) else (view now m)(k := None))"
  by (simp add: view_def get_insert fun_eq_iff)

lemma view_remove: "inv m \<Longrightarrow> view now (remove k m) = (view now m)(k := None)"
  by (simp add: view_def get_remove fun_eq_iff)

lemma view_remove_dead:
  assumes "inv m" "view now m k = None"
  shows "view now (remove k m) = view now m"
  using assms by (simp add: view_remove fun_upd_idem)

lemma view_prune:
  assumes "inv m" "t \<le> now"
  shows "view now (retain (\<lambda>_. alive t) m) = view now m"
proof
  fix k
  show "view now (retain (\<lambda>_. alive t) m) k = view now m k"
    using alive_antimono [OF assms(2)]
    by (cases "get m k") (auto simp: view_def get_retain assms(1))
qed

lemma get_prune: "inv m \<Longrightarrow> get (retain (\<lambda>_. alive now) m) k = view now m k"
  by (simp add: view_def get_retain)

lemma len_prune: "inv m \<Longrightarrow> len (retain (\<lambda>_. alive now) m) = card (dom (view now m))"
proof -
  assume "inv m"
  then have "get (retain (\<lambda>_. alive now) m) = view now m" by (intro ext) (rule get_prune)
  then show ?thesis using \<open>inv m\<close> by (simp add: len_card inv_retain)
qed

lemma view_later:
  assumes "t \<le> t'" "view t' m k = Some v"
  shows "view t m k = Some v"
  using assms alive_antimono [OF assms(1)] by (auto simp: view_def keep_if_eq_Some)

lemma finite_view: "inv m \<Longrightarrow> finite (dom (view now m))"
  by (rule finite_subset [OF _ finite_dom]) (auto dest: view_SomeD)

end

end
