(* ===== verification/Cluster.thy ===== *)
theory Cluster
  imports Expiring Rust_Std
begin

text \<open>
  The replicated registration state of \<open>cluster/mod.rs\<close>: contact bindings, the commands
  that change them, and \<open>SharedState\<close>, a map behind a lock whose readers drop expired
  bindings.  The current epoch time in milliseconds is the argument \<open>now\<close>.  \<open>lookup\<close>
  takes the lock twice, so it is also given as the steps between which other tasks run.
\<close>

section \<open>Data\<close>

type_synonym node_id = u64

datatype cluster_role = Leader | Follower | Candidate | Standalone

fun accepts_writes :: "cluster_role \<Rightarrow> bool" where
  "accepts_writes Leader = True"
| "accepts_writes Standalone = True"
| "accepts_writes _ = False"

record contact_binding =
  cb_aor :: string
  cb_contact :: string
  cb_source :: string
  cb_expires_at_epoch_ms :: nat

definition is_expired :: "nat \<Rightarrow> contact_binding \<Rightarrow> bool" where
  "is_expired now b \<longleftrightarrow> now \<ge> cb_expires_at_epoch_ms b"

definition contact_alive :: "nat \<Rightarrow> contact_binding \<Rightarrow> bool" where
  "contact_alive now b \<longleftrightarrow> \<not> is_expired now b"

datatype cluster_command =
    RegisterContact contact_binding
  | UnregisterContact string

record cluster_apply_result =
  applied :: bool
  apply_index :: "u64 option"

type_synonym contacts = "(string, contact_binding) hmap"

record shared_state =
  ss_contacts :: contacts

section \<open>Operations of the shared state\<close>

fun state_apply :: "cluster_command \<Rightarrow> shared_state \<Rightarrow> cluster_apply_result \<times> shared_state" where
  "state_apply (RegisterContact b) s =
     (\<lparr>applied = True, apply_index = None\<rparr>, s\<lparr>ss_contacts := hm_insert (cb_aor b) b (ss_contacts s)\<rparr>)"
| "state_apply (UnregisterContact aor) s =
     (\<lparr>applied = True, apply_index = None\<rparr>, s\<lparr>ss_contacts := hm_remove aor (ss_contacts s)\<rparr>)"

definition state_lookup :: "nat \<Rightarrow> string \<Rightarrow> shared_state \<Rightarrow> contact_binding option \<times> shared_state" where
  "state_lookup now aor s =
     (case hm_get (ss_contacts s) aor of
        None \<Rightarrow> (None, s)
      | Some b \<Rightarrow>
          if is_expired now b then (None, s\<lparr>ss_contacts := hm_remove aor (ss_contacts s)\<rparr>)
          else (Some b, s))"

definition contact_count :: "nat \<Rightarrow> shared_state \<Rightarrow> nat \<times> shared_state" where
  "contact_count now s =
     (let m = hm_retain (\<lambda>_. contact_alive now) (ss_contacts s) in (hm_len m, s\<lparr>ss_contacts := m\<rparr>))"

definition state_snapshot :: "nat \<Rightarrow> shared_state \<Rightarrow> contact_binding list \<times> shared_state" where
  "state_snapshot now s =
     (let m = hm_retain (\<lambda>_. contact_alive now) (ss_contacts s) in (map snd m, s\<lparr>ss_contacts := m\<rparr>))"

definition collect_contacts :: "contact_binding list \<Rightarrow> contacts" where
  "collect_contacts bs = foldl (\<lambda>m b. hm_insert (cb_aor b) b m) hm_empty bs"

definition state_install_snapshot :: "nat \<Rightarrow> contact_binding list \<Rightarrow> shared_state \<Rightarrow> shared_state" where
  "state_install_snapshot now bs s =
     s\<lparr>ss_contacts := collect_contacts (filter (contact_alive now) bs)\<rparr>"

definition expires_at :: "nat \<Rightarrow> duration \<Rightarrow> nat" where
  "expires_at now ttl = now + as_millis ttl"

section \<open>Invariant and view\<close>

definition contacts_inv :: "contacts \<Rightarrow> bool" where
  "contacts_inv m \<longleftrightarrow> hm_inv m \<and> (\<forall>aor b. hm_get m aor = Some b \<longrightarrow> cb_aor b = aor)"

interpretation contact_store: expiring_store hm_get hm_insert hm_remove hm_retain hm_len hm_inv contact_alive
  by unfold_locales (simp add: contact_alive_def is_expired_def)

definition contact_view :: "nat \<Rightarrow> shared_state \<Rightarrow> string \<Rightarrow> contact_binding option" where
  "contact_view now s = contact_store.view now (ss_contacts s)"

lemma contacts_inv_hm: "contacts_inv m \<Longrightarrow> hm_inv m"
  by (simp add: contacts_inv_def)

lemma contacts_invD: "contacts_inv m \<Longrightarrow> hm_get m aor = Some b \<Longrightarrow> cb_aor b = aor"
  by (simp add: contacts_inv_def)

lemma contacts_invI: "hm_inv m \<Longrightarrow> (\<And>aor b. hm_get m aor = Some b \<Longrightarrow> cb_aor b = aor) \<Longrightarrow> contacts_inv m"
  by (simp add: contacts_inv_def)

lemma contacts_inv_insert [intro]:
  assumes "contacts_inv m"
  shows "contacts_inv (hm_insert (cb_aor b) b m)"
proof (rule contacts_invI)
  note m = contacts_inv_hm [OF assms]
  show "hm_inv (hm_insert (cb_aor b) b m)" using m by (rule hm.inv_insert)
  show "cb_aor x = aor" if "hm_get (hm_insert (cb_aor b) b m) aor = Some x" for aor x
    using that contacts_invD [OF assms, of aor x] by (simp add: hm.get_insert [OF m] split: if_splits)
qed

lemma contacts_inv_remove [intro]:
  assumes "contacts_inv m"
  shows "contacts_inv (hm_remove aor m)"
proof (rule contacts_invI)
  note m = contacts_inv_hm [OF assms]
  show "hm_inv (hm_remove aor m)" using m by (rule hm.inv_remove)
  show "cb_aor x = k" if "hm_get (hm_remove aor m) k = Some x" for k x
    using that contacts_invD [OF assms, of k x] by (simp add: hm.get_remove [OF m] split: if_splits)
qed

lemma contacts_inv_retain [intro]:
  assumes "contacts_inv m"
  shows "contacts_inv (hm_retain P m)"
proof (rule contacts_invI)
  note m = contacts_inv_hm [OF assms]
  show "hm_inv (hm_retain P m)" using m by (rule hm.inv_retain)
  show "cb_aor x = k" if "hm_get (hm_retain P m) k = Some x" for k x
    using that contacts_invD [OF assms, of k x] by (simp add: hm.get_retain [OF m] keep_if_eq_Some)
qed

lemma contacts_inv_collect: "contacts_inv (collect_contacts bs)"
proof -
  have "contacts_inv m \<Longrightarrow> contacts_inv (foldl (\<lambda>m b. hm_insert (cb_aor b) b m) m bs)" for m
    by (induction bs arbitrary: m) auto
  moreover have "contacts_inv hm_empty" by (rule contacts_invI) simp_all
  ultimately show ?thesis unfolding collect_contacts_def by blast
qed

lemma hm_get_collect:
  "hm_get (collect_contacts bs) aor = List.find (\<lambda>b. cb_aor b = aor) (rev bs)"
proof (induction bs rule: rev_induct)
  case Nil
  then show ?case by (simp add: collect_contacts_def)
next
  case (snoc b bs)
  have "hm_inv (collect_contacts bs)" using contacts_inv_collect contacts_inv_hm by blast
  with snoc show ?case by (simp add: collect_contacts_def hm_simps)
qed

lemma snapshot_values:
  assumes "contacts_inv m"
  shows "set (map snd (hm_retain (\<lambda>_. contact_alive now) m)) = ran (contact_store.view now m)"
proof -
  have "hm_inv (hm_retain (\<lambda>_. contact_alive now) m)"
    using assms contacts_inv_hm by (blast intro: hm.inv_retain)
  then have "(k, b) \<in> set (hm_retain (\<lambda>_. contact_alive now) m) \<longleftrightarrow> contact_store.view now m k = Some b" for k b
    using contact_store.get_prune [OF contacts_inv_hm [OF assms], of now k] by (simp add: hm_mem_iff)
  then show ?thesis by (force simp: ran_def)
qed

lemma snapshot_distinct:
  assumes "contacts_inv m"
  shows "distinct (map cb_aor (map snd (hm_retain P m)))"
proof -
  have m: "contacts_inv (hm_retain P m)" using assms by (rule contacts_inv_retain)
  have "cb_aor (snd x) = fst x" if "x \<in> set (hm_retain P m)" for x
    using that contacts_invD [OF m, of "fst x" "snd x"] contacts_inv_hm [OF m]
    by (metis hm_mem_iff prod.collapse)
  then have "map cb_aor (map snd (hm_retain P m)) = map fst (hm_retain P m)" by simp
  then show ?thesis using contacts_inv_hm [OF m] by (simp only: hm_inv_def)
qed

lemma find_distinct:
  "distinct (map f xs) \<Longrightarrow> x \<in> set xs \<Longrightarrow> List.find (\<lambda>y. f y = f x) xs = Some x"
  by (induction xs) auto

lemma find_rev_distinct:
  assumes "distinct (map cb_aor bs)"
  shows "List.find (\<lambda>b. cb_aor b = aor) (rev bs) = Some b \<longleftrightarrow> b \<in> set bs \<and> cb_aor b = aor"
proof
  assume "List.find (\<lambda>b. cb_aor b = aor) (rev bs) = Some b"
  then show "b \<in> set bs \<and> cb_aor b = aor" by (auto simp: find_Some_iff) (metis nth_mem length_rev set_rev)
next
  assume "b \<in> set bs \<and> cb_aor b = aor"
  then show "List.find (\<lambda>b. cb_aor b = aor) (rev bs) = Some b"
    using find_distinct [of cb_aor "rev bs" b] assms by (simp add: rev_map [symmetric])
qed

section \<open>Lookup as steps\<close>

text \<open>
  \<open>lookup\<close> releases the read lock before it takes the write lock to remove an expired
  binding.  A task performing a lookup is at one of these points; between its steps other
  tasks apply commands and time passes.
\<close>

datatype lookup_point =
    Reading string
  | Removing string
  | Finished "contact_binding option"

record lookup_config =
  lc_state :: shared_state
  lc_now :: nat
  lc_point :: lookup_point

inductive lookup_step :: "lookup_config \<Rightarrow> lookup_config \<Rightarrow> bool" where
  read_none: "lc_point c = Reading aor \<Longrightarrow> hm_get (ss_contacts (lc_state c)) aor = None \<Longrightarrow>
    lookup_step c (c\<lparr>lc_point := Finished None\<rparr>)"
| read_live: "lc_point c = Reading aor \<Longrightarrow> hm_get (ss_contacts (lc_state c)) aor = Some b \<Longrightarrow>
    \<not> is_expired (lc_now c) b \<Longrightarrow> lookup_step c (c\<lparr>lc_point := Finished (Some b)\<rparr>)"
| read_expired: "lc_point c = Reading aor \<Longrightarrow> hm_get (ss_contacts (lc_state c)) aor = Some b \<Longrightarrow>
    is_expired (lc_now c) b \<Longrightarrow> lookup_step c (c\<lparr>lc_point := Removing aor\<rparr>)"
| remove_expired: "lc_point c = Removing aor \<Longrightarrow>
    lookup_step c (c\<lparr>lc_state := (lc_state c)\<lparr>ss_contacts := hm_remove aor (ss_contacts (lc_state c))\<rparr>,
      lc_point := Finished None\<rparr>)"
| other_task: "lookup_step c (c\<lparr>lc_state := snd (state_apply cmd (lc_state c))\<rparr>)"
| time_passes: "lc_now c \<le> t \<Longrightarrow> lookup_step c (c\<lparr>lc_now := t\<rparr>)"

inductive_cases lookup_step_cases: "lookup_step c c'"

lemma lookup_alone:
  "lookup_step\<^sup>*\<^sup>* \<lparr>lc_state = s, lc_now = now, lc_point = Reading aor\<rparr>
     \<lparr>lc_state = snd (state_lookup now aor s), lc_now = now, lc_point = Finished (fst (state_lookup now aor s))\<rparr>"
proof (cases "hm_get (ss_contacts s) aor")
  case None
  then show ?thesis
    using read_none [of "\<lparr>lc_state = s, lc_now = now, lc_point = Reading aor\<rparr>" aor]
    by (simp add: state_lookup_def r_into_rtranclp)
next
  case (Some b)
  show ?thesis
  proof (cases "is_expired now b")
    case True
    have "lookup_step \<lparr>lc_state = s, lc_now = now, lc_point = Reading aor\<rparr>
        \<lparr>lc_state = s, lc_now = now, lc_point = Removing aor\<rparr>"
      using read_expired [of "\<lparr>lc_state = s, lc_now = now, lc_point = Reading aor\<rparr>" aor b] Some True by simp
    moreover have "lookup_step \<lparr>lc_state = s, lc_now = now, lc_point = Removing aor\<rparr>
        \<lparr>lc_state = s\<lparr>ss_contacts := hm_remove aor (ss_contacts s)\<rparr>, lc_now = now, lc_point = Finished None\<rparr>"
      using remove_expired [of "\<lparr>lc_state = s, lc_now = now, lc_point = Removing aor\<rparr>" aor] by simp
    ultimately show ?thesis using Some True
      by (simp add: state_lookup_def)
  next
    case False
    then show ?thesis
      using read_live [of "\<lparr>lc_state = s, lc_now = now, lc_point = Reading aor\<rparr>" aor b] Some
      by (simp add: state_lookup_def r_into_rtranclp)
  qed
qed

lemma contact_view_transferred:
  assumes "contacts_inv (ss_contacts s)" and "now \<le> t" and "now' \<le> t"
  shows "contact_view t (state_install_snapshot now' (fst (state_snapshot now s)) s') = contact_view t s"
proof
  fix aor
  let ?bs = "fst (state_snapshot now s)"
  let ?ls = "filter (contact_alive now') ?bs"
  have bs: "set ?bs = ran (contact_view now s)" "distinct (map cb_aor ?bs)"
    using snapshot_values [OF assms(1), of now] snapshot_distinct [OF assms(1)]
    by (simp_all add: state_snapshot_def Let_def contact_view_def)
  have "distinct (map cb_aor ?ls)" using bs(2) by (simp add: distinct_map_filter)
  then have get: "hm_get (collect_contacts ?ls) aor = Some b \<longleftrightarrow>
      b \<in> ran (contact_view now s) \<and> contact_alive now' b \<and> cb_aor b = aor" for b
    using find_rev_distinct [of ?ls aor b] bs(1) by (auto simp: hm_get_collect)
  have own: "contact_view now s k = Some b \<Longrightarrow> cb_aor b = k" for k b
    using contacts_invD [OF assms(1)] by (simp add: contact_view_def contact_store.view_def keep_if_eq_Some)
  have "contact_view t (state_install_snapshot now' ?bs s') aor = Some b \<longleftrightarrow> contact_view t s aor = Some b" for b
  proof -
    have "contact_view t (state_install_snapshot now' ?bs s') aor = Some b \<longleftrightarrow>
        hm_get (collect_contacts ?ls) aor = Some b \<and> contact_alive t b"
      by (simp add: contact_view_def state_install_snapshot_def contact_store.view_def keep_if_eq_Some)
    also have "\<dots> \<longleftrightarrow> contact_view now s aor = Some b \<and> contact_alive now' b \<and> contact_alive t b"
      using own by (auto simp: get ran_def)
    also have "\<dots> \<longleftrightarrow> contact_view t s aor = Some b"
      using assms(2,3) by (auto simp: contact_view_def contact_store.view_def keep_if_eq_Some
          contact_alive_def is_expired_def)
    finally show ?thesis .
  qed
  then show "contact_view t (state_install_snapshot now' ?bs s') aor = contact_view t s aor"
    by (metis option.exhaust)
qed

section \<open>Properties\<close>

text \<open>
  C23: \<open>SharedState\<close> is a map of the unexpired bindings.  Read through the bindings still
  alive, registering replaces the binding of the address (a binding that is already expired
  hides the old one), unregistering removes it, a lookup answers the live binding and
  changes nothing that is visible then or later, counting counts the live bindings and a
  snapshot lists exactly them, once each; every operation keeps the invariant that a binding
  is stored under its own address.
\<close>

theorem shared_state_refines_live_map:
  assumes "contacts_inv (ss_contacts s)" and "now \<le> t"
  shows "(\<forall>b. contacts_inv (ss_contacts (snd (state_apply (RegisterContact b) s))) \<and>
      contact_view now (snd (state_apply (RegisterContact b) s)) =
        (contact_view now s)(cb_aor b := if contact_alive now b then Some b else None))
    \<and> (\<forall>aor. contacts_inv (ss_contacts (snd (state_apply (UnregisterContact aor) s))) \<and>
      contact_view now (snd (state_apply (UnregisterContact aor) s)) = (contact_view now s)(aor := None))
    \<and> (\<forall>aor. contacts_inv (ss_contacts (snd (state_lookup now aor s))) \<and>
      fst (state_lookup now aor s) = contact_view now s aor \<and>
      contact_view t (snd (state_lookup now aor s)) = contact_view t s)
    \<and> contacts_inv (ss_contacts (snd (contact_count now s)))
    \<and> fst (contact_count now s) = card (dom (contact_view now s))
    \<and> contact_view t (snd (contact_count now s)) = contact_view t s
    \<and> set (fst (state_snapshot now s)) = ran (contact_view now s)
    \<and> distinct (map cb_aor (fst (state_snapshot now s)))
    \<and> contact_view t (snd (state_snapshot now s)) = contact_view t s"
proof -
  note m = contacts_inv_hm [OF assms(1)]
  have lookup: "contacts_inv (ss_contacts (snd (state_lookup now aor s))) \<and>
      fst (state_lookup now aor s) = contact_view now s aor \<and>
      contact_view t (snd (state_lookup now aor s)) = contact_view t s" for aor
  proof (cases "hm_get (ss_contacts s) aor")
    case None
    then show ?thesis
      using assms(1) by (simp add: state_lookup_def contact_view_def contact_store.view_def)
  next
    case (Some b)
    have "contact_view t s aor = None" if "is_expired now b"
      using that Some assms(2)
      by (simp add: contact_view_def contact_store.view_def contact_alive_def is_expired_def)
    then show ?thesis
      using Some assms(1) m
      by (auto simp: state_lookup_def contact_view_def contact_store.view_remove_dead
          contact_store.view_def contact_alive_def)
  qed
  have apply_reg: "contacts_inv (ss_contacts (snd (state_apply (RegisterContact b) s))) \<and>
      contact_view now (snd (state_apply (RegisterContact b) s)) =
        (contact_view now s)(cb_aor b := if contact_alive now b then Some b else None)" for b
    using assms(1) m by (auto simp: contact_view_def contact_store.view_insert)
  have apply_unreg: "contacts_inv (ss_contacts (snd (state_apply (UnregisterContact aor) s))) \<and>
      contact_view now (snd (state_apply (UnregisterContact aor) s)) = (contact_view now s)(aor := None)" for aor
    using assms(1) m by (auto simp: contact_view_def contact_store.view_remove)
  have prune: "contact_view t (s\<lparr>ss_contacts := hm_retain (\<lambda>_. contact_alive now) (ss_contacts s)\<rparr>) = contact_view t s"
    "contacts_inv (hm_retain (\<lambda>_. contact_alive now) (ss_contacts s))"
    "hm_len (hm_retain (\<lambda>_. contact_alive now) (ss_contacts s)) = card (dom (contact_view now s))"
    using assms m by (auto simp: contact_view_def contact_store.view_prune contact_store.len_prune)
  show ?thesis
    using lookup apply_reg apply_unreg prune snapshot_values [OF assms(1), of now]
      snapshot_distinct [OF assms(1), of "\<lambda>_. contact_alive now"]
    by (simp add: contact_count_def state_snapshot_def Let_def contact_view_def)
qed

theorem shared_state_refines_live_map_witness:
  "fst (state_lookup 100 ''a'' \<lparr>ss_contacts = [(''a'', \<lparr>cb_aor = ''a'', cb_contact = ''c'',
     cb_source = ''s'', cb_expires_at_epoch_ms = 200\<rparr>)]\<rparr>) =
   Some \<lparr>cb_aor = ''a'', cb_contact = ''c'', cb_source = ''s'', cb_expires_at_epoch_ms = 200\<rparr>"
proof -
  let ?b = "\<lparr>cb_aor = ''a'', cb_contact = ''c'', cb_source = ''s'', cb_expires_at_epoch_ms = 200\<rparr>"
  let ?s = "\<lparr>ss_contacts = [(''a'', ?b)]\<rparr>"
  have "contacts_inv (ss_contacts ?s)"
    by (rule contacts_invI) (auto simp: hm_inv_def hm_get_def split: if_splits)
  then have "fst (state_lookup 100 ''a'' ?s) = contact_view 100 ?s ''a''"
    using shared_state_refines_live_map [of ?s 100 100] by simp
  then show ?thesis
    by (simp add: contact_view_def contact_store.view_def hm_get_def contact_alive_def is_expired_def)
qed

text \<open>
  Installing a snapshot taken from another node gives the same live bindings from then
  on, whatever the installing node held before.
\<close>

lemma contact_snapshot_transfer:
  assumes "contacts_inv (ss_contacts s)" and "now \<le> t" and "now' \<le> t"
  shows "contact_view t (state_install_snapshot now' (fst (state_snapshot now s)) s') = contact_view t s"
  using assms by (rule contact_view_transferred)

text \<open>
  C24: what an interleaved lookup can do.  Whatever other tasks do between the steps of a
  lookup for \<open>aor\<close>, a binding it returns was stored under \<open>aor\<close> and unexpired when it was
  read.  But the removal
  re-checks nothing: for every expired binding and every fresh one of the same address there
  is a run in which the fresh binding, registered between the two lock acquisitions, is
  removed by the lookup and is no longer stored although it is unexpired.
\<close>

theorem lookup_interleaving:
  "(\<forall>c c' b. lookup_step c c' \<longrightarrow> lc_point c' = Finished (Some b) \<longrightarrow> lc_point c \<noteq> lc_point c' \<longrightarrow>
      (\<exists>aor. lc_point c = Reading aor \<and> contact_view (lc_now c) (lc_state c) aor = Some b))
   \<and> (\<forall>old fresh now. is_expired now old \<and> contact_alive now fresh \<and> cb_aor fresh = cb_aor old \<longrightarrow>
      (\<exists>c. lookup_step\<^sup>*\<^sup>* \<lparr>lc_state = \<lparr>ss_contacts = [(cb_aor old, old)]\<rparr>, lc_now = now, lc_point = Reading (cb_aor old)\<rparr>
             \<lparr>lc_state = snd (state_apply (RegisterContact fresh) \<lparr>ss_contacts = [(cb_aor old, old)]\<rparr>),
               lc_now = now, lc_point = Removing (cb_aor old)\<rparr>
           \<and> lookup_step \<lparr>lc_state = snd (state_apply (RegisterContact fresh) \<lparr>ss_contacts = [(cb_aor old, old)]\<rparr>),
               lc_now = now, lc_point = Removing (cb_aor old)\<rparr> c
           \<and> contact_view now (snd (state_apply (RegisterContact fresh) \<lparr>ss_contacts = [(cb_aor old, old)]\<rparr>)) (cb_aor old) = Some fresh
           \<and> contact_view now (lc_state c) (cb_aor old) = None))"
proof (intro conjI allI impI)
  fix c c' b
  assume "lookup_step c c'" "lc_point c' = Finished (Some b)" "lc_point c \<noteq> lc_point c'"
  then show "\<exists>aor. lc_point c = Reading aor \<and> contact_view (lc_now c) (lc_state c) aor = Some b"
    by (cases rule: lookup_step_cases)
      (auto simp: contact_view_def contact_store.view_def contact_alive_def)
next
  fix old fresh now
  assume a: "is_expired now old \<and> contact_alive now fresh \<and> cb_aor fresh = cb_aor old"
  let ?s = "\<lparr>ss_contacts = [(cb_aor old, old)]\<rparr>"
  let ?s1 = "snd (state_apply (RegisterContact fresh) ?s)"
  let ?c0 = "\<lparr>lc_state = ?s, lc_now = now, lc_point = Reading (cb_aor old)\<rparr>"
  let ?c1 = "\<lparr>lc_state = ?s, lc_now = now, lc_point = Removing (cb_aor old)\<rparr>"
  let ?c2 = "\<lparr>lc_state = ?s1, lc_now = now, lc_point = Removing (cb_aor old)\<rparr>"
  let ?c3 = "\<lparr>lc_state = ?s1\<lparr>ss_contacts := hm_remove (cb_aor old) (ss_contacts ?s1)\<rparr>, lc_now = now, lc_point = Finished None\<rparr>"
  have "lookup_step ?c0 ?c1" using read_expired [of ?c0 "cb_aor old" old] a by (simp add: hm_get_def)
  moreover have "lookup_step ?c1 ?c2" using other_task [of ?c1 "RegisterContact fresh"] by simp
  ultimately have "lookup_step\<^sup>*\<^sup>* ?c0 ?c2" by simp
  moreover have "lookup_step ?c2 ?c3" using remove_expired [of ?c2 "cb_aor old"] by simp
  moreover have inv: "hm_inv [(cb_aor old, old)]" by (simp add: hm_inv_def)
  have "contact_view now ?s1 (cb_aor old) = Some fresh"
    using a inv by (simp add: contact_view_def contact_store.view_insert)
  moreover have "contact_view now (lc_state ?c3) (cb_aor old) = None"
    using inv by (simp add: contact_view_def contact_store.view_remove hm.inv_insert)
  ultimately show "\<exists>c. lookup_step\<^sup>*\<^sup>* ?c0 ?c2 \<and> lookup_step ?c2 c
      \<and> contact_view now ?s1 (cb_aor old) = Some fresh \<and> contact_view now (lc_state c) (cb_aor old) = None"
    by blast
qed

theorem lookup_interleaving_witness:
  "\<exists>c. lookup_step \<lparr>lc_state = snd (state_apply (RegisterContact \<lparr>cb_aor = ''a'', cb_contact = ''new'',
        cb_source = ''s'', cb_expires_at_epoch_ms = 900\<rparr>) \<lparr>ss_contacts = [(''a'', \<lparr>cb_aor = ''a'', cb_contact = ''old'',
        cb_source = ''s'', cb_expires_at_epoch_ms = 50\<rparr>)]\<rparr>), lc_now = 100, lc_point = Removing ''a''\<rparr> c
     \<and> contact_view 100 (lc_state c) ''a'' = None"
  using lookup_interleaving [THEN conjunct2, rule_format,
      of 100 "\<lparr>cb_aor = ''a'', cb_contact = ''old'', cb_source = ''s'', cb_expires_at_epoch_ms = 50\<rparr>"
        "\<lparr>cb_aor = ''a'', cb_contact = ''new'', cb_source = ''s'', cb_expires_at_epoch_ms = 900\<rparr>"]
  by (auto simp: is_expired_def contact_alive_def)

end
