(* ===== verification/Addr_Text.thy ===== *)
theory Addr_Text
  imports Net
begin

text \<open>
  Socket addresses as text.  The database stores an address as \<open>SocketAddr::to_string\<close>
  writes it and reads it back with \<open>str::parse\<close>; the theory shows that an IPv4 socket
  address survives this.
\<close>

section \<open>Decimal numbers\<close>

lemma hex_digit_val_digit: "is_digit c \<Longrightarrow> hex_digit_val 10 c = Some (digit_val c)"
  by (simp add: hex_digit_val_def is_digit_def digit_val_def Let_def) linarith

definition no_digit_next :: "string \<Rightarrow> bool" where
  "no_digit_next r \<longleftrightarrow> (case r of [] \<Rightarrow> True | c # _ \<Rightarrow> hex_digit_val 10 c = None)"

lemma read_digits_all:
  "list_all is_digit s \<Longrightarrow> no_digit_next r \<Longrightarrow> read_digits 10 (s @ r) = (map digit_val s, r)"
proof (induction s)
  case Nil
  then show ?case by (cases r) (simp_all add: no_digit_next_def)
next
  case (Cons c s)
  then show ?case by (simp add: hex_digit_val_digit)
qed

lemma foldl_digit_val: "foldl (\<lambda>a d. a * 10 + d) a (map digit_val s) = foldl (\<lambda>a c. a * 10 + digit_val c) a s"
  by (induction s arbitrary: a) simp_all

lemma dec_str_unfold: "10 \<le> n \<Longrightarrow> dec_str n = dec_str (n div 10) @ [digit_char (n mod 10)]"
  by (subst radix_str.simps) simp

lemma dec_str_single: "n < 10 \<Longrightarrow> dec_str n = [digit_char n]"
  by (subst radix_str.simps) simp

lemma dec_str_no_leading_zero: "0 < n \<Longrightarrow> digit_val (hd (dec_str n)) \<noteq> 0"
proof (induction n rule: less_induct)
  case (less n)
  show ?case
  proof (cases "n < 10")
    case True
    then show ?thesis using less.prems by (simp add: dec_str_single digit_char_props)
  next
    case False
    then have "digit_val (hd (dec_str (n div 10))) \<noteq> 0" by (intro less.IH) simp_all
    with False show ?thesis by (simp add: dec_str_unfold)
  qed
qed

lemma length_dec_str_le: "n < 10 ^ Suc k \<Longrightarrow> length (dec_str n) \<le> Suc k"
proof (induction k arbitrary: n)
  case 0
  then show ?case by (simp add: dec_str_single)
next
  case (Suc k)
  show ?case
  proof (cases "n < 10")
    case True
    then show ?thesis by (simp add: dec_str_single)
  next
    case False
    moreover have "n div 10 < 10 ^ Suc k" using Suc.prems by simp
    ultimately show ?thesis using Suc.IH by (simp add: dec_str_unfold)
  qed
qed

lemma read_number_dec:
  assumes "n \<le> limit" "length (dec_str n) \<le> k" "no_digit_next r"
  shows "read_number 10 k z limit (dec_str n @ r) = Some (n, r)"
proof -
  have rd: "read_digits 10 (dec_str n @ r) = (map digit_val (dec_str n), r)"
    using dec_str_digits assms(3) by (rule read_digits_all)
  have v: "foldl (\<lambda>a d. a * 10 + d) 0 (map digit_val (dec_str n)) = n"
    using dec_val_dec_str [of n] by (simp add: foldl_digit_val dec_val_def)
  have z: "hd (map digit_val (dec_str n)) \<noteq> 0 \<or> length (dec_str n) = 1"
    using dec_str_no_leading_zero [of n] dec_str_single [of n] by (cases "n = 0") (auto simp: hd_map)
  show ?thesis
    using assms z by (auto simp: read_number_def rd v)
qed

section \<open>IPv4\<close>

lemma no_digit_next_Cons [simp]:
  "no_digit_next []" "no_digit_next (CHR ''.'' # r)" "no_digit_next (CHR '':'' # r)"
  by (simp_all add: no_digit_next_def hex_digit_val_def)

lemma unat_u8_less: "unat (b :: u8) < 256"
  using unsigned_less [of b] by simp

lemma unat_u16_less: "unat (p :: u16) < 65536"
  using unsigned_less [of p] by simp

lemma length_octet: "length (dec_str (unat (b :: u8))) \<le> 3"
  using length_dec_str_le [of "unat b" 2] unat_u8_less [of b] by simp

lemma read_octet_dec:
  "no_digit_next r \<Longrightarrow> read_octet (dec_str (unat (b :: u8)) @ r) = Some (unat b, r)"
  using unat_u8_less [of b] length_octet [of b]
  by (auto simp: read_octet_def intro!: read_number_dec)

lemma read_octets_dec:
  "no_digit_next r \<Longrightarrow> read_octets (Suc i) (length bs)
     (concat (map (\<lambda>x. CHR ''.'' # x) (map (\<lambda>b. dec_str (unat (b :: u8))) bs)) @ r) = Some (map unat bs, r)"
proof (induction bs arbitrary: i)
  case Nil
  then show ?case by simp
next
  case (Cons b bs)
  let ?rest = "concat (map (\<lambda>x. CHR ''.'' # x) (map (\<lambda>b. dec_str (unat (b :: u8))) bs)) @ r"
  have "no_digit_next ?rest" using Cons.prems by (cases bs) simp_all
  from read_octet_dec [OF this, of b]
  have "read_octet (dec_str (unat b) @ ?rest) = Some (unat b, ?rest)" .
  with Cons.IH [of "Suc i"] Cons.prems show ?case
    by (simp add: read_separator_def read_char_def)
qed

lemma foldl_map_unat: "foldl (\<lambda>a d. a * 256 + d) x (map unat bs) = foldl (\<lambda>a b. a * 256 + unat b) x bs"
  by (induction bs arbitrary: x) simp_all

lemma read_show_ipv4:
  assumes "no_digit_next r"
  shows "read_ipv4 (show_ipv4 w @ r) = Some (w, r)"
proof -
  obtain b bs where bs: "ipv4_octets w = b # bs" and len: "length bs = 3"
    by (cases "ipv4_octets w") (auto simp: ipv4_octets_def dest: arg_cong [of _ _ length])
  let ?rest = "concat (map (\<lambda>x. CHR ''.'' # x) (map (\<lambda>b. dec_str (unat (b :: u8))) bs)) @ r"
  have s: "show_ipv4 w @ r = dec_str (unat b) @ ?rest"
    by (simp add: show_ipv4_def bs join_with_def)
  have "no_digit_next ?rest" using len by (cases bs) simp_all
  from read_octet_dec [OF this, of b] read_octets_dec [OF assms, of 0 bs]
  have "read_octets 0 (Suc (length bs)) (dec_str (unat b) @ ?rest) = Some (unat b # map unat bs, r)"
    by (simp add: read_separator_def)
  moreover have "(word_of_nat (foldl (\<lambda>a d. a * 256 + d) 0 (map unat (b # bs))) :: u32) = w"
    using from_be_to_be [of 4 w] bs
    by (simp only: foldl_map_unat ipv4_octets_def from_be_def be_nat_def) simp
  ultimately show ?thesis
    by (simp add: read_ipv4_def s len)
qed

lemma read_port_dec: "read_port ('':'' @ dec_str (unat (p :: u16))) = Some (p, [])"
proof -
  have "read_number 10 (length (dec_str (unat p))) True 65535 (dec_str (unat p) @ []) = Some (unat p, [])"
    using unat_u16_less [of p] by (intro read_number_dec) simp_all
  then show ?thesis by (simp add: read_port_def read_char_def)
qed

lemma parse_show_sock_v4: "parse_sock (show_sock (SockV4 a p)) = Some (SockV4 a p)"
  using read_show_ipv4 [of "'':'' @ dec_str (unat p)" a] read_port_dec [of p]
  by (simp add: parse_sock_def parse_all_def read_sock_def)

end
