(* ===== verification/Checksum.thy ===== *)
theory Checksum
  imports Cluster Affinity Config_Validate Addr_Text "HOL-Library.Multiset"
begin

unbundle bit_operations_syntax

text \<open>
  The snapshot that nodes exchange (\<open>HaStateSnapshot\<close> of \<open>ha/mod.rs\<close>) and its checksum:
  the 64-bit FNV-1a hash of the fields in a canonical order, each field followed by the
  separator byte \<open>0xff\<close>, printed as sixteen hexadecimal digits.  A checksum does not depend
  on the order in which the tables list their entries, and two field streams that differ
  in one byte never have the same checksum.
\<close>

section \<open>Data\<close>

record ha_state_snapshot =
  hs_last_seq :: u64
  hs_checksum :: string
  hs_contacts :: "contact_binding list"
  hs_affinity :: "affinity_binding_snapshot list"

section \<open>Hashing\<close>

definition fnv_offset_basis :: u64 where
  "fnv_offset_basis = 0xcbf29ce484222325"

definition fnv_prime :: u64 where
  "fnv_prime = 0x100000001b3"

definition fnv_step :: "u64 \<Rightarrow> u8 \<Rightarrow> u64" where
  "fnv_step hash byte = (hash XOR ucast byte) * fnv_prime"

definition hash_bytes :: "u8 list \<Rightarrow> u64 \<Rightarrow> u64" where
  "hash_bytes bytes hash = ((foldl fnv_step hash bytes) XOR 0xff) * fnv_prime"

definition str_bytes :: "string \<Rightarrow> u8 list" where
  "str_bytes v = map (\<lambda>c. word_of_nat (of_char c)) v"

definition hash_str :: "string \<Rightarrow> u64 \<Rightarrow> u64" where
  "hash_str v hash = hash_bytes (str_bytes v) hash"

definition hash_u64 :: "u64 \<Rightarrow> u64 \<Rightarrow> u64" where
  "hash_u64 v hash = hash_bytes (to_be 8 v) hash"

definition hash_u128 :: "u128 \<Rightarrow> u64 \<Rightarrow> u64" where
  "hash_u128 v hash = hash_bytes (to_be 16 v) hash"

definition contact_key :: "contact_binding \<Rightarrow> string \<times> string \<times> string \<times> nat" where
  "contact_key b = (cb_aor b, cb_contact b, cb_source b, cb_expires_at_epoch_ms b)"

definition affinity_sort_key :: "affinity_binding_snapshot \<Rightarrow> string \<times> sock_addr \<times> string \<times> nat" where
  "affinity_sort_key b = (abs_key b, at_addr (abs_target b),
     sip_transport_as_str (at_transport (abs_target b)), abs_expires_at_epoch_ms b)"

definition hash_contact :: "u64 \<Rightarrow> contact_binding \<Rightarrow> u64" where
  "hash_contact hash b = hash_u128 (word_of_nat (cb_expires_at_epoch_ms b))
     (hash_str (cb_source b) (hash_str (cb_contact b) (hash_str (cb_aor b) hash)))"

definition hash_affinity :: "u64 \<Rightarrow> affinity_binding_snapshot \<Rightarrow> u64" where
  "hash_affinity hash b = hash_u128 (word_of_nat (abs_expires_at_epoch_ms b))
     (hash_str (sip_transport_as_str (at_transport (abs_target b)))
       (hash_str (show_sock (at_addr (abs_target b))) (hash_str (abs_key b) hash)))"

definition hex16 :: "u64 \<Rightarrow> string" where
  "hex16 w = (let s = hex_str (unat w) in replicate (16 - length s) (CHR ''0'') @ s)"

definition compute_checksum :: "ha_state_snapshot \<Rightarrow> string" where
  "compute_checksum s =
     (let h0 = hash_u64 (hs_last_seq s) fnv_offset_basis;
          h1 = foldl hash_contact h0 (sort_key contact_key (hs_contacts s));
          h2 = foldl hash_affinity h1 (sort_key affinity_sort_key (hs_affinity s))
      in ''fnv1a64:'' @ hex16 h2)"

definition with_checksum :: "ha_state_snapshot \<Rightarrow> ha_state_snapshot" where
  "with_checksum s = s\<lparr>hs_checksum := compute_checksum s\<rparr>"

definition checksum_is_valid :: "ha_state_snapshot \<Rightarrow> bool" where
  "checksum_is_valid s \<longleftrightarrow> hs_checksum s = [] \<or> hs_checksum s = compute_checksum s"

section \<open>The byte stream behind the checksum\<close>

definition field :: "u8 list \<Rightarrow> u8 list" where
  "field bs = bs @ [0xff]"

definition contact_stream :: "contact_binding \<Rightarrow> u8 list" where
  "contact_stream b = field (str_bytes (cb_aor b)) @ field (str_bytes (cb_contact b))
     @ field (str_bytes (cb_source b)) @ field (to_be 16 (word_of_nat (cb_expires_at_epoch_ms b) :: u128))"

definition affinity_stream :: "affinity_binding_snapshot \<Rightarrow> u8 list" where
  "affinity_stream b = field (str_bytes (abs_key b)) @ field (str_bytes (show_sock (at_addr (abs_target b))))
     @ field (str_bytes (sip_transport_as_str (at_transport (abs_target b))))
     @ field (to_be 16 (word_of_nat (abs_expires_at_epoch_ms b) :: u128))"

definition snapshot_stream :: "ha_state_snapshot \<Rightarrow> u8 list" where
  "snapshot_stream s = field (to_be 8 (hs_last_seq s))
     @ concat (map contact_stream (sort_key contact_key (hs_contacts s)))
     @ concat (map affinity_stream (sort_key affinity_sort_key (hs_affinity s)))"

lemma hash_bytes_field: "hash_bytes bs h = foldl fnv_step h (field bs)"
  by (simp add: hash_bytes_def field_def fnv_step_def)

lemma hash_contact_stream: "hash_contact h b = foldl fnv_step h (contact_stream b)"
  by (simp add: hash_contact_def contact_stream_def hash_str_def hash_u128_def hash_bytes_field)

lemma hash_affinity_stream: "hash_affinity h b = foldl fnv_step h (affinity_stream b)"
  by (simp add: hash_affinity_def affinity_stream_def hash_str_def hash_u128_def hash_bytes_field)

lemma foldl_concat_map: "foldl f a (concat (map g xs)) = foldl (\<lambda>a x. foldl f a (g x)) a xs"
  by (induction xs arbitrary: a) simp_all

lemma compute_checksum_stream:
  "compute_checksum s = ''fnv1a64:'' @ hex16 (foldl fnv_step fnv_offset_basis (snapshot_stream s))"
  by (simp add: compute_checksum_def snapshot_stream_def Let_def hash_u64_def hash_bytes_field
      foldl_concat_map hash_contact_stream [symmetric] hash_affinity_stream [symmetric])

section \<open>Order and error detection\<close>

lemma sort_key_mset_eq:
  assumes "mset xs = mset ys" "inj f"
  shows "sort_key f xs = sort_key f ys"
proof (rule sort_key_inj_key_eq)
  show "inj_on f (set xs)" using assms(2) by (rule inj_on_subset) simp
qed (simp_all add: assms(1))

lemma inj_contact_key: "inj contact_key"
  by (rule injI) (simp add: contact_key_def)

lemma inj_affinity_sort_key: "inj affinity_sort_key"
  by (rule injI) (auto simp: affinity_sort_key_def intro!: affinity_binding_snapshot.equality affinity_target.equality)

lemma fnv_prime_inverse: "fnv_prime * 0xce965057aff6957b = 1"
  by (simp add: fnv_prime_def)

lemma fnv_mult_inject: "a * fnv_prime = b * fnv_prime \<longleftrightarrow> a = b"
proof
  assume "a * fnv_prime = b * fnv_prime"
  then have "a * (fnv_prime * 0xce965057aff6957b) = b * (fnv_prime * 0xce965057aff6957b)"
    by (simp only: mult.assoc [symmetric])
  then show "a = b" by (simp only: fnv_prime_inverse mult_1_right)
qed simp

lemma xor_right_inject: "(a :: u64) XOR c = b XOR c \<longleftrightarrow> a = b"
  by (metis bit.xor_left_self xor.commute xor.left_commute)

lemma fnv_step_inject: "fnv_step h b = fnv_step h' b \<longleftrightarrow> h = h'"
  by (simp add: fnv_step_def fnv_mult_inject xor_right_inject)

lemma fnv_step_byte: "fnv_step h a = fnv_step h b \<longleftrightarrow> a = b"
proof -
  have "fnv_step h a = fnv_step h b \<longleftrightarrow> (ucast a :: u64) = ucast b"
    by (simp add: fnv_step_def fnv_mult_inject xor_right_inject xor.commute [of h])
  also have "\<dots> \<longleftrightarrow> a = b"
  proof
    assume "(ucast a :: u64) = ucast b"
    then have "unat (ucast a :: u64) = unat (ucast b :: u64)" by simp
    then have "unat a = unat b"
      using unat_u8_less [of a] unat_u8_less [of b] by (simp add: unsigned_ucast_eq take_bit_eq_mod)
    then show "a = b" by (rule unsigned_word_eqI)
  qed simp
  finally show ?thesis .
qed

lemma foldl_fnv_inject: "foldl fnv_step h bs = foldl fnv_step h' bs \<longleftrightarrow> h = h'"
  by (induction bs arbitrary: h h') (simp_all add: fnv_step_inject)

definition hex_val :: "string \<Rightarrow> nat" where
  "hex_val s = foldl (\<lambda>a c. a * 16 + (case hex_digit_val 16 c of None \<Rightarrow> 0 | Some d \<Rightarrow> d)) 0 s"

lemma hex_digit_char: "d < 16 \<Longrightarrow> hex_digit_val 16 (digit_char d) = Some d"
  by (simp add: hex_digit_val_def digit_char_def Let_def)

lemma hex_val_snoc: "hex_val (s @ [c]) = hex_val s * 16 + (case hex_digit_val 16 c of None \<Rightarrow> 0 | Some d \<Rightarrow> d)"
  by (simp add: hex_val_def)

lemma hex_val_hex_str: "hex_val (hex_str n) = n"
proof (induction n rule: less_induct)
  case (less n)
  show ?case
  proof (cases "n < 16")
    case True
    then have "hex_str n = [] @ [digit_char n]" by (subst radix_str.simps) simp
    then show ?thesis using True by (simp only: hex_val_snoc) (simp add: hex_val_def hex_digit_char)
  next
    case False
    then have "hex_str n = hex_str (n div 16) @ [digit_char (n mod 16)]" by (subst radix_str.simps) simp
    moreover have "hex_val (hex_str (n div 16)) = n div 16" using False by (intro less.IH) simp
    ultimately show ?thesis by (simp add: hex_val_snoc hex_digit_char)
  qed
qed

lemma hex_val_zeros: "hex_val (replicate k (CHR ''0'') @ s) = hex_val s"
  by (induction k) (simp_all add: hex_val_def hex_digit_val_def)

lemma hex16_inject: "hex16 a = hex16 b \<longleftrightarrow> a = b"
proof
  assume "hex16 a = hex16 b"
  then have "hex_val (hex16 a) = hex_val (hex16 b)" by simp
  then have "unat a = unat b" by (simp add: hex16_def Let_def hex_val_zeros hex_val_hex_str)
  then show "a = b" by (rule unsigned_word_eqI)
qed simp

section \<open>Properties\<close>

text \<open>
  A snapshot validates wherever it arrives.  The checksum a node attaches is accepted
  after the contacts and bindings have been reordered in any way (they come out of hash maps
  and go through JSON), and so is a snapshot without a checksum.
\<close>

lemma checksum_order_independent:
  assumes "mset contacts = mset (hs_contacts s)" and "mset affinity = mset (hs_affinity s)"
  shows "checksum_is_valid ((with_checksum s)\<lparr>hs_contacts := contacts, hs_affinity := affinity\<rparr>)
    \<and> checksum_is_valid (s\<lparr>hs_checksum := []\<rparr>)"
proof -
  have "sort_key contact_key contacts = sort_key contact_key (hs_contacts s)"
    "sort_key affinity_sort_key affinity = sort_key affinity_sort_key (hs_affinity s)"
    using assms sort_key_mset_eq inj_contact_key inj_affinity_sort_key by blast+
  then show ?thesis
    by (simp add: checksum_is_valid_def with_checksum_def compute_checksum_def)
qed

text \<open>
  The checksum detects every change of a single byte of the hashed fields: two snapshots
  whose field streams differ in exactly one byte have different checksums, so the changed
  snapshot is refused.
\<close>

lemma checksum_detects_byte_change:
  assumes "snapshot_stream s = xs @ a # ys" and "snapshot_stream s' = xs @ b # ys" and "a \<noteq> b"
  shows "compute_checksum s' \<noteq> compute_checksum s
    \<and> \<not> checksum_is_valid (s'\<lparr>hs_checksum := compute_checksum s\<rparr>)"
proof -
  have "foldl fnv_step fnv_offset_basis (snapshot_stream s') \<noteq> foldl fnv_step fnv_offset_basis (snapshot_stream s)"
    using assms by (simp add: foldl_fnv_inject fnv_step_byte)
  then have "compute_checksum s' \<noteq> compute_checksum s"
    by (simp add: compute_checksum_stream hex16_inject)
  moreover have "compute_checksum (s'\<lparr>hs_checksum := compute_checksum s\<rparr>) = compute_checksum s'"
    by (simp add: compute_checksum_def)
  moreover have "compute_checksum s \<noteq> []" by (simp add: compute_checksum_def Let_def)
  ultimately show ?thesis by (simp add: checksum_is_valid_def)
qed

end
