(* ===== verification/Persistence.thy ===== *)
theory Persistence
  imports Checksum
begin

text \<open>
  The SQLite store of \<open>persistence.rs\<close>: the tables \<open>contacts\<close>, \<open>affinity\<close>, \<open>ha_events\<close> and
  \<open>meta\<close> with the columns \<open>migrate\<close> gives them (numbers that the code stores as TEXT are
  texts here), the statements of every operation, and the runtime around the connection:
  the background queue and the counters.  A transaction that fails leaves the database as
  it was; whether it fails is the argument \<open>ok\<close> of the operations.  The JSON encoder and
  decoder of \<open>serde_json\<close> are the parameters \<open>to_json\<close> and \<open>from_json\<close>; \<open>clock\<close> gives the
  epoch time at which the event with a given sequence number is appended.
\<close>

section \<open>Data\<close>

datatype persistence_write =
    WriteClusterCommand cluster_command
  | WriteAffinityBindings "affinity_binding_snapshot list"

fun event_count :: "persistence_write \<Rightarrow> nat" where
  "event_count (WriteClusterCommand _) = 1"
| "event_count (WriteAffinityBindings bindings) = length bindings"

datatype ha_event_payload =
    EvRegisterContact contact_binding
  | EvUnregisterContact string
  | EvUpsertAffinity affinity_binding_snapshot
  | EvRemoveAffinity affinity_key

record ha_event_record =
  ev_seq :: nat
  ev_payload :: ha_event_payload
  ev_created_at_epoch_ms :: nat

record ha_events_response =
  hr_base_seq :: nat
  hr_latest_seq :: nat
  hr_snapshot_required :: bool
  hr_events :: "ha_event_record list"

record contact_row =
  cr_contact :: string
  cr_source :: string
  cr_expires :: string
  cr_updated_seq :: "nat option"

record affinity_row =
  ar_target_addr :: string
  ar_transport :: string
  ar_expires :: string
  ar_updated_seq :: "nat option"

record event_row =
  er_seq :: nat
  er_kind :: string
  er_key :: string
  er_payload_json :: string
  er_created :: string

text \<open>\<open>db_sequence\<close> is the largest sequence number ever given (\<open>autoincrement\<close>).\<close>

record database =
  db_contacts :: "(string, contact_row) hmap"
  db_affinity :: "(string, affinity_row) hmap"
  db_events :: "event_row list"
  db_sequence :: nat
  db_meta :: "(string, string) hmap"

datatype db_error =
    SqliteFailure
  | PersistenceTaskFailed
  | InvalidPersistedTransport string
  | InvalidPersistedAddress string
  | InvalidPersistedPayload

definition u64_max :: nat where
  "u64_max = 18446744073709551615"

definition u128_max :: nat where
  "u128_max = 340282366920938463463374607431768211455"

text \<open>
  The file before the first start has no tables; \<open>migrate\<close> creates the missing ones, keeps the
  rows of existing ones and sets the schema version.
\<close>

definition empty_database :: database where
  "empty_database = \<lparr>db_contacts = hm_empty, db_affinity = hm_empty, db_events = [], db_sequence = 0,
     db_meta = hm_empty\<rparr>"

definition migrate :: "database \<Rightarrow> database" where
  "migrate db = db\<lparr>db_meta := hm_insert ''schema_version'' ''1'' (db_meta db)\<rparr>"

definition fresh_database :: database where
  "fresh_database = migrate empty_database"

lemma fresh_database_eq:
  "fresh_database = \<lparr>db_contacts = hm_empty, db_affinity = hm_empty, db_events = [], db_sequence = 0,
     db_meta = [(''schema_version'', ''1'')]\<rparr>"
  by (simp add: fresh_database_def migrate_def empty_database_def hm_insert_def hm_remove_def hm_empty_def)

section \<open>Statements\<close>

fun event_kind :: "ha_event_payload \<Rightarrow> string" where
  "event_kind (EvRegisterContact _) = ''register-contact''"
| "event_kind (EvUnregisterContact _) = ''unregister-contact''"
| "event_kind (EvUpsertAffinity _) = ''upsert-affinity''"
| "event_kind (EvRemoveAffinity _) = ''remove-affinity''"

definition event_key_for_affinity :: "affinity_binding_snapshot \<Rightarrow> string" where
  "event_key_for_affinity b = abs_key b"

definition append_event ::
  "(ha_event_payload \<Rightarrow> string) \<Rightarrow> (nat \<Rightarrow> nat) \<Rightarrow> string \<Rightarrow> ha_event_payload \<Rightarrow> database \<Rightarrow> nat \<times> database" where
  "append_event to_json clock key payload db =
     (let seq = Suc (db_sequence db)
      in (seq, db\<lparr>db_sequence := seq, db_events := db_events db @ [\<lparr>er_seq = seq, er_kind = event_kind payload,
            er_key = key, er_payload_json = to_json payload, er_created = dec_str (clock seq)\<rparr>]\<rparr>))"

definition upsert_contact :: "contact_binding \<Rightarrow> nat option \<Rightarrow> database \<Rightarrow> database" where
  "upsert_contact b updated_seq db = db\<lparr>db_contacts := hm_insert (cb_aor b)
     \<lparr>cr_contact = cb_contact b, cr_source = cb_source b, cr_expires = dec_str (cb_expires_at_epoch_ms b),
      cr_updated_seq = updated_seq\<rparr> (db_contacts db)\<rparr>"

definition delete_contact :: "string \<Rightarrow> database \<Rightarrow> database" where
  "delete_contact aor db = db\<lparr>db_contacts := hm_remove aor (db_contacts db)\<rparr>"

definition upsert_affinity_binding :: "affinity_binding_snapshot \<Rightarrow> nat option \<Rightarrow> database \<Rightarrow> database" where
  "upsert_affinity_binding b updated_seq db = db\<lparr>db_affinity := hm_insert (abs_key b)
     \<lparr>ar_target_addr = show_sock (at_addr (abs_target b)),
      ar_transport = sip_transport_as_str (at_transport (abs_target b)),
      ar_expires = dec_str (abs_expires_at_epoch_ms b), ar_updated_seq = updated_seq\<rparr> (db_affinity db)\<rparr>"

definition delete_affinity :: "affinity_key \<Rightarrow> database \<Rightarrow> database" where
  "delete_affinity key db = db\<lparr>db_affinity := hm_remove key (db_affinity db)\<rparr>"

definition set_meta_u64 :: "string \<Rightarrow> nat \<Rightarrow> database \<Rightarrow> database" where
  "set_meta_u64 key v db = db\<lparr>db_meta := hm_insert key (dec_str v) (db_meta db)\<rparr>"

definition apply_cluster_command_in_tx ::
  "(ha_event_payload \<Rightarrow> string) \<Rightarrow> (nat \<Rightarrow> nat) \<Rightarrow> cluster_command \<Rightarrow> bool \<Rightarrow> database \<Rightarrow> nat option \<times> database" where
  "apply_cluster_command_in_tx to_json clock command log_event db =
     (let (seq, db1) =
        (if log_event
         then let (n, db') = (case command of
                  RegisterContact b \<Rightarrow> append_event to_json clock (cb_aor b) (EvRegisterContact b) db
                | UnregisterContact aor \<Rightarrow> append_event to_json clock aor (EvUnregisterContact aor) db)
              in (Some n, db')
         else (None, db))
      in (seq, case command of
                 RegisterContact b \<Rightarrow> upsert_contact b seq db1
               | UnregisterContact aor \<Rightarrow> delete_contact aor db1))"

definition append_affinity ::
  "(ha_event_payload \<Rightarrow> string) \<Rightarrow> (nat \<Rightarrow> nat) \<Rightarrow> database \<Rightarrow> affinity_binding_snapshot \<Rightarrow> database" where
  "append_affinity to_json clock db b =
     (let (seq, db1) = append_event to_json clock (event_key_for_affinity b) (EvUpsertAffinity b) db
      in upsert_affinity_binding b (Some seq) db1)"

fun apply_write ::
  "(ha_event_payload \<Rightarrow> string) \<Rightarrow> (nat \<Rightarrow> nat) \<Rightarrow> database \<Rightarrow> persistence_write \<Rightarrow> database" where
  "apply_write to_json clock db (WriteClusterCommand c) = snd (apply_cluster_command_in_tx to_json clock c True db)"
| "apply_write to_json clock db (WriteAffinityBindings bs) = foldl (append_affinity to_json clock) db bs"

definition apply_background_writes ::
  "(ha_event_payload \<Rightarrow> string) \<Rightarrow> (nat \<Rightarrow> nat) \<Rightarrow> persistence_write list \<Rightarrow> database \<Rightarrow> database" where
  "apply_background_writes to_json clock writes db = foldl (apply_write to_json clock) db writes"

definition parse_or_default :: "nat \<Rightarrow> string \<Rightarrow> nat" where
  "parse_or_default limit s = (case parse_uint limit s of None \<Rightarrow> 0 | Some n \<Rightarrow> n)"

definition row_contact :: "string \<times> contact_row \<Rightarrow> contact_binding" where
  "row_contact = (\<lambda>(aor, r). \<lparr>cb_aor = aor, cb_contact = cr_contact r, cb_source = cr_source r,
     cb_expires_at_epoch_ms = parse_or_default u128_max (cr_expires r)\<rparr>)"

definition load_contacts :: "nat \<Rightarrow> database \<Rightarrow> contact_binding list" where
  "load_contacts now db =
     filter (\<lambda>b. cb_expires_at_epoch_ms b > now) (map row_contact (db_contacts db))"

fun load_affinity_rows ::
  "nat \<Rightarrow> (string \<times> affinity_row) list \<Rightarrow> db_error + affinity_binding_snapshot list" where
  "load_affinity_rows now [] = Inr []"
| "load_affinity_rows now ((key, r) # rows) =
     (let expires = parse_or_default u128_max (ar_expires r)
      in if expires \<le> now then load_affinity_rows now rows
         else if ar_transport r \<noteq> ''udp'' \<and> ar_transport r \<noteq> ''tcp''
         then Inl (InvalidPersistedTransport (ar_transport r))
         else case parse_sock (ar_target_addr r) of
             None \<Rightarrow> Inl (InvalidPersistedAddress (ar_target_addr r))
           | Some addr \<Rightarrow> bind_res (load_affinity_rows now rows) (\<lambda>bs.
               Inr (\<lparr>abs_key = key,
                     abs_target = \<lparr>at_addr = addr, at_transport = (if ar_transport r = ''udp'' then Udp else Tcp)\<rparr>,
                     abs_expires_at_epoch_ms = expires\<rparr> # bs)))"

definition load_affinity :: "nat \<Rightarrow> database \<Rightarrow> db_error + affinity_binding_snapshot list" where
  "load_affinity now db = load_affinity_rows now (db_affinity db)"

definition latest_event_seq :: "database \<Rightarrow> nat" where
  "latest_event_seq db = foldr max (map er_seq (db_events db)) 0"

definition first_event_seq :: "database \<Rightarrow> nat option" where
  "first_event_seq db =
     (case map er_seq (db_events db) of [] \<Rightarrow> None | s # ss \<Rightarrow> Some (foldr min ss s))"

definition last_applied_seq :: "database \<Rightarrow> nat option" where
  "last_applied_seq db = Option.bind (hm_get (db_meta db) ''last_applied_seq'') (parse_uint u64_max)"

text \<open>\<open>load_snapshot\<close> reads the three parts in one critical section.\<close>

definition load_snapshot :: "nat \<Rightarrow> database \<Rightarrow> db_error + ha_state_snapshot" where
  "load_snapshot now db = bind_res (load_affinity now db) (\<lambda>affinity.
     Inr (with_checksum \<lparr>hs_last_seq = word_of_nat (latest_event_seq db), hs_checksum = [],
       hs_contacts = load_contacts now db, hs_affinity = affinity\<rparr>))"

definition decode_event ::
  "(string \<Rightarrow> ha_event_payload option) \<Rightarrow> event_row \<Rightarrow> db_error + ha_event_record" where
  "decode_event from_json r =
     (case from_json (er_payload_json r) of
        None \<Rightarrow> Inl InvalidPersistedPayload
      | Some p \<Rightarrow> Inr \<lparr>ev_seq = er_seq r, ev_payload = p,
                     ev_created_at_epoch_ms = parse_or_default u128_max (er_created r)\<rparr>)"

text \<open>
  \<open>after + 1\<close> is a \<open>u64\<close> sum; \<open>rusqlite\<close> refuses a \<open>u64\<close> parameter above \<open>i64::MAX\<close>.
\<close>

definition events_after ::
  "(string \<Rightarrow> ha_event_payload option) \<Rightarrow> u64 \<Rightarrow> nat \<Rightarrow> database \<Rightarrow> db_error + ha_events_response" where
  "events_after from_json after limit db =
     (let latest = latest_event_seq db; first = first_event_seq db
      in if (case first of None \<Rightarrow> False | Some f \<Rightarrow> unat (after + 1) < f)
         then Inr \<lparr>hr_base_seq = (case first of None \<Rightarrow> latest + 1 | Some f \<Rightarrow> f) - 1, hr_latest_seq = latest,
                   hr_snapshot_required = True, hr_events = []\<rparr>
         else if unat after > 9223372036854775807 then Inl SqliteFailure
         else bind_res (collect_res (decode_event from_json)
                 (take (min (max limit 1) 10000) (sort_key er_seq (filter (\<lambda>r. er_seq r > unat after) (db_events db)))))
           (\<lambda>events. Inr \<lparr>hr_base_seq = unat after, hr_latest_seq = latest,
              hr_snapshot_required = False, hr_events = events\<rparr>))"

definition apply_event_without_append :: "nat \<Rightarrow> ha_event_record \<Rightarrow> database \<Rightarrow> database" where
  "apply_event_without_append now ev db =
     set_meta_u64 ''last_applied_seq'' (ev_seq ev)
       (case ev_payload ev of
          EvRegisterContact b \<Rightarrow> if \<not> is_expired now b then upsert_contact b (Some (ev_seq ev)) db else db
        | EvUnregisterContact aor \<Rightarrow> delete_contact aor db
        | EvUpsertAffinity b \<Rightarrow>
            if abs_expires_at_epoch_ms b > now then upsert_affinity_binding b (Some (ev_seq ev)) db else db
        | EvRemoveAffinity key \<Rightarrow> delete_affinity key db)"

definition install_snapshot_tx :: "nat \<Rightarrow> ha_state_snapshot \<Rightarrow> database \<Rightarrow> database" where
  "install_snapshot_tx now snap db =
     (let db0 = db\<lparr>db_contacts := hm_empty, db_affinity := hm_empty\<rparr>;
          db1 = foldl (\<lambda>d b. if \<not> is_expired now b then upsert_contact b None d else d) db0 (hs_contacts snap);
          db2 = foldl (\<lambda>d b. if abs_expires_at_epoch_ms b > now then upsert_affinity_binding b None d else d)
                  db1 (hs_affinity snap)
      in set_meta_u64 ''last_applied_seq'' (unat (hs_last_seq snap)) db2)"

text \<open>
  The three statements of \<open>cleanup_expired\<close>, each its own transaction; the comparisons are of
  texts.
\<close>

definition cleanup_contacts :: "nat \<Rightarrow> database \<Rightarrow> database" where
  "cleanup_contacts now db =
     db\<lparr>db_contacts := hm_retain (\<lambda>_ r. \<not> cr_expires r \<le> dec_str now) (db_contacts db)\<rparr>"

definition cleanup_affinity :: "nat \<Rightarrow> database \<Rightarrow> database" where
  "cleanup_affinity now db =
     db\<lparr>db_affinity := hm_retain (\<lambda>_ r. \<not> ar_expires r \<le> dec_str now) (db_affinity db)\<rparr>"

definition cleanup_events :: "nat \<Rightarrow> database \<Rightarrow> database" where
  "cleanup_events retain_after db =
     db\<lparr>db_events := filter (\<lambda>r. \<not> er_created r \<le> dec_str retain_after) (db_events db)\<rparr>"

section \<open>The runtime around the connection\<close>

record persistence =
  p_db :: database
  p_required :: bool
  p_event_retention_seconds :: u64
  p_queue :: "persistence_write list"
  p_writer_alive :: bool
  p_background_pending_events :: u64
  p_event_appends_succeeded :: u64
  p_event_appends_failed :: u64
  p_sqlite_writes_failed :: u64

text \<open>\<open>db\<close> is the content of the file; \<open>ok\<close> is false when the directory or the file cannot be opened.\<close>

definition persistence_open :: "bool \<Rightarrow> persistence_config \<Rightarrow> database \<Rightarrow> db_error + persistence option" where
  "persistence_open ok config db =
     (if \<not> ps_enabled config then Inr None
      else if \<not> ok then Inl SqliteFailure
      else Inr (Some \<lparr>p_db = migrate db, p_required = ps_required config,
        p_event_retention_seconds = ps_event_retention_seconds config, p_queue = [], p_writer_alive = True,
        p_background_pending_events = 0, p_event_appends_succeeded = 0, p_event_appends_failed = 0,
        p_sqlite_writes_failed = 0\<rparr>))"

definition record_sqlite_write_result :: "bool \<Rightarrow> persistence \<Rightarrow> persistence" where
  "record_sqlite_write_result ok p =
     (if \<not> ok then p\<lparr>p_sqlite_writes_failed := p_sqlite_writes_failed p + 1\<rparr> else p)"

definition record_write_result :: "bool \<Rightarrow> nat \<Rightarrow> persistence \<Rightarrow> persistence" where
  "record_write_result ok n p =
     (let p' = record_sqlite_write_result ok p
      in if ok then p'\<lparr>p_event_appends_succeeded := p_event_appends_succeeded p' + word_of_nat n\<rparr>
         else p'\<lparr>p_event_appends_failed := p_event_appends_failed p' + word_of_nat n\<rparr>)"

definition write_outcome :: "bool \<Rightarrow> db_error + unit" where
  "write_outcome ok = (if ok then Inr () else Inl SqliteFailure)"

text \<open>
  A blocking task on the connection either returns, with success or with an error of SQLite, or it
  is lost: it panics (the connection's lock is poisoned, say) or the runtime drops it.  The early
  return of a lost task comes before any counter is updated.
\<close>

datatype task_outcome = TaskOk | TaskErr | TaskLost

definition run_task ::
  "task_outcome \<Rightarrow> (bool \<Rightarrow> persistence \<Rightarrow> persistence) \<Rightarrow> persistence \<Rightarrow> (db_error + unit) \<times> persistence" where
  "run_task t work p =
     (case t of
        TaskLost \<Rightarrow> (Inl PersistenceTaskFailed, p)
      | TaskErr \<Rightarrow> (write_outcome False, work False p)
      | TaskOk \<Rightarrow> (write_outcome True, work True p))"

text \<open>A transaction: committed, or rolled back.\<close>

definition transact :: "bool \<Rightarrow> (database \<Rightarrow> database) \<Rightarrow> persistence \<Rightarrow> persistence" where
  "transact ok f p = (if ok then p\<lparr>p_db := f (p_db p)\<rparr> else p)"

definition apply_cluster_command ::
  "(ha_event_payload \<Rightarrow> string) \<Rightarrow> (nat \<Rightarrow> nat) \<Rightarrow> task_outcome \<Rightarrow> cluster_command \<Rightarrow> persistence
   \<Rightarrow> (db_error + unit) \<times> persistence" where
  "apply_cluster_command to_json clock t command p =
     run_task t (\<lambda>ok p. record_write_result ok 1
        (transact ok (\<lambda>db. snd (apply_cluster_command_in_tx to_json clock command True db)) p)) p"

definition enqueue_write :: "persistence_write \<Rightarrow> persistence \<Rightarrow> persistence" where
  "enqueue_write w p =
     (let n = word_of_nat (event_count w);
          p' = p\<lparr>p_background_pending_events := p_background_pending_events p + n\<rparr>
      in if p_writer_alive p' then p'\<lparr>p_queue := p_queue p' @ [w]\<rparr>
         else p'\<lparr>p_background_pending_events := p_background_pending_events p' - n,
                 p_event_appends_failed := p_event_appends_failed p' + n\<rparr>)"

definition apply_cluster_command_background :: "cluster_command \<Rightarrow> persistence \<Rightarrow> persistence" where
  "apply_cluster_command_background command p = enqueue_write (WriteClusterCommand command) p"

definition upsert_affinity_bindings ::
  "(ha_event_payload \<Rightarrow> string) \<Rightarrow> (nat \<Rightarrow> nat) \<Rightarrow> task_outcome \<Rightarrow> affinity_binding_snapshot list \<Rightarrow> persistence
   \<Rightarrow> (db_error + unit) \<times> persistence" where
  "upsert_affinity_bindings to_json clock t bindings p =
     (if bindings = [] then (Inr (), p)
      else run_task t (\<lambda>ok p. record_write_result ok (length bindings)
        (transact ok (\<lambda>db. foldl (append_affinity to_json clock) db bindings) p)) p)"

definition upsert_affinity_bindings_background :: "affinity_binding_snapshot list \<Rightarrow> persistence \<Rightarrow> persistence" where
  "upsert_affinity_bindings_background bindings p =
     (if bindings = [] then p else enqueue_write (WriteAffinityBindings bindings) p)"

text \<open>
  One round of the background writer: it waits for a write and takes the writes that have
  arrived, at most 1024; \<open>arrived\<close> is how many \<open>try_recv\<close> found.  Here a lost task is an error like
  any other and is counted.
\<close>

definition background_round ::
  "(ha_event_payload \<Rightarrow> string) \<Rightarrow> (nat \<Rightarrow> nat) \<Rightarrow> task_outcome \<Rightarrow> nat \<Rightarrow> persistence \<Rightarrow> persistence" where
  "background_round to_json clock t arrived p =
     (if p_queue p = [] then p
      else let ok = (t = TaskOk);
               n = min (max arrived 1) 1024;
               writes = take n (p_queue p);
               appended = sum_list (map event_count writes);
               p1 = p\<lparr>p_queue := drop n (p_queue p)\<rparr>;
               p2 = transact ok (apply_background_writes to_json clock writes) p1;
               p3 = record_write_result ok appended p2
           in p3\<lparr>p_background_pending_events := p_background_pending_events p3 - word_of_nat appended\<rparr>)"

definition persistence_install_snapshot ::
  "nat \<Rightarrow> task_outcome \<Rightarrow> ha_state_snapshot \<Rightarrow> persistence \<Rightarrow> (db_error + unit) \<times> persistence" where
  "persistence_install_snapshot now t snap p =
     run_task t (\<lambda>ok p. record_sqlite_write_result ok (transact ok (install_snapshot_tx now snap) p)) p"

definition apply_event ::
  "nat \<Rightarrow> task_outcome \<Rightarrow> ha_event_record \<Rightarrow> persistence \<Rightarrow> (db_error + unit) \<times> persistence" where
  "apply_event now t ev p =
     run_task t (\<lambda>ok p. record_sqlite_write_result ok (transact ok (apply_event_without_append now ev) p)) p"

text \<open>
  \<open>steps\<close> is how many of the three statements succeed before one fails or, when \<open>lost\<close>, before the
  task is lost.
\<close>

definition cleanup_expired :: "nat \<Rightarrow> nat \<Rightarrow> nat \<Rightarrow> bool \<Rightarrow> persistence \<Rightarrow> (db_error + unit) \<times> persistence" where
  "cleanup_expired now now' steps lost p =
     (let retain_after = now' - unat (p_event_retention_seconds p) * 1000;
          p1 = transact (steps > 0) (cleanup_contacts now) p;
          p2 = transact (steps > 1) (cleanup_affinity now) p1;
          p3 = transact (steps > 2) (cleanup_events retain_after) p2
      in if lost then (Inl PersistenceTaskFailed, p3)
         else (write_outcome (steps > 2), record_sqlite_write_result (steps > 2) p3))"

record persistence_stats =
  pst_latest_event_seq :: nat
  pst_last_applied_seq :: nat
  pst_event_rows :: nat
  pst_background_pending_events :: u64
  pst_event_appends_succeeded :: u64
  pst_event_appends_failed :: u64
  pst_sqlite_writes_failed :: u64

definition persistence_stats_of :: "persistence \<Rightarrow> persistence_stats" where
  "persistence_stats_of p = \<lparr>pst_latest_event_seq = latest_event_seq (p_db p),
     pst_last_applied_seq = (case last_applied_seq (p_db p) of None \<Rightarrow> 0 | Some s \<Rightarrow> s),
     pst_event_rows = length (db_events (p_db p)),
     pst_background_pending_events = p_background_pending_events p,
     pst_event_appends_succeeded = p_event_appends_succeeded p,
     pst_event_appends_failed = p_event_appends_failed p,
     pst_sqlite_writes_failed = p_sqlite_writes_failed p\<rparr>"

section \<open>Sequences of operations\<close>

datatype persistence_op =
    OpCommand cluster_command
  | OpCommandBackground cluster_command
  | OpAffinity "affinity_binding_snapshot list"
  | OpAffinityBackground "affinity_binding_snapshot list"
  | OpBackgroundRound nat
  | OpInstall nat ha_state_snapshot
  | OpApplyEvent nat ha_event_record
  | OpCleanup nat nat nat
  | OpWriterStops

fun persistence_step ::
  "(ha_event_payload \<Rightarrow> string) \<Rightarrow> (nat \<Rightarrow> nat) \<Rightarrow> task_outcome \<Rightarrow> persistence_op \<Rightarrow> persistence \<Rightarrow> persistence" where
  "persistence_step to_json clock t (OpCommand c) p = snd (apply_cluster_command to_json clock t c p)"
| "persistence_step to_json clock t (OpCommandBackground c) p = apply_cluster_command_background c p"
| "persistence_step to_json clock t (OpAffinity bs) p = snd (upsert_affinity_bindings to_json clock t bs p)"
| "persistence_step to_json clock t (OpAffinityBackground bs) p = upsert_affinity_bindings_background bs p"
| "persistence_step to_json clock t (OpBackgroundRound n) p = background_round to_json clock t n p"
| "persistence_step to_json clock t (OpInstall now s) p = snd (persistence_install_snapshot now t s p)"
| "persistence_step to_json clock t (OpApplyEvent now e) p = snd (apply_event now t e p)"
| "persistence_step to_json clock t (OpCleanup now now' steps) p = snd (cleanup_expired now now' steps (t = TaskLost) p)"
| "persistence_step to_json clock t OpWriterStops p = p\<lparr>p_writer_alive := False\<rparr>"

fun persistence_run ::
  "(ha_event_payload \<Rightarrow> string) \<Rightarrow> (task_outcome \<times> (nat \<Rightarrow> nat) \<times> persistence_op) list \<Rightarrow> persistence \<Rightarrow> persistence" where
  "persistence_run to_json [] p = p"
| "persistence_run to_json ((t, clock, op) # ops) p =
     persistence_run to_json ops (persistence_step to_json clock t op p)"


section \<open>Invariant\<close>

definition log_row_ok :: "(ha_event_payload \<Rightarrow> string) \<Rightarrow> event_row \<Rightarrow> bool" where
  "log_row_ok to_json r \<longleftrightarrow> (\<exists>p. er_payload_json r = to_json p \<and> er_kind r = event_kind p)"

definition db_inv :: "(ha_event_payload \<Rightarrow> string) \<Rightarrow> database \<Rightarrow> bool" where
  "db_inv to_json db \<longleftrightarrow> hm_inv (db_contacts db) \<and> hm_inv (db_affinity db) \<and> hm_inv (db_meta db)
     \<and> sorted_wrt (<) (map er_seq (db_events db))
     \<and> (\<forall>r \<in> set (db_events db). er_seq r \<le> db_sequence db \<and> log_row_ok to_json r)"

definition runtime_inv :: "(ha_event_payload \<Rightarrow> string) \<Rightarrow> persistence \<Rightarrow> bool" where
  "runtime_inv to_json p \<longleftrightarrow> db_inv to_json (p_db p) \<and>
     p_background_pending_events p = word_of_nat (sum_list (map event_count (p_queue p)))"

lemma db_inv_append [intro]: "db_inv to_json db \<Longrightarrow> db_inv to_json (snd (append_event to_json clock key p db))"
  by (fastforce simp: db_inv_def append_event_def Let_def log_row_ok_def sorted_wrt_append)

lemma append_event_simps [simp]:
  "fst (append_event to_json clock key p db) = Suc (db_sequence db)"
  "db_contacts (snd (append_event to_json clock key p db)) = db_contacts db"
  "db_affinity (snd (append_event to_json clock key p db)) = db_affinity db"
  "db_meta (snd (append_event to_json clock key p db)) = db_meta db"
  "db_sequence (snd (append_event to_json clock key p db)) = Suc (db_sequence db)"
  by (simp_all add: append_event_def Let_def)

lemma db_inv_tables [intro]:
  "db_inv to_json db \<Longrightarrow> db_inv to_json (upsert_contact b s db)"
  "db_inv to_json db \<Longrightarrow> db_inv to_json (delete_contact aor db)"
  "db_inv to_json db \<Longrightarrow> db_inv to_json (upsert_affinity_binding a s db)"
  "db_inv to_json db \<Longrightarrow> db_inv to_json (delete_affinity k db)"
  "db_inv to_json db \<Longrightarrow> db_inv to_json (set_meta_u64 k v db)"
  "db_inv to_json db \<Longrightarrow> db_inv to_json (cleanup_contacts now db)"
  "db_inv to_json db \<Longrightarrow> db_inv to_json (cleanup_affinity now db)"
  by (simp_all add: db_inv_def upsert_contact_def delete_contact_def upsert_affinity_binding_def
      delete_affinity_def set_meta_u64_def cleanup_contacts_def cleanup_affinity_def hm_simps)

lemma db_inv_cleanup_events [intro]: "db_inv to_json db \<Longrightarrow> db_inv to_json (cleanup_events t db)"
  by (auto simp: db_inv_def cleanup_events_def sorted_wrt_map intro: sorted_wrt_filter)

subsection \<open>Writes as payloads\<close>

text \<open>
  Every logged write is a sequence of payloads, each appended to the log and then applied to
  the tables with its sequence number.
\<close>

fun payload_key :: "ha_event_payload \<Rightarrow> string" where
  "payload_key (EvRegisterContact b) = cb_aor b"
| "payload_key (EvUnregisterContact aor) = aor"
| "payload_key (EvUpsertAffinity b) = abs_key b"
| "payload_key (EvRemoveAffinity k) = k"

fun apply_payload :: "nat \<Rightarrow> ha_event_payload \<Rightarrow> database \<Rightarrow> database" where
  "apply_payload seq (EvRegisterContact b) db = upsert_contact b (Some seq) db"
| "apply_payload seq (EvUnregisterContact aor) db = delete_contact aor db"
| "apply_payload seq (EvUpsertAffinity b) db = upsert_affinity_binding b (Some seq) db"
| "apply_payload seq (EvRemoveAffinity k) db = delete_affinity k db"

definition log_payload ::
  "(ha_event_payload \<Rightarrow> string) \<Rightarrow> (nat \<Rightarrow> nat) \<Rightarrow> database \<Rightarrow> ha_event_payload \<Rightarrow> database" where
  "log_payload to_json clock db p =
     apply_payload (Suc (db_sequence db)) p (snd (append_event to_json clock (payload_key p) p db))"

fun write_payloads :: "persistence_write \<Rightarrow> ha_event_payload list" where
  "write_payloads (WriteClusterCommand (RegisterContact b)) = [EvRegisterContact b]"
| "write_payloads (WriteClusterCommand (UnregisterContact aor)) = [EvUnregisterContact aor]"
| "write_payloads (WriteAffinityBindings bs) = map EvUpsertAffinity bs"

lemma length_write_payloads [simp]: "length (write_payloads w) = event_count w"
  by (cases w rule: write_payloads.cases) simp_all

lemma append_affinity_payload: "append_affinity to_json clock db b = log_payload to_json clock db (EvUpsertAffinity b)"
  by (simp add: append_affinity_def log_payload_def event_key_for_affinity_def append_event_def Let_def)

lemma foldl_append_affinity:
  "foldl (append_affinity to_json clock) db bs = foldl (log_payload to_json clock) db (map EvUpsertAffinity bs)"
  by (induction bs arbitrary: db) (simp_all add: append_affinity_payload)

lemma apply_write_payloads: "apply_write to_json clock db w = foldl (log_payload to_json clock) db (write_payloads w)"
  by (cases w rule: write_payloads.cases)
    (simp_all add: foldl_append_affinity apply_cluster_command_in_tx_def log_payload_def append_event_def Let_def)

lemma apply_background_writes_payloads:
  "apply_background_writes to_json clock ws db =
     foldl (log_payload to_json clock) db (concat (map write_payloads ws))"
  by (induction ws arbitrary: db) (simp_all add: apply_background_writes_def apply_write_payloads)

lemma command_payloads:
  "snd (apply_cluster_command_in_tx to_json clock c True db) =
     foldl (log_payload to_json clock) db (write_payloads (WriteClusterCommand c))"
  using apply_write_payloads [of to_json clock db "WriteClusterCommand c"] by simp

lemma db_inv_apply_payload [intro]: "db_inv to_json db \<Longrightarrow> db_inv to_json (apply_payload s p db)"
  by (cases p) auto

lemma db_inv_log [intro]: "db_inv to_json db \<Longrightarrow> db_inv to_json (log_payload to_json clock db p)"
  by (auto simp: log_payload_def)

lemma db_inv_foldl:
  "(\<And>d x. db_inv to_json d \<Longrightarrow> db_inv to_json (f d x)) \<Longrightarrow> db_inv to_json db \<Longrightarrow> db_inv to_json (foldl f db xs)"
  by (induction xs arbitrary: db) auto

lemma db_inv_writes [intro]: "db_inv to_json db \<Longrightarrow> db_inv to_json (apply_background_writes to_json clock ws db)"
  by (auto simp: apply_background_writes_payloads intro: db_inv_foldl)

lemma db_inv_apply_event [intro]: "db_inv to_json db \<Longrightarrow> db_inv to_json (apply_event_without_append now ev db)"
  by (cases "ev_payload ev") (auto simp: apply_event_without_append_def)

lemma db_inv_install [intro]:
  assumes "db_inv to_json db"
  shows "db_inv to_json (install_snapshot_tx now snap db)"
proof -
  have "db_inv to_json (db\<lparr>db_contacts := hm_empty, db_affinity := hm_empty\<rparr>)"
    using assms by (simp add: db_inv_def)
  then show ?thesis
    unfolding install_snapshot_tx_def Let_def by (intro db_inv_tables(5) db_inv_foldl) auto
qed


subsection \<open>Every operation keeps the invariant\<close>

lemma record_results_simps [simp]:
  "p_db (record_sqlite_write_result ok p) = p_db p"
  "p_queue (record_sqlite_write_result ok p) = p_queue p"
  "p_background_pending_events (record_sqlite_write_result ok p) = p_background_pending_events p"
  "p_event_appends_succeeded (record_sqlite_write_result ok p) = p_event_appends_succeeded p"
  "p_event_appends_failed (record_sqlite_write_result ok p) = p_event_appends_failed p"
  "p_db (record_write_result ok n p) = p_db p"
  "p_queue (record_write_result ok n p) = p_queue p"
  "p_background_pending_events (record_write_result ok n p) = p_background_pending_events p"
  by (simp_all add: record_sqlite_write_result_def record_write_result_def Let_def)

lemma transact_simps [simp]:
  "p_db (transact ok f p) = (if ok then f (p_db p) else p_db p)"
  "p_queue (transact ok f p) = p_queue p"
  "p_background_pending_events (transact ok f p) = p_background_pending_events p"
  "p_event_appends_succeeded (transact ok f p) = p_event_appends_succeeded p"
  "p_event_appends_failed (transact ok f p) = p_event_appends_failed p"
  "p_event_retention_seconds (transact ok f p) = p_event_retention_seconds p"
  by (simp_all add: transact_def)

lemma runtime_inv_db:
  "runtime_inv to_json p \<Longrightarrow> p_queue p' = p_queue p \<Longrightarrow>
   p_background_pending_events p' = p_background_pending_events p \<Longrightarrow>
   db_inv to_json (p_db p') \<Longrightarrow> runtime_inv to_json p'"
  by (simp add: runtime_inv_def)

lemma runtime_inv_enqueue: "runtime_inv to_json p \<Longrightarrow> runtime_inv to_json (enqueue_write w p)"
  by (simp add: runtime_inv_def enqueue_write_def Let_def add.commute)

lemma runtime_inv_round: "runtime_inv to_json p \<Longrightarrow> runtime_inv to_json (background_round to_json clock t n p)"
proof -
  assume i: "runtime_inv to_json p"
  let ?k = "min (max n 1) 1024"
  have "sum_list (map event_count (p_queue p)) =
      sum_list (map event_count (take ?k (p_queue p))) + sum_list (map event_count (drop ?k (p_queue p)))"
    by (metis append_take_drop_id map_append sum_list_append)
  then have "(word_of_nat (sum_list (map event_count (p_queue p))) :: u64) =
      word_of_nat (sum_list (map event_count (take ?k (p_queue p))))
      + word_of_nat (sum_list (map event_count (drop ?k (p_queue p))))" by simp
  with i show ?thesis
    by (auto simp: runtime_inv_def background_round_def Let_def)
qed

lemma runtime_inv_task:
  assumes "runtime_inv to_json p" "\<And>ok. runtime_inv to_json (work ok p)"
  shows "runtime_inv to_json (snd (run_task t work p))"
  using assms by (cases t) (simp_all add: run_task_def)

lemma runtime_inv_step: "runtime_inv to_json p \<Longrightarrow> runtime_inv to_json (persistence_step to_json clock t op p)"
proof (cases op)
  case (OpBackgroundRound n)
  then show "runtime_inv to_json p \<Longrightarrow> ?thesis" by (simp add: runtime_inv_round)
next
  case (OpCommand c)
  then show "runtime_inv to_json p \<Longrightarrow> ?thesis"
    by (simp add: apply_cluster_command_def, intro runtime_inv_task)
      (auto simp: runtime_inv_def command_payloads intro: db_inv_foldl)
next
  case (OpAffinity bs)
  then show "runtime_inv to_json p \<Longrightarrow> ?thesis"
    by (simp add: upsert_affinity_bindings_def, intro impI runtime_inv_task)
      (auto simp: runtime_inv_def foldl_append_affinity intro!: db_inv_foldl)
next
  case (OpCleanup now now' steps)
  then show "runtime_inv to_json p \<Longrightarrow> ?thesis"
    by (auto simp: runtime_inv_def cleanup_expired_def Let_def)
next
  case (OpCommandBackground c)
  then show "runtime_inv to_json p \<Longrightarrow> ?thesis"
    by (simp add: apply_cluster_command_background_def runtime_inv_enqueue)
next
  case (OpAffinityBackground bs)
  then show "runtime_inv to_json p \<Longrightarrow> ?thesis"
    by (simp add: upsert_affinity_bindings_background_def runtime_inv_enqueue)
next
  case (OpInstall now snap)
  then show "runtime_inv to_json p \<Longrightarrow> ?thesis"
    by (simp add: persistence_install_snapshot_def, intro runtime_inv_task) (auto simp: runtime_inv_def)
next
  case (OpApplyEvent now e)
  then show "runtime_inv to_json p \<Longrightarrow> ?thesis"
    by (simp add: apply_event_def, intro runtime_inv_task) (auto simp: runtime_inv_def)
qed (simp add: runtime_inv_def)

lemma runtime_inv_run: "runtime_inv to_json p \<Longrightarrow> runtime_inv to_json (persistence_run to_json ops p)"
  by (induction to_json ops p rule: persistence_run.induct) (simp_all add: runtime_inv_step)

fun op_events :: "persistence_op \<Rightarrow> nat" where
  "op_events (OpCommand _) = 1"
| "op_events (OpCommandBackground _) = 1"
| "op_events (OpAffinity bs) = length bs"
| "op_events (OpAffinityBackground bs) = length bs"
| "op_events _ = 0"

text \<open>The events of a synchronous write whose task is lost.\<close>

fun lost_events :: "task_outcome \<Rightarrow> persistence_op \<Rightarrow> nat" where
  "lost_events TaskLost (OpCommand _) = 1"
| "lost_events TaskLost (OpAffinity bs) = length bs"
| "lost_events _ _ = 0"

definition accounted :: "persistence \<Rightarrow> u64" where
  "accounted p = p_event_appends_succeeded p + p_event_appends_failed p + p_background_pending_events p"

lemma accounted_write: "accounted (record_write_result ok n p) = accounted p + word_of_nat n"
  by (simp add: accounted_def record_write_result_def Let_def)

lemma accounted_same [simp]:
  "accounted (record_sqlite_write_result ok p) = accounted p"
  "accounted (transact ok f p) = accounted p"
  "accounted (p\<lparr>p_writer_alive := b\<rparr>) = accounted p"
  by (simp_all add: accounted_def)

lemma accounted_enqueue: "accounted (enqueue_write w p) = accounted p + word_of_nat (event_count w)"
  by (simp add: accounted_def enqueue_write_def Let_def)

lemma accounted_round: "accounted (background_round to_json clock t n p) = accounted p"
proof -
  have upd: "accounted (q\<lparr>p_background_pending_events := p_background_pending_events q - w\<rparr>) = accounted q - w" for q w
    by (simp add: accounted_def)
  have queue: "accounted (q\<lparr>p_queue := x\<rparr>) = accounted q" for q x by (simp add: accounted_def)
  show ?thesis
    by (simp add: background_round_def Let_def upd queue accounted_write del: record_results_simps)
qed

lemma accounted_task:
  assumes "\<And>ok. accounted (work ok p) = accounted p + word_of_nat n"
  shows "accounted (snd (run_task t work p)) + word_of_nat (if t = TaskLost then n else 0) = accounted p + word_of_nat n"
  using assms by (cases t) (simp_all add: run_task_def)

lemma accounted_step:
  "accounted (persistence_step to_json clock t op p) + word_of_nat (lost_events t op) = accounted p + word_of_nat (op_events op)"
proof (cases op)
  case (OpCommand c)
  then show ?thesis
    using accounted_task [of "\<lambda>ok p. record_write_result ok 1
        (transact ok (\<lambda>db. snd (apply_cluster_command_in_tx to_json clock c True db)) p)" p 1 t]
    by (cases t) (simp_all add: apply_cluster_command_def accounted_write)
next
  case (OpAffinity bs)
  then show ?thesis
    using accounted_task [of "\<lambda>ok p. record_write_result ok (length bs)
        (transact ok (\<lambda>db. foldl (append_affinity to_json clock) db bs) p)" p "length bs" t]
    by (cases t) (simp_all add: upsert_affinity_bindings_def accounted_write)
next
  case (OpInstall now snap)
  then show ?thesis by (cases t) (simp_all add: persistence_install_snapshot_def run_task_def)
next
  case (OpApplyEvent now e)
  then show ?thesis by (cases t) (simp_all add: apply_event_def run_task_def)
qed (simp_all add: accounted_round apply_cluster_command_background_def accounted_enqueue
      upsert_affinity_bindings_background_def cleanup_expired_def Let_def)

lemma accounted_run:
  "accounted (persistence_run to_json ops p) + word_of_nat (sum_list (map (\<lambda>(t, _, op). lost_events t op) ops)) =
     accounted p + word_of_nat (sum_list (map (\<lambda>(_, _, op). op_events op) ops))"
proof (induction to_json ops p rule: persistence_run.induct)
  case (2 to_json t clock op ops p)
  let ?q = "persistence_step to_json clock t op p"
  have "accounted (persistence_run to_json ops ?q) + word_of_nat (sum_list (map (\<lambda>(t, _, op). lost_events t op) ops))
      + word_of_nat (lost_events t op) =
    accounted ?q + word_of_nat (lost_events t op) + word_of_nat (sum_list (map (\<lambda>(_, _, op). op_events op) ops))"
    using 2 by (simp add: algebra_simps)
  then show ?case unfolding accounted_step by (simp add: algebra_simps)
qed simp


section \<open>The event log\<close>

lemma foldr_max_sorted: "sorted_wrt (<) (xs :: nat list) \<Longrightarrow> foldr max xs 0 = (if xs = [] then 0 else last xs)"
  by (induction xs) (auto simp: less_imp_le max_def dest: last_in_set)

lemma foldr_min_sorted: "sorted_wrt (<) (x # xs :: nat list) \<Longrightarrow> foldr min xs x = x"
  by (induction xs) auto

lemma latest_event_seq_inv:
  "db_inv to_json db \<Longrightarrow> latest_event_seq db = (if db_events db = [] then 0 else er_seq (last (db_events db)))"
  by (simp add: latest_event_seq_def foldr_max_sorted db_inv_def last_map)

lemma first_event_seq_inv:
  "db_inv to_json db \<Longrightarrow>
     first_event_seq db = (case db_events db of [] \<Rightarrow> None | r # _ \<Rightarrow> Some (er_seq r))"
  by (cases "db_events db") (simp_all add: first_event_seq_def foldr_min_sorted db_inv_def)

lemma sort_key_sorted_rows:
  "db_inv to_json db \<Longrightarrow> sort_key er_seq (filter P (db_events db)) = filter P (db_events db)"
proof (rule sort_key_id_if_sorted)
  assume "db_inv to_json db"
  then have "sorted_wrt (\<lambda>x y. er_seq x < er_seq y) (db_events db)"
    by (simp add: db_inv_def sorted_wrt_map)
  then have "sorted_wrt (\<lambda>x y. er_seq x < er_seq y) (filter P (db_events db))"
    by (rule sorted_wrt_filter)
  then show "sorted (map er_seq (filter P (db_events db)))"
    unfolding sorted_wrt_map by (rule sorted_wrt_mono_rel [rotated]) simp
qed

definition row_event :: "(string \<Rightarrow> ha_event_payload option) \<Rightarrow> event_row \<Rightarrow> ha_event_record" where
  "row_event from_json r = \<lparr>ev_seq = er_seq r, ev_payload = the (from_json (er_payload_json r)),
     ev_created_at_epoch_ms = parse_or_default u128_max (er_created r)\<rparr>"

definition row_decodes ::
  "(ha_event_payload \<Rightarrow> string) \<Rightarrow> (string \<Rightarrow> ha_event_payload option) \<Rightarrow> event_row \<Rightarrow> bool" where
  "row_decodes to_json from_json r \<longleftrightarrow>
     (\<exists>p. er_payload_json r = to_json p \<and> from_json (to_json p) = Some p)"

lemma decode_events:
  assumes "\<forall>r \<in> set rs. row_decodes to_json from_json r"
  shows "collect_res (decode_event from_json) rs = Inr (map (row_event from_json) rs)"
proof -
  have "decode_event from_json r = Inr (row_event from_json r)" if "r \<in> set rs" for r
    using assms that by (auto simp: row_decodes_def decode_event_def row_event_def)
  then show ?thesis
    by (simp add: collect_res_Inr_iff list_all2_map2 list_all2_same)
qed

lemma events_after_rows:
  assumes inv: "db_inv to_json db" and json: "\<forall>r \<in> set (db_events db). row_decodes to_json from_json r"
    and bound: "unat after < 9223372036854775807"
  shows "events_after from_json after limit db =
    (case db_events db of
       r # _ \<Rightarrow> if Suc (unat after) < er_seq r
         then Inr \<lparr>hr_base_seq = er_seq r - 1, hr_latest_seq = latest_event_seq db,
                   hr_snapshot_required = True, hr_events = []\<rparr>
         else Inr \<lparr>hr_base_seq = unat after, hr_latest_seq = latest_event_seq db, hr_snapshot_required = False,
                   hr_events = map (row_event from_json) (take (min (max limit 1) 10000)
                     (filter (\<lambda>r. unat after < er_seq r) (db_events db)))\<rparr>
     | [] \<Rightarrow> Inr \<lparr>hr_base_seq = unat after, hr_latest_seq = 0, hr_snapshot_required = False, hr_events = []\<rparr>)"
proof -
  have "after \<noteq> - 1" using bound by (auto simp: unsigned_minus_1_eq_mask mask_eq_exp_minus_1)
  then have "1 + after \<noteq> 0" by (metis add.commute eq_neg_iff_add_eq_0)
  then have plus: "unat (after + 1) = Suc (unat after)" by (simp add: unatSuc add.commute)
  have rows: "collect_res (decode_event from_json) (take k (filter P (db_events db))) =
      Inr (map (row_event from_json) (take k (filter P (db_events db))))" for k P
    using json by (intro decode_events) (auto dest!: in_set_takeD)
  have "events_after from_json after limit db =
      (if (case first_event_seq db of None \<Rightarrow> False | Some f \<Rightarrow> Suc (unat after) < f)
       then Inr \<lparr>hr_base_seq = (case first_event_seq db of None \<Rightarrow> latest_event_seq db + 1 | Some f \<Rightarrow> f) - 1,
              hr_latest_seq = latest_event_seq db, hr_snapshot_required = True, hr_events = []\<rparr>
       else Inr \<lparr>hr_base_seq = unat after, hr_latest_seq = latest_event_seq db, hr_snapshot_required = False,
              hr_events = map (row_event from_json) (take (min (max limit 1) 10000)
                (filter (\<lambda>r. unat after < er_seq r) (db_events db)))\<rparr>)"
    using bound unfolding events_after_def Let_def plus by (simp add: sort_key_sorted_rows [OF inv] rows)
  then show ?thesis
    by (simp add: first_event_seq_inv [OF inv] latest_event_seq_def split: list.splits)
qed


section \<open>Replaying the log\<close>

definition same_tables :: "database \<Rightarrow> database \<Rightarrow> bool" where
  "same_tables d d' \<longleftrightarrow> db_contacts d = db_contacts d' \<and> db_affinity d = db_affinity d'"

fun payload_live :: "nat \<Rightarrow> ha_event_payload \<Rightarrow> bool" where
  "payload_live now (EvRegisterContact b) \<longleftrightarrow> \<not> is_expired now b"
| "payload_live now (EvUpsertAffinity b) \<longleftrightarrow> abs_expires_at_epoch_ms b > now"
| "payload_live now _ \<longleftrightarrow> True"

fun rows_for :: "(ha_event_payload \<Rightarrow> string) \<Rightarrow> (nat \<Rightarrow> nat) \<Rightarrow> nat \<Rightarrow> ha_event_payload list \<Rightarrow> event_row list" where
  "rows_for to_json clock s [] = []"
| "rows_for to_json clock s (p # ps) =
     \<lparr>er_seq = Suc s, er_kind = event_kind p, er_key = payload_key p, er_payload_json = to_json p,
      er_created = dec_str (clock (Suc s))\<rparr> # rows_for to_json clock (Suc s) ps"

definition replay :: "(nat \<Rightarrow> nat) \<Rightarrow> ha_event_record list \<Rightarrow> database \<Rightarrow> database" where
  "replay at_time evs db = foldl (\<lambda>d e. apply_event_without_append (at_time (ev_seq e)) e d) db evs"

lemma length_rows_for [simp]: "length (rows_for to_json clock s ps) = length ps"
  by (induction ps arbitrary: s) simp_all

lemma rows_for_seqs: "map er_seq (rows_for to_json clock s ps) = [Suc s ..< Suc s + length ps]"
  by (induction ps arbitrary: s) (simp_all add: upt_conv_Cons del: upt_Suc)

lemma nth_rows_for:
  "i < length ps \<Longrightarrow> rows_for to_json clock s ps ! i = \<lparr>er_seq = Suc (s + i), er_kind = event_kind (ps ! i),
     er_key = payload_key (ps ! i), er_payload_json = to_json (ps ! i), er_created = dec_str (clock (Suc (s + i)))\<rparr>"
proof (induction ps arbitrary: s i)
  case Nil
  then show ?case by simp
next
  case (Cons p ps)
  then show ?case by (cases i) simp_all
qed

lemma apply_payload_log [simp]:
  "db_events (apply_payload s p db) = db_events db"
  "db_sequence (apply_payload s p db) = db_sequence db"
  "db_meta (apply_payload s p db) = db_meta db"
  by (cases p; simp add: upsert_contact_def delete_contact_def upsert_affinity_binding_def delete_affinity_def)+

lemma foldl_log_payload:
  "db_events (foldl (log_payload to_json clock) db ps) = db_events db @ rows_for to_json clock (db_sequence db) ps
   \<and> db_sequence (foldl (log_payload to_json clock) db ps) = db_sequence db + length ps"
  by (induction ps arbitrary: db) (simp_all add: log_payload_def append_event_def Let_def)

lemma same_tables_payload: "same_tables d d' \<Longrightarrow> same_tables (apply_payload s p d) (apply_payload s p d')"
  by (cases p) (simp_all add: same_tables_def upsert_contact_def delete_contact_def
      upsert_affinity_binding_def delete_affinity_def)

lemma apply_live_event:
  "payload_live now (ev_payload e) \<Longrightarrow> apply_event_without_append now e d =
     set_meta_u64 ''last_applied_seq'' (ev_seq e) (apply_payload (ev_seq e) (ev_payload e) d)"
  by (cases "ev_payload e") (simp_all add: apply_event_without_append_def)

lemma same_tables_set_meta [simp]: "same_tables (set_meta_u64 k v d) d' = same_tables d d'"
  by (simp add: same_tables_def set_meta_u64_def)

lemma same_tables_append: "same_tables d (snd (append_event to_json clock k p d')) = same_tables d d'"
  by (simp add: same_tables_def)

lemma replay_rows:
  "\<forall>p \<in> set ps. from_json (to_json p) = Some p \<Longrightarrow> same_tables sdb db \<Longrightarrow>
    \<forall>e \<in> set (map (row_event from_json) (rows_for to_json clock (db_sequence db) ps)).
      payload_live (at_time (ev_seq e)) (ev_payload e) \<Longrightarrow>
    same_tables (replay at_time (map (row_event from_json) (rows_for to_json clock (db_sequence db) ps)) sdb)
      (foldl (log_payload to_json clock) db ps)"
proof (induction ps arbitrary: db sdb)
  case Nil
  then show ?case by (simp add: replay_def)
next
  case (Cons p ps)
  let ?s = "Suc (db_sequence db)" and ?db1 = "log_payload to_json clock db p"
  let ?e = "row_event from_json \<lparr>er_seq = ?s, er_kind = event_kind p, er_key = payload_key p,
    er_payload_json = to_json p, er_created = dec_str (clock ?s)\<rparr>"
  have e: "ev_seq ?e = ?s" "ev_payload ?e = p" using Cons.prems(1) by (simp_all add: row_event_def)
  have live: "payload_live (at_time ?s) p" using Cons.prems(3) e by simp
  have seq: "db_sequence ?db1 = ?s" by (simp add: log_payload_def)
  have "same_tables (apply_event_without_append (at_time ?s) ?e sdb) ?db1"
    using apply_live_event [of "at_time ?s" ?e sdb] live e Cons.prems(2)
    by (simp add: log_payload_def same_tables_payload same_tables_append)
  from Cons.IH [OF _ this] Cons.prems(1,3) seq show ?case
    by (simp add: replay_def e(1))
qed

lemma last_applied_set_meta:
  "hm_inv (db_meta d) \<Longrightarrow> n \<le> u64_max \<Longrightarrow> last_applied_seq (set_meta_u64 ''last_applied_seq'' n d) = Some n"
  by (simp add: last_applied_seq_def set_meta_u64_def hm_simps parse_uint_dec_str)

lemma apply_event_meta: "db_meta (apply_event_without_append now e d) = hm_insert ''last_applied_seq'' (dec_str (ev_seq e)) (db_meta d)"
  by (cases "ev_payload e") (simp_all add: apply_event_without_append_def set_meta_u64_def upsert_contact_def
      delete_contact_def upsert_affinity_binding_def delete_affinity_def)

lemma replay_meta:
  "evs \<noteq> [] \<Longrightarrow> hm_inv (db_meta sdb) \<Longrightarrow> ev_seq (last evs) \<le> u64_max \<Longrightarrow>
   last_applied_seq (replay at_time evs sdb) = Some (ev_seq (last evs))"
proof (induction evs rule: rev_induct)
  case Nil
  then show ?case by simp
next
  case (snoc e evs)
  have "hm_inv (db_meta (replay at_time evs sdb))"
    using snoc.prems(2) by (induction evs rule: rev_induct) (simp_all add: replay_def apply_event_meta hm.inv_insert)
  then show ?case
    using snoc.prems(3) by (simp add: replay_def last_applied_seq_def apply_event_meta hm_simps parse_uint_dec_str)
qed


lemma db_inv_fresh: "db_inv to_json fresh_database"
  by (simp add: db_inv_def fresh_database_eq hm_inv_def hm_empty_def)

lemma db_inv_empty: "db_inv to_json empty_database"
  by (simp add: db_inv_def empty_database_def hm_inv_def hm_empty_def)

lemma db_inv_migrate: "db_inv to_json db \<Longrightarrow> db_inv to_json (migrate db)"
  by (simp add: db_inv_def migrate_def hm_simps)

lemma runtime_inv_open:
  "persistence_open ok config db = Inr (Some p) \<Longrightarrow> db_inv to_json db \<Longrightarrow> runtime_inv to_json p \<and> accounted p = 0"
  by (auto simp: persistence_open_def runtime_inv_def accounted_def db_inv_migrate split: if_splits)

lemma events_after_logged:
  assumes "db_inv to_json db" and "\<forall>row \<in> set (db_events db). row_decodes to_json from_json row"
    and "\<forall>p \<in> set ps. from_json (to_json p) = Some p" and "ps \<noteq> []" and "length ps \<le> limit" and "limit \<le> 10000"
    and "db_sequence (foldl (log_payload to_json clock) db ps) < 9223372036854775807"
  shows "events_after from_json (word_of_nat (db_sequence db)) limit (foldl (log_payload to_json clock) db ps) =
    Inr \<lparr>hr_base_seq = db_sequence db, hr_latest_seq = latest_event_seq (foldl (log_payload to_json clock) db ps),
         hr_snapshot_required = False,
         hr_events = map (row_event from_json) (rows_for to_json clock (db_sequence db) ps)\<rparr>"
proof -
  let ?rows = "rows_for to_json clock (db_sequence db) ps" and ?db = "foldl (log_payload to_json clock) db ps"
  have ev: "db_events ?db = db_events db @ ?rows" and seq: "db_sequence ?db = db_sequence db + length ps"
    using foldl_log_payload [of to_json clock db ps] by simp_all
  have inv: "db_inv to_json ?db" using assms(1) by (auto intro: db_inv_foldl)
  have after: "unat (word_of_nat (db_sequence db) :: u64) = db_sequence db"
    using assms(7) seq by (simp add: unat_of_nat)
  note nth = nth_rows_for [of _ ps to_json clock "db_sequence db"]
  have "row_decodes to_json from_json (?rows ! i)" if "i < length ps" for i
    unfolding row_decodes_def using assms(3) nth [OF that] nth_mem [OF that] by auto
  then have dec: "\<forall>row \<in> set (db_events ?db). row_decodes to_json from_json row"
    using assms(2) by (auto simp: ev in_set_conv_nth)
  have old: "filter (\<lambda>r. db_sequence db < er_seq r) (db_events db) = []"
    using assms(1) by (auto simp: db_inv_def filter_empty_conv)
  have new: "filter (\<lambda>r. db_sequence db < er_seq r) ?rows = ?rows"
    using nth by (auto simp: filter_id_conv in_set_conv_nth)
  have first: "er_seq (hd (db_events ?db)) \<le> Suc (db_sequence db)"
    unfolding ev using assms(1,4) by (cases "db_events db"; cases ps) (auto simp: db_inv_def)
  have take: "take (min (max limit 1) 10000) ?rows = ?rows" using assms(5,6) by simp
  have "db_events ?db \<noteq> []" unfolding ev using assms(4) by (cases ps) simp_all
  then obtain r rs where rs: "db_events ?db = r # rs" by (cases "db_events ?db") auto
  have flt: "take (min (max limit 1) 10000) (filter (\<lambda>r. db_sequence db < er_seq r) (r # rs)) = ?rows"
    unfolding rs [symmetric] unfolding ev by (simp only: filter_append old new append_Nil take)
  have "\<not> Suc (db_sequence db) < er_seq r" using first rs by simp
  then show ?thesis
    using events_after_rows [OF inv dec, of "word_of_nat (db_sequence db)" limit] assms(7) seq
    unfolding after rs list.case flt by simp
qed

lemma replay_logged_seq:
  assumes "db_inv to_json db" and "hm_inv (db_meta sdb)" and "ps \<noteq> []"
    and "db_sequence (foldl (log_payload to_json clock) db ps) < 9223372036854775807"
  shows "last_applied_seq (replay at_time (map (row_event from_json) (rows_for to_json clock (db_sequence db) ps)) sdb) =
    Some (latest_event_seq (foldl (log_payload to_json clock) db ps))"
proof -
  let ?rows = "rows_for to_json clock (db_sequence db) ps" and ?db = "foldl (log_payload to_json clock) db ps"
  let ?evs = "map (row_event from_json) ?rows"
  have ev: "db_events ?db = db_events db @ ?rows" using foldl_log_payload [of to_json clock db ps] by simp
  have inv: "db_inv to_json ?db" using assms(1) by (auto intro: db_inv_foldl)
  have ne: "?evs \<noteq> []" using assms(3) by (metis length_0_conv length_map length_rows_for)
  then have last: "ev_seq (last ?evs) = er_seq (last ?rows)" by (simp add: last_map row_event_def)
  have "er_seq (last ?rows) = latest_event_seq ?db"
    using ne unfolding latest_event_seq_inv [OF inv] ev by simp
  moreover have "er_seq (last ?rows) \<le> u64_max"
  proof -
    have "last ?rows \<in> set (db_events ?db)" unfolding ev using ne by simp
    then have "er_seq (last ?rows) \<le> db_sequence ?db" using inv unfolding db_inv_def by blast
    then show ?thesis using assms(4) by (simp add: u64_max_def)
  qed
  ultimately show ?thesis using replay_meta [OF ne assms(2), of at_time] last by simp
qed

lemma rows_live:
  assumes "\<forall>p \<in> set ps. from_json (to_json p) = Some p"
    and "\<forall>i < length ps. payload_live (at_time (s + Suc i)) (ps ! i)"
  shows "\<forall>e \<in> set (map (row_event from_json) (rows_for to_json clock s ps)). payload_live (at_time (ev_seq e)) (ev_payload e)"
proof
  fix e
  assume "e \<in> set (map (row_event from_json) (rows_for to_json clock s ps))"
  then obtain i where i: "i < length ps" "e = row_event from_json (rows_for to_json clock s ps ! i)"
    by (auto simp: in_set_conv_nth)
  then have "from_json (to_json (ps ! i)) = Some (ps ! i)" using assms(1) nth_mem by blast
  then show "payload_live (at_time (ev_seq e)) (ev_payload e)"
    using assms(2) i by (simp add: row_event_def nth_rows_for)
qed

section \<open>Properties\<close>

text \<open>
  C25: the store under any history.  Opening an empty file, or one that an earlier run left, after any
  sequence of synchronous and background writes, background rounds of any size, snapshot
  installations, replicated events and clean-ups, each of which may succeed, fail or lose its
  task, the retained events have strictly increasing sequence numbers not above the counter (none
  is used twice), the pending counter is the number of events in the queue, and every event
  handed to the store since it was opened is counted exactly once as appended, failed or
  pending, but for the events of synchronous writes whose task is lost: these are counted nowhere,
  because the early return comes before the counters.  The tables are again ones that a later
  run can open.
\<close>

theorem persistence_history_accounted:
  fixes to_json ops
  assumes "persistence_open ok config db = Inr (Some p0)"
    and "db = empty_database \<or> db_inv to_json db"
  defines "p \<equiv> persistence_run to_json ops p0"
  shows "db_inv to_json (p_db p)
    \<and> sorted_wrt (<) (map er_seq (db_events (p_db p)))
    \<and> (\<forall>r \<in> set (db_events (p_db p)). er_seq r \<le> db_sequence (p_db p))
    \<and> p_background_pending_events p = word_of_nat (sum_list (map event_count (p_queue p)))
    \<and> p_event_appends_succeeded p + p_event_appends_failed p + p_background_pending_events p
        + word_of_nat (sum_list (map (\<lambda>(t, _, op). lost_events t op) ops)) =
        word_of_nat (sum_list (map (\<lambda>(_, _, op). op_events op) ops))"
proof -
  have p0: "runtime_inv to_json p0" "accounted p0 = 0"
    using runtime_inv_open [OF assms(1), of to_json] assms(2) by (auto simp: db_inv_empty)
  have "runtime_inv to_json p" unfolding p_def using p0(1) by (rule runtime_inv_run)
  moreover have "accounted p + word_of_nat (sum_list (map (\<lambda>(t, _, op). lost_events t op) ops)) =
      word_of_nat (sum_list (map (\<lambda>(_, _, op). op_events op) ops))"
    unfolding p_def using accounted_run [of to_json ops p0] by (simp add: p0(2))
  ultimately show ?thesis by (simp add: runtime_inv_def db_inv_def accounted_def)
qed

text \<open>Three events: one written, one failed in the background, one whose task is lost.\<close>

theorem persistence_history_accounted_witness:
  "\<exists>p0. persistence_open True (default_persistence\<lparr>ps_enabled := True\<rparr>) empty_database = Inr (Some p0) \<and>
     (let p = persistence_run event_kind [(TaskOk, (\<lambda>_. 5), OpCommandBackground (UnregisterContact ''a'')),
          (TaskOk, (\<lambda>_. 6), OpCommand (UnregisterContact ''b'')), (TaskLost, (\<lambda>_. 7), OpCommand (UnregisterContact ''c'')),
          (TaskErr, (\<lambda>_. 8), OpBackgroundRound 1)] p0
      in p_event_appends_succeeded p + p_event_appends_failed p + p_background_pending_events p + 1 = 3)"
proof -
  obtain p0 where p0: "persistence_open True (default_persistence\<lparr>ps_enabled := True\<rparr>) empty_database = Inr (Some p0)"
    by (simp add: persistence_open_def)
  from persistence_history_accounted [OF p0, of event_kind "[(TaskOk, (\<lambda>_. 5), OpCommandBackground (UnregisterContact ''a'')),
          (TaskOk, (\<lambda>_. 6), OpCommand (UnregisterContact ''b'')), (TaskLost, (\<lambda>_. 7), OpCommand (UnregisterContact ''c'')),
          (TaskErr, (\<lambda>_. 8), OpBackgroundRound 1)]"] p0
  show ?thesis by (auto simp: Let_def)
qed

text \<open>
  C26: what a peer is told about the log.  For a request after sequence number \<open>after\<close>, the
  answer is "snapshot required" exactly when the oldest retained event is later than
  \<open>after + 1\<close>; otherwise it lists the retained events after \<open>after\<close> in order, at most
  \<open>limit\<close> (between 1 and 10000) of them, each with its own sequence number and the payload
  that was logged.  In particular a log whose events have all been cleaned up answers "no
  events, no snapshot" whatever \<open>after\<close> is.
\<close>

theorem events_after_exact:
  assumes "db_inv to_json db" and "\<forall>row \<in> set (db_events db). row_decodes to_json from_json row"
    and "unat after < 9223372036854775807"
  shows "\<exists>r. events_after from_json after limit db = Inr r
    \<and> (hr_snapshot_required r \<longleftrightarrow> (\<exists>row rows. db_events db = row # rows \<and> Suc (unat after) < er_seq row))
    \<and> map ev_seq (hr_events r) = (if hr_snapshot_required r then []
        else take (min (max limit 1) 10000) (filter (\<lambda>s. unat after < s) (map er_seq (db_events db))))
    \<and> (\<forall>e \<in> set (hr_events r). \<exists>row \<in> set (db_events db). er_seq row = ev_seq e \<and> er_payload_json row = to_json (ev_payload e))
    \<and> (db_events db = [] \<longrightarrow> \<not> hr_snapshot_required r \<and> hr_events r = [])"
proof -
  have payload: "er_payload_json row = to_json (the (from_json (er_payload_json row)))" if "row \<in> set (db_events db)" for row
    using assms(2) that by (auto simp: row_decodes_def)
  have seqs: "map ev_seq (map (row_event from_json) (take k (filter (\<lambda>r. unat after < er_seq r) rs))) =
      take k (filter (\<lambda>s. unat after < s) (map er_seq rs))" for k rs
    by (simp add: comp_def row_event_def filter_map take_map)
  have evs: "\<exists>row \<in> set rs. er_seq row = ev_seq e \<and> er_payload_json row = to_json (ev_payload e)"
    if "e \<in> set (map (row_event from_json) (take k (filter P rs)))" "set rs \<subseteq> set (db_events db)" for e k P rs
    using that payload by (fastforce simp: row_event_def dest: in_set_takeD)
  show ?thesis
  proof (cases "db_events db")
    case Nil
    then show ?thesis using events_after_rows [OF assms, of limit] by simp
  next
    case (Cons row rows)
    let ?evs = "map (row_event from_json) (take (min (max limit 1) 10000)
      (filter (\<lambda>r. unat after < er_seq r) (row # rows)))"
    have eq: "events_after from_json after limit db =
      (if Suc (unat after) < er_seq row
       then Inr \<lparr>hr_base_seq = er_seq row - 1, hr_latest_seq = latest_event_seq db,
              hr_snapshot_required = True, hr_events = []\<rparr>
       else Inr \<lparr>hr_base_seq = unat after, hr_latest_seq = latest_event_seq db,
              hr_snapshot_required = False, hr_events = ?evs\<rparr>)"
      using events_after_rows [OF assms, of limit] unfolding Cons by (simp only: list.case)
    show ?thesis
    proof (cases "Suc (unat after) < er_seq row")
      case True
      then show ?thesis unfolding eq Cons by simp
    next
      case False
      have "\<forall>e \<in> set ?evs. \<exists>r \<in> set (row # rows). er_seq r = ev_seq e \<and> er_payload_json r = to_json (ev_payload e)"
      proof
        fix e
        assume "e \<in> set ?evs"
        then show "\<exists>r \<in> set (row # rows). er_seq r = ev_seq e \<and> er_payload_json r = to_json (ev_payload e)"
          by (rule evs) (simp add: Cons)
      qed
      then show ?thesis
        using False seqs [of "min (max limit 1) 10000" "row # rows"] unfolding eq Cons by simp
    qed
  qed
qed

theorem events_after_exact_witness:
  "\<exists>r. events_after (\<lambda>s. Some (EvUnregisterContact s)) 8 5 (fresh_database\<lparr>db_sequence := 9, db_events :=
       [\<lparr>er_seq = 9, er_kind = ''unregister-contact'', er_key = ''a'', er_payload_json = ''a'', er_created = ''1''\<rparr>]\<rparr>) = Inr r
     \<and> \<not> hr_snapshot_required r \<and> map ev_seq (hr_events r) = [9]"
proof -
  let ?to = "\<lambda>p. case p of EvUnregisterContact s \<Rightarrow> s | _ \<Rightarrow> []"
  let ?db = "fresh_database\<lparr>db_sequence := 9, db_events :=
    [\<lparr>er_seq = 9, er_kind = ''unregister-contact'', er_key = ''a'', er_payload_json = ''a'', er_created = ''1''\<rparr>]\<rparr>"
  have "db_inv ?to ?db"
    using db_inv_fresh [of ?to]
    by (auto simp: db_inv_def log_row_ok_def intro: exI [of _ "EvUnregisterContact ''a''"])
  moreover have "\<forall>row \<in> set (db_events ?db). row_decodes ?to (\<lambda>s. Some (EvUnregisterContact s)) row"
    by (simp add: row_decodes_def) (rule exI [of _ "EvUnregisterContact ''a''"], simp)
  ultimately show ?thesis
    using events_after_exact [of ?to ?db "\<lambda>s. Some (EvUnregisterContact s)" 8 5] by auto
qed

text \<open>
  C27: replication by the log.  Let a standby's tables equal the active node's.  After the
  active node has committed any batch of writes, what it answers to the standby's next
  request (after the last sequence number it had) does not ask for a snapshot, and replaying
  the answer makes the standby's \<open>contacts\<close> and \<open>affinity\<close> tables equal to the active node's
  again, sequence numbers included, with the last applied sequence number equal to the
  active node's latest, provided the batch fits the limit and no replayed binding has
  expired when the standby gets to it.
\<close>

theorem log_replay_reproduces_tables:
  fixes to_json clock writes db
  defines "db' \<equiv> apply_background_writes to_json clock writes db"
  defines "payloads \<equiv> concat (map write_payloads writes)"
  assumes "db_inv to_json db" and "\<forall>row \<in> set (db_events db). row_decodes to_json from_json row"
    and "\<forall>p \<in> set payloads. from_json (to_json p) = Some p"
    and "db_sequence db' < 9223372036854775807"
    and "payloads \<noteq> []" and "length payloads \<le> limit" and "limit \<le> 10000"
    and "same_tables sdb db" and "hm_inv (db_meta sdb)"
    and "\<forall>i < length payloads. payload_live (at_time (db_sequence db + Suc i)) (payloads ! i)"
  shows "\<exists>r. events_after from_json (word_of_nat (db_sequence db)) limit db' = Inr r
    \<and> \<not> hr_snapshot_required r
    \<and> same_tables (replay at_time (hr_events r) sdb) db'
    \<and> last_applied_seq (replay at_time (hr_events r) sdb) = Some (latest_event_seq db')"
proof -
  let ?rows = "rows_for to_json clock (db_sequence db) payloads"
  let ?evs = "map (row_event from_json) ?rows"
  have db': "db' = foldl (log_payload to_json clock) db payloads"
    by (simp add: db'_def payloads_def apply_background_writes_payloads)
  have "events_after from_json (word_of_nat (db_sequence db)) limit db' =
      Inr \<lparr>hr_base_seq = db_sequence db, hr_latest_seq = latest_event_seq db', hr_snapshot_required = False,
           hr_events = ?evs\<rparr>"
    unfolding db' by (rule events_after_logged) (use assms in \<open>simp_all add: db'\<close>)
  moreover have "same_tables (replay at_time ?evs sdb) db'"
    unfolding db' using assms(5,10,12) by (intro replay_rows rows_live)
  moreover have "last_applied_seq (replay at_time ?evs sdb) = Some (latest_event_seq db')"
    unfolding db' by (rule replay_logged_seq) (use assms in \<open>simp_all add: db'\<close>)
  ultimately show ?thesis by simp
qed

theorem log_replay_reproduces_tables_witness:
  "\<exists>r. events_after (\<lambda>s. Some (EvUnregisterContact s)) (word_of_nat (db_sequence fresh_database)) 5
       (apply_background_writes (\<lambda>p. case p of EvUnregisterContact s \<Rightarrow> s | _ \<Rightarrow> []) (\<lambda>_. 7)
         [WriteClusterCommand (UnregisterContact ''a'')] fresh_database) = Inr r
     \<and> last_applied_seq (replay (\<lambda>_. 9) (hr_events r) fresh_database) = Some (latest_event_seq
         (apply_background_writes (\<lambda>p. case p of EvUnregisterContact s \<Rightarrow> s | _ \<Rightarrow> []) (\<lambda>_. 7)
           [WriteClusterCommand (UnregisterContact ''a'')] fresh_database))"
proof -
  let ?to = "\<lambda>p. case p of EvUnregisterContact s \<Rightarrow> s | _ \<Rightarrow> []"
  have "db_sequence (apply_background_writes ?to (\<lambda>_. 7) [WriteClusterCommand (UnregisterContact ''a'')] fresh_database) = 1"
    using foldl_log_payload [of ?to "\<lambda>_. 7" fresh_database "[EvUnregisterContact ''a'']"]
    by (simp add: apply_background_writes_payloads fresh_database_eq)
  then show ?thesis
    using log_replay_reproduces_tables [of ?to fresh_database "\<lambda>s. Some (EvUnregisterContact s)"
        "[WriteClusterCommand (UnregisterContact ''a'')]" "\<lambda>_. 7" 5 fresh_database "\<lambda>_. 9"] db_inv_fresh [of ?to]
    by (auto simp: same_tables_def fresh_database_eq hm_inv_def)
qed

lemma text_order_anomaly: "dec_str 10 \<le> dec_str 9"
  by (simp add: radix_str.simps digit_char_def less_char_def)

text \<open>
  What the periodic clean-up deletes.  The statements compare epoch times as texts.  When
  every stored time has as many digits as the threshold it is compared with, a clean-up that
  succeeds keeps exactly the contacts that expire later than now, each unchanged, and exactly
  the events newer than the retention period, and no sequence number becomes free again.
\<close>

lemma cleanup_removes_expired:
  assumes "db_inv to_json (p_db p)"
    and "\<forall>aor r. hm_get (db_contacts (p_db p)) aor = Some r \<longrightarrow>
      (\<exists>e. cr_expires r = dec_str e \<and> length (dec_str e) = length (dec_str now))"
    and "\<forall>r \<in> set (db_events (p_db p)). \<exists>t. er_created r = dec_str t \<and>
      length (dec_str t) = length (dec_str (now' - unat (p_event_retention_seconds p) * 1000))"
  defines "p' \<equiv> snd (cleanup_expired now now' 3 False p)"
  shows "(\<forall>aor. hm_get (db_contacts (p_db p')) aor =
        keep_if (\<lambda>_ r. now < dec_val (cr_expires r)) aor
          (hm_get (db_contacts (p_db p)) aor))
    \<and> db_events (p_db p') = filter (\<lambda>r. now' - unat (p_event_retention_seconds p) * 1000 < dec_val (er_created r))
        (db_events (p_db p))
    \<and> db_sequence (p_db p') = db_sequence (p_db p)"
proof -
  let ?t = "now' - unat (p_event_retention_seconds p) * 1000"
  have cmp: "\<not> dec_str e \<le> dec_str n \<longleftrightarrow> n < e" if "length (dec_str e) = length (dec_str n)" for e n
    using dec_text_less_iff [of "dec_str n" "dec_str e"] that dec_str_digits dec_val_dec_str by (simp add: not_le)
  have inv: "hm_inv (db_contacts (p_db p))" using assms(1) by (simp add: db_inv_def)
  have "hm_get (db_contacts (p_db p')) aor =
      keep_if (\<lambda>_ r. now < dec_val (cr_expires r)) aor
        (hm_get (db_contacts (p_db p)) aor)" for aor
  proof (cases "hm_get (db_contacts (p_db p)) aor")
    case None
    then show ?thesis
      using inv by (simp add: p'_def cleanup_expired_def Let_def cleanup_contacts_def cleanup_affinity_def
          cleanup_events_def hm_simps)
  next
    case (Some r)
    then obtain e where e: "cr_expires r = dec_str e" "length (dec_str e) = length (dec_str now)"
      using assms(2) by blast
    then show ?thesis
      using inv Some cmp [OF e(2)]
      by (simp add: p'_def cleanup_expired_def Let_def cleanup_contacts_def cleanup_affinity_def
          cleanup_events_def hm_simps dec_val_dec_str)
  qed
  moreover have "db_events (p_db p') = filter (\<lambda>r. ?t < dec_val (er_created r)) (db_events (p_db p))"
  proof -
    have "\<not> er_created r \<le> dec_str ?t \<longleftrightarrow> ?t < dec_val (er_created r)" if "r \<in> set (db_events (p_db p))" for r
      using assms(3) that cmp dec_val_dec_str by metis
    then show ?thesis
      by (simp add: p'_def cleanup_expired_def Let_def cleanup_contacts_def cleanup_affinity_def
          cleanup_events_def cong: filter_cong)
  qed
  ultimately show ?thesis
    by (simp add: p'_def cleanup_expired_def Let_def cleanup_contacts_def cleanup_affinity_def cleanup_events_def)
qed

end
