(* ===== verification/Replication.thy ===== *)
theory Replication
  imports Persistence
begin

text \<open>
  The state of a node and how it moves between nodes: the standalone replicator of
  \<open>cluster/mod.rs\<close> (\<open>StandaloneReplicator::submit\<close>), the state functions of
  \<open>proxy/server.rs\<close> (\<open>snapshot_state\<close> to \<open>apply_ha_event\<close>) and the pulling side of
  \<open>ha/mod.rs\<close> (\<open>pull_ha_events\<close>, \<open>apply_ha_events\<close>, one round of \<open>run_snapshot_pull\<close>).
  A node is its contacts, its affinity table and its store.  The clocks are arguments
  (\<open>inst\<close> the monotonic one, \<open>ms\<close> the epoch one); whether a database access succeeds is an
  argument too.  The peer's HTTP answers are arguments of the pulling functions.
\<close>

section \<open>Data\<close>

record node =
  n_state :: shared_state
  n_affinity :: affinity_table
  n_persistence :: "persistence option"

datatype ha_error =
    SequenceGap nat nat
  | PersistenceFailed db_error
  | Panicked

section \<open>Submitting a command\<close>

definition persistence_required :: "node \<Rightarrow> bool" where
  "persistence_required n = (case n_persistence n of None \<Rightarrow> False | Some p \<Rightarrow> p_required p)"

definition submit_persist ::
  "(ha_event_payload \<Rightarrow> string) \<Rightarrow> (nat \<Rightarrow> nat) \<Rightarrow> task_outcome \<Rightarrow> cluster_command \<Rightarrow> node \<Rightarrow> (db_error + unit) \<times> node" where
  "submit_persist to_json clock outcome command n =
     (case n_persistence n of
        None \<Rightarrow> (Inr (), n)
      | Some p \<Rightarrow> let (r, p') = apply_cluster_command to_json clock outcome command p
                  in (r, n\<lparr>n_persistence := Some p'\<rparr>))"

definition submit_memory :: "cluster_command \<Rightarrow> node \<Rightarrow> cluster_apply_result \<times> node" where
  "submit_memory command n =
     (let (r, s) = state_apply command (n_state n) in (r, n\<lparr>n_state := s\<rparr>))"

text \<open>
  The two halves in turn.  The source awaits the database in between, so other tasks may run there:
  a history of calls of \<open>standalone_submit\<close> is one of submits that do not overlap, and what a snapshot
  sees between the halves is taken up below.
\<close>

definition standalone_submit ::
  "(ha_event_payload \<Rightarrow> string) \<Rightarrow> (nat \<Rightarrow> nat) \<Rightarrow> task_outcome \<Rightarrow> cluster_command \<Rightarrow> node
   \<Rightarrow> (db_error + cluster_apply_result) \<times> node" where
  "standalone_submit to_json clock outcome command n =
     (if persistence_required n
      then let (r, n1) = submit_persist to_json clock outcome command n
           in case r of
                Inl e \<Rightarrow> (Inl e, n1)
              | Inr _ \<Rightarrow> let (result, n2) = submit_memory command n1 in (Inr result, n2)
      else let (result, n1) = submit_memory command n
           in (Inr result, n1\<lparr>n_persistence := map_option (apply_cluster_command_background command) (n_persistence n1)\<rparr>))"

section \<open>State of the server\<close>

definition snapshot_state :: "bool \<Rightarrow> instant \<Rightarrow> nat \<Rightarrow> node \<Rightarrow> ha_state_snapshot \<times> node" where
  "snapshot_state read_ok inst ms n =
     (let last_seq = (case n_persistence n of
            None \<Rightarrow> 0
          | Some p \<Rightarrow> if read_ok then word_of_nat (latest_event_seq (p_db p)) else 0);
          (contacts, s) = state_snapshot ms (n_state n);
          (affinity, t) = affinity_snapshot inst ms (n_affinity n)
      in (with_checksum \<lparr>hs_last_seq = last_seq, hs_checksum = [], hs_contacts = contacts, hs_affinity = affinity\<rparr>,
          n\<lparr>n_state := s, n_affinity := t\<rparr>))"

text \<open>\<open>None\<close> is the panic of \<open>Instant\<close> arithmetic in the affinity table.\<close>

definition install_state_snapshot ::
  "(affinity_key \<Rightarrow> nat) \<Rightarrow> instant \<Rightarrow> nat \<Rightarrow> task_outcome \<Rightarrow> ha_state_snapshot \<Rightarrow> node \<Rightarrow> (bool \<times> node) option" where
  "install_state_snapshot h inst ms outcome snap n =
     (if \<not> checksum_is_valid snap then Some (False, n)
      else map_option (\<lambda>t.
        (True, n\<lparr>n_state := state_install_snapshot ms (hs_contacts snap) (n_state n), n_affinity := t,
                 n_persistence := map_option (\<lambda>p. snd (persistence_install_snapshot ms outcome snap p)) (n_persistence n)\<rparr>))
        (affinity_install_snapshot h inst ms (hs_affinity snap) (n_affinity n)))"

definition restore_persistent_state ::
  "(affinity_key \<Rightarrow> nat) \<Rightarrow> instant \<Rightarrow> nat \<Rightarrow> node \<Rightarrow> ha_error + node" where
  "restore_persistent_state h inst ms n =
     (case n_persistence n of
        None \<Rightarrow> Inr n
      | Some p \<Rightarrow>
          (case load_snapshot ms (p_db p) of
             Inl e \<Rightarrow> Inl (PersistenceFailed e)
           | Inr snap \<Rightarrow>
               (case affinity_install_snapshot h inst ms (hs_affinity snap) (n_affinity n) of
                  None \<Rightarrow> Inl Panicked
                | Some t \<Rightarrow> Inr (n\<lparr>n_state := state_install_snapshot ms (hs_contacts snap) (n_state n),
                                   n_affinity := t\<rparr>))))"

definition last_applied_ha_event_seq :: "bool \<Rightarrow> node \<Rightarrow> nat" where
  "last_applied_ha_event_seq read_ok n =
     (case n_persistence n of
        None \<Rightarrow> 0
      | Some p \<Rightarrow> if read_ok then (case last_applied_seq (p_db p) of None \<Rightarrow> 0 | Some s \<Rightarrow> s) else 0)"

definition ha_events_after ::
  "(string \<Rightarrow> ha_event_payload option) \<Rightarrow> bool \<Rightarrow> u64 \<Rightarrow> nat \<Rightarrow> node \<Rightarrow> ha_events_response" where
  "ha_events_after from_json read_ok after limit n =
     (case n_persistence n of
        None \<Rightarrow> \<lparr>hr_base_seq = 0, hr_latest_seq = 0, hr_snapshot_required = True, hr_events = []\<rparr>
      | Some p \<Rightarrow>
          (case (if read_ok then events_after from_json after limit (p_db p) else Inl SqliteFailure) of
             Inr r \<Rightarrow> r
           | Inl _ \<Rightarrow> \<lparr>hr_base_seq = unat after, hr_latest_seq = 0, hr_snapshot_required = True, hr_events = []\<rparr>))"

definition apply_ha_event_memory ::
  "(affinity_key \<Rightarrow> nat) \<Rightarrow> instant \<Rightarrow> nat \<Rightarrow> ha_event_record \<Rightarrow> node \<Rightarrow> node option" where
  "apply_ha_event_memory h inst ms ev n =
     (case ev_payload ev of
        EvRegisterContact b \<Rightarrow>
          Some (if \<not> is_expired ms b then n\<lparr>n_state := snd (state_apply (RegisterContact b) (n_state n))\<rparr> else n)
      | EvUnregisterContact aor \<Rightarrow>
          Some (n\<lparr>n_state := snd (state_apply (UnregisterContact aor) (n_state n))\<rparr>)
      | EvUpsertAffinity b \<Rightarrow>
          map_option (\<lambda>t. n\<lparr>n_affinity := t\<rparr>) (upsert_snapshot_bindings h inst ms [b] (n_affinity n))
      | EvRemoveAffinity key \<Rightarrow> Some (n\<lparr>n_affinity := remove_key h key (n_affinity n)\<rparr>))"

definition apply_ha_event ::
  "(affinity_key \<Rightarrow> nat) \<Rightarrow> instant \<Rightarrow> nat \<Rightarrow> task_outcome \<Rightarrow> ha_event_record \<Rightarrow> node \<Rightarrow> (ha_error + unit) \<times> node" where
  "apply_ha_event h inst ms outcome ev n =
     (case apply_ha_event_memory h inst ms ev n of
        None \<Rightarrow> (Inl Panicked, n)
      | Some n1 \<Rightarrow>
          (case n_persistence n1 of
             None \<Rightarrow> (Inr (), n1)
           | Some p \<Rightarrow>
               let (r, p') = apply_event ms outcome ev p; n2 = n1\<lparr>n_persistence := Some p'\<rparr>
               in (case r of Inl e \<Rightarrow> Inl (PersistenceFailed e) | Inr _ \<Rightarrow> Inr (), n2)))"

section \<open>Pulling from the peer\<close>

text \<open>\<open>env\<close> gives, for each sequence number, the clocks and the outcome of the store's task.\<close>

fun apply_ha_events_from ::
  "(affinity_key \<Rightarrow> nat) \<Rightarrow> (nat \<Rightarrow> instant \<times> nat \<times> task_outcome) \<Rightarrow> nat \<Rightarrow> ha_event_record list \<Rightarrow> node
   \<Rightarrow> (ha_error + unit) \<times> node" where
  "apply_ha_events_from h env expected [] n = (Inr (), n)"
| "apply_ha_events_from h env expected (ev # evs) n =
     (if ev_seq ev \<noteq> expected then (Inl (SequenceGap expected (ev_seq ev)), n)
      else let (inst, ms, outcome) = env (ev_seq ev); (r, n') = apply_ha_event h inst ms outcome ev n
           in case r of Inl e \<Rightarrow> (Inl e, n') | Inr _ \<Rightarrow> apply_ha_events_from h env (Suc expected) evs n')"

definition apply_ha_events ::
  "(affinity_key \<Rightarrow> nat) \<Rightarrow> (nat \<Rightarrow> instant \<times> nat \<times> task_outcome) \<Rightarrow> bool \<Rightarrow> ha_event_record list \<Rightarrow> node
   \<Rightarrow> (ha_error + unit) \<times> node" where
  "apply_ha_events h env read_ok evs n =
     apply_ha_events_from h env (last_applied_ha_event_seq read_ok n + 1) evs n"

datatype pull_outcome = PullApplied | PullIdle | PullSnapshotRequired | PullError

text \<open>
  \<open>answer\<close> is what the peer's \<open>/ha/events\<close> gives for the sequence number asked, or \<open>None\<close> when
  the request fails, times out, is refused or does not decode.
\<close>

definition pull_ha_events ::
  "(affinity_key \<Rightarrow> nat) \<Rightarrow> (nat \<Rightarrow> instant \<times> nat \<times> task_outcome) \<Rightarrow> bool \<Rightarrow> bool \<Rightarrow> (nat \<Rightarrow> ha_events_response option) \<Rightarrow> node
   \<Rightarrow> pull_outcome \<times> node" where
  "pull_ha_events h env read_ok read_ok' answer n =
     (if n_persistence n = None then (PullSnapshotRequired, n)
      else case answer (last_applied_ha_event_seq read_ok n) of
          None \<Rightarrow> (PullError, n)
        | Some r \<Rightarrow>
            if hr_snapshot_required r then (PullSnapshotRequired, n)
            else if hr_events r = [] then (PullIdle, n)
            else let (res, n') = apply_ha_events h env read_ok' (hr_events r) n
                 in (case res of Inl _ \<Rightarrow> PullError | Inr _ \<Rightarrow> PullApplied, n'))"

text \<open>
  One tick of \<open>run_snapshot_pull\<close>: nothing on an active node; otherwise events, and the
  snapshot when the events cannot be used.  \<open>snapshot_answer\<close> is the peer's \<open>/ha/snapshot\<close>.
\<close>

definition snapshot_pull_tick ::
  "(affinity_key \<Rightarrow> nat) \<Rightarrow> (nat \<Rightarrow> instant \<times> nat \<times> task_outcome) \<Rightarrow> bool \<Rightarrow> bool \<Rightarrow> cluster_role \<Rightarrow> (nat \<Rightarrow> ha_events_response option)
   \<Rightarrow> ha_state_snapshot option \<Rightarrow> instant \<Rightarrow> nat \<Rightarrow> task_outcome \<Rightarrow> node \<Rightarrow> node option" where
  "snapshot_pull_tick h env read_ok read_ok' role answer snapshot_answer inst ms outcome n =
     (if accepts_writes role then Some n
      else let (pulled, n') = pull_ha_events h env read_ok read_ok' answer n
           in if pulled = PullApplied \<or> pulled = PullIdle then Some n'
              else case snapshot_answer of
                  None \<Rightarrow> Some n'
                | Some snap \<Rightarrow> map_option snd (install_state_snapshot h inst ms outcome snap n'))"

section \<open>Contacts in memory and in the store\<close>

fun command_fits :: "cluster_command \<Rightarrow> bool" where
  "command_fits (RegisterContact b) \<longleftrightarrow> cb_expires_at_epoch_ms b \<le> u128_max"
| "command_fits (UnregisterContact _) \<longleftrightarrow> True"

definition stored_contact :: "database \<Rightarrow> string \<Rightarrow> contact_binding option" where
  "stored_contact db aor = map_option (\<lambda>r. row_contact (aor, r)) (hm_get (db_contacts db) aor)"

definition contacts_agree :: "database \<Rightarrow> shared_state \<Rightarrow> bool" where
  "contacts_agree db s \<longleftrightarrow> hm_inv (db_contacts db) \<and> contacts_inv (ss_contacts s) \<and>
     stored_contact db = hm_get (ss_contacts s)"

lemma stored_upsert:
  assumes "hm_inv (db_contacts db)" "cb_expires_at_epoch_ms b \<le> u128_max"
  shows "stored_contact (upsert_contact b s db) = (stored_contact db)(cb_aor b \<mapsto> b)"
  using assms
  by (auto simp: fun_eq_iff stored_contact_def upsert_contact_def hm_simps row_contact_def parse_or_default_def
      parse_uint_dec_str)

lemma stored_delete:
  "hm_inv (db_contacts db) \<Longrightarrow> stored_contact (delete_contact aor db) = (stored_contact db)(aor := None)"
  by (auto simp: fun_eq_iff stored_contact_def delete_contact_def hm_simps)

lemma stored_append [simp]: "stored_contact (snd (append_event to_json clock k p db)) = stored_contact db"
  by (simp add: fun_eq_iff stored_contact_def)

lemma contacts_agree_command:
  assumes "contacts_agree db s" "command_fits c"
  shows "contacts_agree (snd (apply_cluster_command_in_tx to_json clock c True db)) (snd (state_apply c s))"
proof (cases c)
  case (RegisterContact b)
  have m: "hm_inv (ss_contacts s)" using assms(1) contacts_inv_hm by (simp add: contacts_agree_def)
  have db: "hm_inv (db_contacts (snd (append_event to_json clock (cb_aor b) (EvRegisterContact b) db)))"
    using assms(1) by (simp add: contacts_agree_def)
  have "snd (apply_cluster_command_in_tx to_json clock c True db) =
      upsert_contact b (Some (Suc (db_sequence db))) (snd (append_event to_json clock (cb_aor b) (EvRegisterContact b) db))"
    using RegisterContact by (simp add: command_payloads log_payload_def)
  then show ?thesis
    using assms RegisterContact m stored_upsert [OF db] db
    by (auto simp: contacts_agree_def hm_simps upsert_contact_def)
next
  case (UnregisterContact aor)
  have m: "hm_inv (ss_contacts s)" using assms(1) contacts_inv_hm by (simp add: contacts_agree_def)
  have db: "hm_inv (db_contacts (snd (append_event to_json clock aor (EvUnregisterContact aor) db)))"
    using assms(1) by (simp add: contacts_agree_def)
  have "snd (apply_cluster_command_in_tx to_json clock c True db) =
      delete_contact aor (snd (append_event to_json clock aor (EvUnregisterContact aor) db))"
    using UnregisterContact by (simp add: command_payloads log_payload_def)
  then show ?thesis
    using assms UnregisterContact m stored_delete [OF db] db
    by (auto simp: contacts_agree_def hm_simps delete_contact_def)
qed

lemma load_contacts_mem:
  assumes "hm_inv (db_contacts db)"
  shows "b \<in> set (load_contacts now db) \<longleftrightarrow> stored_contact db (cb_aor b) = Some b \<and> now < cb_expires_at_epoch_ms b"
proof -
  have own: "cb_aor (row_contact x) = fst x" for x by (cases x) (simp add: row_contact_def)
  have "b \<in> row_contact ` set (db_contacts db) \<longleftrightarrow> stored_contact db (cb_aor b) = Some b"
  proof
    assume "b \<in> row_contact ` set (db_contacts db)"
    then obtain aor r where "(aor, r) \<in> set (db_contacts db)" "b = row_contact (aor, r)" by auto
    with assms own [of "(aor, r)"] show "stored_contact db (cb_aor b) = Some b"
      by (simp add: stored_contact_def hm_mem_iff)
  next
    assume "stored_contact db (cb_aor b) = Some b"
    then obtain r where "(cb_aor b, r) \<in> set (db_contacts db)" "b = row_contact (cb_aor b, r)"
      using assms by (auto simp: stored_contact_def hm_mem_iff)
    then show "b \<in> row_contact ` set (db_contacts db)" by blast
  qed
  then show ?thesis by (auto simp: load_contacts_def)
qed

lemma load_contacts_distinct:
  assumes "hm_inv (db_contacts db)"
  shows "distinct (map cb_aor (load_contacts now db))"
proof -
  have "map cb_aor (map row_contact (db_contacts db)) = map fst (db_contacts db)"
    by (auto simp: row_contact_def)
  then have "distinct (map cb_aor (map row_contact (db_contacts db)))"
    using assms by (simp only: hm_inv_def)
  then show ?thesis unfolding load_contacts_def by (rule distinct_map_filter)
qed

lemma restored_view:
  assumes "contacts_agree db s" "now \<le> t"
  shows "contact_view t (state_install_snapshot now (load_contacts now db) s0) = contact_view t s"
proof
  fix aor
  let ?ls = "filter (contact_alive now) (load_contacts now db)"
  have inv: "hm_inv (db_contacts db)" and agree: "stored_contact db = hm_get (ss_contacts s)"
    and own: "contacts_inv (ss_contacts s)" using assms(1) by (simp_all add: contacts_agree_def)
  have "distinct (map cb_aor ?ls)" using load_contacts_distinct [OF inv] by (rule distinct_map_filter)
  then have get: "hm_get (collect_contacts ?ls) aor = Some b \<longleftrightarrow>
      hm_get (ss_contacts s) aor = Some b \<and> contact_alive now b" for b
    using find_rev_distinct [of ?ls aor b] load_contacts_mem [OF inv, of b now] contacts_invD [OF own, of aor b]
    by (auto simp: hm_get_collect agree contact_alive_def is_expired_def)
  have "contact_view t (state_install_snapshot now (load_contacts now db) s0) aor = Some b \<longleftrightarrow>
      contact_view t s aor = Some b" for b
    using get [of b] assms(2)
    by (auto simp: contact_view_def state_install_snapshot_def contact_store.view_def keep_if_eq_Some
        contact_alive_def is_expired_def)
  then show "contact_view t (state_install_snapshot now (load_contacts now db) s0) aor = contact_view t s aor"
    by (metis option.exhaust)
qed


fun submit_run ::
  "(ha_event_payload \<Rightarrow> string) \<Rightarrow> (task_outcome \<times> (nat \<Rightarrow> nat) \<times> cluster_command) list \<Rightarrow> node \<Rightarrow> node" where
  "submit_run to_json [] n = n"
| "submit_run to_json ((outcome, clock, c) # ops) n = submit_run to_json ops (snd (standalone_submit to_json clock outcome c n))"

lemma run_task_simps [simp]:
  "run_task TaskOk work p = (Inr (), work True p)"
  "run_task TaskErr work p = (Inl SqliteFailure, work False p)"
  "run_task TaskLost work p = (Inl PersistenceTaskFailed, p)"
  by (simp_all add: run_task_def write_outcome_def)

lemma required_submit:
  assumes "n_persistence n = Some p" "p_required p"
  shows "snd (standalone_submit to_json clock outcome c n) = n\<lparr>n_persistence := Some (snd (apply_cluster_command to_json clock outcome c p)),
      n_state := (if outcome = TaskOk then snd (state_apply c (n_state n)) else n_state n)\<rparr>"
    and "fst (standalone_submit to_json clock outcome c n) =
      (case outcome of TaskOk \<Rightarrow> Inr \<lparr>applied = True, apply_index = None\<rparr> | TaskErr \<Rightarrow> Inl SqliteFailure
         | TaskLost \<Rightarrow> Inl PersistenceTaskFailed)"
  using assms
  by (cases c; cases outcome; simp add: standalone_submit_def persistence_required_def submit_persist_def apply_cluster_command_def
      submit_memory_def split_beta Let_def)+

lemma apply_cluster_command_fields:
  "p_required (snd (apply_cluster_command to_json clock outcome c p)) = p_required p"
  "p_db (snd (apply_cluster_command to_json clock outcome c p)) =
     (if outcome = TaskOk then snd (apply_cluster_command_in_tx to_json clock c True (p_db p)) else p_db p)"
  by (cases outcome; simp add: apply_cluster_command_def record_write_result_def record_sqlite_write_result_def transact_def Let_def)+

lemma command_affinity [simp]:
  "db_affinity (snd (apply_cluster_command_in_tx to_json clock c True db)) = db_affinity db"
  by (cases c) (simp_all add: command_payloads log_payload_def upsert_contact_def delete_contact_def)

lemma submit_run_agree:
  "n_persistence n = Some p \<Longrightarrow> p_required p \<Longrightarrow> contacts_agree (p_db p) (n_state n) \<Longrightarrow>
   \<forall>(outcome, clock, c) \<in> set ops. command_fits c \<Longrightarrow>
   \<exists>p'. n_persistence (submit_run to_json ops n) = Some p' \<and> p_required p' \<and>
     contacts_agree (p_db p') (n_state (submit_run to_json ops n)) \<and> db_affinity (p_db p') = db_affinity (p_db p)"
proof (induction to_json ops n arbitrary: p rule: submit_run.induct)
  case (1 to_json n)
  then show ?case by simp
next
  case (2 to_json outcome clock c ops n)
  let ?n = "snd (standalone_submit to_json clock outcome c n)" and ?p = "snd (apply_cluster_command to_json clock outcome c p)"
  have n: "n_persistence ?n = Some ?p" "n_state ?n = (if outcome = TaskOk then snd (state_apply c (n_state n)) else n_state n)"
    using required_submit(1) [OF 2(2,3)] by simp_all
  have "contacts_agree (p_db ?p) (n_state ?n)"
    using 2(4,5) contacts_agree_command by (simp add: n(2) apply_cluster_command_fields)
  moreover have "p_required ?p" using 2(3) by (simp add: apply_cluster_command_fields)
  moreover have "db_affinity (p_db ?p) = db_affinity (p_db p)" by (simp add: apply_cluster_command_fields)
  ultimately show ?case using "2.IH" [OF n(1)] 2(5) by simp
qed

section \<open>Applying a batch of events\<close>

fun command_payload :: "cluster_command \<Rightarrow> ha_event_payload" where
  "command_payload (RegisterContact b) = EvRegisterContact b"
| "command_payload (UnregisterContact aor) = EvUnregisterContact aor"

lemma write_payloads_commands: "concat (map write_payloads (map WriteClusterCommand cs)) = map command_payload cs"
proof (induction cs)
  case Nil
  then show ?case by simp
next
  case (Cons c cs)
  then show ?case by (cases c) simp_all
qed

definition apply_commands :: "cluster_command list \<Rightarrow> shared_state \<Rightarrow> shared_state" where
  "apply_commands cs s = foldl (\<lambda>s c. snd (state_apply c s)) s cs"

lemma apply_live_command_event:
  assumes "ev_payload e = command_payload c" "payload_live ms (command_payload c)" "n_persistence n = Some p"
  shows "apply_ha_event h inst ms TaskOk e n = (Inr (), n\<lparr>n_state := snd (state_apply c (n_state n)),
    n_persistence := Some (snd (apply_event ms TaskOk e p))\<rparr>)"
  using assms by (cases c)
    (simp_all add: apply_ha_event_def apply_ha_event_memory_def apply_event_def write_outcome_def)

lemma apply_event_db: "p_db (snd (apply_event ms TaskOk e p)) = apply_event_without_append ms e (p_db p)"
  by (simp add: apply_event_def)

lemma apply_ha_events_rows:
  "\<forall>c \<in> set cs. from_json (to_json (command_payload c)) = Some (command_payload c) \<Longrightarrow>
   \<forall>i < length cs. case env (s + Suc i) of (inst, ms, outcome) \<Rightarrow> outcome = TaskOk \<and> payload_live ms (command_payload (cs ! i)) \<Longrightarrow>
   n_persistence n = Some p \<Longrightarrow>
   \<exists>n' p'. apply_ha_events_from h env (Suc s) (map (row_event from_json) (rows_for to_json clock s (map command_payload cs))) n = (Inr (), n')
     \<and> n_state n' = apply_commands cs (n_state n) \<and> n_affinity n' = n_affinity n \<and> n_persistence n' = Some p'
     \<and> p_db p' = replay (\<lambda>q. fst (snd (env q))) (map (row_event from_json) (rows_for to_json clock s (map command_payload cs))) (p_db p)"
proof (induction cs arbitrary: s n p)
  case Nil
  then show ?case by (simp add: apply_commands_def replay_def)
next
  case (Cons c cs)
  obtain inst ms outcome where env: "env (Suc s) = (inst, ms, outcome)" by (cases "env (Suc s)")
  have live: "outcome = TaskOk" "payload_live ms (command_payload c)"
    using Cons.prems(2) env by (auto dest!: spec [of _ 0])
  let ?e = "row_event from_json \<lparr>er_seq = Suc s, er_kind = event_kind (command_payload c), er_key = payload_key (command_payload c),
    er_payload_json = to_json (command_payload c), er_created = dec_str (clock (Suc s))\<rparr>"
  have e: "ev_seq ?e = Suc s" "ev_payload ?e = command_payload c"
    using Cons.prems(1) by (simp_all add: row_event_def)
  let ?n = "n\<lparr>n_state := snd (state_apply c (n_state n)), n_persistence := Some (snd (apply_event ms TaskOk ?e p))\<rparr>"
  have step: "apply_ha_event h inst ms outcome ?e n = (Inr (), ?n)"
    using apply_live_command_event [OF e(2) live(2) Cons.prems(3)] live(1) by simp
  have rest: "\<forall>i < length cs. case env (Suc s + Suc i) of (inst, ms, outcome) \<Rightarrow> outcome = TaskOk \<and> payload_live ms (command_payload (cs ! i))"
    using Cons.prems(2) by (auto dest: spec [of _ "Suc _"])
  from Cons.IH [of "Suc s" ?n "snd (apply_event ms TaskOk ?e p)"] rest Cons.prems(1)
  show ?case by (auto simp: env e step apply_commands_def replay_def apply_event_db)
qed


section \<open>Background writes of an active node\<close>

lemma submit_run_background:
  "n_persistence n = Some p \<Longrightarrow> \<not> p_required p \<Longrightarrow> p_writer_alive p \<Longrightarrow>
   \<exists>p'. n_persistence (submit_run to_json ops n) = Some p' \<and> p_db p' = p_db p \<and> \<not> p_required p' \<and>
     p_queue p' = p_queue p @ map (\<lambda>(_, _, c). WriteClusterCommand c) ops \<and>
     n_state (submit_run to_json ops n) = apply_commands (map (\<lambda>(_, _, c). c) ops) (n_state n) \<and>
     n_affinity (submit_run to_json ops n) = n_affinity n"
proof (induction to_json ops n arbitrary: p rule: submit_run.induct)
  case (1 to_json n)
  then show ?case by (simp add: apply_commands_def)
next
  case (2 to_json outcome clock c ops n)
  let ?n = "snd (standalone_submit to_json clock outcome c n)" and ?p = "apply_cluster_command_background c p"
  have n: "n_persistence ?n = Some ?p" "n_state ?n = snd (state_apply c (n_state n))" "n_affinity ?n = n_affinity n"
    using 2(2,3) by (simp_all add: standalone_submit_def persistence_required_def submit_memory_def split_beta Let_def)
  have p: "p_db ?p = p_db p" "\<not> p_required ?p" "p_writer_alive ?p"
    "p_queue ?p = p_queue p @ [WriteClusterCommand c]"
    using 2(3,4) by (simp_all add: apply_cluster_command_background_def enqueue_write_def Let_def)
  from "2.IH" [OF n(1) p(2,3)] show ?case by (auto simp: n p apply_commands_def)
qed

lemma background_round_all:
  assumes "p_queue p \<noteq> []" "length (p_queue p) \<le> arrived" "length (p_queue p) \<le> 1024"
  shows "p_db (background_round to_json clock TaskOk arrived p) = apply_background_writes to_json clock (p_queue p) (p_db p)"
  using assms by (simp add: background_round_def Let_def min_def max_def)

definition flush_node :: "(ha_event_payload \<Rightarrow> string) \<Rightarrow> (nat \<Rightarrow> nat) \<Rightarrow> nat \<Rightarrow> node \<Rightarrow> node" where
  "flush_node to_json clock arrived n =
     n\<lparr>n_persistence := map_option (background_round to_json clock TaskOk arrived) (n_persistence n)\<rparr>"

lemma last_applied_install:
  assumes "hm_inv (db_meta db)"
  shows "last_applied_seq (install_snapshot_tx ms snap db) = Some (unat (hs_last_seq snap))"
proof -
  have contacts: "db_meta (foldl (\<lambda>d b. if \<not> is_expired ms b then upsert_contact b None d else d) d bs) = db_meta d" for d bs
    by (induction bs arbitrary: d) (simp_all add: upsert_contact_def)
  have affinity: "db_meta (foldl (\<lambda>d b. if ms < abs_expires_at_epoch_ms b then upsert_affinity_binding b None d else d) d bs) = db_meta d" for d bs
    by (induction bs arbitrary: d) (simp_all add: upsert_affinity_binding_def)
  have "unat (hs_last_seq snap) < 2 ^ 64" using unsigned_less [of "hs_last_seq snap"] by simp
  then show ?thesis
    using assms by (simp add: install_snapshot_tx_def Let_def last_applied_set_meta contacts affinity u64_max_def)
qed

lemma events_after_idle:
  assumes "db_inv to_json db" "\<forall>row \<in> set (db_events db). row_decodes to_json from_json row"
    and "unat after < 9223372036854775807" "\<forall>r \<in> set (db_events db). er_seq r \<le> unat after"
  shows "events_after from_json after limit db = Inr \<lparr>hr_base_seq = unat after, hr_latest_seq = latest_event_seq db,
    hr_snapshot_required = False, hr_events = []\<rparr>"
proof -
  have none: "filter (\<lambda>r. unat after < er_seq r) (db_events db) = []" using assms(4) by (auto simp: filter_empty_conv)
  show ?thesis
  proof (cases "db_events db")
    case Nil
    then show ?thesis using events_after_rows [OF assms(1-3), of limit] by (simp add: latest_event_seq_def)
  next
    case (Cons r rs)
    then have "\<not> Suc (unat after) < er_seq r" using assms(4) by auto
    moreover have "filter (\<lambda>r. unat after < er_seq r) (r # rs) = []" using none Cons by simp
    ultimately show ?thesis
      using events_after_rows [OF assms(1-3), of limit] unfolding Cons list.case by (simp only: if_False take_Nil list.map)
  qed
qed

section \<open>Example nodes\<close>

definition example_store :: "bool \<Rightarrow> persistence" where
  "example_store required = \<lparr>p_db = fresh_database, p_required = required, p_event_retention_seconds = 3600, p_queue = [],
     p_writer_alive = True, p_background_pending_events = 0, p_event_appends_succeeded = 0,
     p_event_appends_failed = 0, p_sqlite_writes_failed = 0\<rparr>"

definition example_node :: "bool \<Rightarrow> node" where
  "example_node required = \<lparr>n_state = \<lparr>ss_contacts = hm_empty\<rparr>, n_affinity = affinity_table_new default_affinity,
     n_persistence = Some (example_store required)\<rparr>"

definition example_contact :: contact_binding where
  "example_contact = \<lparr>cb_aor = ''a'', cb_contact = ''c'', cb_source = ''s'', cb_expires_at_epoch_ms = 900\<rparr>"

lemma example_agree: "contacts_agree (p_db (example_store r)) (n_state (example_node r))"
  by (auto simp: contacts_agree_def example_store_def example_node_def fresh_database_eq stored_contact_def fun_eq_iff
      intro: contacts_invI)

fun example_to_json :: "ha_event_payload \<Rightarrow> string" where
  "example_to_json (EvUnregisterContact s) = s"
| "example_to_json _ = []"

lemma empty_affinity_snapshot: "fst (affinity_snapshot inst ms (affinity_table_new cfg)) = []"
proof -
  have "tab_bindings (prune_all inst (affinity_table_new cfg)) = replicate 64 []"
    unfolding prune_all_eq [OF affinity_inv_new [where h = length]]
    by (simp add: affinity_table_new_def sharded_retain_def sharded_new_def hm_retain_def hm_empty_def affinity_shards_def)
  then show ?thesis by (simp add: affinity_snapshot_def Let_def sharded_entries_def)
qed

lemma apply_ha_event_outcome:
  assumes "n_persistence n = Some p" "hm_inv (db_meta (p_db p))" "ev_seq e \<le> u64_max"
    and "apply_ha_event h inst ms outcome e n = (r, n')"
  shows "\<exists>p'. n_persistence n' = Some p' \<and> hm_inv (db_meta (p_db p')) \<and>
    (r = Inr () \<and> last_applied_ha_event_seq True n' = ev_seq e \<or>
     (\<exists>err. r = Inl err \<and> (\<forall>x y. err \<noteq> SequenceGap x y)) \<and>
       last_applied_ha_event_seq True n' = last_applied_ha_event_seq True n)"
proof (cases "apply_ha_event_memory h inst ms e n")
  case None
  then show ?thesis using assms(1,2,4) by (auto simp: apply_ha_event_def)
next
  case (Some n1)
  then have n1: "n_persistence n1 = Some p"
    using assms(1) by (auto simp: apply_ha_event_memory_def split: ha_event_payload.splits if_splits)
  have meta: "last_applied_seq (apply_event_without_append ms e d) = Some (ev_seq e)" "hm_inv (db_meta (apply_event_without_append ms e d))"
    if "hm_inv (db_meta d)" for d
    using that assms(3) by (simp_all add: last_applied_seq_def apply_event_meta hm_simps parse_uint_dec_str)
  show ?thesis
    using assms(2,4) Some n1 meta
    by (cases outcome) (auto simp: apply_ha_event_def apply_event_def last_applied_ha_event_seq_def assms(1))
qed

lemma apply_ha_events_sequence:
  "n_persistence n = Some p \<Longrightarrow> hm_inv (db_meta (p_db p)) \<Longrightarrow> \<forall>e \<in> set evs. ev_seq e \<le> u64_max \<Longrightarrow>
   s = last_applied_ha_event_seq True n \<Longrightarrow> apply_ha_events_from h env (Suc s) evs n = (res, n') \<Longrightarrow>
   \<exists>k \<le> length evs. map ev_seq (take k evs) = map (\<lambda>i. s + Suc i) [0..<k]
    \<and> last_applied_ha_event_seq True n' = s + k
    \<and> (res = Inr () \<longrightarrow> k = length evs)
    \<and> (\<forall>expected got. res = Inl (SequenceGap expected got) \<longrightarrow>
          k < length evs \<and> ev_seq (evs ! k) = got \<and> expected = s + Suc k \<and> got \<noteq> expected)"
proof (induction evs arbitrary: n p s)
  case Nil
  then show ?case by auto
next
  case (Cons e evs)
  show ?case
  proof (cases "ev_seq e = Suc s")
    case False
    then show ?thesis using Cons.prems(4,5) by (intro exI [of _ 0]) auto
  next
    case True
    obtain inst ms outcome where env: "env (ev_seq e) = (inst, ms, outcome)" by (cases "env (ev_seq e)")
    obtain r n1 where r: "apply_ha_event h inst ms outcome e n = (r, n1)" by (cases "apply_ha_event h inst ms outcome e n")
    have "ev_seq e \<le> u64_max" using Cons.prems(3) by simp
    from apply_ha_event_outcome [OF Cons.prems(1,2) this r] obtain p1 where
      p1: "n_persistence n1 = Some p1" "hm_inv (db_meta (p_db p1))"
      and out: "r = Inr () \<and> last_applied_ha_event_seq True n1 = ev_seq e \<or>
       (\<exists>err. r = Inl err \<and> (\<forall>x y. err \<noteq> SequenceGap x y)) \<and>
         last_applied_ha_event_seq True n1 = last_applied_ha_event_seq True n" by blast
    show ?thesis
    proof (cases r)
      case (Inl err)
      then show ?thesis
        using Cons.prems(4,5) out True env r by (intro exI [of _ 0]) (auto simp: True)
    next
      case (Inr u)
      then have la: "Suc s = last_applied_ha_event_seq True n1" using out True by auto
      have tail: "apply_ha_events_from h env (Suc (Suc s)) evs n1 = (res, n')"
        using Cons.prems(5) True env r Inr by simp
      have "\<forall>e \<in> set evs. ev_seq e \<le> u64_max" using Cons.prems(3) by simp
      from Cons.IH [OF p1 this la tail] obtain k where k: "k \<le> length evs" "map ev_seq (take k evs) = map (\<lambda>i. Suc s + Suc i) [0..<k]"
        "last_applied_ha_event_seq True n' = Suc s + k" "res = Inr () \<longrightarrow> k = length evs"
        "\<forall>expected got. res = Inl (SequenceGap expected got) \<longrightarrow>
          k < length evs \<and> ev_seq (evs ! k) = got \<and> expected = Suc s + Suc k \<and> got \<noteq> expected"
        by blast
      have "map ev_seq (take (Suc k) (e # evs)) = map (\<lambda>i. s + Suc i) [0..<Suc k]"
        using k(2) True by (simp add: upt_conv_Cons map_Suc_upt [symmetric] comp_def del: upt_Suc)
      then show ?thesis using k by (intro exI [of _ "Suc k"]) auto
    qed
  qed
qed

section \<open>Properties\<close>

text \<open>
  C28: registrations are durable.  With \<open>persistence.required\<close>, after any sequence of
  commands submitted one after the other, each of which the database may refuse or lose, memory
  and the \<open>contacts\<close> table hold the same bindings (a refused command changes neither), and a
  node started on that database restores exactly the bindings that are still alive, now and at
  every later time.  The restart succeeds whenever the affinity table is empty.
\<close>

theorem required_registrations_survive_restart:
  assumes "n_persistence n = Some p" and "p_required p" and "contacts_agree (p_db p) (n_state n)"
    and "\<forall>(outcome, clock, c) \<in> set ops. command_fits c"
    and "n_persistence (submit_run to_json ops n) = Some p'"
    and "n_persistence fresh = Some p''" and "p_db p'' = p_db p'" and "ms \<le> t"
  shows "contacts_agree (p_db p') (n_state (submit_run to_json ops n))
    \<and> (\<forall>r. restore_persistent_state h inst ms fresh = Inr r \<longrightarrow>
         contact_view t (n_state r) = contact_view t (n_state (submit_run to_json ops n)))
    \<and> (db_affinity (p_db p) = hm_empty \<longrightarrow> (\<exists>r. restore_persistent_state h inst ms fresh = Inr r))"
proof -
  have agree: "contacts_agree (p_db p') (n_state (submit_run to_json ops n))"
    and aff: "db_affinity (p_db p') = db_affinity (p_db p)"
    using submit_run_agree [OF assms(1-4), of to_json] assms(5) by auto
  have "contact_view t (n_state r) = contact_view t (n_state (submit_run to_json ops n))"
    if "restore_persistent_state h inst ms fresh = Inr r" for r
    using that restored_view [OF agree assms(8), of "n_state fresh"] assms(6,7)
    by (auto simp: restore_persistent_state_def load_snapshot_def with_checksum_def bind_res_Inr_iff
        split: sum.splits option.splits)
  moreover have "\<exists>r. restore_persistent_state h inst ms fresh = Inr r" if "db_affinity (p_db p) = hm_empty"
    using that aff assms(6,7)
    by (simp add: restore_persistent_state_def load_snapshot_def load_affinity_def hm_empty_def with_checksum_def
        affinity_install_snapshot_def)
  ultimately show ?thesis using agree by blast
qed

theorem required_registrations_survive_restart_witness:
  "\<exists>r. restore_persistent_state length 0 500 (submit_run event_kind [(TaskOk, (\<lambda>_. 100), RegisterContact example_contact)] (example_node True)) = Inr r
     \<and> contact_view 600 (n_state r) ''a'' = Some example_contact"
proof -
  let ?ops = "[(TaskOk, (\<lambda>_. 100 :: nat), RegisterContact example_contact)]"
  let ?n = "submit_run event_kind ?ops (example_node True)"
  let ?p = "snd (apply_cluster_command event_kind (\<lambda>_. 100) TaskOk (RegisterContact example_contact) (example_store True))"
  have n: "n_persistence (example_node True) = Some (example_store True)" "p_required (example_store True)"
    "db_affinity (p_db (example_store True)) = hm_empty"
    by (simp_all add: example_node_def example_store_def fresh_database_eq)
  have fits: "\<forall>(outcome, clock, c) \<in> set ?ops. command_fits c" by (simp add: example_contact_def u128_max_def)
  have p: "n_persistence ?n = Some ?p" using required_submit(1) [OF n(1,2)] by simp
  note main = required_registrations_survive_restart [OF n(1,2) example_agree fits p p refl, of 500 600 length 0]
  have "\<exists>r. restore_persistent_state length 0 500 ?n = Inr r" using main n(3) by simp
  then obtain r where r: "restore_persistent_state length 0 500 ?n = Inr r" by blast
  then have "contact_view 600 (n_state r) = contact_view 600 (n_state ?n)" using main by simp
  moreover have "contact_view 600 (n_state ?n) ''a'' = Some example_contact"
    using required_submit(1) [OF n(1,2)]
    by (simp add: contact_view_def contact_store.view_insert example_node_def example_contact_def
        contact_alive_def is_expired_def)
  ultimately show ?thesis using r by auto
qed

text \<open>
  C29: one pull brings the standby up to date.  Let an active node whose persistence is in the
  background (not \<open>required\<close>) accept a batch of at most 1000 commands, which is the limit of one
  pull, and let one round of its writer commit all of them.  If the standby's contacts and
  tables were those of the active node and its last applied sequence number the active
  node's last, then one tick of the standby's pull loop, given the active node's answer,
  leaves it with exactly the active node's contacts in memory and in its tables and with the
  active node's latest sequence number, without a snapshot, provided the standby's own store
  takes the events and no binding of the batch had expired when it was applied.
\<close>

theorem pull_tick_replicates_commands:
  fixes to_json ops A clock arrived
  defines "cs \<equiv> map (\<lambda>(_, _, c). c) ops"
  defines "A' \<equiv> flush_node to_json clock arrived (submit_run to_json ops A)"
  assumes A: "n_persistence A = Some p" "\<not> p_required p" "p_writer_alive p" "p_queue p = []"
    and log: "db_inv to_json (p_db p)" "\<forall>row \<in> set (db_events (p_db p)). row_decodes to_json from_json row"
      "\<forall>c \<in> set cs. from_json (to_json (command_payload c)) = Some (command_payload c)"
      "db_sequence (p_db p) + length cs < 9223372036854775807"
    and batch: "cs \<noteq> []" "length cs \<le> arrived" "length cs \<le> 1000"
    and B: "n_persistence B = Some q" "hm_inv (db_meta (p_db q))" "same_tables (p_db q) (p_db p)"
      "n_state B = n_state A" "last_applied_ha_event_seq read_ok B = db_sequence (p_db p)"
      "last_applied_ha_event_seq read_ok' B = db_sequence (p_db p)"
    and live: "\<forall>i < length cs. case env (db_sequence (p_db p) + Suc i) of (inst, ms, outcome) \<Rightarrow>
      outcome = TaskOk \<and> payload_live ms (command_payload (cs ! i))"
  shows "\<exists>B' p' q'. snapshot_pull_tick h env read_ok read_ok' Follower
        (\<lambda>after. Some (ha_events_after from_json True (word_of_nat after) 1000 A')) snap inst ms outcome B = Some B'
    \<and> n_state B' = n_state A'
    \<and> n_persistence A' = Some p' \<and> n_persistence B' = Some q' \<and> same_tables (p_db q') (p_db p')
    \<and> last_applied_ha_event_seq True B' = latest_event_seq (p_db p')"
proof -
  let ?s = "db_sequence (p_db p)" and ?ps = "map command_payload cs"
  let ?evs = "map (row_event from_json) (rows_for to_json clock ?s ?ps)"
  obtain p1 where p1: "n_persistence (submit_run to_json ops A) = Some p1" "p_db p1 = p_db p"
    "p_queue p1 = map WriteClusterCommand cs" "n_state (submit_run to_json ops A) = apply_commands cs (n_state A)"
    using submit_run_background [OF A(1-3), of to_json ops] A(4) by (auto simp: cs_def split_beta comp_def)
  let ?p' = "background_round to_json clock TaskOk arrived p1"
  have A': "n_persistence A' = Some ?p'" "n_state A' = apply_commands cs (n_state A)"
    using p1 by (simp_all add: A'_def flush_node_def)
  have db': "p_db ?p' = foldl (log_payload to_json clock) (p_db p) ?ps"
    using background_round_all [of p1 arrived to_json clock] batch p1
    by (simp add: apply_background_writes_payloads write_payloads_commands [unfolded map_map comp_def] comp_def)
  have seq: "db_sequence (foldl (log_payload to_json clock) (p_db p) ?ps) < 9223372036854775807"
    using foldl_log_payload [of to_json clock "p_db p" ?ps] log(4) by simp
  have "events_after from_json (word_of_nat ?s) 1000 (p_db ?p') =
      Inr \<lparr>hr_base_seq = ?s, hr_latest_seq = latest_event_seq (p_db ?p'), hr_snapshot_required = False, hr_events = ?evs\<rparr>"
    unfolding db' by (rule events_after_logged) (use log batch seq in auto)
  then have answer: "ha_events_after from_json True (word_of_nat ?s) 1000 A' =
      \<lparr>hr_base_seq = ?s, hr_latest_seq = latest_event_seq (p_db ?p'), hr_snapshot_required = False, hr_events = ?evs\<rparr>"
    by (simp add: ha_events_after_def A')
  obtain B' q' where B': "apply_ha_events_from h env (Suc ?s) ?evs B = (Inr (), B')"
    "n_state B' = apply_commands cs (n_state B)" "n_persistence B' = Some q'"
    "p_db q' = replay (\<lambda>q. fst (snd (env q))) ?evs (p_db q)"
    using apply_ha_events_rows [OF log(3) live B(1)] by blast
  have ne: "?evs \<noteq> []" using batch(1) by (metis length_0_conv length_map length_rows_for)
  have tick: "snapshot_pull_tick h env read_ok read_ok' Follower
      (\<lambda>after. Some (ha_events_after from_json True (word_of_nat after) 1000 A')) snap inst ms outcome B = Some B'"
    using B(1,5,6) B'(1) ne
    by (simp add: snapshot_pull_tick_def pull_ha_events_def apply_ha_events_def answer)
  have tables: "same_tables (p_db q') (p_db ?p')"
    unfolding B'(4) db'
    by (intro replay_rows rows_live B(3)) (use log(3) live in \<open>auto simp: split_beta\<close>)
  have "last_applied_seq (p_db q') = Some (latest_event_seq (p_db ?p'))"
    unfolding B'(4) db' by (rule replay_logged_seq) (use log B(2) seq batch in auto)
  then have "last_applied_ha_event_seq True B' = latest_event_seq (p_db ?p')"
    by (simp add: last_applied_ha_event_seq_def B'(3))
  with tick tables A' B' B(4) show ?thesis by auto
qed

theorem pull_tick_replicates_commands_witness:
  "\<exists>B'. snapshot_pull_tick length (\<lambda>_. (0, 50, TaskOk)) True True Follower
      (\<lambda>after. Some (ha_events_after (\<lambda>s. Some (EvUnregisterContact s)) True (word_of_nat after) 1000
        (flush_node example_to_json (\<lambda>_. 7) 3 (submit_run example_to_json
          [(TaskOk, (\<lambda>_. 7), UnregisterContact ''a'')] (example_node False))))) None 0 0 TaskOk (example_node False) = Some B'
    \<and> last_applied_ha_event_seq True B' = 1"
proof -
  let ?ops = "[(TaskOk, (\<lambda>_ :: nat. 7 :: nat), UnregisterContact ''a'')]"
  let ?A = "flush_node example_to_json (\<lambda>_. 7) 3 (submit_run example_to_json ?ops (example_node False))"
  have n: "n_persistence (example_node False) = Some (example_store False)" by (simp add: example_node_def)
  have s: "\<not> p_required (example_store False)" "p_writer_alive (example_store False)" "p_queue (example_store False) = []"
    "p_db (example_store False) = fresh_database" by (simp_all add: example_store_def)
  have m: "db_events fresh_database = []" "db_sequence fresh_database = 0" "hm_inv (db_meta fresh_database)" "same_tables fresh_database fresh_database"
    "last_applied_seq fresh_database = None"
    by (simp_all add: fresh_database_eq hm_inv_def same_tables_def last_applied_seq_def hm_get_def)
  then have la: "last_applied_ha_event_seq True (example_node False) = db_sequence (p_db (example_store False))"
    by (simp add: last_applied_ha_event_seq_def n s)
  let ?cs = "map (\<lambda>(_, _, c). c) ?ops" and ?from = "\<lambda>s. Some (EvUnregisterContact s)" and ?env = "\<lambda>_ :: nat. (0 :: nat, 50 :: nat, TaskOk)"
  have log: "db_inv example_to_json (p_db (example_store False))"
    "\<forall>row \<in> set (db_events (p_db (example_store False))). row_decodes example_to_json ?from row"
    "\<forall>c \<in> set ?cs. ?from (example_to_json (command_payload c)) = Some (command_payload c)"
    "db_sequence (p_db (example_store False)) + length ?cs < 9223372036854775807"
    by (simp_all add: s m db_inv_fresh)
  have batch: "?cs \<noteq> []" "length ?cs \<le> 3" "length ?cs \<le> 1000" by simp_all
  have tables: "hm_inv (db_meta (p_db (example_store False)))"
    "same_tables (p_db (example_store False)) (p_db (example_store False))" by (simp_all add: s m)
  have live: "\<forall>i < length ?cs. case ?env (db_sequence (p_db (example_store False)) + Suc i) of (inst, ms, outcome) \<Rightarrow>
      outcome = TaskOk \<and> payload_live ms (command_payload (?cs ! i))" by simp
  from pull_tick_replicates_commands [OF n s(1-3) log batch n tables refl la la live, of length "\<lambda>_. 7" None 0 0 TaskOk]
  obtain B' p' where B': "snapshot_pull_tick length ?env True True Follower
      (\<lambda>after. Some (ha_events_after ?from True (word_of_nat after) 1000 ?A)) None 0 0 TaskOk (example_node False) = Some B'"
    "n_persistence ?A = Some p'" "last_applied_ha_event_seq True B' = latest_event_seq (p_db p')"
    by blast
  obtain p1 where p1: "n_persistence (submit_run example_to_json ?ops (example_node False)) = Some p1"
    "p_db p1 = fresh_database" "p_queue p1 = [WriteClusterCommand (UnregisterContact ''a'')]"
    using submit_run_background [OF n s(1,2), of example_to_json ?ops] s(3,4) by auto
  then have "p' = background_round example_to_json (\<lambda>_. 7) TaskOk 3 p1" using B'(2) by (simp add: flush_node_def)
  then have "p_db p' = log_payload example_to_json (\<lambda>_. 7) fresh_database (EvUnregisterContact ''a'')"
    using background_round_all [of p1 3 example_to_json "\<lambda>_. 7"] p1 by (simp add: apply_background_writes_payloads)
  then have "latest_event_seq (p_db p') = 1"
    by (simp add: log_payload_def append_event_def Let_def latest_event_seq_def m delete_contact_def)
  with B' show ?thesis by auto
qed

text \<open>
  C30: a snapshot can miss a registration for good.  With \<open>persistence.required\<close> a
  registration is logged before it is applied in memory.  A snapshot taken between the two
  carries the sequence number of the registration but not the binding; a standby that
  installs it records that number as applied, so its next request for events gets none, and
  although the active node then holds the binding the standby does not.
\<close>

theorem snapshot_misses_logged_registration:
  assumes "n_persistence n = Some p" and "db_inv to_json (p_db p)"
    and "\<forall>row \<in> set (db_events (p_db p)). row_decodes to_json from_json row"
    and "from_json (to_json (EvRegisterContact b)) = Some (EvRegisterContact b)"
    and "Suc (db_sequence (p_db p)) < 9223372036854775807"
    and "hm_get (ss_contacts (n_state n)) (cb_aor b) = None" and "contacts_inv (ss_contacts (n_state n))"
    and "contact_alive t b" and "ms \<le> t"
    and "submit_persist to_json clock TaskOk (RegisterContact b) n = (Inr (), n1)"
    and "snapshot_state True inst ms n1 = (snap, n2)"
    and "submit_memory (RegisterContact b) n2 = (result, n3)"
    and "install_state_snapshot h inst' ms TaskOk snap m = Some (True, m')"
    and "n_persistence m = Some q" and "hm_inv (db_meta (p_db q))"
  shows "contact_view t (n_state n3) (cb_aor b) = Some b
    \<and> contact_view t (n_state m') (cb_aor b) = None
    \<and> last_applied_ha_event_seq True m' = Suc (db_sequence (p_db p))
    \<and> hr_events (ha_events_after from_json True (word_of_nat (last_applied_ha_event_seq True m')) limit n3) = []
    \<and> \<not> hr_snapshot_required (ha_events_after from_json True (word_of_nat (last_applied_ha_event_seq True m')) limit n3)"
proof -
  let ?s = "Suc (db_sequence (p_db p))"
  let ?db = "log_payload to_json clock (p_db p) (EvRegisterContact b)"
  obtain p1 where n1: "n1 = n\<lparr>n_persistence := Some p1\<rparr>" and p1: "p_db p1 = ?db"
    using assms(1,10) by (auto simp: submit_persist_def apply_cluster_command_def command_payloads)
  have row: "db_events ?db = db_events (p_db p) @ rows_for to_json clock (db_sequence (p_db p)) [EvRegisterContact b]"
    "db_sequence ?db = ?s" using foldl_log_payload [of to_json clock "p_db p" "[EvRegisterContact b]"] by simp_all
  have inv: "db_inv to_json ?db" using assms(2) by auto
  have latest: "latest_event_seq ?db = ?s" by (simp add: latest_event_seq_inv [OF inv] row)
  have after: "unat (word_of_nat ?s :: u64) = ?s" using assms(5) by (simp add: unat_of_nat del: of_nat_Suc)
  have snap: "hs_last_seq snap = word_of_nat ?s" "hs_contacts snap = fst (state_snapshot ms (n_state n))"
    and n2: "n_persistence n2 = Some p1" "n_state n2 = snd (state_snapshot ms (n_state n))"
    using assms(11) p1 latest by (auto simp: snapshot_state_def n1 split_beta Let_def with_checksum_def)
  have m': "n_state m' = state_install_snapshot ms (hs_contacts snap) (n_state m)"
    "n_persistence m' = Some (snd (persistence_install_snapshot ms TaskOk snap q))"
    using assms(13,14) by (auto simp: install_state_snapshot_def split: if_splits)
  have meta: "hm_inv (db_meta (p_db q))" by (rule assms(15))
  have seq: "last_applied_ha_event_seq True m' = ?s"
    using last_applied_install [OF meta, of ms snap] snap(1) after
    by (simp add: last_applied_ha_event_seq_def m' persistence_install_snapshot_def)
  have dec: "\<forall>row \<in> set (db_events ?db). row_decodes to_json from_json row"
    using assms(3,4) by (auto simp: row row_decodes_def)
  have "\<forall>r \<in> set (db_events ?db). er_seq r \<le> unat (word_of_nat ?s :: u64)"
    using inv row(2) unfolding after db_inv_def by simp
  then have "events_after from_json (word_of_nat ?s) limit ?db = Inr \<lparr>hr_base_seq = ?s, hr_latest_seq = ?s,
      hr_snapshot_required = False, hr_events = []\<rparr>"
    using events_after_idle [OF inv dec, of "word_of_nat ?s" limit] assms(5) latest
    by (simp only: after)
  moreover have "n_persistence n3 = Some p1" "n_state n3 = snd (state_apply (RegisterContact b) (n_state n2))"
    using assms(12) n2 by (auto simp: submit_memory_def)
  moreover have "contact_view t (n_state m') (cb_aor b) = None"
    unfolding m'(1) snap(2) contact_view_transferred [OF assms(7,9,9)] using assms(6)
    by (simp add: contact_view_def contact_store.view_def)
  moreover have "contact_view t (snd (state_apply (RegisterContact b) (n_state n2))) (cb_aor b) = Some b"
    using assms(7,8) n2 by (simp add: contact_view_def contact_store.view_insert state_snapshot_def Let_def hm.inv_retain contacts_inv_hm)
  ultimately show ?thesis by (simp add: seq ha_events_after_def p1 del: of_nat_Suc)
qed

theorem snapshot_misses_logged_registration_witness:
  "\<exists>n1 snap n2 result n3 m'.
     submit_persist (\<lambda>_. ''x'') (\<lambda>_. 7) TaskOk (RegisterContact example_contact) (example_node True) = (Inr (), n1)
     \<and> snapshot_state True 0 500 n1 = (snap, n2)
     \<and> submit_memory (RegisterContact example_contact) n2 = (result, n3)
     \<and> install_state_snapshot length 0 500 TaskOk snap (example_node True) = Some (True, m')
     \<and> contact_view 600 (n_state n3) ''a'' = Some example_contact
     \<and> contact_view 600 (n_state m') ''a'' = None"
proof -
  let ?to = "\<lambda>_ :: ha_event_payload. ''x''" and ?from = "\<lambda>_ :: string. Some (EvRegisterContact example_contact)"
  have n: "n_persistence (example_node True) = Some (example_store True)"
    and e: "p_db (example_store True) = fresh_database" by (simp_all add: example_node_def example_store_def)
  obtain n1 where n1: "submit_persist ?to (\<lambda>_. 7) TaskOk (RegisterContact example_contact) (example_node True) = (Inr (), n1)"
    and a1: "n_affinity n1 = affinity_table_new default_affinity"
    by (simp add: submit_persist_def n apply_cluster_command_def write_outcome_def)
      (simp add: example_node_def)
  obtain snap n2 where n2: "snapshot_state True 0 500 n1 = (snap, n2)" by (cases "snapshot_state True 0 500 n1")
  obtain result n3 where n3: "submit_memory (RegisterContact example_contact) n2 = (result, n3)"
    by (cases "submit_memory (RegisterContact example_contact) n2")
  have "hs_affinity snap = []" "checksum_is_valid snap"
    using n2 a1 empty_affinity_snapshot by (auto simp: snapshot_state_def split_beta Let_def with_checksum_def
        checksum_is_valid_def compute_checksum_def)
  then obtain m' where m': "install_state_snapshot length 0 500 TaskOk snap (example_node True) = Some (True, m')"
    by (simp add: install_state_snapshot_def affinity_install_snapshot_def)
  have "contacts_inv hm_empty" by (rule contacts_invI) simp_all
  then have "contact_view 600 (n_state n3) (cb_aor example_contact) = Some example_contact
      \<and> contact_view 600 (n_state m') (cb_aor example_contact) = None"
    using snapshot_misses_logged_registration [OF n _ _ _ _ _ _ _ _ n1 n2 n3 m' n, of ?from 600 0]
      db_inv_fresh [of ?to]
    by (simp add: e example_node_def fresh_database_eq hm_inv_def contact_alive_def is_expired_def example_contact_def)
  then show ?thesis using n1 n2 n3 m' by (auto simp: example_contact_def)
qed

text \<open>
  Events are applied in sequence or not at all.  Whatever list of events the peer sends,
  a standby with a readable store advances its last applied sequence number one event at a
  time: the events it applied continue its sequence without a gap, the batch is reported as
  applied exactly when that is all of it, and an event out of sequence stops the batch
  before anything of it is applied.
\<close>

lemma ha_events_applied_in_sequence:
  assumes "n_persistence n = Some p" and "hm_inv (db_meta (p_db p))"
    and "\<forall>e \<in> set evs. ev_seq e \<le> u64_max"
    and "apply_ha_events h env True evs n = (res, n')"
  shows "\<exists>k \<le> length evs. map ev_seq (take k evs) =
        map (\<lambda>i. last_applied_ha_event_seq True n + Suc i) [0..<k]
    \<and> last_applied_ha_event_seq True n' = last_applied_ha_event_seq True n + k
    \<and> (res = Inr () \<longrightarrow> k = length evs)
    \<and> (\<forall>expected got. res = Inl (SequenceGap expected got) \<longrightarrow>
          k < length evs \<and> ev_seq (evs ! k) = got \<and> expected = last_applied_ha_event_seq True n + Suc k \<and> got \<noteq> expected)"
  using apply_ha_events_sequence [OF assms(1-3) refl assms(4) [unfolded apply_ha_events_def Suc_eq_plus1 [symmetric]]]
  by simp

end
