(* ===== verification/Throttle.thy ===== *)
theory Throttle
  imports Rust_Std
begin

text \<open>
  Throttled warnings.  Three components log a repeated failure at most once per interval and
  count what they swallow: the heartbeat client (\<open>HeartbeatFailureLog\<close> of \<open>ha/mod.rs\<close>), the
  health checks (\<open>HealthCheckFailureLog\<close>) and the UDP queues (\<open>UdpHandlerQueueDropLog\<close>, both
  of \<open>proxy/server.rs\<close>).  The locale \<open>throttled_log\<close> is the contract they share: no failure is
  lost in the counts and two warnings are an interval apart.
\<close>

section \<open>The three logs\<close>

record heartbeat_failure_log =
  hl_last_warning :: "instant option"
  hl_suppressed :: u64

record health_check_failure_log =
  cl_last_warning :: "instant option"
  cl_suppressed :: u64

record udp_handler_queue_drop_log =
  ul_last_warned_at :: "instant option"
  ul_suppressed :: u64

definition ha_heartbeat_failure_log_interval :: duration where
  "ha_heartbeat_failure_log_interval = from_secs 30"

definition health_check_failure_log_interval :: duration where
  "health_check_failure_log_interval = from_secs 60"

definition udp_handler_queue_drop_log_interval :: duration where
  "udp_handler_queue_drop_log_interval = from_secs 60"

definition recently :: "duration \<Rightarrow> instant \<Rightarrow> instant option \<Rightarrow> bool" where
  "recently interval now prev = (case prev of None \<Rightarrow> False | Some t \<Rightarrow> duration_since now t < interval)"

definition heartbeat_warn_if_due :: "instant \<Rightarrow> heartbeat_failure_log \<Rightarrow> u64 option \<times> heartbeat_failure_log" where
  "heartbeat_warn_if_due now l =
     (if recently ha_heartbeat_failure_log_interval now (hl_last_warning l)
      then (None, l\<lparr>hl_suppressed := hl_suppressed l + 1\<rparr>)
      else (Some (hl_suppressed l), l\<lparr>hl_suppressed := 0, hl_last_warning := Some now\<rparr>))"

definition heartbeat_recovered :: "heartbeat_failure_log \<Rightarrow> u64 option \<times> heartbeat_failure_log" where
  "heartbeat_recovered l =
     (case hl_last_warning l of
        None \<Rightarrow> (None, l)
      | Some _ \<Rightarrow> (Some (hl_suppressed l), l\<lparr>hl_last_warning := None, hl_suppressed := 0\<rparr>))"

definition health_warn_if_due :: "instant \<Rightarrow> health_check_failure_log \<Rightarrow> u64 option \<times> health_check_failure_log" where
  "health_warn_if_due now l =
     (if recently health_check_failure_log_interval now (cl_last_warning l)
      then (None, l\<lparr>cl_suppressed := cl_suppressed l + 1\<rparr>)
      else (Some (cl_suppressed l), l\<lparr>cl_suppressed := 0, cl_last_warning := Some now\<rparr>))"

definition health_recovered :: "health_check_failure_log \<Rightarrow> u64 option \<times> health_check_failure_log" where
  "health_recovered l =
     (case cl_last_warning l of
        None \<Rightarrow> (None, l)
      | Some _ \<Rightarrow> (Some (cl_suppressed l), l\<lparr>cl_last_warning := None, cl_suppressed := 0\<rparr>))"

definition udp_drop_warn_if_due ::
  "instant \<Rightarrow> udp_handler_queue_drop_log \<Rightarrow> u64 option \<times> udp_handler_queue_drop_log" where
  "udp_drop_warn_if_due now l =
     (if recently udp_handler_queue_drop_log_interval now (ul_last_warned_at l)
      then (None, l\<lparr>ul_suppressed := ul_suppressed l + 1\<rparr>)
      else (Some (ul_suppressed l), l\<lparr>ul_last_warned_at := Some now, ul_suppressed := 0\<rparr>))"

section \<open>The contract\<close>

text \<open>The warnings a sequence of failures produces, with their times and counts.\<close>

fun warnings :: "(instant \<Rightarrow> 'l \<Rightarrow> u64 option \<times> 'l) \<Rightarrow> instant list \<Rightarrow> 'l \<Rightarrow> (instant \<times> u64) list \<times> 'l" where
  "warnings warn [] l = ([], l)"
| "warnings warn (t # ts) l =
     (let (r, l1) = warn t l; (ws, l2) = warnings warn ts l1
      in (case r of None \<Rightarrow> ws | Some n \<Rightarrow> (t, n) # ws, l2))"

locale throttled_log =
  fixes last_warning :: "'l \<Rightarrow> instant option"
    and suppressed :: "'l \<Rightarrow> u64"
    and warn :: "instant \<Rightarrow> 'l \<Rightarrow> u64 option \<times> 'l"
    and interval :: duration
  assumes warn_recent: "recently interval now (last_warning l) \<Longrightarrow> fst (warn now l) = None \<and>
      last_warning (snd (warn now l)) = last_warning l \<and> suppressed (snd (warn now l)) = suppressed l + 1"
    and warn_due: "\<not> recently interval now (last_warning l) \<Longrightarrow> fst (warn now l) = Some (suppressed l) \<and>
      last_warning (snd (warn now l)) = Some now \<and> suppressed (snd (warn now l)) = 0"
begin

lemma warn_cases:
  obtains (quiet) l' where "warn now l = (None, l')" "recently interval now (last_warning l)"
      "last_warning l' = last_warning l" "suppressed l' = suppressed l + 1"
  | (loud) l' where "warn now l = (Some (suppressed l), l')" "\<not> recently interval now (last_warning l)"
      "last_warning l' = Some now" "suppressed l' = 0"
  using warn_recent [of now l] warn_due [of now l]
  by (cases "warn now l"; cases "recently interval now (last_warning l)") auto

lemma counts_complete:
  "warnings warn ts l = (ws, l') \<Longrightarrow>
     sum_list (map (\<lambda>(_, n). n + 1) ws) + suppressed l' = word_of_nat (length ts) + suppressed l"
proof (induction ts arbitrary: l ws)
  case Nil
  then show ?case by simp
next
  case (Cons t ts)
  obtain ws1 where rec: "warnings warn ts (snd (warn t l)) = (ws1, l')"
    using Cons.prems by (auto simp: split_beta Let_def prod_eq_iff)
  show ?case
  proof (cases t l rule: warn_cases)
    case (quiet l1)
    with Cons.IH [OF rec] Cons.prems rec show ?thesis by (auto simp: algebra_simps)
  next
    case (loud l1)
    with Cons.IH [OF rec] Cons.prems rec show ?thesis by (auto simp: algebra_simps)
  qed
qed

lemma spaced:
  "sorted ts \<Longrightarrow> warnings warn ts l = (ws, l') \<Longrightarrow> 
     sorted_wrt (\<lambda>a b. fst a + interval \<le> fst b) ws \<and> fst ` set ws \<subseteq> set ts \<and>
     (\<forall>w \<in> set ws. \<forall>t0. last_warning l = Some t0 \<longrightarrow> t0 \<le> hd ts \<longrightarrow> t0 + interval \<le> fst w)"
proof (induction ts arbitrary: l ws)
  case Nil
  then show ?case by simp
next
  case (Cons t ts)
  obtain ws1 where rec: "warnings warn ts (snd (warn t l)) = (ws1, l')"
    using Cons.prems by (auto simp: split_beta Let_def prod_eq_iff)
  have later: "t \<le> hd ts" if "ts \<noteq> []" using Cons.prems(1) that by (cases ts) auto
  have "sorted ts" using Cons.prems(1) by simp
  note IH = Cons.IH [OF this rec]
  have sub: "w \<in> set ws1 \<Longrightarrow> ts \<noteq> []" for w using IH by (cases ts) auto
  show ?case
  proof (cases t l rule: warn_cases)
    case (quiet l1)
    then have "ws = ws1" using Cons.prems(2) rec by simp
    with IH quiet later sub show ?thesis by (auto intro: order_trans)
  next
    case (loud l1)
    then have ws: "ws = (t, suppressed l) # ws1" using Cons.prems(2) rec by simp
    have gap: "t + interval \<le> fst w" if "w \<in> set ws1" for w
      using IH loud later [OF sub [OF that]] that by simp
    have first: "t0 + interval \<le> t" if "last_warning l = Some t0" "t0 \<le> t" for t0
      using loud that by (auto simp: recently_def duration_since_def)
    have "t0 + interval \<le> fst w" if "last_warning l = Some t0" "t0 \<le> t" "w \<in> set ws1" for t0 w
      using first [OF that(1,2)] gap [OF that(3)] by simp
    with IH gap ws first show ?thesis by auto
  qed
qed

end

interpretation heartbeat_log: throttled_log hl_last_warning hl_suppressed heartbeat_warn_if_due ha_heartbeat_failure_log_interval
  by unfold_locales (simp_all add: heartbeat_warn_if_due_def)

interpretation health_log: throttled_log cl_last_warning cl_suppressed health_warn_if_due health_check_failure_log_interval
  by unfold_locales (simp_all add: health_warn_if_due_def)

interpretation udp_drop_log: throttled_log ul_last_warned_at ul_suppressed udp_drop_warn_if_due udp_handler_queue_drop_log_interval
  by unfold_locales (simp_all add: udp_drop_warn_if_due_def)

section \<open>Property\<close>

text \<open>
  Throttled logs lose nothing.  For each of the three logs, for every sequence of
  failures at non-decreasing times, two warnings are at least the log's interval apart, and
  the failures reported (each warning stands for itself and the suppressed ones it names)
  together with those still counted are all of them, modulo the width of the counter.
\<close>

lemma throttled_logs_account_for_all:
  assumes "sorted ts"
    and "warnings heartbeat_warn_if_due ts h = (hws, h')"
    and "warnings health_warn_if_due ts c = (cws, c')"
    and "warnings udp_drop_warn_if_due ts u = (uws, u')"
  shows "sorted_wrt (\<lambda>a b. fst a + from_secs 30 \<le> fst b) hws
    \<and> sum_list (map (\<lambda>(_, n). n + 1) hws) + hl_suppressed h' = word_of_nat (length ts) + hl_suppressed h
    \<and> sorted_wrt (\<lambda>a b. fst a + from_secs 60 \<le> fst b) cws
    \<and> sum_list (map (\<lambda>(_, n). n + 1) cws) + cl_suppressed c' = word_of_nat (length ts) + cl_suppressed c
    \<and> sorted_wrt (\<lambda>a b. fst a + from_secs 60 \<le> fst b) uws
    \<and> sum_list (map (\<lambda>(_, n). n + 1) uws) + ul_suppressed u' = word_of_nat (length ts) + ul_suppressed u"
  using heartbeat_log.spaced [OF assms(1,2)] heartbeat_log.counts_complete [OF assms(2)]
    health_log.spaced [OF assms(1,3)] health_log.counts_complete [OF assms(3)]
    udp_drop_log.spaced [OF assms(1,4)] udp_drop_log.counts_complete [OF assms(4)]
  by (simp add: ha_heartbeat_failure_log_interval_def health_check_failure_log_interval_def
      udp_handler_queue_drop_log_interval_def)

end
