(* ===== verification/Ha.thy ===== *)
theory Ha
  imports Replication Throttle
begin

text \<open>
  Active-standby failover of \<open>ha/mod.rs\<close>: the role and epoch of a node
  (\<open>ActiveStandbyRuntime\<close>), the replicator that refuses writes on the standby, the hooks of
  the addon, one tick of the heartbeat monitor with reconciliation and failover, and the
  leader monitor.  What the shell does with a hook command is the parameter \<open>sh\<close> (command,
  environment, time limit); the peer's answer to a heartbeat request and the clock readings
  are arguments.  The two nodes together are a transition system whose steps are the
  requests, answers, failures and restarts in any order.
\<close>

section \<open>Hooks\<close>

record ha_context =
  hc_node_id :: node_id
  hc_role :: cluster_role

definition context_from_node :: "node_config \<Rightarrow> cluster_role \<Rightarrow> ha_context" where
  "context_from_node n role = \<lparr>hc_node_id = node_config.node_id n, hc_role = role\<rparr>"

datatype hook_end = SpawnFailed | WaitFailed | HookExited bool | HookTimedOut

datatype hook_error = HookSpawnError | HookWaitError | HookFailed | HookTimeout

type_synonym shell = "string \<Rightarrow> (string \<times> string) list \<Rightarrow> duration \<Rightarrow> hook_end"

fun role_debug :: "cluster_role \<Rightarrow> string" where
  "role_debug Leader = ''Leader''"
| "role_debug Follower = ''Follower''"
| "role_debug Candidate = ''Candidate''"
| "role_debug Standalone = ''Standalone''"

definition run_hook :: "shell \<Rightarrow> string \<Rightarrow> ha_context \<Rightarrow> duration \<Rightarrow> hook_error + unit" where
  "run_hook sh command ctx limit =
     (case sh command [(''SIGPROXY_NODE_ID'', dec_str (unat (hc_node_id ctx))),
                       (''SIGPROXY_ROLE'', role_debug (hc_role ctx))] limit of
        SpawnFailed \<Rightarrow> Inl HookSpawnError
      | WaitFailed \<Rightarrow> Inl HookWaitError
      | HookTimedOut \<Rightarrow> Inl HookTimeout
      | HookExited success \<Rightarrow> if success then Inr () else Inl HookFailed)"

datatype ha_addon = NoopHaAddon | CommandHaAddon "string option" "string option" duration

fun build_addon :: "ha_addon_config \<Rightarrow> ha_addon" where
  "build_addon AddonNoop = NoopHaAddon"
| "build_addon (AddonCommand become step_down timeout_ms) =
     CommandHaAddon become step_down (from_millis (unat timeout_ms))"

fun addon_on_become_leader :: "shell \<Rightarrow> ha_addon \<Rightarrow> ha_context \<Rightarrow> hook_error + unit" where
  "addon_on_become_leader sh NoopHaAddon ctx = Inr ()"
| "addon_on_become_leader sh (CommandHaAddon become step_down limit) ctx =
     (case become of None \<Rightarrow> Inr () | Some command \<Rightarrow> run_hook sh command ctx limit)"

fun addon_on_step_down :: "shell \<Rightarrow> ha_addon \<Rightarrow> ha_context \<Rightarrow> hook_error + unit" where
  "addon_on_step_down sh NoopHaAddon ctx = Inr ()"
| "addon_on_step_down sh (CommandHaAddon become step_down limit) ctx =
     (case step_down of None \<Rightarrow> Inr () | Some command \<Rightarrow> run_hook sh command ctx limit)"

section \<open>Role and epoch\<close>

record ha_heartbeat =
  hb_node_id :: node_id
  hb_role :: cluster_role
  hb_epoch :: u64

record active_standby_runtime =
  rt_node_id :: node_id
  rt_role :: cluster_role
  rt_epoch :: u64

definition runtime_new :: "node_id \<Rightarrow> ha_initial_role \<Rightarrow> active_standby_runtime" where
  "runtime_new n initial = \<lparr>rt_node_id = n,
     rt_role = (case initial of InitialActive \<Rightarrow> Leader | InitialStandby \<Rightarrow> Follower), rt_epoch = 1\<rparr>"

definition runtime_heartbeat :: "active_standby_runtime \<Rightarrow> ha_heartbeat" where
  "runtime_heartbeat r = \<lparr>hb_node_id = rt_node_id r, hb_role = rt_role r, hb_epoch = rt_epoch r\<rparr>"

definition runtime_promote :: "active_standby_runtime \<Rightarrow> active_standby_runtime" where
  "runtime_promote r =
     (if \<not> accepts_writes (rt_role r) then r\<lparr>rt_epoch := rt_epoch r + 1, rt_role := Leader\<rparr> else r)"

definition runtime_demote :: "active_standby_runtime \<Rightarrow> active_standby_runtime" where
  "runtime_demote r = r\<lparr>rt_role := Follower\<rparr>"

datatype submit_error = StandbyRefuses | SubmitFailed db_error

definition ha_submit ::
  "(ha_event_payload \<Rightarrow> string) \<Rightarrow> (nat \<Rightarrow> nat) \<Rightarrow> task_outcome \<Rightarrow> cluster_command \<Rightarrow> active_standby_runtime \<Rightarrow> node
   \<Rightarrow> (submit_error + cluster_apply_result) \<times> node" where
  "ha_submit to_json clock outcome command r n =
     (if \<not> accepts_writes (rt_role r) then (Inl StandbyRefuses, n)
      else let (res, n') = standalone_submit to_json clock outcome command n
           in (case res of Inl e \<Rightarrow> Inl (SubmitFailed e) | Inr a \<Rightarrow> Inr a, n'))"

definition ha_leader :: "active_standby_runtime \<Rightarrow> node_id option" where
  "ha_leader r = (if accepts_writes (rt_role r) then Some (rt_node_id r) else None)"

section \<open>Reconciliation and the heartbeat monitor\<close>

definition peer_should_win :: "ha_heartbeat \<Rightarrow> ha_heartbeat \<Rightarrow> bool" where
  "peer_should_win local peer \<longleftrightarrow>
     hb_epoch peer > hb_epoch local \<or> hb_epoch peer = hb_epoch local \<and> hb_node_id peer < hb_node_id local"

definition promote_active_standby ::
  "shell \<Rightarrow> node_config \<Rightarrow> ha_addon \<Rightarrow> active_standby_runtime \<Rightarrow> (hook_error + bool) \<times> active_standby_runtime" where
  "promote_active_standby sh node addon r =
     (if accepts_writes (rt_role r) then (Inr False, r)
      else case addon_on_become_leader sh addon (context_from_node node Leader) of
             Inl e \<Rightarrow> (Inl e, r)
           | Inr _ \<Rightarrow> (Inr True, runtime_promote r))"

definition demote_active_standby ::
  "shell \<Rightarrow> node_config \<Rightarrow> ha_addon \<Rightarrow> active_standby_runtime \<Rightarrow> (hook_error + bool) \<times> active_standby_runtime" where
  "demote_active_standby sh node addon r =
     (if \<not> accepts_writes (rt_role r) then (Inr False, r)
      else case addon_on_step_down sh addon (context_from_node node Follower) of
             Inl e \<Rightarrow> (Inl e, r)
           | Inr _ \<Rightarrow> (Inr True, runtime_demote r))"

definition reconcile_active_standby ::
  "shell \<Rightarrow> node_config \<Rightarrow> ha_addon \<Rightarrow> ha_heartbeat \<Rightarrow> active_standby_runtime
   \<Rightarrow> (hook_error + bool) \<times> active_standby_runtime" where
  "reconcile_active_standby sh node addon peer r =
     (let local = runtime_heartbeat r;
          local_active = accepts_writes (hb_role local);
          peer_active = accepts_writes (hb_role peer)
      in if local_active \<and> peer_active \<and> peer_should_win local peer then demote_active_standby sh node addon r
         else if \<not> local_active \<and> \<not> peer_active \<and> hb_node_id local < hb_node_id peer
         then promote_active_standby sh node addon r
         else (Inr False, r))"

datatype heartbeat_reply =
    PeerHeartbeat ha_heartbeat
  | DecodeFailed | DecodeTimedOut | StatusFailed | FetchFailed | FetchTimedOut

record ha_monitor =
  mon_last_seen :: "instant option"
  mon_failure_log :: heartbeat_failure_log

definition monitor_new :: "instant \<Rightarrow> ha_monitor" where
  "monitor_new now = \<lparr>mon_last_seen = Some now,
     mon_failure_log = \<lparr>hl_last_warning = None, hl_suppressed = 0\<rparr>\<rparr>"

text \<open>
  One tick: \<open>t_reply\<close> is the clock when the answer (or its failure) is known, \<open>t_check\<close> when
  the failover condition is tested, after the hooks of the reconciliation have run.
\<close>

definition failover_check ::
  "shell \<Rightarrow> ha_active_standby_config \<Rightarrow> node_config \<Rightarrow> ha_addon \<Rightarrow> instant \<Rightarrow> instant option
   \<Rightarrow> active_standby_runtime \<Rightarrow> (hook_error + bool) \<times> active_standby_runtime" where
  "failover_check sh config node addon t_check seen r =
     (if \<not> accepts_writes (rt_role r)
         \<and> (case seen of None \<Rightarrow> True
            | Some t \<Rightarrow> duration_since t_check t \<ge> from_millis (unat (as_failover_timeout_ms config)))
      then promote_active_standby sh node addon r
      else (Inr False, r))"

definition monitor_tick ::
  "shell \<Rightarrow> ha_active_standby_config \<Rightarrow> node_config \<Rightarrow> ha_addon \<Rightarrow> heartbeat_reply \<Rightarrow> instant \<Rightarrow> instant
   \<Rightarrow> active_standby_runtime \<times> ha_monitor \<Rightarrow> (hook_error + unit) \<times> active_standby_runtime \<times> ha_monitor" where
  "monitor_tick sh config node addon reply t_reply t_check = (\<lambda>(r, m).
     let (res, r1, m1) =
       (case reply of
          PeerHeartbeat peer \<Rightarrow>
            let m' = m\<lparr>mon_last_seen := Some t_reply,
                       mon_failure_log := snd (heartbeat_recovered (mon_failure_log m))\<rparr>;
                (res, r') = reconcile_active_standby sh node addon peer r
            in (res, r', m')
        | _ \<Rightarrow> (Inr False, r, m\<lparr>mon_failure_log := snd (heartbeat_warn_if_due t_reply (mon_failure_log m))\<rparr>))
     in case res of
          Inl e \<Rightarrow> (Inl e, r1, m1)
        | Inr _ \<Rightarrow>
            (let (res2, r2) = failover_check sh config node addon t_check (mon_last_seen m1) r1
             in (case res2 of Inl e \<Rightarrow> Inl e | Inr _ \<Rightarrow> Inr (), r2, m1)))"

datatype start_error = BadHeartbeatBind | HeartbeatBindFailed | StartHookFailed hook_error

text \<open>
  The start of \<open>run_active_standby\<close>: \<open>Inr True\<close> when the heartbeat server and the monitor run;
  \<open>bind_ok\<close> says whether the listener could be bound.
\<close>

definition active_standby_start ::
  "shell \<Rightarrow> ha_active_standby_config \<Rightarrow> node_config \<Rightarrow> ha_addon \<Rightarrow> bool \<Rightarrow> active_standby_runtime
   \<Rightarrow> start_error + bool" where
  "active_standby_start sh config node addon bind_ok r =
     (if \<not> as_enabled config then Inr False
      else case parse_sock (as_heartbeat_bind config) of
             None \<Rightarrow> Inl BadHeartbeatBind
           | Some _ \<Rightarrow>
               if \<not> bind_ok then Inl HeartbeatBindFailed
               else if accepts_writes (rt_role r)
               then (case addon_on_become_leader sh addon (context_from_node node Leader) of
                       Inl e \<Rightarrow> Inl (StartHookFailed e) | Inr _ \<Rightarrow> Inr True)
               else Inr True)"

section \<open>The leader monitor\<close>

record ha_monitor_state =
  ms_initialized :: bool
  ms_previous_role :: "cluster_role option"
  ms_previous_leader :: "node_id option"

definition monitor_state_default :: ha_monitor_state where
  "monitor_state_default = \<lparr>ms_initialized = False, ms_previous_role = None, ms_previous_leader = None\<rparr>"

definition is_active_role :: "cluster_role \<Rightarrow> bool" where
  "is_active_role role \<longleftrightarrow> role = Leader \<or> role = Standalone"

datatype hook_call = BecomeLeader ha_context | StepDown ha_context

text \<open>
  The result, the required hooks called and the new state.  \<open>on_leader_changed\<close> does nothing
  in either addon.
\<close>

definition observe_ha_state ::
  "shell \<Rightarrow> node_config \<Rightarrow> ha_addon \<Rightarrow> cluster_role \<Rightarrow> node_id option \<Rightarrow> ha_monitor_state
   \<Rightarrow> (hook_error + unit) \<times> hook_call list \<times> ha_monitor_state" where
  "observe_ha_state sh node addon role leader st =
     (let ctx = context_from_node node role;
          was_active = (case ms_previous_role st of None \<Rightarrow> False | Some r \<Rightarrow> is_active_role r);
          is_active = is_active_role role;
          become = (addon_on_become_leader sh addon ctx, [BecomeLeader ctx]);
          (res, calls) =
            (if \<not> ms_initialized st then (if is_active then become else (Inr (), []))
             else if was_active \<and> \<not> is_active then (addon_on_step_down sh addon ctx, [StepDown ctx])
             else if \<not> was_active \<and> is_active then become
             else (Inr (), []))
      in case res of
           Inl e \<Rightarrow> (Inl e, calls, st)
         | Inr _ \<Rightarrow> (Inr (), calls,
             st\<lparr>ms_initialized := True, ms_previous_role := Some role, ms_previous_leader := leader\<rparr>))"

text \<open>\<open>run_leader_monitor\<close> over the roles and leaders seen at its ticks; it ends at a failed hook.\<close>

fun leader_monitor ::
  "node_config \<Rightarrow> ha_addon \<Rightarrow> (shell \<times> cluster_role \<times> node_id option) list \<Rightarrow> ha_monitor_state
   \<Rightarrow> (hook_error + unit) \<times> hook_call list \<times> ha_monitor_state" where
  "leader_monitor node addon [] st = (Inr (), [], st)"
| "leader_monitor node addon ((sh, role, leader) # obs) st =
     (let (res, calls, st1) = observe_ha_state sh node addon role leader st
      in case res of
           Inl e \<Rightarrow> (Inl e, calls, st1)
         | Inr _ \<Rightarrow> let (res2, calls2, st2) = leader_monitor node addon obs st1 in (res2, calls @ calls2, st2))"

section \<open>Two nodes\<close>

datatype side = NodeA | NodeB

fun other :: "side \<Rightarrow> side" where
  "other NodeA = NodeB"
| "other NodeB = NodeA"

record ha_setup =
  su_config :: ha_active_standby_config
  su_node :: node_config
  su_addon :: ha_addon

text \<open>
  A node is up or down; its monitor ticks until a required hook fails (a process without a
  peer address only waits); \<open>pn_reply\<close> is the answer the peer's server gave to the request of
  the current tick and that has not been handled yet.
\<close>

record ha_peer =
  pn_up :: bool
  pn_monitoring :: bool
  pn_runtime :: active_standby_runtime
  pn_monitor :: ha_monitor
  pn_reply :: "ha_heartbeat option"

type_synonym ha_pair = "side \<Rightarrow> ha_peer"

datatype ha_event =
    Fetch side
  | Deliver side shell instant instant
  | NoAnswer side shell instant instant
  | Crash side
  | Restart side shell bool instant

definition pair_tick ::
  "ha_setup \<Rightarrow> shell \<Rightarrow> heartbeat_reply \<Rightarrow> instant \<Rightarrow> instant \<Rightarrow> ha_peer \<Rightarrow> ha_peer" where
  "pair_tick su sh reply t_reply t_check p =
     (let (res, r, m) = monitor_tick sh (su_config su) (su_node su) (su_addon su) reply t_reply t_check
                          (pn_runtime p, pn_monitor p)
      in p\<lparr>pn_runtime := r, pn_monitor := m, pn_monitoring := \<not> isl res, pn_reply := None\<rparr>)"

fun pair_step :: "(side \<Rightarrow> ha_setup) \<Rightarrow> ha_event \<Rightarrow> ha_pair \<Rightarrow> ha_pair option" where
  "pair_step su (Fetch x) s =
     (if pn_monitoring (s x) \<and> pn_reply (s x) = None \<and> pn_up (s (other x))
      then Some (s(x := (s x)\<lparr>pn_reply := Some (runtime_heartbeat (pn_runtime (s (other x))))\<rparr>))
      else None)"
| "pair_step su (Deliver x sh t_reply t_check) s =
     (if pn_monitoring (s x)
      then map_option (\<lambda>hb. s(x := pair_tick (su x) sh (PeerHeartbeat hb) t_reply t_check (s x))) (pn_reply (s x))
      else None)"
| "pair_step su (NoAnswer x sh t_reply t_check) s =
     (if pn_monitoring (s x) then Some (s(x := pair_tick (su x) sh FetchTimedOut t_reply t_check (s x)))
      else None)"
| "pair_step su (Crash x) s =
     Some (s(x := (s x)\<lparr>pn_up := False, pn_monitoring := False, pn_reply := None\<rparr>))"
| "pair_step su (Restart x sh bind_ok now) s =
     (let c = su_config (su x); n = su_node (su x);
          r = runtime_new (node_config.node_id n) (as_initial_role c)
      in if pn_up (s x) \<or> active_standby_start sh c n (su_addon (su x)) bind_ok r \<noteq> Inr True then None
         else Some (s(x := \<lparr>pn_up = True, pn_monitoring = as_peer_heartbeat_addr c \<noteq> None, pn_runtime = r,
                            pn_monitor = monitor_new now, pn_reply = None\<rparr>)))"

fun pair_run :: "(side \<Rightarrow> ha_setup) \<Rightarrow> ha_event list \<Rightarrow> ha_pair \<Rightarrow> ha_pair option" where
  "pair_run su [] s = Some s"
| "pair_run su (e # es) s = Option.bind (pair_step su e s) (pair_run su es)"

section \<open>Lemmas: one node\<close>

definition hooks_succeed :: "shell \<Rightarrow> ha_addon \<Rightarrow> bool" where
  "hooks_succeed sh addon \<longleftrightarrow>
     (\<forall>ctx. addon_on_become_leader sh addon ctx = Inr () \<and> addon_on_step_down sh addon ctx = Inr ())"

abbreviation active :: "active_standby_runtime \<Rightarrow> bool" where
  "active r \<equiv> accepts_writes (rt_role r)"

definition reconciled :: "ha_heartbeat \<Rightarrow> active_standby_runtime \<Rightarrow> active_standby_runtime" where
  "reconciled peer r =
     (if active r \<and> accepts_writes (hb_role peer) \<and> peer_should_win (runtime_heartbeat r) peer then runtime_demote r
      else if \<not> active r \<and> \<not> accepts_writes (hb_role peer) \<and> rt_node_id r < hb_node_id peer then runtime_promote r
      else r)"

lemma heartbeat_fields [simp]:
  "hb_node_id (runtime_heartbeat r) = rt_node_id r"
  "hb_role (runtime_heartbeat r) = rt_role r"
  "hb_epoch (runtime_heartbeat r) = rt_epoch r"
  by (simp_all add: runtime_heartbeat_def)

lemma promote_simps [simp]:
  "active (runtime_promote r)" "rt_node_id (runtime_promote r) = rt_node_id r"
  "\<not> active r \<Longrightarrow> rt_epoch (runtime_promote r) = rt_epoch r + 1"
  by (simp_all add: runtime_promote_def)

lemma demote_simps [simp]:
  "\<not> active (runtime_demote r)" "rt_node_id (runtime_demote r) = rt_node_id r"
  "rt_epoch (runtime_demote r) = rt_epoch r"
  by (simp_all add: runtime_demote_def)

lemma reconcile_succeeds:
  "hooks_succeed sh addon \<Longrightarrow>
     snd (reconcile_active_standby sh node addon peer r) = reconciled peer r \<and>
     \<not> isl (fst (reconcile_active_standby sh node addon peer r))"
  by (simp add: reconcile_active_standby_def reconciled_def promote_active_standby_def demote_active_standby_def
      hooks_succeed_def Let_def)

lemma monitor_tick_prompt:
  assumes "hooks_succeed sh addon"
    and "duration_since t_check t_reply < from_millis (unat (as_failover_timeout_ms config))"
  shows "fst (monitor_tick sh config node addon (PeerHeartbeat peer) t_reply t_check (r, m)) = Inr ()"
    and "fst (snd (monitor_tick sh config node addon (PeerHeartbeat peer) t_reply t_check (r, m))) = reconciled peer r"
  using reconcile_succeeds [OF assms(1), of node peer r] assms(2)
  by (cases "reconcile_active_standby sh node addon peer r";
      auto simp: monitor_tick_def failover_check_def Let_def split: sum.splits)+

section \<open>Lemmas: two nodes\<close>

text \<open>Which of two nodes keeps or takes the active role.\<close>

definition preferred :: "active_standby_runtime \<Rightarrow> active_standby_runtime \<Rightarrow> bool" where
  "preferred a b =
     (if active a \<noteq> active b then active a
      else if active a then rt_epoch a > rt_epoch b \<or> rt_epoch a = rt_epoch b \<and> rt_node_id a < rt_node_id b
      else rt_node_id a < rt_node_id b)"

lemma preferred_swap: "rt_node_id a \<noteq> rt_node_id b \<Longrightarrow> preferred b a = (\<not> preferred a b)"
  by (auto simp: preferred_def)

lemma reconciled_settled: "active a \<noteq> active b \<Longrightarrow> reconciled (runtime_heartbeat b) a = a"
  by (auto simp: reconciled_def)

lemma reconciled_keeps: "active r \<Longrightarrow> active (reconciled peer r) \<Longrightarrow> reconciled peer r = r"
  by (auto simp: reconciled_def split: if_splits)

lemma reconciled_prefers:
  assumes "rt_node_id a \<noteq> rt_node_id b"
  shows "active (reconciled (runtime_heartbeat b) a) = preferred a b"
  using assms by (auto simp: reconciled_def preferred_def peer_should_win_def)

lemma reconciled_after:
  assumes "rt_node_id a \<noteq> rt_node_id b"
  shows "active (reconciled (runtime_heartbeat (reconciled (runtime_heartbeat b) a)) b) = (\<not> preferred a b)"
  using assms by (auto simp: reconciled_def preferred_def peer_should_win_def)

lemma other_simps [simp]: "other x \<noteq> x" "x \<noteq> other x" "other (other x) = x"
  by (cases x; simp)+

definition prompt :: "(side \<Rightarrow> ha_setup) \<Rightarrow> side \<Rightarrow> shell \<Rightarrow> instant \<Rightarrow> instant \<Rightarrow> bool" where
  "prompt su x sh t_reply t_check \<longleftrightarrow> hooks_succeed sh (su_addon (su x)) \<and>
     duration_since t_check t_reply < from_millis (unat (as_failover_timeout_ms (su_config (su x))))"

lemma pair_tick_prompt:
  assumes "prompt su x sh t u" and "pn_monitoring p"
  shows "pn_runtime (pair_tick (su x) sh (PeerHeartbeat hb) t u p) = reconciled hb (pn_runtime p)"
    "pn_monitoring (pair_tick (su x) sh (PeerHeartbeat hb) t u p)"
    "pn_reply (pair_tick (su x) sh (PeerHeartbeat hb) t u p) = None"
    "pn_up (pair_tick (su x) sh (PeerHeartbeat hb) t u p) = pn_up p"
  using monitor_tick_prompt [of sh "su_addon (su x)" u t "su_config (su x)" "su_node (su x)" hb "pn_runtime p" "pn_monitor p"]
    assms unfolding prompt_def pair_tick_def by (auto simp: Let_def split_beta)

definition ready :: "ha_pair \<Rightarrow> bool" where
  "ready s \<longleftrightarrow> (\<forall>x. pn_up (s x) \<and> pn_monitoring (s x) \<and> pn_reply (s x) = None)"

definition exchange :: "side \<Rightarrow> shell \<Rightarrow> instant \<Rightarrow> instant \<Rightarrow> ha_event list" where
  "exchange x sh t u = [Fetch x, Deliver x sh t u]"

lemma all_sides: "(\<forall>y. P y) \<longleftrightarrow> P x \<and> P (other x)"
  by (metis other.simps side.exhaust)

lemma round_runs:
  assumes "ready s" and "prompt su x sh t u" and "prompt su (other x) sh' t' u'"
    and es: "es = [Fetch x, Deliver x sh t u, Fetch (other x), Deliver (other x) sh' t' u']
      \<or> es = [Fetch x, Fetch (other x), Deliver x sh t u, Deliver (other x) sh' t' u']
      \<or> es = [Fetch (other x), Fetch x, Deliver x sh t u, Deliver (other x) sh' t' u']"
  shows "\<exists>s'. pair_run su es s = Some s' \<and> ready s'
    \<and> pn_runtime (s' x) = reconciled (runtime_heartbeat (pn_runtime (s (other x)))) (pn_runtime (s x))
    \<and> pn_runtime (s' (other x)) \<in>
        {reconciled (runtime_heartbeat (pn_runtime (s x))) (pn_runtime (s (other x))),
         reconciled (runtime_heartbeat (pn_runtime (s' x))) (pn_runtime (s (other x)))}"
proof -
  note t = pair_tick_prompt [OF assms(2)] pair_tick_prompt [OF assms(3)]
  show ?thesis
    using es assms(1) unfolding ready_def all_sides [where x = x] by (elim disjE; simp add: t)
qed

lemma round_settles:
  assumes "ready s" and "rt_node_id (pn_runtime (s NodeA)) \<noteq> rt_node_id (pn_runtime (s NodeB))"
    and "prompt su NodeA sh t u" and "prompt su NodeB sh' t' u'"
    and "es \<in> shuffles (exchange NodeA sh t u) (exchange NodeB sh' t' u')"
  shows "\<exists>s'. pair_run su es s = Some s' \<and> ready s'
    \<and> (active (pn_runtime (s' NodeA)) \<longleftrightarrow> preferred (pn_runtime (s NodeA)) (pn_runtime (s NodeB)))
    \<and> (active (pn_runtime (s' NodeB)) \<longleftrightarrow> \<not> preferred (pn_runtime (s NodeA)) (pn_runtime (s NodeB)))
    \<and> (\<forall>x. active (pn_runtime (s x)) \<and> active (pn_runtime (s' x)) \<longrightarrow> pn_runtime (s' x) = pn_runtime (s x))"
proof -
  note ids = assms(2) assms(2) [symmetric]
  from assms(5) have "(es = [Fetch NodeA, Deliver NodeA sh t u, Fetch NodeB, Deliver NodeB sh' t' u']
      \<or> es = [Fetch NodeA, Fetch NodeB, Deliver NodeA sh t u, Deliver NodeB sh' t' u']
      \<or> es = [Fetch NodeB, Fetch NodeA, Deliver NodeA sh t u, Deliver NodeB sh' t' u'])
    \<or> (es = [Fetch NodeB, Deliver NodeB sh' t' u', Fetch NodeA, Deliver NodeA sh t u]
      \<or> es = [Fetch NodeB, Fetch NodeA, Deliver NodeB sh' t' u', Deliver NodeA sh t u]
      \<or> es = [Fetch NodeA, Fetch NodeB, Deliver NodeB sh' t' u', Deliver NodeA sh t u])"
    by (simp add: exchange_def) blast
  then show ?thesis
  proof
    assume "es = [Fetch NodeA, Deliver NodeA sh t u, Fetch NodeB, Deliver NodeB sh' t' u']
      \<or> es = [Fetch NodeA, Fetch NodeB, Deliver NodeA sh t u, Deliver NodeB sh' t' u']
      \<or> es = [Fetch NodeB, Fetch NodeA, Deliver NodeA sh t u, Deliver NodeB sh' t' u']"
    then obtain s' where s': "pair_run su es s = Some s'" "ready s'"
      and A: "pn_runtime (s' NodeA) = reconciled (runtime_heartbeat (pn_runtime (s NodeB))) (pn_runtime (s NodeA))"
      and B: "pn_runtime (s' NodeB) \<in>
        {reconciled (runtime_heartbeat (pn_runtime (s NodeA))) (pn_runtime (s NodeB)),
         reconciled (runtime_heartbeat (pn_runtime (s' NodeA))) (pn_runtime (s NodeB))}"
      using round_runs [OF assms(1,3), of sh' t' u' es] assms(4) by auto
    from B have "active (pn_runtime (s' NodeB)) \<longleftrightarrow> \<not> preferred (pn_runtime (s NodeA)) (pn_runtime (s NodeB))"
      unfolding A using reconciled_prefers [OF ids(2)] preferred_swap [OF ids(1)] reconciled_after [OF ids(1)] by auto
    moreover have "active (pn_runtime (s x)) \<Longrightarrow> active (pn_runtime (s' x)) \<Longrightarrow> pn_runtime (s' x) = pn_runtime (s x)" for x
      using A B by (cases x) (auto dest: reconciled_keeps)
    ultimately show ?thesis using s' A reconciled_prefers [OF ids(1)] by auto
  next
    assume "es = [Fetch NodeB, Deliver NodeB sh' t' u', Fetch NodeA, Deliver NodeA sh t u]
      \<or> es = [Fetch NodeB, Fetch NodeA, Deliver NodeB sh' t' u', Deliver NodeA sh t u]
      \<or> es = [Fetch NodeA, Fetch NodeB, Deliver NodeB sh' t' u', Deliver NodeA sh t u]"
    then obtain s' where s': "pair_run su es s = Some s'" "ready s'"
      and B: "pn_runtime (s' NodeB) = reconciled (runtime_heartbeat (pn_runtime (s NodeA))) (pn_runtime (s NodeB))"
      and A: "pn_runtime (s' NodeA) \<in>
        {reconciled (runtime_heartbeat (pn_runtime (s NodeB))) (pn_runtime (s NodeA)),
         reconciled (runtime_heartbeat (pn_runtime (s' NodeB))) (pn_runtime (s NodeA))}"
      using round_runs [OF assms(1,4), of sh t u es] assms(3) by auto
    from A have "active (pn_runtime (s' NodeA)) \<longleftrightarrow> preferred (pn_runtime (s NodeA)) (pn_runtime (s NodeB))"
      unfolding B using reconciled_prefers [OF ids(1)] preferred_swap [OF ids(1)] reconciled_after [OF ids(2)] by auto
    moreover have "active (pn_runtime (s x)) \<Longrightarrow> active (pn_runtime (s' x)) \<Longrightarrow> pn_runtime (s' x) = pn_runtime (s x)" for x
      using A B by (cases x) (auto dest: reconciled_keeps)
    ultimately show ?thesis using s' B reconciled_prefers [OF ids(2)] preferred_swap [OF ids(1)] by auto
  qed
qed

text \<open>Events of a settled pair: heartbeats go to and fro and are handled in time.\<close>

fun undisturbed :: "(side \<Rightarrow> ha_setup) \<Rightarrow> ha_event \<Rightarrow> bool" where
  "undisturbed su (Fetch x) = True"
| "undisturbed su (Deliver x sh t u) = prompt su x sh t u"
| "undisturbed su _ = False"

definition settled :: "ha_pair \<Rightarrow> bool" where
  "settled s \<longleftrightarrow> active (pn_runtime (s NodeA)) \<noteq> active (pn_runtime (s NodeB)) \<and>
     (\<forall>x hb. pn_reply (s x) = Some hb \<longrightarrow> hb = runtime_heartbeat (pn_runtime (s (other x))))"

lemma settled_step:
  assumes "settled s" and "undisturbed su e" and "pair_step su e s = Some s'"
  shows "settled s' \<and> (\<forall>x. pn_runtime (s' x) = pn_runtime (s x))"
proof (cases e)
  case (Fetch x)
  with assms show ?thesis by (cases x) (auto simp: settled_def all_sides [of _ NodeA] split: if_splits)
next
  case (Deliver x sh t u)
  then obtain hb where hb: "pn_reply (s x) = Some hb" "pn_monitoring (s x)"
    and s': "s' = s(x := pair_tick (su x) sh (PeerHeartbeat hb) t u (s x))"
    using assms(3) by (auto split: if_splits)
  have "hb = runtime_heartbeat (pn_runtime (s (other x)))"
    and "active (pn_runtime (s x)) \<noteq> active (pn_runtime (s (other x)))"
    using assms(1) hb(1) unfolding settled_def by (blast, cases x) auto
  then have same: "reconciled hb (pn_runtime (s x)) = pn_runtime (s x)"
    by (simp add: reconciled_settled)
  have "prompt su x sh t u" using assms(2) Deliver by simp
  note tick = pair_tick_prompt [OF this hb(2), of hb]
  have rt: "pn_runtime (s' y) = pn_runtime (s y)" for y
    using tick(1) same s' by simp
  have "pn_reply (s' y) = Some hb' \<Longrightarrow> pn_reply (s y) = Some hb'" for y hb'
    using tick(3) s' by (cases "y = x") auto
  with assms(1) show ?thesis unfolding settled_def rt by blast
qed (use assms in auto)

lemma settled_run:
  "settled s \<Longrightarrow> list_all (undisturbed su) es \<Longrightarrow> pair_run su es s = Some s' \<Longrightarrow>
     settled s' \<and> (\<forall>x. pn_runtime (s' x) = pn_runtime (s x))"
proof (induction es arbitrary: s)
  case (Cons e es)
  then obtain s1 where "pair_step su e s = Some s1" "pair_run su es s1 = Some s'"
    by (auto split: Option.bind_splits)
  with Cons.IH [of s1] Cons.prems settled_step [of s su e s1] show ?case by auto
qed simp

lemma ready_settled:
  "ready s \<Longrightarrow> active (pn_runtime (s NodeA)) \<noteq> active (pn_runtime (s NodeB)) \<Longrightarrow> settled s"
  by (simp add: ready_def settled_def)

lemma ha_submit_standby: "\<not> active r \<Longrightarrow> ha_submit to_json clock outcome command r n = (Inl StandbyRefuses, n)"
  by (simp add: ha_submit_def)

lemma ha_submit_active:
  "active r \<Longrightarrow> snd (ha_submit to_json clock outcome command r n) = snd (standalone_submit to_json clock outcome command n)
     \<and> fst (ha_submit to_json clock outcome command r n) \<noteq> Inl StandbyRefuses"
  by (auto simp: ha_submit_def split_beta Let_def split: sum.splits)

subsection \<open>Reachable states\<close>

definition pair_down :: "(side \<Rightarrow> ha_setup) \<Rightarrow> ha_pair" where
  "pair_down su x = \<lparr>pn_up = False, pn_monitoring = False,
     pn_runtime = runtime_new (node_config.node_id (su_node (su x))) (as_initial_role (su_config (su x))),
     pn_monitor = monitor_new 0, pn_reply = None\<rparr>"

text \<open>
  After \<open>n\<close> events a node has its own identity and an epoch between 1 and \<open>n + 1\<close>; only a
  running process monitors or answers.
\<close>

definition epochs_bounded :: "(side \<Rightarrow> ha_setup) \<Rightarrow> nat \<Rightarrow> ha_pair \<Rightarrow> bool" where
  "epochs_bounded su n s \<longleftrightarrow> (\<forall>x. rt_node_id (pn_runtime (s x)) = node_config.node_id (su_node (su x))
     \<and> 1 \<le> unat (rt_epoch (pn_runtime (s x))) \<and> unat (rt_epoch (pn_runtime (s x))) \<le> Suc n)"

lemma promote_runtime:
  "snd (promote_active_standby sh node addon r) = r \<or>
   \<not> active r \<and> snd (promote_active_standby sh node addon r) = runtime_promote r"
  by (auto simp: promote_active_standby_def split: sum.splits)

lemma demote_runtime: "snd (demote_active_standby sh node addon r) \<in> {r, runtime_demote r}"
  by (auto simp: demote_active_standby_def split: sum.splits)

lemma reconcile_runtime:
  "snd (reconcile_active_standby sh node addon peer r) \<in> {r, runtime_demote r} \<or>
   \<not> active r \<and> snd (reconcile_active_standby sh node addon peer r) = runtime_promote r"
  using promote_runtime [of sh node addon r] demote_runtime [of sh node addon r]
  by (auto simp: reconcile_active_standby_def Let_def)

lemma failover_runtime:
  "snd (failover_check sh config node addon t seen r) = r \<or>
   \<not> active r \<and> snd (failover_check sh config node addon t seen r) = runtime_promote r"
  using promote_runtime [of sh node addon r] by (auto simp: failover_check_def)

lemma monitor_tick_runtime:
  fixes sh config node addon reply t u r m
  defines "r' \<equiv> fst (snd (monitor_tick sh config node addon reply t u (r, m)))"
  shows "rt_node_id r' = rt_node_id r \<and> rt_epoch r' \<in> {rt_epoch r, rt_epoch r + 1}"
proof -
  obtain r1 seen where r1: "r1 \<in> {r, runtime_demote r} \<or> \<not> active r \<and> r1 = runtime_promote r"
    and r': "r' = r1 \<or> r' = snd (failover_check sh config node addon u seen r1)"
  proof (cases reply)
    case (PeerHeartbeat hb)
    with reconcile_runtime [of sh node addon hb r] show ?thesis
      by (intro that [of "snd (reconcile_active_standby sh node addon hb r)" "Some t"])
        (auto simp: r'_def monitor_tick_def Let_def split_beta split: sum.splits)
  qed (auto intro!: that [of r "mon_last_seen m"] simp: r'_def monitor_tick_def Let_def split_beta split: sum.splits)
  with failover_runtime [of sh config node addon u seen r1] show ?thesis by auto
qed

lemma pair_tick_runtime:
  "rt_node_id (pn_runtime (pair_tick su sh reply t u p)) = rt_node_id (pn_runtime p)"
  "rt_epoch (pn_runtime (pair_tick su sh reply t u p)) \<in> {rt_epoch (pn_runtime p), rt_epoch (pn_runtime p) + 1}"
  using monitor_tick_runtime [of sh "su_config su" "su_node su" "su_addon su" reply t u "pn_runtime p" "pn_monitor p"]
  by (simp_all add: pair_tick_def Let_def split_beta)

lemma unat_u64_Suc: "unat (e :: u64) < 2 ^ 64 - 1 \<Longrightarrow> unat (e + 1) = Suc (unat e)"
  by (simp add: unat_word_ariths)

lemma epochs_bounded_tick:
  assumes "epochs_bounded su n s" and "n < 2 ^ 64 - 2"
  shows "epochs_bounded su (Suc n) (s(x := pair_tick (su x) sh reply t u (s x)))"
proof -
  let ?e = "rt_epoch (pn_runtime (s x))" and ?p = "pair_tick (su x) sh reply t u (s x)"
  have e: "1 \<le> unat ?e" "unat ?e \<le> Suc n" using assms(1) by (auto simp: epochs_bounded_def)
  then have "unat (?e + 1) = Suc (unat ?e)" using assms(2) by (intro unat_u64_Suc) simp
  with e have "1 \<le> unat (rt_epoch (pn_runtime ?p)) \<and> unat (rt_epoch (pn_runtime ?p)) \<le> Suc (Suc n)"
    using pair_tick_runtime(2) [of "su x" sh reply t u "s x"] by auto
  with assms(1) show ?thesis by (auto simp: epochs_bounded_def pair_tick_runtime(1) le_SucI)
qed

lemma epochs_bounded_step:
  assumes "epochs_bounded su n s" and "n < 2 ^ 64 - 2" and "pair_step su e s = Some s'"
  shows "epochs_bounded su (Suc n) s'"
proof (cases e)
  case (Fetch x)
  with assms show ?thesis by (auto simp: epochs_bounded_def le_SucI split: if_splits)
next
  case (Deliver x sh t u)
  with assms epochs_bounded_tick [OF assms(1,2)] show ?thesis by (auto split: if_splits)
next
  case (NoAnswer x sh t u)
  with assms epochs_bounded_tick [OF assms(1,2)] show ?thesis by (auto split: if_splits)
next
  case (Crash x)
  with assms show ?thesis by (auto simp: epochs_bounded_def le_SucI)
next
  case (Restart x sh ok now)
  with assms show ?thesis by (auto simp: epochs_bounded_def runtime_new_def Let_def le_SucI split: if_splits)
qed

lemma epochs_bounded_run:
  "epochs_bounded su n s \<Longrightarrow> n + length es < 2 ^ 64 - 1 \<Longrightarrow> pair_run su es s = Some s' \<Longrightarrow>
     epochs_bounded su (n + length es) s'"
proof (induction es arbitrary: n s)
  case (Cons e es)
  then obtain s1 where s1: "pair_step su e s = Some s1" "pair_run su es s1 = Some s'"
    by (auto split: Option.bind_splits)
  have "epochs_bounded su (Suc n) s1" using Cons.prems(1,2) s1(1) by (intro epochs_bounded_step) simp_all
  with Cons.IH [of "Suc n" s1] Cons.prems(2) s1(2) show ?case by simp
qed simp

lemma epochs_bounded_down: "epochs_bounded su 0 (pair_down su)"
  by (simp add: epochs_bounded_def pair_down_def runtime_new_def)

lemma pair_run_append: "pair_run su (es @ fs) s = Option.bind (pair_run su es s) (pair_run su fs)"
  by (induction es arbitrary: s) (simp_all split: Option.bind_splits)

lemma failover_tick:
  assumes "hooks_succeed sh (su_addon su)" and "\<not> active (pn_runtime p)" and "mon_last_seen (pn_monitor p) = Some seen"
    and "duration_since u seen \<ge> from_millis (unat (as_failover_timeout_ms (su_config su)))"
  shows "pn_runtime (pair_tick su sh FetchTimedOut t u p) = runtime_promote (pn_runtime p)"
    "pn_monitoring (pair_tick su sh FetchTimedOut t u p)"
    "pn_reply (pair_tick su sh FetchTimedOut t u p) = None"
    "pn_up (pair_tick su sh FetchTimedOut t u p) = pn_up p"
  using assms by (simp_all add: pair_tick_def monitor_tick_def failover_check_def promote_active_standby_def
      hooks_succeed_def Let_def)

lemma takeover_prefix:
  fixes su x s
  defines "c \<equiv> su_config (su (other x))" and "n \<equiv> su_node (su (other x))"
  assumes "ready s" and "\<not> active (pn_runtime (s x))"
    and "hooks_succeed sh (su_addon (su x))" and "mon_last_seen (pn_monitor (s x)) = Some seen"
    and "duration_since u seen \<ge> from_millis (unat (as_failover_timeout_ms (su_config (su x))))"
    and "active_standby_start sh2 c n (su_addon (su (other x))) ok
      (runtime_new (node_config.node_id n) (as_initial_role c)) = Inr True"
    and "as_peer_heartbeat_addr c \<noteq> None"
  shows "\<exists>s1. pair_run su [Crash (other x), NoAnswer x sh t u, Restart (other x) sh2 ok now] s = Some s1 \<and> ready s1
    \<and> pn_runtime (s1 x) = runtime_promote (pn_runtime (s x))
    \<and> pn_runtime (s1 (other x)) = runtime_new (node_config.node_id n) (as_initial_role c)"
  using assms(3,8,9) failover_tick [OF assms(5,4,6,7), of t]
  unfolding ready_def all_sides [where x = x] c_def n_def by (simp add: Let_def)

section \<open>Lemmas: hooks of the leader monitor\<close>

fun alternating :: "bool \<Rightarrow> hook_call list \<Rightarrow> bool" where
  "alternating act [] = True"
| "alternating act (BecomeLeader c # calls) \<longleftrightarrow> \<not> act \<and> alternating True calls"
| "alternating act (StepDown c # calls) \<longleftrightarrow> act \<and> alternating False calls"

definition believes_active :: "ha_monitor_state \<Rightarrow> bool" where
  "believes_active st \<longleftrightarrow> ms_initialized st \<and>
     (case ms_previous_role st of None \<Rightarrow> False | Some r \<Rightarrow> is_active_role r)"

definition monitor_consistent :: "ha_monitor_state \<Rightarrow> bool" where
  "monitor_consistent st \<longleftrightarrow> (ms_initialized st \<longleftrightarrow> ms_previous_role st \<noteq> None)"

definition due_calls :: "node_config \<Rightarrow> cluster_role \<Rightarrow> ha_monitor_state \<Rightarrow> hook_call list" where
  "due_calls node role st =
     (if believes_active st = is_active_role role then []
      else if is_active_role role then [BecomeLeader (context_from_node node role)]
      else [StepDown (context_from_node node role)])"

fun run_calls :: "shell \<Rightarrow> ha_addon \<Rightarrow> hook_call list \<Rightarrow> hook_error + unit" where
  "run_calls sh addon [] = Inr ()"
| "run_calls sh addon (BecomeLeader ctx # _) = addon_on_become_leader sh addon ctx"
| "run_calls sh addon (StepDown ctx # _) = addon_on_step_down sh addon ctx"

lemma observe_eq:
  assumes "monitor_consistent st"
  shows "observe_ha_state sh node addon role leader st =
    (case run_calls sh addon (due_calls node role st) of
       Inl e \<Rightarrow> (Inl e, due_calls node role st, st)
     | Inr _ \<Rightarrow> (Inr (), due_calls node role st,
         st\<lparr>ms_initialized := True, ms_previous_role := Some role, ms_previous_leader := leader\<rparr>))"
proof (cases "ms_previous_role st")
  case None
  with assms show ?thesis
    by (cases "is_active_role role")
      (simp_all add: observe_ha_state_def Let_def believes_active_def due_calls_def monitor_consistent_def split: sum.split)
next
  case (Some r)
  with assms show ?thesis
    by (cases "is_active_role r"; cases "is_active_role role")
      (simp_all add: observe_ha_state_def Let_def believes_active_def due_calls_def monitor_consistent_def split: sum.split)
qed

lemma observe_calls:
  assumes "monitor_consistent st" and "observe_ha_state sh node addon role leader st = (res, calls, st')"
  shows "monitor_consistent st'"
    and "\<not> isl res \<Longrightarrow> believes_active st' = is_active_role role"
    and "calls = due_calls node role st"
  using assms
  by (cases "run_calls sh addon (due_calls node role st)";
      auto simp: observe_eq [OF assms(1)] monitor_consistent_def believes_active_def)+

lemma leader_monitor_alternates:
  "monitor_consistent st \<Longrightarrow> leader_monitor node addon obs st = (res, calls, st') \<Longrightarrow>
     alternating (believes_active st) calls \<and>
     (\<not> isl res \<longrightarrow> obs \<noteq> [] \<longrightarrow> believes_active st' = is_active_role (fst (snd (last obs))))"
proof (induction obs arbitrary: st calls)
  case (Cons ob obs)
  obtain sh role leader where ob: "ob = (sh, role, leader)" by (cases ob)
  obtain r1 c1 st1 where o: "observe_ha_state sh node addon role leader st = (r1, c1, st1)" by (metis prod_cases3)
  note f = observe_calls [OF Cons.prems(1) o]
  show ?case
  proof (cases "isl r1")
    case True
    with Cons.prems(2) ob o f(3) show ?thesis by (auto simp: due_calls_def split: sum.splits)
  next
    case False
    obtain c2 where r2: "leader_monitor node addon obs st1 = (res, c2, st')" "calls = c1 @ c2"
      using Cons.prems(2) ob o False by (auto split: sum.splits prod.splits)
    note IH = Cons.IH [OF f(1) r2(1)]
    have "obs = [] \<Longrightarrow> st' = st1" using r2(1) by simp
    with IH f(2,3) False ob r2(2) show ?thesis by (auto simp: due_calls_def)
  qed
qed simp

lemma monitor_state_default_simps [simp]:
  "monitor_consistent monitor_state_default" "\<not> believes_active monitor_state_default"
  by (simp_all add: monitor_consistent_def believes_active_def monitor_state_default_def)

section \<open>Properties\<close>

text \<open>
  C32: one exchange of heartbeats settles the roles.  For two running nodes with distinct
  identities in any roles and epochs, let each fetch and handle one heartbeat of the other,
  the four events interleaved in any way, with hooks that succeed and answers handled within
  the failover timeout.  Then exactly one node is active: the one that already was, if it was
  alone; of two active ones the one with the larger epoch, then the smaller identity; of two
  standby ones the one with the smaller identity.  That node accepts writes as the standalone
  replicator does, the other refuses them and changes nothing, and as long as heartbeats are
  exchanged in time, in any order, no role or epoch changes again.
\<close>

theorem heartbeat_exchange_settles:
  fixes su s
  defines "a \<equiv> pn_runtime (s NodeA)" and "b \<equiv> pn_runtime (s NodeB)"
  defines "w \<equiv> if preferred a b then NodeA else NodeB"
  assumes "ready s" and "rt_node_id a \<noteq> rt_node_id b"
    and "prompt su NodeA sh t u" and "prompt su NodeB sh' t' u'"
    and "es \<in> shuffles (exchange NodeA sh t u) (exchange NodeB sh' t' u')"
  shows "\<exists>s'. pair_run su es s = Some s'
    \<and> (\<forall>to_json clock outcome command n.
        fst (ha_submit to_json clock outcome command (pn_runtime (s' w)) n) \<noteq> Inl StandbyRefuses
        \<and> snd (ha_submit to_json clock outcome command (pn_runtime (s' w)) n)
            = snd (standalone_submit to_json clock outcome command n)
        \<and> ha_submit to_json clock outcome command (pn_runtime (s' (other w))) n = (Inl StandbyRefuses, n))
    \<and> (\<forall>later s''. list_all (undisturbed su) later \<longrightarrow> pair_run su later s' = Some s'' \<longrightarrow>
        (\<forall>x. pn_runtime (s'' x) = pn_runtime (s' x)))"
proof -
  obtain s' where s': "pair_run su es s = Some s'" "ready s'"
    and A: "active (pn_runtime (s' NodeA)) \<longleftrightarrow> preferred a b" and B: "active (pn_runtime (s' NodeB)) \<longleftrightarrow> \<not> preferred a b"
    using round_settles [OF assms(4) _ assms(6-8)] assms(5) unfolding a_def b_def by blast
  have w: "active (pn_runtime (s' w))" "\<not> active (pn_runtime (s' (other w)))"
    using A B by (auto simp: w_def)
  have "settled s'" using ready_settled [OF s'(2)] A B by simp
  with w s'(1) settled_run [of s' su] show ?thesis
    by (auto simp: ha_submit_standby ha_submit_active)
qed

definition noop_setup :: "u64 \<Rightarrow> ha_initial_role \<Rightarrow> ha_setup" where
  "noop_setup n initial = \<lparr>su_config = \<lparr>as_enabled = True, as_initial_role = initial,
       as_heartbeat_bind = ''127.0.0.1:7900'', as_peer_heartbeat_addr = Some ''127.0.0.1:7901'',
       as_heartbeat_interval_ms = 1000, as_failover_timeout_ms = 5000\<rparr>,
     su_node = \<lparr>node_config.node_id = n\<rparr>, su_addon = NoopHaAddon\<rparr>"

definition both_active :: ha_pair where
  "both_active x = \<lparr>pn_up = True, pn_monitoring = True,
     pn_runtime = \<lparr>rt_node_id = (case x of NodeA \<Rightarrow> 1 | NodeB \<Rightarrow> 2), rt_role = Leader,
                   rt_epoch = (case x of NodeA \<Rightarrow> 1 | NodeB \<Rightarrow> 2)\<rparr>,
     pn_monitor = monitor_new 0, pn_reply = None\<rparr>"

lemma noop_prompt: "prompt (\<lambda>_. noop_setup n initial) x sh t t"
  by (simp add: prompt_def hooks_succeed_def noop_setup_def duration_since_def from_millis_def)

theorem heartbeat_exchange_settles_witness:
  "\<exists>s'. pair_run (\<lambda>_. noop_setup 1 InitialActive)
      [Fetch NodeA, Fetch NodeB, Deliver NodeA (\<lambda>_ _ _. SpawnFailed) 0 0, Deliver NodeB (\<lambda>_ _ _. SpawnFailed) 0 0] both_active
      = Some s'
    \<and> ha_submit (\<lambda>_. []) (\<lambda>_. 0) TaskOk (UnregisterContact ''a'') (pn_runtime (s' NodeA)) (example_node False)
        = (Inl StandbyRefuses, example_node False)"
proof -
  let ?sh = "\<lambda>_ _ _. SpawnFailed" and ?su = "\<lambda>_. noop_setup 1 InitialActive"
  let ?es = "[Fetch NodeA, Fetch NodeB, Deliver NodeA ?sh 0 0, Deliver NodeB ?sh 0 0]"
  have 1: "ready both_active" "rt_node_id (pn_runtime (both_active NodeA)) \<noteq> rt_node_id (pn_runtime (both_active NodeB))"
    by (simp_all add: ready_def both_active_def)
  have 2: "?es \<in> shuffles (exchange NodeA ?sh 0 0) (exchange NodeB ?sh 0 0)" by (simp add: exchange_def)
  have 3: "\<not> preferred (pn_runtime (both_active NodeA)) (pn_runtime (both_active NodeB))"
    by (simp add: preferred_def both_active_def)
  from heartbeat_exchange_settles [OF 1 noop_prompt noop_prompt 2, of 1 InitialActive] 3 show ?thesis
    by (auto simp del: pair_run.simps pair_step.simps)
qed


definition example_pair_setup :: "side \<Rightarrow> ha_setup" where
  "example_pair_setup x =
     (case x of NodeA \<Rightarrow> noop_setup 1 InitialActive | NodeB \<Rightarrow> noop_setup 2 InitialStandby)"

definition started :: "side \<Rightarrow> ha_peer" where
  "started x = \<lparr>pn_up = True, pn_monitoring = True,
     pn_runtime = (case x of NodeA \<Rightarrow> runtime_new 1 InitialActive | NodeB \<Rightarrow> runtime_new 2 InitialStandby),
     pn_monitor = monitor_new 0, pn_reply = None\<rparr>"

lemma noop_start: "active_standby_start sh (su_config (noop_setup n i)) node NoopHaAddon True r = Inr True"
proof -
  have "parse_sock ''127.0.0.1:7900'' = Some (SockV4 2130706433 7900)" by (simp add: net_eval cong: net_cong)
  then show ?thesis by (simp add: active_standby_start_def noop_setup_def)
qed

lemma noop_setup_simps [simp]:
  "su_addon (noop_setup n i) = NoopHaAddon" "node_config.node_id (su_node (noop_setup n i)) = n"
  "as_initial_role (su_config (noop_setup n i)) = i" "as_failover_timeout_ms (su_config (noop_setup n i)) = 5000"
  "as_peer_heartbeat_addr (su_config (noop_setup n i)) = Some ''127.0.0.1:7901''"
  by (simp_all add: noop_setup_def)

lemma example_started:
  "pair_run example_pair_setup [Restart NodeA sh True 0, Restart NodeB sh True 0] (pair_down example_pair_setup)
     = Some started"
  by (simp add: example_pair_setup_def pair_down_def started_def noop_start Let_def fun_eq_iff all_sides [of _ NodeA])


text \<open>
  C34: a step-down hook slower than the failover timeout undoes the demotion.  When an active
  node learns of an active peer that should win, its hooks succeed, and handling the answer
  takes at least the failover timeout, the same tick demotes the node and promotes it again,
  with the next epoch: it stays active, and when the epochs were equal it is now the peer
  that has to yield at its next heartbeat.  The configuration check does not relate the hook
  timeout to the failover timeout.
\<close>

theorem slow_step_down_hook_undoes_demotion:
  assumes "hooks_succeed sh addon" and "active r" and "accepts_writes (hb_role peer)"
    and "peer_should_win (runtime_heartbeat r) peer"
    and "duration_since t_check t_reply \<ge> from_millis (unat (as_failover_timeout_ms config))"
  shows "\<exists>r' m'. monitor_tick sh config node addon (PeerHeartbeat peer) t_reply t_check (r, m) = (Inr (), r', m')
    \<and> active r' \<and> rt_epoch r' = rt_epoch r + 1
    \<and> (hb_epoch peer = rt_epoch r \<longrightarrow> hb_epoch peer < rt_epoch r + 1 \<longrightarrow> peer_should_win peer (runtime_heartbeat r'))"
  using assms
  by (auto simp: monitor_tick_def reconcile_active_standby_def demote_active_standby_def failover_check_def
      promote_active_standby_def hooks_succeed_def Let_def runtime_promote_def runtime_demote_def peer_should_win_def)

theorem slow_step_down_hook_undoes_demotion_witness:
  "\<exists>r' m'. monitor_tick (\<lambda>_ _ _. HookExited True) (su_config (noop_setup 2 InitialActive)) \<lparr>node_config.node_id = 2\<rparr>
      (CommandHaAddon None (Some ''ip addr del'') (from_secs 10))
      (PeerHeartbeat \<lparr>hb_node_id = 1, hb_role = Leader, hb_epoch = 1\<rparr>) 0 (from_secs 6)
      (runtime_new 2 InitialActive, monitor_new 0) = (Inr (), r', m') \<and> active r' \<and> rt_epoch r' = 2"
  using slow_step_down_hook_undoes_demotion
    [of "\<lambda>_ _ _. HookExited True" "CommandHaAddon None (Some ''ip addr del'') (from_secs 10)" "runtime_new 2 InitialActive"
      "\<lparr>hb_node_id = 1, hb_role = Leader, hb_epoch = 1\<rparr>" "su_config (noop_setup 2 InitialActive)" "from_secs 6" 0
      "\<lparr>node_config.node_id = 2\<rparr>" "monitor_new 0"]
  by (auto simp: hooks_succeed_def run_hook_def runtime_new_def peer_should_win_def duration_since_def from_secs_def
      from_millis_def)

text \<open>
  The leader monitor calls the hooks in turn.  Whatever roles it observes and whichever
  hook fails, the required hooks are called alternately, \<open>on_become_leader\<close> first; as long as
  none has failed, the last one called is \<open>on_become_leader\<close> exactly when the last role
  observed is an active one.
\<close>

lemma leader_monitor_hooks_alternate:
  assumes "leader_monitor node addon obs monitor_state_default = (res, calls, st)"
  shows "alternating False calls
    \<and> (res = Inr () \<longrightarrow> obs \<noteq> [] \<longrightarrow> believes_active st = is_active_role (fst (snd (last obs))))"
  using leader_monitor_alternates [OF _ assms] by auto

end
