(* ===== verification/F64.thy ===== *)
theory F64
  imports Complex_Main Rust_Std "HOL-Library.Log_Nat"
begin

text \<open>
  Binary floating point as the rate limiters use it: a finite \<open>f64\<close> is the rational number
  it denotes and every operation rounds its exact result to the nearest one, ties to even
  (IEEE 754 binary64).  The values here stay far below the overflow threshold, so infinities
  and NaN do not occur.  Shown here: the rounding error of \<open>x \<ge> 0\<close> is at most \<open>(x * 2^-52 + 2^-1074) / 2\<close>,
  and rounding keeps the sign and what is at least one.
\<close>

section \<open>Rounding\<close>

type_synonym f64 = rat

definition binade :: "rat \<Rightarrow> int" where
  "binade x = (let (p, q) = quotient_of x; e = bitlen p - bitlen q in if 2 powi e \<le> x then e else e - 1)"

text \<open>The smallest positive value and the distance of neighbouring values at \<open>x\<close>.\<close>

definition f64_tiny :: rat where
  "f64_tiny = 1 / 2 ^ 1074"

definition f64_eps :: rat where
  "f64_eps = 1 / 2 ^ 52"

definition ulp :: "rat \<Rightarrow> rat" where
  "ulp x = (if binade x - 52 \<ge> - 1074 then 2 powi (binade x - 52) else f64_tiny)"

definition round_half_even :: "rat \<Rightarrow> int" where
  "round_half_even x =
     (let f = \<lfloor>x\<rfloor>; r = x - of_int f in if r < 1 / 2 \<or> r = 1 / 2 \<and> even f then f else f + 1)"

definition round_f64 :: "rat \<Rightarrow> f64" where
  "round_f64 x =
     (if x = 0 then 0
      else if x > 0 then of_int (round_half_even (x / ulp x)) * ulp x
      else - (of_int (round_half_even (- x / ulp (- x))) * ulp (- x)))"

definition f64_of_nat :: "nat \<Rightarrow> f64" where
  "f64_of_nat n = round_f64 (of_nat n)"

definition f64_add :: "f64 \<Rightarrow> f64 \<Rightarrow> f64" where
  "f64_add x y = round_f64 (x + y)"

definition f64_sub :: "f64 \<Rightarrow> f64 \<Rightarrow> f64" where
  "f64_sub x y = round_f64 (x - y)"

definition f64_mul :: "f64 \<Rightarrow> f64 \<Rightarrow> f64" where
  "f64_mul x y = round_f64 (x * y)"

definition f64_div :: "f64 \<Rightarrow> f64 \<Rightarrow> f64" where
  "f64_div x y = round_f64 (x / y)"

text \<open>\<open>Duration::as_secs_f64\<close>.\<close>

definition as_secs_f64 :: "duration \<Rightarrow> f64" where
  "as_secs_f64 d = f64_add (f64_of_nat (d div 1000000000)) (f64_div (f64_of_nat (d mod 1000000000)) 1000000000)"

section \<open>Facts about rounding\<close>

lemma binade_bounds:
  assumes "x > 0"
  shows "2 powi binade x \<le> x" and "x < 2 powi (binade x + 1)"
proof -
  obtain p q where pq: "quotient_of x = (p, q)" by (cases "quotient_of x")
  then have q: "q > 0" and x: "x = of_int p / of_int q"
    using quotient_of_denom_pos quotient_of_div by auto
  have p: "p > 0" using assms x q by (simp add: zero_less_divide_iff)
  have bp: "2 ^ nat (bitlen p - 1) \<le> p" "p < 2 ^ nat (bitlen p)" and bq: "2 ^ nat (bitlen q - 1) \<le> q" "q < 2 ^ nat (bitlen q)"
    using bitlen_bounds [OF p] bitlen_bounds [OF q] by auto
  have pos: "bitlen p \<ge> 1" "bitlen q \<ge> 1" using p q bitlen_eq_zero_iff [of p] bitlen_eq_zero_iff [of q] bitlen_nonneg [of p] bitlen_nonneg [of q] by linarith+
  define a b where "a = bitlen p" and "b = bitlen q"
  have "of_int (2 ^ nat (a - 1)) \<le> (of_int p :: rat)" "(of_int p :: rat) < of_int (2 ^ nat a)"
      "of_int (2 ^ nat (b - 1)) \<le> (of_int q :: rat)" "(of_int q :: rat) < of_int (2 ^ nat b)"
    unfolding of_int_le_iff of_int_less_iff using bp bq by (simp_all add: a_def b_def)
  then have P: "2 powi (a - 1) \<le> (of_int p :: rat)" "(of_int p :: rat) < 2 powi a"
    and Q: "2 powi (b - 1) \<le> (of_int q :: rat)" "(of_int q :: rat) < 2 powi b"
    using pos by (simp_all add: power_int_def a_def b_def)
  have "x < 2 powi a / 2 powi (b - 1)"
    unfolding x using P Q q p by (intro frac_less) auto
  also have "\<dots> = 2 powi (a - b + 1)" by (simp add: power_int_diff [symmetric] algebra_simps)
  finally have up: "x < 2 powi (a - b + 1)" .
  have "2 powi (a - 1) / 2 powi b \<le> x"
    unfolding x using P Q q p by (intro frac_le) auto
  then have lo: "2 powi (a - b - 1) \<le> x" by (simp add: power_int_diff [symmetric] algebra_simps)
  show "2 powi binade x \<le> x" "x < 2 powi (binade x + 1)"
    using up lo by (auto simp: binade_def pq Let_def a_def b_def)
qed

lemma f64_tiny_pos [simp]: "0 < f64_tiny" "0 \<le> f64_tiny"
  unfolding f64_tiny_def by (intro divide_pos_pos divide_nonneg_nonneg zero_less_power zero_le_power; simp)+

lemma ulp_pos [simp]: "0 < ulp x" "ulp x \<noteq> 0"
  using f64_tiny_pos(1) by (simp_all add: ulp_def less_imp_neq [symmetric])

lemma powi_sub_52: "(2 :: rat) powi (e - 52) = 2 powi e / 2 ^ 52"
  by (simp add: power_int_diff)

lemma round_half_even_err: "\<bar>of_int (round_half_even x) - x\<bar> \<le> 1 / 2"
proof -
  have "of_int \<lfloor>x\<rfloor> \<le> x" "x < of_int \<lfloor>x\<rfloor> + 1" by linarith+
  then show ?thesis unfolding round_half_even_def Let_def abs_le_iff by (simp; linarith)
qed

lemma round_half_even_ge: "of_int k \<le> x \<Longrightarrow> k \<le> round_half_even x"
  using le_floor_iff [of k x] by (auto simp: round_half_even_def Let_def)

lemma f64_eps_pos [simp]: "0 < f64_eps" "0 \<le> f64_eps"
  by (simp_all add: f64_eps_def)

lemma ulp_le:
  assumes "x > 0"
  shows "ulp x \<le> x * f64_eps + f64_tiny"
proof (cases "binade x - 52 \<ge> - 1074")
  case True
  then have "ulp x = 2 powi binade x * f64_eps" by (simp add: ulp_def powi_sub_52 f64_eps_def)
  also have "\<dots> \<le> x * f64_eps" using binade_bounds(1) [OF assms] by (intro mult_right_mono) auto
  finally show ?thesis using f64_tiny_pos(2) by linarith
next
  case False
  then have "ulp x = f64_tiny" by (simp add: ulp_def)
  moreover have "0 \<le> x * f64_eps" using assms by simp
  ultimately show ?thesis by linarith
qed

lemma round_f64_err:
  assumes "x \<ge> 0"
  shows "\<bar>round_f64 x - x\<bar> \<le> (x * f64_eps + f64_tiny) / 2"
proof (cases "x = 0")
  case False
  then have x: "x > 0" using assms by simp
  have "round_f64 x - x = (of_int (round_half_even (x / ulp x)) - x / ulp x) * ulp x"
    using x by (simp add: round_f64_def algebra_simps)
  then have "\<bar>round_f64 x - x\<bar> = \<bar>of_int (round_half_even (x / ulp x)) - x / ulp x\<bar> * ulp x"
    by (simp add: abs_mult abs_of_pos)
  also have "\<dots> \<le> 1 / 2 * ulp x" using round_half_even_err by (intro mult_right_mono) (auto intro: less_imp_le)
  also have "\<dots> \<le> (x * f64_eps + f64_tiny) / 2" using ulp_le [OF x] by simp
  finally show ?thesis .
qed (simp add: round_f64_def)

lemma round_f64_nonneg: "x \<ge> 0 \<Longrightarrow> round_f64 x \<ge> 0"
  using round_half_even_ge [of 0 "x / ulp x"] by (auto simp: round_f64_def less_imp_le)

lemma round_f64_ge_one:
  assumes "x \<ge> 1"
  shows "round_f64 x \<ge> 1"
proof -
  have x: "x > 0" using assms by simp
  have e: "binade x \<ge> 0"
  proof (rule ccontr)
    assume "\<not> binade x \<ge> 0"
    then have "(2 :: rat) powi (binade x + 1) \<le> 2 powi 0" by (intro power_int_increasing) auto
    then show False using binade_bounds(2) [OF x] assms by simp
  qed
  then have u: "ulp x = 2 powi (binade x - 52)" by (simp add: ulp_def)
  have "(2 ^ 52 :: rat) = 2 powi binade x / ulp x" by (simp add: u powi_sub_52)
  also have "\<dots> \<le> x / ulp x" using binade_bounds(1) [OF x] by (intro divide_right_mono) (auto intro: less_imp_le)
  finally have "of_int (2 ^ 52) \<le> x / ulp x" by simp
  then have "2 ^ 52 \<le> round_half_even (x / ulp x)" by (rule round_half_even_ge)
  then have "of_int (2 ^ 52) * ulp x \<le> round_f64 x"
    using x unfolding round_f64_def by (simp only: of_int_le_iff if_False if_True less_irrefl) (auto intro!: mult_right_mono less_imp_le)
  moreover have "of_int (2 ^ 52) * ulp x = 2 powi binade x" by (simp add: u powi_sub_52)
  moreover have "(2 :: rat) powi 0 \<le> 2 powi binade x" using e by (intro power_int_increasing) auto
  ultimately show ?thesis by simp
qed

lemma round_f64_0 [simp]: "round_f64 0 = 0"
  by (simp add: round_f64_def)

end
