(* ===== verification/Rate_Limit.thy ===== *)
theory Rate_Limit
  imports F64 Sharded
begin

text \<open>
  The token buckets of \<open>proxy/server.rs\<close> (\<open>TokenBucket\<close>, \<open>allow_bucket\<close>, the pruning of idle
  buckets) over the sharded map, with the arithmetic of \<open>f64\<close>.  The number of admissions is
  bounded by potential: the tokens a bucket holds or would be refilled with by now.
\<close>

section \<open>Buckets\<close>

record token_bucket =
  tb_tokens :: f64
  tb_updated_at :: instant

definition token_bucket_new :: "f64 \<Rightarrow> f64 \<Rightarrow> instant \<Rightarrow> token_bucket" where
  "token_bucket_new rate_per_second burst now = \<lparr>tb_tokens = burst, tb_updated_at = now\<rparr>"

definition token_bucket_allow :: "instant \<Rightarrow> f64 \<Rightarrow> f64 \<Rightarrow> token_bucket \<Rightarrow> bool \<times> token_bucket" where
  "token_bucket_allow now rate_per_second burst b =
     (let elapsed = as_secs_f64 (duration_since now (tb_updated_at b));
          tokens = min (f64_add (tb_tokens b) (f64_mul elapsed rate_per_second)) burst
      in if tokens \<ge> 1 then (True, \<lparr>tb_tokens = f64_sub tokens 1, tb_updated_at = now\<rparr>)
         else (False, \<lparr>tb_tokens = tokens, tb_updated_at = now\<rparr>))"

type_synonym buckets = "(string, token_bucket) shards"

definition security_bucket_idle_ttl :: duration where
  "security_bucket_idle_ttl = from_secs 600"

text \<open>\<open>now\<close> is read before the lock of the shard is taken; the body runs under that lock.\<close>

definition allow_bucket ::
  "(string \<Rightarrow> nat) \<Rightarrow> instant \<Rightarrow> string \<Rightarrow> f64 \<Rightarrow> f64 \<Rightarrow> buckets \<Rightarrow> bool \<times> buckets" where
  "allow_bucket h now key rate_per_second burst s =
     (if rate_per_second \<le> 0 \<or> burst \<le> 0 then (True, s)
      else let b = (case sharded_get h s key of None \<Rightarrow> token_bucket_new rate_per_second burst now | Some b \<Rightarrow> b);
               (ok, b') = token_bucket_allow now rate_per_second burst b
           in (ok, sharded_insert h key b' s))"

definition prune_buckets :: "instant \<Rightarrow> buckets \<Rightarrow> buckets" where
  "prune_buckets now s =
     sharded_retain (\<lambda>_ b. duration_since now (tb_updated_at b) \<le> security_bucket_idle_ttl) s"

section \<open>What one call can hand out\<close>

definition slack :: "f64 \<Rightarrow> f64 \<Rightarrow> rat" where
  "slack rate burst = burst * f64_eps + f64_tiny * (3 * rate + 2)"

definition fast_rate :: "f64 \<Rightarrow> rat" where
  "fast_rate rate = rate * (1 + 3 * f64_eps)"

definition secs :: "duration \<Rightarrow> rat" where
  "secs d = of_nat d / 1000000000"

lemma round_f64_le: "0 \<le> x \<Longrightarrow> round_f64 x \<le> x * (1 + f64_eps / 2) + f64_tiny / 2"
  using abs_ge_self [of "round_f64 x - x"] round_f64_err [of x] by (simp add: field_simps)

lemma as_secs_f64_nonneg: "0 \<le> as_secs_f64 d"
  by (simp add: as_secs_f64_def f64_add_def f64_div_def f64_of_nat_def round_f64_nonneg)

lemma secs_split: "secs d = of_nat (d div 1000000000) + of_nat (d mod 1000000000) / 1000000000"
proof -
  have "(of_nat d :: rat) = of_nat (d div 1000000000 * 1000000000 + d mod 1000000000)" by simp
  then show ?thesis unfolding secs_def by (simp only: of_nat_add of_nat_mult) (simp add: field_simps)
qed

lemma as_secs_f64_le: "as_secs_f64 d \<le> secs d * (1 + f64_eps / 2) ^ 3 + 2 * f64_tiny"
proof -
  let ?u = "1 + f64_eps / 2 :: rat" and ?t = "f64_tiny / 2"
  let ?s = "of_nat (d div 1000000000) :: rat" and ?n = "of_nat (d mod 1000000000) :: rat"
  have u: "1 \<le> ?u" "?u \<le> 1 + 1 / 10" by (simp_all add: f64_eps_def)
  have a: "f64_of_nat (d div 1000000000) \<le> ?s * ?u + ?t" "f64_of_nat (d mod 1000000000) \<le> ?n * ?u + ?t"
    unfolding f64_of_nat_def by (rule round_f64_le; simp)+
  have n: "0 \<le> f64_of_nat (d div 1000000000)" "0 \<le> f64_of_nat (d mod 1000000000)"
    by (simp_all add: f64_of_nat_def round_f64_nonneg)
  have "f64_div (f64_of_nat (d mod 1000000000)) 1000000000 \<le> (f64_of_nat (d mod 1000000000) / 1000000000) * ?u + ?t"
    unfolding f64_div_def using n by (intro round_f64_le) simp
  also have "\<dots> \<le> ((?n * ?u + ?t) / 1000000000) * ?u + ?t"
    using a u by (intro add_right_mono mult_right_mono divide_right_mono) auto
  finally have b: "f64_div (f64_of_nat (d mod 1000000000)) 1000000000 \<le> ?n / 1000000000 * ?u ^ 2 + ?t * (1 + ?u / 1000000000)"
    by (simp add: field_simps power2_eq_square)
  have c: "0 \<le> f64_div (f64_of_nat (d mod 1000000000)) 1000000000"
    using n by (simp add: f64_div_def round_f64_nonneg)
  have "as_secs_f64 d \<le> (f64_of_nat (d div 1000000000) + f64_div (f64_of_nat (d mod 1000000000)) 1000000000) * ?u + ?t"
    unfolding as_secs_f64_def f64_add_def using n c by (intro round_f64_le) simp
  also have "\<dots> \<le> (?s * ?u + ?t + (?n / 1000000000 * ?u ^ 2 + ?t * (1 + ?u / 1000000000))) * ?u + ?t"
    using a b u by (intro add_right_mono mult_right_mono add_mono) auto
  also have "\<dots> \<le> (?s * ?u ^ 2 + ?n / 1000000000 * ?u ^ 2) * ?u + (?t * (2 + ?u / 1000000000)) * ?u + ?t"
  proof -
    have "?u * 1 \<le> ?u * ?u" using u by (intro mult_left_mono) auto
    then have "?s * ?u \<le> ?s * ?u ^ 2" by (intro mult_left_mono) (auto simp: power2_eq_square)
    then have "(?s * ?u + ?n / 1000000000 * ?u ^ 2) * ?u \<le> (?s * ?u ^ 2 + ?n / 1000000000 * ?u ^ 2) * ?u"
      using u by (intro mult_right_mono) auto
    then show ?thesis by (simp add: algebra_simps)
  qed
  also have "\<dots> = secs d * ?u ^ 3 + ?t * ((2 + ?u / 1000000000) * ?u + 1)"
    by (simp add: secs_split algebra_simps power2_eq_square power3_eq_cube)
  also have "\<dots> \<le> secs d * ?u ^ 3 + ?t * 4"
  proof -
    have "(2 + ?u / 1000000000) * ?u \<le> (2 + 1 / 10) * (1 + 1 / 10)" using u by (intro mult_mono) auto
    also have "\<dots> \<le> 3" by simp
    finally have "(2 + ?u / 1000000000) * ?u + 1 \<le> 4" by linarith
    then show ?thesis by (intro add_left_mono mult_left_mono) auto
  qed
  finally show ?thesis by simp
qed

lemma refill_le:
  assumes "0 \<le> rate"
  shows "f64_mul (as_secs_f64 d) rate \<le> fast_rate rate * secs d + f64_tiny * (3 * rate + 1)"
proof -
  let ?u = "1 + f64_eps / 2 :: rat"
  have u: "1 \<le> ?u" "?u \<le> 5 / 4" "0 \<le> f64_eps" "f64_eps \<le> 1 / 10" by (simp_all add: f64_eps_def)
  have sd: "0 \<le> secs d" by (simp add: secs_def)
  have "f64_mul (as_secs_f64 d) rate \<le> (as_secs_f64 d * rate) * ?u + f64_tiny / 2"
    unfolding f64_mul_def using assms by (intro round_f64_le) (simp add: as_secs_f64_nonneg)
  also have "\<dots> \<le> ((secs d * ?u ^ 3 + 2 * f64_tiny) * rate) * ?u + f64_tiny / 2"
    using as_secs_f64_le [of d] assms u by (intro add_right_mono mult_right_mono) auto
  also have "\<dots> = secs d * rate * ?u ^ 4 + f64_tiny * (2 * rate * ?u + 1 / 2)"
    by (simp add: algebra_simps power3_eq_cube power4_eq_xxxx)
  also have "\<dots> \<le> secs d * rate * (1 + 3 * f64_eps) + f64_tiny * (3 * rate + 1)"
  proof (rule add_mono; rule mult_left_mono)
    have sq: "f64_eps * f64_eps \<le> f64_eps / 10" using mult_right_mono [OF u(4) u(3)] by simp
    have "?u * ?u = 1 + f64_eps + f64_eps * f64_eps / 4" by (simp add: algebra_simps)
    then have "?u * ?u \<le> 1 + f64_eps * (5 / 4)" using sq u(3) by linarith
    moreover from this have "(?u * ?u) * (?u * ?u) \<le> (1 + f64_eps * (5 / 4)) * (1 + f64_eps * (5 / 4))"
      using u by (intro mult_mono) auto
    moreover have "(1 + f64_eps * (5 / 4)) * (1 + f64_eps * (5 / 4)) = 1 + 5 / 2 * f64_eps + 25 / 16 * (f64_eps * f64_eps)"
      by (simp add: algebra_simps)
    then have "(1 + f64_eps * (5 / 4)) * (1 + f64_eps * (5 / 4)) \<le> 1 + 3 * f64_eps"
      using sq u(3) by linarith
    ultimately show "?u ^ 4 \<le> 1 + 3 * f64_eps" unfolding power4_eq_xxxx mult.assoc by linarith
    have "2 * rate * ?u \<le> 2 * rate * (5 / 4)" using u assms by (intro mult_left_mono) auto
    then show "2 * rate * ?u + 1 / 2 \<le> 3 * rate + 1" using assms by linarith
  qed (use assms sd in auto)
  finally show ?thesis by (simp add: fast_rate_def algebra_simps)
qed

lemma round_le_below:
  assumes "0 \<le> x" and "x \<le> burst"
  shows "round_f64 x \<le> x + (burst * f64_eps + f64_tiny) / 2"
proof -
  have "(x * f64_eps + f64_tiny) / 2 \<le> (burst * f64_eps + f64_tiny) / 2"
    using assms(2) by (intro divide_right_mono add_right_mono mult_right_mono) auto
  moreover have "round_f64 x \<le> x + (x * f64_eps + f64_tiny) / 2"
    using abs_ge_self [of "round_f64 x - x"] round_f64_err [OF assms(1)] by linarith
  ultimately show ?thesis by (rule order_trans [OF _ add_left_mono, rotated])
qed

lemma round_capped_le:
  assumes "0 \<le> x" and "0 \<le> burst"
  shows "min (round_f64 x) burst \<le> min x burst + (burst * f64_eps + f64_tiny) / 2"
proof (cases "x \<le> burst")
  case True
  with round_le_below [OF assms(1) True] show ?thesis by (simp add: min_le_iff_disj)
next
  case False
  then have "min x burst = burst" by simp
  moreover have "0 \<le> burst * f64_eps + f64_tiny" using assms(2) by simp
  ultimately show ?thesis by (simp add: min_le_iff_disj)
qed

text \<open>What a bucket could hand out at time \<open>now\<close> if refilling were exact at the fast rate.\<close>

definition level :: "f64 \<Rightarrow> f64 \<Rightarrow> instant \<Rightarrow> token_bucket option \<Rightarrow> rat" where
  "level rate burst now b = (case b of None \<Rightarrow> burst
     | Some b \<Rightarrow> min (tb_tokens b + fast_rate rate * secs (duration_since now (tb_updated_at b))) burst)"

lemma fast_rate_nonneg: "0 \<le> rate \<Longrightarrow> 0 \<le> fast_rate rate \<and> rate \<le> fast_rate rate"
  using mult_left_mono [of 1 "1 + 3 * f64_eps" rate] by (simp add: fast_rate_def)

lemma slack_nonneg: "0 \<le> rate \<Longrightarrow> 0 \<le> burst \<Longrightarrow> 0 \<le> slack rate burst"
  by (simp add: slack_def)

lemma level_le_burst: "0 \<le> burst \<Longrightarrow> level rate burst now b \<le> burst"
  by (simp add: level_def split: option.split)

lemma token_bucket_allow_level:
  assumes "0 < rate" and "0 < burst" and "0 \<le> tb_tokens b" and "token_bucket_allow now rate burst b = (ok, b')"
  shows "0 \<le> tb_tokens b'" and "tb_updated_at b' = now"
    and "of_bool ok + level rate burst now (Some b') \<le> level rate burst now (Some b) + slack rate burst"
proof -
  let ?e = "duration_since now (tb_updated_at b)"
  define refill where "refill = f64_mul (as_secs_f64 ?e) rate"
  define t where "t = min (round_f64 (tb_tokens b + refill)) burst"
  have r0: "0 \<le> refill" using assms(1) by (simp add: refill_def f64_mul_def round_f64_nonneg as_secs_f64_nonneg)
  have t0: "0 \<le> t" using assms(2,3) r0 by (simp add: t_def round_f64_nonneg)
  have b': "ok = (t \<ge> 1)" "b' = \<lparr>tb_tokens = (if t \<ge> 1 then round_f64 (t - 1) else t), tb_updated_at = now\<rparr>"
    using assms(4) by (auto simp: token_bucket_allow_def t_def refill_def f64_add_def f64_sub_def Let_def split: if_splits)
  show "0 \<le> tb_tokens b'" "tb_updated_at b' = now" using b' t0 by (simp_all add: round_f64_nonneg)
  define c d where "c = (burst * f64_eps + f64_tiny) / 2" and "d = f64_tiny * (3 * rate + 1)"
  have cd: "0 \<le> c" "0 \<le> d" "d + 2 * c = slack rate burst"
    using assms(1,2) by (simp_all add: c_def d_def slack_def algebra_simps)
  have "t \<le> min (tb_tokens b + refill) burst + c"
    unfolding t_def c_def using assms(2,3) r0 by (intro round_capped_le) auto
  moreover have "refill \<le> fast_rate rate * secs ?e + d"
    unfolding refill_def d_def using assms(1) by (intro refill_le) simp
  then have "min (tb_tokens b + refill) burst \<le> level rate burst now (Some b) + d"
    using cd(2) by (auto simp: min_def level_def)
  moreover have "of_bool ok + tb_tokens b' \<le> t + c"
  proof (cases "t \<ge> 1")
    case True
    have "t - 1 \<le> burst" by (simp add: t_def min_def)
    with True have "round_f64 (t - 1) \<le> t - 1 + c" unfolding c_def by (intro round_le_below) auto
    with b' True show ?thesis by simp
  next
    case False
    with b' cd(1) show ?thesis by simp
  qed
  moreover have "level rate burst now (Some b') \<le> tb_tokens b'"
    using b' by (simp add: level_def duration_since_def secs_def)
  ultimately show "of_bool ok + level rate burst now (Some b') \<le> level rate burst now (Some b) + slack rate burst"
    unfolding cd(3) [symmetric] by linarith
qed

lemma level_later:
  assumes "0 < rate" and "0 < burst" and "t \<le> t'" and "\<And>b'. b = Some b' \<Longrightarrow> tb_updated_at b' \<le> t"
  shows "level rate burst t' b \<le> level rate burst t b + fast_rate rate * secs (t' - t)"
proof (cases b)
  case None
  then show ?thesis using fast_rate_nonneg [of rate] assms(1) by (simp add: level_def secs_def)
next
  case (Some b')
  have "secs (duration_since t' (tb_updated_at b')) = secs (duration_since t (tb_updated_at b')) + secs (t' - t)"
    using assms(3) assms(4) [OF Some]
    by (simp add: secs_def duration_since_def of_nat_diff flip: add_divide_distrib)
  then have "fast_rate rate * secs (duration_since t' (tb_updated_at b')) =
      fast_rate rate * secs (duration_since t (tb_updated_at b')) + fast_rate rate * secs (t' - t)"
    by (simp add: algebra_simps)
  moreover have "0 \<le> fast_rate rate * secs (t' - t)"
    using fast_rate_nonneg [of rate] assms(1) by (simp add: secs_def)
  ultimately show ?thesis using Some by (simp add: level_def min_def)
qed

lemma level_prune:
  assumes "0 < rate" and "burst \<le> 600 * rate" and "0 \<le> tb_tokens b"
    and "duration_since now (tb_updated_at b) > security_bucket_idle_ttl"
  shows "level rate burst now (Some b) = burst"
proof -
  have "(600000000000 :: rat) \<le> of_nat (duration_since now (tb_updated_at b))"
    using assms(4) by (simp add: security_bucket_idle_ttl_def from_secs_def)
  then have "600 \<le> secs (duration_since now (tb_updated_at b))" by (simp add: secs_def field_simps)
  then have "600 * rate \<le> secs (duration_since now (tb_updated_at b)) * fast_rate rate"
    using fast_rate_nonneg [of rate] assms(1) by (intro mult_mono) auto
  with assms(2,3) show ?thesis by (simp add: level_def min_def mult.commute)
qed

section \<open>Sequences of calls\<close>

datatype bucket_op =
    BucketAllow (op_time: instant) (op_key: string) (op_rate: f64) (op_burst: f64)
  | BucketPrune (op_time: instant)

fun bucket_step :: "(string \<Rightarrow> nat) \<Rightarrow> bucket_op \<Rightarrow> buckets \<Rightarrow> bool \<times> buckets" where
  "bucket_step h (BucketAllow now key rate burst) s = allow_bucket h now key rate burst s"
| "bucket_step h (BucketPrune now) s = (False, prune_buckets now s)"

fun bucket_run :: "(string \<Rightarrow> nat) \<Rightarrow> bucket_op list \<Rightarrow> buckets \<Rightarrow> buckets" where
  "bucket_run h [] s = s"
| "bucket_run h (op # ops) s = bucket_run h ops (snd (bucket_step h op s))"

fun on_key :: "string \<Rightarrow> bucket_op \<Rightarrow> bool" where
  "on_key k (BucketAllow _ key _ _) = (key = k)"
| "on_key k (BucketPrune _) = False"

text \<open>How many of the calls for key \<open>k\<close> are admitted.\<close>

fun admitted :: "(string \<Rightarrow> nat) \<Rightarrow> string \<Rightarrow> bucket_op list \<Rightarrow> buckets \<Rightarrow> nat" where
  "admitted h k [] s = 0"
| "admitted h k (op # ops) s =
     of_bool (on_key k op \<and> fst (bucket_step h op s)) + admitted h k ops (snd (bucket_step h op s))"

definition limited_by :: "string \<Rightarrow> f64 \<Rightarrow> f64 \<Rightarrow> bucket_op list \<Rightarrow> bool" where
  "limited_by k rate burst ops \<longleftrightarrow> (\<forall>op \<in> set ops. on_key k op \<longrightarrow> op_rate op = rate \<and> op_burst op = burst)"

definition buckets_inv :: "(string \<Rightarrow> nat) \<Rightarrow> string \<Rightarrow> instant \<Rightarrow> buckets \<Rightarrow> bool" where
  "buckets_inv h k t s \<longleftrightarrow> sharded_inv h s \<and>
     (\<forall>b. sharded_get h s k = Some b \<longrightarrow> 0 \<le> tb_tokens b \<and> tb_updated_at b \<le> t)"

lemma buckets_inv_later: "buckets_inv h k t s \<Longrightarrow> t \<le> t' \<Longrightarrow> buckets_inv h k t' s"
  by (auto simp: buckets_inv_def)

lemma allow_bucket_level:
  assumes "0 < rate" and "0 < burst" and "buckets_inv h k t s" and "t \<le> now"
    and "allow_bucket h now k rate burst s = (ok, s')"
  shows "buckets_inv h k now s'"
    and "of_bool ok + level rate burst now (sharded_get h s' k) \<le> level rate burst now (sharded_get h s k) + slack rate burst"
proof -
  define b where "b = (case sharded_get h s k of None \<Rightarrow> token_bucket_new rate burst now | Some b \<Rightarrow> b)"
  obtain b' where b': "token_bucket_allow now rate burst b = (ok, b')" "s' = sharded_insert h k b' s"
    using assms(1,2,5) by (auto simp: allow_bucket_def b_def Let_def split: prod.splits)
  have inv: "sharded_inv h s" using assms(3) by (simp add: buckets_inv_def)
  have b0: "0 \<le> tb_tokens b"
    using assms(2,3) by (auto simp: b_def buckets_inv_def token_bucket_new_def split: option.split)
  have lb: "level rate burst now (Some b) = level rate burst now (sharded_get h s k)"
    by (auto simp: b_def level_def token_bucket_new_def duration_since_def secs_def split: option.split)
  note a = token_bucket_allow_level [OF assms(1,2) b0 b'(1)]
  have get: "sharded_get h s' k = Some b'" using inv b'(2) by (simp add: sharded.get_insert)
  show "buckets_inv h k now s'" using inv a(1,2) get b'(2) by (simp add: buckets_inv_def sharded.inv_insert)
  show "of_bool ok + level rate burst now (sharded_get h s' k) \<le> level rate burst now (sharded_get h s k) + slack rate burst"
    using a(3) get lb by simp
qed

lemma allow_bucket_other:
  assumes "sharded_inv h s" and "k' \<noteq> k"
  shows "sharded_inv h (snd (allow_bucket h now k' rate burst s))"
    and "sharded_get h (snd (allow_bucket h now k' rate burst s)) k = sharded_get h s k"
  using assms by (simp_all add: allow_bucket_def Let_def split_beta sharded.get_insert sharded.inv_insert)

lemma bucket_step_level:
  assumes "0 < rate" and "0 < burst" and "burst \<le> 600 * rate" and "buckets_inv h k t s" and "t \<le> op_time op"
    and "limited_by k rate burst [op]"
  shows "buckets_inv h k (op_time op) (snd (bucket_step h op s)) \<and>
    of_bool (on_key k op \<and> fst (bucket_step h op s))
      + level rate burst (op_time op) (sharded_get h (snd (bucket_step h op s)) k)
    \<le> level rate burst (op_time op) (sharded_get h s k) + of_bool (on_key k op) * slack rate burst"
proof (cases op)
  case (BucketAllow now key r bu)
  show ?thesis
  proof (cases "key = k")
    case True
    then have "r = rate" "bu = burst" using assms(6) BucketAllow by (simp_all add: limited_by_def)
    with allow_bucket_level [OF assms(1,2,4), of now "fst (bucket_step h op s)" "snd (bucket_step h op s)"]
    show ?thesis using BucketAllow True assms(5) by simp
  next
    case False
    with BucketAllow allow_bucket_other [of h s key k now r bu] assms(4,5) show ?thesis
      by (auto simp: buckets_inv_def)
  qed
next
  case (BucketPrune now)
  have inv: "sharded_inv h s" using assms(4) by (simp add: buckets_inv_def)
  have get: "sharded_get h (prune_buckets now s) k = keep_if (\<lambda>_ b. duration_since now (tb_updated_at b) \<le> security_bucket_idle_ttl) k (sharded_get h s k)"
    using inv by (simp add: prune_buckets_def sharded.get_retain)
  have "level rate burst now (sharded_get h (prune_buckets now s) k) \<le> level rate burst now (sharded_get h s k)"
  proof (cases "sharded_get h s k")
    case (Some b)
    then have "0 \<le> tb_tokens b" using assms(4) by (simp add: buckets_inv_def)
    with Some get level_prune [OF assms(1,3)] show ?thesis
      by (cases "duration_since now (tb_updated_at b) \<le> security_bucket_idle_ttl") (auto simp: not_le level_def [of _ _ _ None])
  qed (use get in simp)
  moreover have "buckets_inv h k now (prune_buckets now s)"
    using assms(4,5) BucketPrune get inv
    by (auto simp: buckets_inv_def prune_buckets_def sharded.inv_retain keep_if_eq_Some)
  ultimately show ?thesis using BucketPrune by simp
qed

lemma bucket_run_inv:
  assumes "0 < rate" "0 < burst" "burst \<le> 600 * rate"
  shows "buckets_inv h k t s \<Longrightarrow> sorted (t # map op_time ops) \<Longrightarrow> limited_by k rate burst ops \<Longrightarrow>
     buckets_inv h k (last (t # map op_time ops)) (bucket_run h ops s)"
proof (induction ops arbitrary: t s)
  case (Cons op ops)
  have "buckets_inv h k (op_time op) (snd (bucket_step h op s))"
    using bucket_step_level [OF assms Cons.prems(1)] Cons.prems(2,3) by (simp add: limited_by_def)
  from Cons.IH [OF this] Cons.prems(2,3) show ?case by (simp add: limited_by_def)
qed simp

lemma admitted_level:
  assumes "0 < rate" "0 < burst" "burst \<le> 600 * rate"
  shows "buckets_inv h k t s \<Longrightarrow> sorted (t # map op_time ops) \<Longrightarrow> limited_by k rate burst ops \<Longrightarrow>
     \<forall>op \<in> set ops. op_time op \<le> t1 \<Longrightarrow> t \<le> t1 \<Longrightarrow>
     of_nat (admitted h k ops s) \<le> level rate burst t (sharded_get h s k) + fast_rate rate * secs (t1 - t)
       + of_nat (length (filter (on_key k) ops)) * slack rate burst"
proof (induction ops arbitrary: t s)
  case Nil
  have "0 \<le> level rate burst t (sharded_get h s k)"
    using Nil(1) assms(1,2) fast_rate_nonneg [of rate]
    by (auto simp: level_def buckets_inv_def secs_def split: option.split)
  moreover have "0 \<le> fast_rate rate * secs (t1 - t)" using assms(1) fast_rate_nonneg [of rate] by (simp add: secs_def)
  ultimately show ?case by simp
next
  case (Cons op ops)
  let ?t = "op_time op" and ?s = "snd (bucket_step h op s)" and ?on = "on_key k op"
  have tt: "t \<le> ?t" "?t \<le> t1" using Cons.prems(2,4) by auto
  note st = bucket_step_level [OF assms Cons.prems(1) tt(1)]
  have st: "buckets_inv h k ?t ?s"
    "of_bool (?on \<and> fst (bucket_step h op s)) + level rate burst ?t (sharded_get h ?s k)
      \<le> level rate burst ?t (sharded_get h s k) + of_bool ?on * slack rate burst"
    using st Cons.prems(3) by (simp_all add: limited_by_def)
  have IH: "of_nat (admitted h k ops ?s) \<le> level rate burst ?t (sharded_get h ?s k) + fast_rate rate * secs (t1 - ?t)
       + of_nat (length (filter (on_key k) ops)) * slack rate burst"
    using Cons.IH [OF st(1)] Cons.prems tt by (simp add: limited_by_def)
  have "level rate burst ?t (sharded_get h s k) \<le> level rate burst t (sharded_get h s k) + fast_rate rate * secs (?t - t)"
    using Cons.prems(1) tt(1) assms by (intro level_later) (auto simp: buckets_inv_def)
  moreover have "secs (t1 - t) = secs (?t - t) + secs (t1 - ?t)"
    using tt by (simp add: secs_def of_nat_diff flip: add_divide_distrib)
  then have "fast_rate rate * secs (t1 - t) = fast_rate rate * secs (?t - t) + fast_rate rate * secs (t1 - ?t)"
    by (simp add: algebra_simps)
  moreover have "of_nat (length (filter (on_key k) (op # ops))) * slack rate burst =
      of_bool ?on * slack rate burst + of_nat (length (filter (on_key k) ops)) * slack rate burst"
    by (simp add: algebra_simps)
  moreover have "(of_nat (admitted h k (op # ops) s) :: rat) =
      of_bool (?on \<and> fst (bucket_step h op s)) + of_nat (admitted h k ops ?s)" by simp
  ultimately show ?case using st(2) IH by linarith
qed

lemma token_bucket_allow_waited:
  assumes "0 \<le> tb_tokens b" and "1 \<le> burst"
    and "1 \<le> f64_mul (as_secs_f64 (duration_since now (tb_updated_at b))) rate"
  shows "fst (token_bucket_allow now rate burst b)"
proof -
  have "1 \<le> f64_add (tb_tokens b) (f64_mul (as_secs_f64 (duration_since now (tb_updated_at b))) rate)"
    unfolding f64_add_def using assms by (intro round_f64_ge_one) linarith
  then show ?thesis using assms(2) by (simp add: token_bucket_allow_def Let_def)
qed

lemma token_bucket_allow_fresh: "1 \<le> burst \<Longrightarrow> fst (token_bucket_allow now rate burst (token_bucket_new rate burst now))"
  by (simp add: token_bucket_allow_def token_bucket_new_def as_secs_f64_def f64_of_nat_def f64_div_def f64_add_def
      f64_mul_def duration_since_def Let_def round_f64_ge_one)

section \<open>Property\<close>

text \<open>
  C35: the rate limiter limits and admits.  Take any history of calls and pruning on an
  initially empty table, in the order of their clock readings (the source reads the clock before
  it takes the lock of the shard: calls that overtake each other in between are not covered), in which the calls for key \<open>k\<close> use one positive rate and burst with
  the burst refilled within the idle time after which a bucket is dropped (ten minutes).  In
  any window from \<open>t0\<close> to \<open>t1\<close> that follows, the number of calls for \<open>k\<close> that are admitted is
  at most the burst plus the rate times the length of the window, up to the rounding of \<open>f64\<close>:
  a relative error of three units of the last place in the rate and about one in the burst
  for every call.  Conversely, if the burst is at least 1, a call is admitted when \<open>k\<close> has no
  bucket or the time since its last call refills one token.
\<close>

theorem rate_limiter_bounds:
  fixes h k before n
  defines "s \<equiv> bucket_run h before (sharded_new n)"
  assumes "0 < rate" and "0 < burst" and "burst \<le> 600 * rate"
    and "sorted (map op_time (before @ window))" and "limited_by k rate burst (before @ window)"
    and "\<forall>op \<in> set before. op_time op \<le> t0" and "\<forall>op \<in> set window. t0 \<le> op_time op \<and> op_time op \<le> t1" and "t0 \<le> t1"
  shows "of_nat (admitted h k window s) \<le> burst + rate * (1 + 3 * f64_eps) * secs (t1 - t0)
      + of_nat (length (filter (on_key k) window)) * (burst * f64_eps + f64_tiny * (3 * rate + 2))
    \<and> (1 \<le> burst \<longrightarrow>
        (case sharded_get h s k of None \<Rightarrow> True
         | Some b \<Rightarrow> 1 \<le> f64_mul (as_secs_f64 (duration_since now (tb_updated_at b))) rate) \<longrightarrow>
        fst (allow_bucket h now k rate burst s))"
proof -
  have 0: "buckets_inv h k 0 (sharded_new n)" by (simp add: buckets_inv_def sharded_inv_new)
  have sb: "sorted (0 # map op_time before)" and lb: "limited_by k rate burst before" and lw: "limited_by k rate burst window"
    using assms(5,6) by (auto simp: sorted_append limited_by_def)
  have "last (0 # map op_time before) \<le> t0" using assms(7) by (auto simp: last_map)
  then have inv: "buckets_inv h k t0 s"
    unfolding s_def using bucket_run_inv [OF assms(2-4) 0 sb lb] by (rule buckets_inv_later [rotated])
  have "sorted (t0 # map op_time window)" using assms(5,8) by (auto simp: sorted_append)
  from admitted_level [OF assms(2-4) inv this lw _ assms(9)] assms(8)
  have "of_nat (admitted h k window s) \<le> level rate burst t0 (sharded_get h s k) + fast_rate rate * secs (t1 - t0)
       + of_nat (length (filter (on_key k) window)) * slack rate burst" by simp
  with level_le_burst [of burst rate t0 "sharded_get h s k"] assms(3)
  have "of_nat (admitted h k window s) \<le> burst + rate * (1 + 3 * f64_eps) * secs (t1 - t0)
      + of_nat (length (filter (on_key k) window)) * (burst * f64_eps + f64_tiny * (3 * rate + 2))"
    unfolding fast_rate_def slack_def by linarith
  moreover have "fst (allow_bucket h now k rate burst s)" if "1 \<le> burst" and "case sharded_get h s k of None \<Rightarrow> True
         | Some b \<Rightarrow> 1 \<le> f64_mul (as_secs_f64 (duration_since now (tb_updated_at b))) rate"
    using inv that token_bucket_allow_waited [OF _ that(1)] token_bucket_allow_fresh [OF that(1)]
    by (auto simp: allow_bucket_def Let_def split_beta buckets_inv_def split: option.splits)
  ultimately show ?thesis by blast
qed

theorem rate_limiter_bounds_witness:
  "admitted (\<lambda>_. 0) ''k'' [BucketAllow 0 ''k'' 1 2, BucketAllow 0 ''k'' 1 2, BucketAllow 0 ''k'' 1 2] (sharded_new 64) \<le> 2
   \<and> fst (allow_bucket (\<lambda>_. 0) 0 ''k'' 1 2 (sharded_new 64))"
proof -
  let ?w = "[BucketAllow 0 ''k'' 1 2, BucketAllow 0 ''k'' 1 2, BucketAllow 0 ''k'' 1 2]"
  let ?n = "admitted (\<lambda>_. 0) ''k'' ?w (sharded_new 64)"
  have "limited_by ''k'' 1 2 ([] @ ?w)" by (simp add: limited_by_def)
  from rate_limiter_bounds [of 1 2 "[]" ?w "''k''" 0 0 "\<lambda>_. 0" 64 0, OF _ _ _ _ this]
  have n: "of_nat ?n \<le> 2 + (3 :: rat) * (2 * f64_eps + f64_tiny * 5)"
    and fresh: "fst (allow_bucket (\<lambda>_. 0) 0 ''k'' 1 2 (sharded_new 64))"
    by (simp_all add: secs_def del: admitted.simps)
  have "f64_tiny \<le> 1 / 100" "f64_eps \<le> 1 / 100" by (simp_all add: f64_tiny_def f64_eps_def)
  with n have "of_nat ?n < (3 :: rat)" by (simp del: admitted.simps)
  then show ?thesis using fresh by (simp del: admitted.simps)
qed

end
