(* ===== verification/Security.thy ===== *)
theory Security
  imports Rate_Limit Expiring Geo Threat
begin

text \<open>
  The user-space packet filter of \<open>proxy/server.rs\<close>: \<open>SecurityRuntime\<close> with its per-listener
  rules, bans and token buckets.  A packet is the string of its bytes.  The clock readings of
  one call are the argument \<open>clk\<close> (\<open>clk 0\<close> the first one) or \<open>now\<close> where there is only one.
  What the runtime hands to the kernel filter (\<open>XdpRuntime::sync_ip_block\<close>) is collected in
  \<open>sr_xdp_blocks\<close>.  Shown here: a ban holds until it ends whatever happens in between, and
  how the filter decides.
\<close>

section \<open>Data\<close>

datatype security_decision = SecAllow | SecDrop string

datatype dynamic_offense = InvalidPacket | ParseError | SipRateViolation

datatype security_ban_action = BanInstalled | BanExtended | BanRetained

record listener_security_runtime =
  ls_config :: effective_proxy_security_config
  ls_geo_policy :: geo_policy
  ls_threat_policy :: threat_policy
  ls_trusted_cidrs :: "cidr list"
  ls_allow_cidrs :: "cidr list"
  ls_deny_cidrs :: "cidr list"

definition listener_security_new ::
  "effective_proxy_security_config \<Rightarrow> cidr_error + listener_security_runtime" where
  "listener_security_new config =
     bind_res (parse_cidrs (se_trusted_cidrs config)) (\<lambda>trusted.
     bind_res (parse_cidrs (se_allow_cidrs config)) (\<lambda>allow.
     bind_res (parse_cidrs (se_deny_cidrs config)) (\<lambda>deny.
       Inr \<lparr>ls_config = config, ls_geo_policy = geo_policy_from_config (se_geo config),
            ls_threat_policy = threat_policy_from_config (se_threat_intel config),
            ls_trusted_cidrs = trusted, ls_allow_cidrs = allow, ls_deny_cidrs = deny\<rparr>)))"

definition is_trusted :: "listener_security_runtime \<Rightarrow> ip_addr \<Rightarrow> bool" where
  "is_trusted r ip \<longleftrightarrow> list_ex (\<lambda>c. cidr_contains c ip) (ls_trusted_cidrs r)"

definition is_allowed :: "listener_security_runtime \<Rightarrow> ip_addr \<Rightarrow> bool" where
  "is_allowed r ip \<longleftrightarrow> ls_allow_cidrs r = [] \<or> list_ex (\<lambda>c. cidr_contains c ip) (ls_allow_cidrs r)"

definition is_denied :: "listener_security_runtime \<Rightarrow> ip_addr \<Rightarrow> bool" where
  "is_denied r ip \<longleftrightarrow> list_ex (\<lambda>c. cidr_contains c ip) (ls_deny_cidrs r)"

type_synonym blocks = "(string, instant) shards"

record security_runtime =
  sr_listeners :: "(string, listener_security_runtime) hmap"
  sr_geo :: "geo_runtime option"
  sr_threat :: "threat_runtime option"
  sr_buckets :: buckets
  sr_blocks :: blocks
  sr_xdp_blocks :: "(string \<times> ip_addr \<times> instant \<times> string) list"

definition security_map_shards :: nat where
  "security_map_shards = 64"

datatype security_error = SecCidr cidr_error | SecGeo geo_error | SecThreat threat_error | SecXdp

text \<open>\<open>xdp_ok\<close> says whether the kernel filter could be set up.\<close>

definition security_runtime_new ::
  "(string \<Rightarrow> string \<Rightarrow> string) \<Rightarrow> (string \<Rightarrow> u8 list option) \<Rightarrow> bool \<Rightarrow> proxy_config
   \<Rightarrow> security_error + security_runtime" where
  "security_runtime_new join read_file xdp_ok px =
     (let concrete = concat (map concrete_listeners (px_listeners px));
          effective = map (effective_security_for_listener px) concrete
      in bind_res (with_context SecCidr (collect_res (\<lambda>l.
             bind_res (listener_security_new (effective_security_for_listener px l)) (\<lambda>r. Inr (listener_key l, r))) concrete))
         (\<lambda>entries.
       bind_res (with_context SecGeo (geo_runtime_new join read_file effective)) (\<lambda>geo.
       bind_res (with_context SecThreat (threat_runtime_new join read_file effective)) (\<lambda>threat.
         if \<not> xdp_ok then Inl SecXdp
         else Inr \<lparr>sr_listeners = foldl (\<lambda>m (k, r). hm_insert k r m) hm_empty entries,
                   sr_geo = geo, sr_threat = threat, sr_buckets = sharded_new security_map_shards,
                   sr_blocks = sharded_new security_map_shards, sr_xdp_blocks = []\<rparr>))))"

section \<open>Keys and start lines\<close>

definition ip_security_key :: "string \<Rightarrow> string \<Rightarrow> ip_addr \<Rightarrow> string" where
  "ip_security_key kind key ip = kind @ ''|'' @ key @ ''|'' @ show_ip ip"

fun dynamic_offense_key :: "dynamic_offense \<Rightarrow> string" where
  "dynamic_offense_key InvalidPacket = ''invalid-packet''"
| "dynamic_offense_key ParseError = ''parse-error''"
| "dynamic_offense_key SipRateViolation = ''sip-rate-violation''"

definition dynamic_offense_for_reason :: "string \<Rightarrow> dynamic_offense option" where
  "dynamic_offense_for_reason reason =
     (if reason = ''invalid-start-line'' then Some InvalidPacket
      else if reason = ''parse-error'' \<or> reason = ''parse-error-rate-limit'' then Some ParseError
      else if reason \<in> {''sip-register-rate-limit'', ''sip-invite-rate-limit'', ''sip-blocked'', ''sip-invalid-from'',
                        ''sip-unregistered-invite'', ''sip-unregistered-invite-source''} then Some SipRateViolation
      else None)"

definition is_known_sip_method :: "string \<Rightarrow> bool" where
  "is_known_sip_method method \<longleftrightarrow>
     method \<in> set [''INVITE'', ''ACK'', ''BYE'', ''CANCEL'', ''OPTIONS'', ''REGISTER'', ''MESSAGE'', ''INFO'', ''UPDATE'',
                 ''REFER'', ''NOTIFY'', ''PUBLISH'', ''SUBSCRIBE'', ''PRACK'']"

definition is_ascii_ws :: "char \<Rightarrow> bool" where
  "is_ascii_ws c \<longleftrightarrow> of_char c \<in> {9, 10, 12, 13, 32 :: nat}"

definition first_ascii_word :: "string \<Rightarrow> string option" where
  "first_ascii_word s =
     (case dropWhile is_ascii_ws s of [] \<Rightarrow> None | r \<Rightarrow> Some (takeWhile (\<lambda>c. \<not> is_ascii_ws c) r))"

definition is_probable_sip_start_line :: "string \<Rightarrow> bool \<Rightarrow> bool" where
  "is_probable_sip_start_line packet require_known_method =
     (let head = takeWhile (\<lambda>c. of_char c \<noteq> (13 :: nat) \<and> of_char c \<noteq> (10 :: nat)) packet
      in if \<not> valid_utf8 (map of_char head) then False
         else let line = trim head
              in if starts_with line ''SIP/2.0 '' then True
                 else if \<not> contains_str line '' SIP/2.0'' then False
                 else case first_ascii_word line of
                        None \<Rightarrow> False
                      | Some method \<Rightarrow> \<not> require_known_method \<or> is_known_sip_method method)"

text \<open>
  \<open>aor\<close> is the address of record of a REGISTER if it can be extracted, \<open>from_value\<close> the value
  of the top From header if there is one.
\<close>

definition sip_rate_identity :: "string option \<Rightarrow> string option \<Rightarrow> string \<Rightarrow> sock_addr \<Rightarrow> string" where
  "sip_rate_identity aor from_value method peer =
     (case (if method = ''REGISTER'' then aor else None) of
        Some a \<Rightarrow> a
      | None \<Rightarrow> (case from_value of Some f \<Rightarrow> f | None \<Rightarrow> show_ip (sock_ip peer)))"

section \<open>Bans and buckets\<close>

definition is_blocked :: "(string \<Rightarrow> nat) \<Rightarrow> instant \<Rightarrow> string \<Rightarrow> security_runtime \<Rightarrow> bool \<times> security_runtime" where
  "is_blocked h now key s =
     (case sharded_get h (sr_blocks s) key of
        None \<Rightarrow> (False, s)
      | Some until \<Rightarrow>
          if until > now then (True, s) else (False, s\<lparr>sr_blocks := sharded_remove h key (sr_blocks s)\<rparr>))"

definition ban_action :: "instant \<Rightarrow> instant \<Rightarrow> instant option \<Rightarrow> security_ban_action" where
  "ban_action now until existing =
     (case existing of
        None \<Rightarrow> BanInstalled
      | Some e \<Rightarrow> if e > now \<and> e \<ge> until then BanRetained else if e > now then BanExtended else BanInstalled)"

definition block_for ::
  "(string \<Rightarrow> nat) \<Rightarrow> instant \<Rightarrow> string \<Rightarrow> u64 \<Rightarrow> string \<Rightarrow> string \<Rightarrow> string \<Rightarrow> string
   \<Rightarrow> security_runtime \<Rightarrow> security_runtime" where
  "block_for h now key seconds lkey subject_kind subject reason s =
     (if seconds = 0 then s
      else case instant_checked_add now (from_secs (unat seconds)) of
             None \<Rightarrow> s
           | Some until \<Rightarrow>
               (let action = ban_action now until (sharded_get h (sr_blocks s) key);
                    s1 = (if action = BanRetained then s
                          else s\<lparr>sr_blocks := sharded_insert h key until (sr_blocks s)\<rparr>)
                in if action \<noteq> BanRetained \<and> subject_kind = ''ip''
                   then (case parse_ip subject of
                           None \<Rightarrow> s1
                         | Some ip \<Rightarrow> s1\<lparr>sr_xdp_blocks := sr_xdp_blocks s1 @ [(lkey, ip, until, reason)]\<rparr>)
                   else s1))"

definition runtime_allow_bucket ::
  "(string \<Rightarrow> nat) \<Rightarrow> instant \<Rightarrow> string \<Rightarrow> f64 \<Rightarrow> f64 \<Rightarrow> security_runtime \<Rightarrow> bool \<times> security_runtime" where
  "runtime_allow_bucket h now key rate burst s =
     (let (ok, b) = allow_bucket h now key rate burst (sr_buckets s) in (ok, s\<lparr>sr_buckets := b\<rparr>))"

definition prune_expired :: "instant \<Rightarrow> security_runtime \<Rightarrow> security_runtime" where
  "prune_expired now s =
     s\<lparr>sr_blocks := sharded_retain (\<lambda>_ until. until > now) (sr_blocks s),
       sr_buckets := prune_buckets now (sr_buckets s)\<rparr>"

definition f64_of_u64 :: "u64 \<Rightarrow> f64" where
  "f64_of_u64 n = f64_of_nat (unat n)"

definition per_second :: "u64 \<Rightarrow> f64" where
  "per_second per_minute = f64_div (f64_of_u64 per_minute) 60"

section \<open>Decisions\<close>

definition listener_enabled :: "proxy_listener_config \<Rightarrow> security_runtime \<Rightarrow> bool" where
  "listener_enabled l s =
     (case hm_get (sr_listeners s) (listener_key l) of None \<Rightarrow> False | Some r \<Rightarrow> security_enabled (ls_config r))"

definition flood_limits :: "effective_proxy_flood_security_config \<Rightarrow> sip_transport \<Rightarrow> u64 \<times> u64 \<times> string" where
  "flood_limits flood transport =
     (case transport of
        Udp \<Rightarrow> (fe_udp_packets_per_second flood, fe_udp_burst flood, ''udp-flood-rate-limit'')
      | Tcp \<Rightarrow> (fe_tcp_packets_per_second flood, fe_tcp_burst flood, ''tcp-flood-rate-limit'')
      | TcpUdp \<Rightarrow> (max (fe_udp_packets_per_second flood) (fe_tcp_packets_per_second flood),
                   max (fe_udp_burst flood) (fe_tcp_burst flood), ''tcp-udp-flood-rate-limit''))"

text \<open>
  The two limiters of \<open>check_packet\<close>: \<open>Some reason\<close> means that the packet is dropped for it.
\<close>

definition check_flood ::
  "(string \<Rightarrow> nat) \<Rightarrow> (nat \<Rightarrow> instant) \<Rightarrow> proxy_listener_config \<Rightarrow> ip_addr \<Rightarrow> listener_security_runtime
   \<Rightarrow> security_runtime \<Rightarrow> string option \<times> security_runtime" where
  "check_flood h clk l ip r s =
     (let flood = se_flood (ls_config r); key = listener_key l;
          (rate, burst, reason) = flood_limits flood (l_transport l)
      in if fe_enabled flood \<and> rate > 0 \<and> burst > 0
         then let (ok, s1) = runtime_allow_bucket h (clk 1) (ip_security_key ''flood-packets'' key ip)
                               (f64_of_u64 rate) (f64_of_u64 burst) s
              in if ok then (None, s1)
                 else (Some reason,
                   if fe_block_seconds flood > 0
                   then block_for h (clk 2) (ip_security_key ''block'' key ip) (fe_block_seconds flood) key ''ip''
                          (show_ip ip) reason s1
                   else s1)
         else (None, s))"

definition check_ip_rate ::
  "(string \<Rightarrow> nat) \<Rightarrow> (nat \<Rightarrow> instant) \<Rightarrow> proxy_listener_config \<Rightarrow> ip_addr \<Rightarrow> listener_security_runtime
   \<Rightarrow> security_runtime \<Rightarrow> string option \<times> security_runtime" where
  "check_ip_rate h clk l ip r s =
     (let limits = se_ip_rate_limit (ls_config r); key = listener_key l
      in if ie_enabled limits \<and> ie_packets_per_second limits > 0 \<and> ie_burst limits > 0
         then let (ok, s1) = runtime_allow_bucket h (clk 3) (ip_security_key ''packets'' key ip)
                               (f64_of_u64 (ie_packets_per_second limits)) (f64_of_u64 (ie_burst limits)) s
              in if ok then (None, s1)
                 else (Some ''ip-rate-limit'',
                       block_for h (clk 4) (ip_security_key ''block'' key ip) (ie_block_seconds limits) key ''ip''
                         (show_ip ip) ''ip-rate-limit'' s1)
         else (None, s))"

definition check_start_line :: "listener_security_runtime \<Rightarrow> string \<Rightarrow> security_decision" where
  "check_start_line r packet =
     (let pre = se_prefilter (ls_config r)
      in if pe_enabled pre \<and> pe_drop_invalid_start_line pre
            \<and> \<not> is_probable_sip_start_line packet (pe_drop_non_sip_methods pre)
         then SecDrop ''invalid-start-line'' else SecAllow)"

definition check_packet ::
  "(string \<Rightarrow> nat) \<Rightarrow> (nat \<Rightarrow> instant) \<Rightarrow> proxy_listener_config \<Rightarrow> sock_addr \<Rightarrow> string
   \<Rightarrow> security_runtime \<Rightarrow> security_decision \<times> security_runtime" where
  "check_packet h clk l peer packet s =
     (let key = listener_key l; ip = sock_ip peer
      in case hm_get (sr_listeners s) key of
           None \<Rightarrow> (SecAllow, s)
         | Some r \<Rightarrow>
             if \<not> security_enabled (ls_config r) then (SecAllow, s)
             else if is_denied r ip then (SecDrop ''denied-cidr'', s)
             else if \<not> is_allowed r ip then (SecDrop ''not-allowed-cidr'', s)
             else
               (let (blocked, s1) = is_blocked h (clk 0) (ip_security_key ''block'' key ip) s
                in if blocked then (SecDrop ''ip-blocked'', s1)
                   else if is_trusted r ip then (SecAllow, s1)
                   else
                     (case evaluate_geo_policy (ls_geo_policy r) (map_option gr_snapshot (sr_geo s1)) ip of
                        GeoDrop reason \<Rightarrow> (SecDrop reason, s1)
                      | GeoAllow \<Rightarrow>
                          (case evaluate_threat_policy (ls_threat_policy r) (map_option thr_snapshot (sr_threat s1)) ip of
                             ThreatDrop reason \<Rightarrow> (SecDrop reason, s1)
                           | ThreatAllow \<Rightarrow>
                               (case check_flood h clk l ip r s1 of
                                  (Some reason, s2) \<Rightarrow> (SecDrop reason, s2)
                                | (None, s2) \<Rightarrow>
                                    (case check_ip_rate h clk l ip r s2 of
                                       (Some reason, s3) \<Rightarrow> (SecDrop reason, s3)
                                     | (None, s3) \<Rightarrow> (check_start_line r packet, s3)))))))"

definition record_parse_error ::
  "(string \<Rightarrow> nat) \<Rightarrow> (nat \<Rightarrow> instant) \<Rightarrow> proxy_listener_config \<Rightarrow> sock_addr \<Rightarrow> security_runtime
   \<Rightarrow> security_decision \<times> security_runtime" where
  "record_parse_error h clk l peer s =
     (let key = listener_key l; ip = sock_ip peer
      in case hm_get (sr_listeners s) key of
           None \<Rightarrow> (SecAllow, s)
         | Some r \<Rightarrow>
             (let limits = se_ip_rate_limit (ls_config r); n = ie_parse_errors_per_minute limits
              in if \<not> security_enabled (ls_config r) \<or> \<not> ie_enabled limits \<or> n = 0 then (SecAllow, s)
                 else let (ok, s1) = runtime_allow_bucket h (clk 0) (ip_security_key ''parse-errors'' key ip)
                                       (per_second n) (f64_of_u64 n) s
                      in if ok then (SecAllow, s1)
                         else (SecDrop ''parse-error-rate-limit'',
                               block_for h (clk 1) (ip_security_key ''block'' key ip) (ie_block_seconds limits) key ''ip''
                                 (show_ip ip) ''parse-error-rate-limit'' s1)))"

definition offense_limit :: "effective_proxy_dynamic_ban_config \<Rightarrow> dynamic_offense \<Rightarrow> u64" where
  "offense_limit ban offense =
     (case offense of InvalidPacket \<Rightarrow> be_invalid_packets_per_minute ban
      | ParseError \<Rightarrow> be_parse_errors_per_minute ban
      | SipRateViolation \<Rightarrow> be_sip_rate_violations_per_minute ban)"

definition record_dynamic_offense ::
  "(string \<Rightarrow> nat) \<Rightarrow> (nat \<Rightarrow> instant) \<Rightarrow> proxy_listener_config \<Rightarrow> sock_addr \<Rightarrow> dynamic_offense option
   \<Rightarrow> security_runtime \<Rightarrow> string option \<times> security_runtime" where
  "record_dynamic_offense h clk l peer off s =
     (let key = listener_key l; ip = sock_ip peer
      in case off of
           None \<Rightarrow> (None, s)
         | Some offense \<Rightarrow>
             (case hm_get (sr_listeners s) key of
                None \<Rightarrow> (None, s)
              | Some r \<Rightarrow>
                  (let ban = se_dynamic_ban (ls_config r); n = offense_limit ban offense
                   in if \<not> be_enabled ban \<or> is_trusted r ip \<and> offense \<noteq> SipRateViolation \<or> n = 0 then (None, s)
                      else let (ok, s1) = runtime_allow_bucket h (clk 0)
                                 (''dynamic-ban|'' @ dynamic_offense_key offense @ ''|'' @ key @ ''|'' @ show_ip ip)
                                 (per_second n) (f64_of_u64 n) s
                           in if ok then (None, s1)
                              else (Some ''dynamic-ban'',
                                    block_for h (clk 1) (ip_security_key ''block'' key ip) (be_ban_seconds ban) key ''ip''
                                      (show_ip ip) ''dynamic-ban'' s1))))"

definition should_log_invalid_packet ::
  "(string \<Rightarrow> nat) \<Rightarrow> instant \<Rightarrow> proxy_listener_config \<Rightarrow> sock_addr \<Rightarrow> security_runtime \<Rightarrow> bool \<times> security_runtime" where
  "should_log_invalid_packet h now l peer s =
     (case hm_get (sr_listeners s) (listener_key l) of
        None \<Rightarrow> (False, s)
      | Some r \<Rightarrow>
          (let pre = se_prefilter (ls_config r); n = pe_invalid_log_sample_per_minute pre
           in if \<not> pe_enabled pre \<or> \<not> pe_log_invalid_packets pre \<or> n = 0 then (False, s)
              else runtime_allow_bucket h now (ip_security_key ''invalid-log'' (listener_key l) (sock_ip peer))
                     (per_second n) (f64_of_u64 n) s))"

definition sip_limit :: "effective_proxy_sip_rate_limit_config \<Rightarrow> string \<Rightarrow> (u64 \<times> string) option" where
  "sip_limit limits method =
     (if method = ''REGISTER'' \<and> re_register_per_minute_per_aor limits > 0
      then Some (re_register_per_minute_per_aor limits, ''sip-register-rate-limit'')
      else if method = ''INVITE'' \<and> re_invite_per_minute_per_aor limits > 0
      then Some (re_invite_per_minute_per_aor limits, ''sip-invite-rate-limit'')
      else None)"

definition check_sip_request ::
  "(string \<Rightarrow> nat) \<Rightarrow> (nat \<Rightarrow> instant) \<Rightarrow> proxy_listener_config \<Rightarrow> sock_addr \<Rightarrow> string option \<Rightarrow> string option \<Rightarrow> string
   \<Rightarrow> security_runtime \<Rightarrow> string option \<times> security_runtime" where
  "check_sip_request h clk l peer aor from_value method s =
     (let key = listener_key l
      in if method = ''ACK'' \<or> method = ''CANCEL'' then (None, s)
         else case hm_get (sr_listeners s) key of
             None \<Rightarrow> (None, s)
           | Some r \<Rightarrow>
               (let limits = se_sip_rate_limit (ls_config r)
                in if \<not> security_enabled (ls_config r) \<or> \<not> re_enabled limits then (None, s)
                   else case sip_limit limits method of
                       None \<Rightarrow> (None, s)
                     | Some (n, reason) \<Rightarrow>
                         (let ident = sip_rate_identity aor from_value method peer;
                              block_key = ''sip-block|'' @ key @ ''|'' @ method @ ''|'' @ ident;
                              (blocked, s1) = is_blocked h (clk 0) block_key s
                          in if blocked then (Some ''sip-blocked'', s1)
                             else let (ok, s2) = runtime_allow_bucket h (clk 1)
                                        (''sip-rate|'' @ key @ ''|'' @ method @ ''|'' @ ident) (per_second n) (f64_of_u64 n) s1
                                  in if ok then (None, s2)
                                     else (Some reason,
                                           block_for h (clk 2) block_key (re_block_seconds limits) key method ident reason s2))))"

text \<open>
  The callers in \<open>ProxyServer\<close>: what a drop or a parse error adds to the counters (the
  reasons recorded) and to the runtime.
\<close>

definition handle_security_drop ::
  "(string \<Rightarrow> nat) \<Rightarrow> (nat \<Rightarrow> instant) \<Rightarrow> proxy_listener_config \<Rightarrow> sock_addr \<Rightarrow> string \<Rightarrow> security_runtime
   \<Rightarrow> string list \<times> security_runtime" where
  "handle_security_drop h clk l peer reason s =
     (let (banned, s1) = record_dynamic_offense h clk l peer (dynamic_offense_for_reason reason) s
      in (reason # (case banned of None \<Rightarrow> [] | Some b \<Rightarrow> [b]), s1))"

definition handle_parse_error ::
  "(string \<Rightarrow> nat) \<Rightarrow> (nat \<Rightarrow> instant) \<Rightarrow> proxy_listener_config \<Rightarrow> sock_addr \<Rightarrow> security_runtime
   \<Rightarrow> string list \<times> bool \<times> security_runtime" where
  "handle_parse_error h clk l peer s =
     (let (decision, s1) = record_parse_error h clk l peer s;
          reason = (case decision of SecAllow \<Rightarrow> ''parse-error'' | SecDrop r \<Rightarrow> r);
          (banned, s2) = record_dynamic_offense h (\<lambda>i. clk (i + 2)) l peer (Some ParseError) s1;
          (logged, s3) = should_log_invalid_packet h (clk 4) l peer s2
      in (reason # (case banned of None \<Rightarrow> [] | Some b \<Rightarrow> [b]), logged, s3))"

section \<open>Sequences of events\<close>

datatype security_op =
    SecPacket "nat \<Rightarrow> instant" proxy_listener_config sock_addr string
  | SecParseError "nat \<Rightarrow> instant" proxy_listener_config sock_addr
  | SecOffense "nat \<Rightarrow> instant" proxy_listener_config sock_addr "dynamic_offense option"
  | SecLog "nat \<Rightarrow> instant" proxy_listener_config sock_addr
  | SecSip "nat \<Rightarrow> instant" proxy_listener_config sock_addr "string option" "string option" string
  | SecPrune "nat \<Rightarrow> instant"

fun security_step :: "(string \<Rightarrow> nat) \<Rightarrow> security_op \<Rightarrow> security_runtime \<Rightarrow> security_runtime" where
  "security_step h (SecPacket clk l peer packet) s = snd (check_packet h clk l peer packet s)"
| "security_step h (SecParseError clk l peer) s = snd (record_parse_error h clk l peer s)"
| "security_step h (SecOffense clk l peer off) s = snd (record_dynamic_offense h clk l peer off s)"
| "security_step h (SecLog clk l peer) s = snd (should_log_invalid_packet h (clk 0) l peer s)"
| "security_step h (SecSip clk l peer aor from_value method) s = snd (check_sip_request h clk l peer aor from_value method s)"
| "security_step h (SecPrune clk) s = prune_expired (clk 0) s"

fun op_clock :: "security_op \<Rightarrow> nat \<Rightarrow> instant" where
  "op_clock (SecPacket clk l peer packet) = clk"
| "op_clock (SecParseError clk l peer) = clk"
| "op_clock (SecOffense clk l peer off) = clk"
| "op_clock (SecLog clk l peer) = clk"
| "op_clock (SecSip clk l peer aor from_value method) = clk"
| "op_clock (SecPrune clk) = clk"

definition security_run :: "(string \<Rightarrow> nat) \<Rightarrow> security_op list \<Rightarrow> security_runtime \<Rightarrow> security_runtime" where
  "security_run h ops s = foldl (\<lambda>s op. security_step h op s) s ops"

section \<open>Bans last\<close>

definition blocked_until :: "(string \<Rightarrow> nat) \<Rightarrow> string \<Rightarrow> instant \<Rightarrow> security_runtime \<Rightarrow> bool" where
  "blocked_until h key u s \<longleftrightarrow> sharded_inv h (sr_blocks s) \<and> (\<exists>v \<ge> u. sharded_get h (sr_blocks s) key = Some v)"

text \<open>What every operation does to the table of bans, on one key and before time \<open>u\<close>.\<close>

definition ban_step :: "(string \<Rightarrow> nat) \<Rightarrow> string \<Rightarrow> instant \<Rightarrow> security_runtime \<Rightarrow> security_runtime \<Rightarrow> bool" where
  "ban_step h key u s s' \<longleftrightarrow> sr_listeners s' = sr_listeners s
     \<and> (sharded_inv h (sr_blocks s) \<longrightarrow> sharded_inv h (sr_blocks s'))
     \<and> (blocked_until h key u s \<longrightarrow> blocked_until h key u s')"

lemma ban_step_refl [simp, intro]: "ban_step h key u s s"
  by (simp add: ban_step_def)

lemma ban_step_trans: "ban_step h key u s s1 \<Longrightarrow> ban_step h key u s1 s2 \<Longrightarrow> ban_step h key u s s2"
  by (simp add: ban_step_def)

lemma ban_step_bucket [simp, intro]: "ban_step h key u s (snd (runtime_allow_bucket h now k rate burst s))"
  by (simp add: ban_step_def runtime_allow_bucket_def blocked_until_def split_beta Let_def)

lemma ban_step_is_blocked: "now < u \<Longrightarrow> ban_step h key u s (snd (is_blocked h now k s))"
  by (auto simp: ban_step_def is_blocked_def blocked_until_def sharded.inv_remove sharded.get_remove split: option.split)

lemma block_for_fields:
  "sr_listeners (block_for h now key seconds lkey kind subject reason s) = sr_listeners s"
  "sr_blocks (block_for h now key seconds lkey kind subject reason s) =
     (if seconds = 0 then sr_blocks s
      else case instant_checked_add now (from_secs (unat seconds)) of None \<Rightarrow> sr_blocks s
        | Some until \<Rightarrow> if ban_action now until (sharded_get h (sr_blocks s) key) = BanRetained then sr_blocks s
                       else sharded_insert h key until (sr_blocks s))"
  by (simp_all add: block_for_def Let_def split: option.split)

lemma ban_step_block_for:
  assumes "now < u"
  shows "ban_step h key u s (block_for h now k seconds lkey kind subject reason s)"
proof (cases "instant_checked_add now (from_secs (unat seconds))")
  case (Some until)
  show ?thesis
  proof (cases "k = key \<and> (\<exists>v \<ge> u. sharded_get h (sr_blocks s) key = Some v)")
    case True
    then show ?thesis
      using assms Some by (auto simp: ban_step_def blocked_until_def block_for_fields ban_action_def sharded.inv_insert
          sharded.get_insert split: if_splits)
  next
    case False
    then show ?thesis
      using Some by (auto simp: ban_step_def blocked_until_def block_for_fields sharded.inv_insert sharded.get_insert)
  qed
qed (simp add: ban_step_def blocked_until_def block_for_fields)

lemma block_for_blocks:
  assumes "sharded_inv h (sr_blocks s)" and "seconds \<noteq> 0" and "now + from_secs (unat seconds) < instant_limit"
  shows "blocked_until h key (now + from_secs (unat seconds)) (block_for h now key seconds lkey kind subject reason s)"
  using assms by (auto simp: blocked_until_def block_for_fields instant_checked_add_def ban_action_def
      sharded.inv_insert sharded.get_insert split: option.split)

lemma ban_step_flood:
  assumes "\<And>i. i \<le> 4 \<Longrightarrow> clk i < u"
  shows "ban_step h key u s (snd (check_flood h clk l ip r s))"
proof -
  obtain rate burst reason where f: "flood_limits (se_flood (ls_config r)) (l_transport l) = (rate, burst, reason)"
    by (metis prod_cases3)
  show ?thesis
    unfolding check_flood_def Let_def f
    by (auto simp: split_beta assms intro!: ban_step_trans [OF ban_step_bucket ban_step_block_for])
qed

lemma ban_step_ip_rate:
  assumes "\<And>i. i \<le> 4 \<Longrightarrow> clk i < u"
  shows "ban_step h key u s (snd (check_ip_rate h clk l ip r s))"
  unfolding check_ip_rate_def Let_def
  by (auto simp: split_beta assms intro!: ban_step_trans [OF ban_step_bucket ban_step_block_for])

text \<open>The part of \<open>check_packet\<close> after the ban and the trusted sources.\<close>

definition check_limits ::
  "(string \<Rightarrow> nat) \<Rightarrow> (nat \<Rightarrow> instant) \<Rightarrow> proxy_listener_config \<Rightarrow> ip_addr \<Rightarrow> listener_security_runtime
   \<Rightarrow> string \<Rightarrow> security_runtime \<Rightarrow> security_decision \<times> security_runtime" where
  "check_limits h clk l ip r packet s =
     (case check_flood h clk l ip r s of
        (Some reason, s2) \<Rightarrow> (SecDrop reason, s2)
      | (None, s2) \<Rightarrow>
          (case check_ip_rate h clk l ip r s2 of
             (Some reason, s3) \<Rightarrow> (SecDrop reason, s3)
           | (None, s3) \<Rightarrow> (check_start_line r packet, s3)))"

definition listed_as_threat :: "listener_security_runtime \<Rightarrow> security_runtime \<Rightarrow> ip_addr \<Rightarrow> string option" where
  "listed_as_threat r s ip =
     (case evaluate_geo_policy (ls_geo_policy r) (map_option gr_snapshot (sr_geo s)) ip of
        GeoDrop reason \<Rightarrow> Some reason
      | GeoAllow \<Rightarrow>
          (case evaluate_threat_policy (ls_threat_policy r) (map_option thr_snapshot (sr_threat s)) ip of
             ThreatDrop reason \<Rightarrow> Some reason | ThreatAllow \<Rightarrow> None))"

lemma check_packet_eq:
  "check_packet h clk l peer packet s =
     (case hm_get (sr_listeners s) (listener_key l) of
        None \<Rightarrow> (SecAllow, s)
      | Some r \<Rightarrow>
          if \<not> security_enabled (ls_config r) then (SecAllow, s)
          else if is_denied r (sock_ip peer) then (SecDrop ''denied-cidr'', s)
          else if \<not> is_allowed r (sock_ip peer) then (SecDrop ''not-allowed-cidr'', s)
          else let b = is_blocked h (clk 0) (ip_security_key ''block'' (listener_key l) (sock_ip peer)) s
               in if fst b then (SecDrop ''ip-blocked'', snd b)
                  else if is_trusted r (sock_ip peer) then (SecAllow, snd b)
                  else case listed_as_threat r (snd b) (sock_ip peer) of
                         Some reason \<Rightarrow> (SecDrop reason, snd b)
                       | None \<Rightarrow> check_limits h clk l (sock_ip peer) r packet (snd b))"
  by (simp add: check_packet_def check_limits_def listed_as_threat_def Let_def split_beta
      split: option.split geo_decision.split threat_decision.split)

lemma ban_step_limits:
  assumes "\<And>i. i \<le> 4 \<Longrightarrow> clk i < u"
  shows "ban_step h key u s (snd (check_limits h clk l ip r packet s))"
proof -
  obtain o2 s2 where f: "check_flood h clk l ip r s = (o2, s2)" by fastforce
  obtain o3 s3 where i: "check_ip_rate h clk l ip r s2 = (o3, s3)" by fastforce
  have "ban_step h key u s s2" "ban_step h key u s2 s3"
    using ban_step_flood [of clk u h key s l ip r, OF assms] ban_step_ip_rate [of clk u h key s2 l ip r, OF assms] f i by simp_all
  then show ?thesis
    by (auto simp: check_limits_def f i intro: ban_step_trans split: option.split)
qed

lemma ban_step_packet:
  assumes "\<And>i. i \<le> 4 \<Longrightarrow> clk i < u"
  shows "ban_step h key u s (snd (check_packet h clk l peer packet s))"
  unfolding check_packet_eq Let_def
  using ban_step_is_blocked [OF assms [of 0, simplified], of h key s]
  by (auto simp: assms intro: ban_step_trans [OF _ ban_step_limits] split: option.split)

lemma ban_step_parse_error:
  assumes "\<And>i. i \<le> 4 \<Longrightarrow> clk i < u"
  shows "ban_step h key u s (snd (record_parse_error h clk l peer s))"
  unfolding record_parse_error_def Let_def
  by (auto simp: split_beta assms intro!: ban_step_trans [OF ban_step_bucket ban_step_block_for] split: option.split)

lemma ban_step_offense:
  assumes "\<And>i. i \<le> 4 \<Longrightarrow> clk i < u"
  shows "ban_step h key u s (snd (record_dynamic_offense h clk l peer off s))"
  unfolding record_dynamic_offense_def Let_def
  by (auto simp: split_beta assms intro!: ban_step_trans [OF ban_step_bucket ban_step_block_for] split: option.split)

lemma ban_step_log: "ban_step h key u s (snd (should_log_invalid_packet h now l peer s))"
  unfolding should_log_invalid_packet_def Let_def by (auto split: option.split)

lemma ban_step_sip:
  assumes "\<And>i. i \<le> 4 \<Longrightarrow> clk i < u"
  shows "ban_step h key u s (snd (check_sip_request h clk l peer aor from_value method s))"
  unfolding check_sip_request_def Let_def
  by (auto simp: split_beta assms
      intro!: ban_step_trans [OF ban_step_trans [OF ban_step_is_blocked ban_step_bucket] ban_step_block_for]
        ban_step_trans [OF ban_step_is_blocked ban_step_bucket] ban_step_is_blocked
      split: option.split)

lemma ban_step_prune:
  assumes "now < u"
  shows "ban_step h key u s (prune_expired now s)"
  using assms by (auto simp: ban_step_def prune_expired_def blocked_until_def sharded.inv_retain sharded.get_retain)

lemma ban_step_step:
  assumes "\<And>i. i \<le> 4 \<Longrightarrow> op_clock op i < u"
  shows "ban_step h key u s (security_step h op s)"
  using assms by (cases op) (auto intro!: ban_step_packet ban_step_parse_error ban_step_offense ban_step_log ban_step_sip ban_step_prune)

lemma ban_step_run:
  assumes "\<And>op i. op \<in> set ops \<Longrightarrow> i \<le> 4 \<Longrightarrow> op_clock op i < u"
  shows "ban_step h key u s (security_run h ops s)"
  using assms
proof (induction ops rule: rev_induct)
  case (snoc op ops)
  then show ?case by (auto simp: security_run_def intro: ban_step_trans [OF _ ban_step_step])
qed (simp add: security_run_def)

lemma check_packet_blocked:
  assumes "blocked_until h (ip_security_key ''block'' (listener_key l) (sock_ip peer)) u s" and "clk 0 < u"
    and "hm_get (sr_listeners s) (listener_key l) = Some r" and "security_enabled (ls_config r)"
  shows "\<exists>reason \<in> {''denied-cidr'', ''not-allowed-cidr'', ''ip-blocked''}. check_packet h clk l peer packet s = (SecDrop reason, s)"
  using assms by (auto simp: check_packet_eq blocked_until_def is_blocked_def Let_def)

text \<open>The events that ban a source: its rate, a flood, parse errors, and repeated offenses.\<close>

inductive ban_event ::
  "(string \<Rightarrow> nat) \<Rightarrow> proxy_listener_config \<Rightarrow> sock_addr \<Rightarrow> listener_security_runtime \<Rightarrow> security_runtime
   \<Rightarrow> security_runtime \<Rightarrow> instant \<Rightarrow> u64 \<Rightarrow> bool"
  for h l peer r where
  rate: "check_packet h clk l peer packet s = (SecDrop ''ip-rate-limit'', s') \<Longrightarrow>
     ban_event h l peer r s s' (clk 4) (ie_block_seconds (se_ip_rate_limit (ls_config r)))"
| flood: "check_packet h clk l peer packet s = (SecDrop (snd (snd (flood_limits (se_flood (ls_config r)) (l_transport l)))), s') \<Longrightarrow>
     ban_event h l peer r s s' (clk 2) (fe_block_seconds (se_flood (ls_config r)))"
| parse_errors: "record_parse_error h clk l peer s = (SecDrop ''parse-error-rate-limit'', s') \<Longrightarrow>
     ban_event h l peer r s s' (clk 1) (ie_block_seconds (se_ip_rate_limit (ls_config r)))"
| offenses: "record_dynamic_offense h clk l peer off s = (Some ''dynamic-ban'', s') \<Longrightarrow>
     ban_event h l peer r s s' (clk 1) (be_ban_seconds (se_dynamic_ban (ls_config r)))"

lemma listed_reasons:
  "listed_as_threat r s ip = Some reason \<Longrightarrow>
     reason \<in> {''geo-unavailable'', ''geo-unknown-country'', ''geo-deny-country'', ''geo-not-allowed-country'',
              ''threat-intel-unavailable'', ''threat-intel''}"
  by (auto simp: listed_as_threat_def evaluate_geo_policy_def evaluate_threat_policy_def
      split: if_splits option.splits geo_decision.splits threat_decision.splits)

lemma flood_reasons:
  "snd (snd (flood_limits f t)) \<in> {''udp-flood-rate-limit'', ''tcp-flood-rate-limit'', ''tcp-udp-flood-rate-limit''}"
  by (cases t) (simp_all add: flood_limits_def)

lemma bucket_keeps_blocks [simp]:
  "sr_blocks (snd (runtime_allow_bucket h now k rate burst s)) = sr_blocks s"
  "sr_listeners (snd (runtime_allow_bucket h now k rate burst s)) = sr_listeners s"
  by (simp_all add: runtime_allow_bucket_def split_beta Let_def)

lemma is_blocked_keeps [simp]:
  "sr_listeners (snd (is_blocked h now k s)) = sr_listeners s"
  "sharded_inv h (sr_blocks s) \<Longrightarrow> sharded_inv h (sr_blocks (snd (is_blocked h now k s)))"
  by (auto simp: is_blocked_def sharded.inv_remove split: option.split)

lemma flood_cases:
  assumes "check_flood h clk l ip r s = (res, s')"
  shows "case res of
      None \<Rightarrow> sr_blocks s' = sr_blocks s \<and> sr_listeners s' = sr_listeners s
    | Some reason \<Rightarrow> reason = snd (snd (flood_limits (se_flood (ls_config r)) (l_transport l)))
        \<and> (\<exists>s1. sr_blocks s1 = sr_blocks s \<and> sr_listeners s1 = sr_listeners s \<and>
            (fe_block_seconds (se_flood (ls_config r)) > 0 \<longrightarrow>
             s' = block_for h (clk 2) (ip_security_key ''block'' (listener_key l) ip)
              (fe_block_seconds (se_flood (ls_config r))) (listener_key l) ''ip'' (show_ip ip) reason s1))"
proof -
  obtain rate burst reason where f: "flood_limits (se_flood (ls_config r)) (l_transport l) = (rate, burst, reason)"
    by (metis prod_cases3)
  show ?thesis using assms
    unfolding check_flood_def Let_def f
    by (auto simp: split_beta f split: if_splits intro!: exI [of _ "snd (runtime_allow_bucket h (clk 1) _ _ _ s)"])
qed

lemma ip_rate_cases:
  assumes "check_ip_rate h clk l ip r s = (res, s')"
  shows "res = None \<or> res = Some ''ip-rate-limit'' \<and>
    (\<exists>s1. sr_blocks s1 = sr_blocks s \<and> sr_listeners s1 = sr_listeners s \<and>
       s' = block_for h (clk 4) (ip_security_key ''block'' (listener_key l) ip)
         (ie_block_seconds (se_ip_rate_limit (ls_config r))) (listener_key l) ''ip'' (show_ip ip) ''ip-rate-limit'' s1)"
  using assms unfolding check_ip_rate_def Let_def
  by (auto simp: split_beta split: if_splits intro!: exI [of _ "snd (runtime_allow_bucket h (clk 3) _ _ _ s)"])

lemma limits_drop:
  assumes "check_limits h clk l ip r packet s = (SecDrop reason, s')"
    and "reason \<noteq> ''invalid-start-line''"
  shows "(\<exists>now seconds s1. sr_blocks s1 = sr_blocks s \<and> sr_listeners s1 = sr_listeners s
      \<and> (reason = ''ip-rate-limit'' \<and> now = clk 4 \<and> seconds = ie_block_seconds (se_ip_rate_limit (ls_config r))
         \<or> reason \<noteq> ''ip-rate-limit'' \<and> now = clk 2 \<and> seconds = fe_block_seconds (se_flood (ls_config r)))
      \<and> (seconds > 0 \<longrightarrow> s' = block_for h now (ip_security_key ''block'' (listener_key l) ip) seconds (listener_key l) ''ip''
           (show_ip ip) reason s1))"
proof -
  obtain o2 s2 where f: "check_flood h clk l ip r s = (o2, s2)" by fastforce
  obtain o3 s3 where i: "check_ip_rate h clk l ip r s2 = (o3, s3)" by fastforce
  show ?thesis
  proof (cases o2)
    case (Some rs)
    then have "rs = reason" "s' = s2" using assms(1) by (auto simp: check_limits_def f)
    with flood_cases [OF f] flood_reasons [of "se_flood (ls_config r)" "l_transport l"] Some show ?thesis
      by auto
  next
    case None
    with flood_cases [OF f] have s2: "sr_blocks s2 = sr_blocks s" "sr_listeners s2 = sr_listeners s" by simp_all
    have "o3 \<noteq> None" using assms None by (cases o3) (auto simp: check_limits_def f i check_start_line_def Let_def split: if_splits)
    with ip_rate_cases [OF i] s2 None assms(1) show ?thesis by (auto simp: check_limits_def f i)
  qed
qed

lemma packet_drop_bans:
  assumes "check_packet h clk l peer packet s = (SecDrop reason, s')"
    and "reason \<in> {''ip-rate-limit'', ''udp-flood-rate-limit'', ''tcp-flood-rate-limit'', ''tcp-udp-flood-rate-limit''}"
    and "hm_get (sr_listeners s) (listener_key l) = Some r" and "sharded_inv h (sr_blocks s)"
    and "start = (if reason = ''ip-rate-limit'' then clk 4 else clk 2)"
    and "seconds = (if reason = ''ip-rate-limit'' then ie_block_seconds (se_ip_rate_limit (ls_config r))
       else fe_block_seconds (se_flood (ls_config r)))"
    and "seconds \<noteq> 0" and "start + from_secs (unat seconds) < instant_limit"
  shows "blocked_until h (ip_security_key ''block'' (listener_key l) (sock_ip peer)) (start + from_secs (unat seconds)) s'
    \<and> sr_listeners s' = sr_listeners s"
proof -
  let ?b = "is_blocked h (clk 0) (ip_security_key ''block'' (listener_key l) (sock_ip peer)) s"
  have "listed_as_threat r (snd ?b) (sock_ip peer) \<noteq> Some reason"
    using listed_reasons [of r "snd ?b" "sock_ip peer" reason] assms(2) by auto
  then have "check_limits h clk l (sock_ip peer) r packet (snd ?b) = (SecDrop reason, s')"
    using assms(1-3) by (auto simp: check_packet_eq Let_def split: if_splits option.splits)
  from limits_drop [OF this] assms(2,5,6,7) obtain s1 where
    "sr_blocks s1 = sr_blocks (snd ?b)" "sr_listeners s1 = sr_listeners (snd ?b)"
    "s' = block_for h start (ip_security_key ''block'' (listener_key l) (sock_ip peer)) seconds (listener_key l) ''ip''
       (show_ip (sock_ip peer)) reason s1"
    by (auto simp: word_gt_0)
  with assms(4,7,8) show ?thesis by (auto intro!: block_for_blocks simp: block_for_fields)
qed

lemma parse_error_bans:
  assumes "record_parse_error h clk l peer s = (SecDrop reason, s')"
    and "hm_get (sr_listeners s) (listener_key l) = Some r" and "sharded_inv h (sr_blocks s)"
    and "seconds = ie_block_seconds (se_ip_rate_limit (ls_config r))"
    and "seconds \<noteq> 0" and "clk 1 + from_secs (unat seconds) < instant_limit"
  shows "blocked_until h (ip_security_key ''block'' (listener_key l) (sock_ip peer)) (clk 1 + from_secs (unat seconds)) s'
    \<and> sr_listeners s' = sr_listeners s"
  using assms by (auto simp: record_parse_error_def Let_def split_beta block_for_fields intro!: block_for_blocks split: if_splits)

lemma offense_bans:
  assumes "record_dynamic_offense h clk l peer off s = (Some reason, s')"
    and "hm_get (sr_listeners s) (listener_key l) = Some r" and "sharded_inv h (sr_blocks s)"
    and "seconds = be_ban_seconds (se_dynamic_ban (ls_config r))"
    and "seconds \<noteq> 0" and "clk 1 + from_secs (unat seconds) < instant_limit"
  shows "blocked_until h (ip_security_key ''block'' (listener_key l) (sock_ip peer)) (clk 1 + from_secs (unat seconds)) s'
    \<and> sr_listeners s' = sr_listeners s"
  using assms by (auto simp: record_dynamic_offense_def Let_def split_beta block_for_fields intro!: block_for_blocks
      split: if_splits option.splits)

lemma ban_event_blocks:
  assumes "ban_event h l peer r s s' start seconds" and "hm_get (sr_listeners s) (listener_key l) = Some r"
    and "sharded_inv h (sr_blocks s)" and "seconds \<noteq> 0" and "start + from_secs (unat seconds) < instant_limit"
  shows "blocked_until h (ip_security_key ''block'' (listener_key l) (sock_ip peer)) (start + from_secs (unat seconds)) s'
    \<and> sr_listeners s' = sr_listeners s"
  using assms(1)
proof cases
  case (rate clk packet)
  with assms show ?thesis by (intro packet_drop_bans [where r = r and reason = "''ip-rate-limit''"]) auto
next
  case (flood clk packet)
  note fr = flood_reasons [of "se_flood (ls_config r)" "l_transport l"]
  show ?thesis using packet_drop_bans [OF flood(3) _ assms(2,3)] flood fr assms(4,5) by auto
next
  case (parse_errors clk)
  with assms show ?thesis by (metis parse_error_bans)
next
  case (offenses clk off)
  with assms show ?thesis by (metis offense_bans)
qed

definition runtime_wf :: "(string \<Rightarrow> nat) \<Rightarrow> security_runtime \<Rightarrow> bool" where
  "runtime_wf h s \<longleftrightarrow> sharded_inv h (sr_blocks s)"

lemma runtime_wf_new: "security_runtime_new join read_file ok px = Inr s \<Longrightarrow> runtime_wf h s"
  by (auto simp: security_runtime_new_def Let_def bind_res_Inr_iff runtime_wf_def sharded_inv_new split: if_splits)

lemma runtime_wf_run:
  assumes "runtime_wf h s"
  shows "runtime_wf h (security_run h ops s) \<and> sr_listeners (security_run h ops s) = sr_listeners s"
proof (induction ops rule: rev_induct)
  case (snoc op ops)
  have "op_clock op i < Suc (Max (op_clock op ` {..4}))" if "i \<le> 4" for i
    using that by (simp add: less_Suc_eq_le)
  from ban_step_step [OF this, of h "[]" "security_run h ops s"] snoc show ?case
    by (simp add: security_run_def runtime_wf_def ban_step_def)
qed (simp_all add: security_run_def assms)

section \<open>Property\<close>

text \<open>
  C36: a ban lasts as long as it says.  Take a runtime after any history of packets, parse
  errors, offenses, SIP checks and pruning.  When an event bans a source on a listener (its
  packet rate, a flood, its parse errors, or repeated offenses) for a positive number of
  seconds, then after any further sequence of such events, on any listener and from any
  source, all of whose clock readings lie before the end of the ban, every packet of that
  source on that listener that arrives before the end of the ban is dropped and leaves the
  runtime as it is.
\<close>

theorem ban_lasts:
  assumes "runtime_wf h s0" and "hm_get (sr_listeners s0) (listener_key l) = Some r" and "security_enabled (ls_config r)"
    and "ban_event h l peer r (security_run h before s0) s start seconds"
    and "seconds \<noteq> 0" and "start + from_secs (unat seconds) < instant_limit"
    and "\<forall>op \<in> set after. \<forall>i \<le> 4. op_clock op i < start + from_secs (unat seconds)"
    and "clk 0 < start + from_secs (unat seconds)"
  shows "\<exists>reason \<in> {''denied-cidr'', ''not-allowed-cidr'', ''ip-blocked''}.
     check_packet h clk l peer packet (security_run h after s) = (SecDrop reason, security_run h after s)"
proof -
  let ?key = "ip_security_key ''block'' (listener_key l) (sock_ip peer)" and ?u = "start + from_secs (unat seconds)"
  note run = runtime_wf_run [OF assms(1), of before]
  have "hm_get (sr_listeners (security_run h before s0)) (listener_key l) = Some r" using run assms(2) by simp
  from ban_event_blocks [OF assms(4) this _ assms(5,6)] run
  have s: "blocked_until h ?key ?u s" "sr_listeners s = sr_listeners s0" by (simp_all add: runtime_wf_def)
  have "ban_step h ?key ?u s (security_run h after s)" using assms(7) by (intro ban_step_run) auto
  then have "blocked_until h ?key ?u (security_run h after s)" "hm_get (sr_listeners (security_run h after s)) (listener_key l) = Some r"
    using s assms(2) by (simp_all add: ban_step_def)
  with assms(3,8) show ?thesis by (intro check_packet_blocked)
qed

definition example_listener :: proxy_listener_config where
  "example_listener = \<lparr>l_bind = ''0.0.0.0:5060'', l_transport = Udp, l_upstream_group = ''default'', l_security = None\<rparr>"

definition example_rules :: listener_security_runtime where
  "example_rules = \<lparr>ls_config = default_security\<lparr>se_dynamic_ban :=
       \<lparr>be_enabled = True, be_ban_seconds = 60, be_invalid_packets_per_minute = 1, be_parse_errors_per_minute = 1,
        be_sip_rate_violations_per_minute = 1\<rparr>\<rparr>,
     ls_geo_policy = geo_policy_from_config default_geo, ls_threat_policy = threat_policy_from_config default_threat_intel,
     ls_trusted_cidrs = [], ls_allow_cidrs = [], ls_deny_cidrs = []\<rparr>"

definition example_runtime :: security_runtime where
  "example_runtime = \<lparr>sr_listeners = [(listener_key example_listener, example_rules)], sr_geo = None, sr_threat = None,
     sr_buckets = sharded_new 64, sr_blocks = sharded_new 64, sr_xdp_blocks = []\<rparr>"

lemma f64_of_one: "f64_of_u64 1 = 1"
  by (simp add: f64_of_u64_def f64_of_nat_def round_f64_def ulp_def binade_def round_half_even_def bitlen_def
      floorlog_def Let_def)

lemma per_second_one: "0 < per_second 1"
proof -
  have "f64_eps \<le> 1 / 100" "f64_tiny \<le> 1 / 100" by (simp_all add: f64_eps_def f64_tiny_def)
  moreover have "1 / 60 - round_f64 (1 / 60) \<le> (1 / 60 * f64_eps + f64_tiny) / 2"
    using abs_ge_minus_self [of "round_f64 (1 / 60) - 1 / 60"] round_f64_err [of "1 / 60"] by simp
  ultimately have "0 < round_f64 (1 / 60)" by (simp add: field_simps)
  then show ?thesis by (simp add: per_second_def f64_of_one f64_div_def)
qed

lemma second_call_refused:
  assumes "sharded_inv h b" and "sharded_get h b k = None" and "0 < rate"
  shows "\<not> fst (allow_bucket h t k rate 1 (snd (allow_bucket h t k rate 1 b)))"
proof -
  have "as_secs_f64 0 = 0" by (simp add: as_secs_f64_def f64_of_nat_def f64_div_def f64_add_def)
  then have "snd (token_bucket_allow t rate 1 (token_bucket_new rate 1 t)) = \<lparr>tb_tokens = 0, tb_updated_at = t\<rparr>"
    using round_f64_ge_one [of 1]
    by (simp add: token_bucket_allow_def token_bucket_new_def f64_add_def f64_sub_def f64_mul_def duration_since_def Let_def)
  with assms \<open>as_secs_f64 0 = 0\<close> show ?thesis
    by (simp add: allow_bucket_def Let_def split_beta sharded.get_insert token_bucket_allow_def f64_add_def f64_mul_def
        duration_since_def)
qed

theorem ban_lasts_witness:
  "\<exists>s reason. check_packet (\<lambda>_. 0) (\<lambda>_. from_secs 59) example_listener (SockV4 7 5060) ''INVITE''
      (security_run (\<lambda>_. 0) [SecPrune (\<lambda>_. from_secs 30)] s) = (SecDrop reason, security_run (\<lambda>_. 0) [SecPrune (\<lambda>_. from_secs 30)] s)"
proof -
  let ?h = "\<lambda>_. 0" and ?op = "SecOffense (\<lambda>_. 0) example_listener (SockV4 7 5060) (Some ParseError)"
  let ?s = "security_run ?h [?op] example_runtime"
  have wf: "runtime_wf ?h example_runtime" by (simp add: runtime_wf_def example_runtime_def sharded_inv_new)
  have l: "hm_get (sr_listeners example_runtime) (listener_key example_listener) = Some example_rules"
    by (simp add: example_runtime_def hm_get_def)
  have l': "hm_get (sr_listeners ?s) (listener_key example_listener) = Some example_rules"
    using runtime_wf_run [OF wf, of "[?op]"] l by simp
  have en: "security_enabled (ls_config example_rules)" by (simp add: example_rules_def security_enabled_def)
  have ban: "offense_limit (se_dynamic_ban (ls_config example_rules)) ParseError = 1"
    "be_enabled (se_dynamic_ban (ls_config example_rules))" "\<not> is_trusted example_rules ip"
    "be_ban_seconds (se_dynamic_ban (ls_config example_rules)) = 60" for ip
    by (simp_all add: example_rules_def offense_limit_def is_trusted_def)
  let ?k = "''dynamic-ban|'' @ dynamic_offense_key ParseError @ ''|'' @ listener_key example_listener @ ''|'' @ show_ip (sock_ip (SockV4 7 5060))"
  have b: "sr_buckets ?s = snd (allow_bucket ?h 0 ?k (per_second 1) 1 (sharded_new 64))"
    using ban l by (simp add: security_run_def record_dynamic_offense_def Let_def split_beta runtime_allow_bucket_def f64_of_one
        block_for_def example_runtime_def split: option.split)
  have "\<not> fst (allow_bucket ?h 0 ?k (per_second 1) 1 (sr_buckets ?s))"
    unfolding b by (rule second_call_refused [OF sharded_inv_new _ per_second_one]) simp
  then have "fst (record_dynamic_offense ?h (\<lambda>_. 0) example_listener (SockV4 7 5060) (Some ParseError) ?s) = Some ''dynamic-ban''"
    using ban l' by (simp add: record_dynamic_offense_def Let_def split_beta runtime_allow_bucket_def f64_of_one)
  then obtain s where "record_dynamic_offense ?h (\<lambda>_. 0) example_listener (SockV4 7 5060) (Some ParseError) ?s = (Some ''dynamic-ban'', s)"
    by (metis prod.collapse)
  then have ev: "ban_event ?h example_listener (SockV4 7 5060) example_rules ?s s 0 60"
    using ban_event.offenses [of ?h "\<lambda>_. 0" example_listener "SockV4 7 5060" "Some ParseError" ?s s example_rules] ban by simp
  from ban_lasts [OF wf l en ev, of "[SecPrune (\<lambda>_. from_secs 30)]" "\<lambda>_. from_secs 59" "''INVITE''"]
  show ?thesis by (auto simp: from_secs_def instant_limit_def)
qed

end
