(* ===== verification/Upstreams.thy ===== *)
theory Upstreams
  imports Routing Throttle
begin

text \<open>
  Upstream groups of \<open>proxy/server.rs\<close>: \<open>UpstreamGroupRuntime\<close> (round robin over healthy
  servers, health counters), \<open>UpstreamGroups\<close>, \<open>UpstreamSources\<close>, the trusted networks derived
  from them, \<open>select_upstream\<close> and one round of health checks.  Name resolution
  (\<open>to_socket_addrs\<close>) is the parameter \<open>resolve\<close>.  Shown here: selection is round robin and
  finds a healthy server when there is one, and the health flag of a server is the verdict
  of a specification over the history of its results alone.
\<close>

section \<open>One group\<close>

datatype upstream_error =
    ResolveFailed string string
  | NoAddress string string
  | UnknownGroup string
  | NoServers string

definition resolve_upstream_server ::
  "(string \<Rightarrow> sock_addr list option) \<Rightarrow> string \<Rightarrow> string \<Rightarrow> upstream_error + sock_addr" where
  "resolve_upstream_server resolve gname server =
     (case parse_sock server of
        Some addr \<Rightarrow> Inr addr
      | None \<Rightarrow>
          (case resolve server of
             None \<Rightarrow> Inl (ResolveFailed gname server)
           | Some [] \<Rightarrow> Inl (NoAddress gname server)
           | Some (addr # _) \<Rightarrow> Inr addr))"

record upstream_group_runtime =
  ur_name :: string
  ur_servers :: "sock_addr list"
  ur_health :: "bool list"
  ur_consecutive_successes :: "usize list"
  ur_consecutive_failures :: "usize list"
  ur_next :: usize
  ur_health_check :: upstream_health_check_config

definition upstream_group_new ::
  "(string \<Rightarrow> sock_addr list option) \<Rightarrow> upstream_group_config \<Rightarrow> upstream_error + upstream_group_runtime" where
  "upstream_group_new resolve config =
     bind_res (collect_res (resolve_upstream_server resolve (ug_name config)) (ug_servers config)) (\<lambda>servers.
       Inr \<lparr>ur_name = ug_name config, ur_servers = servers, ur_health = map (\<lambda>_. True) servers,
            ur_consecutive_successes = map (\<lambda>_. 0) servers, ur_consecutive_failures = map (\<lambda>_. 0) servers,
            ur_next = 0, ur_health_check = ug_health_check config\<rparr>)"

text \<open>
  Each pass of the loop takes a ticket from \<open>next\<close>; after one pass per server without a
  healthy one the next ticket decides.
\<close>

fun select_loop :: "nat \<Rightarrow> upstream_group_runtime \<Rightarrow> sock_addr \<times> upstream_group_runtime" where
  "select_loop 0 g =
     (ur_servers g ! (unat (ur_next g) mod length (ur_servers g)), g\<lparr>ur_next := ur_next g + 1\<rparr>)"
| "select_loop (Suc k) g =
     (let index = unat (ur_next g) mod length (ur_servers g); g' = g\<lparr>ur_next := ur_next g + 1\<rparr>
      in if ur_health g ! index then (ur_servers g ! index, g') else select_loop k g')"

definition group_select :: "upstream_group_runtime \<Rightarrow> (upstream_error + sock_addr) \<times> upstream_group_runtime" where
  "group_select g =
     (if ur_servers g = [] then (Inl (NoServers (ur_name g)), g)
      else let (addr, g') = select_loop (length (ur_servers g)) g in (Inr addr, g'))"

record health_record_update =
  hu_was_healthy :: bool
  hu_is_healthy :: bool
  hu_consecutive_successes :: usize
  hu_consecutive_failures :: usize

definition record_health_result ::
  "nat \<Rightarrow> bool \<Rightarrow> upstream_group_runtime \<Rightarrow> health_record_update \<times> upstream_group_runtime" where
  "record_health_result index healthy g =
     (let g' =
        (if healthy
         then let successes = ur_consecutive_successes g ! index + 1
              in g\<lparr>ur_consecutive_failures := (ur_consecutive_failures g)[index := 0],
                   ur_consecutive_successes := (ur_consecutive_successes g)[index := successes],
                   ur_health := (if successes \<ge> hc_success_threshold (ur_health_check g)
                                 then (ur_health g)[index := True] else ur_health g)\<rparr>
         else let failures = ur_consecutive_failures g ! index + 1
              in g\<lparr>ur_consecutive_successes := (ur_consecutive_successes g)[index := 0],
                   ur_consecutive_failures := (ur_consecutive_failures g)[index := failures],
                   ur_health := (if failures \<ge> hc_failure_threshold (ur_health_check g)
                                 then (ur_health g)[index := False] else ur_health g)\<rparr>)
      in (\<lparr>hu_was_healthy = ur_health g ! index, hu_is_healthy = ur_health g' ! index,
           hu_consecutive_successes = ur_consecutive_successes g' ! index,
           hu_consecutive_failures = ur_consecutive_failures g' ! index\<rparr>, g'))"

definition record_passive_result_at :: "nat \<Rightarrow> bool \<Rightarrow> upstream_group_runtime \<Rightarrow> upstream_group_runtime" where
  "record_passive_result_at index healthy g =
     (if \<not> hc_enabled (ur_health_check g) then g
      else if index < length (ur_servers g) then snd (record_health_result index healthy g) else g)"

definition is_healthy_at :: "nat \<Rightarrow> upstream_group_runtime \<Rightarrow> bool" where
  "is_healthy_at index g = ur_health g ! index"

record upstream_health_snapshot =
  us_group :: string
  us_server :: string
  us_healthy :: bool
  us_consecutive_successes :: usize
  us_consecutive_failures :: usize

definition group_health_snapshots :: "upstream_group_runtime \<Rightarrow> upstream_health_snapshot list" where
  "group_health_snapshots g =
     map (\<lambda>(index, server). \<lparr>us_group = ur_name g, us_server = show_sock server, us_healthy = ur_health g ! index,
            us_consecutive_successes = ur_consecutive_successes g ! index,
            us_consecutive_failures = ur_consecutive_failures g ! index\<rparr>)
       (enumerate 0 (ur_servers g))"

text \<open>
  One round of health checks: the results of the probes in the order in which they finish,
  with the time of handling.  A probe task that panics has no result.
\<close>

definition handle_probe_result ::
  "nat \<times> bool \<times> instant \<Rightarrow> upstream_group_runtime \<times> health_check_failure_log list
   \<Rightarrow> upstream_group_runtime \<times> health_check_failure_log list" where
  "handle_probe_result = (\<lambda>(index, healthy, now) (g, logs).
     (snd (record_health_result index healthy g),
      if index < length logs
      then logs[index := snd (if healthy then health_recovered (logs ! index) else health_warn_if_due now (logs ! index))]
      else logs))"

definition health_check_round ::
  "(nat \<times> bool \<times> instant) list \<Rightarrow> upstream_group_runtime \<times> health_check_failure_log list
   \<Rightarrow> upstream_group_runtime \<times> health_check_failure_log list" where
  "health_check_round results st = fold handle_probe_result results st"

section \<open>All groups\<close>

record upstream_groups =
  ups_groups :: "(string, upstream_group_runtime) hmap"
  ups_servers_by_addr :: "(sock_addr, (string \<times> nat) list) hmap"

text \<open>The servers of a group with the index of their first occurrence.\<close>

definition first_indices :: "sock_addr list \<Rightarrow> (nat \<times> sock_addr) list" where
  "first_indices servers = filter (\<lambda>(i, a). a \<notin> set (take i servers)) (enumerate 0 servers)"

definition index_group ::
  "string \<times> upstream_group_runtime \<Rightarrow> (sock_addr, (string \<times> nat) list) hmap \<Rightarrow> (sock_addr, (string \<times> nat) list) hmap" where
  "index_group = (\<lambda>(gname, g) m.
     fold (\<lambda>(i, a) m. hm_insert a ((case hm_get m a of None \<Rightarrow> [] | Some refs \<Rightarrow> refs) @ [(gname, i)]) m)
       (first_indices (ur_servers g)) m)"

definition upstream_groups_new ::
  "(string \<Rightarrow> sock_addr list option) \<Rightarrow> upstream_group_config list \<Rightarrow> upstream_error + upstream_groups" where
  "upstream_groups_new resolve configs =
     bind_res (collect_res (\<lambda>c. bind_res (upstream_group_new resolve c) (\<lambda>g. Inr (ug_name c, g))) configs) (\<lambda>pairs.
       let groups = foldl (\<lambda>m (k, g). hm_insert k g m) hm_empty pairs
       in Inr \<lparr>ups_groups = groups, ups_servers_by_addr = fold index_group groups hm_empty\<rparr>)"

definition ups_select :: "string \<Rightarrow> upstream_groups \<Rightarrow> (upstream_error + sock_addr) \<times> upstream_groups" where
  "ups_select name u =
     (case hm_get (ups_groups u) name of
        None \<Rightarrow> (Inl (UnknownGroup name), u)
      | Some g \<Rightarrow> let (res, g') = group_select g in (res, u\<lparr>ups_groups := hm_insert name g' (ups_groups u)\<rparr>))"

definition record_passive_result :: "sock_addr \<Rightarrow> bool \<Rightarrow> upstream_groups \<Rightarrow> upstream_groups" where
  "record_passive_result server healthy u =
     (case hm_get (ups_servers_by_addr u) server of
        None \<Rightarrow> u
      | Some refs \<Rightarrow>
          u\<lparr>ups_groups := fold (\<lambda>(gname, i) m.
              (case hm_get m gname of None \<Rightarrow> m
               | Some g \<Rightarrow> hm_insert gname (record_passive_result_at i healthy g) m)) refs (ups_groups u)\<rparr>)"

definition ups_is_healthy :: "sock_addr \<Rightarrow> upstream_groups \<Rightarrow> bool" where
  "ups_is_healthy server u =
     (case hm_get (ups_servers_by_addr u) server of
        None \<Rightarrow> True
      | Some refs \<Rightarrow> list_ex (\<lambda>(gname, i).
          (case hm_get (ups_groups u) gname of None \<Rightarrow> False | Some g \<Rightarrow> is_healthy_at i g)) refs)"

definition ups_contains :: "sock_addr \<Rightarrow> upstream_groups \<Rightarrow> bool" where
  "ups_contains server u \<longleftrightarrow> hm_get (ups_servers_by_addr u) server \<noteq> None"

definition ups_health_snapshots :: "upstream_groups \<Rightarrow> upstream_health_snapshot list" where
  "ups_health_snapshots u = concat (map (group_health_snapshots \<circ> snd) (ups_groups u))"

text \<open>The order of \<open>IpAddr\<close> in a \<open>BTreeSet\<close>: IPv4 before IPv6, each by value.\<close>

fun ip_rank :: "ip_addr \<Rightarrow> nat" where
  "ip_rank (V4 a) = unat a"
| "ip_rank (V6 a) = 2 ^ 32 + unat a"

fun exact_ip_cidr :: "ip_addr \<Rightarrow> string" where
  "exact_ip_cidr (V4 a) = show_ip (V4 a) @ ''/32''"
| "exact_ip_cidr (V6 a) = show_ip (V6 a) @ ''/128''"

definition automatic_trusted_cidrs :: "upstream_groups \<Rightarrow> string list" where
  "automatic_trusted_cidrs u =
     map exact_ip_cidr (sort_key ip_rank (remdups (map (sock_ip \<circ> fst) (ups_servers_by_addr u))))"

record upstream_sources =
  src_cidrs :: "cidr list"

definition upstream_sources_new :: "string list \<Rightarrow> cidr_error + upstream_sources" where
  "upstream_sources_new cidrs = bind_res (parse_cidrs cidrs) (\<lambda>cs. Inr \<lparr>src_cidrs = cs\<rparr>)"

definition upstream_sources_contains :: "upstream_sources \<Rightarrow> sock_addr \<Rightarrow> bool" where
  "upstream_sources_contains u peer \<longleftrightarrow> list_ex (\<lambda>c. cidr_contains c (sock_ip peer)) (src_cidrs u)"

definition push_missing :: "string list \<Rightarrow> string list \<Rightarrow> string list" where
  "push_missing xs ys = foldl (\<lambda>acc y. if y \<in> set acc then acc else acc @ [y]) xs ys"

definition merge_trusted_cidrs :: "string list option \<Rightarrow> string list \<Rightarrow> string list option" where
  "merge_trusted_cidrs configured automatic =
     Some (push_missing (case configured of None \<Rightarrow> [] | Some cs \<Rightarrow> cs) automatic)"

definition proxy_config_with_automatic_upstream_trusted_cidrs :: "proxy_config \<Rightarrow> upstream_groups \<Rightarrow> proxy_config" where
  "proxy_config_with_automatic_upstream_trusted_cidrs px u =
     (let automatic = push_missing (automatic_trusted_cidrs u) (px_upstream_source_cidrs px)
      in if automatic = [] then px
         else let merge = (\<lambda>sec. sec\<lparr>sc_trusted_cidrs := merge_trusted_cidrs (sc_trusted_cidrs sec) automatic\<rparr>)
              in px\<lparr>px_security := merge (px_security px),
                    px_listeners := map (\<lambda>l. l\<lparr>l_security := map_option merge (l_security l)\<rparr>) (px_listeners px)\<rparr>)"

record upstream_target =
  ut_addr :: sock_addr
  ut_transport :: sip_transport

text \<open>\<open>None\<close> is the panic of \<open>expect\<close>.\<close>

definition select_upstream ::
  "(string \<Rightarrow> string option) \<Rightarrow> route_table \<Rightarrow> string \<Rightarrow> proxy_listener_config \<Rightarrow> upstream_groups
   \<Rightarrow> upstream_target option \<times> upstream_groups" where
  "select_upstream uri_host routes uri listener u =
     (let gname = (case route_select uri_host routes (listener_key listener) uri of
            None \<Rightarrow> l_upstream_group listener | Some r \<Rightarrow> sr_upstream_group r);
          (res, u') = ups_select gname u
      in (case res of Inl _ \<Rightarrow> None | Inr addr \<Rightarrow> Some \<lparr>ut_addr = addr, ut_transport = l_transport listener\<rparr>, u'))"

definition is_healthy_upstream_target :: "upstream_target \<Rightarrow> upstream_groups \<Rightarrow> bool" where
  "is_healthy_upstream_target target u \<longleftrightarrow> ups_contains (ut_addr target) u \<and> ups_is_healthy (ut_addr target) u"

section \<open>Selection\<close>

lemma select_loop_tickets:
  assumes "unat (ur_next g) + k < 2 ^ 64"
  shows "\<exists>j \<le> k. select_loop k g =
      (ur_servers g ! ((unat (ur_next g) + j) mod length (ur_servers g)), g\<lparr>ur_next := ur_next g + word_of_nat (Suc j)\<rparr>)
    \<and> (\<forall>j' < j. \<not> ur_health g ! ((unat (ur_next g) + j') mod length (ur_servers g)))
    \<and> (j < k \<longrightarrow> ur_health g ! ((unat (ur_next g) + j) mod length (ur_servers g)))"
  using assms
proof (induction k arbitrary: g)
  case 0
  then show ?case by simp
next
  case (Suc k)
  let ?n = "length (ur_servers g)" and ?g = "g\<lparr>ur_next := ur_next g + 1\<rparr>"
  show ?case
  proof (cases "ur_health g ! (unat (ur_next g) mod ?n)")
    case True
    then show ?thesis by (intro exI [of _ 0]) (simp add: Let_def)
  next
    case False
    have nx: "unat (ur_next g + 1) = Suc (unat (ur_next g))" using Suc.prems by (simp add: unat_word_ariths)
    with Suc.IH [of ?g] Suc.prems nx obtain j where j: "j \<le> k"
      "select_loop k ?g = (ur_servers g ! ((Suc (unat (ur_next g)) + j) mod ?n), ?g\<lparr>ur_next := ur_next ?g + word_of_nat (Suc j)\<rparr>)"
      "\<forall>j' < j. \<not> ur_health g ! ((Suc (unat (ur_next g)) + j') mod ?n)"
      "j < k \<longrightarrow> ur_health g ! ((Suc (unat (ur_next g)) + j) mod ?n)"
      by auto
    have "\<not> ur_health g ! ((unat (ur_next g) + j') mod ?n)" if "j' < Suc j" for j'
      using that False j(3) by (cases j') auto
    with j False show ?thesis
      by (intro exI [of _ "Suc j"]) (simp add: Let_def algebra_simps)
  qed
qed

lemma residue_reached:
  assumes "i < (n :: nat)"
  shows "\<exists>j < n. (a + j) mod n = i"
proof -
  let ?j = "(i + (n - a mod n)) mod n"
  have "(a + ?j) mod n = (a mod n + (i + (n - a mod n))) mod n" by (simp add: mod_simps)
  also have "a mod n \<le> n" using assms by (simp add: less_imp_le)
  then have "a mod n + (i + (n - a mod n)) = n + i" by linarith
  finally show ?thesis using assms by (intro exI [of _ ?j]) simp
qed

definition group_wf :: "upstream_group_runtime \<Rightarrow> bool" where
  "group_wf g \<longleftrightarrow> length (ur_health g) = length (ur_servers g)
     \<and> length (ur_consecutive_successes g) = length (ur_servers g)
     \<and> length (ur_consecutive_failures g) = length (ur_servers g)"

lemma group_wf_new: "upstream_group_new resolve c = Inr g \<Longrightarrow> group_wf g"
  by (auto simp: upstream_group_new_def bind_res_Inr_iff group_wf_def)

lemma group_wf_result: "group_wf g \<Longrightarrow> group_wf (snd (record_health_result i healthy g))"
  by (simp add: group_wf_def record_health_result_def Let_def)

lemma select_loop_other_fields:
  "ur_servers (snd (select_loop k g)) = ur_servers g" "ur_health (snd (select_loop k g)) = ur_health g"
  by (induction k arbitrary: g) (simp_all add: Let_def)

lemma select_loop_server: "ur_servers g \<noteq> [] \<Longrightarrow> fst (select_loop k g) \<in> set (ur_servers g)"
proof (induction k arbitrary: g)
  case (Suc k)
  with Suc.IH [of "g\<lparr>ur_next := ur_next g + 1\<rparr>"] show ?case by (simp add: Let_def)
qed simp

section \<open>Health\<close>

text \<open>The number of results equal to \<open>x\<close> at the end of a history, and what the thresholds make of it.\<close>

definition trailing :: "bool \<Rightarrow> bool list \<Rightarrow> nat" where
  "trailing x rs = length (takeWhile (\<lambda>r. r = x) (rev rs))"

fun verdict_rev :: "nat \<Rightarrow> nat \<Rightarrow> bool list \<Rightarrow> bool" where
  "verdict_rev S F [] = True"
| "verdict_rev S F (x # rs) =
     (if length (takeWhile (\<lambda>r. r = x) (x # rs)) \<ge> (if x then S else F) then x else verdict_rev S F rs)"

definition verdict :: "nat \<Rightarrow> nat \<Rightarrow> bool list \<Rightarrow> bool" where
  "verdict S F rs = verdict_rev S F (rev rs)"

lemma verdict_snoc:
  "verdict S F (rs @ [x]) = (if trailing x (rs @ [x]) \<ge> (if x then S else F) then x else verdict S F rs)"
  by (simp add: verdict_def trailing_def)

lemma trailing_snoc [simp]:
  "trailing x (rs @ [x]) = Suc (trailing x rs)" "x \<noteq> y \<Longrightarrow> trailing x (rs @ [y]) = 0"
  by (simp_all add: trailing_def)

lemma trailing_le: "trailing x rs \<le> length rs"
  by (metis length_rev length_takeWhile_le trailing_def)

lemma trailing_replicate: "trailing x (rs @ replicate n x) \<ge> n"
  by (simp add: trailing_def takeWhile_append)

lemma record_result_at:
  assumes "group_wf g" and "i < length (ur_servers g)"
  shows "ur_health (snd (record_health_result j x g)) ! i =
      (if j \<noteq> i then ur_health g ! i
       else if x then (if ur_consecutive_successes g ! i + 1 \<ge> hc_success_threshold (ur_health_check g) then True else ur_health g ! i)
       else (if ur_consecutive_failures g ! i + 1 \<ge> hc_failure_threshold (ur_health_check g) then False else ur_health g ! i))"
    and "ur_consecutive_successes (snd (record_health_result j x g)) ! i =
      (if j \<noteq> i then ur_consecutive_successes g ! i else if x then ur_consecutive_successes g ! i + 1 else 0)"
    and "ur_consecutive_failures (snd (record_health_result j x g)) ! i =
      (if j \<noteq> i then ur_consecutive_failures g ! i else if x then 0 else ur_consecutive_failures g ! i + 1)"
    and "ur_servers (snd (record_health_result j x g)) = ur_servers g"
    and "ur_health_check (snd (record_health_result j x g)) = ur_health_check g"
  using assms by (auto simp: record_health_result_def Let_def group_wf_def)

text \<open>The counters and the flag of server \<open>i\<close> are those of the history \<open>hist\<close> of its results.\<close>

definition tracks ::
  "sock_addr list \<Rightarrow> upstream_health_check_config \<Rightarrow> nat \<Rightarrow> upstream_group_runtime \<Rightarrow> bool list \<Rightarrow> bool" where
  "tracks servers hc i g hist \<longleftrightarrow> group_wf g \<and> ur_servers g = servers \<and> ur_health_check g = hc
    \<and> unat (ur_consecutive_successes g ! i) = trailing True hist
    \<and> unat (ur_consecutive_failures g ! i) = trailing False hist
    \<and> ur_health g ! i = verdict (unat (hc_success_threshold hc)) (unat (hc_failure_threshold hc)) hist"

lemma tracks_result:
  assumes t: "tracks servers hc i g hist" and i: "i < length servers" and bound: "length hist < 2 ^ 64 - 1"
  shows "tracks servers hc i (snd (record_health_result j x g)) (if j = i then hist @ [x] else hist)"
proof -
  note T = t [unfolded tracks_def]
  have g: "group_wf g" "i < length (ur_servers g)" using T i by simp_all
  have "trailing y hist < 2 ^ 64 - 1" for y using trailing_le [of y hist] bound by simp
  then have up: "unat (ur_consecutive_successes g ! i + 1) = Suc (trailing True hist)"
    "unat (ur_consecutive_failures g ! i + 1) = Suc (trailing False hist)"
    using T by (simp_all add: unat_word_ariths)
  show ?thesis
    unfolding tracks_def using record_result_at [OF g, of j x] T up group_wf_result [OF g(1), of j x]
    by (cases "j = i"; cases x) (simp_all add: verdict_snoc word_le_nat_alt)
qed

lemma tracks_passive:
  assumes t: "tracks servers hc i g hist" and i: "i < length servers" and bound: "length hist < 2 ^ 64 - 1"
  shows "tracks servers hc i (record_passive_result_at j x g) (if hc_enabled hc \<and> j = i then hist @ [x] else hist)"
  using tracks_result [OF assms, of j x] t i
  by (auto simp: record_passive_result_at_def tracks_def split: if_splits)

lemma tracks_passives:
  assumes "tracks servers hc i g hist" and "i < length servers" and "length hist < 2 ^ 64 - 1" and "distinct js"
  shows "tracks servers hc i (fold (\<lambda>j. record_passive_result_at j x) js g)
    (hist @ (if hc_enabled hc \<and> i \<in> set js then [x] else []))"
proof -
  have skip: "tracks servers hc i (record_passive_result_at j x h) hist'" if "j \<noteq> i" "tracks servers hc i h hist'" for j h hist'
    using that assms(2) group_wf_result [of h j x] record_result_at [of h i j x]
    by (auto simp: record_passive_result_at_def tracks_def)
  have others: "tracks servers hc i (fold (\<lambda>j. record_passive_result_at j x) ks h) hist'"
    if "i \<notin> set ks" "tracks servers hc i h hist'" for ks h hist'
    using that
  proof (induction ks arbitrary: h)
    case (Cons k ks)
    then have "tracks servers hc i (record_passive_result_at k x h) hist'" by (intro skip) auto
    with Cons show ?case by simp
  qed simp
  show ?thesis
  proof (cases "i \<in> set js")
    case False
    then show ?thesis using others [OF False assms(1)] by simp
  next
    case True
    then obtain ks ls where js: "js = ks @ i # ls" "i \<notin> set ks" "i \<notin> set ls"
      using assms(4) by (auto dest!: split_list)
    have "tracks servers hc i (fold (\<lambda>j. record_passive_result_at j x) ks g) hist" by (rule others [OF js(2) assms(1)])
    from others [OF js(3) tracks_passive [OF this assms(2,3), of i x]] show ?thesis
      by (auto simp: js(1) split: if_splits)
  qed
qed

lemma trailing_suffix: "\<exists>pre. rs = pre @ replicate (trailing x rs) x"
proof -
  have "takeWhile (\<lambda>r. r = x) (rev rs) = replicate (trailing x rs) x"
    unfolding trailing_def by (rule replicate_length_same [symmetric]) (auto dest: set_takeWhileD)
  then have "rev rs = replicate (trailing x rs) x @ dropWhile (\<lambda>r. r = x) (rev rs)"
    by (metis takeWhile_dropWhile_id)
  then have "rs = rev (dropWhile (\<lambda>r. r = x) (rev rs)) @ replicate (trailing x rs) x"
    by (metis rev_append rev_replicate rev_rev_ident)
  then show ?thesis by blast
qed

lemma unhealthy_verdict: "\<not> verdict S F rs \<Longrightarrow> \<exists>pre post. rs = pre @ replicate F False @ post"
proof (induction rs rule: rev_induct)
  case Nil
  then show ?case by (simp add: verdict_def)
next
  case (snoc x rs)
  show ?case
  proof (cases "\<not> x \<and> trailing x (rs @ [x]) \<ge> F")
    case True
    then obtain k where k: "trailing x (rs @ [x]) = k + F" by (metis add.commute le_Suc_ex)
    obtain pre where "rs @ [x] = pre @ replicate (trailing x (rs @ [x])) x" using trailing_suffix by blast
    with k True have "rs @ [x] = (pre @ replicate k False) @ replicate F False @ []" by (simp add: replicate_add)
    then show ?thesis by blast
  next
    case False
    with snoc.prems have "\<not> verdict S F rs" by (auto simp: verdict_snoc split: if_splits)
    with snoc.IH obtain pre post where "rs = pre @ replicate F False @ post" by blast
    then have "rs @ [x] = pre @ replicate F False @ (post @ [x])" by simp
    then show ?thesis by blast
  qed
qed

lemma verdict_run:
  assumes "n > 0" and "n \<ge> (if x then S else F)"
  shows "verdict S F (rs @ replicate n x) = x"
proof -
  obtain m where n: "n = Suc m" using assms(1) by (cases n) auto
  have "rs @ replicate n x = (rs @ replicate m x) @ [x]" by (simp add: n replicate_append_same)
  moreover have "trailing x (rs @ replicate n x) \<ge> (if x then S else F)"
    using trailing_replicate [of n x rs] assms(2) by (simp split: if_splits)
  ultimately show ?thesis by (metis verdict_snoc)
qed

text \<open>
  With several tasks the tickets of one selection need not be consecutive: with servers
  \<open>a\<close> (unhealthy) and \<open>b\<close> (healthy) and tickets 0, 2 and 4, the others going to other tasks,
  the selection ends at \<open>a\<close>.
\<close>

fun select_with :: "(nat \<Rightarrow> nat) \<Rightarrow> nat \<Rightarrow> nat \<Rightarrow> upstream_group_runtime \<Rightarrow> sock_addr" where
  "select_with ticket i 0 g = ur_servers g ! (ticket i mod length (ur_servers g))"
| "select_with ticket i (Suc k) g =
     (let index = ticket i mod length (ur_servers g)
      in if ur_health g ! index then ur_servers g ! index else select_with ticket (Suc i) k g)"

lemma select_loop_with:
  assumes "unat (ur_next g) + k < 2 ^ 64"
  shows "fst (select_loop k g) = select_with (\<lambda>j. unat (ur_next g) + (j - i)) i k g"
  using assms
proof (induction k arbitrary: g i)
  case (Suc k)
  let ?g = "g\<lparr>ur_next := ur_next g + 1\<rparr>"
  have nx: "unat (ur_next g + 1) = Suc (unat (ur_next g))" using Suc.prems by (simp add: unat_word_ariths)
  have shift: "select_with f (Suc i) k ?g = select_with f' (Suc i) k g" if "\<And>j. j \<ge> Suc i \<Longrightarrow> f j = f' j" for f f'
    using that by (induction k arbitrary: i) (simp_all add: Let_def)
  have "fst (select_loop k ?g) = select_with (\<lambda>j. Suc (unat (ur_next g)) + (j - Suc i)) (Suc i) k ?g"
    using Suc.IH [of ?g "Suc i"] Suc.prems nx by simp
  also have "\<dots> = select_with (\<lambda>j. unat (ur_next g) + (j - i)) (Suc i) k g"
    by (rule shift) simp
  finally show ?case by (simp add: Let_def)
qed simp

lemma contended_selection_misses_healthy:
  assumes "ur_servers g = [a, b]" and "ur_health g = [False, True]"
  shows "select_with (\<lambda>j. 2 * j) 0 2 g = a"
proof -
  have "2 mod Suc (Suc 0) = 0" "4 mod Suc (Suc 0) = 0" by presburger+
  then have "select_with (\<lambda>j. 2 * j) 0 (Suc (Suc 0)) g = a" using assms by (simp add: Let_def)
  then show ?thesis by (simp add: numeral_2_eq_2)
qed

section \<open>What the groups keep\<close>

datatype ups_op =
    UpsSelect string
  | UpsPassive sock_addr bool
  | UpsProbe string nat bool

fun ups_step :: "ups_op \<Rightarrow> upstream_groups \<Rightarrow> upstream_groups" where
  "ups_step (UpsSelect name) u = snd (ups_select name u)"
| "ups_step (UpsPassive addr healthy) u = record_passive_result addr healthy u"
| "ups_step (UpsProbe name i healthy) u =
     (case hm_get (ups_groups u) name of None \<Rightarrow> u
      | Some g \<Rightarrow> u\<lparr>ups_groups := hm_insert name (snd (record_health_result i healthy g)) (ups_groups u)\<rparr>)"

text \<open>Every configured group is there, with the addresses its servers resolved to.\<close>

definition groups_hold ::
  "(string \<Rightarrow> sock_addr list option) \<Rightarrow> upstream_group_config list \<Rightarrow> (string, upstream_group_runtime) hmap \<Rightarrow> bool" where
  "groups_hold resolve configs m \<longleftrightarrow> hm_inv m \<and>
     (\<forall>c \<in> set configs. \<exists>g. hm_get m (ug_name c) = Some g \<and>
        collect_res (resolve_upstream_server resolve (ug_name c)) (ug_servers c) = Inr (ur_servers g))"

lemma groups_hold_insert:
  assumes "groups_hold resolve configs m" and "hm_get m name = Some g" and "ur_servers g' = ur_servers g"
  shows "groups_hold resolve configs (hm_insert name g' m)"
  using assms by (auto simp: groups_hold_def hm_simps)

lemma groups_hold_passive:
  assumes "groups_hold resolve configs m"
  shows "groups_hold resolve configs (fold (\<lambda>(gname, i) m.
      (case hm_get m gname of None \<Rightarrow> m | Some g \<Rightarrow> hm_insert gname (record_passive_result_at i healthy g) m)) refs m)"
  using assms
proof (induction refs arbitrary: m)
  case (Cons r refs)
  have "groups_hold resolve configs (case r of (gname, i) \<Rightarrow>
      (case hm_get m gname of None \<Rightarrow> m | Some g \<Rightarrow> hm_insert gname (record_passive_result_at i healthy g) m))"
    using Cons.prems
    by (auto simp: record_passive_result_at_def record_health_result_def Let_def
        intro!: groups_hold_insert split: option.split prod.split)
  with Cons.IH show ?case by (auto split: prod.splits)
qed simp

lemma groups_hold_step: "groups_hold resolve configs (ups_groups u) \<Longrightarrow> groups_hold resolve configs (ups_groups (ups_step op u))"
  by (cases op) (auto simp: ups_select_def group_select_def record_passive_result_def record_health_result_def Let_def
      select_loop_other_fields split_beta intro!: groups_hold_insert groups_hold_passive split: option.split)

lemma groups_hold_run: "groups_hold resolve configs (ups_groups u) \<Longrightarrow> groups_hold resolve configs (ups_groups (fold ups_step ops u))"
  by (induction ops arbitrary: u) (auto intro: groups_hold_step)

lemma list_all2_left: "list_all2 P xs ys \<Longrightarrow> x \<in> set xs \<Longrightarrow> \<exists>y \<in> set ys. P x y"
  by (induction rule: list_all2_induct) auto

lemma list_all2_right: "list_all2 P xs ys \<Longrightarrow> y \<in> set ys \<Longrightarrow> \<exists>x \<in> set xs. P x y"
  by (induction rule: list_all2_induct) auto

lemma foldl_insert_pairs:
  "distinct (map fst pairs) \<Longrightarrow> hm_inv m \<Longrightarrow>
     hm_inv (foldl (\<lambda>m (k, g). hm_insert k g m) m pairs) \<and>
     (\<forall>(k, g) \<in> set pairs. hm_get (foldl (\<lambda>m (k, g). hm_insert k g m) m pairs) k = Some g) \<and>
     (\<forall>k. k \<notin> fst ` set pairs \<longrightarrow> hm_get (foldl (\<lambda>m (k, g). hm_insert k g m) m pairs) k = hm_get m k)"
proof (induction pairs arbitrary: m)
  case (Cons p pairs)
  obtain k g where p: "p = (k, g)" by (cases p)
  with Cons.IH [of "hm_insert k g m"] Cons.prems show ?case by (auto simp: hm_simps)
qed simp

lemma groups_hold_new:
  assumes "upstream_groups_new resolve configs = Inr u" and "distinct (map ug_name configs)"
  shows "groups_hold resolve configs (ups_groups u)"
proof -
  let ?f = "\<lambda>c. bind_res (upstream_group_new resolve c) (\<lambda>g. Inr (ug_name c, g))"
  obtain pairs where pairs: "collect_res ?f configs = Inr pairs"
    and u: "ups_groups u = foldl (\<lambda>m (k, g). hm_insert k g m) hm_empty pairs"
    using assms(1) by (auto simp: upstream_groups_new_def bind_res_Inr_iff Let_def)
  have all: "list_all2 (\<lambda>c p. ?f c = Inr p) configs pairs" using pairs by (simp add: collect_res_Inr_iff)
  then have "map fst pairs = map ug_name configs"
    by (induction rule: list_all2_induct) (auto simp: bind_res_Inr_iff)
  with assms(2) foldl_insert_pairs [of pairs hm_empty] u
  have m: "hm_inv (ups_groups u)" "\<And>k g. (k, g) \<in> set pairs \<Longrightarrow> hm_get (ups_groups u) k = Some g" by auto
  have "\<exists>g. (ug_name c, g) \<in> set pairs \<and> collect_res (resolve_upstream_server resolve (ug_name c)) (ug_servers c) = Inr (ur_servers g)"
    if "c \<in> set configs" for c
  proof -
    from list_all2_left [OF all that] obtain p where p: "p \<in> set pairs" "?f c = Inr p" by blast
    then obtain g where "upstream_group_new resolve c = Inr g" "p = (ug_name c, g)" by (auto simp: bind_res_Inr_iff)
    moreover from this(1) have "collect_res (resolve_upstream_server resolve (ug_name c)) (ug_servers c) = Inr (ur_servers g)"
      by (auto simp: upstream_group_new_def bind_res_Inr_iff)
    ultimately show ?thesis using p(1) by blast
  qed
  with m show ?thesis unfolding groups_hold_def by meson
qed

lemma ups_select_held:
  assumes "groups_hold resolve configs (ups_groups u)" and "c \<in> set configs" and "ug_servers c \<noteq> []"
  shows "\<exists>addr server. fst (ups_select (ug_name c) u) = Inr addr \<and> server \<in> set (ug_servers c)
    \<and> resolve_upstream_server resolve (ug_name c) server = Inr addr"
proof -
  obtain g where g: "hm_get (ups_groups u) (ug_name c) = Some g"
    "collect_res (resolve_upstream_server resolve (ug_name c)) (ug_servers c) = Inr (ur_servers g)"
    using assms(1,2) by (auto simp: groups_hold_def)
  then have all: "list_all2 (\<lambda>s a. resolve_upstream_server resolve (ug_name c) s = Inr a) (ug_servers c) (ur_servers g)"
    by (simp add: collect_res_Inr_iff)
  with assms(3) have ne: "ur_servers g \<noteq> []" by auto
  let ?a = "fst (select_loop (length (ur_servers g)) g)"
  have sel: "fst (ups_select (ug_name c) u) = Inr ?a" using g(1) ne by (simp add: ups_select_def group_select_def split_beta Let_def)
  have "?a \<in> set (ur_servers g)" using select_loop_server [OF ne] .
  then obtain s where "s \<in> set (ug_servers c)" "resolve_upstream_server resolve (ug_name c) s = Inr ?a"
    using list_all2_right [OF all] by blast
  with sel show ?thesis by blast
qed

lemma validated_groups:
  assumes "validate parse_uri c = Inr u"
  shows "distinct (map ug_name (px_upstream_groups (c_proxy c)))"
    and "g \<in> set (px_upstream_groups (c_proxy c)) \<Longrightarrow> ug_servers g \<noteq> []"
    and "l \<in> set (px_listeners (c_proxy c)) \<Longrightarrow> cl \<in> set (concrete_listeners l) \<Longrightarrow>
      g \<in> set (px_upstream_groups (c_proxy c)) \<Longrightarrow> ug_name g \<in> set (upstream_groups_used_by_listener (c_proxy c) l cl) \<Longrightarrow>
      s \<in> set (ug_servers g) \<Longrightarrow> parse_sock s = Some a \<Longrightarrow> a \<notin> snd ` set (proxy_self_addrs_for_listener (c_sip c) cl)"
proof -
  from assms obtain groups keys rks where
    g: "validate_groups parse_uri [] (px_upstream_groups (c_proxy c)) = Inr groups"
    and loop: "validate_upstream_targets_do_not_loop_to_proxy c = Inr ()"
    by (rule validate_parts)
  show d: "distinct (map ug_name (px_upstream_groups (c_proxy c)))" and
    "g \<in> set (px_upstream_groups (c_proxy c)) \<Longrightarrow> ug_servers g \<noteq> []"
    using validate_groups_Inr [OF g] by simp_all
  assume *: "l \<in> set (px_listeners (c_proxy c))" "cl \<in> set (concrete_listeners l)" "g \<in> set (px_upstream_groups (c_proxy c))"
    "ug_name g \<in> set (upstream_groups_used_by_listener (c_proxy c) l cl)" "s \<in> set (ug_servers g)" "parse_sock s = Some a"
  have "check_group_loop (px_upstream_groups (c_proxy c)) (proxy_self_addrs_for_listener (c_sip c) cl)
      (listener_key cl) (ug_name g) = Inr ()"
    using loop * by (simp add: validate_upstream_targets_do_not_loop_to_proxy_def)
  then show "a \<notin> snd ` set (proxy_self_addrs_for_listener (c_sip c) cl)"
    using check_group_loop_Inr [OF _ d *(3,5,6)] by blast
qed

text \<open>The group that \<open>select_upstream\<close> asks for is configured and was examined by the loop check.\<close>

lemma selected_group_used:
  fixes c :: config and cl :: proxy_listener_config and uri_host and uri :: string
  assumes "validate parse_uri c = Inr ()" and "l \<in> set (px_listeners (c_proxy c))" and "cl \<in> set (concrete_listeners l)"
  defines "gname \<equiv> (case route_select uri_host (route_table_new (c_proxy c)) (listener_key cl) uri of
      None \<Rightarrow> l_upstream_group cl | Some r \<Rightarrow> sr_upstream_group r)"
  shows "gname \<in> ug_name ` set (px_upstream_groups (c_proxy c))"
    and "gname \<in> set (upstream_groups_used_by_listener (c_proxy c) l cl)"
proof -
  let ?px = "c_proxy c" and ?A = "route_applies uri_host l (listener_key cl) uri"
  have k: "listener_key cl \<in> set (concrete_keys l)" using assms(3) by simp
  note sel = select_configured [OF validated_listener_keys(1) [OF assms(1)] assms(2) k, of uri_host uri]
  have own: "l_upstream_group cl = l_upstream_group l"
    using assms(3) by (auto simp: concrete_listeners_def with_transport_def)
  have "gname \<in> ug_name ` set (px_upstream_groups ?px) \<and> gname \<in> set (upstream_groups_used_by_listener ?px l cl)"
  proof (cases "max_by_key route_specificity (filter ?A (px_routes ?px))")
    case None
    then have "gname = l_upstream_group l" by (simp add: gname_def sel own)
    with validated_listener_keys(3) [OF assms(1,2)] own
    show ?thesis by (simp add: upstream_groups_used_by_listener_def)
  next
    case (Some r)
    then obtain pre post where "filter ?A (px_routes ?px) = pre @ r # post" by (auto simp: max_by_key_iff last_best_def)
    then have "r \<in> set (filter ?A (px_routes ?px))" by simp
    with Some validated_listener_keys(2) [OF assms(1)] route_applies_used [of uri_host l cl uri r ?px]
    show ?thesis by (simp add: gname_def sel)
  qed
  then show "gname \<in> ug_name ` set (px_upstream_groups ?px)" "gname \<in> set (upstream_groups_used_by_listener ?px l cl)"
    by simp_all
qed

section \<open>Which results reach a server\<close>

text \<open>What an operation on the groups says of the server at position \<open>i\<close> of the group \<open>name\<close>.\<close>

fun results_for :: "bool \<Rightarrow> sock_addr list \<Rightarrow> string \<Rightarrow> nat \<Rightarrow> ups_op \<Rightarrow> bool list" where
  "results_for enabled servers name i (UpsSelect _) = []"
| "results_for enabled servers name i (UpsPassive a x) =
     (if enabled \<and> i < length servers \<and> servers ! i = a \<and> a \<notin> set (take i servers) then [x] else [])"
| "results_for enabled servers name i (UpsProbe n j x) = (if n = name \<and> j = i then [x] else [])"

text \<open>The positions of a group in the index of an address.\<close>

definition refs_in :: "(sock_addr, (string \<times> nat) list) hmap \<Rightarrow> string \<Rightarrow> sock_addr \<Rightarrow> nat list" where
  "refs_in m name a = map snd (filter (\<lambda>(n, _). n = name) (case hm_get m a of None \<Rightarrow> [] | Some refs \<Rightarrow> refs))"

definition positions :: "sock_addr list \<Rightarrow> sock_addr \<Rightarrow> nat list" where
  "positions servers a = map fst (filter (\<lambda>(_, b). b = a) (first_indices servers))"

lemma positions_iff: "i \<in> set (positions servers a) \<longleftrightarrow> i < length servers \<and> servers ! i = a \<and> a \<notin> set (take i servers)"
  by (force simp: positions_def first_indices_def in_set_enumerate_eq)

lemma positions_distinct: "distinct (positions servers a)"
proof -
  have "distinct (map fst (filter P (enumerate 0 servers)))" for P
    by (rule distinct_map_filter) simp
  then show ?thesis by (simp add: positions_def first_indices_def filter_filter)
qed

lemma refs_in_fold:
  "refs_in (fold (\<lambda>(i, a) m. hm_insert a ((case hm_get m a of None \<Rightarrow> [] | Some refs \<Rightarrow> refs) @ [(gname, i)]) m) xs m) name a =
   refs_in m name a @ (if gname = name then map fst (filter (\<lambda>(_, b). b = a) xs) else [])"
proof (induction xs arbitrary: m)
  case (Cons x xs)
  obtain i b where x: "x = (i, b)" by (cases x)
  have "refs_in (hm_insert b ((case hm_get m b of None \<Rightarrow> [] | Some refs \<Rightarrow> refs) @ [(gname, i)]) m) name a =
      refs_in m name a @ (if gname = name \<and> b = a then [i] else [])"
    by (auto simp: refs_in_def hm_get_insert split: option.split)
  then show ?case by (simp add: x Cons.IH)
qed simp

lemma refs_in_groups:
  "refs_in (fold index_group gs m) name a =
   refs_in m name a @ concat (map (\<lambda>(n, g). if n = name then positions (ur_servers g) a else []) gs)"
proof (induction gs arbitrary: m)
  case (Cons p gs)
  then show ?case by (cases p) (simp add: index_group_def refs_in_fold positions_def)
qed simp

lemma concat_one_key:
  assumes "distinct (map fst gs)" "(name, g) \<in> set gs"
  shows "concat (map (\<lambda>(n, g). if n = name then f g else []) gs) = f g"
  using assms
proof (induction gs)
  case (Cons p gs)
  have none: "concat (map (\<lambda>(n, g). if n = name then f g else []) hs) = []" if "name \<notin> fst ` set hs" for hs
    using that by (induction hs) auto
  obtain n h where p: "p = (n, h)" by (cases p)
  show ?case
  proof (cases "n = name")
    case True
    then have "name \<notin> fst ` set gs" using Cons.prems(1) by (simp add: p)
    moreover have "h = g" using Cons.prems True calculation by (force simp: p)
    ultimately show ?thesis using none True by (simp add: p)
  next
    case False
    then show ?thesis using Cons by (simp add: p)
  qed
qed simp

lemma refs_in_new:
  assumes "upstream_groups_new resolve configs = Inr u" "hm_inv (ups_groups u)" "hm_get (ups_groups u) name = Some g"
  shows "refs_in (ups_servers_by_addr u) name a = positions (ur_servers g) a"
proof -
  have u: "ups_servers_by_addr u = fold index_group (ups_groups u) hm_empty"
    using assms(1) by (auto simp: upstream_groups_new_def bind_res_Inr_iff Let_def)
  have "distinct (map fst (ups_groups u))" "(name, g) \<in> set (ups_groups u)"
    using assms(2,3) by (auto simp: hm_inv_def hm_get_def dest: map_of_SomeD)
  from concat_one_key [OF this] show ?thesis by (simp add: u refs_in_groups) (simp add: refs_in_def hm_empty_def hm_get_def)
qed

lemma passive_fold_get:
  "hm_get (fold (\<lambda>(gname, i) m. (case hm_get m gname of None \<Rightarrow> m
      | Some g \<Rightarrow> hm_insert gname (record_passive_result_at i x g) m)) refs m) name =
   map_option (fold (\<lambda>j. record_passive_result_at j x) (map snd (filter (\<lambda>(n, _). n = name) refs))) (hm_get m name)"
proof (induction refs arbitrary: m)
  case Nil
  then show ?case by (simp add: option.map_ident)
next
  case (Cons r refs)
  obtain n i where r: "r = (n, i)" by (cases r)
  show ?case unfolding fold_Cons o_def Cons.IH
    by (cases "hm_get m n") (auto simp: r hm_get_insert option.map_comp o_def)
qed

lemma passive_get:
  "hm_get (ups_groups (record_passive_result a x u)) name =
   map_option (fold (\<lambda>j. record_passive_result_at j x) (refs_in (ups_servers_by_addr u) name a)) (hm_get (ups_groups u) name)"
  by (cases "hm_get (ups_servers_by_addr u) a")
    (simp_all add: record_passive_result_def refs_in_def passive_fold_get option.map_id0)

lemma tracks_select:
  assumes "tracks servers hc i g hist"
  shows "tracks servers hc i (snd (group_select g)) hist"
proof -
  have "\<exists>n. snd (select_loop k h) = h\<lparr>ur_next := n\<rparr>" for k h
  proof (induction k arbitrary: h)
    case (Suc k)
    obtain n where "snd (select_loop k (h\<lparr>ur_next := ur_next h + 1\<rparr>)) = h\<lparr>ur_next := n\<rparr>"
      using Suc.IH [of "h\<lparr>ur_next := ur_next h + 1\<rparr>"] by auto
    then show ?case by (auto simp: Let_def)
  qed auto
  then obtain n where n: "snd (select_loop (length (ur_servers g)) g) = g\<lparr>ur_next := n\<rparr>" by blast
  have "snd (group_select g) = (if ur_servers g = [] then g else g\<lparr>ur_next := n\<rparr>)"
    by (simp add: group_select_def split_beta Let_def n)
  with assms show ?thesis by (simp add: tracks_def group_wf_def)
qed

lemma ups_step_index: "ups_servers_by_addr (ups_step op u) = ups_servers_by_addr u"
  by (cases op) (auto simp: ups_select_def record_passive_result_def split_beta Let_def split: option.split)

lemma tracked_step:
  assumes g: "hm_get (ups_groups u) name = Some g" "tracks servers hc i g hist"
    and i: "i < length servers" and bound: "length hist < 2 ^ 64 - 1"
    and index: "\<And>a. refs_in (ups_servers_by_addr u) name a = positions servers a"
  shows "\<exists>g'. hm_get (ups_groups (ups_step op u)) name = Some g'
    \<and> tracks servers hc i g' (hist @ results_for (hc_enabled hc) servers name i op)"
proof (cases op)
  case (UpsSelect n)
  then show ?thesis using g tracks_select [OF g(2)]
    by (cases "hm_get (ups_groups u) n") (auto simp: ups_select_def split_beta Let_def hm_get_insert)
next
  case (UpsPassive a x)
  have "tracks servers hc i (fold (\<lambda>j. record_passive_result_at j x) (positions servers a) g)
      (hist @ (if hc_enabled hc \<and> i \<in> set (positions servers a) then [x] else []))"
    by (rule tracks_passives [OF g(2) i bound positions_distinct])
  then show ?thesis using g(1) UpsPassive by (simp add: passive_get index positions_iff)
next
  case (UpsProbe n j x)
  then show ?thesis using g tracks_result [OF g(2) i bound, of j x]
    by (cases "hm_get (ups_groups u) n") (auto simp: hm_get_insert split: if_splits)
qed

lemma results_for_length: "length (concat (map (results_for enabled servers name i) ops)) \<le> length ops"
proof (induction ops)
  case (Cons op ops)
  have "length (results_for enabled servers name i op) \<le> 1" by (cases op) auto
  with Cons show ?case by simp
qed simp

lemma tracked_new:
  assumes "upstream_group_new resolve c = Inr g" "i < length (ur_servers g)"
  shows "tracks (ur_servers g) (ug_health_check c) i g []"
  using assms group_wf_new [OF assms(1)]
  by (auto simp: upstream_group_new_def bind_res_Inr_iff tracks_def trailing_def verdict_def)

lemma groups_new_get:
  assumes "upstream_groups_new resolve configs = Inr u" "distinct (map ug_name configs)" "c \<in> set configs"
  shows "hm_inv (ups_groups u) \<and> (\<exists>g. hm_get (ups_groups u) (ug_name c) = Some g \<and> upstream_group_new resolve c = Inr g)"
proof -
  let ?f = "\<lambda>c. bind_res (upstream_group_new resolve c) (\<lambda>g. Inr (ug_name c, g))"
  obtain pairs where pairs: "collect_res ?f configs = Inr pairs"
    and u: "ups_groups u = foldl (\<lambda>m (k, g). hm_insert k g m) hm_empty pairs"
    using assms(1) by (auto simp: upstream_groups_new_def bind_res_Inr_iff Let_def)
  have all: "list_all2 (\<lambda>c p. ?f c = Inr p) configs pairs" using pairs by (simp add: collect_res_Inr_iff)
  then have "map fst pairs = map ug_name configs"
    by (induction rule: list_all2_induct) (auto simp: bind_res_Inr_iff)
  with assms(2) foldl_insert_pairs [of pairs hm_empty] u
  have m: "hm_inv (ups_groups u)" "\<And>k g. (k, g) \<in> set pairs \<Longrightarrow> hm_get (ups_groups u) k = Some g" by auto
  from list_all2_left [OF all assms(3)] obtain p where p: "p \<in> set pairs" "?f c = Inr p" by blast
  then obtain g where "upstream_group_new resolve c = Inr g" "p = (ug_name c, g)" by (auto simp: bind_res_Inr_iff)
  with m p(1) show ?thesis by blast
qed

lemma run_tracked:
  assumes new: "upstream_groups_new resolve configs = Inr u" and names: "distinct (map ug_name configs)" and c: "c \<in> set configs"
    and servers: "collect_res (resolve_upstream_server resolve (ug_name c)) (ug_servers c) = Inr servers"
    and i: "i < length servers" and bound: "length ops < 2 ^ 64"
  shows "\<exists>g. hm_get (ups_groups (fold ups_step ops u)) (ug_name c) = Some g
    \<and> tracks servers (ug_health_check c) i g (concat (map (results_for (hc_enabled (ug_health_check c)) servers (ug_name c) i) ops))"
proof -
  obtain g0 where g0: "hm_inv (ups_groups u)" "hm_get (ups_groups u) (ug_name c) = Some g0" "upstream_group_new resolve c = Inr g0"
    using groups_new_get [OF new names c] by blast
  have sv: "ur_servers g0 = servers" using g0(3) servers by (auto simp: upstream_group_new_def)
  have start: "tracks servers (ug_health_check c) i g0 []" using tracked_new [OF g0(3)] i by (simp add: sv)
  have index: "refs_in (ups_servers_by_addr (fold ups_step ops u)) (ug_name c) a = positions servers a" for ops a
  proof -
    have "ups_servers_by_addr (fold ups_step ops u) = ups_servers_by_addr u"
      by (induction ops arbitrary: u) (simp_all add: ups_step_index)
    then show ?thesis using refs_in_new [OF new g0(1,2)] by (simp add: sv)
  qed
  from bound show ?thesis
  proof (induction ops rule: rev_induct)
    case Nil
    then show ?case using g0(2) start by auto
  next
    case (snoc op ops)
    then obtain g where g: "hm_get (ups_groups (fold ups_step ops u)) (ug_name c) = Some g"
        "tracks servers (ug_health_check c) i g (concat (map (results_for (hc_enabled (ug_health_check c)) servers (ug_name c) i) ops))"
      by auto
    have "length (concat (map (results_for (hc_enabled (ug_health_check c)) servers (ug_name c) i) ops)) < 2 ^ 64 - 1"
      using results_for_length [of "hc_enabled (ug_health_check c)" servers "ug_name c" i ops] snoc.prems by simp
    from tracked_step [OF g i this index, of op] show ?case by simp
  qed
qed

section \<open>Properties\<close>

text \<open>
  C37: round robin over the healthy servers.  For a group with servers whose ticket counter
  is not about to wrap around, \<open>select\<close> answers the first healthy server at or after the
  current position, cyclically, and moves the position behind it; if none is healthy it
  answers the server at the current position.
\<close>

theorem select_round_robin:
  assumes "ur_servers g \<noteq> []" and "unat (ur_next g) + length (ur_servers g) < 2 ^ 64"
  defines "n \<equiv> length (ur_servers g)" and "p \<equiv> unat (ur_next g)"
  shows "if \<exists>i < n. ur_health g ! i
    then \<exists>j < n. group_select g = (Inr (ur_servers g ! ((p + j) mod n)), g\<lparr>ur_next := ur_next g + word_of_nat (Suc j)\<rparr>)
      \<and> ur_health g ! ((p + j) mod n) \<and> (\<forall>j' < j. \<not> ur_health g ! ((p + j') mod n))
    else group_select g = (Inr (ur_servers g ! (p mod n)), g\<lparr>ur_next := ur_next g + word_of_nat (Suc n)\<rparr>)"
proof -
  have n: "n > 0" using assms(1) by (simp add: n_def)
  obtain j where j: "j \<le> n" "select_loop n g = (ur_servers g ! ((p + j) mod n), g\<lparr>ur_next := ur_next g + word_of_nat (Suc j)\<rparr>)"
    "\<forall>j' < j. \<not> ur_health g ! ((p + j') mod n)" "j < n \<longrightarrow> ur_health g ! ((p + j) mod n)"
    using select_loop_tickets [OF assms(2)] unfolding n_def p_def by blast
  have sel: "group_select g = (Inr (ur_servers g ! ((p + j) mod n)), g\<lparr>ur_next := ur_next g + word_of_nat (Suc j)\<rparr>)"
    using assms(1) j(2) by (simp add: group_select_def n_def)
  show ?thesis
  proof (cases "\<exists>i < n. ur_health g ! i")
    case True
    then obtain i where "i < n" "ur_health g ! i" by blast
    with residue_reached [of i n p] obtain j0 where "j0 < n" "ur_health g ! ((p + j0) mod n)" by auto
    with j(1,3) have "j < n" by (metis le_neq_implies_less not_le)
    with True sel j(3,4) show ?thesis by auto
  next
    case False
    then have "j = n" using j(1,4) n by (meson le_neq_implies_less mod_less_divisor)
    with sel have "group_select g = (Inr (ur_servers g ! (p mod n)), g\<lparr>ur_next := ur_next g + word_of_nat (Suc n)\<rparr>)"
      by simp
    then show ?thesis unfolding if_not_P [OF False] .
  qed
qed

definition example_group :: upstream_group_runtime where
  "example_group = \<lparr>ur_name = ''default'', ur_servers = [SockV4 1 5060, SockV4 2 5060, SockV4 3 5060],
     ur_health = [True, False, True], ur_consecutive_successes = [0, 0, 0], ur_consecutive_failures = [0, 3, 0],
     ur_next = 4, ur_health_check = default_health_check\<rparr>"

theorem select_round_robin_witness:
  "\<exists>j < 3. group_select example_group =
      (Inr (ur_servers example_group ! ((4 + j) mod 3)), example_group\<lparr>ur_next := 4 + word_of_nat (Suc j)\<rparr>)
    \<and> ur_health example_group ! ((4 + j) mod 3)"
proof -
  have "\<exists>i < length (ur_servers example_group). ur_health example_group ! i"
    by (intro exI [of _ 0]) (simp add: example_group_def)
  moreover have "length (ur_servers example_group) = 3" "unat (ur_next example_group) = 4" "ur_next example_group = 4"
    "ur_servers example_group \<noteq> []" by (simp_all add: example_group_def)
  ultimately show ?thesis using select_round_robin [of example_group] by auto
qed

text \<open>
  C38: health follows the history.  The groups are built from the configuration and then live
  through any sequence of selections, probe results and passive results, recorded one after the
  other.  What counts for the server at position \<open>i\<close> of a group are the probe results for that
  position and, only when the group's health check is enabled, the passive results for its
  address, if that address does not stand earlier in the group.  The flag of the server is the
  verdict on exactly those results: it changes to unhealthy exactly when they end in as many
  failures as the failure threshold, to healthy when they end in as many successes as the
  success threshold, and otherwise stays.  In particular a run of failures (successes) as
  long as the threshold leaves it unhealthy (healthy), it is never unhealthy without such a run
  of failures, and with the health check disabled, when no probe runs, it stays healthy whatever
  passive results arrive.
\<close>

theorem health_follows_history:
  fixes ops and servers :: "sock_addr list"
  assumes new: "upstream_groups_new resolve configs = Inr u" and names: "distinct (map ug_name configs)" and c: "c \<in> set configs"
    and servers: "collect_res (resolve_upstream_server resolve (ug_name c)) (ug_servers c) = Inr servers"
    and i: "i < length servers" and bound: "length ops < 2 ^ 64"
  defines "hc \<equiv> ug_health_check c"
    and "history \<equiv> concat (map (results_for (hc_enabled (ug_health_check c)) servers (ug_name c) i) ops)"
  shows "\<exists>g. hm_get (ups_groups (fold ups_step ops u)) (ug_name c) = Some g \<and> ur_servers g = servers
    \<and> is_healthy_at i g = verdict (unat (hc_success_threshold hc)) (unat (hc_failure_threshold hc)) history
    \<and> (\<forall>rs n. history = rs @ replicate n False \<and> 0 < n \<and> unat (hc_failure_threshold hc) \<le> n \<longrightarrow> \<not> is_healthy_at i g)
    \<and> (\<forall>rs n. history = rs @ replicate n True \<and> 0 < n \<and> unat (hc_success_threshold hc) \<le> n \<longrightarrow> is_healthy_at i g)
    \<and> (\<not> is_healthy_at i g \<longrightarrow> (\<exists>pre post. history = pre @ replicate (unat (hc_failure_threshold hc)) False @ post))
    \<and> (\<not> hc_enabled hc \<and> (\<forall>x. UpsProbe (ug_name c) i x \<notin> set ops) \<longrightarrow> is_healthy_at i g)"
proof -
  obtain g where g: "hm_get (ups_groups (fold ups_step ops u)) (ug_name c) = Some g" "tracks servers hc i g history"
    using run_tracked [OF new names c servers i bound] unfolding hc_def history_def by blast
  then have v: "is_healthy_at i g = verdict (unat (hc_success_threshold hc)) (unat (hc_failure_threshold hc)) history"
    "ur_servers g = servers" by (simp_all add: tracks_def is_healthy_at_def)
  have "history = []" if "\<not> hc_enabled hc" "\<forall>x. UpsProbe (ug_name c) i x \<notin> set ops"
  proof -
    have "results_for (hc_enabled hc) servers (ug_name c) i op = []" if op: "op \<in> set ops" for op
    proof (cases op)
      case (UpsProbe n j x)
      then show ?thesis using op \<open>\<forall>x. UpsProbe (ug_name c) i x \<notin> set ops\<close> by auto
    qed (use \<open>\<not> hc_enabled hc\<close> in simp_all)
    then show ?thesis by (simp add: history_def hc_def)
  qed
  moreover have "verdict S F []" for S F by (simp add: verdict_def)
  ultimately show ?thesis
    using g(1) v(2) verdict_run [of _ False] verdict_run [of _ True] unhealthy_verdict unfolding v(1)
    by (intro exI [of _ g]) (auto simp: v(1))
qed

text \<open>
  Two failures seen in responses, with a selection and a success of another position between
  them, make the server unhealthy; with the health check disabled they do not.
\<close>

theorem health_follows_history_witness:
  "let c = (\<lambda>on. \<lparr>ug_name = ''g'', ug_mode = RoundRobin,
      ug_health_check = default_health_check\<lparr>hc_enabled := on, hc_failure_threshold := 2\<rparr>, ug_servers = [''127.0.0.1:5080'']\<rparr>);
       ops = [UpsPassive (SockV4 2130706433 5080) False, UpsSelect ''g'', UpsPassive (SockV4 1 5080) True,
         UpsPassive (SockV4 2130706433 5080) False]
   in (\<exists>u g. upstream_groups_new (\<lambda>_. None) [c True] = Inr u \<and> hm_get (ups_groups (fold ups_step ops u)) ''g'' = Some g
         \<and> \<not> is_healthy_at 0 g)
     \<and> (\<exists>u g. upstream_groups_new (\<lambda>_. None) [c False] = Inr u \<and> hm_get (ups_groups (fold ups_step ops u)) ''g'' = Some g
         \<and> is_healthy_at 0 g)"
proof -
  define c where "c = (\<lambda>on. \<lparr>ug_name = ''g'', ug_mode = RoundRobin,
      ug_health_check = default_health_check\<lparr>hc_enabled := on, hc_failure_threshold := 2\<rparr>, ug_servers = [''127.0.0.1:5080'']\<rparr>)"
  let ?a = "SockV4 2130706433 5080"
  let ?ops = "[UpsPassive ?a False, UpsSelect ''g'', UpsPassive (SockV4 1 5080) True, UpsPassive ?a False]"
  have new: "\<exists>u. upstream_groups_new (\<lambda>_. None) [c on] = Inr u" for on
    by (simp add: c_def upstream_groups_new_def upstream_group_new_def resolve_upstream_server_def parse_default_server Let_def)
  have sv: "collect_res (resolve_upstream_server (\<lambda>_. None) (ug_name (c on))) (ug_servers (c on)) = Inr [?a]" for on
    by (simp add: c_def resolve_upstream_server_def parse_default_server)
  have F: "unat (hc_failure_threshold (ug_health_check (c on))) = 2" "hc_enabled (ug_health_check (c on)) = on"
    "ug_name (c on) = ''g''" for on by (simp_all add: c_def)
  have hist: "concat (map (results_for True [?a] ''g'' 0) ?ops) = [] @ replicate 2 False"
  proof -
    have "?a \<noteq> SockV4 1 5080" by simp
    then show ?thesis by (simp add: numeral_2_eq_2 del: sock_addr.inject)
  qed
  note th = health_follows_history [of "\<lambda>_. None" "[c on]" u "c on" "[?a]" 0 ?ops for on u, unfolded F]
  obtain u where u: "upstream_groups_new (\<lambda>_. None) [c True] = Inr u" using new by blast
  obtain g where "hm_get (ups_groups (fold ups_step ?ops u)) ''g'' = Some g" 
    "\<forall>rs n. concat (map (results_for True [?a] ''g'' 0) ?ops) = rs @ replicate n False \<and> 0 < n \<and> 2 \<le> n \<longrightarrow> \<not> is_healthy_at 0 g"
    using th [OF u _ _ sv [unfolded F]] by auto
  moreover from this(2) hist have "\<not> is_healthy_at 0 g" by (metis order_refl zero_less_numeral)
  moreover obtain u' where u': "upstream_groups_new (\<lambda>_. None) [c False] = Inr u'" using new by blast
  moreover obtain g' where "hm_get (ups_groups (fold ups_step ?ops u')) ''g'' = Some g'" "is_healthy_at 0 g'"
    using th [OF u' _ _ sv [unfolded F]] by auto
  ultimately show ?thesis using u unfolding Let_def c_def [symmetric] by blast
qed

end
