(* ===== verification/Stun.thy ===== *)
theory Stun
  imports Net
begin

unbundle bit_operations_syntax

text \<open>
  STUN on the SIP port (\<open>proxy/server.rs\<close>): recognising STUN and keep-alive packets,
  answering a binding request with the sender's address, and reading the mapped address out
  of the answer of a STUN server (\<open>discover_public_ip\<close>).  Indexing and slicing are
  explicit: an index out of range is the panic of the source, the value \<open>Inl\<close>.  Shown here:
  no packet makes the parser panic, its attribute walk ends and finds the first attribute
  that holds an address, and an answer to a binding request is read back as the address and
  port of the peer.
\<close>

section \<open>Indexing and slices\<close>

datatype panic = IndexOutOfRange

definition item_at :: "'a list \<Rightarrow> nat \<Rightarrow> panic + 'a" where
  "item_at xs i = (if i < length xs then Inr (xs ! i) else Inl IndexOutOfRange)"

definition slice :: "'a list \<Rightarrow> nat \<Rightarrow> nat \<Rightarrow> panic + 'a list" where
  "slice xs a b = (if a \<le> b \<and> b \<le> length xs then Inr (take (b - a) (drop a xs)) else Inl IndexOutOfRange)"

text \<open>\<open>u16::from_be_bytes([xs[i], xs[i + 1]])\<close> and the four-byte form.\<close>

definition u16_at :: "u8 list \<Rightarrow> nat \<Rightarrow> panic + u16" where
  "u16_at xs i = bind_res (item_at xs i) (\<lambda>a. bind_res (item_at xs (i + 1)) (\<lambda>b. Inr (from_be [a, b])))"

definition u32_at :: "u8 list \<Rightarrow> nat \<Rightarrow> panic + u32" where
  "u32_at xs i = bind_res (item_at xs i) (\<lambda>a. bind_res (item_at xs (i + 1)) (\<lambda>b.
     bind_res (item_at xs (i + 2)) (\<lambda>c. bind_res (item_at xs (i + 3)) (\<lambda>d. Inr (from_be [a, b, c, d])))))"

section \<open>Packets\<close>

definition stun_magic_cookie :: u32 where
  "stun_magic_cookie = 0x2112A442"

definition is_crlf_keepalive :: "u8 list \<Rightarrow> bool" where
  "is_crlf_keepalive packet \<longleftrightarrow> packet = [] \<or> list_all (\<lambda>b. b = 13 \<or> b = 10) packet"

definition is_stun_packet :: "u8 list \<Rightarrow> panic + bool" where
  "is_stun_packet packet =
     (if length packet < 20 then Inr False
      else bind_res (item_at packet 0) (\<lambda>b0.
        if b0 AND 0xC0 \<noteq> 0 then Inr False
        else bind_res (u32_at packet 4) (\<lambda>cookie.
          if cookie \<noteq> stun_magic_cookie then Inr False
          else bind_res (u16_at packet 2) (\<lambda>len. Inr (20 + unat len \<le> length packet)))))"

text \<open>The identifier of the request is the argument \<open>unique_id\<close>, the value of the global counter.\<close>

definition stun_binding_request :: "u64 \<Rightarrow> u8 list" where
  "stun_binding_request unique_id =
     to_be 2 (0x0001 :: u16) @ to_be 2 (0 :: u16) @ to_be 4 stun_magic_cookie
       @ (replicate 4 0 @ to_be 8 unique_id)"

definition xor_bytes :: "u8 list \<Rightarrow> u8 list \<Rightarrow> u8 list" where
  "xor_bytes xs ys = map (\<lambda>(x, y). x XOR y) (zip xs ys)"

definition cookie_port :: u16 where
  "cookie_port = ucast (drop_bit 16 stun_magic_cookie)"

definition stun_xor_mapped_address_attr :: "sock_addr \<Rightarrow> u8 list \<Rightarrow> u8 list" where
  "stun_xor_mapped_address_attr peer transaction_id =
     (let xor_port = sock_port peer XOR cookie_port;
          value = [0] @ (case sock_ip peer of
            V4 ip \<Rightarrow> [0x01] @ to_be 2 xor_port @ xor_bytes (to_be 4 ip) (to_be 4 stun_magic_cookie)
          | V6 ip \<Rightarrow> [0x02] @ to_be 2 xor_port @ xor_bytes (to_be 16 ip) (to_be 4 stun_magic_cookie @ transaction_id))
      in to_be 2 (0x0020 :: u16) @ to_be 2 (word_of_nat (length value) :: u16) @ value)"

definition stun_binding_success_response :: "u8 list \<Rightarrow> sock_addr \<Rightarrow> panic + u8 list option" where
  "stun_binding_success_response packet peer =
     bind_res (is_stun_packet packet) (\<lambda>stun.
       if \<not> stun then Inr None
       else bind_res (u16_at packet 0) (\<lambda>kind.
         if kind \<noteq> 0x0001 then Inr None
         else bind_res (slice packet 8 20) (\<lambda>transaction_id.
           let attr = stun_xor_mapped_address_attr peer transaction_id
           in Inr (Some (to_be 2 (0x0101 :: u16) @ to_be 2 (word_of_nat (length attr) :: u16)
                @ to_be 4 stun_magic_cookie @ transaction_id @ attr)))))"

section \<open>Reading an answer\<close>

definition parse_stun_xor_mapped_addr :: "u8 list \<Rightarrow> u8 list \<Rightarrow> panic + sock_addr option" where
  "parse_stun_xor_mapped_addr value transaction_id =
     (if length value < 8 \<or> length transaction_id \<noteq> 12 then Inr None
      else bind_res (item_at value 1) (\<lambda>family.
        bind_res (u16_at value 2) (\<lambda>raw.
          let port = raw XOR cookie_port in
          if family = 0x01 then
            bind_res (slice value 4 8) (\<lambda>octets.
              Inr (Some (sock_new (V4 (from_be (xor_bytes octets (to_be 4 stun_magic_cookie)))) port)))
          else if family = 0x02 \<and> length value \<ge> 20 then
            bind_res (slice value 4 20) (\<lambda>octets.
              Inr (Some (sock_new (V6 (from_be (xor_bytes octets (to_be 4 stun_magic_cookie @ transaction_id)))) port)))
          else Inr None)))"

definition parse_stun_plain_mapped_addr :: "u8 list \<Rightarrow> panic + sock_addr option" where
  "parse_stun_plain_mapped_addr value =
     (if length value < 8 then Inr None
      else bind_res (item_at value 1) (\<lambda>family.
        bind_res (u16_at value 2) (\<lambda>port.
          if family = 0x01 then bind_res (slice value 4 8) (\<lambda>octets. Inr (Some (sock_new (V4 (from_be octets)) port)))
          else if family = 0x02 \<and> length value \<ge> 20 then
            bind_res (slice value 4 20) (\<lambda>octets. Inr (Some (sock_new (V6 (from_be octets)) port)))
          else Inr None)))"

text \<open>One attribute: \<open>None\<close> if its value does not fit into the packet.\<close>

definition read_attr :: "u8 list \<Rightarrow> nat \<Rightarrow> panic + (u16 \<times> u8 list) option" where
  "read_attr packet offset =
     bind_res (u16_at packet offset) (\<lambda>attr_type.
     bind_res (u16_at packet (offset + 2)) (\<lambda>attr_len.
       let value_start = offset + 4; value_end = value_start + unat attr_len in
       if value_end > length packet then Inr None
       else bind_res (slice packet value_start value_end) (\<lambda>value. Inr (Some (attr_type, value)))))"

definition attr_mapped :: "u8 list \<Rightarrow> u16 \<times> u8 list \<Rightarrow> panic + sock_addr option" where
  "attr_mapped transaction_id attr =
     (if fst attr = 0x0020 then parse_stun_xor_mapped_addr (snd attr) transaction_id
      else if fst attr = 0x0001 then parse_stun_plain_mapped_addr (snd attr)
      else Inr None)"

function stun_attr_loop :: "u8 list \<Rightarrow> u8 list \<Rightarrow> nat \<Rightarrow> panic + sock_addr option" where
  "stun_attr_loop packet transaction_id offset =
     (if offset + 4 \<le> length packet then
        (case read_attr packet offset of
           Inl e \<Rightarrow> Inl e
         | Inr None \<Rightarrow> Inr None
         | Inr (Some attr) \<Rightarrow>
             (case attr_mapped transaction_id attr of
                Inl e \<Rightarrow> Inl e
              | Inr (Some addr) \<Rightarrow> Inr (Some addr)
              | Inr None \<Rightarrow> stun_attr_loop packet transaction_id
                  (offset + 4 + length (snd attr) + (4 - length (snd attr) mod 4) mod 4)))
      else Inr None)"
  by pat_completeness auto
termination by (relation "measure (\<lambda>(packet, _, offset). length packet - offset)") auto

declare stun_attr_loop.simps [simp del]

definition parse_stun_mapped_addr :: "u8 list \<Rightarrow> panic + sock_addr option" where
  "parse_stun_mapped_addr packet =
     bind_res (is_stun_packet packet) (\<lambda>stun.
       if \<not> stun then Inr None
       else bind_res (u16_at packet 0) (\<lambda>kind.
         if kind \<noteq> 0x0101 then Inr None
         else bind_res (slice packet 8 20) (\<lambda>transaction_id. stun_attr_loop packet transaction_id 20)))"

datatype probe_error =
    ProbeNotResolved
  | ProbeNoAddress string
  | StunTimedOut
  | StunNoMappedAddress
  | StunPanic

definition resolve_probe_addr :: "(string \<Rightarrow> sock_addr list option) \<Rightarrow> string \<Rightarrow> probe_error + sock_addr" where
  "resolve_probe_addr resolve addr =
     (case parse_sock addr of
        Some a \<Rightarrow> Inr a
      | None \<Rightarrow> (case resolve addr of
          None \<Rightarrow> Inl ProbeNotResolved
        | Some [] \<Rightarrow> Inl (ProbeNoAddress addr)
        | Some (a # _) \<Rightarrow> Inr a))"

text \<open>
  \<open>exchange\<close> is the network: what arrives from the server within two seconds of sending the
  request, if anything does.  The datagram is received into a buffer of 1500 bytes.
\<close>

definition discover_public_ip ::
  "(string \<Rightarrow> sock_addr list option) \<Rightarrow> (sock_addr \<Rightarrow> u8 list \<Rightarrow> u8 list option) \<Rightarrow> u64 \<Rightarrow> string
   \<Rightarrow> probe_error + ip_addr" where
  "discover_public_ip resolve exchange unique_id server =
     bind_res (resolve_probe_addr resolve server) (\<lambda>addr.
       (case exchange addr (stun_binding_request unique_id) of
          None \<Rightarrow> Inl StunTimedOut
        | Some answer \<Rightarrow>
            (case parse_stun_mapped_addr (take 1500 answer) of
               Inl _ \<Rightarrow> Inl StunPanic
             | Inr None \<Rightarrow> Inl StunNoMappedAddress
             | Inr (Some mapped) \<Rightarrow> Inr (sock_ip mapped))))"

section \<open>Reading bytes\<close>

lemma item_at_Inr [simp]: "i < length xs \<Longrightarrow> item_at xs i = Inr (xs ! i)"
  by (simp add: item_at_def)

lemma slice_Inr [simp]: "a \<le> b \<Longrightarrow> b \<le> length xs \<Longrightarrow> slice xs a b = Inr (take (b - a) (drop a xs))"
  by (simp add: slice_def)

lemma u16_at_Inr: "i + 1 < length xs \<Longrightarrow> u16_at xs i = Inr (from_be (take 2 (drop i xs)))"
  by (simp add: u16_at_def take_Suc_conv_app_nth numeral_2_eq_2)

lemma u32_at_Inr: "i + 3 < length xs \<Longrightarrow> u32_at xs i = Inr (from_be (take 4 (drop i xs)))"
  by (simp add: u32_at_def take_Suc_conv_app_nth numeral_eq_Suc)

lemma take_drop_mid: "length pre = i \<Longrightarrow> length mid = n \<Longrightarrow> take n (drop i (pre @ mid @ post)) = mid"
  by simp

lemma xor_bytes_length [simp]: "length (xor_bytes xs ys) = min (length xs) (length ys)"
  by (simp add: xor_bytes_def)

lemma xor_bytes_twice: "length xs \<le> length ys \<Longrightarrow> xor_bytes (xor_bytes xs ys) ys = xs"
  by (rule nth_equalityI) (simp_all add: xor_bytes_def xor.assoc)

section \<open>No packet panics\<close>

lemma is_stun_packet_Inr: "\<exists>b. is_stun_packet packet = Inr b"
proof (cases "length packet < 20")
  case False
  then have "item_at packet 0 = Inr (packet ! 0)" by (intro item_at_Inr) linarith
  with False show ?thesis by (auto simp: is_stun_packet_def u16_at_Inr u32_at_Inr)
qed (auto simp: is_stun_packet_def)

lemma is_stun_packet_length: "is_stun_packet packet = Inr True \<Longrightarrow> 20 \<le> length packet"
  by (auto simp: is_stun_packet_def split: if_splits)

lemma attr_mapped_Inr: "\<exists>m. attr_mapped transaction_id attr = Inr m"
  by (auto simp: attr_mapped_def parse_stun_xor_mapped_addr_def parse_stun_plain_mapped_addr_def u16_at_Inr Let_def)

lemma read_attr_Inr: "offset + 4 \<le> length packet \<Longrightarrow> \<exists>r. read_attr packet offset = Inr r"
  by (auto simp: read_attr_def u16_at_Inr Let_def)

lemma stun_attr_loop_Inr: "\<exists>r. stun_attr_loop packet transaction_id offset = Inr r"
proof (induction packet transaction_id offset rule: stun_attr_loop.induct)
  case (1 packet transaction_id offset)
  show ?case
  proof (cases "offset + 4 \<le> length packet")
    case True
    then obtain r where r: "read_attr packet offset = Inr r" using read_attr_Inr by blast
    show ?thesis
    proof (cases r)
      case (Some attr)
      obtain m where m: "attr_mapped transaction_id attr = Inr m" using attr_mapped_Inr by blast
      with True r Some 1 show ?thesis
        by (cases m; subst stun_attr_loop.simps) simp_all
    qed (use True r in \<open>subst stun_attr_loop.simps, simp\<close>)
  qed (subst stun_attr_loop.simps, simp)
qed

lemma parse_stun_mapped_addr_Inr: "\<exists>r. parse_stun_mapped_addr packet = Inr r"
proof -
  obtain b where b: "is_stun_packet packet = Inr b" using is_stun_packet_Inr by blast
  show ?thesis
  proof (cases b)
    case True
    with b have "20 \<le> length packet" by (intro is_stun_packet_length) simp
    with b True stun_attr_loop_Inr show ?thesis by (simp add: parse_stun_mapped_addr_def u16_at_Inr)
  qed (simp add: parse_stun_mapped_addr_def b)
qed

section \<open>Attributes\<close>

text \<open>An attribute as it is laid out: type, length, value and padding to a multiple of four.\<close>

definition padding :: "u8 list \<Rightarrow> nat" where
  "padding v = (4 - length v mod 4) mod 4"

definition enc_attr :: "(u16 \<times> u8 list) \<times> u8 list \<Rightarrow> u8 list" where
  "enc_attr = (\<lambda>((ty, v), pad). to_be 2 ty @ to_be 2 (word_of_nat (length v) :: u16) @ v @ pad)"

definition attr_ok :: "(u16 \<times> u8 list) \<times> u8 list \<Rightarrow> bool" where
  "attr_ok = (\<lambda>((ty, v), pad). length v < 2 ^ 16 \<and> length pad = padding v)"

fun first_mapped :: "u8 list \<Rightarrow> (u16 \<times> u8 list) list \<Rightarrow> sock_addr option" where
  "first_mapped transaction_id [] = None"
| "first_mapped transaction_id (attr # attrs) =
     (case attr_mapped transaction_id attr of Inr (Some addr) \<Rightarrow> Some addr | _ \<Rightarrow> first_mapped transaction_id attrs)"

lemma stun_attr_loop_step:
  assumes "offset + 4 \<le> length packet" and "read_attr packet offset = Inr (Some attr)"
    and "attr_mapped transaction_id attr = Inr m"
  shows "stun_attr_loop packet transaction_id offset = (case m of Some addr \<Rightarrow> Inr (Some addr)
    | None \<Rightarrow> stun_attr_loop packet transaction_id (offset + 4 + length (snd attr) + padding (snd attr)))"
  using assms by (subst stun_attr_loop.simps) (simp add: padding_def split: option.split)

lemma read_attr_enc:
  assumes "attr_ok a"
  shows "read_attr (pre @ enc_attr a @ post) (length pre) = Inr (Some (fst a))"
proof -
  obtain ty v pad where a: "a = ((ty, v), pad)" by (metis surj_pair)
  let ?l = "word_of_nat (length v) :: u16" and ?p = "pre @ enc_attr a @ post"
  have l: "unat ?l = length v" using assms by (simp add: a attr_ok_def unat_of_nat)
  have "take 2 (drop (length pre) ?p) = to_be 2 ty" by (simp add: a enc_attr_def)
  moreover have "take 2 (drop (length pre + 2) ?p) = to_be 2 ?l" by (simp add: a enc_attr_def)
  moreover have "take (length v) (drop (length pre + 4) ?p) = v" by (simp add: a enc_attr_def)
  ultimately show ?thesis
    using l by (simp add: read_attr_def u16_at_Inr a enc_attr_def from_be_to_be Let_def)
qed

lemma stun_attr_loop_enc:
  assumes "list_all attr_ok attrs"
  shows "stun_attr_loop (pre @ concat (map enc_attr attrs)) transaction_id (length pre) =
    Inr (first_mapped transaction_id (map fst attrs))"
  using assms
proof (induction attrs arbitrary: pre)
  case Nil
  then show ?case by (subst stun_attr_loop.simps) simp
next
  case (Cons a attrs)
  let ?p = "pre @ enc_attr a @ concat (map enc_attr attrs)"
  obtain m where m: "attr_mapped transaction_id (fst a) = Inr m" using attr_mapped_Inr by blast
  have len: "length pre + 4 + length (snd (fst a)) + padding (snd (fst a)) = length (pre @ enc_attr a)"
    using Cons.prems by (auto simp: enc_attr_def attr_ok_def split: prod.splits)
  have "length pre + 4 \<le> length ?p" using len by simp
  note step = stun_attr_loop_step [OF this read_attr_enc m, unfolded len]
  have "stun_attr_loop ?p transaction_id (length pre) = (case m of Some addr \<Rightarrow> Inr (Some addr)
      | None \<Rightarrow> stun_attr_loop ((pre @ enc_attr a) @ concat (map enc_attr attrs)) transaction_id (length (pre @ enc_attr a)))"
    using step Cons.prems by (simp split: option.split)
  with Cons.IH [of "pre @ enc_attr a"] Cons.prems m show ?case by (cases m) simp_all
qed

section \<open>Messages\<close>

text \<open>A message of the given kind: header, cookie, transaction and body.\<close>

definition stun_message :: "u16 \<Rightarrow> u8 list \<Rightarrow> u8 list \<Rightarrow> u8 list" where
  "stun_message kind transaction_id body =
     to_be 2 kind @ to_be 2 (word_of_nat (length body) :: u16) @ to_be 4 stun_magic_cookie @ transaction_id @ body"

lemma stun_message_parts:
  assumes "length transaction_id = 12" and "length body < 2 ^ 16" and "to_be 2 kind ! 0 AND 0xC0 = 0"
  shows "is_stun_packet (stun_message kind transaction_id body) = Inr True"
    and "u16_at (stun_message kind transaction_id body) 0 = Inr kind"
    and "slice (stun_message kind transaction_id body) 8 20 = Inr transaction_id"
proof -
  let ?m = "stun_message kind transaction_id body" and ?l = "word_of_nat (length body) :: u16"
  have len: "length ?m = 20 + length body" using assms(1) by (simp add: stun_message_def)
  have l: "unat ?l = length body" using assms(2) by (simp add: unat_of_nat)
  have kind: "take 2 (drop 0 ?m) = to_be 2 kind" by (simp add: stun_message_def)
  have size: "take 2 (drop 2 ?m) = to_be 2 ?l" by (simp add: stun_message_def)
  have cookie: "take 4 (drop 4 ?m) = to_be 4 stun_magic_cookie" by (simp add: stun_message_def)
  have "?m ! 0 = to_be 2 kind ! 0" by (simp add: stun_message_def nth_append)
  then have "item_at ?m 0 = Inr (to_be 2 kind ! 0)" using len by (simp add: item_at_def)
  then show "is_stun_packet ?m = Inr True"
    using assms(3) len size cookie l by (simp add: is_stun_packet_def u16_at_Inr u32_at_Inr from_be_to_be)
  show "u16_at ?m 0 = Inr kind" using len kind by (simp add: u16_at_Inr from_be_to_be)
  show "slice ?m 8 20 = Inr transaction_id" using len assms(1) by (simp add: stun_message_def)
qed

lemma stun_kinds: "to_be 2 (0x0101 :: u16) ! 0 AND 0xC0 = 0" "to_be 2 (0x0001 :: u16) ! 0 AND 0xC0 = 0"
  by code_simp+

lemma parse_stun_message:
  assumes "length transaction_id = 12" and "list_all attr_ok attrs" and "length (concat (map enc_attr attrs)) < 2 ^ 16"
  shows "parse_stun_mapped_addr (stun_message 0x0101 transaction_id (concat (map enc_attr attrs))) =
    Inr (first_mapped transaction_id (map fst attrs))"
proof -
  let ?body = "concat (map enc_attr attrs)"
  let ?pre = "to_be 2 (0x0101 :: u16) @ to_be 2 (word_of_nat (length ?body) :: u16) @ to_be 4 stun_magic_cookie @ transaction_id"
  have "stun_message 0x0101 transaction_id ?body = ?pre @ ?body" by (simp add: stun_message_def)
  moreover have "length ?pre = 20" using assms(1) by simp
  ultimately have "stun_attr_loop (stun_message 0x0101 transaction_id ?body) transaction_id 20 =
      Inr (first_mapped transaction_id (map fst attrs))"
    using stun_attr_loop_enc [OF assms(2), of ?pre transaction_id] by metis
  with stun_message_parts [OF assms(1,3) stun_kinds(1)] show ?thesis by (simp add: parse_stun_mapped_addr_def)
qed

definition mapped_value :: "sock_addr \<Rightarrow> u8 list \<Rightarrow> u8 list" where
  "mapped_value peer transaction_id = [0] @ (case sock_ip peer of
       V4 ip \<Rightarrow> [0x01] @ to_be 2 (sock_port peer XOR cookie_port) @ xor_bytes (to_be 4 ip) (to_be 4 stun_magic_cookie)
     | V6 ip \<Rightarrow> [0x02] @ to_be 2 (sock_port peer XOR cookie_port)
         @ xor_bytes (to_be 16 ip) (to_be 4 stun_magic_cookie @ transaction_id))"

lemma mapped_value_length:
  "length transaction_id = 12 \<Longrightarrow> length (mapped_value peer transaction_id) = (if is_ipv6 (sock_ip peer) then 20 else 8)"
  by (cases "sock_ip peer") (simp_all add: mapped_value_def)

lemma mapped_attr:
  assumes "length transaction_id = 12"
  shows "stun_xor_mapped_address_attr peer transaction_id = enc_attr ((0x0020, mapped_value peer transaction_id), [])"
    and "attr_ok ((0x0020, mapped_value peer transaction_id), [])"
proof -
  show "stun_xor_mapped_address_attr peer transaction_id = enc_attr ((0x0020, mapped_value peer transaction_id), [])"
    unfolding stun_xor_mapped_address_attr_def Let_def mapped_value_def [symmetric] by (simp add: enc_attr_def)
  show "attr_ok ((0x0020, mapped_value peer transaction_id), [])"
    using mapped_value_length [OF assms, of peer] by (simp add: attr_ok_def padding_def)
qed

lemma attr_mapped_value:
  assumes "length transaction_id = 12"
  shows "attr_mapped transaction_id (0x0020, mapped_value peer transaction_id) = Inr (Some (sock_new (sock_ip peer) (sock_port peer)))"
proof -
  let ?v = "mapped_value peer transaction_id" and ?x = "sock_port peer XOR cookie_port"
  have port: "take 2 (drop 2 ?v) = to_be 2 ?x"
    using assms by (cases "sock_ip peer") (simp_all add: mapped_value_def)
  have twice: "?x XOR cookie_port = sock_port peer" by (simp add: xor.assoc)
  show ?thesis
  proof (cases "sock_ip peer")
    case (V4 ip)
    have "take 4 (drop 4 ?v) = xor_bytes (to_be 4 ip) (to_be 4 stun_magic_cookie)" using V4 by (simp add: mapped_value_def)
    moreover have "?v ! 1 = 1" using V4 by (simp add: mapped_value_def)
    ultimately show ?thesis
      using port twice V4 mapped_value_length [OF assms, of peer]
      by (simp add: attr_mapped_def parse_stun_xor_mapped_addr_def assms u16_at_Inr from_be_to_be xor_bytes_twice)
  next
    case (V6 ip)
    have "take 16 (drop 4 ?v) = xor_bytes (to_be 16 ip) (to_be 4 stun_magic_cookie @ transaction_id)"
      using V6 assms by (simp add: mapped_value_def)
    moreover have "?v ! 1 = 2" using V6 by (simp add: mapped_value_def)
    ultimately show ?thesis
      using port twice V6 mapped_value_length [OF assms, of peer]
      by (simp add: attr_mapped_def parse_stun_xor_mapped_addr_def assms u16_at_Inr from_be_to_be xor_bytes_twice)
  qed
qed

lemma response_message:
  assumes "is_stun_packet packet = Inr True" and "u16_at packet 0 = Inr 0x0001"
  obtains transaction_id where "length transaction_id = 12" "slice packet 8 20 = Inr transaction_id"
    "stun_binding_success_response packet peer = Inr (Some (stun_message 0x0101 transaction_id
       (concat (map enc_attr [((0x0020, mapped_value peer transaction_id), [])]))))"
proof
  have "20 \<le> length packet" by (rule is_stun_packet_length [OF assms(1)])
  then show tid: "length (take 12 (drop 8 packet)) = 12" "slice packet 8 20 = Inr (take 12 (drop 8 packet))" by simp_all
  with assms mapped_attr(1) [OF tid(1), of peer]
  show "stun_binding_success_response packet peer = Inr (Some (stun_message 0x0101 (take 12 (drop 8 packet))
       (concat (map enc_attr [((0x0020, mapped_value peer (take 12 (drop 8 packet))), [])]))))"
    by (simp add: stun_binding_success_response_def stun_message_def Let_def)
qed

lemma response_parses:
  fixes peer
  assumes "length transaction_id = 12"
  defines "r \<equiv> stun_message 0x0101 transaction_id (concat (map enc_attr [((0x0020, mapped_value peer transaction_id), [])]))"
  shows "is_stun_packet r = Inr True" and "slice r 8 20 = Inr transaction_id" and "length r \<le> 44"
    and "parse_stun_mapped_addr r = Inr (Some (sock_new (sock_ip peer) (sock_port peer)))"
proof -
  let ?body = "concat (map enc_attr [((0x0020 :: u16, mapped_value peer transaction_id), [])])"
  have len: "length ?body \<le> 24" using mapped_value_length [OF assms(1), of peer] by (simp add: enc_attr_def)
  then have lt: "length ?body < 2 ^ 16" by simp
  show "length r \<le> 44" using len assms(1) by (simp add: r_def stun_message_def)
  show "is_stun_packet r = Inr True" "slice r 8 20 = Inr transaction_id"
    unfolding r_def by (rule stun_message_parts [OF assms(1) lt stun_kinds(1)])+
  show "parse_stun_mapped_addr r = Inr (Some (sock_new (sock_ip peer) (sock_port peer)))"
    using parse_stun_message [OF assms(1) _ lt] mapped_attr(2) [OF assms(1)] attr_mapped_value [OF assms(1)]
    by (simp add: r_def)
qed

lemma binding_request:
  "is_stun_packet (stun_binding_request n) = Inr True" "u16_at (stun_binding_request n) 0 = Inr 0x0001"
proof -
  have "stun_binding_request n = stun_message 0x0001 (replicate 4 0 @ to_be 8 n) []"
    by (simp add: stun_binding_request_def stun_message_def)
  then show "is_stun_packet (stun_binding_request n) = Inr True" "u16_at (stun_binding_request n) 0 = Inr 0x0001"
    using stun_message_parts [of "replicate 4 0 @ to_be 8 n" "[]" 1] stun_kinds(2) by simp_all
qed

section \<open>Properties\<close>

text \<open>
  C39: the proxy's STUN answers are read back.  Every binding request is answered; the answer
  is a STUN packet with the transaction of the request, and the parser reads from it the
  address and port the request came from, for both address families.  A node that asks
  another proxy through \<open>discover_public_ip\<close> learns the address its request arrived from.
\<close>

theorem stun_answer_roundtrip:
  assumes "is_stun_packet packet = Inr True" and "u16_at packet 0 = Inr 0x0001"
    and "resolve_probe_addr resolve server = Inr addr"
  shows "(\<exists>r. stun_binding_success_response packet peer = Inr (Some r)
      \<and> is_stun_packet r = Inr True \<and> slice r 8 20 = slice packet 8 20
      \<and> parse_stun_mapped_addr r = Inr (Some (sock_new (sock_ip peer) (sock_port peer))))
    \<and> discover_public_ip resolve
        (\<lambda>_ request. case stun_binding_success_response request peer of Inr answer \<Rightarrow> answer | Inl _ \<Rightarrow> None)
        unique_id server = Inr (sock_ip peer)"
proof -
  obtain tid where tid: "length tid = 12" "slice packet 8 20 = Inr tid"
    "stun_binding_success_response packet peer = Inr (Some (stun_message 0x0101 tid
       (concat (map enc_attr [((0x0020, mapped_value peer tid), [])]))))"
    using response_message [OF assms(1,2)] .
  obtain own where own: "length own = 12"
    "stun_binding_success_response (stun_binding_request unique_id) peer = Inr (Some (stun_message 0x0101 own
       (concat (map enc_attr [((0x0020, mapped_value peer own), [])]))))"
    using response_message [OF binding_request] .
  show ?thesis
    using tid response_parses [OF tid(1), of peer] own response_parses [OF own(1), of peer] assms(3)
    by (simp add: discover_public_ip_def)
qed

theorem stun_answer_roundtrip_witness:
  "discover_public_ip (\<lambda>_. Some [SockV4 7 3478])
     (\<lambda>_ request. case stun_binding_success_response request (SockV6 5 4000 0 0) of Inr answer \<Rightarrow> answer | Inl _ \<Rightarrow> None)
     42 ''stun'' = Inr (V6 5)"
proof -
  have "parse_sock ''stun'' = None" by code_simp
  then have "resolve_probe_addr (\<lambda>_. Some [SockV4 7 3478]) ''stun'' = Inr (SockV4 7 3478)"
    by (simp add: resolve_probe_addr_def)
  from stun_answer_roundtrip [OF binding_request [of 1] this, of "SockV6 5 4000 0 0" 42] show ?thesis by simp
qed

text \<open>
  The parser is safe on every packet.  Whatever the bytes, reading a mapped address never
  indexes out of range and ends; on a success response that consists of well-formed
  attributes of any types, padded to multiples of four with any bytes, it answers the
  address of the first attribute that holds one.
\<close>

lemma stun_parse_total:
  "(\<exists>result. parse_stun_mapped_addr packet = Inr result) \<and>
   (length transaction_id = 12 \<longrightarrow> list_all attr_ok attrs \<longrightarrow> length (concat (map enc_attr attrs)) < 2 ^ 16 \<longrightarrow>
      parse_stun_mapped_addr (stun_message 0x0101 transaction_id (concat (map enc_attr attrs))) =
        Inr (first_mapped transaction_id (map fst attrs)))"
  using parse_stun_mapped_addr_Inr parse_stun_message by blast

end
