(* ===== verification/Sip_Message.thy ===== *)
theory Sip_Message
  imports Net
begin

text \<open>
  SIP messages (\<open>sip/message.rs\<close>): the wrapper \<open>SipMessage\<close> around the message type of the
  \<open>rsipstack\<close> crate.  The crate's parser, printer and typed headers are not part of this
  repository; what the source calls of them is the record \<open>rsip_lib\<close>, an argument of the
  operations that use it.  A header is seen through its variant, name and value, as the
  source sees it.  Texts are strings of bytes.  Shown here: splitting a header value at its
  first top-level comma, so that popping a combined header yields its elements in order; the
  start line survives printing and parsing.
\<close>

section \<open>Data\<close>

datatype sip_start_line =
    RequestLine string string string
  | ResponseLine string u16 string

datatype header_kind =
    KVia | KFrom | KTo | KCallId | KCSeq | KContentLength | KMaxForwards | KUserAgent | KPath | KOther | KStandard

record sip_header =
  hd_kind :: header_kind
  hd_name :: string
  hd_value :: string

datatype sip_method =
    MInvite | MAck | MBye | MCancel | MRegister | MOptions | MSubscribe | MNotify | MRefer | MMessage
  | MUpdate | MInfo | MPRack | MPublish

text \<open>The first line of the crate's message; URI, version and status text in printed form.\<close>

datatype rsip_first =
    RsipRequest sip_method string string
  | RsipResponse u16 string string

record rsip_message =
  rm_first :: rsip_first
  rm_headers :: "sip_header list"
  rm_body :: string

record sip_message =
  sm_inner :: rsip_message
  sm_start_line :: sip_start_line

text \<open>A contact of a parsed \<open>Contact\<close> header: printed form, printed URI, user and \<open>expires\<close> parameter.\<close>

record sip_contact =
  sc_text :: string
  sc_uri :: string
  sc_user :: "string option"
  sc_expires :: "nat option"

datatype rsip_transport = RsipUdp | RsipTcp

text \<open>What the source calls of \<open>rsipstack\<close>; \<open>None\<close> and \<open>Inl\<close> are its errors.\<close>

record rsip_lib =
  rl_parse :: "string \<Rightarrow> rsip_message option"
  rl_to_bytes :: "rsip_message \<Rightarrow> string"
  rl_make_header :: "string \<Rightarrow> string \<Rightarrow> sip_header"
  rl_transaction_id :: "rsip_message \<Rightarrow> unit + string option"
  rl_max_forwards_header :: "rsip_message \<Rightarrow> string option"
  rl_via :: "rsip_transport \<Rightarrow> string \<Rightarrow> string \<Rightarrow> sip_header option"
  rl_via_of_addr :: "rsip_transport \<Rightarrow> sock_addr \<Rightarrow> string \<Rightarrow> sip_header"
  rl_record_route :: "string \<Rightarrow> sip_header option"
  rl_route_text :: "string \<Rightarrow> string option"
  rl_via_host :: "string \<Rightarrow> ip_addr option option"
  rl_via_text :: "string \<Rightarrow> u16 \<Rightarrow> string option \<Rightarrow> string"
  rl_status_text :: "u16 \<Rightarrow> string \<Rightarrow> string"
  rl_host_with_port :: "string \<Rightarrow> bool"
  rl_contacts :: "string \<Rightarrow> sip_contact list option"
  rl_rewrite_contact :: "sip_contact \<Rightarrow> string \<Rightarrow> string option \<Rightarrow> sip_contact"
  rl_uri :: "string \<Rightarrow> string option"
  rl_from_value :: "string \<Rightarrow> string \<Rightarrow> string"
  rl_to_value :: "string \<Rightarrow> string"

datatype sip_error =
    SipParseFailed
  | SipBranchFailed
  | UnclosedQuote string
  | InvalidSentBy
  | InvalidRecordRoute
  | InvalidPath
  | InvalidMaxForwards
  | InvalidContactHost
  | InvalidContact
  | InvalidOptionsUri
  | InvalidFromUri

section \<open>Start line\<close>

fun method_name :: "sip_method \<Rightarrow> string" where
  "method_name MInvite = ''INVITE''"
| "method_name MAck = ''ACK''"
| "method_name MBye = ''BYE''"
| "method_name MCancel = ''CANCEL''"
| "method_name MRegister = ''REGISTER''"
| "method_name MOptions = ''OPTIONS''"
| "method_name MSubscribe = ''SUBSCRIBE''"
| "method_name MNotify = ''NOTIFY''"
| "method_name MRefer = ''REFER''"
| "method_name MMessage = ''MESSAGE''"
| "method_name MUpdate = ''UPDATE''"
| "method_name MInfo = ''INFO''"
| "method_name MPRack = ''PRACK''"
| "method_name MPublish = ''PUBLISH''"

definition trim_end_cr :: "string \<Rightarrow> string" where
  "trim_end_cr s = rev (dropWhile (\<lambda>c. c = CHR 0x0D) (rev s))"

definition parse_start_line :: "string \<Rightarrow> sip_start_line option" where
  "parse_start_line bytes =
     (if CHR 0x0A \<notin> set bytes then None
      else let raw = takeWhile (\<lambda>c. c \<noteq> CHR 0x0A) bytes in
        if \<not> valid_utf8 (map of_char raw) then None
        else let line = trim_end_cr raw in
          if starts_with line ''SIP/''
          then (case splitn 3 (CHR '' '') line of
                  version # code # rest \<Rightarrow>
                    (case parse_uint 65535 code of
                       None \<Rightarrow> None
                     | Some c \<Rightarrow> Some (ResponseLine version (word_of_nat c) (case rest of [] \<Rightarrow> [] | reason # _ \<Rightarrow> reason)))
                | _ \<Rightarrow> None)
          else (case splitn 3 (CHR '' '') line of
                  method # uri # version # _ \<Rightarrow> Some (RequestLine method uri version)
                | _ \<Rightarrow> None))"

fun render_start_line :: "sip_start_line \<Rightarrow> string" where
  "render_start_line (RequestLine method uri version) = method @ '' '' @ uri @ '' '' @ version"
| "render_start_line (ResponseLine version code reason) = version @ '' '' @ dec_str (unat code) @ '' '' @ reason"

definition replace_start_line :: "string \<Rightarrow> sip_start_line \<Rightarrow> string" where
  "replace_start_line bytes start_line =
     (if CHR 0x0A \<notin> set bytes then bytes
      else let line_end = length (takeWhile (\<lambda>c. c \<noteq> CHR 0x0A) bytes);
               newline_start = (if line_end > 0 \<and> bytes ! (line_end - 1) = CHR 0x0D then line_end - 1 else line_end)
           in render_start_line start_line @ drop newline_start bytes)"

definition from_inner :: "rsip_message \<Rightarrow> sip_message" where
  "from_inner inner = \<lparr>sm_inner = inner, sm_start_line =
     (case rm_first inner of
        RsipRequest method uri version \<Rightarrow> RequestLine (method_name method) uri version
      | RsipResponse code text version \<Rightarrow> ResponseLine version code text)\<rparr>"

definition sip_parse :: "rsip_lib \<Rightarrow> string \<Rightarrow> sip_error + sip_message" where
  "sip_parse lib bytes =
     (case rl_parse lib bytes of
        None \<Rightarrow> Inl SipParseFailed
      | Some inner \<Rightarrow>
          let message = from_inner inner in
          (case parse_start_line bytes of
             None \<Rightarrow> Inr message
           | Some start_line \<Rightarrow> Inr (message\<lparr>sm_start_line := start_line\<rparr>)))"

definition sip_to_bytes :: "rsip_lib \<Rightarrow> sip_message \<Rightarrow> string" where
  "sip_to_bytes lib m = replace_start_line (rl_to_bytes lib (sm_inner m)) (sm_start_line m)"

section \<open>Accessors\<close>

definition sip_method_of :: "sip_message \<Rightarrow> string option" where
  "sip_method_of m = (case rm_first (sm_inner m) of RsipRequest method _ _ \<Rightarrow> Some (method_name method) | _ \<Rightarrow> None)"

definition request_uri :: "sip_message \<Rightarrow> string option" where
  "request_uri m = (case rm_first (sm_inner m) of RsipRequest _ uri _ \<Rightarrow> Some uri | _ \<Rightarrow> None)"

definition as_request :: "sip_message \<Rightarrow> rsip_message option" where
  "as_request m = (case rm_first (sm_inner m) of RsipRequest _ _ _ \<Rightarrow> Some (sm_inner m) | _ \<Rightarrow> None)"

definition is_response :: "sip_message \<Rightarrow> bool" where
  "is_response m \<longleftrightarrow> (case rm_first (sm_inner m) of RsipResponse _ _ _ \<Rightarrow> True | _ \<Rightarrow> False)"

definition top_via_branch :: "rsip_lib \<Rightarrow> sip_message \<Rightarrow> sip_error + string option" where
  "top_via_branch lib m = with_context (\<lambda>_. SipBranchFailed) (rl_transaction_id lib (sm_inner m))"

abbreviation headers_of :: "sip_message \<Rightarrow> sip_header list" where
  "headers_of m \<equiv> rm_headers (sm_inner m)"

definition set_headers :: "sip_header list \<Rightarrow> sip_message \<Rightarrow> sip_message" where
  "set_headers hs m = m\<lparr>sm_inner := (sm_inner m)\<lparr>rm_headers := hs\<rparr>\<rparr>"

definition named :: "string \<Rightarrow> sip_header \<Rightarrow> bool" where
  "named name hdr \<longleftrightarrow> eq_ignore_ascii_case (hd_name hdr) name"

definition sip_header_value :: "string \<Rightarrow> sip_message \<Rightarrow> string option" where
  "sip_header_value name m = map_option hd_value (find (named name) (headers_of m))"

definition sip_headers :: "string \<Rightarrow> sip_message \<Rightarrow> string list" where
  "sip_headers name m = map hd_value (filter (named name) (headers_of m))"

definition remove_headers :: "string \<Rightarrow> sip_message \<Rightarrow> sip_message" where
  "remove_headers name m = set_headers (filter (\<lambda>hdr. \<not> named name hdr) (headers_of m)) m"

definition prepend_header :: "rsip_lib \<Rightarrow> string \<Rightarrow> string \<Rightarrow> sip_message \<Rightarrow> sip_message" where
  "prepend_header lib name value m = set_headers (rl_make_header lib name value # headers_of m) m"

section \<open>Combined header values\<close>

text \<open>
  The scan of \<open>split_first_header_value\<close>: the text read so far, and whether the scan is inside
  quotes, right after a backslash inside them, and how deep inside angle brackets.
\<close>

fun scan_header ::
  "bool \<Rightarrow> bool \<Rightarrow> nat \<Rightarrow> string \<Rightarrow> string \<Rightarrow> bool \<times> string \<times> string option" where
  "scan_header in_quotes escaped depth acc [] = (in_quotes, rev acc, None)"
| "scan_header in_quotes escaped depth acc (c # s) =
     (if escaped then scan_header in_quotes False depth (c # acc) s
      else if c = CHR 0x5C \<and> in_quotes then scan_header in_quotes True depth (c # acc) s
      else if c = CHR 0x22 then scan_header (\<not> in_quotes) False depth (c # acc) s
      else if c = CHR ''<'' \<and> \<not> in_quotes then scan_header in_quotes False (depth + 1) (c # acc) s
      else if c = CHR ''>'' \<and> \<not> in_quotes then scan_header in_quotes False (depth - 1) (c # acc) s
      else if c = CHR '','' \<and> \<not> in_quotes \<and> depth = 0 then (False, rev acc, Some s)
      else scan_header in_quotes False depth (c # acc) s)"

definition split_first_header_value :: "string \<Rightarrow> sip_error + string \<times> string option" where
  "split_first_header_value value =
     (if value = [] then Inr (value, None)
      else case scan_header False False 0 [] value of
             (_, first, Some rest) \<Rightarrow> Inr (first, Some rest)
           | (in_quotes, first, None) \<Rightarrow> if in_quotes then Inl (UnclosedQuote value) else Inr (value, None))"

text \<open>The first header that satisfies a condition, with its index.\<close>

fun find_index :: "('a \<Rightarrow> bool) \<Rightarrow> 'a list \<Rightarrow> (nat \<times> 'a) option" where
  "find_index P [] = None"
| "find_index P (x # xs) = (if P x then Some (0, x) else map_option (\<lambda>(i, y). (Suc i, y)) (find_index P xs))"

definition remove_at :: "nat \<Rightarrow> 'a list \<Rightarrow> 'a list" where
  "remove_at i xs = take i xs @ drop (Suc i) xs"

text \<open>Take the first element off the header at \<open>index\<close> and put the rest back under \<open>name\<close>.\<close>

definition pop_value_at ::
  "rsip_lib \<Rightarrow> string \<Rightarrow> (nat \<times> sip_header) option \<Rightarrow> sip_message \<Rightarrow> sip_error + string option \<times> sip_message" where
  "pop_value_at lib name found m =
     (case found of
        None \<Rightarrow> Inr (None, m)
      | Some (index, hdr) \<Rightarrow>
          bind_res (split_first_header_value (hd_value hdr)) (\<lambda>(first, rest).
            let hs = headers_of m;
                hs' = (case rest of
                         Some r \<Rightarrow> if trim r \<noteq> [] then hs[index := rl_make_header lib name (trim r)] else remove_at index hs
                       | None \<Rightarrow> remove_at index hs)
            in Inr (Some (trim first), set_headers hs' m)))"

definition is_via :: "sip_header \<Rightarrow> bool" where
  "is_via hdr \<longleftrightarrow> hd_kind hdr = KVia \<or> (hd_kind hdr = KOther \<and> eq_ignore_ascii_case (hd_name hdr) ''Via'')"

definition pop_top_via :: "rsip_lib \<Rightarrow> sip_message \<Rightarrow> sip_error + string option \<times> sip_message" where
  "pop_top_via lib m = pop_value_at lib ''Via'' (find_index is_via (headers_of m)) m"

definition pop_top_header_value :: "rsip_lib \<Rightarrow> string \<Rightarrow> sip_message \<Rightarrow> sip_error + string option \<times> sip_message" where
  "pop_top_header_value lib name m = pop_value_at lib name (find_index (named name) (headers_of m)) m"

definition top_header_value :: "string \<Rightarrow> sip_message \<Rightarrow> sip_error + string option" where
  "top_header_value name m =
     (case find (named name) (headers_of m) of
        None \<Rightarrow> Inr None
      | Some hdr \<Rightarrow> bind_res (split_first_header_value (hd_value hdr)) (\<lambda>(first, _). Inr (Some (trim first))))"

section \<open>Adding headers\<close>

text \<open>
  \<open>prepend_via\<close> builds a Via with the branch and an empty \<open>rport\<close> parameter; \<open>None\<close> of \<open>rl_via\<close>
  is a sent-by that does not parse.
\<close>

definition prepend_via ::
  "rsip_lib \<Rightarrow> rsip_transport \<Rightarrow> string \<Rightarrow> string \<Rightarrow> sip_message \<Rightarrow> sip_error + sip_message" where
  "prepend_via lib transport sent_by branch m =
     (case rl_via lib transport sent_by branch of
        None \<Rightarrow> Inl InvalidSentBy
      | Some hdr \<Rightarrow> Inr (set_headers (hdr # headers_of m) m))"

definition prepend_record_route :: "rsip_lib \<Rightarrow> string \<Rightarrow> sip_message \<Rightarrow> sip_error + sip_message" where
  "prepend_record_route lib addr m =
     (case rl_record_route lib (''sip:'' @ addr @ '';lr'') of
        None \<Rightarrow> Inl InvalidRecordRoute
      | Some hdr \<Rightarrow> Inr (set_headers (hdr # headers_of m) m))"

definition prepend_path :: "rsip_lib \<Rightarrow> string \<Rightarrow> sip_message \<Rightarrow> sip_error + sip_message" where
  "prepend_path lib addr m =
     (case rl_route_text lib (''<sip:'' @ addr @ '';lr>'') of
        None \<Rightarrow> Inl InvalidPath
      | Some route \<Rightarrow> Inr (set_headers (\<lparr>hd_kind = KPath, hd_name = ''Path'', hd_value = route\<rparr> # headers_of m) m))"

text \<open>Replace the first header that satisfies a condition, or append.\<close>

definition replace_first :: "('a \<Rightarrow> bool) \<Rightarrow> 'a \<Rightarrow> 'a list \<Rightarrow> 'a list" where
  "replace_first P x xs = (case find_index P xs of Some (i, _) \<Rightarrow> xs[i := x] | None \<Rightarrow> xs @ [x])"

definition set_header :: "rsip_lib \<Rightarrow> string \<Rightarrow> string \<Rightarrow> sip_message \<Rightarrow> sip_message" where
  "set_header lib name value m =
     set_headers (replace_first (named name) (rl_make_header lib name value) (headers_of m)) m"

definition max_forwards_header :: "nat \<Rightarrow> sip_header" where
  "max_forwards_header hops = \<lparr>hd_kind = KMaxForwards, hd_name = ''Max-Forwards'', hd_value = dec_str hops\<rparr>"

definition set_max_forwards :: "nat \<Rightarrow> sip_message \<Rightarrow> sip_message" where
  "set_max_forwards hops m =
     set_headers (replace_first (named ''Max-Forwards'') (max_forwards_header hops) (headers_of m)) m"

definition max_forwards :: "rsip_lib \<Rightarrow> sip_message \<Rightarrow> sip_error + nat option" where
  "max_forwards lib m =
     (case rl_max_forwards_header lib (sm_inner m) of
        None \<Rightarrow> Inr None
      | Some value \<Rightarrow>
          (case parse_uint (2 ^ 32 - 1) (trim value) of None \<Rightarrow> Inl InvalidMaxForwards | Some n \<Rightarrow> Inr (Some n)))"

section \<open>Via parameters\<close>

definition last_word :: "string \<Rightarrow> string option" where
  "last_word s = (case split_whitespace s of [] \<Rightarrow> None | ws \<Rightarrow> Some (last ws))"

definition via_sent_by_ip :: "string \<Rightarrow> ip_addr option" where
  "via_sent_by_ip sent_protocol =
     (case last_word sent_protocol of
        None \<Rightarrow> None
      | Some sent_by \<Rightarrow>
          (case (case sent_by of c # r \<Rightarrow> if c = CHR ''['' then split_once (CHR '']'') r else None | [] \<Rightarrow> None) of
             Some (host, _) \<Rightarrow> parse_ip host
           | None \<Rightarrow> parse_ip (case split_once (CHR '':'') sent_by of Some (host, _) \<Rightarrow> host | None \<Rightarrow> sent_by)))"

definition param_name :: "string \<Rightarrow> string" where
  "param_name param = trim (case split_once (CHR ''='') param of Some (name, _) \<Rightarrow> name | None \<Rightarrow> param)"

definition via_param :: "sock_addr \<Rightarrow> string \<Rightarrow> string" where
  "via_param peer param =
     (if eq_ignore_ascii_case (param_name param) ''received'' then '';received='' @ show_ip (sock_ip peer)
      else if eq_ignore_ascii_case (param_name param) ''rport'' then '';rport='' @ dec_str (unat (sock_port peer))
      else CHR '';'' # param)"

definition rewrite_via_received_rport :: "string \<Rightarrow> sock_addr \<Rightarrow> string" where
  "rewrite_via_received_rport value peer =
     (let parts = split_on (\<lambda>c. c = CHR '';'') value;
          sent_protocol = trim (hd parts);
          params = filter (\<lambda>p. p \<noteq> []) (map trim (tl parts));
          has_received = (\<exists>p \<in> set params. eq_ignore_ascii_case (param_name p) ''received'');
          should_add_received = (case via_sent_by_ip sent_protocol of None \<Rightarrow> True | Some ip \<Rightarrow> ip \<noteq> sock_ip peer)
      in sent_protocol @ concat (map (via_param peer) params)
           @ (if \<not> has_received \<and> should_add_received then '';received='' @ show_ip (sock_ip peer) else []))"

text \<open>The typed variant: \<open>rl_via_host\<close> is the parsed sent-by host (\<open>None\<close> inside for a domain).\<close>

definition rewrite_via_received_rport_typed :: "rsip_lib \<Rightarrow> string \<Rightarrow> sock_addr \<Rightarrow> string option" where
  "rewrite_via_received_rport_typed lib value peer =
     (case rl_via_host lib value of
        None \<Rightarrow> None
      | Some host \<Rightarrow> Some (rl_via_text lib value (sock_port peer)
          (if host \<noteq> Some (sock_ip peer) then Some (show_ip (sock_ip peer)) else None)))"

definition via_header :: "string \<Rightarrow> sip_header" where
  "via_header value = \<lparr>hd_kind = KVia, hd_name = ''Via'', hd_value = value\<rparr>"

definition apply_top_via_received_rport :: "rsip_lib \<Rightarrow> sock_addr \<Rightarrow> sip_message \<Rightarrow> sip_error + sip_message" where
  "apply_top_via_received_rport lib peer m =
     (case find_index (named ''Via'') (headers_of m) of
        None \<Rightarrow> Inr m
      | Some (index, hdr) \<Rightarrow>
          bind_res (split_first_header_value (hd_value hdr)) (\<lambda>(first, rest).
            let first = trim first;
                rewritten = (case rewrite_via_received_rport_typed lib first peer of
                               Some text \<Rightarrow> text | None \<Rightarrow> rewrite_via_received_rport first peer);
                hdr' = (case rest of
                          Some r \<Rightarrow> if trim r \<noteq> [] then rl_make_header lib ''Via'' (rewritten @ '', '' @ trim r)
                                    else via_header rewritten
                        | None \<Rightarrow> via_header rewritten)
            in Inr (set_headers ((headers_of m)[index := hdr']) m)))"

section \<open>Contacts\<close>

text \<open>
  One contact of a Contact header: everything but \<open>*\<close> gets the proxy's host and the user chosen
  by \<open>rewrite_user\<close>; an empty user leaves the user part alone.
\<close>

definition rewrite_contact ::
  "rsip_lib \<Rightarrow> string \<Rightarrow> (string \<Rightarrow> string \<Rightarrow> string) \<Rightarrow> sip_contact \<Rightarrow> string \<times> (string \<times> string) list" where
  "rewrite_contact lib sent_by rewrite_user c =
     (if sc_text c \<noteq> ''*''
      then let user = rewrite_user (sc_uri c) (case sc_user c of None \<Rightarrow> [] | Some u \<Rightarrow> u);
               c' = rl_rewrite_contact lib c sent_by (if user \<noteq> [] then Some user else None)
           in (sc_text c', [(sc_uri c, sc_uri c')])
      else (sc_text c, []))"

definition join_comma :: "string list \<Rightarrow> string" where
  "join_comma ws = (case ws of [] \<Rightarrow> [] | w # r \<Rightarrow> w @ concat (map (\<lambda>x. '', '' @ x) r))"

definition rewrite_contact_header ::
  "rsip_lib \<Rightarrow> string \<Rightarrow> (string \<Rightarrow> string \<Rightarrow> string) \<Rightarrow> sip_header \<Rightarrow> sip_error + sip_header \<times> (string \<times> string) list" where
  "rewrite_contact_header lib sent_by rewrite_user hdr =
     (if named ''Contact'' hdr
      then (case rl_contacts lib (hd_value hdr) of
              None \<Rightarrow> Inl InvalidContact
            | Some cs \<Rightarrow>
                let rs = map (rewrite_contact lib sent_by rewrite_user) cs
                in Inr (rl_make_header lib ''Contact'' (join_comma (map fst rs)), concat (map snd rs)))
      else Inr (hdr, []))"

definition rewrite_contact_host_with_user ::
  "rsip_lib \<Rightarrow> string \<Rightarrow> (string \<Rightarrow> string \<Rightarrow> string) \<Rightarrow> sip_message \<Rightarrow> sip_error + (string \<times> string) list \<times> sip_message" where
  "rewrite_contact_host_with_user lib sent_by rewrite_user m =
     (if \<not> rl_host_with_port lib sent_by then Inl InvalidContactHost
      else bind_res (collect_res (rewrite_contact_header lib sent_by rewrite_user) (headers_of m)) (\<lambda>rs.
        Inr (concat (map snd rs), set_headers (map fst rs) m)))"

definition rewrite_contact_host :: "rsip_lib \<Rightarrow> string \<Rightarrow> sip_message \<Rightarrow> sip_error + (string \<times> string) list \<times> sip_message" where
  "rewrite_contact_host lib sent_by m = rewrite_contact_host_with_user lib sent_by (\<lambda>_ user. user) m"

section \<open>New messages\<close>

definition content_length_header :: sip_header where
  "content_length_header = \<lparr>hd_kind = KContentLength, hd_name = ''Content-Length'', hd_value = ''0''\<rparr>"

definition response_like :: "rsip_lib \<Rightarrow> sip_message \<Rightarrow> u16 \<Rightarrow> string \<Rightarrow> sip_message" where
  "response_like lib request code reason =
     (let hs = filter (\<lambda>hdr. hd_kind hdr \<in> {KVia, KFrom, KTo, KCallId, KCSeq}) (headers_of request) @ [content_length_header];
          response = from_inner \<lparr>rm_first = RsipResponse code (rl_status_text lib code reason) ''SIP/2.0'', rm_headers = hs, rm_body = []\<rparr>
      in response\<lparr>sm_start_line := ResponseLine ''SIP/2.0'' code reason\<rparr>)"

definition options_request ::
  "rsip_lib \<Rightarrow> string \<Rightarrow> string \<Rightarrow> rsip_transport \<Rightarrow> sock_addr \<Rightarrow> string \<Rightarrow> string \<Rightarrow> string \<Rightarrow> u32 \<Rightarrow> sip_error + sip_message" where
  "options_request lib user_agent uri transport sent_by branch tag call_id cseq =
     (case rl_uri lib uri of
        None \<Rightarrow> Inl InvalidOptionsUri
      | Some uri \<Rightarrow>
          (case rl_uri lib ''sip:healthcheck@localhost'' of
             None \<Rightarrow> Inl InvalidFromUri
           | Some from_uri \<Rightarrow>
               Inr (from_inner \<lparr>rm_first = RsipRequest MOptions uri ''SIP/2.0'',
                    rm_headers = [rl_via_of_addr lib transport sent_by branch,
                      \<lparr>hd_kind = KFrom, hd_name = ''From'', hd_value = rl_from_value lib from_uri tag\<rparr>,
                      \<lparr>hd_kind = KTo, hd_name = ''To'', hd_value = rl_to_value lib uri\<rparr>,
                      \<lparr>hd_kind = KCallId, hd_name = ''Call-ID'', hd_value = call_id\<rparr>,
                      \<lparr>hd_kind = KCSeq, hd_name = ''CSeq'', hd_value = dec_str (unat cseq) @ '' OPTIONS''\<rparr>,
                      max_forwards_header 70,
                      \<lparr>hd_kind = KUserAgent, hd_name = ''User-Agent'', hd_value = user_agent\<rparr>,
                      content_length_header],
                    rm_body = []\<rparr>)))"

section \<open>Lists and trimming\<close>

lemma find_index_Some:
  "find_index P xs = Some (i, x) \<longleftrightarrow> i < length xs \<and> xs ! i = x \<and> P x \<and> (\<forall>j < i. \<not> P (xs ! j))"
proof (induction xs arbitrary: i)
  case (Cons a xs)
  show ?case
  proof (cases i)
    case 0
    then show ?thesis by auto
  next
    case (Suc i')
    with Cons [of i'] show ?thesis
      by (auto simp: All_less_Suc2)
  qed
qed simp

lemma find_index_None: "find_index P xs = None \<longleftrightarrow> (\<forall>x \<in> set xs. \<not> P x)"
  by (induction xs) auto

lemma find_index_update:
  assumes "find_index P xs = Some (i, x)" and "P y"
  shows "find_index P (xs[i := y]) = Some (i, y)"
  using assms by (auto simp: find_index_Some)

definition visible :: "char \<Rightarrow> bool" where
  "visible c \<longleftrightarrow> 33 \<le> (of_char c :: nat) \<and> (of_char c :: nat) \<le> 126"

lemma ws_prefix_visible: "visible c \<Longrightarrow> ws_prefix (c # s) = 0"
  by (auto simp: ws_prefix_def ws_bytes_def visible_def split: list.split)

lemma ws_prefix_blank: "ws_prefix (CHR '' '' # s) = 1"
  by (simp add: ws_prefix_def ws_bytes_def)

lemma ws_bytes_last:
  assumes "33 \<le> b" "b \<le> 126"
  shows "ws_bytes [b] = 0" "ws_bytes [a, b] \<noteq> 2" "ws_bytes [a, a', b] \<noteq> 3"
  using assms by (auto simp: ws_bytes_def)

lemma ws_suffix_visible:
  assumes "visible c"
  shows "ws_suffix (s @ [c]) = 0"
proof -
  have c: "33 \<le> (of_char c :: nat)" "(of_char c :: nat) \<le> 126" using assms by (auto simp: visible_def)
  have two: "ws_prefix (drop (length s - 1) (s @ [c])) \<noteq> 2" if "s \<noteq> []"
    using that ws_bytes_last(2) [OF c] by (cases s rule: rev_cases) (simp_all add: ws_prefix_def)
  have three: "ws_prefix (drop (length s - 2) (s @ [c])) \<noteq> 3" if long: "length s \<ge> 2"
  proof -
    obtain r b where r: "s = r @ [b]" using long by (cases s rule: rev_cases) auto
    with long obtain r' a where "r = r' @ [a]" by (cases r rule: rev_cases) auto
    with r have "s = r' @ [a, b]" by simp
    then show ?thesis using ws_bytes_last(3) [OF c] by (simp add: ws_prefix_def)
  qed
  have "ws_prefix [c] = 0" using ws_bytes_last(1) [OF c] by (simp add: ws_prefix_def)
  with two three show ?thesis by (cases s) (auto simp: ws_suffix_def Let_def)
qed

text \<open>Texts that begin and end with a visible character.\<close>

definition framed :: "string \<Rightarrow> bool" where
  "framed s \<longleftrightarrow> s \<noteq> [] \<and> visible (hd s) \<and> visible (last s)"

lemma framed_nonempty: "framed s \<Longrightarrow> s \<noteq> []"
  by (simp add: framed_def)

lemma trim_framed: "framed s \<Longrightarrow> trim s = s"
proof -
  assume s: "framed s"
  then obtain c r where c: "s = c # r" "visible c" by (cases s) (auto simp: framed_def)
  from s obtain r' d where d: "s = r' @ [d]" "visible d" by (cases s rule: rev_cases) (auto simp: framed_def)
  have "trim_start s = s" by (subst trim_start.simps) (simp add: c ws_prefix_visible)
  moreover have "trim_end s = s" by (subst trim_end.simps) (simp add: d ws_suffix_visible)
  ultimately show ?thesis by (simp add: trim_def)
qed

lemma trim_blank_framed: "framed s \<Longrightarrow> trim (CHR '' '' # s) = s"
proof -
  assume s: "framed s"
  then obtain c r where c: "s = c # r" "visible c" by (cases s) (auto simp: framed_def)
  have "trim_start (CHR '' '' # s) = trim_start s" by (subst trim_start.simps) (simp add: ws_prefix_blank)
  with trim_framed [OF s] show ?thesis by (simp add: trim_def)
qed

lemma framed_append: "framed a \<Longrightarrow> framed b \<Longrightarrow> framed (a @ x @ b)"
  by (auto simp: framed_def)

section \<open>Splitting at top-level commas\<close>

fun scan_end :: "bool \<Rightarrow> bool \<Rightarrow> nat \<Rightarrow> string \<Rightarrow> (bool \<times> bool \<times> nat) option" where
  "scan_end in_quotes escaped depth [] = Some (in_quotes, escaped, depth)"
| "scan_end in_quotes escaped depth (c # s) =
     (if escaped then scan_end in_quotes False depth s
      else if c = CHR 0x5C \<and> in_quotes then scan_end in_quotes True depth s
      else if c = CHR 0x22 then scan_end (\<not> in_quotes) False depth s
      else if c = CHR ''<'' \<and> \<not> in_quotes then scan_end in_quotes False (depth + 1) s
      else if c = CHR ''>'' \<and> \<not> in_quotes then scan_end in_quotes False (depth - 1) s
      else if c = CHR '','' \<and> \<not> in_quotes \<and> depth = 0 then None
      else scan_end in_quotes False depth s)"

text \<open>An element: quotes and brackets are closed and no comma stands outside them.\<close>

definition element :: "string \<Rightarrow> bool" where
  "element s \<longleftrightarrow> framed s \<and> scan_end False False 0 s = Some (False, False, 0)"

lemma scan_header_append:
  "scan_end q e d s = Some (q', e', d') \<Longrightarrow> scan_header q e d acc (s @ t) = scan_header q' e' d' (rev s @ acc) t"
  by (induction q e d s arbitrary: acc rule: scan_end.induct) (auto split: if_splits)

lemma split_first_element:
  assumes "element s"
  shows "split_first_header_value s = Inr (s, None)"
    and "split_first_header_value (s @ CHR '','' # t) = Inr (s, Some t)"
proof -
  have s: "scan_end False False 0 s = Some (False, False, 0)" "s \<noteq> []" using assms by (auto simp: element_def framed_def)
  show "split_first_header_value s = Inr (s, None)"
    using s scan_header_append [OF s(1), of "[]" "[]"] by (simp add: split_first_header_value_def)
  show "split_first_header_value (s @ CHR '','' # t) = Inr (s, Some t)"
    using s scan_header_append [OF s(1), of "[]" "CHR '','' # t"] by (simp add: split_first_header_value_def)
qed

lemma join_comma_Cons: "es \<noteq> [] \<Longrightarrow> join_comma (e # es) = e @ CHR '','' # CHR '' '' # join_comma es"
  by (cases es) (simp_all add: join_comma_def)

lemma join_comma_framed: "es \<noteq> [] \<Longrightarrow> \<forall>e \<in> set es. element e \<Longrightarrow> framed (join_comma es)"
proof (induction es)
  case (Cons e es)
  show ?case
  proof (cases "es = []")
    case True
    with Cons.prems show ?thesis by (simp add: join_comma_def element_def)
  next
    case False
    with Cons framed_append [of e "join_comma es" "'', ''"] show ?thesis by (simp add: join_comma_Cons element_def)
  qed
qed simp

text \<open>The crate's \<open>make_header\<close> keeps name (up to case) and value.\<close>

definition make_header_law :: "rsip_lib \<Rightarrow> bool" where
  "make_header_law lib \<longleftrightarrow> (\<forall>name value. named name (rl_make_header lib name value) \<and> hd_value (rl_make_header lib name value) = value)"

fun pop_values :: "rsip_lib \<Rightarrow> string \<Rightarrow> nat \<Rightarrow> sip_message \<Rightarrow> sip_error + string list \<times> sip_message" where
  "pop_values lib name 0 m = Inr ([], m)"
| "pop_values lib name (Suc n) m = bind_res (pop_top_header_value lib name m) (\<lambda>(v, m).
     (case v of None \<Rightarrow> Inr ([], m)
      | Some x \<Rightarrow> bind_res (pop_values lib name n m) (\<lambda>(xs, m). Inr (x # xs, m))))"

lemma headers_of_set [simp]: "headers_of (set_headers hs m) = hs" "set_headers hs (set_headers hs' m) = set_headers hs m"
  by (simp_all add: set_headers_def)

lemma pop_one:
  assumes "find_index (named name) (headers_of m) = Some (i, hdr)" and "element e"
  shows "hd_value hdr = e \<Longrightarrow>
      pop_top_header_value lib name m = Inr (Some e, set_headers (remove_at i (headers_of m)) m)"
    and "hd_value hdr = e @ CHR '','' # CHR '' '' # rest \<Longrightarrow> framed rest \<Longrightarrow>
      pop_top_header_value lib name m =
        Inr (Some e, set_headers ((headers_of m)[i := rl_make_header lib name rest]) m)"
proof -
  have e: "trim e = e" using assms(2) by (simp add: element_def trim_framed)
  show "pop_top_header_value lib name m = Inr (Some e, set_headers (remove_at i (headers_of m)) m)" if "hd_value hdr = e"
    using assms e that by (simp add: pop_top_header_value_def pop_value_at_def split_first_element)
  show "pop_top_header_value lib name m = Inr (Some e, set_headers ((headers_of m)[i := rl_make_header lib name rest]) m)"
    if "hd_value hdr = e @ CHR '','' # CHR '' '' # rest" "framed rest"
    using assms e that framed_nonempty [OF that(2)]
    by (simp add: pop_top_header_value_def pop_value_at_def split_first_element trim_blank_framed)
qed

section \<open>Properties\<close>

text \<open>
  C15: a combined header is taken apart in order.  If the first header with a name holds
  several elements joined by a comma and a blank, each with closed quotes and brackets and
  no comma outside them, then popping as many values as there are elements yields exactly
  the elements in their order, the top value read without popping is the first of them, and
  afterwards the header is gone and the other headers are as they were.
\<close>

theorem combined_header_pops:
  assumes "make_header_law lib" and "elements \<noteq> []" and "\<forall>e \<in> set elements. element e"
    and "find_index (named name) (headers_of m) = Some (i, hdr)" and "hd_value hdr = join_comma elements"
  shows "pop_values lib name (length elements) m = Inr (elements, set_headers (remove_at i (headers_of m)) m)
    \<and> top_header_value name m = Inr (Some (hd elements))"
proof
  show "pop_values lib name (length elements) m = Inr (elements, set_headers (remove_at i (headers_of m)) m)"
    using assms(2-5)
  proof (induction elements arbitrary: m hdr)
    case (Cons e es)
    show ?case
    proof (cases "es = []")
      case True
      with Cons.prems pop_one(1) [of name m i hdr e lib] show ?thesis by (simp add: join_comma_def)
    next
      case False
      let ?h = "rl_make_header lib name (join_comma es)"
      let ?m = "set_headers ((headers_of m)[i := ?h]) m"
      have h: "named name ?h" "hd_value ?h = join_comma es" using assms(1) by (simp_all add: make_header_law_def)
      have i: "i < length (headers_of m)" using Cons.prems(3) by (simp add: find_index_Some)
      have "pop_top_header_value lib name m = Inr (Some e, ?m)"
        using pop_one(2) [OF Cons.prems(3), of e "join_comma es" lib] Cons.prems(2,4) False
        by (simp add: join_comma_Cons join_comma_framed)
      moreover have "find_index (named name) (headers_of ?m) = Some (i, ?h)"
        using Cons.prems(3) h(1) find_index_update [OF Cons.prems(3) h(1)] by simp
      from Cons.IH [OF False _ this h(2)] Cons.prems(2)
      have "pop_values lib name (length es) ?m = Inr (es, set_headers (remove_at i (headers_of ?m)) ?m)" by simp
      moreover have "remove_at i (headers_of ?m) = remove_at i (headers_of m)" using i by (simp add: remove_at_def)
      ultimately show ?thesis by simp
    qed
  qed simp
  obtain e es where es: "elements = e # es" using assms(2) by (cases elements) auto
  have e: "element e" "trim e = e" using assms(3) es by (simp_all add: element_def trim_framed)
  have "find (named name) (headers_of m) = Some hdr"
    using assms(4) by (auto simp: find_index_Some find_Some_iff)
  then show "top_header_value name m = Inr (Some (hd elements))"
    using assms(5) e es split_first_element [OF e(1)]
    by (cases "es = []") (simp_all add: top_header_value_def join_comma_Cons, simp add: join_comma_def)
qed

definition example_lib :: rsip_lib where
  "example_lib = \<lparr>rl_parse = \<lambda>_. None, rl_to_bytes = \<lambda>_. ''x'' @ [CHR 0x0D, CHR 0x0A],
     rl_make_header = \<lambda>name value. \<lparr>hd_kind = if name = ''Via'' then KVia else KStandard, hd_name = name, hd_value = value\<rparr>,
     rl_transaction_id = \<lambda>_. Inr None, rl_max_forwards_header = \<lambda>_. None, rl_via = \<lambda>_ _ _. None,
     rl_via_of_addr = \<lambda>_ _ branch. via_header branch, rl_record_route = \<lambda>_. None, rl_route_text = \<lambda>_. None,
     rl_via_host = \<lambda>_. None, rl_via_text = \<lambda>v _ _. v, rl_status_text = \<lambda>_ r. r, rl_host_with_port = \<lambda>_. False,
     rl_contacts = \<lambda>_. None, rl_rewrite_contact = \<lambda>c _ _. c, rl_uri = \<lambda>_. None, rl_from_value = \<lambda>u _. u,
     rl_to_value = \<lambda>u. u\<rparr>"

theorem combined_header_pops_witness:
  "pop_values example_lib ''Route'' 2 (from_inner \<lparr>rm_first = RsipRequest MBye ''sip:a'' ''SIP/2.0'',
     rm_headers = [\<lparr>hd_kind = KStandard, hd_name = ''ROUTE'', hd_value = ''<sip:p;x=a,b>, \"c,d\" <sip:q>''\<rparr>], rm_body = []\<rparr>) =
   Inr ([''<sip:p;x=a,b>'', ''\"c,d\" <sip:q>''], from_inner \<lparr>rm_first = RsipRequest MBye ''sip:a'' ''SIP/2.0'',
     rm_headers = [], rm_body = []\<rparr>)"
proof -
  have "make_header_law example_lib"
    by (simp add: make_header_law_def example_lib_def named_def eq_ignore_ascii_case_def)
  moreover have "element ''<sip:p;x=a,b>''" "element ''\"c,d\" <sip:q>''" by code_simp+
  moreover have "named ''Route'' \<lparr>hd_kind = KStandard, hd_name = ''ROUTE'', hd_value = ''<sip:p;x=a,b>, \"c,d\" <sip:q>''\<rparr>"
    by code_simp
  ultimately show ?thesis
    using combined_header_pops [of example_lib "[''<sip:p;x=a,b>'', ''\"c,d\" <sip:q>'']" "''Route''"
        "from_inner \<lparr>rm_first = RsipRequest MBye ''sip:a'' ''SIP/2.0'',
          rm_headers = [\<lparr>hd_kind = KStandard, hd_name = ''ROUTE'', hd_value = ''<sip:p;x=a,b>, \"c,d\" <sip:q>''\<rparr>], rm_body = []\<rparr>"
        0 "\<lparr>hd_kind = KStandard, hd_name = ''ROUTE'', hd_value = ''<sip:p;x=a,b>, \"c,d\" <sip:q>''\<rparr>"]
    by (simp add: from_inner_def set_headers_def remove_at_def join_comma_def numeral_2_eq_2)
qed

text \<open>Start lines that the wrapper can tell apart: no line end inside, no blank but the two separators.\<close>

fun start_line_ok :: "sip_start_line \<Rightarrow> bool" where
  "start_line_ok (RequestLine method uri version) \<longleftrightarrow>
     CHR '' '' \<notin> set method \<and> CHR '' '' \<notin> set uri \<and> \<not> starts_with (render_start_line (RequestLine method uri version)) ''SIP/''"
| "start_line_ok (ResponseLine version code reason) \<longleftrightarrow> CHR '' '' \<notin> set version \<and> starts_with version ''SIP/''"

definition line_text_ok :: "string \<Rightarrow> bool" where
  "line_text_ok line \<longleftrightarrow> CHR 0x0A \<notin> set line \<and> (line \<noteq> [] \<longrightarrow> last line \<noteq> CHR 0x0D) \<and> valid_utf8 (map of_char line)"

lemma valid_utf8_append: "valid_utf8 a \<Longrightarrow> valid_utf8 b \<Longrightarrow> valid_utf8 (a @ b)"
proof (induction a rule: valid_utf8.induct)
  case (2 a s)
  consider "a < 128" | "194 \<le> a" "a \<le> 223" | "224 \<le> a" "a \<le> 239" | "240 \<le> a" "a \<le> 244"
    using "2.prems"(1) by (simp split: if_splits)
  then show ?case
  proof cases
    case 1
    with "2.IH"(1) "2.prems" show ?thesis by simp
  next
    case 2
    with "2.prems"(1) obtain b r where "s = b # r" "tail_byte b" "valid_utf8 r" by (cases s) auto
    with 2 "2.IH"(2) "2.prems"(2) show ?thesis by simp
  next
    case 3
    with "2.prems"(1) obtain b c r where s: "s = b # c # r" by (auto split: list.splits)
    with 3 "2.prems" "2.IH"(3) show ?thesis by simp
  next
    case 4
    with "2.prems"(1) obtain b c d r where s: "s = b # c # d # r" by (auto split: list.splits)
    with 4 "2.prems" "2.IH"(4) show ?thesis by simp
  qed
qed simp

lemma trim_end_cr_ok: "(line \<noteq> [] \<longrightarrow> last line \<noteq> CHR 0x0D) \<Longrightarrow> trim_end_cr line = line"
  by (cases line rule: rev_cases) (simp_all add: trim_end_cr_def)

lemma trim_end_cr_snoc: "trim_end_cr (line @ [CHR 0x0D]) = trim_end_cr line"
  by (simp add: trim_end_cr_def)

text \<open>What follows the first line: its line end and the rest of the message.\<close>

definition after_line :: "string \<Rightarrow> string" where
  "after_line bytes = dropWhile (\<lambda>c. c \<noteq> CHR 0x0A) bytes"

lemma replace_start_line_split:
  assumes "CHR 0x0A \<in> set bytes"
  obtains cr where "cr = [] \<or> cr = [CHR 0x0D]" "replace_start_line bytes sl = render_start_line sl @ cr @ after_line bytes"
proof -
  let ?n = "length (takeWhile (\<lambda>c. c \<noteq> CHR 0x0A) bytes)"
  have drop: "drop ?n bytes = after_line bytes" by (simp add: after_line_def dropWhile_eq_drop)
  have le: "?n \<le> length bytes" by (rule length_takeWhile_le)
  show ?thesis
  proof (cases "?n > 0 \<and> bytes ! (?n - 1) = CHR 0x0D")
    case True
    then have "?n - 1 < length bytes" "Suc (?n - 1) = ?n" using le by linarith+
    with True Cons_nth_drop_Suc [of "?n - 1" bytes] have "drop (?n - 1) bytes = CHR 0x0D # drop ?n bytes" by metis
    with True drop assms that [of "[CHR 0x0D]"] show ?thesis by (simp add: replace_start_line_def)
  next
    case False
    with drop assms that [of "[]"] show ?thesis by (auto simp: replace_start_line_def Let_def)
  qed
qed

lemma takeWhile_line:
  assumes "CHR 0x0A \<notin> set line" and "CHR 0x0A \<in> set bytes"
  shows "takeWhile (\<lambda>c. c \<noteq> CHR 0x0A) (line @ after_line bytes) = line"
    and "dropWhile (\<lambda>c. c \<noteq> CHR 0x0A) (line @ after_line bytes) = after_line bytes"
    and "CHR 0x0A \<in> set (after_line bytes)"
proof -
  obtain r where r: "after_line bytes = CHR 0x0A # r"
    using assms(2) dropWhile_eq_Nil_conv [of "\<lambda>c. c \<noteq> CHR 0x0A" bytes] hd_dropWhile [of "\<lambda>c. c \<noteq> CHR 0x0A" bytes]
    unfolding after_line_def by (metis list.collapse)
  have all: "\<forall>c \<in> set line. c \<noteq> CHR 0x0A" using assms(1) by auto
  show "takeWhile (\<lambda>c. c \<noteq> CHR 0x0A) (line @ after_line bytes) = line"
    "dropWhile (\<lambda>c. c \<noteq> CHR 0x0A) (line @ after_line bytes) = after_line bytes"
    using all by (simp_all add: r takeWhile_append2 dropWhile_append2)
  show "CHR 0x0A \<in> set (after_line bytes)" by (simp add: r)
qed

lemma split_once_at: "d \<notin> set a \<Longrightarrow> split_once d (a @ d # b) = Some (a, b)"
  by (simp add: split_once_Some)

lemma splitn_3: "d \<notin> set a \<Longrightarrow> d \<notin> set b \<Longrightarrow> splitn 3 d (a @ d # b @ d # c) = [a, b, c]"
  by (simp add: numeral_3_eq_3 split_once_at)

lemma dec_str_no_blank: "CHR '' '' \<notin> set (dec_str n)"
  using dec_str_digits [of n] by (auto simp: list_all_iff is_digit_def)

lemma parse_rendered:
  assumes "start_line_ok sl" and "line_text_ok (render_start_line sl)"
    and "raw = render_start_line sl @ cr" and "cr = [] \<or> cr = [CHR 0x0D]" and True: "CHR 0x0A \<in> set bytes"
  shows "parse_start_line (raw @ after_line bytes) = Some sl"
proof -
  let ?line = "render_start_line sl"
  have raw: "CHR 0x0A \<notin> set raw" using assms(2-4) by (auto simp: line_text_ok_def)
  have "valid_utf8 (map of_char cr)" using assms(4) by auto
  then have utf8: "valid_utf8 (map of_char raw)"
    using assms(2,3) valid_utf8_append by (simp add: line_text_ok_def)
  have trimmed: "trim_end_cr raw = ?line"
    using assms(2-4) trim_end_cr_ok [of ?line] trim_end_cr_snoc [of ?line] by (auto simp: line_text_ok_def)
  have code: "parse_uint 65535 (dec_str (unat code)) = Some (unat code)" for code :: u16
    using unsigned_less [where 'a = nat, of code] by (intro parse_uint_dec_str) simp
  have line: "parse_start_line (raw @ after_line bytes) = (if starts_with ?line ''SIP/''
      then (case splitn 3 (CHR '' '') ?line of version # code # rest \<Rightarrow>
          (case parse_uint 65535 code of None \<Rightarrow> None
           | Some c \<Rightarrow> Some (ResponseLine version (word_of_nat c) (case rest of [] \<Rightarrow> [] | reason # _ \<Rightarrow> reason))) | _ \<Rightarrow> None)
      else (case splitn 3 (CHR '' '') ?line of method # uri # version # _ \<Rightarrow> Some (RequestLine method uri version) | _ \<Rightarrow> None))"
    using takeWhile_line [OF raw True] by (simp add: parse_start_line_def Let_def utf8 trimmed)
  show ?thesis
  proof (cases sl)
    case (RequestLine name uri version)
    with assms(1) show ?thesis unfolding line by (simp add: splitn_3)
  next
    case (ResponseLine version c reason)
    with assms(1) have "starts_with ?line ''SIP/''" by (auto simp: starts_with_iff)
    with assms(1) ResponseLine code show ?thesis unfolding line by (simp add: splitn_3 dec_str_no_blank)
  qed
qed

text \<open>
  C16: the start line survives printing and parsing.  For a message whose start line has no
  line ends and no blanks but the separators, printing it (the crate's rendering with the
  first line replaced) and parsing the bytes again gives back exactly that start line,
  reason phrase included, and the bytes after the first line are those of the crate.
\<close>

theorem start_line_roundtrip:
  assumes "start_line_ok (sm_start_line m)" and "line_text_ok (render_start_line (sm_start_line m))"
    and "CHR 0x0A \<in> set (rl_to_bytes lib (sm_inner m))"
    and "rl_parse lib (sip_to_bytes lib m) = Some inner"
  shows "sip_parse lib (sip_to_bytes lib m) = Inr \<lparr>sm_inner = inner, sm_start_line = sm_start_line m\<rparr>
    \<and> after_line (sip_to_bytes lib m) = after_line (rl_to_bytes lib (sm_inner m))"
proof -
  let ?sl = "sm_start_line m" and ?b = "rl_to_bytes lib (sm_inner m)"
  obtain cr where cr: "cr = [] \<or> cr = [CHR 0x0D]" "replace_start_line ?b ?sl = render_start_line ?sl @ cr @ after_line ?b"
    using replace_start_line_split [OF assms(3)] .
  have bytes: "sip_to_bytes lib m = (render_start_line ?sl @ cr) @ after_line ?b" by (simp add: sip_to_bytes_def cr(2))
  have "parse_start_line (sip_to_bytes lib m) = Some ?sl"
    unfolding bytes by (rule parse_rendered [OF assms(1,2) refl cr(1) assms(3)])
  moreover have "CHR 0x0A \<notin> set (render_start_line ?sl @ cr)" using assms(2) cr(1) by (auto simp: line_text_ok_def)
  from takeWhile_line(2) [OF this assms(3)] have "after_line (sip_to_bytes lib m) = after_line ?b"
    unfolding bytes by (simp add: after_line_def)
  ultimately show ?thesis using assms(4) by (simp add: sip_parse_def from_inner_def Let_def)
qed

theorem start_line_roundtrip_witness:
  "sip_parse (example_lib\<lparr>rl_parse := \<lambda>_. Some \<lparr>rm_first = RsipResponse 482 ''Loop Detected'' ''SIP/2.0'', rm_headers = [], rm_body = []\<rparr>\<rparr>)
      (sip_to_bytes (example_lib\<lparr>rl_parse := \<lambda>_. Some \<lparr>rm_first = RsipResponse 482 ''Loop Detected'' ''SIP/2.0'', rm_headers = [], rm_body = []\<rparr>\<rparr>)
        (response_like example_lib (from_inner \<lparr>rm_first = RsipRequest MRegister ''sip:a'' ''SIP/2.0'', rm_headers = [], rm_body = []\<rparr>)
           482 ''Request merged'')) =
    Inr \<lparr>sm_inner = \<lparr>rm_first = RsipResponse 482 ''Loop Detected'' ''SIP/2.0'', rm_headers = [], rm_body = []\<rparr>,
      sm_start_line = ResponseLine ''SIP/2.0'' 482 ''Request merged''\<rparr>"
proof -
  let ?m = "response_like example_lib (from_inner \<lparr>rm_first = RsipRequest MRegister ''sip:a'' ''SIP/2.0'', rm_headers = [], rm_body = []\<rparr>)
      482 ''Request merged''"
  let ?lib = "example_lib\<lparr>rl_parse := \<lambda>_. Some \<lparr>rm_first = RsipResponse 482 ''Loop Detected'' ''SIP/2.0'', rm_headers = [], rm_body = []\<rparr>\<rparr>"
  have sl: "sm_start_line ?m = ResponseLine ''SIP/2.0'' 482 ''Request merged''" by (simp add: response_like_def Let_def)
  have "start_line_ok (sm_start_line ?m)" unfolding sl by code_simp
  moreover have "line_text_ok (render_start_line (sm_start_line ?m))" unfolding sl by code_simp
  moreover have "CHR 0x0A \<in> set (rl_to_bytes ?lib (sm_inner ?m))" by (simp add: example_lib_def)
  ultimately show ?thesis using start_line_roundtrip [of ?m ?lib] by (simp add: sl)
qed

end
