(* ===== verification/Transactions.thy ===== *)
theory Transactions
  imports Upstreams Expiring
begin

text \<open>
  The proxy's transaction tables (\<open>proxy/server.rs\<close>): UDP branches (where a response goes),
  UDP client transactions (retransmissions and cached final responses, at most so many per
  shard), INVITE transactions (where a CANCEL or ACK goes), local INVITE rejections (whose
  ACK is absorbed) and pending registrations.  Every table is pruned when it is locked; each
  operation takes the clock reading it makes.  Shown here: pruning is invisible to readers
  (the tables are \<open>expiring_store\<close>s), the client transaction table never outgrows its limit,
  and an entry survives until its time is up unless that many other entries came after it.
\<close>

section \<open>Data\<close>

record udp_branch_route =
  br_client_peer :: sock_addr
  br_upstream :: sock_addr
  br_method :: string
  br_created_at :: instant
  br_remove_on_final :: bool
  br_client_transaction_key :: "string option"
  br_record_route_addrs :: "string list"

record udp_client_transaction_route =
  ct_target :: upstream_target
  ct_final_response :: "string option"
  ct_created_at :: instant

record invite_transaction_route =
  it_target :: upstream_target
  it_branch :: string
  it_created_at :: instant

record pending_register_binding =
  prb_aor :: string
  prb_contact :: string
  prb_source :: string

record pending_register =
  pr_bindings :: "pending_register_binding list"
  pr_request_expires :: duration
  pr_target :: upstream_target
  pr_created_at :: instant

definition udp_branch_ttl :: duration where
  "udp_branch_ttl = from_secs 300"

definition pending_register_ttl :: duration where
  "pending_register_ttl = from_secs 300"

definition invite_transaction_ttl :: duration where
  "invite_transaction_ttl = from_secs 300"

definition local_invite_rejection_ttl :: duration where
  "local_invite_rejection_ttl = from_secs 300"

definition route_map_shards :: nat where
  "route_map_shards = 64"

text \<open>The tables of \<open>ProxyServer\<close>.\<close>

record transaction_tables =
  tx_udp_branches :: "(string, udp_branch_route) shards"
  tx_udp_client_transactions :: "(string, udp_client_transaction_route) shards"
  tx_pending_registers :: "(string, pending_register) hmap"
  tx_invite_transactions :: "(string, invite_transaction_route) shards"
  tx_local_invite_rejections :: "(string, instant) hmap"

definition transaction_tables_new :: transaction_tables where
  "transaction_tables_new = \<lparr>tx_udp_branches = sharded_new route_map_shards,
     tx_udp_client_transactions = sharded_new route_map_shards, tx_pending_registers = hm_empty,
     tx_invite_transactions = sharded_new route_map_shards, tx_local_invite_rejections = hm_empty\<rparr>"

section \<open>Pruning\<close>

definition branch_alive :: "instant \<Rightarrow> udp_branch_route \<Rightarrow> bool" where
  "branch_alive now r \<longleftrightarrow> duration_since now (br_created_at r) \<le> udp_branch_ttl"

definition prune_udp_branches :: "instant \<Rightarrow> (string, udp_branch_route) hmap \<Rightarrow> (string, udp_branch_route) hmap" where
  "prune_udp_branches now = hm_retain (\<lambda>_. branch_alive now)"

definition client_alive :: "instant \<Rightarrow> udp_client_transaction_route \<Rightarrow> bool" where
  "client_alive now r \<longleftrightarrow> duration_since now (ct_created_at r) \<le> udp_branch_ttl"

definition prune_udp_client_transactions ::
  "instant \<Rightarrow> (string, udp_client_transaction_route) hmap \<Rightarrow> (string, udp_client_transaction_route) hmap" where
  "prune_udp_client_transactions now = hm_retain (\<lambda>_. client_alive now)"

definition pending_alive :: "instant \<Rightarrow> pending_register \<Rightarrow> bool" where
  "pending_alive now p \<longleftrightarrow> duration_since now (pr_created_at p) \<le> pending_register_ttl"

definition prune_pending_registers :: "instant \<Rightarrow> (string, pending_register) hmap \<Rightarrow> (string, pending_register) hmap" where
  "prune_pending_registers now = hm_retain (\<lambda>_. pending_alive now)"

definition invite_alive :: "instant \<Rightarrow> invite_transaction_route \<Rightarrow> bool" where
  "invite_alive now r \<longleftrightarrow> duration_since now (it_created_at r) \<le> invite_transaction_ttl"

definition prune_invite_transactions ::
  "instant \<Rightarrow> (string, invite_transaction_route) hmap \<Rightarrow> (string, invite_transaction_route) hmap" where
  "prune_invite_transactions now = hm_retain (\<lambda>_. invite_alive now)"

definition rejection_alive :: "instant \<Rightarrow> instant \<Rightarrow> bool" where
  "rejection_alive now created_at \<longleftrightarrow> duration_since now created_at \<le> local_invite_rejection_ttl"

definition prune_local_invite_rejections :: "instant \<Rightarrow> (string, instant) hmap \<Rightarrow> (string, instant) hmap" where
  "prune_local_invite_rejections now = hm_retain (\<lambda>_. rejection_alive now)"

section \<open>UDP branches\<close>

definition lookup_udp_branch ::
  "(string \<Rightarrow> nat) \<Rightarrow> instant \<Rightarrow> string \<Rightarrow> transaction_tables \<Rightarrow> udp_branch_route option \<times> transaction_tables" where
  "lookup_udp_branch h now branch t =
     (let s = with_shard h branch (prune_udp_branches now) (tx_udp_branches t)
      in (sharded_get h s branch, t\<lparr>tx_udp_branches := s\<rparr>))"

definition remember_udp_branch ::
  "(string \<Rightarrow> nat) \<Rightarrow> instant \<Rightarrow> string \<Rightarrow> udp_branch_route \<Rightarrow> transaction_tables \<Rightarrow> transaction_tables" where
  "remember_udp_branch h now branch route t =
     t\<lparr>tx_udp_branches := with_shard h branch (\<lambda>m. hm_insert branch route (prune_udp_branches now m)) (tx_udp_branches t)\<rparr>"

definition remove_udp_branch :: "(string \<Rightarrow> nat) \<Rightarrow> string \<Rightarrow> transaction_tables \<Rightarrow> transaction_tables" where
  "remove_udp_branch h branch t = t\<lparr>tx_udp_branches := sharded_remove h branch (tx_udp_branches t)\<rparr>"

section \<open>UDP client transactions\<close>

text \<open>\<open>usize::div_ceil\<close> and the limit of one shard.\<close>

definition udp_client_transaction_shard_limit :: "usize \<Rightarrow> nat" where
  "udp_client_transaction_shard_limit entries = max ((unat entries + route_map_shards - 1) div route_map_shards) 1"

text \<open>\<open>Iterator::min_by_key\<close> keeps the first of equal elements.\<close>

fun min_by_key :: "('a \<Rightarrow> nat) \<Rightarrow> 'a list \<Rightarrow> 'a option" where
  "min_by_key f [] = None"
| "min_by_key f (x # xs) = (case min_by_key f xs of None \<Rightarrow> Some x | Some y \<Rightarrow> if f y < f x then Some y else Some x)"

lemma min_by_key_None [simp]: "min_by_key f xs = None \<longleftrightarrow> xs = []"
  by (cases xs) (auto split: option.splits if_splits)

lemma min_by_key_Some: "min_by_key f xs = Some x \<Longrightarrow> x \<in> set xs \<and> (\<forall>y \<in> set xs. f x \<le> f y)"
  by (induction xs arbitrary: x) (fastforce split: option.splits if_splits)+

lemma hm_remove_shorter: "(k, v) \<in> set m \<Longrightarrow> hm_len (hm_remove k m) < hm_len m"
  by (auto simp: hm_remove_def hm_len_def AList.delete_eq intro!: length_filter_less)

function enforce_udp_client_transaction_shard_limit ::
  "nat \<Rightarrow> (string, udp_client_transaction_route) hmap \<Rightarrow> (string, udp_client_transaction_route) hmap" where
  "enforce_udp_client_transaction_shard_limit limit m =
     (if hm_len m > limit
      then (case min_by_key (\<lambda>(_, route). ct_created_at route) m of
              None \<Rightarrow> m
            | Some (oldest_key, _) \<Rightarrow> enforce_udp_client_transaction_shard_limit limit (hm_remove oldest_key m))
      else m)"
  by pat_completeness auto
termination
  by (relation "measure (\<lambda>(_, m). hm_len m)") (auto dest!: min_by_key_Some intro!: hm_remove_shorter)

declare enforce_udp_client_transaction_shard_limit.simps [simp del]

definition lookup_udp_client_transaction ::
  "(string \<Rightarrow> nat) \<Rightarrow> instant \<Rightarrow> string \<Rightarrow> transaction_tables
   \<Rightarrow> udp_client_transaction_route option \<times> transaction_tables" where
  "lookup_udp_client_transaction h now key t =
     (let s = with_shard h key (prune_udp_client_transactions now) (tx_udp_client_transactions t)
      in (sharded_get h s key, t\<lparr>tx_udp_client_transactions := s\<rparr>))"

definition remember_udp_client_transaction ::
  "(string \<Rightarrow> nat) \<Rightarrow> nat \<Rightarrow> instant \<Rightarrow> string \<Rightarrow> upstream_target \<Rightarrow> transaction_tables \<Rightarrow> transaction_tables" where
  "remember_udp_client_transaction h limit now key target t =
     t\<lparr>tx_udp_client_transactions := with_shard h key (\<lambda>m.
        enforce_udp_client_transaction_shard_limit limit
          (hm_insert key \<lparr>ct_target = target, ct_final_response = None, ct_created_at = now\<rparr>
             (prune_udp_client_transactions now m))) (tx_udp_client_transactions t)\<rparr>"

definition remember_udp_client_transaction_final_response ::
  "(string \<Rightarrow> nat) \<Rightarrow> instant \<Rightarrow> string \<Rightarrow> string \<Rightarrow> transaction_tables \<Rightarrow> transaction_tables" where
  "remember_udp_client_transaction_final_response h now key response t =
     t\<lparr>tx_udp_client_transactions := with_shard h key (\<lambda>m.
        let m = prune_udp_client_transactions now m in
        (case hm_get m key of
           None \<Rightarrow> m
         | Some route \<Rightarrow> hm_insert key (route\<lparr>ct_final_response := Some response, ct_created_at := now\<rparr>) m))
       (tx_udp_client_transactions t)\<rparr>"

definition remove_udp_client_transaction :: "(string \<Rightarrow> nat) \<Rightarrow> string \<Rightarrow> transaction_tables \<Rightarrow> transaction_tables" where
  "remove_udp_client_transaction h key t =
     t\<lparr>tx_udp_client_transactions := sharded_remove h key (tx_udp_client_transactions t)\<rparr>"

section \<open>INVITE transactions and local rejections\<close>

definition lookup_invite_transaction ::
  "(string \<Rightarrow> nat) \<Rightarrow> instant \<Rightarrow> string option \<Rightarrow> transaction_tables
   \<Rightarrow> invite_transaction_route option \<times> transaction_tables" where
  "lookup_invite_transaction h now key t =
     (case key of
        None \<Rightarrow> (None, t)
      | Some key \<Rightarrow>
          let s = with_shard h key (prune_invite_transactions now) (tx_invite_transactions t)
          in (sharded_get h s key, t\<lparr>tx_invite_transactions := s\<rparr>))"

text \<open>Two clock readings: one to prune, one for the new entry.\<close>

definition remember_invite_transaction ::
  "(string \<Rightarrow> nat) \<Rightarrow> instant \<Rightarrow> instant \<Rightarrow> string option \<Rightarrow> upstream_target \<Rightarrow> string
   \<Rightarrow> transaction_tables \<Rightarrow> transaction_tables" where
  "remember_invite_transaction h now now' key target branch t =
     (case key of
        None \<Rightarrow> t
      | Some key \<Rightarrow> t\<lparr>tx_invite_transactions := with_shard h key (\<lambda>m.
            hm_insert key \<lparr>it_target = target, it_branch = branch, it_created_at = now'\<rparr>
              (prune_invite_transactions now m)) (tx_invite_transactions t)\<rparr>)"

definition remember_local_invite_rejection_if_needed ::
  "instant \<Rightarrow> instant \<Rightarrow> ('e + string option) \<Rightarrow> string \<Rightarrow> transaction_tables \<Rightarrow> transaction_tables" where
  "remember_local_invite_rejection_if_needed now now' invite_key method t =
     (if method \<noteq> ''INVITE'' then t
      else (case invite_key of
              Inr (Some key) \<Rightarrow> t\<lparr>tx_local_invite_rejections :=
                hm_insert key now' (prune_local_invite_rejections now (tx_local_invite_rejections t))\<rparr>
            | _ \<Rightarrow> t))"

definition consume_local_invite_ack ::
  "instant \<Rightarrow> ('e + string option) \<Rightarrow> transaction_tables \<Rightarrow> bool \<times> transaction_tables" where
  "consume_local_invite_ack now invite_key t =
     (case invite_key of
        Inr (Some key) \<Rightarrow>
          let m = prune_local_invite_rejections now (tx_local_invite_rejections t)
          in (hm_get m key \<noteq> None, t\<lparr>tx_local_invite_rejections := hm_remove key m\<rparr>)
      | _ \<Rightarrow> (False, t))"

section \<open>Pending registrations\<close>

definition remember_pending_register ::
  "instant \<Rightarrow> string \<Rightarrow> pending_register option \<Rightarrow> transaction_tables \<Rightarrow> transaction_tables" where
  "remember_pending_register now branch pending t =
     (case pending of
        None \<Rightarrow> t
      | Some p \<Rightarrow> t\<lparr>tx_pending_registers := hm_insert branch p (prune_pending_registers now (tx_pending_registers t))\<rparr>)"

definition take_pending_register ::
  "instant \<Rightarrow> string \<Rightarrow> transaction_tables \<Rightarrow> pending_register option \<times> transaction_tables" where
  "take_pending_register now branch t =
     (let m = prune_pending_registers now (tx_pending_registers t)
      in (hm_get m branch, t\<lparr>tx_pending_registers := hm_remove branch m\<rparr>))"

section \<open>Sizes\<close>

text \<open>\<open>len_after_retain\<close> over the tables, for the metrics.\<close>

definition active_udp_branch_count :: "instant \<Rightarrow> transaction_tables \<Rightarrow> nat \<times> transaction_tables" where
  "active_udp_branch_count now t =
     (let (n, s) = len_after_retain (\<lambda>_. branch_alive now) (tx_udp_branches t) in (n, t\<lparr>tx_udp_branches := s\<rparr>))"

definition active_udp_client_transaction_count :: "instant \<Rightarrow> transaction_tables \<Rightarrow> nat \<times> transaction_tables" where
  "active_udp_client_transaction_count now t =
     (let (n, s) = len_after_retain (\<lambda>_. client_alive now) (tx_udp_client_transactions t)
      in (n, t\<lparr>tx_udp_client_transactions := s\<rparr>))"

definition active_invite_transaction_count :: "instant \<Rightarrow> transaction_tables \<Rightarrow> nat \<times> transaction_tables" where
  "active_invite_transaction_count now t =
     (let (n, s) = len_after_retain (\<lambda>_. invite_alive now) (tx_invite_transactions t)
      in (n, t\<lparr>tx_invite_transactions := s\<rparr>))"

section \<open>Sharded tables that expire\<close>

text \<open>
  A sharded table whose operations prune the shard they lock is a store of the entries that
  are alive: what other shards still hold is not seen.
\<close>

locale shard_table =
  fixes h :: "'k \<Rightarrow> nat" and alive :: "nat \<Rightarrow> 'v \<Rightarrow> bool"
  assumes alive_ends: "t \<le> t' \<Longrightarrow> alive t' v \<Longrightarrow> alive t v"

sublocale shard_table \<subseteq> expiring_store "sharded_get h" "sharded_insert h" "sharded_remove h"
  sharded_retain sharded_total "sharded_inv h" alive
  by unfold_locales (rule alive_ends)

context shard_table
begin

abbreviation prune :: "nat \<Rightarrow> 'k \<Rightarrow> ('k, 'v) shards \<Rightarrow> ('k, 'v) shards" where
  "prune now k \<equiv> with_shard h k (hm_retain (\<lambda>_. alive now))"

lemma inv_prune: "sharded_inv h s \<Longrightarrow> sharded_inv h (prune now k s)"
  using sharded_inv_prune [of h s k "\<lambda>_. alive now"] by (simp add: prune_shard_def)

lemma get_prune_key: "sharded_inv h s \<Longrightarrow> sharded_get h (prune now k s) k = view now s k"
  using sharded_get_prune_same [of h s k "\<lambda>_. alive now"] by (simp add: prune_shard_def view_def)

lemma view_prune_shard:
  assumes "sharded_inv h s" "t \<le> now"
  shows "view now (prune t k s) = view now s"
proof
  fix x
  show "view now (prune t k s) x = view now s x"
    using assms sharded_get_prune [of h s k "\<lambda>_. alive t" x] alive_ends [of t now]
    by (cases "sharded_get h s x") (auto simp: view_def prune_shard_def)
qed

lemma prune_then_insert:
  "sharded_inv h s \<Longrightarrow>
     with_shard h k (\<lambda>m. hm_insert k v (hm_retain (\<lambda>_. alive now) m)) s = sharded_insert h k v (prune now k s)"
  using index_bound [of s h k] sharded_inv_nonempty [of h s]
  by (simp add: sharded_insert_def with_shard_def Let_def)

lemma inv_prune_insert:
  "sharded_inv h s \<Longrightarrow> sharded_inv h (with_shard h k (\<lambda>m. hm_insert k v (hm_retain (\<lambda>_. alive now) m)) s)"
  by (simp add: prune_then_insert inv_prune inv_insert)

lemma view_prune_insert:
  assumes "sharded_inv h s" "t \<le> now"
  shows "view now (with_shard h k (\<lambda>m. hm_insert k v (hm_retain (\<lambda>_. alive t) m)) s) =
    (if alive now v then (view now s)(k \<mapsto> v) else (view now s)(k := None))"
  using assms by (simp add: prune_then_insert view_insert inv_prune view_prune_shard)

end

interpretation branches: shard_table h branch_alive for h :: "string \<Rightarrow> nat"
  by unfold_locales (auto simp: branch_alive_def time_simps)

interpretation clients: shard_table h client_alive for h :: "string \<Rightarrow> nat"
  by unfold_locales (auto simp: client_alive_def time_simps)

interpretation invites: shard_table h invite_alive for h :: "string \<Rightarrow> nat"
  by unfold_locales (auto simp: invite_alive_def time_simps)

interpretation registers: expiring_store hm_get hm_insert hm_remove hm_retain hm_len hm_inv pending_alive
  by unfold_locales (auto simp: pending_alive_def time_simps)

interpretation rejections: expiring_store hm_get hm_insert hm_remove hm_retain hm_len hm_inv rejection_alive
  by unfold_locales (auto simp: rejection_alive_def time_simps)

section \<open>The limit\<close>

lemma enforce_inv: "hm_inv m \<Longrightarrow> hm_inv (enforce_udp_client_transaction_shard_limit limit m)"
proof (induction limit m rule: enforce_udp_client_transaction_shard_limit.induct)
  case (1 limit m)
  then show ?case
    by (subst enforce_udp_client_transaction_shard_limit.simps)
      (auto split: option.split intro!: "1.IH" hm.inv_remove)
qed

lemma enforce_get:
  "hm_inv m \<Longrightarrow> hm_get (enforce_udp_client_transaction_shard_limit limit m) k = Some r \<Longrightarrow> hm_get m k = Some r"
proof (induction limit m rule: enforce_udp_client_transaction_shard_limit.induct)
  case (1 limit m)
  from "1.prems" show ?case
    by (subst (asm) enforce_udp_client_transaction_shard_limit.simps)
      (auto simp: hm_simps split: if_splits option.splits dest!: "1.IH")
qed

lemma enforce_len: "hm_len (enforce_udp_client_transaction_shard_limit limit m) \<le> limit"
proof (induction limit m rule: enforce_udp_client_transaction_shard_limit.induct)
  case (1 limit m)
  then show ?case
    by (subst enforce_udp_client_transaction_shard_limit.simps) (auto simp: hm_len_def split: option.split)
qed

text \<open>
  An entry stays if at most \<open>limit - 1\<close> other entries are as recent: as long as the shard is
  over the limit, some other entry is older and goes first.
\<close>

definition recent :: "instant \<Rightarrow> string \<Rightarrow> (string, udp_client_transaction_route) hmap \<Rightarrow> string set" where
  "recent t k m = {k'. k' \<noteq> k \<and> (\<exists>r. hm_get m k' = Some r \<and> t \<le> ct_created_at r)}"

lemma finite_recent: "hm_inv m \<Longrightarrow> finite (recent t k m)"
  by (rule finite_subset [OF _ hm.finite_dom]) (auto simp: recent_def)

lemma enforce_keeps:
  assumes "hm_inv m" and "hm_get m k = Some r" and "t \<le> ct_created_at r" and "card (recent t k m) < limit"
  shows "hm_get (enforce_udp_client_transaction_shard_limit limit m) k = Some r"
  using assms
proof (induction limit m rule: enforce_udp_client_transaction_shard_limit.induct)
  case (1 limit m)
  show ?case
  proof (cases "hm_len m > limit")
    case True
    then have "m \<noteq> []" by (auto simp: hm_len_def)
    then obtain old v where old: "min_by_key (\<lambda>(_, route). ct_created_at route) m = Some (old, v)"
      by (metis min_by_key_None not_None_eq surj_pair)
    note least = min_by_key_Some [OF old]
    have "old \<noteq> k"
    proof
      assume k: "old = k"
      with least "1.prems"(1,2) have v: "v = r" by (auto simp: hm_mem_iff)
      have "dom (hm_get m) \<subseteq> insert k (recent t k m)"
      proof
        fix k'
        assume "k' \<in> dom (hm_get m)"
        then obtain r' where "hm_get m k' = Some r'" by blast
        moreover from this have "ct_created_at r \<le> ct_created_at r'"
          using least v "1.prems"(1) by (auto simp flip: hm_mem_iff)
        ultimately show "k' \<in> insert k (recent t k m)" using "1.prems"(3) by (auto simp: recent_def)
      qed
      then have "card (dom (hm_get m)) \<le> Suc (card (recent t k m))"
        using finite_recent [OF "1.prems"(1), of t k] card_mono [of "insert k (recent t k m)" "dom (hm_get m)"]
        by (simp add: card_insert_if recent_def)
      with True "1.prems"(1,4) show False by (simp add: hm.len_card)
    qed
    moreover have "card (recent t k (hm_remove old m)) \<le> card (recent t k m)"
      using "1.prems"(1) finite_recent by (intro card_mono) (auto simp: recent_def hm_simps split: if_splits)
    ultimately have "hm_get (enforce_udp_client_transaction_shard_limit limit (hm_remove old m)) k = Some r"
      using "1.IH" [OF True old] "1.prems" by (simp add: hm_simps)
    with True old show ?thesis
      by (subst enforce_udp_client_transaction_shard_limit.simps) simp
  qed (subst enforce_udp_client_transaction_shard_limit.simps, simp add: "1.prems")
qed

section \<open>Histories of the client transaction table\<close>

datatype client_op =
    CtLookup string
  | CtRemember string upstream_target
  | CtFinal string string
  | CtRemove string

fun client_step :: "(string \<Rightarrow> nat) \<Rightarrow> nat \<Rightarrow> instant \<times> client_op \<Rightarrow> transaction_tables \<Rightarrow> transaction_tables" where
  "client_step h limit (now, CtLookup key) t = snd (lookup_udp_client_transaction h now key t)"
| "client_step h limit (now, CtRemember key target) t = remember_udp_client_transaction h limit now key target t"
| "client_step h limit (now, CtFinal key response) t = remember_udp_client_transaction_final_response h now key response t"
| "client_step h limit (now, CtRemove key) t = remove_udp_client_transaction h key t"

definition client_run :: "(string \<Rightarrow> nat) \<Rightarrow> nat \<Rightarrow> (instant \<times> client_op) list \<Rightarrow> transaction_tables \<Rightarrow> transaction_tables" where
  "client_run h limit ops t = fold (client_step h limit) ops t"

text \<open>What an operation does to the shard of its key.\<close>

fun op_key :: "client_op \<Rightarrow> string" where
  "op_key (CtLookup key) = key"
| "op_key (CtRemember key target) = key"
| "op_key (CtFinal key response) = key"
| "op_key (CtRemove key) = key"

fun shard_effect ::
  "nat \<Rightarrow> instant \<times> client_op \<Rightarrow> (string, udp_client_transaction_route) hmap \<Rightarrow> (string, udp_client_transaction_route) hmap" where
  "shard_effect limit (now, CtLookup key) m = prune_udp_client_transactions now m"
| "shard_effect limit (now, CtRemember key target) m = enforce_udp_client_transaction_shard_limit limit
     (hm_insert key \<lparr>ct_target = target, ct_final_response = None, ct_created_at = now\<rparr> (prune_udp_client_transactions now m))"
| "shard_effect limit (now, CtFinal key response) m =
     (let m = prune_udp_client_transactions now m in
      (case hm_get m key of None \<Rightarrow> m
       | Some route \<Rightarrow> hm_insert key (route\<lparr>ct_final_response := Some response, ct_created_at := now\<rparr>) m))"
| "shard_effect limit (now, CtRemove key) m = hm_remove key m"

lemma client_step_effect:
  "tx_udp_client_transactions (client_step h limit (now, op) t) =
     with_shard h (op_key op) (shard_effect limit (now, op)) (tx_udp_client_transactions t)"
  by (cases op) (simp_all add: lookup_udp_client_transaction_def remember_udp_client_transaction_def
      remember_udp_client_transaction_final_response_def remove_udp_client_transaction_def sharded_remove_def
      with_shard_def Let_def)

lemma prune_clients_get:
  "hm_inv m \<Longrightarrow> hm_get (prune_udp_client_transactions now m) k = keep_if (\<lambda>_. client_alive now) k (hm_get m k)"
  by (simp add: prune_udp_client_transactions_def hm_simps)

lemma prune_clients_inv: "hm_inv m \<Longrightarrow> hm_inv (prune_udp_client_transactions now m)"
  by (simp add: prune_udp_client_transactions_def hm_simps)

lemma effect_inv: "hm_inv m \<Longrightarrow> hm_inv (shard_effect limit (now, op) m)"
  by (cases op) (auto simp: prune_clients_inv hm_simps Let_def intro!: enforce_inv split: option.split)

text \<open>Every entry of the shard after an operation was there before or is made at its time.\<close>

lemma effect_get:
  assumes "hm_inv m" and "hm_get (shard_effect limit (now, op) m) k = Some r"
  shows "hm_get m k = Some r \<or> (k = op_key op \<and> ct_created_at r = now)"
proof (cases op)
  case (CtRemember key target)
  let ?m = "prune_udp_client_transactions now m" and ?r = "\<lparr>ct_target = target, ct_final_response = None, ct_created_at = now\<rparr>"
  have "hm_get (hm_insert key ?r ?m) k = Some r"
    by (rule enforce_get [of _ limit]) (use assms CtRemember in \<open>simp_all add: hm_simps prune_clients_inv\<close>)
  with assms(1) CtRemember show ?thesis
    by (auto simp: hm_simps prune_clients_inv prune_clients_get keep_if_eq_Some split: if_splits)
qed (use assms in \<open>auto simp: hm_simps prune_clients_inv prune_clients_get keep_if_eq_Some Let_def
      split: if_splits option.splits\<close>)

lemma effect_dom: "hm_inv m \<Longrightarrow> dom (hm_get (shard_effect limit (now, op) m)) \<subseteq> insert (op_key op) (dom (hm_get m))"
  using effect_get by fastforce

lemma client_step_inv:
  "sharded_inv h (tx_udp_client_transactions t) \<Longrightarrow> sharded_inv h (tx_udp_client_transactions (client_step h limit op t))"
  by (cases op, simp only: client_step_effect) (intro sharded_inv_with_shard effect_inv effect_dom)

lemma client_run_inv:
  "sharded_inv h (tx_udp_client_transactions t) \<Longrightarrow> sharded_inv h (tx_udp_client_transactions (client_run h limit ops t))"
  by (induction ops arbitrary: t) (auto simp: client_run_def intro: client_step_inv)

lemma client_step_length [simp]:
  "length (tx_udp_client_transactions (client_step h limit op t)) = length (tx_udp_client_transactions t)"
  by (cases op) (simp add: client_step_effect)

lemma client_run_length [simp]:
  "length (tx_udp_client_transactions (client_run h limit ops t)) = length (tx_udp_client_transactions t)"
  by (induction ops arbitrary: t) (auto simp: client_run_def)

lemma effect_len:
  assumes "hm_inv m" and "hm_len m \<le> limit"
  shows "hm_len (shard_effect limit (now, op) m) \<le> limit"
proof -
  have prune: "hm_len (prune_udp_client_transactions now m) \<le> limit"
    using hm.len_retain_le [OF assms(1), of "\<lambda>_. client_alive now"] assms(2)
    by (simp add: prune_udp_client_transactions_def)
  have "hm_len (hm_insert k r (prune_udp_client_transactions now m)) \<le> limit"
    if "hm_get (prune_udp_client_transactions now m) k = Some v" for k r v
    using prune that by (simp add: hm.len_insert prune_clients_inv assms(1))
  with prune assms show ?thesis
    by (cases op) (auto simp: hm.len_remove enforce_len Let_def split: option.split)
qed

lemma client_run_len:
  assumes "sharded_inv h (tx_udp_client_transactions t)" and "\<forall>m \<in> set (tx_udp_client_transactions t). hm_len m \<le> limit"
  shows "\<forall>m \<in> set (tx_udp_client_transactions (client_run h limit ops t)). hm_len m \<le> limit"
  using assms
proof (induction ops arbitrary: t)
  case (Cons op ops)
  obtain now c where op: "op = (now, c)" by (cases op)
  have "\<forall>m \<in> set (tx_udp_client_transactions (client_step h limit op t)). hm_len m \<le> limit"
    using Cons.prems unfolding all_set_conv_all_nth
    by (auto simp: op client_step_effect nth_with_shard intro!: effect_len sharded_inv_shard)
  from Cons.IH [OF client_step_inv [OF Cons.prems(1)] this] show ?case by (simp add: client_run_def)
qed (simp add: client_run_def)

section \<open>Survival\<close>

text \<open>Operations on other keys of the shard that make an entry more recent.\<close>

fun refreshes :: "client_op \<Rightarrow> bool" where
  "refreshes (CtRemember key target) = True"
| "refreshes (CtFinal key response) = True"
| "refreshes op = False"

definition disturbs :: "(string \<Rightarrow> nat) \<Rightarrow> string \<Rightarrow> instant \<times> client_op \<Rightarrow> bool" where
  "disturbs h k op \<longleftrightarrow> refreshes (snd op) \<and> op_key (snd op) \<noteq> k
     \<and> string_shard_index h (op_key (snd op)) route_map_shards = string_shard_index h k route_map_shards"

text \<open>Operations that end or restart the transaction itself.\<close>

fun ends :: "string \<Rightarrow> client_op \<Rightarrow> bool" where
  "ends k (CtRemember key target) = (key = k)"
| "ends k (CtRemove key) = (key = k)"
| "ends k op = False"

fun final_after :: "string \<Rightarrow> client_op \<Rightarrow> string option \<Rightarrow> string option" where
  "final_after k (CtFinal key response) old = (if key = k then Some response else old)"
| "final_after k op old = old"

definition last_final :: "string \<Rightarrow> (instant \<times> client_op) list \<Rightarrow> string option" where
  "last_final k ops = fold (\<lambda>op. final_after k (snd op)) ops None"

definition holds_entry ::
  "instant \<Rightarrow> string \<Rightarrow> upstream_target \<Rightarrow> string option \<Rightarrow> nat \<Rightarrow> (string, udp_client_transaction_route) hmap \<Rightarrow> bool" where
  "holds_entry t k target final j m \<longleftrightarrow> hm_inv m \<and>
     (\<exists>r. hm_get m k = Some r \<and> ct_target r = target \<and> ct_final_response r = final \<and> t \<le> ct_created_at r)
     \<and> card (recent t k m) \<le> j"

lemma client_alive_within: "t \<le> ct_created_at r \<Longrightarrow> now \<le> t + udp_branch_ttl \<Longrightarrow> client_alive now r"
  by (simp add: client_alive_def time_simps)

lemma recent_mono:
  assumes "hm_inv m" and "\<And>k' r. k' \<noteq> k \<Longrightarrow> hm_get m' k' = Some r \<Longrightarrow> hm_get m k' = Some r \<or> k' = x"
  shows "card (recent t k m') \<le> (if x = k then card (recent t k m) else Suc (card (recent t k m)))"
proof -
  have sub: "recent t k m' \<subseteq> (if x = k then recent t k m else insert x (recent t k m))"
    using assms(2) by (fastforce simp: recent_def)
  have fin: "finite (recent t k m)" by (rule finite_recent [OF assms(1)])
  show ?thesis
    using card_mono [OF _ sub] fin by (auto simp: card_insert_if split: if_splits intro: le_SucI)
qed

lemma holds_entry_prune:
  assumes "holds_entry t k target final j m" and "now \<le> t + udp_branch_ttl"
  shows "holds_entry t k target final j (prune_udp_client_transactions now m)"
proof -
  from assms(1) have inv: "hm_inv m" by (simp add: holds_entry_def)
  have "card (recent t k (prune_udp_client_transactions now m)) \<le> card (recent t k m)"
    using recent_mono [OF inv, of k "prune_udp_client_transactions now m" k t]
    by (simp add: prune_clients_get [OF inv] keep_if_eq_Some)
  with assms client_alive_within show ?thesis
    by (auto simp: holds_entry_def prune_clients_inv prune_clients_get)
qed

lemma holds_entry_effect:
  assumes m: "holds_entry t k target final j m" and now: "now \<le> t + udp_branch_ttl" "t \<le> now" and ends: "\<not> ends k op"
    and j: "refreshes op \<Longrightarrow> op_key op \<noteq> k \<Longrightarrow> Suc j < limit"
  shows "holds_entry t k target (final_after k op final) (if refreshes op \<and> op_key op \<noteq> k then Suc j else j)
    (shard_effect limit (now, op) m)"
proof -
  let ?p = "prune_udp_client_transactions now m"
  have p: "holds_entry t k target final j ?p" by (rule holds_entry_prune [OF m now(1)])
  then obtain r where r: "hm_inv ?p" "hm_get ?p k = Some r" "ct_target r = target" "ct_final_response r = final"
    "t \<le> ct_created_at r" "card (recent t k ?p) \<le> j" by (auto simp: holds_entry_def)
  have card_insert: "card (recent t k (hm_insert key v ?p)) \<le> (if key = k then j else Suc j)" for key v
  proof -
    have "card (recent t k (hm_insert key v ?p)) \<le> (if key = k then card (recent t k ?p) else Suc (card (recent t k ?p)))"
      by (rule recent_mono [OF r(1)]) (auto simp: hm_simps r(1) split: if_splits)
    with r(6) show ?thesis by (simp split: if_splits)
  qed
  show ?thesis
  proof (cases op)
    case (CtLookup key)
    with p show ?thesis by simp
  next
    case (CtRemove key)
    with ends have "key \<noteq> k" by simp
    moreover from m have inv: "hm_inv m" by (simp add: holds_entry_def)
    have "card (recent t k (hm_remove key m)) \<le> (if k = k then card (recent t k m) else Suc (card (recent t k m)))"
      by (rule recent_mono [OF inv]) (simp add: hm_simps inv split: if_splits)
    ultimately show ?thesis using m CtRemove by (auto simp: holds_entry_def hm_simps)
  next
    case (CtFinal key response)
    with p r now(2) card_insert [of key] show ?thesis
      by (auto simp: holds_entry_def Let_def hm_simps le_SucI split: option.split)
  next
    case (CtRemember key tgt)
    with ends have key: "key \<noteq> k" by simp
    define m' where "m' = hm_insert key \<lparr>ct_target = tgt, ct_final_response = None, ct_created_at = now\<rparr> ?p"
    have m': "hm_inv m'" "hm_get m' k = Some r" "card (recent t k m') \<le> Suc j"
      using r key card_insert [of key] by (simp_all add: m'_def hm_simps)
    let ?e = "enforce_udp_client_transaction_shard_limit limit m'"
    have kept: "hm_get ?e k = Some r" using enforce_keeps [OF m'(1,2) r(5)] m'(3) j CtRemember key by simp
    have "card (recent t k ?e) \<le> card (recent t k m')"
      using recent_mono [OF m'(1), of k ?e k t] enforce_get [OF m'(1)] by simp
    with kept m' r key CtRemember show ?thesis
      by (auto simp: holds_entry_def enforce_inv m'_def [symmetric])
  qed
qed

lemma shard_for_key_with_shard:
  assumes "sharded_inv h s"
  shows "shard_for_key h (with_shard h k' f s) k =
    (if string_shard_index h k (length s) = string_shard_index h k' (length s) then f (shard_for_key h s k) else shard_for_key h s k)"
  using index_bound [of s h k] sharded_inv_nonempty [OF assms] by (simp add: shard_for_key_def nth_with_shard)

lemma effect_other_shard:
  assumes "\<not> ends k op" "string_shard_index h k n \<noteq> string_shard_index h (op_key op) n"
  shows "final_after k op final = final"
  using assms by (cases op) auto

lemma holds_entry_run:
  assumes "sharded_inv h (tx_udp_client_transactions tables)" and "length (tx_udp_client_transactions tables) = route_map_shards"
    and "holds_entry t k target final j (shard_for_key h (tx_udp_client_transactions tables) k)"
    and "\<forall>(now, op) \<in> set ops. t \<le> now \<and> now \<le> t + udp_branch_ttl \<and> \<not> ends k op"
    and "j + length (filter (disturbs h k) ops) < limit"
  shows "\<exists>j'. holds_entry t k target (fold (\<lambda>op. final_after k (snd op)) ops final) j'
    (shard_for_key h (tx_udp_client_transactions (client_run h limit ops tables)) k)"
  using assms
proof (induction ops arbitrary: tables final j)
  case Nil
  then show ?case by (auto simp: client_run_def)
next
  case (Cons op ops)
  obtain now c where op: "op = (now, c)" by (cases op)
  define tables' where "tables' = client_step h limit op tables"
  define j' where "j' = (if disturbs h k op then Suc j else j)"
  have now: "now \<le> t + udp_branch_ttl" "t \<le> now" "\<not> ends k c" using Cons.prems(4) by (auto simp: op)
  have small: "j' + length (filter (disturbs h k) ops) < limit" using Cons.prems(5) by (simp add: j'_def split: if_splits)
  let ?m = "shard_for_key h (tx_udp_client_transactions tables) k"
  have "holds_entry t k target (final_after k c final) j' (shard_for_key h (tx_udp_client_transactions tables') k)"
  proof (cases "string_shard_index h k route_map_shards = string_shard_index h (op_key c) route_map_shards")
    case True
    then have d: "disturbs h k op \<longleftrightarrow> refreshes c \<and> op_key c \<noteq> k" by (auto simp: disturbs_def op)
    have "holds_entry t k target (final_after k c final) j' (shard_effect limit (now, c) ?m)"
      using holds_entry_effect [OF Cons.prems(3) now, of limit] small by (auto simp: j'_def d split: if_splits)
    with True Cons.prems(1,2) show ?thesis
      by (simp add: tables'_def op client_step_effect shard_for_key_with_shard)
  next
    case False
    then have "\<not> disturbs h k op" by (auto simp: disturbs_def op)
    with False Cons.prems(1-3) effect_other_shard [OF now(3) False] show ?thesis
      by (simp add: tables'_def op client_step_effect shard_for_key_with_shard j'_def)
  qed
  from Cons.IH [OF _ _ this, of ] Cons.prems(1,2,4) small client_step_inv show ?case
    by (auto simp: tables'_def client_run_def op)
qed

lemma created_before:
  assumes "sharded_inv h (tx_udp_client_transactions tables)"
    and "\<forall>k r. sharded_get h (tx_udp_client_transactions tables) k = Some r \<longrightarrow> ct_created_at r < t"
    and "\<forall>op \<in> set ops. fst op < t"
  shows "\<forall>k r. sharded_get h (tx_udp_client_transactions (client_run h limit ops tables)) k = Some r \<longrightarrow> ct_created_at r < t"
  using assms
proof (induction ops arbitrary: tables)
  case (Cons op ops)
  obtain now c where op: "op = (now, c)" by (cases op)
  let ?s = "tx_udp_client_transactions tables"
  have "ct_created_at r < t" if "sharded_get h (tx_udp_client_transactions (client_step h limit op tables)) k = Some r" for k r
  proof (cases "string_shard_index h k (length ?s) = string_shard_index h (op_key c) (length ?s)")
    case True
    with that Cons.prems(1) have "hm_get (shard_effect limit (now, c) (shard_for_key h ?s k)) k = Some r"
      by (simp add: sharded_get_def op client_step_effect shard_for_key_with_shard)
    from effect_get [OF shard_for_key_inv [OF Cons.prems(1)] this] Cons.prems(2,3) show ?thesis
      by (auto simp: op sharded_get_def)
  next
    case False
    with that Cons.prems(1,2) show ?thesis
      by (simp add: sharded_get_def op client_step_effect shard_for_key_with_shard)
  qed
  then have "\<forall>k r. sharded_get h (tx_udp_client_transactions (client_step h limit op tables)) k = Some r \<longrightarrow> ct_created_at r < t"
    by blast
  from Cons.IH [OF client_step_inv [OF Cons.prems(1)] this] Cons.prems(3) show ?case by (simp add: client_run_def)
qed (simp add: client_run_def)

lemma shard_limit_positive: "0 < udp_client_transaction_shard_limit entries"
  by (simp add: udp_client_transaction_shard_limit_def)

lemma new_tables:
  "sharded_inv h (tx_udp_client_transactions transaction_tables_new)"
  "sharded_get h (tx_udp_client_transactions transaction_tables_new) k = None"
  "length (tx_udp_client_transactions transaction_tables_new) = route_map_shards"
  "\<forall>m \<in> set (tx_udp_client_transactions transaction_tables_new). hm_len m \<le> limit"
  by (simp_all add: transaction_tables_new_def sharded_inv_new)
    (simp_all add: sharded_new_def route_map_shards_def hm_len_def hm_empty_def)

lemma holds_entry_remembered:
  assumes inv: "sharded_inv h (tx_udp_client_transactions tables)"
    and before: "\<forall>k r. sharded_get h (tx_udp_client_transactions tables) k = Some r \<longrightarrow> ct_created_at r < t"
    and "0 < limit"
  shows "holds_entry t k target None 0
    (shard_for_key h (tx_udp_client_transactions (client_step h limit (t, CtRemember k target) tables)) k)"
proof -
  let ?s = "tx_udp_client_transactions tables"
  let ?e = "\<lparr>ct_target = target, ct_final_response = None, ct_created_at = t\<rparr>"
  define m where "m = prune_udp_client_transactions t (shard_for_key h ?s k)"
  have m: "hm_inv m" by (simp add: m_def prune_clients_inv shard_for_key_inv [OF inv])
  have old: "ct_created_at r < t" if "hm_get m k' = Some r" for k' r
  proof -
    have "hm_get (shard_for_key h ?s k) k' = Some r"
      using that by (simp add: m_def prune_clients_get shard_for_key_inv [OF inv] keep_if_eq_Some)
    then have "sharded_get h ?s k' = Some r"
      using sharded_get_at [OF inv index_bound [OF sharded_inv_nonempty [OF inv]]] by (simp add: shard_for_key_def)
    with before show ?thesis by blast
  qed
  have none: "recent t k (hm_insert k ?e m) = {}"
    using old by (fastforce simp: recent_def hm_simps m split: if_splits)
  have inv': "hm_inv (hm_insert k ?e m)" by (simp add: hm_simps m)
  let ?f = "enforce_udp_client_transaction_shard_limit limit (hm_insert k ?e m)"
  have "hm_get ?f k = Some ?e"
    by (rule enforce_keeps [OF inv', of _ _ t]) (simp_all add: hm_simps m none assms(3))
  moreover have "recent t k ?f = {}"
    using none enforce_get [OF inv'] by (fastforce simp: recent_def)
  moreover have "shard_for_key h (tx_udp_client_transactions (client_step h limit (t, CtRemember k target) tables)) k = ?f"
    unfolding client_step_effect by (simp add: shard_for_key_with_shard [OF inv] m_def)
  ultimately show ?thesis by (simp add: holds_entry_def enforce_inv inv')
qed

section \<open>Properties\<close>

text \<open>
  C40: client transactions are kept and bounded.  Take any history of look-ups, new
  transactions, final responses and removals of UDP client transactions on an empty table,
  at increasing times.  If transaction \<open>k\<close> was remembered at time \<open>t\<close> and not removed or
  remembered again since, and fewer other transactions of its shard were touched since than
  the shard's limit, then until its lifetime has passed a look-up finds it with its target
  and with the last final response recorded for it.  No shard ever holds more entries than
  the limit, whatever the history.
\<close>

theorem client_transactions_kept_and_bounded:
  fixes h entries before after t k target
  defines "limit \<equiv> udp_client_transaction_shard_limit entries"
  defines "tables \<equiv> client_run h limit (before @ (t, CtRemember k target) # after) transaction_tables_new"
  assumes "\<forall>op \<in> set before. fst op < t"
    and "\<forall>(now, op) \<in> set after. t \<le> now \<and> now \<le> t + udp_branch_ttl \<and> \<not> ends k op"
    and "length (filter (disturbs h k) after) < limit" and "now \<le> t + udp_branch_ttl"
  shows "(\<exists>r. fst (lookup_udp_client_transaction h now k tables) = Some r
      \<and> ct_target r = target \<and> ct_final_response r = last_final k after)
    \<and> (\<forall>m \<in> set (tx_udp_client_transactions (client_run h limit ops transaction_tables_new)). hm_len m \<le> limit)"
proof
  let ?T = "client_run h limit before transaction_tables_new"
  let ?T' = "client_step h limit (t, CtRemember k target) ?T"
  have inv: "sharded_inv h (tx_udp_client_transactions ?T)" by (rule client_run_inv [OF new_tables(1)])
  have inv': "sharded_inv h (tx_udp_client_transactions ?T')" by (rule client_step_inv [OF inv])
  have "\<forall>k r. sharded_get h (tx_udp_client_transactions ?T) k = Some r \<longrightarrow> ct_created_at r < t"
    by (rule created_before [OF new_tables(1) _ assms(3)]) (simp add: new_tables)
  from holds_entry_remembered [OF inv this] have entry: "holds_entry t k target None 0 (shard_for_key h (tx_udp_client_transactions ?T') k)"
    by (simp add: limit_def shard_limit_positive)
  have len: "length (tx_udp_client_transactions ?T') = route_map_shards"
    by (simp only: client_step_length client_run_length new_tables)
  have small: "0 + length (filter (disturbs h k) after) < limit" using assms(5) by simp
  have split: "tables = client_run h limit after ?T'" by (simp add: tables_def client_run_def)
  from holds_entry_run [OF inv' len entry assms(4) small]
  obtain j where "holds_entry t k target (last_final k after) j (shard_for_key h (tx_udp_client_transactions tables) k)"
    unfolding split last_final_def by blast
  then obtain r where r: "sharded_get h (tx_udp_client_transactions tables) k = Some r" "ct_target r = target"
    "ct_final_response r = last_final k after" "t \<le> ct_created_at r"
    by (auto simp: holds_entry_def sharded_get_def)
  have "sharded_inv h (tx_udp_client_transactions tables)"
    unfolding tables_def by (rule client_run_inv [OF new_tables(1)])
  from clients.get_prune_key [OF this, where now = now and k = k]
  have "fst (lookup_udp_client_transaction h now k tables) = clients.view h now (tx_udp_client_transactions tables) k"
    by (simp add: lookup_udp_client_transaction_def prune_udp_client_transactions_def Let_def)
  with r assms(6) client_alive_within [OF r(4)]
  show "\<exists>r. fst (lookup_udp_client_transaction h now k tables) = Some r \<and> ct_target r = target
      \<and> ct_final_response r = last_final k after"
    by (simp add: clients.view_def)
  show "\<forall>m \<in> set (tx_udp_client_transactions (client_run h limit ops transaction_tables_new)). hm_len m \<le> limit"
    by (rule client_run_len [OF new_tables(1,4)])
qed

theorem client_transactions_kept_and_bounded_witness:
  "\<exists>r. fst (lookup_udp_client_transaction length 40 ''b'' (client_run length (udp_client_transaction_shard_limit 200)
      [(10, CtRemember ''a'' \<lparr>ut_addr = SockV4 1 5060, ut_transport = Udp\<rparr>),
       (20, CtRemember ''b'' \<lparr>ut_addr = SockV4 2 5060, ut_transport = Udp\<rparr>),
       (30, CtRemember ''c'' \<lparr>ut_addr = SockV4 3 5060, ut_transport = Udp\<rparr>), (35, CtFinal ''b'' ''ok'')]
      transaction_tables_new)) = Some r \<and> ct_final_response r = Some ''ok''"
proof -
  let ?after = "[(30 :: instant, CtRemember ''c'' \<lparr>ut_addr = SockV4 3 5060, ut_transport = Udp\<rparr>), (35, CtFinal ''b'' ''ok'')]"
  have "udp_client_transaction_shard_limit 200 = 4"
    by (simp add: udp_client_transaction_shard_limit_def route_map_shards_def)
  moreover have "length (filter (disturbs length ''b'') ?after) \<le> length ?after" by (rule length_filter_le)
  ultimately have "length (filter (disturbs length ''b'') ?after) < udp_client_transaction_shard_limit 200" by simp
  from client_transactions_kept_and_bounded [OF _ _ this, of "[(10, CtRemember ''a'' \<lparr>ut_addr = SockV4 1 5060, ut_transport = Udp\<rparr>)]"
      20 40 "\<lparr>ut_addr = SockV4 2 5060, ut_transport = Udp\<rparr>"]
  show ?thesis by (auto simp: udp_branch_ttl_def time_simps last_final_def)
qed

end
