(* ===== verification/Advertise.thy ===== *)
theory Advertise
  imports Upstreams Stun Addr_Text
begin

text \<open>
  The addresses the proxy advertises and recognises as its own (\<open>proxy/server.rs\<close>): rendering
  a configured address, the cached resolution per side, listener and target, and the test
  whether an address is the proxy's.  The network (name resolution, STUN exchange, the local
  address a connected socket gets, the interface addresses) is the record \<open>net_env\<close>.  Shown
  here: rendering and splitting are inverse to each other, and once an address was
  advertised for a side, listener and target, every later answer is the same.
\<close>

record net_env =
  ne_resolve :: "string \<Rightarrow> sock_addr list option"
  ne_stun :: "sock_addr \<Rightarrow> u8 list \<Rightarrow> u8 list option"
  ne_local_addr :: "sock_addr \<Rightarrow> ip_addr option"
  ne_local_ips :: "ip_addr list"

datatype advertise_side = Public | Internal

fun side_str :: "advertise_side \<Rightarrow> string" where
  "side_str Public = ''public''"
| "side_str Internal = ''internal''"

section \<open>Address texts\<close>

definition non_empty :: "string option \<Rightarrow> string option" where
  "non_empty v = (case v of None \<Rightarrow> None | Some s \<Rightarrow> if trim s \<noteq> [] then Some (trim s) else None)"

definition split_advertised_host_port :: "string \<Rightarrow> (string \<times> string) option" where
  "split_advertised_host_port v =
     (if starts_with v ''[''
      then (case split_once (CHR '']'') v of
              None \<Rightarrow> None
            | Some (a, CHR '':'' # port) \<Rightarrow> Some (a @ '']'', port)
            | Some _ \<Rightarrow> None)
      else if length (filter (\<lambda>c. c = CHR '':'') v) = 1 then split_once (CHR '':'') v
      else None)"

definition render_host_port :: "string \<Rightarrow> u16 \<Rightarrow> string" where
  "render_host_port host port =
     (let host = trim host; text = dec_str (unat port) in
      if starts_with host ''['' \<and> host \<noteq> [] \<and> last host = CHR '']'' then host @ '':'' @ text
      else if (case parse_ip host of Some ip \<Rightarrow> is_ipv6 ip | None \<Rightarrow> False) then ''['' @ host @ '']:'' @ text
      else host @ '':'' @ text)"

definition parse_u16 :: "string \<Rightarrow> u16 option" where
  "parse_u16 s = map_option word_of_nat (parse_uint 65535 s)"

definition render_advertised_addr :: "string \<Rightarrow> u16 \<Rightarrow> string option" where
  "render_advertised_addr v default_port =
     (case parse_sock v of
        Some addr \<Rightarrow> Some (show_sock addr)
      | None \<Rightarrow>
          (case (case split_advertised_host_port v of
                   Some (host, port) \<Rightarrow> map_option (Pair host) (parse_u16 port)
                 | None \<Rightarrow> Some (v, default_port)) of
             None \<Rightarrow> None
           | Some (host, port) \<Rightarrow> if trim host = [] then None else Some (render_host_port (trim host) port)))"

definition advertised_addr_host :: "string \<Rightarrow> string" where
  "advertised_addr_host v = (case split_advertised_host_port v of Some (host, _) \<Rightarrow> host | None \<Rightarrow> v)"

definition advertised_addr_port :: "string \<Rightarrow> u16 option" where
  "advertised_addr_port v =
     (case parse_sock v of
        Some addr \<Rightarrow> Some (sock_port addr)
      | None \<Rightarrow> (case split_advertised_host_port v of None \<Rightarrow> None | Some (_, port) \<Rightarrow> parse_u16 port))"

fun is_loopback :: "ip_addr \<Rightarrow> bool" where
  "is_loopback (V4 a) \<longleftrightarrow> unat a div 2 ^ 24 = 127"
| "is_loopback (V6 a) \<longleftrightarrow> a = 1"

definition advertised_addr_needs_auto :: "string \<Rightarrow> bool" where
  "advertised_addr_needs_auto v =
     (case parse_ip (trim_matches (\<lambda>c. c = CHR ''['' \<or> c = CHR '']'') (advertised_addr_host v)) of
        None \<Rightarrow> False
      | Some ip \<Rightarrow> is_loopback ip \<or> is_unspecified ip)"

definition parse_socket_addr_with_default_port :: "string \<Rightarrow> u16 \<Rightarrow> sock_addr option" where
  "parse_socket_addr_with_default_port v default_port = Option.bind (render_advertised_addr v default_port) parse_sock"

section \<open>Resolution\<close>

definition outbound_local_addr :: "net_env \<Rightarrow> sock_addr \<Rightarrow> u16 \<Rightarrow> sock_addr option" where
  "outbound_local_addr env upstream port = map_option (\<lambda>ip. sock_new ip port) (ne_local_addr env upstream)"

text \<open>The free function \<open>advertised_sip_addr\<close>.\<close>

definition advertised_fallback :: "net_env \<Rightarrow> string option \<Rightarrow> proxy_listener_config \<Rightarrow> sock_addr \<Rightarrow> string" where
  "advertised_fallback env configured listener upstream =
     (let fallback_port = listener_port listener;
          port = (case Option.bind configured advertised_addr_port of
                    Some p \<Rightarrow> p
                  | None \<Rightarrow> (case parse_sock (l_bind listener) of Some a \<Rightarrow> sock_port a | None \<Rightarrow> sock_port upstream))
      in (case (case configured of Some c \<Rightarrow> if \<not> advertised_addr_needs_auto c then Some c else None | None \<Rightarrow> None) of
            Some c \<Rightarrow> (case render_advertised_addr c fallback_port of Some a \<Rightarrow> a | None \<Rightarrow> c)
          | None \<Rightarrow> (case outbound_local_addr env upstream port of Some a \<Rightarrow> show_sock a | None \<Rightarrow> l_bind listener)))"

fun configured_addr_for_side :: "sip_config \<Rightarrow> advertise_side \<Rightarrow> string option" where
  "configured_addr_for_side sip Public =
     non_empty (case sip_public_addr sip of Some a \<Rightarrow> Some a | None \<Rightarrow> sip_external_addr sip)"
| "configured_addr_for_side sip Internal =
     non_empty (case sip_internal_addr sip of Some a \<Rightarrow> Some a | None \<Rightarrow> sip_external_addr sip)"

text \<open>
  The global identifier counter is threaded through: a STUN request takes the next
  identifier.  \<open>None\<close> of \<open>detected\<close> falls through to the last resort.
\<close>

definition resolve_advertised_sip_addr ::
  "net_env \<Rightarrow> sip_config \<Rightarrow> advertise_side \<Rightarrow> proxy_listener_config \<Rightarrow> sock_addr \<Rightarrow> u64 \<Rightarrow> string \<times> u64" where
  "resolve_advertised_sip_addr env sip side listener target next_id =
     (let configured = configured_addr_for_side sip side;
          port = listener_port listener;
          rendered = Option.bind configured (\<lambda>c. if advertised_addr_needs_auto c then None else render_advertised_addr c port)
      in (case rendered of
            Some addr \<Rightarrow> (addr, next_id)
          | None \<Rightarrow>
              let (detected, next_id') =
                (case side of
                   Public \<Rightarrow>
                     (case non_empty (sip_public_stun_server sip) of
                        None \<Rightarrow> (None, next_id)
                      | Some server \<Rightarrow>
                          ((case discover_public_ip (ne_resolve env) (ne_stun env) next_id server of
                              Inr ip \<Rightarrow> Some (render_host_port (show_ip ip) port)
                            | Inl _ \<Rightarrow> None),
                           (case resolve_probe_addr (ne_resolve env) server of Inl _ \<Rightarrow> next_id | Inr _ \<Rightarrow> next_id + 1)))
                 | Internal \<Rightarrow>
                     (case non_empty (Some (sip_internal_probe_addr sip)) of
                        None \<Rightarrow> (None, next_id)
                      | Some probe \<Rightarrow>
                          ((case resolve_probe_addr (ne_resolve env) probe of
                              Inl _ \<Rightarrow> None
                            | Inr probe_addr \<Rightarrow> map_option show_sock (outbound_local_addr env probe_addr port)), next_id)))
              in (case detected of
                    Some addr \<Rightarrow> (addr, next_id')
                  | None \<Rightarrow> (advertised_fallback env configured listener target, next_id'))))"

definition advertised_key :: "advertise_side \<Rightarrow> proxy_listener_config \<Rightarrow> sock_addr \<Rightarrow> string" where
  "advertised_key side listener target = side_str side @ ''|'' @ listener_key listener @ ''|'' @ show_sock target"

type_synonym advertised_cache = "(string, string) hmap"

definition advertised_sip_addr ::
  "net_env \<Rightarrow> sip_config \<Rightarrow> advertise_side \<Rightarrow> proxy_listener_config \<Rightarrow> sock_addr
   \<Rightarrow> advertised_cache \<times> u64 \<Rightarrow> string \<times> advertised_cache \<times> u64" where
  "advertised_sip_addr env sip side listener target = (\<lambda>(cache, next_id).
     (case hm_get cache (advertised_key side listener target) of
        Some addr \<Rightarrow> (addr, cache, next_id)
      | None \<Rightarrow>
          let (addr, next_id') = resolve_advertised_sip_addr env sip side listener target next_id
          in (addr, hm_insert (advertised_key side listener target) addr cache, next_id')))"

section \<open>The proxy's own addresses\<close>

definition listener_bind_matches_addr :: "net_env \<Rightarrow> sock_addr \<Rightarrow> proxy_listener_config \<Rightarrow> bool" where
  "listener_bind_matches_addr env addr listener =
     (case parse_sock (l_bind listener) of
        None \<Rightarrow> False
      | Some bind \<Rightarrow>
          if sock_port bind \<noteq> sock_port addr then False
          else if is_unspecified (sock_ip bind) then sock_ip addr \<in> set (ne_local_ips env)
          else bind = addr)"

definition is_advertised_or_listener_addr ::
  "net_env \<Rightarrow> sip_config \<Rightarrow> sock_addr \<Rightarrow> proxy_listener_config \<Rightarrow> bool" where
  "is_advertised_or_listener_addr env sip addr listener \<longleftrightarrow>
     (\<exists>v \<in> {sip_external_addr sip, sip_public_addr sip, sip_internal_addr sip}.
        case v of None \<Rightarrow> False
        | Some configured \<Rightarrow> parse_socket_addr_with_default_port configured (listener_port listener) = Some addr)
     \<or> listener_bind_matches_addr env addr listener"

definition record_route_addrs ::
  "net_env \<Rightarrow> sip_config \<Rightarrow> bool \<Rightarrow> bool \<Rightarrow> sock_addr \<Rightarrow> proxy_listener_config
   \<Rightarrow> advertised_cache \<times> u64 \<Rightarrow> string list \<times> advertised_cache \<times> u64" where
  "record_route_addrs env sip from_upstream to_upstream target listener st =
     (if from_upstream = to_upstream
      then let (addr, st') = advertised_sip_addr env sip (if to_upstream then Internal else Public) listener target st
           in ([addr], st')
      else let (public, st') = advertised_sip_addr env sip Public listener target st;
               (internal, st'') = advertised_sip_addr env sip Internal listener target st'
           in (if to_upstream then [internal, public] else [public, internal], st''))"

section \<open>Rendering and splitting\<close>

lemma dec_str_no_colon: "CHR '':'' \<notin> set (dec_str n)"
  using dec_str_digits [of n] by (auto simp: list_all_iff is_digit_def)

lemma filter_colon_dec_str: "filter (\<lambda>c. c = CHR '':'') (dec_str n) = []"
  using dec_str_no_colon [of n] by (auto simp: filter_empty_conv)

lemma parse_u16_dec_str: "parse_u16 (dec_str (unat p)) = Some p"
  using unat_u16_less [of p] by (simp add: parse_u16_def parse_uint_dec_str)

lemma split_host_port_name:
  assumes "CHR '':'' \<notin> set host" "\<not> starts_with host ''[''" "host \<noteq> []"
  shows "split_advertised_host_port (host @ '':'' @ dec_str n) = Some (host, dec_str n)"
proof -
  have "\<not> starts_with (host @ '':'' @ dec_str n) ''[''"
    using assms by (cases host) (auto simp: starts_with_def)
  moreover have "filter (\<lambda>c. c = CHR '':'') host = []" using assms(1) by (auto simp: filter_empty_conv)
  moreover have "split_once (CHR '':'') (host @ '':'' @ dec_str n) = Some (host, dec_str n)"
    using assms(1) by (simp add: split_once_Some)
  ultimately show ?thesis by (simp add: split_advertised_host_port_def filter_colon_dec_str)
qed

lemma split_host_port_bracketed:
  assumes "CHR '']'' \<notin> set host"
  shows "split_advertised_host_port (''['' @ host @ '']:'' @ dec_str n) = Some (''['' @ host @ '']'', dec_str n)"
proof -
  have "split_once (CHR '']'') (''['' @ host @ '']:'' @ dec_str n) = Some (''['' @ host, '':'' @ dec_str n)"
    using assms by (simp add: split_once_Some)
  then show ?thesis by (simp add: split_advertised_host_port_def starts_with_def)
qed

text \<open>Splitting an address rendered from a host and a port gives the port back.\<close>

lemma rendered_port_recovered:
  assumes "trim host = host" "host \<noteq> []" "\<not> starts_with host ''[''" "CHR '']'' \<notin> set host"
    and "CHR '':'' \<in> set host \<longrightarrow> (\<exists>a. parse_ip host = Some (V6 a))"
  shows "\<exists>h. split_advertised_host_port (render_host_port host port) = Some (h, dec_str (unat port))
    \<and> (h = host \<or> h = ''['' @ host @ '']'')"
proof (cases "case parse_ip host of Some ip \<Rightarrow> is_ipv6 ip | None \<Rightarrow> False")
  case True
  then have "render_host_port host port = ''['' @ host @ '']:'' @ dec_str (unat port)"
    using assms by (simp add: render_host_port_def)
  then show ?thesis using split_host_port_bracketed [OF assms(4)] by simp
next
  case False
  then have "render_host_port host port = host @ '':'' @ dec_str (unat port)"
    using assms by (simp add: render_host_port_def)
  moreover have "CHR '':'' \<notin> set host" using False assms(5) by auto
  ultimately show ?thesis using split_host_port_name [OF _ assms(3,2)] by simp
qed

section \<open>Answers are stable\<close>

lemma advertised_cached:
  "advertised_sip_addr env sip side listener target st = (addr, st') \<Longrightarrow>
   hm_get (fst st') (advertised_key side listener target) = Some addr"
  by (auto simp: advertised_sip_addr_def hm_get_def hm_insert_def update_conv split: prod.splits option.splits)

lemma advertised_keeps:
  "hm_get (fst st) k = Some a \<Longrightarrow>
   hm_get (fst (snd (advertised_sip_addr env sip side listener target st))) k = Some a"
  by (cases st) (auto simp: advertised_sip_addr_def hm_get_def hm_insert_def update_conv
      split: prod.splits option.splits)

lemma advertised_hit:
  "hm_get (fst st) (advertised_key side listener target) = Some a \<Longrightarrow>
   advertised_sip_addr env sip side listener target st = (a, st)"
  by (cases st) (simp add: advertised_sip_addr_def)

definition advertise_call ::
  "net_env \<times> sip_config \<times> advertise_side \<times> proxy_listener_config \<times> sock_addr
   \<Rightarrow> advertised_cache \<times> u64 \<Rightarrow> advertised_cache \<times> u64" where
  "advertise_call = (\<lambda>(env, sip, side, listener, target) st. snd (advertised_sip_addr env sip side listener target st))"

lemma advertise_calls_keep:
  "hm_get (fst st) k = Some a \<Longrightarrow> hm_get (fst (fold advertise_call calls st)) k = Some a"
  by (induction calls arbitrary: st) (auto simp: advertise_call_def advertised_keeps split: prod.split)

text \<open>
  Once an address was advertised for a side, listener and target, the answer stays the same
  whatever the network does and whatever else is asked in between.
\<close>

lemma advertised_answer_stable:
  assumes "advertised_sip_addr env sip side listener target st = (addr, st')"
  shows "fst (advertised_sip_addr env' sip' side listener target (fold advertise_call calls st')) = addr"
  using advertised_hit [OF advertise_calls_keep [OF advertised_cached [OF assms]]] by simp


end
