(* ===== verification/Metrics.thy ===== *)
theory Metrics
  imports Sharded Config "HOL-Library.Char_ord" "HOL-Library.List_Lexorder" "HOL-Library.Product_Lexorder"
begin

text \<open>
  The metric counters (\<open>proxy/metrics.rs\<close>), the table of counter handles that the proxy
  registers in advance and the functions that record a metric (\<open>proxy/server.rs\<close>).  A counter
  is shared through an \<open>Arc\<close> and never removed, so a handle is the key of its counter.  Shown
  here: recording through a handle has the same effect as looking the counter up by name and
  labels, on every input, so every counter, those of the latency histogram included, holds exactly what
  the recorded events add to it (modulo \<open>2^64\<close>); escaping keeps distinct label values
  distinct and the exposition free of stray newlines.
\<close>

section \<open>Counters\<close>

type_synonym labels = "(string \<times> string) list"

record counter =
  co_name :: string
  co_labels :: labels
  co_value :: u64

type_synonym proxy_metrics = "(string, counter) shards"

definition metric_shards :: nat where
  "metric_shards = 64"

definition metrics_new :: proxy_metrics where
  "metrics_new = sharded_new metric_shards"

definition counter_key :: "string \<Rightarrow> labels \<Rightarrow> string" where
  "counter_key name labels = name @ concat (map (\<lambda>(l, v). ''|'' @ l @ ''='' @ v) labels)"

text \<open>Find or create a counter; the handle is its key.\<close>

definition counter_arc :: "(string \<Rightarrow> nat) \<Rightarrow> string \<Rightarrow> labels \<Rightarrow> proxy_metrics \<Rightarrow> string \<times> proxy_metrics" where
  "counter_arc h name labels m =
     (let key = counter_key name labels in
      (key, (case sharded_get h m key of
               Some _ \<Rightarrow> m
             | None \<Rightarrow> sharded_insert h key \<lparr>co_name = name, co_labels = labels, co_value = 0\<rparr> m)))"

text \<open>\<open>fetch_add\<close> on the counter of a handle; it wraps around.\<close>

definition handle_incr_by :: "(string \<Rightarrow> nat) \<Rightarrow> string \<Rightarrow> u64 \<Rightarrow> proxy_metrics \<Rightarrow> proxy_metrics" where
  "handle_incr_by h key v m =
     (case sharded_get h m key of
        None \<Rightarrow> m
      | Some c \<Rightarrow> sharded_insert h key (c\<lparr>co_value := co_value c + v\<rparr>) m)"

definition handle_incr :: "(string \<Rightarrow> nat) \<Rightarrow> string \<Rightarrow> proxy_metrics \<Rightarrow> proxy_metrics" where
  "handle_incr h key m = handle_incr_by h key 1 m"

definition metrics_incr_by :: "(string \<Rightarrow> nat) \<Rightarrow> string \<Rightarrow> labels \<Rightarrow> u64 \<Rightarrow> proxy_metrics \<Rightarrow> proxy_metrics" where
  "metrics_incr_by h name labels v m = (let (key, m') = counter_arc h name labels m in handle_incr_by h key v m')"

definition metrics_incr :: "(string \<Rightarrow> nat) \<Rightarrow> string \<Rightarrow> labels \<Rightarrow> proxy_metrics \<Rightarrow> proxy_metrics" where
  "metrics_incr h name labels m = metrics_incr_by h name labels 1 m"

section \<open>Exposition\<close>

definition replace_char :: "char \<Rightarrow> string \<Rightarrow> string \<Rightarrow> string" where
  "replace_char c r s = concat (map (\<lambda>x. if x = c then r else [x]) s)"

definition escape_label_value :: "string \<Rightarrow> string" where
  "escape_label_value v =
     replace_char (CHR 0x22) [CHR 0x5C, CHR 0x22]
       (replace_char (CHR 0x0A) [CHR 0x5C, CHR ''n''] (replace_char (CHR 0x5C) [CHR 0x5C, CHR 0x5C] v))"

fun render_labels :: "labels \<Rightarrow> string" where
  "render_labels [] = []"
| "render_labels [(k, v)] = k @ ''='' @ [CHR 0x22] @ escape_label_value v @ [CHR 0x22]"
| "render_labels ((k, v) # ls) = k @ ''='' @ [CHR 0x22] @ escape_label_value v @ [CHR 0x22] @ '','' @ render_labels ls"

definition render_counter :: "counter \<Rightarrow> string" where
  "render_counter c =
     co_name c @ (if co_labels c = [] then [] else ''{'' @ render_labels (co_labels c) @ ''}'')
       @ '' '' @ dec_str (unat (co_value c)) @ [CHR 0x0A]"

fun render_values :: "string option \<Rightarrow> counter list \<Rightarrow> string" where
  "render_values last_name [] = []"
| "render_values last_name (c # cs) =
     (if last_name \<noteq> Some (co_name c) then ''# TYPE '' @ co_name c @ '' counter'' @ [CHR 0x0A] else [])
       @ render_counter c @ render_values (Some (co_name c)) cs"

definition live_counters :: "proxy_metrics \<Rightarrow> counter list" where
  "live_counters m = filter (\<lambda>c. co_value c > 0) (map snd (sharded_entries m))"

definition render_prometheus :: "proxy_metrics \<Rightarrow> string" where
  "render_prometheus m = render_values None (sort_key (\<lambda>c. (co_name c, co_labels c)) (live_counters m))"

section \<open>Label tables\<close>

definition metric_transports :: "string list" where
  "metric_transports = [''udp'', ''tcp'']"

definition metric_methods :: "string list" where
  "metric_methods = [''ACK'', ''BYE'', ''CANCEL'', ''INVITE'', ''MESSAGE'', ''OPTIONS'', ''REGISTER'', ''UNKNOWN'']"

definition metric_status_classes :: "string list" where
  "metric_status_classes = [''1xx'', ''2xx'', ''3xx'', ''4xx'', ''5xx'', ''6xx'', ''other'']"

definition metric_local_response_code_labels :: "string list" where
  "metric_local_response_code_labels = [''400'', ''403'', ''483'', ''503'']"

definition metric_affinity_lookup_results :: "string list" where
  "metric_affinity_lookup_results = [''hit'', ''location-hit'', ''miss'', ''registered-upstream-hit'',
     ''registered-upstream-unhealthy'', ''request-uri-target'', ''transaction-hit'', ''wrong-side'']"

definition metric_security_drop_reasons :: "string list" where
  "metric_security_drop_reasons = [''denied-cidr'', ''not-allowed-cidr'', ''ip-blocked'', ''geo-unavailable'',
     ''geo-unknown-country'', ''geo-deny-country'', ''geo-not-allowed-country'', ''threat-intel-unavailable'',
     ''threat-intel'', ''udp-flood-rate-limit'', ''tcp-flood-rate-limit'', ''tcp-udp-flood-rate-limit'',
     ''ip-rate-limit'', ''invalid-start-line'', ''parse-error'', ''parse-error-rate-limit'', ''dynamic-ban'',
     ''sip-register-rate-limit'', ''sip-invite-rate-limit'', ''sip-blocked'', ''sip-invalid-from'',
     ''sip-unregistered-invite'', ''sip-unregistered-invite-source'']"

definition latency_buckets :: "nat list" where
  "latency_buckets = [1, 5, 10, 25, 50, 100, 250, 500, 1000, 2500, 5000, 10000, 30000]"

definition latency_bucket_labels :: "string list" where
  "latency_bucket_labels = [''1'', ''5'', ''10'', ''25'', ''50'', ''100'', ''250'', ''500'', ''1000'', ''2500'', ''5000'',
     ''10000'', ''30000'', ''+Inf'']"

definition metric_transport_index :: "string \<Rightarrow> nat option" where
  "metric_transport_index t = (if t = ''udp'' then Some 0 else if t = ''tcp'' then Some 1 else None)"

text \<open>\<open>None\<close> is the panic of \<open>unreachable!\<close>.\<close>

fun sip_transport_metric_index :: "sip_transport \<Rightarrow> nat option" where
  "sip_transport_metric_index Udp = Some 0"
| "sip_transport_metric_index Tcp = Some 1"
| "sip_transport_metric_index TcpUdp = None"

definition metric_method_index :: "string \<Rightarrow> nat option" where
  "metric_method_index s =
     (if s = ''ACK'' then Some 0 else if s = ''BYE'' then Some 1 else if s = ''CANCEL'' then Some 2
      else if s = ''INVITE'' then Some 3 else if s = ''MESSAGE'' then Some 4 else if s = ''OPTIONS'' then Some 5
      else if s = ''REGISTER'' then Some 6 else if s = ''UNKNOWN'' then Some 7 else None)"

definition metric_status_class_index :: "string \<Rightarrow> nat option" where
  "metric_status_class_index s =
     (if s = ''1xx'' then Some 0 else if s = ''2xx'' then Some 1 else if s = ''3xx'' then Some 2
      else if s = ''4xx'' then Some 3 else if s = ''5xx'' then Some 4 else if s = ''6xx'' then Some 5
      else if s = ''other'' then Some 6 else None)"

definition metric_local_response_code_index :: "u16 \<Rightarrow> nat option" where
  "metric_local_response_code_index code =
     (if code = 400 then Some 0 else if code = 403 then Some 1 else if code = 483 then Some 2
      else if code = 503 then Some 3 else None)"

definition metric_affinity_lookup_result_index :: "string \<Rightarrow> nat option" where
  "metric_affinity_lookup_result_index s =
     (if s = ''hit'' then Some 0 else if s = ''location-hit'' then Some 1 else if s = ''miss'' then Some 2
      else if s = ''registered-upstream-hit'' then Some 3 else if s = ''registered-upstream-unhealthy'' then Some 4
      else if s = ''request-uri-target'' then Some 5 else if s = ''transaction-hit'' then Some 6
      else if s = ''wrong-side'' then Some 7 else None)"

definition metric_security_drop_reason_index :: "string \<Rightarrow> nat option" where
  "metric_security_drop_reason_index s =
     (if s = ''denied-cidr'' then Some 0 else if s = ''not-allowed-cidr'' then Some 1 else if s = ''ip-blocked'' then Some 2
      else if s = ''geo-unavailable'' then Some 3 else if s = ''geo-unknown-country'' then Some 4
      else if s = ''geo-deny-country'' then Some 5 else if s = ''geo-not-allowed-country'' then Some 6
      else if s = ''threat-intel-unavailable'' then Some 7 else if s = ''threat-intel'' then Some 8
      else if s = ''udp-flood-rate-limit'' then Some 9 else if s = ''tcp-flood-rate-limit'' then Some 10
      else if s = ''tcp-udp-flood-rate-limit'' then Some 11 else if s = ''ip-rate-limit'' then Some 12
      else if s = ''invalid-start-line'' then Some 13 else if s = ''parse-error'' then Some 14
      else if s = ''parse-error-rate-limit'' then Some 15 else if s = ''dynamic-ban'' then Some 16
      else if s = ''sip-register-rate-limit'' then Some 17 else if s = ''sip-invite-rate-limit'' then Some 18
      else if s = ''sip-blocked'' then Some 19 else if s = ''sip-invalid-from'' then Some 20
      else if s = ''sip-unregistered-invite'' then Some 21 else if s = ''sip-unregistered-invite-source'' then Some 22
      else None)"

definition status_class :: "u16 \<Rightarrow> string" where
  "status_class code =
     (let c = unat code in
      if 100 \<le> c \<and> c \<le> 199 then ''1xx'' else if 200 \<le> c \<and> c \<le> 299 then ''2xx''
      else if 300 \<le> c \<and> c \<le> 399 then ''3xx'' else if 400 \<le> c \<and> c \<le> 499 then ''4xx''
      else if 500 \<le> c \<and> c \<le> 599 then ''5xx'' else if 600 \<le> c \<and> c \<le> 699 then ''6xx'' else ''unknown'')"

section \<open>Handles\<close>

text \<open>\<open>std::array::from_fn\<close> with the counters registered on the way.\<close>

fun array_fn :: "nat list \<Rightarrow> (nat \<Rightarrow> 's \<Rightarrow> 'a \<times> 's) \<Rightarrow> 's \<Rightarrow> 'a list \<times> 's" where
  "array_fn [] f m = ([], m)"
| "array_fn (i # is) f m = (let (x, m1) = f i m; (xs, m2) = array_fn is f m1 in (x # xs, m2))"

record metric_handles =
  mh_sip_requests :: "string list list"
  mh_forwarded_requests :: "string list list list"
  mh_forward_errors :: "string list"
  mh_local_responses :: "string list list"
  mh_upstream_responses :: "string list list"
  mh_affinity_lookups :: "string list"
  mh_security_drops :: "(string, string list) hmap"
  mh_udp_handler_queue_drops :: "(string, string) hmap"
  mh_latency_buckets :: "string list list list list"
  mh_latency_count :: "string list list list"
  mh_latency_sum :: "string list list list"

text \<open>The labels of each family of counters, from the indices of its tables.\<close>

definition sip_request_labels :: "string \<Rightarrow> string \<Rightarrow> labels" where
  "sip_request_labels transport method = [(''transport'', transport), (''method'', method)]"

definition forward_labels :: "string \<Rightarrow> string \<Rightarrow> string \<Rightarrow> labels" where
  "forward_labels downstream upstream method =
     [(''downstream_transport'', downstream), (''upstream_transport'', upstream), (''method'', method)]"

definition bucket_labels :: "string \<Rightarrow> string \<Rightarrow> string \<Rightarrow> string \<Rightarrow> labels" where
  "bucket_labels downstream upstream method le = forward_labels downstream upstream method @ [(''le'', le)]"

definition local_response_labels :: "string \<Rightarrow> string \<Rightarrow> labels" where
  "local_response_labels transport code = [(''transport'', transport), (''code'', code)]"

definition upstream_response_labels :: "string \<Rightarrow> string \<Rightarrow> labels" where
  "upstream_response_labels transport class = [(''transport'', transport), (''class'', class)]"

definition security_drop_labels :: "string \<Rightarrow> string \<Rightarrow> labels" where
  "security_drop_labels listener reason = [(''listener'', listener), (''reason'', reason)]"

definition listener_handles ::
  "(string \<Rightarrow> nat) \<Rightarrow> string \<Rightarrow> (string, string list) hmap \<times> (string, string) hmap \<times> proxy_metrics
   \<Rightarrow> (string, string list) hmap \<times> (string, string) hmap \<times> proxy_metrics" where
  "listener_handles h key = (\<lambda>(drops, queue, m).
     let (hs, m1) = array_fn [0..<length metric_security_drop_reasons] (\<lambda>reason. counter_arc h
            ''proxy_security_dropped_packets_total'' (security_drop_labels key (metric_security_drop_reasons ! reason))) m;
         (q, m2) = counter_arc h ''proxy_udp_handler_queue_drops_total'' [(''listener'', key)] m1
     in (hm_insert key hs drops, hm_insert key q queue, m2))"

definition metric_handles_new :: "(string \<Rightarrow> nat) \<Rightarrow> proxy_config \<Rightarrow> proxy_metrics \<Rightarrow> metric_handles \<times> proxy_metrics" where
  "metric_handles_new h px m0 =
     (let (drops, queue, m1) = fold (listener_handles h) (map listener_key (concat (map concrete_listeners (px_listeners px))))
            (hm_empty, hm_empty, m0);
          transports = [0..<length metric_transports]; methods = [0..<length metric_methods];
          by_route = (\<lambda>name. array_fn transports (\<lambda>d. array_fn transports (\<lambda>u. array_fn methods (\<lambda>i.
            counter_arc h name (forward_labels (metric_transports ! d) (metric_transports ! u) (metric_methods ! i))))));
          (sip, m2) = array_fn transports (\<lambda>t. array_fn methods (\<lambda>i. counter_arc h ''sip_requests_total''
            (sip_request_labels (metric_transports ! t) (metric_methods ! i)))) m1;
          (forwarded, m3) = by_route ''proxy_forwarded_requests_total'' m2;
          (errors, m4) = array_fn transports (\<lambda>t. counter_arc h ''proxy_forward_errors_total''
            [(''downstream_transport'', metric_transports ! t)]) m3;
          (locals, m5) = array_fn transports (\<lambda>t. array_fn [0..<length metric_local_response_code_labels] (\<lambda>c.
            counter_arc h ''sip_local_responses_total''
              (local_response_labels (metric_transports ! t) (metric_local_response_code_labels ! c)))) m4;
          (responses, m6) = array_fn transports (\<lambda>t. array_fn [0..<length metric_status_classes] (\<lambda>c.
            counter_arc h ''sip_upstream_responses_total''
              (upstream_response_labels (metric_transports ! t) (metric_status_classes ! c)))) m5;
          (affinity, m7) = array_fn [0..<length metric_affinity_lookup_results] (\<lambda>r.
            counter_arc h ''proxy_affinity_lookup_total'' [(''result'', metric_affinity_lookup_results ! r)]) m6;
          (buckets, m8) = array_fn transports (\<lambda>d. array_fn transports (\<lambda>u. array_fn methods (\<lambda>i.
            array_fn [0..<length latency_bucket_labels] (\<lambda>b. counter_arc h ''proxy_upstream_response_latency_ms_bucket''
              (bucket_labels (metric_transports ! d) (metric_transports ! u) (metric_methods ! i)
                 (latency_bucket_labels ! b)))))) m7;
          (count, m9) = by_route ''proxy_upstream_response_latency_ms_count'' m8;
          (total, m10) = by_route ''proxy_upstream_response_latency_ms_sum'' m9
      in (\<lparr>mh_sip_requests = sip, mh_forwarded_requests = forwarded, mh_forward_errors = errors,
            mh_local_responses = locals, mh_upstream_responses = responses, mh_affinity_lookups = affinity,
            mh_security_drops = drops, mh_udp_handler_queue_drops = queue, mh_latency_buckets = buckets,
            mh_latency_count = count, mh_latency_sum = total\<rparr>, m10))"

section \<open>Recording\<close>

definition record_sip_request ::
  "(string \<Rightarrow> nat) \<Rightarrow> metric_handles \<Rightarrow> string \<Rightarrow> string \<Rightarrow> proxy_metrics \<Rightarrow> proxy_metrics" where
  "record_sip_request h hs transport method m =
     (case (metric_transport_index transport, metric_method_index method) of
        (Some t, Some i) \<Rightarrow> handle_incr h (mh_sip_requests hs ! t ! i) m
      | _ \<Rightarrow> metrics_incr h ''sip_requests_total'' (sip_request_labels transport method) m)"

text \<open>\<open>None\<close>: the upstream transport is \<open>TcpUdp\<close>, which panics on the indexed path only.\<close>

definition record_forwarded_request ::
  "(string \<Rightarrow> nat) \<Rightarrow> metric_handles \<Rightarrow> string \<Rightarrow> sip_transport \<Rightarrow> string option \<Rightarrow> proxy_metrics
   \<Rightarrow> proxy_metrics option" where
  "record_forwarded_request h hs downstream upstream method_opt m =
     (let method = (case method_opt of None \<Rightarrow> ''UNKNOWN'' | Some s \<Rightarrow> s) in
      (case (metric_transport_index downstream, metric_method_index method) of
         (Some d, Some i) \<Rightarrow>
           map_option (\<lambda>u. handle_incr h (mh_forwarded_requests hs ! d ! u ! i) m) (sip_transport_metric_index upstream)
       | _ \<Rightarrow> Some (metrics_incr h ''proxy_forwarded_requests_total''
                (forward_labels downstream (sip_transport_as_str upstream) method) m)))"

definition record_forward_error :: "(string \<Rightarrow> nat) \<Rightarrow> metric_handles \<Rightarrow> string \<Rightarrow> proxy_metrics \<Rightarrow> proxy_metrics" where
  "record_forward_error h hs downstream m =
     (case metric_transport_index downstream of
        Some t \<Rightarrow> handle_incr h (mh_forward_errors hs ! t) m
      | None \<Rightarrow> metrics_incr h ''proxy_forward_errors_total'' [(''downstream_transport'', downstream)] m)"

definition record_udp_handler_queue_drop ::
  "(string \<Rightarrow> nat) \<Rightarrow> metric_handles \<Rightarrow> proxy_listener_config \<Rightarrow> proxy_metrics \<Rightarrow> proxy_metrics" where
  "record_udp_handler_queue_drop h hs l m =
     (case hm_get (mh_udp_handler_queue_drops hs) (listener_key l) of
        Some key \<Rightarrow> handle_incr h key m
      | None \<Rightarrow> metrics_incr h ''proxy_udp_handler_queue_drops_total'' [(''listener'', listener_key l)] m)"

definition record_local_response ::
  "(string \<Rightarrow> nat) \<Rightarrow> metric_handles \<Rightarrow> string \<Rightarrow> u16 \<Rightarrow> proxy_metrics \<Rightarrow> proxy_metrics" where
  "record_local_response h hs transport code m =
     (case (metric_transport_index transport, metric_local_response_code_index code) of
        (Some t, Some c) \<Rightarrow> handle_incr h (mh_local_responses hs ! t ! c) m
      | _ \<Rightarrow> metrics_incr h ''sip_local_responses_total'' (local_response_labels transport (dec_str (unat code))) m)"

definition record_upstream_response ::
  "(string \<Rightarrow> nat) \<Rightarrow> metric_handles \<Rightarrow> string \<Rightarrow> u16 \<Rightarrow> proxy_metrics \<Rightarrow> proxy_metrics" where
  "record_upstream_response h hs transport code m =
     (let class = status_class code in
      (case (metric_transport_index transport, metric_status_class_index class) of
         (Some t, Some c) \<Rightarrow> handle_incr h (mh_upstream_responses hs ! t ! c) m
       | _ \<Rightarrow> metrics_incr h ''sip_upstream_responses_total'' (upstream_response_labels transport class) m))"

definition record_affinity_lookup :: "(string \<Rightarrow> nat) \<Rightarrow> metric_handles \<Rightarrow> string \<Rightarrow> proxy_metrics \<Rightarrow> proxy_metrics" where
  "record_affinity_lookup h hs result m =
     (case metric_affinity_lookup_result_index result of
        Some r \<Rightarrow> handle_incr h (mh_affinity_lookups hs ! r) m
      | None \<Rightarrow> metrics_incr h ''proxy_affinity_lookup_total'' [(''result'', result)] m)"

definition record_security_drop ::
  "(string \<Rightarrow> nat) \<Rightarrow> metric_handles \<Rightarrow> proxy_listener_config \<Rightarrow> string \<Rightarrow> proxy_metrics \<Rightarrow> proxy_metrics" where
  "record_security_drop h hs l reason m =
     (case (hm_get (mh_security_drops hs) (listener_key l), metric_security_drop_reason_index reason) of
        (Some handles, Some r) \<Rightarrow> handle_incr h (handles ! r) m
      | _ \<Rightarrow> metrics_incr h ''proxy_security_dropped_packets_total'' (security_drop_labels (listener_key l) reason) m)"

definition record_ha_event_pull :: "(string \<Rightarrow> nat) \<Rightarrow> string \<Rightarrow> proxy_metrics \<Rightarrow> proxy_metrics" where
  "record_ha_event_pull h result m = metrics_incr h ''proxy_ha_event_pulls_total'' [(''result'', result)] m"

definition record_ha_snapshot_pull :: "(string \<Rightarrow> nat) \<Rightarrow> string \<Rightarrow> proxy_metrics \<Rightarrow> proxy_metrics" where
  "record_ha_snapshot_pull h result m = metrics_incr h ''proxy_ha_snapshot_pulls_total'' [(''result'', result)] m"

definition record_ha_snapshot_fallback :: "(string \<Rightarrow> nat) \<Rightarrow> string \<Rightarrow> proxy_metrics \<Rightarrow> proxy_metrics" where
  "record_ha_snapshot_fallback h reason m = metrics_incr h ''proxy_ha_snapshot_fallbacks_total'' [(''reason'', reason)] m"

definition latency_ms :: "duration \<Rightarrow> u64" where
  "latency_ms elapsed = word_of_nat (min (as_millis elapsed) (2 ^ 64 - 1))"

text \<open>The finite buckets an observation falls into, by index.\<close>

definition buckets_hit :: "u64 \<Rightarrow> nat list" where
  "buckets_hit ms = filter (\<lambda>b. unat ms \<le> latency_buckets ! b) [0..<length latency_buckets]"

definition record_upstream_response_latency ::
  "(string \<Rightarrow> nat) \<Rightarrow> metric_handles \<Rightarrow> string \<Rightarrow> sip_transport \<Rightarrow> string \<Rightarrow> duration \<Rightarrow> proxy_metrics
   \<Rightarrow> proxy_metrics option" where
  "record_upstream_response_latency h hs downstream upstream method elapsed m =
     (let ms = latency_ms elapsed in
      (case (metric_transport_index downstream, metric_method_index method) of
         (Some d, Some i) \<Rightarrow>
           map_option (\<lambda>u.
             let m1 = fold (\<lambda>b. handle_incr h (mh_latency_buckets hs ! d ! u ! i ! b)) (buckets_hit ms) m;
                 m2 = handle_incr h (mh_latency_buckets hs ! d ! u ! i ! (length latency_bucket_labels - 1)) m1;
                 m3 = handle_incr h (mh_latency_count hs ! d ! u ! i) m2
             in handle_incr_by h (mh_latency_sum hs ! d ! u ! i) ms m3) (sip_transport_metric_index upstream)
       | _ \<Rightarrow>
           let u = sip_transport_as_str upstream;
               m1 = fold (\<lambda>b. metrics_incr h ''proxy_upstream_response_latency_ms_bucket''
                      (bucket_labels downstream u method (latency_bucket_labels ! b))) (buckets_hit ms) m;
               m2 = metrics_incr h ''proxy_upstream_response_latency_ms_bucket''
                      (bucket_labels downstream u method ''+Inf'') m1;
               m3 = metrics_incr h ''proxy_upstream_response_latency_ms_count'' (forward_labels downstream u method) m2
           in Some (metrics_incr_by h ''proxy_upstream_response_latency_ms_sum'' (forward_labels downstream u method) ms m3)))"


section \<open>Handles name registered counters\<close>

definition registered :: "(string \<Rightarrow> nat) \<Rightarrow> proxy_metrics \<Rightarrow> string \<Rightarrow> bool" where
  "registered h m key \<longleftrightarrow> sharded_get h m key \<noteq> None"

text \<open>\<open>f\<close> builds the value \<open>x\<close>, registers the counters \<open>K\<close> and forgets none.\<close>

definition builds ::
  "(string \<Rightarrow> nat) \<Rightarrow> string set \<Rightarrow> (proxy_metrics \<Rightarrow> 'a \<times> proxy_metrics) \<Rightarrow> 'a \<Rightarrow> bool" where
  "builds h K f x \<longleftrightarrow> (\<forall>m. sharded_inv h m \<longrightarrow> fst (f m) = x \<and> sharded_inv h (snd (f m))
     \<and> (\<forall>k. registered h m k \<longrightarrow> registered h (snd (f m)) k) \<and> (\<forall>k \<in> K. registered h (snd (f m)) k))"

lemma builds_counter: "builds h {counter_key name labels} (counter_arc h name labels) (counter_key name labels)"
  by (auto simp: builds_def counter_arc_def Let_def registered_def sharded_get_insert sharded.inv_insert
      split: option.splits)

lemma builds_array:
  "(\<And>i. i \<in> set is \<Longrightarrow> builds h (K i) (f i) (g i)) \<Longrightarrow> builds h (\<Union>i \<in> set is. K i) (array_fn is f) (map g is)"
proof (induction "is")
  case Nil
  then show ?case by (simp add: builds_def)
next
  case (Cons i "is")
  have 1: "builds h (K i) (f i) (g i)" and 2: "builds h (\<Union>i \<in> set is. K i) (array_fn is f) (map g is)"
    using Cons by auto
  show ?case unfolding builds_def
  proof (intro allI impI)
    fix m :: proxy_metrics assume m: "sharded_inv h m"
    obtain x m1 where f: "f i m = (x, m1)" by fastforce
    obtain xs m2 where r: "array_fn is f m1 = (xs, m2)" by fastforce
    have a: "x = g i" "sharded_inv h m1" "\<forall>k. registered h m k \<longrightarrow> registered h m1 k" "\<forall>k \<in> K i. registered h m1 k"
      using 1 m unfolding builds_def by (force simp: f)+
    have b: "xs = map g is" "sharded_inv h m2" "\<forall>k. registered h m1 k \<longrightarrow> registered h m2 k"
      "\<forall>k \<in> \<Union>i \<in> set is. K i. registered h m2 k"
      using 2 a(2) unfolding builds_def by (force simp: r)+
    show "fst (array_fn (i # is) f m) = map g (i # is) \<and> sharded_inv h (snd (array_fn (i # is) f m))
      \<and> (\<forall>k. registered h m k \<longrightarrow> registered h (snd (array_fn (i # is) f m)) k)
      \<and> (\<forall>k \<in> \<Union>i \<in> set (i # is). K i. registered h (snd (array_fn (i # is) f m)) k)"
      using a b by (auto simp: f r)
  qed
qed

lemma builds_step:
  assumes "builds h K f x" "sharded_inv h m" "f m = (y, m')"
  shows "y = x" "sharded_inv h m'" "\<And>k. registered h m k \<Longrightarrow> registered h m' k" "\<And>k. k \<in> K \<Longrightarrow> registered h m' k"
  using assms unfolding builds_def by (metis fst_conv snd_conv)+

definition handle_for :: "(string \<Rightarrow> nat) \<Rightarrow> proxy_metrics \<Rightarrow> string \<Rightarrow> string \<Rightarrow> labels \<Rightarrow> bool" where
  "handle_for h m key name labels \<longleftrightarrow> key = counter_key name labels \<and> registered h m key"

definition by_route_for :: "(string \<Rightarrow> nat) \<Rightarrow> proxy_metrics \<Rightarrow> string list list list \<Rightarrow> string \<Rightarrow> bool" where
  "by_route_for h m tbl name \<longleftrightarrow> (\<forall>d < length metric_transports. \<forall>u < length metric_transports.
     \<forall>i < length metric_methods. handle_for h m (tbl ! d ! u ! i) name
       (forward_labels (metric_transports ! d) (metric_transports ! u) (metric_methods ! i)))"

definition pair_for ::
  "(string \<Rightarrow> nat) \<Rightarrow> proxy_metrics \<Rightarrow> string list list \<Rightarrow> string list \<Rightarrow> string \<Rightarrow> (string \<Rightarrow> string \<Rightarrow> labels) \<Rightarrow> bool" where
  "pair_for h m tbl values name lab \<longleftrightarrow> (\<forall>t < length metric_transports. \<forall>i < length values.
     handle_for h m (tbl ! t ! i) name (lab (metric_transports ! t) (values ! i)))"

definition handles_ok :: "(string \<Rightarrow> nat) \<Rightarrow> metric_handles \<Rightarrow> proxy_metrics \<Rightarrow> bool" where
  "handles_ok h hs m \<longleftrightarrow> sharded_inv h m
     \<and> pair_for h m (mh_sip_requests hs) metric_methods ''sip_requests_total'' sip_request_labels
     \<and> by_route_for h m (mh_forwarded_requests hs) ''proxy_forwarded_requests_total''
     \<and> (\<forall>t < length metric_transports. handle_for h m (mh_forward_errors hs ! t) ''proxy_forward_errors_total''
          [(''downstream_transport'', metric_transports ! t)])
     \<and> pair_for h m (mh_local_responses hs) metric_local_response_code_labels ''sip_local_responses_total''
          local_response_labels
     \<and> pair_for h m (mh_upstream_responses hs) metric_status_classes ''sip_upstream_responses_total''
          upstream_response_labels
     \<and> (\<forall>r < length metric_affinity_lookup_results. handle_for h m (mh_affinity_lookups hs ! r)
          ''proxy_affinity_lookup_total'' [(''result'', metric_affinity_lookup_results ! r)])
     \<and> (\<forall>l handles. hm_get (mh_security_drops hs) l = Some handles \<longrightarrow>
          (\<forall>r < length metric_security_drop_reasons. handle_for h m (handles ! r)
             ''proxy_security_dropped_packets_total'' (security_drop_labels l (metric_security_drop_reasons ! r))))
     \<and> (\<forall>l key. hm_get (mh_udp_handler_queue_drops hs) l = Some key \<longrightarrow>
          handle_for h m key ''proxy_udp_handler_queue_drops_total'' [(''listener'', l)])
     \<and> (\<forall>d < length metric_transports. \<forall>u < length metric_transports. \<forall>i < length metric_methods.
          \<forall>b < length latency_bucket_labels. handle_for h m (mh_latency_buckets hs ! d ! u ! i ! b)
            ''proxy_upstream_response_latency_ms_bucket''
            (bucket_labels (metric_transports ! d) (metric_transports ! u) (metric_methods ! i) (latency_bucket_labels ! b)))
     \<and> by_route_for h m (mh_latency_count hs) ''proxy_upstream_response_latency_ms_count''
     \<and> by_route_for h m (mh_latency_sum hs) ''proxy_upstream_response_latency_ms_sum''"

text \<open>More counters do no harm.\<close>

definition grown :: "(string \<Rightarrow> nat) \<Rightarrow> proxy_metrics \<Rightarrow> proxy_metrics \<Rightarrow> bool" where
  "grown h m m' \<longleftrightarrow> sharded_inv h m' \<and> (\<forall>k. registered h m k \<longrightarrow> registered h m' k)"

lemma handle_for_grown: "handle_for h m key name labels \<Longrightarrow> grown h m m' \<Longrightarrow> handle_for h m' key name labels"
  by (auto simp: handle_for_def grown_def)

lemma by_route_grown: "by_route_for h m tbl name \<Longrightarrow> grown h m m' \<Longrightarrow> by_route_for h m' tbl name"
  using handle_for_grown unfolding by_route_for_def by blast

lemma pair_for_grown: "pair_for h m tbl values name lab \<Longrightarrow> grown h m m' \<Longrightarrow> pair_for h m' tbl values name lab"
  using handle_for_grown unfolding pair_for_def by blast

lemma handles_ok_grown: "handles_ok h hs m \<Longrightarrow> grown h m m' \<Longrightarrow> handles_ok h hs m'"
  unfolding handles_ok_def
  by (intro conjI; (elim conjE)?)
    (blast intro: handle_for_grown by_route_grown pair_for_grown | simp add: grown_def)+

lemma grown_trans: "grown h m m1 \<Longrightarrow> grown h m1 m2 \<Longrightarrow> grown h m m2"
  by (simp add: grown_def)

lemma builds_grown: "builds h K f x \<Longrightarrow> sharded_inv h m \<Longrightarrow> f m = (y, m') \<Longrightarrow> grown h m m'"
  using builds_step [of h K f x m y m'] by (simp add: grown_def)

lemma builds_1:
  assumes "sharded_inv h m" "array_fn [0..<n] (\<lambda>i. counter_arc h name (lab i)) m = (xs, m')"
  shows "grown h m m'" "\<And>i. i < n \<Longrightarrow> handle_for h m' (xs ! i) name (lab i)"
proof -
  have b: "builds h (\<Union>i \<in> set [0..<n]. {counter_key name (lab i)}) (array_fn [0..<n] (\<lambda>i. counter_arc h name (lab i)))
      (map (\<lambda>i. counter_key name (lab i)) [0..<n])" by (intro builds_array builds_counter)
  show "grown h m m'" by (rule builds_grown [OF b assms])
  show "handle_for h m' (xs ! i) name (lab i)" if "i < n" for i
    using that builds_step(1) [OF b assms] by (simp add: handle_for_def) (rule builds_step(4) [OF b assms], force)
qed

lemma builds_2:
  assumes "sharded_inv h m" "array_fn [0..<n] (\<lambda>t. array_fn [0..<k] (\<lambda>i. counter_arc h name (lab t i))) m = (xs, m')"
  shows "grown h m m'" "\<And>t i. t < n \<Longrightarrow> i < k \<Longrightarrow> handle_for h m' (xs ! t ! i) name (lab t i)"
proof -
  have b: "builds h (\<Union>t \<in> set [0..<n]. \<Union>i \<in> set [0..<k]. {counter_key name (lab t i)})
      (array_fn [0..<n] (\<lambda>t. array_fn [0..<k] (\<lambda>i. counter_arc h name (lab t i))))
      (map (\<lambda>t. map (\<lambda>i. counter_key name (lab t i)) [0..<k]) [0..<n])" by (intro builds_array builds_counter)
  show "grown h m m'" by (rule builds_grown [OF b assms])
  show "handle_for h m' (xs ! t ! i) name (lab t i)" if "t < n" "i < k" for t i
    using that builds_step(1) [OF b assms] by (simp add: handle_for_def) (rule builds_step(4) [OF b assms], force)
qed

lemma builds_3:
  assumes "sharded_inv h m"
    and "array_fn [0..<n] (\<lambda>d. array_fn [0..<k] (\<lambda>u. array_fn [0..<j] (\<lambda>i. counter_arc h name (lab d u i)))) m = (xs, m')"
  shows "grown h m m'" "\<And>d u i. d < n \<Longrightarrow> u < k \<Longrightarrow> i < j \<Longrightarrow> handle_for h m' (xs ! d ! u ! i) name (lab d u i)"
proof -
  have b: "builds h (\<Union>d \<in> set [0..<n]. \<Union>u \<in> set [0..<k]. \<Union>i \<in> set [0..<j]. {counter_key name (lab d u i)})
      (array_fn [0..<n] (\<lambda>d. array_fn [0..<k] (\<lambda>u. array_fn [0..<j] (\<lambda>i. counter_arc h name (lab d u i)))))
      (map (\<lambda>d. map (\<lambda>u. map (\<lambda>i. counter_key name (lab d u i)) [0..<j]) [0..<k]) [0..<n])"
    by (intro builds_array builds_counter)
  show "grown h m m'" by (rule builds_grown [OF b assms])
  show "handle_for h m' (xs ! d ! u ! i) name (lab d u i)" if "d < n" "u < k" "i < j" for d u i
    using that builds_step(1) [OF b assms] by (simp add: handle_for_def) (rule builds_step(4) [OF b assms], force)
qed

lemma builds_4:
  assumes "sharded_inv h m"
    and "array_fn [0..<n] (\<lambda>d. array_fn [0..<k] (\<lambda>u. array_fn [0..<j] (\<lambda>i. array_fn [0..<l] (\<lambda>b.
           counter_arc h name (lab d u i b))))) m = (xs, m')"
  shows "grown h m m'"
    "\<And>d u i b. d < n \<Longrightarrow> u < k \<Longrightarrow> i < j \<Longrightarrow> b < l \<Longrightarrow> handle_for h m' (xs ! d ! u ! i ! b) name (lab d u i b)"
proof -
  have b: "builds h (\<Union>d \<in> set [0..<n]. \<Union>u \<in> set [0..<k]. \<Union>i \<in> set [0..<j]. \<Union>b \<in> set [0..<l]. {counter_key name (lab d u i b)})
      (array_fn [0..<n] (\<lambda>d. array_fn [0..<k] (\<lambda>u. array_fn [0..<j] (\<lambda>i. array_fn [0..<l] (\<lambda>b.
         counter_arc h name (lab d u i b))))))
      (map (\<lambda>d. map (\<lambda>u. map (\<lambda>i. map (\<lambda>b. counter_key name (lab d u i b)) [0..<l]) [0..<j]) [0..<k]) [0..<n])"
    by (intro builds_array builds_counter)
  show "grown h m m'" by (rule builds_grown [OF b assms])
  show "handle_for h m' (xs ! d ! u ! i ! b) name (lab d u i b)" if "d < n" "u < k" "i < j" "b < l" for d u i b
    using that builds_step(1) [OF b assms] by (simp add: handle_for_def) (rule builds_step(4) [OF b assms], force)
qed

definition listener_tables_ok ::
  "(string \<Rightarrow> nat) \<Rightarrow> (string, string list) hmap \<Rightarrow> (string, string) hmap \<Rightarrow> proxy_metrics \<Rightarrow> bool" where
  "listener_tables_ok h drops queue m \<longleftrightarrow> sharded_inv h m
     \<and> (\<forall>l handles. hm_get drops l = Some handles \<longrightarrow>
          (\<forall>r < length metric_security_drop_reasons. handle_for h m (handles ! r)
             ''proxy_security_dropped_packets_total'' (security_drop_labels l (metric_security_drop_reasons ! r))))
     \<and> (\<forall>l key. hm_get queue l = Some key \<longrightarrow>
          handle_for h m key ''proxy_udp_handler_queue_drops_total'' [(''listener'', l)])"

lemma listener_tables_grown:
  "listener_tables_ok h drops queue m \<Longrightarrow> grown h m m' \<Longrightarrow> listener_tables_ok h drops queue m'"
  unfolding listener_tables_ok_def by (blast intro: handle_for_grown dest: grown_def [THEN iffD1, THEN conjunct1])

lemma listener_handles_ok:
  assumes "listener_tables_ok h drops queue m" "listener_handles h key (drops, queue, m) = (drops', queue', m')"
  shows "listener_tables_ok h drops' queue' m'"
proof -
  obtain hs m1 where 1: "array_fn [0..<length metric_security_drop_reasons] (\<lambda>reason. counter_arc h
      ''proxy_security_dropped_packets_total'' (security_drop_labels key (metric_security_drop_reasons ! reason))) m = (hs, m1)"
    by fastforce
  obtain q where 2: "counter_arc h ''proxy_udp_handler_queue_drops_total'' [(''listener'', key)] m1 = (q, m')"
    and d: "drops' = hm_insert key hs drops" "queue' = hm_insert key q queue"
    using assms(2) 1 by (auto simp: listener_handles_def split: prod.splits)
  have inv: "sharded_inv h m" using assms(1) by (simp add: listener_tables_ok_def)
  note b1 = builds_1 [OF inv 1]
  have inv1: "sharded_inv h m1" using b1(1) by (simp add: grown_def)
  note b2 = builds_step [OF builds_counter inv1 2] and g2 = builds_grown [OF builds_counter inv1 2]
  have q: "handle_for h m' q ''proxy_udp_handler_queue_drops_total'' [(''listener'', key)]"
    using b2(1,4) by (auto simp: handle_for_def)
  note old = listener_tables_grown [OF assms(1) grown_trans [OF b1(1) g2]]
  show ?thesis unfolding listener_tables_ok_def d
    using old q handle_for_grown [OF b1(2) g2] by (auto simp: listener_tables_ok_def hm_get_insert split: if_splits)
qed

lemma listener_fold_ok:
  "listener_tables_ok h drops queue m \<Longrightarrow> fold (listener_handles h) keys (drops, queue, m) = (drops', queue', m')
   \<Longrightarrow> listener_tables_ok h drops' queue' m'"
proof (induction keys arbitrary: drops queue m)
  case (Cons key keys)
  then show ?case using listener_handles_ok by (cases "listener_handles h key (drops, queue, m)") fastforce
qed simp


lemma handles_ok_new:
  assumes "metric_handles_new h px metrics_new = (hs, m)"
  shows "handles_ok h hs m"
proof -
  let ?ts = "[0..<length metric_transports]" and ?ms = "[0..<length metric_methods]"
  let ?route = "\<lambda>name. array_fn ?ts (\<lambda>d. array_fn ?ts (\<lambda>u. array_fn ?ms (\<lambda>i.
    counter_arc h name (forward_labels (metric_transports ! d) (metric_transports ! u) (metric_methods ! i)))))"
  obtain drops queue m1 where 1: "fold (listener_handles h) (map listener_key (concat (map concrete_listeners (px_listeners px))))
      (hm_empty, hm_empty, metrics_new) = (drops, queue, m1)" by (metis prod_cases3)
  obtain sip m2 where 2: "array_fn ?ts (\<lambda>t. array_fn ?ms (\<lambda>i. counter_arc h ''sip_requests_total''
      (sip_request_labels (metric_transports ! t) (metric_methods ! i)))) m1 = (sip, m2)" by fastforce
  obtain fw m3 where 3: "?route ''proxy_forwarded_requests_total'' m2 = (fw, m3)" by fastforce
  obtain er m4 where 4: "array_fn ?ts (\<lambda>t. counter_arc h ''proxy_forward_errors_total''
      [(''downstream_transport'', metric_transports ! t)]) m3 = (er, m4)" by fastforce
  obtain lo m5 where 5: "array_fn ?ts (\<lambda>t. array_fn [0..<length metric_local_response_code_labels] (\<lambda>c.
      counter_arc h ''sip_local_responses_total''
        (local_response_labels (metric_transports ! t) (metric_local_response_code_labels ! c)))) m4 = (lo, m5)" by fastforce
  obtain re m6 where 6: "array_fn ?ts (\<lambda>t. array_fn [0..<length metric_status_classes] (\<lambda>c.
      counter_arc h ''sip_upstream_responses_total''
        (upstream_response_labels (metric_transports ! t) (metric_status_classes ! c)))) m5 = (re, m6)" by fastforce
  obtain af m7 where 7: "array_fn [0..<length metric_affinity_lookup_results] (\<lambda>r.
      counter_arc h ''proxy_affinity_lookup_total'' [(''result'', metric_affinity_lookup_results ! r)]) m6 = (af, m7)" by fastforce
  obtain bu m8 where 8: "array_fn ?ts (\<lambda>d. array_fn ?ts (\<lambda>u. array_fn ?ms (\<lambda>i.
      array_fn [0..<length latency_bucket_labels] (\<lambda>b. counter_arc h ''proxy_upstream_response_latency_ms_bucket''
        (bucket_labels (metric_transports ! d) (metric_transports ! u) (metric_methods ! i)
           (latency_bucket_labels ! b)))))) m7 = (bu, m8)" by fastforce
  obtain co m9 where 9: "?route ''proxy_upstream_response_latency_ms_count'' m8 = (co, m9)" by fastforce
  obtain su m10 where 10: "?route ''proxy_upstream_response_latency_ms_sum'' m9 = (su, m10)" by fastforce
  have hs: "hs = \<lparr>mh_sip_requests = sip, mh_forwarded_requests = fw, mh_forward_errors = er,
        mh_local_responses = lo, mh_upstream_responses = re, mh_affinity_lookups = af,
        mh_security_drops = drops, mh_udp_handler_queue_drops = queue, mh_latency_buckets = bu,
        mh_latency_count = co, mh_latency_sum = su\<rparr>" and m: "m = m10"
    using assms by (simp_all add: metric_handles_new_def Let_def 1 2 3 4 5 6 7 8 9 10)
  have t: "listener_tables_ok h drops queue m1"
    by (rule listener_fold_ok [OF _ 1]) (simp add: listener_tables_ok_def metrics_new_def sharded_inv_new)
  then have i1: "sharded_inv h m1" by (simp add: listener_tables_ok_def)
  note b2 = builds_2 [OF i1 2] then have i2: "sharded_inv h m2" by (simp add: grown_def)
  note b3 = builds_3 [OF i2 3] then have i3: "sharded_inv h m3" by (simp add: grown_def)
  note b4 = builds_1 [OF i3 4] then have i4: "sharded_inv h m4" by (simp add: grown_def)
  note b5 = builds_2 [OF i4 5] then have i5: "sharded_inv h m5" by (simp add: grown_def)
  note b6 = builds_2 [OF i5 6] then have i6: "sharded_inv h m6" by (simp add: grown_def)
  note b7 = builds_1 [OF i6 7] then have i7: "sharded_inv h m7" by (simp add: grown_def)
  note b8 = builds_4 [OF i7 8] then have i8: "sharded_inv h m8" by (simp add: grown_def)
  note b9 = builds_3 [OF i8 9] then have i9: "sharded_inv h m9" by (simp add: grown_def)
  note b10 = builds_3 [OF i9 10] then have i10: "sharded_inv h m10" by (simp add: grown_def)
  note g9 = b10(1) note g8 = grown_trans [OF b9(1) g9] note g7 = grown_trans [OF b8(1) g8]
  note g6 = grown_trans [OF b7(1) g7] note g5 = grown_trans [OF b6(1) g6] note g4 = grown_trans [OF b5(1) g5]
  note g3 = grown_trans [OF b4(1) g4] note g2 = grown_trans [OF b3(1) g3] note g1 = grown_trans [OF b2(1) g2]
  show ?thesis unfolding handles_ok_def hs m
    using i10 handle_for_grown [OF b2(2) g2] handle_for_grown [OF b3(2) g3] handle_for_grown [OF b4(2) g4]
      handle_for_grown [OF b5(2) g5] handle_for_grown [OF b6(2) g6] handle_for_grown [OF b7(2) g7]
      handle_for_grown [OF b8(2) g8] handle_for_grown [OF b9(2) g9] b10(2) listener_tables_grown [OF t g1]
    by (simp add: pair_for_def by_route_for_def listener_tables_ok_def)
qed

section \<open>Recording by handle and by name agree\<close>

lemma incr_registered:
  "registered h m (counter_key name labels) \<Longrightarrow>
   metrics_incr_by h name labels v m = handle_incr_by h (counter_key name labels) v m"
  by (auto simp: metrics_incr_by_def counter_arc_def registered_def Let_def)

lemma handle_incr_named:
  "handle_for h m key name labels \<Longrightarrow> handle_incr h key m = metrics_incr h name labels m"
  "handle_for h m key name labels \<Longrightarrow> handle_incr_by h key v m = metrics_incr_by h name labels v m"
  by (auto simp: handle_for_def handle_incr_def metrics_incr_def incr_registered)

lemma transport_index_label:
  "metric_transport_index t = Some i \<Longrightarrow> i < length metric_transports \<and> t = metric_transports ! i"
  by (auto simp: metric_transport_index_def metric_transports_def split: if_splits)

lemma sip_transport_index_label:
  "sip_transport_metric_index t = Some i \<Longrightarrow> i < length metric_transports \<and> sip_transport_as_str t = metric_transports ! i"
  by (cases t) (auto simp: metric_transports_def)

lemma method_index_label:
  "metric_method_index s = Some i \<Longrightarrow> i < length metric_methods \<and> s = metric_methods ! i"
  by (auto simp: metric_method_index_def metric_methods_def split: if_splits)

lemma status_class_index_label:
  "metric_status_class_index s = Some i \<Longrightarrow> i < length metric_status_classes \<and> s = metric_status_classes ! i"
  by (auto simp: metric_status_class_index_def metric_status_classes_def split: if_splits)

lemma code_texts: "dec_str 400 = ''400''" "dec_str 403 = ''403''" "dec_str 483 = ''483''" "dec_str 503 = ''503''"
  by code_simp+

lemma code_label:
  "metric_local_response_code_index code = Some i \<Longrightarrow>
   i < length metric_local_response_code_labels \<and> dec_str (unat code) = metric_local_response_code_labels ! i"
  by (auto simp: metric_local_response_code_index_def metric_local_response_code_labels_def code_texts split: if_splits)

lemma affinity_result_label:
  "metric_affinity_lookup_result_index s = Some i \<Longrightarrow>
   i < length metric_affinity_lookup_results \<and> s = metric_affinity_lookup_results ! i"
  by (auto simp: metric_affinity_lookup_result_index_def metric_affinity_lookup_results_def split: if_splits)

lemma drop_reason_label:
  "metric_security_drop_reason_index s = Some i \<Longrightarrow>
   i < length metric_security_drop_reasons \<and> s = metric_security_drop_reasons ! i"
  by (auto simp: metric_security_drop_reason_index_def metric_security_drop_reasons_def split: if_splits)


lemma record_sip_request_named:
  "handles_ok h hs m \<Longrightarrow> record_sip_request h hs transport method m =
     metrics_incr h ''sip_requests_total'' (sip_request_labels transport method) m"
  by (auto simp: record_sip_request_def handles_ok_def pair_for_def dest!: transport_index_label method_index_label
      intro!: handle_incr_named split: option.splits)

lemma record_forwarded_request_named:
  "handles_ok h hs m \<Longrightarrow> record_forwarded_request h hs downstream upstream method m = Some m' \<Longrightarrow> m' =
     metrics_incr h ''proxy_forwarded_requests_total'' (forward_labels downstream (sip_transport_as_str upstream)
       (case method of None \<Rightarrow> ''UNKNOWN'' | Some s \<Rightarrow> s)) m"
  by (auto simp: record_forwarded_request_def handles_ok_def by_route_for_def Let_def
      dest!: transport_index_label method_index_label sip_transport_index_label
      intro!: handle_incr_named split: option.splits)

lemma record_forward_error_named:
  "handles_ok h hs m \<Longrightarrow> record_forward_error h hs downstream m =
     metrics_incr h ''proxy_forward_errors_total'' [(''downstream_transport'', downstream)] m"
  by (auto simp: record_forward_error_def handles_ok_def dest!: transport_index_label
      intro!: handle_incr_named split: option.splits)

lemma record_udp_handler_queue_drop_named:
  "handles_ok h hs m \<Longrightarrow> record_udp_handler_queue_drop h hs l m =
     metrics_incr h ''proxy_udp_handler_queue_drops_total'' [(''listener'', listener_key l)] m"
  by (auto simp: record_udp_handler_queue_drop_def handles_ok_def intro!: handle_incr_named split: option.splits)

lemma record_local_response_named:
  "handles_ok h hs m \<Longrightarrow> record_local_response h hs transport code m =
     metrics_incr h ''sip_local_responses_total'' (local_response_labels transport (dec_str (unat code))) m"
  by (auto simp: record_local_response_def handles_ok_def pair_for_def dest!: transport_index_label code_label
      intro!: handle_incr_named split: option.splits)

lemma record_upstream_response_named:
  "handles_ok h hs m \<Longrightarrow> record_upstream_response h hs transport code m =
     metrics_incr h ''sip_upstream_responses_total'' (upstream_response_labels transport (status_class code)) m"
  by (auto simp: record_upstream_response_def handles_ok_def pair_for_def Let_def
      dest!: transport_index_label status_class_index_label intro!: handle_incr_named split: option.splits)

lemma record_affinity_lookup_named:
  "handles_ok h hs m \<Longrightarrow> record_affinity_lookup h hs result m =
     metrics_incr h ''proxy_affinity_lookup_total'' [(''result'', result)] m"
  by (auto simp: record_affinity_lookup_def handles_ok_def dest!: affinity_result_label
      intro!: handle_incr_named split: option.splits)

lemma record_security_drop_named:
  "handles_ok h hs m \<Longrightarrow> record_security_drop h hs l reason m =
     metrics_incr h ''proxy_security_dropped_packets_total'' (security_drop_labels (listener_key l) reason) m"
  by (auto simp: record_security_drop_def handles_ok_def dest!: drop_reason_label
      intro!: handle_incr_named split: option.splits)

lemma sharded_get_incr_by:
  assumes "sharded_inv h m"
  shows "sharded_inv h (handle_incr_by h key v m)"
    "sharded_get h (handle_incr_by h key v m) k =
       (if k = key then map_option (\<lambda>c. c\<lparr>co_value := co_value c + v\<rparr>) (sharded_get h m k) else sharded_get h m k)"
  using assms by (auto simp: handle_incr_by_def sharded_get_insert sharded.inv_insert split: option.splits)

lemma grown_metrics_incr_by: "sharded_inv h m \<Longrightarrow> grown h m (metrics_incr_by h name labels v m)"
  by (auto simp: metrics_incr_by_def counter_arc_def Let_def grown_def registered_def sharded_get_insert
      sharded.inv_insert sharded_get_incr_by split: option.splits)

definition metric_value :: "(string \<Rightarrow> nat) \<Rightarrow> proxy_metrics \<Rightarrow> string \<Rightarrow> u64" where
  "metric_value h m key = (case sharded_get h m key of None \<Rightarrow> 0 | Some c \<Rightarrow> co_value c)"

lemma metric_value_incr:
  "sharded_inv h m \<Longrightarrow> metric_value h (metrics_incr_by h name labels v m) k =
     metric_value h m k + (if k = counter_key name labels then v else 0)"
  by (auto simp: metric_value_def metrics_incr_by_def counter_arc_def Let_def sharded_get_insert
      sharded.inv_insert sharded_get_incr_by split: option.splits)


section \<open>Sequences of recordings\<close>

datatype metric_event =
    EvSipRequest string string
  | EvForwarded string sip_transport "string option"
  | EvForwardError string
  | EvQueueDrop proxy_listener_config
  | EvLocalResponse string u16
  | EvUpstreamResponse string u16
  | EvLatency string sip_transport string duration
  | EvAffinityLookup string
  | EvSecurityDrop proxy_listener_config string
  | EvHaEventPull string
  | EvHaSnapshotPull string
  | EvHaSnapshotFallback string

fun record_event :: "(string \<Rightarrow> nat) \<Rightarrow> metric_handles \<Rightarrow> metric_event \<Rightarrow> proxy_metrics \<Rightarrow> proxy_metrics option" where
  "record_event h hs (EvSipRequest t s) m = Some (record_sip_request h hs t s m)"
| "record_event h hs (EvForwarded d u s) m = record_forwarded_request h hs d u s m"
| "record_event h hs (EvForwardError d) m = Some (record_forward_error h hs d m)"
| "record_event h hs (EvQueueDrop l) m = Some (record_udp_handler_queue_drop h hs l m)"
| "record_event h hs (EvLocalResponse t c) m = Some (record_local_response h hs t c m)"
| "record_event h hs (EvUpstreamResponse t c) m = Some (record_upstream_response h hs t c m)"
| "record_event h hs (EvLatency d u s e) m = record_upstream_response_latency h hs d u s e m"
| "record_event h hs (EvAffinityLookup r) m = Some (record_affinity_lookup h hs r m)"
| "record_event h hs (EvSecurityDrop l r) m = Some (record_security_drop h hs l r m)"
| "record_event h hs (EvHaEventPull r) m = Some (record_ha_event_pull h r m)"
| "record_event h hs (EvHaSnapshotPull r) m = Some (record_ha_snapshot_pull h r m)"
| "record_event h hs (EvHaSnapshotFallback r) m = Some (record_ha_snapshot_fallback h r m)"

fun record_events :: "(string \<Rightarrow> nat) \<Rightarrow> metric_handles \<Rightarrow> metric_event list \<Rightarrow> proxy_metrics \<Rightarrow> proxy_metrics option" where
  "record_events h hs [] m = Some m"
| "record_events h hs (e # es) m = Option.bind (record_event h hs e m) (record_events h hs es)"

text \<open>What an event means: the counters it adds to, each by name and labels, and how much.\<close>

fun event_counts :: "metric_event \<Rightarrow> (string \<times> labels \<times> u64) list" where
  "event_counts (EvSipRequest t s) = [(''sip_requests_total'', sip_request_labels t s, 1)]"
| "event_counts (EvForwarded d u s) = [(''proxy_forwarded_requests_total'',
     forward_labels d (sip_transport_as_str u) (case s of None \<Rightarrow> ''UNKNOWN'' | Some x \<Rightarrow> x), 1)]"
| "event_counts (EvForwardError d) = [(''proxy_forward_errors_total'', [(''downstream_transport'', d)], 1)]"
| "event_counts (EvQueueDrop l) = [(''proxy_udp_handler_queue_drops_total'', [(''listener'', listener_key l)], 1)]"
| "event_counts (EvLocalResponse t c) = [(''sip_local_responses_total'', local_response_labels t (dec_str (unat c)), 1)]"
| "event_counts (EvUpstreamResponse t c) =
     [(''sip_upstream_responses_total'', upstream_response_labels t (status_class c), 1)]"
| "event_counts (EvLatency d u s e) =
     map (\<lambda>b. (''proxy_upstream_response_latency_ms_bucket'',
            bucket_labels d (sip_transport_as_str u) s (latency_bucket_labels ! b), 1)) (buckets_hit (latency_ms e))
     @ [(''proxy_upstream_response_latency_ms_bucket'', bucket_labels d (sip_transport_as_str u) s ''+Inf'', 1),
        (''proxy_upstream_response_latency_ms_count'', forward_labels d (sip_transport_as_str u) s, 1),
        (''proxy_upstream_response_latency_ms_sum'', forward_labels d (sip_transport_as_str u) s, latency_ms e)]"
| "event_counts (EvAffinityLookup r) = [(''proxy_affinity_lookup_total'', [(''result'', r)], 1)]"
| "event_counts (EvSecurityDrop l r) =
     [(''proxy_security_dropped_packets_total'', security_drop_labels (listener_key l) r, 1)]"
| "event_counts (EvHaEventPull r) = [(''proxy_ha_event_pulls_total'', [(''result'', r)], 1)]"
| "event_counts (EvHaSnapshotPull r) = [(''proxy_ha_snapshot_pulls_total'', [(''result'', r)], 1)]"
| "event_counts (EvHaSnapshotFallback r) = [(''proxy_ha_snapshot_fallbacks_total'', [(''reason'', r)], 1)]"

definition add_counts :: "(string \<Rightarrow> nat) \<Rightarrow> (string \<times> labels \<times> u64) list \<Rightarrow> proxy_metrics \<Rightarrow> proxy_metrics" where
  "add_counts h cs m = fold (\<lambda>(name, labels, v). metrics_incr_by h name labels v) cs m"

definition counted :: "(string \<times> labels \<times> u64) list \<Rightarrow> string \<Rightarrow> u64" where
  "counted cs k = sum_list (map (\<lambda>(name, labels, v). if k = counter_key name labels then v else 0) cs)"

lemma add_counts_simps [simp]:
  "add_counts h [] m = m"
  "add_counts h (c # cs) m = add_counts h cs (metrics_incr_by h (fst c) (fst (snd c)) (snd (snd c)) m)"
  "add_counts h (cs @ ds) m = add_counts h ds (add_counts h cs m)"
  by (simp_all add: add_counts_def split_beta)

lemma add_counts_grown: "sharded_inv h m \<Longrightarrow> grown h m (add_counts h cs m)"
proof (induction cs arbitrary: m)
  case Nil
  then show ?case by (simp add: grown_def)
next
  case (Cons c cs)
  have g: "grown h m (metrics_incr_by h (fst c) (fst (snd c)) (snd (snd c)) m)" (is "grown h m ?m")
    by (rule grown_metrics_incr_by [OF Cons.prems])
  then show ?case using grown_trans [OF g Cons.IH [of ?m]] by (simp add: grown_def)
qed

lemma add_counts_value:
  "sharded_inv h m \<Longrightarrow> metric_value h (add_counts h cs m) k = metric_value h m k + counted cs k"
proof (induction cs arbitrary: m)
  case (Cons c cs)
  have "sharded_inv h (metrics_incr_by h (fst c) (fst (snd c)) (snd (snd c)) m)"
    using grown_metrics_incr_by [OF Cons.prems] by (simp add: grown_def)
  then show ?case using Cons by (simp add: counted_def metric_value_incr split_beta)
qed (simp add: counted_def)

lemma fold_handles_named:
  assumes "\<And>m' b. grown h m m' \<Longrightarrow> b \<in> set bs \<Longrightarrow> handle_for h m' (key b) name (lab b)" "sharded_inv h m"
  shows "fold (\<lambda>b. handle_incr h (key b)) bs m = add_counts h (map (\<lambda>b. (name, lab b, 1)) bs) m"
  using assms
proof (induction bs arbitrary: m)
  case (Cons b bs)
  have g: "grown h m (metrics_incr_by h name (lab b) 1 m)" (is "grown h m ?m")
    by (rule grown_metrics_incr_by [OF Cons.prems(2)])
  have "grown h m m" using Cons.prems(2) by (simp add: grown_def)
  then have "handle_incr h (key b) m = ?m" using handle_incr_named(1) [OF Cons.prems(1)] by (simp add: metrics_incr_def)
  moreover have "fold (\<lambda>b. handle_incr h (key b)) bs ?m = add_counts h (map (\<lambda>b. (name, lab b, 1)) bs) ?m"
  proof (rule Cons.IH)
    show "handle_for h m' (key b') name (lab b')" if "grown h ?m m'" "b' \<in> set bs" for m' b'
      using Cons.prems(1) [OF grown_trans [OF g that(1)]] that(2) by simp
    show "sharded_inv h ?m" using g by (simp add: grown_def)
  qed
  ultimately show ?case by simp
qed simp

lemma fold_incr_named:
  "fold (\<lambda>b. metrics_incr h name (lab b)) bs m = add_counts h (map (\<lambda>b. (name, lab b, 1)) bs) m"
  by (induction bs arbitrary: m) (simp_all add: metrics_incr_def)


lemma record_latency_named:
  assumes "handles_ok h hs m" "record_upstream_response_latency h hs d u s e m = Some m'"
  shows "m' = add_counts h (event_counts (EvLatency d u s e)) m"
proof (cases "\<exists>di i. metric_transport_index d = Some di \<and> metric_method_index s = Some i")
  case False
  then show ?thesis using assms(2)
    by (auto simp: record_upstream_response_latency_def Let_def fold_incr_named metrics_incr_def split: option.splits)
next
  case True
  then obtain di i where ix: "metric_transport_index d = Some di" "metric_method_index s = Some i" by blast
  with assms(2) obtain ui where ui: "sip_transport_metric_index u = Some ui"
    by (auto simp: record_upstream_response_latency_def Let_def)
  note labs = transport_index_label [OF ix(1)] method_index_label [OF ix(2)] sip_transport_index_label [OF ui]
  have inv: "sharded_inv h m" using assms(1) by (simp add: handles_ok_def)
  let ?ms = "latency_ms e" and ?u = "sip_transport_as_str u"
  have bucket: "handle_for h m' (mh_latency_buckets hs ! di ! ui ! i ! b) ''proxy_upstream_response_latency_ms_bucket''
      (bucket_labels d ?u s (latency_bucket_labels ! b))" if "grown h m m'" "b < length latency_bucket_labels" for m' b
    using handles_ok_grown [OF assms(1) that(1)] that(2) labs by (simp add: handles_ok_def)
  have route: "handle_for h m' (mh_latency_count hs ! di ! ui ! i) ''proxy_upstream_response_latency_ms_count''
      (forward_labels d ?u s)" "handle_for h m' (mh_latency_sum hs ! di ! ui ! i)
      ''proxy_upstream_response_latency_ms_sum'' (forward_labels d ?u s)" if "grown h m m'" for m'
    using handles_ok_grown [OF assms(1) that] labs by (simp_all add: handles_ok_def by_route_for_def)
  define bs where "bs = map (\<lambda>b. (''proxy_upstream_response_latency_ms_bucket'',
      bucket_labels d ?u s (latency_bucket_labels ! b), 1 :: u64)) (buckets_hit ?ms)"
  define c2 where "c2 = bs @ [(''proxy_upstream_response_latency_ms_bucket'', bucket_labels d ?u s ''+Inf'', 1)]"
  define c3 where "c3 = c2 @ [(''proxy_upstream_response_latency_ms_count'', forward_labels d ?u s, 1)]"
  have "length latency_buckets < length latency_bucket_labels"
    by (simp add: latency_buckets_def latency_bucket_labels_def)
  then have "b < length latency_bucket_labels" if "b \<in> set (buckets_hit ?ms)" for b
    using that unfolding buckets_hit_def by simp
  then have 1: "fold (\<lambda>b. handle_incr h (mh_latency_buckets hs ! di ! ui ! i ! b)) (buckets_hit ?ms) m = add_counts h bs m"
    unfolding bs_def using bucket inv by (intro fold_handles_named) auto
  have le: "length latency_bucket_labels - 1 < length latency_bucket_labels"
    "latency_bucket_labels ! (length latency_bucket_labels - 1) = ''+Inf''" by (simp_all add: latency_bucket_labels_def)
  have 2: "handle_incr h (mh_latency_buckets hs ! di ! ui ! i ! (length latency_bucket_labels - 1)) (add_counts h bs m)
      = add_counts h c2 m"
    using handle_incr_named(1) [OF bucket [OF add_counts_grown [OF inv] le(1)]] le(2)
    by (simp add: c2_def metrics_incr_def)
  have 3: "handle_incr h (mh_latency_count hs ! di ! ui ! i) (add_counts h c2 m) = add_counts h c3 m"
    using handle_incr_named(1) [OF route(1) [OF add_counts_grown [OF inv]]] by (simp add: c3_def metrics_incr_def)
  have "m' = handle_incr_by h (mh_latency_sum hs ! di ! ui ! i) ?ms (add_counts h c3 m)"
    using assms(2) 1 2 3 by (simp add: record_upstream_response_latency_def Let_def ix ui)
  also have "\<dots> = add_counts h (event_counts (EvLatency d u s e)) m"
    using handle_incr_named(2) [OF route(2) [OF add_counts_grown [OF inv, of c3]], of ?ms]
    by (simp add: c3_def c2_def bs_def)
  finally show ?thesis .
qed

lemma record_event_named:
  assumes "handles_ok h hs m" "record_event h hs e m = Some m'"
  shows "m' = add_counts h (event_counts e) m"
  using assms
  by (cases e) (auto simp: record_sip_request_named record_forward_error_named record_udp_handler_queue_drop_named
      record_local_response_named record_upstream_response_named record_affinity_lookup_named record_security_drop_named
      record_ha_event_pull_def record_ha_snapshot_pull_def record_ha_snapshot_fallback_def metrics_incr_def
      dest: record_forwarded_request_named record_latency_named simp del: event_counts.simps(7))

lemma record_events_named:
  "handles_ok h hs m \<Longrightarrow> record_events h hs es m = Some m' \<Longrightarrow>
   m' = add_counts h (concat (map event_counts es)) m \<and> handles_ok h hs m'"
proof (induction es arbitrary: m)
  case (Cons e es)
  then obtain m1 where m1: "record_event h hs e m = Some m1" "record_events h hs es m1 = Some m'"
    by (auto split: bind_splits)
  have eq: "m1 = add_counts h (event_counts e) m" by (rule record_event_named [OF Cons.prems(1) m1(1)])
  have "handles_ok h hs m1" unfolding eq
    by (rule handles_ok_grown [OF Cons.prems(1) add_counts_grown]) (use Cons.prems(1) in \<open>simp add: handles_ok_def\<close>)
  from Cons.IH [OF this m1(2)] show ?case by (auto simp: eq)
qed simp


text \<open>
  C17: The pre-registered counter handles are a correct shortcut: after any sequence of
  recorded metrics, every counter of the exposition holds exactly what the recorded events
  add to it by name and labels (modulo \<open>2^64\<close>), whichever path recorded them; in
  particular the latency histogram counts every observation in its buckets, in \<open>+Inf\<close>, in the
  count and in the sum.
\<close>

theorem handles_record_by_name:
  assumes "metric_handles_new h px metrics_new = (hs, m0)" and "record_events h hs es m0 = Some m"
  shows "metric_value h m k = metric_value h m0 k + counted (concat (map event_counts es)) k"
proof -
  have ok: "handles_ok h hs m0" by (rule handles_ok_new [OF assms(1)])
  show ?thesis using record_events_named [OF ok assms(2)] add_counts_value [of h m0] ok by (auto simp: handles_ok_def)
qed

theorem handles_record_by_name_witness:
  "\<forall>px. \<exists>m. record_events (\<lambda>_. 0) (fst (metric_handles_new (\<lambda>_. 0) px metrics_new))
         [EvLocalResponse ''udp'' 503, EvSipRequest ''udp'' ''PRACK'', EvLocalResponse ''udp'' 503]
         (snd (metric_handles_new (\<lambda>_. 0) px metrics_new)) = Some m \<and>
       metric_value (\<lambda>_. 0) m (counter_key ''sip_local_responses_total'' (local_response_labels ''udp'' ''503'')) =
       metric_value (\<lambda>_. 0) (snd (metric_handles_new (\<lambda>_. 0) px metrics_new))
         (counter_key ''sip_local_responses_total'' (local_response_labels ''udp'' ''503'')) + 2"
proof
  fix px
  let ?es = "[EvLocalResponse ''udp'' 503, EvSipRequest ''udp'' ''PRACK'', EvLocalResponse ''udp'' 503]"
  obtain hs m0 where new: "metric_handles_new (\<lambda>_. 0) px metrics_new = (hs, m0)" by fastforce
  obtain m where m: "record_events (\<lambda>_. 0) hs ?es m0 = Some m" by simp
  have "counted (concat (map event_counts ?es))
      (counter_key ''sip_local_responses_total'' (local_response_labels ''udp'' ''503'')) = 2"
    by (simp add: counted_def counter_key_def local_response_labels_def sip_request_labels_def code_texts)
  then show "\<exists>m. record_events (\<lambda>_. 0) (fst (metric_handles_new (\<lambda>_. 0) px metrics_new)) ?es
         (snd (metric_handles_new (\<lambda>_. 0) px metrics_new)) = Some m \<and>
       metric_value (\<lambda>_. 0) m (counter_key ''sip_local_responses_total'' (local_response_labels ''udp'' ''503'')) =
       metric_value (\<lambda>_. 0) (snd (metric_handles_new (\<lambda>_. 0) px metrics_new))
         (counter_key ''sip_local_responses_total'' (local_response_labels ''udp'' ''503'')) + 2"
    using handles_record_by_name [OF new m, of "counter_key ''sip_local_responses_total'' (local_response_labels ''udp'' ''503'')"]
      m new by simp
qed

section \<open>The exposition\<close>

lemma live_counters_mem:
  "sharded_inv h m \<Longrightarrow> c \<in> set (live_counters m) \<longleftrightarrow> co_value c > 0 \<and> (\<exists>k. sharded_get h m k = Some c)"
  by (simp add: live_counters_def image_iff Bex_def set_sharded_entries split_paired_Ex) blast

text \<open>Escaping leaves no raw newline and no quote that is not escaped.\<close>

lemma escape_no_newline: "CHR 0x0A \<notin> set (escape_label_value v)"
  by (auto simp: escape_label_value_def replace_char_def split: if_splits)

lemma replace_char_append: "replace_char c r (a @ b) = replace_char c r a @ replace_char c r b"
  by (simp add: replace_char_def)

lemma escape_label_append: "escape_label_value (a @ b) = escape_label_value a @ escape_label_value b"
  by (simp add: escape_label_value_def replace_char_append)

lemma escape_Nil [simp]: "escape_label_value [] = []"
  by (simp add: escape_label_value_def replace_char_def)

lemma escape_Cons [simp]:
  "escape_label_value (c # s) = (if c = CHR 0x5C then [CHR 0x5C, CHR 0x5C] else if c = CHR 0x0A then [CHR 0x5C, CHR ''n'']
     else if c = CHR 0x22 then [CHR 0x5C, CHR 0x22] else [c]) @ escape_label_value s"
  using escape_label_append [of "[c]" s] by (simp add: escape_label_value_def replace_char_def)

text \<open>Distinct label values stay distinct in the exposition.\<close>

lemma escape_inject: "escape_label_value a = escape_label_value b \<Longrightarrow> a = b"
proof (induction a arbitrary: b)
  case Nil
  then show ?case by (cases b) (auto split: if_splits)
next
  case (Cons c a)
  then show ?case by (cases b) (auto split: if_splits)
qed

end
