(* ===== verification/Handler.thy ===== *)
theory Handler
  imports Sip_Message Transactions Replication Advertise Metrics Security
begin

text \<open>
  The state of the running proxy (\<open>ProxyServer\<close> of \<open>proxy/server.rs\<close>) and the way its handlers
  are written here.  A handler takes the state and gives a result and a new state: a value, an
  error (\<open>Err\<close> of the source) or a panic.  What a handler reads from the outside (clocks, the
  outcome of a send, of a database write, the answers of a TCP upstream) are streams of the
  environment \<open>proxy_env\<close>, indexed by a tick that every read advances; what it sends is
  appended to the state.  Typed header access of the \<open>rsipstack\<close> crate is the record
  \<open>header_lib\<close>.  The rules for sequences of handlers carry the invariants of the later
  theories.
\<close>

section \<open>Typed headers\<close>

datatype rsip_protocol = ProtoUdp | ProtoTcp | ProtoOther

text \<open>A parsed URI: its socket address if the host is one, the transports among its own and the header's parameters,
  and its text without parameters and headers.\<close>

record uri_view =
  uv_addr :: "sock_addr option"
  uv_uri_transports :: "rsip_protocol list"
  uv_param_transports :: "rsip_protocol list"
  uv_plain :: string

record header_lib =
  lib_call_id :: "rsip_message \<Rightarrow> string option"
  lib_cseq :: "rsip_message \<Rightarrow> nat option option"
  lib_from :: "rsip_message \<Rightarrow> string option"
  lib_to :: "rsip_message \<Rightarrow> string option"
  lib_from_uri :: "string \<Rightarrow> string option"
  lib_to_uri :: "string \<Rightarrow> string option"
  lib_from_tag :: "string \<Rightarrow> string option option"
  lib_to_tag :: "string \<Rightarrow> string option option"
  lib_contacts :: "rsip_message \<Rightarrow> sip_contact list option"
  lib_expires :: "rsip_message \<Rightarrow> string option"
  lib_contact_uri :: "string \<Rightarrow> uri_view option"
  lib_route_uri :: "string \<Rightarrow> uri_view option"
  lib_uri_plain :: "string \<Rightarrow> string option"

text \<open>The headers the affinity table looks at.\<close>

definition affinity_view_of :: "header_lib \<Rightarrow> sip_message \<Rightarrow> affinity_view option" where
  "affinity_view_of hl m =
     (case as_request m of
        None \<Rightarrow> None
      | Some r \<Rightarrow> Some \<lparr>av_uri = (case request_uri m of Some u \<Rightarrow> u | None \<Rightarrow> []),
          av_call_id = lib_call_id hl r,
          av_from_tag = Option.bind (lib_from hl r) (\<lambda>v. Option.bind (lib_from_tag hl v) (\<lambda>t. t)),
          av_to_tag = Option.bind (lib_to hl r) (\<lambda>v. Option.bind (lib_to_tag hl v) (\<lambda>t. t))\<rparr>)"

section \<open>Environment and state\<close>

datatype tcp_answer = TcpResponse string | TcpClosed | TcpTimedOut

record proxy_env =
  env_config :: config
  env_routes :: route_table
  env_sources :: upstream_sources
  env_user_space_security :: bool
  env_rsip :: rsip_lib
  env_headers :: header_lib
  env_net :: net_env
  env_uri_host :: "string \<Rightarrow> string option"
  env_to_json :: "ha_event_payload \<Rightarrow> string"
  env_hash :: "string \<Rightarrow> nat"
  env_metric_handles :: metric_handles
  env_instant :: "nat \<Rightarrow> instant"
  env_epoch :: "nat \<Rightarrow> nat"
  env_role :: "nat \<Rightarrow> cluster_role"
  env_send_ok :: "nat \<Rightarrow> bool"
  env_sqlite :: "nat \<Rightarrow> task_outcome"
  env_tcp_send_ok :: "nat \<Rightarrow> bool"
  env_tcp_answer :: "nat \<Rightarrow> tcp_answer"

text \<open>What leaves the proxy: a datagram of the listener's socket, bytes on the client's stream, a request on a pooled
  TCP connection under its branch.\<close>

datatype sent_item =
    Datagram sock_addr string
  | StreamBytes string
  | PoolRequest sock_addr string string

record proxy_state =
  st_tick :: nat
  st_next_id :: u64
  st_tables :: transaction_tables
  st_upstreams :: upstream_groups
  st_security :: security_runtime
  st_advertised :: advertised_cache
  st_node :: node
  st_metrics :: proxy_metrics
  st_sent :: "sent_item list"

datatype handler_error =
    SipFailed sip_error
  | MissingCallIdHeader
  | MissingCSeqHeader
  | BadCSeq
  | NotARequest string
  | MissingHeader string
  | BadHeader string
  | NoRequestUri
  | AffinityKeyFailed
  | MissingTopBranch
  | MissingVia
  | SendFailed
  | UnexpandedTransport
  | TcpRequestFailed
  | TcpChannelClosed
  | TcpResponseTimedOut

text \<open>\<open>Diverged\<close>: a loop did not end within its bound.\<close>

datatype failure = Panic | Failed handler_error | Diverged

type_synonym 'a handler = "proxy_state \<Rightarrow> (failure + 'a) \<times> proxy_state"

section \<open>Sequencing\<close>

definition ret :: "'a \<Rightarrow> 'a handler" where
  "ret x s = (Inr x, s)"

definition fail :: "failure \<Rightarrow> 'a handler" where
  "fail e s = (Inl e, s)"

definition seq :: "'a handler \<Rightarrow> ('a \<Rightarrow> 'b handler) \<Rightarrow> 'b handler" where
  "seq m f s = (case m s of (Inl e, s') \<Rightarrow> (Inl e, s') | (Inr x, s') \<Rightarrow> f x s')"

definition modify :: "(proxy_state \<Rightarrow> proxy_state) \<Rightarrow> unit handler" where
  "modify f s = (Inr (), f s)"

definition gets :: "(proxy_state \<Rightarrow> 'a) \<Rightarrow> 'a handler" where
  "gets f s = (Inr (f s), s)"

text \<open>The \<open>?\<close> operator on a result that does not touch the state.\<close>

definition lift_err :: "('e \<Rightarrow> handler_error) \<Rightarrow> 'e + 'a \<Rightarrow> 'a handler" where
  "lift_err f r s = ((case r of Inl e \<Rightarrow> Inl (Failed (f e)) | Inr x \<Rightarrow> Inr x), s)"

text \<open>\<open>if let Err(err) = m\<close>: errors are handled, a panic is not.\<close>

definition on_error :: "unit handler \<Rightarrow> unit handler \<Rightarrow> unit handler" where
  "on_error m f s = (case m s of (Inl (Failed _), s') \<Rightarrow> f s' | r \<Rightarrow> r)"

definition lift_step :: "(proxy_state \<Rightarrow> 'a \<times> proxy_state) \<Rightarrow> 'a handler" where
  "lift_step f s = (let (x, s') = f s in (Inr x, s'))"

text \<open>Operations on one part of the state.\<close>

definition on_tables :: "(transaction_tables \<Rightarrow> 'a \<times> transaction_tables) \<Rightarrow> 'a handler" where
  "on_tables f s = (let (x, t) = f (st_tables s) in (Inr x, s\<lparr>st_tables := t\<rparr>))"

definition tables :: "(transaction_tables \<Rightarrow> transaction_tables) \<Rightarrow> unit handler" where
  "tables f s = (Inr (), s\<lparr>st_tables := f (st_tables s)\<rparr>)"

definition upstreams :: "(upstream_groups \<Rightarrow> upstream_groups) \<Rightarrow> unit handler" where
  "upstreams f s = (Inr (), s\<lparr>st_upstreams := f (st_upstreams s)\<rparr>)"

definition metric :: "(proxy_metrics \<Rightarrow> proxy_metrics) \<Rightarrow> unit handler" where
  "metric f s = (Inr (), s\<lparr>st_metrics := f (st_metrics s)\<rparr>)"

definition metric_opt :: "(proxy_metrics \<Rightarrow> proxy_metrics option) \<Rightarrow> unit handler" where
  "metric_opt f s = (case f (st_metrics s) of None \<Rightarrow> (Inl Panic, s) | Some m \<Rightarrow> (Inr (), s\<lparr>st_metrics := m\<rparr>))"

definition on_node :: "(node \<Rightarrow> 'a \<times> node) \<Rightarrow> 'a handler" where
  "on_node f s = (let (x, n) = f (st_node s) in (Inr x, s\<lparr>st_node := n\<rparr>))"

definition on_security :: "(security_runtime \<Rightarrow> 'a \<times> security_runtime) \<Rightarrow> 'a handler" where
  "on_security f s = (let (x, r) = f (st_security s) in (Inr x, s\<lparr>st_security := r\<rparr>))"

section \<open>The outside\<close>

definition read_instant :: "proxy_env \<Rightarrow> instant handler" where
  "read_instant env s = (Inr (env_instant env (st_tick s)), s\<lparr>st_tick := Suc (st_tick s)\<rparr>)"

definition read_epoch :: "proxy_env \<Rightarrow> nat handler" where
  "read_epoch env s = (Inr (env_epoch env (st_tick s)), s\<lparr>st_tick := Suc (st_tick s)\<rparr>)"

text \<open>A bounded number of readings handed to an operation that reads the clock several times.\<close>

definition clocks :: "proxy_env \<Rightarrow> nat \<Rightarrow> (nat \<Rightarrow> instant) handler" where
  "clocks env n s = (Inr (\<lambda>i. env_instant env (st_tick s + min i n)), s\<lparr>st_tick := st_tick s + Suc n\<rparr>)"

definition sqlite_outcome :: "proxy_env \<Rightarrow> (task_outcome \<times> (nat \<Rightarrow> nat)) handler" where
  "sqlite_outcome env s =
     (Inr (env_sqlite env (st_tick s), \<lambda>i. env_epoch env (st_tick s + i)), s\<lparr>st_tick := Suc (st_tick s)\<rparr>)"

text \<open>\<open>UdpSocket::send_to\<close>: the datagram leaves, or the call fails.\<close>

definition send_to :: "proxy_env \<Rightarrow> sock_addr \<Rightarrow> string \<Rightarrow> bool handler" where
  "send_to env addr bytes s =
     (let ok = env_send_ok env (st_tick s)
      in (Inr ok, s\<lparr>st_tick := Suc (st_tick s), st_sent := st_sent s @ (if ok then [Datagram addr bytes] else [])\<rparr>))"

definition send_or_fail :: "proxy_env \<Rightarrow> sock_addr \<Rightarrow> string \<Rightarrow> unit handler" where
  "send_or_fail env addr bytes = seq (send_to env addr bytes) (\<lambda>ok. if ok then ret () else fail (Failed SendFailed))"

definition write_all :: "proxy_env \<Rightarrow> string \<Rightarrow> unit handler" where
  "write_all env bytes s =
     (let ok = env_send_ok env (st_tick s)
      in (if ok then Inr () else Inl (Failed SendFailed),
          s\<lparr>st_tick := Suc (st_tick s), st_sent := st_sent s @ (if ok then [StreamBytes bytes] else [])\<rparr>))"

text \<open>\<open>unique_id\<close>: the global counter, which wraps around.\<close>

definition unique_id :: "u64 handler" where
  "unique_id s = (Inr (st_next_id s), s\<lparr>st_next_id := st_next_id s + 1\<rparr>)"

section \<open>Shared steps\<close>

definition is_upstream_source :: "proxy_env \<Rightarrow> proxy_state \<Rightarrow> sock_addr \<Rightarrow> bool" where
  "is_upstream_source env s peer \<longleftrightarrow>
     ups_contains peer (st_upstreams s) \<or> upstream_sources_contains (env_sources env) peer"

definition advertised :: "proxy_env \<Rightarrow> advertise_side \<Rightarrow> proxy_listener_config \<Rightarrow> sock_addr \<Rightarrow> string handler" where
  "advertised env side listener target s =
     (let (addr, cache, i) =
        advertised_sip_addr (env_net env) (c_sip (env_config env)) side listener target (st_advertised s, st_next_id s)
      in (Inr addr, s\<lparr>st_advertised := cache, st_next_id := i\<rparr>))"

definition pick_upstream :: "proxy_env \<Rightarrow> string \<Rightarrow> proxy_listener_config \<Rightarrow> upstream_target handler" where
  "pick_upstream env uri listener s =
     (let (r, u) = select_upstream (env_uri_host env) (env_routes env) uri listener (st_upstreams s)
      in ((case r of None \<Rightarrow> Inl Panic | Some t \<Rightarrow> Inr t), s\<lparr>st_upstreams := u\<rparr>))"

lemmas handler_defs = ret_def fail_def seq_def modify_def gets_def lift_err_def lift_step_def on_tables_def tables_def
  upstreams_def metric_def metric_opt_def on_node_def on_security_def

lemmas outside_defs = read_instant_def read_epoch_def clocks_def sqlite_outcome_def send_to_def write_all_def unique_id_def

section \<open>Relations that every step keeps\<close>

text \<open>
  A reflexive and transitive relation between the state before and after.  If every step of a
  handler keeps it, the whole handler does, on success, error and panic.
\<close>

locale handler_frame =
  fixes R :: "proxy_state \<Rightarrow> proxy_state \<Rightarrow> bool"
  assumes refl: "R s s" and trans: "R s t \<Longrightarrow> R t u \<Longrightarrow> R s u"
begin

definition keeps :: "'a handler \<Rightarrow> bool" where
  "keeps m \<longleftrightarrow> (\<forall>s. R s (snd (m s)))"

lemma keeps_pure [intro, simp]: "keeps (ret x)" "keeps (fail e)" "keeps (gets f)" "keeps (lift_err g r)"
  by (simp_all add: keeps_def handler_defs refl)

lemma keeps_seq [intro]:
  assumes m: "keeps m" and f: "\<And>x. keeps (f x)"
  shows "keeps (seq m f)"
  unfolding keeps_def
proof
  fix s
  obtain r s' where ms: "m s = (r, s')" by fastforce
  have 1: "R s s'" using m ms unfolding keeps_def by (metis snd_conv)
  show "R s (snd (seq m f s))"
  proof (cases r)
    case (Inl e)
    then show ?thesis using 1 ms by (simp add: seq_def)
  next
    case (Inr x)
    have "R s' (snd (f x s'))" using f [of x] by (simp add: keeps_def)
    then show ?thesis using trans [OF 1] ms Inr by (simp add: seq_def)
  qed
qed

lemma keeps_on_error [intro]:
  assumes m: "keeps m" and f: "keeps f"
  shows "keeps (on_error m f)"
  unfolding keeps_def
proof
  fix s
  obtain r s' where ms: "m s = (r, s')" by fastforce
  have 1: "R s s'" using m ms unfolding keeps_def by (metis snd_conv)
  have 2: "R s' (snd (f s'))" using f by (simp add: keeps_def)
  show "R s (snd (on_error m f s))"
    using 1 trans [OF 1 2] ms by (auto simp: on_error_def split: sum.split failure.split)
qed

end

end
