(* ===== verification/Registration.thy ===== *)
theory Registration
  imports Handler
begin

text \<open>
  Registrations through the proxy (\<open>proxy/registry.rs\<close> and the registration functions of
  \<open>proxy/server.rs\<close>): what is extracted from a REGISTER, the keys under which its contacts are
  stored, the rewritten contact user, the pending registration kept until the upstream
  answers, and what the answer does to the registry, the affinity table and the database.
  Shown here: a binding applied by a final 2xx answer is found again under every key its route
  is looked up with, until it expires; a rewritten user is the original one, \<open>~\<close> and 32
  hexadecimal digits; the bindings of a pending registration have distinct keys.
\<close>

section \<open>Headers of a request\<close>

definition extract_aor :: "header_lib \<Rightarrow> sip_message \<Rightarrow> handler_error + string" where
  "extract_aor hl m =
     (case as_request m of
        None \<Rightarrow> Inl (NotARequest ''REGISTER'')
      | Some r \<Rightarrow>
          (case lib_to hl r of
             Some v \<Rightarrow> (case lib_to_uri hl v of None \<Rightarrow> Inl (BadHeader ''To'') | Some u \<Rightarrow> Inr u)
           | None \<Rightarrow>
               (case lib_from hl r of
                  None \<Rightarrow> Inl (MissingHeader ''From'')
                | Some v \<Rightarrow> (case lib_from_uri hl v of None \<Rightarrow> Inl (BadHeader ''From'') | Some u \<Rightarrow> Inr u))))"

definition extract_contact :: "header_lib \<Rightarrow> sip_message \<Rightarrow> handler_error + string option" where
  "extract_contact hl m =
     (case as_request m of
        None \<Rightarrow> Inl (NotARequest ''REGISTER'')
      | Some r \<Rightarrow>
          (case lib_contacts hl r of
             None \<Rightarrow> Inl (BadHeader ''Contact'')
           | Some cs \<Rightarrow> Inr (map_option sc_uri (find (\<lambda>c. sc_text c \<noteq> ''*'') cs))))"

definition extract_from_aor :: "header_lib \<Rightarrow> sip_message \<Rightarrow> handler_error + string" where
  "extract_from_aor hl m =
     (case as_request m of
        None \<Rightarrow> Inl (NotARequest ''From'')
      | Some r \<Rightarrow>
          (case lib_from hl r of
             None \<Rightarrow> Inl (MissingHeader ''From'')
           | Some v \<Rightarrow> (case lib_from_uri hl v of None \<Rightarrow> Inl (BadHeader ''From'') | Some u \<Rightarrow> Inr u)))"

definition extract_to_aor :: "header_lib \<Rightarrow> sip_message \<Rightarrow> handler_error + string" where
  "extract_to_aor hl m =
     (case as_request m of
        None \<Rightarrow> Inl (NotARequest ''To'')
      | Some r \<Rightarrow>
          (case lib_to hl r of
             None \<Rightarrow> Inl (MissingHeader ''To'')
           | Some v \<Rightarrow> (case lib_to_uri hl v of None \<Rightarrow> Inl (BadHeader ''To'') | Some u \<Rightarrow> Inr u)))"

text \<open>\<open>Iterator::find_map\<close>.\<close>

fun find_map :: "('a \<Rightarrow> 'b option) \<Rightarrow> 'a list \<Rightarrow> 'b option" where
  "find_map f [] = None"
| "find_map f (x # xs) = (case f x of Some y \<Rightarrow> Some y | None \<Rightarrow> find_map f xs)"

definition extract_expires :: "header_lib \<Rightarrow> sip_message \<Rightarrow> duration" where
  "extract_expires hl m =
     (case as_request m of
        None \<Rightarrow> from_secs 3600
      | Some r \<Rightarrow>
          (case Option.bind (lib_contacts hl r) (find_map sc_expires) of
             Some seconds \<Rightarrow> from_secs seconds
           | None \<Rightarrow>
               (case Option.bind (lib_expires hl r) (\<lambda>v. parse_uint (2 ^ 64 - 1) (trim v)) of
                  Some seconds \<Rightarrow> from_secs seconds
                | None \<Rightarrow> from_secs 3600)))"

definition max_of :: "nat list \<Rightarrow> nat option" where
  "max_of xs = (if xs = [] then None else Some (foldr max xs 0))"

definition extract_response_contact_expires :: "rsip_lib \<Rightarrow> sip_message \<Rightarrow> duration option" where
  "extract_response_contact_expires lib m =
     map_option from_secs (max_of (List.map_filter sc_expires (concat (List.map_filter (rl_contacts lib) (sip_headers ''Contact'' m)))))"

section \<open>Keys\<close>

definition push_unique_key :: "string list \<Rightarrow> string \<Rightarrow> string list" where
  "push_unique_key keys key = (if key \<noteq> [] \<and> key \<notin> set keys then keys @ [key] else keys)"

definition normalized_sip_uri_without_params :: "header_lib \<Rightarrow> string \<Rightarrow> string option" where
  "normalized_sip_uri_without_params hl v =
     (case lib_contact_uri hl v of Some u \<Rightarrow> Some (uv_plain u) | None \<Rightarrow> lib_uri_plain hl v)"

definition registration_route_keys :: "header_lib \<Rightarrow> string \<Rightarrow> string list" where
  "registration_route_keys hl route =
     (let keys = push_unique_key [] (trim route)
      in case normalized_sip_uri_without_params hl route of None \<Rightarrow> keys | Some n \<Rightarrow> push_unique_key keys n)"

definition registered_upstream_lookup_keys :: "header_lib \<Rightarrow> sip_message \<Rightarrow> string \<Rightarrow> string list" where
  "registered_upstream_lookup_keys hl m uri =
     foldl push_unique_key
       (foldl push_unique_key [] (case extract_to_aor hl m of Inr aor \<Rightarrow> registration_route_keys hl aor | Inl _ \<Rightarrow> []))
       (registration_route_keys hl uri)"

definition registration_upstream_affinity_key :: "string \<Rightarrow> affinity_key" where
  "registration_upstream_affinity_key route = ''registration-upstream:'' @ route"

definition is_initial_invite_request :: "header_lib \<Rightarrow> sip_message \<Rightarrow> bool" where
  "is_initial_invite_request hl m =
     (case as_request m of
        None \<Rightarrow> False
      | Some r \<Rightarrow> (case Option.bind (lib_to hl r) (lib_to_tag hl) of None \<Rightarrow> False | Some t \<Rightarrow> t = None))"

section \<open>Rewritten contact users\<close>

definition hex_bytes :: "u8 list \<Rightarrow> string" where
  "hex_bytes bs = concat (map (\<lambda>b. [digit_char (unat b div 16), digit_char (unat b mod 16)]) bs)"

unbundle bit_operations_syntax

definition uuid_hash :: "string \<Rightarrow> 128 word" where
  "uuid_hash key = foldl (\<lambda>a c.
     let x = (a XOR word_of_nat (of_char c)) * 0x1000000000000000000013b
     in x XOR drop_bit 64 x) 0x6a09e667f3bcc908bb67ae8584caa73b key"

definition uuid_bytes :: "string \<Rightarrow> u8 list" where
  "uuid_bytes key =
     (let bytes = to_be 16 (uuid_hash key)
      in bytes[6 := (bytes ! 6 AND 0x0f) OR 0x40, 8 := (bytes ! 8 AND 0x3f) OR 0x80])"

definition uuid_like_id :: "string \<Rightarrow> string" where
  "uuid_like_id key =
     (let bytes = uuid_bytes key; part = (\<lambda>a b. hex_bytes (take (b - a) (drop a bytes)))
      in part 0 4 @ ''-'' @ part 4 6 @ ''-'' @ part 6 8 @ ''-'' @ part 8 10 @ ''-'' @ part 10 16)"

definition is_ascii_hexdigit :: "char \<Rightarrow> bool" where
  "is_ascii_hexdigit c \<longleftrightarrow> c \<in> set ''0123456789abcdefABCDEF''"

definition compact_uuid_token :: "string \<Rightarrow> nat \<Rightarrow> string" where
  "compact_uuid_token v len = take len (filter is_ascii_hexdigit v)"

definition rewritten_register_contact_user :: "string option \<Rightarrow> string \<Rightarrow> sock_addr \<Rightarrow> string \<Rightarrow> string" where
  "rewritten_register_contact_user aor original_contact peer original_user =
     (let key = ''register-contact|'' @ (case aor of None \<Rightarrow> [] | Some a \<Rightarrow> a) @ ''|'' @ original_contact;
          token = compact_uuid_token (uuid_like_id key) 32;
          user = (if original_user = [] then ''contact'' else original_user)
      in user @ ''~'' @ token)"

section \<open>Pending registrations\<close>

definition push_pending_register_binding ::
  "pending_register_binding list \<Rightarrow> pending_register_binding \<Rightarrow> pending_register_binding list" where
  "push_pending_register_binding bs b = (if \<exists>x \<in> set bs. prb_aor x = prb_aor b then bs else bs @ [b])"

definition collect_contact_route_bindings ::
  "header_lib \<Rightarrow> sock_addr \<Rightarrow> pending_register_binding list \<Rightarrow> string \<times> string \<Rightarrow> pending_register_binding list" where
  "collect_contact_route_bindings hl peer bs = (\<lambda>(contact, route).
     foldl (\<lambda>bs aor. push_pending_register_binding bs
              \<lparr>prb_aor = aor, prb_contact = contact, prb_source = show_sock peer\<rparr>)
       bs (registration_route_keys hl route))"

definition make_pending_register ::
  "pending_register_binding list \<Rightarrow> duration \<Rightarrow> upstream_target \<Rightarrow> instant \<Rightarrow> pending_register option" where
  "make_pending_register bs expires target now =
     (if bs = [] then None
      else Some \<lparr>pr_bindings = bs, pr_request_expires = expires, pr_target = target, pr_created_at = now\<rparr>)"

definition push_aor_binding ::
  "string option \<Rightarrow> string option \<Rightarrow> sock_addr \<Rightarrow> pending_register_binding list \<Rightarrow> pending_register_binding list" where
  "push_aor_binding aor contact peer bs =
     (case (aor, contact) of
        (Some a, Some c) \<Rightarrow> push_pending_register_binding bs \<lparr>prb_aor = a, prb_contact = c, prb_source = show_sock peer\<rparr>
      | _ \<Rightarrow> bs)"

definition ok_of :: "'e + 'a \<Rightarrow> 'a option" where
  "ok_of r = (case r of Inl _ \<Rightarrow> None | Inr x \<Rightarrow> Some x)"

definition rewrite_register_contact_and_pending ::
  "rsip_lib \<Rightarrow> header_lib \<Rightarrow> string \<Rightarrow> sock_addr \<Rightarrow> upstream_target \<Rightarrow> instant \<Rightarrow> sip_message
   \<Rightarrow> sip_error + sip_message \<times> pending_register option" where
  "rewrite_register_contact_and_pending lib hl via_host peer target now m =
     (let aor = ok_of (extract_aor hl m);
          original_contact = Option.bind (ok_of (extract_contact hl m)) (\<lambda>c. c);
          expires = extract_expires hl m
      in bind_res (rewrite_contact_host_with_user lib via_host
             (\<lambda>contact user. rewritten_register_contact_user aor contact peer user) m) (\<lambda>(rewritten, m').
           let bs = foldl (collect_contact_route_bindings hl peer) [] rewritten
           in Inr (m', make_pending_register (push_aor_binding aor original_contact peer bs) expires target now)))"

definition register_contact_routes_pending ::
  "rsip_lib \<Rightarrow> header_lib \<Rightarrow> string \<Rightarrow> sock_addr \<Rightarrow> upstream_target \<Rightarrow> instant \<Rightarrow> sip_message
   \<Rightarrow> sip_error + pending_register option" where
  "register_contact_routes_pending lib hl via_host peer target now m =
     (let expires = extract_expires hl m
      in bind_res (rewrite_contact_host lib via_host m) (\<lambda>(rewritten, _).
           let first_contact = (case rewritten of [] \<Rightarrow> None | (original, _) # _ \<Rightarrow> Some original);
               bs = foldl (collect_contact_route_bindings hl peer) [] rewritten
           in Inr (make_pending_register (push_aor_binding (ok_of (extract_aor hl m)) first_contact peer bs) expires target now)))"

section \<open>Lookups\<close>

definition registry_lookup :: "proxy_env \<Rightarrow> string \<Rightarrow> contact_binding option handler" where
  "registry_lookup env aor = seq (read_epoch env) (\<lambda>now. on_node (\<lambda>n.
     let (r, st) = state_lookup now aor (n_state n) in (r, n\<lparr>n_state := st\<rparr>)))"

fun lookup_bindings :: "proxy_env \<Rightarrow> string list \<Rightarrow> contact_binding option handler" where
  "lookup_bindings env [] = ret None"
| "lookup_bindings env (k # ks) =
     seq (registry_lookup env k) (\<lambda>r. case r of Some b \<Rightarrow> ret (Some b) | None \<Rightarrow> lookup_bindings env ks)"

definition lookup_registration_binding :: "proxy_env \<Rightarrow> string \<Rightarrow> contact_binding option handler" where
  "lookup_registration_binding env uri = lookup_bindings env (registration_route_keys (env_headers env) uri)"

definition lookup_delivery_registration_binding ::
  "proxy_env \<Rightarrow> sip_message \<Rightarrow> string \<Rightarrow> bool \<Rightarrow> contact_binding option handler" where
  "lookup_delivery_registration_binding env m uri allow_to_aor_fallback =
     seq (lookup_registration_binding env uri) (\<lambda>r. case r of
        Some b \<Rightarrow> ret (Some b)
      | None \<Rightarrow>
          if \<not> allow_to_aor_fallback then ret None
          else (case extract_to_aor (env_headers env) m of
                  Inl _ \<Rightarrow> ret None
                | Inr aor \<Rightarrow> lookup_registration_binding env aor))"

definition affinity_lookup_key :: "proxy_env \<Rightarrow> affinity_key \<Rightarrow> affinity_target option handler" where
  "affinity_lookup_key env key = seq (read_instant env) (\<lambda>now. on_node (\<lambda>n.
     let (r, t) = lookup_key (env_hash env) now key (n_affinity n) in (r, n\<lparr>n_affinity := t\<rparr>)))"

text \<open>The first key with a target decides.\<close>

fun lookup_upstream_keys :: "proxy_env \<Rightarrow> string list \<Rightarrow> upstream_target option handler" where
  "lookup_upstream_keys env [] = ret None"
| "lookup_upstream_keys env (route # routes) =
     seq (affinity_lookup_key env (registration_upstream_affinity_key route)) (\<lambda>r. case r of
        None \<Rightarrow> lookup_upstream_keys env routes
      | Some t \<Rightarrow>
          let target = \<lparr>ut_addr = at_addr t, ut_transport = at_transport t\<rparr>
          in seq (gets (\<lambda>s. is_healthy_upstream_target target (st_upstreams s))) (\<lambda>healthy.
               if healthy then ret (Some target)
               else seq (metric (record_affinity_lookup (env_hash env) (env_metric_handles env)
                        ''registered-upstream-unhealthy'')) (\<lambda>_. ret None)))"

definition lookup_registered_upstream_target ::
  "proxy_env \<Rightarrow> sip_message \<Rightarrow> string \<Rightarrow> upstream_target option handler" where
  "lookup_registered_upstream_target env m uri =
     (if sip_method_of m \<noteq> Some ''INVITE'' \<or> \<not> is_initial_invite_request (env_headers env) m then ret None
      else lookup_upstream_keys env (registered_upstream_lookup_keys (env_headers env) m uri))"

section \<open>The answer to a REGISTER\<close>

text \<open>
  \<open>submit_cluster_command\<close>: the replicator of an active--standby pair refuses commands while its
  node is standby, the standalone one never does; an error is only logged.
\<close>

definition submit_cluster_command :: "proxy_env \<Rightarrow> cluster_command \<Rightarrow> unit handler" where
  "submit_cluster_command env command = seq (gets (\<lambda>s. env_role env (st_tick s))) (\<lambda>role.
     seq (sqlite_outcome env) (\<lambda>(outcome, clock).
       if \<not> accepts_writes role then ret ()
       else on_node (\<lambda>n. ((), snd (standalone_submit (env_to_json env) clock outcome command n)))))"

definition affinity_remember_key ::
  "proxy_env \<Rightarrow> affinity_key \<Rightarrow> affinity_target \<Rightarrow> duration \<Rightarrow> affinity_binding_snapshot list handler" where
  "affinity_remember_key env key target ttl =
     seq (read_instant env) (\<lambda>now. seq (read_epoch env) (\<lambda>now_ms s.
       (case remember_key (env_hash env) now now_ms key target ttl (n_affinity (st_node s)) of
          None \<Rightarrow> (Inl Panic, s)
        | Some (bs, t) \<Rightarrow> (Inr bs, s\<lparr>st_node := (st_node s)\<lparr>n_affinity := t\<rparr>\<rparr>))))"

definition apply_register_binding ::
  "proxy_env \<Rightarrow> upstream_target \<Rightarrow> duration \<Rightarrow> pending_register_binding \<Rightarrow> affinity_binding_snapshot list handler" where
  "apply_register_binding env target expires b =
     (if expires = 0
      then seq (submit_cluster_command env (UnregisterContact (prb_aor b))) (\<lambda>_. ret [])
      else seq (affinity_remember_key env (registration_upstream_affinity_key (prb_aor b))
                  \<lparr>at_addr = ut_addr target, at_transport = ut_transport target\<rparr> expires) (\<lambda>bs.
           seq (read_epoch env) (\<lambda>now_ms.
           seq (submit_cluster_command env (RegisterContact \<lparr>cb_aor = prb_aor b, cb_contact = prb_contact b,
                  cb_source = prb_source b, cb_expires_at_epoch_ms = expires_at now_ms expires\<rparr>)) (\<lambda>_. ret bs))))"

fun apply_register_bindings ::
  "proxy_env \<Rightarrow> upstream_target \<Rightarrow> duration \<Rightarrow> pending_register_binding list \<Rightarrow> affinity_binding_snapshot list handler" where
  "apply_register_bindings env target expires [] = ret []"
| "apply_register_bindings env target expires (b # bs) =
     seq (apply_register_binding env target expires b) (\<lambda>xs.
     seq (apply_register_bindings env target expires bs) (\<lambda>ys. ret (xs @ ys)))"

text \<open>Affinity bindings go to the database in the foreground when persistence is required, else through its queue.\<close>

definition persist_affinity :: "proxy_env \<Rightarrow> affinity_binding_snapshot list \<Rightarrow> unit handler" where
  "persist_affinity env bindings = seq (sqlite_outcome env) (\<lambda>(outcome, clock). on_node (\<lambda>n.
     ((), n\<lparr>n_persistence := map_option (\<lambda>p.
        if p_required p then snd (upsert_affinity_bindings (env_to_json env) clock outcome bindings p)
        else upsert_affinity_bindings_background bindings p) (n_persistence n)\<rparr>)))"

definition apply_register_response :: "proxy_env \<Rightarrow> string \<Rightarrow> sip_message \<Rightarrow> u16 \<Rightarrow> unit handler" where
  "apply_register_response env branch response code =
     (if unat code < 200 then ret ()
      else seq (read_instant env) (\<lambda>now. seq (on_tables (take_pending_register now branch)) (\<lambda>pending.
        (case pending of
           None \<Rightarrow> ret ()
         | Some p \<Rightarrow>
             if unat code \<ge> 300 then ret ()
             else let expires = (case extract_response_contact_expires (env_rsip env) response of
                                   Some e \<Rightarrow> e | None \<Rightarrow> pr_request_expires p)
                  in seq (apply_register_bindings env (pr_target p) expires (pr_bindings p)) (persist_affinity env)))))"

section \<open>Targets of registered contacts\<close>

fun sip_transport_from_rsip :: "rsip_protocol \<Rightarrow> sip_transport option" where
  "sip_transport_from_rsip ProtoUdp = Some Udp"
| "sip_transport_from_rsip ProtoTcp = Some Tcp"
| "sip_transport_from_rsip ProtoOther = None"

definition view_target :: "sip_transport \<Rightarrow> uri_view \<Rightarrow> upstream_target option" where
  "view_target default_transport v =
     map_option (\<lambda>addr. \<lparr>ut_addr = addr, ut_transport =
        (case find_map sip_transport_from_rsip (uv_uri_transports v @ uv_param_transports v) of
           Some t \<Rightarrow> t | None \<Rightarrow> default_transport)\<rparr>) (uv_addr v)"

definition parse_contact_target :: "header_lib \<Rightarrow> string \<Rightarrow> sip_transport \<Rightarrow> upstream_target option" where
  "parse_contact_target hl contact default_transport =
     Option.bind (lib_contact_uri hl contact) (view_target default_transport)"

definition parse_route_target :: "header_lib \<Rightarrow> string \<Rightarrow> sip_transport \<Rightarrow> upstream_target option" where
  "parse_route_target hl route default_transport =
     Option.bind (lib_route_uri hl route) (view_target default_transport)"

definition target_for_registration_binding ::
  "header_lib \<Rightarrow> contact_binding \<Rightarrow> sip_transport \<Rightarrow> upstream_target option" where
  "target_for_registration_binding hl b default_transport =
     (let contact_target = parse_contact_target hl (cb_contact b) default_transport;
          transport = (case contact_target of Some t \<Rightarrow> ut_transport t | None \<Rightarrow> default_transport)
      in (case (if transport = Udp then parse_sock (cb_source b) else None) of
            Some addr \<Rightarrow> Some \<lparr>ut_addr = addr, ut_transport = Udp\<rparr>
          | None \<Rightarrow> contact_target))"

definition registered_invite_source_matches ::
  "string \<Rightarrow> sock_addr \<Rightarrow> proxy_registered_invite_source_match \<Rightarrow> bool" where
  "registered_invite_source_matches registered_source peer mode =
     (case parse_sock registered_source of
        None \<Rightarrow> False
      | Some addr \<Rightarrow> (case mode of MatchIp \<Rightarrow> sock_ip addr = sock_ip peer | MatchIpPort \<Rightarrow> addr = peer))"


section \<open>Rewritten users\<close>

lemma digit_char_hex: "d < 16 \<Longrightarrow> is_ascii_hexdigit (digit_char d)"
proof -
  assume d: "d < 16"
  have "list_all (\<lambda>d. is_ascii_hexdigit (digit_char d)) [0..<16]" by code_simp
  then show ?thesis using d by (simp add: list_all_iff)
qed

lemma hex_bytes_digits: "length (hex_bytes bs) = 2 * length bs" "list_all is_ascii_hexdigit (hex_bytes bs)"
proof (induction bs)
  case (Cons b bs)
  case 2
  have "unat b div 16 < 16" "unat b mod 16 < 16" using unat_u8_less [of b] by (simp_all add: less_mult_imp_div_less)
  then show ?case using Cons by (simp add: hex_bytes_def digit_char_hex)
qed (simp_all add: hex_bytes_def)

lemma length_uuid_bytes: "length (uuid_bytes key) = 16"
  by (simp add: uuid_bytes_def Let_def)

lemma filter_hex_all: "list_all P s \<Longrightarrow> filter P s = s"
  by (simp add: list_all_iff)

lemma uuid_token: "\<exists>s. compact_uuid_token (uuid_like_id key) 32 = s \<and> length s = 32 \<and> list_all is_ascii_hexdigit s"
proof -
  have dash: "\<not> is_ascii_hexdigit (CHR ''-'')" by (simp add: is_ascii_hexdigit_def)
  have "length (filter is_ascii_hexdigit (uuid_like_id key)) = 32"
    by (simp add: uuid_like_id_def Let_def filter_hex_all hex_bytes_digits dash length_uuid_bytes)
  then show ?thesis by (simp add: compact_uuid_token_def list_all_iff)
qed

text \<open>
  A rewritten user is the original one (or \<open>contact\<close>), a tilde and 32 hexadecimal digits.
\<close>

lemma rewritten_user_form:
  "\<exists>token. rewritten_register_contact_user aor contact peer user =
      (if user = [] then ''contact'' else user) @ ''~'' @ token \<and> length token = 32 \<and> list_all is_ascii_hexdigit token"
  using uuid_token by (auto simp: rewritten_register_contact_user_def Let_def)

section \<open>Pending bindings\<close>

lemma push_pending_distinct:
  "distinct (map prb_aor bs) \<Longrightarrow> distinct (map prb_aor (push_pending_register_binding bs b))"
  by (auto simp: push_pending_register_binding_def)

lemma push_pending_mem: "prb_aor b \<in> prb_aor ` set (push_pending_register_binding bs b)"
  by (auto simp: push_pending_register_binding_def intro: rev_image_eqI)

lemma push_pending_mono: "set bs \<subseteq> set (push_pending_register_binding bs b)"
  by (auto simp: push_pending_register_binding_def)

lemma foldl_keeps: "P a \<Longrightarrow> (\<And>a x. P a \<Longrightarrow> P (f a x)) \<Longrightarrow> P (foldl f a xs)"
  by (induction xs arbitrary: a) simp_all

lemma collect_distinct:
  "distinct (map prb_aor bs) \<Longrightarrow> distinct (map prb_aor (collect_contact_route_bindings hl peer bs cr))"
  by (auto simp: collect_contact_route_bindings_def split_beta intro!: foldl_keeps push_pending_distinct)

lemma push_aor_distinct: "distinct (map prb_aor bs) \<Longrightarrow> distinct (map prb_aor (push_aor_binding aor contact peer bs))"
  by (auto simp: push_aor_binding_def push_pending_distinct split: option.split)

lemma pending_distinct:
  "rewrite_register_contact_and_pending lib hl via peer target now m = Inr (m', Some p) \<Longrightarrow> distinct (map prb_aor (pr_bindings p))"
  "register_contact_routes_pending lib hl via peer target now m = Inr (Some p) \<Longrightarrow> distinct (map prb_aor (pr_bindings p))"
proof -
  have c: "distinct (map prb_aor (push_aor_binding aor contact peer (foldl (collect_contact_route_bindings hl peer) [] rs)))"
    for aor contact rs by (intro push_aor_distinct foldl_keeps [where P = "\<lambda>bs. distinct (map prb_aor bs)"] collect_distinct) simp
  show "distinct (map prb_aor (pr_bindings p))"
    if "rewrite_register_contact_and_pending lib hl via peer target now m = Inr (m', Some p)"
    using that c by (auto simp: rewrite_register_contact_and_pending_def Let_def bind_res_Inr_iff make_pending_register_def
        split: if_splits)
  show "distinct (map prb_aor (pr_bindings p))"
    if "register_contact_routes_pending lib hl via peer target now m = Inr (Some p)"
    using that c by (auto simp: register_contact_routes_pending_def Let_def bind_res_Inr_iff make_pending_register_def
        split: if_splits)
qed

section \<open>What an answer registers\<close>

abbreviation registry_of :: "proxy_state \<Rightarrow> contacts" where
  "registry_of s \<equiv> ss_contacts (n_state (st_node s))"

lemma submit_state:
  assumes "outcome = TaskOk"
  shows "n_state (snd (standalone_submit to_json clock outcome c n)) = snd (state_apply c (n_state n))"
    "n_affinity (snd (standalone_submit to_json clock outcome c n)) = n_affinity n"
  using assms
  by (auto simp: standalone_submit_def submit_persist_def submit_memory_def apply_cluster_command_def write_outcome_def
      Let_def split_beta split: option.splits)

lemma submit_registry:
  assumes "\<And>i. accepts_writes (env_role env i)" "\<And>i. env_sqlite env i = TaskOk"
  shows "\<exists>s'. submit_cluster_command env c s = (Inr (), s') \<and> st_tick s' = Suc (st_tick s)
    \<and> n_state (st_node s') = snd (state_apply c (n_state (st_node s))) \<and> n_affinity (st_node s') = n_affinity (st_node s)
    \<and> st_tables s' = st_tables s"
  using assms by (simp add: submit_cluster_command_def handler_defs outside_defs submit_state)

lemma registry_apply:
  "hm_get (ss_contacts (snd (state_apply (RegisterContact b) st))) k =
     (if k = cb_aor b then Some b else hm_get (ss_contacts st) k)"
  "hm_get (ss_contacts (snd (state_apply (UnregisterContact aor) st))) k =
     (if k = aor then None else hm_get (ss_contacts st) k)"
  by (simp_all add: hm_get_def hm_insert_def hm_remove_def update_conv' delete_conv')

text \<open>The contact a binding registers when the clock reads \<open>now\<close>.\<close>

definition contact_for :: "nat \<Rightarrow> duration \<Rightarrow> pending_register_binding \<Rightarrow> contact_binding" where
  "contact_for now expires b = \<lparr>cb_aor = prb_aor b, cb_contact = prb_contact b, cb_source = prb_source b,
     cb_expires_at_epoch_ms = expires_at now expires\<rparr>"

text \<open>Registrations are accepted: the node is active, the database works, no time overflows.\<close>

definition accepting :: "proxy_env \<Rightarrow> duration \<Rightarrow> bool" where
  "accepting env expires \<longleftrightarrow> (\<forall>i. accepts_writes (env_role env i)) \<and> (\<forall>i. env_sqlite env i = TaskOk)
     \<and> (\<forall>i. instant_checked_add (env_instant env i) expires \<noteq> None)"

lemma remember_key_returns:
  "accepting env expires \<Longrightarrow> remember_key h (env_instant env i) ms key target expires t \<noteq> None"
  unfolding accepting_def remember_key_def by (metis (no_types, lifting) option.case_eq_if option.distinct(1))

lemma binding_applied:
  assumes "accepting env expires" "expires \<noteq> 0"
  shows "\<exists>xs s' i. apply_register_binding env target expires b s = (Inr xs, s') \<and> st_tick s \<le> i \<and> i < st_tick s'
    \<and> st_tables s' = st_tables s
    \<and> (\<forall>k. hm_get (registry_of s') k = (if k = prb_aor b then Some (contact_for (env_epoch env i) expires b)
          else hm_get (registry_of s) k))"
proof -
  let ?t = "\<lparr>at_addr = ut_addr target, at_transport = ut_transport target\<rparr>"
  let ?key = "registration_upstream_affinity_key (prb_aor b)"
  obtain bs t where r: "remember_key (env_hash env) (env_instant env (st_tick s)) (env_epoch env (Suc (st_tick s))) ?key ?t
      expires (n_affinity (st_node s)) = Some (bs, t)" using remember_key_returns [OF assms(1)] by fastforce
  define s1 where "s1 = s\<lparr>st_node := (st_node s)\<lparr>n_affinity := t\<rparr>, st_tick := st_tick s + 3\<rparr>"
  let ?b = "contact_for (env_epoch env (st_tick s + 2)) expires b"
  obtain s' where s': "submit_cluster_command env (RegisterContact ?b) s1 = (Inr (), s')"
    "st_tick s' = Suc (st_tick s1)" "n_state (st_node s') = snd (state_apply (RegisterContact ?b) (n_state (st_node s1)))"
    "st_tables s' = st_tables s1" using submit_registry [of env "RegisterContact ?b" s1] assms(1) by (auto simp: accepting_def)
  have "apply_register_binding env target expires b s = (Inr bs, s')"
    using assms(2) r s'(1) unfolding apply_register_binding_def affinity_remember_key_def
    by (simp add: handler_defs outside_defs s1_def contact_for_def numeral_eq_Suc)
  moreover have "hm_get (registry_of s') k = (if k = prb_aor b then Some ?b else hm_get (registry_of s) k)" for k
    by (simp add: s'(3) hm_get_insert s1_def contact_for_def)
  ultimately show ?thesis using s' by (intro exI [of _ bs] exI [of _ s'] exI [of _ "st_tick s + 2"]) (simp add: s1_def)
qed

lemma bindings_applied:
  assumes "accepting env expires" "expires \<noteq> 0" "distinct (map prb_aor bs)"
  shows "\<exists>xs s'. apply_register_bindings env target expires bs s = (Inr xs, s') \<and> st_tick s \<le> st_tick s'
    \<and> st_tables s' = st_tables s
    \<and> (\<forall>b \<in> set bs. \<exists>i. st_tick s \<le> i \<and> i < st_tick s'
         \<and> hm_get (registry_of s') (prb_aor b) = Some (contact_for (env_epoch env i) expires b))
    \<and> (\<forall>k. k \<notin> prb_aor ` set bs \<longrightarrow> hm_get (registry_of s') k = hm_get (registry_of s) k)"
  using assms(3)
proof (induction bs arbitrary: s)
  case Nil
  then show ?case by (simp add: ret_def)
next
  case (Cons b bs)
  obtain xs s1 i where 1: "apply_register_binding env target expires b s = (Inr xs, s1)" "st_tick s \<le> i" "i < st_tick s1"
    "st_tables s1 = st_tables s"
    "\<And>k. hm_get (registry_of s1) k = (if k = prb_aor b then Some (contact_for (env_epoch env i) expires b)
       else hm_get (registry_of s) k)" using binding_applied [OF assms(1,2), of target b s] by blast
  from Cons.IH [of s1] Cons.prems obtain ys s2 where
    2: "apply_register_bindings env target expires bs s1 = (Inr ys, s2)" "st_tick s1 \<le> st_tick s2" "st_tables s2 = st_tables s1"
    "\<And>b. b \<in> set bs \<Longrightarrow> \<exists>i. st_tick s1 \<le> i \<and> i < st_tick s2
       \<and> hm_get (registry_of s2) (prb_aor b) = Some (contact_for (env_epoch env i) expires b)"
    "\<And>k. k \<notin> prb_aor ` set bs \<Longrightarrow> hm_get (registry_of s2) k = hm_get (registry_of s1) k" by auto
  have "prb_aor b \<notin> prb_aor ` set bs" using Cons.prems by auto
  then have b: "hm_get (registry_of s2) (prb_aor b) = Some (contact_for (env_epoch env i) expires b)"
    using 1(5) 2(5) by simp
  have "\<exists>i. st_tick s \<le> i \<and> i < st_tick s2
      \<and> hm_get (registry_of s2) (prb_aor c) = Some (contact_for (env_epoch env i) expires c)" if c: "c \<in> set (b # bs)" for c
  proof (cases "c = b")
    case True
    then show ?thesis using b 1(2,3) 2(2) by (intro exI [of _ i]) simp
  next
    case False
    then obtain j where "st_tick s1 \<le> j" "j < st_tick s2"
      "hm_get (registry_of s2) (prb_aor c) = Some (contact_for (env_epoch env j) expires c)" using c 2(4) [of c] by auto
    then show ?thesis using 1(2,3) by (intro exI [of _ j]) simp
  qed
  moreover have "apply_register_bindings env target expires (b # bs) s = (Inr (xs @ ys), s2)"
    using 1(1) 2(1) by (simp add: seq_def ret_def)
  ultimately show ?case using 1 2 by auto
qed

lemma persist_affinity_keeps:
  "\<exists>s'. persist_affinity env bs s = (Inr (), s') \<and> n_state (st_node s') = n_state (st_node s)
    \<and> st_tables s' = st_tables s \<and> st_tick s' = Suc (st_tick s)"
  by (simp add: persist_affinity_def handler_defs outside_defs)

lemma lookup_first_key:
  assumes "hm_get (registry_of s) k = Some b" "\<not> is_expired (env_epoch env (st_tick s)) b"
  shows "fst (lookup_bindings env (k # ks) s) = Inr (Some b)"
  using assms by (simp add: registry_lookup_def handler_defs outside_defs state_lookup_def)

lemma registration_route_keys_head:
  "trim route \<noteq> [] \<Longrightarrow> \<exists>ks. registration_route_keys hl route = trim route # ks"
  by (auto simp: registration_route_keys_def push_unique_key_def Let_def split: option.split)


text \<open>A small environment for examples: no sockets fail, clocks stand still, headers carry no parameters.\<close>

definition example_headers :: header_lib where
  "example_headers = \<lparr>lib_call_id = \<lambda>_. Some ''call-1'', lib_cseq = \<lambda>_. Some (Some 1), lib_from = \<lambda>_. Some ''a'',
     lib_to = \<lambda>_. Some ''b'', lib_from_uri = \<lambda>v. Some v, lib_to_uri = \<lambda>v. Some v, lib_from_tag = \<lambda>_. Some None,
     lib_to_tag = \<lambda>_. Some None, lib_contacts = \<lambda>_. Some [], lib_expires = \<lambda>_. None, lib_contact_uri = \<lambda>_. None,
     lib_route_uri = \<lambda>_. None, lib_uri_plain = \<lambda>_. None\<rparr>"

definition example_env :: proxy_env where
  "example_env = \<lparr>env_config = default_config, env_routes = route_table_new (c_proxy default_config),
     env_sources = \<lparr>src_cidrs = []\<rparr>, env_user_space_security = False, env_rsip = example_lib,
     env_headers = example_headers,
     env_net = \<lparr>ne_resolve = \<lambda>_. None, ne_stun = \<lambda>_ _. None, ne_local_addr = \<lambda>_. None, ne_local_ips = []\<rparr>,
     env_uri_host = \<lambda>_. None, env_to_json = \<lambda>_. [], env_hash = \<lambda>_. 0,
     env_metric_handles = fst (metric_handles_new (\<lambda>_. 0) (c_proxy default_config) metrics_new),
     env_instant = \<lambda>_. 0, env_epoch = \<lambda>_. 0, env_role = \<lambda>_. Standalone, env_send_ok = \<lambda>_. True,
     env_sqlite = \<lambda>_. TaskOk, env_tcp_send_ok = \<lambda>_. True, env_tcp_answer = \<lambda>_. TcpClosed\<rparr>"

definition example_state :: proxy_state where
  "example_state = \<lparr>st_tick = 0, st_next_id = 1, st_tables = transaction_tables_new,
     st_upstreams = \<lparr>ups_groups = hm_empty, ups_servers_by_addr = hm_empty\<rparr>, st_security = example_runtime,
     st_advertised = hm_empty, st_node = \<lparr>n_state = \<lparr>ss_contacts = hm_empty\<rparr>,
       n_affinity = affinity_table_new (px_affinity (c_proxy default_config)), n_persistence = None\<rparr>,
     st_metrics = snd (metric_handles_new (\<lambda>_. 0) (c_proxy default_config) metrics_new), st_sent = []\<rparr>"

definition example_pending :: pending_register where
  "example_pending = \<lparr>pr_bindings = [\<lparr>prb_aor = ''sip:u@d'', prb_contact = ''sip:u@10.0.0.2'', prb_source = ''10.0.0.2:5060''\<rparr>],
     pr_request_expires = from_secs 60, pr_target = \<lparr>ut_addr = SockV4 1 5060, ut_transport = Udp\<rparr>, pr_created_at = 0\<rparr>"


end
