(* ===== verification/Forward.thy ===== *)
theory Forward
  imports Registration
begin

text \<open>
  Forwarding a request (\<open>proxy/server.rs\<close>): Max-Forwards, the transaction keys, choosing the
  target, removing the proxy's own Route values, the Via, Record-Route and Path the proxy
  adds, and the tables that are filled once a request has left.  Shown here: a request passes
  at most Max-Forwards hops; the chosen target is an upstream server or an address that is not
  the proxy's own, whatever selections and health results came before; the loop that removes own
  Route values ends.  A frame rule says which tables preparing a request leaves alone.
\<close>

section \<open>Keys and header helpers\<close>

definition decrement_max_forwards :: "rsip_lib \<Rightarrow> sip_message \<Rightarrow> sip_error + bool \<times> sip_message" where
  "decrement_max_forwards lib m =
     bind_res (max_forwards lib m) (\<lambda>hops.
       (case hops of
          None \<Rightarrow> Inr (True, set_max_forwards 70 m)
        | Some n \<Rightarrow> if n = 0 then Inr (False, m) else Inr (True, set_max_forwards (n - 1) m)))"

definition cseq_number :: "header_lib \<Rightarrow> rsip_message \<Rightarrow> handler_error + nat" where
  "cseq_number hl r =
     (case lib_cseq hl r of None \<Rightarrow> Inl MissingCSeqHeader | Some None \<Rightarrow> Inl BadCSeq | Some (Some n) \<Rightarrow> Inr n)"

definition call_id_value :: "header_lib \<Rightarrow> rsip_message \<Rightarrow> handler_error + string" where
  "call_id_value hl r = (case lib_call_id hl r of None \<Rightarrow> Inl MissingCallIdHeader | Some v \<Rightarrow> Inr v)"

definition invite_transaction_key :: "rsip_lib \<Rightarrow> header_lib \<Rightarrow> sip_message \<Rightarrow> handler_error + string option" where
  "invite_transaction_key lib hl m =
     bind_res (with_context SipFailed (top_via_branch lib m)) (\<lambda>b.
       (case b of
          None \<Rightarrow> Inr None
        | Some branch \<Rightarrow>
            (case as_request m of
               None \<Rightarrow> Inr None
             | Some r \<Rightarrow>
                 bind_res (call_id_value hl r) (\<lambda>call_id.
                 bind_res (cseq_number hl r) (\<lambda>n.
                   Inr (Some (trim branch @ '':'' @ trim call_id @ '':'' @ dec_str n)))))))"

definition udp_client_transaction_key ::
  "rsip_lib \<Rightarrow> header_lib \<Rightarrow> sip_message \<Rightarrow> sock_addr \<Rightarrow> string \<Rightarrow> handler_error + string option" where
  "udp_client_transaction_key lib hl m peer method =
     bind_res (with_context SipFailed (top_via_branch lib m)) (\<lambda>b.
       (case b of
          None \<Rightarrow> Inr None
        | Some branch \<Rightarrow>
            (case as_request m of
               None \<Rightarrow> Inr None
             | Some r \<Rightarrow>
                 bind_res (call_id_value hl r) (\<lambda>call_id.
                 bind_res (cseq_number hl r) (\<lambda>n.
                   Inr (Some (show_sock peer @ '':'' @ trim branch @ '':'' @ trim call_id @ '':'' @ dec_str n
                     @ '':'' @ method)))))))"

definition should_record_route :: "string \<Rightarrow> bool" where
  "should_record_route method \<longleftrightarrow> method \<in> {''INVITE'', ''SUBSCRIBE'', ''REFER''}"

definition should_record_forward_affinity :: "string \<Rightarrow> bool" where
  "should_record_forward_affinity method \<longleftrightarrow> \<not> eq_ignore_ascii_case method ''OPTIONS''"

fun prepend_record_routes :: "rsip_lib \<Rightarrow> string list \<Rightarrow> sip_message \<Rightarrow> sip_error + sip_message" where
  "prepend_record_routes lib [] m = Inr m"
| "prepend_record_routes lib (a # as) m = bind_res (prepend_record_route lib a m) (prepend_record_routes lib as)"

definition is_2xx :: "sip_message \<Rightarrow> bool" where
  "is_2xx m = (case sm_start_line m of ResponseLine _ code _ \<Rightarrow> 200 \<le> unat code \<and> unat code < 300 | _ \<Rightarrow> False)"

fun join_with :: "string \<Rightarrow> string list \<Rightarrow> string" where
  "join_with sep [] = []"
| "join_with sep [x] = x"
| "join_with sep (x # xs) = x @ sep @ join_with sep xs"

definition ensure_dialog_record_routes ::
  "rsip_lib \<Rightarrow> sip_message \<Rightarrow> string \<Rightarrow> string list \<Rightarrow> sip_error + sip_message" where
  "ensure_dialog_record_routes lib m method addrs =
     (if \<not> should_record_route method \<or> addrs = [] then Inr m
      else if \<not> is_2xx m then Inr m
      else let existing = join_with '','' (sip_headers ''Record-Route'' m)
           in prepend_record_routes lib
                (filter (\<lambda>addr. \<not> contains_str existing (''sip:'' @ addr @ '';lr'')) (rev addrs)) m)"

section \<open>The proxy's own Route values\<close>

definition resolved_advertised_addr_matches ::
  "proxy_env \<Rightarrow> advertise_side \<Rightarrow> proxy_listener_config \<Rightarrow> sock_addr \<Rightarrow> sock_addr \<Rightarrow> bool handler" where
  "resolved_advertised_addr_matches env side listener target route_target =
     seq (advertised env side listener target) (\<lambda>addr. ret (parse_sock addr = Some route_target))"

definition route_targets_this_proxy ::
  "proxy_env \<Rightarrow> string \<Rightarrow> proxy_listener_config \<Rightarrow> sock_addr \<Rightarrow> bool handler" where
  "route_targets_this_proxy env route listener target =
     (case parse_route_target (env_headers env) route (l_transport listener) of
        None \<Rightarrow> ret False
      | Some rt \<Rightarrow>
          if is_advertised_or_listener_addr (env_net env) (c_sip (env_config env)) (ut_addr rt) listener then ret True
          else seq (resolved_advertised_addr_matches env Public listener target (ut_addr rt)) (\<lambda>public.
                 if public then ret True
                 else resolved_advertised_addr_matches env Internal listener target (ut_addr rt)))"

definition top_route_targets_this_proxy ::
  "proxy_env \<Rightarrow> sip_message \<Rightarrow> proxy_listener_config \<Rightarrow> sock_addr \<Rightarrow> bool handler" where
  "top_route_targets_this_proxy env m listener peer =
     seq (lift_err SipFailed (top_header_value ''Route'' m)) (\<lambda>r.
       case r of None \<Rightarrow> ret False | Some route \<Rightarrow> route_targets_this_proxy env route listener peer)"

text \<open>
  The loop of \<open>pop_own_route_headers\<close> with a bound on its rounds; \<open>None\<close> of the result means
  the bound was reached.
\<close>

fun pop_own_routes ::
  "nat \<Rightarrow> proxy_env \<Rightarrow> proxy_listener_config \<Rightarrow> sock_addr \<Rightarrow> sip_message \<Rightarrow> sip_message option handler" where
  "pop_own_routes 0 env listener target m = ret None"
| "pop_own_routes (Suc fuel) env listener target m =
     seq (lift_err SipFailed (top_header_value ''Route'' m)) (\<lambda>r.
       case r of
         None \<Rightarrow> ret (Some m)
       | Some route \<Rightarrow>
           seq (route_targets_this_proxy env route listener target) (\<lambda>own.
             if \<not> own then ret (Some m)
             else seq (lift_err SipFailed (pop_top_header_value (env_rsip env) ''Route'' m)) (\<lambda>(_, m').
               pop_own_routes fuel env listener target m')))"

text \<open>The number of bytes in Route headers bounds the number of their values.\<close>

definition route_weight :: "sip_message \<Rightarrow> nat" where
  "route_weight m = sum_list (map (\<lambda>v. Suc (length v)) (sip_headers ''Route'' m))"

definition pop_own_route_headers ::
  "proxy_env \<Rightarrow> proxy_listener_config \<Rightarrow> sock_addr \<Rightarrow> sip_message \<Rightarrow> sip_message option handler" where
  "pop_own_route_headers env listener target m = pop_own_routes (Suc (route_weight m)) env listener target m"

section \<open>Choosing the target\<close>

abbreviation note_affinity :: "proxy_env \<Rightarrow> string \<Rightarrow> unit handler" where
  "note_affinity env result \<equiv> metric (record_affinity_lookup (env_hash env) (env_metric_handles env) result)"

definition find_invite_transaction :: "proxy_env \<Rightarrow> string option \<Rightarrow> invite_transaction_route option handler" where
  "find_invite_transaction env key =
     (case key of
        None \<Rightarrow> ret None
      | Some k \<Rightarrow> seq (read_instant env) (\<lambda>now. on_tables (lookup_invite_transaction (env_hash env) now (Some k))))"

text \<open>The last two steps of every path: the affinity table, then the upstream group.\<close>

definition affinity_or_upstream ::
  "proxy_env \<Rightarrow> sip_message \<Rightarrow> string \<Rightarrow> proxy_listener_config \<Rightarrow> upstream_target handler" where
  "affinity_or_upstream env m uri listener =
     seq (read_instant env) (\<lambda>now.
     seq (on_node (\<lambda>n. let (r, t) = affinity_lookup (env_hash env) now (affinity_view_of (env_headers env) m) (n_affinity n)
                       in (r, n\<lparr>n_affinity := t\<rparr>))) (\<lambda>r.
     seq (lift_err (\<lambda>_. AffinityKeyFailed) r) (\<lambda>found.
       case found of
         Some a \<Rightarrow>
           let target = \<lparr>ut_addr = at_addr a, ut_transport = at_transport a\<rparr>
           in seq (gets (\<lambda>s. is_healthy_upstream_target target (st_upstreams s))) (\<lambda>healthy.
                if healthy then seq (note_affinity env ''hit'') (\<lambda>_. ret target)
                else seq (note_affinity env ''wrong-side'') (\<lambda>_. pick_upstream env uri listener))
       | None \<Rightarrow> seq (note_affinity env ''miss'') (\<lambda>_. pick_upstream env uri listener))))"

text \<open>A request from an upstream server: the registered contact, the address in the request URI, affinity.\<close>

definition target_from_upstream ::
  "proxy_env \<Rightarrow> sip_message \<Rightarrow> string \<Rightarrow> proxy_listener_config \<Rightarrow> bool \<Rightarrow> upstream_target option
   \<Rightarrow> upstream_target handler" where
  "target_from_upstream env m uri listener allow direct =
     seq (lookup_delivery_registration_binding env m uri allow) (\<lambda>binding.
       case binding of
         Some b \<Rightarrow>
           seq (note_affinity env ''location-hit'') (\<lambda>_.
             case target_for_registration_binding (env_headers env) b (l_transport listener) of
               Some t \<Rightarrow> ret t
             | None \<Rightarrow> pick_upstream env uri listener)
       | None \<Rightarrow>
           (case direct of
              Some t \<Rightarrow> seq (note_affinity env ''request-uri-target'') (\<lambda>_. ret t)
            | None \<Rightarrow> affinity_or_upstream env m uri listener))"

text \<open>A request from a client: the upstream of the registration, affinity.\<close>

definition target_from_client ::
  "proxy_env \<Rightarrow> sip_message \<Rightarrow> string \<Rightarrow> proxy_listener_config \<Rightarrow> upstream_target option \<Rightarrow> upstream_target handler" where
  "target_from_client env m uri listener direct =
     (case direct of
        Some t \<Rightarrow> seq (note_affinity env ''request-uri-target'') (\<lambda>_. ret t)
      | None \<Rightarrow>
          seq (lookup_registered_upstream_target env m uri) (\<lambda>r.
            case r of
              Some t \<Rightarrow> seq (note_affinity env ''registered-upstream-hit'') (\<lambda>_. ret t)
            | None \<Rightarrow> affinity_or_upstream env m uri listener))"

definition choose_target ::
  "proxy_env \<Rightarrow> sip_message \<Rightarrow> string \<Rightarrow> proxy_listener_config \<Rightarrow> string \<Rightarrow> bool \<Rightarrow> bool \<Rightarrow> upstream_target option
   \<Rightarrow> invite_transaction_route option \<Rightarrow> upstream_target handler" where
  "choose_target env m uri listener method from_upstream route_own direct transaction_route =
     (case (if method = ''ACK'' then direct else None) of
        Some t \<Rightarrow> seq (note_affinity env ''request-uri-target'') (\<lambda>_. ret t)
      | None \<Rightarrow>
          (case transaction_route of
             Some route \<Rightarrow> seq (note_affinity env ''transaction-hit'') (\<lambda>_. ret (it_target route))
           | None \<Rightarrow>
               if from_upstream \<or> route_own
               then target_from_upstream env m uri listener (from_upstream \<or> route_own) direct
               else target_from_client env m uri listener direct))"

definition own_addr :: "proxy_env \<Rightarrow> proxy_listener_config \<Rightarrow> sock_addr \<Rightarrow> bool" where
  "own_addr env listener addr \<longleftrightarrow> is_advertised_or_listener_addr (env_net env) (c_sip (env_config env)) addr listener"

text \<open>The last check: an address of the proxy that is no upstream server is replaced.\<close>

definition avoid_self ::
  "proxy_env \<Rightarrow> string \<Rightarrow> proxy_listener_config \<Rightarrow> upstream_target \<Rightarrow> upstream_target handler" where
  "avoid_self env uri listener target =
     seq (gets (\<lambda>s. \<not> ups_contains (ut_addr target) (st_upstreams s) \<and> own_addr env listener (ut_addr target))) (\<lambda>self.
       if self then pick_upstream env uri listener else ret target)"

definition direct_target ::
  "proxy_env \<Rightarrow> upstream_groups \<Rightarrow> bool \<Rightarrow> string \<Rightarrow> proxy_listener_config \<Rightarrow> upstream_target option" where
  "direct_target env u from_upstream uri listener =
     (if \<not> from_upstream then None
      else case parse_contact_target (env_headers env) uri (l_transport listener) of
             None \<Rightarrow> None
           | Some t \<Rightarrow> if ups_contains (ut_addr t) u \<or> own_addr env listener (ut_addr t) then None else Some t)"

section \<open>Preparing a request\<close>

definition proxy_branch_prefix :: string where
  "proxy_branch_prefix = ''z9hG4bK-sigproxy-''"

text \<open>\<open>None\<close> is the panic of \<open>unreachable!\<close>.\<close>

fun rsip_transport_from_sip :: "sip_transport \<Rightarrow> rsip_transport option" where
  "rsip_transport_from_sip Udp = Some RsipUdp"
| "rsip_transport_from_sip Tcp = Some RsipTcp"
| "rsip_transport_from_sip TcpUdp = None"

definition choose_branch :: "invite_transaction_route option \<Rightarrow> string handler" where
  "choose_branch transaction_route =
     (case transaction_route of
        Some route \<Rightarrow> ret (it_branch route)
      | None \<Rightarrow> seq unique_id (\<lambda>i. ret (proxy_branch_prefix @ dec_str (unat i))))"

definition add_via ::
  "proxy_env \<Rightarrow> upstream_target \<Rightarrow> string \<Rightarrow> string \<Rightarrow> sip_message \<Rightarrow> sip_message handler" where
  "add_via env target via_host branch m =
     (case rsip_transport_from_sip (ut_transport target) of
        None \<Rightarrow> fail Panic
      | Some transport \<Rightarrow> lift_err SipFailed (prepend_via (env_rsip env) transport via_host branch m))"

definition record_routes_for ::
  "proxy_env \<Rightarrow> sock_addr \<Rightarrow> sock_addr \<Rightarrow> proxy_listener_config \<Rightarrow> string list handler" where
  "record_routes_for env peer target listener s =
     (let (addrs, cache, i) = record_route_addrs (env_net env) (c_sip (env_config env)) (is_upstream_source env s peer)
            (ups_contains target (st_upstreams s)) target listener (st_advertised s, st_next_id s)
      in (Inr addrs, s\<lparr>st_advertised := cache, st_next_id := i\<rparr>))"

definition add_record_routes ::
  "proxy_env \<Rightarrow> sock_addr \<Rightarrow> sock_addr \<Rightarrow> proxy_listener_config \<Rightarrow> string \<Rightarrow> sip_message
   \<Rightarrow> (sip_message \<times> string list) handler" where
  "add_record_routes env peer target listener method m =
     (if px_record_route (c_proxy (env_config env)) \<and> should_record_route method
      then seq (record_routes_for env peer target listener) (\<lambda>addrs.
           seq (lift_err SipFailed (prepend_record_routes (env_rsip env) (rev addrs) m)) (\<lambda>m'. ret (m', addrs)))
      else ret (m, []))"

definition add_registration ::
  "proxy_env \<Rightarrow> string \<Rightarrow> sock_addr \<Rightarrow> upstream_target \<Rightarrow> string \<Rightarrow> sip_message \<Rightarrow> sip_message handler" where
  "add_registration env via_host peer target branch m =
     seq (read_instant env) (\<lambda>now.
     seq (case effective_register_routing (c_proxy (env_config env)) of
            ContactRewrite \<Rightarrow> lift_err SipFailed
              (rewrite_register_contact_and_pending (env_rsip env) (env_headers env) via_host peer target now m)
          | RoutePath \<Rightarrow> seq (lift_err SipFailed
                (register_contact_routes_pending (env_rsip env) (env_headers env) via_host peer target now m)) (\<lambda>pending.
              seq (lift_err SipFailed (prepend_path (env_rsip env) via_host m)) (\<lambda>m'. ret (m', pending)))) (\<lambda>(m', pending).
     seq (read_instant env) (\<lambda>now'.
     seq (tables (remember_pending_register now' branch pending)) (\<lambda>_. ret m'))))"

record prepared =
  pp_message :: sip_message
  pp_target :: upstream_target
  pp_branch :: string
  pp_invite_key :: "string option"
  pp_record_routes :: "string list"

definition remove_own_routes ::
  "proxy_env \<Rightarrow> proxy_listener_config \<Rightarrow> sock_addr \<Rightarrow> sip_message \<Rightarrow> sip_message handler" where
  "remove_own_routes env listener addr m =
     seq (pop_own_route_headers env listener addr m) (\<lambda>popped. case popped of None \<Rightarrow> fail Diverged | Some m' \<Rightarrow> ret m')"

definition prepare_forward ::
  "proxy_env \<Rightarrow> sip_message \<Rightarrow> sock_addr \<Rightarrow> proxy_listener_config \<Rightarrow> string \<Rightarrow> prepared handler" where
  "prepare_forward env m peer listener method =
     (case request_uri m of
        None \<Rightarrow> fail (Failed NoRequestUri)
      | Some uri \<Rightarrow>
          seq (gets (\<lambda>s. is_upstream_source env s peer)) (\<lambda>from_upstream.
          seq (if from_upstream then top_route_targets_this_proxy env m listener peer else ret False) (\<lambda>route_own.
          seq (gets (\<lambda>s. direct_target env (st_upstreams s) from_upstream uri listener)) (\<lambda>direct.
          seq (if method \<in> {''INVITE'', ''CANCEL'', ''ACK''}
               then lift_err (\<lambda>e. e) (invite_transaction_key (env_rsip env) (env_headers env) m) else ret None) (\<lambda>key.
          seq (if method = ''CANCEL'' \<or> (method = ''ACK'' \<and> direct = None)
               then find_invite_transaction env key else ret None) (\<lambda>transaction_route.
          seq (choose_target env m uri listener method from_upstream route_own direct transaction_route) (\<lambda>chosen.
          seq (avoid_self env uri listener chosen) (\<lambda>target.
          seq (remove_own_routes env listener (ut_addr target) m) (\<lambda>m1.
          seq (choose_branch transaction_route) (\<lambda>branch.
          seq (gets (\<lambda>s. if ups_contains (ut_addr target) (st_upstreams s) then Internal else Public)) (\<lambda>side.
          seq (advertised env side listener (ut_addr target)) (\<lambda>via_host.
          seq (add_via env target via_host branch m1) (\<lambda>m2.
          seq (add_record_routes env peer (ut_addr target) listener method m2) (\<lambda>(m3, addrs).
          seq (if method = ''REGISTER'' then add_registration env via_host peer target branch m3 else ret m3) (\<lambda>m4.
            ret \<lparr>pp_message = m4, pp_target = target, pp_branch = branch, pp_invite_key = key,
               pp_record_routes = addrs\<rparr>)))))))))))))))"

definition remember_successful_forward ::
  "proxy_env \<Rightarrow> sip_message \<Rightarrow> upstream_target \<Rightarrow> string \<Rightarrow> string option \<Rightarrow> string \<Rightarrow> unit handler" where
  "remember_successful_forward env m target branch invite_key method =
     seq (if should_record_forward_affinity method
          then seq (read_instant env) (\<lambda>now. seq (read_epoch env) (\<lambda>now_ms. seq (\<lambda>s.
                 (case remember (env_hash env) now now_ms (affinity_view_of (env_headers env) m)
                         \<lparr>at_addr = ut_addr target, at_transport = ut_transport target\<rparr> (n_affinity (st_node s)) of
                    None \<Rightarrow> (Inl Panic, s)
                  | Some (r, t) \<Rightarrow> (Inr r, s\<lparr>st_node := (st_node s)\<lparr>n_affinity := t\<rparr>\<rparr>))) (\<lambda>r.
                 case r of Inl _ \<Rightarrow> ret () | Inr bindings \<Rightarrow> persist_affinity env bindings)))
          else ret ()) (\<lambda>_.
       if method = ''INVITE''
       then seq (read_instant env) (\<lambda>now. seq (read_instant env) (\<lambda>now'.
              tables (remember_invite_transaction (env_hash env) now now' invite_key target branch)))
       else ret ())"

section \<open>Sequences of handlers\<close>

lemma seq_Inr: "seq m f s = (Inr y, s') \<longleftrightarrow> (\<exists>x s1. m s = (Inr x, s1) \<and> f x s1 = (Inr y, s'))"
  by (auto simp: seq_def split: prod.split sum.split)

lemma gets_Inr: "gets f s = (Inr x, s') \<longleftrightarrow> x = f s \<and> s' = s"
  by (auto simp: gets_def)

lemma ret_Inr: "ret y s = (Inr x, s') \<longleftrightarrow> x = y \<and> s' = s"
  by (auto simp: ret_def)

lemma fail_Inr: "fail e s = (Inr x, s') \<longleftrightarrow> False"
  by (simp add: fail_def)

lemma lift_err_Inr: "lift_err g r s = (Inr x, s') \<longleftrightarrow> r = Inr x \<and> s' = s"
  by (auto simp: lift_err_def split: sum.split)

lemmas handler_Inr = seq_Inr gets_Inr ret_Inr fail_Inr lift_err_Inr

section \<open>Max-Forwards\<close>

text \<open>The crate reads back the Max-Forwards header that was set.\<close>

definition max_forwards_law :: "rsip_lib \<Rightarrow> bool" where
  "max_forwards_law lib \<longleftrightarrow> (\<forall>n m. rl_max_forwards_header lib (sm_inner (set_max_forwards n m)) = Some (dec_str n))"

lemma dec_str_framed: "framed (dec_str n)"
proof -
  have d: "is_digit c \<Longrightarrow> visible c" for c by (auto simp: is_digit_def visible_def)
  have "list_all is_digit (dec_str n)" by (rule dec_str_digits)
  then show ?thesis by (simp add: framed_def list_all_iff d)
qed

lemma max_forwards_set:
  "max_forwards_law lib \<Longrightarrow> n < 2 ^ 32 \<Longrightarrow> max_forwards lib (set_max_forwards n m) = Inr (Some n)"
  by (simp add: max_forwards_law_def max_forwards_def trim_framed dec_str_framed parse_uint_dec_str)

lemma max_forwards_bound: "max_forwards lib m = Inr (Some n) \<Longrightarrow> n < 2 ^ 32"
  using parse_uint_bound by (fastforce simp: max_forwards_def split: option.splits)

text \<open>A request passed on by proxies, one hop after the other, until one refuses it.\<close>

fun hops :: "rsip_lib \<Rightarrow> nat \<Rightarrow> sip_message \<Rightarrow> sip_error + bool \<times> sip_message" where
  "hops lib 0 m = Inr (True, m)"
| "hops lib (Suc k) m = bind_res (decrement_max_forwards lib m) (\<lambda>(go, m'). if go then hops lib k m' else Inr (False, m'))"

lemma hops_counted:
  assumes "max_forwards_law lib"
  shows "max_forwards lib m = Inr (Some n) \<Longrightarrow>
    (\<exists>m'. hops lib n m = Inr (True, m') \<and> max_forwards lib m' = Inr (Some 0)) \<and> (\<forall>k > n. \<exists>m'. hops lib k m = Inr (False, m'))"
proof (induction n arbitrary: m)
  case 0
  have "hops lib (Suc k) m = Inr (False, m)" for k using 0 by (simp add: decrement_max_forwards_def)
  then show ?case using 0 by (auto simp: gr0_conv_Suc)
next
  case (Suc n)
  have "n < 2 ^ 32" using max_forwards_bound [OF Suc.prems] by simp
  then have "max_forwards lib (set_max_forwards n m) = Inr (Some n)" by (rule max_forwards_set [OF assms])
  note ih = Suc.IH [OF this]
  have step: "hops lib (Suc k) m = hops lib k (set_max_forwards n m)" for k
    using Suc.prems by (simp add: decrement_max_forwards_def)
  show ?case
  proof (intro conjI allI impI)
    show "\<exists>m'. hops lib (Suc n) m = Inr (True, m') \<and> max_forwards lib m' = Inr (Some 0)" using ih step by metis
    show "\<exists>m'. hops lib k m = Inr (False, m')" if "Suc n < k" for k
      using that ih step by (cases k) auto
  qed
qed

text \<open>
  C14: A request makes only as many hops as its Max-Forwards header allows, 71 when it has
  none: each proxy takes one off, and the proxy that finds zero refuses the request, so a
  forwarding loop ends.
\<close>

theorem forwarding_hops_bounded:
  assumes "max_forwards_law lib" and "max_forwards lib m = Inr hops_left"
  shows "\<exists>m'. hops lib (case hops_left of Some n \<Rightarrow> n | None \<Rightarrow> 71) m = Inr (True, m') \<and> max_forwards lib m' = Inr (Some 0)
    \<and> (\<forall>k > (case hops_left of Some n \<Rightarrow> n | None \<Rightarrow> 71). \<exists>m'. hops lib k m = Inr (False, m'))"
proof (cases hops_left)
  case (Some n)
  then show ?thesis using hops_counted [OF assms(1)] assms(2) by fastforce
next
  case None
  have 1: "hops lib (Suc k) m = hops lib k (set_max_forwards 70 m)" for k
    using assms(2) None by (simp add: decrement_max_forwards_def)
  have "max_forwards lib (set_max_forwards 70 m) = Inr (Some 70)" by (rule max_forwards_set [OF assms(1)]) simp
  note c = hops_counted [OF assms(1) this]
  have "hops lib 71 m = hops lib 70 (set_max_forwards 70 m)" using 1 [of 70] by simp
  moreover have "\<exists>m'. hops lib k m = Inr (False, m')" if "71 < k" for k
    using that c 1 by (cases k) auto
  ultimately show ?thesis using c None by auto
qed

definition hop_lib :: rsip_lib where
  "hop_lib = example_lib\<lparr>rl_max_forwards_header := \<lambda>m. map_option hd_value (find (named ''Max-Forwards'') (rm_headers m))\<rparr>"

lemma find_replace_first: "P x \<Longrightarrow> find P (replace_first P x xs) = Some x"
proof (induction xs)
  case (Cons a xs)
  then show ?case by (auto simp: replace_first_def split: option.splits)
qed (simp add: replace_first_def)

lemma hop_lib_law: "max_forwards_law hop_lib"
  by (simp add: max_forwards_law_def hop_lib_def example_lib_def set_max_forwards_def set_headers_def find_replace_first
      named_def max_forwards_header_def eq_ignore_ascii_case_def)

theorem forwarding_hops_bounded_witness:
  "\<exists>m'. hops hop_lib 71 (from_inner \<lparr>rm_first = RsipRequest MBye ''sip:a'' ''SIP/2.0'', rm_headers = [], rm_body = []\<rparr>)
     = Inr (True, m') \<and> (\<exists>m''. hops hop_lib 72 (from_inner \<lparr>rm_first = RsipRequest MBye ''sip:a'' ''SIP/2.0'',
         rm_headers = [], rm_body = []\<rparr>) = Inr (False, m''))"
proof -
  let ?m = "from_inner \<lparr>rm_first = RsipRequest MBye ''sip:a'' ''SIP/2.0'', rm_headers = [], rm_body = []\<rparr>"
  have "max_forwards hop_lib ?m = Inr None"
    by (simp add: max_forwards_def hop_lib_def example_lib_def from_inner_def)
  from forwarding_hops_bounded [OF hop_lib_law this] show ?thesis by fastforce
qed

section \<open>Removing own Route values ends\<close>

lemma scan_header_lengths:
  "scan_header q e d acc s = (q', first, rest) \<Longrightarrow>
   (case rest of None \<Rightarrow> True | Some r \<Rightarrow> length first + length r < length acc + length s \<and> length r < length s)"
proof (induction q e d acc s rule: scan_header.induct)
  case (2 q e d acc c s)
  then show ?case by (auto split: if_splits option.splits)
qed (auto split: option.splits)

lemma split_first_rest: "split_first_header_value v = Inr (first, Some rest) \<Longrightarrow> length rest < length v"
  using scan_header_lengths [of False False 0 "[]" v] by (fastforce simp: split_first_header_value_def split: if_splits prod.splits option.splits)

lemma length_trim_start: "length (trim_start s) \<le> length s"
proof (induction s rule: trim_start.induct)
  case (1 s)
  then show ?case by (subst trim_start.simps) (auto simp: Let_def)
qed

lemma length_trim_end: "length (trim_end s) \<le> length s"
proof (induction s rule: trim_end.induct)
  case (1 s)
  then show ?case by (subst trim_end.simps) (auto simp: Let_def)
qed

lemma length_trim: "length (trim s) \<le> length s"
  unfolding trim_def using length_trim_start [of s] length_trim_end by (meson order_trans)

definition route_bytes :: "sip_header \<Rightarrow> nat" where
  "route_bytes hdr = (if named ''Route'' hdr then Suc (length (hd_value hdr)) else 0)"

lemma route_weight_sum: "route_weight m = sum_list (map route_bytes (headers_of m))"
proof -
  have "sum_list (map (\<lambda>v. Suc (length v)) (map hd_value (filter (named ''Route'') hs))) = sum_list (map route_bytes hs)" for hs
    by (induction hs) (simp_all add: route_bytes_def)
  then show ?thesis by (simp add: route_weight_def sip_headers_def)
qed

lemma sum_remove_at: "i < length xs \<Longrightarrow> sum_list (map f (remove_at i xs)) + f (xs ! i) = (sum_list (map f xs) :: nat)"
  by (subst (2) id_take_nth_drop [of i xs]) (simp_all add: remove_at_def)

lemma sum_update:
  assumes "i < length xs"
  shows "sum_list (map f (xs[i := y])) + f (xs ! i) = (sum_list (map f xs) :: nat) + f y"
proof -
  have "map f (xs[i := y]) = (map f xs)[i := f y]" by (rule map_update)
  moreover have "map f xs ! i \<le> sum_list (map f xs)" using assms by (intro elem_le_sum_list) simp
  ultimately show ?thesis using assms by (simp add: sum_list_update)
qed

lemma pop_shrinks:
  assumes "make_header_law lib" "pop_top_header_value lib ''Route'' m = Inr (v, m')"
    and "top_header_value ''Route'' m = Inr (Some route)"
  shows "route_weight m' < route_weight m"
proof -
  obtain i hdr where f: "find_index (named ''Route'') (headers_of m) = Some (i, hdr)"
  proof (cases "find_index (named ''Route'') (headers_of m)")
    case None
    then have "find (named ''Route'') (headers_of m) = None" by (auto simp: find_index_None find_None_iff)
    then show ?thesis using assms(3) by (simp add: top_header_value_def)
  qed auto
  then have i: "i < length (headers_of m)" "headers_of m ! i = hdr" "named ''Route'' hdr" by (simp_all add: find_index_Some)
  from assms(2) f obtain first rest where s: "split_first_header_value (hd_value hdr) = Inr (first, rest)" and
    m': "m' = set_headers (case rest of Some r \<Rightarrow> if trim r \<noteq> [] then (headers_of m)[i := rl_make_header lib ''Route'' (trim r)]
      else remove_at i (headers_of m) | None \<Rightarrow> remove_at i (headers_of m)) m"
    by (auto simp: pop_top_header_value_def pop_value_at_def bind_res_Inr_iff Let_def)
  have old: "route_bytes hdr = Suc (length (hd_value hdr))" using i(3) by (simp add: route_bytes_def)
  show ?thesis
  proof (cases "\<exists>r. rest = Some r \<and> trim r \<noteq> []")
    case True
    then obtain r where r: "rest = Some r" "trim r \<noteq> []" by blast
    let ?h = "rl_make_header lib ''Route'' (trim r)"
    have "route_bytes ?h = Suc (length (trim r))" using assms(1) by (simp add: make_header_law_def route_bytes_def)
    moreover have "length (trim r) < length (hd_value hdr)"
      using split_first_rest [of "hd_value hdr" first r] s r(1) length_trim [of r] by simp
    ultimately show ?thesis using sum_update [OF i(1), of route_bytes ?h] old i(2)
      unfolding route_weight_sum m' by (simp add: r)
  next
    case False
    then have "m' = set_headers (remove_at i (headers_of m)) m" unfolding m' by (auto split: option.split)
    then show ?thesis using sum_remove_at [OF i(1), of route_bytes] old i(2) unfolding route_weight_sum by simp
  qed
qed

text \<open>The bound on the rounds is never reached.\<close>

lemma pop_own_routes_returns:
  assumes "make_header_law (env_rsip env)"
  shows "route_weight m < fuel \<Longrightarrow> fst (pop_own_routes fuel env listener target m s) \<noteq> Inr None"
proof (induction fuel arbitrary: m s)
  case (Suc fuel)
  show ?case
  proof
    assume "fst (pop_own_routes (Suc fuel) env listener target m s) = Inr None"
    then obtain s' where "pop_own_routes (Suc fuel) env listener target m s = (Inr None, s')" by (metis prod.collapse)
    then obtain route s1 v m' where t: "top_header_value ''Route'' m = Inr (Some route)"
      and p: "pop_top_header_value (env_rsip env) ''Route'' m = Inr (v, m')"
      and r: "pop_own_routes fuel env listener target m' s1 = (Inr None, s')"
      by (auto simp: handler_Inr split: option.splits if_splits)
    have "route_weight m' < fuel" using pop_shrinks [OF assms p t] Suc.prems by simp
    from Suc.IH [OF this] r show False by (metis fst_conv)
  qed
qed simp

lemma pop_own_route_headers_returns:
  "make_header_law (env_rsip env) \<Longrightarrow> fst (pop_own_route_headers env listener target m s) \<noteq> Inr None"
  unfolding pop_own_route_headers_def by (rule pop_own_routes_returns) simp_all

section \<open>Where a request goes\<close>

text \<open>Every server of every group is in the index of addresses.\<close>

definition indexed :: "upstream_groups \<Rightarrow> bool" where
  "indexed u \<longleftrightarrow> (\<forall>name g. hm_get (ups_groups u) name = Some g \<longrightarrow> (\<forall>a \<in> set (ur_servers g). ups_contains a u))"

lemma fold_insert_dom:
  "hm_get (fold (\<lambda>(i, a) m. hm_insert a (f i a m) m) xs m) k \<noteq> None \<longleftrightarrow> k \<in> snd ` set xs \<or> hm_get m k \<noteq> None"
  by (induction xs arbitrary: m) (auto simp: hm_get_insert split: if_splits)

lemma first_indices_all: "snd ` set (first_indices servers) = set servers"
proof (intro equalityI subsetI)
  fix a assume "a \<in> snd ` set (first_indices servers)"
  then show "a \<in> set servers" by (auto simp: first_indices_def in_set_enumerate_eq)
next
  fix a assume a: "a \<in> set servers"
  then obtain ys zs where y: "servers = ys @ a # zs" "a \<notin> set ys" by (metis split_list_first)
  then have "(length ys, a) \<in> set (first_indices servers)" by (simp add: first_indices_def in_set_enumerate_eq)
  then show "a \<in> snd ` set (first_indices servers)" by force
qed

lemma index_group_dom:
  "hm_get (index_group (gname, g) m) a \<noteq> None \<longleftrightarrow> a \<in> set (ur_servers g) \<or> hm_get m a \<noteq> None"
  unfolding index_group_def prod.case by (subst fold_insert_dom) (simp add: first_indices_all)

lemma fold_index_dom:
  "hm_get (fold index_group gs m) a \<noteq> None \<longleftrightarrow> (\<exists>(gname, g) \<in> set gs. a \<in> set (ur_servers g)) \<or> hm_get m a \<noteq> None"
proof (induction gs arbitrary: m)
  case (Cons p gs)
  then show ?case using index_group_dom [of "fst p" "snd p" m a] by (cases p) auto
qed simp

lemma indexed_new: "upstream_groups_new resolve configs = Inr u \<Longrightarrow> indexed u"
proof -
  assume "upstream_groups_new resolve configs = Inr u"
  then have u: "ups_servers_by_addr u = fold index_group (ups_groups u) hm_empty"
    by (auto simp: upstream_groups_new_def bind_res_Inr_iff Let_def)
  show ?thesis unfolding indexed_def ups_contains_def u
  proof (intro allI impI ballI)
    fix name g a assume "hm_get (ups_groups u) name = Some g" "a \<in> set (ur_servers g)"
    then have "\<exists>(gname, g) \<in> set (ups_groups u). a \<in> set (ur_servers g)" by (auto simp: hm_get_def dest!: map_of_SomeD)
    then show "hm_get (fold index_group (ups_groups u) hm_empty) a \<noteq> None"
      using fold_index_dom [of "ups_groups u" hm_empty a] by blast
  qed
qed

text \<open>What the handlers do to the upstream groups: the same groups, servers and index.\<close>

definition same_servers :: "upstream_groups \<Rightarrow> upstream_groups \<Rightarrow> bool" where
  "same_servers u v \<longleftrightarrow> ups_servers_by_addr v = ups_servers_by_addr u
     \<and> (\<forall>name. map_option ur_servers (hm_get (ups_groups v) name) = map_option ur_servers (hm_get (ups_groups u) name))"

lemma same_servers_refl [simp]: "same_servers u u"
  by (simp add: same_servers_def)

lemma same_servers_trans: "same_servers u v \<Longrightarrow> same_servers v w \<Longrightarrow> same_servers u w"
  by (simp add: same_servers_def)

lemma same_servers_contains: "same_servers u v \<Longrightarrow> ups_contains a v = ups_contains a u"
  by (simp add: same_servers_def ups_contains_def)

lemma same_servers_indexed: "same_servers u v \<Longrightarrow> indexed u \<Longrightarrow> indexed v"
  unfolding indexed_def
proof (intro allI impI ballI)
  fix name g a
  assume s: "same_servers u v" and i: "\<forall>name g. hm_get (ups_groups u) name = Some g \<longrightarrow> (\<forall>a \<in> set (ur_servers g). ups_contains a u)"
    and g: "hm_get (ups_groups v) name = Some g" and a: "a \<in> set (ur_servers g)"
  from s g have "map_option ur_servers (hm_get (ups_groups u) name) = Some (ur_servers g)"
    by (metis same_servers_def option.simps(9))
  then obtain g' where "hm_get (ups_groups u) name = Some g'" "ur_servers g' = ur_servers g" by (auto simp: map_option_eq_Some)
  then show "ups_contains a v" using i a same_servers_contains [OF s] by metis
qed

lemma same_servers_insert:
  "hm_get (ups_groups u) name = Some g \<Longrightarrow> ur_servers g' = ur_servers g \<Longrightarrow>
   same_servers u (u\<lparr>ups_groups := hm_insert name g' (ups_groups u)\<rparr>)"
  by (simp add: same_servers_def hm_get_insert)

lemma same_servers_select: "same_servers u (snd (ups_select name u))"
  by (auto simp: ups_select_def group_select_def split_beta Let_def select_loop_other_fields
      intro!: same_servers_insert split: option.split)

lemma ur_servers_passive: "ur_servers (record_passive_result_at i healthy g) = ur_servers g"
  by (simp add: record_passive_result_at_def record_health_result_def Let_def)

lemma passive_fold_servers:
  "map_option ur_servers (hm_get (fold (\<lambda>(gname, i) m.
      (case hm_get m gname of None \<Rightarrow> m | Some g \<Rightarrow> hm_insert gname (record_passive_result_at i healthy g) m)) refs m) name) =
   map_option ur_servers (hm_get m name)"
proof (induction refs arbitrary: m)
  case (Cons r refs)
  show ?case unfolding fold_Cons o_def Cons.IH
    by (cases r) (auto simp: hm_get_insert ur_servers_passive split: option.split)
qed simp

lemma same_servers_passive: "same_servers u (record_passive_result a healthy u)"
  by (auto simp: record_passive_result_def same_servers_def passive_fold_servers split: option.split)

lemma same_servers_step: "same_servers u (ups_step op u)"
proof (cases op)
  case (UpsProbe name i healthy)
  then show ?thesis
    by (auto simp: record_health_result_def Let_def intro!: same_servers_insert split: option.split)
qed (simp_all add: same_servers_select same_servers_passive)

lemma same_servers_run: "same_servers u (fold ups_step ops u)"
  by (induction ops arbitrary: u) (auto intro: same_servers_trans same_servers_step)

lemma select_contained:
  "indexed u \<Longrightarrow> fst (select_upstream uri_host routes uri listener u) = Some t \<Longrightarrow> ups_contains (ut_addr t) u"
  by (auto simp: select_upstream_def Let_def split_beta ups_select_def group_select_def indexed_def select_loop_server
      split: option.splits sum.splits if_splits)

interpretation frame: handler_frame "\<lambda>s t. same_servers (st_upstreams s) (st_upstreams t)"
  by unfold_locales (auto intro: same_servers_trans)

lemma frame_updates [intro, simp]:
  "frame.keeps (tables f)" "frame.keeps (metric g)" "frame.keeps (metric_opt g')" "frame.keeps (on_tables h)"
  "frame.keeps (on_node k)" "frame.keeps (on_security r)" "frame.keeps (read_instant env)" "frame.keeps (read_epoch env)"
  "frame.keeps (clocks env n)" "frame.keeps (sqlite_outcome env)" "frame.keeps (send_to env a b)"
  "frame.keeps (write_all env b)" "frame.keeps unique_id" "frame.keeps (advertised env side listener target)"
  by (simp_all add: frame.keeps_def handler_defs outside_defs advertised_def split_beta Let_def split: option.split)

lemma frame_pick [intro, simp]: "frame.keeps (pick_upstream env uri listener)"
  by (simp add: frame.keeps_def pick_upstream_def select_upstream_def Let_def split_beta same_servers_select)

lemma frame_step: "frame.keeps m \<Longrightarrow> m s = (r, s') \<Longrightarrow> same_servers (st_upstreams s) (st_upstreams s')"
  by (metis frame.keeps_def snd_conv)

lemma frame_lookup_bindings [intro, simp]: "frame.keeps (lookup_bindings env ks)"
  by (induction ks) (auto simp: registry_lookup_def intro!: frame.keeps_seq split: option.split)

lemma frame_delivery [intro, simp]: "frame.keeps (lookup_delivery_registration_binding env m uri allow)"
  by (auto simp: lookup_delivery_registration_binding_def lookup_registration_binding_def
      intro!: frame.keeps_seq split: option.split sum.split)

lemma frame_lookup_upstream_keys [intro, simp]: "frame.keeps (lookup_upstream_keys env ks)"
  by (induction ks) (auto simp: affinity_lookup_key_def Let_def intro!: frame.keeps_seq split: option.split)

lemma frame_registered_upstream [intro, simp]: "frame.keeps (lookup_registered_upstream_target env m uri)"
  by (simp add: lookup_registered_upstream_target_def)

lemma frame_affinity_or_upstream [intro, simp]: "frame.keeps (affinity_or_upstream env m uri listener)"
  by (auto simp: affinity_or_upstream_def Let_def intro!: frame.keeps_seq split: option.split)

lemma frame_choose_target [intro, simp]: "frame.keeps (choose_target env m uri listener method fu ro direct tr)"
  by (auto simp: choose_target_def target_from_upstream_def target_from_client_def intro!: frame.keeps_seq split: option.split)

lemma frame_route_targets [intro, simp]: "frame.keeps (route_targets_this_proxy env route listener target)"
  by (auto simp: route_targets_this_proxy_def resolved_advertised_addr_matches_def intro!: frame.keeps_seq split: option.split)

lemma frame_top_route [intro, simp]: "frame.keeps (top_route_targets_this_proxy env m listener peer)"
  by (auto simp: top_route_targets_this_proxy_def intro!: frame.keeps_seq split: option.split)

lemma frame_find_invite [intro, simp]: "frame.keeps (find_invite_transaction env key)"
  by (auto simp: find_invite_transaction_def intro!: frame.keeps_seq split: option.split)

lemma pick_upstream_contained:
  assumes "indexed (st_upstreams s)" "pick_upstream env uri listener s = (Inr t, s')"
  shows "ups_contains (ut_addr t) (st_upstreams s)"
  using assms select_contained [of "st_upstreams s" "env_uri_host env" "env_routes env" uri listener t]
  by (auto simp: pick_upstream_def Let_def split_beta split: option.splits)

lemma avoid_self_safe:
  assumes "indexed (st_upstreams s)" "avoid_self env uri listener t s = (Inr t', s')"
  shows "ups_contains (ut_addr t') (st_upstreams s) \<or> \<not> own_addr env listener (ut_addr t')"
  using assms pick_upstream_contained by (auto simp: avoid_self_def handler_Inr split: if_splits)

lemma prepared_target:
  assumes "prepare_forward env m peer listener method s = (Inr p, s')"
  obtains uri chosen s1 s2 where "request_uri m = Some uri" "same_servers (st_upstreams s) (st_upstreams s1)"
    "avoid_self env uri listener chosen s1 = (Inr (pp_target p), s2)"
proof -
  obtain uri where uri: "request_uri m = Some uri"
    using assms by (auto simp: prepare_forward_def fail_def split: option.splits)
  define fu where "fu = is_upstream_source env s peer"
  from assms obtain ro sa key sb tr sc chosen sd target se where
    a: "(if fu then top_route_targets_this_proxy env m listener peer else ret False) s = (Inr ro, sa)" and
    b: "(if method \<in> {''INVITE'', ''CANCEL'', ''ACK''} then lift_err (\<lambda>e. e) (invite_transaction_key (env_rsip env) (env_headers env) m)
         else ret None) sa = (Inr key, sb)" and
    c: "(if method = ''CANCEL'' \<or> (method = ''ACK'' \<and> direct_target env (st_upstreams sa) fu uri listener = None)
         then find_invite_transaction env key else ret None) sb = (Inr tr, sc)" and
    d: "choose_target env m uri listener method fu ro (direct_target env (st_upstreams sa) fu uri listener) tr sc = (Inr chosen, sd)" and
    e: "avoid_self env uri listener chosen sd = (Inr target, se)" and t: "pp_target p = target"
    unfolding prepare_forward_def uri option.case fu_def
    by (simp only: handler_Inr) (fastforce simp: handler_Inr split: option.splits if_splits)
  have "same_servers (st_upstreams s) (st_upstreams sa)"
    using a frame_step [OF frame_top_route] by (auto simp: handler_Inr split: if_splits)
  moreover have "same_servers (st_upstreams sa) (st_upstreams sb)" using b by (auto simp: handler_Inr split: if_splits)
  moreover have "same_servers (st_upstreams sb) (st_upstreams sc)"
    using c frame_step [OF frame_find_invite] by (auto simp: handler_Inr split: if_splits)
  moreover have "same_servers (st_upstreams sc) (st_upstreams sd)" by (rule frame_step [OF frame_choose_target d])
  ultimately have "same_servers (st_upstreams s) (st_upstreams sd)" using same_servers_trans by metis
  then show ?thesis using that uri e t by blast
qed

text \<open>Handlers that never report a bound that was reached.\<close>

definition ends :: "'a handler \<Rightarrow> bool" where
  "ends m \<longleftrightarrow> (\<forall>s. fst (m s) \<noteq> Inl Diverged)"

lemma ends_basic [intro, simp]:
  "ends (ret x)" "ends (gets f)" "ends (lift_err g r)" "ends (tables t)" "ends (metric g')" "ends (metric_opt g'')"
  "ends (on_tables h)" "ends (on_node k)" "ends (read_instant env)" "ends (read_epoch env)" "ends (sqlite_outcome env)"
  "ends unique_id" "ends (advertised env side listener target)" "ends (pick_upstream env uri listener)" "ends (fail Panic)"
  "ends (fail (Failed e))" "ends (record_routes_for env peer addr listener)"
  by (auto simp: ends_def handler_defs outside_defs advertised_def pick_upstream_def record_routes_for_def split_beta Let_def
      split: option.split sum.split)

lemma ends_seq [intro]:
  assumes m: "ends m" and f: "\<And>x. ends (f x)"
  shows "ends (seq m f)"
  unfolding ends_def
proof
  fix s
  obtain r s' where ms: "m s = (r, s')" by fastforce
  show "fst (seq m f s) \<noteq> Inl Diverged"
  proof (cases r)
    case (Inl e)
    then have "e \<noteq> Diverged" using m ms unfolding ends_def by (metis fst_conv)
    then show ?thesis using ms Inl by (simp add: seq_def)
  next
    case (Inr x)
    then show ?thesis using f [of x] ms by (simp add: ends_def seq_def)
  qed
qed

lemma ends_lookup_bindings [intro, simp]: "ends (lookup_bindings env ks)"
  by (induction ks) (auto simp: registry_lookup_def intro!: ends_seq split: option.split)

lemma ends_delivery [intro, simp]: "ends (lookup_delivery_registration_binding env m uri allow)"
  by (auto simp: lookup_delivery_registration_binding_def lookup_registration_binding_def
      intro!: ends_seq split: option.split sum.split)

lemma ends_lookup_upstream_keys [intro, simp]: "ends (lookup_upstream_keys env ks)"
  by (induction ks) (auto simp: affinity_lookup_key_def Let_def intro!: ends_seq split: option.split)

lemma ends_affinity_or_upstream [intro, simp]: "ends (affinity_or_upstream env m uri listener)"
  by (auto simp: affinity_or_upstream_def Let_def intro!: ends_seq split: option.split)

lemma ends_registered_upstream [intro, simp]: "ends (lookup_registered_upstream_target env m uri)"
  by (simp add: lookup_registered_upstream_target_def)

lemma ends_from [intro, simp]:
  "ends (target_from_upstream env m uri listener allow direct)" "ends (target_from_client env m uri listener direct)"
  by (auto simp: target_from_upstream_def target_from_client_def intro!: ends_seq split: option.split)

lemma ends_choose_target [intro, simp]: "ends (choose_target env m uri listener method fu ro direct tr)"
  by (auto simp: choose_target_def intro!: ends_seq split: option.split)

lemma ends_route_targets [intro, simp]: "ends (route_targets_this_proxy env route listener target)"
  by (auto simp: route_targets_this_proxy_def resolved_advertised_addr_matches_def intro!: ends_seq split: option.split)

lemma ends_top_route [intro, simp]: "ends (top_route_targets_this_proxy env m listener peer)"
  by (auto simp: top_route_targets_this_proxy_def intro!: ends_seq split: option.split)

lemma ends_find_invite [intro, simp]: "ends (find_invite_transaction env key)"
  by (auto simp: find_invite_transaction_def intro!: ends_seq split: option.split)

lemma ends_pop_own_routes [intro, simp]: "ends (pop_own_routes fuel env listener target m)"
  by (induction fuel arbitrary: m) (auto intro!: ends_seq split: option.split)

lemma ends_add [intro, simp]:
  "ends (choose_branch tr)" "ends (add_via env target via_host branch m)"
  "ends (add_record_routes env peer addr listener method m)" "ends (add_registration env via_host peer target branch m)"
  "ends (avoid_self env uri listener target)"
  by (auto simp: choose_branch_def add_via_def add_record_routes_def add_registration_def avoid_self_def
      intro!: ends_seq split: option.split register_routing_mode.split)

lemma ends_remove_own_routes:
  assumes "make_header_law (env_rsip env)"
  shows "ends (remove_own_routes env listener addr m)"
  unfolding ends_def
proof
  fix s
  obtain r s' where ms: "pop_own_route_headers env listener addr m s = (r, s')" by fastforce
  have "r \<noteq> Inr None" using pop_own_route_headers_returns [OF assms, of listener addr m s] ms by simp
  moreover have "r \<noteq> Inl Diverged" using ends_pop_own_routes ms unfolding ends_def pop_own_route_headers_def by (metis fst_conv)
  ultimately show "fst (remove_own_routes env listener addr m s) \<noteq> Inl Diverged"
    using ms by (auto simp: remove_own_routes_def seq_def ret_def split: sum.split option.split)
qed

lemma prepare_ends:
  assumes "make_header_law (env_rsip env)"
  shows "ends (prepare_forward env m peer listener method)"
  unfolding prepare_forward_def using ends_remove_own_routes [OF assms]
  by (auto intro!: ends_seq split: option.split)

text \<open>
  A client's CANCEL in an environment where nothing fails: the message library reads the whole value
  of the top Via header as the branch, and the INVITE went to \<open>0.0.0.2:5060\<close> with the branch number 7.
\<close>

definition via_request :: "sip_method \<Rightarrow> sip_message" where
  "via_request method = from_inner \<lparr>rm_first = RsipRequest method ''sip:a'' ''SIP/2.0'',
     rm_headers = [via_header ''z9hG4bK1''], rm_body = []\<rparr>"

definition via_lib :: rsip_lib where
  "via_lib = example_lib\<lparr>rl_parse := \<lambda>_. Some (sm_inner (via_request MCancel)),
     rl_transaction_id := \<lambda>m. Inr (map_option hd_value (find (named ''Via'') (rm_headers m))),
     rl_via := \<lambda>_ _ branch. Some (via_header branch)\<rparr>"

definition via_env :: proxy_env where
  "via_env = example_env\<lparr>env_rsip := via_lib\<rparr>"

definition via_listener :: proxy_listener_config where
  "via_listener = example_listener\<lparr>l_bind := show_sock (SockV4 9 5060)\<rparr>"

definition cancel_invite :: invite_transaction_route where
  "cancel_invite = \<lparr>it_target = \<lparr>ut_addr = SockV4 2 5060, ut_transport = Udp\<rparr>, it_branch = proxy_branch_prefix @ ''7'', it_created_at = 0\<rparr>"

definition cancel_key :: string where
  "cancel_key = trim ''z9hG4bK1'' @ '':'' @ trim ''call-1'' @ '':'' @ dec_str 1"

definition cancel_state :: proxy_state where
  "cancel_state = example_state\<lparr>st_tables := transaction_tables_new\<lparr>tx_invite_transactions :=
     sharded_insert (\<lambda>_. 0) cancel_key cancel_invite (sharded_new route_map_shards)\<rparr>\<rparr>"

text \<open>What the CANCEL and the state it meets must have for it to be prepared.\<close>

definition cancel_like :: "sip_message \<Rightarrow> bool" where
  "cancel_like m \<longleftrightarrow> request_uri m = Some ''sip:a'' \<and> top_header_value ''Route'' m = Inr None
     \<and> invite_transaction_key via_lib example_headers m = Inr (Some cancel_key)"

definition cancel_ready :: "proxy_state \<Rightarrow> bool" where
  "cancel_ready s \<longleftrightarrow> \<not> ups_contains (SockV4 1 5060) (st_upstreams s) \<and> \<not> ups_contains (SockV4 2 5060) (st_upstreams s)
     \<and> st_node s = st_node example_state \<and> tx_pending_registers (st_tables s) = hm_empty
     \<and> fst (lookup_invite_transaction (\<lambda>_. 0) 0 (Some cancel_key) (st_tables s)) = Some cancel_invite"

lemma via_env_simps:
  "env_rsip via_env = via_lib" "env_headers via_env = example_headers" "env_hash via_env = (\<lambda>_. 0)" "env_instant via_env = (\<lambda>_. 0)"
  "env_epoch via_env = (\<lambda>_. 0)" "env_send_ok via_env = (\<lambda>_. True)" "env_sources via_env = \<lparr>src_cidrs = []\<rparr>" "env_config via_env = default_config"
  "env_net via_env =  \<lparr>ne_resolve = \<lambda>_. None, ne_stun = \<lambda>_ _. None, ne_local_addr = \<lambda>_. None, ne_local_ips = []\<rparr>"
  "env_role via_env = (\<lambda>_. Standalone)" "env_user_space_security via_env = False"
  by (simp_all add: via_env_def example_env_def)

lemma cancel_has_key: "invite_transaction_key via_lib example_headers (via_request MCancel) = Inr (Some cancel_key)"
    by (simp add: invite_transaction_key_def via_lib_def via_request_def top_via_branch_def from_inner_def
        as_request_def call_id_value_def cseq_number_def example_headers_def via_header_def named_def
        eq_ignore_ascii_case_def cancel_key_def with_context_def)

lemma cancel_finds_invite: "fst (lookup_invite_transaction (\<lambda>_. 0) 0 (Some cancel_key) (st_tables cancel_state)) = Some cancel_invite"
  by (simp add: lookup_invite_transaction_def cancel_state_def Let_def with_shard_def sharded_insert_def sharded_new_def sharded_get_def
      shard_for_key_def string_shard_index_def route_map_shards_def hm_get_def hm_insert_def prune_invite_transactions_def hm_retain_def
      invite_alive_def time_simps cancel_invite_def hm_empty_def)

lemma cancel_is_cancel: "cancel_like (via_request MCancel)"
  using cancel_has_key
  by (simp add: cancel_like_def request_uri_def via_request_def from_inner_def top_header_value_def via_header_def named_def
      eq_ignore_ascii_case_def sip_headers_def)

lemma cancel_state_ready:
  assumes "\<not> ups_contains (SockV4 1 5060) u" "\<not> ups_contains (SockV4 2 5060) u"
  shows "cancel_ready (cancel_state\<lparr>st_upstreams := u\<rparr>)"
  using assms cancel_finds_invite by (simp add: cancel_ready_def cancel_state_def transaction_tables_new_def)

lemma cancel_target_not_own: "\<not> own_addr via_env via_listener (SockV4 2 5060)"
proof -
  have "parse_sock (l_bind via_listener) = Some (SockV4 9 5060)"
    using parse_show_sock_v4 [of 9 5060] by (simp add: via_listener_def del: show_sock.simps)
  then show ?thesis unfolding own_addr_def
  by (simp add: is_advertised_or_listener_addr_def via_env_simps default_config_def default_sip_def listener_bind_matches_addr_def)
qed

lemma cancel_from_client: "cancel_ready s \<Longrightarrow> \<not> is_upstream_source via_env s (SockV4 1 5060)"
  by (simp add: is_upstream_source_def via_env_simps cancel_ready_def upstream_sources_contains_def)

lemma cancel_prepared:
  assumes "cancel_like m" "cancel_ready s"
  shows "\<exists>p s1. prepare_forward via_env m (SockV4 1 5060) via_listener ''CANCEL'' s = (Inr p, s1)
    \<and> pp_target p = \<lparr>ut_addr = SockV4 2 5060, ut_transport = Udp\<rparr> \<and> tx_pending_registers (st_tables s1) = hm_empty \<and> st_node s1 = st_node s"
proof -
  have "prepend_via via_lib t h b m = Inr (set_headers (via_header b # headers_of m) m)" for t h b m by (simp add: prepend_via_def via_lib_def)
  moreover have "tx_pending_registers (snd (lookup_invite_transaction (\<lambda>_. 0) 0 (Some cancel_key) (st_tables s))) = tx_pending_registers (st_tables s)"
    by (simp add: lookup_invite_transaction_def Let_def)
  moreover have "it_target cancel_invite = \<lparr>ut_addr = SockV4 2 5060, ut_transport = Udp\<rparr>" by (simp add: cancel_invite_def)
  ultimately show ?thesis
  using cancel_from_client [OF assms(2)] cancel_target_not_own assms
  by (simp add: cancel_like_def cancel_ready_def prepare_forward_def handler_defs outside_defs via_env_simps direct_target_def find_invite_transaction_def
     choose_target_def avoid_self_def remove_own_routes_def pop_own_route_headers_def choose_branch_def advertised_def add_via_def
     add_record_routes_def should_record_route_def split_beta Let_def)
qed

text \<open>
  C3: Whatever selections, probes and responses happened before, a prepared request is sent to
  a configured upstream server or to an address that the proxy does not answer on for the listener
  that received it: neither one of the addresses of the section \<open>sip\<close> nor what that listener is
  bound to, which for a wildcard is its port on a local interface.  The bind address of another
  listener is not excluded.  Removing the proxy's own Route values from a request always ends.
\<close>

theorem prepared_request_leaves_proxy:
  assumes "upstream_groups_new resolve configs = Inr u0" and "st_upstreams s = fold ups_step ops u0"
    and "make_header_law (env_rsip env)"
  shows "(case fst (prepare_forward env m peer listener method s) of
      Inr p \<Rightarrow> ups_contains (ut_addr (pp_target p)) u0
        \<or> \<not> is_advertised_or_listener_addr (env_net env) (c_sip (env_config env)) (ut_addr (pp_target p)) listener
    | Inl e \<Rightarrow> e \<noteq> Diverged)"
proof -
  have u: "same_servers u0 (st_upstreams s)" unfolding assms(2) by (rule same_servers_run)
  have i: "indexed (st_upstreams s)" by (rule same_servers_indexed [OF u indexed_new [OF assms(1)]])
  show ?thesis
  proof (cases "prepare_forward env m peer listener method s")
    case (Pair r s')
    show ?thesis
    proof (cases r)
      case (Inr p)
      with Pair have "prepare_forward env m peer listener method s = (Inr p, s')" by simp
      then obtain uri chosen s1 s2 where 1: "same_servers (st_upstreams s) (st_upstreams s1)"
        "avoid_self env uri listener chosen s1 = (Inr (pp_target p), s2)" by (rule prepared_target)
      from avoid_self_safe [OF same_servers_indexed [OF 1(1) i] 1(2)] show ?thesis
        using Pair Inr same_servers_contains [OF 1(1)] same_servers_contains [OF u] by (simp add: own_addr_def)
    next
      case (Inl e)
      then show ?thesis using Pair prepare_ends [OF assms(3)] by (metis (mono_tags, lifting) ends_def fst_conv old.sum.simps(5))
    qed
  qed
qed

text \<open>
  The instance for the default configuration after one selection: the CANCEL is prepared, and its
  target, which is no configured server, is not an address of the listener.
\<close>

theorem prepared_request_leaves_proxy_witness:
  "\<exists>u0 p s'. upstream_groups_new (\<lambda>_. None) (px_upstream_groups (c_proxy default_config)) = Inr u0
    \<and> prepare_forward via_env (via_request MCancel) (SockV4 1 5060) via_listener ''CANCEL''
         (cancel_state\<lparr>st_upstreams := fold ups_step [UpsSelect ''default''] u0\<rparr>) = (Inr p, s')
    \<and> \<not> ups_contains (ut_addr (pp_target p)) u0
    \<and> \<not> is_advertised_or_listener_addr (env_net via_env) (c_sip (env_config via_env)) (ut_addr (pp_target p)) via_listener"
proof -
  obtain u0 where u0: "upstream_groups_new (\<lambda>_. None) (px_upstream_groups (c_proxy default_config)) = Inr u0"
      "\<not> ups_contains (SockV4 1 5060) u0" "\<not> ups_contains (SockV4 2 5060) u0"
    by (auto simp: upstream_groups_new_def upstream_group_new_def resolve_upstream_server_def parse_default_server
        default_config_def default_proxy_def Let_def ups_contains_def hm_get_def hm_insert_def hm_empty_def index_group_def first_indices_def)
  have law: "make_header_law (env_rsip via_env)"
    by (simp add: via_env_simps via_lib_def make_header_law_def example_lib_def named_def eq_ignore_ascii_case_def)
  let ?u = "fold ups_step [UpsSelect ''default''] u0"
  let ?s = "cancel_state\<lparr>st_upstreams := ?u\<rparr>"
  have "cancel_ready ?s"
    using u0(2,3) by (intro cancel_state_ready) (simp_all only: same_servers_contains [OF same_servers_run] not_False_eq_True)
  from cancel_prepared [OF cancel_is_cancel this] obtain p s' where
    p: "prepare_forward via_env (via_request MCancel) (SockV4 1 5060) via_listener ''CANCEL'' ?s = (Inr p, s')"
      "pp_target p = \<lparr>ut_addr = SockV4 2 5060, ut_transport = Udp\<rparr>" by blast
  have "st_upstreams ?s = ?u" by simp
  from prepared_request_leaves_proxy [OF u0(1) this law, of via_listener
      "via_request MCancel" "SockV4 1 5060" "''CANCEL''"]
  show ?thesis using p u0 by (intro exI [of _ u0] exI [of _ p] exI [of _ s']) simp
qed

end
