(* ===== verification/Dispatch.thy ===== *)
theory Dispatch
  imports Forward
begin

text \<open>
  The packet handlers of the proxy (\<open>proxy/server.rs\<close>): a datagram or a message of a client's
  stream is a keep-alive, a STUN request, a SIP response to be relayed or a SIP request to be
  checked and forwarded; every branch, early return and error path of the source is here.
  The pool of TCP upstream connections is seen through the outcome of a request and the answers
  on its channel.  Shown here: after any history of packets a SIP response makes the proxy send
  at most one datagram, to the peer whose request stored its branch; a retransmission is answered
  from the cache and never forwarded again; after a CANCEL on the branch of an INVITE the
  INVITE's final response is lost.  Locales carry the frame rules of the handlers: which of them
  send nothing and which leave the branches alone.
\<close>

section \<open>Forwarding over UDP\<close>

definition canonical_sip_method :: "string \<Rightarrow> string option" where
  "canonical_sip_method method =
     (if method \<in> set [''INVITE'', ''ACK'', ''BYE'', ''CANCEL'', ''REGISTER'', ''OPTIONS'', ''SUBSCRIBE'', ''NOTIFY'', ''REFER'',
        ''MESSAGE'', ''UPDATE'', ''INFO'', ''PRACK'', ''PUBLISH''] then Some method else None)"

definition user_space_security_enabled :: "proxy_config \<Rightarrow> bool" where
  "user_space_security_enabled px \<longleftrightarrow>
     list_ex (\<lambda>l. security_enabled (effective_security_for_listener px l)) (concat (map concrete_listeners (px_listeners px)))"

abbreviation local_response_metric :: "proxy_env \<Rightarrow> string \<Rightarrow> u16 \<Rightarrow> unit handler" where
  "local_response_metric env transport code \<equiv>
     metric (record_local_response (env_hash env) (env_metric_handles env) transport code)"

text \<open>A response the proxy makes itself, sent back over UDP.\<close>

definition local_udp_response ::
  "proxy_env \<Rightarrow> sip_message \<Rightarrow> sock_addr \<Rightarrow> u16 \<Rightarrow> string \<Rightarrow> unit handler \<Rightarrow> unit handler" where
  "local_udp_response env request peer code reason before_send =
     seq (lift_err SipFailed (apply_top_via_received_rport (env_rsip env) peer (response_like (env_rsip env) request code reason)))
       (\<lambda>response. seq before_send (\<lambda>_. seq (local_response_metric env ''udp'' code) (\<lambda>_.
          send_or_fail env peer (sip_to_bytes (env_rsip env) response))))"

definition send_udp_invite_trying :: "proxy_env \<Rightarrow> sip_message \<Rightarrow> sock_addr \<Rightarrow> unit handler" where
  "send_udp_invite_trying env request peer = local_udp_response env request peer 100 ''Trying'' (ret ())"

definition client_limit :: "proxy_env \<Rightarrow> nat" where
  "client_limit env = udp_client_transaction_shard_limit (px_udp_client_transaction_cache_entries (c_proxy (env_config env)))"

definition remember_client :: "proxy_env \<Rightarrow> string option \<Rightarrow> upstream_target \<Rightarrow> unit handler" where
  "remember_client env key target =
     (case key of
        None \<Rightarrow> ret ()
      | Some k \<Rightarrow> seq (read_instant env) (\<lambda>now.
          tables (remember_udp_client_transaction (env_hash env) (client_limit env) now k target)))"

definition forget_client :: "proxy_env \<Rightarrow> string option \<Rightarrow> unit handler" where
  "forget_client env key =
     (case key of None \<Rightarrow> ret () | Some k \<Rightarrow> tables (remove_udp_client_transaction (env_hash env) k))"

definition remember_final :: "proxy_env \<Rightarrow> string option \<Rightarrow> string \<Rightarrow> unit handler" where
  "remember_final env key response =
     (case key of
        None \<Rightarrow> ret ()
      | Some k \<Rightarrow> seq (read_instant env) (\<lambda>now.
          tables (remember_udp_client_transaction_final_response (env_hash env) now k response)))"

section \<open>Answers of a TCP upstream\<close>

text \<open>One answer on the channel of a request; a closed channel or a timeout counts against the server.\<close>

definition recv_upstream_response :: "proxy_env \<Rightarrow> sock_addr \<Rightarrow> string handler" where
  "recv_upstream_response env upstream s =
     (let s' = s\<lparr>st_tick := Suc (st_tick s)\<rparr>;
          failed = s'\<lparr>st_upstreams := record_passive_result upstream False (st_upstreams s')\<rparr>
      in (case env_tcp_answer env (st_tick s) of
            TcpResponse bytes \<Rightarrow> (Inr bytes, s')
          | TcpClosed \<Rightarrow> (Inl (Failed TcpChannelClosed), failed)
          | TcpTimedOut \<Rightarrow> (Inl (Failed TcpResponseTimedOut), failed)))"

definition response_code :: "sip_message \<Rightarrow> u16 option" where
  "response_code m = (case sm_start_line m of ResponseLine _ code _ \<Rightarrow> Some code | _ \<Rightarrow> None)"

definition is_final :: "sip_message \<Rightarrow> bool" where
  "is_final m = (case response_code m of Some code \<Rightarrow> unat code \<ge> 200 | None \<Rightarrow> False)"

text \<open>What a response of an upstream server does to metrics, health and registrations.\<close>

definition note_upstream_response ::
  "proxy_env \<Rightarrow> string \<Rightarrow> string \<Rightarrow> sip_transport \<Rightarrow> sock_addr \<Rightarrow> string \<Rightarrow> instant \<Rightarrow> string \<Rightarrow> sip_message \<Rightarrow> unit handler" where
  "note_upstream_response env counted_as downstream transport upstream method started branch m =
     (case response_code m of
        None \<Rightarrow> ret ()
      | Some code \<Rightarrow>
          seq (metric (record_upstream_response (env_hash env) (env_metric_handles env) counted_as code)) (\<lambda>_.
          seq (upstreams (record_passive_result upstream (unat code < 500))) (\<lambda>_.
          seq (read_instant env) (\<lambda>now.
          seq (metric_opt (record_upstream_response_latency (env_hash env) (env_metric_handles env) downstream transport method
                 (duration_since now started))) (\<lambda>_.
            apply_register_response env branch m code)))))"

text \<open>
  The loop over the answers to a request that a UDP client sent and a TCP upstream serves; the
  rounds are bounded by \<open>fuel\<close> because the upstream may send provisional responses for ever.
\<close>

fun send_udp_to_tcp_responses ::
  "nat \<Rightarrow> proxy_env \<Rightarrow> sock_addr \<Rightarrow> sock_addr \<Rightarrow> string \<Rightarrow> string option \<Rightarrow> instant \<Rightarrow> string list \<Rightarrow> string \<Rightarrow> unit handler" where
  "send_udp_to_tcp_responses 0 env client_peer upstream branch key started addrs method = fail Diverged"
| "send_udp_to_tcp_responses (Suc fuel) env client_peer upstream branch key started addrs method =
     seq (recv_upstream_response env upstream) (\<lambda>bytes.
     seq (lift_err SipFailed (sip_parse (env_rsip env) bytes)) (\<lambda>m.
     seq (note_upstream_response env ''tcp'' ''udp'' Tcp upstream method started branch m) (\<lambda>_.
     seq (lift_err SipFailed (ensure_dialog_record_routes (env_rsip env) m method addrs)) (\<lambda>m1.
     seq (lift_err SipFailed (apply_top_via_received_rport (env_rsip env) client_peer m1)) (\<lambda>m2.
     seq (if is_final m then remember_final env key (sip_to_bytes (env_rsip env) m2) else ret ()) (\<lambda>_.
     seq (send_or_fail env client_peer (sip_to_bytes (env_rsip env) m2)) (\<lambda>_.
       if is_final m then ret ()
       else send_udp_to_tcp_responses fuel env client_peer upstream branch key started addrs method)))))))"

definition pool_send :: "proxy_env \<Rightarrow> sock_addr \<Rightarrow> string \<Rightarrow> string \<Rightarrow> bool handler" where
  "pool_send env upstream branch packet s =
     (let ok = env_tcp_send_ok env (st_tick s)
      in (Inr ok, s\<lparr>st_tick := Suc (st_tick s), st_sent := st_sent s @ (if ok then [PoolRequest upstream branch packet] else [])\<rparr>))"

definition forward_udp_to_tcp_upstream ::
  "nat \<Rightarrow> proxy_env \<Rightarrow> prepared \<Rightarrow> sock_addr \<Rightarrow> string option \<Rightarrow> string \<Rightarrow> unit handler" where
  "forward_udp_to_tcp_upstream fuel env p client_peer key method =
     (let upstream = ut_addr (pp_target p); target = \<lparr>ut_addr = upstream, ut_transport = Tcp\<rparr>
      in seq (read_instant env) (\<lambda>started.
         seq (pool_send env upstream (pp_branch p) (sip_to_bytes (env_rsip env) (pp_message p))) (\<lambda>ok.
           if \<not> ok
           then seq (forget_client env key) (\<lambda>_. seq (upstreams (record_passive_result upstream False)) (\<lambda>_.
                  fail (Failed TcpRequestFailed)))
           else seq (remember_client env key target) (\<lambda>_.
                seq (remember_successful_forward env (pp_message p) target (pp_branch p) (pp_invite_key p) method) (\<lambda>_.
                  send_udp_to_tcp_responses fuel env client_peer upstream (pp_branch p) key started
                    (pp_record_routes p) method)))))"

definition forward_new_udp ::
  "nat \<Rightarrow> proxy_env \<Rightarrow> sip_message \<Rightarrow> sock_addr \<Rightarrow> proxy_listener_config \<Rightarrow> string \<Rightarrow> string option \<Rightarrow> unit handler" where
  "forward_new_udp fuel env m peer listener method key =
     seq (gets (\<lambda>s. method = ''INVITE'' \<and> \<not> is_upstream_source env s peer)) (\<lambda>trying.
     seq (prepare_forward env m peer listener method) (\<lambda>p.
     seq (if trying then send_udp_invite_trying env m peer else ret ()) (\<lambda>_.
       let target = pp_target p; packet = sip_to_bytes (env_rsip env) (pp_message p); branch = pp_branch p;
           forwarded = metric_opt (record_forwarded_request (env_hash env) (env_metric_handles env) ''udp''
             (ut_transport target) (Some method))
       in (case ut_transport target of
             Udp \<Rightarrow>
               seq forwarded (\<lambda>_.
               seq (read_instant env) (\<lambda>now.
               seq (tables (remember_udp_branch (env_hash env) now branch
                      \<lparr>br_client_peer = peer, br_upstream = ut_addr target, br_method = method, br_created_at = now,
                       br_remove_on_final = (method \<noteq> ''INVITE''), br_client_transaction_key = key,
                       br_record_route_addrs = pp_record_routes p\<rparr>)) (\<lambda>_.
               seq (remember_client env key target) (\<lambda>_.
               seq (send_to env (ut_addr target) packet) (\<lambda>ok.
                 if \<not> ok
                 then seq (tables (remove_udp_branch (env_hash env) branch)) (\<lambda>_. seq (forget_client env key) (\<lambda>_.
                      seq (upstreams (record_passive_result (ut_addr target) False)) (\<lambda>_. fail (Failed SendFailed))))
                 else remember_successful_forward env (pp_message p) target branch (pp_invite_key p) method)))))
           | Tcp \<Rightarrow> seq forwarded (\<lambda>_. forward_udp_to_tcp_upstream fuel env p peer key method)
           | TcpUdp \<Rightarrow> fail (Failed UnexpandedTransport)))))"

definition forward_udp ::
  "nat \<Rightarrow> proxy_env \<Rightarrow> sip_message \<Rightarrow> sock_addr \<Rightarrow> proxy_listener_config \<Rightarrow> string \<Rightarrow> unit handler" where
  "forward_udp fuel env m peer listener method =
     seq (lift_err (\<lambda>e. e) (udp_client_transaction_key (env_rsip env) (env_headers env) m peer method)) (\<lambda>key.
     seq (case key of
            None \<Rightarrow> ret None
          | Some k \<Rightarrow> seq (read_instant env) (\<lambda>now. on_tables (lookup_udp_client_transaction (env_hash env) now k))) (\<lambda>known.
       case known of
         Some route \<Rightarrow>
           (case ct_final_response route of
              Some response \<Rightarrow> send_or_fail env peer response
            | None \<Rightarrow>
                seq (gets (\<lambda>s. method = ''INVITE'' \<and> \<not> is_upstream_source env s peer)) (\<lambda>trying.
                  if trying then send_udp_invite_trying env m peer else ret ()))
       | None \<Rightarrow> forward_new_udp fuel env m peer listener method key))"

section \<open>Relaying a response\<close>

text \<open>A response whose branch is known: counted, relieved of the proxy's Via, cached when final, and sent to the client.\<close>

definition relay_udp_response :: "proxy_env \<Rightarrow> sip_message \<Rightarrow> string \<Rightarrow> udp_branch_route \<Rightarrow> unit handler" where
  "relay_udp_response env m branch r =
     seq (note_upstream_response env ''udp'' ''udp'' Udp (br_upstream r) (br_method r) (br_created_at r) branch m) (\<lambda>_.
     seq (lift_err SipFailed (ensure_dialog_record_routes (env_rsip env) m (br_method r) (br_record_route_addrs r))) (\<lambda>m1.
     seq (lift_err SipFailed (pop_top_via (env_rsip env) m1)) (\<lambda>(via, m2).
       case via of
         None \<Rightarrow> fail (Failed MissingVia)
       | Some _ \<Rightarrow>
           seq (lift_err SipFailed (apply_top_via_received_rport (env_rsip env) (br_client_peer r) m2)) (\<lambda>m3.
           seq (if is_final m then remember_final env (br_client_transaction_key r) (sip_to_bytes (env_rsip env) m3)
                else ret ()) (\<lambda>_.
           seq (send_to env (br_client_peer r) (sip_to_bytes (env_rsip env) m3)) (\<lambda>ok.
           seq (if is_final m \<and> br_remove_on_final r then tables (remove_udp_branch (env_hash env) branch) else ret ()) (\<lambda>_.
             if ok then ret () else fail (Failed SendFailed))))))))"

definition handle_udp_response :: "proxy_env \<Rightarrow> sip_message \<Rightarrow> sock_addr \<Rightarrow> unit handler" where
  "handle_udp_response env m upstream_peer =
     seq (lift_err SipFailed (top_via_branch (env_rsip env) m)) (\<lambda>b.
       case b of
         None \<Rightarrow> fail (Failed MissingTopBranch)
       | Some branch \<Rightarrow>
           if \<not> starts_with branch proxy_branch_prefix then ret ()
           else seq (read_instant env) (\<lambda>now.
                seq (on_tables (lookup_udp_branch (env_hash env) now branch)) (\<lambda>route.
                  case route of None \<Rightarrow> ret () | Some r \<Rightarrow> relay_udp_response env m branch r)))"

section \<open>Policy\<close>

definition check_sip_policy ::
  "proxy_env \<Rightarrow> proxy_listener_config \<Rightarrow> sock_addr \<Rightarrow> sip_message \<Rightarrow> string \<Rightarrow> string option handler" where
  "check_sip_policy env listener peer m method =
     (if method \<noteq> ''INVITE'' then ret None
      else seq (gets (\<lambda>s. is_upstream_source env s peer)) (\<lambda>from_upstream.
        if from_upstream then ret None
        else let policy = se_sip_policy (effective_security_for_listener (c_proxy (env_config env)) listener)
             in if \<not> ye_require_registered_invite_source policy then ret None
                else (case extract_from_aor (env_headers env) m of
                        Inl _ \<Rightarrow> ret (Some ''sip-invalid-from'')
                      | Inr from_aor \<Rightarrow>
                          seq (lookup_registration_binding env from_aor) (\<lambda>binding.
                            case binding of
                              None \<Rightarrow> ret (Some ''sip-unregistered-invite'')
                            | Some b \<Rightarrow>
                                if registered_invite_source_matches (cb_source b) peer
                                     (ye_registered_invite_source_match policy)
                                then ret None else ret (Some ''sip-unregistered-invite-source'')))))"

definition drop_metric :: "proxy_env \<Rightarrow> proxy_listener_config \<Rightarrow> string \<Rightarrow> unit handler" where
  "drop_metric env listener reason =
     metric (record_security_drop (env_hash env) (env_metric_handles env) listener reason)"

fun drop_metrics :: "proxy_env \<Rightarrow> proxy_listener_config \<Rightarrow> string list \<Rightarrow> unit handler" where
  "drop_metrics env listener [] = ret ()"
| "drop_metrics env listener (r # rs) = seq (drop_metric env listener r) (\<lambda>_. drop_metrics env listener rs)"

text \<open>The number of clock readings a security operation may take.\<close>

definition clock_reads :: nat where
  "clock_reads = 16"

definition secured :: "proxy_env \<Rightarrow> ((nat \<Rightarrow> instant) \<Rightarrow> security_runtime \<Rightarrow> 'a \<times> security_runtime) \<Rightarrow> 'a handler" where
  "secured env f = seq (clocks env clock_reads) (\<lambda>clk. on_security (f clk))"

definition security_drop :: "proxy_env \<Rightarrow> proxy_listener_config \<Rightarrow> sock_addr \<Rightarrow> string \<Rightarrow> unit handler" where
  "security_drop env listener peer reason =
     seq (secured env (\<lambda>clk. handle_security_drop (env_hash env) clk listener peer reason)) (drop_metrics env listener)"

definition parse_error_drop :: "proxy_env \<Rightarrow> proxy_listener_config \<Rightarrow> sock_addr \<Rightarrow> unit handler" where
  "parse_error_drop env listener peer =
     seq (secured env (\<lambda>clk sec. let (reasons, logged, sec') = handle_parse_error (env_hash env) clk listener peer sec
                                  in (reasons, sec'))) (drop_metrics env listener)"

text \<open>A request refused by rate limits or policy: counted, held against its source, and answered.\<close>

definition note_refusal :: "proxy_env \<Rightarrow> proxy_listener_config \<Rightarrow> sock_addr \<Rightarrow> string \<Rightarrow> unit handler" where
  "note_refusal env listener peer reason =
     seq (drop_metric env listener reason) (\<lambda>_.
     seq (secured env (\<lambda>clk. record_dynamic_offense (env_hash env) clk listener peer (Some SipRateViolation))) (\<lambda>banned.
       case banned of None \<Rightarrow> ret () | Some r \<Rightarrow> drop_metric env listener r))"

definition remember_rejection :: "proxy_env \<Rightarrow> sip_message \<Rightarrow> string \<Rightarrow> unit handler" where
  "remember_rejection env m method =
     seq (read_instant env) (\<lambda>now. seq (read_instant env) (\<lambda>now'.
       tables (remember_local_invite_rejection_if_needed now now'
         (invite_transaction_key (env_rsip env) (env_headers env) m) method)))"

definition absorb_ack :: "proxy_env \<Rightarrow> sip_message \<Rightarrow> string \<Rightarrow> bool handler" where
  "absorb_ack env m method =
     (if method = ''ACK''
      then seq (read_instant env) (\<lambda>now.
             on_tables (consume_local_invite_ack now (invite_transaction_key (env_rsip env) (env_headers env) m)))
      else ret False)"

definition check_request ::
  "proxy_env \<Rightarrow> proxy_listener_config \<Rightarrow> sock_addr \<Rightarrow> sip_message \<Rightarrow> string \<Rightarrow> string option handler" where
  "check_request env listener peer m method =
     secured env (\<lambda>clk. check_sip_request (env_hash env) clk listener peer (ok_of (extract_aor (env_headers env) m))
       (Option.bind (ok_of (top_header_value ''From'' m)) (\<lambda>v. v)) method)"

section \<open>UDP packets\<close>

text \<open>A request that passed the packet checks.\<close>

definition forward_or_503_udp ::
  "nat \<Rightarrow> proxy_env \<Rightarrow> string \<Rightarrow> sip_message \<Rightarrow> sock_addr \<Rightarrow> proxy_listener_config \<Rightarrow> string \<Rightarrow> unit handler" where
  "forward_or_503_udp fuel env packet m peer listener method =
     on_error (forward_udp fuel env m peer listener method)
       (seq (metric (record_forward_error (env_hash env) (env_metric_handles env) ''udp'')) (\<lambda>_.
        seq (lift_err SipFailed (sip_parse (env_rsip env) packet)) (\<lambda>request.
          local_udp_response env request peer 503 ''Service Unavailable'' (remember_rejection env request method))))"

definition hop_and_forward_udp ::
  "nat \<Rightarrow> proxy_env \<Rightarrow> string \<Rightarrow> sip_message \<Rightarrow> sock_addr \<Rightarrow> proxy_listener_config \<Rightarrow> string \<Rightarrow> unit handler" where
  "hop_and_forward_udp fuel env packet m peer listener method =
     (case decrement_max_forwards (env_rsip env) m of
        Inr (True, m') \<Rightarrow> forward_or_503_udp fuel env packet m' peer listener method
      | Inr (False, m') \<Rightarrow> local_udp_response env m' peer 483 ''Too Many Hops'' (remember_rejection env m' method)
      | Inl _ \<Rightarrow> local_udp_response env m peer 400 ''Bad Request'' (remember_rejection env m method))"

definition handle_udp_request ::
  "nat \<Rightarrow> proxy_env \<Rightarrow> string \<Rightarrow> sip_message \<Rightarrow> sock_addr \<Rightarrow> proxy_listener_config \<Rightarrow> string \<Rightarrow> unit handler" where
  "handle_udp_request fuel env packet m peer listener method =
     seq (metric (record_sip_request (env_hash env) (env_metric_handles env) ''udp'' method)) (\<lambda>_.
     seq (absorb_ack env m method) (\<lambda>absorbed.
       if absorbed then ret ()
       else seq (gets (\<lambda>s. env_user_space_security env \<and> \<not> is_upstream_source env s peer)) (\<lambda>checked.
            if \<not> checked then hop_and_forward_udp fuel env packet m peer listener method
            else seq (check_request env listener peer m method) (\<lambda>refused.
              case refused of
                Some reason \<Rightarrow>
                  seq (note_refusal env listener peer reason) (\<lambda>_.
                    local_udp_response env m peer 503 ''Service Unavailable'' (remember_rejection env m method))
              | None \<Rightarrow>
                  seq (check_sip_policy env listener peer m method) (\<lambda>forbidden.
                    case forbidden of
                      Some reason \<Rightarrow>
                        seq (note_refusal env listener peer reason) (\<lambda>_.
                          local_udp_response env m peer 403 ''Forbidden'' (remember_rejection env m method))
                    | None \<Rightarrow> hop_and_forward_udp fuel env packet m peer listener method)))))"

definition handle_sip_udp ::
  "nat \<Rightarrow> proxy_env \<Rightarrow> string \<Rightarrow> sock_addr \<Rightarrow> proxy_listener_config \<Rightarrow> unit handler" where
  "handle_sip_udp fuel env packet peer listener =
     (case sip_parse (env_rsip env) packet of
        Inl e \<Rightarrow>
          seq (gets (\<lambda>s. env_user_space_security env \<and> listener_enabled listener (st_security s))) (\<lambda>enabled.
            if enabled then parse_error_drop env listener peer else fail (Failed (SipFailed e)))
      | Inr m \<Rightarrow>
          if is_response m then handle_udp_response env m peer
          else (case Option.bind (sip_method_of m) canonical_sip_method of
                  None \<Rightarrow> ret ()
                | Some method \<Rightarrow> handle_udp_request fuel env packet m peer listener method))"

text \<open>An index out of range panics.\<close>

definition panics :: "panic + 'a \<Rightarrow> 'a handler" where
  "panics r = (case r of Inl _ \<Rightarrow> fail Panic | Inr x \<Rightarrow> ret x)"

definition packet_bytes :: "string \<Rightarrow> u8 list" where
  "packet_bytes packet = map of_char packet"

definition bytes_packet :: "u8 list \<Rightarrow> string" where
  "bytes_packet bs = map (\<lambda>b. char_of (unat b)) bs"

definition handle_udp_packet ::
  "nat \<Rightarrow> proxy_env \<Rightarrow> string \<Rightarrow> sock_addr \<Rightarrow> proxy_listener_config \<Rightarrow> unit handler" where
  "handle_udp_packet fuel env packet peer listener =
     (if is_crlf_keepalive (packet_bytes packet) then ret ()
      else seq (panics (stun_binding_success_response (packet_bytes packet) peer)) (\<lambda>answer.
        case answer of
          Some response \<Rightarrow> send_or_fail env peer (bytes_packet response)
        | None \<Rightarrow>
            seq (panics (is_stun_packet (packet_bytes packet))) (\<lambda>stun.
              if stun then ret ()
              else seq (gets (\<lambda>s. env_user_space_security env \<and> \<not> is_upstream_source env s peer)) (\<lambda>checked.
                     if \<not> checked then handle_sip_udp fuel env packet peer listener
                     else seq (secured env (\<lambda>clk. check_packet (env_hash env) clk listener peer packet)) (\<lambda>decision.
                            case decision of
                              SecDrop reason \<Rightarrow> security_drop env listener peer reason
                            | SecAllow \<Rightarrow> handle_sip_udp fuel env packet peer listener)))))"

section \<open>TCP packets\<close>

fun relay_tcp_responses ::
  "nat \<Rightarrow> proxy_env \<Rightarrow> upstream_target \<Rightarrow> string \<Rightarrow> instant \<Rightarrow> string \<Rightarrow> unit handler" where
  "relay_tcp_responses 0 env target branch started method = fail Diverged"
| "relay_tcp_responses (Suc fuel) env target branch started method =
     seq (recv_upstream_response env (ut_addr target)) (\<lambda>bytes.
     seq (lift_err SipFailed (sip_parse (env_rsip env) bytes)) (\<lambda>m.
     seq (note_upstream_response env ''tcp'' ''tcp'' (ut_transport target) (ut_addr target) method started branch m) (\<lambda>_.
     seq (write_all env bytes) (\<lambda>_.
       if is_final m then ret () else relay_tcp_responses fuel env target branch started method))))"

definition forward_tcp_stream ::
  "nat \<Rightarrow> proxy_env \<Rightarrow> sip_message \<Rightarrow> sock_addr \<Rightarrow> proxy_listener_config \<Rightarrow> string \<Rightarrow> unit handler" where
  "forward_tcp_stream fuel env m peer listener method =
     seq (prepare_forward env m peer listener method) (\<lambda>p.
     seq (metric_opt (record_forwarded_request (env_hash env) (env_metric_handles env) ''tcp''
            (ut_transport (pp_target p)) (Some method))) (\<lambda>_.
     seq (read_instant env) (\<lambda>started.
     seq (pool_send env (ut_addr (pp_target p)) (pp_branch p) (sip_to_bytes (env_rsip env) (pp_message p))) (\<lambda>ok.
       if \<not> ok
       then seq (upstreams (record_passive_result (ut_addr (pp_target p)) False)) (\<lambda>_. fail (Failed TcpRequestFailed))
       else seq (remember_successful_forward env (pp_message p) (pp_target p) (pp_branch p) (pp_invite_key p) method) (\<lambda>_.
              relay_tcp_responses fuel env (pp_target p) (pp_branch p) started method)))))"

definition local_tcp_response ::
  "proxy_env \<Rightarrow> sip_message \<Rightarrow> u16 \<Rightarrow> string \<Rightarrow> unit handler \<Rightarrow> unit handler" where
  "local_tcp_response env request code reason before_send =
     seq before_send (\<lambda>_. seq (local_response_metric env ''tcp'' code) (\<lambda>_.
       write_all env (sip_to_bytes (env_rsip env) (response_like (env_rsip env) request code reason))))"

definition hop_and_forward_tcp ::
  "nat \<Rightarrow> proxy_env \<Rightarrow> string \<Rightarrow> sip_message \<Rightarrow> sock_addr \<Rightarrow> proxy_listener_config \<Rightarrow> string \<Rightarrow> unit handler" where
  "hop_and_forward_tcp fuel env packet m peer listener method =
     (case decrement_max_forwards (env_rsip env) m of
        Inr (True, m') \<Rightarrow>
          on_error (forward_tcp_stream fuel env m' peer listener method)
            (seq (metric (record_forward_error (env_hash env) (env_metric_handles env) ''tcp'')) (\<lambda>_.
             seq (lift_err SipFailed (sip_parse (env_rsip env) packet)) (\<lambda>request.
               local_tcp_response env request 503 ''Service Unavailable'' (remember_rejection env request method))))
      | Inr (False, m') \<Rightarrow> local_tcp_response env m' 483 ''Too Many Hops'' (remember_rejection env m' method)
      | Inl _ \<Rightarrow> local_tcp_response env m 400 ''Bad Request'' (remember_rejection env m method))"

definition handle_tcp_request ::
  "nat \<Rightarrow> proxy_env \<Rightarrow> string \<Rightarrow> sip_message \<Rightarrow> sock_addr \<Rightarrow> proxy_listener_config \<Rightarrow> string \<Rightarrow> unit handler" where
  "handle_tcp_request fuel env packet m peer listener method =
     seq (metric (record_sip_request (env_hash env) (env_metric_handles env) ''tcp'' method)) (\<lambda>_.
     seq (absorb_ack env m method) (\<lambda>absorbed.
       if absorbed then ret ()
       else seq (gets (\<lambda>s. env_user_space_security env \<and> \<not> is_upstream_source env s peer)) (\<lambda>checked.
            if \<not> checked then hop_and_forward_tcp fuel env packet m peer listener method
            else seq (check_request env listener peer m method) (\<lambda>refused.
              case refused of
                Some reason \<Rightarrow>
                  seq (note_refusal env listener peer reason) (\<lambda>_.
                    local_tcp_response env m 503 ''Service Unavailable'' (remember_rejection env m method))
              | None \<Rightarrow>
                  seq (check_sip_policy env listener peer m method) (\<lambda>forbidden.
                    case forbidden of
                      Some reason \<Rightarrow>
                        seq (note_refusal env listener peer reason) (\<lambda>_.
                          local_tcp_response env m 403 ''Forbidden'' (remember_rejection env m method))
                    | None \<Rightarrow> hop_and_forward_tcp fuel env packet m peer listener method)))))"

definition handle_sip_tcp ::
  "nat \<Rightarrow> proxy_env \<Rightarrow> string \<Rightarrow> sock_addr \<Rightarrow> proxy_listener_config \<Rightarrow> unit handler" where
  "handle_sip_tcp fuel env packet peer listener =
     (case sip_parse (env_rsip env) packet of
        Inl e \<Rightarrow>
          seq (gets (\<lambda>s. env_user_space_security env \<and> listener_enabled listener (st_security s))) (\<lambda>enabled.
            if enabled then parse_error_drop env listener peer else fail (Failed (SipFailed e)))
      | Inr m \<Rightarrow>
          if is_response m then ret ()
          else (case Option.bind (sip_method_of m) canonical_sip_method of
                  None \<Rightarrow> ret ()
                | Some method \<Rightarrow> handle_tcp_request fuel env packet m peer listener method))"

definition handle_tcp_packet ::
  "nat \<Rightarrow> proxy_env \<Rightarrow> string \<Rightarrow> sock_addr \<Rightarrow> proxy_listener_config \<Rightarrow> unit handler" where
  "handle_tcp_packet fuel env packet peer listener =
     seq (gets (\<lambda>s. env_user_space_security env \<and> \<not> is_upstream_source env s peer)) (\<lambda>checked.
       if \<not> checked then handle_sip_tcp fuel env packet peer listener
       else seq (secured env (\<lambda>clk. check_packet (env_hash env) clk listener peer packet)) (\<lambda>decision.
              case decision of
                SecDrop reason \<Rightarrow> security_drop env listener peer reason
              | SecAllow \<Rightarrow> handle_sip_tcp fuel env packet peer listener))"

text \<open>The messages of one client connection, one after the other; an error ends the connection.\<close>

fun handle_tcp_client ::
  "nat \<Rightarrow> proxy_env \<Rightarrow> string list \<Rightarrow> sock_addr \<Rightarrow> proxy_listener_config \<Rightarrow> unit handler" where
  "handle_tcp_client fuel env [] peer listener = ret ()"
| "handle_tcp_client fuel env (packet # packets) peer listener =
     seq (handle_tcp_packet fuel env packet peer listener) (\<lambda>_. handle_tcp_client fuel env packets peer listener)"

section \<open>Who gets a relayed response\<close>

abbreviation branches_of :: "proxy_state \<Rightarrow> (string, udp_branch_route) shards" where
  "branches_of s \<equiv> tx_udp_branches (st_tables s)"

text \<open>
  A relation that only looks at the table of UDP branches and at what was sent.  The lemmas of
  the locale follow the handlers in the order of their definitions: these change neither.
\<close>

locale quiet_frame = handler_frame +
  fixes env :: proxy_env
  assumes same: "st_sent t = st_sent s \<Longrightarrow> branches_of t = branches_of s \<Longrightarrow> R s t"
begin

lemma keeps_same:
  "(\<And>s. st_sent (snd (m s)) = st_sent s) \<Longrightarrow> (\<And>s. branches_of (snd (m s)) = branches_of s) \<Longrightarrow> keeps m"
  by (simp add: keeps_def same)

lemma keeps_outside [intro, simp]:
  "keeps (metric g)" "keeps (metric_opt g')" "keeps (on_node k)" "keeps (on_security r)" "keeps (upstreams u)"
  "keeps (read_instant env)" "keeps (read_epoch env)" "keeps (clocks env n)" "keeps (sqlite_outcome env)"
  "keeps unique_id" "keeps (advertised env side listener target)"
  "keeps (pick_upstream env uri listener)" "keeps (record_routes_for env p a listener)"
  "keeps (recv_upstream_response env a)"
  by (auto intro!: keeps_same simp: handler_defs outside_defs advertised_def pick_upstream_def record_routes_for_def
      recv_upstream_response_def split_beta Let_def split: option.split tcp_answer.split)

lemma keeps_tables [intro, simp]:
  "keeps (tables (remember_pending_register now b p))" "keeps (tables (remember_invite_transaction h now now' k t b))"
  "keeps (on_tables (take_pending_register now b))" "keeps (on_tables (lookup_invite_transaction h now k))"
  "keeps (tables (remember_udp_client_transaction h limit now key t))" "keeps (tables (remove_udp_client_transaction h key))"
  "keeps (tables (remember_udp_client_transaction_final_response h now key bytes))"
  "keeps (on_tables (lookup_udp_client_transaction h now key))"
  "keeps (tables (remember_local_invite_rejection_if_needed now now' ik method))"
  "keeps (on_tables (consume_local_invite_ack now ik))"
  by (auto intro!: keeps_same simp: handler_defs remember_pending_register_def remember_invite_transaction_def
      take_pending_register_def lookup_invite_transaction_def remember_udp_client_transaction_def
      remove_udp_client_transaction_def remember_udp_client_transaction_final_response_def lookup_udp_client_transaction_def
      remember_local_invite_rejection_if_needed_def consume_local_invite_ack_def Let_def split: option.split sum.split)

lemma keeps_lookup_bindings [intro, simp]: "keeps (lookup_bindings env ks)"
  by (induction ks) (auto simp: registry_lookup_def intro!: keeps_seq split: option.split)

lemma keeps_delivery [intro, simp]:
  "keeps (lookup_registration_binding env uri)" "keeps (lookup_delivery_registration_binding env m uri allow)"
  by (auto simp: lookup_delivery_registration_binding_def lookup_registration_binding_def
      intro!: keeps_seq split: option.split sum.split)

lemma keeps_lookup_upstream_keys [intro, simp]: "keeps (lookup_upstream_keys env ks)"
  by (induction ks) (auto simp: affinity_lookup_key_def Let_def intro!: keeps_seq split: option.split)

lemma keeps_affinity_or_upstream [intro, simp]: "keeps (affinity_or_upstream env m uri listener)"
  by (auto simp: affinity_or_upstream_def Let_def intro!: keeps_seq split: option.split)

lemma keeps_from [intro, simp]:
  "keeps (target_from_upstream env m uri listener allow direct)" "keeps (target_from_client env m uri listener direct)"
  by (auto simp: target_from_upstream_def target_from_client_def lookup_registered_upstream_target_def
      intro!: keeps_seq split: option.split)

lemma keeps_choose_target [intro, simp]: "keeps (choose_target env m uri listener method fu ro direct tr)"
  by (auto simp: choose_target_def intro!: keeps_seq split: option.split)

lemma keeps_route_targets [intro, simp]:
  "keeps (route_targets_this_proxy env route listener target)" "keeps (top_route_targets_this_proxy env m listener p)"
  by (auto simp: route_targets_this_proxy_def top_route_targets_this_proxy_def resolved_advertised_addr_matches_def
      intro!: keeps_seq split: option.split)

lemma keeps_pop_own_routes [intro, simp]: "keeps (pop_own_routes fuel env listener target m)"
  by (induction fuel arbitrary: m) (auto intro!: keeps_seq split: option.split)

lemma keeps_parts [intro, simp]:
  "keeps (find_invite_transaction env key)" "keeps (remove_own_routes env listener addr m)" "keeps (choose_branch tr)"
  "keeps (add_via env target via_host branch m)" "keeps (add_record_routes env p addr listener method m)"
  "keeps (add_registration env via_host p target branch m)" "keeps (avoid_self env uri listener target)"
  by (auto simp: find_invite_transaction_def remove_own_routes_def pop_own_route_headers_def choose_branch_def add_via_def
      add_record_routes_def add_registration_def avoid_self_def
      intro!: keeps_seq split: option.split register_routing_mode.split)

lemma keeps_prepare_forward [intro, simp]: "keeps (prepare_forward env m p listener method)"
  unfolding prepare_forward_def by (auto intro!: keeps_seq split: option.split)

lemma keeps_affinity_step [intro, simp]:
  "keeps (\<lambda>s. case g (n_affinity (st_node s)) of None \<Rightarrow> (Inl Panic, s)
     | Some (r, t) \<Rightarrow> (Inr r, s\<lparr>st_node := (st_node s)\<lparr>n_affinity := t\<rparr>\<rparr>))"
  by (rule keeps_same) (auto split: option.split)

lemma keeps_affinity_remember [intro, simp]: "keeps (affinity_remember_key env key target ttl)"
  unfolding affinity_remember_key_def by (auto intro!: keeps_seq)

lemma keeps_persist [intro, simp]: "keeps (persist_affinity env bs)" "keeps (submit_cluster_command env c)"
  by (auto simp: persist_affinity_def submit_cluster_command_def intro!: keeps_seq)

lemma keeps_register [intro, simp]: "keeps (apply_register_bindings env target expires bs)"
  by (induction bs) (auto simp: apply_register_binding_def intro!: keeps_seq)

lemma keeps_register_response [intro, simp]: "keeps (apply_register_response env branch m code)"
  by (auto simp: apply_register_response_def Let_def intro!: keeps_seq split: option.split)

lemma keeps_remember_successful [intro, simp]: "keeps (remember_successful_forward env m target branch key method)"
  unfolding remember_successful_forward_def by (auto intro!: keeps_seq keeps_affinity_step split: sum.split)

lemma keeps_note_response [intro, simp]: "keeps (note_upstream_response env c d t u method started branch m)"
  by (auto simp: note_upstream_response_def intro!: keeps_seq split: option.split)

lemma keeps_clients [intro, simp]:
  "keeps (remember_client env key target)" "keeps (forget_client env key)" "keeps (remember_final env key bytes)"
  by (auto simp: remember_client_def forget_client_def remember_final_def intro!: keeps_seq split: option.split)

lemma keeps_policy [intro, simp]:
  "keeps (check_sip_policy env listener p m method)" "keeps (remember_rejection env m method)" "keeps (absorb_ack env m method)"
  by (auto simp: check_sip_policy_def remember_rejection_def absorb_ack_def Let_def intro!: keeps_seq split: option.split sum.split)

lemma keeps_secured [intro, simp]: "keeps (secured env f)"
  by (auto simp: secured_def intro!: keeps_seq)

lemma keeps_drop_metrics [intro, simp]: "keeps (drop_metric env listener r)" "keeps (drop_metrics env listener rs)"
  by (induction rs) (auto simp: drop_metric_def intro!: keeps_seq)

lemma keeps_refusals [intro, simp]:
  "keeps (security_drop env listener p reason)" "keeps (parse_error_drop env listener p)"
  "keeps (note_refusal env listener p reason)" "keeps (check_request env listener p m method)"
  by (auto simp: security_drop_def parse_error_drop_def note_refusal_def check_request_def intro!: keeps_seq split: option.split)

lemma keeps_panics [intro, simp]: "keeps (panics r)"
  by (auto simp: panics_def split: sum.split)

end

text \<open>A relation on the table of branches alone, which allows new branches for \<open>peer\<close>.\<close>

locale branch_frame = quiet_frame +
  fixes peer :: sock_addr
  assumes quiet: "branches_of t = branches_of s \<Longrightarrow> R s t"
    and looked_up: "R s (s\<lparr>st_tables := snd (lookup_udp_branch (env_hash env) now branch (st_tables s))\<rparr>)"
    and removed: "R s (s\<lparr>st_tables := remove_udp_branch (env_hash env) branch (st_tables s)\<rparr>)"
    and added: "br_client_peer r = peer \<Longrightarrow>
      R s (s\<lparr>st_tables := remember_udp_branch (env_hash env) now branch r (st_tables s)\<rparr>)"
begin

lemma keeps_sends [intro, simp]: "keeps (send_to env a b)" "keeps (write_all env b)" "keeps (pool_send env a b c)"
  by (simp_all add: keeps_def quiet outside_defs pool_send_def Let_def)

lemma keeps_branches [intro, simp]:
  "keeps (on_tables (lookup_udp_branch (env_hash env) now branch))" "keeps (tables (remove_udp_branch (env_hash env) branch))"
  "br_client_peer r = peer \<Longrightarrow> keeps (tables (remember_udp_branch (env_hash env) now branch r))"
  by (simp_all add: keeps_def handler_defs split_beta looked_up removed added)

lemma keeps_send_or_fail [intro, simp]: "keeps (send_or_fail env a bytes)"
  by (auto simp: send_or_fail_def intro!: keeps_seq)

lemma keeps_local_udp [intro]: "keeps before \<Longrightarrow> keeps (local_udp_response env m p code reason before)"
  by (auto simp: local_udp_response_def intro!: keeps_seq)

lemma keeps_trying [intro, simp]: "keeps (send_udp_invite_trying env m p)"
  by (auto simp: send_udp_invite_trying_def)

lemma keeps_udp_to_tcp_responses [intro, simp]: "keeps (send_udp_to_tcp_responses fuel env c u b k st ads method)"
  by (induction fuel) (auto intro!: keeps_seq)

lemma keeps_udp_to_tcp [intro, simp]: "keeps (forward_udp_to_tcp_upstream fuel env p c key method)"
  by (auto simp: forward_udp_to_tcp_upstream_def Let_def intro!: keeps_seq)

lemma keeps_forward_new_udp [intro, simp]: "keeps (forward_new_udp fuel env m peer listener method key)"
  unfolding forward_new_udp_def Let_def by (auto intro!: keeps_seq split: sip_transport.split)

lemma keeps_forward_udp [intro, simp]: "keeps (forward_udp fuel env m peer listener method)"
  unfolding forward_udp_def by (auto intro!: keeps_seq split: option.split)

lemma keeps_udp_response [intro, simp]: "keeps (handle_udp_response env m src)"
  unfolding handle_udp_response_def relay_udp_response_def by (auto intro!: keeps_seq split: option.split)

lemma keeps_hop_udp [intro, simp]: "keeps (hop_and_forward_udp fuel env packet m peer listener method)"
  by (auto simp: hop_and_forward_udp_def forward_or_503_udp_def intro!: keeps_seq keeps_on_error split: sum.split bool.split)

lemma keeps_udp_request [intro, simp]: "keeps (handle_udp_request fuel env packet m peer listener method)"
  unfolding handle_udp_request_def by (auto intro!: keeps_seq keeps_local_udp split: option.split)

lemma keeps_udp_packet [intro, simp]: "keeps (handle_udp_packet fuel env packet peer listener)"
  unfolding handle_udp_packet_def handle_sip_udp_def
  by (auto intro!: keeps_seq split: option.split sum.split security_decision.split)

lemma keeps_relay_tcp [intro, simp]: "keeps (relay_tcp_responses fuel env target branch started method)"
  by (induction fuel) (auto intro!: keeps_seq)

lemma keeps_hop_tcp [intro, simp]: "keeps (hop_and_forward_tcp fuel env packet m p listener method)"
  by (auto simp: hop_and_forward_tcp_def forward_tcp_stream_def local_tcp_response_def
      intro!: keeps_seq keeps_on_error split: sum.split bool.split)

lemma keeps_tcp_packet [intro, simp]: "keeps (handle_tcp_packet fuel env packet p listener)"
  unfolding handle_tcp_packet_def handle_sip_tcp_def handle_tcp_request_def local_tcp_response_def
  by (auto intro!: keeps_seq split: option.split sum.split security_decision.split)

end

text \<open>Between two states: the table stays well formed, and every branch was there before or is for one of \<open>P\<close>.\<close>

definition branches_for :: "(string \<Rightarrow> nat) \<Rightarrow> sock_addr set \<Rightarrow> proxy_state \<Rightarrow> proxy_state \<Rightarrow> bool" where
  "branches_for h P s t \<longleftrightarrow> (sharded_inv h (branches_of s) \<longrightarrow> sharded_inv h (branches_of t)
     \<and> (\<forall>b r. sharded_get h (branches_of t) b = Some r \<longrightarrow>
          sharded_get h (branches_of s) b = Some r \<or> br_client_peer r \<in> P))"

lemma branches_for_refl: "branches_for h P s s"
  by (simp add: branches_for_def)

lemma branches_for_trans: "branches_for h P s t \<Longrightarrow> branches_for h P t u \<Longrightarrow> branches_for h P s u"
  unfolding branches_for_def by blast

lemma branches_for_lookup:
  "branches_for h P s (s\<lparr>st_tables := snd (lookup_udp_branch h now branch (st_tables s))\<rparr>)"
proof -
  let ?m = "branches_of s"
  have "sharded_inv h ?m \<Longrightarrow> sharded_inv h (with_shard h branch (prune_udp_branches now) ?m)"
    using branches.inv_prune [of h ?m branch now] by (simp add: prune_udp_branches_def)
  moreover have "sharded_inv h ?m \<Longrightarrow> sharded_get h (with_shard h branch (prune_udp_branches now) ?m) b = Some r
      \<Longrightarrow> sharded_get h ?m b = Some r" for b r
    using sharded_get_prune_le [of h ?m branch "\<lambda>_. branch_alive now" b r] by (simp add: prune_udp_branches_def prune_shard_def)
  ultimately show ?thesis unfolding branches_for_def lookup_udp_branch_def Let_def by simp
qed

lemma branches_for_remove: "branches_for h P s (s\<lparr>st_tables := remove_udp_branch h branch (st_tables s)\<rparr>)"
  by (auto simp: branches_for_def remove_udp_branch_def sharded_get_remove sharded.inv_remove split: if_splits)

lemma branches_for_add:
  assumes "br_client_peer r \<in> P"
  shows "branches_for h P s (s\<lparr>st_tables := remember_udp_branch h now branch r (st_tables s)\<rparr>)"
proof -
  let ?m = "branches_of s" and ?f = "\<lambda>m. hm_insert branch r (prune_udp_branches now m)"
  have "sharded_inv h (with_shard h branch ?f ?m)" if "sharded_inv h ?m"
    using branches.inv_prune_insert [OF that, of branch r now] by (simp add: prune_udp_branches_def)
  moreover have "sharded_get h ?m b = Some r' \<or> br_client_peer r' \<in> P"
    if i: "sharded_inv h ?m" and g: "sharded_get h (with_shard h branch ?f ?m) b = Some r'" for b r'
  proof -
    have "with_shard h branch ?f ?m = sharded_insert h branch r (branches.prune h now branch ?m)"
      using branches.prune_then_insert [OF i, of branch r now] by (simp add: prune_udp_branches_def)
    then show ?thesis
      using g assms sharded_get_insert [OF branches.inv_prune [OF i, of branch now], of branch r]
        sharded_get_prune_le [OF i, of branch "\<lambda>_. branch_alive now" b r']
      by (auto simp: prune_shard_def split: if_splits)
  qed
  ultimately show ?thesis by (auto simp: branches_for_def remember_udp_branch_def)
qed

interpretation relay: branch_frame "branches_for (env_hash env) (insert peer P)" env peer for env peer P
proof unfold_locales
  fix s t u and now branch r
  let ?R = "branches_for (env_hash env) (insert peer P)"
  show "?R s s" by (rule branches_for_refl)
  show "?R s t \<Longrightarrow> ?R t u \<Longrightarrow> ?R s u" by (rule branches_for_trans)
  show "branches_of t = branches_of s \<Longrightarrow> ?R s t" "branches_of t = branches_of s \<Longrightarrow> ?R s t"
    by (simp_all add: branches_for_def)
  show "?R s (s\<lparr>st_tables := snd (lookup_udp_branch (env_hash env) now branch (st_tables s))\<rparr>)" by (rule branches_for_lookup)
  show "?R s (s\<lparr>st_tables := remove_udp_branch (env_hash env) branch (st_tables s)\<rparr>)" by (rule branches_for_remove)
  show "br_client_peer r = peer \<Longrightarrow> ?R s (s\<lparr>st_tables := remember_udp_branch (env_hash env) now branch r (st_tables s)\<rparr>)"
    by (rule branches_for_add) simp
qed

text \<open>A history of packets on the listeners, UDP or TCP, each handled in turn.\<close>

datatype arrival = UdpArrival string sock_addr proxy_listener_config | TcpArrival string sock_addr proxy_listener_config

fun arrival_peer :: "arrival \<Rightarrow> sock_addr" where
  "arrival_peer (UdpArrival _ peer _) = peer"
| "arrival_peer (TcpArrival _ peer _) = peer"

fun handle_arrival :: "nat \<Rightarrow> proxy_env \<Rightarrow> arrival \<Rightarrow> proxy_state \<Rightarrow> proxy_state" where
  "handle_arrival fuel env (UdpArrival packet peer listener) s = snd (handle_udp_packet fuel env packet peer listener s)"
| "handle_arrival fuel env (TcpArrival packet peer listener) s = snd (handle_tcp_packet fuel env packet peer listener s)"

lemma arrival_branches: "branches_for (env_hash env) (insert (arrival_peer a) P) s (handle_arrival fuel env a s)"
  using relay.keeps_udp_packet relay.keeps_tcp_packet unfolding relay.keeps_def by (cases a) simp_all

definition run_arrivals :: "nat \<Rightarrow> proxy_env \<Rightarrow> arrival list \<Rightarrow> proxy_state \<Rightarrow> proxy_state" where
  "run_arrivals fuel env hist s = fold (handle_arrival fuel env) hist s"

lemma run_arrivals_inv:
  "branches_of s0 = sharded_new route_map_shards \<Longrightarrow> sharded_inv (env_hash env) (branches_of (run_arrivals fuel env hist s0))"
proof (induction hist rule: rev_induct)
  case Nil
  then show ?case by (simp add: run_arrivals_def sharded_inv_new)
next
  case (snoc a hist)
  then show ?case using arrival_branches [of env a "{}" "run_arrivals fuel env hist s0" fuel]
    by (simp add: run_arrivals_def branches_for_def)
qed

lemma branch_origin:
  assumes "branches_of s0 = sharded_new route_map_shards"
    and "sharded_get (env_hash env) (branches_of (run_arrivals fuel env hist s0)) branch = Some r"
  shows "\<exists>pre a post. hist = pre @ a # post \<and> br_client_peer r = arrival_peer a
      \<and> sharded_get (env_hash env) (branches_of (run_arrivals fuel env pre s0)) branch \<noteq> Some r
      \<and> sharded_get (env_hash env) (branches_of (run_arrivals fuel env (pre @ [a]) s0)) branch = Some r"
proof -
  note inv = run_arrivals_inv [OF assms(1), of env fuel]
  show ?thesis using assms(2)
  proof (induction hist rule: rev_induct)
    case Nil
    then show ?case using assms(1) by (simp add: run_arrivals_def)
  next
    case (snoc a hist)
    show ?case
    proof (cases "sharded_get (env_hash env) (branches_of (run_arrivals fuel env hist s0)) branch = Some r")
      case True
      from snoc.IH [OF this] obtain pre b post where "hist = pre @ b # post" "br_client_peer r = arrival_peer b"
        "sharded_get (env_hash env) (branches_of (run_arrivals fuel env pre s0)) branch \<noteq> Some r"
        "sharded_get (env_hash env) (branches_of (run_arrivals fuel env (pre @ [b]) s0)) branch = Some r" by blast
      then show ?thesis by (intro exI [of _ pre] exI [of _ b] exI [of _ "post @ [a]"]) simp
    next
      case False
      have "br_client_peer r = arrival_peer a"
        using snoc.prems False inv [of hist] arrival_branches [of env a "{}" "run_arrivals fuel env hist s0" fuel]
        by (auto simp: run_arrivals_def branches_for_def)
      then show ?thesis using False snoc.prems by (intro exI [of _ hist] exI [of _ a] exI [of _ "[]"]) simp
    qed
  qed
qed

section \<open>What a relayed response sends\<close>

interpretation silent: quiet_frame "\<lambda>s t. st_sent t = st_sent s" env for env
  by unfold_locales simp_all

interpretation still: quiet_frame "\<lambda>s t. branches_of t = branches_of s" env for env
  by unfold_locales simp_all

lemma silent_tables [simp]: "silent.keeps (tables t)" "silent.keeps (on_tables t')"
  by (simp_all add: silent.keeps_def handler_defs split_beta)

lemma still_sends [simp]: "still.keeps (send_to env a b)"
  by (simp add: still.keeps_def send_to_def Let_def)

text \<open>At most one datagram, and only to \<open>a\<close>.\<close>

definition one_to :: "sock_addr \<Rightarrow> 'a handler \<Rightarrow> bool" where
  "one_to a m \<longleftrightarrow> (\<forall>s. st_sent (snd (m s)) = st_sent s \<or> (\<exists>bytes. st_sent (snd (m s)) = st_sent s @ [Datagram a bytes]))"

lemma one_to_silent: "silent.keeps m \<Longrightarrow> one_to a m"
  by (simp add: one_to_def silent.keeps_def)

lemma one_to_send [simp]: "one_to a (send_to env a bytes)"
  by (simp add: one_to_def send_to_def Let_def)

lemma seq_state: "seq m f s = (case m s of (Inl e, s1) \<Rightarrow> (Inl e, s1) | (Inr x, s1) \<Rightarrow> f x s1)"
  by (simp add: seq_def)

lemma one_to_after:
  assumes m: "silent.keeps m" and f: "\<And>x. one_to a (f x)"
  shows "one_to a (seq m f)"
  unfolding one_to_def
proof
  fix s
  obtain r s1 where ms: "m s = (r, s1)" by fastforce
  have "st_sent s1 = st_sent s" using m ms unfolding silent.keeps_def by (metis snd_conv)
  then show "st_sent (snd (seq m f s)) = st_sent s \<or> (\<exists>bytes. st_sent (snd (seq m f s)) = st_sent s @ [Datagram a bytes])"
    using ms f unfolding one_to_def by (cases r) (simp_all add: seq_state, metis)
qed

lemma one_to_before:
  assumes m: "one_to a m" and f: "\<And>x. silent.keeps (f x)"
  shows "one_to a (seq m f)"
  unfolding one_to_def
proof
  fix s
  obtain r s1 where ms: "m s = (r, s1)" by fastforce
  have "st_sent (snd (seq m f s)) = st_sent s1"
    using ms f unfolding silent.keeps_def by (cases r) (simp_all add: seq_state)
  moreover have "st_sent s1 = st_sent s \<or> (\<exists>bytes. st_sent s1 = st_sent s @ [Datagram a bytes])"
    using m ms unfolding one_to_def by (metis snd_conv)
  ultimately show "st_sent (snd (seq m f s)) = st_sent s \<or> (\<exists>bytes. st_sent (snd (seq m f s)) = st_sent s @ [Datagram a bytes])"
    by simp
qed

lemma silent_when [intro, simp]: "silent.keeps m \<Longrightarrow> silent.keeps (if b then m else ret ())"
  by simp

lemma one_to_last: "silent.keeps m \<Longrightarrow> silent.keeps n \<Longrightarrow> one_to a (seq (send_to env a bytes) (\<lambda>ok. seq m (\<lambda>_. if ok then ret () else n)))"
  by (rule one_to_before) (auto intro: silent.keeps_seq)

lemma relay_one: "one_to (br_client_peer r) (relay_udp_response env m branch r)"
  unfolding relay_udp_response_def
  apply (rule one_to_after, simp)+
  apply (clarsimp split: prod.split option.split simp: one_to_silent split del: if_split)
  apply (rule one_to_after, simp)
  apply (rule one_to_after, simp)
  apply (rule one_to_last, simp_all)
  done

text \<open>What a response finds in the table of branches: only entries that are still alive.\<close>

lemma lookup_branch_found:
  assumes "sharded_inv h (tx_udp_branches t)"
  shows "fst (lookup_udp_branch h now branch t) = keep_if (\<lambda>_. branch_alive now) branch (sharded_get h (tx_udp_branches t) branch)"
  using assms sharded_get_prune_same [of h "tx_udp_branches t" branch "\<lambda>_. branch_alive now"]
  by (simp add: lookup_udp_branch_def Let_def prune_udp_branches_def prune_shard_def)

lemma handle_udp_response_sends:
  assumes "sharded_inv (env_hash env) (branches_of s)"
  shows "st_sent (snd (handle_udp_response env m src s)) = st_sent s \<or>
    (\<exists>branch r bytes. top_via_branch (env_rsip env) m = Inr (Some branch) \<and> starts_with branch proxy_branch_prefix
       \<and> sharded_get (env_hash env) (branches_of s) branch = Some r
       \<and> branch_alive (env_instant env (st_tick s)) r
       \<and> st_sent (snd (handle_udp_response env m src s)) = st_sent s @ [Datagram (br_client_peer r) bytes])"
proof (cases "\<exists>branch. top_via_branch (env_rsip env) m = Inr (Some branch) \<and> starts_with branch proxy_branch_prefix")
  case False
  then show ?thesis
    by (auto simp: handle_udp_response_def seq_def lift_err_def ret_def fail_def split: sum.splits option.splits)
next
  case True
  then obtain branch where b: "top_via_branch (env_rsip env) m = Inr (Some branch)" "starts_with branch proxy_branch_prefix" by blast
  define now where "now = env_instant env (st_tick s)"
  define s1 where "s1 = s\<lparr>st_tick := Suc (st_tick s), st_tables := snd (lookup_udp_branch (env_hash env) now branch (st_tables s))\<rparr>"
  have run: "handle_udp_response env m src s =
      (case fst (lookup_udp_branch (env_hash env) now branch (st_tables s)) of
         None \<Rightarrow> (Inr (), s1) | Some r \<Rightarrow> relay_udp_response env m branch r s1)"
    by (simp add: handle_udp_response_def seq_def lift_err_def ret_def b read_instant_def on_tables_def split_beta Let_def
        now_def s1_def split: option.split)
  show ?thesis
  proof (cases "fst (lookup_udp_branch (env_hash env) now branch (st_tables s))")
    case None
    then show ?thesis using run by (simp add: s1_def)
  next
    case (Some r)
    then have r: "sharded_get (env_hash env) (branches_of s) branch = Some r" "branch_alive now r"
      using lookup_branch_found [OF assms] by (simp_all add: keep_if_eq_Some)
    have "st_sent (snd (relay_udp_response env m branch r s1)) = st_sent s1 \<or>
        (\<exists>bytes. st_sent (snd (relay_udp_response env m branch r s1)) = st_sent s1 @ [Datagram (br_client_peer r) bytes])"
      using relay_one unfolding one_to_def by metis
    then show ?thesis using Some run b r by (auto simp: s1_def now_def)
  qed
qed

section \<open>Retransmissions\<close>

lemma one_to_if_trying:
  "one_to peer (seq (gets f) (\<lambda>trying. if trying then send_udp_invite_trying env m peer else ret ()))"
  unfolding send_udp_invite_trying_def local_udp_response_def send_or_fail_def
  by (auto intro!: one_to_after one_to_before [OF one_to_send] simp: one_to_silent)

text \<open>A relation on the tables and counters a retransmission must leave alone.\<close>

definition untouched :: "proxy_state \<Rightarrow> proxy_state \<Rightarrow> bool" where
  "untouched s t \<longleftrightarrow> st_upstreams t = st_upstreams s \<and> st_node t = st_node s \<and> st_next_id t = st_next_id s
     \<and> st_security t = st_security s \<and> st_tables t = st_tables s"

interpretation idle: handler_frame untouched
  by unfold_locales (simp_all add: untouched_def)

lemma idle_basic [intro, simp]:
  "idle.keeps (metric g)" "idle.keeps (send_to env a b)" "idle.keeps (read_instant env)"
  by (auto simp: idle.keeps_def untouched_def handler_defs outside_defs split_beta Let_def)

lemma idle_trying: "idle.keeps (send_udp_invite_trying env m peer)"
  by (auto simp: send_udp_invite_trying_def local_udp_response_def send_or_fail_def intro!: idle.keeps_seq)

text \<open>
  C4: A UDP request whose transaction key is still in the client transaction table is a
  retransmission and is never forwarded again: no upstream server is chosen, no branch, pending
  registration, affinity or registration changes and no request goes to an upstream pool.  The
  sender is the only one who may be sent a datagram; when the final response is known, it is
  that response, byte for byte.
\<close>

theorem retransmission_absorbed:
  assumes "udp_client_transaction_key (env_rsip env) (env_headers env) m peer method = Inr (Some k)"
    and "fst (lookup_udp_client_transaction (env_hash env) (env_instant env (st_tick s)) k (st_tables s)) = Some route"
    and "s' = snd (forward_udp fuel env m peer listener method s)"
  shows "(st_sent s' = st_sent s \<or> (\<exists>bytes. st_sent s' = st_sent s @ [Datagram peer bytes]))
    \<and> (\<forall>response. ct_final_response route = Some response \<and> env_send_ok env (Suc (st_tick s))
         \<longrightarrow> st_sent s' = st_sent s @ [Datagram peer response])
    \<and> st_upstreams s' = st_upstreams s \<and> st_node s' = st_node s \<and> st_next_id s' = st_next_id s
    \<and> st_tables s' = snd (lookup_udp_client_transaction (env_hash env) (env_instant env (st_tick s)) k (st_tables s))"
proof -
  define s1 where "s1 = s\<lparr>st_tick := Suc (st_tick s),
    st_tables := snd (lookup_udp_client_transaction (env_hash env) (env_instant env (st_tick s)) k (st_tables s))\<rparr>"
  let ?trying = "seq (gets (\<lambda>s. method = ''INVITE'' \<and> \<not> is_upstream_source env s peer)) (\<lambda>trying.
      if trying then send_udp_invite_trying env m peer else ret ())"
  have run: "s' = snd ((case ct_final_response route of Some response \<Rightarrow> send_or_fail env peer response | None \<Rightarrow> ?trying) s1)"
    using assms(2) unfolding assms(3) forward_udp_def
    by (simp add: assms(1) seq_def lift_err_def ret_def read_instant_def on_tables_def split_beta s1_def Let_def)
  have s1: "st_sent s1 = st_sent s" "untouched (s1\<lparr>st_tables := st_tables s\<rparr>) s"
    "st_tables s1 = snd (lookup_udp_client_transaction (env_hash env) (env_instant env (st_tick s)) k (st_tables s))"
    "st_tick s1 = Suc (st_tick s)" by (simp_all add: s1_def untouched_def)
  show ?thesis
  proof (cases "ct_final_response route")
    case None
    have s': "s' = snd (?trying s1)" using run None by simp
    have "one_to peer ?trying" by (rule one_to_if_trying)
    then have "st_sent s' = st_sent s \<or> (\<exists>bytes. st_sent s' = st_sent s @ [Datagram peer bytes])"
      unfolding s' s1(1) [symmetric] one_to_def by blast
    moreover have "idle.keeps ?trying" by (auto intro!: idle.keeps_seq idle_trying)
    then have "untouched s1 s'" unfolding s' idle.keeps_def by blast
    ultimately show ?thesis using None s1 by (simp add: untouched_def)
  next
    case (Some response)
    then show ?thesis using run s1 by (auto simp: send_or_fail_def seq_def send_to_def Let_def ret_def fail_def untouched_def)
  qed
qed

definition via_key :: string where
  "via_key = show_sock (SockV4 1 5060) @ '':'' @ trim ''z9hG4bK1'' @ '':'' @ trim ''call-1'' @ '':'' @ dec_str 1 @ '':BYE''"

definition answered_tables :: transaction_tables where
  "answered_tables = remember_udp_client_transaction_final_response (\<lambda>_. 0) 0 via_key ''200''
     (remember_udp_client_transaction (\<lambda>_. 0) 4 0 via_key \<lparr>ut_addr = SockV4 2 5060, ut_transport = Udp\<rparr> transaction_tables_new)"

theorem retransmission_absorbed_witness:
  "st_sent (snd (forward_udp 0 via_env (via_request MBye) (SockV4 1 5060) example_listener ''BYE''
     (example_state\<lparr>st_tables := answered_tables\<rparr>))) = [Datagram (SockV4 1 5060) ''200'']"
proof -
  let ?s = "example_state\<lparr>st_tables := answered_tables\<rparr>"
  have 1: "udp_client_transaction_key (env_rsip via_env) (env_headers via_env) (via_request MBye) (SockV4 1 5060) ''BYE'' =
      Inr (Some via_key)"
    by (simp add: udp_client_transaction_key_def via_env_def via_lib_def via_request_def top_via_branch_def from_inner_def
        as_request_def call_id_value_def cseq_number_def example_env_def example_headers_def via_header_def named_def
        eq_ignore_ascii_case_def via_key_def with_context_def)
  have 2: "fst (lookup_udp_client_transaction (env_hash via_env) (env_instant via_env (st_tick ?s)) via_key (st_tables ?s)) =
      Some \<lparr>ct_target = \<lparr>ut_addr = SockV4 2 5060, ut_transport = Udp\<rparr>, ct_final_response = Some ''200'', ct_created_at = 0\<rparr>"
    by (simp add: lookup_udp_client_transaction_def answered_tables_def remember_udp_client_transaction_final_response_def
        remember_udp_client_transaction_def transaction_tables_new_def via_env_def example_env_def Let_def with_shard_def
        sharded_new_def sharded_get_def shard_for_key_def string_shard_index_def route_map_shards_def hm_get_def hm_insert_def
        prune_udp_client_transactions_def hm_retain_def client_alive_def enforce_udp_client_transaction_shard_limit.simps
        time_simps hm_len_def hm_empty_def)
  have 3: "env_send_ok via_env (Suc (st_tick ?s))" "st_sent ?s = []"
    by (simp_all add: via_env_def example_env_def example_state_def)
  from retransmission_absorbed [OF 1 2 refl] 3 show ?thesis by simp
qed

section \<open>A cancelled INVITE\<close>

lemma prepare_cancel_branch:
  assumes "prepare_forward env m peer listener ''CANCEL'' s = (Inr p, s1)" "\<not> is_upstream_source env s peer"
    and "invite_transaction_key (env_rsip env) (env_headers env) m = Inr (Some k)"
    and "fst (lookup_invite_transaction (env_hash env) (env_instant env (st_tick s)) (Some k) (st_tables s)) = Some invite"
  shows "pp_branch p = it_branch invite"
  using assms unfolding prepare_forward_def find_invite_transaction_def choose_branch_def
  by (auto simp: handler_Inr read_instant_def on_tables_def split_beta Let_def split: option.splits)

lemma remember_branch_get:
  assumes "sharded_inv h (tx_udp_branches t)"
  shows "sharded_get h (tx_udp_branches (remember_udp_branch h now branch r t)) branch = Some r"
  using assms branches.prune_then_insert [OF assms, of branch r now] branches.inv_prune [OF assms, of branch now]
  by (simp add: remember_udp_branch_def prune_udp_branches_def sharded_get_insert)

lemma still_step: "still.keeps m \<Longrightarrow> m s = (x, t) \<Longrightarrow> branches_of t = branches_of s"
  unfolding still.keeps_def by (metis snd_conv)

lemma still_trying [simp]: "still.keeps (send_udp_invite_trying env m peer)"
  by (auto simp: send_udp_invite_trying_def local_udp_response_def send_or_fail_def intro!: still.keeps_seq)

lemma forwarded_branch:
  assumes inv: "sharded_inv (env_hash env) (branches_of s)"
    and p: "prepare_forward env m peer listener method s = (Inr p, s0)" "ut_transport (pp_target p) = Udp"
    and run: "forward_new_udp fuel env m peer listener method key s = (Inr (), s1)"
  shows "\<exists>now. sharded_get (env_hash env) (branches_of s1) (pp_branch p) =
    Some \<lparr>br_client_peer = peer, br_upstream = ut_addr (pp_target p), br_method = method, br_created_at = now,
      br_remove_on_final = (method \<noteq> ''INVITE''), br_client_transaction_key = key, br_record_route_addrs = pp_record_routes p\<rparr>"
proof -
  have s0: "branches_of s0 = branches_of s" using p(1) by (rule still_step [rotated]) simp
  define trying where "trying = (if method = ''INVITE'' \<and> \<not> is_upstream_source env s peer then send_udp_invite_trying env m peer else ret ())"
  have trying: "still.keeps trying" by (simp add: trying_def)
  from run [unfolded forward_new_udp_def, simplified Let_def seq_Inr gets_Inr] p
  obtain s2 s3 s4 s5 s6 now ok where 
    st: "trying s0 = (Inr (), s2)"
      "metric_opt (record_forwarded_request (env_hash env) (env_metric_handles env) ''udp'' (ut_transport (pp_target p)) (Some method)) s2 = (Inr (), s3)"
      "read_instant env s3 = (Inr now, s4)" 
      "remember_client env key (pp_target p) (s4\<lparr>st_tables := remember_udp_branch (env_hash env) now (pp_branch p)
        \<lparr>br_client_peer = peer, br_upstream = ut_addr (pp_target p), br_method = method, br_created_at = now,
      br_remove_on_final = (method \<noteq> ''INVITE''), br_client_transaction_key = key, br_record_route_addrs = pp_record_routes p\<rparr> (st_tables s4)\<rparr>) = (Inr (), s5)"
      "send_to env (ut_addr (pp_target p)) (sip_to_bytes (env_rsip env) (pp_message p)) s5 = (Inr ok, s6)" "ok"
      "remember_successful_forward env (pp_message p) (pp_target p) (pp_branch p) (pp_invite_key p) method s6 = (Inr (), s1)"
    by (auto simp: handler_Inr tables_def trying_def split: if_splits)
  have "branches_of s4 = branches_of s"
    using still_step [OF still.keeps_outside(6) st(3)] still_step [OF still.keeps_outside(2) st(2)] still_step [OF trying st(1)] s0 by simp
  moreover have "branches_of s1 = branches_of (s4\<lparr>st_tables := remember_udp_branch (env_hash env) now (pp_branch p)
        \<lparr>br_client_peer = peer, br_upstream = ut_addr (pp_target p), br_method = method, br_created_at = now,
      br_remove_on_final = (method \<noteq> ''INVITE''), br_client_transaction_key = key, br_record_route_addrs = pp_record_routes p\<rparr> (st_tables s4)\<rparr>)"
    using still_step [OF still.keeps_remember_successful st(7)] still_step [OF still_sends st(5)]
      still_step [OF still.keeps_clients(1) st(4)] by simp
  ultimately show ?thesis using inv by (intro exI [of _ now]) (simp add: remember_branch_get)
qed

lemma final_closes_branch:
  assumes inv: "sharded_inv (env_hash env) (branches_of s)"
    and m: "top_via_branch (env_rsip env) m = Inr (Some branch)" "is_final m" "starts_with branch proxy_branch_prefix"
    and r: "\<And>r. sharded_get (env_hash env) (branches_of s) branch = Some r \<Longrightarrow> br_remove_on_final r"
    and run: "handle_udp_response env m src s = (Inr (), s')"
  shows "sharded_get (env_hash env) (branches_of s') branch = None"
proof -
  define now where "now = env_instant env (st_tick s)"
  define s1 where "s1 = s\<lparr>st_tick := Suc (st_tick s), st_tables := snd (lookup_udp_branch (env_hash env) now branch (st_tables s))\<rparr>"
  have inv1: "sharded_inv (env_hash env) (branches_of s1)"
    using branches_for_lookup [of "env_hash env" "{}" s now branch] inv by (simp add: branches_for_def s1_def)
  have found: "sharded_get (env_hash env) (branches_of s1) branch = fst (lookup_udp_branch (env_hash env) now branch (st_tables s))"
    by (simp add: s1_def lookup_udp_branch_def Let_def)
  from run m(1,3) consider "fst (lookup_udp_branch (env_hash env) now branch (st_tables s)) = None" "s' = s1"
    | r where "fst (lookup_udp_branch (env_hash env) now branch (st_tables s)) = Some r" "relay_udp_response env m branch r s1 = (Inr (), s')"
    by (auto simp: handle_udp_response_def handler_Inr read_instant_def on_tables_def split_beta Let_def now_def s1_def split: option.splits)
  then show ?thesis
  proof cases
    case 1
    then show ?thesis using found by simp
  next
    case (2 r)
    have rr: "br_remove_on_final r" using assms(5) [of r] 2(1) lookup_branch_found [OF inv, of now branch] by (auto simp: keep_if_eq_Some)
    from 2(2) rr m(2) obtain a s2 s3 m3 s4 s5 ok s6 where st:
      "note_upstream_response env ''udp'' ''udp'' Udp (br_upstream r) (br_method r) (br_created_at r) branch m s1 = (Inr (), s2)"
      "remember_final env (br_client_transaction_key r) (sip_to_bytes (env_rsip env) m3) s2 = (Inr (), s4)"
      "send_to env (br_client_peer r) (sip_to_bytes (env_rsip env) m3) s4 = (Inr ok, s5)"
      "s' = s5\<lparr>st_tables := remove_udp_branch (env_hash env) branch (st_tables s5)\<rparr>"
      unfolding relay_udp_response_def
      by (auto simp: handler_Inr tables_def split: if_splits option.splits)
    have "branches_of s5 = branches_of s1"
      using still_step [OF still_sends st(3)] still_step [OF still.keeps_clients(3) st(2)]
        still_step [OF still.keeps_note_response st(1)] by simp
    then show ?thesis using inv1 by (simp add: st(4) remove_udp_branch_def sharded_get_remove)
  qed
qed
text \<open>
  C5: A forwarded CANCEL takes the branch of its INVITE and replaces the INVITE's entry in the
  branch table by one that the first final response removes.  After the CANCEL's final response
  has been relayed, every further response on that branch is dropped: the client never receives
  the INVITE's own final response (the 487).
\<close>

theorem cancelled_invite_answer_lost:
  assumes inv: "sharded_inv (env_hash env) (branches_of s)" and "\<not> is_upstream_source env s peer"
    and "invite_transaction_key (env_rsip env) (env_headers env) cancel = Inr (Some k)"
    and "fst (lookup_invite_transaction (env_hash env) (env_instant env (st_tick s)) (Some k) (st_tables s)) = Some invite"
    and p: "fst (prepare_forward env cancel peer listener ''CANCEL'' s) = Inr p" "ut_transport (pp_target p) = Udp"
    and run: "forward_new_udp fuel env cancel peer listener ''CANCEL'' key s = (Inr (), s1)"
    and ok: "top_via_branch (env_rsip env) ok = Inr (Some (it_branch invite))" "is_final ok"
      "handle_udp_response env ok src s1 = (Inr (), s2)"
    and late: "top_via_branch (env_rsip env) late = Inr (Some (it_branch invite))"
  shows "st_sent (snd (handle_udp_response env late src' s2)) = st_sent s2"
proof -
  let ?h = "env_hash env" and ?b = "it_branch invite"
  obtain s0 where p': "prepare_forward env cancel peer listener ''CANCEL'' s = (Inr p, s0)" using p(1) by (metis prod.collapse)
  have b: "pp_branch p = ?b" using prepare_cancel_branch [OF p' assms(2-4)] .
  have inv1: "sharded_inv ?h (branches_of s1)"
    using relay.keeps_forward_new_udp [of env peer "{}" fuel cancel listener "''CANCEL''" key] run inv
    unfolding relay.keeps_def branches_for_def by (metis snd_conv)
  have inv2: "sharded_inv ?h (branches_of s2)"
    using relay.keeps_udp_response [of env peer "{}" ok src] ok(3) inv1
    unfolding relay.keeps_def branches_for_def by (metis snd_conv)
  have "br_remove_on_final r" if "sharded_get ?h (branches_of s1) ?b = Some r" for r
    using forwarded_branch [OF inv p' p(2) run] that b by auto
  from final_closes_branch [OF inv1 ok(1,2) _ this ok(3)]
  have "starts_with ?b proxy_branch_prefix \<Longrightarrow> sharded_get ?h (branches_of s2) ?b = None" by blast
  with handle_udp_response_sends [OF inv2, of late src'] late show ?thesis by auto
qed

text \<open>A client's CANCEL in an environment where nothing fails, and the answers that follow it.\<close>

lemma forwarded_inv:
  assumes "sharded_inv (env_hash env) (branches_of s)" "forward_new_udp fuel env m peer listener method key s = (x, t)"
  shows "sharded_inv (env_hash env) (branches_of t)"
proof -
  have "branches_for (env_hash env) {peer} s (snd (forward_new_udp fuel env m peer listener method key s))"
    using relay.keeps_forward_new_udp [of env peer "{}" fuel m listener "method" key] unfolding relay.keeps_def by simp
  then show ?thesis using assms by (simp add: branches_for_def)
qed

lemma cancel_branches_empty: "branches_of cancel_state = sharded_new route_map_shards"
  by (simp add: cancel_state_def transaction_tables_new_def)

lemma cancel_ready_start: "cancel_ready cancel_state"
proof -
  have "cancel_state = cancel_state\<lparr>st_upstreams := \<lparr>ups_groups = hm_empty, ups_servers_by_addr = hm_empty\<rparr>\<rparr>"
    by (simp add: cancel_state_def example_state_def)
  also have "cancel_ready \<dots>" by (rule cancel_state_ready) (simp_all add: ups_contains_def hm_empty_def hm_get_def)
  finally show ?thesis .
qed

definition via_response :: "u16 \<Rightarrow> sip_message" where
  "via_response code = from_inner \<lparr>rm_first = RsipResponse code ''x'' ''SIP/2.0'',
     rm_headers = [via_header (proxy_branch_prefix @ ''7''), via_header ''z9hG4bK1''], rm_body = []\<rparr>"

lemma cancel_remembered: "unat (af_ttl_seconds (tab_config (n_affinity (st_node s)))) < 9223372036854775808 \<Longrightarrow> \<exists>s'. remember_successful_forward via_env m target branch key ''CANCEL'' s = (Inr (), s') \<and> st_tables s' = st_tables s"
  by (auto simp: remember_successful_forward_def should_record_forward_affinity_def handler_defs outside_defs via_env_simps
      remember_def persist_affinity_def eq_ignore_ascii_case_def instant_checked_add_def time_simps split_beta Let_def split: option.splits sum.splits)

lemma cancel_forwarded:
  assumes m: "cancel_like m" and s: "cancel_ready s"
  shows "\<exists>s1. forward_new_udp fuel via_env m (SockV4 1 5060) via_listener ''CANCEL'' key s = (Inr (), s1)
    \<and> tx_pending_registers (st_tables s1) = hm_empty"
proof -
  from cancel_prepared [OF m s] obtain p s1 where
    p: "prepare_forward via_env m (SockV4 1 5060) via_listener ''CANCEL'' s = (Inr p, s1)"
    "ut_transport (pp_target p) = Udp" "tx_pending_registers (st_tables s1) = hm_empty" "st_node s1 = st_node s" by auto
  have t: "unat (af_ttl_seconds (tab_config (n_affinity (st_node s)))) < 9223372036854775808"
    using s by (simp add: cancel_ready_def example_state_def affinity_table_new_def default_config_def default_proxy_def
        default_affinity_def)
  have u: "\<exists>m'. record_forwarded_request h hs ''udp'' Udp (Some ''CANCEL'') m = Some m'" for h hs m
    by (simp add: record_forwarded_request_def Let_def split: option.split)
  obtain m' where "record_forwarded_request (\<lambda>_. 0) (env_metric_handles via_env) ''udp'' Udp (Some ''CANCEL'') (st_metrics s1) = Some m'"
    using u by blast
  then obtain s2 where 2: "metric_opt (record_forwarded_request (\<lambda>_. 0) (env_metric_handles via_env) ''udp'' Udp (Some ''CANCEL'')) s1 = (Inr (), s2)"
     "st_tables s2 = st_tables s1" "st_node s2 = st_node s1" by (auto simp: metric_opt_def)
  define sb where "sb = s2\<lparr>st_tick := Suc (st_tick s2), st_tables := remember_udp_branch (\<lambda>_. 0) 0 (pp_branch p)
      \<lparr>br_client_peer = SockV4 1 5060, br_upstream = ut_addr (pp_target p), br_method = ''CANCEL'', br_created_at = 0,
       br_remove_on_final = True, br_client_transaction_key = key, br_record_route_addrs = pp_record_routes p\<rparr> (st_tables s2)\<rparr>"
  obtain sc where sc: "remember_client via_env key (pp_target p) sb = (Inr (), sc)" "st_node sc = st_node sb"
     "tx_pending_registers (st_tables sc) = tx_pending_registers (st_tables sb)"
    by (cases key) (auto simp: remember_client_def seq_def ret_def read_instant_def tables_def modify_def
        remember_udp_client_transaction_def)
  define s3 where "s3 = sc\<lparr>st_tick := Suc (st_tick sc),
     st_sent := st_sent sc @ [Datagram (ut_addr (pp_target p)) (sip_to_bytes via_lib (pp_message p))]\<rparr>"
  have run: "forward_new_udp fuel via_env m (SockV4 1 5060) via_listener ''CANCEL'' key s =
      remember_successful_forward via_env (pp_message p) (pp_target p) (pp_branch p) (pp_invite_key p) ''CANCEL'' s3"
    unfolding forward_new_udp_def seq_def using p 2 sc(1)
    by (simp add: s3_def sb_def gets_def ret_def tables_def modify_def read_instant_def send_to_def via_env_simps Let_def
       del: prod.case_eq_if)
  have "st_node s3 = st_node s" "tx_pending_registers (st_tables s3) = hm_empty"
    using p 2 sc by (simp_all add: s3_def sb_def remember_udp_branch_def)
  with cancel_remembered [of s3 "pp_message p" "pp_target p" "pp_branch p" "pp_invite_key p"] t run show ?thesis by auto
qed

lemma response_metrics: "\<exists>m'. record_upstream_response_latency h hs d Udp method e m = Some m'"
  by (simp add: record_upstream_response_latency_def Let_def split: option.split)

lemma via_response_steps:
  "top_via_branch via_lib (via_response code) = Inr (Some (proxy_branch_prefix @ ''7''))"
  "response_code (via_response code) = Some code"
  "\<exists>v m2. pop_top_via via_lib (via_response code) = Inr (Some v, m2) \<and> headers_of m2 = [via_header ''z9hG4bK1'']"
  by (simp_all add: top_via_branch_def via_lib_def via_response_def from_inner_def with_context_def via_header_def named_def
      eq_ignore_ascii_case_def response_code_def pop_top_via_def pop_value_at_def split_first_header_value_def is_via_def
      proxy_branch_prefix_def remove_at_def set_headers_def)

lemma via_received: "headers_of m2 = [via_header ''z9hG4bK1''] \<Longrightarrow> \<exists>m3. apply_top_via_received_rport via_lib peer m2 = Inr m3"
  by (simp add: apply_top_via_received_rport_def via_header_def named_def eq_ignore_ascii_case_def split_first_header_value_def Let_def)

lemma cancel_noted:
  assumes "tx_pending_registers (st_tables s) = hm_empty"
  shows "\<exists>s'. note_upstream_response via_env ''udp'' ''udp'' Udp u method started branch (via_response 200) s = (Inr (), s')"
proof -
  obtain m' where "record_upstream_response_latency (\<lambda>_. 0) (env_metric_handles via_env) ''udp'' Udp method (duration_since 0 started)
     (record_upstream_response (\<lambda>_. 0) (env_metric_handles via_env) ''udp'' 200 (st_metrics s)) = Some m'"
    using response_metrics by blast
  then show ?thesis using assms
    by (simp add: note_upstream_response_def via_response_steps handler_defs outside_defs via_env_simps apply_register_response_def
        take_pending_register_def prune_pending_registers_def hm_empty_def hm_retain_def hm_get_def Let_def)
qed

lemma cancel_relayed:
  assumes "tx_pending_registers (st_tables s) = hm_empty" "br_method r = ''CANCEL''"
  shows "\<exists>s'. relay_udp_response via_env (via_response 200) branch r s = (Inr (), s') \<and> st_sent s' \<noteq> st_sent s"
proof -
  obtain s1 where 1: "note_upstream_response via_env ''udp'' ''udp'' Udp (br_upstream r) ''CANCEL'' (br_created_at r) branch (via_response 200) s = (Inr (), s1)"
    using cancel_noted [OF assms(1)] by blast
  have sent: "st_sent s1 = st_sent s"
    using 1 silent.keeps_note_response unfolding silent.keeps_def by (metis snd_conv)
  obtain v m2 where 2: "pop_top_via via_lib (via_response 200) = Inr (Some v, m2)" "headers_of m2 = [via_header ''z9hG4bK1'']"
    using via_response_steps(3) by blast
  obtain m3 where 3: "apply_top_via_received_rport via_lib (br_client_peer r) m2 = Inr m3" using via_received [OF 2(2)] by blast
  have "ensure_dialog_record_routes via_lib m ''CANCEL'' as = Inr m" for m as
    by (simp add: ensure_dialog_record_routes_def should_record_route_def)
  then show ?thesis using 1 2 3 assms(2) sent
    by (auto simp: relay_udp_response_def seq_def lift_err_def tables_def ret_def send_to_def via_env_simps remember_final_def
        read_instant_def Let_def split: option.split)
qed

lemma cancel_answered:
  assumes "tx_pending_registers (st_tables s) = hm_empty"
    and "\<And>r. fst (lookup_udp_branch (\<lambda>_. 0) 0 (proxy_branch_prefix @ ''7'') (st_tables s)) = Some r \<Longrightarrow> br_method r = ''CANCEL''"
  shows "\<exists>s'. handle_udp_response via_env (via_response 200) src s = (Inr (), s') \<and>
    (fst (lookup_udp_branch (\<lambda>_. 0) 0 (proxy_branch_prefix @ ''7'') (st_tables s)) \<noteq> None \<longrightarrow> st_sent s' \<noteq> st_sent s)"
proof -
  let ?s = "s\<lparr>st_tick := Suc (st_tick s), st_tables := snd (lookup_udp_branch (\<lambda>_. 0) 0 (proxy_branch_prefix @ ''7'') (st_tables s))\<rparr>"
  have run: "handle_udp_response via_env (via_response 200) src s =
      (case fst (lookup_udp_branch (\<lambda>_. 0) 0 (proxy_branch_prefix @ ''7'') (st_tables s)) of
         None \<Rightarrow> (Inr (), ?s) | Some r \<Rightarrow> relay_udp_response via_env (via_response 200) (proxy_branch_prefix @ ''7'') r ?s)"
    by (simp add: handle_udp_response_def seq_def lift_err_def ret_def via_env_simps via_response_steps read_instant_def on_tables_def
        split_beta Let_def split: option.split)
  have "tx_pending_registers (st_tables ?s) = hm_empty" using assms(1) by (simp add: lookup_udp_branch_def Let_def)
  from cancel_relayed [OF this] assms(2) show ?thesis
    unfolding run by (cases "fst (lookup_udp_branch (\<lambda>_. 0) 0 (proxy_branch_prefix @ ''7'') (st_tables s))") auto
qed

theorem cancelled_invite_answer_lost_witness:
  "\<exists>s1 s2. forward_new_udp 0 via_env (via_request MCancel) (SockV4 1 5060) via_listener ''CANCEL'' None cancel_state = (Inr (), s1)
     \<and> handle_udp_response via_env (via_response 200) (SockV4 2 5060) s1 = (Inr (), s2)
     \<and> st_sent (snd (handle_udp_response via_env (via_response 487) (SockV4 2 5060) s2)) = st_sent s2"
proof -
  have inv: "sharded_inv (env_hash via_env) (branches_of cancel_state)" by (simp add: cancel_branches_empty sharded_inv_new)
  obtain p s0 where p: "prepare_forward via_env (via_request MCancel) (SockV4 1 5060) via_listener ''CANCEL'' cancel_state = (Inr p, s0)"
    "ut_transport (pp_target p) = Udp" using cancel_prepared [OF cancel_is_cancel cancel_ready_start] by auto
  obtain s1 where s1: "forward_new_udp 0 via_env (via_request MCancel) (SockV4 1 5060) via_listener ''CANCEL'' None cancel_state = (Inr (), s1)"
    "tx_pending_registers (st_tables s1) = hm_empty" using cancel_forwarded [OF cancel_is_cancel cancel_ready_start] by blast
  have k: "invite_transaction_key (env_rsip via_env) (env_headers via_env) (via_request MCancel) = Inr (Some cancel_key)"
    "fst (lookup_invite_transaction (env_hash via_env) (env_instant via_env (st_tick cancel_state)) (Some cancel_key) (st_tables cancel_state)) =
      Some cancel_invite" using cancel_has_key cancel_finds_invite by (simp_all add: via_env_simps)
  have b: "it_branch cancel_invite = proxy_branch_prefix @ ''7''" by (simp add: cancel_invite_def)
  have v: "top_via_branch (env_rsip via_env) (via_response code) = Inr (Some (it_branch cancel_invite))" for code
    by (simp add: via_env_simps via_response_steps b)
  have pb: "pp_branch p = proxy_branch_prefix @ ''7''" using prepare_cancel_branch [OF p(1) cancel_from_client [OF cancel_ready_start] k] b by simp
  have inv1: "sharded_inv (\<lambda>_. 0) (branches_of s1)"
    using forwarded_inv [OF inv s1(1)] by (simp add: via_env_simps)
  have m: "br_method r = ''CANCEL''"
    if "fst (lookup_udp_branch (\<lambda>_. 0) 0 (proxy_branch_prefix @ ''7'') (st_tables s1)) = Some r" for r
    using that lookup_branch_found [OF inv1, of 0 "proxy_branch_prefix @ ''7''"] forwarded_branch [OF inv p s1(1)] pb
    by (auto simp: keep_if_eq_Some via_env_simps)
  obtain s2 where s2: "handle_udp_response via_env (via_response 200) (SockV4 2 5060) s1 = (Inr (), s2)"
    using cancel_answered [OF s1(2) m] by blast
  have "is_final (via_response 200)" by (simp add: is_final_def via_response_steps)
  from cancelled_invite_answer_lost [OF inv cancel_from_client [OF cancel_ready_start] k _ p(2) s1(1) v this s2 v] p s1 s2 show ?thesis by auto
qed

section \<open>A response finds its requester\<close>

text \<open>
  C2: After any history of UDP and TCP packets, a SIP response that arrives at the proxy makes
  it send at most one datagram.  It sends one only for a branch with the proxy's own prefix that
  the table of branches still holds, in an entry that has not expired, and it sends it to the
  client of that entry.  That entry was stored by a packet of the history, which came from that
  very client: it was not in the table before the packet and is there after it.  Nobody who did
  not send a packet is sent a response, whoever the response came from.
\<close>

theorem response_goes_to_requester:
  assumes "branches_of s0 = sharded_new route_map_shards" and "s = run_arrivals fuel env hist s0"
  shows "st_sent (snd (handle_udp_response env m src s)) = st_sent s \<or>
    (\<exists>branch r bytes pre a post.
       st_sent (snd (handle_udp_response env m src s)) = st_sent s @ [Datagram (br_client_peer r) bytes]
       \<and> top_via_branch (env_rsip env) m = Inr (Some branch) \<and> starts_with branch proxy_branch_prefix
       \<and> sharded_get (env_hash env) (branches_of s) branch = Some r
       \<and> branch_alive (env_instant env (st_tick s)) r
       \<and> hist = pre @ a # post \<and> arrival_peer a = br_client_peer r
       \<and> sharded_get (env_hash env) (branches_of (run_arrivals fuel env pre s0)) branch \<noteq> Some r
       \<and> sharded_get (env_hash env) (branches_of (run_arrivals fuel env (pre @ [a]) s0)) branch = Some r)"
proof -
  have "sharded_inv (env_hash env) (branches_of s)" unfolding assms(2) by (rule run_arrivals_inv [OF assms(1)])
  from handle_udp_response_sends [OF this, of m src] show ?thesis
  proof (elim disjE exE conjE)
    fix branch r bytes
    assume h: "top_via_branch (env_rsip env) m = Inr (Some branch)" "starts_with branch proxy_branch_prefix"
      "sharded_get (env_hash env) (branches_of s) branch = Some r" "branch_alive (env_instant env (st_tick s)) r"
      "st_sent (snd (handle_udp_response env m src s)) = st_sent s @ [Datagram (br_client_peer r) bytes]"
    from branch_origin [OF assms(1) h(3) [unfolded assms(2)]] obtain pre a post where
      "hist = pre @ a # post" "br_client_peer r = arrival_peer a"
      "sharded_get (env_hash env) (branches_of (run_arrivals fuel env pre s0)) branch \<noteq> Some r"
      "sharded_get (env_hash env) (branches_of (run_arrivals fuel env (pre @ [a]) s0)) branch = Some r" by blast
    with h show ?thesis
      by (intro disjI2 exI [of _ branch] exI [of _ r] exI [of _ bytes] exI [of _ pre] exI [of _ a] exI [of _ post]) simp
  qed simp
qed

text \<open>
  A client sends a CANCEL in a datagram; the proxy forwards it and stores the branch 7, and the
  upstream server's 200 on that branch goes to the client.
\<close>

lemma cancel_hop:
  "decrement_max_forwards via_lib (via_request MCancel) = Inr (True, set_max_forwards 70 (via_request MCancel))"
  by (simp add: decrement_max_forwards_def max_forwards_def via_lib_def example_lib_def)

lemma cancel_hop_like: "cancel_like (set_max_forwards 70 (via_request MCancel))"
  by (simp add: cancel_like_def request_uri_def via_request_def from_inner_def top_header_value_def via_header_def named_def
      eq_ignore_ascii_case_def sip_headers_def set_max_forwards_def set_headers_def replace_first_def max_forwards_header_def
      invite_transaction_key_def via_lib_def top_via_branch_def
      as_request_def call_id_value_def cseq_number_def example_headers_def cancel_key_def with_context_def)

lemma cancel_ready_keep:
  assumes "cancel_ready s" "st_upstreams t = st_upstreams s" "st_node t = st_node s"
    "tx_pending_registers (st_tables t) = tx_pending_registers (st_tables s)"
    "tx_invite_transactions (st_tables t) = tx_invite_transactions (st_tables s)"
  shows "cancel_ready t"
  using assms by (simp add: cancel_ready_def lookup_invite_transaction_def Let_def)

lemma cancel_packet:
  "\<exists>key s s1. cancel_ready s \<and> branches_of s = sharded_new route_map_shards
     \<and> handle_udp_packet 0 via_env ''c'' (SockV4 1 5060) via_listener cancel_state = (Inr (), s1)
     \<and> forward_new_udp 0 via_env (set_max_forwards 70 (via_request MCancel)) (SockV4 1 5060) via_listener ''CANCEL'' key s = (Inr (), s1)
     \<and> tx_pending_registers (st_tables s1) = hm_empty"
proof -
  let ?m = "set_max_forwards 70 (via_request MCancel)"
  have parse: "sip_parse via_lib ''c'' = Inr (via_request MCancel)"
    by (simp add: sip_parse_def via_lib_def via_request_def from_inner_def parse_start_line_def)
  obtain sm where sm: "metric (record_sip_request (\<lambda>_. 0) (env_metric_handles via_env) ''udp'' ''CANCEL'') cancel_state = (Inr (), sm)"
     "st_tables sm = st_tables cancel_state" "st_node sm = st_node cancel_state" "st_upstreams sm = st_upstreams cancel_state"
    by (auto simp: metric_def modify_def)
  have "is_response (via_request MCancel) = False" "sip_method_of (via_request MCancel) = Some ''CANCEL''"
    by (simp_all add: is_response_def sip_method_of_def via_request_def from_inner_def)
  moreover have "packet_bytes ''c'' = [99]" by (simp add: packet_bytes_def)
  ultimately have start: "handle_udp_packet 0 via_env ''c'' (SockV4 1 5060) via_listener cancel_state =
      hop_and_forward_udp 0 via_env ''c'' (via_request MCancel) (SockV4 1 5060) via_listener ''CANCEL'' sm"
    using parse sm(1)
    by (simp add: handle_udp_packet_def is_crlf_keepalive_def stun_binding_success_response_def is_stun_packet_def panics_def
        seq_def ret_def gets_def via_env_simps handle_sip_udp_def canonical_sip_method_def handle_udp_request_def absorb_ack_def)
  obtain k where k: "udp_client_transaction_key via_lib example_headers ?m (SockV4 1 5060) ''CANCEL'' = Inr (Some k)"
    by (simp add: udp_client_transaction_key_def via_lib_def via_request_def top_via_branch_def from_inner_def set_max_forwards_def
        set_headers_def replace_first_def max_forwards_header_def as_request_def call_id_value_def cseq_number_def
        example_headers_def via_header_def named_def eq_ignore_ascii_case_def with_context_def)
  have none: "fst (lookup_udp_client_transaction (\<lambda>_. 0) 0 k (st_tables cancel_state)) = None"
    by (simp add: lookup_udp_client_transaction_def cancel_state_def transaction_tables_new_def Let_def with_shard_def
        sharded_new_def sharded_get_def shard_for_key_def string_shard_index_def route_map_shards_def hm_get_def
        prune_udp_client_transactions_def hm_retain_def hm_empty_def)
  define s where "s = sm\<lparr>st_tick := Suc (st_tick sm), st_tables := snd (lookup_udp_client_transaction (\<lambda>_. 0) 0 k (st_tables sm))\<rparr>"
  have ready: "cancel_ready s"
    by (rule cancel_ready_keep [OF cancel_ready_start]) (simp_all add: s_def sm lookup_udp_client_transaction_def Let_def)
  from cancel_forwarded [OF cancel_hop_like ready] obtain s1 where
    s1: "forward_new_udp 0 via_env ?m (SockV4 1 5060) via_listener ''CANCEL'' (Some k) s = (Inr (), s1)"
      "tx_pending_registers (st_tables s1) = hm_empty" by blast
  have "forward_udp 0 via_env ?m (SockV4 1 5060) via_listener ''CANCEL'' sm = (Inr (), s1)"
    using k none sm(2) s1(1)
    by (simp add: forward_udp_def seq_def lift_err_def ret_def via_env_simps read_instant_def on_tables_def split_beta s_def Let_def)
  then have "handle_udp_packet 0 via_env ''c'' (SockV4 1 5060) via_listener cancel_state = (Inr (), s1)"
    unfolding start by (simp add: hop_and_forward_udp_def via_env_simps cancel_hop forward_or_503_udp_def on_error_def)
  moreover have "branches_of s = sharded_new route_map_shards"
    using cancel_branches_empty by (simp add: s_def sm lookup_udp_client_transaction_def Let_def)
  ultimately show ?thesis using ready s1 by blast
qed

theorem response_goes_to_requester_witness:
  "let s = run_arrivals 0 via_env [UdpArrival ''c'' (SockV4 1 5060) via_listener] cancel_state
   in \<exists>bytes r. st_sent (snd (handle_udp_response via_env (via_response 200) (SockV4 2 5060) s)) =
        st_sent s @ [Datagram (SockV4 1 5060) bytes]
      \<and> sharded_get (env_hash via_env) (branches_of s) (proxy_branch_prefix @ ''7'') = Some r
      \<and> sharded_get (env_hash via_env) (branches_of cancel_state) (proxy_branch_prefix @ ''7'') \<noteq> Some r"
proof -
  let ?b = "proxy_branch_prefix @ ''7''" and ?m = "set_max_forwards 70 (via_request MCancel)"
  obtain key s0 s where s: "cancel_ready s0" "branches_of s0 = sharded_new route_map_shards"
      "handle_udp_packet 0 via_env ''c'' (SockV4 1 5060) via_listener cancel_state = (Inr (), s)"
      "forward_new_udp 0 via_env ?m (SockV4 1 5060) via_listener ''CANCEL'' key s0 = (Inr (), s)"
      "tx_pending_registers (st_tables s) = hm_empty" using cancel_packet by blast
  have run: "run_arrivals 0 via_env [UdpArrival ''c'' (SockV4 1 5060) via_listener] cancel_state = s"
    using s(3) by (simp add: run_arrivals_def)
  have inv: "sharded_inv (env_hash via_env) (branches_of s0)" by (simp add: s(2) sharded_inv_new)
  have inv1: "sharded_inv (\<lambda>_. 0) (branches_of s)" using forwarded_inv [OF inv s(4)] by (simp add: via_env_simps)
  obtain p s' where p: "prepare_forward via_env ?m (SockV4 1 5060) via_listener ''CANCEL'' s0 = (Inr p, s')"
    "ut_transport (pp_target p) = Udp" using cancel_prepared [OF cancel_hop_like s(1)] by auto
  have "pp_branch p = ?b"
    using prepare_cancel_branch [OF p(1) cancel_from_client [OF s(1)], of cancel_key cancel_invite] cancel_hop_like s(1)
    by (simp add: via_env_simps cancel_like_def cancel_ready_def cancel_invite_def)
  then obtain now where r: "sharded_get (\<lambda>_. 0) (branches_of s) ?b = Some \<lparr>br_client_peer = SockV4 1 5060,
      br_upstream = ut_addr (pp_target p), br_method = ''CANCEL'', br_created_at = now, br_remove_on_final = True,
      br_client_transaction_key = key, br_record_route_addrs = pp_record_routes p\<rparr>"
    using forwarded_branch [OF inv p s(4)] by (auto simp: via_env_simps)
  obtain s2 where s2: "handle_udp_response via_env (via_response 200) (SockV4 2 5060) s = (Inr (), s2)" "st_sent s2 \<noteq> st_sent s"
    using cancel_answered [OF s(5)] lookup_branch_found [OF inv1, of 0 ?b] r
    by (auto simp: keep_if_def branch_alive_def time_simps)
  from response_goes_to_requester [OF cancel_branches_empty refl, where fuel = 0 and env = via_env
      and hist = "[UdpArrival ''c'' (SockV4 1 5060) via_listener]" and m = "via_response 200" and src = "SockV4 2 5060"]
  obtain branch r bytes where "top_via_branch via_lib (via_response 200) = Inr (Some branch)"
      "st_sent s2 = st_sent s @ [Datagram (br_client_peer r) bytes]" "br_client_peer r = SockV4 1 5060"
      "sharded_get (\<lambda>_. 0) (branches_of s) branch = Some r" "sharded_get (\<lambda>_. 0) (branches_of cancel_state) branch \<noteq> Some r"
    unfolding run using s2 by (auto simp: via_env_simps run_arrivals_def Cons_eq_append_conv)
  then show ?thesis unfolding Let_def run using s2 by (auto simp: via_env_simps via_response_steps)
qed

end
