(* ===== verification/Tcp_Pool.thy ===== *)
theory Tcp_Pool
  imports Dispatch "HOL-Library.Sublist"
begin

text \<open>
  TCP towards upstream servers (\<open>proxy/server.rs\<close>): the pool of connections, the branch table of
  a connection, the reader that hands responses to the waiting requests, and the reader that cuts
  a stream into SIP messages.  A connection is shared by the pool, by requests in flight and by
  its reader task (an \<open>Arc\<close>), so connections live in a store and are named by handles; an
  unbounded channel is named by a number and holds what was sent into it.  Whether a connection
  can be made and how a write ends are arguments; every operation is one step.  Shown here: a
  response reaches only a channel that was opened for a request with its branch to the server of
  its connection; a second request under the same branch (a CANCEL) takes all later responses away
  from the first; the stream reader keeps to its limits, on endless
  streams too.
\<close>

section \<open>Connections and branches\<close>

definition tcp_branch_ttl :: duration where
  "tcp_branch_ttl = from_secs 300"

record tcp_branch_route =
  tr_tx :: nat
  tr_method :: string
  tr_record_route_addrs :: "string list"
  tr_created_at :: instant

record tcp_upstream_connection =
  tcn_target :: sock_addr
  tcn_branches :: "(string, tcp_branch_route) hmap"
  tcn_alive :: bool

record tcp_upstream_pool =
  tpl_connections :: "(sock_addr, nat) hmap"
  tpl_store :: "nat \<Rightarrow> tcp_upstream_connection"
  tpl_next :: nat
  tpl_channels :: "nat \<Rightarrow> string list"
  tpl_next_channel :: nat

definition tcp_branch_alive :: "instant \<Rightarrow> tcp_branch_route \<Rightarrow> bool" where
  "tcp_branch_alive now r \<longleftrightarrow> duration_since now (tr_created_at r) \<le> tcp_branch_ttl"

definition prune_tcp_branches :: "instant \<Rightarrow> (string, tcp_branch_route) hmap \<Rightarrow> (string, tcp_branch_route) hmap" where
  "prune_tcp_branches now = hm_retain (\<lambda>_. tcp_branch_alive now)"

definition on_connection ::
  "nat \<Rightarrow> (tcp_upstream_connection \<Rightarrow> tcp_upstream_connection) \<Rightarrow> tcp_upstream_pool \<Rightarrow> tcp_upstream_pool" where
  "on_connection c f p = p\<lparr>tpl_store := (tpl_store p)(c := f (tpl_store p c))\<rparr>"

definition tcp_upstream_pool_new :: tcp_upstream_pool where
  "tcp_upstream_pool_new = \<lparr>tpl_connections = hm_empty,
     tpl_store = (\<lambda>_. \<lparr>tcn_target = SockV4 0 0, tcn_branches = hm_empty, tcn_alive = False\<rparr>), tpl_next = 0,
     tpl_channels = (\<lambda>_. []), tpl_next_channel = 0\<rparr>"

datatype tcp_error = TcpConnectFailed | TcpConnectionClosed | TcpWriteTimedOut | TcpWriteFailed
datatype write_outcome = WriteOk | WriteError | WriteTimeout

text \<open>What a request needs besides its target: branch, method and the Record-Route values.\<close>

record tcp_request =
  tq_branch :: string
  tq_method :: string
  tq_record_route_addrs :: "string list"

text \<open>
  A write that times out leaves with the error at once: the branch stays and the connection
  still counts as alive.
\<close>

definition connection_send_request ::
  "instant \<Rightarrow> write_outcome \<Rightarrow> nat \<Rightarrow> tcp_request \<Rightarrow> tcp_upstream_pool \<Rightarrow> (tcp_error + nat) \<times> tcp_upstream_pool" where
  "connection_send_request now write c q p =
     (if \<not> tcn_alive (tpl_store p c) then (Inl TcpConnectionClosed, p)
      else let tx = tpl_next_channel p;
               route = \<lparr>tr_tx = tx, tr_method = tq_method q, tr_record_route_addrs = tq_record_route_addrs q, tr_created_at = now\<rparr>;
               p1 = on_connection c (\<lambda>k. k\<lparr>tcn_branches := hm_insert (tq_branch q) route (prune_tcp_branches now (tcn_branches k))\<rparr>)
                      (p\<lparr>tpl_next_channel := Suc tx\<rparr>)
           in case write of
                WriteOk \<Rightarrow> (Inr tx, p1)
              | WriteTimeout \<Rightarrow> (Inl TcpWriteTimedOut, p1)
              | WriteError \<Rightarrow> (Inl TcpWriteFailed,
                  on_connection c (\<lambda>k. k\<lparr>tcn_branches := hm_remove (tq_branch q) (tcn_branches k), tcn_alive := False\<rparr>) p1))"

text \<open>A new connection is inserted into the pool by its caller; its reader task starts with it.\<close>

definition tcp_connect :: "bool \<Rightarrow> sock_addr \<Rightarrow> tcp_upstream_pool \<Rightarrow> (tcp_error + nat) \<times> tcp_upstream_pool" where
  "tcp_connect can_connect target p =
     (if \<not> can_connect then (Inl TcpConnectFailed, p)
      else (Inr (tpl_next p), p\<lparr>tpl_next := Suc (tpl_next p),
        tpl_store := (tpl_store p)(tpl_next p := \<lparr>tcn_target = target, tcn_branches = hm_empty, tcn_alive = True\<rparr>)\<rparr>))"

definition connect_and_insert :: "bool \<Rightarrow> sock_addr \<Rightarrow> tcp_upstream_pool \<Rightarrow> (tcp_error + nat) \<times> tcp_upstream_pool" where
  "connect_and_insert can_connect target p =
     (case tcp_connect can_connect target p of
        (Inl e, p1) \<Rightarrow> (Inl e, p1)
      | (Inr c, p1) \<Rightarrow> (Inr c, p1\<lparr>tpl_connections := hm_insert target c (tpl_connections p1)\<rparr>))"

definition get_or_connect :: "bool \<Rightarrow> sock_addr \<Rightarrow> tcp_upstream_pool \<Rightarrow> (tcp_error + nat) \<times> tcp_upstream_pool" where
  "get_or_connect can_connect target p =
     (case hm_get (tpl_connections p) target of
        Some c \<Rightarrow> if tcn_alive (tpl_store p c) then (Inr c, p) else connect_and_insert can_connect target p
      | None \<Rightarrow> connect_and_insert can_connect target p)"

definition remove_if_same :: "sock_addr \<Rightarrow> nat \<Rightarrow> tcp_upstream_pool \<Rightarrow> tcp_upstream_pool" where
  "remove_if_same target c p =
     (if hm_get (tpl_connections p) target = Some c then p\<lparr>tpl_connections := hm_remove target (tpl_connections p)\<rparr> else p)"

text \<open>The attempts that are left, and how connecting, writing and the clock turn out in each.\<close>

fun send_attempts ::
  "(bool \<times> write_outcome \<times> instant) list \<Rightarrow> tcp_error \<Rightarrow> sock_addr \<Rightarrow> tcp_request \<Rightarrow> tcp_upstream_pool
   \<Rightarrow> (tcp_error + nat) \<times> tcp_upstream_pool" where
  "send_attempts [] err target q p = (Inl err, p)"
| "send_attempts ((can_connect, write, now) # rest) err target q p =
     (case get_or_connect can_connect target p of
        (Inl e, p1) \<Rightarrow> (Inl e, p1)
      | (Inr c, p1) \<Rightarrow>
          (case connection_send_request now write c q p1 of
             (Inr tx, p2) \<Rightarrow> (Inr tx, p2)
           | (Inl e, p2) \<Rightarrow> send_attempts rest e target q (remove_if_same target c p2)))"

definition pool_send_request ::
  "(bool \<times> write_outcome \<times> instant) \<Rightarrow> (bool \<times> write_outcome \<times> instant) \<Rightarrow> sock_addr \<Rightarrow> tcp_request \<Rightarrow> tcp_upstream_pool
   \<Rightarrow> (tcp_error + nat) \<times> tcp_upstream_pool" where
  "pool_send_request first second target q = send_attempts [first, second] TcpWriteFailed target q"

definition active_counts :: "instant \<Rightarrow> tcp_upstream_pool \<Rightarrow> (nat \<times> nat) \<times> tcp_upstream_pool" where
  "active_counts now p =
     (let alive = filter (\<lambda>c. tcn_alive (tpl_store p c)) (map snd (tpl_connections p));
          p1 = fold (\<lambda>c. on_connection c (\<lambda>k. k\<lparr>tcn_branches := prune_tcp_branches now (tcn_branches k)\<rparr>)) alive p
      in ((length alive, sum_list (map (\<lambda>c. hm_len (tcn_branches (tpl_store p1 c))) alive)), p1))"

text \<open>The end of the reader task.\<close>

definition reader_stopped :: "nat \<Rightarrow> tcp_upstream_pool \<Rightarrow> tcp_upstream_pool" where
  "reader_stopped c = on_connection c (\<lambda>k. k\<lparr>tcn_alive := False, tcn_branches := hm_empty\<rparr>)"

section \<open>Responses\<close>

text \<open>\<open>tx.send\<close> into a channel; sending to a receiver that is gone is ignored.\<close>

definition channel_send :: "nat \<Rightarrow> string \<Rightarrow> tcp_upstream_pool \<Rightarrow> tcp_upstream_pool" where
  "channel_send tx bytes p = p\<lparr>tpl_channels := (tpl_channels p)(tx := tpl_channels p tx @ [bytes])\<rparr>"

definition rewritten_response :: "rsip_lib \<Rightarrow> tcp_branch_route \<Rightarrow> sip_message \<Rightarrow> handler_error + string" where
  "rewritten_response lib r m =
     (case ensure_dialog_record_routes lib m (tr_method r) (tr_record_route_addrs r) of
        Inl e \<Rightarrow> Inl (SipFailed e)
      | Inr m1 \<Rightarrow>
          (case pop_top_via lib m1 of
             Inl e \<Rightarrow> Inl (SipFailed e)
           | Inr (None, _) \<Rightarrow> Inl MissingVia
           | Inr (Some _, m2) \<Rightarrow> Inr (sip_to_bytes lib m2)))"

definition dispatch_tcp_upstream_response ::
  "rsip_lib \<Rightarrow> instant \<Rightarrow> nat \<Rightarrow> string \<Rightarrow> tcp_upstream_pool \<Rightarrow> (handler_error + unit) \<times> tcp_upstream_pool" where
  "dispatch_tcp_upstream_response lib now c packet p =
     (case sip_parse lib packet of
        Inl e \<Rightarrow> (Inl (SipFailed e), p)
      | Inr m \<Rightarrow>
          (case top_via_branch lib m of
             Inl e \<Rightarrow> (Inl (SipFailed e), p)
           | Inr None \<Rightarrow> (Inl MissingTopBranch, p)
           | Inr (Some branch) \<Rightarrow>
               if \<not> starts_with branch proxy_branch_prefix then (Inr (), p)
               else
                 let branches = prune_tcp_branches now (tcn_branches (tpl_store p c));
                     p1 = on_connection c (\<lambda>k. k\<lparr>tcn_branches := branches\<rparr>) p
                 in case hm_get branches branch of
                      None \<Rightarrow> (Inr (), p1)
                    | Some r \<Rightarrow>
                        let p2 = (if is_final m then on_connection c (\<lambda>k. k\<lparr>tcn_branches := hm_remove branch branches\<rparr>) p1 else p1)
                        in case rewritten_response lib r m of
                             Inl e \<Rightarrow> (Inl e, p2)
                           | Inr bytes \<Rightarrow> (Inr (), channel_send (tr_tx r) bytes p2)))"

section \<open>Histories of a pool\<close>

datatype pool_op =
    OpSend "bool \<times> write_outcome \<times> instant" "bool \<times> write_outcome \<times> instant" sock_addr tcp_request
  | OpResponse instant nat string
  | OpStopped nat
  | OpCounts instant

fun pool_step :: "rsip_lib \<Rightarrow> pool_op \<Rightarrow> tcp_upstream_pool \<Rightarrow> tcp_upstream_pool" where
  "pool_step lib (OpSend first second target q) p = snd (pool_send_request first second target q p)"
| "pool_step lib (OpResponse now c packet) p = snd (dispatch_tcp_upstream_response lib now c packet p)"
| "pool_step lib (OpStopped c) p = reader_stopped c p"
| "pool_step lib (OpCounts now) p = snd (active_counts now p)"

text \<open>The server and the branch each channel was opened for, in the order of the channels.\<close>

fun opened :: "pool_op \<Rightarrow> nat \<Rightarrow> (sock_addr \<times> string) list" where
  "opened (OpSend first second target q) n = replicate n (target, tq_branch q)"
| "opened _ n = []"

fun run_pool :: "rsip_lib \<Rightarrow> pool_op list \<Rightarrow> tcp_upstream_pool \<Rightarrow> (sock_addr \<times> string) list \<Rightarrow> tcp_upstream_pool \<times> (sock_addr \<times> string) list" where
  "run_pool lib [] p owners = (p, owners)"
| "run_pool lib (op # ops) p owners =
     (let p' = pool_step lib op p in run_pool lib ops p' (owners @ opened op (tpl_next_channel p' - tpl_next_channel p)))"

definition routes :: "tcp_upstream_pool \<Rightarrow> (nat \<times> string \<times> tcp_branch_route) set" where
  "routes p = {(c, b, r). hm_get (tcn_branches (tpl_store p c)) b = Some r}"

definition pool_inv :: "tcp_upstream_pool \<Rightarrow> bool" where
  "pool_inv p \<longleftrightarrow> (\<forall>c. hm_inv (tcn_branches (tpl_store p c))) \<and> hm_inv (tpl_connections p)
     \<and> (\<forall>(c, b, r) \<in> routes p. c < tpl_next p \<and> tr_tx r < tpl_next_channel p)
     \<and> (\<forall>t c. hm_get (tpl_connections p) t = Some c \<longrightarrow> c < tpl_next p \<and> tcn_target (tpl_store p c) = t)"

text \<open>How a pool may change: connections keep their server, and a route is an old one or belongs to a new channel for server \<open>t\<close> and branch \<open>b\<close>.\<close>

definition grows :: "sock_addr \<Rightarrow> string \<Rightarrow> tcp_upstream_pool \<Rightarrow> tcp_upstream_pool \<Rightarrow> bool" where
  "grows t b p p' \<longleftrightarrow> pool_inv p' \<and> tpl_next p \<le> tpl_next p' \<and> tpl_next_channel p \<le> tpl_next_channel p'
     \<and> (\<forall>c < tpl_next p. tcn_target (tpl_store p' c) = tcn_target (tpl_store p c))
     \<and> (\<forall>(c, b', r) \<in> routes p'. (c, b', r) \<in> routes p
          \<or> tpl_next_channel p \<le> tr_tx r \<and> b' = b \<and> tcn_target (tpl_store p' c) = t)"

lemma grows_refl: "pool_inv p \<Longrightarrow> grows t b p p"
  by (auto simp: grows_def)

lemma grows_trans:
  assumes "grows t b p p1" "grows t b p1 p2"
  shows "grows t b p p2"
proof -
  have "(c, b', r) \<in> routes p \<or> tpl_next_channel p \<le> tr_tx r \<and> b' = b \<and> tcn_target (tpl_store p2 c) = t" if "(c, b', r) \<in> routes p2" for c b' r
  proof -
    from assms(2) that consider "(c, b', r) \<in> routes p1" | "tpl_next_channel p1 \<le> tr_tx r" "b' = b" "tcn_target (tpl_store p2 c) = t"
      by (auto simp: grows_def)
    then show ?thesis
    proof cases
      case 1
      then have "c < tpl_next p1" using assms(1) by (auto simp: grows_def pool_inv_def)
      with 1 assms show ?thesis by (fastforce simp: grows_def)
    next
      case 2
      with assms(1) show ?thesis by (auto simp: grows_def)
    qed
  qed
  then show ?thesis using assms by (auto simp: grows_def)
qed

text \<open>Changing one connection without new branches.\<close>

lemma grows_shrink:
  assumes "pool_inv p" "tcn_target (f (tpl_store p c)) = tcn_target (tpl_store p c)" "hm_inv (tcn_branches (f (tpl_store p c)))"
    and "\<And>b r. hm_get (tcn_branches (f (tpl_store p c))) b = Some r \<Longrightarrow> hm_get (tcn_branches (tpl_store p c)) b = Some r"
  shows "grows t b p (on_connection c f p)"
proof -
  have "routes (on_connection c f p) \<subseteq> routes p" using assms(4) by (auto simp: routes_def on_connection_def split: if_splits)
  then show ?thesis using assms(1-3) by (auto simp: grows_def pool_inv_def on_connection_def)
qed

lemma prune_sub:
  assumes "hm_inv m"
  shows "hm_inv (prune_tcp_branches now m)" "hm_get (prune_tcp_branches now m) b = Some r \<Longrightarrow> hm_get m b = Some r"
  using assms by (auto simp: prune_tcp_branches_def hm_simps keep_if_def split: option.splits if_splits)

lemma inv_branches: "pool_inv p \<Longrightarrow> hm_inv (tcn_branches (tpl_store p c))"
  by (simp add: pool_inv_def)


lemma grows_prune:
  assumes "pool_inv p"
  shows "grows t b p (on_connection c (\<lambda>k. k\<lparr>tcn_branches := prune_tcp_branches now (tcn_branches k)\<rparr>) p)"
  using prune_sub [OF inv_branches [OF assms]] by (intro grows_shrink assms) auto

lemma grows_drop:
  assumes "pool_inv p"
  shows "grows t b p (on_connection c (\<lambda>k. k\<lparr>tcn_branches := hm_remove b' (tcn_branches k), tcn_alive := a\<rparr>) p)"
  using inv_branches [OF assms, of c] by (intro grows_shrink assms) (auto simp: hm_simps split: if_splits)

lemma get_or_connect_grows:
  assumes "pool_inv p" "get_or_connect can target p = (res, p')"
  shows "grows target b p p'" "res = Inr c \<Longrightarrow> c < tpl_next p' \<and> tcn_target (tpl_store p' c) = target \<and> tcn_alive (tpl_store p' c)
    \<and> hm_get (tpl_connections p') target = Some c"
proof -
  define p1 where "p1 = p\<lparr>tpl_next := Suc (tpl_next p),
      tpl_store := (tpl_store p)(tpl_next p := \<lparr>tcn_target = target, tcn_branches = hm_empty, tcn_alive = True\<rparr>),
      tpl_connections := hm_insert target (tpl_next p) (tpl_connections p)\<rparr>"
  have ci: "connect_and_insert can target p = (if can then (Inr (tpl_next p), p1) else (Inl TcpConnectFailed, p))"
    by (simp add: connect_and_insert_def tcp_connect_def p1_def)
  have "routes p1 \<subseteq> routes p" by (auto simp: routes_def p1_def split: if_splits)
  moreover have "hm_get (tpl_connections p1) = (hm_get (tpl_connections p))(target \<mapsto> tpl_next p)" "hm_inv (tpl_connections p1)"
    using assms(1) by (auto simp: p1_def pool_inv_def hm_simps fun_eq_iff)
  ultimately have g: "grows target b p p1" using assms(1)
    by (fastforce simp: grows_def pool_inv_def p1_def)
  from assms(2) consider "res = Inl TcpConnectFailed" "p' = p" | "res = Inr (tpl_next p)" "p' = p1"
    | d where "res = Inr d" "p' = p" "hm_get (tpl_connections p) target = Some d" "tcn_alive (tpl_store p d)"
    unfolding get_or_connect_def ci by (auto split: option.splits if_splits)
  then have "grows target b p p' \<and> (\<forall>c. res = Inr c \<longrightarrow> c < tpl_next p' \<and> tcn_target (tpl_store p' c) = target \<and> tcn_alive (tpl_store p' c)
    \<and> hm_get (tpl_connections p') target = Some c)"
  proof cases
    case 2
    have "hm_get (tpl_connections p1) target = Some (tpl_next p)" using assms(1) by (simp add: p1_def pool_inv_def hm_simps)
    then show ?thesis using 2 g by (simp add: p1_def)
  qed (use grows_refl [OF assms(1)] assms(1) in \<open>auto simp: pool_inv_def\<close>)
  then show "grows target b p p'" "res = Inr c \<Longrightarrow> c < tpl_next p' \<and> tcn_target (tpl_store p' c) = target \<and> tcn_alive (tpl_store p' c)
    \<and> hm_get (tpl_connections p') target = Some c" by blast+
qed

lemma connection_send_grows:
  assumes "pool_inv p" "c < tpl_next p" "connection_send_request now w c q p = (res, p')"
  shows "grows (tcn_target (tpl_store p c)) (tq_branch q) p p'"
proof -
  let ?t = "tcn_target (tpl_store p c)" and ?b = "tq_branch q"
  let ?r = "\<lparr>tr_tx = tpl_next_channel p, tr_method = tq_method q, tr_record_route_addrs = tq_record_route_addrs q, tr_created_at = now\<rparr>"
  define p1 where "p1 = on_connection c (\<lambda>k. k\<lparr>tcn_branches := hm_insert ?b ?r (prune_tcp_branches now (tcn_branches k))\<rparr>)
    (p\<lparr>tpl_next_channel := Suc (tpl_next_channel p)\<rparr>)"
  note pr = prune_sub [OF inv_branches [OF assms(1)], of now c]
  have "hm_inv (tcn_branches (tpl_store p1 d))" for d using pr(1) inv_branches [OF assms(1)] by (simp add: p1_def on_connection_def hm_simps)
  moreover have r1: "(d, b', r) \<in> routes p \<or> d = c \<and> b' = ?b \<and> r = ?r" if "(d, b', r) \<in> routes p1" for d b' r
    using that pr by (auto simp: routes_def p1_def on_connection_def hm_simps split: if_splits)
  ultimately have "pool_inv p1" using assms(1,2)
    by (auto simp: pool_inv_def p1_def on_connection_def dest!: r1) fastforce+
  moreover have "tpl_next p1 = tpl_next p" "tpl_next_channel p1 = Suc (tpl_next_channel p)" "tcn_target (tpl_store p1 d) = tcn_target (tpl_store p d)" for d
    by (simp_all add: p1_def on_connection_def)
  ultimately have g: "grows ?t ?b p p1" unfolding grows_def by (auto dest!: r1)
  have d: "grows ?t ?b p (on_connection c (\<lambda>k. k\<lparr>tcn_branches := hm_remove ?b (tcn_branches k), tcn_alive := False\<rparr>) p1)"
    by (rule grows_trans [OF g grows_drop]) (use g in \<open>simp add: grows_def\<close>)
  show ?thesis using assms(3) g d grows_refl [OF assms(1)]
    by (auto simp: connection_send_request_def Let_def p1_def split: if_splits write_outcome.splits)
qed

lemma remove_if_same_grows:
  assumes "pool_inv p"
  shows "grows t b p (remove_if_same target c p)"
  using assms by (auto simp: remove_if_same_def grows_def pool_inv_def routes_def hm_simps split: if_splits)

lemma send_attempts_grows:
  "pool_inv p \<Longrightarrow> send_attempts as err target q p = (res, p') \<Longrightarrow> grows target (tq_branch q) p p'"
proof (induction as arbitrary: err p)
  case Nil
  then show ?case by (simp add: grows_refl)
next
  case (Cons a as)
  obtain can w now where a: "a = (can, w, now)" by (cases a)
  obtain r1 p1 where c: "get_or_connect can target p = (r1, p1)" by fastforce
  note g1 = get_or_connect_grows(1) [OF Cons.prems(1) c, of "tq_branch q"]
  have i1: "pool_inv p1" using g1 by (simp add: grows_def)
  show ?case
  proof (cases r1)
    case (Inl e)
    then show ?thesis using Cons.prems(2) c a g1 by simp
  next
    case (Inr d)
    obtain r2 p2 where s: "connection_send_request now w d q p1 = (r2, p2)" by fastforce
    have d: "d < tpl_next p1" "tcn_target (tpl_store p1 d) = target" using get_or_connect_grows(2) [OF Cons.prems(1) c Inr] by auto
    have g2: "grows target (tq_branch q) p1 p2" using connection_send_grows [OF i1 d(1) s] d(2) by simp
    have i2: "pool_inv p2" using g2 by (simp add: grows_def)
    note g3 = remove_if_same_grows [OF i2, of target "tq_branch q" target d]
    have i3: "pool_inv (remove_if_same target d p2)" using g3 by (simp add: grows_def)
    show ?thesis
    proof (cases r2)
      case (Inr tx)
      then show ?thesis using Cons.prems(2) c a \<open>r1 = Inr d\<close> s grows_trans [OF g1 g2] by simp
    next
      case (Inl e)
      then have "send_attempts as e target q (remove_if_same target d p2) = (res, p')"
        using Cons.prems(2) c a \<open>r1 = Inr d\<close> s by simp
      from grows_trans [OF grows_trans [OF grows_trans [OF g1 g2] g3] Cons.IH [OF i3 this]] show ?thesis .
    qed
  qed
qed


lemma channel_send_routes [simp]: "routes (channel_send tx bytes p) = routes p" "pool_inv (channel_send tx bytes p) \<longleftrightarrow> pool_inv p"
  "tpl_store (channel_send tx bytes p) = tpl_store p" "tpl_next (channel_send tx bytes p) = tpl_next p"
  "tpl_next_channel (channel_send tx bytes p) = tpl_next_channel p"
  by (simp_all add: channel_send_def routes_def pool_inv_def)

lemma grows_send [simp]: "grows t b p (channel_send tx bytes p') \<longleftrightarrow> grows t b p p'"
  by (simp add: grows_def)

lemma on_connection_simps [simp]: "tpl_channels (on_connection c f p) = tpl_channels p" "tpl_next_channel (on_connection c f p) = tpl_next_channel p"
  by (simp_all add: on_connection_def)

lemma dispatch_effect:
  assumes "pool_inv p" "dispatch_tcp_upstream_response lib now c packet p = (res, p')"
  shows "grows t b p p'" "tpl_next_channel p' = tpl_next_channel p"
    "tpl_channels p' = tpl_channels p \<or> (\<exists>m branch r bytes. sip_parse lib packet = Inr m \<and> top_via_branch lib m = Inr (Some branch)
       \<and> (c, branch, r) \<in> routes p \<and> tpl_channels p' = (tpl_channels p)(tr_tx r := tpl_channels p (tr_tx r) @ [bytes]))"
proof -
  define branches where "branches = prune_tcp_branches now (tcn_branches (tpl_store p c))"
  define p1 where "p1 = on_connection c (\<lambda>k. k\<lparr>tcn_branches := branches\<rparr>) p"
  note sub = prune_sub [OF inv_branches [OF assms(1)], of now c, folded branches_def]
  have g1: "grows t b p p1" unfolding p1_def using sub by (intro grows_shrink assms(1)) auto
  have p1: "tcn_branches (tpl_store p1 c) = branches" "tpl_channels p1 = tpl_channels p" "tpl_next_channel p1 = tpl_next_channel p"
    by (simp_all add: p1_def on_connection_def)
  have g2: "grows t b p (on_connection c (\<lambda>k. k\<lparr>tcn_branches := hm_remove br branches\<rparr>) p1)" for br
    by (rule grows_trans [OF g1 grows_shrink]) (use g1 sub p1 in \<open>auto simp: grows_def hm_simps split: if_splits\<close>)
  note run = assms(2) [unfolded dispatch_tcp_upstream_response_def Let_def, folded branches_def, folded p1_def]
  consider "p' = p" | "p' = p1" | m branch r where "sip_parse lib packet = Inr m" "top_via_branch lib m = Inr (Some branch)"
      "hm_get branches branch = Some r"
      "\<exists>p2 \<in> {p1, on_connection c (\<lambda>k. k\<lparr>tcn_branches := hm_remove branch branches\<rparr>) p1}. p' = p2 \<or> (\<exists>bytes. p' = channel_send (tr_tx r) bytes p2)"
    using run by (simp split: sum.splits option.splits if_splits) blast+
  then have "grows t b p p' \<and> tpl_next_channel p' = tpl_next_channel p \<and>
    (tpl_channels p' = tpl_channels p \<or> (\<exists>m branch r bytes. sip_parse lib packet = Inr m \<and> top_via_branch lib m = Inr (Some branch)
       \<and> (c, branch, r) \<in> routes p \<and> tpl_channels p' = (tpl_channels p)(tr_tx r := tpl_channels p (tr_tx r) @ [bytes])))"
  proof cases
    case (3 m branch r)
    have "(c, branch, r) \<in> routes p" using sub(2) [OF 3(3)] by (simp add: routes_def)
    moreover from 3(4) obtain p2 where p2in: "p2 \<in> {p1, on_connection c (\<lambda>k. k\<lparr>tcn_branches := hm_remove branch branches\<rparr>) p1}"
      and p2: "p' = p2 \<or> (\<exists>bytes. p' = channel_send (tr_tx r) bytes p2)" by blast
    from p2in have p2': "grows t b p p2" "tpl_channels p2 = tpl_channels p" "tpl_next_channel p2 = tpl_next_channel p"
      using g1 g2 [of branch] p1(2,3) by auto
    have "tpl_channels (channel_send (tr_tx r) bytes p2) = (tpl_channels p)(tr_tx r := tpl_channels p (tr_tx r) @ [bytes])" for bytes
      by (simp add: channel_send_def p2'(2))
    ultimately show ?thesis using 3(1,2) p2 p2' by (metis channel_send_routes(5) grows_send)
  qed (use g1 grows_refl [OF assms(1)] p1 in auto)
  then show "grows t b p p'" "tpl_next_channel p' = tpl_next_channel p"
    "tpl_channels p' = tpl_channels p \<or> (\<exists>m branch r bytes. sip_parse lib packet = Inr m \<and> top_via_branch lib m = Inr (Some branch)
       \<and> (c, branch, r) \<in> routes p \<and> tpl_channels p' = (tpl_channels p)(tr_tx r := tpl_channels p (tr_tx r) @ [bytes]))"
    by blast+
qed

lemma counts_effect:
  assumes "pool_inv p"
  shows "grows t b p (snd (active_counts now p)) \<and> tpl_next_channel (snd (active_counts now p)) = tpl_next_channel p
    \<and> tpl_channels (snd (active_counts now p)) = tpl_channels p"
proof -
  let ?f = "\<lambda>c. on_connection c (\<lambda>k. k\<lparr>tcn_branches := prune_tcp_branches now (tcn_branches k)\<rparr>)"
  have "grows t b p (fold ?f cs p) \<and> tpl_next_channel (fold ?f cs p) = tpl_next_channel p \<and> tpl_channels (fold ?f cs p) = tpl_channels p" for cs
  proof (induction cs rule: rev_induct)
    case (snoc c cs)
    then have "pool_inv (fold ?f cs p)" by (simp add: grows_def)
    from grows_trans [OF _ grows_prune [OF this]] snoc show ?case by simp
  qed (simp add: grows_refl assms)
  then show ?thesis by (simp add: active_counts_def Let_def)
qed

lemma stopped_grows: "pool_inv p \<Longrightarrow> grows t b p (reader_stopped c p)"
  unfolding reader_stopped_def by (rule grows_shrink) auto

text \<open>The server and branch of the requests of an operation; the others do not open channels.\<close>

fun op_owner :: "pool_op \<Rightarrow> sock_addr \<times> string" where
  "op_owner (OpSend first second target q) = (target, tq_branch q)"
| "op_owner _ = (SockV4 0 0, [])"

lemma step_grows: "pool_inv p \<Longrightarrow> grows (fst (op_owner op)) (snd (op_owner op)) p (pool_step lib op p)"
proof (cases op)
  case (OpSend first second target q)
  assume "pool_inv p"
  then show ?thesis using send_attempts_grows [of p "[first, second]" TcpWriteFailed target q] OpSend
    by (cases "pool_send_request first second target q p") (simp add: pool_send_request_def)
next
  case (OpResponse now c packet)
  assume "pool_inv p"
  then show ?thesis using dispatch_effect(1) [of p lib now c packet] OpResponse
    by (cases "dispatch_tcp_upstream_response lib now c packet p") simp
qed (use stopped_grows counts_effect in simp_all)

lemma step_opened:
  assumes "pool_inv p"
  shows "opened op (tpl_next_channel (pool_step lib op p) - tpl_next_channel p) =
    replicate (tpl_next_channel (pool_step lib op p) - tpl_next_channel p) (op_owner op)"
proof (cases op)
  case (OpResponse now c packet)
  then show ?thesis using dispatch_effect(2) [OF assms, of lib now c packet] by (cases "dispatch_tcp_upstream_response lib now c packet p") simp
qed (use counts_effect [OF assms] in \<open>simp_all add: reader_stopped_def\<close>)

definition owned :: "tcp_upstream_pool \<Rightarrow> (sock_addr \<times> string) list \<Rightarrow> bool" where
  "owned p owners \<longleftrightarrow> pool_inv p \<and> length owners = tpl_next_channel p
     \<and> (\<forall>(c, b, r) \<in> routes p. owners ! tr_tx r = (tcn_target (tpl_store p c), b))"

lemma step_owned:
  assumes "owned p owners"
  shows "owned (pool_step lib op p) (owners @ opened op (tpl_next_channel (pool_step lib op p) - tpl_next_channel p))"
proof -
  let ?p = "pool_step lib op p" and ?n = "tpl_next_channel (pool_step lib op p) - tpl_next_channel p"
  have inv: "pool_inv p" and len: "length owners = tpl_next_channel p" using assms by (simp_all add: owned_def)
  note g = step_grows [OF inv, of op lib]
  have le: "tpl_next_channel p \<le> tpl_next_channel ?p" and inv': "pool_inv ?p" using g by (simp_all add: grows_def)
  have "(owners @ replicate ?n (op_owner op)) ! tr_tx r = (tcn_target (tpl_store ?p c), b)" if "(c, b, r) \<in> routes ?p" for c b r
  proof -
    have tx: "tr_tx r < tpl_next_channel ?p" using inv' that by (auto simp: pool_inv_def)
    from g that consider "(c, b, r) \<in> routes p" | "tpl_next_channel p \<le> tr_tx r" "b = snd (op_owner op)" "tcn_target (tpl_store ?p c) = fst (op_owner op)"
      by (auto simp: grows_def)
    then show ?thesis
    proof cases
      case 1
      then have "c < tpl_next p" "tr_tx r < tpl_next_channel p" using inv by (auto simp: pool_inv_def)
      moreover have "owners ! tr_tx r = (tcn_target (tpl_store p c), b)" using 1 assms by (auto simp: owned_def)
      ultimately show ?thesis using g len by (simp add: grows_def nth_append)
    next
      case 2
      then show ?thesis using tx len by (simp add: nth_append)
    qed
  qed
  then show ?thesis using inv' le len step_opened [OF inv, of op lib] by (auto simp: owned_def)
qed

lemma run_owned: "owned p owners \<Longrightarrow> run_pool lib ops p owners = (p', owners') \<Longrightarrow> owned p' owners'"
  by (induction ops arbitrary: p owners) (auto simp: Let_def dest: step_owned)

lemma owned_new: "owned tcp_upstream_pool_new []"
  by (auto simp: owned_def pool_inv_def routes_def tcp_upstream_pool_new_def)


section \<open>Where a response goes\<close>

text \<open>
  C10: after any history of requests, responses, lost connections and metric reads, a response that
  arrives on a connection is put into at most one channel, once; the channel was opened for a
  request to the server of this connection, under the branch of the response.
\<close>

theorem tcp_response_to_its_request:
  assumes "run_pool lib ops tcp_upstream_pool_new [] = (p, owners)"
    and "dispatch_tcp_upstream_response lib now c packet p = (res, p')"
  shows "tpl_channels p' = tpl_channels p \<or>
    (\<exists>m branch tx bytes. sip_parse lib packet = Inr m \<and> top_via_branch lib m = Inr (Some branch)
       \<and> tpl_channels p' = (tpl_channels p)(tx := tpl_channels p tx @ [bytes])
       \<and> tx < length owners \<and> owners ! tx = (tcn_target (tpl_store p c), branch))"
proof -
  have o: "owned p owners" by (rule run_owned [OF owned_new assms(1)])
  have own: "tr_tx r < length owners \<and> owners ! tr_tx r = (tcn_target (tpl_store p c), branch)" if "(c, branch, r) \<in> routes p" for branch r
    using o that by (auto simp: owned_def pool_inv_def)
  have "pool_inv p" using o by (simp add: owned_def)
  from dispatch_effect(3) [OF this assms(2)] own show ?thesis by blast
qed

text \<open>A channel whose only route is the one of a connection and branch.\<close>

definition only_at :: "nat \<Rightarrow> nat \<Rightarrow> string \<Rightarrow> tcp_upstream_pool \<Rightarrow> bool" where
  "only_at tx c b p \<longleftrightarrow> pool_inv p \<and> tx < tpl_next_channel p \<and> (\<forall>(c', b', r) \<in> routes p. tr_tx r = tx \<longrightarrow> c' = c \<and> b' = b)"

definition unreachable :: "nat \<Rightarrow> tcp_upstream_pool \<Rightarrow> bool" where
  "unreachable tx p \<longleftrightarrow> pool_inv p \<and> tx < tpl_next_channel p \<and> (\<forall>(c, b, r) \<in> routes p. tr_tx r \<noteq> tx)"

lemma grows_old: "grows t b p p' \<Longrightarrow> tx < tpl_next_channel p \<Longrightarrow> (c', b', r) \<in> routes p' \<Longrightarrow> tr_tx r = tx \<Longrightarrow> (c', b', r) \<in> routes p"
  by (fastforce simp: grows_def)

lemma only_at_grows: "only_at tx c b p \<Longrightarrow> grows t b' p p' \<Longrightarrow> only_at tx c b p'"
  unfolding only_at_def using grows_old [of t b' p p' tx] by (auto simp: grows_def)

lemma only_at_run: "only_at tx c b p \<Longrightarrow> only_at tx c b (fold (pool_step lib) ops p)"
proof (induction ops arbitrary: p)
  case (Cons op ops)
  have "pool_inv p" using Cons.prems by (simp add: only_at_def)
  from Cons.IH [OF only_at_grows [OF Cons.prems step_grows [OF this]]] show ?case by simp
qed simp

lemma unreachable_step:
  assumes "unreachable tx p"
  shows "unreachable tx (pool_step lib op p) \<and> tpl_channels (pool_step lib op p) tx = tpl_channels p tx"
proof -
  have inv: "pool_inv p" and tx: "tx < tpl_next_channel p" and no: "(c, b, r) \<in> routes p \<Longrightarrow> tr_tx r \<noteq> tx" for c b r
    using assms by (auto simp: unreachable_def)
  note g = step_grows [OF inv, of op lib]
  have "unreachable tx (pool_step lib op p)"
  proof -
    have "tr_tx r \<noteq> tx" if "(c, b, r) \<in> routes (pool_step lib op p)" for c b r using grows_old [OF g tx that] no by metis
    then show ?thesis using g tx by (auto simp: unreachable_def grows_def)
  qed
  moreover have "tpl_channels (pool_step lib op p) tx = tpl_channels p tx"
  proof (cases op)
    case (OpSend first second target q)
    have "tpl_channels (snd (send_attempts as e target q p)) = tpl_channels p" for as e
      by (induction as arbitrary: e p) (auto simp: get_or_connect_def connect_and_insert_def tcp_connect_def connection_send_request_def remove_if_same_def Let_def
          split: prod.splits sum.splits option.splits if_splits write_outcome.splits)
    then show ?thesis using OpSend by (simp add: pool_send_request_def)
  next
    case (OpResponse now c packet)
    obtain res p' where d: "dispatch_tcp_upstream_response lib now c packet p = (res, p')" by fastforce
    from dispatch_effect(3) [OF inv d] no have "tpl_channels p' tx = tpl_channels p tx" by fastforce
    then show ?thesis using OpResponse d by simp
  qed (use counts_effect [OF inv] in \<open>simp_all add: reader_stopped_def\<close>)
  ultimately show ?thesis by blast
qed

lemma unreachable_run: "unreachable tx p \<Longrightarrow> tpl_channels (fold (pool_step lib) ops p) tx = tpl_channels p tx"
proof (induction ops arbitrary: p)
  case (Cons op ops)
  from unreachable_step [OF Cons.prems] Cons.IH show ?case by simp
qed simp


lemma connection_send_fresh:
  assumes "pool_inv p" "c < tpl_next p" "connection_send_request now WriteOk c q p = (Inr tx, p')"
  shows "only_at tx c (tq_branch q) p'" "tpl_connections p' = tpl_connections p" "tpl_channels p' = tpl_channels p"
    "(c, tq_branch q, r) \<in> routes p' \<Longrightarrow> tr_tx r = tpl_next_channel p"
proof -
  have alive: "tcn_alive (tpl_store p c)" and tx: "tx = tpl_next_channel p" and n: "tpl_next_channel p' = Suc tx"
    and rest: "tpl_connections p' = tpl_connections p" "tpl_channels p' = tpl_channels p"
    and br: "tcn_branches (tpl_store p' c) = hm_insert (tq_branch q) \<lparr>tr_tx = tx, tr_method = tq_method q,
      tr_record_route_addrs = tq_record_route_addrs q, tr_created_at = now\<rparr> (prune_tcp_branches now (tcn_branches (tpl_store p c)))"
    and others: "d \<noteq> c \<Longrightarrow> tpl_store p' d = tpl_store p d" for d
    using assms(3) by (auto simp: connection_send_request_def Let_def on_connection_def split: if_splits)
  note pr = prune_sub [OF inv_branches [OF assms(1)], of now c]
  have old: "(d, b, r) \<in> routes p \<Longrightarrow> tr_tx r < tx" for d b r using assms(1) by (auto simp: pool_inv_def tx)
  have new: "(d, b, r) \<in> routes p \<or> d = c \<and> b = tq_branch q \<and> tr_tx r = tx" if "(d, b, r) \<in> routes p'" for d b r
    using that others pr by (cases "d = c") (auto simp: routes_def br hm_simps split: if_splits)
  have "pool_inv p'" using connection_send_grows [OF assms] by (simp add: grows_def)
  moreover have "d = c \<and> b = tq_branch q" if "(d, b, r) \<in> routes p'" "tr_tx r = tx" for d b r
    using new [OF that(1)] old [of d b r] that(2) by auto
  ultimately show "only_at tx c (tq_branch q) p'" unfolding only_at_def n by auto
  show "tpl_connections p' = tpl_connections p" "tpl_channels p' = tpl_channels p" by (rule rest)+
  show "tr_tx r = tpl_next_channel p" if "(c, tq_branch q, r) \<in> routes p'"
    using that pr(1) by (auto simp: routes_def br hm_simps tx)
qed

lemma send_success:
  "pool_inv p \<Longrightarrow> send_attempts as e target q p = (Inr tx, p') \<Longrightarrow>
    \<exists>c. only_at tx c (tq_branch q) p' \<and> hm_get (tpl_connections p') target = Some c"
proof (induction as arbitrary: e p)
  case (Cons a as)
  obtain can w now where a: "a = (can, w, now)" by (cases a)
  obtain r1 p1 where g: "get_or_connect can target p = (r1, p1)" by fastforce
  have i1: "pool_inv p1" using get_or_connect_grows(1) [OF Cons.prems(1) g] by (simp add: grows_def)
  obtain c where c: "r1 = Inr c" using Cons.prems(2) g a by (cases r1) auto
  note gc = get_or_connect_grows(2) [OF Cons.prems(1) g c]
  obtain r2 p2 where s: "connection_send_request now w c q p1 = (r2, p2)" by fastforce
  show ?case
  proof (cases r2)
    case (Inr tx')
    then have eq: "tx' = tx" "p2 = p'" using Cons.prems(2) g a c s by auto
    have "w = WriteOk" using s Inr by (cases w) (auto simp: connection_send_request_def Let_def split: if_splits)
    with connection_send_fresh(1,2) [OF i1 _ s [unfolded Inr \<open>w = WriteOk\<close> eq]] gc show ?thesis by auto
  next
    case (Inl e')
    have "pool_inv p2" using connection_send_grows [OF i1 _ s] gc by (simp add: grows_def)
    then have "pool_inv (remove_if_same target c p2)" using remove_if_same_grows by (simp add: grows_def)
    from Cons.IH [OF this] Cons.prems(2) g a c s Inl show ?thesis by simp
  qed
qed simp

text \<open>
  C11: a second request under the branch of a first one, such as the CANCEL of an INVITE, takes the
  answers of the first.  Once it has been written to the same connection, nothing is ever put into
  the channel of the first request again, whatever requests and responses follow: the final
  response of the INVITE does not reach the client that waits for it.
\<close>

theorem cancel_takes_tcp_responses:
  assumes "pool_send_request a1 a2 target invite (fold (pool_step lib) before tcp_upstream_pool_new) = (Inr tx, p1)"
    and "p2 = fold (pool_step lib) between p1" "hm_get (tpl_connections p2) target = hm_get (tpl_connections p1) target"
    and "hm_get (tpl_connections p2) target = Some c" "tcn_alive (tpl_store p2 c)"
    and "tq_branch cancel = tq_branch invite" "pool_send_request (can, WriteOk, now) a3 target cancel p2 = (res, p3)"
  shows "tpl_channels (fold (pool_step lib) later p3) tx = tpl_channels p2 tx"
proof -
  have inv: "pool_inv (fold (pool_step lib) ops p)" if "pool_inv p" for ops p
    using that by (induction ops arbitrary: p) (use step_grows in \<open>auto simp: grows_def\<close>)
  have "pool_inv (fold (pool_step lib) before tcp_upstream_pool_new)" by (rule inv) (use owned_new in \<open>simp add: owned_def\<close>)
  from send_success [OF this assms(1) [unfolded pool_send_request_def]] obtain d where
    d: "only_at tx d (tq_branch invite) p1" "hm_get (tpl_connections p1) target = Some d" by blast
  have dc: "d = c" using d(2) assms(3,4) by simp
  have at: "only_at tx c (tq_branch invite) p2" unfolding assms(2) using only_at_run [OF d(1)] dc by simp
  then have inv2: "pool_inv p2" by (simp add: only_at_def)
  then have c: "c < tpl_next p2" using assms(4) by (auto simp: pool_inv_def)
  have "get_or_connect can target p2 = (Inr c, p2)" using assms(4,5) by (simp add: get_or_connect_def connect_and_insert_def tcp_connect_def)
  moreover obtain tx' p' where s: "connection_send_request now WriteOk c cancel p2 = (Inr tx', p')"
    using assms(5) by (simp add: connection_send_request_def Let_def)
  ultimately have p3: "p3 = p'" using assms(7) by (simp add: pool_send_request_def)
  note fresh = connection_send_fresh [OF inv2 c s]
  note g = connection_send_grows [OF inv2 c s]
  have tx: "tx < tpl_next_channel p2" using at by (simp add: only_at_def)
  have "tr_tx r \<noteq> tx" if "(d, b, r) \<in> routes p'" for d b r
  proof
    assume r: "tr_tx r = tx"
    then have "d = c \<and> b = tq_branch cancel" using grows_old [OF g tx that r] at assms(6) unfolding only_at_def by auto
    then have "tr_tx r = tpl_next_channel p2" using fresh(4) that by simp
    then show False using r tx by simp
  qed
  then have "unreachable tx p'" using g tx by (auto simp: unreachable_def grows_def)
  from unreachable_run [OF this] fresh(3) p3 show ?thesis by simp
qed


section \<open>Cutting a stream into messages\<close>

text \<open>
  \<open>SipCodec\<close> is code of the \<open>rsipstack\<close> crate: a state and a function that takes a frame off the
  front of the buffer, if there is a whole one.  A message is seen as its bytes.
\<close>

datatype codec_frame = FrameMessage string | FrameKeepalive

type_synonym 'c sip_codec = "'c \<Rightarrow> string \<Rightarrow> (unit + codec_frame option) \<times> 'c \<times> string"

record 'c tcp_sip_reader =
  rd_codec :: 'c
  rd_buf :: string
  rd_max_bytes :: nat

definition tcp_sip_reader_new :: "'c \<Rightarrow> nat \<Rightarrow> 'c tcp_sip_reader" where
  "tcp_sip_reader_new codec max_bytes = \<lparr>rd_codec = codec, rd_buf = [], rd_max_bytes = max_bytes\<rparr>"

datatype reader_result = GotMessage string | StreamEnded | CodecFailed | MessageTooLong | ClosedInside | ReadFailed | ReaderDiverged

text \<open>The inner loop: frames are taken until a message or no whole frame; \<open>None\<close> asks for more bytes.\<close>

fun decode_frames :: "nat \<Rightarrow> 'c sip_codec \<Rightarrow> 'c tcp_sip_reader \<Rightarrow> reader_result option \<times> 'c tcp_sip_reader" where
  "decode_frames 0 decode r = (Some ReaderDiverged, r)"
| "decode_frames (Suc fuel) decode r =
     (let (frame, codec, buf) = decode (rd_codec r) (rd_buf r); r' = r\<lparr>rd_codec := codec, rd_buf := buf\<rparr>
      in case frame of
           Inl _ \<Rightarrow> (Some CodecFailed, r')
         | Inr None \<Rightarrow> (None, r')
         | Inr (Some (FrameMessage bytes)) \<Rightarrow>
             (Some (if length bytes > rd_max_bytes r then MessageTooLong else GotMessage bytes), r')
         | Inr (Some FrameKeepalive) \<Rightarrow> decode_frames fuel decode r')"

text \<open>
  One pass of the outer loop, given what the read delivers: an error, or bytes, where no bytes are
  the end of the stream.  The pass ends the call, having used the read or not, or goes on.
\<close>

definition read_step ::
  "nat \<Rightarrow> 'c sip_codec \<Rightarrow> string option \<Rightarrow> 'c tcp_sip_reader \<Rightarrow> reader_result \<times> bool \<times> 'c tcp_sip_reader + 'c tcp_sip_reader" where
  "read_step fuel decode delivered r =
     (case decode_frames fuel decode r of
        (Some res, r1) \<Rightarrow> Inl (res, False, r1)
      | (None, r1) \<Rightarrow>
          (case delivered of
             None \<Rightarrow> Inl (ReadFailed, True, r1)
           | Some bytes \<Rightarrow>
               if bytes = [] then Inl (if rd_buf r1 = [] then StreamEnded else ClosedInside, True, r1)
               else let r2 = r1\<lparr>rd_buf := rd_buf r1 @ bytes\<rparr>
                    in if length (rd_buf r2) > rd_max_bytes r2 then Inl (MessageTooLong, True, r2) else Inr r2))"

text \<open>
  \<open>reads i\<close> is what the \<open>i\<close>-th read delivers; the stream need not end, and the loop need not either:
  \<open>None\<close> is a call that never returns.  Otherwise the result says how many reads were made.
\<close>

partial_function (option) read_message ::
  "nat \<Rightarrow> 'c sip_codec \<Rightarrow> (nat \<Rightarrow> string option) \<Rightarrow> nat \<Rightarrow> 'c tcp_sip_reader \<Rightarrow> (reader_result \<times> nat \<times> 'c tcp_sip_reader) option" where
  "read_message fuel decode reads i r =
     (case read_step fuel decode (reads i) r of
        Inl (res, used, r') \<Rightarrow> Some (res, if used then Suc i else i, r')
      | Inr r' \<Rightarrow> read_message fuel decode reads (Suc i) r')"

text \<open>The reader after \<open>n\<close> passes, if the call has not returned by then.\<close>

fun reader_after ::
  "nat \<Rightarrow> 'c sip_codec \<Rightarrow> (nat \<Rightarrow> string option) \<Rightarrow> nat \<Rightarrow> nat \<Rightarrow> 'c tcp_sip_reader \<Rightarrow> 'c tcp_sip_reader option" where
  "reader_after fuel decode reads i 0 r = Some r"
| "reader_after fuel decode reads i (Suc n) r =
     (case reader_after fuel decode reads i n r of
        None \<Rightarrow> None
      | Some q \<Rightarrow> (case read_step fuel decode (reads (i + n)) q of Inl _ \<Rightarrow> None | Inr q' \<Rightarrow> Some q'))"

declare decode_frames.simps(2) [simp del]

text \<open>What the reader relies on: a decoder never adds to the buffer, and a keep-alive takes bytes off it.\<close>

definition consumes :: "'c sip_codec \<Rightarrow> bool" where
  "consumes decode \<longleftrightarrow> (\<forall>c buf frame c' buf'. decode c buf = (frame, c', buf') \<longrightarrow>
     length buf' \<le> length buf \<and> (frame = Inr (Some FrameKeepalive) \<longrightarrow> length buf' < length buf))"

lemma decode_frames_bounds:
  assumes "consumes decode"
  shows "decode_frames fuel decode r = (res, r') \<Longrightarrow> length (rd_buf r) < fuel \<Longrightarrow>
    res \<noteq> Some ReaderDiverged \<and> length (rd_buf r') \<le> length (rd_buf r) \<and> rd_max_bytes r' = rd_max_bytes r
      \<and> (\<forall>m. res = Some (GotMessage m) \<longrightarrow> length m \<le> rd_max_bytes r)"
proof (induction fuel arbitrary: r)
  case (Suc fuel)
  obtain frame codec buf where d: "decode (rd_codec r) (rd_buf r) = (frame, codec, buf)" by (cases "decode (rd_codec r) (rd_buf r)") auto
  have b: "length buf \<le> length (rd_buf r)" "frame = Inr (Some FrameKeepalive) \<Longrightarrow> length buf < length (rd_buf r)"
    using assms d by (auto simp: consumes_def)
  show ?case
  proof (cases "frame = Inr (Some FrameKeepalive)")
    case True
    then have "decode_frames fuel decode (r\<lparr>rd_codec := codec, rd_buf := buf\<rparr>) = (res, r')" using Suc.prems(1) d by (simp add: decode_frames.simps Let_def)
    from Suc.IH [OF this] b(2) [OF True] Suc.prems(2) show ?thesis by auto
  next
    case False
    then show ?thesis using Suc.prems(1) d b(1) by (auto simp: decode_frames.simps Let_def split: sum.splits option.splits codec_frame.splits if_splits)
  qed
qed simp

lemma read_step_bounds:
  assumes "consumes decode" "length (rd_buf r) \<le> n" "rd_max_bytes r = n"
  shows "read_step (Suc n) decode delivered r = Inl (res, used, r') \<Longrightarrow>
      res \<noteq> ReaderDiverged \<and> (\<forall>m. res = GotMessage m \<longrightarrow> length m \<le> n) \<and> (res \<noteq> MessageTooLong \<longrightarrow> length (rd_buf r') \<le> n)"
    and "read_step (Suc n) decode delivered r = Inr r' \<Longrightarrow>
      length (rd_buf r') \<le> n \<and> rd_max_bytes r' = n \<and> (\<exists>bytes. delivered = Some bytes \<and> bytes \<noteq> []
        \<and> length (rd_buf r') = length (rd_buf (snd (decode_frames (Suc n) decode r))) + length bytes)"
proof -
  obtain d r1 where d: "decode_frames (Suc n) decode r = (d, r1)" by fastforce
  note b = decode_frames_bounds [OF assms(1) d]
  show "read_step (Suc n) decode delivered r = Inl (res, used, r') \<Longrightarrow>
      res \<noteq> ReaderDiverged \<and> (\<forall>m. res = GotMessage m \<longrightarrow> length m \<le> n) \<and> (res \<noteq> MessageTooLong \<longrightarrow> length (rd_buf r') \<le> n)"
    using assms(2,3) b by (auto simp: read_step_def d Let_def split: option.splits if_splits)
  show "read_step (Suc n) decode delivered r = Inr r' \<Longrightarrow>
      length (rd_buf r') \<le> n \<and> rd_max_bytes r' = n \<and> (\<exists>bytes. delivered = Some bytes \<and> bytes \<noteq> []
        \<and> length (rd_buf r') = length (rd_buf (snd (decode_frames (Suc n) decode r))) + length bytes)"
    using assms(2,3) b by (auto simp: read_step_def d Let_def split: option.splits if_splits)
qed

text \<open>A call returns exactly in the first pass that ends it.\<close>

lemma reader_after_front:
  "reader_after fuel decode reads i (Suc n) r =
     (case read_step fuel decode (reads i) r of Inl _ \<Rightarrow> None | Inr q \<Rightarrow> reader_after fuel decode reads (Suc i) n q)"
proof (induction n)
  case (Suc n)
  have "reader_after fuel decode reads i (Suc (Suc n)) r =
      (case reader_after fuel decode reads i (Suc n) r of None \<Rightarrow> None
       | Some q \<Rightarrow> (case read_step fuel decode (reads (i + Suc n)) q of Inl _ \<Rightarrow> None | Inr q' \<Rightarrow> Some q'))"
    by (rule reader_after.simps(2))
  moreover have "i + Suc n = Suc i + n" by simp
  ultimately show ?case unfolding Suc.IH by (simp only: reader_after.simps(2)) (simp split: sum.split)
qed (simp split: sum.split)

lemma message_read:
  "reader_after fuel decode reads i n r = Some q \<Longrightarrow> read_step fuel decode (reads (i + n)) q = Inl (res, used, r') \<Longrightarrow>
   read_message fuel decode reads i r = Some (res, if used then Suc (i + n) else i + n, r')"
proof (induction n arbitrary: i r)
  case 0
  then show ?case by (subst read_message.simps) simp
next
  case (Suc n)
  from Suc.prems(1) obtain r1 where r1: "read_step fuel decode (reads i) r = Inr r1"
    "reader_after fuel decode reads (Suc i) n r1 = Some q" unfolding reader_after_front by (auto split: sum.splits)
  from Suc.IH [OF r1(2)] Suc.prems(2) r1(1) show ?case by (subst read_message.simps) simp
qed

lemma read_message_ends:
  assumes "read_message fuel decode reads i r = Some y"
  shows "\<exists>n q used. reader_after fuel decode reads i n r = Some q
    \<and> read_step fuel decode (reads (i + n)) q = Inl (fst y, used, snd (snd y)) \<and> fst (snd y) = (if used then Suc (i + n) else i + n)"
    (is "?ends fuel decode reads i r y")
proof (rule read_message.raw_induct [where P = ?ends, OF _ assms])
  fix go fuel decode reads i r y
  assume IH: "\<And>fuel decode reads i r y. go fuel decode reads i r = Some y \<Longrightarrow> ?ends fuel decode reads i r y"
    and body: "(case read_step fuel decode (reads i) r of Inl (res, used, r') \<Rightarrow> Some (res, if used then Suc i else i, r')
      | Inr r' \<Rightarrow> go fuel decode reads (Suc i) r') = Some y"
  show "?ends fuel decode reads i r y"
  proof (cases "read_step fuel decode (reads i) r")
    case (Inl z)
    then show ?thesis using body by (intro exI [of _ 0] exI [of _ r] exI [of _ "fst (snd z)"]) (auto split: prod.splits)
  next
    case (Inr r1)
    then have "go fuel decode reads (Suc i) r1 = Some y" using body by simp
    from IH [OF this] obtain n q used where n: "reader_after fuel decode reads (Suc i) n r1 = Some q"
      "read_step fuel decode (reads (Suc i + n)) q = Inl (fst y, used, snd (snd y))"
      "fst (snd y) = (if used then Suc (Suc i + n) else Suc i + n)" by blast
    then show ?thesis using Inr by (intro exI [of _ "Suc n"] exI [of _ q] exI [of _ used]) (simp add: reader_after_front del: reader_after.simps)
  qed
qed

text \<open>A call that has not passed \<open>n\<close> passes has returned, with at most \<open>n\<close> reads.\<close>

lemma returns_by:
  "reader_after fuel decode reads i n r = None \<Longrightarrow> \<exists>res k r'. read_message fuel decode reads i r = Some (res, k, r') \<and> k \<le> i + n"
proof (induction n)
  case (Suc n)
  show ?case
  proof (cases "reader_after fuel decode reads i n r")
    case None
    then show ?thesis using Suc.IH by fastforce
  next
    case (Some q)
    then obtain res used r' where "read_step fuel decode (reads (i + n)) q = Inl (res, used, r')"
      using Suc.prems by (auto split: sum.splits)
    from message_read [OF Some this] show ?thesis by simp
  qed
qed simp

text \<open>A call that never returns is one that passes every pass.\<close>

lemma read_message_None: "read_message fuel decode reads i r = None \<longleftrightarrow> (\<forall>n. reader_after fuel decode reads i n r \<noteq> None)"
proof
  assume "read_message fuel decode reads i r = None"
  then show "\<forall>n. reader_after fuel decode reads i n r \<noteq> None" using returns_by by fastforce
next
  assume all: "\<forall>n. reader_after fuel decode reads i n r \<noteq> None"
  show "read_message fuel decode reads i r = None"
  proof (rule ccontr)
    assume "read_message fuel decode reads i r \<noteq> None"
    then obtain y where "read_message fuel decode reads i r = Some y" by blast
    from read_message_ends [OF this] obtain n q z where "reader_after fuel decode reads i n r = Some q"
      "read_step fuel decode (reads (i + n)) q = Inl z" by blast
    then have "reader_after fuel decode reads i (Suc n) r = None" by simp
    then show False using all by blast
  qed
qed

lemma reader_after_Suc:
  "reader_after fuel decode reads i (Suc n) r = Some q' \<longleftrightarrow>
     (\<exists>q. reader_after fuel decode reads i n r = Some q \<and> read_step fuel decode (reads (i + n)) q = Inr q')"
  by (auto split: option.splits sum.splits)

declare reader_after.simps(2) [simp del]

lemma reader_after_bounds:
  assumes "consumes decode" "length (rd_buf r) \<le> rd_max_bytes r"
  shows "reader_after (Suc (rd_max_bytes r)) decode reads i n r = Some q \<Longrightarrow>
    length (rd_buf q) \<le> rd_max_bytes r \<and> rd_max_bytes q = rd_max_bytes r"
proof (induction n arbitrary: q)
  case (Suc n)
  then obtain p where p: "reader_after (Suc (rd_max_bytes r)) decode reads i n r = Some p"
    "read_step (Suc (rd_max_bytes r)) decode (reads (i + n)) p = Inr q" unfolding reader_after_Suc by blast
  from read_step_bounds(2) [OF assms(1) _ _ p(2)] Suc.IH [OF p(1)] show ?case by blast
qed (use assms(2) in simp)

lemma waits_grow:
  assumes "consumes decode" "length (rd_buf r) \<le> rd_max_bytes r"
    and "reader_after (Suc (rd_max_bytes r)) decode reads i n r = Some q"
    and "reader_after (Suc (rd_max_bytes r)) decode reads i (Suc n) r = Some q'"
  shows "\<exists>bytes. reads (i + n) = Some bytes \<and> bytes \<noteq> []
    \<and> length (rd_buf q') = length (rd_buf (snd (decode_frames (Suc (rd_max_bytes r)) decode q))) + length bytes"
proof -
  have "read_step (Suc (rd_max_bytes r)) decode (reads (i + n)) q = Inr q'" using assms(3,4) unfolding reader_after_Suc by simp
  from read_step_bounds(2) [OF assms(1) _ _ this] reader_after_bounds [OF assms(1,2,3)] show ?thesis by blast
qed

text \<open>A call that never returns takes bytes off the buffer again and again.\<close>

lemma endless_read_decodes:
  fixes r reads i
  assumes "consumes decode" "length (rd_buf r) \<le> rd_max_bytes r"
  defines "after \<equiv> \<lambda>n. reader_after (Suc (rd_max_bytes r)) decode reads i n r"
  assumes never: "\<And>n. after n \<noteq> None"
  shows "\<exists>m \<ge> n. \<exists>q. after m = Some q \<and> length (rd_buf (snd (decode_frames (Suc (rd_max_bytes r)) decode q))) < length (rd_buf q)"
proof (rule ccontr)
  assume "\<not> ?thesis"
  then have kept: "length (rd_buf q) \<le> length (rd_buf (snd (decode_frames (Suc (rd_max_bytes r)) decode q)))"
    if "n \<le> m" "after m = Some q" for m q
    using that leI by blast
  have "\<exists>q. after (n + k) = Some q \<and> k \<le> length (rd_buf q)" for k
  proof (induction k)
    case 0
    then show ?case using never [of n] by auto
  next
    case (Suc k)
    then obtain q where q: "after (n + k) = Some q" "k \<le> length (rd_buf q)" by blast
    obtain q' where q': "after (Suc (n + k)) = Some q'" using never [of "Suc (n + k)"] by blast
    from waits_grow [OF assms(1,2) q(1) [unfolded after_def] q' [unfolded after_def]] obtain bytes :: string where "bytes \<noteq> []"
      "length (rd_buf q') = length (rd_buf (snd (decode_frames (Suc (rd_max_bytes r)) decode q))) + length bytes"
      by blast
    moreover have "length bytes > 0" using \<open>bytes \<noteq> []\<close> by simp
    ultimately have "Suc k \<le> length (rd_buf q')" using kept [OF le_add1 q(1)] q(2) by linarith
    then show ?case using q' by simp
  qed
  from this [of "Suc (rd_max_bytes r)"] obtain q where q: "after (n + Suc (rd_max_bytes r)) = Some q" "Suc (rd_max_bytes r) \<le> length (rd_buf q)"
    by blast
  from reader_after_bounds [OF assms(1,2) q(1) [unfolded after_def]] q(2) show False by linarith
qed

text \<open>
  C12: the stream reader keeps to its limits, on streams that end and on streams that do not.  The
  decoder of \<open>rsipstack\<close> is assumed not to add to the buffer and to take every keep-alive off it; then
  the inner loop ends within one step more than the limit in bytes.  Before every read the buffer
  holds at most \<open>max_message_bytes\<close>; a message that is handed on is at most as long, and the bytes kept
  for the next call are at most as many unless the call fails with the message too long.  A stream
  that ends or fails at some read makes the call return by that read.  A call that never returns is
  fed bytes by every read, and again and again the decoder takes bytes off the buffer without
  completing a message, as with endless keep-alives.
\<close>

theorem tcp_reader_bounded:
  fixes r reads i
  assumes "consumes decode" "length (rd_buf r) \<le> rd_max_bytes r"
  defines "fuel \<equiv> Suc (rd_max_bytes r)"
  shows "(\<forall>n q. reader_after fuel decode reads i n r = Some q \<longrightarrow> length (rd_buf q) \<le> rd_max_bytes r)
    \<and> (\<forall>res k r'. read_message fuel decode reads i r = Some (res, k, r') \<longrightarrow>
         res \<noteq> ReaderDiverged \<and> (\<forall>m. res = GotMessage m \<longrightarrow> length m \<le> rd_max_bytes r)
         \<and> (res \<noteq> MessageTooLong \<longrightarrow> length (rd_buf r') \<le> rd_max_bytes r))
    \<and> (\<forall>m \<ge> i. reads m = None \<or> reads m = Some [] \<longrightarrow>
         (\<exists>res k r'. read_message fuel decode reads i r = Some (res, k, r') \<and> k \<le> Suc m))
    \<and> (read_message fuel decode reads i r = None \<longrightarrow> (\<forall>n. \<exists>m \<ge> n. \<exists>q. reader_after fuel decode reads i m r = Some q
         \<and> length (rd_buf (snd (decode_frames fuel decode q))) < length (rd_buf q)))"
proof (intro conjI allI impI)
  fix n q assume "reader_after fuel decode reads i n r = Some q"
  then show "length (rd_buf q) \<le> rd_max_bytes r" using reader_after_bounds [OF assms(1,2)] unfolding fuel_def by blast
next
  fix res k r' assume "read_message fuel decode reads i r = Some (res, k, r')"
  from read_message_ends [OF this] obtain n q used where q: "reader_after fuel decode reads i n r = Some q"
    "read_step fuel decode (reads (i + n)) q = Inl (res, used, r')" by auto
  note b = read_step_bounds(1) [OF assms(1) _ _ q(2) [unfolded fuel_def]] reader_after_bounds [OF assms(1,2) q(1) [unfolded fuel_def]]
  show "res \<noteq> ReaderDiverged" "\<And>m. res = GotMessage m \<Longrightarrow> length m \<le> rd_max_bytes r"
    "res \<noteq> MessageTooLong \<Longrightarrow> length (rd_buf r') \<le> rd_max_bytes r" using b by auto
next
  fix m assume m: "i \<le> m" "reads m = None \<or> reads m = Some []"
  have "reader_after fuel decode reads i (Suc (m - i)) r = None"
  proof (rule ccontr)
    assume "reader_after fuel decode reads i (Suc (m - i)) r \<noteq> None"
    then obtain q q' where q: "reader_after fuel decode reads i (m - i) r = Some q" "reader_after fuel decode reads i (Suc (m - i)) r = Some q'"
      unfolding not_None_eq reader_after_Suc by blast
    show False using waits_grow [OF assms(1,2) q [unfolded fuel_def]] m by auto
  qed
  then show "\<exists>res k r'. read_message fuel decode reads i r = Some (res, k, r') \<and> k \<le> Suc m"
    using returns_by [of fuel decode reads i "Suc (m - i)" r] m(1) by simp
next
  fix n assume "read_message fuel decode reads i r = None"
  then have "\<And>n. reader_after (Suc (rd_max_bytes r)) decode reads i n r \<noteq> None" unfolding read_message_None fuel_def by blast
  from endless_read_decodes [OF assms(1,2) this, of n]
  show "\<exists>m \<ge> n. \<exists>q. reader_after fuel decode reads i m r = Some q
      \<and> length (rd_buf (snd (decode_frames fuel decode q))) < length (rd_buf q)" unfolding fuel_def by blast
qed

text \<open>
  A codec whose frames are single bytes, \<open>k\<close> being a keep-alive, on a stream that never ends: a
  message after three keep-alives is handed on after two reads; with nothing but keep-alives the
  call never returns.
\<close>

definition byte_codec :: "unit sip_codec" where
  "byte_codec c buf = (case buf of [] \<Rightarrow> (Inr None, c, [])
     | x # rest \<Rightarrow> (Inr (Some (if x = CHR ''k'' then FrameKeepalive else FrameMessage [x])), c, rest))"

definition byte_reads :: "nat \<Rightarrow> string option" where
  "byte_reads n = Some (if n = 1 then ''km'' else ''kk'')"

lemma byte_steps:
  "reader_after 5 byte_codec byte_reads 0 1 (tcp_sip_reader_new () 4) = Some ((tcp_sip_reader_new () 4)\<lparr>rd_buf := ''kk''\<rparr>)"
  "reader_after 5 byte_codec byte_reads 0 2 (tcp_sip_reader_new () 4) = Some ((tcp_sip_reader_new () 4)\<lparr>rd_buf := ''km''\<rparr>)"
  "read_step 5 byte_codec (byte_reads 2) ((tcp_sip_reader_new () 4)\<lparr>rd_buf := ''km''\<rparr>) = Inl (GotMessage ''m'', False, tcp_sip_reader_new () 4)"
  by code_simp+

lemma endless_keepalives: "read_message 5 byte_codec (\<lambda>_. Some ''k'') 0 (tcp_sip_reader_new () 4) = None"
proof -
  let ?r = "(tcp_sip_reader_new () 4)\<lparr>rd_buf := ''k''\<rparr>"
  have s: "read_step 5 byte_codec (Some ''k'') (tcp_sip_reader_new () 4) = Inr ?r" "read_step 5 byte_codec (Some ''k'') ?r = Inr ?r" by code_simp+
  have "reader_after 5 byte_codec (\<lambda>_. Some ''k'') 0 (Suc n) (tcp_sip_reader_new () 4) = Some ?r" for n
    by (induction n) (simp_all add: reader_after.simps(2) s)
  then show ?thesis unfolding read_message_None by (metis not0_implies_Suc option.distinct(1) reader_after.simps(1))
qed

theorem tcp_reader_bounded_witness:
  "read_message 5 byte_codec byte_reads 0 (tcp_sip_reader_new () 4) = Some (GotMessage ''m'', 2, tcp_sip_reader_new () 4)
    \<and> length ''m'' \<le> 4
    \<and> (\<exists>m \<ge> 7. \<exists>q. reader_after 5 byte_codec (\<lambda>_. Some ''k'') 0 m (tcp_sip_reader_new () 4) = Some q
         \<and> length (rd_buf (snd (decode_frames 5 byte_codec q))) < length (rd_buf q))"
proof -
  have c: "consumes byte_codec" by (auto simp: consumes_def byte_codec_def split: list.splits)
  have r: "read_message 5 byte_codec byte_reads 0 (tcp_sip_reader_new () 4) = Some (GotMessage ''m'', 2, tcp_sip_reader_new () 4)"
    using message_read [OF byte_steps(2), of "GotMessage ''m''" False] byte_steps(3) by (simp only: add_0 if_False)
  have m: "rd_max_bytes (tcp_sip_reader_new () 4) = 4" "rd_buf (tcp_sip_reader_new () 4) = []" by (simp_all add: tcp_sip_reader_new_def)
  have "length ''m'' \<le> 4" using tcp_reader_bounded [OF c, of "tcp_sip_reader_new () 4" byte_reads 0] r unfolding m by simp
  moreover have "\<exists>m \<ge> 7. \<exists>q. reader_after 5 byte_codec (\<lambda>_. Some ''k'') 0 m (tcp_sip_reader_new () 4) = Some q
      \<and> length (rd_buf (snd (decode_frames 5 byte_codec q))) < length (rd_buf q)"
    using tcp_reader_bounded [OF c, of "tcp_sip_reader_new () 4" "\<lambda>_. Some ''k''" 0] endless_keepalives unfolding m by simp
  ultimately show ?thesis using r by (intro conjI)
qed

section \<open>Examples of the pool\<close>

definition pool_lib :: "u16 \<Rightarrow> rsip_lib" where
  "pool_lib code = via_lib\<lparr>rl_parse := \<lambda>_. Some (sm_inner (via_response code))\<rparr>"

definition pool_request :: "string \<Rightarrow> tcp_request" where
  "pool_request m = \<lparr>tq_branch = proxy_branch_prefix @ ''7'', tq_method = m, tq_record_route_addrs = []\<rparr>"

definition pool_target :: sock_addr where
  "pool_target = SockV4 2 5060"

definition pool_ops :: "pool_op list" where
  "pool_ops = [OpSend (True, WriteTimeout, 0) (True, WriteOk, 0) pool_target (pool_request ''INVITE'')]"

lemma pool_example:
  "run_pool lib pool_ops tcp_upstream_pool_new [] =
    (fold (pool_step lib) pool_ops tcp_upstream_pool_new, replicate 2 (pool_target, proxy_branch_prefix @ ''7''))"
  by (simp add: pool_ops_def pool_send_request_def get_or_connect_def connect_and_insert_def tcp_connect_def tcp_upstream_pool_new_def connection_send_request_def on_connection_def
      remove_if_same_def hm_get_def hm_insert_def hm_remove_def hm_empty_def pool_request_def pool_target_def Let_def numeral_2_eq_2)

lemma pool_request_simps [simp]: "tq_branch (pool_request x) = proxy_branch_prefix @ ''7''"
  by (simp add: pool_request_def)

lemma pool_lib_steps:
  "sip_parse (pool_lib code) ''x'' = Inr (via_response code)"
  "top_via_branch (pool_lib code) (via_response code) = Inr (Some (proxy_branch_prefix @ ''7''))"
  "\<exists>v m2. pop_top_via (pool_lib code) (via_response code) = Inr (Some v, m2)"
proof -
  have "parse_start_line ''x'' = None" by code_simp
  then show "sip_parse (pool_lib code) ''x'' = Inr (via_response code)"
    by (simp add: sip_parse_def pool_lib_def Let_def) (simp add: via_response_def from_inner_def)
  have mk: "rl_make_header (pool_lib code) = rl_make_header via_lib" by (simp add: pool_lib_def)
  have "pop_top_via (pool_lib code) m = pop_top_via via_lib m" for m unfolding pop_top_via_def pop_value_at_def mk ..
  then show "\<exists>v m2. pop_top_via (pool_lib code) (via_response code) = Inr (Some v, m2)" using via_response_steps(3) [of code] by auto
  show "top_via_branch (pool_lib code) (via_response code) = Inr (Some (proxy_branch_prefix @ ''7''))"
    using via_response_steps(1) [of code] by (simp add: pool_lib_def top_via_branch_def)
qed

lemma pool_delivers:
  assumes "hm_get (tcn_branches (tpl_store p c)) (proxy_branch_prefix @ ''7'') = Some r" "hm_inv (tcn_branches (tpl_store p c))"
    and "tcp_branch_alive now r" "tr_record_route_addrs r = []"
  shows "\<exists>p' bytes. dispatch_tcp_upstream_response (pool_lib 200) now c ''x'' p = (Inr (), p')
    \<and> tpl_channels p' = (tpl_channels p)(tr_tx r := tpl_channels p (tr_tx r) @ [bytes])"
proof -
  have "hm_get (prune_tcp_branches now (tcn_branches (tpl_store p c))) (proxy_branch_prefix @ ''7'') = Some r"
    using assms by (simp add: prune_tcp_branches_def hm_simps keep_if_def)
  moreover obtain v m2 where "pop_top_via (pool_lib 200) (via_response 200) = Inr (Some v, m2)" using pool_lib_steps(3) by blast
  then have "rewritten_response (pool_lib 200) r (via_response 200) = Inr (sip_to_bytes (pool_lib 200) m2)"
    using assms(4) by (simp add: rewritten_response_def ensure_dialog_record_routes_def)
  moreover have "starts_with (proxy_branch_prefix @ ''7'') proxy_branch_prefix" by (simp add: starts_with_def)
  ultimately show ?thesis
    by (simp add: dispatch_tcp_upstream_response_def pool_lib_steps Let_def channel_send_def) (rule exI, rule refl)
qed

definition pool_after :: tcp_upstream_pool where
  "pool_after = fold (pool_step (pool_lib 200)) pool_ops tcp_upstream_pool_new"

lemma pool_after_simps:
  "tcn_branches (tpl_store pool_after 1) = [(proxy_branch_prefix @ ''7'',
     \<lparr>tr_tx = 1, tr_method = ''INVITE'', tr_record_route_addrs = [], tr_created_at = 0\<rparr>)]"
  "tcn_target (tpl_store pool_after 1) = pool_target" "tpl_channels pool_after = (\<lambda>_. [])"
  "hm_get (tpl_connections pool_after) pool_target = Some 1" "tcn_alive (tpl_store pool_after 1)"
  by (simp_all add: pool_after_def pool_ops_def pool_send_request_def get_or_connect_def connect_and_insert_def tcp_connect_def tcp_upstream_pool_new_def connection_send_request_def
      on_connection_def remove_if_same_def hm_get_def hm_insert_def hm_remove_def hm_empty_def pool_request_def pool_target_def Let_def
      prune_tcp_branches_def hm_retain_def)

theorem tcp_response_to_its_request_witness:
  "\<exists>owners p' bytes. run_pool (pool_lib 200) pool_ops tcp_upstream_pool_new [] = (pool_after, owners)
    \<and> dispatch_tcp_upstream_response (pool_lib 200) 0 1 ''x'' pool_after = (Inr (), p')
    \<and> tpl_channels p' 1 = [bytes] \<and> owners ! 1 = (pool_target, proxy_branch_prefix @ ''7'')"
proof -
  let ?r = "\<lparr>tr_tx = 1, tr_method = ''INVITE'', tr_record_route_addrs = [], tr_created_at = 0\<rparr>"
  have "hm_get (tcn_branches (tpl_store pool_after 1)) (proxy_branch_prefix @ ''7'') = Some ?r" "hm_inv (tcn_branches (tpl_store pool_after 1))"
    by (simp_all only: pool_after_simps) (simp_all add: hm_get_def hm_inv_def)
  moreover have "tcp_branch_alive 0 ?r" by (simp add: tcp_branch_alive_def tcp_branch_ttl_def time_simps)
  ultimately obtain p' bytes where d: "dispatch_tcp_upstream_response (pool_lib 200) 0 1 ''x'' pool_after = (Inr (), p')"
      "tpl_channels p' = (\<lambda>_. [])(1 := [bytes])"
    using pool_delivers [of pool_after 1 ?r 0] unfolding pool_after_simps by auto
  let ?o = "replicate 2 (pool_target, proxy_branch_prefix @ ''7'')"
  have r: "run_pool (pool_lib 200) pool_ops tcp_upstream_pool_new [] = (pool_after, ?o)" unfolding pool_after_def by (rule pool_example)
  from tcp_response_to_its_request [OF r d(1)] have "?o ! 1 = (pool_target, proxy_branch_prefix @ ''7'')" by simp
  with r d show ?thesis by auto
qed

theorem cancel_takes_tcp_responses_witness:
  "\<exists>p1 p3 tx. pool_send_request (True, WriteOk, 0) (True, WriteOk, 0) pool_target (pool_request ''INVITE'') tcp_upstream_pool_new = (Inr tx, p1)
    \<and> pool_send_request (True, WriteOk, 0) (True, WriteOk, 0) pool_target (pool_request ''CANCEL'') p1 = (Inr (Suc tx), p3)
    \<and> tpl_channels (fold (pool_step (pool_lib 200)) [OpResponse 0 0 ''x'', OpResponse 0 0 ''x''] p3) tx = []"
proof -
  let ?a = "(True, WriteOk, 0) :: bool \<times> write_outcome \<times> instant"
  define p1 where "p1 = snd (pool_send_request ?a ?a pool_target (pool_request ''INVITE'') tcp_upstream_pool_new)"
  have s: "pool_send_request ?a ?a pool_target (pool_request ''INVITE'') (fold (pool_step (pool_lib 200)) [] tcp_upstream_pool_new) = (Inr 0, p1)"
    and c: "hm_get (tpl_connections p1) pool_target = Some 0" "tcn_alive (tpl_store p1 0)" "tpl_channels p1 0 = []" "tpl_next_channel p1 = 1"
    by (simp_all add: p1_def pool_send_request_def get_or_connect_def connect_and_insert_def tcp_connect_def tcp_upstream_pool_new_def connection_send_request_def on_connection_def
        hm_get_def hm_insert_def hm_empty_def Let_def)
  obtain p3 where p3: "pool_send_request ?a ?a pool_target (pool_request ''CANCEL'') p1 = (Inr 1, p3)"
    using c by (simp add: pool_send_request_def get_or_connect_def connect_and_insert_def tcp_connect_def connection_send_request_def Let_def)
  have "tpl_channels (fold (pool_step (pool_lib 200)) [OpResponse 0 0 ''x'', OpResponse 0 0 ''x''] p3) 0 = tpl_channels p1 0"
    by (rule cancel_takes_tcp_responses [OF s _ _ c(1,2) _ p3, of "[]"]) simp_all
  then show ?thesis using s p3 c(3) by auto
qed

end
