(* ===== verification/Xdp.thy ===== *)
theory Xdp
  imports Security
begin

text \<open>
  The control plane of the kernel packet filter (\<open>proxy/xdp.rs\<close>): what the configuration asks of
  the filter, the keys and values written to its maps, sizing and synchronisation of the maps,
  the list of dynamic blocks, attaching and the fallback to user space.  The maps of the kernel
  are tables of the model; whether a system call succeeds, and which keys of a longest-prefix
  table denote the same node, are parameters.  The decision of the filter itself
  (\<open>bpf/sigproxy_xdp.c\<close>, \<open>evaluate_packet\<close> up to the rate limits) is modelled to compare it with
  the checks in user space.
\<close>

section \<open>What the configuration asks for\<close>

definition xdp_proto_icmp :: u8 where "xdp_proto_icmp = 1"
definition xdp_proto_tcp :: u8 where "xdp_proto_tcp = 6"
definition xdp_proto_udp :: u8 where "xdp_proto_udp = 17"

definition xdp_policy_cidr_allow_enabled :: u64 where "xdp_policy_cidr_allow_enabled = 1"
definition xdp_policy_geo_enabled :: u64 where "xdp_policy_geo_enabled = 2"
definition xdp_policy_geo_unknown_allow :: u64 where "xdp_policy_geo_unknown_allow = 4"
definition xdp_policy_geo_allow_has_entries :: u64 where "xdp_policy_geo_allow_has_entries = 8"
definition xdp_policy_ip_rate_limit_enabled :: u64 where "xdp_policy_ip_rate_limit_enabled = 16"
definition xdp_policy_flood_enabled :: u64 where "xdp_policy_flood_enabled = 32"

definition xdp_country_words :: nat where "xdp_country_words = 11"

lemmas xdp_consts = xdp_proto_icmp_def xdp_proto_tcp_def xdp_proto_udp_def xdp_policy_cidr_allow_enabled_def
  xdp_policy_geo_enabled_def xdp_policy_geo_unknown_allow_def xdp_policy_geo_allow_has_entries_def
  xdp_policy_ip_rate_limit_enabled_def xdp_policy_flood_enabled_def xdp_country_words_def

datatype xdp_error =
    XdpBadBind string | XdpUnexpandedTransport | XdpBadAddress string | XdpBadPrefix string | XdpPrefixTooLong string
  | XdpBadCountry | XdpCountryIndex | XdpTooManyEntries | XdpMaxBelowDefault | XdpNeedsAutoSize | XdpMaxExceeded
  | XdpKernel | XdpMissingKey | XdpKeyLength nat | XdpNoBpffs | XdpNoObject | XdpNoInterface | XdpIpCommand string
  | XdpAttach string | XdpFailClosed

record xdp_cidr_prefix =
  xp_addr :: ip_addr
  xp_prefix :: u8

record xdp_listener_policy_spec =
  ps_flags :: u64
  ps_packets_per_second :: u32
  ps_burst :: u32
  ps_udp_flood_packets_per_second :: u32
  ps_udp_flood_burst :: u32
  ps_tcp_flood_packets_per_second :: u32
  ps_tcp_flood_burst :: u32
  ps_tcp_syn_flood_packets_per_second :: u32
  ps_tcp_syn_flood_burst :: u32
  ps_tcp_ack_flood_packets_per_second :: u32
  ps_tcp_ack_flood_burst :: u32
  ps_icmp_flood_packets_per_second :: u32
  ps_icmp_flood_burst :: u32
  ps_geo_allow :: "u64 list"
  ps_geo_deny :: "u64 list"
  ps_trusted_cidrs :: "xdp_cidr_prefix list"
  ps_allow_cidrs :: "xdp_cidr_prefix list"
  ps_deny_cidrs :: "xdp_cidr_prefix list"
  ps_threat_intel :: bool

record xdp_listener_spec =
  xl_listener_key :: string
  xl_l4_proto :: u8
  xl_port :: u16
  xl_policy :: xdp_listener_policy_spec

record xdp_map_sizing =
  xz_auto_size_maps :: bool
  xz_max_deny_cidrs_entries :: u32
  xz_max_geo_cidrs_entries :: u32

definition default_xdp_map_sizing :: xdp_map_sizing where
  "default_xdp_map_sizing = \<lparr>xz_auto_size_maps = True, xz_max_deny_cidrs_entries = 262144, xz_max_geo_cidrs_entries = 1048576\<rparr>"

definition xdp_map_sizing_apply :: "effective_proxy_xdp_security_config \<Rightarrow> xdp_map_sizing \<Rightarrow> xdp_map_sizing" where
  "xdp_map_sizing_apply config z =
     \<lparr>xz_auto_size_maps = (xz_auto_size_maps z \<and> xe_auto_size_maps config),
      xz_max_deny_cidrs_entries = max (xz_max_deny_cidrs_entries z) (xe_max_deny_cidrs_entries config),
      xz_max_geo_cidrs_entries = max (xz_max_geo_cidrs_entries z) (xe_max_geo_cidrs_entries config)\<rparr>"

definition parse_xdp_cidr :: "string \<Rightarrow> xdp_error + xdp_cidr_prefix" where
  "parse_xdp_cidr v =
     (let value = trim v
      in bind_res
        (case split_once (CHR ''/'') value of
           Some (addr, prefix) \<Rightarrow>
             (case parse_ip addr of
                None \<Rightarrow> Inl (XdpBadAddress value)
              | Some a \<Rightarrow> (case parse_u8 prefix of None \<Rightarrow> Inl (XdpBadPrefix value) | Some p \<Rightarrow> Inr (a, Some p)))
         | None \<Rightarrow> (case parse_ip value of None \<Rightarrow> Inl (XdpBadAddress value) | Some a \<Rightarrow> Inr (a, None)))
        (\<lambda>(addr, prefix).
           let p = (case prefix of Some p \<Rightarrow> p | None \<Rightarrow> max_prefix addr)
           in if p > max_prefix addr then Inl (XdpPrefixTooLong value) else Inr \<lparr>xp_addr = addr, xp_prefix = p\<rparr>))"

definition parse_xdp_cidrs :: "string list \<Rightarrow> xdp_error + xdp_cidr_prefix list" where
  "parse_xdp_cidrs values = collect_res parse_xdp_cidr values"

text \<open>\<open>to_ascii_uppercase() - b'A'\<close> of a letter.\<close>

definition letter_index :: "char \<Rightarrow> nat" where
  "letter_index c = of_char (to_ascii_upper c) - 65"

definition set_country_bit :: "u64 list \<Rightarrow> string \<Rightarrow> xdp_error + u64 list" where
  "set_country_bit bits country =
     (case trim country of
        [a, b] \<Rightarrow>
          if \<not> is_ascii_alpha a \<or> \<not> is_ascii_alpha b then Inl XdpBadCountry
          else let bit = letter_index a * 26 + letter_index b; word = bit div 64
               in if word \<ge> xdp_country_words then Inl XdpCountryIndex
                  else Inr (bits[word := bits ! word OR push_bit (bit mod 64) 1])
      | _ \<Rightarrow> Inl XdpBadCountry)"

fun set_country_bits :: "u64 list \<Rightarrow> string list \<Rightarrow> xdp_error + u64 list" where
  "set_country_bits bits [] = Inr bits"
| "set_country_bits bits (c # cs) = bind_res (set_country_bit bits c) (\<lambda>b. set_country_bits b cs)"

definition limit_u32 :: "u64 \<Rightarrow> u32" where
  "limit_u32 v = ucast (min v 0xFFFFFFFF)"

record flood_values =
  fl_udp :: "u32 \<times> u32"
  fl_tcp :: "u32 \<times> u32"
  fl_tcp_syn :: "u32 \<times> u32"
  fl_tcp_ack :: "u32 \<times> u32"
  fl_icmp :: "u32 \<times> u32"

definition flood_fields :: "effective_proxy_security_config \<Rightarrow> flood_values" where
  "flood_fields security =
     (let f = se_flood security
      in if \<not> fe_enabled f
         then \<lparr>fl_udp = (0, 0), fl_tcp = (0, 0), fl_tcp_syn = (0, 0), fl_tcp_ack = (0, 0), fl_icmp = (0, 0)\<rparr>
         else \<lparr>fl_udp = (limit_u32 (fe_udp_packets_per_second f), limit_u32 (fe_udp_burst f)),
               fl_tcp = (limit_u32 (fe_tcp_packets_per_second f), limit_u32 (fe_tcp_burst f)),
               fl_tcp_syn = (limit_u32 (fe_tcp_syn_packets_per_second f), limit_u32 (fe_tcp_syn_burst f)),
               fl_tcp_ack = (limit_u32 (fe_tcp_ack_packets_per_second f), limit_u32 (fe_tcp_ack_burst f)),
               fl_icmp = (limit_u32 (fe_icmp_packets_per_second f), limit_u32 (fe_icmp_burst f))\<rparr>)"

definition flag_if :: "bool \<Rightarrow> u64 \<Rightarrow> u64" where
  "flag_if b flag = (if b then flag else 0)"

text \<open>The geo part of \<open>from_security\<close>: flags, allowed and denied countries.\<close>

definition geo_spec :: "effective_proxy_security_config \<Rightarrow> xdp_error + u64 \<times> u64 list \<times> u64 list" where
  "geo_spec security =
     (let zeros = replicate xdp_country_words 0; g = se_geo security
      in if \<not> (xe_geo_filter (se_xdp security) \<and> ge_enabled g) then Inr (0, zeros, zeros)
         else bind_res (set_country_bits zeros (ge_allow_countries g)) (\<lambda>allow.
              bind_res (set_country_bits zeros (ge_deny_countries g)) (\<lambda>deny.
                Inr (xdp_policy_geo_enabled OR flag_if (ge_unknown_country g = UnknownAllow) xdp_policy_geo_unknown_allow
                       OR flag_if (ge_allow_countries g \<noteq> []) xdp_policy_geo_allow_has_entries, allow, deny))))"

definition policy_from_security :: "effective_proxy_security_config \<Rightarrow> xdp_error + xdp_listener_policy_spec" where
  "policy_from_security security =
     (let x = se_xdp security; cidrs = (\<lambda>values. if xe_cidr_filter x then parse_xdp_cidrs values else Inr [])
      in bind_res (cidrs (se_trusted_cidrs security)) (\<lambda>trusted.
         bind_res (cidrs (se_allow_cidrs security)) (\<lambda>allow.
         bind_res (cidrs (se_deny_cidrs security)) (\<lambda>deny.
         bind_res (geo_spec security) (\<lambda>(geo_flags, geo_allow, geo_deny).
           let r = se_ip_rate_limit security;
               limited = xe_ip_rate_limit x \<and> ie_enabled r \<and> ie_packets_per_second r > 0 \<and> ie_burst r > 0;
               f = flood_fields security;
               flooding = fst (fl_udp f) > 0 \<or> fst (fl_tcp f) > 0 \<or> fst (fl_tcp_syn f) > 0 \<or> fst (fl_tcp_ack f) > 0
                 \<or> fst (fl_icmp f) > 0
           in Inr \<lparr>ps_flags = flag_if (allow \<noteq> []) xdp_policy_cidr_allow_enabled OR geo_flags
                      OR flag_if limited xdp_policy_ip_rate_limit_enabled OR flag_if flooding xdp_policy_flood_enabled,
               ps_packets_per_second = (if limited then limit_u32 (ie_packets_per_second r) else 0),
               ps_burst = (if limited then limit_u32 (ie_burst r) else 0),
               ps_udp_flood_packets_per_second = fst (fl_udp f), ps_udp_flood_burst = snd (fl_udp f),
               ps_tcp_flood_packets_per_second = fst (fl_tcp f), ps_tcp_flood_burst = snd (fl_tcp f),
               ps_tcp_syn_flood_packets_per_second = fst (fl_tcp_syn f), ps_tcp_syn_flood_burst = snd (fl_tcp_syn f),
               ps_tcp_ack_flood_packets_per_second = fst (fl_tcp_ack f), ps_tcp_ack_flood_burst = snd (fl_tcp_ack f),
               ps_icmp_flood_packets_per_second = fst (fl_icmp f), ps_icmp_flood_burst = snd (fl_icmp f),
               ps_geo_allow = geo_allow, ps_geo_deny = geo_deny,
               ps_trusted_cidrs = trusted, ps_allow_cidrs = allow, ps_deny_cidrs = deny,
               ps_threat_intel = (xe_threat_intel x \<and> te_enabled (se_threat_intel security))\<rparr>)))))"

definition icmp_flood_from_security :: "effective_proxy_security_config \<Rightarrow> xdp_listener_policy_spec option" where
  "icmp_flood_from_security security =
     (let (rate, burst) = fl_icmp (flood_fields security)
      in if rate = 0 \<or> burst = 0 then None
         else Some \<lparr>ps_flags = xdp_policy_flood_enabled, ps_packets_per_second = 0, ps_burst = 0,
             ps_udp_flood_packets_per_second = 0, ps_udp_flood_burst = 0,
             ps_tcp_flood_packets_per_second = 0, ps_tcp_flood_burst = 0,
             ps_tcp_syn_flood_packets_per_second = 0, ps_tcp_syn_flood_burst = 0,
             ps_tcp_ack_flood_packets_per_second = 0, ps_tcp_ack_flood_burst = 0,
             ps_icmp_flood_packets_per_second = rate, ps_icmp_flood_burst = burst,
             ps_geo_allow = replicate xdp_country_words 0, ps_geo_deny = replicate xdp_country_words 0,
             ps_trusted_cidrs = [], ps_allow_cidrs = [], ps_deny_cidrs = [], ps_threat_intel = False\<rparr>)"

definition merge_icmp_flood :: "xdp_listener_policy_spec \<Rightarrow> xdp_listener_policy_spec \<Rightarrow> xdp_listener_policy_spec" where
  "merge_icmp_flood p other =
     p\<lparr>ps_icmp_flood_packets_per_second :=
         max (ps_icmp_flood_packets_per_second p) (ps_icmp_flood_packets_per_second other),
       ps_icmp_flood_burst := max (ps_icmp_flood_burst p) (ps_icmp_flood_burst other)\<rparr>"

definition spec_from_listener ::
  "proxy_listener_config \<Rightarrow> effective_proxy_security_config \<Rightarrow> xdp_error + xdp_listener_spec" where
  "spec_from_listener listener security =
     (case parse_sock (l_bind listener) of
        None \<Rightarrow> Inl (XdpBadBind (l_bind listener))
      | Some bind \<Rightarrow>
          bind_res (case l_transport listener of
                      Udp \<Rightarrow> Inr xdp_proto_udp | Tcp \<Rightarrow> Inr xdp_proto_tcp | TcpUdp \<Rightarrow> Inl XdpUnexpandedTransport) (\<lambda>proto.
          bind_res (policy_from_security security) (\<lambda>policy.
            Inr \<lparr>xl_listener_key = listener_key listener, xl_l4_proto = proto, xl_port = sock_port bind,
                 xl_policy = policy\<rparr>)))"

section \<open>Collecting the request\<close>

text \<open>A \<open>BTreeSet\<close>: a sorted list without duplicates.\<close>

definition btree_insert :: "'a::linorder \<Rightarrow> 'a list \<Rightarrow> 'a list" where
  "btree_insert x xs = (if x \<in> set xs then xs else insort x xs)"

definition btree_extend :: "'a::linorder list \<Rightarrow> 'a list \<Rightarrow> 'a list" where
  "btree_extend ys xs = fold btree_insert ys xs"

lemma set_btree_insert [simp]: "set (btree_insert x xs) = insert x (set xs)"
  by (auto simp: btree_insert_def set_insort_key)

lemma set_btree_extend [simp]: "set (btree_extend ys xs) = set ys \<union> set xs"
  unfolding btree_extend_def by (induction ys arbitrary: xs) auto

lemma distinct_btree_insert: "distinct xs \<Longrightarrow> distinct (btree_insert x xs)"
  by (simp add: btree_insert_def distinct_insort)

lemma distinct_btree_extend: "distinct xs \<Longrightarrow> distinct (btree_extend ys xs)"
  unfolding btree_extend_def by (induction ys arbitrary: xs) (auto intro: distinct_btree_insert)

record xdp_request =
  xr_requested :: bool
  xr_fail_closed :: bool
  xr_sync_dynamic_ban :: bool
  xr_detach_stale :: bool
  xr_map_sizing :: xdp_map_sizing
  xr_interfaces :: "string list"
  xr_listeners :: "xdp_listener_spec list"
  xr_icmp_flood_policy :: "xdp_listener_policy_spec option"

definition xdp_request_empty :: xdp_request where
  "xdp_request_empty = \<lparr>xr_requested = False, xr_fail_closed = False, xr_sync_dynamic_ban = False, xr_detach_stale = True,
     xr_map_sizing = default_xdp_map_sizing, xr_interfaces = [], xr_listeners = [], xr_icmp_flood_policy = None\<rparr>"

definition add_listener :: "proxy_config \<Rightarrow> proxy_listener_config \<Rightarrow> xdp_request \<Rightarrow> xdp_error + xdp_request" where
  "add_listener config listener r =
     (let effective = effective_security_for_listener config listener; x = se_xdp effective
      in if \<not> xe_enabled x then Inr r
         else bind_res (spec_from_listener listener effective) (\<lambda>spec.
           Inr \<lparr>xr_requested = True, xr_fail_closed = (xr_fail_closed r \<or> \<not> xe_fail_open x),
             xr_sync_dynamic_ban = (xr_sync_dynamic_ban r \<or> xe_sync_dynamic_ban x),
             xr_detach_stale = (xr_detach_stale r \<and> xe_detach_stale x),
             xr_map_sizing = xdp_map_sizing_apply x (xr_map_sizing r),
             xr_interfaces = btree_extend (xe_interfaces x) (xr_interfaces r),
             xr_listeners = xr_listeners r @ [spec],
             xr_icmp_flood_policy =
               (case icmp_flood_from_security effective of
                  None \<Rightarrow> xr_icmp_flood_policy r
                | Some policy \<Rightarrow> Some (case xr_icmp_flood_policy r of None \<Rightarrow> policy
                                       | Some existing \<Rightarrow> merge_icmp_flood existing policy))\<rparr>))"

fun add_listeners :: "proxy_config \<Rightarrow> proxy_listener_config list \<Rightarrow> xdp_request \<Rightarrow> xdp_error + xdp_request" where
  "add_listeners config [] r = Inr r"
| "add_listeners config (l # ls) r = bind_res (add_listener config l r) (add_listeners config ls)"

definition collect_request :: "proxy_config \<Rightarrow> xdp_error + xdp_request" where
  "collect_request config =
     bind_res (add_listeners config (concat (map concrete_listeners (px_listeners config))) xdp_request_empty) (\<lambda>r.
       Inr (case xr_icmp_flood_policy r of
              None \<Rightarrow> r
            | Some policy \<Rightarrow> r\<lparr>xr_listeners := xr_listeners r @
                [\<lparr>xl_listener_key = ''icmp/*:0'', xl_l4_proto = xdp_proto_icmp, xl_port = 0, xl_policy = policy\<rparr>]\<rparr>))"

section \<open>Keys of the kernel maps\<close>

text \<open>
  The filter runs on little-endian machines: \<open>to_be\<close> swaps the two bytes of a port and
  \<open>to_ne_bytes\<close> writes the low byte first.
\<close>

definition swap16 :: "u16 \<Rightarrow> u16" where
  "swap16 w = from_be (rev (to_be 2 w))"

definition ne_bytes :: "nat \<Rightarrow> 'n::len word \<Rightarrow> u8 list" where
  "ne_bytes n w = rev (to_be n w)"

definition from_ne_bytes :: "u8 list \<Rightarrow> 'n::len word" where
  "from_ne_bytes bs = from_be (rev bs)"

record xdp_listener_key =
  lk_l4_proto :: u8
  lk_pad :: u8
  lk_dport :: u16

record xdp_ip_key =
  ik_family :: u8
  ik_l4_proto :: u8
  ik_dport :: u16
  ik_src :: "u8 list"

record xdp_lpm_key =
  pk_prefix_len :: u32
  pk_family :: u8
  pk_l4_proto :: u8
  pk_dport :: u16
  pk_addr :: "u8 list"

record xdp_geo_lpm_key =
  gk_prefix_len :: u32
  gk_family :: u8
  gk_pad :: "u8 list"
  gk_addr :: "u8 list"

definition make_listener_key :: "u8 \<Rightarrow> u16 \<Rightarrow> xdp_listener_key" where
  "make_listener_key l4_proto port = \<lparr>lk_l4_proto = l4_proto, lk_pad = 0, lk_dport = swap16 port\<rparr>"

definition addr_family :: "ip_addr \<Rightarrow> u8" where
  "addr_family ip = (case ip of V4 _ \<Rightarrow> 4 | V6 _ \<Rightarrow> 6)"

text \<open>The 16 bytes of an address; an IPv4 address fills the first four.\<close>

definition addr_bytes :: "ip_addr \<Rightarrow> u8 list" where
  "addr_bytes ip = (case ip of V4 a \<Rightarrow> to_be 4 a @ replicate 12 0 | V6 a \<Rightarrow> to_be 16 a)"

definition make_ip_key :: "u8 \<Rightarrow> u16 \<Rightarrow> ip_addr \<Rightarrow> xdp_ip_key" where
  "make_ip_key l4_proto port ip =
     \<lparr>ik_family = addr_family ip, ik_l4_proto = l4_proto, ik_dport = swap16 port, ik_src = addr_bytes ip\<rparr>"

text \<open>\<open>32 + prefix\<close> is an addition of bytes; a prefix is at most 128.\<close>

definition make_lpm_key :: "u8 \<Rightarrow> u16 \<Rightarrow> ip_addr \<Rightarrow> u8 \<Rightarrow> xdp_lpm_key" where
  "make_lpm_key l4_proto port addr prefix =
     \<lparr>pk_prefix_len = ucast (32 + prefix), pk_family = addr_family addr, pk_l4_proto = l4_proto, pk_dport = swap16 port,
      pk_addr = addr_bytes addr\<rparr>"

definition make_geo_lpm_key :: "ip_addr \<Rightarrow> u8 \<Rightarrow> xdp_geo_lpm_key" where
  "make_geo_lpm_key addr prefix =
     \<lparr>gk_prefix_len = ucast (32 + prefix), gk_family = addr_family addr, gk_pad = [0, 0, 0], gk_addr = addr_bytes addr\<rparr>"

definition encode_lpm_key_bytes :: "xdp_lpm_key \<Rightarrow> u8 list" where
  "encode_lpm_key_bytes key =
     ne_bytes 4 (pk_prefix_len key) @ [pk_family key, pk_l4_proto key] @ ne_bytes 2 (pk_dport key) @ pk_addr key"

definition encode_geo_lpm_key_bytes :: "xdp_geo_lpm_key \<Rightarrow> u8 list" where
  "encode_geo_lpm_key_bytes key =
     ne_bytes 4 (gk_prefix_len key) @ [gk_family key] @ gk_pad key @ gk_addr key"

definition decode_lpm_key_bytes :: "u8 list \<Rightarrow> xdp_error + xdp_lpm_key" where
  "decode_lpm_key_bytes raw =
     (if length raw \<noteq> 24 then Inl (XdpKeyLength (length raw))
      else Inr \<lparr>pk_prefix_len = from_ne_bytes (take 4 raw), pk_family = raw ! 4, pk_l4_proto = raw ! 5,
        pk_dport = from_ne_bytes (take 2 (drop 6 raw)), pk_addr = take 16 (drop 8 raw)\<rparr>)"

definition decode_geo_lpm_key_bytes :: "u8 list \<Rightarrow> xdp_error + xdp_geo_lpm_key" where
  "decode_geo_lpm_key_bytes raw =
     (if length raw \<noteq> 24 then Inl (XdpKeyLength (length raw))
      else Inr \<lparr>gk_prefix_len = from_ne_bytes (take 4 raw), gk_family = raw ! 4, gk_pad = take 3 (drop 5 raw),
        gk_addr = take 16 (drop 8 raw)\<rparr>)"

record xdp_listener_policy =
  lp_flags :: u64
  lp_packets_per_second :: u32
  lp_burst :: u32
  lp_udp_flood_packets_per_second :: u32
  lp_udp_flood_burst :: u32
  lp_tcp_flood_packets_per_second :: u32
  lp_tcp_flood_burst :: u32
  lp_tcp_syn_flood_packets_per_second :: u32
  lp_tcp_syn_flood_burst :: u32
  lp_tcp_ack_flood_packets_per_second :: u32
  lp_tcp_ack_flood_burst :: u32
  lp_icmp_flood_packets_per_second :: u32
  lp_icmp_flood_burst :: u32
  lp_geo_allow :: "u64 list"
  lp_geo_deny :: "u64 list"

definition encode_listener_policy :: "xdp_listener_policy_spec \<Rightarrow> xdp_listener_policy" where
  "encode_listener_policy p =
     \<lparr>lp_flags = ps_flags p, lp_packets_per_second = ps_packets_per_second p, lp_burst = ps_burst p,
      lp_udp_flood_packets_per_second = ps_udp_flood_packets_per_second p, lp_udp_flood_burst = ps_udp_flood_burst p,
      lp_tcp_flood_packets_per_second = ps_tcp_flood_packets_per_second p, lp_tcp_flood_burst = ps_tcp_flood_burst p,
      lp_tcp_syn_flood_packets_per_second = ps_tcp_syn_flood_packets_per_second p,
      lp_tcp_syn_flood_burst = ps_tcp_syn_flood_burst p,
      lp_tcp_ack_flood_packets_per_second = ps_tcp_ack_flood_packets_per_second p,
      lp_tcp_ack_flood_burst = ps_tcp_ack_flood_burst p,
      lp_icmp_flood_packets_per_second = ps_icmp_flood_packets_per_second p, lp_icmp_flood_burst = ps_icmp_flood_burst p,
      lp_geo_allow = ps_geo_allow p, lp_geo_deny = ps_geo_deny p\<rparr>"

section \<open>The plan of a synchronisation\<close>

record xdp_static_keys =
  sk_listener_policies :: "xdp_listener_key list"
  sk_allow_cidrs :: "u8 list list"
  sk_deny_cidrs :: "u8 list list"
  sk_trusted_cidrs :: "u8 list list"
  sk_geo_cidrs :: "u8 list list"

definition xdp_static_keys_empty :: xdp_static_keys where
  "xdp_static_keys_empty = \<lparr>sk_listener_policies = [], sk_allow_cidrs = [], sk_deny_cidrs = [], sk_trusted_cidrs = [],
     sk_geo_cidrs = []\<rparr>"

text \<open>The derived order of \<open>XdpListenerKey\<close> compares the fields one after the other.\<close>

definition listener_key_order :: "xdp_listener_key \<Rightarrow> u8 \<times> u8 \<times> u16" where
  "listener_key_order k = (lk_l4_proto k, lk_pad k, lk_dport k)"

definition insert_listener_key :: "xdp_listener_key \<Rightarrow> xdp_listener_key list \<Rightarrow> xdp_listener_key list" where
  "insert_listener_key k ks = (if k \<in> set ks then ks else insort_key listener_key_order k ks)"

definition spec_lpm_key :: "xdp_listener_spec \<Rightarrow> ip_addr \<Rightarrow> u8 \<Rightarrow> xdp_lpm_key" where
  "spec_lpm_key spec addr prefix = make_lpm_key (xl_l4_proto spec) (xl_port spec) addr prefix"

definition cidr_keys :: "xdp_listener_spec \<Rightarrow> xdp_cidr_prefix list \<Rightarrow> xdp_lpm_key list" where
  "cidr_keys spec cidrs = map (\<lambda>c. spec_lpm_key spec (xp_addr c) (xp_prefix c)) cidrs"

definition threat_keys :: "xdp_listener_spec \<Rightarrow> threat_ip_prefix list \<Rightarrow> xdp_lpm_key list" where
  "threat_keys spec prefixes =
     (if ps_threat_intel (xl_policy spec) then map (\<lambda>p. spec_lpm_key spec (tp_addr p) (tp_prefix p)) prefixes else [])"

definition xdp_geo_enabled :: "xdp_listener_spec list \<Rightarrow> bool" where
  "xdp_geo_enabled listeners = list_ex (\<lambda>spec. ps_flags (xl_policy spec) AND xdp_policy_geo_enabled \<noteq> 0) listeners"

definition add_spec_keys :: "threat_ip_prefix list \<Rightarrow> xdp_listener_spec \<Rightarrow> xdp_static_keys \<Rightarrow> xdp_static_keys" where
  "add_spec_keys threat spec keys =
     (let p = xl_policy spec
      in keys\<lparr>sk_listener_policies :=
               insert_listener_key (make_listener_key (xl_l4_proto spec) (xl_port spec)) (sk_listener_policies keys),
              sk_trusted_cidrs := btree_extend (map encode_lpm_key_bytes (cidr_keys spec (ps_trusted_cidrs p))) (sk_trusted_cidrs keys),
              sk_allow_cidrs := btree_extend (map encode_lpm_key_bytes (cidr_keys spec (ps_allow_cidrs p))) (sk_allow_cidrs keys),
              sk_deny_cidrs := btree_extend (map encode_lpm_key_bytes (cidr_keys spec (ps_deny_cidrs p) @ threat_keys spec threat))
                (sk_deny_cidrs keys)\<rparr>)"

definition geo_keys :: "xdp_listener_spec list \<Rightarrow> geo_ip_prefix list \<Rightarrow> xdp_geo_lpm_key list" where
  "geo_keys listeners prefixes =
     (if xdp_geo_enabled listeners then map (\<lambda>p. make_geo_lpm_key (gp_addr p) (gp_prefix p)) prefixes else [])"

definition build_xdp_static_keys ::
  "xdp_listener_spec list \<Rightarrow> geo_ip_prefix list \<Rightarrow> threat_ip_prefix list \<Rightarrow> xdp_static_keys" where
  "build_xdp_static_keys listeners geo threat =
     (let keys = fold (add_spec_keys threat) listeners xdp_static_keys_empty
      in keys\<lparr>sk_geo_cidrs := btree_extend (map encode_geo_lpm_key_bytes (geo_keys listeners geo)) (sk_geo_cidrs keys)\<rparr>)"

text \<open>What is fed to the hasher, in order.\<close>

record fingerprint_input =
  fi_specs :: "(xdp_listener_spec \<times> threat_ip_prefix list) list"
  fi_geo :: "geo_ip_prefix list"
  fi_keys :: xdp_static_keys

record xdp_static_plan =
  sp_keys :: xdp_static_keys
  sp_fingerprint :: u64

definition build_static_sync_plan ::
  "(fingerprint_input \<Rightarrow> u64) \<Rightarrow> xdp_listener_spec list \<Rightarrow> geo_ip_prefix list \<Rightarrow> threat_ip_prefix list \<Rightarrow> xdp_static_plan" where
  "build_static_sync_plan hasher listeners geo threat =
     (let keys = build_xdp_static_keys listeners geo threat
      in \<lparr>sp_keys = keys, sp_fingerprint = hasher
           \<lparr>fi_specs = map (\<lambda>spec. (spec, if ps_threat_intel (xl_policy spec) then threat else [])) listeners,
            fi_geo = (if xdp_geo_enabled listeners then geo else []), fi_keys = keys\<rparr>\<rparr>)"

section \<open>Capacity of the maps\<close>

definition xdp_deny_cidrs_default_max_entries :: u32 where "xdp_deny_cidrs_default_max_entries = 65536"
definition xdp_geo_cidrs_default_max_entries :: u32 where "xdp_geo_cidrs_default_max_entries = 262144"

text \<open>\<open>u32::checked_next_power_of_two\<close>.\<close>

fun checked_next_power :: "nat \<Rightarrow> nat \<Rightarrow> nat \<Rightarrow> nat option" where
  "checked_next_power 0 p n = None"
| "checked_next_power (Suc bits) p n = (if n \<le> p then Some p else checked_next_power bits (2 * p) n)"

definition checked_next_power_of_two :: "u32 \<Rightarrow> u32 option" where
  "checked_next_power_of_two v = map_option word_of_nat (checked_next_power 32 1 (unat v))"

definition saturating_mul_2 :: "u32 \<Rightarrow> u32" where
  "saturating_mul_2 v = word_of_nat (min (2 * unat v) (2 ^ 32 - 1))"

definition desired_xdp_map_entries :: "nat \<Rightarrow> u32 \<Rightarrow> u32 \<Rightarrow> bool \<Rightarrow> xdp_error + u32" where
  "desired_xdp_map_entries required_entries default_entries max_entries auto_size =
     (if required_entries \<ge> 2 ^ 32 then Inl XdpTooManyEntries
      else let required = word_of_nat required_entries :: u32
           in if max_entries < default_entries then Inl XdpMaxBelowDefault
              else if required > default_entries \<and> \<not> auto_size then Inl XdpNeedsAutoSize
              else if required > max_entries then Inl XdpMaxExceeded
              else if \<not> auto_size then Inr default_entries
              else if required \<le> default_entries then Inr default_entries
              else Inr (max (min (case checked_next_power_of_two (saturating_mul_2 required) of
                                    Some p \<Rightarrow> p | None \<Rightarrow> max_entries) max_entries) default_entries))"

record xdp_map_capacities =
  mc_deny_cidrs :: u32
  mc_geo_cidrs :: u32

definition compute_xdp_map_capacities ::
  "xdp_listener_spec list \<Rightarrow> geo_ip_prefix list \<Rightarrow> threat_ip_prefix list \<Rightarrow> xdp_map_sizing \<Rightarrow> xdp_error + xdp_map_capacities" where
  "compute_xdp_map_capacities listeners geo threat sizing =
     (let keys = build_xdp_static_keys listeners geo threat
      in bind_res (desired_xdp_map_entries (length (sk_deny_cidrs keys)) xdp_deny_cidrs_default_max_entries
           (xz_max_deny_cidrs_entries sizing) (xz_auto_size_maps sizing)) (\<lambda>deny.
         bind_res (desired_xdp_map_entries (length (sk_geo_cidrs keys)) xdp_geo_cidrs_default_max_entries
           (xz_max_geo_cidrs_entries sizing) (xz_auto_size_maps sizing)) (\<lambda>geo_cap.
           Inr \<lparr>mc_deny_cidrs = deny, mc_geo_cidrs = geo_cap\<rparr>)))"

section \<open>The maps of the kernel\<close>

text \<open>
  Hash tables, longest-prefix tables and what the program keeps about them.  The contents of a
  prefix table are listed under one key per node.
\<close>

record kernel_maps =
  km_blocked_ips :: "(xdp_ip_key, u64) hmap"
  km_listener_policies :: "(xdp_listener_key, xdp_listener_policy) hmap"
  km_allow_cidrs :: "(xdp_lpm_key, u8) hmap"
  km_deny_cidrs :: "(xdp_lpm_key, u8) hmap"
  km_trusted_cidrs :: "(xdp_lpm_key, u8) hmap"
  km_geo_cidrs :: "(xdp_geo_lpm_key, u16) hmap"

text \<open>
  The kernel: whether the \<open>n\<close>-th map operation succeeds, and under which key the node of a
  prefix key is listed (a prefix table ignores the bits behind the prefix).
\<close>

record xdp_kernel =
  kn_ok :: "nat \<Rightarrow> bool"
  kn_node :: "xdp_lpm_key \<Rightarrow> xdp_lpm_key"
  kn_geo_node :: "xdp_geo_lpm_key \<Rightarrow> xdp_geo_lpm_key"

record aya_backend =
  xa_listeners :: "xdp_listener_spec list"
  xa_maps :: kernel_maps
  xa_keys :: xdp_static_keys
  xa_fingerprint :: "u64 option"
  xa_ops :: nat

type_synonym backend_step = "aya_backend \<Rightarrow> (xdp_error + unit) \<times> aya_backend"

definition step_ok :: backend_step where
  "step_ok b = (Inr (), b)"

definition step_then :: "backend_step \<Rightarrow> backend_step \<Rightarrow> backend_step" where
  "step_then f g b = (case f b of (Inl e, b') \<Rightarrow> (Inl e, b') | (Inr _, b') \<Rightarrow> g b')"

fun step_each :: "('a \<Rightarrow> backend_step) \<Rightarrow> 'a list \<Rightarrow> backend_step" where
  "step_each f [] = step_ok"
| "step_each f (x # xs) = step_then (f x) (step_each f xs)"

text \<open>One map operation; it can fail, and removing an absent key fails.\<close>

definition map_op :: "xdp_kernel \<Rightarrow> (kernel_maps \<Rightarrow> kernel_maps option) \<Rightarrow> backend_step" where
  "map_op kn f b =
     (let b' = b\<lparr>xa_ops := Suc (xa_ops b)\<rparr>
      in if \<not> kn_ok kn (xa_ops b) then (Inl XdpKernel, b')
         else case f (xa_maps b) of None \<Rightarrow> (Inl XdpMissingKey, b') | Some m \<Rightarrow> (Inr (), b'\<lparr>xa_maps := m\<rparr>))"

definition remove_present :: "'k \<Rightarrow> ('k, 'v) hmap \<Rightarrow> ('k, 'v) hmap option" where
  "remove_present k m = (if hm_get m k = None then None else Some (hm_remove k m))"

definition put_policy :: "xdp_kernel \<Rightarrow> xdp_listener_spec \<Rightarrow> backend_step" where
  "put_policy kn spec = map_op kn (\<lambda>m. Some (m\<lparr>km_listener_policies :=
     hm_insert (make_listener_key (xl_l4_proto spec) (xl_port spec)) (encode_listener_policy (xl_policy spec))
       (km_listener_policies m)\<rparr>))"

definition put_trusted :: "xdp_kernel \<Rightarrow> xdp_lpm_key \<Rightarrow> backend_step" where
  "put_trusted kn key = map_op kn (\<lambda>m. Some (m\<lparr>km_trusted_cidrs := hm_insert (kn_node kn key) 1 (km_trusted_cidrs m)\<rparr>))"

definition put_allow :: "xdp_kernel \<Rightarrow> xdp_lpm_key \<Rightarrow> backend_step" where
  "put_allow kn key = map_op kn (\<lambda>m. Some (m\<lparr>km_allow_cidrs := hm_insert (kn_node kn key) 1 (km_allow_cidrs m)\<rparr>))"

definition put_deny :: "xdp_kernel \<Rightarrow> xdp_lpm_key \<Rightarrow> backend_step" where
  "put_deny kn key = map_op kn (\<lambda>m. Some (m\<lparr>km_deny_cidrs := hm_insert (kn_node kn key) 1 (km_deny_cidrs m)\<rparr>))"

definition put_geo :: "xdp_kernel \<Rightarrow> geo_ip_prefix \<Rightarrow> backend_step" where
  "put_geo kn p = map_op kn (\<lambda>m. Some (m\<lparr>km_geo_cidrs :=
     hm_insert (kn_geo_node kn (make_geo_lpm_key (gp_addr p) (gp_prefix p))) (gp_country p) (km_geo_cidrs m)\<rparr>))"

definition sync_spec :: "xdp_kernel \<Rightarrow> threat_ip_prefix list \<Rightarrow> xdp_listener_spec \<Rightarrow> backend_step" where
  "sync_spec kn threat spec =
     step_then (put_policy kn spec)
    (step_then (step_each (put_trusted kn) (cidr_keys spec (ps_trusted_cidrs (xl_policy spec))))
    (step_then (step_each (put_allow kn) (cidr_keys spec (ps_allow_cidrs (xl_policy spec))))
    (step_then (step_each (put_deny kn) (cidr_keys spec (ps_deny_cidrs (xl_policy spec))))
       (step_each (put_deny kn) (threat_keys spec threat)))))"

definition difference :: "'a list \<Rightarrow> 'a list \<Rightarrow> 'a list" where
  "difference current next = filter (\<lambda>k. k \<notin> set next) current"

definition delete_stale_hash_keys :: "xdp_kernel \<Rightarrow> xdp_listener_key list \<Rightarrow> xdp_listener_key list \<Rightarrow> backend_step" where
  "delete_stale_hash_keys kn current next = step_each (\<lambda>key. map_op kn (\<lambda>m.
     map_option (\<lambda>p. m\<lparr>km_listener_policies := p\<rparr>) (remove_present key (km_listener_policies m)))) (difference current next)"

text \<open>
  \<open>delete_stale_lpm_keys\<close> for one of the three tables of listener keys: \<open>tab\<close> reads it, \<open>put\<close> writes it.
\<close>

definition delete_stale_lpm_keys ::
  "xdp_kernel \<Rightarrow> (kernel_maps \<Rightarrow> (xdp_lpm_key, u8) hmap) \<Rightarrow> ((xdp_lpm_key, u8) hmap \<Rightarrow> kernel_maps \<Rightarrow> kernel_maps)
   \<Rightarrow> u8 list list \<Rightarrow> u8 list list \<Rightarrow> backend_step" where
  "delete_stale_lpm_keys kn tab put current next = step_each (\<lambda>raw b.
     (case decode_lpm_key_bytes raw of
        Inl e \<Rightarrow> (Inl e, b)
      | Inr key \<Rightarrow> map_op kn (\<lambda>m. map_option (\<lambda>t. put t m) (remove_present (kn_node kn key) (tab m))) b))
     (difference current next)"

definition delete_stale_geo_lpm_keys :: "xdp_kernel \<Rightarrow> u8 list list \<Rightarrow> u8 list list \<Rightarrow> backend_step" where
  "delete_stale_geo_lpm_keys kn current next = step_each (\<lambda>raw b.
     (case decode_geo_lpm_key_bytes raw of
        Inl e \<Rightarrow> (Inl e, b)
      | Inr key \<Rightarrow> map_op kn (\<lambda>m.
          map_option (\<lambda>t. m\<lparr>km_geo_cidrs := t\<rparr>) (remove_present (kn_geo_node kn key) (km_geo_cidrs m))) b))
     (difference current next)"

definition delete_stale_static_keys :: "xdp_kernel \<Rightarrow> xdp_static_plan \<Rightarrow> backend_step" where
  "delete_stale_static_keys kn plan b =
     (let old = xa_keys b; new = sp_keys plan
      in step_then (delete_stale_hash_keys kn (sk_listener_policies old) (sk_listener_policies new))
        (step_then (delete_stale_lpm_keys kn km_allow_cidrs (\<lambda>t m. m\<lparr>km_allow_cidrs := t\<rparr>) (sk_allow_cidrs old) (sk_allow_cidrs new))
        (step_then (delete_stale_lpm_keys kn km_deny_cidrs (\<lambda>t m. m\<lparr>km_deny_cidrs := t\<rparr>) (sk_deny_cidrs old) (sk_deny_cidrs new))
        (step_then (delete_stale_lpm_keys kn km_trusted_cidrs (\<lambda>t m. m\<lparr>km_trusted_cidrs := t\<rparr>) (sk_trusted_cidrs old) (sk_trusted_cidrs new))
        (step_then (delete_stale_geo_lpm_keys kn (sk_geo_cidrs old) (sk_geo_cidrs new))
          (\<lambda>b. (Inr (), b\<lparr>xa_keys := new, xa_fingerprint := Some (sp_fingerprint plan)\<rparr>)))))) b)"

definition sync_static_policy_prefixes ::
  "xdp_kernel \<Rightarrow> (fingerprint_input \<Rightarrow> u64) \<Rightarrow> geo_ip_prefix list \<Rightarrow> threat_ip_prefix list \<Rightarrow> backend_step" where
  "sync_static_policy_prefixes kn hasher geo threat b =
     (let plan = build_static_sync_plan hasher (xa_listeners b) geo threat
      in if xa_fingerprint b = Some (sp_fingerprint plan) then (Inr (), b)
         else step_then (step_each (sync_spec kn threat) (xa_listeners b))
             (step_then (if xdp_geo_enabled (xa_listeners b) then step_each (put_geo kn) geo else step_ok)
               (delete_stale_static_keys kn plan)) b)"

definition aya_sync_static_policy ::
  "xdp_kernel \<Rightarrow> (fingerprint_input \<Rightarrow> u64) \<Rightarrow> geo_snapshot option \<Rightarrow> threat_snapshot option \<Rightarrow> backend_step" where
  "aya_sync_static_policy kn hasher geo threat =
     sync_static_policy_prefixes kn hasher (case geo of None \<Rightarrow> [] | Some g \<Rightarrow> xdp_prefixes g)
       (case threat of None \<Rightarrow> [] | Some t \<Rightarrow> threat_xdp_prefixes t)"

section \<open>Dynamic blocks\<close>

record xdp_block_key =
  xb_listener_key :: string
  xb_ip :: ip_addr

record xdp_block_entry =
  xbe_until :: instant
  xbe_reason :: string

type_synonym xdp_control_plane = "(xdp_block_key, xdp_block_entry) hmap"

definition control_plane_sync_ip_block ::
  "string \<Rightarrow> ip_addr \<Rightarrow> instant \<Rightarrow> string \<Rightarrow> xdp_control_plane \<Rightarrow> xdp_control_plane" where
  "control_plane_sync_ip_block lkey ip until reason =
     hm_insert \<lparr>xb_listener_key = lkey, xb_ip = ip\<rparr> \<lparr>xbe_until = until, xbe_reason = reason\<rparr>"

definition control_plane_prune_expired :: "instant \<Rightarrow> xdp_control_plane \<Rightarrow> xdp_block_key list \<times> xdp_control_plane" where
  "control_plane_prune_expired now blocks =
     (let expired = map fst (filter (\<lambda>(_, entry). xbe_until entry \<le> now) blocks)
      in (expired, fold hm_remove expired blocks))"

definition specs_of :: "string \<Rightarrow> aya_backend \<Rightarrow> xdp_listener_spec list" where
  "specs_of lkey b = filter (\<lambda>spec. xl_listener_key spec = lkey) (xa_listeners b)"

text \<open>
  The table of blocked addresses is an LRU hash map of 65536 entries: to make room for a new entry
  the kernel drops entries of its choice.  \<open>evict\<close> is that choice for the insert of each listener.
\<close>

definition lru_insert :: "'k list \<Rightarrow> 'k \<Rightarrow> 'v \<Rightarrow> ('k, 'v) hmap \<Rightarrow> ('k, 'v) hmap" where
  "lru_insert evicted k v m = hm_insert k v (fold hm_remove evicted m)"

definition aya_sync_ip_block ::
  "xdp_kernel \<Rightarrow> (xdp_listener_spec \<Rightarrow> xdp_ip_key list) \<Rightarrow> string \<Rightarrow> ip_addr \<Rightarrow> backend_step" where
  "aya_sync_ip_block kn evict lkey ip b = step_each (\<lambda>spec. map_op kn (\<lambda>m. Some (m\<lparr>km_blocked_ips :=
     lru_insert (evict spec) (make_ip_key (xl_l4_proto spec) (xl_port spec) ip) 1 (km_blocked_ips m)\<rparr>))) (specs_of lkey b) b"

definition aya_remove_ip_block :: "xdp_kernel \<Rightarrow> xdp_block_key \<Rightarrow> backend_step" where
  "aya_remove_ip_block kn key b = step_each (\<lambda>spec. map_op kn (\<lambda>m.
     map_option (\<lambda>t. m\<lparr>km_blocked_ips := t\<rparr>)
       (remove_present (make_ip_key (xl_l4_proto spec) (xl_port spec) (xb_ip key)) (km_blocked_ips m))))
     (specs_of (xb_listener_key key) b) b"

definition clear_dynamic_blocklist :: "xdp_kernel \<Rightarrow> backend_step" where
  "clear_dynamic_blocklist kn b =
     step_each (\<lambda>key. map_op kn (\<lambda>m. map_option (\<lambda>t. m\<lparr>km_blocked_ips := t\<rparr>) (remove_present key (km_blocked_ips m))))
       (map fst (km_blocked_ips (xa_maps b))) b"

section \<open>The runtime\<close>

record xdp_runtime =
  xt_requested :: bool
  xt_sync_dynamic_ban :: bool
  xt_control_plane :: "xdp_control_plane option"
  xt_backend :: "aya_backend option"

text \<open>
  Blocking an address and pruning are sequences of steps, each under a lock of its own: the list of
  blocks first, then the table of the kernel, one key at a time.  Other tasks may run in between.
\<close>

definition xdp_list_ip_block :: "string \<Rightarrow> ip_addr \<Rightarrow> instant \<Rightarrow> string \<Rightarrow> xdp_runtime \<Rightarrow> xdp_runtime" where
  "xdp_list_ip_block lkey ip until reason r =
     r\<lparr>xt_control_plane := map_option (control_plane_sync_ip_block lkey ip until reason) (xt_control_plane r)\<rparr>"

definition xdp_write_ip_block ::
  "xdp_kernel \<Rightarrow> (xdp_listener_spec \<Rightarrow> xdp_ip_key list) \<Rightarrow> string \<Rightarrow> ip_addr \<Rightarrow> xdp_runtime \<Rightarrow> xdp_runtime" where
  "xdp_write_ip_block kn evict lkey ip r =
     r\<lparr>xt_backend := map_option (\<lambda>b. snd (aya_sync_ip_block kn evict lkey ip b)) (xt_backend r)\<rparr>"

definition xdp_sync_ip_block ::
  "xdp_kernel \<Rightarrow> (xdp_listener_spec \<Rightarrow> xdp_ip_key list) \<Rightarrow> string \<Rightarrow> ip_addr \<Rightarrow> instant \<Rightarrow> string \<Rightarrow> xdp_runtime \<Rightarrow> xdp_runtime" where
  "xdp_sync_ip_block kn evict lkey ip until reason r =
     (if \<not> xt_requested r \<or> \<not> xt_sync_dynamic_ban r then r
      else xdp_write_ip_block kn evict lkey ip (xdp_list_ip_block lkey ip until reason r))"

definition xdp_list_expired :: "instant \<Rightarrow> xdp_runtime \<Rightarrow> xdp_block_key list \<times> xdp_runtime" where
  "xdp_list_expired now r =
     (case xt_control_plane r of
        None \<Rightarrow> ([], r)
      | Some blocks \<Rightarrow> let (expired, blocks') = control_plane_prune_expired now blocks
                       in (expired, r\<lparr>xt_control_plane := Some blocks'\<rparr>))"

definition xdp_remove_ip_block :: "xdp_kernel \<Rightarrow> xdp_block_key \<Rightarrow> xdp_runtime \<Rightarrow> xdp_runtime" where
  "xdp_remove_ip_block kn key r =
     r\<lparr>xt_backend := map_option (\<lambda>b. snd (aya_remove_ip_block kn key b)) (xt_backend r)\<rparr>"

definition xdp_prune_expired :: "xdp_kernel \<Rightarrow> instant \<Rightarrow> xdp_runtime \<Rightarrow> xdp_runtime" where
  "xdp_prune_expired kn now r =
     (if \<not> xt_requested r then r
      else let (expired, r') = xdp_list_expired now r in fold (xdp_remove_ip_block kn) expired r')"

definition xdp_sync_static_policy ::
  "xdp_kernel \<Rightarrow> (fingerprint_input \<Rightarrow> u64) \<Rightarrow> geo_snapshot option \<Rightarrow> threat_snapshot option \<Rightarrow> xdp_runtime \<Rightarrow> xdp_runtime" where
  "xdp_sync_static_policy kn hasher geo threat r =
     r\<lparr>xt_backend := map_option (\<lambda>b. snd (aya_sync_static_policy kn hasher geo threat b)) (xt_backend r)\<rparr>"

section \<open>Attaching the filter\<close>

text \<open>What the system answers: files, mount table, routes, the \<open>ip\<close> command and the loader.\<close>

record xdp_system =
  sys_bpffs_exists :: bool
  sys_proc_mounts :: "string option"
  sys_dirs_ok :: bool
  sys_object_exists :: bool
  sys_pinned_entries :: "string \<Rightarrow> u32 option option"
  sys_unlink_ok :: "string \<Rightarrow> bool"
  sys_load_ok :: bool
  sys_routes :: "string option"
  sys_link_show :: "string \<Rightarrow> string option"
  sys_link_off :: "string \<Rightarrow> bool"
  sys_attach_driver :: "string \<Rightarrow> bool"
  sys_attach_skb :: "string \<Rightarrow> bool"

text \<open>\<open>str::replace\<close> of \<open>\040\<close> by a blank.\<close>

function replace_str :: "string \<Rightarrow> string \<Rightarrow> string \<Rightarrow> string" where
  "replace_str old new s =
     (case s of
        [] \<Rightarrow> []
      | c # r \<Rightarrow> if old \<noteq> [] \<and> starts_with s old then new @ replace_str old new (drop (length old) s)
                 else c # replace_str old new r)"
  by pat_completeness auto
termination
  by (relation "measure (\<lambda>(_, _, s). length s)") auto

declare replace_str.simps [simp del]

definition unescape_proc_mount_path :: "string \<Rightarrow> string" where
  "unescape_proc_mount_path path = replace_str [CHR 0x5C, CHR ''0'', CHR ''4'', CHR ''0''] '' '' path"

definition bpffs_mounted_in_proc_mounts :: "string \<Rightarrow> string \<Rightarrow> bool" where
  "bpffs_mounted_in_proc_mounts mounts path =
     list_ex (\<lambda>line. let fields = split_whitespace line
        in length fields \<ge> 3 \<and> unescape_proc_mount_path (fields ! 1) = path \<and> fields ! 2 = ''bpf'') (str_lines mounts)"

definition ensure_bpffs_mounted :: "xdp_system \<Rightarrow> xdp_error + unit" where
  "ensure_bpffs_mounted sys =
     (if \<not> sys_bpffs_exists sys then Inl XdpNoBpffs
      else case sys_proc_mounts sys of
             None \<Rightarrow> Inl XdpNoBpffs
           | Some mounts \<Rightarrow>
               if \<not> bpffs_mounted_in_proc_mounts mounts ''/sys/fs/bpf'' \<or> \<not> sys_dirs_ok sys then Inl XdpNoBpffs else Inr ())"

definition default_route_interfaces :: "string option \<Rightarrow> xdp_error + string list" where
  "default_route_interfaces routes =
     (case routes of
        None \<Rightarrow> Inl XdpNoInterface
      | Some txt \<Rightarrow>
          let found = concat (map (\<lambda>line. let fields = split_whitespace line
                in if length fields > 2 \<and> fields ! 1 = ''00000000'' then [fields ! 0] else []) (drop 1 (str_lines txt)));
              interfaces = remdups_adj (sort found)
          in if interfaces = [] then Inl XdpNoInterface else Inr interfaces)"

definition resolve_interfaces :: "xdp_system \<Rightarrow> string list \<Rightarrow> xdp_error + string list" where
  "resolve_interfaces sys interfaces =
     (if interfaces \<noteq> [] then Inr interfaces else default_route_interfaces (sys_routes sys))"

definition detach_one :: "xdp_system \<Rightarrow> string \<Rightarrow> xdp_error + unit" where
  "detach_one sys interface =
     (case sys_link_show sys interface of
        None \<Rightarrow> Inl (XdpIpCommand interface)
      | Some out \<Rightarrow>
          if \<not> contains_str out ''prog/xdp'' \<or> \<not> contains_str out ''name sigproxy_xdp'' then Inr ()
          else if sys_link_off sys interface then Inr () else Inl (XdpIpCommand interface))"

definition detach_stale_sigproxy_xdp :: "xdp_system \<Rightarrow> string list \<Rightarrow> xdp_error + unit" where
  "detach_stale_sigproxy_xdp sys interfaces = for_each (detach_one sys) interfaces"

definition attach_xdp_program :: "xdp_system \<Rightarrow> string \<Rightarrow> xdp_error + string" where
  "attach_xdp_program sys interface =
     (if sys_attach_driver sys interface then Inr ''driver''
      else if sys_attach_skb sys interface then Inr ''skb'' else Inl (XdpAttach interface))"

definition attach_interfaces :: "xdp_system \<Rightarrow> string list \<Rightarrow> xdp_error + unit" where
  "attach_interfaces sys interfaces =
     for_each (\<lambda>i. bind_res (attach_xdp_program sys i) (\<lambda>_. Inr ())) interfaces"

text \<open>
  The outer option of the pinned entries is the pinned file, the inner one the answer about it.
  A pinned map that is too small is removed, so its contents are gone.
\<close>

definition prepare_pinned_map_capacity :: "xdp_system \<Rightarrow> string \<Rightarrow> u32 \<Rightarrow> xdp_error + bool" where
  "prepare_pinned_map_capacity sys name required =
     (case sys_pinned_entries sys name of
        None \<Rightarrow> Inr False
      | Some None \<Rightarrow> Inl XdpKernel
      | Some (Some current) \<Rightarrow>
          if current \<ge> required then Inr False
          else if sys_unlink_ok sys name then Inr True else Inl XdpKernel)"

definition aya_attach ::
  "xdp_kernel \<Rightarrow> (fingerprint_input \<Rightarrow> u64) \<Rightarrow> xdp_system \<Rightarrow> kernel_maps \<Rightarrow> string list \<Rightarrow> xdp_listener_spec list
   \<Rightarrow> geo_snapshot option \<Rightarrow> threat_snapshot option \<Rightarrow> bool \<Rightarrow> xdp_map_sizing \<Rightarrow> xdp_error + aya_backend" where
  "aya_attach kn hasher sys pinned interfaces listeners geo threat detach_stale sizing =
     (let geo_prefixes = (case geo of None \<Rightarrow> [] | Some g \<Rightarrow> xdp_prefixes g);
          threat_prefixes = (case threat of None \<Rightarrow> [] | Some t \<Rightarrow> threat_xdp_prefixes t)
      in bind_res (ensure_bpffs_mounted sys) (\<lambda>_.
         if \<not> sys_object_exists sys then Inl XdpNoObject
         else bind_res (compute_xdp_map_capacities listeners geo_prefixes threat_prefixes sizing) (\<lambda>cap.
         bind_res (prepare_pinned_map_capacity sys ''deny_cidrs'' (mc_deny_cidrs cap)) (\<lambda>deny_gone.
         bind_res (prepare_pinned_map_capacity sys ''geo_cidrs'' (mc_geo_cidrs cap)) (\<lambda>geo_gone.
         if \<not> sys_load_ok sys then Inl XdpKernel
         else let maps = pinned\<lparr>km_deny_cidrs := (if deny_gone then hm_empty else km_deny_cidrs pinned),
                                km_geo_cidrs := (if geo_gone then hm_empty else km_geo_cidrs pinned)\<rparr>;
                  b = \<lparr>xa_listeners = listeners, xa_maps = maps, xa_keys = xdp_static_keys_empty, xa_fingerprint = None,
                       xa_ops = 0\<rparr>
              in (case step_then (clear_dynamic_blocklist kn)
                         (sync_static_policy_prefixes kn hasher geo_prefixes threat_prefixes) b of
                    (Inl e, _) \<Rightarrow> Inl e
                  | (Inr _, b') \<Rightarrow>
                      bind_res (resolve_interfaces sys interfaces) (\<lambda>resolved.
                      bind_res (if detach_stale then detach_stale_sigproxy_xdp sys resolved else Inr ()) (\<lambda>_.
                      bind_res (attach_interfaces sys resolved) (\<lambda>_. Inr b')))))))))"

definition xdp_runtime_new ::
  "xdp_kernel \<Rightarrow> (fingerprint_input \<Rightarrow> u64) \<Rightarrow> xdp_system \<Rightarrow> kernel_maps \<Rightarrow> proxy_config \<Rightarrow> geo_snapshot option
   \<Rightarrow> threat_snapshot option \<Rightarrow> xdp_error + xdp_runtime" where
  "xdp_runtime_new kn hasher sys pinned config geo threat =
     bind_res (collect_request config) (\<lambda>r.
     bind_res (if \<not> xr_requested r then Inr None
               else case aya_attach kn hasher sys pinned (xr_interfaces r) (xr_listeners r) geo threat (xr_detach_stale r)
                           (xr_map_sizing r) of
                      Inr b \<Rightarrow> Inr (Some b)
                    | Inl e \<Rightarrow> if xr_fail_closed r then Inl XdpFailClosed else Inr None) (\<lambda>backend.
       Inr \<lparr>xt_requested = xr_requested r, xt_sync_dynamic_ban = xr_sync_dynamic_ban r,
            xt_control_plane = (if xr_requested r then Some hm_empty else None), xt_backend = backend\<rparr>))"

definition render_interfaces :: "string list \<Rightarrow> string" where
  "render_interfaces interfaces =
     (if interfaces = [] then ''auto'' else concat (map (\<lambda>i. i @ '','') (butlast interfaces)) @ last interfaces)"

section \<open>The decision of the filter\<close>

text \<open>
  \<open>country_bit_is_set\<close> and the part of \<open>evaluate_packet\<close> before the rate limits.  \<open>has\<close> and
  \<open>geo\<close> stand for the look-up of a prefix table, which is the kernel's.
\<close>

definition country_bit_is_set :: "u64 list \<Rightarrow> u16 \<Rightarrow> bool" where
  "country_bit_is_set bits country =
     (let first = unat (drop_bit 8 country); second = unat (country AND 0xFF)
      in if first < 65 \<or> first > 90 \<or> second < 65 \<or> second > 90 then False
         else let n = (first - 65) * 26 + (second - 65); word = n div 64
              in if word \<ge> xdp_country_words then False else bit (bits ! word) (n mod 64))"

datatype filter_verdict = FilterPass | FilterDrop | FilterRate

definition evaluate_packet ::
  "((xdp_lpm_key, u8) hmap \<Rightarrow> xdp_lpm_key \<Rightarrow> bool) \<Rightarrow> ((xdp_geo_lpm_key, u16) hmap \<Rightarrow> xdp_geo_lpm_key \<Rightarrow> u16 option)
   \<Rightarrow> kernel_maps \<Rightarrow> u8 \<Rightarrow> u16 \<Rightarrow> ip_addr \<Rightarrow> filter_verdict" where
  "evaluate_packet has geo m proto port ip =
     (let lpm = make_lpm_key proto port ip (max_prefix ip)
      in case hm_get (km_listener_policies m) (make_listener_key proto port) of
           None \<Rightarrow> FilterPass
         | Some policy \<Rightarrow>
             if has (km_deny_cidrs m) lpm then FilterDrop
             else if lp_flags policy AND xdp_policy_cidr_allow_enabled \<noteq> 0 \<and> \<not> has (km_allow_cidrs m) lpm then FilterDrop
             else if has (km_trusted_cidrs m) lpm then FilterPass
             else if hm_get (km_blocked_ips m) (make_ip_key proto port ip) \<noteq> None then FilterDrop
             else if lp_flags policy AND xdp_policy_geo_enabled = 0 then FilterRate
             else (case geo (km_geo_cidrs m) (make_geo_lpm_key ip (max_prefix ip)) of
                     None \<Rightarrow> if lp_flags policy AND xdp_policy_geo_unknown_allow = 0 then FilterDrop else FilterRate
                   | Some country \<Rightarrow>
                       if country_bit_is_set (lp_geo_deny policy) country then FilterDrop
                       else if lp_flags policy AND xdp_policy_geo_allow_has_entries \<noteq> 0
                               \<and> \<not> country_bit_is_set (lp_geo_allow policy) country then FilterDrop
                       else FilterRate))"

end
