(* ===== verification/Xdp_Filter.thy ===== *)
theory Xdp_Filter
  imports Xdp
begin

text \<open>
  The keys and tables of the kernel filter.  Shown here: what a prefix key matches, that the keys
  survive encoding and decoding, that the settings read for the kernel mean what they mean in user
  space (prefixes and countries), what a successful synchronisation writes, and that it leaves
  exactly the wanted entries in every table that held exactly the entries wanted before.
\<close>

section \<open>Prefix keys\<close>

text \<open>
  A prefix table compares the first \<open>n\<close> bits of the bytes behind the prefix length, most
  significant bit first.
\<close>

definition prefix_match :: "nat \<Rightarrow> u8 list \<Rightarrow> u8 list \<Rightarrow> bool" where
  "prefix_match n a b \<longleftrightarrow> be_nat a div 2 ^ (8 * length a - n) = be_nat b div 2 ^ (8 * length b - n)"

definition lpm_data :: "xdp_lpm_key \<Rightarrow> u8 list" where
  "lpm_data k = [pk_family k, pk_l4_proto k] @ ne_bytes 2 (pk_dport k) @ pk_addr k"

definition geo_lpm_data :: "xdp_geo_lpm_key \<Rightarrow> u8 list" where
  "geo_lpm_data k = [gk_family k] @ gk_pad k @ gk_addr k"

definition lpm_matches :: "xdp_lpm_key \<Rightarrow> xdp_lpm_key \<Rightarrow> bool" where
  "lpm_matches k' k \<longleftrightarrow> prefix_match (unat (pk_prefix_len k')) (lpm_data k') (lpm_data k)"

definition geo_lpm_matches :: "xdp_geo_lpm_key \<Rightarrow> xdp_geo_lpm_key \<Rightarrow> bool" where
  "geo_lpm_matches k' k \<longleftrightarrow> prefix_match (unat (gk_prefix_len k')) (geo_lpm_data k') (geo_lpm_data k)"

lemma be_nat_append: "be_nat (a @ b) = be_nat a * 256 ^ length b + be_nat b"
proof (induction b rule: rev_induct)
  case (snoc x xs)
  have "be_nat (a @ xs @ [x]) = be_nat (a @ xs) * 256 + unat x"
    using be_nat_snoc [of "a @ xs" x] by simp
  then show ?case using snoc by (simp add: algebra_simps)
qed simp

lemma be_nat_inject: "length a = length b \<Longrightarrow> be_nat a = be_nat b \<longleftrightarrow> a = b"
  by (metis nat_be_be_nat)

lemma be_nat_zeros [simp]: "be_nat (replicate n 0) = 0"
proof (induction n)
  case (Suc n)
  then show ?case using be_nat_append [of "[0]" "replicate n 0"] by (simp add: be_nat_def)
qed simp

text \<open>A prefix that covers a header compares the header and a prefix of the rest.\<close>

lemma prefix_match_header:
  assumes "length h = length h'" "length a = length a'" "p \<le> 8 * length a"
  shows "prefix_match (8 * length h + p) (h @ a) (h' @ a') \<longleftrightarrow> h = h' \<and> prefix_match p a a'"
proof -
  let ?d = "8 * length a - p"
  have bound: "be_nat x div 2 ^ ?d < 2 ^ p" if "length x = length a" for x :: "u8 list"
  proof -
    have "be_nat x < 2 ^ (8 * length a)" using be_nat_less [of x] that by (simp add: power_mult)
    also have "\<dots> = 2 ^ p * 2 ^ ?d" using assms(3) by (simp flip: power_add)
    finally show ?thesis by (simp add: less_mult_imp_div_less)
  qed
  have split: "be_nat (g @ x) div 2 ^ ?d = be_nat g * 2 ^ p + be_nat x div 2 ^ ?d" if "length x = length a" for g x :: "u8 list"
  proof -
    have "be_nat (g @ x) = (be_nat g * 2 ^ p) * 2 ^ ?d + be_nat x"
      using assms(3) that by (simp add: be_nat_append mult.assoc power_mult flip: power_add)
    then show ?thesis by simp
  qed
  have "prefix_match (8 * length h + p) (h @ a) (h' @ a') \<longleftrightarrow>
      be_nat h * 2 ^ p + be_nat a div 2 ^ ?d = be_nat h' * 2 ^ p + be_nat a' div 2 ^ ?d"
    using assms(1,2) split [of a h] split [of a' h'] by (simp add: prefix_match_def)
  also have "\<dots> \<longleftrightarrow> be_nat h = be_nat h' \<and> be_nat a div 2 ^ ?d = be_nat a' div 2 ^ ?d"
  proof -
    have "(x * 2 ^ p + y) div 2 ^ p = x" "(x * 2 ^ p + y) mod 2 ^ p = y" if "y < 2 ^ p" for x y :: nat using that by simp_all
    then show ?thesis using bound [of a] bound [of a'] assms(2) by metis
  qed
  also have "\<dots> \<longleftrightarrow> h = h' \<and> prefix_match p a a'"
    using assms(1,2) by (simp add: be_nat_inject prefix_match_def)
  finally show ?thesis .
qed

lemma length_addr_bytes [simp]: "length (addr_bytes ip) = 16"
  by (cases ip) (simp_all add: addr_bytes_def)

lemma be_nat_to_be:
  assumes "LENGTH('n::len) \<le> 8 * k"
  shows "be_nat (to_be k (w :: 'n word)) = unat w"
proof -
  have "unat w < 2 ^ LENGTH('n)" by (rule unsigned_less)
  also have "\<dots> \<le> 2 ^ (8 * k)" using assms by (simp add: power_increasing)
  also have "\<dots> = 256 ^ k" by (simp add: power_mult)
  finally show ?thesis by (simp add: to_be_def be_nat_nat_be)
qed

lemma addr_prefix_match:
  assumes "p \<le> unat (max_prefix a)"
  shows "addr_family a = addr_family ip \<and> prefix_match p (addr_bytes a) (addr_bytes ip) \<longleftrightarrow> in_block a p ip"
proof -
  have v4: "be_nat (to_be 4 x @ replicate 12 0) div 2 ^ (128 - p) = unat x div 2 ^ (32 - p)" if "p \<le> 32" for x :: "32 word"
  proof -
    have "(2 :: nat) ^ (128 - p) = 2 ^ 96 * 2 ^ (32 - p)"
      using power_add [of "2 :: nat" 96 "32 - p"] that by simp
    moreover have "be_nat (to_be 4 x @ replicate 12 0) = unat x * 256 ^ 12"
      using be_nat_append [of "to_be 4 x" "replicate 12 0"] be_nat_to_be [of 4 x] by (simp only: be_nat_zeros length_replicate add_0_right) simp
    moreover have "(256 :: nat) ^ 12 = 2 ^ 96" by simp
    ultimately show ?thesis using div_mult2_eq [of "unat x * 2 ^ 96" "2 ^ 96" "2 ^ (32 - p)"] by simp
  qed
  show ?thesis
  proof (cases a; cases ip)
    fix x y assume "a = V4 x" "ip = V4 y"
    then show ?thesis using assms v4 by (simp add: addr_family_def addr_bytes_def prefix_match_def max_prefix_def)
  next
    fix x y assume "a = V6 x" "ip = V6 y"
    then show ?thesis by (simp add: addr_family_def addr_bytes_def prefix_match_def be_nat_to_be)
  qed (simp_all add: addr_family_def)
qed

lemma ne_bytes_swap16: "ne_bytes 2 (swap16 port) = to_be 2 port"
proof -
  have "to_be 2 (from_be (rev (to_be 2 port)) :: u16) = rev (to_be 2 port)"
    using to_be_from_be [of "rev (to_be 2 port)", where 'n = 16] by simp
  then show ?thesis by (simp add: ne_bytes_def swap16_def)
qed

lemma prefix_len: "p \<le> max_prefix a \<Longrightarrow> unat (ucast (32 + p :: u8) :: u32) = 32 + unat p"
proof -
  assume "p \<le> max_prefix a"
  then have "unat p \<le> 128" by (cases a) (simp_all add: max_prefix_def word_le_nat_alt)
  moreover from this have "unat (32 + p) = 32 + unat p" by (simp add: unat_word_ariths)
  ultimately show ?thesis by (simp add: unsigned_ucast_eq take_bit_eq_mod)
qed

lemma make_lpm_key_matches:
  assumes "p \<le> max_prefix a"
  shows "lpm_matches (make_lpm_key proto port a p) (make_lpm_key proto' port' ip q) \<longleftrightarrow>
    proto = proto' \<and> port = port' \<and> in_block a (unat p) ip"
proof -
  let ?h = "\<lambda>proto port ip. [addr_family ip, proto] @ to_be 2 port"
  have d: "lpm_data (make_lpm_key proto port a p) = ?h proto port a @ addr_bytes a" for proto port a p
    by (simp add: lpm_data_def make_lpm_key_def ne_bytes_swap16)
  have p: "unat p \<le> unat (max_prefix a)" using assms by (simp add: word_le_nat_alt)
  then have le: "unat p \<le> 8 * length (addr_bytes a)" by (cases a) (simp_all add: max_prefix_def)
  have "lpm_matches (make_lpm_key proto port a p) (make_lpm_key proto' port' ip q) \<longleftrightarrow>
      ?h proto port a = ?h proto' port' ip \<and> prefix_match (unat p) (addr_bytes a) (addr_bytes ip)"
    using prefix_match_header [OF _ _ le, of "?h proto port a" "?h proto' port' ip" "addr_bytes ip"]
    by (simp add: lpm_matches_def d) (simp add: make_lpm_key_def prefix_len [OF assms])
  also have "\<dots> \<longleftrightarrow> proto = proto' \<and> port = port' \<and> in_block a (unat p) ip"
    using addr_prefix_match [OF p, of ip] to_be_inject [of 2 port port'] by auto
  finally show ?thesis .
qed

lemma make_geo_lpm_key_matches:
  assumes "p \<le> max_prefix a"
  shows "geo_lpm_matches (make_geo_lpm_key a p) (make_geo_lpm_key ip q) \<longleftrightarrow> in_block a (unat p) ip"
proof -
  let ?h = "\<lambda>ip. [addr_family ip, 0, 0, 0]"
  have d: "geo_lpm_data (make_geo_lpm_key a p) = ?h a @ addr_bytes a" for a p
    by (simp add: geo_lpm_data_def make_geo_lpm_key_def)
  have p: "unat p \<le> unat (max_prefix a)" using assms by (simp add: word_le_nat_alt)
  then have le: "unat p \<le> 8 * length (addr_bytes a)" by (cases a) (simp_all add: max_prefix_def)
  have "geo_lpm_matches (make_geo_lpm_key a p) (make_geo_lpm_key ip q) \<longleftrightarrow>
      ?h a = ?h ip \<and> prefix_match (unat p) (addr_bytes a) (addr_bytes ip)"
    using prefix_match_header [OF _ _ le, of "?h a" "?h ip" "addr_bytes ip"]
    by (simp add: geo_lpm_matches_def d) (simp add: make_geo_lpm_key_def prefix_len [OF assms])
  then show ?thesis using addr_prefix_match [OF p, of ip] by auto
qed

lemma from_ne_bytes [simp]: "LENGTH('n::len) \<le> 8 * k \<Longrightarrow> from_ne_bytes (ne_bytes k (w :: 'n word)) = w"
  by (simp add: from_ne_bytes_def ne_bytes_def from_be_to_be)

lemma length_ne_bytes [simp]: "length (ne_bytes k w) = k"
  by (simp add: ne_bytes_def)

lemma decode_encode_lpm: "length (pk_addr k) = 16 \<Longrightarrow> decode_lpm_key_bytes (encode_lpm_key_bytes k) = Inr k"
  by (simp add: decode_lpm_key_bytes_def encode_lpm_key_bytes_def nth_append)

lemma decode_encode_geo:
  "length (gk_addr k) = 16 \<Longrightarrow> length (gk_pad k) = 3 \<Longrightarrow> decode_geo_lpm_key_bytes (encode_geo_lpm_key_bytes k) = Inr k"
  by (simp add: decode_geo_lpm_key_bytes_def encode_geo_lpm_key_bytes_def nth_append)

lemma made_key_lengths [simp]:
  "length (pk_addr (make_lpm_key proto port a p)) = 16" "length (pk_addr (spec_lpm_key spec a p)) = 16"
  "length (gk_addr (make_geo_lpm_key a p)) = 16" "length (gk_pad (make_geo_lpm_key a p)) = 3"
  by (simp_all add: make_lpm_key_def make_geo_lpm_key_def spec_lpm_key_def)

section \<open>Settings in user space and in the kernel\<close>

lemma parse_xdp_cidr_iff:
  "parse_xdp_cidr v = Inr c \<longleftrightarrow> cidr_parse v = Inr \<lparr>cidr_addr = xp_addr c, cidr_prefix = xp_prefix c\<rparr>"
  by (cases c) (auto simp: parse_xdp_cidr_def cidr_parse_def Let_def bind_res_Inr_iff split: option.splits if_splits prod.splits)

definition xdp_contains :: "xdp_cidr_prefix \<Rightarrow> ip_addr \<Rightarrow> bool" where
  "xdp_contains c ip \<longleftrightarrow> in_block (xp_addr c) (unat (xp_prefix c)) ip"

definition xdp_wf :: "xdp_cidr_prefix \<Rightarrow> bool" where
  "xdp_wf c \<longleftrightarrow> xp_prefix c \<le> max_prefix (xp_addr c)"

lemma parse_xdp_cidr_sound:
  assumes "parse_xdp_cidr v = Inr c" "cidr_parse v = Inr d"
  shows "xdp_wf c" "xdp_contains c ip \<longleftrightarrow> cidr_contains d ip"
  using assms cidr_parse_wf [of v d] cidr_contains_iff [of d ip]
  by (simp_all add: parse_xdp_cidr_iff xdp_wf_def cidr_wf_def xdp_contains_def)

lemma parse_xdp_cidrs_sound:
  assumes "parse_xdp_cidrs vs = Inr cs" "parse_cidrs vs = Inr ds"
  shows "\<forall>c \<in> set cs. xdp_wf c" "list_ex (\<lambda>c. xdp_contains c ip) cs \<longleftrightarrow> list_ex (\<lambda>d. cidr_contains d ip) ds" "cs = [] \<longleftrightarrow> ds = []"
proof -
  have "list_all2 (\<lambda>v c. parse_xdp_cidr v = Inr c) vs cs" "list_all2 (\<lambda>v d. cidr_parse v = Inr d) vs ds"
    using assms by (simp_all add: parse_xdp_cidrs_def parse_cidrs_def collect_res_Inr_iff)
  then have "(\<forall>c \<in> set cs. xdp_wf c) \<and> (list_ex (\<lambda>c. xdp_contains c ip) cs \<longleftrightarrow> list_ex (\<lambda>d. cidr_contains d ip) ds)
      \<and> (cs = [] \<longleftrightarrow> ds = [])"
  proof (induction vs arbitrary: cs ds)
    case (Cons v vs)
    then show ?case using parse_xdp_cidr_sound by (fastforce simp: list_all2_Cons1)
  qed simp
  then show "\<forall>c \<in> set cs. xdp_wf c" "list_ex (\<lambda>c. xdp_contains c ip) cs \<longleftrightarrow> list_ex (\<lambda>d. cidr_contains d ip) ds" "cs = [] \<longleftrightarrow> ds = []"
    by blast+
qed

text \<open>Country codes: the bit of a country is the place of its two letters.\<close>

definition country_bit :: "u16 \<Rightarrow> nat option" where
  "country_bit country =
     (let first = unat (drop_bit 8 country); second = unat (country AND 0xFF)
      in if first < 65 \<or> first > 90 \<or> second < 65 \<or> second > 90 then None else Some ((first - 65) * 26 + (second - 65)))"

lemma country_bit_less: "country_bit c = Some n \<Longrightarrow> n < 676"
  by (auto simp: country_bit_def Let_def split: if_splits)

lemma country_bit_is_set_iff:
  "country_bit_is_set bits c \<longleftrightarrow> (\<exists>n. country_bit c = Some n \<and> bit (bits ! (n div 64)) (n mod 64))"
  by (auto simp: country_bit_is_set_def country_bit_def Let_def xdp_country_words_def)

lemma upper_letter: "is_ascii_alpha a \<Longrightarrow> 65 \<le> (of_char (to_ascii_upper a) :: nat) \<and> (of_char (to_ascii_upper a) :: nat) \<le> 90"
  by (auto simp: is_ascii_alpha_def to_ascii_upper_def Let_def)

lemma low_byte: "unat ((w :: u16) AND 0xFF) = unat w mod 256"
proof -
  have "w AND 0xFF = take_bit 8 w" by (simp add: take_bit_eq_mask mask_eq_exp_minus_1)
  then show ?thesis by (simp add: take_bit_eq_mod unat_mod)
qed

lemma two_bytes:
  fixes x y :: u8
  shows "unat (drop_bit 8 (from_be [x, y] :: u16)) = unat x" "unat ((from_be [x, y] :: u16) AND 0xFF) = unat y"
proof -
  have xy: "unat x < 256" "unat y < 256" using unsigned_less [of x] unsigned_less [of y] by simp_all
  have v: "unat (from_be [x, y] :: u16) = unat x * 256 + unat y"
  proof -
    have "be_nat [x, y] = unat x * 256 + unat y" by (simp add: be_nat_def)
    moreover have "unat x * 256 + unat y < 2 ^ LENGTH(16)" using xy by simp
    ultimately show ?thesis by (simp only: from_be_def unat_of_nat mod_less)
  qed
  show "unat (drop_bit 8 (from_be [x, y] :: u16)) = unat x"
    using v xy by (simp add: drop_bit_eq_div unat_div)
  show "unat ((from_be [x, y] :: u16) AND 0xFF) = unat y"
    using v xy by (simp add: low_byte)
qed

lemma unat_of_char: "unat (of_char z :: u8) = of_char z"
proof -
  have "(of_char z :: u8) = word_of_nat (of_char z)" by (simp only: of_nat_of_char)
  then show ?thesis using nat_of_char_less_256 [of z] by (simp only: unat_of_nat) simp
qed

lemma set_country_bit_step:
  assumes "set_country_bit bits v = Inr bits'"
  shows "\<exists>c n. encode_country v = Inr c \<and> country_bit c = Some n \<and> bits' = bits[n div 64 := bits ! (n div 64) OR push_bit (n mod 64) 1]"
proof -
  from assms obtain a b where ab: "trim v = [a, b]" "is_ascii_alpha a" "is_ascii_alpha b"
    by (auto simp: set_country_bit_def split: list.splits if_splits)
  define c :: u16 where "c = from_be [of_char (to_ascii_upper a), of_char (to_ascii_upper b)]"
  have "country_bit c = Some (letter_index a * 26 + letter_index b)"
    using upper_letter [OF ab(2)] upper_letter [OF ab(3)]
    by (simp add: country_bit_def c_def unat_of_char two_bytes letter_index_def Let_def)
  then show ?thesis using assms ab
    by (auto simp: set_country_bit_def encode_country_def Let_def c_def split: if_splits)
qed

lemma bit_set_word:
  fixes w :: u64
  assumes "k < 64"
  shows "bit (w OR 2 ^ k) i \<longleftrightarrow> bit w i \<or> i = k"
  using assms by (auto simp: bit_or_iff bit_exp_iff)

lemma country_words_split:
  fixes n k :: nat
  assumes "n < 676" "k < 676" "length bits = 11"
  shows "bit ((bits[k div 64 := bits ! (k div 64) OR push_bit (k mod 64) 1]) ! (n div 64)) (n mod 64) \<longleftrightarrow>
    bit (bits ! (n div 64) :: u64) (n mod 64) \<or> n = k"
proof (cases "n div 64 = k div 64")
  case True
  moreover have "n = k \<longleftrightarrow> n mod 64 = k mod 64" using True by (metis mult_div_mod_eq)
  ultimately show ?thesis using assms by (simp add: bit_set_word)
next
  case False
  then show ?thesis using assms by auto
qed

lemma encode_countries_Cons:
  "encode_country v = Inr c \<Longrightarrow> encode_countries (v # vs) = c # encode_countries vs"
  by (simp add: encode_countries_def List.map_filter_def)

lemma country_bit_inj: "country_bit c = Some n \<Longrightarrow> country_bit d = Some n \<Longrightarrow> c = d"
proof -
  assume c: "country_bit c = Some n" and d: "country_bit d = Some n"
  define f s where "f x = unat (drop_bit 8 (x :: u16))" and "s x = unat ((x :: u16) AND 0xFF)" for x
  have x: "unat x = f x * 256 + s x" for x :: u16
    by (simp add: f_def s_def drop_bit_eq_div unat_div low_byte)
  have "(f c - 65) * 26 + (s c - 65) = (f d - 65) * 26 + (s d - 65)" "65 \<le> f c" "65 \<le> f d" "65 \<le> s c" "65 \<le> s d"
    "s c \<le> 90" "s d \<le> 90"
    using c d by (auto simp: country_bit_def f_def s_def Let_def split: if_splits)
  moreover have "(a * 26 + b) div 26 = a" "(a * 26 + b) mod 26 = b" if "b \<le> 25" for a b :: nat using that by simp_all
  moreover from \<open>s c \<le> 90\<close> \<open>s d \<le> 90\<close> have "s c - 65 \<le> 25" "s d - 65 \<le> 25" by simp_all
  ultimately have "f c - 65 = f d - 65" "s c - 65 = s d - 65" by metis+
  then have "f c = f d \<and> s c = s d" using \<open>65 \<le> f c\<close> \<open>65 \<le> f d\<close> \<open>65 \<le> s c\<close> \<open>65 \<le> s d\<close> by arith
  then show "c = d" using x [of c] x [of d] by (metis word_unat_eq_iff)
qed

lemma set_country_bits_sound:
  assumes "set_country_bits bits vs = Inr bits'" "length bits = 11"
  shows "length bits' = 11 \<and> (\<forall>c. country_bit_is_set bits' c \<longleftrightarrow> country_bit_is_set bits c \<or> c \<in> set (encode_countries vs))"
  using assms
proof (induction vs arbitrary: bits)
  case Nil
  then show ?case by (simp add: encode_countries_def List.map_filter_def)
next
  case (Cons v vs)
  from Cons.prems(1) obtain bits1 where 1: "set_country_bit bits v = Inr bits1" "set_country_bits bits1 vs = Inr bits'"
    by (auto simp: bind_res_Inr_iff)
  obtain c n where c: "encode_country v = Inr c" "country_bit c = Some n"
    "bits1 = bits[n div 64 := bits ! (n div 64) OR push_bit (n mod 64) 1]" using set_country_bit_step [OF 1(1)] by blast
  have n: "n < 676" by (rule country_bit_less [OF c(2)])
  have "country_bit_is_set bits1 d \<longleftrightarrow> country_bit_is_set bits d \<or> d = c" for d
  proof (cases "country_bit d")
    case None
    then show ?thesis using c(2) by (auto simp: country_bit_is_set_iff)
  next
    case (Some k)
    have "k = n \<longleftrightarrow> d = c" using Some c(2) country_bit_inj by auto
    then show ?thesis using Some c(3) country_words_split [OF country_bit_less [OF Some] n Cons.prems(2)]
      by (auto simp: country_bit_is_set_iff)
  qed
  then show ?case using Cons.IH [OF 1(2)] Cons.prems(2) c by (auto simp: encode_countries_Cons)
qed

lemma no_country_set [simp]: "\<not> country_bit_is_set (replicate 11 0) c"
  using country_bit_less [of c] by (auto simp: country_bit_is_set_iff)

section \<open>What a successful synchronisation writes\<close>

lemma step_then_Inr: "step_then f g b = (Inr (), b') \<longleftrightarrow> (\<exists>b1. f b = (Inr (), b1) \<and> g b1 = (Inr (), b'))"
  by (auto simp: step_then_def split: prod.split sum.split)

text \<open>A successful row of map operations changes the maps by their effects, one after the other, and nothing else.\<close>

definition with_maps :: "kernel_maps \<Rightarrow> aya_backend \<Rightarrow> aya_backend \<Rightarrow> bool" where
  "with_maps m b b' \<longleftrightarrow> xa_maps b' = m \<and> xa_listeners b' = xa_listeners b \<and> xa_keys b' = xa_keys b \<and> xa_fingerprint b' = xa_fingerprint b"

lemma with_maps_refl [simp]: "with_maps (xa_maps b) b b"
  by (simp add: with_maps_def)

lemma with_maps_trans: "with_maps m b b1 \<Longrightarrow> with_maps m' b1 b' \<Longrightarrow> with_maps m' b b'"
  by (simp add: with_maps_def)

lemma map_op_Inr: "map_op kn f b = (Inr (), b') \<Longrightarrow> \<exists>m. f (xa_maps b) = Some m \<and> with_maps m b b'"
  by (auto simp: map_op_def with_maps_def Let_def split: if_splits option.splits)

lemma step_each_ops:
  assumes "\<And>x. x \<in> set xs \<Longrightarrow> f x = map_op kn (g x)" "step_each f xs b = (Inr (), b')"
  shows "with_maps (fold (\<lambda>x m. the (g x m)) xs (xa_maps b)) b b'"
  using assms
proof (induction xs arbitrary: b)
  case Nil
  then show ?case by (simp add: step_ok_def)
next
  case (Cons x xs)
  from Cons.prems obtain b1 where b1: "map_op kn (g x) b = (Inr (), b1)" "step_each f xs b1 = (Inr (), b')"
    by (auto simp: step_then_Inr)
  from map_op_Inr [OF b1(1)] have 1: "with_maps (the (g x (xa_maps b))) b b1" by auto
  from Cons.IH [OF _ b1(2)] Cons.prems(1) have "with_maps (fold (\<lambda>x m. the (g x m)) xs (xa_maps b1)) b1 b'" by simp
  with 1 show ?case using with_maps_trans by (fastforce simp: with_maps_def)
qed

definition put_keys :: "('k \<Rightarrow> 'k) \<Rightarrow> 'k list \<Rightarrow> ('k, u8) hmap \<Rightarrow> ('k, u8) hmap" where
  "put_keys node ks t = fold (\<lambda>k. hm_insert (node k) 1) ks t"

definition apply_spec :: "xdp_kernel \<Rightarrow> threat_ip_prefix list \<Rightarrow> xdp_listener_spec \<Rightarrow> kernel_maps \<Rightarrow> kernel_maps" where
  "apply_spec kn threat spec m =
     (let p = xl_policy spec
      in m\<lparr>km_listener_policies := hm_insert (make_listener_key (xl_l4_proto spec) (xl_port spec)) (encode_listener_policy p)
             (km_listener_policies m),
           km_trusted_cidrs := put_keys (kn_node kn) (cidr_keys spec (ps_trusted_cidrs p)) (km_trusted_cidrs m),
           km_allow_cidrs := put_keys (kn_node kn) (cidr_keys spec (ps_allow_cidrs p)) (km_allow_cidrs m),
           km_deny_cidrs := put_keys (kn_node kn) (cidr_keys spec (ps_deny_cidrs p) @ threat_keys spec threat) (km_deny_cidrs m)\<rparr>)"

lemma fold_tables:
  "fold (\<lambda>k m. m\<lparr>km_trusted_cidrs := hm_insert (node k) 1 (km_trusted_cidrs m)\<rparr>) ks m = m\<lparr>km_trusted_cidrs := put_keys node ks (km_trusted_cidrs m)\<rparr>"
  "fold (\<lambda>k m. m\<lparr>km_allow_cidrs := hm_insert (node k) 1 (km_allow_cidrs m)\<rparr>) ks m = m\<lparr>km_allow_cidrs := put_keys node ks (km_allow_cidrs m)\<rparr>"
  "fold (\<lambda>k m. m\<lparr>km_deny_cidrs := hm_insert (node k) 1 (km_deny_cidrs m)\<rparr>) ks m = m\<lparr>km_deny_cidrs := put_keys node ks (km_deny_cidrs m)\<rparr>"
  by (induction ks arbitrary: m) (simp_all add: put_keys_def)

lemma sync_spec_maps:
  assumes "sync_spec kn threat spec b = (Inr (), b')"
  shows "with_maps (apply_spec kn threat spec (xa_maps b)) b b'"
proof -
  from assms obtain b1 b2 b3 b4 where st: "put_policy kn spec b = (Inr (), b1)"
    "step_each (put_trusted kn) (cidr_keys spec (ps_trusted_cidrs (xl_policy spec))) b1 = (Inr (), b2)"
    "step_each (put_allow kn) (cidr_keys spec (ps_allow_cidrs (xl_policy spec))) b2 = (Inr (), b3)"
    "step_each (put_deny kn) (cidr_keys spec (ps_deny_cidrs (xl_policy spec))) b3 = (Inr (), b4)"
    "step_each (put_deny kn) (threat_keys spec threat) b4 = (Inr (), b')"
    by (auto simp: sync_spec_def step_then_Inr)
  note ops = map_op_Inr [OF st(1) [unfolded put_policy_def]] step_each_ops [OF put_trusted_def st(2)]
    step_each_ops [OF put_allow_def st(3)] step_each_ops [OF put_deny_def st(4)] step_each_ops [OF put_deny_def st(5)]
  have fold_app: "put_keys node ks' (put_keys node ks t) = put_keys node (ks @ ks') t" for node :: "xdp_lpm_key \<Rightarrow> xdp_lpm_key" and ks ks' t
    by (simp add: put_keys_def)
  show ?thesis using ops unfolding option.sel fold_tables
    by (auto simp: with_maps_def apply_spec_def Let_def fold_app)
qed

lemma sync_specs_maps:
  "step_each (sync_spec kn threat) specs b = (Inr (), b') \<Longrightarrow> with_maps (fold (apply_spec kn threat) specs (xa_maps b)) b b'"
proof (induction specs arbitrary: b)
  case Nil
  then show ?case by (simp add: step_ok_def)
next
  case (Cons spec specs)
  then obtain b1 where "sync_spec kn threat spec b = (Inr (), b1)" "step_each (sync_spec kn threat) specs b1 = (Inr (), b')"
    by (auto simp: step_then_Inr)
  then show ?case using sync_spec_maps [of kn threat spec b b1] Cons.IH [of b1] with_maps_trans
    by (fastforce simp: with_maps_def)
qed

definition put_geos :: "xdp_kernel \<Rightarrow> geo_ip_prefix list \<Rightarrow> (xdp_geo_lpm_key, u16) hmap \<Rightarrow> (xdp_geo_lpm_key, u16) hmap" where
  "put_geos kn geo t = fold (\<lambda>p. hm_insert (kn_geo_node kn (make_geo_lpm_key (gp_addr p) (gp_prefix p))) (gp_country p)) geo t"

lemma put_geo_maps:
  assumes "step_each (put_geo kn) geo b = (Inr (), b')"
  shows "with_maps ((xa_maps b)\<lparr>km_geo_cidrs := put_geos kn geo (km_geo_cidrs (xa_maps b))\<rparr>) b b'"
proof -
  have "fold (\<lambda>p m. m\<lparr>km_geo_cidrs := hm_insert (kn_geo_node kn (make_geo_lpm_key (gp_addr p) (gp_prefix p))) (gp_country p) (km_geo_cidrs m)\<rparr>) geo m
      = m\<lparr>km_geo_cidrs := put_geos kn geo (km_geo_cidrs m)\<rparr>" for m :: kernel_maps
    by (induction geo arbitrary: m) (simp_all add: put_geos_def)
  with step_each_ops [OF put_geo_def assms] show ?thesis by simp
qed

text \<open>Removing the keys that are no longer wanted.\<close>

definition decoded :: "u8 list \<Rightarrow> xdp_lpm_key" where
  "decoded raw = (case decode_lpm_key_bytes raw of Inr k \<Rightarrow> k | Inl _ \<Rightarrow> undefined)"

definition geo_decoded :: "u8 list \<Rightarrow> xdp_geo_lpm_key" where
  "geo_decoded raw = (case decode_geo_lpm_key_bytes raw of Inr k \<Rightarrow> k | Inl _ \<Rightarrow> undefined)"

definition drop_keys :: "'k list \<Rightarrow> ('k, 'v) hmap \<Rightarrow> ('k, 'v) hmap" where
  "drop_keys ks t = fold hm_remove ks t"

lemma step_each_deletes:
  assumes "\<And>x b b'. x \<in> set xs \<Longrightarrow> f x b = (Inr (), b') \<Longrightarrow> map_op kn (\<lambda>m. map_option (\<lambda>t. put t m) (remove_present (key x) (tab m))) b = (Inr (), b')"
    and "\<And>t m. tab (put t m) = t" "\<And>t t' m. put t (put t' m) = put t m" "\<And>m. put (tab m) m = m"
    and "step_each f xs b = (Inr (), b')"
  shows "with_maps (put (drop_keys (map key xs) (tab (xa_maps b))) (xa_maps b)) b b'"
  using assms(1,5)
proof (induction xs arbitrary: b)
  case Nil
  then show ?case using assms(4) by (simp add: step_ok_def drop_keys_def)
next
  case (Cons x xs)
  from Cons.prems obtain b1 where b1: "f x b = (Inr (), b1)" "step_each f xs b1 = (Inr (), b')"
    by (auto simp: step_then_Inr)
  from map_op_Inr [OF Cons.prems(1) [OF _ b1(1)]] have 1: "with_maps (put (hm_remove (key x) (tab (xa_maps b))) (xa_maps b)) b b1"
    by (auto simp: remove_present_def split: if_splits)
  moreover have "with_maps (put (drop_keys (map key xs) (tab (xa_maps b1))) (xa_maps b1)) b1 b'"
    using Cons.IH [OF _ b1(2)] Cons.prems(1) by simp
  ultimately show ?case using with_maps_trans assms(2,3) by (fastforce simp: with_maps_def drop_keys_def)
qed

lemma delete_lpm_maps:
  assumes "\<And>t m. tab (put t m) = t" "\<And>t t' m. put t (put t' m) = put t m" "\<And>m. put (tab m) m = m"
    and "delete_stale_lpm_keys kn tab put old new b = (Inr (), b')"
  shows "with_maps (put (drop_keys (map (kn_node kn \<circ> decoded) (difference old new)) (tab (xa_maps b))) (xa_maps b)) b b'"
  by (rule step_each_deletes [OF _ assms(1-3) assms(4) [unfolded delete_stale_lpm_keys_def]])
    (auto simp: decoded_def split: sum.splits)

lemma delete_geo_maps:
  assumes "delete_stale_geo_lpm_keys kn old new b = (Inr (), b')"
  shows "with_maps ((xa_maps b)\<lparr>km_geo_cidrs := drop_keys (map (kn_geo_node kn \<circ> geo_decoded) (difference old new))
    (km_geo_cidrs (xa_maps b))\<rparr>) b b'"
  by (rule step_each_deletes [where put = "\<lambda>t m. m\<lparr>km_geo_cidrs := t\<rparr>" and tab = km_geo_cidrs,
        OF _ _ _ _ assms [unfolded delete_stale_geo_lpm_keys_def]])
    (auto simp: geo_decoded_def split: sum.splits)

lemma delete_hash_maps:
  assumes "delete_stale_hash_keys kn old new b = (Inr (), b')"
  shows "with_maps ((xa_maps b)\<lparr>km_listener_policies := drop_keys (difference old new) (km_listener_policies (xa_maps b))\<rparr>) b b'"
  using step_each_deletes [where put = "\<lambda>t m. m\<lparr>km_listener_policies := t\<rparr>" and tab = km_listener_policies and key = "\<lambda>x. x",
      OF _ _ _ _ assms [unfolded delete_stale_hash_keys_def]] by simp

definition after_sync :: "xdp_kernel \<Rightarrow> geo_ip_prefix list \<Rightarrow> threat_ip_prefix list \<Rightarrow> xdp_listener_spec list \<Rightarrow> xdp_static_keys
  \<Rightarrow> kernel_maps \<Rightarrow> kernel_maps" where
  "after_sync kn geo threat listeners old m =
     (let new = build_xdp_static_keys listeners geo threat;
          m1 = fold (apply_spec kn threat) listeners m;
          gone = (\<lambda>sel. map (kn_node kn \<circ> decoded) (difference (sel old) (sel new)))
      in m1\<lparr>km_listener_policies := drop_keys (difference (sk_listener_policies old) (sk_listener_policies new)) (km_listener_policies m1),
            km_allow_cidrs := drop_keys (gone sk_allow_cidrs) (km_allow_cidrs m1),
            km_deny_cidrs := drop_keys (gone sk_deny_cidrs) (km_deny_cidrs m1),
            km_trusted_cidrs := drop_keys (gone sk_trusted_cidrs) (km_trusted_cidrs m1),
            km_geo_cidrs := drop_keys (map (kn_geo_node kn \<circ> geo_decoded) (difference (sk_geo_cidrs old) (sk_geo_cidrs new)))
              (if xdp_geo_enabled listeners then put_geos kn geo (km_geo_cidrs m1) else km_geo_cidrs m1)\<rparr>)"

lemma sync_maps:
  assumes "sync_static_policy_prefixes kn hasher geo threat b = (Inr (), b')"
  shows "b' = b \<and> xa_fingerprint b = Some (sp_fingerprint (build_static_sync_plan hasher (xa_listeners b) geo threat)) \<or>
    xa_maps b' = after_sync kn geo threat (xa_listeners b) (xa_keys b) (xa_maps b) \<and> xa_listeners b' = xa_listeners b
    \<and> xa_keys b' = build_xdp_static_keys (xa_listeners b) geo threat
    \<and> xa_fingerprint b' = Some (sp_fingerprint (build_static_sync_plan hasher (xa_listeners b) geo threat))"
proof (cases "xa_fingerprint b = Some (sp_fingerprint (build_static_sync_plan hasher (xa_listeners b) geo threat))")
  case True
  then show ?thesis using assms by (simp add: sync_static_policy_prefixes_def Let_def)
next
  case False
  let ?plan = "build_static_sync_plan hasher (xa_listeners b) geo threat"
  let ?new = "build_xdp_static_keys (xa_listeners b) geo threat" and ?old = "xa_keys b"
  have new: "sp_keys ?plan = ?new" by (simp add: build_static_sync_plan_def Let_def)
  from assms False obtain b1 b2 where st: "step_each (sync_spec kn threat) (xa_listeners b) b = (Inr (), b1)"
    "(if xdp_geo_enabled (xa_listeners b) then step_each (put_geo kn) geo else step_ok) b1 = (Inr (), b2)"
    "delete_stale_static_keys kn ?plan b2 = (Inr (), b')"
    by (auto simp: sync_static_policy_prefixes_def Let_def step_then_Inr)
  have m1: "with_maps (fold (apply_spec kn threat) (xa_listeners b) (xa_maps b)) b b1" by (rule sync_specs_maps [OF st(1)])
  have m2: "with_maps ((xa_maps b1)\<lparr>km_geo_cidrs := (if xdp_geo_enabled (xa_listeners b) then put_geos kn geo (km_geo_cidrs (xa_maps b1))
      else km_geo_cidrs (xa_maps b1))\<rparr>) b1 b2"
    using st(2) put_geo_maps [of kn geo b1 b2] by (auto simp: step_ok_def with_maps_def split: if_splits)
  have k2: "xa_keys b2 = ?old" using m1 m2 by (simp add: with_maps_def)
  from st(3) obtain c1 c2 c3 c4 c5 where d:
    "delete_stale_hash_keys kn (sk_listener_policies ?old) (sk_listener_policies ?new) b2 = (Inr (), c1)"
    "delete_stale_lpm_keys kn km_allow_cidrs (\<lambda>t m. m\<lparr>km_allow_cidrs := t\<rparr>) (sk_allow_cidrs ?old) (sk_allow_cidrs ?new) c1 = (Inr (), c2)"
    "delete_stale_lpm_keys kn km_deny_cidrs (\<lambda>t m. m\<lparr>km_deny_cidrs := t\<rparr>) (sk_deny_cidrs ?old) (sk_deny_cidrs ?new) c2 = (Inr (), c3)"
    "delete_stale_lpm_keys kn km_trusted_cidrs (\<lambda>t m. m\<lparr>km_trusted_cidrs := t\<rparr>) (sk_trusted_cidrs ?old) (sk_trusted_cidrs ?new) c3 = (Inr (), c4)"
    "delete_stale_geo_lpm_keys kn (sk_geo_cidrs ?old) (sk_geo_cidrs ?new) c4 = (Inr (), c5)"
    "b' = c5\<lparr>xa_keys := ?new, xa_fingerprint := Some (sp_fingerprint ?plan)\<rparr>"
    by (auto simp: delete_stale_static_keys_def Let_def step_then_Inr new k2)
  note dm = delete_hash_maps [OF d(1)] delete_lpm_maps [OF _ _ _ d(2)] delete_lpm_maps [OF _ _ _ d(3)]
    delete_lpm_maps [OF _ _ _ d(4)] delete_geo_maps [OF d(5)]
  show ?thesis using m1 m2 dm d(6)
    by (simp add: with_maps_def after_sync_def Let_def)
qed

section \<open>The maps follow the settings\<close>

definition wanted :: "(xdp_listener_policy_spec \<Rightarrow> xdp_cidr_prefix list) \<Rightarrow> xdp_listener_spec list \<Rightarrow> xdp_lpm_key set" where
  "wanted sel listeners = (\<Union>spec \<in> set listeners. set (cidr_keys spec (sel (xl_policy spec))))"

definition wanted_deny :: "threat_ip_prefix list \<Rightarrow> xdp_listener_spec list \<Rightarrow> xdp_lpm_key set" where
  "wanted_deny threat listeners = wanted ps_deny_cidrs listeners \<union> (\<Union>spec \<in> set listeners. set (threat_keys spec threat))"

definition spec_key :: "xdp_listener_spec \<Rightarrow> xdp_listener_key" where
  "spec_key spec = make_listener_key (xl_l4_proto spec) (xl_port spec)"

definition maps_inv :: "kernel_maps \<Rightarrow> bool" where
  "maps_inv m \<longleftrightarrow> hm_inv (km_blocked_ips m) \<and> hm_inv (km_listener_policies m) \<and> hm_inv (km_allow_cidrs m)
     \<and> hm_inv (km_deny_cidrs m) \<and> hm_inv (km_trusted_cidrs m) \<and> hm_inv (km_geo_cidrs m)"

text \<open>The maps hold exactly what the settings, the geo database and the feeds ask for.\<close>

definition synced :: "xdp_kernel \<Rightarrow> xdp_listener_spec list \<Rightarrow> geo_ip_prefix list \<Rightarrow> threat_ip_prefix list \<Rightarrow> kernel_maps \<Rightarrow> bool" where
  "synced kn listeners geo threat m \<longleftrightarrow> maps_inv m
     \<and> dom (hm_get (km_listener_policies m)) = spec_key ` set listeners
     \<and> (\<forall>k p. hm_get (km_listener_policies m) k = Some p \<longrightarrow>
          (\<exists>spec \<in> set listeners. k = spec_key spec \<and> p = encode_listener_policy (xl_policy spec)))
     \<and> dom (hm_get (km_allow_cidrs m)) = kn_node kn ` wanted ps_allow_cidrs listeners
     \<and> dom (hm_get (km_trusted_cidrs m)) = kn_node kn ` wanted ps_trusted_cidrs listeners
     \<and> dom (hm_get (km_deny_cidrs m)) = kn_node kn ` wanted_deny threat listeners
     \<and> dom (hm_get (km_geo_cidrs m)) = kn_geo_node kn ` set (geo_keys listeners geo)
     \<and> (\<forall>k c. hm_get (km_geo_cidrs m) k = Some c \<longrightarrow>
          (\<exists>p \<in> set geo. k = kn_geo_node kn (make_geo_lpm_key (gp_addr p) (gp_prefix p)) \<and> c = gp_country p))"

lemma put_keys_view:
  "hm_inv t \<Longrightarrow> hm_inv (put_keys node ks t) \<and> dom (hm_get (put_keys node ks t)) = node ` set ks \<union> dom (hm_get t)"
  unfolding put_keys_def by (induction ks arbitrary: t) (auto simp: hm_simps)

lemma drop_keys_view:
  "hm_inv t \<Longrightarrow> hm_inv (drop_keys ks t) \<and> hm_get (drop_keys ks t) = (\<lambda>k. if k \<in> set ks then None else hm_get t k)"
  unfolding drop_keys_def by (induction ks arbitrary: t) (auto simp: hm_simps fun_eq_iff)

lemma put_geos_view:
  assumes "hm_inv t"
  shows "hm_inv (put_geos kn geo t) \<and> dom (hm_get (put_geos kn geo t)) =
      kn_geo_node kn ` (\<lambda>p. make_geo_lpm_key (gp_addr p) (gp_prefix p)) ` set geo \<union> dom (hm_get t)
    \<and> (\<forall>k c. hm_get (put_geos kn geo t) k = Some c \<longrightarrow> (hm_get t k = Some c \<and> k \<notin> kn_geo_node kn ` (\<lambda>p. make_geo_lpm_key (gp_addr p) (gp_prefix p)) ` set geo)
        \<or> (\<exists>p \<in> set geo. k = kn_geo_node kn (make_geo_lpm_key (gp_addr p) (gp_prefix p)) \<and> c = gp_country p))"
  using assms unfolding put_geos_def
proof (induction geo rule: rev_induct)
  case (snoc p geo)
  then show ?case by (auto simp: hm_simps split: if_splits) blast+
qed (auto)

lemma apply_specs_view:
  assumes "maps_inv m"
  shows "let m' = fold (apply_spec kn threat) specs m
    in maps_inv m' \<and> km_blocked_ips m' = km_blocked_ips m \<and> km_geo_cidrs m' = km_geo_cidrs m
      \<and> dom (hm_get (km_listener_policies m')) = spec_key ` set specs \<union> dom (hm_get (km_listener_policies m))
      \<and> (\<forall>k p. hm_get (km_listener_policies m') k = Some p \<longrightarrow>
           (hm_get (km_listener_policies m) k = Some p \<and> k \<notin> spec_key ` set specs)
           \<or> (\<exists>spec \<in> set specs. k = spec_key spec \<and> p = encode_listener_policy (xl_policy spec)))
      \<and> dom (hm_get (km_allow_cidrs m')) = kn_node kn ` wanted ps_allow_cidrs specs \<union> dom (hm_get (km_allow_cidrs m))
      \<and> dom (hm_get (km_trusted_cidrs m')) = kn_node kn ` wanted ps_trusted_cidrs specs \<union> dom (hm_get (km_trusted_cidrs m))
      \<and> dom (hm_get (km_deny_cidrs m')) = kn_node kn ` wanted_deny threat specs \<union> dom (hm_get (km_deny_cidrs m))"
  using assms
proof (induction specs rule: rev_induct)
  case Nil
  then show ?case by (simp add: wanted_def wanted_deny_def)
next
  case (snoc spec specs)
  define m1 where "m1 = fold (apply_spec kn threat) specs m"
  note ih = snoc.IH [OF snoc.prems, unfolded Let_def, folded m1_def]
  have m2: "fold (apply_spec kn threat) (specs @ [spec]) m = apply_spec kn threat spec m1" by (simp add: m1_def)
  have w: "wanted sel (specs @ [spec]) = set (cidr_keys spec (sel (xl_policy spec))) \<union> wanted sel specs" for sel
    by (auto simp: wanted_def)
  have wd: "wanted_deny threat (specs @ [spec]) = set (cidr_keys spec (ps_deny_cidrs (xl_policy spec)) @ threat_keys spec threat) \<union> wanted_deny threat specs"
    by (auto simp: wanted_deny_def w)
  have inv: "hm_inv (km_listener_policies m1)" "hm_inv (km_allow_cidrs m1)" "hm_inv (km_deny_cidrs m1)" "hm_inv (km_trusted_cidrs m1)"
    using ih by (simp_all add: maps_inv_def)
  note put = put_keys_view [OF inv(2), of "kn_node kn"] put_keys_view [OF inv(3), of "kn_node kn"] put_keys_view [OF inv(4), of "kn_node kn"]
  have pol: "hm_get (hm_insert (spec_key spec) p (km_listener_policies m1)) = (hm_get (km_listener_policies m1))(spec_key spec \<mapsto> p)" for p
    using inv(1) by (simp add: hm_simps)
  show ?case unfolding m2 Let_def
    using ih put inv by (simp add: apply_spec_def Let_def maps_inv_def w wd image_Un Un_assoc pol flip: spec_key_def) (auto simp: hm_simps pol)
qed

lemma set_insert_listener_key [simp]: "set (insert_listener_key k ks) = insert k (set ks)"
  by (auto simp: insert_listener_key_def set_insort_key)

lemma built_keys:
  "set (sk_listener_policies (build_xdp_static_keys listeners geo threat)) = spec_key ` set listeners"
  "set (sk_allow_cidrs (build_xdp_static_keys listeners geo threat)) = encode_lpm_key_bytes ` wanted ps_allow_cidrs listeners"
  "set (sk_trusted_cidrs (build_xdp_static_keys listeners geo threat)) = encode_lpm_key_bytes ` wanted ps_trusted_cidrs listeners"
  "set (sk_deny_cidrs (build_xdp_static_keys listeners geo threat)) = encode_lpm_key_bytes ` wanted_deny threat listeners"
  "set (sk_geo_cidrs (build_xdp_static_keys listeners geo threat)) = encode_geo_lpm_key_bytes ` set (geo_keys listeners geo)"
proof -
  define K where "K = fold (add_spec_keys threat) listeners xdp_static_keys_empty"
  have "set (sk_listener_policies K) = spec_key ` set listeners \<and> set (sk_allow_cidrs K) = encode_lpm_key_bytes ` wanted ps_allow_cidrs listeners
      \<and> set (sk_trusted_cidrs K) = encode_lpm_key_bytes ` wanted ps_trusted_cidrs listeners
      \<and> set (sk_deny_cidrs K) = encode_lpm_key_bytes ` wanted_deny threat listeners \<and> sk_geo_cidrs K = []"
    unfolding K_def
  proof (induction listeners rule: rev_induct)
    case Nil
    then show ?case by (simp add: xdp_static_keys_empty_def wanted_def wanted_deny_def)
  next
    case (snoc spec listeners)
    then show ?case by (auto simp: add_spec_keys_def Let_def spec_key_def wanted_def wanted_deny_def image_Un)
  qed
  then show "set (sk_listener_policies (build_xdp_static_keys listeners geo threat)) = spec_key ` set listeners"
    "set (sk_allow_cidrs (build_xdp_static_keys listeners geo threat)) = encode_lpm_key_bytes ` wanted ps_allow_cidrs listeners"
    "set (sk_trusted_cidrs (build_xdp_static_keys listeners geo threat)) = encode_lpm_key_bytes ` wanted ps_trusted_cidrs listeners"
    "set (sk_deny_cidrs (build_xdp_static_keys listeners geo threat)) = encode_lpm_key_bytes ` wanted_deny threat listeners"
    "set (sk_geo_cidrs (build_xdp_static_keys listeners geo threat)) = encode_geo_lpm_key_bytes ` set (geo_keys listeners geo)"
    by (simp_all add: build_xdp_static_keys_def Let_def flip: K_def)
qed

lemma wanted_lengths: "k \<in> wanted sel listeners \<Longrightarrow> length (pk_addr k) = 16" "k \<in> wanted_deny threat listeners \<Longrightarrow> length (pk_addr k) = 16"
  by (auto simp: wanted_def wanted_deny_def cidr_keys_def threat_keys_def split: if_splits)

lemma decoded_encode: "length (pk_addr k) = 16 \<Longrightarrow> decoded (encode_lpm_key_bytes k) = k"
  by (simp add: decoded_def decode_encode_lpm)

lemma geo_decoded_encode: "k \<in> set (geo_keys listeners geo) \<Longrightarrow> geo_decoded (encode_geo_lpm_key_bytes k) = k"
  by (auto simp: geo_decoded_def decode_encode_geo geo_keys_def split: if_splits)

text \<open>One table: everything new is put, everything old and unwanted is removed.\<close>

lemma table_exact:
  assumes "D = node ` K" "D' = (node ` N \<union> D) - node ` dec ` (enc ` K - enc ` N)"
    and "\<And>k. k \<in> K \<union> N \<Longrightarrow> dec (enc k) = k" "inj_on node (K \<union> N)"
  shows "D' = node ` N"
proof -
  have "dec ` (enc ` K - enc ` N) = K - N"
  proof
    show "dec ` (enc ` K - enc ` N) \<subseteq> K - N" using assms(3) by force
    show "K - N \<subseteq> dec ` (enc ` K - enc ` N)"
    proof
      fix k assume k: "k \<in> K - N"
      then have "enc k \<notin> enc ` N" using assms(3) by (metis DiffD1 DiffD2 UnCI imageE)
      then show "k \<in> dec ` (enc ` K - enc ` N)" using k assms(3) [of k] by (metis DiffD1 DiffI UnCI imageI)
    qed
  qed
  then show ?thesis using assms(1,2,4) by (auto simp: inj_on_def)
qed

text \<open>The backend as attach and every successful synchronisation leave it.\<close>

definition tracks :: "xdp_kernel \<Rightarrow> geo_ip_prefix list \<Rightarrow> threat_ip_prefix list \<Rightarrow> aya_backend \<Rightarrow> bool" where
  "tracks kn geo threat b \<longleftrightarrow> synced kn (xa_listeners b) geo threat (xa_maps b)
     \<and> xa_keys b = build_xdp_static_keys (xa_listeners b) geo threat"

text \<open>No two of the prefixes in use denote one node of a table.\<close>

definition separate :: "xdp_kernel \<Rightarrow> xdp_listener_spec list \<Rightarrow> (geo_ip_prefix list \<times> threat_ip_prefix list) set \<Rightarrow> bool" where
  "separate kn listeners G \<longleftrightarrow>
     inj_on (kn_node kn) (wanted ps_allow_cidrs listeners \<union> wanted ps_trusted_cidrs listeners
       \<union> (\<Union>(geo, threat) \<in> G. wanted_deny threat listeners))
     \<and> inj_on (kn_geo_node kn) (\<Union>(geo, threat) \<in> G. set (geo_keys listeners geo))"

lemma set_difference [simp]: "set (difference xs ys) = set xs - set ys"
  by (auto simp: difference_def)

lemma dom_hide: "dom (\<lambda>k. if k \<in> S then None else f k) = dom f - S"
  by (auto split: if_splits)

text \<open>The tables after a synchronisation, whatever was in them before.\<close>

lemma after_sync_view:
  assumes inv: "maps_inv m" and m': "m' = after_sync kn geo threat L old m"
    and gone: "\<And>sel. gone sel = kn_node kn ` decoded ` (set (sel old) - set (sel (build_xdp_static_keys L geo threat)))"
  shows "maps_inv m'"
    and "dom (hm_get (km_allow_cidrs m')) = (kn_node kn ` wanted ps_allow_cidrs L \<union> dom (hm_get (km_allow_cidrs m))) - gone sk_allow_cidrs"
    and "dom (hm_get (km_trusted_cidrs m')) = (kn_node kn ` wanted ps_trusted_cidrs L \<union> dom (hm_get (km_trusted_cidrs m))) - gone sk_trusted_cidrs"
    and "dom (hm_get (km_deny_cidrs m')) = (kn_node kn ` wanted_deny threat L \<union> dom (hm_get (km_deny_cidrs m))) - gone sk_deny_cidrs"
proof -
  define m1 where "m1 = fold (apply_spec kn threat) L m"
  note v = apply_specs_view [OF inv, of kn threat L, unfolded Let_def, folded m1_def]
  have "maps_inv m1" using v by blast
  then have inv1: "hm_inv (km_listener_policies m1)" "hm_inv (km_allow_cidrs m1)" "hm_inv (km_deny_cidrs m1)" "hm_inv (km_trusted_cidrs m1)"
    "hm_inv (km_geo_cidrs m1)" "hm_inv (km_blocked_ips m1)" by (simp_all add: maps_inv_def)
  have ig: "hm_inv (if xdp_geo_enabled L then put_geos kn geo (km_geo_cidrs m1) else km_geo_cidrs m1)"
    using put_geos_view [OF inv1(5)] inv1(5) by simp
  note after = m' [unfolded after_sync_def Let_def, folded m1_def]
  note drops = inv1(6) drop_keys_view [OF inv1(1)] drop_keys_view [OF inv1(2)] drop_keys_view [OF inv1(3)] drop_keys_view [OF inv1(4)]
    drop_keys_view [OF ig]
  show "maps_inv m'" using drops by (simp add: after maps_inv_def)
  show "dom (hm_get (km_allow_cidrs m')) = (kn_node kn ` wanted ps_allow_cidrs L \<union> dom (hm_get (km_allow_cidrs m))) - gone sk_allow_cidrs"
    "dom (hm_get (km_trusted_cidrs m')) = (kn_node kn ` wanted ps_trusted_cidrs L \<union> dom (hm_get (km_trusted_cidrs m))) - gone sk_trusted_cidrs"
    "dom (hm_get (km_deny_cidrs m')) = (kn_node kn ` wanted_deny threat L \<union> dom (hm_get (km_deny_cidrs m))) - gone sk_deny_cidrs"
    using v drops by (simp_all add: after dom_hide gone image_comp)
qed

lemma after_sync_policies:
  assumes inv: "maps_inv m" and m': "m' = after_sync kn geo threat L old m"
    and old: "dom (hm_get (km_listener_policies m)) \<union> set (sk_listener_policies old) \<subseteq> spec_key ` set L"
  shows "dom (hm_get (km_listener_policies m')) = spec_key ` set L"
    and "hm_get (km_listener_policies m') k = Some p \<Longrightarrow> \<exists>spec \<in> set L. k = spec_key spec \<and> p = encode_listener_policy (xl_policy spec)"
proof -
  define m1 where "m1 = fold (apply_spec kn threat) L m"
  note v = apply_specs_view [OF inv, of kn threat L, unfolded Let_def, folded m1_def]
  have "set (difference (sk_listener_policies old) (sk_listener_policies (build_xdp_static_keys L geo threat))) = {}"
    using old by (auto simp: built_keys)
  then have "difference (sk_listener_policies old) (sk_listener_policies (build_xdp_static_keys L geo threat)) = []" by (simp only: set_empty)
  then have e: "km_listener_policies m' = km_listener_policies m1"
    unfolding m' after_sync_def Let_def m1_def by (simp add: drop_keys_def)
  have d: "dom (hm_get (km_listener_policies m1)) = spec_key ` set L \<union> dom (hm_get (km_listener_policies m))"
    using v by (elim conjE)
  have r: "\<forall>k p. hm_get (km_listener_policies m1) k = Some p \<longrightarrow>
           (hm_get (km_listener_policies m) k = Some p \<and> k \<notin> spec_key ` set L)
           \<or> (\<exists>spec \<in> set L. k = spec_key spec \<and> p = encode_listener_policy (xl_policy spec))"
    using v by (elim conjE)
  show "dom (hm_get (km_listener_policies m')) = spec_key ` set L" using d old by (auto simp: e)
  show "hm_get (km_listener_policies m') k = Some p \<Longrightarrow> \<exists>spec \<in> set L. k = spec_key spec \<and> p = encode_listener_policy (xl_policy spec)"
    using r old unfolding e by blast
qed

lemma after_sync_geo:
  assumes inv: "maps_inv m" and m': "m' = after_sync kn geo threat L old m"
    and gone: "gone = kn_geo_node kn ` geo_decoded ` (set (sk_geo_cidrs old) - set (sk_geo_cidrs (build_xdp_static_keys L geo threat)))"
  shows "dom (hm_get (km_geo_cidrs m')) = (kn_geo_node kn ` set (geo_keys L geo) \<union> dom (hm_get (km_geo_cidrs m))) - gone"
    and "hm_get (km_geo_cidrs m') k = Some c \<Longrightarrow> k \<in> kn_geo_node kn ` set (geo_keys L geo) \<Longrightarrow>
      \<exists>p \<in> set geo. k = kn_geo_node kn (make_geo_lpm_key (gp_addr p) (gp_prefix p)) \<and> c = gp_country p"
proof -
  define m1 where "m1 = fold (apply_spec kn threat) L m"
  note v = apply_specs_view [OF inv, of kn threat L, unfolded Let_def, folded m1_def]
  then have e1: "km_geo_cidrs m1 = km_geo_cidrs m" and i1: "hm_inv (km_geo_cidrs m)" using inv by (simp_all add: maps_inv_def)
  define g1 where "g1 = (if xdp_geo_enabled L then put_geos kn geo (km_geo_cidrs m) else km_geo_cidrs m)"
  have ig: "hm_inv g1" using put_geos_view [OF i1] i1 by (simp add: g1_def)
  have e: "km_geo_cidrs m' = drop_keys (map (kn_geo_node kn \<circ> geo_decoded) (difference (sk_geo_cidrs old) (sk_geo_cidrs (build_xdp_static_keys L geo threat)))) g1"
    unfolding m' after_sync_def Let_def by (simp add: g1_def e1 flip: m1_def)
  have get: "hm_get (km_geo_cidrs m') = (\<lambda>k. if k \<in> gone then None else hm_get g1 k)"
    unfolding e using drop_keys_view [OF ig] by (simp add: gone image_comp)
  show "dom (hm_get (km_geo_cidrs m')) = (kn_geo_node kn ` set (geo_keys L geo) \<union> dom (hm_get (km_geo_cidrs m))) - gone"
    using put_geos_view [OF i1, of kn geo] by (simp add: get dom_hide g1_def geo_keys_def image_comp o_def)
  show "\<exists>p \<in> set geo. k = kn_geo_node kn (make_geo_lpm_key (gp_addr p) (gp_prefix p)) \<and> c = gp_country p"
    if "hm_get (km_geo_cidrs m') k = Some c" "k \<in> kn_geo_node kn ` set (geo_keys L geo)"
  proof -
    have on: "xdp_geo_enabled L" and k: "k \<in> kn_geo_node kn ` (\<lambda>p. make_geo_lpm_key (gp_addr p) (gp_prefix p)) ` set geo"
      using that(2) by (auto simp: geo_keys_def split: if_splits)
    then have "hm_get (put_geos kn geo (km_geo_cidrs m)) k = Some c" using that(1) by (simp add: get g1_def split: if_splits)
    with k put_geos_view [OF i1, of kn geo] show ?thesis by blast
  qed
qed

lemma sync_tracks:
  assumes old: "tracks kn geo threat b" and sep: "separate kn (xa_listeners b) {(geo, threat), (geo', threat')}"
    and new: "xa_maps b' = after_sync kn geo' threat' (xa_listeners b) (xa_keys b) (xa_maps b)"
      "xa_listeners b' = xa_listeners b" "xa_keys b' = build_xdp_static_keys (xa_listeners b) geo' threat'"
  shows "tracks kn geo' threat' b'"
proof -
  let ?L = "xa_listeners b" and ?m = "xa_maps b" and ?m' = "xa_maps b'"
  have s: "synced kn ?L geo threat ?m" and k: "xa_keys b = build_xdp_static_keys ?L geo threat" using old by (simp_all add: tracks_def)
  have inv: "maps_inv ?m" using s by (simp add: synced_def)
  have doms: "dom (hm_get (km_allow_cidrs ?m)) = kn_node kn ` wanted ps_allow_cidrs ?L"
    "dom (hm_get (km_trusted_cidrs ?m)) = kn_node kn ` wanted ps_trusted_cidrs ?L"
    "dom (hm_get (km_deny_cidrs ?m)) = kn_node kn ` wanted_deny threat ?L"
    "dom (hm_get (km_geo_cidrs ?m)) = kn_geo_node kn ` set (geo_keys ?L geo)" using s by (simp_all add: synced_def)
  have inj: "inj_on (kn_node kn) (wanted_deny threat ?L \<union> wanted_deny threat' ?L)"
    "inj_on (kn_node kn) (wanted ps_allow_cidrs ?L \<union> wanted ps_allow_cidrs ?L)"
    "inj_on (kn_node kn) (wanted ps_trusted_cidrs ?L \<union> wanted ps_trusted_cidrs ?L)"
    "inj_on (kn_geo_node kn) (set (geo_keys ?L geo) \<union> set (geo_keys ?L geo'))"
    using sep by (auto simp: separate_def intro: inj_on_subset)
  note view = after_sync_view [OF inv new(1) refl, unfolded k built_keys doms]
  note geo_view = after_sync_geo [OF inv new(1) refl, unfolded k built_keys doms]
  note pol = after_sync_policies [OF inv new(1), unfolded k built_keys]
  have pol_old: "dom (hm_get (km_listener_policies ?m)) \<union> spec_key ` set ?L \<subseteq> spec_key ` set ?L" using s by (simp add: synced_def)
  have allow: "dom (hm_get (km_allow_cidrs ?m')) = kn_node kn ` wanted ps_allow_cidrs ?L"
    by (rule table_exact [OF refl view(2) _ inj(2)]) (auto simp: decoded_encode wanted_lengths)
  have trusted: "dom (hm_get (km_trusted_cidrs ?m')) = kn_node kn ` wanted ps_trusted_cidrs ?L"
    by (rule table_exact [OF refl view(3) _ inj(3)]) (auto simp: decoded_encode wanted_lengths)
  have deny: "dom (hm_get (km_deny_cidrs ?m')) = kn_node kn ` wanted_deny threat' ?L"
    by (rule table_exact [OF refl view(4) _ inj(1)]) (auto simp: decoded_encode wanted_lengths)
  have geo: "dom (hm_get (km_geo_cidrs ?m')) = kn_geo_node kn ` set (geo_keys ?L geo')"
    by (rule table_exact [OF refl geo_view(1) _ inj(4)]) (auto simp: geo_decoded_encode)
  have vals: "\<exists>p \<in> set geo'. k = kn_geo_node kn (make_geo_lpm_key (gp_addr p) (gp_prefix p)) \<and> c = gp_country p"
    if "hm_get (km_geo_cidrs ?m') k = Some c" for k c using geo_view(2) [OF that] geo that by (metis domI)
  show ?thesis unfolding tracks_def synced_def new(2)
    using view(1) allow trusted deny geo vals pol(1) [OF pol_old] pol(2) [OF pol_old] new(3) by blast
qed

end
