(* ===== verification/Kernel_Filter.thy ===== *)
theory Kernel_Filter
  imports Xdp_Filter
begin

text \<open>
  The kernel filter over its life: attaching, every refresh of the geo database and the threat
  feeds, the dynamic blocks, and what a packet meets in between.  The maps are shown to hold
  exactly what the last synchronisation asked for, and the decision of the filter is compared
  with the checks of \<open>check_packet\<close> in user space.
\<close>

section \<open>Attaching and synchronising\<close>

definition plan_input :: "xdp_listener_spec list \<Rightarrow> geo_ip_prefix list \<times> threat_ip_prefix list \<Rightarrow> fingerprint_input" where
  "plan_input L = (\<lambda>(geo, threat).
     \<lparr>fi_specs = map (\<lambda>spec. (spec, if ps_threat_intel (xl_policy spec) then threat else [])) L,
      fi_geo = (if xdp_geo_enabled L then geo else []), fi_keys = build_xdp_static_keys L geo threat\<rparr>)"

lemma plan_fingerprint: "sp_fingerprint (build_static_sync_plan hasher L geo threat) = hasher (plan_input L (geo, threat))"
  by (simp add: build_static_sync_plan_def plan_input_def Let_def)

text \<open>Inputs the fingerprint does not tell apart ask for the same contents.\<close>

lemma synced_same_plan:
  assumes "plan_input L (geo, threat) = plan_input L (geo', threat')" "synced kn L geo threat m"
  shows "synced kn L geo' threat' m"
proof -
  have t: "threat_keys spec threat = threat_keys spec threat'" if "spec \<in> set L" for spec
    using assms(1) that by (auto simp: plan_input_def threat_keys_def split: if_splits)
  have deny: "wanted_deny threat L = wanted_deny threat' L" using t by (simp add: wanted_deny_def)
  have g: "geo = geo' \<or> \<not> xdp_geo_enabled L" using assms(1) by (auto simp: plan_input_def split: if_splits)
  have keys: "geo_keys L geo = geo_keys L geo'" using g by (auto simp: geo_keys_def)
  have "km_geo_cidrs m = km_geo_cidrs m \<and> (\<forall>k c. hm_get (km_geo_cidrs m) k = Some c \<longrightarrow>
      (\<exists>p \<in> set geo'. k = kn_geo_node kn (make_geo_lpm_key (gp_addr p) (gp_prefix p)) \<and> c = gp_country p))"
  proof (cases "xdp_geo_enabled L")
    case True
    with g assms(2) show ?thesis by (simp add: synced_def)
  next
    case False
    then have "dom (hm_get (km_geo_cidrs m)) = {}" using assms(2) by (simp add: synced_def geo_keys_def)
    then show ?thesis by auto
  qed
  then show ?thesis using assms(2) deny keys by (simp add: synced_def)
qed

text \<open>Tables without entries of an earlier process.\<close>

definition fresh_maps :: "kernel_maps \<Rightarrow> bool" where
  "fresh_maps m \<longleftrightarrow> hm_inv (km_blocked_ips m) \<and> km_listener_policies m = hm_empty \<and> km_allow_cidrs m = hm_empty
     \<and> km_deny_cidrs m = hm_empty \<and> km_trusted_cidrs m = hm_empty \<and> km_geo_cidrs m = hm_empty"

lemma fresh_maps_inv: "fresh_maps m \<Longrightarrow> maps_inv m"
  by (simp add: fresh_maps_def maps_inv_def)

lemma first_sync:
  assumes "fresh_maps m" "m' = after_sync kn geo threat L xdp_static_keys_empty m"
  shows "synced kn L geo threat m'"
proof -
  have inv: "maps_inv m" using fresh_maps_inv [OF assms(1)] .
  have e: "dom (hm_get (km_listener_policies m)) = {}" "dom (hm_get (km_allow_cidrs m)) = {}" "dom (hm_get (km_deny_cidrs m)) = {}"
    "dom (hm_get (km_trusted_cidrs m)) = {}" "dom (hm_get (km_geo_cidrs m)) = {}"
    using assms(1) by (auto simp: fresh_maps_def)
  note v = after_sync_view [OF inv assms(2) refl, unfolded e] and g = after_sync_geo [OF inv assms(2) refl, unfolded e]
  have p: "dom (hm_get (km_listener_policies m)) \<union> set (sk_listener_policies xdp_static_keys_empty) \<subseteq> spec_key ` set L"
    by (simp add: e xdp_static_keys_empty_def)
  have dg: "dom (hm_get (km_geo_cidrs m')) = kn_geo_node kn ` set (geo_keys L geo)"
    using g(1) by (simp add: xdp_static_keys_empty_def)
  have "\<forall>k c. hm_get (km_geo_cidrs m') k = Some c \<longrightarrow>
      (\<exists>p \<in> set geo. k = kn_geo_node kn (make_geo_lpm_key (gp_addr p) (gp_prefix p)) \<and> c = gp_country p)"
    using g(2) dg by (metis domI)
  then show ?thesis
    using v dg after_sync_policies [OF inv assms(2) p] by (simp add: synced_def xdp_static_keys_empty_def)
qed

text \<open>A backend that is up to date with the inputs \<open>i\<close>, its fingerprint included.\<close>

definition current :: "xdp_kernel \<Rightarrow> (fingerprint_input \<Rightarrow> u64) \<Rightarrow> xdp_listener_spec list \<Rightarrow> geo_ip_prefix list \<times> threat_ip_prefix list \<Rightarrow> aya_backend \<Rightarrow> bool" where
  "current kn hasher L i b \<longleftrightarrow> xa_listeners b = L \<and> tracks kn (fst i) (snd i) b \<and> xa_fingerprint b = Some (hasher (plan_input L i))"

lemma separate_mono: "separate kn L G \<Longrightarrow> H \<subseteq> G \<Longrightarrow> separate kn L H"
  unfolding separate_def by (elim conjE, intro conjI; erule inj_on_subset) auto

lemma sync_current:
  assumes "current kn hasher L i b" "separate kn L {i, j}" "inj_on hasher {plan_input L i, plan_input L j}"
    and "sync_static_policy_prefixes kn hasher (fst j) (snd j) b = (Inr (), b')"
  shows "current kn hasher L j b'"
proof -
  have L: "xa_listeners b = L" and tr: "tracks kn (fst i) (snd i) b" and fp: "xa_fingerprint b = Some (hasher (plan_input L i))"
    using assms(1) by (simp_all add: current_def)
  from sync_maps [OF assms(4), unfolded plan_fingerprint L] consider
      (skip) "b' = b" "xa_fingerprint b = Some (hasher (plan_input L j))"
    | (run) "xa_maps b' = after_sync kn (fst j) (snd j) L (xa_keys b) (xa_maps b)" "xa_listeners b' = L"
        "xa_keys b' = build_xdp_static_keys L (fst j) (snd j)" "xa_fingerprint b' = Some (hasher (plan_input L j))"
    by auto
  then show ?thesis
  proof cases
    case skip
    then have same: "plan_input L i = plan_input L j" using fp inj_onD [OF assms(3), of "plan_input L i" "plan_input L j"] by simp
    then have "build_xdp_static_keys L (fst i) (snd i) = build_xdp_static_keys L (fst j) (snd j)"
      by (cases i; cases j) (simp add: plan_input_def)
    moreover have "synced kn L (fst j) (snd j) (xa_maps b)"
      using synced_same_plan [of L "fst i" "snd i" "fst j" "snd j"] same tr L by (simp add: tracks_def)
    ultimately show ?thesis using skip L tr by (simp add: current_def tracks_def)
  next
    case run
    have "tracks kn (fst j) (snd j) b'"
      using sync_tracks [OF tr, of "fst j" "snd j" b'] run assms(2) L by simp
    then show ?thesis using run by (simp add: current_def)
  qed
qed

lemma clear_blocklist_maps:
  assumes "clear_dynamic_blocklist kn b = (Inr (), b')" "hm_inv (km_blocked_ips (xa_maps b))"
  shows "\<exists>t. with_maps ((xa_maps b)\<lparr>km_blocked_ips := t\<rparr>) b b' \<and> hm_inv t \<and> hm_get t = Map.empty"
proof -
  let ?t = "drop_keys (map fst (km_blocked_ips (xa_maps b))) (km_blocked_ips (xa_maps b))"
  have "with_maps ((xa_maps b)\<lparr>km_blocked_ips := ?t\<rparr>) b b'"
    using step_each_deletes [where put = "\<lambda>t m. m\<lparr>km_blocked_ips := t\<rparr>" and tab = km_blocked_ips and key = "\<lambda>x. x",
        OF _ _ _ _ assms(1) [unfolded clear_dynamic_blocklist_def]] by simp
  moreover have "hm_inv ?t \<and> hm_get ?t = Map.empty"
    using drop_keys_view [OF assms(2)] by (auto simp: fun_eq_iff hm_get_def map_of_eq_None_iff)
  ultimately show ?thesis by blast
qed

lemma after_sync_blocked:
  assumes "maps_inv m"
  shows "km_blocked_ips (after_sync kn geo threat L old m) = km_blocked_ips m"
  using apply_specs_view [OF assms, of kn threat L] by (simp add: after_sync_def Let_def)

text \<open>The prefixes of two snapshots, as \<open>attach\<close> and \<open>sync_static_policy\<close> read them.\<close>

definition prefixes_of :: "geo_snapshot option \<times> threat_snapshot option \<Rightarrow> geo_ip_prefix list \<times> threat_ip_prefix list" where
  "prefixes_of = (\<lambda>(geo, threat). (case geo of None \<Rightarrow> [] | Some g \<Rightarrow> xdp_prefixes g,
     case threat of None \<Rightarrow> [] | Some t \<Rightarrow> threat_xdp_prefixes t))"

definition sync_all :: "xdp_kernel \<Rightarrow> (fingerprint_input \<Rightarrow> u64) \<Rightarrow> (geo_snapshot option \<times> threat_snapshot option) list \<Rightarrow> backend_step" where
  "sync_all kn hasher = step_each (\<lambda>(geo, threat). aya_sync_static_policy kn hasher geo threat)"

lemma bind_resE: "bind_res x f = Inr y \<Longrightarrow> (\<And>a. x = Inr a \<Longrightarrow> f a = Inr y \<Longrightarrow> P) \<Longrightarrow> P"
  by (auto simp: bind_res_Inr_iff)

lemma guardE: "(if c then Inl e else z) = Inr y \<Longrightarrow> (\<not> c \<Longrightarrow> z = Inr y \<Longrightarrow> P) \<Longrightarrow> P"
  by (cases c) simp_all

lemma attach_syncs:
  assumes "aya_attach kn hasher sys pinned interfaces L geo threat detach_stale sizing = Inr b'"
  obtains deny_gone geo_gone b b1 where
    "b = \<lparr>xa_listeners = L, xa_maps = pinned\<lparr>km_deny_cidrs := (if deny_gone then hm_empty else km_deny_cidrs pinned),
        km_geo_cidrs := (if geo_gone then hm_empty else km_geo_cidrs pinned)\<rparr>, xa_keys = xdp_static_keys_empty,
        xa_fingerprint = None, xa_ops = 0\<rparr>"
    "clear_dynamic_blocklist kn b = (Inr (), b1)"
    "sync_static_policy_prefixes kn hasher (fst (prefixes_of (geo, threat))) (snd (prefixes_of (geo, threat))) b1 = (Inr (), b')"
proof -
  let ?b = "\<lambda>deny_gone geo_gone. \<lparr>xa_listeners = L, xa_maps = pinned\<lparr>km_deny_cidrs := (if deny_gone then hm_empty else km_deny_cidrs pinned),
        km_geo_cidrs := (if geo_gone then hm_empty else km_geo_cidrs pinned)\<rparr>, xa_keys = xdp_static_keys_empty,
        xa_fingerprint = None, xa_ops = 0\<rparr>"
  let ?sync = "step_then (clear_dynamic_blocklist kn)
    (sync_static_policy_prefixes kn hasher (fst (prefixes_of (geo, threat))) (snd (prefixes_of (geo, threat))))"
  have "\<exists>deny_gone geo_gone. (case ?sync (?b deny_gone geo_gone) of (Inl e, _) \<Rightarrow> Inl e
      | (Inr _, b') \<Rightarrow> bind_res (resolve_interfaces sys interfaces) (\<lambda>resolved.
                      bind_res (if detach_stale then detach_stale_sigproxy_xdp sys resolved else Inr ()) (\<lambda>_.
                      bind_res (attach_interfaces sys resolved) (\<lambda>_. Inr b')))) = Inr b'"
    using assms unfolding aya_attach_def Let_def prefixes_of_def split fst_conv snd_conv
    by (elim bind_resE guardE) (intro exI)
  then obtain deny_gone geo_gone where d: "(case ?sync (?b deny_gone geo_gone) of (Inl e, _) \<Rightarrow> Inl e
      | (Inr _, b') \<Rightarrow> bind_res (resolve_interfaces sys interfaces) (\<lambda>resolved.
                      bind_res (if detach_stale then detach_stale_sigproxy_xdp sys resolved else Inr ()) (\<lambda>_.
                      bind_res (attach_interfaces sys resolved) (\<lambda>_. Inr b')))) = Inr b'"
    by blast
  have "?sync (?b deny_gone geo_gone) = (Inr (), b')"
  proof (cases "?sync (?b deny_gone geo_gone)")
    case (Pair r c)
    then show ?thesis using d by (cases r) (auto simp: bind_res_Inr_iff)
  qed
  with that [OF refl] show ?thesis unfolding step_then_Inr by blast
qed

lemma attach_current:
  assumes "fresh_maps pinned" "aya_attach kn hasher sys pinned interfaces L geo threat detach_stale sizing = Inr b'"
  shows "current kn hasher L (prefixes_of (geo, threat)) b' \<and> hm_get (km_blocked_ips (xa_maps b')) = Map.empty"
proof -
  obtain deny_gone geo_gone b b1 where b: "b = \<lparr>xa_listeners = L, xa_maps = pinned\<lparr>km_deny_cidrs := (if deny_gone then hm_empty else km_deny_cidrs pinned),
        km_geo_cidrs := (if geo_gone then hm_empty else km_geo_cidrs pinned)\<rparr>, xa_keys = xdp_static_keys_empty,
        xa_fingerprint = None, xa_ops = 0\<rparr>"
    and cl: "clear_dynamic_blocklist kn b = (Inr (), b1)"
    and sy: "sync_static_policy_prefixes kn hasher (fst (prefixes_of (geo, threat))) (snd (prefixes_of (geo, threat))) b1 = (Inr (), b')"
    using attach_syncs [OF assms(2)] by metis
  have "hm_inv (km_blocked_ips (xa_maps b))" using assms(1) by (simp add: b fresh_maps_def)
  from clear_blocklist_maps [OF cl this] obtain t where t: "with_maps ((xa_maps b)\<lparr>km_blocked_ips := t\<rparr>) b b1" "hm_inv t" "hm_get t = Map.empty"
    by blast
  have b1: "xa_listeners b1 = L" "xa_keys b1 = xdp_static_keys_empty" "xa_fingerprint b1 = None" "km_blocked_ips (xa_maps b1) = t" "fresh_maps (xa_maps b1)"
    using t assms(1) by (simp_all add: with_maps_def b fresh_maps_def)
  from sync_maps [OF sy, unfolded plan_fingerprint b1] have run:
    "xa_maps b' = after_sync kn (fst (prefixes_of (geo, threat))) (snd (prefixes_of (geo, threat))) L xdp_static_keys_empty (xa_maps b1)"
    "xa_listeners b' = L" "xa_keys b' = build_xdp_static_keys L (fst (prefixes_of (geo, threat))) (snd (prefixes_of (geo, threat)))"
    "xa_fingerprint b' = Some (hasher (plan_input L (prefixes_of (geo, threat))))" by auto
  have "hm_get (km_blocked_ips (xa_maps b')) = Map.empty"
    using after_sync_blocked [OF fresh_maps_inv [OF b1(5)]] by (simp add: run(1) b1(4) t(3))
  with first_sync [OF b1(5) run(1)] run show ?thesis by (simp add: current_def tracks_def)
qed

lemma sync_keeps_blocked:
  assumes "current kn hasher L i b" "sync_static_policy_prefixes kn hasher geo threat b = (Inr (), b')"
  shows "km_blocked_ips (xa_maps b') = km_blocked_ips (xa_maps b)"
proof -
  have "maps_inv (xa_maps b)" using assms(1) by (simp add: current_def tracks_def synced_def)
  with sync_maps [OF assms(2)] after_sync_blocked show ?thesis by metis
qed

lemma sync_all_current:
  assumes "current kn hasher L (prefixes_of s0) b0" "sync_all kn hasher hist b0 = (Inr (), b)"
    and "separate kn L (prefixes_of ` set (s0 # hist))" "inj_on hasher (plan_input L ` prefixes_of ` set (s0 # hist))"
  shows "current kn hasher L (prefixes_of (last (s0 # hist))) b \<and> km_blocked_ips (xa_maps b) = km_blocked_ips (xa_maps b0)"
  using assms
proof (induction hist arbitrary: s0 b0)
  case Nil
  then show ?case by (simp add: sync_all_def step_ok_def)
next
  case (Cons s hist)
  obtain geo threat where s: "s = (geo, threat)" by (cases s)
  from Cons.prems(2) obtain b1 where b1: "sync_static_policy_prefixes kn hasher (fst (prefixes_of s)) (snd (prefixes_of s)) b0 = (Inr (), b1)"
    "sync_all kn hasher hist b1 = (Inr (), b)"
    by (auto simp: s sync_all_def step_then_Inr aya_sync_static_policy_def prefixes_of_def)
  have sep: "separate kn L {prefixes_of s0, prefixes_of s}" "separate kn L (prefixes_of ` set (s # hist))"
    by (rule separate_mono [OF Cons.prems(3)]; simp; blast)+
  have inj: "inj_on hasher {plan_input L (prefixes_of s0), plan_input L (prefixes_of s)}" "inj_on hasher (plan_input L ` prefixes_of ` set (s # hist))"
    by (rule inj_on_subset [OF Cons.prems(4)]; simp; blast)+
  have "current kn hasher L (prefixes_of s) b1" by (rule sync_current [OF Cons.prems(1) sep(1) inj(1) b1(1)])
  from Cons.IH [OF this b1(2) sep(2) inj(2)] sync_keeps_blocked [OF Cons.prems(1) b1(1)] show ?case by simp
qed

text \<open>
  C7: the kernel tables follow the configuration.  Attached to tables without entries of an
  earlier process, and after any number of successful refreshes, the tables hold exactly what
  the listeners ask for with the geo database and the feeds of the last refresh: a policy per
  listener, the allowed, trusted and denied prefixes, the listed prefixes of the feeds for the
  listeners that use them and the prefixes of the countries, and nothing of what an earlier
  refresh wrote.  Dynamic blocks of an earlier process are gone.  (The fingerprint tells the
  inputs of these refreshes apart, and no two prefixes in use are one node of a table.)
\<close>

theorem static_sync_exact:
  assumes "fresh_maps pinned"
    and "aya_attach kn hasher sys pinned interfaces L geo threat detach_stale sizing = Inr b0"
    and "sync_all kn hasher hist b0 = (Inr (), b)"
    and "separate kn L (prefixes_of ` set ((geo, threat) # hist))"
    and "inj_on hasher (plan_input L ` prefixes_of ` set ((geo, threat) # hist))"
    and "prefixes_of (last ((geo, threat) # hist)) = (geo_prefixes, threat_prefixes)"
  shows "synced kn L geo_prefixes threat_prefixes (xa_maps b) \<and> hm_get (km_blocked_ips (xa_maps b)) = Map.empty"
proof -
  note a = attach_current [OF assms(1,2)]
  from sync_all_current [OF conjunct1 [OF a] assms(3-5)] a assms(6) show ?thesis
    by (auto simp: current_def tracks_def)
qed


section \<open>What a packet meets\<close>

text \<open>
  The documented behaviour of the prefix tables: an entry covers a key that is at least as long
  and agrees with it on its prefix; a look-up finds the value of a longest entry that covers the
  key; a node of the table covers what the key it was inserted under covers.
\<close>

definition lpm_covers :: "xdp_lpm_key \<Rightarrow> xdp_lpm_key \<Rightarrow> bool" where
  "lpm_covers k' k \<longleftrightarrow> pk_prefix_len k' \<le> pk_prefix_len k \<and> lpm_matches k' k"

definition geo_covers :: "xdp_geo_lpm_key \<Rightarrow> xdp_geo_lpm_key \<Rightarrow> bool" where
  "geo_covers k' k \<longleftrightarrow> gk_prefix_len k' \<le> gk_prefix_len k \<and> geo_lpm_matches k' k"

definition prefix_tables ::
  "xdp_kernel \<Rightarrow> ((xdp_lpm_key, u8) hmap \<Rightarrow> xdp_lpm_key \<Rightarrow> bool) \<Rightarrow> ((xdp_geo_lpm_key, u16) hmap \<Rightarrow> xdp_geo_lpm_key \<Rightarrow> u16 option) \<Rightarrow> bool" where
  "prefix_tables kn has geo \<longleftrightarrow>
     (\<forall>t k. has t k \<longleftrightarrow> (\<exists>k' \<in> dom (hm_get t). lpm_covers k' k))
     \<and> (\<forall>t k. case geo t k of
          None \<Rightarrow> \<forall>k' \<in> dom (hm_get t). \<not> geo_covers k' k
        | Some c \<Rightarrow> \<exists>k'. hm_get t k' = Some c \<and> geo_covers k' k
            \<and> (\<forall>k'' \<in> dom (hm_get t). geo_covers k'' k \<longrightarrow> gk_prefix_len k'' \<le> gk_prefix_len k'))
     \<and> (\<forall>k k'. lpm_covers (kn_node kn k) k' \<longleftrightarrow> lpm_covers k k')
     \<and> (\<forall>k k'. geo_covers (kn_geo_node kn k) k' \<longleftrightarrow> geo_covers k k')"

lemma has_iff:
  assumes "prefix_tables kn has geo" "dom (hm_get t) = kn_node kn ` K"
  shows "has t k \<longleftrightarrow> (\<exists>k' \<in> K. lpm_covers k' k)"
  using assms by (simp add: prefix_tables_def)

lemma block_family: "in_block a n ip \<Longrightarrow> max_prefix a = max_prefix ip"
  by (cases a; cases ip) (simp_all add: max_prefix_def)

lemma packet_len:
  assumes "p \<le> max_prefix a" "max_prefix a = max_prefix ip"
  shows "(ucast (32 + p :: u8) :: u32) \<le> ucast (32 + max_prefix ip)"
  using assms by (simp add: word_le_nat_alt prefix_len [OF assms(1)] prefix_len [OF order_refl])

lemma make_lpm_key_covers:
  assumes "p \<le> max_prefix a"
  shows "lpm_covers (make_lpm_key proto port a p) (make_lpm_key proto' port' ip (max_prefix ip)) \<longleftrightarrow>
    proto = proto' \<and> port = port' \<and> in_block a (unat p) ip"
  unfolding lpm_covers_def make_lpm_key_matches [OF assms]
  using packet_len [OF assms block_family] by (auto simp: make_lpm_key_def)

lemma make_geo_lpm_key_covers:
  assumes "p \<le> max_prefix a"
  shows "geo_covers (make_geo_lpm_key a p) (make_geo_lpm_key ip (max_prefix ip)) \<longleftrightarrow> in_block a (unat p) ip"
  unfolding geo_covers_def make_geo_lpm_key_matches [OF assms]
  using packet_len [OF assms block_family] by (auto simp: make_geo_lpm_key_def)

lemma swap16_inject [simp]: "swap16 p = swap16 q \<longleftrightarrow> p = q"
  using ne_bytes_swap16 [of p] ne_bytes_swap16 [of q] to_be_inject [of 2 p q] by auto

definition spec_wf :: "xdp_listener_spec \<Rightarrow> bool" where
  "spec_wf spec \<longleftrightarrow> list_all xdp_wf (ps_trusted_cidrs (xl_policy spec)) \<and> list_all xdp_wf (ps_allow_cidrs (xl_policy spec))
     \<and> list_all xdp_wf (ps_deny_cidrs (xl_policy spec))"

definition spec_port :: "xdp_listener_spec \<Rightarrow> u8 \<times> u16" where
  "spec_port spec = (xl_l4_proto spec, xl_port spec)"

text \<open>The key of a packet from \<open>ip\<close> to a listener.\<close>

definition packet_key :: "xdp_listener_spec \<Rightarrow> ip_addr \<Rightarrow> xdp_lpm_key" where
  "packet_key spec ip = make_lpm_key (xl_l4_proto spec) (xl_port spec) ip (max_prefix ip)"

lemma cidr_keys_cover:
  assumes "list_all xdp_wf cidrs"
  shows "(\<exists>k' \<in> set (cidr_keys spec' cidrs). lpm_covers k' (packet_key spec ip)) \<longleftrightarrow>
    spec_port spec' = spec_port spec \<and> list_ex (\<lambda>c. xdp_contains c ip) cidrs"
  using assms make_lpm_key_covers unfolding cidr_keys_def packet_key_def spec_lpm_key_def spec_port_def xdp_contains_def xdp_wf_def
  by (auto simp: list_all_iff list_ex_iff)

lemma threat_keys_cover:
  assumes "list_all tp_valid threat"
  shows "(\<exists>k' \<in> set (threat_keys spec' threat). lpm_covers k' (packet_key spec ip)) \<longleftrightarrow>
    spec_port spec' = spec_port spec \<and> ps_threat_intel (xl_policy spec') \<and> (\<exists>p \<in> set threat. tp_matches p ip)"
  using assms make_lpm_key_covers unfolding threat_keys_def packet_key_def spec_lpm_key_def spec_port_def tp_matches_def tp_valid_def
  by (auto simp: list_all_iff)

lemma spec_of_port: "spec \<in> set L \<Longrightarrow> spec' \<in> set L \<Longrightarrow> distinct (map spec_port L) \<Longrightarrow> spec_port spec' = spec_port spec \<Longrightarrow> spec' = spec"
  by (auto simp: distinct_map inj_on_def)

lemma wanted_covers:
  assumes "list_all (\<lambda>s. list_all xdp_wf (sel (xl_policy s))) L" "spec \<in> set L" "distinct (map spec_port L)"
  shows "(\<exists>k' \<in> wanted sel L. lpm_covers k' (packet_key spec ip)) \<longleftrightarrow> list_ex (\<lambda>c. xdp_contains c ip) (sel (xl_policy spec))"
  unfolding wanted_def using assms cidr_keys_cover spec_of_port [OF assms(2) _ assms(3)] by (auto simp: list_all_iff) metis+

lemma threats_cover:
  assumes "list_all tp_valid threat" "spec \<in> set L" "distinct (map spec_port L)"
  shows "(\<exists>k' \<in> (\<Union>s \<in> set L. set (threat_keys s threat)). lpm_covers k' (packet_key spec ip)) \<longleftrightarrow>
    ps_threat_intel (xl_policy spec) \<and> (\<exists>p \<in> set threat. tp_matches p ip)"
  using assms threat_keys_cover [OF assms(1)] spec_of_port [OF assms(2) _ assms(3)] by auto


lemma geo_prefix_wf: "p \<in> set (xdp_prefixes s) \<Longrightarrow> gp_prefix p \<le> max_prefix (gp_addr p)"
proof -
  assume p: "p \<in> set (xdp_prefixes s)"
  have le: "(word_of_nat (bits - k) :: u8) \<le> word_of_nat bits" if "bits \<le> 128" for bits k
    using that by (simp only: word_le_nat_alt) (simp only: unat_of_nat, simp)
  have "gp_prefix q \<le> max_prefix (gp_addr q)" if "q \<in> set (append_range_prefixes a b bits c [])" "bits = 32 \<or> bits = 128" for q a b bits c
    using that le [of bits] by (auto simp: append_range_prefixes_def prefix_addr_def max_prefix_def simp del: of_nat_diff)
  with p show ?thesis by (auto simp: xdp_prefixes_def Let_def foldl_append_range_prefixes)
qed

text \<open>The geo look-up of the filter is the look-up of the snapshot.\<close>

lemma geo_lookup_agrees:
  assumes "prefix_tables kn has geo" "synced kn L (xdp_prefixes s) threat m" "snapshot_wf s" "xdp_geo_enabled L"
  shows "geo (km_geo_cidrs m) (make_geo_lpm_key ip (max_prefix ip)) = lookup_country s ip"
proof -
  let ?k = "make_geo_lpm_key ip (max_prefix ip)" and ?t = "km_geo_cidrs m"
  have look: "lookup_country s ip = Some c \<longleftrightarrow> (\<exists>p \<in> set (xdp_prefixes s). gp_country p = c \<and> in_block (gp_addr p) (unat (gp_prefix p)) ip)" for c
    using xdp_prefixes_match [of s c ip] lookup_country_iff [OF assms(3), of ip c] by (simp add: prefix_matches_def)
  have node: "geo_covers (kn_geo_node kn k) k' \<longleftrightarrow> geo_covers k k'" for k k' using assms(1) by (simp add: prefix_tables_def)
  have cov: "geo_covers (kn_geo_node kn (make_geo_lpm_key (gp_addr p) (gp_prefix p))) ?k \<longleftrightarrow> in_block (gp_addr p) (unat (gp_prefix p)) ip"
    if "p \<in> set (xdp_prefixes s)" for p unfolding node by (rule make_geo_lpm_key_covers [OF geo_prefix_wf [OF that]])
  have entry: "\<exists>p \<in> set (xdp_prefixes s). k = kn_geo_node kn (make_geo_lpm_key (gp_addr p) (gp_prefix p)) \<and> c = gp_country p"
    if "hm_get ?t k = Some c" for k c proof -
    have "\<forall>k c. hm_get ?t k = Some c \<longrightarrow>
        (\<exists>p \<in> set (xdp_prefixes s). k = kn_geo_node kn (make_geo_lpm_key (gp_addr p) (gp_prefix p)) \<and> c = gp_country p)"
      using assms(2) unfolding synced_def by (elim conjE)
    with that show ?thesis by blast
  qed
  have dom: "dom (hm_get ?t) = kn_geo_node kn ` set (geo_keys L (xdp_prefixes s))" using assms(2) by (simp add: synced_def)
  have law: "case geo ?t ?k of None \<Rightarrow> \<forall>k' \<in> dom (hm_get ?t). \<not> geo_covers k' ?k
      | Some c \<Rightarrow> \<exists>k'. hm_get ?t k' = Some c \<and> geo_covers k' ?k
          \<and> (\<forall>k'' \<in> dom (hm_get ?t). geo_covers k'' ?k \<longrightarrow> gk_prefix_len k'' \<le> gk_prefix_len k')"
    using assms(1) by (simp add: prefix_tables_def)
  show ?thesis
  proof (cases "geo ?t ?k")
    case None
    then have "\<not> in_block (gp_addr p) (unat (gp_prefix p)) ip" if "p \<in> set (xdp_prefixes s)" for p
      using law cov [OF that] that assms(4) by (auto simp: dom geo_keys_def)
    then have "lookup_country s ip \<noteq> Some c" for c using look by blast
    then show ?thesis using None by (cases "lookup_country s ip") auto
  next
    case (Some c)
    then obtain k' where "hm_get ?t k' = Some c" "geo_covers k' ?k" using law by auto
    with entry [OF this(1)] cov look [of c] Some show ?thesis by metis
  qed
qed

text \<open>Settings a listener runs with, in the kernel and in user space.\<close>

lemma encode_countries_nonempty: "set_country_bits bits vs = Inr bits' \<Longrightarrow> encode_countries vs = [] \<longleftrightarrow> vs = []"
  by (cases vs) (auto simp: encode_countries_def List.map_filter_def bind_res_Inr_iff dest!: set_country_bit_step)

lemma policy_cidrs:
  assumes "policy_from_security security = Inr p" "listener_security_new security = Inr r" "xe_cidr_filter (se_xdp security)"
  shows "list_ex (\<lambda>c. xdp_contains c ip) (ps_trusted_cidrs p) \<longleftrightarrow> is_trusted r ip"
    "list_ex (\<lambda>c. xdp_contains c ip) (ps_deny_cidrs p) \<longleftrightarrow> is_denied r ip"
    "ps_allow_cidrs p = [] \<or> list_ex (\<lambda>c. xdp_contains c ip) (ps_allow_cidrs p) \<longleftrightarrow> is_allowed r ip"
proof -
  have x: "parse_xdp_cidrs (se_trusted_cidrs security) = Inr (ps_trusted_cidrs p)"
    "parse_xdp_cidrs (se_allow_cidrs security) = Inr (ps_allow_cidrs p)" "parse_xdp_cidrs (se_deny_cidrs security) = Inr (ps_deny_cidrs p)"
    using assms(1,3) by (auto simp: policy_from_security_def Let_def bind_res_Inr_iff)
  have u: "parse_cidrs (se_trusted_cidrs security) = Inr (ls_trusted_cidrs r)"
    "parse_cidrs (se_allow_cidrs security) = Inr (ls_allow_cidrs r)" "parse_cidrs (se_deny_cidrs security) = Inr (ls_deny_cidrs r)"
    using assms(2) by (auto simp: listener_security_new_def bind_res_Inr_iff)
  note c = parse_xdp_cidrs_sound(2) [of _ _ _ ip] parse_xdp_cidrs_sound(3)
  show "list_ex (\<lambda>c. xdp_contains c ip) (ps_trusted_cidrs p) \<longleftrightarrow> is_trusted r ip"
    "list_ex (\<lambda>c. xdp_contains c ip) (ps_deny_cidrs p) \<longleftrightarrow> is_denied r ip"
    "ps_allow_cidrs p = [] \<or> list_ex (\<lambda>c. xdp_contains c ip) (ps_allow_cidrs p) \<longleftrightarrow> is_allowed r ip"
    using c(1) [OF x(1) u(1)] c(1) [OF x(2) u(2)] c(1) [OF x(3) u(3)] c(2) [OF x(2) u(2)]
    by (simp_all add: is_trusted_def is_denied_def is_allowed_def)
qed

lemma policy_flags:
  assumes "policy_from_security security = Inr p" "xe_geo_filter (se_xdp security)"
  shows "ps_flags p AND xdp_policy_cidr_allow_enabled \<noteq> 0 \<longleftrightarrow> ps_allow_cidrs p \<noteq> []"
    "ps_flags p AND xdp_policy_geo_enabled \<noteq> 0 \<longleftrightarrow> ge_enabled (se_geo security)"
    "ge_enabled (se_geo security) \<Longrightarrow> ps_flags p AND xdp_policy_geo_unknown_allow \<noteq> 0 \<longleftrightarrow> ge_unknown_country (se_geo security) = UnknownAllow"
    "ge_enabled (se_geo security) \<Longrightarrow> ps_flags p AND xdp_policy_geo_allow_has_entries \<noteq> 0 \<longleftrightarrow> ge_allow_countries (se_geo security) \<noteq> []"
proof -
  obtain geo_flags allow deny limited flooding where g: "geo_spec security = Inr (geo_flags, allow, deny)"
    and f: "ps_flags p = flag_if (ps_allow_cidrs p \<noteq> []) xdp_policy_cidr_allow_enabled OR geo_flags
        OR flag_if limited xdp_policy_ip_rate_limit_enabled OR flag_if flooding xdp_policy_flood_enabled"
    using assms(1) by (auto simp: policy_from_security_def Let_def bind_res_Inr_iff)
  have gf: "geo_flags = (if ge_enabled (se_geo security) then xdp_policy_geo_enabled
      OR flag_if (ge_unknown_country (se_geo security) = UnknownAllow) xdp_policy_geo_unknown_allow
      OR flag_if (ge_allow_countries (se_geo security) \<noteq> []) xdp_policy_geo_allow_has_entries else 0)"
    using g assms(2) by (auto simp: geo_spec_def Let_def bind_res_Inr_iff split: if_splits)
  show "ps_flags p AND xdp_policy_cidr_allow_enabled \<noteq> 0 \<longleftrightarrow> ps_allow_cidrs p \<noteq> []"
    "ps_flags p AND xdp_policy_geo_enabled \<noteq> 0 \<longleftrightarrow> ge_enabled (se_geo security)"
    "ge_enabled (se_geo security) \<Longrightarrow> ps_flags p AND xdp_policy_geo_unknown_allow \<noteq> 0 \<longleftrightarrow> ge_unknown_country (se_geo security) = UnknownAllow"
    "ge_enabled (se_geo security) \<Longrightarrow> ps_flags p AND xdp_policy_geo_allow_has_entries \<noteq> 0 \<longleftrightarrow> ge_allow_countries (se_geo security) \<noteq> []"
    unfolding f gf by (simp_all add: flag_if_def xdp_consts)
qed

lemma policy_countries:
  assumes "policy_from_security security = Inr p" "xe_geo_filter (se_xdp security)" "ge_enabled (se_geo security)"
  shows "country_bit_is_set (ps_geo_deny p) c \<longleftrightarrow> c \<in> set (encode_countries (ge_deny_countries (se_geo security)))"
    "country_bit_is_set (ps_geo_allow p) c \<longleftrightarrow> c \<in> set (encode_countries (ge_allow_countries (se_geo security)))"
    "encode_countries (ge_allow_countries (se_geo security)) = [] \<longleftrightarrow> ge_allow_countries (se_geo security) = []"
proof -
  have s: "set_country_bits (replicate 11 0) (ge_allow_countries (se_geo security)) = Inr (ps_geo_allow p)"
    "set_country_bits (replicate 11 0) (ge_deny_countries (se_geo security)) = Inr (ps_geo_deny p)"
    using assms by (auto simp: policy_from_security_def geo_spec_def Let_def bind_res_Inr_iff xdp_country_words_def)
  show "country_bit_is_set (ps_geo_deny p) c \<longleftrightarrow> c \<in> set (encode_countries (ge_deny_countries (se_geo security)))"
    "country_bit_is_set (ps_geo_allow p) c \<longleftrightarrow> c \<in> set (encode_countries (ge_allow_countries (se_geo security)))"
    using set_country_bits_sound [OF s(1)] set_country_bits_sound [OF s(2)] by simp_all
  show "encode_countries (ge_allow_countries (se_geo security)) = [] \<longleftrightarrow> ge_allow_countries (se_geo security) = []"
    by (rule encode_countries_nonempty [OF s(1)])
qed


lemma synced_policy:
  assumes "synced kn L geo threat m" "spec \<in> set L" "distinct (map spec_port L)"
  shows "hm_get (km_listener_policies m) (spec_key spec) = Some (encode_listener_policy (xl_policy spec))"
proof -
  have "spec_key spec \<in> dom (hm_get (km_listener_policies m))" using assms(1,2) by (simp add: synced_def)
  then obtain p where p: "hm_get (km_listener_policies m) (spec_key spec) = Some p" by blast
  have "\<forall>k p. hm_get (km_listener_policies m) k = Some p \<longrightarrow>
          (\<exists>spec \<in> set L. k = spec_key spec \<and> p = encode_listener_policy (xl_policy spec))"
    using assms(1) unfolding synced_def by (elim conjE)
  with p obtain spec' where s: "spec' \<in> set L" "spec_key spec = spec_key spec'" "p = encode_listener_policy (xl_policy spec')" by blast
  from s(2) have "spec_port spec' = spec_port spec" by (simp add: spec_key_def spec_port_def make_listener_key_def)
  with spec_of_port [OF assms(2) s(1) assms(3)] s(3) p show ?thesis by simp
qed

lemma table_lookups:
  assumes "prefix_tables kn has geo" "synced kn L gps threat m" "list_all spec_wf L" "list_all tp_valid threat"
    and "spec \<in> set L" "distinct (map spec_port L)"
  shows "has (km_trusted_cidrs m) (packet_key spec ip) \<longleftrightarrow> list_ex (\<lambda>c. xdp_contains c ip) (ps_trusted_cidrs (xl_policy spec))"
    "has (km_allow_cidrs m) (packet_key spec ip) \<longleftrightarrow> list_ex (\<lambda>c. xdp_contains c ip) (ps_allow_cidrs (xl_policy spec))"
    "has (km_deny_cidrs m) (packet_key spec ip) \<longleftrightarrow> list_ex (\<lambda>c. xdp_contains c ip) (ps_deny_cidrs (xl_policy spec))
       \<or> ps_threat_intel (xl_policy spec) \<and> (\<exists>p \<in> set threat. tp_matches p ip)"
proof -
  have d: "dom (hm_get (km_trusted_cidrs m)) = kn_node kn ` wanted ps_trusted_cidrs L"
    "dom (hm_get (km_allow_cidrs m)) = kn_node kn ` wanted ps_allow_cidrs L"
    "dom (hm_get (km_deny_cidrs m)) = kn_node kn ` wanted_deny threat L" using assms(2) by (simp_all add: synced_def)
  have wf: "list_all (\<lambda>s. list_all xdp_wf (ps_trusted_cidrs (xl_policy s))) L" "list_all (\<lambda>s. list_all xdp_wf (ps_allow_cidrs (xl_policy s))) L"
    "list_all (\<lambda>s. list_all xdp_wf (ps_deny_cidrs (xl_policy s))) L" using assms(3) by (simp_all add: spec_wf_def list_all_iff)
  note cover = wanted_covers [OF _ assms(5,6), of _ ip] and has = has_iff [OF assms(1)]
  show "has (km_trusted_cidrs m) (packet_key spec ip) \<longleftrightarrow> list_ex (\<lambda>c. xdp_contains c ip) (ps_trusted_cidrs (xl_policy spec))"
    unfolding has [OF d(1)] by (rule cover [OF wf(1)])
  show "has (km_allow_cidrs m) (packet_key spec ip) \<longleftrightarrow> list_ex (\<lambda>c. xdp_contains c ip) (ps_allow_cidrs (xl_policy spec))"
    unfolding has [OF d(2)] by (rule cover [OF wf(2)])
  show "has (km_deny_cidrs m) (packet_key spec ip) \<longleftrightarrow> list_ex (\<lambda>c. xdp_contains c ip) (ps_deny_cidrs (xl_policy spec))
      \<or> ps_threat_intel (xl_policy spec) \<and> (\<exists>p \<in> set threat. tp_matches p ip)"
    unfolding has [OF d(3)] wanted_deny_def bex_Un cover [OF wf(3)] threats_cover [OF assms(4-6)] ..
qed

text \<open>
  C6: the kernel filter decides what the checks in user space decide.  With tables that are in
  step with the settings, a geo snapshot and a threat snapshot, and with the address, country
  and threat checks of a listener moved to the kernel, a packet to the listener is dropped when
  its source is denied, listed by a feed or not allowed; otherwise it is passed when the source
  is trusted, dropped when it is blocked or the geo policy refuses its country, and else left
  to the rate limits.  Every one of these questions is answered as \<open>is_denied\<close>, \<open>is_allowed\<close>,
  \<open>is_trusted\<close>, \<open>evaluate_geo_policy\<close> and \<open>evaluate_threat_policy\<close> answer it; only the order
  differs (a listed source is dropped even when it is trusted, and a trusted one passes even
  when it is blocked).
\<close>

theorem kernel_filter_decision:
  assumes "prefix_tables kn has geo"
    and "synced kn L (xdp_prefixes s) (threat_xdp_prefixes (build_snapshot now ps)) m"
    and "snapshot_wf s" "list_all tp_valid ps" "list_all spec_wf L" "distinct (map spec_port L)"
    and "spec \<in> set L" "spec_from_listener listener security = Inr spec" "listener_security_new security = Inr r"
    and "xe_cidr_filter (se_xdp security)" "xe_geo_filter (se_xdp security)" "xe_threat_intel (se_xdp security)"
  shows "evaluate_packet has geo m (xl_l4_proto spec) (xl_port spec) ip =
    (if is_denied r ip \<or> evaluate_threat_policy (ls_threat_policy r) (Some (build_snapshot now ps)) ip \<noteq> ThreatAllow then FilterDrop
     else if \<not> is_allowed r ip then FilterDrop
     else if is_trusted r ip then FilterPass
     else if hm_get (km_blocked_ips m) (make_ip_key (xl_l4_proto spec) (xl_port spec) ip) \<noteq> None then FilterDrop
     else if evaluate_geo_policy (ls_geo_policy r) (Some s) ip \<noteq> GeoAllow then FilterDrop
     else FilterRate)"
proof -
  define p where "p = xl_policy spec"
  have pol: "policy_from_security security = Inr p"
    using assms(8) by (auto simp: spec_from_listener_def bind_res_Inr_iff p_def split: option.splits)
  have r: "ls_geo_policy r = geo_policy_from_config (se_geo security)" "ls_threat_policy r = threat_policy_from_config (se_threat_intel security)"
    using assms(9) by (auto simp: listener_security_new_def bind_res_Inr_iff)
  have valid: "list_all tp_valid (threat_xdp_prefixes (build_snapshot now ps))"
    using normalized_prefixes(1) [OF assms(4)] by (simp add: threat_xdp_prefixes_def build_snapshot_def Let_def)
  note look = table_lookups [OF assms(1,2,5) valid assms(7,6), of ip, folded p_def, unfolded packet_key_def]
  have threat: "ps_threat_intel p \<and> (\<exists>q \<in> set (threat_xdp_prefixes (build_snapshot now ps)). tp_matches q ip) \<longleftrightarrow>
      evaluate_threat_policy (ls_threat_policy r) (Some (build_snapshot now ps)) ip \<noteq> ThreatAllow"
  proof -
    have "ps_threat_intel p \<longleftrightarrow> te_enabled (se_threat_intel security)"
      using pol assms(12) by (auto simp: policy_from_security_def Let_def bind_res_Inr_iff)
    moreover have "(\<exists>q \<in> set (threat_xdp_prefixes (build_snapshot now ps)). tp_matches q ip) \<longleftrightarrow> threat_contains (build_snapshot now ps) ip"
      using normalized_prefixes(2) [OF assms(4)] build_snapshot_contains [OF assms(4)]
      by (simp add: threat_xdp_prefixes_def) (simp add: build_snapshot_def Let_def)
    ultimately show ?thesis by (simp add: evaluate_threat_policy_def r threat_policy_from_config_def)
  qed
  have key: "hm_get (km_listener_policies m) (make_listener_key (xl_l4_proto spec) (xl_port spec)) = Some (encode_listener_policy p)"
    using synced_policy [OF assms(2,7,6)] by (simp add: spec_key_def p_def)
  note cidrs = policy_cidrs [OF pol assms(9,10), of ip] and flags = policy_flags [OF pol assms(11)]
  have allowed: "ps_flags p AND xdp_policy_cidr_allow_enabled \<noteq> 0 \<and> \<not> list_ex (\<lambda>c. xdp_contains c ip) (ps_allow_cidrs p) \<longleftrightarrow> \<not> is_allowed r ip"
    using flags(1) cidrs(3) by auto
  show ?thesis
  proof (cases "ge_enabled (se_geo security)")
    case False
    then show ?thesis using flags(2) allowed
      by (simp add: evaluate_packet_def Let_def key look cidrs threat encode_listener_policy_def evaluate_geo_policy_def r geo_policy_from_config_def)
  next
    case True
    then have "xdp_geo_enabled L" using flags(2) assms(7) by (auto simp: xdp_geo_enabled_def list_ex_iff p_def)
    note g = geo_lookup_agrees [OF assms(1,2,3) this, of ip] and c = policy_countries [OF pol assms(11) True]
    show ?thesis using flags(2) flags(3,4) [OF True] allowed True
      by (auto simp: evaluate_packet_def Let_def key look cidrs threat encode_listener_policy_def evaluate_geo_policy_def r
          geo_policy_from_config_def g c split: option.split)
  qed
qed


text \<open>
  The trusted prefixes of the listeners never change, so no refresh removes a trusted prefix.
\<close>

definition keeps_trusted :: "xdp_listener_spec list \<Rightarrow> xdp_lpm_key \<Rightarrow> aya_backend \<Rightarrow> bool" where
  "keeps_trusted L k b \<longleftrightarrow> xa_listeners b = L \<and> maps_inv (xa_maps b) \<and> k \<in> dom (hm_get (km_trusted_cidrs (xa_maps b)))
     \<and> set (sk_trusted_cidrs (xa_keys b)) \<subseteq> encode_lpm_key_bytes ` wanted ps_trusted_cidrs L"

lemma sync_keeps_trusted:
  assumes "keeps_trusted L k b" "sync_static_policy_prefixes kn hasher geo threat b = (Inr (), b')"
  shows "keeps_trusted L k b'"
proof -
  have b: "xa_listeners b = L" "maps_inv (xa_maps b)" "k \<in> dom (hm_get (km_trusted_cidrs (xa_maps b)))"
    and sub: "set (sk_trusted_cidrs (xa_keys b)) \<subseteq> encode_lpm_key_bytes ` wanted ps_trusted_cidrs L"
    using assms(1) by (simp_all add: keeps_trusted_def)
  from sync_maps [OF assms(2), unfolded b] consider "b' = b"
    | (run) "xa_maps b' = after_sync kn geo threat L (xa_keys b) (xa_maps b)" "xa_listeners b' = L"
        "xa_keys b' = build_xdp_static_keys L geo threat" by blast
  then show ?thesis
  proof cases
    case run
    have none: "set (sk_trusted_cidrs (xa_keys b)) - encode_lpm_key_bytes ` wanted ps_trusted_cidrs L = {}" using sub by blast
    note v = after_sync_view(1,3) [OF b(2) run(1) refl]
    have "k \<in> dom (hm_get (km_trusted_cidrs (xa_maps b')))" unfolding v(2) built_keys none using b(3) by simp
    then show ?thesis using v(1) run by (simp add: keeps_trusted_def built_keys)
  qed (use assms(1) in simp)
qed

lemma sync_all_keeps_trusted:
  "keeps_trusted L k b \<Longrightarrow> sync_all kn hasher hist b = (Inr (), b') \<Longrightarrow> keeps_trusted L k b'"
proof (induction hist arbitrary: b)
  case (Cons s hist)
  from Cons.prems(2) obtain b1 where b1: "sync_static_policy_prefixes kn hasher (fst (prefixes_of s)) (snd (prefixes_of s)) b = (Inr (), b1)"
    "sync_all kn hasher hist b1 = (Inr (), b')"
    by (cases s) (auto simp: sync_all_def step_then_Inr aya_sync_static_policy_def prefixes_of_def)
  show ?case by (rule Cons.IH [OF sync_keeps_trusted [OF Cons.prems(1) b1(1)] b1(2)])
qed (simp add: sync_all_def step_ok_def)

text \<open>
  C9: entries of an earlier process stay.  The tables are pinned and survive a restart, and the
  new process starts with an empty record of what it wrote; so an address the trusted table of an
  earlier process covers passes the filter as trusted after attaching and after every refresh,
  whatever the settings are now.
\<close>

theorem pinned_trust_survives:
  assumes "maps_inv pinned" "k \<in> dom (hm_get (km_trusted_cidrs pinned))"
    and "aya_attach kn hasher sys pinned interfaces L geo threat detach_stale sizing = Inr b0"
    and "sync_all kn hasher hist b0 = (Inr (), b)"
    and "prefix_tables kn has longest" "lpm_covers k (packet_key spec ip)"
  shows "has (km_trusted_cidrs (xa_maps b)) (packet_key spec ip)"
proof -
  obtain deny_gone geo_gone c c1 where c: "c = \<lparr>xa_listeners = L, xa_maps = pinned\<lparr>km_deny_cidrs := (if deny_gone then hm_empty else km_deny_cidrs pinned),
        km_geo_cidrs := (if geo_gone then hm_empty else km_geo_cidrs pinned)\<rparr>, xa_keys = xdp_static_keys_empty,
        xa_fingerprint = None, xa_ops = 0\<rparr>"
    and cl: "clear_dynamic_blocklist kn c = (Inr (), c1)"
    and sy: "sync_static_policy_prefixes kn hasher (fst (prefixes_of (geo, threat))) (snd (prefixes_of (geo, threat))) c1 = (Inr (), b0)"
    using attach_syncs [OF assms(3)] by metis
  have "hm_inv (km_blocked_ips (xa_maps c))" using assms(1) by (simp add: c maps_inv_def)
  from clear_blocklist_maps [OF cl this] obtain t where "with_maps ((xa_maps c)\<lparr>km_blocked_ips := t\<rparr>) c c1" "hm_inv t" by blast
  then have "keeps_trusted L k c1"
    using assms(1,2) by (auto simp: keeps_trusted_def with_maps_def c maps_inv_def xdp_static_keys_empty_def)
  from sync_all_keeps_trusted [OF sync_keeps_trusted [OF this sy] assms(4)]
  have "k \<in> dom (hm_get (km_trusted_cidrs (xa_maps b)))" by (simp add: keeps_trusted_def)
  with assms(5,6) show ?thesis unfolding prefix_tables_def by blast
qed

section \<open>Examples\<close>

text \<open>Prefix tables as lists: a look-up goes through all entries.\<close>

definition trie_has :: "(xdp_lpm_key, u8) hmap \<Rightarrow> xdp_lpm_key \<Rightarrow> bool" where
  "trie_has t k \<longleftrightarrow> list_ex (\<lambda>(k', _). lpm_covers k' k) t"

definition longer :: "xdp_geo_lpm_key \<Rightarrow> xdp_geo_lpm_key \<Rightarrow> xdp_geo_lpm_key" where
  "longer a b = (if gk_prefix_len b \<le> gk_prefix_len a then a else b)"

definition trie_geo :: "(xdp_geo_lpm_key, u16) hmap \<Rightarrow> xdp_geo_lpm_key \<Rightarrow> u16 option" where
  "trie_geo t k = (case filter (\<lambda>k'. geo_covers k' k) (map fst t) of [] \<Rightarrow> None | x # xs \<Rightarrow> hm_get t (fold longer xs x))"

definition example_kernel :: xdp_kernel where
  "example_kernel = \<lparr>kn_ok = (\<lambda>_. True), kn_node = id, kn_geo_node = id\<rparr>"

lemma fold_longer: "fold longer xs x \<in> set (x # xs) \<and> (\<forall>y \<in> set (x # xs). gk_prefix_len y \<le> gk_prefix_len (fold longer xs x))"
proof (induction xs arbitrary: x)
  case (Cons y xs)
  have l: "longer y x \<in> {x, y}" "gk_prefix_len x \<le> gk_prefix_len (longer y x)" "gk_prefix_len y \<le> gk_prefix_len (longer y x)"
    by (auto simp: longer_def)
  let ?f = "fold longer xs (longer y x)"
  have f: "?f \<in> set (x # y # xs)" using Cons.IH [of "longer y x"] l(1) by auto
  have g: "gk_prefix_len (longer y x) \<le> gk_prefix_len ?f" "\<forall>z \<in> set xs. gk_prefix_len z \<le> gk_prefix_len ?f"
    using Cons.IH [of "longer y x"] by simp_all
  show ?case using f g(2) order_trans [OF l(2) g(1)] order_trans [OF l(3) g(1)] by simp
qed simp

lemma hm_dom: "dom (hm_get t) = fst ` set t"
  by (simp add: hm_get_map_of dom_map_of_conv_image_fst)

lemma trie_tables: "prefix_tables example_kernel trie_has trie_geo"
proof -
  have "case trie_geo t k of
          None \<Rightarrow> \<forall>k' \<in> dom (hm_get t). \<not> geo_covers k' k
        | Some c \<Rightarrow> \<exists>k'. hm_get t k' = Some c \<and> geo_covers k' k
            \<and> (\<forall>k'' \<in> dom (hm_get t). geo_covers k'' k \<longrightarrow> gk_prefix_len k'' \<le> gk_prefix_len k')" for t k
  proof (cases "filter (\<lambda>k'. geo_covers k' k) (map fst t)")
    case Nil
    then show ?thesis by (auto simp: trie_geo_def filter_empty_conv hm_dom)
  next
    case (Cons x xs)
    define b where "b = fold longer xs x"
    have set: "set (x # xs) = {k' \<in> dom (hm_get t). geo_covers k' k}" unfolding Cons [symmetric] by (auto simp: hm_dom)
    have "b \<in> set (x # xs)" "\<forall>y \<in> set (x # xs). gk_prefix_len y \<le> gk_prefix_len b" using fold_longer [of xs x] by (simp_all add: b_def)
    moreover from this(1) obtain c where "hm_get t b = Some c" unfolding set by blast
    moreover have "trie_geo t k = hm_get t b" by (simp add: trie_geo_def Cons b_def)
    ultimately show ?thesis unfolding set by auto
  qed
  moreover have "trie_has t k \<longleftrightarrow> (\<exists>k' \<in> dom (hm_get t). lpm_covers k' k)" for t k
    by (force simp: trie_has_def list_ex_iff hm_dom)
  ultimately show ?thesis by (simp add: prefix_tables_def example_kernel_def)
qed


text \<open>A listener that denies a network and uses the threat feeds, on a system that attaches.\<close>

definition example_settings :: effective_proxy_security_config where
  "example_settings = default_security\<lparr>se_deny_cidrs := [''10.0.0.0/8''], se_threat_intel := default_threat_intel\<lparr>te_enabled := True\<rparr>\<rparr>"

definition example_policy :: xdp_listener_policy_spec where
  "example_policy = \<lparr>ps_flags = 0, ps_packets_per_second = 0, ps_burst = 0,
     ps_udp_flood_packets_per_second = 0, ps_udp_flood_burst = 0, ps_tcp_flood_packets_per_second = 0, ps_tcp_flood_burst = 0,
     ps_tcp_syn_flood_packets_per_second = 0, ps_tcp_syn_flood_burst = 0, ps_tcp_ack_flood_packets_per_second = 0,
     ps_tcp_ack_flood_burst = 0, ps_icmp_flood_packets_per_second = 0, ps_icmp_flood_burst = 0,
     ps_geo_allow = replicate 11 0, ps_geo_deny = replicate 11 0, ps_trusted_cidrs = [], ps_allow_cidrs = [],
     ps_deny_cidrs = [\<lparr>xp_addr = V4 0x0A000000, xp_prefix = 8\<rparr>], ps_threat_intel = True\<rparr>"

definition example_spec :: xdp_listener_spec where
  "example_spec = \<lparr>xl_listener_key = listener_key example_listener, xl_l4_proto = 17, xl_port = 5060, xl_policy = example_policy\<rparr>"

definition example_threat :: threat_ip_prefix where
  "example_threat = \<lparr>tp_addr = V4 0xC0000200, tp_prefix = 24\<rparr>"

definition example_system :: xdp_system where
  "example_system = \<lparr>sys_bpffs_exists = True, sys_proc_mounts = Some ''bpf /sys/fs/bpf bpf rw 0 0'', sys_dirs_ok = True,
     sys_object_exists = True, sys_pinned_entries = (\<lambda>_. None), sys_unlink_ok = (\<lambda>_. True), sys_load_ok = True, sys_routes = None,
     sys_link_show = (\<lambda>_. Some ''''), sys_link_off = (\<lambda>_. True), sys_attach_driver = (\<lambda>_. True), sys_attach_skb = (\<lambda>_. True)\<rparr>"

definition empty_maps :: kernel_maps where
  "empty_maps = \<lparr>km_blocked_ips = hm_empty, km_listener_policies = hm_empty, km_allow_cidrs = hm_empty, km_deny_cidrs = hm_empty,
     km_trusted_cidrs = hm_empty, km_geo_cidrs = hm_empty\<rparr>"

definition count_hasher :: "fingerprint_input \<Rightarrow> u64" where
  "count_hasher i = word_of_nat (length (concat (map snd (fi_specs i))))"

lemma example_cidr: "cidr_parse ''10.0.0.0/8'' = Inr \<lparr>cidr_addr = V4 0x0A000000, cidr_prefix = 8\<rparr>"
proof -
  have "parse_uint 255 ''8'' = Some 8" "trim ''10.0.0.0/8'' = ''10.0.0.0/8''" by code_simp+
  moreover have "parse_ip ''10.0.0.0'' = Some (V4 0x0A000000)" by (simp add: net_eval cong: net_cong)
  ultimately show ?thesis by (simp add: cidr_parse_def parse_u8_def max_prefix_def)
qed

lemma example_bind: "parse_sock ''0.0.0.0:5060'' = Some (SockV4 0 5060)"
  by (simp add: net_eval cong: net_cong)

lemma example_spec_from_listener: "spec_from_listener example_listener example_settings = Inr example_spec"
proof -
  have "parse_xdp_cidr ''10.0.0.0/8'' = Inr \<lparr>xp_addr = V4 0x0A000000, xp_prefix = 8\<rparr>"
    by (simp add: parse_xdp_cidr_iff example_cidr)
  then have "parse_xdp_cidrs [''10.0.0.0/8''] = Inr [\<lparr>xp_addr = V4 0x0A000000, xp_prefix = 8\<rparr>]" "parse_xdp_cidrs [] = Inr []"
    by (simp_all add: parse_xdp_cidrs_def)
  then have "policy_from_security example_settings = Inr example_policy"
    by (simp add: policy_from_security_def example_settings_def default_security_def preset_security_def default_xdp_def default_geo_def
        default_threat_intel_def default_flood_def flood_fields_def geo_spec_def flag_if_def xdp_country_words_def example_policy_def Let_def)
  then show ?thesis
    by (simp add: spec_from_listener_def example_listener_def example_bind example_spec_def xdp_proto_udp_def)
qed


definition example_snapshot :: geo_snapshot where
  "example_snapshot = \<lparr>gs_created_at_epoch_seconds = 0, gs_ipv4 = [], gs_ipv6 = []\<rparr>"

definition example_maps :: kernel_maps where
  "example_maps = after_sync example_kernel (xdp_prefixes example_snapshot) (threat_xdp_prefixes (build_snapshot 7 [example_threat]))
     [example_spec] xdp_static_keys_empty empty_maps"

lemma fresh_empty_maps: "fresh_maps empty_maps"
  by (simp add: fresh_maps_def empty_maps_def)

lemma example_facts:
  "snapshot_wf example_snapshot" "list_all tp_valid [example_threat]" "list_all spec_wf [example_spec]"
  "xl_l4_proto example_spec = 17" "xl_port example_spec = 5060"
  by (simp_all add: snapshot_wf_def example_snapshot_def wf_ranges_def tp_valid_def example_threat_def max_prefix_def
      spec_wf_def xdp_wf_def example_spec_def example_policy_def)

theorem kernel_filter_decision_witness:
  "evaluate_packet trie_has trie_geo example_maps 17 5060 (V4 0x0A010203) = FilterDrop"
proof -
  define r where "r = \<lparr>ls_config = example_settings, ls_geo_policy = geo_policy_from_config (se_geo example_settings),
    ls_threat_policy = threat_policy_from_config (se_threat_intel example_settings), ls_trusted_cidrs = [], ls_allow_cidrs = [],
    ls_deny_cidrs = [\<lparr>cidr_addr = V4 0x0A000000, cidr_prefix = 8\<rparr>]\<rparr>"
  have s: "se_deny_cidrs example_settings = [''10.0.0.0/8'']" "se_trusted_cidrs example_settings = []" "se_allow_cidrs example_settings = []"
    "se_xdp example_settings = default_xdp"
    by (simp_all add: example_settings_def default_security_def preset_security_def)
  have r: "listener_security_new example_settings = Inr r"
    by (simp add: listener_security_new_def s parse_cidrs_def example_cidr r_def)
  have x: "xe_cidr_filter (se_xdp example_settings)" "xe_geo_filter (se_xdp example_settings)" "xe_threat_intel (se_xdp example_settings)"
    by (simp_all add: s default_xdp_def)
  have mem: "example_spec \<in> set [example_spec]" and dist: "distinct (map spec_port [example_spec])" by simp_all
  have "is_denied r (V4 0x0A010203)" by (simp add: is_denied_def r_def cidr_contains_iff cidr_wf_def max_prefix_def)
  with kernel_filter_decision [OF trie_tables first_sync [OF fresh_empty_maps example_maps_def] example_facts(1-3) dist mem example_spec_from_listener r x, of "V4 0x0A010203"]
  show ?thesis by (simp add: example_facts)
qed

text \<open>With a kernel that answers, a synchronisation that only adds keys succeeds.\<close>

definition succeeds :: "backend_step \<Rightarrow> bool" where
  "succeeds f \<longleftrightarrow> (\<forall>b. \<exists>b'. f b = (Inr (), b'))"

lemma succeeds_then [intro]: "succeeds f \<Longrightarrow> succeeds g \<Longrightarrow> succeeds (step_then f g)"
  unfolding succeeds_def step_then_Inr by metis

lemma succeeds_ok [intro, simp]: "succeeds step_ok"
  by (simp add: succeeds_def step_ok_def)

lemma succeeds_each [intro]: "(\<And>x. succeeds (f x)) \<Longrightarrow> succeeds (step_each f xs)"
  by (induction xs) auto

lemma succeeds_op: "(\<And>n. kn_ok kn n) \<Longrightarrow> (\<And>m. f m \<noteq> None) \<Longrightarrow> succeeds (map_op kn f)"
  by (auto simp: succeeds_def map_op_def Let_def split: option.splits)

lemma grow_succeeds:
  assumes ok: "\<And>n. kn_ok kn n"
    and grow: "\<And>sel. sel \<in> {sk_allow_cidrs, sk_deny_cidrs, sk_trusted_cidrs, sk_geo_cidrs} \<Longrightarrow> set (sel (xa_keys b)) \<subseteq> set (sel (build_xdp_static_keys (xa_listeners b) geo threat))"
      "set (sk_listener_policies (xa_keys b)) \<subseteq> set (sk_listener_policies (build_xdp_static_keys (xa_listeners b) geo threat))"
  shows "\<exists>b'. sync_static_policy_prefixes kn hasher geo threat b = (Inr (), b')"
proof -
  let ?plan = "build_static_sync_plan hasher (xa_listeners b) geo threat"
  have new: "sp_keys ?plan = build_xdp_static_keys (xa_listeners b) geo threat" by (simp add: build_static_sync_plan_def Let_def)
  have "succeeds (sync_spec kn threat spec)" for spec
    unfolding sync_spec_def put_policy_def put_trusted_def put_allow_def put_deny_def
    by (intro succeeds_then succeeds_each succeeds_op ok) simp_all
  then obtain b1 where b1: "step_each (sync_spec kn threat) (xa_listeners b) b = (Inr (), b1)"
    using succeeds_each [of "sync_spec kn threat"] unfolding succeeds_def by blast
  have "succeeds (if xdp_geo_enabled (xa_listeners b) then step_each (put_geo kn) geo else step_ok)"
    by (simp add: put_geo_def succeeds_each succeeds_op ok)
  then obtain b2 where b2: "(if xdp_geo_enabled (xa_listeners b) then step_each (put_geo kn) geo else step_ok) b1 = (Inr (), b2)"
    unfolding succeeds_def by blast
  have k: "xa_keys b2 = xa_keys b"
    using sync_specs_maps [OF b1] put_geo_maps [of kn geo b1 b2] b2 by (auto simp: with_maps_def step_ok_def split: if_splits)
  have d: "difference xs ys = []" if "set xs \<subseteq> set ys" for xs ys :: "'a list" using that by (auto simp: difference_def filter_empty_conv)
  have "\<exists>b'. delete_stale_static_keys kn ?plan b2 = (Inr (), b')"
    by (simp add: delete_stale_static_keys_def k new delete_stale_hash_keys_def delete_stale_lpm_keys_def delete_stale_geo_lpm_keys_def
        d [OF grow(1)] d [OF grow(2)] step_then_def step_ok_def)
  then show ?thesis using b1 b2 by (auto simp: sync_static_policy_prefixes_def Let_def step_then_Inr)
qed

lemma example_capacities:
  "compute_xdp_map_capacities [example_spec] [] [] default_xdp_map_sizing = Inr \<lparr>mc_deny_cidrs = 65536, mc_geo_cidrs = 262144\<rparr>"
proof -
  have "length (sk_deny_cidrs (build_xdp_static_keys [example_spec] [] [])) = 1" "length (sk_geo_cidrs (build_xdp_static_keys [example_spec] [] [])) = 0"
    by (simp_all add: build_xdp_static_keys_def Let_def add_spec_keys_def xdp_static_keys_empty_def btree_extend_def btree_insert_def
        geo_keys_def cidr_keys_def threat_keys_def example_spec_def example_policy_def)
  then show ?thesis by (simp add: compute_xdp_map_capacities_def Let_def desired_xdp_map_entries_def default_xdp_map_sizing_def
        xdp_deny_cidrs_default_max_entries_def xdp_geo_cidrs_default_max_entries_def)
qed

lemma example_attaches:
  assumes "km_blocked_ips pinned = hm_empty"
  shows "\<exists>b0. aya_attach example_kernel hasher example_system pinned [''eth0''] [example_spec] None None True default_xdp_map_sizing = Inr b0"
proof -
  let ?b = "\<lparr>xa_listeners = [example_spec], xa_maps = pinned, xa_keys = xdp_static_keys_empty, xa_fingerprint = None, xa_ops = 0\<rparr>"
  have clear: "clear_dynamic_blocklist example_kernel ?b = (Inr (), ?b)"
    using assms by (simp add: clear_dynamic_blocklist_def hm_empty_def step_ok_def)
  have "\<exists>b0. sync_static_policy_prefixes example_kernel hasher [] [] ?b = (Inr (), b0)"
    by (rule grow_succeeds) (auto simp: example_kernel_def xdp_static_keys_empty_def)
  then obtain b0 where "step_then (clear_dynamic_blocklist example_kernel) (sync_static_policy_prefixes example_kernel hasher [] []) ?b = (Inr (), b0)"
    using clear by (auto simp: step_then_def)
  moreover have "ensure_bpffs_mounted example_system = Inr ()" "detach_stale_sigproxy_xdp example_system [''eth0''] = Inr ()"
    "attach_interfaces example_system [''eth0''] = Inr ()" "resolve_interfaces example_system [''eth0''] = Inr [''eth0'']" by code_simp+
  ultimately show ?thesis
    by (simp add: aya_attach_def Let_def example_capacities prepare_pinned_map_capacity_def) (simp add: example_system_def)
qed

theorem static_sync_exact_witness:
  "\<exists>b0 b. aya_attach example_kernel count_hasher example_system empty_maps [''eth0''] [example_spec] None None True default_xdp_map_sizing = Inr b0
     \<and> sync_all example_kernel count_hasher [(None, Some (build_snapshot 7 [example_threat]))] b0 = (Inr (), b)
     \<and> synced example_kernel [example_spec] [] [example_threat] (xa_maps b)"
proof -
  let ?new = "(None, Some (build_snapshot 7 [example_threat])) :: geo_snapshot option \<times> threat_snapshot option"
  let ?attach = "aya_attach example_kernel count_hasher example_system empty_maps [''eth0''] [example_spec] None None True default_xdp_map_sizing"
  obtain b0 where b0: "?attach = Inr b0" using example_attaches [of empty_maps count_hasher] by (auto simp: empty_maps_def)
  have L: "xa_listeners b0 = [example_spec]" and k: "xa_keys b0 = build_xdp_static_keys [example_spec] [] []"
    using attach_current [OF fresh_empty_maps b0] by (simp_all add: current_def tracks_def prefixes_of_def)
  have threat: "threat_xdp_prefixes (build_snapshot 7 [example_threat]) = [example_threat]" by code_simp
  have "\<exists>b. sync_static_policy_prefixes example_kernel count_hasher [] [example_threat] b0 = (Inr (), b)"
    by (rule grow_succeeds) (auto simp: example_kernel_def L k built_keys wanted_deny_def threat_keys_def geo_keys_def)
  then obtain b where b: "sync_all example_kernel count_hasher [?new] b0 = (Inr (), b)"
    by (auto simp: sync_all_def aya_sync_static_policy_def threat step_then_def step_ok_def)
  have sep: "separate example_kernel [example_spec] (prefixes_of ` set [(None, None), ?new])"
    by (simp add: separate_def example_kernel_def)
  have "count_hasher (plan_input [example_spec] (prefixes_of (None, None))) \<noteq> count_hasher (plan_input [example_spec] (prefixes_of ?new))"
    by (simp add: count_hasher_def plan_input_def prefixes_of_def threat) (simp add: example_spec_def example_policy_def)
  then have inj: "inj_on count_hasher (plan_input [example_spec] ` prefixes_of ` set [(None, None), ?new])"
    by (auto simp: inj_on_def)
  have "prefixes_of (last [(None, None), ?new]) = ([], [example_threat])" by (simp add: prefixes_of_def threat)
  from static_sync_exact [OF fresh_empty_maps b0 b sep inj this] b0 b show ?thesis by blast
qed


theorem pinned_trust_survives_witness:
  "\<exists>b0. aya_attach example_kernel count_hasher example_system
      (empty_maps\<lparr>km_trusted_cidrs := [(make_lpm_key 17 5060 (V4 0xAC100000) 12, 1)]\<rparr>) [''eth0''] [example_spec] None None True default_xdp_map_sizing = Inr b0
    \<and> trie_has (km_trusted_cidrs (xa_maps b0)) (packet_key example_spec (V4 0xAC100203))"
proof -
  let ?k = "make_lpm_key 17 5060 (V4 0xAC100000) 12"
  let ?m = "empty_maps\<lparr>km_trusted_cidrs := [(?k, 1)]\<rparr>"
  have m: "maps_inv ?m" "?k \<in> dom (hm_get (km_trusted_cidrs ?m))"
    using fresh_maps_inv [OF fresh_empty_maps] by (simp_all add: maps_inv_def hm_inv_def hm_dom)
  obtain b0 where b0: "aya_attach example_kernel count_hasher example_system ?m [''eth0''] [example_spec] None None True default_xdp_map_sizing = Inr b0"
    using example_attaches [of ?m count_hasher] by (auto simp: empty_maps_def)
  have c: "lpm_covers ?k (packet_key example_spec (V4 0xAC100203))"
    using make_lpm_key_covers [of 12 "V4 0xAC100000" 17 5060 17 5060 "V4 0xAC100203"]
    by (simp add: packet_key_def example_facts max_prefix_def)
  have "sync_all example_kernel count_hasher [] b0 = (Inr (), b0)" by (simp add: sync_all_def step_ok_def)
  from pinned_trust_survives [OF m b0 this trie_tables c] b0 show ?thesis by blast
qed

end
