(* ===== verification/Kernel_Blocks.thy ===== *)
theory Kernel_Blocks
  imports Kernel_Filter
begin

text \<open>
  Dynamic blocks in the kernel: the list of blocks the program keeps and the table of blocked
  addresses it writes.  A new block and an expiry run take several steps (\<open>block_step\<close>), each under one
  lock, and the steps of different tasks interleave; the table is an LRU hash map, so that an
  insert may evict other entries.  List and table are compared with what the sequence of steps
  says of a listener and an address.
\<close>

section \<open>Listeners of a request\<close>

lemma parse_xdp_cidrs_wf: "parse_xdp_cidrs vs = Inr cs \<Longrightarrow> list_all xdp_wf cs"
proof -
  have one: "parse_xdp_cidr v = Inr c \<Longrightarrow> xdp_wf c" for v c
    using cidr_parse_wf by (fastforce simp: parse_xdp_cidr_iff xdp_wf_def cidr_wf_def)
  assume "parse_xdp_cidrs vs = Inr cs"
  then have "list_all2 (\<lambda>v c. parse_xdp_cidr v = Inr c) vs cs" by (simp add: parse_xdp_cidrs_def collect_res_Inr_iff)
  then show ?thesis by (induction rule: list_all2_induct) (auto intro: one)
qed

lemma spec_from_listener_wf: "spec_from_listener listener security = Inr spec \<Longrightarrow> spec_wf spec"
  by (auto simp: spec_from_listener_def policy_from_security_def Let_def bind_res_Inr_iff spec_wf_def parse_xdp_cidrs_wf
      split: option.splits if_splits)

lemma add_listeners_wf:
  "add_listeners config ls r = Inr r' \<Longrightarrow> list_all spec_wf (xr_listeners r) \<Longrightarrow> list_all spec_wf (xr_listeners r')"
  by (induction ls arbitrary: r) (auto simp: bind_res_Inr_iff add_listener_def Let_def spec_from_listener_wf split: if_splits)

definition no_cidrs :: "xdp_listener_policy_spec \<Rightarrow> bool" where
  "no_cidrs p \<longleftrightarrow> ps_trusted_cidrs p = [] \<and> ps_allow_cidrs p = [] \<and> ps_deny_cidrs p = []"

lemma icmp_no_cidrs: "icmp_flood_from_security s = Some p \<Longrightarrow> no_cidrs p"
  by (auto simp: icmp_flood_from_security_def no_cidrs_def Let_def split: prod.splits if_splits)

lemma merge_no_cidrs: "no_cidrs (merge_icmp_flood p q) \<longleftrightarrow> no_cidrs p"
  by (simp add: no_cidrs_def merge_icmp_flood_def)

lemma add_listeners_icmp:
  "add_listeners config ls r = Inr r' \<Longrightarrow> pred_option no_cidrs (xr_icmp_flood_policy r) \<Longrightarrow> pred_option no_cidrs (xr_icmp_flood_policy r')"
proof (induction ls arbitrary: r)
  case (Cons l ls)
  from Cons.prems(1) obtain r1 where r1: "add_listener config l r = Inr r1" "add_listeners config ls r1 = Inr r'"
    by (auto simp: bind_res_Inr_iff)
  from r1(1) Cons.prems(2) have "pred_option no_cidrs (xr_icmp_flood_policy r1)"
    by (auto simp: add_listener_def Let_def bind_res_Inr_iff merge_no_cidrs
        split: if_splits option.splits dest!: icmp_no_cidrs)
  with Cons.IH r1(2) show ?case by blast
qed simp

text \<open>What the request hands to the backend has valid prefixes only.\<close>

lemma collect_request_wf: "collect_request config = Inr r \<Longrightarrow> list_all spec_wf (xr_listeners r)"
  using add_listeners_wf [of config "concat (map concrete_listeners (px_listeners config))" xdp_request_empty]
    add_listeners_icmp [of config "concat (map concrete_listeners (px_listeners config))" xdp_request_empty]
  by (auto simp: collect_request_def bind_res_Inr_iff xdp_request_empty_def spec_wf_def no_cidrs_def split: option.splits)

section \<open>Steps\<close>

text \<open>
  Blocking is \<open>ListBlock\<close> and then \<open>WriteBlock\<close>; pruning is \<open>ListExpired\<close> and then one \<open>RemoveBlock\<close>
  for each key it found.  A history is any list of such steps, so it contains every interleaving of
  the tasks that block and of the task that prunes.
\<close>

datatype block_step =
    ListBlock string ip_addr instant string
  | WriteBlock string ip_addr "xdp_listener_spec \<Rightarrow> xdp_ip_key list"
  | ListExpired instant
  | RemoveBlock xdp_block_key

fun run_step :: "xdp_kernel \<Rightarrow> block_step \<Rightarrow> xdp_runtime \<Rightarrow> xdp_runtime" where
  "run_step kn (ListBlock lkey ip until reason) r = xdp_list_ip_block lkey ip until reason r"
| "run_step kn (WriteBlock lkey ip evict) r = xdp_write_ip_block kn evict lkey ip r"
| "run_step kn (ListExpired now) r = snd (xdp_list_expired now r)"
| "run_step kn (RemoveBlock key) r = xdp_remove_ip_block kn key r"

lemma sync_is_steps:
  assumes "xt_requested r" "xt_sync_dynamic_ban r"
  shows "xdp_sync_ip_block kn evict lkey ip until reason r =
    fold (run_step kn) [ListBlock lkey ip until reason, WriteBlock lkey ip evict] r"
  using assms by (simp add: xdp_sync_ip_block_def)

lemma prune_is_steps:
  assumes "xt_requested r"
  shows "xdp_prune_expired kn now r =
    fold (run_step kn) (ListExpired now # map RemoveBlock (fst (xdp_list_expired now r))) r"
proof -
  have "fold (run_step kn) (map RemoveBlock keys) q = fold (xdp_remove_ip_block kn) keys q" for keys q
    by (induction keys arbitrary: q) simp_all
  then show ?thesis using assms by (simp add: xdp_prune_expired_def split_beta Let_def)
qed

text \<open>Something that began and has not ended since.\<close>

definition since :: "('s \<Rightarrow> bool) \<Rightarrow> ('s \<Rightarrow> bool) \<Rightarrow> 's list \<Rightarrow> bool" where
  "since begins ends steps \<longleftrightarrow> (\<exists>pre s post. steps = pre @ s # post \<and> begins s \<and> (\<forall>x \<in> set post. \<not> ends x))"

lemma since_Nil [simp]: "\<not> since begins ends []"
  by (simp add: since_def)

lemma since_snoc [simp]: "since begins ends (steps @ [x]) \<longleftrightarrow> begins x \<or> since begins ends steps \<and> \<not> ends x"
proof
  assume "since begins ends (steps @ [x])"
  then obtain pre s post where s: "steps @ [x] = pre @ s # post" "begins s" "\<forall>x \<in> set post. \<not> ends x" by (auto simp: since_def)
  show "begins x \<or> since begins ends steps \<and> \<not> ends x"
  proof (cases post rule: rev_cases)
    case Nil
    then show ?thesis using s by simp
  next
    case (snoc ys y)
    then show ?thesis using s unfolding since_def by auto
  qed
next
  assume "begins x \<or> since begins ends steps \<and> \<not> ends x"
  then show "since begins ends (steps @ [x])"
  proof
    assume "begins x"
    then show ?thesis unfolding since_def by (intro exI [of _ steps] exI [of _ x] exI [of _ "[]"]) simp
  next
    assume "since begins ends steps \<and> \<not> ends x"
    then obtain pre s post where "steps = pre @ s # post" "begins s" "\<forall>x \<in> set (post @ [x]). \<not> ends x" by (auto simp: since_def)
    then show ?thesis unfolding since_def by (intro exI [of _ pre] exI [of _ s] exI [of _ "post @ [x]"]) simp
  qed
qed

definition block_key :: "string \<Rightarrow> ip_addr \<Rightarrow> xdp_block_key" where
  "block_key lkey ip = \<lparr>xb_listener_key = lkey, xb_ip = ip\<rparr>"

definition spec_ip_key :: "xdp_listener_spec \<Rightarrow> ip_addr \<Rightarrow> xdp_ip_key" where
  "spec_ip_key spec ip = make_ip_key (xl_l4_proto spec) (xl_port spec) ip"

text \<open>
  What the steps mean for one listener and address: its block with the end \<open>u\<close> is put on the list
  and leaves it; its key is written to the table and leaves it, by removal or by eviction.
\<close>

fun enlists :: "string \<Rightarrow> ip_addr \<Rightarrow> instant \<Rightarrow> block_step \<Rightarrow> bool" where
  "enlists lkey ip u (ListBlock lkey' ip' until _) \<longleftrightarrow> lkey' = lkey \<and> ip' = ip \<and> until = u"
| "enlists lkey ip u _ \<longleftrightarrow> False"

fun delists :: "string \<Rightarrow> ip_addr \<Rightarrow> instant \<Rightarrow> block_step \<Rightarrow> bool" where
  "delists lkey ip u (ListBlock lkey' ip' _ _) \<longleftrightarrow> lkey' = lkey \<and> ip' = ip"
| "delists lkey ip u (ListExpired now) \<longleftrightarrow> u \<le> now"
| "delists lkey ip u _ \<longleftrightarrow> False"

fun writes :: "string \<Rightarrow> ip_addr \<Rightarrow> block_step \<Rightarrow> bool" where
  "writes lkey ip (WriteBlock lkey' ip' _) \<longleftrightarrow> lkey' = lkey \<and> ip' = ip"
| "writes lkey ip _ \<longleftrightarrow> False"

fun unwrites :: "xdp_listener_spec list \<Rightarrow> xdp_listener_spec \<Rightarrow> ip_addr \<Rightarrow> block_step \<Rightarrow> bool" where
  "unwrites L spec ip (WriteBlock lkey' ip' evict) \<longleftrightarrow>
     (\<exists>s \<in> set L. xl_listener_key s = lkey' \<and> spec_ip_key spec ip \<in> set (evict s))"
| "unwrites L spec ip (RemoveBlock key) \<longleftrightarrow> key = block_key (xl_listener_key spec) ip"
| "unwrites L spec ip _ \<longleftrightarrow> False"

section \<open>The table\<close>

lemma addr_bytes_inject: "addr_family a = addr_family b \<Longrightarrow> addr_bytes a = addr_bytes b \<Longrightarrow> a = b"
  using to_be_inject [of 4 x y for x y :: u32] to_be_inject [of 16 x y for x y :: u128]
  by (cases a; cases b) (auto simp: addr_family_def addr_bytes_def)

lemma spec_ip_key_inject: "spec_ip_key spec ip = spec_ip_key spec' ip' \<longleftrightarrow> spec_port spec = spec_port spec' \<and> ip = ip'"
  using addr_bytes_inject [of ip ip'] by (auto simp: spec_ip_key_def make_ip_key_def spec_port_def)

lemma spec_ip_key_eq:
  assumes "distinct (map spec_port L)" "spec \<in> set L" "spec' \<in> set L"
  shows "spec_ip_key spec ip = spec_ip_key spec' ip' \<longleftrightarrow> spec = spec' \<and> ip = ip'"
  using spec_of_port [OF assms(2,3) assms(1)] by (auto simp: spec_ip_key_inject)

text \<open>The listeners of the backend that a listener key names: at most one.\<close>

lemma specs_of_cases:
  assumes "xa_listeners b = L" "distinct (map xl_listener_key L)"
  obtains "specs_of lkey b = []" "\<And>P. (\<exists>s \<in> set L. xl_listener_key s = lkey \<and> P s) \<longleftrightarrow> False"
    | s where "specs_of lkey b = [s]" "\<And>P. (\<exists>s \<in> set L. xl_listener_key s = lkey \<and> P s) \<longleftrightarrow> P s"
proof (cases "\<exists>s \<in> set L. xl_listener_key s = lkey")
  case False
  then have "specs_of lkey b = []" by (simp add: specs_of_def assms(1) filter_empty_conv)
  with False that(1) show ?thesis by blast
next
  case True
  then obtain s where s: "s \<in> set L" "xl_listener_key s = lkey" by blast
  obtain xs ys where L: "L = xs @ s # ys" using split_list [OF s(1)] by blast
  have "xl_listener_key s \<notin> xl_listener_key ` (set xs \<union> set ys)" using assms(2) by (simp add: L image_Un)
  then have none: "xl_listener_key s' \<noteq> lkey" if "s' \<in> set xs \<union> set ys" for s' using that s(2) by (metis imageI)
  then have "filter (\<lambda>s. xl_listener_key s = lkey) xs = []" "filter (\<lambda>s. xl_listener_key s = lkey) ys = []"
    by (simp_all add: filter_empty_conv)
  then have 1: "specs_of lkey b = [s]" using s(2) by (simp add: specs_of_def assms(1) L)
  have "(\<exists>s \<in> set L. xl_listener_key s = lkey \<and> P s) \<longleftrightarrow> P s" for P
    using none s by (metis L Un_iff insert_iff list.set(2) set_append)
  with that(2) 1 show ?thesis by blast
qed

definition table_of :: "aya_backend \<Rightarrow> xdp_ip_key set" where
  "table_of b = dom (hm_get (km_blocked_ips (xa_maps b)))"

definition backend_ok :: "xdp_listener_spec list \<Rightarrow> aya_backend \<Rightarrow> bool" where
  "backend_ok L b \<longleftrightarrow> xa_listeners b = L \<and> hm_inv (km_blocked_ips (xa_maps b))"

lemma fold_remove_dom:
  "hm_inv m \<Longrightarrow> hm_inv (fold hm_remove ks m) \<and> dom (hm_get (fold hm_remove ks m)) = dom (hm_get m) - set ks"
proof (induction ks arbitrary: m)
  case (Cons k ks)
  have "hm_inv (hm_remove k m)" "dom (hm_get (hm_remove k m)) = dom (hm_get m) - {k}"
    using Cons.prems by (auto simp: hm_simps split: if_splits)
  with Cons.IH [of "hm_remove k m"] show ?case by auto
qed simp

lemma lru_insert_dom:
  "hm_inv m \<Longrightarrow> hm_inv (lru_insert ks k v m) \<and> dom (hm_get (lru_insert ks k v m)) = insert k (dom (hm_get m) - set ks)"
  using fold_remove_dom [of m ks] by (simp add: lru_insert_def hm_simps)

lemma write_table:
  assumes ok: "\<And>n. kn_ok kn n" and b: "backend_ok L b" and keys: "distinct (map xl_listener_key L)"
  shows "backend_ok L (snd (aya_sync_ip_block kn evict lkey ip b))"
    and "k \<in> table_of (snd (aya_sync_ip_block kn evict lkey ip b)) \<longleftrightarrow>
      (\<exists>s \<in> set L. xl_listener_key s = lkey \<and> k = spec_ip_key s ip)
      \<or> k \<in> table_of b \<and> \<not> (\<exists>s \<in> set L. xl_listener_key s = lkey \<and> k \<in> set (evict s))"
proof -
  have L: "xa_listeners b = L" and inv: "hm_inv (km_blocked_ips (xa_maps b))" using b by (simp_all add: backend_ok_def)
  have "backend_ok L (snd (aya_sync_ip_block kn evict lkey ip b)) \<and>
    (k \<in> table_of (snd (aya_sync_ip_block kn evict lkey ip b)) \<longleftrightarrow>
      (\<exists>s \<in> set L. xl_listener_key s = lkey \<and> k = spec_ip_key s ip)
      \<or> k \<in> table_of b \<and> \<not> (\<exists>s \<in> set L. xl_listener_key s = lkey \<and> k \<in> set (evict s)))"
  proof (rule specs_of_cases [OF L keys, of lkey])
    assume s: "specs_of lkey b = []" "\<And>P. (\<exists>s \<in> set L. xl_listener_key s = lkey \<and> P s) \<longleftrightarrow> False"
    show ?thesis unfolding s(2) using b by (simp add: aya_sync_ip_block_def s(1) step_ok_def)
  next
    fix s assume s: "specs_of lkey b = [s]" "\<And>P. (\<exists>s \<in> set L. xl_listener_key s = lkey \<and> P s) \<longleftrightarrow> P s"
    have "snd (aya_sync_ip_block kn evict lkey ip b) = b\<lparr>xa_ops := Suc (xa_ops b), xa_maps := (xa_maps b)\<lparr>km_blocked_ips :=
        lru_insert (evict s) (spec_ip_key s ip) 1 (km_blocked_ips (xa_maps b))\<rparr>\<rparr>"
      using ok by (simp add: aya_sync_ip_block_def s(1) step_then_def map_op_def step_ok_def spec_ip_key_def)
    then show ?thesis unfolding s(2) using lru_insert_dom [OF inv, of "evict s" "spec_ip_key s ip" 1] L
      by (simp add: backend_ok_def table_of_def)
  qed
  then show "backend_ok L (snd (aya_sync_ip_block kn evict lkey ip b))"
    "k \<in> table_of (snd (aya_sync_ip_block kn evict lkey ip b)) \<longleftrightarrow>
      (\<exists>s \<in> set L. xl_listener_key s = lkey \<and> k = spec_ip_key s ip)
      \<or> k \<in> table_of b \<and> \<not> (\<exists>s \<in> set L. xl_listener_key s = lkey \<and> k \<in> set (evict s))"
    by blast+
qed

lemma remove_table:
  assumes ok: "\<And>n. kn_ok kn n" and b: "backend_ok L b" and keys: "distinct (map xl_listener_key L)"
  shows "backend_ok L (snd (aya_remove_ip_block kn key b))"
    and "k \<in> table_of (snd (aya_remove_ip_block kn key b)) \<longleftrightarrow>
      k \<in> table_of b \<and> \<not> (\<exists>s \<in> set L. xl_listener_key s = xb_listener_key key \<and> k = spec_ip_key s (xb_ip key))"
proof -
  have L: "xa_listeners b = L" and inv: "hm_inv (km_blocked_ips (xa_maps b))" using b by (simp_all add: backend_ok_def)
  have "backend_ok L (snd (aya_remove_ip_block kn key b)) \<and>
    (k \<in> table_of (snd (aya_remove_ip_block kn key b)) \<longleftrightarrow>
      k \<in> table_of b \<and> \<not> (\<exists>s \<in> set L. xl_listener_key s = xb_listener_key key \<and> k = spec_ip_key s (xb_ip key)))"
  proof (rule specs_of_cases [OF L keys, of "xb_listener_key key"])
    assume s: "specs_of (xb_listener_key key) b = []" "\<And>P. (\<exists>s \<in> set L. xl_listener_key s = xb_listener_key key \<and> P s) \<longleftrightarrow> False"
    show ?thesis unfolding s(2) using b by (simp add: aya_remove_ip_block_def s(1) step_ok_def)
  next
    fix s assume s: "specs_of (xb_listener_key key) b = [s]"
      "\<And>P. (\<exists>s \<in> set L. xl_listener_key s = xb_listener_key key \<and> P s) \<longleftrightarrow> P s"
    let ?k = "spec_ip_key s (xb_ip key)" and ?t = "km_blocked_ips (xa_maps b)"
    show ?thesis
    proof (cases "hm_get ?t ?k")
      case None
      then have "km_blocked_ips (xa_maps (snd (aya_remove_ip_block kn key b))) = ?t" "xa_listeners (snd (aya_remove_ip_block kn key b)) = L"
        using ok L by (simp_all add: aya_remove_ip_block_def s(1) step_then_def map_op_def step_ok_def remove_present_def Let_def
            flip: spec_ip_key_def)
      then show ?thesis unfolding s(2) using inv None by (auto simp: backend_ok_def table_of_def)
    next
      case (Some v)
      then have "snd (aya_remove_ip_block kn key b) = b\<lparr>xa_ops := Suc (xa_ops b), xa_maps := (xa_maps b)\<lparr>km_blocked_ips := hm_remove ?k ?t\<rparr>\<rparr>"
        using ok by (simp add: aya_remove_ip_block_def s(1) step_then_def map_op_def step_ok_def remove_present_def Let_def
            flip: spec_ip_key_def)
      moreover have "dom (hm_get (hm_remove ?k ?t)) = dom (hm_get ?t) - {?k}" "hm_inv (hm_remove ?k ?t)"
        using inv by (auto simp: hm_simps split: if_splits)
      ultimately show ?thesis unfolding s(2) using L by (simp add: backend_ok_def table_of_def)
    qed
  qed
  then show "backend_ok L (snd (aya_remove_ip_block kn key b))"
    "k \<in> table_of (snd (aya_remove_ip_block kn key b)) \<longleftrightarrow>
      k \<in> table_of b \<and> \<not> (\<exists>s \<in> set L. xl_listener_key s = xb_listener_key key \<and> k = spec_ip_key s (xb_ip key))"
    by blast+
qed

section \<open>The list\<close>

lemma drop_expired:
  assumes "hm_inv blocks" "control_plane_prune_expired now blocks = (expired, blocks')"
  shows "hm_inv blocks'"
    and "k \<in> set expired \<longleftrightarrow> (\<exists>u \<le> now. map_option xbe_until (hm_get blocks k) = Some u)"
    and "map_option xbe_until (hm_get blocks' k) = Some u \<longleftrightarrow> map_option xbe_until (hm_get blocks k) = Some u \<and> \<not> u \<le> now"
proof -
  have e: "expired = map fst (filter (\<lambda>(_, entry). xbe_until entry \<le> now) blocks)" and b': "blocks' = fold hm_remove expired blocks"
    using assms(2) by (auto simp: control_plane_prune_expired_def Let_def)
  have inv: "distinct (map fst blocks)" using assms(1) by (simp add: hm_inv_def)
  show "hm_inv blocks'" unfolding b' using fold_remove_dom [OF assms(1)] by blast
  have mem: "k \<in> set expired \<longleftrightarrow> (\<exists>entry. hm_get blocks k = Some entry \<and> xbe_until entry \<le> now)"
    using inv by (auto simp: e hm_get_map_of image_iff)
  then show "k \<in> set expired \<longleftrightarrow> (\<exists>u \<le> now. map_option xbe_until (hm_get blocks k) = Some u)" by auto
  have "hm_get blocks' k = (if k \<in> set expired then None else hm_get blocks k)"
    using drop_keys_view [OF assms(1), of expired] by (simp add: b' drop_keys_def)
  then show "map_option xbe_until (hm_get blocks' k) = Some u \<longleftrightarrow> map_option xbe_until (hm_get blocks k) = Some u \<and> \<not> u \<le> now"
    using mem by auto
qed

section \<open>Every history\<close>

text \<open>The list and the table are what the history says, for every listener and address.\<close>

definition listed :: "xdp_control_plane \<Rightarrow> string \<Rightarrow> ip_addr \<Rightarrow> instant option" where
  "listed blocks lkey ip = map_option xbe_until (hm_get blocks (block_key lkey ip))"

definition follows :: "xdp_listener_spec list \<Rightarrow> block_step list \<Rightarrow> xdp_control_plane \<Rightarrow> aya_backend \<Rightarrow> bool" where
  "follows L steps blocks b \<longleftrightarrow> hm_inv blocks \<and> backend_ok L b
     \<and> (\<forall>lkey ip u. listed blocks lkey ip = Some u \<longleftrightarrow> since (enlists lkey ip u) (delists lkey ip u) steps)
     \<and> (\<forall>spec \<in> set L. \<forall>ip. spec_ip_key spec ip \<in> table_of b \<longleftrightarrow>
          since (writes (xl_listener_key spec) ip) (unwrites L spec ip) steps)"

definition running :: "xdp_runtime \<Rightarrow> xdp_control_plane \<Rightarrow> aya_backend \<Rightarrow> bool" where
  "running r blocks b \<longleftrightarrow> r = \<lparr>xt_requested = True, xt_sync_dynamic_ban = True, xt_control_plane = Some blocks, xt_backend = Some b\<rparr>"

lemma step_follows:
  assumes ok: "\<And>n. kn_ok kn n" and L: "distinct (map spec_port L)" "distinct (map xl_listener_key L)"
    and f: "follows L steps blocks b" and r: "running r blocks b"
  shows "\<exists>blocks' b'. running (run_step kn step r) blocks' b' \<and> follows L (steps @ [step]) blocks' b'"
proof -
  have inv: "hm_inv blocks" and b: "backend_ok L b"
    and li: "\<And>lkey ip u. listed blocks lkey ip = Some u \<longleftrightarrow> since (enlists lkey ip u) (delists lkey ip u) steps"
    and ta: "\<And>spec ip. spec \<in> set L \<Longrightarrow> spec_ip_key spec ip \<in> table_of b \<longleftrightarrow>
          since (writes (xl_listener_key spec) ip) (unwrites L spec ip) steps"
    using f by (simp_all add: follows_def)
  note r = r [unfolded running_def]
  show ?thesis
  proof (cases step)
    case (ListBlock lkey ip until reason)
    let ?blocks = "control_plane_sync_ip_block lkey ip until reason blocks"
    have "hm_inv ?blocks" using inv by (simp add: control_plane_sync_ip_block_def hm_simps)
    moreover have "listed ?blocks lkey' ip' = (if lkey' = lkey \<and> ip' = ip then Some until else listed blocks lkey' ip')" for lkey' ip'
      by (auto simp: listed_def control_plane_sync_ip_block_def hm_get_insert block_key_def)
    ultimately have "follows L (steps @ [step]) ?blocks b"
      unfolding follows_def ListBlock since_snoc using b ta by (auto simp: li)
    moreover have "running (run_step kn step r) ?blocks b" by (simp add: ListBlock r running_def xdp_list_ip_block_def)
    ultimately show ?thesis by blast
  next
    case (WriteBlock lkey ip evict)
    let ?b = "snd (aya_sync_ip_block kn evict lkey ip b)"
    note w = write_table [OF ok b L(2), where evict = evict and lkey = lkey and ip = ip]
    have "spec_ip_key spec ip' \<in> table_of ?b \<longleftrightarrow> writes (xl_listener_key spec) ip' step
        \<or> spec_ip_key spec ip' \<in> table_of b \<and> \<not> unwrites L spec ip' step" if spec: "spec \<in> set L" for spec ip'
    proof -
      have "(\<exists>s \<in> set L. xl_listener_key s = lkey \<and> spec_ip_key spec ip' = spec_ip_key s ip) \<longleftrightarrow> lkey = xl_listener_key spec \<and> ip = ip'"
        using spec spec_ip_key_eq [OF L(1) spec] by auto
      then show ?thesis unfolding w(2) WriteBlock writes.simps unwrites.simps by simp
    qed
    then have "follows L (steps @ [step]) blocks ?b"
      unfolding follows_def since_snoc using inv w(1) li ta by (simp add: WriteBlock)
    moreover have "running (run_step kn step r) blocks ?b" by (simp add: WriteBlock r running_def xdp_write_ip_block_def)
    ultimately show ?thesis by blast
  next
    case (ListExpired now)
    obtain expired blocks' where p: "control_plane_prune_expired now blocks = (expired, blocks')" by fastforce
    note d = drop_expired [OF inv p]
    have "follows L (steps @ [step]) blocks' b"
      unfolding follows_def since_snoc listed_def d(3) using d(1) b ta li by (simp add: ListExpired listed_def)
    moreover have "running (run_step kn step r) blocks' b" by (simp add: ListExpired r running_def xdp_list_expired_def p)
    ultimately show ?thesis by blast
  next
    case (RemoveBlock key)
    let ?b = "snd (aya_remove_ip_block kn key b)"
    note w = remove_table [OF ok b L(2), where key = key]
    have "spec_ip_key spec ip \<in> table_of ?b \<longleftrightarrow> spec_ip_key spec ip \<in> table_of b \<and> \<not> unwrites L spec ip step"
      if spec: "spec \<in> set L" for spec ip
    proof -
      have "(\<exists>s \<in> set L. xl_listener_key s = xb_listener_key key \<and> spec_ip_key spec ip = spec_ip_key s (xb_ip key)) \<longleftrightarrow>
          key = block_key (xl_listener_key spec) ip"
        using spec spec_ip_key_eq [OF L(1) spec] by (cases key) (auto simp: block_key_def)
      then show ?thesis unfolding w(2) RemoveBlock unwrites.simps by simp
    qed
    then have "follows L (steps @ [step]) blocks ?b"
      unfolding follows_def since_snoc using inv w(1) li ta by (simp add: RemoveBlock)
    moreover have "running (run_step kn step r) blocks ?b" by (simp add: RemoveBlock r running_def xdp_remove_ip_block_def)
    ultimately show ?thesis by blast
  qed
qed

lemma steps_follow:
  assumes "\<And>n. kn_ok kn n" "distinct (map spec_port L)" "distinct (map xl_listener_key L)"
    and "follows L [] blocks b" "running r blocks b"
  shows "\<exists>blocks' b'. running (fold (run_step kn) steps r) blocks' b' \<and> follows L steps blocks' b'"
proof (induction steps rule: rev_induct)
  case (snoc step steps)
  then show ?case using step_follows [OF assms(1-3)] by fastforce
qed (use assms(4,5) in auto)

lemma since_append:
  assumes "\<And>x. x \<in> set xs \<Longrightarrow> \<not> begins x"
  shows "since begins ends (steps @ xs) \<longleftrightarrow> since begins ends steps \<and> (\<forall>x \<in> set xs. \<not> ends x)"
  using assms
proof (induction xs rule: rev_induct)
  case (snoc x xs)
  then show ?case unfolding append_assoc [symmetric] since_snoc by auto
qed simp

text \<open>A whole expiry run after any history removes exactly the keys whose listed end has passed.\<close>

lemma prune_follows:
  assumes "\<And>n. kn_ok kn n" "distinct (map spec_port L)" "distinct (map xl_listener_key L)"
    and f: "follows L steps blocks b" and r: "running r blocks b" and spec: "spec \<in> set L"
  shows "\<exists>b'. xt_backend (xdp_prune_expired kn now r) = Some b' \<and> (spec_ip_key spec ip \<in> table_of b' \<longleftrightarrow>
    since (writes (xl_listener_key spec) ip) (unwrites L spec ip) steps \<and>
    \<not> (\<exists>u \<le> now. since (enlists (xl_listener_key spec) ip u) (delists (xl_listener_key spec) ip u) steps))"
proof -
  obtain expired blocks' where p: "control_plane_prune_expired now blocks = (expired, blocks')" by fastforce
  have inv: "hm_inv blocks" using f by (simp add: follows_def)
  let ?xs = "ListExpired now # map RemoveBlock expired"
  have "fold (run_step kn) ?xs r = xdp_prune_expired kn now r"
    using r by (subst prune_is_steps) (simp_all add: running_def xdp_list_expired_def p)
  moreover have "\<exists>blocks' b'. running (fold (run_step kn) xs r) blocks' b' \<and> follows L (steps @ xs) blocks' b'" for xs
  proof (induction xs rule: rev_induct)
    case (snoc x xs)
    then obtain blocks' b' where "running (fold (run_step kn) xs r) blocks' b'" "follows L (steps @ xs) blocks' b'" by blast
    from step_follows [OF assms(1-3) this(2,1), of x] show ?case by simp
  qed (use f r in auto)
  ultimately obtain q b' where b': "running (xdp_prune_expired kn now r) q b'" "follows L (steps @ ?xs) q b'" by metis
  have "spec_ip_key spec ip \<in> table_of b' \<longleftrightarrow> since (writes (xl_listener_key spec) ip) (unwrites L spec ip) (steps @ ?xs)"
    using b'(2) spec by (simp add: follows_def)
  also have "\<dots> \<longleftrightarrow> since (writes (xl_listener_key spec) ip) (unwrites L spec ip) steps \<and> block_key (xl_listener_key spec) ip \<notin> set expired"
    by (subst since_append) auto
  also have "block_key (xl_listener_key spec) ip \<in> set expired \<longleftrightarrow>
      (\<exists>u \<le> now. since (enlists (xl_listener_key spec) ip u) (delists (xl_listener_key spec) ip u) steps)"
    unfolding drop_expired(2) [OF inv p] using f by (simp add: follows_def listed_def)
  finally show ?thesis using b'(1) by (simp add: running_def)
qed

lemma follows_start:
  assumes "hm_inv (km_blocked_ips (xa_maps b))" "hm_get (km_blocked_ips (xa_maps b)) = Map.empty"
  shows "follows (xa_listeners b) [] hm_empty b"
  using assms by (simp add: follows_def backend_ok_def table_of_def listed_def)

text \<open>
  C8: dynamic blocks in the kernel.  The program keeps a list of blocks and writes them to a table of
  the kernel that may evict entries; blocking and expiry take several steps, between which other
  tasks run.  While every map operation of the kernel succeeds (removing a missing key apart), and no
  two listeners share their key or their protocol and port, for any interleaving of these steps since
  attaching: the list holds a block of a listener and address until \<open>u\<close> exactly when it was put there
  and since then neither replaced nor found past its end; the kernel blocks the address for the
  listener exactly when its key was written and since then neither removed as a key of this very
  listener and address nor evicted; and a whole expiry run from there leaves the kernel with exactly
  those keys whose listed end has not passed.
\<close>

theorem dynamic_blocks_mirrored:
  fixes steps spec ip
  assumes "\<forall>n. kn_ok kn n" "distinct (map spec_port (xa_listeners b))" "distinct (map xl_listener_key (xa_listeners b))"
    and "hm_inv (km_blocked_ips (xa_maps b))" "hm_get (km_blocked_ips (xa_maps b)) = Map.empty"
    and "spec \<in> set (xa_listeners b)"
    and "r = fold (run_step kn) steps
      \<lparr>xt_requested = True, xt_sync_dynamic_ban = True, xt_control_plane = Some hm_empty, xt_backend = Some b\<rparr>"
  defines "lkey \<equiv> xl_listener_key spec" and "key \<equiv> make_ip_key (xl_l4_proto spec) (xl_port spec) ip"
  shows "\<exists>blocks b'. xt_control_plane r = Some blocks \<and> xt_backend r = Some b'
    \<and> (\<forall>u. map_option xbe_until (hm_get blocks (block_key lkey ip)) = Some u \<longleftrightarrow>
         since (enlists lkey ip u) (delists lkey ip u) steps)
    \<and> (hm_get (km_blocked_ips (xa_maps b')) key \<noteq> None \<longleftrightarrow>
         since (writes lkey ip) (unwrites (xa_listeners b) spec ip) steps)
    \<and> (\<forall>now. \<exists>b''. xt_backend (xdp_prune_expired kn now r) = Some b''
         \<and> (hm_get (km_blocked_ips (xa_maps b'')) key \<noteq> None \<longleftrightarrow>
              since (writes lkey ip) (unwrites (xa_listeners b) spec ip) steps
              \<and> \<not> (\<exists>u \<le> now. since (enlists lkey ip u) (delists lkey ip u) steps)))"
proof -
  have ok: "\<And>n. kn_ok kn n" using assms(1) by simp
  obtain blocks b' where f: "running r blocks b'" "follows (xa_listeners b) steps blocks b'"
    using steps_follow [OF ok assms(2,3) follows_start [OF assms(4,5)], of _ steps] unfolding assms(7) running_def by blast
  have tab: "hm_get (km_blocked_ips (xa_maps c)) key \<noteq> None \<longleftrightarrow> spec_ip_key spec ip \<in> table_of c" for c
    by (simp add: key_def spec_ip_key_def table_of_def domIff)
  show ?thesis
    unfolding tab using f prune_follows [OF ok assms(2,3) f(2,1) assms(6), of _ ip] assms(6)
    unfolding lkey_def running_def follows_def listed_def by simp
qed

definition example_backend :: aya_backend where
  "example_backend = \<lparr>xa_listeners = [example_spec], xa_maps = empty_maps, xa_keys = xdp_static_keys_empty, xa_fingerprint = None, xa_ops = 0\<rparr>"

text \<open>
  A block until 10, an expiry run that finds it past its end, and a new block until 20 whose key is
  written before the run removes it: the list says until 20 and the kernel lets the address pass.
\<close>

theorem dynamic_blocks_mirrored_witness:
  "let l = xl_listener_key example_spec; a = V4 9;
       r = fold (run_step example_kernel) [ListBlock l a 10 ''x'', WriteBlock l a (\<lambda>_. []), ListExpired 10,
         ListBlock l a 20 ''y'', WriteBlock l a (\<lambda>_. []), RemoveBlock (block_key l a)]
         \<lparr>xt_requested = True, xt_sync_dynamic_ban = True, xt_control_plane = Some hm_empty, xt_backend = Some example_backend\<rparr>
   in \<exists>blocks b. xt_control_plane r = Some blocks \<and> xt_backend r = Some b
      \<and> map_option xbe_until (hm_get blocks (block_key l a)) = Some 20
      \<and> hm_get (km_blocked_ips (xa_maps b)) (make_ip_key (xl_l4_proto example_spec) (xl_port example_spec) a) = None"
proof -
  define l where "l = xl_listener_key example_spec"
  define a where "a = V4 9"
  define steps where "steps = [ListBlock l a 10 ''x'', WriteBlock l a (\<lambda>_. []), ListExpired 10,
         ListBlock l a 20 ''y'', WriteBlock l a (\<lambda>_. []), RemoveBlock (block_key l a)]"
  have c: "\<forall>n. kn_ok example_kernel n" "distinct (map spec_port (xa_listeners example_backend))"
    "distinct (map xl_listener_key (xa_listeners example_backend))" "hm_inv (km_blocked_ips (xa_maps example_backend))"
    "hm_get (km_blocked_ips (xa_maps example_backend)) = Map.empty" "example_spec \<in> set (xa_listeners example_backend)"
    by (auto simp: example_kernel_def example_backend_def empty_maps_def)
  have snoc: "steps = take 5 steps @ [RemoveBlock (block_key l a)]" by (simp add: steps_def)
  have 1: "\<not> since (writes l a) (unwrites (xa_listeners example_backend) example_spec a) steps"
    by (subst snoc, subst since_snoc) (simp add: l_def)
  have 2: "since (enlists l a 20) (delists l a 20) steps"
    unfolding since_def by (intro exI [of _ "take 3 steps"] exI [of _ "steps ! 3"] exI [of _ "drop 4 steps"]) (simp add: steps_def)
  define r where "r = fold (run_step example_kernel) steps
     \<lparr>xt_requested = True, xt_sync_dynamic_ban = True, xt_control_plane = Some hm_empty, xt_backend = Some example_backend\<rparr>"
  obtain blocks b where "xt_control_plane r = Some blocks" "xt_backend r = Some b"
      "map_option xbe_until (hm_get blocks (block_key l a)) = Some 20 \<longleftrightarrow> since (enlists l a 20) (delists l a 20) steps"
      "hm_get (km_blocked_ips (xa_maps b)) (make_ip_key (xl_l4_proto example_spec) (xl_port example_spec) a) \<noteq> None \<longleftrightarrow>
         since (writes l a) (unwrites (xa_listeners example_backend) example_spec a) steps"
    using dynamic_blocks_mirrored [OF c r_def, of a, folded l_def] by (elim exE conjE) blast
  with 1 2 show ?thesis
    unfolding Let_def l_def [symmetric] a_def [symmetric] steps_def [symmetric] r_def [symmetric]
    by (intro exI [of _ blocks] exI [of _ b]) simp
qed

end
