(* ===== verification/Spec2Isabelle.thy ===== *)
theory Spec2Isabelle
  imports Config_Validate Geo Threat Affinity Routing Replication Throttle Ha Security Upstreams Stun Tcp_Pool Kernel_Blocks
begin

text \<open>
  A verification development of \<open>sigproxy-rs\<close>, a SIP proxy with registration, dialog affinity,
  packet filtering in user space and in the kernel, durable state and active-standby failover.
  Paths are those under \<open>src/src\<close> of the repository unless they say otherwise.

  \<^bold>\<open>How the program works.\<close>  A configuration (\<open>config.rs\<close>) is read, its placeholders are
  expanded and it is validated.  Listeners receive datagrams and TCP streams; each packet passes
  the security checks of its listener (\<open>SecurityRuntime\<close> in \<open>proxy/server.rs\<close>), which consult the
  country table (\<open>proxy/geo.rs\<close>), the threat feeds (\<open>proxy/threat.rs\<close>), token buckets and bans;
  the same address checks can be moved to an XDP program in the kernel (\<open>proxy/xdp.rs\<close>,
  \<open>src/bpf/sigproxy_xdp.c\<close>).  A request is forwarded (\<open>prepare_forward\<close> and its callers) to a
  registered contact, to the target a dialog is bound to (\<open>proxy/affinity.rs\<close>), to a target named
  by the message or to a server of an upstream group chosen by route and health
  (\<open>proxy/routing.rs\<close>, \<open>UpstreamGroups\<close>); a response finds its way back through the branch the proxy
  put into its Via.  Registrations go to a shared registry (\<open>cluster/mod.rs\<close>), are written to SQLite
  (\<open>persistence.rs\<close>) and reach the standby through snapshots and events (\<open>ha/mod.rs\<close>).

  \<^bold>\<open>Foundations.\<close>
  \<^item> \<open>Prelude\<close>: machine integers, \<open>Result\<close> as a sum, byte strings, \<open>HashMap\<close> as an association list
    with distinct keys; the interface \<open>map_store\<close> of a key/value store, interpreted by it.
  \<^item> \<open>Rust_Std\<close>, \<open>Net\<close>, \<open>Addr_Text\<close>, \<open>F64\<close>: what the source uses of the standard library (text, numbers,
    clocks, addresses and their parsers and printers, binary64 arithmetic), executable.
  \<^item> \<open>Sharded\<close>: the sharded maps, for any hash; they keep \<open>map_store\<close>.  \<open>Expiring\<close>: tables whose entries
    die (\<open>expiring_store\<close>): pruning is invisible.  \<open>Ranges\<close>: range tables (\<open>range_table\<close>).

  \<^bold>\<open>Components.\<close>  One theory each; a struct is a record with the fields of the source, a function
  is a definition of its name.
  \<^item> \<open>Config\<close>, \<open>Config_Validate\<close> (\<open>config.rs\<close>): all settings, presets, the layering of security settings,
    \<open>Config::validate\<close> and placeholder expansion.  An accepted configuration is closed, and no literal
    upstream server of a listener is that listener's own bind address or an address of the section
    \<open>sip\<close>; what a wildcard bind hides from that check is shown as well.
  \<^item> \<open>Geo\<close>, \<open>Threat\<close> (\<open>proxy/geo.rs\<close>, \<open>proxy/threat.rs\<close>): parsers of zone files and feeds, range tables,
    policies, caches, the prefixes given to the kernel.  The look-up answers what the files say, the
    caches are read back as they were written.
  \<^item> \<open>Security\<close>, \<open>Rate_Limit\<close>, \<open>Throttle\<close> (\<open>proxy/server.rs\<close>, \<open>ha/mod.rs\<close>): the packet and request checks, bans
    and offenses, token buckets in exact binary64 arithmetic, logs that warn once per interval
    (\<open>throttled_log\<close>).  A ban lasts, the limits hold over any span of time.
  \<^item> \<open>Xdp\<close>, \<open>Xdp_Filter\<close>, \<open>Kernel_Filter\<close>, \<open>Kernel_Blocks\<close> (\<open>proxy/xdp.rs\<close> and \<open>evaluate_packet\<close> of
    \<open>src/bpf/sigproxy_xdp.c\<close>): what is written to the maps of the kernel and what the filter does with it.
    The tables hold exactly what the last refresh asked for, the filter decides as the user-space
    checks do but for the order, dynamic blocks follow the steps of blocking and expiry in any
    interleaving, evictions of the kernel included; entries of an earlier process stay in force.
  \<^item> \<open>Affinity\<close>, \<open>Routing\<close>, \<open>Upstreams\<close>, \<open>Advertise\<close>, \<open>Stun\<close> (\<open>proxy/affinity.rs\<close>, \<open>proxy/routing.rs\<close>,
    \<open>proxy/server.rs\<close>): bindings of dialogs, route selection, round robin over healthy servers, the
    proxy's own addresses, STUN.
  \<^item> \<open>Sip_Message\<close>, \<open>Transactions\<close>, \<open>Metrics\<close>, \<open>Handler\<close>, \<open>Registration\<close>, \<open>Forward\<close>, \<open>Dispatch\<close>, \<open>Tcp_Pool\<close>
    (\<open>sip/message.rs\<close>, \<open>proxy/metrics.rs\<close>, \<open>proxy/registry.rs\<close>, \<open>proxy/server.rs\<close>): messages, the
    transaction tables, counters, and the handlers from an arriving packet to what is sent.  A
    handler is a function from the state to a result (a value, an error of the source or a panic) and a
    state; \<open>handler_frame\<close> and the locales built on it say what a handler leaves alone.  A response goes
    to the peer whose packet stored its branch, a forwarded request leaves the listener that received
    it, retransmissions are absorbed, a granted registration is found until it ends, the buffers of
    the stream reader are bounded on endless streams too.
  \<^item> \<open>Cluster\<close>, \<open>Persistence\<close>, \<open>Checksum\<close>, \<open>Replication\<close>, \<open>Ha\<close> (\<open>cluster/mod.rs\<close>, \<open>persistence.rs\<close>,
    \<open>ha/mod.rs\<close>): the registry as a refinement of a map of live contacts, the database statement by
    statement with transactions that may fail and tasks that may be lost, snapshots and events, and the two nodes as a
    transition system with failover.

  \<^bold>\<open>What is an argument.\<close>  Code outside the repository is a parameter with the laws the code relies on
  as hypotheses: the \<open>rsipstack\<close> parser, printer, typed headers and codec (\<open>rsip_lib\<close>, \<open>header_lib\<close>,
  \<open>sip_codec\<close>), \<open>serde_json\<close>, hash functions, name resolution, the URI parser, the shell, the kernel's
  map operations and prefix look-up (\<open>xdp_kernel\<close>, \<open>prefix_tables\<close>).  Clock readings, outcomes of sends
  and of database accesses and the answers of peers are arguments or streams of the environment.

  \<^bold>\<open>Bounds.\<close>  Three loops carry fuel.  \<open>pop_own_route_headers\<close> gets the weight of the Route headers, which
  every popped value lowers; \<open>prepared_request_leaves_proxy\<close> includes that it never runs out.  The inner
  loop of \<open>read_message\<close> gets one step more than \<open>max_message_bytes\<close>, which is enough by
  \<open>tcp_reader_bounded\<close> for a codec that takes keep-alives off the buffer.  Its outer loop reads a stream
  that may never end and is a \<open>partial_function\<close>: a call that does not return is the value \<open>None\<close>, and
  the theorem says when that can be.  The loop that waits for the answers of a TCP upstream gets the number of answers
  it may take; running out is the value \<open>Diverged\<close>.  All other recursions are total.

  \<^bold>\<open>Not modelled.\<close>  Sockets, task spawning, select loops and the queues between tasks; HTTP servers and
  clients; file and TOML access; the text of the metrics page; sending health probes; the command line
  (\<open>app.rs\<close>, \<open>bin/sigproxy.rs\<close>) and the \<open>u128\<close> adapters of serde.  They only carry the inputs and outputs
  of the definitions here.  Packet parsing and rate limits of the C program are left out as well.
  Handlers are single steps but where a theory says otherwise: \<open>Cluster\<close> (look-up across two locks),
  \<open>Replication\<close> (a snapshot within a submit), \<open>Kernel_Blocks\<close> (blocking and expiry of several tasks) and
  \<open>Ha\<close> (requests, answers and failures in any order).  So submits that overlap, results of health
  checks recorded at the same time and rate-limit calls that overtake each other between reading
  the clock and taking the lock are outside the theorems.

  The theorem below spans validation, routing and upstream selection.
\<close>

text \<open>
  C31: where a request can be sent.  Once a configuration is accepted and its groups are
  resolved, selecting an upstream for any concrete listener and any Request-URI always answers,
  whatever selections, passive failures and probe results came before: with the listener's
  transport and the address of a server of one configured group, namely the group of the route
  that the route table selects, or the listener's own group when it selects none; and a server
  given as a literal address is neither one of the configured addresses of the section \<open>sip\<close> nor
  the (non-wildcard) bind address of this listener.
\<close>

theorem forwarding_targets_safe:
  assumes "validate parse_uri c = Inr ()"
    and "upstream_groups_new resolve (px_upstream_groups (c_proxy c)) = Inr u0"
    and "l \<in> set (px_listeners (c_proxy c))" and "cl \<in> set (concrete_listeners l)"
  shows "\<exists>g server addr. g \<in> set (px_upstream_groups (c_proxy c)) \<and> server \<in> set (ug_servers g)
    \<and> ug_name g = (case route_select uri_host (route_table_new (c_proxy c)) (listener_key cl) uri of
        None \<Rightarrow> l_upstream_group cl | Some r \<Rightarrow> sr_upstream_group r)
    \<and> fst (select_upstream uri_host (route_table_new (c_proxy c)) uri cl (fold ups_step ops u0)) =
        Some \<lparr>ut_addr = addr, ut_transport = l_transport cl\<rparr>
    \<and> resolve_upstream_server resolve (ug_name g) server = Inr addr
    \<and> (parse_sock server \<noteq> None \<longrightarrow> addr \<notin> snd ` set (proxy_self_addrs_for_listener (c_sip c) cl))"
proof -
  define gname where "gname = (case route_select uri_host (route_table_new (c_proxy c)) (listener_key cl) uri of
      None \<Rightarrow> l_upstream_group cl | Some r \<Rightarrow> sr_upstream_group r)"
  note used = selected_group_used [OF assms(1,3,4), of uri_host uri, folded gname_def]
  then obtain g where g: "g \<in> set (px_upstream_groups (c_proxy c))" "ug_name g = gname" by blast
  have "groups_hold resolve (px_upstream_groups (c_proxy c)) (ups_groups (fold ups_step ops u0))"
    by (rule groups_hold_run [OF groups_hold_new [OF assms(2) validated_groups(1) [OF assms(1)]]])
  from ups_select_held [OF this g(1) validated_groups(2) [OF assms(1) g(1)]] obtain addr server where
    sel: "fst (ups_select gname (fold ups_step ops u0)) = Inr addr" "server \<in> set (ug_servers g)"
      "resolve_upstream_server resolve gname server = Inr addr" unfolding g(2) by blast
  have "fst (select_upstream uri_host (route_table_new (c_proxy c)) uri cl (fold ups_step ops u0)) =
        Some \<lparr>ut_addr = addr, ut_transport = l_transport cl\<rparr>"
    using sel(1) by (simp add: select_upstream_def Let_def split_beta flip: gname_def)
  moreover have "parse_sock server \<noteq> None \<longrightarrow> addr \<notin> snd ` set (proxy_self_addrs_for_listener (c_sip c) cl)"
    using validated_groups(3) [OF assms(1,3,4) g(1) _ sel(2)] used(2) sel(3) g(2)
    by (auto simp: resolve_upstream_server_def split: option.splits)
  ultimately show ?thesis
    unfolding gname_def [symmetric] using g sel by (intro exI [of _ g] exI [of _ server] exI [of _ addr]) simp
qed

text \<open>The number 911 goes to the carrier's server over the route that names the listener by its alias.\<close>

theorem forwarding_targets_safe_witness:
  "\<exists>u0. upstream_groups_new (\<lambda>_. None) (px_upstream_groups (c_proxy routed_config)) = Inr u0 \<and>
    fst (select_upstream (\<lambda>_. None) (route_table_new (c_proxy routed_config)) ''sip:911@x''
      \<lparr>l_bind = ''0.0.0.0:5060'', l_transport = Tcp, l_upstream_group = ''default'', l_security = None\<rparr>
      (fold ups_step [UpsPassive (SockV4 2130706433 5081) False, UpsSelect ''carrier''] u0)) =
      Some \<lparr>ut_addr = SockV4 2130706433 5081, ut_transport = Tcp\<rparr>"
proof -
  let ?l = "\<lparr>l_bind = ''0.0.0.0:5060'', l_transport = TcpUdp, l_upstream_group = ''default'', l_security = None\<rparr>"
  let ?cl = "\<lparr>l_bind = ''0.0.0.0:5060'', l_transport = Tcp, l_upstream_group = ''default'', l_security = None\<rparr>"
  let ?ops = "[UpsPassive (SockV4 2130706433 5081) False, UpsSelect ''carrier'']"
  obtain u0 where u0: "upstream_groups_new (\<lambda>_. None) (px_upstream_groups (c_proxy routed_config)) = Inr u0"
    by (simp add: upstream_groups_new_def upstream_group_new_def resolve_upstream_server_def parse_default_server
        parse_carrier_server routed_config_def default_proxy_def Let_def)
  have route: "route_select (\<lambda>_. None) (route_table_new (c_proxy routed_config)) (listener_key ?cl) ''sip:911@x'' =
      Some \<lparr>sr_name = ''trunk'', sr_upstream_group = ''carrier''\<rparr>"
    by code_simp
  have groups: "set (px_upstream_groups (c_proxy routed_config)) = {\<lparr>ug_name = ''default'', ug_mode = RoundRobin,
       ug_health_check = default_health_check, ug_servers = [''127.0.0.1:5080'']\<rparr>,
      \<lparr>ug_name = ''carrier'', ug_mode = RoundRobin, ug_health_check = default_health_check, ug_servers = [''127.0.0.1:5081'']\<rparr>}"
    by (simp add: routed_config_def default_proxy_def)
  have "?l \<in> set (px_listeners (c_proxy routed_config))" by (simp add: routed_config_def)
  moreover have "?cl \<in> set (concrete_listeners ?l)" by (simp add: concrete_listeners_def with_transport_def)
  ultimately obtain g server addr where "g \<in> set (px_upstream_groups (c_proxy routed_config))" "server \<in> set (ug_servers g)"
      "ug_name g = ''carrier''" "resolve_upstream_server (\<lambda>_. None) (ug_name g) server = Inr addr"
      "fst (select_upstream (\<lambda>_. None) (route_table_new (c_proxy routed_config)) ''sip:911@x'' ?cl (fold ups_step ?ops u0)) =
        Some \<lparr>ut_addr = addr, ut_transport = Tcp\<rparr>"
    using forwarding_targets_safe [OF validate_routed_config u0, of ?l ?cl "\<lambda>_. None" "''sip:911@x''" ?ops]
    unfolding route option.case proxy_listener_config.select_convs selected_route.select_convs by blast
  moreover from this have "addr = SockV4 2130706433 5081"
    unfolding groups by (auto simp: resolve_upstream_server_def parse_carrier_server)
  ultimately show ?thesis using u0 by (intro exI [of _ u0]) (simp del: fold_simps)
qed

end
